(* ===== verification/Prelude.thy ===== *)
theory Prelude
  imports Main "HOL-Library.Word"
begin

text \<open>
  Shared vocabulary of the development: the C integer types of \<open>my_global.h\<close> as words, byte
  memory as lists with checked access, the collections that carry the component proofs, and the
  generic lemmas on words, options and lists that several components use.

  A C expression whose behaviour is undefined (a read or write outside an object, a shift by the
  width or more) is the value \<^term>\<open>None\<close> of an option type; a debug assertion that release builds
  drop is not part of a definition, it appears as a hypothesis of the lemma that needs it.
\<close>

unbundle bit_operations_syntax

subsection \<open>The C integer types\<close>

type_synonym uchar = "8 word"
type_synonym uint8 = "8 word"
type_synonym uint16 = "16 word"
type_synonym uint32 = "32 word"
type_synonym uint = "32 word"
type_synonym ulong = "32 word"
type_synonym ulonglong = "64 word"
type_synonym longlong = "64 word"
type_synonym bytes = "uchar list"

subsection \<open>Checked access to byte and element arrays\<close>

definition arr_get :: "'a list \<Rightarrow> nat \<Rightarrow> 'a option" where
  "arr_get xs i = (if i < length xs then Some (xs ! i) else None)"

definition arr_set :: "'a list \<Rightarrow> nat \<Rightarrow> 'a \<Rightarrow> 'a list option" where
  "arr_set xs i v = (if i < length xs then Some (xs[i := v]) else None)"

text \<open>\<open>memcpy\<close> into a buffer at an offset: undefined unless the whole target lies inside.\<close>

definition arr_blit :: "'a list \<Rightarrow> nat \<Rightarrow> 'a list \<Rightarrow> 'a list option" where
  "arr_blit xs i ys =
     (if i + length ys \<le> length xs
      then Some (take i xs @ ys @ drop (i + length ys) xs) else None)"

text \<open>The bytes a read of \<open>n\<close> elements at an offset sees: undefined outside the array.\<close>

definition arr_slice :: "'a list \<Rightarrow> nat \<Rightarrow> nat \<Rightarrow> 'a list option" where
  "arr_slice xs i n = (if i + n \<le> length xs then Some (take n (drop i xs)) else None)"

subsection \<open>Collections\<close>

named_theorems c_simps \<open>evaluation rules of the C memory and arithmetic primitives\<close>
named_theorems bit_evals \<open>bit-level readings of the operations of the components\<close>

lemma arr_get_Some [simp]: "i < length xs \<Longrightarrow> arr_get xs i = Some (xs ! i)"
  by (simp add: arr_get_def)

lemma arr_get_None [simp]: "length xs \<le> i \<Longrightarrow> arr_get xs i = None"
  by (simp add: arr_get_def)

lemma arr_get_eq_Some_iff [c_simps]: "arr_get xs i = Some v \<longleftrightarrow> i < length xs \<and> xs ! i = v"
  by (auto simp: arr_get_def)

lemma arr_set_Some [simp]: "i < length xs \<Longrightarrow> arr_set xs i v = Some (xs[i := v])"
  by (simp add: arr_set_def)

lemma arr_set_eq_Some_iff [c_simps]:
  "arr_set xs i v = Some ys \<longleftrightarrow> i < length xs \<and> ys = xs[i := v]"
  by (auto simp: arr_set_def)

lemma arr_blit_eq_Some_iff [c_simps]:
  "arr_blit xs i ys = Some zs \<longleftrightarrow>
     i + length ys \<le> length xs \<and> zs = take i xs @ ys @ drop (i + length ys) xs"
  by (auto simp: arr_blit_def)

lemma length_arr_blit: "arr_blit xs i ys = Some zs \<Longrightarrow> length zs = length xs"
  by (auto simp: c_simps)

lemma arr_slice_eq_Some_iff [c_simps]:
  "arr_slice xs i n = Some ys \<longleftrightarrow> i + n \<le> length xs \<and> ys = take n (drop i xs)"
  by (auto simp: arr_slice_def)

lemma length_arr_slice: "arr_slice xs i n = Some ys \<Longrightarrow> length ys = n"
  by (auto simp: c_simps)

text \<open>A read of what was just written, and of what a write elsewhere leaves alone.\<close>

lemma arr_slice_blit_same:
  "arr_blit xs i ys = Some zs \<Longrightarrow> arr_slice zs i (length ys) = Some ys"
  by (auto simp: c_simps)

lemma arr_slice_blit_frame:
  assumes "arr_blit xs i ys = Some zs" "j + n \<le> i \<or> i + length ys \<le> j"
  shows "arr_slice zs j n = arr_slice xs j n"
proof (cases "j + n \<le> length xs")
  case True
  from assms(1) have z: "zs = take i xs @ ys @ drop (i + length ys) xs" "i + length ys \<le> length xs"
    by (auto simp: c_simps)
  have "take n (drop j zs) = take n (drop j xs)"
  proof (cases "j + n \<le> i")
    case True
    then have "take (n + j) zs = take (n + j) xs" using z by (simp add: min_def)
    then show ?thesis by (simp add: take_drop)
  next
    case False
    with assms(2) have "i + length ys \<le> j" by simp
    then show ?thesis using z by (simp add: add.commute)
  qed
  then show ?thesis using True assms(1) by (simp add: arr_slice_def length_arr_blit)
next
  case False
  then show ?thesis using assms(1) by (simp add: arr_slice_def length_arr_blit)
qed

lemma all_split_at:
  assumes "d \<le> (K :: nat)"
  shows "(\<forall>j < K. P j) \<longleftrightarrow> (\<forall>j < d. P j) \<and> (\<forall>j. d \<le> j \<and> j < K \<longrightarrow> P j)"
proof -
  have "{..<K} = {..<d} \<union> {d..<K}" using assms by auto
  then have "(\<forall>j \<in> {..<K}. P j) \<longleftrightarrow> (\<forall>j \<in> {..<d}. P j) \<and> (\<forall>j \<in> {d..<K}. P j)" by auto
  then show ?thesis by (simp add: Ball_def)
qed

text \<open>Writes of adjacent pieces are one write.\<close>

lemma arr_blit_append:
  "Option.bind (arr_blit buf T xs) (\<lambda>buf'. arr_blit buf' (T + length xs) ys) = arr_blit buf T (xs @ ys)"
  by (cases xs) (auto simp: arr_blit_def min_def ac_simps)

lemma arr_blit_prepend:
  "Option.bind (arr_blit buf (T + length xs) ys) (\<lambda>buf'. arr_blit buf' T xs) = arr_blit buf T (xs @ ys)"
  by (cases xs) (auto simp: arr_blit_def min_def ac_simps)

lemma arr_slice_split:
  "arr_slice mem i (m + n) = Some w \<longleftrightarrow>
     (\<exists>u v. w = u @ v \<and> arr_slice mem i m = Some u \<and> arr_slice mem (i + m) n = Some v)"
  by (simp add: arr_slice_eq_Some_iff take_add add.commute [of m i] add.assoc [symmetric]) auto

lemma arr_set_eq_blit: "arr_set buf i v = arr_blit buf i [v]"
  by (auto simp: arr_set_def arr_blit_def upd_conv_take_nth_drop)

lemma map_slice_cong:
  "(\<And>b. length b = k \<Longrightarrow> f b = g b) \<Longrightarrow> map_option f (arr_slice buf A k) = map_option g (arr_slice buf A k)"
  by (auto simp: arr_slice_def)

subsection \<open>Words\<close>

lemma bit_not_word_iff: "bit (NOT (x :: 'a::len word)) n \<longleftrightarrow> n < LENGTH('a) \<and> \<not> bit x n"
  by (auto simp: bit_not_iff)

lemma bit_word8_beyond [simp]: "8 \<le> n \<Longrightarrow> \<not> bit (x :: 8 word) n"
  using bit_imp_le_length [of x n] by auto

lemma bit_word16_beyond [simp]: "16 \<le> n \<Longrightarrow> \<not> bit (x :: 16 word) n"
  using bit_imp_le_length [of x n] by auto

lemma bit_word32_beyond [simp]: "32 \<le> n \<Longrightarrow> \<not> bit (x :: 32 word) n"
  using bit_imp_le_length [of x n] by auto

lemma bit_word64_beyond [simp]: "64 \<le> n \<Longrightarrow> \<not> bit (x :: 64 word) n"
  using bit_imp_le_length [of x n] by auto

text \<open>Two words are equal when they agree on every bit position below their length.\<close>

lemma word_bit_eqI:
  fixes x y :: "'a::len word"
  assumes "\<And>n. n < LENGTH('a) \<Longrightarrow> bit x n \<longleftrightarrow> bit y n"
  shows "x = y"
  using assms by (intro bit_word_eqI) simp

text \<open>
  For a 64-bit word with an unknown value but known masks the agreement is decided position by
  position: the simplifier evaluates the 64 positions.
\<close>

lemma upt_64: "[0..<64] =
    [0, 1, 2, 3, 4, 5, 6, 7, 8, 9, 10, 11, 12, 13, 14, 15,
     16, 17, 18, 19, 20, 21, 22, 23, 24, 25, 26, 27, 28, 29, 30, 31,
     32, 33, 34, 35, 36, 37, 38, 39, 40, 41, 42, 43, 44, 45, 46, 47,
     48, 49, 50, 51, 52, 53, 54, 55, 56, 57, 58, 59, 60, 61, 62, 63]"
  by (simp add: upt_conv_Cons)

lemma word64_eqI:
  fixes x y :: "64 word"
  assumes "list_all (\<lambda>n. bit x n \<longleftrightarrow> bit y n) [0..<64]"
  shows "x = y"
  using assms by (intro word_bit_eqI) (auto simp: list_all_iff)

lemma upt_32: "[0..<32] =
    [0, 1, 2, 3, 4, 5, 6, 7, 8, 9, 10, 11, 12, 13, 14, 15,
     16, 17, 18, 19, 20, 21, 22, 23, 24, 25, 26, 27, 28, 29, 30, 31]"
  by (simp add: upt_conv_Cons)

lemma word32_eqI:
  fixes x y :: "32 word"
  assumes "list_all (\<lambda>n. bit x n \<longleftrightarrow> bit y n) [0..<32]"
  shows "x = y"
  using assms by (intro word_bit_eqI) (auto simp: list_all_iff)

lemma upt_16: "[0..<16] = [0, 1, 2, 3, 4, 5, 6, 7, 8, 9, 10, 11, 12, 13, 14, 15]"
  by (simp add: upt_conv_Cons)

lemma word16_eqI:
  fixes x y :: "16 word"
  assumes "list_all (\<lambda>n. bit x n \<longleftrightarrow> bit y n) [0..<16]"
  shows "x = y"
  using assms by (intro word_bit_eqI) (auto simp: list_all_iff)

lemma word_eq_0_iff_bits:
  fixes x :: "'a::len word"
  shows "x = 0 \<longleftrightarrow> (\<forall>n < LENGTH('a). \<not> bit x n)"
  by (auto intro!: word_bit_eqI simp: bit_simps)

lemma unat_lt_iff_high_bits:
  fixes x :: "'a::len word"
  shows "unat x < 2 ^ k \<longleftrightarrow> drop_bit k x = 0"
proof -
  have "unat (drop_bit k x) = unat x div 2 ^ k"
    by (metis unat_drop_bit_eq drop_bit_eq_div)
  moreover have "unat x div 2 ^ k = 0 \<longleftrightarrow> unat x < 2 ^ k"
    by (simp add: div_eq_0_iff)
  ultimately show ?thesis
    by (metis unat_eq_zero)
qed

lemma less_pow_iff_no_high_bit:
  fixes x :: "'a::len word"
  shows "unat x < 2 ^ k \<longleftrightarrow> (\<forall>n. k \<le> n \<longrightarrow> \<not> bit x n)"
proof -
  have "drop_bit k x = 0 \<longleftrightarrow> (\<forall>n. \<not> bit x (k + n))"
    using bit_imp_le_length by (fastforce simp: bit_eq_iff bit_drop_bit_eq)
  also have "\<dots> \<longleftrightarrow> (\<forall>n. k \<le> n \<longrightarrow> \<not> bit x n)"
    by (metis le_Suc_ex le_add1)
  finally show ?thesis by (simp add: unat_lt_iff_high_bits)
qed

lemma unat_ge_iff_high_mask:
  fixes x :: "'a::len word"
  shows "x AND NOT (mask k) = 0 \<longleftrightarrow> unat x < 2 ^ k"
proof -
  have "x AND NOT (mask k) = push_bit k (drop_bit k x)"
    by (rule word_bit_eqI) (auto simp: bit_simps)
  moreover have "push_bit k (drop_bit k x) = 0 \<longleftrightarrow> drop_bit k x = 0"
  proof
    assume "push_bit k (drop_bit k x) = 0"
    then have "\<not> bit x n" if "k \<le> n" for n
      using that bit_imp_le_length [of x n]
      by (auto simp: word_eq_0_iff_bits bit_simps)
    then show "drop_bit k x = 0"
      by (simp add: word_eq_0_iff_bits bit_simps)
  qed simp
  ultimately show ?thesis by (simp add: unat_lt_iff_high_bits)
qed

lemma unat_drop_bit [simp]: "unat (drop_bit k (x :: 'a::len word)) = unat x div 2 ^ k"
  by (metis unat_drop_bit_eq drop_bit_eq_div)

lemma unat_ucast_small:
  fixes x :: "'a::len word"
  assumes "unat x < 2 ^ LENGTH('b::len)"
  shows "unat (ucast x :: 'b word) = unat x"
  using assms by (simp add: unsigned_ucast_eq take_bit_nat_eq_self)

text \<open>A non-zero word has a highest set bit, and it brackets the value between powers of two.\<close>

lemma highest_bit_ex:
  fixes x :: "'a::len word"
  assumes "x \<noteq> 0"
  obtains h where "h < LENGTH('a)" "bit x h" "\<And>m. h < m \<Longrightarrow> \<not> bit x m"
proof -
  let ?S = "{n. bit x n}"
  have fin: "finite ?S"
    by (rule finite_subset [of _ "{..<LENGTH('a)}"]) (auto dest: bit_imp_le_length)
  have ne: "?S \<noteq> {}" using assms by (auto simp: word_eq_0_iff_bits)
  have "Max ?S \<in> ?S" using fin ne by (rule Max_in)
  moreover have "\<not> bit x m" if "Max ?S < m" for m
    using fin that Max_ge leD by blast
  ultimately show ?thesis using that bit_imp_le_length by blast
qed

lemma highest_bit_bounds:
  fixes x :: "'a::len word"
  assumes "bit x h" "\<And>m. h < m \<Longrightarrow> \<not> bit x m"
  shows "2 ^ h \<le> unat x" "unat x < 2 ^ Suc h"
proof -
  show "2 ^ h \<le> unat x"
    using assms(1) less_pow_iff_no_high_bit [of x h] by (meson le_refl not_le_imp_less)
  show "unat x < 2 ^ Suc h"
    using assms(2) less_pow_iff_no_high_bit [of x "Suc h"] by (simp add: Suc_le_eq)
qed

lemma bind_map_option: "Option.bind x (\<lambda>m. map_option f (g m)) = map_option f (Option.bind x g)"
  by (cases x) auto

lemma bind_eq_Some_iff: "Option.bind x f = Some y \<longleftrightarrow> (\<exists>z. x = Some z \<and> f z = Some y)"
  by (cases x) auto

subsection \<open>Sequences of fallible operations\<close>

text \<open>An operation applied to the elements of a list from left to right.\<close>

fun foldM :: "('b \<Rightarrow> 'a \<Rightarrow> 'b option) \<Rightarrow> 'a list \<Rightarrow> 'b \<Rightarrow> 'b option" where
  "foldM f [] b = Some b"
| "foldM f (x # xs) b = Option.bind (f b x) (foldM f xs)"

text \<open>An operation that yields a value, performed a number of times; the values in order.\<close>

fun repeatM :: "('s \<Rightarrow> ('v \<times> 's) option) \<Rightarrow> nat \<Rightarrow> 's \<Rightarrow> ('v list \<times> 's) option" where
  "repeatM f 0 s = Some ([], s)"
| "repeatM f (Suc n) s = Option.bind (f s) (\<lambda>(x, s'). map_option (\<lambda>(xs, t). (x # xs, t)) (repeatM f n s'))"

lemma repeatM_add:
  "repeatM f (m + n) s = Option.bind (repeatM f m s) (\<lambda>(xs, t). map_option (\<lambda>(ys, u). (xs @ ys, u)) (repeatM f n t))"
proof (induction m arbitrary: s)
  case 0
  show ?case by (cases "repeatM f n s") auto
next
  case (Suc m)
  show ?case
  proof (cases "f s")
    case (Some p)
    then obtain x s' where p: "f s = Some (x, s')" by (cases p) auto
    show ?thesis
    proof (cases "repeatM f m s'")
      case None
      then show ?thesis using Suc.IH [of s'] p by simp
    next
      case (Some q)
      then show ?thesis using Suc.IH [of s'] p by (cases q; cases "repeatM f n (snd q)") auto
    qed
  qed simp
qed

end
