(* ===== verification/MyBit.thy ===== *)
theory MyBit
  imports Prelude
begin

text \<open>
  The bit functions of \<open>include/mysql/server/private/my_bit.h\<close>: integer logarithm, population
  count, rounding to a power of two, masks and the search for the first set bit. Results that fit
  in a few bits are natural numbers; everything the code shifts or adds is a word of its C type.
\<close>

subsection \<open>Integer logarithm\<close>

definition my_bit_log2_hex_digit :: "uint8 \<Rightarrow> nat" where
  "my_bit_log2_hex_digit value =
     (if value AND 0x0C \<noteq> 0 then (if value AND 0x08 \<noteq> 0 then 3 else 2)
      else (if value AND 0x02 \<noteq> 0 then 1 else 0))"

definition my_bit_log2_uint8 :: "uint8 \<Rightarrow> nat" where
  "my_bit_log2_uint8 value =
     (if value AND 0xF0 \<noteq> 0 then my_bit_log2_hex_digit (drop_bit 4 value) + 4
      else my_bit_log2_hex_digit value)"

definition my_bit_log2_uint16 :: "uint16 \<Rightarrow> nat" where
  "my_bit_log2_uint16 value =
     (if value AND 0xFF00 \<noteq> 0 then my_bit_log2_uint8 (ucast (drop_bit 8 value)) + 8
      else my_bit_log2_uint8 (ucast value))"

definition my_bit_log2_uint32 :: "uint32 \<Rightarrow> nat" where
  "my_bit_log2_uint32 value =
     (if value AND 0xFFFF0000 \<noteq> 0 then my_bit_log2_uint16 (ucast (drop_bit 16 value)) + 16
      else my_bit_log2_uint16 (ucast value))"

definition my_bit_log2_uint64 :: "ulonglong \<Rightarrow> nat" where
  "my_bit_log2_uint64 value =
     (if value AND 0xFFFFFFFF00000000 \<noteq> 0 then my_bit_log2_uint32 (ucast (drop_bit 32 value)) + 32
      else my_bit_log2_uint32 (ucast value))"

subsection \<open>Population count\<close>

definition my_count_bits_uint32 :: "uint32 \<Rightarrow> uint32" where
  "my_count_bits_uint32 v0 =
     (let v1 = v0 - (drop_bit 1 v0 AND 0x55555555);
          v2 = (v1 AND 0x33333333) + (drop_bit 2 v1 AND 0x33333333)
      in drop_bit 24 (((v2 + drop_bit 4 v2) AND 0xF0F0F0F) * 0x1010101))"

definition my_count_bits :: "ulonglong \<Rightarrow> uint32" where
  "my_count_bits x = my_count_bits_uint32 (ucast x) + my_count_bits_uint32 (ucast (drop_bit 32 x))"

subsection \<open>Powers of two\<close>

definition my_round_up_to_next_power :: "uint32 \<Rightarrow> uint32" where
  "my_round_up_to_next_power v0 =
     (let v = v0 - 1;
          v = v OR drop_bit 1 v;
          v = v OR drop_bit 2 v;
          v = v OR drop_bit 4 v;
          v = v OR drop_bit 8 v;
          v = v OR drop_bit 16 v
      in v + 1)"

definition my_clear_highest_bit :: "uint32 \<Rightarrow> uint32" where
  "my_clear_highest_bit v =
     (let w = drop_bit 1 v;
          w = w OR drop_bit 1 w;
          w = w OR drop_bit 2 w;
          w = w OR drop_bit 4 w;
          w = w OR drop_bit 8 w;
          w = w OR drop_bit 16 w
      in v AND w)"

text \<open>
  \<open>_my_bits_reverse_table\<close> is an external table (\<open>extern const uchar[256]\<close>): a parameter.
  A table shorter than the index would be an out-of-range read.
\<close>

definition my_reverse_bits :: "uchar list \<Rightarrow> uint32 \<Rightarrow> uint32 option" where
  "my_reverse_bits table key =
     Option.bind (arr_get table (unat (key AND 255))) (\<lambda>b0.
     Option.bind (arr_get table (unat (drop_bit 8 key AND 255))) (\<lambda>b1.
     Option.bind (arr_get table (unat (drop_bit 16 key AND 255))) (\<lambda>b2.
     Option.bind (arr_get table (unat (drop_bit 24 key))) (\<lambda>b3.
       Some (push_bit 24 (ucast b0) OR push_bit 16 (ucast b1) OR push_bit 8 (ucast b2) OR ucast b3)))))"

subsection \<open>Masks\<close>

text \<open>The shift \<open>1ULL << (n - 1)\<close> is undefined for \<open>n - 1\<close> outside \<open>0..63\<close>.\<close>

definition my_set_bits :: "int \<Rightarrow> ulonglong option" where
  "my_set_bits n =
     (if n - 1 < 0 \<or> 64 \<le> n - 1 then None
      else Some (push_bit 1 (push_bit (nat (n - 1)) 1 - 1) OR 1))"

definition last_byte_mask :: "uint32 \<Rightarrow> uchar" where
  "last_byte_mask bits =
     (let used = (bits - 1) AND 7 in ucast (push_bit (unat used) (2 :: uint32) - 1))"

subsection \<open>First set bit\<close>

definition last_bit :: "nat list" where
  "last_bit = [32, 0, 1, 0, 2, 0, 1, 0, 3, 0, 1, 0, 2, 0, 1, 0]"

text \<open>
  The generic branch of \<open>my_find_first_bit\<close>. A shift count of 64 or more is undefined in C and
  ends the loop with \<^term>\<open>None\<close>; the lemmas below show that it is never reached.
\<close>

function find_first_bit_loop :: "ulonglong \<Rightarrow> nat \<Rightarrow> nat option" where
  "find_first_bit_loop n shift =
     (if 64 \<le> shift then None
      else let b = last_bit ! unat (drop_bit shift n AND 0xF)
           in if b = 32 then find_first_bit_loop n (shift + 4) else Some (shift + b))"
  by pat_completeness auto
termination
  by (relation "measure (\<lambda>(n, shift). 64 - shift)") auto

declare find_first_bit_loop.simps [simp del]

definition my_find_first_bit :: "ulonglong \<Rightarrow> nat option" where
  "my_find_first_bit n = (if n = 0 then Some 64 else find_first_bit_loop n 0)"

subsection \<open>Integer logarithm: the code finds the highest set bit\<close>

text \<open>\<open>log2_spec n r\<close>: \<open>r\<close> is the position of the highest bit of \<open>n\<close>, and 0 for 0.\<close>

definition log2_spec :: "nat \<Rightarrow> nat \<Rightarrow> bool" where
  "log2_spec n r \<longleftrightarrow> (if n = 0 then r = 0 else 2 ^ r \<le> n \<and> n < 2 ^ Suc r)"

lemma log2_spec_unique: "log2_spec n r \<Longrightarrow> log2_spec n s \<Longrightarrow> r = s"
proof (cases "n = 0")
  case False
  assume "log2_spec n r" "log2_spec n s"
  with False have "(2::nat) ^ r \<le> n" "n < 2 ^ Suc r" "(2::nat) ^ s \<le> n" "n < 2 ^ Suc s"
    by (auto simp: log2_spec_def)
  then have "(2::nat) ^ r < 2 ^ Suc s" "(2::nat) ^ s < 2 ^ Suc r"
    by linarith+
  then have "r < Suc s" "s < Suc r"
    by (simp_all only: power_strict_increasing_iff one_less_numeral_iff semiring_norm)
  then show ?thesis by simp
qed (simp add: log2_spec_def)

lemma log2_spec_shift:
  assumes "2 ^ k \<le> n" "log2_spec (n div 2 ^ k) r"
  shows "log2_spec n (r + k)"
proof -
  have pos: "0 < n div 2 ^ k" using assms(1) by (simp add: div_greater_zero_iff)
  with assms(2) have b: "2 ^ r \<le> n div 2 ^ k" "n div 2 ^ k < 2 ^ Suc r"
    by (auto simp: log2_spec_def)
  have "2 ^ r * 2 ^ k \<le> n div 2 ^ k * 2 ^ k" using b(1) by simp
  also have "\<dots> \<le> n" by simp
  finally have "2 ^ (r + k) \<le> n" by (simp add: power_add)
  moreover have "n < 2 ^ Suc r * 2 ^ k"
    using b(2) by (simp only: less_mult_imp_div_less div_less_iff_less_mult zero_less_power zero_less_numeral)
  ultimately show ?thesis
    using assms(1) by (auto simp: log2_spec_def power_add)
qed

lemma my_bit_log2_hex_digit_spec:
  assumes "unat v < 16"
  shows "log2_spec (unat v) (my_bit_log2_hex_digit v)"
proof -
  have "v = of_nat (unat v)" by simp
  moreover have "unat v \<in> set [0..<16]" using assms by simp
  ultimately have "v \<in> set (map of_nat [0..<16])"
    unfolding set_map by blast
  then show ?thesis
    by (auto simp: upt_rec my_bit_log2_hex_digit_def log2_spec_def)
qed

lemma my_bit_log2_uint8_spec: "log2_spec (unat v) (my_bit_log2_uint8 v)"
proof -
  have m: "(0xF0 :: uint8) = NOT (mask 4)" by (simp add: mask_eq_exp_minus_1)
  have "unat v < 256" using unsigned_less [of v] by simp
  then have "unat (drop_bit 4 v) < 16" by simp
  from my_bit_log2_hex_digit_spec [OF this] show ?thesis
    unfolding my_bit_log2_uint8_def m unat_ge_iff_high_mask
    using log2_spec_shift [of 4 "unat v"] my_bit_log2_hex_digit_spec [of v] by auto
qed

lemma my_bit_log2_uint16_spec: "log2_spec (unat v) (my_bit_log2_uint16 v)"
proof -
  have m: "(0xFF00 :: uint16) = NOT (mask 8)" by (simp add: mask_eq_exp_minus_1)
  have "unat v < 65536" using unsigned_less [of v] by simp
  then have h: "unat (ucast (drop_bit 8 v) :: uint8) = unat v div 2 ^ 8"
    by (subst unat_ucast_small) auto
  have l: "unat (ucast v :: uint8) = unat v" if "unat v < 2 ^ 8"
    using that by (intro unat_ucast_small) simp
  show ?thesis
    unfolding my_bit_log2_uint16_def m unat_ge_iff_high_mask
    using log2_spec_shift [of 8 "unat v"] my_bit_log2_uint8_spec [of "ucast (drop_bit 8 v)"]
      my_bit_log2_uint8_spec [of "ucast v"] h l by auto
qed

lemma my_bit_log2_uint32_spec: "log2_spec (unat v) (my_bit_log2_uint32 v)"
proof -
  have m: "(0xFFFF0000 :: uint32) = NOT (mask 16)" by (simp add: mask_eq_exp_minus_1)
  have "unat v < 2 ^ 32" using unsigned_less [of v] by simp
  then have h: "unat (ucast (drop_bit 16 v) :: uint16) = unat v div 2 ^ 16"
    by (subst unat_ucast_small) auto
  have l: "unat (ucast v :: uint16) = unat v" if "unat v < 2 ^ 16"
    using that by (intro unat_ucast_small) simp
  show ?thesis
    unfolding my_bit_log2_uint32_def m unat_ge_iff_high_mask
    using log2_spec_shift [of 16 "unat v"] my_bit_log2_uint16_spec [of "ucast (drop_bit 16 v)"]
      my_bit_log2_uint16_spec [of "ucast v"] h l by auto
qed

lemma my_bit_log2_uint64_log2_spec: "log2_spec (unat v) (my_bit_log2_uint64 v)"
proof -
  have m: "(0xFFFFFFFF00000000 :: ulonglong) = NOT (mask 32)" by (simp add: mask_eq_exp_minus_1)
  have "unat v < 2 ^ 64" using unsigned_less [of v] by simp
  then have h: "unat (ucast (drop_bit 32 v) :: uint32) = unat v div 2 ^ 32"
    by (subst unat_ucast_small) auto
  have l: "unat (ucast v :: uint32) = unat v" if "unat v < 2 ^ 32"
    using that by (intro unat_ucast_small) simp
  show ?thesis
    unfolding my_bit_log2_uint64_def m unat_ge_iff_high_mask
    using log2_spec_shift [of 32 "unat v"] my_bit_log2_uint32_spec [of "ucast (drop_bit 32 v)"]
      my_bit_log2_uint32_spec [of "ucast v"] h l by auto
qed

subsection \<open>Smearing: the five or-shift steps set every bit below the highest one\<close>

definition smeared :: "'a::len word \<Rightarrow> nat \<Rightarrow> 'a word \<Rightarrow> bool" where
  "smeared v k s \<longleftrightarrow> (\<forall>n. bit s n \<longleftrightarrow> (\<exists>m. n \<le> m \<and> m < n + k \<and> bit v m))"

lemma smeared_start: "smeared v 1 v"
  by (auto simp: smeared_def) (metis le_antisym less_Suc_eq_le)

lemma smeared_step:
  assumes "smeared v k s"
  shows "smeared v (2 * k) (s OR drop_bit k s)"
proof -
  have "bit (s OR drop_bit k s) n \<longleftrightarrow> (\<exists>m. n \<le> m \<and> m < n + 2 * k \<and> bit v m)" for n
  proof -
    have "bit (s OR drop_bit k s) n \<longleftrightarrow> bit s n \<or> bit s (k + n)"
      by (simp add: bit_or_iff bit_drop_bit_eq)
    also have "\<dots> \<longleftrightarrow> (\<exists>m. n \<le> m \<and> m < n + k \<and> bit v m) \<or> (\<exists>m. k + n \<le> m \<and> m < k + n + k \<and> bit v m)"
      using assms by (simp add: smeared_def)
    also have "\<dots> \<longleftrightarrow> (\<exists>m. n \<le> m \<and> m < n + 2 * k \<and> bit v m)"
    proof
      assume "\<exists>m. n \<le> m \<and> m < n + 2 * k \<and> bit v m"
      then obtain m where "n \<le> m" "m < n + 2 * k" "bit v m" by blast
      then show "(\<exists>m. n \<le> m \<and> m < n + k \<and> bit v m) \<or> (\<exists>m. k + n \<le> m \<and> m < k + n + k \<and> bit v m)"
        by (cases "m < n + k") auto
    next
      assume "(\<exists>m. n \<le> m \<and> m < n + k \<and> bit v m) \<or> (\<exists>m. k + n \<le> m \<and> m < k + n + k \<and> bit v m)"
      then obtain m where "bit v m" "n \<le> m" "m < n + 2 * k" by auto
      then show "\<exists>m. n \<le> m \<and> m < n + 2 * k \<and> bit v m" by blast
    qed
    finally show ?thesis .
  qed
  then show ?thesis by (simp add: smeared_def)
qed

lemma smeared_full:
  fixes v :: "'a::len word"
  assumes s: "smeared v k s" and k: "LENGTH('a) \<le> k"
    and h: "bit v h" and top: "\<And>m. h < m \<Longrightarrow> \<not> bit v m"
  shows "s = mask (Suc h)"
proof (rule word_bit_eqI)
  fix n assume n: "n < LENGTH('a)"
  have hl: "h < LENGTH('a)" using h by (rule bit_imp_le_length)
  have "bit s n \<longleftrightarrow> (\<exists>m. n \<le> m \<and> m < n + k \<and> bit v m)"
    using s by (simp add: smeared_def)
  also have "\<dots> \<longleftrightarrow> n \<le> h"
  proof
    assume "\<exists>m. n \<le> m \<and> m < n + k \<and> bit v m"
    then show "n \<le> h" using top by (meson leI order_trans)
  next
    assume "n \<le> h"
    with h hl k show "\<exists>m. n \<le> m \<and> m < n + k \<and> bit v m" by (intro exI [of _ h]) simp
  qed
  finally show "bit s n \<longleftrightarrow> bit (mask (Suc h) :: 'a word) n"
    using n by (simp add: bit_mask_iff less_Suc_eq_le)
qed

lemma smear_32:
  fixes v :: uint32
  defines "s1 \<equiv> v OR drop_bit 1 v"
  defines "s2 \<equiv> s1 OR drop_bit 2 s1"
  defines "s3 \<equiv> s2 OR drop_bit 4 s2"
  defines "s4 \<equiv> s3 OR drop_bit 8 s3"
  shows "smeared v 32 (s4 OR drop_bit 16 s4)"
proof -
  have "smeared v 2 s1" using smeared_step [OF smeared_start [of v]] by (simp add: s1_def)
  from smeared_step [OF this] have "smeared v 4 s2" by (simp add: s2_def)
  from smeared_step [OF this] have "smeared v 8 s3" by (simp add: s3_def)
  from smeared_step [OF this] have "smeared v 16 s4" by (simp add: s4_def)
  from smeared_step [OF this] show ?thesis by simp
qed

lemma unat_exp_less:
  "k < LENGTH('a::len) \<Longrightarrow> unat (2 ^ k :: 'a word) = 2 ^ k"
  by (metis of_nat_numeral of_nat_power unat_of_nat mod_less power_strict_increasing_iff one_less_numeral_iff semiring_norm(76))

lemma my_round_up_to_next_power_small:
  assumes "0 < unat v" "unat v \<le> 2 ^ 31"
  obtains k where "unat (my_round_up_to_next_power v) = 2 ^ k" "unat v \<le> 2 ^ k" "2 ^ k < 2 * unat v"
proof (cases "v = 1")
  case True
  then show ?thesis using that [of 0] by (simp add: my_round_up_to_next_power_def)
next
  case False
  let ?w = "v - 1"
  have w: "unat ?w = unat v - 1" using assms(1) by (simp add: unat_sub word_le_nat_alt)
  have "?w \<noteq> 0" using False by simp
  then obtain h where h: "h < 32" "bit ?w h" "\<And>m. h < m \<Longrightarrow> \<not> bit ?w m"
    using highest_bit_ex [of ?w] by auto
  note b = highest_bit_bounds [OF h(2,3)]
  have "(2::nat) ^ h < 2 ^ 31" using b(1) w assms by linarith
  then have "h < 31" by (rule power_less_imp_less_exp [rotated]) simp
  then have h31: "Suc h < 32" by simp
  have "my_round_up_to_next_power v = mask (Suc h) + 1"
    unfolding my_round_up_to_next_power_def Let_def
    by (subst smeared_full [OF smear_32 _ h(2,3)]) auto
  also have "\<dots> = 2 ^ Suc h" by (simp add: mask_eq_exp_minus_1)
  finally have "unat (my_round_up_to_next_power v) = 2 ^ Suc h"
    using unat_exp_less [of "Suc h", where 'a = 32] h31 by simp
  moreover have "unat v \<le> 2 ^ Suc h" "2 ^ Suc h < 2 * unat v" using b w assms(1) by auto
  ultimately show ?thesis by (rule that)
qed

lemma my_round_up_to_next_power_overflow:
  assumes "v = 0 \<or> 2 ^ 31 < unat v"
  shows "my_round_up_to_next_power v = 0"
proof -
  let ?w = "v - 1"
  have "bit ?w 31"
  proof (cases "v = 0")
    case False
    then have "0 < unat v" by (simp add: unat_gt_0)
    then have w: "unat ?w = unat v - 1" by (simp add: unat_sub word_le_nat_alt)
    then have "2 ^ 31 \<le> unat ?w" using assms False by simp
    then have "\<not> unat ?w < 2 ^ 31" by simp
    then obtain n where "31 \<le> n" "bit ?w n" unfolding less_pow_iff_no_high_bit by blast
    moreover from this have "n = 31" using bit_imp_le_length [of ?w n] by simp
    ultimately show ?thesis by simp
  qed simp
  then have "my_round_up_to_next_power v = mask (Suc 31) + 1"
    unfolding my_round_up_to_next_power_def Let_def
    by (subst smeared_full [OF smear_32, of _ 31]) (auto dest: bit_imp_le_length)
  then show ?thesis by (simp add: mask_eq_exp_minus_1)
qed

lemma my_clear_highest_bit_bits:
  assumes "bit v h" "\<And>m. h < m \<Longrightarrow> \<not> bit v m"
  shows "bit (my_clear_highest_bit v) n \<longleftrightarrow> bit v n \<and> n < h"
proof (cases "drop_bit 1 v = 0")
  case True
  then have "\<not> bit v (Suc n)" for n
    using bit_drop_bit_eq [of 1 v] by (simp add: fun_eq_iff)
  then have "h = 0" using assms(1) by (cases h) auto
  with True show ?thesis by (simp add: my_clear_highest_bit_def)
next
  case False
  then obtain g where g: "bit (drop_bit 1 v) g" "\<And>m. g < m \<Longrightarrow> \<not> bit (drop_bit 1 v) m"
    by (metis highest_bit_ex)
  have "h = Suc g"
    using g assms by (metis (no_types, lifting) One_nat_def Suc_eq_plus1_left bit_drop_bit_eq comp_apply linorder_neqE_nat not_less_eq Suc_lessE lessI)
  moreover have "my_clear_highest_bit v = v AND mask (Suc g)"
    unfolding my_clear_highest_bit_def Let_def
    by (subst smeared_full [OF smear_32 _ g]) auto
  ultimately show ?thesis by (auto simp: bit_simps dest: bit_imp_le_length)
qed

lemma my_set_bits_mask: "1 \<le> n \<Longrightarrow> n \<le> 64 \<Longrightarrow> my_set_bits n = Some (mask (nat n))"
proof -
  assume n: "1 \<le> n" "n \<le> 64"
  have "push_bit 1 (push_bit (nat (n - 1)) (1::ulonglong) - 1) OR 1 = mask (nat n)"
  proof -
    have "push_bit (nat (n - 1)) (1::ulonglong) - 1 = mask (nat (n - 1))"
      by (simp add: mask_eq_exp_minus_1)
    moreover have "push_bit 1 (mask k) OR (1::ulonglong) = mask (Suc k)" for k
      by (rule word_bit_eqI) (auto simp: bit_simps simp del: push_bit_Suc)
    moreover have "nat n = Suc (nat (n - 1))" using n by simp
    ultimately show ?thesis by simp
  qed
  then show ?thesis using n by (simp add: my_set_bits_def)
qed

lemma last_byte_mask_mask: "last_byte_mask bits = mask (Suc (unat (bits - 1) mod 8))"
proof -
  have u: "unat ((bits - 1) AND 7) = unat (bits - 1) mod 8"
  proof -
    have "unat ((bits - 1) AND 7) = unat (bits - 1) AND mask 3"
      by (simp add: unsigned_and_eq mask_eq_exp_minus_1)
    also have "\<dots> = take_bit 3 (unat (bits - 1))" by (simp only: take_bit_eq_mask)
    finally show ?thesis by (simp only: take_bit_eq_mod) simp
  qed
  show ?thesis
    unfolding last_byte_mask_def Let_def u
  proof -
    let ?k = "unat (bits - 1) mod 8"
    have "push_bit ?k (2 :: uint32) - 1 = mask (Suc ?k)"
      by (simp add: mask_eq_exp_minus_1 push_bit_eq_mult)
    then show "ucast (push_bit ?k (2 :: uint32) - 1) = (mask (Suc ?k) :: uchar)"
      by (auto intro!: word_bit_eqI simp: bit_simps)
  qed
qed

subsection \<open>The search for the first set bit\<close>

lemma last_bit_nibble:
  assumes "0 < j" "j < 16"
  shows "last_bit ! j < 4" "bit j (last_bit ! j)" "\<forall>i < last_bit ! j. \<not> bit j i"
proof -
  have "list_all (\<lambda>j. last_bit ! j < 4 \<and> bit j (last_bit ! j) \<and>
          list_all (\<lambda>i. \<not> bit j i) [0..<last_bit ! j]) [1..<16]"
    by code_simp
  then show "last_bit ! j < 4" "bit j (last_bit ! j)" "\<forall>i < last_bit ! j. \<not> bit j i"
    using assms by (auto simp: list_all_iff)
qed

lemma find_first_bit_loop_finds:
  assumes "shift < 64" "4 dvd shift" "\<forall>i < shift. \<not> bit n i" "n \<noteq> 0"
  shows "\<exists>b < 64. find_first_bit_loop n shift = Some b \<and> bit n b \<and> (\<forall>i < b. \<not> bit n i)"
  using assms
proof (induction n shift rule: find_first_bit_loop.induct)
  case (1 n shift)
  let ?j = "unat (drop_bit shift n AND 0xF)"
  have j: "?j = unat (drop_bit shift n) mod 16"
  proof -
    have "?j = unat (drop_bit shift n) AND mask 4"
      by (simp add: unsigned_and_eq mask_eq_exp_minus_1 del: unat_drop_bit)
    then show ?thesis by (simp only: take_bit_eq_mask [symmetric] take_bit_eq_mod) simp
  qed
  have jb: "bit ?j i \<longleftrightarrow> i < 4 \<and> bit n (shift + i)" for i
  proof -
    have "?j = take_bit 4 (unat (drop_bit shift n))" unfolding j take_bit_eq_mod by simp
    then show ?thesis
      by (auto simp: bit_take_bit_iff bit_unsigned_iff bit_drop_bit_eq simp del: unat_drop_bit
          dest: bit_imp_le_length)
  qed
  have j16: "?j < 16" by (simp add: j)
  show ?case
  proof (cases "?j = 0")
    case True
    have eq: "find_first_bit_loop n shift = find_first_bit_loop n (shift + 4)"
      using True "1.prems"(1) by (simp add: find_first_bit_loop.simps [of n shift] last_bit_def)
    have none: "\<forall>i < shift + 4. \<not> bit n i"
    proof (intro allI impI)
      fix i assume "i < shift + 4"
      then show "\<not> bit n i"
        using "1.prems"(3) jb [of "i - shift"] True by (cases "i < shift") auto
    qed
    have "shift + 4 < 64"
    proof (rule ccontr)
      assume "\<not> shift + 4 < 64"
      then have "\<not> bit n i" for i using none bit_imp_le_length [of n i] by force
      then show False using "1.prems"(4) by (simp add: word_eq_0_iff_bits)
    qed
    moreover have "4 dvd shift + 4" using "1.prems"(2) by simp
    moreover have "last_bit ! ?j = 32" using True by (simp add: last_bit_def)
    ultimately show ?thesis
      using "1.IH" [OF _ refl] none "1.prems"(1,4) unfolding eq by simp
  next
    case False
    let ?b = "last_bit ! ?j"
    have b: "?b < 4" "bit ?j ?b" "\<forall>i < ?b. \<not> bit ?j i"
      using last_bit_nibble [OF _ j16] False by auto
    then have "find_first_bit_loop n shift = Some (shift + ?b)"
      using "1.prems"(1) by (simp add: find_first_bit_loop.simps [of n shift] Let_def)
    moreover have "bit n (shift + ?b)" using b jb by blast
    moreover have "\<not> bit n i" if "i < shift + ?b" for i
      using that "1.prems"(3) b(1,3) jb [of "i - shift"] by (cases "i < shift") auto
    ultimately show ?thesis using bit_imp_le_length [of n "shift + ?b"] by auto
  qed
qed

lemma my_find_first_bit_finds:
  assumes "n \<noteq> 0"
  obtains b where "my_find_first_bit n = Some b" "b < 64" "bit n b" "\<And>i. i < b \<Longrightarrow> \<not> bit n i"
  using find_first_bit_loop_finds [of 0 n] assms by (auto simp: my_find_first_bit_def)

lemma my_reverse_bits_bit:
  assumes "length table = 256"
    and "\<And>i j. i < 256 \<Longrightarrow> j < 8 \<Longrightarrow> bit (table ! i) j \<longleftrightarrow> bit i (7 - j)"
  obtains r where "my_reverse_bits table key = Some r" "\<And>n. n < 32 \<Longrightarrow> bit r n \<longleftrightarrow> bit key (31 - n)"
proof -
  have lt: "unat (x AND 255) < 256" for x :: uint32
    using word_and_le1 [of x 255] by (simp add: word_le_nat_alt)
  have byte: "bit (unat (drop_bit k key AND 255)) j \<longleftrightarrow> j < 8 \<and> bit key (k + j)" for k j
  proof -
    have m: "(255::uint32) = mask 8" by (simp add: mask_eq_exp_minus_1)
    show ?thesis
      unfolding m by (auto simp: bit_unsigned_iff bit_simps dest: bit_imp_le_length)
  qed
  have hi: "drop_bit 24 key AND 255 = drop_bit 24 key"
  proof -
    have m: "(255::uint32) = mask 8" by (simp add: mask_eq_exp_minus_1)
    show ?thesis unfolding m
    proof (rule word_bit_eqI)
      fix n
      show "bit (drop_bit 24 key AND mask 8) n = bit (drop_bit 24 key) n"
        using bit_imp_le_length [of key "24 + n"] by (auto simp: bit_simps)
    qed
  qed
  let ?t = "\<lambda>k. table ! unat (drop_bit k key AND 255)"
  let ?r = "push_bit 24 (ucast (?t 0)) OR push_bit 16 (ucast (?t 8)) OR push_bit 8 (ucast (?t 16)) OR ucast (?t 24) :: uint32"
  have "my_reverse_bits table key = Some ?r"
    using assms(1) lt [of key] lt [of "drop_bit 8 key"] lt [of "drop_bit 16 key"] lt [of "drop_bit 24 key"]
    by (simp add: my_reverse_bits_def hi)
  moreover have tb: "bit (?t k) j \<longleftrightarrow> j < 8 \<and> bit key (k + (7 - j))" for k j
    using assms(2) [OF lt, of j "drop_bit k key"] byte [of k "7 - j"] bit_imp_le_length [of "?t k" j] by auto
  have "bit ?r n \<longleftrightarrow> bit key (31 - n)" if n32: "n < 32" for n
  proof -
    consider "n < 8" | "8 \<le> n" "n < 16" | "16 \<le> n" "n < 24" | "24 \<le> n" "n < 32" using n32 by linarith
    then show ?thesis
      by cases (auto simp: bit_or_iff bit_push_bit_iff bit_ucast_iff tb tb [of 0, simplified] less_diff_conv2)
  qed
  ultimately show ?thesis by (rule that)
qed

subsection \<open>Population count: correctness of the parallel count\<close>

text \<open>
  The parallel count treats the word as a number in base 4, 16 and 256. The masks select digits:
  a bitwise and of two numbers written in base \<open>2 ^ k\<close> works digit by digit.
\<close>

lemma and_digit:
  fixes y z :: nat
  assumes "c < 2 ^ k" "m < 2 ^ k"
  shows "(c + 2 ^ k * y) AND (m + 2 ^ k * z) = (c AND m) + 2 ^ k * (y AND z)"
proof -
  have split: "c + 2 ^ k * y = c OR push_bit k y" if "c < 2 ^ k" for c y :: nat
  proof -
    have "c AND push_bit k y = 0"
      using that by (auto simp: bit_eq_iff bit_simps) (metis bit_take_bit_iff leD take_bit_nat_eq_self)
    then show ?thesis by (simp add: disjunctive_add_eq_or [symmetric] push_bit_eq_mult mult.commute)
  qed
  have cm: "c AND m < 2 ^ k"
    using assms(1) by (metis take_bit_and take_bit_nat_eq_self take_bit_nat_less_exp assms(2))
  have "bit c n \<Longrightarrow> n < k" "bit m n \<Longrightarrow> n < k" for n
    using assms by (metis bit_take_bit_iff take_bit_nat_eq_self)+
  then have "(c OR push_bit k y) AND (m OR push_bit k z) = (c AND m) OR push_bit k (y AND z)"
    by (auto simp: bit_eq_iff bit_simps dest: leD)
  then show ?thesis using split assms cm by simp
qed


lemma and_mask_digit: "c < 2 ^ k \<Longrightarrow> (c + 2 ^ k * y) AND mask k = (c :: nat)"
  by (simp add: take_bit_eq_mask [symmetric] take_bit_eq_mod)


primrec digits :: "nat \<Rightarrow> nat list \<Rightarrow> nat" where
  "digits B [] = 0"
| "digits B (x # xs) = x + B * digits B xs"

fun padd :: "nat list \<Rightarrow> nat list" where
  "padd (x # y # zs) = (x + y) # padd zs"
| "padd xs = xs"

fun evens :: "nat list \<Rightarrow> nat list" where
  "evens (x # y # zs) = x # evens zs"
| "evens xs = xs"

fun odds :: "nat list \<Rightarrow> nat list" where
  "odds (x # y # zs) = y # odds zs"
| "odds xs = []"

lemma sum_list_padd: "sum_list (padd xs) = sum_list xs"
  by (induction xs rule: padd.induct) auto

lemma length_padd: "even (length xs) \<Longrightarrow> length (padd xs) = length xs div 2"
  by (induction xs rule: padd.induct) auto

lemma padd_bound: "\<forall>x \<in> set xs. x \<le> m \<Longrightarrow> \<forall>x \<in> set (padd xs). x \<le> 2 * m"
  by (induction xs rule: padd.induct) auto

lemma digits_evens_odds:
  "even (length xs) \<Longrightarrow> digits B xs = digits (B * B) (evens xs) + B * digits (B * B) (odds xs)"
  by (induction xs rule: padd.induct) (auto simp: algebra_simps)

lemma digits_padd:
  "even (length xs) \<Longrightarrow> digits B (padd xs) = digits B (evens xs) + digits B (odds xs)"
  by (induction xs rule: padd.induct) (auto simp: algebra_simps)

lemma digits_less: "\<forall>x \<in> set xs. x < B \<Longrightarrow> digits B xs < B ^ length xs"
proof (induction xs)
  case (Cons x xs)
  then have "digits B xs + 1 \<le> B ^ length xs" by simp
  then have "B * (digits B xs + 1) \<le> B * B ^ length xs" by (rule mult_le_mono2)
  then show ?case using Cons.prems by simp
qed simp

text \<open>One mask of alternating digits: it selects the even digits, and after a shift the odd ones.\<close>

definition alt_mask :: "nat \<Rightarrow> nat \<Rightarrow> nat" where
  "alt_mask k n = digits (2 ^ k * 2 ^ k) (replicate n (mask k))"

lemma mask_less_exp: "mask k < (2 :: nat) ^ k"
  by (simp add: mask_eq_exp_minus_1)

lemma and_alt_mask_step:
  assumes "x < 2 ^ k"
  shows "(x + 2 ^ k * y + 2 ^ k * 2 ^ k * r) AND alt_mask k (Suc n)
       = x + 2 ^ k * 2 ^ k * ((y div 2 ^ k + r) AND alt_mask k n)"
proof -
  let ?y = "y mod 2 ^ k" and ?r = "y div 2 ^ k + r"
  have y: "y = ?y + 2 ^ k * (y div 2 ^ k)" by simp
  have lt: "x + 2 ^ k * ?y < 2 ^ (2 * k)"
  proof -
    have "?y + 1 \<le> 2 ^ k" by (simp add: Suc_leI)
    then have "2 ^ k * (?y + 1) \<le> 2 ^ k * (2 ^ k :: nat)" by (rule mult_le_mono2)
    then show ?thesis using assms by (simp add: mult_2 power_add)
  qed
  have m: "mask k < (2 :: nat) ^ (2 * k)"
    using mask_less_exp [of k] by (rule less_le_trans) (simp add: power_increasing)
  have "2 ^ k * y = 2 ^ k * ?y + 2 ^ k * 2 ^ k * (y div 2 ^ k)"
    by (subst y) (simp only: distrib_left mult.assoc)
  then have "x + 2 ^ k * y + 2 ^ k * 2 ^ k * r = (x + 2 ^ k * ?y) + 2 ^ (2 * k) * ?r"
    by (simp add: distrib_left mult_2 power_add)
  moreover have "alt_mask k (Suc n) = mask k + 2 ^ (2 * k) * alt_mask k n"
    by (simp add: alt_mask_def mult_2 power_add)
  ultimately have "(x + 2 ^ k * y + 2 ^ k * 2 ^ k * r) AND alt_mask k (Suc n)
       = ((x + 2 ^ k * ?y) + 2 ^ (2 * k) * ?r) AND (mask k + 2 ^ (2 * k) * alt_mask k n)"
    by (simp only:)
  also have "\<dots> = ((x + 2 ^ k * ?y) AND mask k) + 2 ^ (2 * k) * (?r AND alt_mask k n)"
    by (rule and_digit [OF lt m])
  finally show ?thesis
    by (simp only: and_mask_digit [OF assms] mult_2 power_add)
qed

lemma digits_and_alt_mask:
  assumes "even (length xs)" "\<forall>x \<in> set xs. x < 2 ^ k"
  shows "digits (2 ^ k) xs AND alt_mask k (length xs div 2) = digits (2 ^ k * 2 ^ k) (evens xs)"
    and "(digits (2 ^ k) xs div 2 ^ k) AND alt_mask k (length xs div 2) = digits (2 ^ k * 2 ^ k) (odds xs)"
  using assms
proof (induction xs rule: padd.induct)
  case (1 x y zs)
  { case 1
    then show ?case
      using and_alt_mask_step [of x k y "digits (2 ^ k) zs" "length zs div 2"] "1.IH"(1)
      by (simp add: algebra_simps)
  next
    case 2
    then have "digits (2 ^ k) (x # y # zs) div 2 ^ k = y + 2 ^ k * digits (2 ^ k) zs" by simp
    with 2 show ?case
      using and_alt_mask_step [of y k "digits (2 ^ k) zs" 0 "length zs div 2"] "1.IH"(2)
      by (simp add: algebra_simps) }
qed (simp_all add: alt_mask_def)

lemma digits_fold_and_alt_mask:
  assumes "even (length xs)" "\<forall>x \<in> set xs. \<forall>y \<in> set xs. x + y < 2 ^ k"
  shows "(digits (2 ^ k) xs + digits (2 ^ k) xs div 2 ^ k) AND alt_mask k (length xs div 2)
       = digits (2 ^ k * 2 ^ k) (padd xs)"
  using assms
proof (induction xs rule: padd.induct)
  case (1 x y zs)
  let ?V = "digits (2 ^ k) zs"
  have xy: "x + y < 2 ^ k" "x < 2 ^ k" using "1.prems"(2) by (auto dest: spec)
  have d: "(x + 2 ^ k * (y + 2 ^ k * ?V)) div 2 ^ k = y + 2 ^ k * ?V" using xy by simp
  have h: "y + ?V mod 2 ^ k < 2 ^ k"
    using "1.prems"(2) by (cases zs) (auto simp: mod_less)
  have q: "(y + ?V) div 2 ^ k = ?V div 2 ^ k"
  proof -
    have "y + ?V = (y + ?V mod 2 ^ k) + 2 ^ k * (?V div 2 ^ k)" by simp
    then show ?thesis using h by (metis add.right_neutral div_less div_mult_self2 mult.commute power_not_zero zero_neq_numeral add.commute)
  qed
  have "digits (2 ^ k) (x # y # zs) + digits (2 ^ k) (x # y # zs) div 2 ^ k
      = (x + y) + 2 ^ k * (y + ?V) + 2 ^ k * 2 ^ k * ?V"
    using d by (simp add: algebra_simps)
  then show ?case
    using and_alt_mask_step [OF xy(1), of "y + ?V" ?V "length zs div 2"] q "1.IH" "1.prems"
    by (simp add: algebra_simps)
qed (simp_all add: alt_mask_def)

lemma horner_digits: "horner_sum of_bool 2 bs = digits 2 (map of_bool bs)"
  by (induction bs) auto

lemma unat_digits_32: "unat (v :: uint32) = digits 2 (map (\<lambda>i. of_bool (bit v i)) [0..<32])"
proof -
  have "unat v = take_bit 32 (unat v)"
    using unsigned_less [of v, where 'a = nat] by (simp add: take_bit_nat_eq_self)
  also have "\<dots> = horner_sum of_bool 2 (map (bit (unat v)) [0..<32])"
    by (simp only: horner_sum_bit_eq_take_bit)
  also have "\<dots> = digits 2 (map of_bool (map (bit (unat v)) [0..<32]))"
    by (rule horner_digits)
  finally show ?thesis by (simp add: bit_unsigned_iff comp_def cong: map_cong)
qed

lemma digits_replicate_numeral:
  "digits B (replicate (numeral w) x) = x + B * digits B (replicate (pred_numeral w) x)"
  by (simp only: numeral_eq_Suc replicate_Suc digits.simps)

lemma count_masks:
  "unat (0x55555555 :: uint32) = alt_mask 1 16"
  "unat (0x33333333 :: uint32) = alt_mask 2 8"
  "unat (0x0F0F0F0F :: uint32) = alt_mask 4 4"
  by (simp_all add: digits_replicate_numeral mask_eq_exp_minus_1 alt_mask_def)

lemma count_first:
  fixes v :: uint32
  assumes "unat v = digits 2 bs" "length bs = 32" "\<forall>x \<in> set bs. x \<le> 1"
  shows "unat (v - (drop_bit 1 v AND 0x55555555)) = digits 4 (padd bs)"
proof -
  have lt: "\<forall>x \<in> set bs. x < 2 ^ 1" using assms(3) by auto
  have o: "unat (drop_bit 1 v AND 0x55555555) = digits 4 (odds bs)"
    using digits_and_alt_mask(2) [OF _ lt] assms(1,2)
    unfolding unsigned_and_eq unat_drop_bit count_masks by simp
  have e: "unat v = digits 4 (evens bs) + 2 * digits 4 (odds bs)"
    using digits_evens_odds [of bs 2] assms(1,2) by simp
  then have le: "drop_bit 1 v AND 0x55555555 \<le> v"
    unfolding word_le_nat_alt o by simp
  show ?thesis
    unfolding unat_sub [OF le] o e using digits_padd [of bs 4] assms(2) by simp
qed

lemma count_second:
  fixes v :: uint32
  assumes "unat v = digits 4 cs" "length cs = 16" "\<forall>x \<in> set cs. x \<le> 2"
  shows "unat ((v AND 0x33333333) + (drop_bit 2 v AND 0x33333333)) = digits 16 (padd cs)"
proof -
  have lt: "\<forall>x \<in> set cs. x < 2 ^ 2" using assms(3) by auto
  have e: "unat (v AND 0x33333333) = digits 16 (evens cs)"
    using digits_and_alt_mask(1) [OF _ lt] assms(1,2)
    unfolding unsigned_and_eq count_masks by simp
  have o: "unat (drop_bit 2 v AND 0x33333333) = digits 16 (odds cs)"
    using digits_and_alt_mask(2) [OF _ lt] assms(1,2)
    unfolding unsigned_and_eq unat_drop_bit count_masks by simp
  have "digits 16 (padd cs) < 16 ^ 8"
    using digits_less [of "padd cs" 16] padd_bound [OF assms(3)] length_padd [of cs] assms(2) by force
  then have "unat (v AND 0x33333333) + unat (drop_bit 2 v AND 0x33333333) < 2 ^ 32"
    using e o digits_padd [of cs 16] assms(2) by simp
  then show ?thesis
    using e o digits_padd [of cs 16] assms(2) by (simp add: unat_word_ariths)
qed

lemma count_third:
  fixes v :: uint32
  assumes "unat v = digits 16 ds" "length ds = 8" "\<forall>x \<in> set ds. x \<le> 4"
  shows "unat ((v + drop_bit 4 v) AND 0xF0F0F0F) = digits 256 (padd ds)"
proof -
  have lt: "\<forall>x \<in> set ds. \<forall>y \<in> set ds. x + y < 2 ^ 4"
  proof (intro ballI)
    fix x y assume "x \<in> set ds" "y \<in> set ds"
    then have "x \<le> 4" "y \<le> 4" using assms(3) by auto
    then show "x + y < 2 ^ 4" by simp
  qed
  have "digits 16 ds \<le> 4 * 0x11111111"
  proof -
    have "digits 16 xs \<le> 4 * digits 16 (replicate (length xs) 1)" if "\<forall>x \<in> set xs. x \<le> 4" for xs
      using that by (induction xs) auto
    from this [OF assms(3)] show ?thesis using assms(2) by (simp add: digits_replicate_numeral)
  qed
  then have "unat v + unat v div 16 < 2 ^ 32" using assms(1) by simp
  then have "unat (v + drop_bit 4 v) = unat v + unat v div 2 ^ 4" by (simp add: unat_word_ariths)
  then show ?thesis
    using digits_fold_and_alt_mask [OF _ lt] assms(1,2)
    unfolding unsigned_and_eq count_masks by simp
qed

lemma count_last:
  fixes v :: uint32
  assumes "unat v = digits 256 es" "length es = 4" "\<forall>x \<in> set es. x \<le> 8"
  shows "unat (drop_bit 24 (v * 0x1010101)) = sum_list es"
proof -
  obtain a b c d where es: "es = [a, b, c, d]"
    using assms(2) by (auto simp: numeral_eq_Suc length_Suc_conv)
  have le: "a \<le> 8" "b \<le> 8" "c \<le> 8" "d \<le> 8" using assms(3) es by auto
  let ?low = "a + 256 * (a + b) + 65536 * (a + b + c)"
  have "unat v * 0x1010101 = ?low + 2 ^ 24 * (a + b + c + d)
          + 2 ^ 32 * (b + c + d + 256 * (c + d) + 65536 * d)"
    using assms(1) es by simp
  moreover have "?low + 2 ^ 24 * (a + b + c + d) < 2 ^ 32" using le by simp
  moreover have "unat (v * 0x1010101) = (unat v * 0x1010101) mod 2 ^ 32"
    by (simp add: unat_word_ariths)
  ultimately have "unat (v * 0x1010101) = ?low + 2 ^ 24 * (a + b + c + d)"
    by (simp only: mod_mult_self2 mod_less)
  moreover have "?low < 2 ^ 24" using le by simp
  ultimately show ?thesis using es by simp
qed

lemma my_count_bits_uint32_card_aux: "unat (my_count_bits_uint32 v) = card {n. bit v n}"
proof -
  let ?bs = "map (\<lambda>i. of_bool (bit v i)) [0..<32] :: nat list"
  have b: "length ?bs = 32" "\<forall>x \<in> set ?bs. x \<le> 1" by auto
  have c: "length (padd ?bs) = 16" "\<forall>x \<in> set (padd ?bs). x \<le> 2"
    using length_padd [of ?bs] padd_bound [OF b(2)] by auto
  have d: "length (padd (padd ?bs)) = 8" "\<forall>x \<in> set (padd (padd ?bs)). x \<le> 4"
    using length_padd [of "padd ?bs"] padd_bound [OF c(2)] c(1) by auto
  have e: "length (padd (padd (padd ?bs))) = 4" "\<forall>x \<in> set (padd (padd (padd ?bs))). x \<le> 8"
    using length_padd [of "padd (padd ?bs)"] padd_bound [OF d(2)] d(1) by auto
  have "unat (my_count_bits_uint32 v) = sum_list (padd (padd (padd ?bs)))"
    unfolding my_count_bits_uint32_def Let_def
    by (rule count_last [OF count_third [OF count_second [OF count_first [OF unat_digits_32 b] c] d] e])
  also have "\<dots> = (\<Sum>i<32. of_bool (bit v i))"
    by (simp add: sum_list_padd interv_sum_list_conv_sum_set_nat atLeast0LessThan)
  also have "\<dots> = card {n. n < 32 \<and> bit v n}"
    by (simp add: Collect_conj_eq lessThan_def)
  also have "{n. n < 32 \<and> bit v n} = {n. bit v n}" using bit_imp_le_length [of v] by auto
  finally show ?thesis .
qed

lemma my_count_bits_card_aux: "unat (my_count_bits x) = card {n. bit x n}"
proof -
  let ?lo = "ucast x :: uint32" and ?hi = "ucast (drop_bit 32 x) :: uint32"
  have lo: "{n. bit ?lo n} = {n. n < 32 \<and> bit x n}" by (auto simp: bit_ucast_iff)
  have hi: "(\<lambda>n. n + 32) ` {n. bit ?hi n} = {n. 32 \<le> n \<and> bit x n}"
  proof (intro set_eqI iffI)
    fix m assume "m \<in> {n. 32 \<le> n \<and> bit x n}"
    then have "32 \<le> m" "bit x m" "m < 64" using bit_imp_le_length [of x m] by auto
    then show "m \<in> (\<lambda>n. n + 32) ` {n. bit ?hi n}"
      by (intro image_eqI [of _ _ "m - 32"]) (auto simp: bit_ucast_iff bit_drop_bit_eq)
  qed (auto simp: bit_ucast_iff bit_drop_bit_eq add.commute)
  have "card {n. bit x n} = card ({n. n < 32 \<and> bit x n} \<union> {n. 32 \<le> n \<and> bit x n})"
    by (rule arg_cong [where f = card]) auto
  also have "\<dots> = card {n. bit ?lo n} + card {n. bit ?hi n}"
  proof -
    have f: "finite {n. bit x n}" by (rule finite_subset [of _ "{..<64}"]) (auto dest: bit_imp_le_length)
    have "card {n. 32 \<le> n \<and> bit x n} = card {n. bit ?hi n}"
      unfolding hi [symmetric] by (rule card_image) (simp add: inj_on_def)
    then show ?thesis
      by (subst card_Un_disjoint) (auto simp: lo intro: finite_subset [OF _ f])
  qed
  finally have eq: "card {n. bit x n} = unat (my_count_bits_uint32 ?lo) + unat (my_count_bits_uint32 ?hi)"
    by (simp add: my_count_bits_uint32_card_aux)
  have "card {n. bit w n} \<le> 32" for w :: uint32
    using card_mono [of "{..<32}" "{n. bit w n}"] bit_imp_le_length [of w] by auto
  then have "unat (my_count_bits_uint32 ?lo) \<le> 32" "unat (my_count_bits_uint32 ?hi) \<le> 32"
    by (simp_all only: my_count_bits_uint32_card_aux)
  then show ?thesis
    unfolding my_count_bits_def eq unat_word_ariths by simp
qed

subsection \<open>Properties\<close>

text \<open>
  \<open>my_bit_log2_uint64\<close> returns the position of the highest set bit of a non-zero value:
  the value lies between that power of two and the next one.
\<close>

theorem my_bit_log2_uint64_highest:
  assumes "v \<noteq> 0"
  shows "2 ^ my_bit_log2_uint64 v \<le> unat v \<and> unat v < 2 ^ Suc (my_bit_log2_uint64 v)"
  using my_bit_log2_uint64_log2_spec [of v] assms by (auto simp: log2_spec_def unat_eq_zero split: if_splits)

theorem my_bit_log2_uint64_highest_witness:
  "2 ^ my_bit_log2_uint64 3 \<le> unat (3 :: ulonglong) \<and> unat (3 :: ulonglong) < 2 ^ Suc (my_bit_log2_uint64 3)"
  using my_bit_log2_uint64_highest [of 3] by simp

text \<open>
  The parallel bit count of \<open>my_count_bits\<close> is the number of set bits of its 64-bit argument.
\<close>

theorem my_count_bits_card: "unat (my_count_bits x) = card {n. bit x n}"
  by (rule my_count_bits_card_aux)

text \<open>
  \<open>my_round_up_to_next_power\<close> returns the least power of two that is not below its argument for
  arguments from 1 up to \<open>2 ^ 31\<close>, and 0 for 0 and for arguments above \<open>2 ^ 31\<close>, where the
  addition wraps around.
\<close>

theorem my_round_up_to_next_power_correct:
  "(if 0 < unat v \<and> unat v \<le> 2 ^ 31
    then \<exists>k. unat (my_round_up_to_next_power v) = 2 ^ k \<and> unat v \<le> 2 ^ k \<and> 2 ^ k < 2 * unat v
    else my_round_up_to_next_power v = 0)"
proof (cases "0 < unat v \<and> unat v \<le> 2 ^ 31")
  case True
  then show ?thesis by (metis my_round_up_to_next_power_small)
next
  case False
  then have "v = 0 \<or> 2 ^ 31 < unat v" by (auto simp: unat_gt_0)
  with False show ?thesis by (simp only: my_round_up_to_next_power_overflow if_False)
qed

text \<open>
  \<open>my_find_first_bit\<close> terminates without an out-of-range shift on every argument: it returns
  64 for 0 and otherwise the position of the least significant set bit.
\<close>

theorem my_find_first_bit_correct:
  "\<exists>b. my_find_first_bit n = Some b \<and>
     (if n = 0 then b = 64 else b < 64 \<and> bit n b \<and> (\<nexists>i. i < b \<and> bit n i))"
proof (cases "n = 0")
  case False
  then obtain b where "my_find_first_bit n = Some b" "b < 64" "bit n b" "\<And>i. i < b \<Longrightarrow> \<not> bit n i"
    by (metis my_find_first_bit_finds)
  with False show ?thesis by auto
qed (simp add: my_find_first_bit_def)

end
