(* ===== verification/Privilege.thy ===== *)
theory Privilege
  imports MyBit
begin

text \<open>
  \<open>include/mysql/server/private/privilege.h\<close>: the privilege bits, the privilege sets built from them,
  the privileges each statement, command or system variable asks for, and the packing of database,
  table, column and routine privileges into the dense bit order of the grant tables.
  \<open>privilege_t\<close> is an enumeration over \<open>unsigned long long\<close>: a 64-bit word.
\<close>

type_synonym privilege_t = ulonglong

subsection \<open>The privilege bits\<close>

definition NO_ACL :: privilege_t where
  "NO_ACL = 0"

definition SELECT_ACL :: privilege_t where
  "SELECT_ACL = push_bit 0 1"

definition INSERT_ACL :: privilege_t where
  "INSERT_ACL = push_bit 1 1"

definition UPDATE_ACL :: privilege_t where
  "UPDATE_ACL = push_bit 2 1"

definition DELETE_ACL :: privilege_t where
  "DELETE_ACL = push_bit 3 1"

definition CREATE_ACL :: privilege_t where
  "CREATE_ACL = push_bit 4 1"

definition DROP_ACL :: privilege_t where
  "DROP_ACL = push_bit 5 1"

definition RELOAD_ACL :: privilege_t where
  "RELOAD_ACL = push_bit 6 1"

definition SHUTDOWN_ACL :: privilege_t where
  "SHUTDOWN_ACL = push_bit 7 1"

definition PROCESS_ACL :: privilege_t where
  "PROCESS_ACL = push_bit 8 1"

definition FILE_ACL :: privilege_t where
  "FILE_ACL = push_bit 9 1"

definition GRANT_ACL :: privilege_t where
  "GRANT_ACL = push_bit 10 1"

definition REFERENCES_ACL :: privilege_t where
  "REFERENCES_ACL = push_bit 11 1"

definition INDEX_ACL :: privilege_t where
  "INDEX_ACL = push_bit 12 1"

definition ALTER_ACL :: privilege_t where
  "ALTER_ACL = push_bit 13 1"

definition SHOW_DB_ACL :: privilege_t where
  "SHOW_DB_ACL = push_bit 14 1"

definition SUPER_ACL :: privilege_t where
  "SUPER_ACL = push_bit 15 1"

definition CREATE_TMP_ACL :: privilege_t where
  "CREATE_TMP_ACL = push_bit 16 1"

definition LOCK_TABLES_ACL :: privilege_t where
  "LOCK_TABLES_ACL = push_bit 17 1"

definition EXECUTE_ACL :: privilege_t where
  "EXECUTE_ACL = push_bit 18 1"

definition REPL_SLAVE_ACL :: privilege_t where
  "REPL_SLAVE_ACL = push_bit 19 1"

definition BINLOG_MONITOR_ACL :: privilege_t where
  "BINLOG_MONITOR_ACL = push_bit 20 1"

definition CREATE_VIEW_ACL :: privilege_t where
  "CREATE_VIEW_ACL = push_bit 21 1"

definition SHOW_VIEW_ACL :: privilege_t where
  "SHOW_VIEW_ACL = push_bit 22 1"

definition CREATE_PROC_ACL :: privilege_t where
  "CREATE_PROC_ACL = push_bit 23 1"

definition ALTER_PROC_ACL :: privilege_t where
  "ALTER_PROC_ACL = push_bit 24 1"

definition CREATE_USER_ACL :: privilege_t where
  "CREATE_USER_ACL = push_bit 25 1"

definition EVENT_ACL :: privilege_t where
  "EVENT_ACL = push_bit 26 1"

definition TRIGGER_ACL :: privilege_t where
  "TRIGGER_ACL = push_bit 27 1"

definition CREATE_TABLESPACE_ACL :: privilege_t where
  "CREATE_TABLESPACE_ACL = push_bit 28 1"

definition DELETE_HISTORY_ACL :: privilege_t where
  "DELETE_HISTORY_ACL = push_bit 29 1"

definition SET_USER_ACL :: privilege_t where
  "SET_USER_ACL = push_bit 30 1"

definition FEDERATED_ADMIN_ACL :: privilege_t where
  "FEDERATED_ADMIN_ACL = push_bit 31 1"

definition CONNECTION_ADMIN_ACL :: privilege_t where
  "CONNECTION_ADMIN_ACL = push_bit 32 1"

definition READ_ONLY_ADMIN_ACL :: privilege_t where
  "READ_ONLY_ADMIN_ACL = push_bit 33 1"

definition REPL_SLAVE_ADMIN_ACL :: privilege_t where
  "REPL_SLAVE_ADMIN_ACL = push_bit 34 1"

definition REPL_MASTER_ADMIN_ACL :: privilege_t where
  "REPL_MASTER_ADMIN_ACL = push_bit 35 1"

definition BINLOG_ADMIN_ACL :: privilege_t where
  "BINLOG_ADMIN_ACL = push_bit 36 1"

definition BINLOG_REPLAY_ACL :: privilege_t where
  "BINLOG_REPLAY_ACL = push_bit 37 1"

subsection \<open>Version markers\<close>

definition LAST_100304_ACL :: privilege_t where
  "LAST_100304_ACL = DELETE_HISTORY_ACL"

definition LAST_100502_ACL :: privilege_t where
  "LAST_100502_ACL = BINLOG_REPLAY_ACL"

definition LAST_CURRENT_ACL :: privilege_t where
  "LAST_CURRENT_ACL = LAST_100502_ACL"

definition PRIVILEGE_T_MAX_BIT :: nat where
  "PRIVILEGE_T_MAX_BIT = my_bit_log2_uint64 LAST_CURRENT_ACL"

definition ALL_KNOWN_ACL_100304 :: privilege_t where
  "ALL_KNOWN_ACL_100304 = push_bit 1 LAST_100304_ACL - 1"

definition ALL_KNOWN_ACL_100502 :: privilege_t where
  "ALL_KNOWN_ACL_100502 = push_bit 1 LAST_100502_ACL - 1"

definition ALL_KNOWN_ACL :: privilege_t where
  "ALL_KNOWN_ACL = ALL_KNOWN_ACL_100502"

subsection \<open>Privilege sets\<close>

definition GLOBAL_SUPER_ADDED_SINCE_USER_TABLE_ACLS :: privilege_t where
  "GLOBAL_SUPER_ADDED_SINCE_USER_TABLE_ACLS =
     SET_USER_ACL OR FEDERATED_ADMIN_ACL OR CONNECTION_ADMIN_ACL OR READ_ONLY_ADMIN_ACL
     OR REPL_SLAVE_ADMIN_ACL OR BINLOG_ADMIN_ACL OR BINLOG_REPLAY_ACL"

definition COL_DML_ACLS :: privilege_t where
  "COL_DML_ACLS = SELECT_ACL OR INSERT_ACL OR UPDATE_ACL OR DELETE_ACL"

definition VIEW_ACLS :: privilege_t where
  "VIEW_ACLS = CREATE_VIEW_ACL OR SHOW_VIEW_ACL"

definition STD_TABLE_DDL_ACLS :: privilege_t where
  "STD_TABLE_DDL_ACLS = CREATE_ACL OR DROP_ACL OR ALTER_ACL"

definition ALL_TABLE_DDL_ACLS :: privilege_t where
  "ALL_TABLE_DDL_ACLS = STD_TABLE_DDL_ACLS OR INDEX_ACL"

definition COL_ACLS :: privilege_t where
  "COL_ACLS = SELECT_ACL OR INSERT_ACL OR UPDATE_ACL OR REFERENCES_ACL"

definition PROC_DDL_ACLS :: privilege_t where
  "PROC_DDL_ACLS = CREATE_PROC_ACL OR ALTER_PROC_ACL"

definition SHOW_PROC_ACLS :: privilege_t where
  "SHOW_PROC_ACLS = PROC_DDL_ACLS OR EXECUTE_ACL"

definition TABLE_ACLS :: privilege_t where
  "TABLE_ACLS =
     COL_DML_ACLS OR ALL_TABLE_DDL_ACLS OR VIEW_ACLS OR GRANT_ACL OR REFERENCES_ACL
     OR TRIGGER_ACL OR DELETE_HISTORY_ACL"

definition DB_ACLS :: privilege_t where
  "DB_ACLS =
     TABLE_ACLS OR PROC_DDL_ACLS OR EXECUTE_ACL OR CREATE_TMP_ACL OR LOCK_TABLES_ACL
     OR EVENT_ACL"

definition PROC_ACLS :: privilege_t where
  "PROC_ACLS = ALTER_PROC_ACL OR EXECUTE_ACL OR GRANT_ACL"

definition GLOBAL_ACLS :: privilege_t where
  "GLOBAL_ACLS =
     DB_ACLS OR SHOW_DB_ACL OR CREATE_USER_ACL OR CREATE_TABLESPACE_ACL OR SUPER_ACL
     OR RELOAD_ACL OR SHUTDOWN_ACL OR PROCESS_ACL OR FILE_ACL OR REPL_SLAVE_ACL
     OR BINLOG_MONITOR_ACL OR GLOBAL_SUPER_ADDED_SINCE_USER_TABLE_ACLS
     OR REPL_MASTER_ADMIN_ACL"

definition DEFAULT_CREATE_PROC_ACLS :: privilege_t where
  "DEFAULT_CREATE_PROC_ACLS = ALTER_PROC_ACL OR EXECUTE_ACL"

definition SHOW_CREATE_TABLE_ACLS :: privilege_t where
  "SHOW_CREATE_TABLE_ACLS =
     COL_DML_ACLS OR ALL_TABLE_DDL_ACLS OR TRIGGER_ACL OR REFERENCES_ACL OR GRANT_ACL
     OR VIEW_ACLS"

definition TMP_TABLE_ACLS :: privilege_t where
  "TMP_TABLE_ACLS = COL_DML_ACLS OR ALL_TABLE_DDL_ACLS"

subsection \<open>The privileges statements, commands and variables ask for\<close>

definition PRIV_DEFINER_CLAUSE :: privilege_t where
  "PRIV_DEFINER_CLAUSE = SET_USER_ACL OR SUPER_ACL"

definition PRIV_REVEAL_MISSING_DEFINER :: privilege_t where
  "PRIV_REVEAL_MISSING_DEFINER = SET_USER_ACL OR SUPER_ACL"

definition PRIV_DES_DECRYPT_ONE_ARG :: privilege_t where
  "PRIV_DES_DECRYPT_ONE_ARG = SUPER_ACL"

definition PRIV_LOG_BIN_TRUSTED_SP_CREATOR :: privilege_t where
  "PRIV_LOG_BIN_TRUSTED_SP_CREATOR = SUPER_ACL"

definition PRIV_DEBUG :: privilege_t where
  "PRIV_DEBUG = SUPER_ACL"

definition PRIV_SET_GLOBAL_SYSTEM_VARIABLE :: privilege_t where
  "PRIV_SET_GLOBAL_SYSTEM_VARIABLE = SUPER_ACL"

definition PRIV_SET_RESTRICTED_SESSION_SYSTEM_VARIABLE :: privilege_t where
  "PRIV_SET_RESTRICTED_SESSION_SYSTEM_VARIABLE = SUPER_ACL"

definition PRIV_SET_SYSTEM_VAR_BINLOG_FORMAT :: privilege_t where
  "PRIV_SET_SYSTEM_VAR_BINLOG_FORMAT = SUPER_ACL OR BINLOG_ADMIN_ACL"

definition PRIV_SET_SYSTEM_VAR_BINLOG_DIRECT_NON_TRANSACTIONAL_UPDATES :: privilege_t where
  "PRIV_SET_SYSTEM_VAR_BINLOG_DIRECT_NON_TRANSACTIONAL_UPDATES =
     SUPER_ACL OR BINLOG_ADMIN_ACL"

definition PRIV_SET_SYSTEM_VAR_BINLOG_ANNOTATE_ROW_EVENTS :: privilege_t where
  "PRIV_SET_SYSTEM_VAR_BINLOG_ANNOTATE_ROW_EVENTS = SUPER_ACL OR BINLOG_ADMIN_ACL"

definition PRIV_SET_SYSTEM_VAR_BINLOG_ROW_IMAGE :: privilege_t where
  "PRIV_SET_SYSTEM_VAR_BINLOG_ROW_IMAGE = SUPER_ACL OR BINLOG_ADMIN_ACL"

definition PRIV_SET_SYSTEM_VAR_SQL_LOG_BIN :: privilege_t where
  "PRIV_SET_SYSTEM_VAR_SQL_LOG_BIN = SUPER_ACL OR BINLOG_ADMIN_ACL"

definition PRIV_SET_SYSTEM_GLOBAL_VAR_BINLOG_CACHE_SIZE :: privilege_t where
  "PRIV_SET_SYSTEM_GLOBAL_VAR_BINLOG_CACHE_SIZE = SUPER_ACL OR BINLOG_ADMIN_ACL"

definition PRIV_SET_SYSTEM_GLOBAL_VAR_BINLOG_FILE_CACHE_SIZE :: privilege_t where
  "PRIV_SET_SYSTEM_GLOBAL_VAR_BINLOG_FILE_CACHE_SIZE = SUPER_ACL OR BINLOG_ADMIN_ACL"

definition PRIV_SET_SYSTEM_GLOBAL_VAR_BINLOG_STMT_CACHE_SIZE :: privilege_t where
  "PRIV_SET_SYSTEM_GLOBAL_VAR_BINLOG_STMT_CACHE_SIZE = SUPER_ACL OR BINLOG_ADMIN_ACL"

definition PRIV_SET_SYSTEM_GLOBAL_VAR_BINLOG_COMMIT_WAIT_COUNT :: privilege_t where
  "PRIV_SET_SYSTEM_GLOBAL_VAR_BINLOG_COMMIT_WAIT_COUNT = SUPER_ACL OR BINLOG_ADMIN_ACL"

definition PRIV_SET_SYSTEM_GLOBAL_VAR_BINLOG_COMMIT_WAIT_USEC :: privilege_t where
  "PRIV_SET_SYSTEM_GLOBAL_VAR_BINLOG_COMMIT_WAIT_USEC = SUPER_ACL OR BINLOG_ADMIN_ACL"

definition PRIV_SET_SYSTEM_GLOBAL_VAR_BINLOG_ROW_METADATA :: privilege_t where
  "PRIV_SET_SYSTEM_GLOBAL_VAR_BINLOG_ROW_METADATA = SUPER_ACL OR BINLOG_ADMIN_ACL"

definition PRIV_SET_SYSTEM_GLOBAL_VAR_EXPIRE_LOGS_DAYS :: privilege_t where
  "PRIV_SET_SYSTEM_GLOBAL_VAR_EXPIRE_LOGS_DAYS = SUPER_ACL OR BINLOG_ADMIN_ACL"

definition PRIV_SET_SYSTEM_GLOBAL_VAR_LOG_BIN_COMPRESS :: privilege_t where
  "PRIV_SET_SYSTEM_GLOBAL_VAR_LOG_BIN_COMPRESS = SUPER_ACL OR BINLOG_ADMIN_ACL"

definition PRIV_SET_SYSTEM_GLOBAL_VAR_LOG_BIN_COMPRESS_MIN_LEN :: privilege_t where
  "PRIV_SET_SYSTEM_GLOBAL_VAR_LOG_BIN_COMPRESS_MIN_LEN = SUPER_ACL OR BINLOG_ADMIN_ACL"

definition PRIV_SET_SYSTEM_GLOBAL_VAR_LOG_BIN_TRUST_FUNCTION_CREATORS :: privilege_t where
  "PRIV_SET_SYSTEM_GLOBAL_VAR_LOG_BIN_TRUST_FUNCTION_CREATORS =
     SUPER_ACL OR BINLOG_ADMIN_ACL"

definition PRIV_SET_SYSTEM_GLOBAL_VAR_MAX_BINLOG_CACHE_SIZE :: privilege_t where
  "PRIV_SET_SYSTEM_GLOBAL_VAR_MAX_BINLOG_CACHE_SIZE = SUPER_ACL OR BINLOG_ADMIN_ACL"

definition PRIV_SET_SYSTEM_GLOBAL_VAR_MAX_BINLOG_STMT_CACHE_SIZE :: privilege_t where
  "PRIV_SET_SYSTEM_GLOBAL_VAR_MAX_BINLOG_STMT_CACHE_SIZE =
     SUPER_ACL OR BINLOG_ADMIN_ACL"

definition PRIV_SET_SYSTEM_GLOBAL_VAR_MAX_BINLOG_SIZE :: privilege_t where
  "PRIV_SET_SYSTEM_GLOBAL_VAR_MAX_BINLOG_SIZE = SUPER_ACL OR BINLOG_ADMIN_ACL"

definition PRIV_SET_SYSTEM_GLOBAL_VAR_SYNC_BINLOG :: privilege_t where
  "PRIV_SET_SYSTEM_GLOBAL_VAR_SYNC_BINLOG = SUPER_ACL OR BINLOG_ADMIN_ACL"

definition PRIV_IGNORE_READ_ONLY :: privilege_t where
  "PRIV_IGNORE_READ_ONLY = READ_ONLY_ADMIN_ACL OR SUPER_ACL"

definition PRIV_SET_SYSTEM_GLOBAL_VAR_READ_ONLY :: privilege_t where
  "PRIV_SET_SYSTEM_GLOBAL_VAR_READ_ONLY = READ_ONLY_ADMIN_ACL OR SUPER_ACL"

definition PRIV_IGNORE_INIT_CONNECT :: privilege_t where
  "PRIV_IGNORE_INIT_CONNECT = CONNECTION_ADMIN_ACL OR SUPER_ACL"

definition PRIV_IGNORE_MAX_USER_CONNECTIONS :: privilege_t where
  "PRIV_IGNORE_MAX_USER_CONNECTIONS = CONNECTION_ADMIN_ACL OR SUPER_ACL"

definition PRIV_IGNORE_MAX_CONNECTIONS :: privilege_t where
  "PRIV_IGNORE_MAX_CONNECTIONS = CONNECTION_ADMIN_ACL OR SUPER_ACL"

definition PRIV_IGNORE_MAX_PASSWORD_ERRORS :: privilege_t where
  "PRIV_IGNORE_MAX_PASSWORD_ERRORS = CONNECTION_ADMIN_ACL OR SUPER_ACL"

definition PRIV_KILL_OTHER_USER_PROCESS :: privilege_t where
  "PRIV_KILL_OTHER_USER_PROCESS = CONNECTION_ADMIN_ACL OR SUPER_ACL"

definition PRIV_SET_SYSTEM_GLOBAL_VAR_CONNECT_TIMEOUT :: privilege_t where
  "PRIV_SET_SYSTEM_GLOBAL_VAR_CONNECT_TIMEOUT = CONNECTION_ADMIN_ACL OR SUPER_ACL"

definition PRIV_SET_SYSTEM_GLOBAL_VAR_DISCONNECT_ON_EXPIRED_PASSWORD :: privilege_t where
  "PRIV_SET_SYSTEM_GLOBAL_VAR_DISCONNECT_ON_EXPIRED_PASSWORD =
     CONNECTION_ADMIN_ACL OR SUPER_ACL"

definition PRIV_SET_SYSTEM_GLOBAL_VAR_EXTRA_MAX_CONNECTIONS :: privilege_t where
  "PRIV_SET_SYSTEM_GLOBAL_VAR_EXTRA_MAX_CONNECTIONS =
     CONNECTION_ADMIN_ACL OR SUPER_ACL"

definition PRIV_SET_SYSTEM_GLOBAL_VAR_INIT_CONNECT :: privilege_t where
  "PRIV_SET_SYSTEM_GLOBAL_VAR_INIT_CONNECT = CONNECTION_ADMIN_ACL OR SUPER_ACL"

definition PRIV_SET_SYSTEM_GLOBAL_VAR_MAX_CONNECTIONS :: privilege_t where
  "PRIV_SET_SYSTEM_GLOBAL_VAR_MAX_CONNECTIONS = CONNECTION_ADMIN_ACL OR SUPER_ACL"

definition PRIV_SET_SYSTEM_GLOBAL_VAR_MAX_CONNECT_ERRORS :: privilege_t where
  "PRIV_SET_SYSTEM_GLOBAL_VAR_MAX_CONNECT_ERRORS = CONNECTION_ADMIN_ACL OR SUPER_ACL"

definition PRIV_SET_SYSTEM_GLOBAL_VAR_MAX_PASSWORD_ERRORS :: privilege_t where
  "PRIV_SET_SYSTEM_GLOBAL_VAR_MAX_PASSWORD_ERRORS = CONNECTION_ADMIN_ACL OR SUPER_ACL"

definition PRIV_SET_SYSTEM_GLOBAL_VAR_PROXY_PROTOCOL_NETWORKS :: privilege_t where
  "PRIV_SET_SYSTEM_GLOBAL_VAR_PROXY_PROTOCOL_NETWORKS =
     CONNECTION_ADMIN_ACL OR SUPER_ACL"

definition PRIV_SET_SYSTEM_GLOBAL_VAR_SECURE_AUTH :: privilege_t where
  "PRIV_SET_SYSTEM_GLOBAL_VAR_SECURE_AUTH = CONNECTION_ADMIN_ACL OR SUPER_ACL"

definition PRIV_SET_SYSTEM_GLOBAL_VAR_SLOW_LAUNCH_TIME :: privilege_t where
  "PRIV_SET_SYSTEM_GLOBAL_VAR_SLOW_LAUNCH_TIME = CONNECTION_ADMIN_ACL OR SUPER_ACL"

definition PRIV_SET_SYSTEM_GLOBAL_VAR_THREAD_POOL :: privilege_t where
  "PRIV_SET_SYSTEM_GLOBAL_VAR_THREAD_POOL = CONNECTION_ADMIN_ACL OR SUPER_ACL"

definition PRIV_STMT_SHOW_BINLOG_STATUS :: privilege_t where
  "PRIV_STMT_SHOW_BINLOG_STATUS = BINLOG_MONITOR_ACL OR SUPER_ACL"

definition PRIV_STMT_SHOW_BINARY_LOGS :: privilege_t where
  "PRIV_STMT_SHOW_BINARY_LOGS = BINLOG_MONITOR_ACL OR SUPER_ACL"

definition PRIV_STMT_PURGE_BINLOG :: privilege_t where
  "PRIV_STMT_PURGE_BINLOG = BINLOG_ADMIN_ACL OR SUPER_ACL"

definition PRIV_STMT_SHOW_BINLOG_EVENTS :: privilege_t where
  "PRIV_STMT_SHOW_BINLOG_EVENTS = BINLOG_MONITOR_ACL"

definition PRIV_COM_REGISTER_SLAVE :: privilege_t where
  "PRIV_COM_REGISTER_SLAVE = REPL_SLAVE_ACL"

definition PRIV_COM_BINLOG_DUMP :: privilege_t where
  "PRIV_COM_BINLOG_DUMP = REPL_SLAVE_ACL"

definition PRIV_STMT_SHOW_SLAVE_HOSTS :: privilege_t where
  "PRIV_STMT_SHOW_SLAVE_HOSTS = REPL_MASTER_ADMIN_ACL"

definition PRIV_SET_SYSTEM_GLOBAL_VAR_RPL_SEMI_SYNC_MASTER_ENABLED :: privilege_t where
  "PRIV_SET_SYSTEM_GLOBAL_VAR_RPL_SEMI_SYNC_MASTER_ENABLED =
     REPL_MASTER_ADMIN_ACL OR SUPER_ACL"

definition PRIV_SET_SYSTEM_GLOBAL_VAR_RPL_SEMI_SYNC_MASTER_TIMEOUT :: privilege_t where
  "PRIV_SET_SYSTEM_GLOBAL_VAR_RPL_SEMI_SYNC_MASTER_TIMEOUT =
     REPL_MASTER_ADMIN_ACL OR SUPER_ACL"

definition PRIV_SET_SYSTEM_GLOBAL_VAR_RPL_SEMI_SYNC_MASTER_WAIT_NO_SLAVE :: privilege_t where
  "PRIV_SET_SYSTEM_GLOBAL_VAR_RPL_SEMI_SYNC_MASTER_WAIT_NO_SLAVE =
     REPL_MASTER_ADMIN_ACL OR SUPER_ACL"

definition PRIV_SET_SYSTEM_GLOBAL_VAR_RPL_SEMI_SYNC_MASTER_TRACE_LEVEL :: privilege_t where
  "PRIV_SET_SYSTEM_GLOBAL_VAR_RPL_SEMI_SYNC_MASTER_TRACE_LEVEL =
     REPL_MASTER_ADMIN_ACL OR SUPER_ACL"

definition PRIV_SET_SYSTEM_GLOBAL_VAR_RPL_SEMI_SYNC_MASTER_WAIT_POINT :: privilege_t where
  "PRIV_SET_SYSTEM_GLOBAL_VAR_RPL_SEMI_SYNC_MASTER_WAIT_POINT =
     REPL_MASTER_ADMIN_ACL OR SUPER_ACL"

definition PRIV_SET_SYSTEM_GLOBAL_VAR_MASTER_VERIFY_CHECKSUM :: privilege_t where
  "PRIV_SET_SYSTEM_GLOBAL_VAR_MASTER_VERIFY_CHECKSUM =
     REPL_MASTER_ADMIN_ACL OR SUPER_ACL"

definition PRIV_SET_SYSTEM_GLOBAL_VAR_GTID_BINLOG_STATE :: privilege_t where
  "PRIV_SET_SYSTEM_GLOBAL_VAR_GTID_BINLOG_STATE = REPL_MASTER_ADMIN_ACL OR SUPER_ACL"

definition PRIV_SET_SYSTEM_GLOBAL_VAR_SERVER_ID :: privilege_t where
  "PRIV_SET_SYSTEM_GLOBAL_VAR_SERVER_ID = REPL_MASTER_ADMIN_ACL OR SUPER_ACL"

definition PRIV_SET_SYSTEM_GLOBAL_VAR_GTID_DOMAIN_ID :: privilege_t where
  "PRIV_SET_SYSTEM_GLOBAL_VAR_GTID_DOMAIN_ID = REPL_MASTER_ADMIN_ACL OR SUPER_ACL"

definition PRIV_STMT_START_SLAVE :: privilege_t where
  "PRIV_STMT_START_SLAVE = REPL_SLAVE_ADMIN_ACL OR SUPER_ACL"

definition PRIV_STMT_STOP_SLAVE :: privilege_t where
  "PRIV_STMT_STOP_SLAVE = REPL_SLAVE_ADMIN_ACL OR SUPER_ACL"

definition PRIV_STMT_CHANGE_MASTER :: privilege_t where
  "PRIV_STMT_CHANGE_MASTER = REPL_SLAVE_ADMIN_ACL OR SUPER_ACL"

definition PRIV_STMT_SHOW_SLAVE_STATUS :: privilege_t where
  "PRIV_STMT_SHOW_SLAVE_STATUS = REPL_SLAVE_ADMIN_ACL OR SUPER_ACL"

definition PRIV_STMT_SHOW_RELAYLOG_EVENTS :: privilege_t where
  "PRIV_STMT_SHOW_RELAYLOG_EVENTS = REPL_SLAVE_ADMIN_ACL"

definition PRIV_STMT_BINLOG :: privilege_t where
  "PRIV_STMT_BINLOG = BINLOG_REPLAY_ACL OR SUPER_ACL"

definition PRIV_SET_SYSTEM_SESSION_VAR_GTID_SEQ_NO :: privilege_t where
  "PRIV_SET_SYSTEM_SESSION_VAR_GTID_SEQ_NO = BINLOG_REPLAY_ACL OR SUPER_ACL"

definition PRIV_SET_SYSTEM_SESSION_VAR_PSEUDO_THREAD_ID :: privilege_t where
  "PRIV_SET_SYSTEM_SESSION_VAR_PSEUDO_THREAD_ID = BINLOG_REPLAY_ACL OR SUPER_ACL"

definition PRIV_SET_SYSTEM_SESSION_VAR_SERVER_ID :: privilege_t where
  "PRIV_SET_SYSTEM_SESSION_VAR_SERVER_ID = BINLOG_REPLAY_ACL OR SUPER_ACL"

definition PRIV_SET_SYSTEM_SESSION_VAR_GTID_DOMAIN_ID :: privilege_t where
  "PRIV_SET_SYSTEM_SESSION_VAR_GTID_DOMAIN_ID = BINLOG_REPLAY_ACL OR SUPER_ACL"

definition PRIV_SET_SYSTEM_GLOBAL_VAR_REPLICATE_EVENTS_MARKED_FOR_SKIP :: privilege_t where
  "PRIV_SET_SYSTEM_GLOBAL_VAR_REPLICATE_EVENTS_MARKED_FOR_SKIP =
     REPL_SLAVE_ADMIN_ACL OR SUPER_ACL"

definition PRIV_SET_SYSTEM_GLOBAL_VAR_REPLICATE_DO_DB :: privilege_t where
  "PRIV_SET_SYSTEM_GLOBAL_VAR_REPLICATE_DO_DB = REPL_SLAVE_ADMIN_ACL OR SUPER_ACL"

definition PRIV_SET_SYSTEM_GLOBAL_VAR_REPLICATE_DO_TABLE :: privilege_t where
  "PRIV_SET_SYSTEM_GLOBAL_VAR_REPLICATE_DO_TABLE = REPL_SLAVE_ADMIN_ACL OR SUPER_ACL"

definition PRIV_SET_SYSTEM_GLOBAL_VAR_REPLICATE_IGNORE_DB :: privilege_t where
  "PRIV_SET_SYSTEM_GLOBAL_VAR_REPLICATE_IGNORE_DB = REPL_SLAVE_ADMIN_ACL OR SUPER_ACL"

definition PRIV_SET_SYSTEM_GLOBAL_VAR_REPLICATE_IGNORE_TABLE :: privilege_t where
  "PRIV_SET_SYSTEM_GLOBAL_VAR_REPLICATE_IGNORE_TABLE =
     REPL_SLAVE_ADMIN_ACL OR SUPER_ACL"

definition PRIV_SET_SYSTEM_GLOBAL_VAR_REPLICATE_WILD_DO_TABLE :: privilege_t where
  "PRIV_SET_SYSTEM_GLOBAL_VAR_REPLICATE_WILD_DO_TABLE =
     REPL_SLAVE_ADMIN_ACL OR SUPER_ACL"

definition PRIV_SET_SYSTEM_GLOBAL_VAR_REPLICATE_WILD_IGNORE_TABLE :: privilege_t where
  "PRIV_SET_SYSTEM_GLOBAL_VAR_REPLICATE_WILD_IGNORE_TABLE =
     REPL_SLAVE_ADMIN_ACL OR SUPER_ACL"

definition PRIV_SET_SYSTEM_GLOBAL_VAR_READ_BINLOG_SPEED_LIMIT :: privilege_t where
  "PRIV_SET_SYSTEM_GLOBAL_VAR_READ_BINLOG_SPEED_LIMIT =
     REPL_SLAVE_ADMIN_ACL OR SUPER_ACL"

definition PRIV_SET_SYSTEM_GLOBAL_VAR_SLAVE_COMPRESSED_PROTOCOL :: privilege_t where
  "PRIV_SET_SYSTEM_GLOBAL_VAR_SLAVE_COMPRESSED_PROTOCOL =
     REPL_SLAVE_ADMIN_ACL OR SUPER_ACL"

definition PRIV_SET_SYSTEM_GLOBAL_VAR_SLAVE_DDL_EXEC_MODE :: privilege_t where
  "PRIV_SET_SYSTEM_GLOBAL_VAR_SLAVE_DDL_EXEC_MODE = REPL_SLAVE_ADMIN_ACL OR SUPER_ACL"

definition PRIV_SET_SYSTEM_GLOBAL_VAR_SLAVE_DOMAIN_PARALLEL_THREADS :: privilege_t where
  "PRIV_SET_SYSTEM_GLOBAL_VAR_SLAVE_DOMAIN_PARALLEL_THREADS =
     REPL_SLAVE_ADMIN_ACL OR SUPER_ACL"

definition PRIV_SET_SYSTEM_GLOBAL_VAR_SLAVE_EXEC_MODE :: privilege_t where
  "PRIV_SET_SYSTEM_GLOBAL_VAR_SLAVE_EXEC_MODE = REPL_SLAVE_ADMIN_ACL OR SUPER_ACL"

definition PRIV_SET_SYSTEM_GLOBAL_VAR_SLAVE_MAX_ALLOWED_PACKET :: privilege_t where
  "PRIV_SET_SYSTEM_GLOBAL_VAR_SLAVE_MAX_ALLOWED_PACKET =
     REPL_SLAVE_ADMIN_ACL OR SUPER_ACL"

definition PRIV_SET_SYSTEM_GLOBAL_VAR_SLAVE_NET_TIMEOUT :: privilege_t where
  "PRIV_SET_SYSTEM_GLOBAL_VAR_SLAVE_NET_TIMEOUT = REPL_SLAVE_ADMIN_ACL OR SUPER_ACL"

definition PRIV_SET_SYSTEM_GLOBAL_VAR_SLAVE_PARALLEL_MAX_QUEUED :: privilege_t where
  "PRIV_SET_SYSTEM_GLOBAL_VAR_SLAVE_PARALLEL_MAX_QUEUED =
     REPL_SLAVE_ADMIN_ACL OR SUPER_ACL"

definition PRIV_SET_SYSTEM_GLOBAL_VAR_SLAVE_PARALLEL_MODE :: privilege_t where
  "PRIV_SET_SYSTEM_GLOBAL_VAR_SLAVE_PARALLEL_MODE = REPL_SLAVE_ADMIN_ACL OR SUPER_ACL"

definition PRIV_SET_SYSTEM_GLOBAL_VAR_SLAVE_PARALLEL_THREADS :: privilege_t where
  "PRIV_SET_SYSTEM_GLOBAL_VAR_SLAVE_PARALLEL_THREADS =
     REPL_SLAVE_ADMIN_ACL OR SUPER_ACL"

definition PRIV_SET_SYSTEM_GLOBAL_VAR_SLAVE_PARALLEL_WORKERS :: privilege_t where
  "PRIV_SET_SYSTEM_GLOBAL_VAR_SLAVE_PARALLEL_WORKERS =
     REPL_SLAVE_ADMIN_ACL OR SUPER_ACL"

definition PRIV_SET_SYSTEM_GLOBAL_VAR_SLAVE_RUN_TRIGGERS_FOR_RBR :: privilege_t where
  "PRIV_SET_SYSTEM_GLOBAL_VAR_SLAVE_RUN_TRIGGERS_FOR_RBR =
     REPL_SLAVE_ADMIN_ACL OR SUPER_ACL"

definition PRIV_SET_SYSTEM_GLOBAL_VAR_SLAVE_SQL_VERIFY_CHECKSUM :: privilege_t where
  "PRIV_SET_SYSTEM_GLOBAL_VAR_SLAVE_SQL_VERIFY_CHECKSUM =
     REPL_SLAVE_ADMIN_ACL OR SUPER_ACL"

definition PRIV_SET_SYSTEM_GLOBAL_VAR_SLAVE_TRANSACTION_RETRY_INTERVAL :: privilege_t where
  "PRIV_SET_SYSTEM_GLOBAL_VAR_SLAVE_TRANSACTION_RETRY_INTERVAL =
     REPL_SLAVE_ADMIN_ACL OR SUPER_ACL"

definition PRIV_SET_SYSTEM_GLOBAL_VAR_SLAVE_TYPE_CONVERSIONS :: privilege_t where
  "PRIV_SET_SYSTEM_GLOBAL_VAR_SLAVE_TYPE_CONVERSIONS =
     REPL_SLAVE_ADMIN_ACL OR SUPER_ACL"

definition PRIV_SET_SYSTEM_GLOBAL_VAR_INIT_SLAVE :: privilege_t where
  "PRIV_SET_SYSTEM_GLOBAL_VAR_INIT_SLAVE = REPL_SLAVE_ADMIN_ACL OR SUPER_ACL"

definition PRIV_SET_SYSTEM_GLOBAL_VAR_RPL_SEMI_SYNC_SLAVE_ENABLED :: privilege_t where
  "PRIV_SET_SYSTEM_GLOBAL_VAR_RPL_SEMI_SYNC_SLAVE_ENABLED =
     REPL_SLAVE_ADMIN_ACL OR SUPER_ACL"

definition PRIV_SET_SYSTEM_GLOBAL_VAR_RPL_SEMI_SYNC_SLAVE_TRACE_LEVEL :: privilege_t where
  "PRIV_SET_SYSTEM_GLOBAL_VAR_RPL_SEMI_SYNC_SLAVE_TRACE_LEVEL =
     REPL_SLAVE_ADMIN_ACL OR SUPER_ACL"

definition PRIV_SET_SYSTEM_GLOBAL_VAR_RPL_SEMI_SYNC_SLAVE_DELAY_MASTER :: privilege_t where
  "PRIV_SET_SYSTEM_GLOBAL_VAR_RPL_SEMI_SYNC_SLAVE_DELAY_MASTER =
     REPL_SLAVE_ADMIN_ACL OR SUPER_ACL"

definition PRIV_SET_SYSTEM_GLOBAL_VAR_RPL_SEMI_SYNC_SLAVE_KILL_CONN_TIMEOUT :: privilege_t where
  "PRIV_SET_SYSTEM_GLOBAL_VAR_RPL_SEMI_SYNC_SLAVE_KILL_CONN_TIMEOUT =
     REPL_SLAVE_ADMIN_ACL OR SUPER_ACL"

definition PRIV_SET_SYSTEM_GLOBAL_VAR_RELAY_LOG_PURGE :: privilege_t where
  "PRIV_SET_SYSTEM_GLOBAL_VAR_RELAY_LOG_PURGE = REPL_SLAVE_ADMIN_ACL OR SUPER_ACL"

definition PRIV_SET_SYSTEM_GLOBAL_VAR_RELAY_LOG_RECOVERY :: privilege_t where
  "PRIV_SET_SYSTEM_GLOBAL_VAR_RELAY_LOG_RECOVERY = REPL_SLAVE_ADMIN_ACL OR SUPER_ACL"

definition PRIV_SET_SYSTEM_GLOBAL_VAR_SYNC_MASTER_INFO :: privilege_t where
  "PRIV_SET_SYSTEM_GLOBAL_VAR_SYNC_MASTER_INFO = REPL_SLAVE_ADMIN_ACL OR SUPER_ACL"

definition PRIV_SET_SYSTEM_GLOBAL_VAR_SYNC_RELAY_LOG :: privilege_t where
  "PRIV_SET_SYSTEM_GLOBAL_VAR_SYNC_RELAY_LOG = REPL_SLAVE_ADMIN_ACL OR SUPER_ACL"

definition PRIV_SET_SYSTEM_GLOBAL_VAR_SYNC_RELAY_LOG_INFO :: privilege_t where
  "PRIV_SET_SYSTEM_GLOBAL_VAR_SYNC_RELAY_LOG_INFO = REPL_SLAVE_ADMIN_ACL OR SUPER_ACL"

definition PRIV_SET_SYSTEM_GLOBAL_VAR_GTID_CLEANUP_BATCH_SIZE :: privilege_t where
  "PRIV_SET_SYSTEM_GLOBAL_VAR_GTID_CLEANUP_BATCH_SIZE =
     REPL_SLAVE_ADMIN_ACL OR SUPER_ACL"

definition PRIV_SET_SYSTEM_GLOBAL_VAR_GTID_IGNORE_DUPLICATES :: privilege_t where
  "PRIV_SET_SYSTEM_GLOBAL_VAR_GTID_IGNORE_DUPLICATES =
     REPL_SLAVE_ADMIN_ACL OR SUPER_ACL"

definition PRIV_SET_SYSTEM_GLOBAL_VAR_GTID_POS_AUTO_ENGINES :: privilege_t where
  "PRIV_SET_SYSTEM_GLOBAL_VAR_GTID_POS_AUTO_ENGINES =
     REPL_SLAVE_ADMIN_ACL OR SUPER_ACL"

definition PRIV_SET_SYSTEM_GLOBAL_VAR_GTID_SLAVE_POS :: privilege_t where
  "PRIV_SET_SYSTEM_GLOBAL_VAR_GTID_SLAVE_POS = REPL_SLAVE_ADMIN_ACL OR SUPER_ACL"

definition PRIV_SET_SYSTEM_GLOBAL_VAR_GTID_STRICT_MODE :: privilege_t where
  "PRIV_SET_SYSTEM_GLOBAL_VAR_GTID_STRICT_MODE = REPL_SLAVE_ADMIN_ACL OR SUPER_ACL"

definition PRIV_STMT_CREATE_SERVER :: privilege_t where
  "PRIV_STMT_CREATE_SERVER = FEDERATED_ADMIN_ACL OR SUPER_ACL"

definition PRIV_STMT_ALTER_SERVER :: privilege_t where
  "PRIV_STMT_ALTER_SERVER = FEDERATED_ADMIN_ACL OR SUPER_ACL"

definition PRIV_STMT_DROP_SERVER :: privilege_t where
  "PRIV_STMT_DROP_SERVER = FEDERATED_ADMIN_ACL OR SUPER_ACL"

definition PRIV_COM_PROCESS_INFO :: privilege_t where
  "PRIV_COM_PROCESS_INFO = PROCESS_ACL"

definition PRIV_STMT_SHOW_EXPLAIN :: privilege_t where
  "PRIV_STMT_SHOW_EXPLAIN = PROCESS_ACL"

definition PRIV_STMT_SHOW_ENGINE_STATUS :: privilege_t where
  "PRIV_STMT_SHOW_ENGINE_STATUS = PROCESS_ACL"

definition PRIV_STMT_SHOW_ENGINE_MUTEX :: privilege_t where
  "PRIV_STMT_SHOW_ENGINE_MUTEX = PROCESS_ACL"

definition PRIV_STMT_SHOW_PROCESSLIST :: privilege_t where
  "PRIV_STMT_SHOW_PROCESSLIST = PROCESS_ACL"

subsection \<open>Chunks of the database grant table\<close>

definition DB_CHUNK0 :: privilege_t where
  "DB_CHUNK0 = COL_DML_ACLS OR CREATE_ACL OR DROP_ACL"

definition DB_CHUNK1 :: privilege_t where
  "DB_CHUNK1 = GRANT_ACL OR REFERENCES_ACL OR INDEX_ACL OR ALTER_ACL"

definition DB_CHUNK2 :: privilege_t where
  "DB_CHUNK2 = CREATE_TMP_ACL OR LOCK_TABLES_ACL"

definition DB_CHUNK3 :: privilege_t where
  "DB_CHUNK3 = VIEW_ACLS OR PROC_DDL_ACLS"

definition DB_CHUNK4 :: privilege_t where
  "DB_CHUNK4 = EXECUTE_ACL"

definition DB_CHUNK5 :: privilege_t where
  "DB_CHUNK5 = EVENT_ACL OR TRIGGER_ACL"

definition DB_CHUNK6 :: privilege_t where
  "DB_CHUNK6 = DELETE_HISTORY_ACL"

subsection \<open>Packing to and from the grant tables\<close>

definition fix_rights_for_db :: "privilege_t \<Rightarrow> privilege_t" where
  "fix_rights_for_db A =
     (A AND DB_CHUNK0)
     OR (push_bit 4 A AND DB_CHUNK1)
     OR (push_bit 6 A AND DB_CHUNK2)
     OR (push_bit 9 A AND DB_CHUNK3)
     OR (push_bit 2 A AND DB_CHUNK4)
     OR (push_bit 9 A AND DB_CHUNK5)
     OR (push_bit 10 A AND DB_CHUNK6)"

definition get_rights_for_db :: "privilege_t \<Rightarrow> privilege_t" where
  "get_rights_for_db A =
     (A AND DB_CHUNK0)
     OR drop_bit 4 (A AND DB_CHUNK1)
     OR drop_bit 6 (A AND DB_CHUNK2)
     OR drop_bit 9 (A AND DB_CHUNK3)
     OR drop_bit 2 (A AND DB_CHUNK4)
     OR drop_bit 9 (A AND DB_CHUNK5)
     OR drop_bit 10 (A AND DB_CHUNK6)"

definition TBL_CHUNK0 :: privilege_t where
  "TBL_CHUNK0 = DB_CHUNK0"

definition TBL_CHUNK1 :: privilege_t where
  "TBL_CHUNK1 = DB_CHUNK1"

definition TBL_CHUNK2 :: privilege_t where
  "TBL_CHUNK2 = CREATE_VIEW_ACL OR SHOW_VIEW_ACL"

definition TBL_CHUNK3 :: privilege_t where
  "TBL_CHUNK3 = TRIGGER_ACL"

definition TBL_CHUNK4 :: privilege_t where
  "TBL_CHUNK4 = DELETE_HISTORY_ACL"

definition fix_rights_for_table :: "privilege_t \<Rightarrow> privilege_t" where
  "fix_rights_for_table A =
     (A AND TBL_CHUNK0)
     OR (push_bit 4 A AND TBL_CHUNK1)
     OR (push_bit 11 A AND TBL_CHUNK2)
     OR (push_bit 15 A AND TBL_CHUNK3)
     OR (push_bit 16 A AND TBL_CHUNK4)"

definition get_rights_for_table :: "privilege_t \<Rightarrow> privilege_t" where
  "get_rights_for_table A =
     (A AND TBL_CHUNK0)
     OR drop_bit 4 (A AND TBL_CHUNK1)
     OR drop_bit 11 (A AND TBL_CHUNK2)
     OR drop_bit 15 (A AND TBL_CHUNK3)
     OR drop_bit 16 (A AND TBL_CHUNK4)"

definition fix_rights_for_column :: "privilege_t \<Rightarrow> privilege_t" where
  "fix_rights_for_column A =
     (let msk = SELECT_ACL OR INSERT_ACL OR UPDATE_ACL
      in (A AND msk) OR push_bit 8 (A AND NOT msk))"

definition get_rights_for_column :: "privilege_t \<Rightarrow> privilege_t" where
  "get_rights_for_column A =
     (let msk = SELECT_ACL OR INSERT_ACL OR UPDATE_ACL
      in (A AND msk) OR drop_bit 8 A)"

definition fix_rights_for_procedure :: "privilege_t \<Rightarrow> privilege_t" where
  "fix_rights_for_procedure A =
     (push_bit 18 A AND EXECUTE_ACL) OR (push_bit 23 A AND ALTER_PROC_ACL) OR (push_bit 8 A AND GRANT_ACL)"

definition get_rights_for_procedure :: "privilege_t \<Rightarrow> privilege_t" where
  "get_rights_for_procedure A =
     drop_bit 18 (A AND EXECUTE_ACL) OR drop_bit 23 (A AND ALTER_PROC_ACL) OR drop_bit 8 (A AND GRANT_ACL)"

subsection \<open>Definition bundles\<close>

lemmas acl_bit_defs =
  NO_ACL_def SELECT_ACL_def INSERT_ACL_def UPDATE_ACL_def DELETE_ACL_def CREATE_ACL_def
  DROP_ACL_def RELOAD_ACL_def SHUTDOWN_ACL_def PROCESS_ACL_def FILE_ACL_def GRANT_ACL_def
  REFERENCES_ACL_def INDEX_ACL_def ALTER_ACL_def SHOW_DB_ACL_def SUPER_ACL_def
  CREATE_TMP_ACL_def LOCK_TABLES_ACL_def EXECUTE_ACL_def REPL_SLAVE_ACL_def
  BINLOG_MONITOR_ACL_def CREATE_VIEW_ACL_def SHOW_VIEW_ACL_def CREATE_PROC_ACL_def
  ALTER_PROC_ACL_def CREATE_USER_ACL_def EVENT_ACL_def TRIGGER_ACL_def CREATE_TABLESPACE_ACL_def
  DELETE_HISTORY_ACL_def SET_USER_ACL_def FEDERATED_ADMIN_ACL_def CONNECTION_ADMIN_ACL_def
  READ_ONLY_ADMIN_ACL_def REPL_SLAVE_ADMIN_ACL_def REPL_MASTER_ADMIN_ACL_def
  BINLOG_ADMIN_ACL_def BINLOG_REPLAY_ACL_def

lemmas acl_version_defs =
  LAST_100304_ACL_def LAST_100502_ACL_def LAST_CURRENT_ACL_def ALL_KNOWN_ACL_100304_def
  ALL_KNOWN_ACL_100502_def ALL_KNOWN_ACL_def

lemmas acl_set_defs =
  GLOBAL_SUPER_ADDED_SINCE_USER_TABLE_ACLS_def COL_DML_ACLS_def VIEW_ACLS_def
  STD_TABLE_DDL_ACLS_def ALL_TABLE_DDL_ACLS_def COL_ACLS_def PROC_DDL_ACLS_def
  SHOW_PROC_ACLS_def TABLE_ACLS_def DB_ACLS_def PROC_ACLS_def GLOBAL_ACLS_def
  DEFAULT_CREATE_PROC_ACLS_def SHOW_CREATE_TABLE_ACLS_def TMP_TABLE_ACLS_def

lemmas acl_chunk_defs =
  DB_CHUNK0_def DB_CHUNK1_def DB_CHUNK2_def DB_CHUNK3_def DB_CHUNK4_def DB_CHUNK5_def
  DB_CHUNK6_def TBL_CHUNK0_def TBL_CHUNK1_def TBL_CHUNK2_def TBL_CHUNK3_def TBL_CHUNK4_def

lemmas priv_defs =
  PRIV_DEFINER_CLAUSE_def PRIV_REVEAL_MISSING_DEFINER_def PRIV_DES_DECRYPT_ONE_ARG_def
  PRIV_LOG_BIN_TRUSTED_SP_CREATOR_def PRIV_DEBUG_def PRIV_SET_GLOBAL_SYSTEM_VARIABLE_def
  PRIV_SET_RESTRICTED_SESSION_SYSTEM_VARIABLE_def PRIV_SET_SYSTEM_VAR_BINLOG_FORMAT_def
  PRIV_SET_SYSTEM_VAR_BINLOG_DIRECT_NON_TRANSACTIONAL_UPDATES_def
  PRIV_SET_SYSTEM_VAR_BINLOG_ANNOTATE_ROW_EVENTS_def PRIV_SET_SYSTEM_VAR_BINLOG_ROW_IMAGE_def
  PRIV_SET_SYSTEM_VAR_SQL_LOG_BIN_def PRIV_SET_SYSTEM_GLOBAL_VAR_BINLOG_CACHE_SIZE_def
  PRIV_SET_SYSTEM_GLOBAL_VAR_BINLOG_FILE_CACHE_SIZE_def
  PRIV_SET_SYSTEM_GLOBAL_VAR_BINLOG_STMT_CACHE_SIZE_def
  PRIV_SET_SYSTEM_GLOBAL_VAR_BINLOG_COMMIT_WAIT_COUNT_def
  PRIV_SET_SYSTEM_GLOBAL_VAR_BINLOG_COMMIT_WAIT_USEC_def
  PRIV_SET_SYSTEM_GLOBAL_VAR_BINLOG_ROW_METADATA_def
  PRIV_SET_SYSTEM_GLOBAL_VAR_EXPIRE_LOGS_DAYS_def
  PRIV_SET_SYSTEM_GLOBAL_VAR_LOG_BIN_COMPRESS_def
  PRIV_SET_SYSTEM_GLOBAL_VAR_LOG_BIN_COMPRESS_MIN_LEN_def
  PRIV_SET_SYSTEM_GLOBAL_VAR_LOG_BIN_TRUST_FUNCTION_CREATORS_def
  PRIV_SET_SYSTEM_GLOBAL_VAR_MAX_BINLOG_CACHE_SIZE_def
  PRIV_SET_SYSTEM_GLOBAL_VAR_MAX_BINLOG_STMT_CACHE_SIZE_def
  PRIV_SET_SYSTEM_GLOBAL_VAR_MAX_BINLOG_SIZE_def PRIV_SET_SYSTEM_GLOBAL_VAR_SYNC_BINLOG_def
  PRIV_IGNORE_READ_ONLY_def PRIV_SET_SYSTEM_GLOBAL_VAR_READ_ONLY_def
  PRIV_IGNORE_INIT_CONNECT_def PRIV_IGNORE_MAX_USER_CONNECTIONS_def
  PRIV_IGNORE_MAX_CONNECTIONS_def PRIV_IGNORE_MAX_PASSWORD_ERRORS_def
  PRIV_KILL_OTHER_USER_PROCESS_def PRIV_SET_SYSTEM_GLOBAL_VAR_CONNECT_TIMEOUT_def
  PRIV_SET_SYSTEM_GLOBAL_VAR_DISCONNECT_ON_EXPIRED_PASSWORD_def
  PRIV_SET_SYSTEM_GLOBAL_VAR_EXTRA_MAX_CONNECTIONS_def
  PRIV_SET_SYSTEM_GLOBAL_VAR_INIT_CONNECT_def PRIV_SET_SYSTEM_GLOBAL_VAR_MAX_CONNECTIONS_def
  PRIV_SET_SYSTEM_GLOBAL_VAR_MAX_CONNECT_ERRORS_def
  PRIV_SET_SYSTEM_GLOBAL_VAR_MAX_PASSWORD_ERRORS_def
  PRIV_SET_SYSTEM_GLOBAL_VAR_PROXY_PROTOCOL_NETWORKS_def
  PRIV_SET_SYSTEM_GLOBAL_VAR_SECURE_AUTH_def PRIV_SET_SYSTEM_GLOBAL_VAR_SLOW_LAUNCH_TIME_def
  PRIV_SET_SYSTEM_GLOBAL_VAR_THREAD_POOL_def PRIV_STMT_SHOW_BINLOG_STATUS_def
  PRIV_STMT_SHOW_BINARY_LOGS_def PRIV_STMT_PURGE_BINLOG_def PRIV_STMT_SHOW_BINLOG_EVENTS_def
  PRIV_COM_REGISTER_SLAVE_def PRIV_COM_BINLOG_DUMP_def PRIV_STMT_SHOW_SLAVE_HOSTS_def
  PRIV_SET_SYSTEM_GLOBAL_VAR_RPL_SEMI_SYNC_MASTER_ENABLED_def
  PRIV_SET_SYSTEM_GLOBAL_VAR_RPL_SEMI_SYNC_MASTER_TIMEOUT_def
  PRIV_SET_SYSTEM_GLOBAL_VAR_RPL_SEMI_SYNC_MASTER_WAIT_NO_SLAVE_def
  PRIV_SET_SYSTEM_GLOBAL_VAR_RPL_SEMI_SYNC_MASTER_TRACE_LEVEL_def
  PRIV_SET_SYSTEM_GLOBAL_VAR_RPL_SEMI_SYNC_MASTER_WAIT_POINT_def
  PRIV_SET_SYSTEM_GLOBAL_VAR_MASTER_VERIFY_CHECKSUM_def
  PRIV_SET_SYSTEM_GLOBAL_VAR_GTID_BINLOG_STATE_def PRIV_SET_SYSTEM_GLOBAL_VAR_SERVER_ID_def
  PRIV_SET_SYSTEM_GLOBAL_VAR_GTID_DOMAIN_ID_def PRIV_STMT_START_SLAVE_def
  PRIV_STMT_STOP_SLAVE_def PRIV_STMT_CHANGE_MASTER_def PRIV_STMT_SHOW_SLAVE_STATUS_def
  PRIV_STMT_SHOW_RELAYLOG_EVENTS_def PRIV_STMT_BINLOG_def
  PRIV_SET_SYSTEM_SESSION_VAR_GTID_SEQ_NO_def PRIV_SET_SYSTEM_SESSION_VAR_PSEUDO_THREAD_ID_def
  PRIV_SET_SYSTEM_SESSION_VAR_SERVER_ID_def PRIV_SET_SYSTEM_SESSION_VAR_GTID_DOMAIN_ID_def
  PRIV_SET_SYSTEM_GLOBAL_VAR_REPLICATE_EVENTS_MARKED_FOR_SKIP_def
  PRIV_SET_SYSTEM_GLOBAL_VAR_REPLICATE_DO_DB_def
  PRIV_SET_SYSTEM_GLOBAL_VAR_REPLICATE_DO_TABLE_def
  PRIV_SET_SYSTEM_GLOBAL_VAR_REPLICATE_IGNORE_DB_def
  PRIV_SET_SYSTEM_GLOBAL_VAR_REPLICATE_IGNORE_TABLE_def
  PRIV_SET_SYSTEM_GLOBAL_VAR_REPLICATE_WILD_DO_TABLE_def
  PRIV_SET_SYSTEM_GLOBAL_VAR_REPLICATE_WILD_IGNORE_TABLE_def
  PRIV_SET_SYSTEM_GLOBAL_VAR_READ_BINLOG_SPEED_LIMIT_def
  PRIV_SET_SYSTEM_GLOBAL_VAR_SLAVE_COMPRESSED_PROTOCOL_def
  PRIV_SET_SYSTEM_GLOBAL_VAR_SLAVE_DDL_EXEC_MODE_def
  PRIV_SET_SYSTEM_GLOBAL_VAR_SLAVE_DOMAIN_PARALLEL_THREADS_def
  PRIV_SET_SYSTEM_GLOBAL_VAR_SLAVE_EXEC_MODE_def
  PRIV_SET_SYSTEM_GLOBAL_VAR_SLAVE_MAX_ALLOWED_PACKET_def
  PRIV_SET_SYSTEM_GLOBAL_VAR_SLAVE_NET_TIMEOUT_def
  PRIV_SET_SYSTEM_GLOBAL_VAR_SLAVE_PARALLEL_MAX_QUEUED_def
  PRIV_SET_SYSTEM_GLOBAL_VAR_SLAVE_PARALLEL_MODE_def
  PRIV_SET_SYSTEM_GLOBAL_VAR_SLAVE_PARALLEL_THREADS_def
  PRIV_SET_SYSTEM_GLOBAL_VAR_SLAVE_PARALLEL_WORKERS_def
  PRIV_SET_SYSTEM_GLOBAL_VAR_SLAVE_RUN_TRIGGERS_FOR_RBR_def
  PRIV_SET_SYSTEM_GLOBAL_VAR_SLAVE_SQL_VERIFY_CHECKSUM_def
  PRIV_SET_SYSTEM_GLOBAL_VAR_SLAVE_TRANSACTION_RETRY_INTERVAL_def
  PRIV_SET_SYSTEM_GLOBAL_VAR_SLAVE_TYPE_CONVERSIONS_def
  PRIV_SET_SYSTEM_GLOBAL_VAR_INIT_SLAVE_def
  PRIV_SET_SYSTEM_GLOBAL_VAR_RPL_SEMI_SYNC_SLAVE_ENABLED_def
  PRIV_SET_SYSTEM_GLOBAL_VAR_RPL_SEMI_SYNC_SLAVE_TRACE_LEVEL_def
  PRIV_SET_SYSTEM_GLOBAL_VAR_RPL_SEMI_SYNC_SLAVE_DELAY_MASTER_def
  PRIV_SET_SYSTEM_GLOBAL_VAR_RPL_SEMI_SYNC_SLAVE_KILL_CONN_TIMEOUT_def
  PRIV_SET_SYSTEM_GLOBAL_VAR_RELAY_LOG_PURGE_def
  PRIV_SET_SYSTEM_GLOBAL_VAR_RELAY_LOG_RECOVERY_def
  PRIV_SET_SYSTEM_GLOBAL_VAR_SYNC_MASTER_INFO_def PRIV_SET_SYSTEM_GLOBAL_VAR_SYNC_RELAY_LOG_def
  PRIV_SET_SYSTEM_GLOBAL_VAR_SYNC_RELAY_LOG_INFO_def
  PRIV_SET_SYSTEM_GLOBAL_VAR_GTID_CLEANUP_BATCH_SIZE_def
  PRIV_SET_SYSTEM_GLOBAL_VAR_GTID_IGNORE_DUPLICATES_def
  PRIV_SET_SYSTEM_GLOBAL_VAR_GTID_POS_AUTO_ENGINES_def
  PRIV_SET_SYSTEM_GLOBAL_VAR_GTID_SLAVE_POS_def PRIV_SET_SYSTEM_GLOBAL_VAR_GTID_STRICT_MODE_def
  PRIV_STMT_CREATE_SERVER_def PRIV_STMT_ALTER_SERVER_def PRIV_STMT_DROP_SERVER_def
  PRIV_COM_PROCESS_INFO_def PRIV_STMT_SHOW_EXPLAIN_def PRIV_STMT_SHOW_ENGINE_STATUS_def
  PRIV_STMT_SHOW_ENGINE_MUTEX_def PRIV_STMT_SHOW_PROCESSLIST_def

subsection \<open>The interface of the grant-table packings\<close>

text \<open>
  Each pair \<open>fix_rights_for_x\<close> / \<open>get_rights_for_x\<close> is a codec between a set of privilege bits
  (\<open>acls\<close>) and a dense block of \<open>width\<close> low bits, the columns of the grant table.
\<close>

locale rights_codec =
  fixes fix_rights :: "privilege_t \<Rightarrow> privilege_t"
    and get_rights :: "privilege_t \<Rightarrow> privilege_t"
    and acls :: privilege_t
    and width :: nat
  assumes fix_get: "a AND NOT acls = 0 \<Longrightarrow> fix_rights (get_rights a) = a"
    and get_fix: "b AND NOT (mask width) = 0 \<Longrightarrow> get_rights (fix_rights b) = b"
    and get_range: "a AND NOT acls = 0 \<Longrightarrow> get_rights a AND NOT (mask width) = 0"
    and fix_range: "b AND NOT (mask width) = 0 \<Longrightarrow> fix_rights b AND NOT acls = 0"
    and get_or: "get_rights (a OR b) = get_rights a OR get_rights b"
begin

lemma get_inj:
  "a AND NOT acls = 0 \<Longrightarrow> b AND NOT acls = 0 \<Longrightarrow> get_rights a = get_rights b \<longleftrightarrow> a = b"
  using fix_get by metis

lemma bij_stored:
  "bij_betw get_rights {a. a AND NOT acls = 0} {b. b AND NOT (mask width) = 0}"
  by (rule bij_betw_byWitness [where f' = fix_rights])
    (auto simp: fix_get get_fix get_range fix_range)

text \<open>Granting on the stored row and loading it back is granting on the loaded privileges.\<close>

lemma grant_stored:
  assumes "a AND NOT acls = 0" "b AND NOT acls = 0"
  shows "fix_rights (get_rights a OR get_rights b) = a OR b"
proof -
  have "(a OR b) AND NOT acls = 0"
    using assms by (simp add: bit.conj_disj_distrib2)
  then show ?thesis by (simp only: get_or [symmetric] fix_get)
qed

end

subsection \<open>The four codecs of the source\<close>

lemma bit_chunk: "bit (push_bit k (mask w) :: privilege_t) n \<longleftrightarrow> k \<le> n \<and> n < k + w \<and> n < 64"
  by (auto simp: bit_simps)

lemma chunk_masks:
  "DB_CHUNK0 = push_bit 0 (mask 6)" "DB_CHUNK1 = push_bit 10 (mask 4)"
  "DB_CHUNK2 = push_bit 16 (mask 2)" "DB_CHUNK3 = push_bit 21 (mask 4)"
  "DB_CHUNK4 = push_bit 18 (mask 1)" "DB_CHUNK5 = push_bit 26 (mask 2)"
  "DB_CHUNK6 = push_bit 29 (mask 1)" "TBL_CHUNK2 = push_bit 21 (mask 2)"
  "TBL_CHUNK3 = push_bit 27 (mask 1)" "TBL_CHUNK4 = push_bit 29 (mask 1)"
  "EXECUTE_ACL = push_bit 18 (mask 1)" "ALTER_PROC_ACL = push_bit 24 (mask 1)"
  "GRANT_ACL = push_bit 10 (mask 1)"
  "SELECT_ACL OR INSERT_ACL OR UPDATE_ACL = push_bit 0 (mask 3)"
  unfolding acl_chunk_defs acl_set_defs acl_bit_defs by (simp_all add: mask_eq_exp_minus_1)

lemma acl_unions:
  "DB_ACLS = DB_CHUNK0 OR DB_CHUNK1 OR DB_CHUNK2 OR DB_CHUNK3 OR DB_CHUNK4 OR DB_CHUNK5 OR DB_CHUNK6"
  "TABLE_ACLS = DB_CHUNK0 OR DB_CHUNK1 OR TBL_CHUNK2 OR TBL_CHUNK3 OR TBL_CHUNK4"
  "COL_ACLS = push_bit 0 (mask 3) OR push_bit 11 (mask 1)"
  "PROC_ACLS = EXECUTE_ACL OR ALTER_PROC_ACL OR GRANT_ACL"
  unfolding acl_chunk_defs acl_set_defs acl_bit_defs by (simp_all add: mask_eq_exp_minus_1)

lemmas rights_bits = upt_64 bit_chunk bit_or_iff bit_and_iff bit_not_iff_eq bit_drop_bit_eq
  bit_push_bit_iff bit_mask_iff comp_apply

lemmas db_codec_defs = get_rights_for_db_def fix_rights_for_db_def acl_unions chunk_masks
lemmas table_codec_defs = get_rights_for_table_def fix_rights_for_table_def acl_unions chunk_masks
  TBL_CHUNK0_def TBL_CHUNK1_def
lemmas procedure_codec_defs = get_rights_for_procedure_def fix_rights_for_procedure_def acl_unions
  chunk_masks
lemmas column_codec_defs = get_rights_for_column_def fix_rights_for_column_def Let_def acl_unions
  chunk_masks

lemmas codec_defs = db_codec_defs table_codec_defs procedure_codec_defs column_codec_defs

lemma db_fix_get: "fix_rights_for_db (get_rights_for_db a) = a AND DB_ACLS"
  by (rule word64_eqI) (simp add: rights_bits db_codec_defs)

lemma db_get_fix: "get_rights_for_db (fix_rights_for_db a) = a AND mask 20"
  by (rule word64_eqI) (simp add: rights_bits db_codec_defs)

lemma table_fix_get: "fix_rights_for_table (get_rights_for_table a) = a AND TABLE_ACLS"
  by (rule word64_eqI) (simp add: rights_bits table_codec_defs)

lemma table_get_fix: "get_rights_for_table (fix_rights_for_table a) = a AND mask 14"
  by (rule word64_eqI) (simp add: rights_bits table_codec_defs)

lemma procedure_fix_get: "fix_rights_for_procedure (get_rights_for_procedure a) = a AND PROC_ACLS"
  by (rule word64_eqI) (simp add: rights_bits procedure_codec_defs)

lemma procedure_get_fix: "get_rights_for_procedure (fix_rights_for_procedure a) = a AND mask 3"
  by (rule word64_eqI) (simp add: rights_bits procedure_codec_defs)

lemma column_fix_get: "fix_rights_for_column (get_rights_for_column (a AND COL_ACLS)) = a AND COL_ACLS"
  by (rule word64_eqI) (simp add: rights_bits column_codec_defs)

lemma column_get_fix: "get_rights_for_column (fix_rights_for_column (a AND mask 4)) = a AND mask 4"
  by (rule word64_eqI) (simp add: rights_bits column_codec_defs)

lemma get_rights_or:
  "get_rights_for_db (a OR b) = get_rights_for_db a OR get_rights_for_db b"
  "get_rights_for_table (a OR b) = get_rights_for_table a OR get_rights_for_table b"
  "get_rights_for_procedure (a OR b) = get_rights_for_procedure a OR get_rights_for_procedure b"
  "get_rights_for_column (a OR b) = get_rights_for_column a OR get_rights_for_column b"
  unfolding get_rights_for_db_def get_rights_for_table_def get_rights_for_procedure_def
    get_rights_for_column_def Let_def
  by (auto intro!: bit_word_eqI simp: bit_or_iff bit_and_iff bit_drop_bit_eq)

lemma masked_iff: "a AND NOT m = 0 \<longleftrightarrow> a AND m = a" for a m :: privilege_t
proof -
  have "a AND NOT m = 0 \<longleftrightarrow> (\<forall>n < 64. bit a n \<longrightarrow> bit m n)"
    unfolding word_eq_0_iff_bits by (auto simp: bit_and_iff bit_not_iff)
  moreover have "a AND m = a \<longleftrightarrow> (\<forall>n < 64. bit a n \<longrightarrow> bit m n)"
    by (auto simp: bit_eq_iff bit_and_iff)
  ultimately show ?thesis by simp
qed

lemma codec_ranges:
  "get_rights_for_db a AND mask 20 = get_rights_for_db a"
  "fix_rights_for_db a AND DB_ACLS = fix_rights_for_db a"
  "get_rights_for_table a AND mask 14 = get_rights_for_table a"
  "fix_rights_for_table a AND TABLE_ACLS = fix_rights_for_table a"
  "get_rights_for_procedure a AND mask 3 = get_rights_for_procedure a"
  "fix_rights_for_procedure a AND PROC_ACLS = fix_rights_for_procedure a"
  "get_rights_for_column (a AND COL_ACLS) AND mask 4 = get_rights_for_column (a AND COL_ACLS)"
  "fix_rights_for_column (a AND mask 4) AND COL_ACLS = fix_rights_for_column (a AND mask 4)"
  by (rule word64_eqI, simp add: rights_bits codec_defs)+

interpretation db_rights: rights_codec fix_rights_for_db get_rights_for_db DB_ACLS 20
  by unfold_locales (simp_all add: masked_iff db_fix_get db_get_fix get_rights_or codec_ranges)

interpretation table_rights: rights_codec fix_rights_for_table get_rights_for_table TABLE_ACLS 14
  by unfold_locales (simp_all add: masked_iff table_fix_get table_get_fix get_rights_or codec_ranges)

interpretation procedure_rights:
  rights_codec fix_rights_for_procedure get_rights_for_procedure PROC_ACLS 3
  by unfold_locales
    (simp_all add: masked_iff procedure_fix_get procedure_get_fix get_rights_or codec_ranges)

interpretation column_rights: rights_codec fix_rights_for_column get_rights_for_column COL_ACLS 4
  by unfold_locales
    (metis masked_iff column_fix_get column_get_fix get_rights_or(4) codec_ranges(7,8))+

subsection \<open>Privileges that were SUPER before 10.5.2\<close>

text \<open>
  The groups of privileges that the comments of the source mark as "was SUPER prior to 10.5.2",
  in the order of the source.
\<close>

definition binlog_privs :: "privilege_t list" where
  "binlog_privs =
    [PRIV_SET_SYSTEM_VAR_BINLOG_FORMAT,
     PRIV_SET_SYSTEM_VAR_BINLOG_DIRECT_NON_TRANSACTIONAL_UPDATES,
     PRIV_SET_SYSTEM_VAR_BINLOG_ANNOTATE_ROW_EVENTS, PRIV_SET_SYSTEM_VAR_BINLOG_ROW_IMAGE,
     PRIV_SET_SYSTEM_VAR_SQL_LOG_BIN, PRIV_SET_SYSTEM_GLOBAL_VAR_BINLOG_CACHE_SIZE,
     PRIV_SET_SYSTEM_GLOBAL_VAR_BINLOG_FILE_CACHE_SIZE,
     PRIV_SET_SYSTEM_GLOBAL_VAR_BINLOG_STMT_CACHE_SIZE,
     PRIV_SET_SYSTEM_GLOBAL_VAR_BINLOG_COMMIT_WAIT_COUNT,
     PRIV_SET_SYSTEM_GLOBAL_VAR_BINLOG_COMMIT_WAIT_USEC,
     PRIV_SET_SYSTEM_GLOBAL_VAR_BINLOG_ROW_METADATA,
     PRIV_SET_SYSTEM_GLOBAL_VAR_EXPIRE_LOGS_DAYS, PRIV_SET_SYSTEM_GLOBAL_VAR_LOG_BIN_COMPRESS,
     PRIV_SET_SYSTEM_GLOBAL_VAR_LOG_BIN_COMPRESS_MIN_LEN,
     PRIV_SET_SYSTEM_GLOBAL_VAR_LOG_BIN_TRUST_FUNCTION_CREATORS,
     PRIV_SET_SYSTEM_GLOBAL_VAR_MAX_BINLOG_CACHE_SIZE,
     PRIV_SET_SYSTEM_GLOBAL_VAR_MAX_BINLOG_STMT_CACHE_SIZE,
     PRIV_SET_SYSTEM_GLOBAL_VAR_MAX_BINLOG_SIZE, PRIV_SET_SYSTEM_GLOBAL_VAR_SYNC_BINLOG]"

definition connection_privs :: "privilege_t list" where
  "connection_privs =
    [PRIV_IGNORE_READ_ONLY, PRIV_SET_SYSTEM_GLOBAL_VAR_READ_ONLY, PRIV_IGNORE_INIT_CONNECT,
     PRIV_IGNORE_MAX_USER_CONNECTIONS, PRIV_IGNORE_MAX_CONNECTIONS,
     PRIV_IGNORE_MAX_PASSWORD_ERRORS, PRIV_KILL_OTHER_USER_PROCESS,
     PRIV_SET_SYSTEM_GLOBAL_VAR_CONNECT_TIMEOUT,
     PRIV_SET_SYSTEM_GLOBAL_VAR_DISCONNECT_ON_EXPIRED_PASSWORD,
     PRIV_SET_SYSTEM_GLOBAL_VAR_EXTRA_MAX_CONNECTIONS, PRIV_SET_SYSTEM_GLOBAL_VAR_INIT_CONNECT,
     PRIV_SET_SYSTEM_GLOBAL_VAR_MAX_CONNECTIONS, PRIV_SET_SYSTEM_GLOBAL_VAR_MAX_CONNECT_ERRORS,
     PRIV_SET_SYSTEM_GLOBAL_VAR_MAX_PASSWORD_ERRORS,
     PRIV_SET_SYSTEM_GLOBAL_VAR_PROXY_PROTOCOL_NETWORKS, PRIV_SET_SYSTEM_GLOBAL_VAR_SECURE_AUTH,
     PRIV_SET_SYSTEM_GLOBAL_VAR_SLOW_LAUNCH_TIME, PRIV_SET_SYSTEM_GLOBAL_VAR_THREAD_POOL]"

definition master_privs :: "privilege_t list" where
  "master_privs =
    [PRIV_SET_SYSTEM_GLOBAL_VAR_RPL_SEMI_SYNC_MASTER_ENABLED,
     PRIV_SET_SYSTEM_GLOBAL_VAR_RPL_SEMI_SYNC_MASTER_TIMEOUT,
     PRIV_SET_SYSTEM_GLOBAL_VAR_RPL_SEMI_SYNC_MASTER_WAIT_NO_SLAVE,
     PRIV_SET_SYSTEM_GLOBAL_VAR_RPL_SEMI_SYNC_MASTER_TRACE_LEVEL,
     PRIV_SET_SYSTEM_GLOBAL_VAR_RPL_SEMI_SYNC_MASTER_WAIT_POINT,
     PRIV_SET_SYSTEM_GLOBAL_VAR_MASTER_VERIFY_CHECKSUM,
     PRIV_SET_SYSTEM_GLOBAL_VAR_GTID_BINLOG_STATE, PRIV_SET_SYSTEM_GLOBAL_VAR_SERVER_ID,
     PRIV_SET_SYSTEM_GLOBAL_VAR_GTID_DOMAIN_ID]"

definition slave_privs :: "privilege_t list" where
  "slave_privs =
    [PRIV_STMT_START_SLAVE, PRIV_STMT_STOP_SLAVE, PRIV_STMT_CHANGE_MASTER,
     PRIV_STMT_SHOW_SLAVE_STATUS, PRIV_STMT_BINLOG, PRIV_SET_SYSTEM_SESSION_VAR_GTID_SEQ_NO,
     PRIV_SET_SYSTEM_SESSION_VAR_PSEUDO_THREAD_ID, PRIV_SET_SYSTEM_SESSION_VAR_SERVER_ID,
     PRIV_SET_SYSTEM_SESSION_VAR_GTID_DOMAIN_ID,
     PRIV_SET_SYSTEM_GLOBAL_VAR_REPLICATE_EVENTS_MARKED_FOR_SKIP,
     PRIV_SET_SYSTEM_GLOBAL_VAR_REPLICATE_DO_DB, PRIV_SET_SYSTEM_GLOBAL_VAR_REPLICATE_DO_TABLE,
     PRIV_SET_SYSTEM_GLOBAL_VAR_REPLICATE_IGNORE_DB,
     PRIV_SET_SYSTEM_GLOBAL_VAR_REPLICATE_IGNORE_TABLE,
     PRIV_SET_SYSTEM_GLOBAL_VAR_REPLICATE_WILD_DO_TABLE,
     PRIV_SET_SYSTEM_GLOBAL_VAR_REPLICATE_WILD_IGNORE_TABLE,
     PRIV_SET_SYSTEM_GLOBAL_VAR_READ_BINLOG_SPEED_LIMIT,
     PRIV_SET_SYSTEM_GLOBAL_VAR_SLAVE_COMPRESSED_PROTOCOL,
     PRIV_SET_SYSTEM_GLOBAL_VAR_SLAVE_DDL_EXEC_MODE,
     PRIV_SET_SYSTEM_GLOBAL_VAR_SLAVE_DOMAIN_PARALLEL_THREADS,
     PRIV_SET_SYSTEM_GLOBAL_VAR_SLAVE_EXEC_MODE,
     PRIV_SET_SYSTEM_GLOBAL_VAR_SLAVE_MAX_ALLOWED_PACKET,
     PRIV_SET_SYSTEM_GLOBAL_VAR_SLAVE_NET_TIMEOUT,
     PRIV_SET_SYSTEM_GLOBAL_VAR_SLAVE_PARALLEL_MAX_QUEUED,
     PRIV_SET_SYSTEM_GLOBAL_VAR_SLAVE_PARALLEL_MODE,
     PRIV_SET_SYSTEM_GLOBAL_VAR_SLAVE_PARALLEL_THREADS,
     PRIV_SET_SYSTEM_GLOBAL_VAR_SLAVE_PARALLEL_WORKERS,
     PRIV_SET_SYSTEM_GLOBAL_VAR_SLAVE_RUN_TRIGGERS_FOR_RBR,
     PRIV_SET_SYSTEM_GLOBAL_VAR_SLAVE_SQL_VERIFY_CHECKSUM,
     PRIV_SET_SYSTEM_GLOBAL_VAR_SLAVE_TRANSACTION_RETRY_INTERVAL,
     PRIV_SET_SYSTEM_GLOBAL_VAR_SLAVE_TYPE_CONVERSIONS, PRIV_SET_SYSTEM_GLOBAL_VAR_INIT_SLAVE,
     PRIV_SET_SYSTEM_GLOBAL_VAR_RPL_SEMI_SYNC_SLAVE_ENABLED,
     PRIV_SET_SYSTEM_GLOBAL_VAR_RPL_SEMI_SYNC_SLAVE_TRACE_LEVEL,
     PRIV_SET_SYSTEM_GLOBAL_VAR_RPL_SEMI_SYNC_SLAVE_DELAY_MASTER,
     PRIV_SET_SYSTEM_GLOBAL_VAR_RPL_SEMI_SYNC_SLAVE_KILL_CONN_TIMEOUT,
     PRIV_SET_SYSTEM_GLOBAL_VAR_RELAY_LOG_PURGE, PRIV_SET_SYSTEM_GLOBAL_VAR_RELAY_LOG_RECOVERY,
     PRIV_SET_SYSTEM_GLOBAL_VAR_SYNC_MASTER_INFO, PRIV_SET_SYSTEM_GLOBAL_VAR_SYNC_RELAY_LOG,
     PRIV_SET_SYSTEM_GLOBAL_VAR_SYNC_RELAY_LOG_INFO,
     PRIV_SET_SYSTEM_GLOBAL_VAR_GTID_CLEANUP_BATCH_SIZE,
     PRIV_SET_SYSTEM_GLOBAL_VAR_GTID_IGNORE_DUPLICATES,
     PRIV_SET_SYSTEM_GLOBAL_VAR_GTID_POS_AUTO_ENGINES,
     PRIV_SET_SYSTEM_GLOBAL_VAR_GTID_SLAVE_POS, PRIV_SET_SYSTEM_GLOBAL_VAR_GTID_STRICT_MODE]"

definition federated_privs :: "privilege_t list" where
  "federated_privs =
    [PRIV_STMT_CREATE_SERVER, PRIV_STMT_ALTER_SERVER, PRIV_STMT_DROP_SERVER]"

definition former_super_privs :: "privilege_t list" where
  "former_super_privs =
     PRIV_DEFINER_CLAUSE # PRIV_REVEAL_MISSING_DEFINER #
     binlog_privs @ connection_privs @ master_privs @ slave_privs @ federated_privs"

lemma super_admits:
  "list_all (\<lambda>p. p AND SUPER_ACL \<noteq> 0) binlog_privs"
  "list_all (\<lambda>p. p AND SUPER_ACL \<noteq> 0) connection_privs"
  "list_all (\<lambda>p. p AND SUPER_ACL \<noteq> 0) master_privs"
  "list_all (\<lambda>p. p AND SUPER_ACL \<noteq> 0) slave_privs"
  "list_all (\<lambda>p. p AND SUPER_ACL \<noteq> 0) federated_privs"
  unfolding binlog_privs_def connection_privs_def master_privs_def slave_privs_def federated_privs_def
    priv_defs acl_bit_defs
  by simp_all

subsection \<open>Properties\<close>

text \<open>
  The database privileges survive the grant table: unpacking a packed set returns exactly its
  database-level bits, and packing an unpacked row returns its 20 columns.
\<close>

theorem db_rights_roundtrip:
  "fix_rights_for_db (get_rights_for_db a) = a AND DB_ACLS \<and>
   get_rights_for_db (fix_rights_for_db b) = b AND mask 20"
  by (simp only: db_fix_get db_get_fix simp_thms)

text \<open>
  Packing is a bijection between the table-level privilege sets and the 14-column rows of the
  table grant table.
\<close>

theorem table_rights_bijection:
  "bij_betw get_rights_for_table {a. a AND NOT TABLE_ACLS = 0} {b. b AND NOT (mask 14) = 0}"
  by (rule table_rights.bij_stored)

text \<open>
  Adding column privileges in the packed form and unpacking gives the union of the privileges,
  for column-level privilege sets.
\<close>

theorem column_grant_stored:
  assumes "a AND NOT COL_ACLS = 0" "b AND NOT COL_ACLS = 0"
  shows "fix_rights_for_column (get_rights_for_column a OR get_rights_for_column b) = a OR b"
  by (rule column_rights.grant_stored [OF assms])

theorem column_grant_stored_witness:
  "fix_rights_for_column (get_rights_for_column SELECT_ACL OR get_rights_for_column REFERENCES_ACL)
     = SELECT_ACL OR REFERENCES_ACL"
  by (rule column_grant_stored) (simp_all add: COL_ACLS_def acl_bit_defs)

text \<open>
  The version markers agree with the bit list: the highest bit is that of the last privilege, the
  global privileges are all known privileges, and every set is contained in its outer level
  (column, table, database, global).
\<close>

theorem privilege_levels:
  "push_bit PRIVILEGE_T_MAX_BIT 1 = LAST_CURRENT_ACL \<and> GLOBAL_ACLS = ALL_KNOWN_ACL \<and>
   COL_ACLS AND NOT TABLE_ACLS = 0 \<and> TABLE_ACLS AND NOT DB_ACLS = 0 \<and> PROC_ACLS AND NOT DB_ACLS = 0 \<and>
   TMP_TABLE_ACLS AND NOT TABLE_ACLS = 0 \<and> DB_ACLS AND NOT GLOBAL_ACLS = 0"
proof -
  have "PRIVILEGE_T_MAX_BIT = 37"
    unfolding PRIVILEGE_T_MAX_BIT_def
    by (rule log2_spec_unique [OF my_bit_log2_uint64_log2_spec])
      (simp add: log2_spec_def acl_version_defs acl_bit_defs)
  then have "push_bit PRIVILEGE_T_MAX_BIT 1 = LAST_CURRENT_ACL"
    by (simp add: acl_version_defs acl_bit_defs)
  moreover have "GLOBAL_ACLS = ALL_KNOWN_ACL" "COL_ACLS AND NOT TABLE_ACLS = 0"
    "TABLE_ACLS AND NOT DB_ACLS = 0" "PROC_ACLS AND NOT DB_ACLS = 0"
    "TMP_TABLE_ACLS AND NOT TABLE_ACLS = 0" "DB_ACLS AND NOT GLOBAL_ACLS = 0"
    unfolding acl_version_defs acl_set_defs acl_bit_defs by simp_all
  ultimately show ?thesis by simp
qed

text \<open>
  Every privilege that was SUPER before 10.5.2 is still granted to a holder of SUPER.
\<close>

theorem former_super_still_admitted: "list_all (\<lambda>p. p AND SUPER_ACL \<noteq> 0) former_super_privs"
proof -
  have "PRIV_DEFINER_CLAUSE AND SUPER_ACL \<noteq> 0" "PRIV_REVEAL_MISSING_DEFINER AND SUPER_ACL \<noteq> 0"
    unfolding priv_defs acl_bit_defs by simp_all
  then show ?thesis
    using super_admits by (simp add: former_super_privs_def list_all_append)
qed

end
