(* ===== verification/ByteOrder.thy ===== *)
theory ByteOrder
  imports Prelude
begin

text \<open>
  The "low byte first" integer macros of \<open>my_byteorder.h\<close> in the three forms the source has:
  the portable one of \<open>byte_order_generic.h\<close> (prefix \<open>gen_\<close>), the one for 32-bit x86 and Windows of
  \<open>byte_order_generic_x86.h\<close> (prefix \<open>w32_\<close>) and the one for x86-64 of
  \<open>byte_order_generic_x86_64.h\<close> (prefix \<open>x64_\<close>). A macro argument \<open>A\<close> or \<open>T\<close> is a byte buffer and an
  offset into it; an access outside the buffer is \<^term>\<open>None\<close>. The unaligned loads and stores through a
  cast pointer are the little-endian accesses of the x86 processors these two headers are for.
\<close>

subsection \<open>Little-endian numbers\<close>

fun le_word :: "bytes \<Rightarrow> 'a::len word" where
  "le_word [] = 0"
| "le_word (b # bs) = ucast b OR push_bit 8 (le_word bs)"

fun le_bytes :: "nat \<Rightarrow> 'a::len word \<Rightarrow> bytes" where
  "le_bytes 0 a = []"
| "le_bytes (Suc k) a = ucast a # le_bytes k (drop_bit 8 a)"

text \<open>A load or a store through a pointer to an integer type of \<open>k\<close> bytes on x86.\<close>

definition x86_load :: "nat \<Rightarrow> bytes \<Rightarrow> nat \<Rightarrow> 'a::len word option" where
  "x86_load k buf A = map_option le_word (arr_slice buf A k)"

definition x86_store :: "nat \<Rightarrow> bytes \<Rightarrow> nat \<Rightarrow> 'a::len word \<Rightarrow> bytes option" where
  "x86_store k buf T v = arr_blit buf T (le_bytes k v)"

subsection \<open>byte\_order\_generic.h\<close>

definition gen_sint2korr :: "bytes \<Rightarrow> nat \<Rightarrow> uint16 option" where
  "gen_sint2korr buf A = map_option (\<lambda>b. ucast (b ! 0) OR push_bit 8 (ucast (b ! 1))) (arr_slice buf A 2)"

definition gen_sint3korr :: "bytes \<Rightarrow> nat \<Rightarrow> uint32 option" where
  "gen_sint3korr buf A =
     map_option (\<lambda>b. if b ! 2 AND 128 \<noteq> 0
       then push_bit 24 255 OR push_bit 16 (ucast (b ! 2)) OR push_bit 8 (ucast (b ! 1)) OR ucast (b ! 0)
       else push_bit 16 (ucast (b ! 2)) OR push_bit 8 (ucast (b ! 1)) OR ucast (b ! 0))
     (arr_slice buf A 3)"

definition gen_sint4korr :: "bytes \<Rightarrow> nat \<Rightarrow> uint32 option" where
  "gen_sint4korr buf A =
     map_option (\<lambda>b. ucast (b ! 0) OR push_bit 8 (ucast (b ! 1)) OR push_bit 16 (ucast (b ! 2))
       OR push_bit 24 (ucast (ucast (b ! 3) :: uint16))) (arr_slice buf A 4)"

definition gen_uint2korr :: "bytes \<Rightarrow> nat \<Rightarrow> uint16 option" where
  "gen_uint2korr buf A = map_option (\<lambda>b. ucast (b ! 0) OR push_bit 8 (ucast (b ! 1))) (arr_slice buf A 2)"

definition gen_uint3korr :: "bytes \<Rightarrow> nat \<Rightarrow> uint32 option" where
  "gen_uint3korr buf A =
     map_option (\<lambda>b. ucast (b ! 0) OR push_bit 8 (ucast (b ! 1)) OR push_bit 16 (ucast (b ! 2)))
     (arr_slice buf A 3)"

definition gen_uint4korr :: "bytes \<Rightarrow> nat \<Rightarrow> uint32 option" where
  "gen_uint4korr buf A =
     map_option (\<lambda>b. ucast (b ! 0) OR push_bit 8 (ucast (b ! 1)) OR push_bit 16 (ucast (b ! 2))
       OR push_bit 24 (ucast (b ! 3))) (arr_slice buf A 4)"

definition gen_uint5korr :: "bytes \<Rightarrow> nat \<Rightarrow> ulonglong option" where
  "gen_uint5korr buf A =
     map_option (\<lambda>b. ucast (ucast (b ! 0) OR push_bit 8 (ucast (b ! 1)) OR push_bit 16 (ucast (b ! 2))
       OR push_bit 24 (ucast (b ! 3)) :: uint32) OR push_bit 32 (ucast (b ! 4))) (arr_slice buf A 5)"

definition gen_uint6korr :: "bytes \<Rightarrow> nat \<Rightarrow> ulonglong option" where
  "gen_uint6korr buf A =
     map_option (\<lambda>b. ucast (ucast (b ! 0) OR push_bit 8 (ucast (b ! 1)) OR push_bit 16 (ucast (b ! 2))
       OR push_bit 24 (ucast (b ! 3)) :: uint32)
       OR push_bit 32 (ucast (b ! 4)) OR push_bit 40 (ucast (b ! 5))) (arr_slice buf A 6)"

definition gen_uint8korr :: "bytes \<Rightarrow> nat \<Rightarrow> ulonglong option" where
  "gen_uint8korr buf A =
     map_option (\<lambda>b. ucast (ucast (b ! 0) OR push_bit 8 (ucast (b ! 1)) OR push_bit 16 (ucast (b ! 2))
       OR push_bit 24 (ucast (b ! 3)) :: uint32)
       OR push_bit 32 (ucast (ucast (b ! 4) OR push_bit 8 (ucast (b ! 5)) OR push_bit 16 (ucast (b ! 6))
       OR push_bit 24 (ucast (b ! 7)) :: uint32))) (arr_slice buf A 8)"

definition gen_sint8korr :: "bytes \<Rightarrow> nat \<Rightarrow> longlong option" where
  "gen_sint8korr buf A = gen_uint8korr buf A"

definition gen_int2store :: "bytes \<Rightarrow> nat \<Rightarrow> ulonglong \<Rightarrow> bytes option" where
  "gen_int2store buf T A =
     (let def_temp = ucast A :: uint in arr_blit buf T [ucast def_temp, ucast (drop_bit 8 def_temp)])"

definition gen_int3store :: "bytes \<Rightarrow> nat \<Rightarrow> ulonglong \<Rightarrow> bytes option" where
  "gen_int3store buf T A = arr_blit buf T [ucast A, ucast (drop_bit 8 A), ucast (drop_bit 16 A)]"

definition gen_int4store :: "bytes \<Rightarrow> nat \<Rightarrow> ulonglong \<Rightarrow> bytes option" where
  "gen_int4store buf T A =
     arr_blit buf T [ucast A, ucast (drop_bit 8 A), ucast (drop_bit 16 A), ucast (drop_bit 24 A)]"

definition gen_int5store :: "bytes \<Rightarrow> nat \<Rightarrow> ulonglong \<Rightarrow> bytes option" where
  "gen_int5store buf T A =
     arr_blit buf T [ucast A, ucast (drop_bit 8 A), ucast (drop_bit 16 A), ucast (drop_bit 24 A),
       ucast (drop_bit 32 A)]"

definition gen_int6store :: "bytes \<Rightarrow> nat \<Rightarrow> ulonglong \<Rightarrow> bytes option" where
  "gen_int6store buf T A =
     arr_blit buf T [ucast A, ucast (drop_bit 8 A), ucast (drop_bit 16 A), ucast (drop_bit 24 A),
       ucast (drop_bit 32 A), ucast (drop_bit 40 A)]"

definition gen_int8store :: "bytes \<Rightarrow> nat \<Rightarrow> ulonglong \<Rightarrow> bytes option" where
  "gen_int8store buf T A =
     (let def_temp = ucast A :: uint; def_temp2 = ucast (drop_bit 32 A) :: uint
      in Option.bind (gen_int4store buf T (ucast def_temp)) (\<lambda>buf'.
           gen_int4store buf' (T + 4) (ucast def_temp2)))"

subsection \<open>byte\_order\_generic\_x86.h\<close>

text \<open>\<open>long\<close> is 32 bits wide on the targets of this header.\<close>

definition w32_sint2korr :: "bytes \<Rightarrow> nat \<Rightarrow> uint16 option" where
  "w32_sint2korr = x86_load 2"

definition w32_sint3korr :: "bytes \<Rightarrow> nat \<Rightarrow> uint32 option" where
  "w32_sint3korr buf A =
     map_option (\<lambda>b. if b ! 2 AND 128 \<noteq> 0
       then push_bit 24 255 OR push_bit 16 (ucast (b ! 2)) OR push_bit 8 (ucast (b ! 1)) OR ucast (b ! 0)
       else push_bit 16 (ucast (b ! 2)) OR push_bit 8 (ucast (b ! 1)) OR ucast (b ! 0))
     (arr_slice buf A 3)"

definition w32_sint4korr :: "bytes \<Rightarrow> nat \<Rightarrow> uint32 option" where
  "w32_sint4korr = x86_load 4"

definition w32_uint2korr :: "bytes \<Rightarrow> nat \<Rightarrow> uint16 option" where
  "w32_uint2korr = x86_load 2"

definition w32_uint3korr :: "bytes \<Rightarrow> nat \<Rightarrow> uint32 option" where
  "w32_uint3korr buf A =
     map_option (\<lambda>b. ucast (b ! 0) OR push_bit 8 (ucast (b ! 1)) OR push_bit 16 (ucast (b ! 2)))
     (arr_slice buf A 3)"

definition w32_uint4korr :: "bytes \<Rightarrow> nat \<Rightarrow> uint32 option" where
  "w32_uint4korr = x86_load 4"

definition w32_uint5korr :: "bytes \<Rightarrow> nat \<Rightarrow> ulonglong option" where
  "w32_uint5korr buf A =
     map_option (\<lambda>b. ucast (ucast (b ! 0) OR push_bit 8 (ucast (b ! 1)) OR push_bit 16 (ucast (b ! 2))
       OR push_bit 24 (ucast (b ! 3)) :: uint32) OR push_bit 32 (ucast (b ! 4))) (arr_slice buf A 5)"

definition w32_uint6korr :: "bytes \<Rightarrow> nat \<Rightarrow> ulonglong option" where
  "w32_uint6korr buf A =
     map_option (\<lambda>b. ucast (ucast (b ! 0) OR push_bit 8 (ucast (b ! 1)) OR push_bit 16 (ucast (b ! 2))
       OR push_bit 24 (ucast (b ! 3)) :: uint32)
       OR push_bit 32 (ucast (b ! 4)) OR push_bit 40 (ucast (b ! 5))) (arr_slice buf A 6)"

definition w32_uint8korr :: "bytes \<Rightarrow> nat \<Rightarrow> ulonglong option" where
  "w32_uint8korr = x86_load 8"

definition w32_sint8korr :: "bytes \<Rightarrow> nat \<Rightarrow> longlong option" where
  "w32_sint8korr = x86_load 8"

definition w32_int2store :: "bytes \<Rightarrow> nat \<Rightarrow> ulonglong \<Rightarrow> bytes option" where
  "w32_int2store buf T A = x86_store 2 buf T (ucast A :: uint16)"

definition w32_int3store :: "bytes \<Rightarrow> nat \<Rightarrow> ulonglong \<Rightarrow> bytes option" where
  "w32_int3store buf T A =
     arr_blit buf T [ucast A, ucast (drop_bit 8 (ucast A :: uint)), ucast (drop_bit 16 A)]"

definition w32_int4store :: "bytes \<Rightarrow> nat \<Rightarrow> ulonglong \<Rightarrow> bytes option" where
  "w32_int4store buf T A = x86_store 4 buf T (ucast A :: uint32)"

definition w32_int5store :: "bytes \<Rightarrow> nat \<Rightarrow> ulonglong \<Rightarrow> bytes option" where
  "w32_int5store buf T A =
     arr_blit buf T [ucast A, ucast (drop_bit 8 A), ucast (drop_bit 16 A), ucast (drop_bit 24 A),
       ucast (drop_bit 32 A)]"

definition w32_int6store :: "bytes \<Rightarrow> nat \<Rightarrow> ulonglong \<Rightarrow> bytes option" where
  "w32_int6store buf T A =
     arr_blit buf T [ucast A, ucast (drop_bit 8 A), ucast (drop_bit 16 A), ucast (drop_bit 24 A),
       ucast (drop_bit 32 A), ucast (drop_bit 40 A)]"

definition w32_int8store :: "bytes \<Rightarrow> nat \<Rightarrow> ulonglong \<Rightarrow> bytes option" where
  "w32_int8store buf T A = x86_store 8 buf T A"

subsection \<open>byte\_order\_generic\_x86\_64.h\<close>

definition x64_sint2korr :: "bytes \<Rightarrow> nat \<Rightarrow> uint16 option" where
  "x64_sint2korr = x86_load 2"

definition x64_sint3korr :: "bytes \<Rightarrow> nat \<Rightarrow> uint32 option" where
  "x64_sint3korr buf A =
     map_option (\<lambda>b. if b ! 2 AND 128 \<noteq> 0
       then push_bit 24 255 OR push_bit 16 (ucast (b ! 2)) OR push_bit 8 (ucast (b ! 1)) OR ucast (b ! 0)
       else push_bit 16 (ucast (b ! 2)) OR push_bit 8 (ucast (b ! 1)) OR ucast (b ! 0))
     (arr_slice buf A 3)"

definition x64_sint4korr :: "bytes \<Rightarrow> nat \<Rightarrow> uint32 option" where
  "x64_sint4korr = x86_load 4"

definition x64_uint2korr :: "bytes \<Rightarrow> nat \<Rightarrow> uint16 option" where
  "x64_uint2korr = x86_load 2"

definition x64_uint3korr :: "bytes \<Rightarrow> nat \<Rightarrow> uint32 option" where
  "x64_uint3korr buf A =
     map_option (\<lambda>b. ucast (b ! 0) OR push_bit 8 (ucast (b ! 1)) OR push_bit 16 (ucast (b ! 2)))
     (arr_slice buf A 3)"

definition x64_uint4korr :: "bytes \<Rightarrow> nat \<Rightarrow> uint32 option" where
  "x64_uint4korr = x86_load 4"

definition x64_uint5korr :: "bytes \<Rightarrow> nat \<Rightarrow> ulonglong option" where
  "x64_uint5korr buf p =
     Option.bind (x86_load 4 buf p) (\<lambda>a :: uint32.
     Option.bind (arr_get buf (p + 4)) (\<lambda>b :: uchar.
       Some (ucast a OR push_bit 32 (ucast b))))"

definition x64_uint6korr :: "bytes \<Rightarrow> nat \<Rightarrow> ulonglong option" where
  "x64_uint6korr buf p =
     Option.bind (x86_load 4 buf p) (\<lambda>a :: uint32.
     Option.bind (x86_load 2 buf (p + 4)) (\<lambda>b :: uint16.
       Some (ucast a OR push_bit 32 (ucast b))))"

definition x64_uint8korr :: "bytes \<Rightarrow> nat \<Rightarrow> ulonglong option" where
  "x64_uint8korr = x86_load 8"

definition x64_sint8korr :: "bytes \<Rightarrow> nat \<Rightarrow> longlong option" where
  "x64_sint8korr = x86_load 8"

definition x64_int2store :: "bytes \<Rightarrow> nat \<Rightarrow> ulonglong \<Rightarrow> bytes option" where
  "x64_int2store buf T A = x86_store 2 buf T (ucast A :: uint16)"

definition x64_int3store :: "bytes \<Rightarrow> nat \<Rightarrow> ulonglong \<Rightarrow> bytes option" where
  "x64_int3store buf T A =
     arr_blit buf T [ucast A, ucast (drop_bit 8 (ucast A :: uint)), ucast (drop_bit 16 A)]"

definition x64_int4store :: "bytes \<Rightarrow> nat \<Rightarrow> ulonglong \<Rightarrow> bytes option" where
  "x64_int4store buf T A = x86_store 4 buf T (ucast A :: uint32)"

definition x64_int5store :: "bytes \<Rightarrow> nat \<Rightarrow> ulonglong \<Rightarrow> bytes option" where
  "x64_int5store buf T A =
     Option.bind (x86_store 4 buf T (ucast A :: uint32)) (\<lambda>buf'.
       arr_set buf' (T + 4) (ucast (drop_bit 32 A)))"

definition x64_int6store :: "bytes \<Rightarrow> nat \<Rightarrow> ulonglong \<Rightarrow> bytes option" where
  "x64_int6store buf T A =
     Option.bind (x86_store 4 buf T (ucast A :: uint32)) (\<lambda>buf'.
       x86_store 2 buf' (T + 4) (ucast (drop_bit 32 A) :: uint16))"

definition x64_int8store :: "bytes \<Rightarrow> nat \<Rightarrow> ulonglong \<Rightarrow> bytes option" where
  "x64_int8store buf T A = x86_store 8 buf T A"

subsection \<open>Bits and bytes\<close>

lemma bit_le_word [bit_evals]:
  "bit (le_word b :: 'a::len word) n \<longleftrightarrow> n < LENGTH('a) \<and> n div 8 < length b \<and> bit (b ! (n div 8)) (n mod 8)"
proof (induction b arbitrary: n)
  case (Cons x xs)
  show ?case
  proof (cases "n < 8")
    case True
    then show ?thesis by (simp add: bit_or_iff bit_push_bit_iff bit_ucast_iff)
  next
    case False
    then obtain m where n: "n = m + 8" by (metis add.commute le_Suc_ex not_less)
    have "(m + 8) div 8 = Suc (m div 8)" by simp
    then show ?thesis unfolding n using Cons [of m]
      by (auto simp: bit_or_iff bit_push_bit_iff bit_ucast_iff)
  qed
qed simp

lemma le_bytes_map: "le_bytes k a = map (\<lambda>i. ucast (drop_bit (8 * i) a)) [0..<k]"
proof (induction k arbitrary: a)
  case (Suc k)
  have "map (\<lambda>i. ucast (drop_bit (8 * i) a) :: uchar) [0..<Suc k]
      = ucast a # map (\<lambda>i. ucast (drop_bit (8 * Suc i) a)) [0..<k]"
    by (simp add: upt_conv_Cons map_Suc_upt [symmetric] comp_def del: upt_Suc)
  then show ?case using Suc by (simp add: add.commute del: upt_Suc)
qed simp

lemma length_le_bytes [simp]: "length (le_bytes k a) = k"
  by (simp add: le_bytes_map)

lemma nth_le_bytes: "i < k \<Longrightarrow> le_bytes k a ! i = ucast (drop_bit (8 * i) a)"
  by (simp add: le_bytes_map)

lemma le_word_le_bytes:
  fixes a :: "'a::len word"
  shows "(le_word (le_bytes k a) :: 'b::len word) = ucast (take_bit (8 * k) a)"
proof (rule word_bit_eqI)
  fix n assume "n < LENGTH('b)"
  moreover have "n div 8 < k \<longleftrightarrow> n < 8 * k" by auto
  moreover have "8 * (n div 8) + n mod 8 = n" by simp
  ultimately show "bit (le_word (le_bytes k a) :: 'b word) n \<longleftrightarrow> bit (ucast (take_bit (8 * k) a) :: 'b word) n"
    by (auto simp: bit_evals nth_le_bytes bit_ucast_iff bit_drop_bit_eq bit_take_bit_iff)
qed

lemma le_bytes_le_word:
  assumes "8 * length b \<le> LENGTH('a)"
  shows "le_bytes (length b) (le_word b :: 'a::len word) = b"
proof (rule nth_equalityI)
  fix i assume i: "i < length (le_bytes (length b) (le_word b :: 'a word))"
  then have "8 * i + 8 \<le> LENGTH('a)" using assms by simp
  with i show "le_bytes (length b) (le_word b :: 'a word) ! i = b ! i"
    by (intro word_bit_eqI) (simp add: nth_le_bytes bit_ucast_iff bit_drop_bit_eq bit_evals)
qed simp

lemma le_bytes_ucast:
  assumes "8 * k \<le> LENGTH('b::len)"
  shows "le_bytes k (ucast a :: 'b word) = le_bytes k (a :: 'a::len word)"
proof (rule nth_equalityI)
  fix i assume i: "i < length (le_bytes k (ucast a :: 'b word))"
  then have "8 * i + 8 \<le> LENGTH('b)" using assms by simp
  with i show "le_bytes k (ucast a :: 'b word) ! i = le_bytes k a ! i"
    by (intro word_bit_eqI) (simp add: nth_le_bytes bit_ucast_iff bit_drop_bit_eq)
qed simp

lemma le_bytes_append:
  "le_bytes (j + k) a = le_bytes j a @ le_bytes k (drop_bit (8 * j) a)"
  by (rule nth_equalityI)
     (auto simp: nth_le_bytes nth_append add.commute right_diff_distrib')

text \<open>Every read macro is the little-endian number of the bytes it names.\<close>

lemmas korr_bits = bit_evals bit_or_iff bit_push_bit_iff bit_ucast_iff

lemma gen_korr_le:
  "gen_sint2korr buf A = map_option le_word (arr_slice buf A 2)"
  "gen_sint4korr buf A = map_option le_word (arr_slice buf A 4)"
  "gen_uint2korr buf A = map_option le_word (arr_slice buf A 2)"
  "gen_uint3korr buf A = map_option le_word (arr_slice buf A 3)"
  "gen_uint4korr buf A = map_option le_word (arr_slice buf A 4)"
  "gen_uint5korr buf A = map_option le_word (arr_slice buf A 5)"
  "gen_uint6korr buf A = map_option le_word (arr_slice buf A 6)"
  "gen_uint8korr buf A = map_option le_word (arr_slice buf A 8)"
  "gen_sint8korr buf A = map_option le_word (arr_slice buf A 8)"
proof -
  show "gen_sint2korr buf A = map_option le_word (arr_slice buf A 2)"
       "gen_uint2korr buf A = map_option le_word (arr_slice buf A 2)"
    unfolding gen_sint2korr_def gen_uint2korr_def
    by (rule map_slice_cong, rule word16_eqI, simp add: upt_16 korr_bits)+
  show "gen_sint4korr buf A = map_option le_word (arr_slice buf A 4)"
       "gen_uint3korr buf A = map_option le_word (arr_slice buf A 3)"
       "gen_uint4korr buf A = map_option le_word (arr_slice buf A 4)"
    unfolding gen_sint4korr_def gen_uint3korr_def gen_uint4korr_def
    by (rule map_slice_cong, rule word32_eqI, simp add: upt_32 korr_bits)+
  show "gen_uint5korr buf A = map_option le_word (arr_slice buf A 5)"
       "gen_uint6korr buf A = map_option le_word (arr_slice buf A 6)"
       "gen_uint8korr buf A = map_option le_word (arr_slice buf A 8)"
       "gen_sint8korr buf A = map_option le_word (arr_slice buf A 8)"
    unfolding gen_uint5korr_def gen_uint6korr_def gen_uint8korr_def gen_sint8korr_def
    by (rule map_slice_cong, rule word64_eqI, simp add: upt_64 korr_bits)+
qed

lemma x86_load_bind:
  fixes f :: "'a::len word \<Rightarrow> 'b::len word \<Rightarrow> 'c"
  shows "Option.bind (x86_load j buf A) (\<lambda>a. Option.bind (x86_load k buf (A + j)) (\<lambda>b. Some (f a b)))
    = map_option (\<lambda>bs. f (le_word (take j bs)) (le_word (drop j bs))) (arr_slice buf A (j + k))"
  by (auto simp: x86_load_def arr_slice_def add.commute drop_take)

lemma arr_get_eq_load: "arr_get buf i = (x86_load 1 buf i :: uchar option)"
  by (auto simp: arr_get_def x86_load_def arr_slice_def take_Suc hd_drop_conv_nth)

lemma x64_korr_le:
  "x64_uint5korr buf A = map_option le_word (arr_slice buf A 5)"
  "x64_uint6korr buf A = map_option le_word (arr_slice buf A 6)"
  unfolding x64_uint5korr_def x64_uint6korr_def arr_get_eq_load x86_load_bind
  by (simp, rule map_slice_cong, rule word64_eqI, simp add: upt_64 korr_bits)+

lemma sint3korr_le:
  assumes "length b = 3"
  shows "(if b ! 2 AND 128 \<noteq> (0 :: uchar)
       then push_bit 24 255 OR push_bit 16 (ucast (b ! 2)) OR push_bit 8 (ucast (b ! 1)) OR ucast (b ! 0)
       else push_bit 16 (ucast (b ! 2)) OR push_bit 8 (ucast (b ! 1)) OR ucast (b ! 0))
     = (signed_take_bit 23 (le_word b) :: uint32)"
proof -
  have "(128 :: uchar) = 2 ^ 7" by simp
  then have c: "b ! 2 AND 128 \<noteq> 0 \<longleftrightarrow> bit (b ! 2) 7"
    by (metis and_exp_eq_0_iff_not_bit)
  have m: "(255 :: uint32) = mask 8" by (simp add: mask_eq_exp_minus_1)
  show ?thesis unfolding c m
    by (rule word32_eqI)
       (simp add: upt_32 korr_bits assms bit_signed_take_bit_iff bit_mask_iff)
qed

text \<open>Every write macro stores the low bytes of its argument, lowest first.\<close>

lemma gen_store_le:
  "gen_int2store buf T A = arr_blit buf T (le_bytes 2 A)"
  "gen_int3store buf T A = arr_blit buf T (le_bytes 3 A)"
  "gen_int4store buf T A = arr_blit buf T (le_bytes 4 A)"
  "gen_int5store buf T A = arr_blit buf T (le_bytes 5 A)"
  "gen_int6store buf T A = arr_blit buf T (le_bytes 6 A)"
  "gen_int8store buf T A = arr_blit buf T (le_bytes 8 A)"
proof -
  have "gen_int2store buf T A = arr_blit buf T (le_bytes 2 (ucast A :: uint))"
    by (simp add: gen_int2store_def Let_def le_bytes_map upt_conv_Cons)
  then show "gen_int2store buf T A = arr_blit buf T (le_bytes 2 A)"
    by (simp add: le_bytes_ucast)
  show g4: "gen_int4store buf T A = arr_blit buf T (le_bytes 4 A)" for buf T A
    by (simp add: gen_int4store_def le_bytes_map upt_conv_Cons)
  show "gen_int3store buf T A = arr_blit buf T (le_bytes 3 A)"
    "gen_int5store buf T A = arr_blit buf T (le_bytes 5 A)"
    "gen_int6store buf T A = arr_blit buf T (le_bytes 6 A)"
    by (simp_all add: gen_int3store_def gen_int5store_def gen_int6store_def le_bytes_map upt_conv_Cons)
  have "le_bytes 8 A = le_bytes 4 A @ le_bytes 4 (drop_bit 32 A)"
    using le_bytes_append [of 4 4 A] by simp
  then show "gen_int8store buf T A = arr_blit buf T (le_bytes 8 A)"
    using arr_blit_append [of buf T "le_bytes 4 A" "le_bytes 4 (drop_bit 32 A)"]
    by (simp add: gen_int8store_def Let_def g4 le_bytes_ucast)
qed

lemma int3store_x86:
  "[ucast A, ucast (drop_bit 8 (ucast A :: uint)), ucast (drop_bit 16 A)] = le_bytes 3 (A :: ulonglong)"
proof -
  have "(ucast (drop_bit 8 (ucast A :: uint)) :: uchar) = ucast (drop_bit 8 A)"
    by (rule word_bit_eqI) (simp add: bit_ucast_iff bit_drop_bit_eq)
  then show ?thesis by (simp add: le_bytes_map upt_conv_Cons)
qed

lemma w32_store_le:
  "w32_int2store buf T A = arr_blit buf T (le_bytes 2 A)"
  "w32_int3store buf T A = arr_blit buf T (le_bytes 3 A)"
  "w32_int4store buf T A = arr_blit buf T (le_bytes 4 A)"
  "w32_int5store buf T A = arr_blit buf T (le_bytes 5 A)"
  "w32_int6store buf T A = arr_blit buf T (le_bytes 6 A)"
  "w32_int8store buf T A = arr_blit buf T (le_bytes 8 A)"
  by (simp_all add: w32_int2store_def w32_int3store_def w32_int4store_def w32_int8store_def
        x86_store_def le_bytes_ucast int3store_x86)
     (simp_all add: w32_int5store_def w32_int6store_def le_bytes_map upt_conv_Cons)

lemma x86_store_bind:
  "Option.bind (x86_store j buf T a) (\<lambda>buf'. x86_store k buf' (T + j) b)
     = arr_blit buf T (le_bytes j a @ le_bytes k b)"
  using arr_blit_append [of buf T "le_bytes j a" "le_bytes k b"] by (simp add: x86_store_def)

lemma x64_store_le:
  "x64_int2store buf T A = arr_blit buf T (le_bytes 2 A)"
  "x64_int3store buf T A = arr_blit buf T (le_bytes 3 A)"
  "x64_int4store buf T A = arr_blit buf T (le_bytes 4 A)"
  "x64_int5store buf T A = arr_blit buf T (le_bytes 5 A)"
  "x64_int6store buf T A = arr_blit buf T (le_bytes 6 A)"
  "x64_int8store buf T A = arr_blit buf T (le_bytes 8 A)"
proof -
  show "x64_int2store buf T A = arr_blit buf T (le_bytes 2 A)"
    "x64_int3store buf T A = arr_blit buf T (le_bytes 3 A)"
    "x64_int4store buf T A = arr_blit buf T (le_bytes 4 A)"
    "x64_int8store buf T A = arr_blit buf T (le_bytes 8 A)"
    by (simp_all add: x64_int2store_def x64_int3store_def x64_int4store_def x64_int8store_def
          x86_store_def le_bytes_ucast int3store_x86)
  have one: "arr_set buf' i (ucast (v :: ulonglong)) = x86_store 1 buf' i v" for buf' i v
    by (simp add: x86_store_def arr_set_eq_blit)
  have "le_bytes 5 A = le_bytes 4 A @ le_bytes 1 (drop_bit 32 A)"
    "le_bytes 6 A = le_bytes 4 A @ le_bytes 2 (drop_bit 32 A)"
    using le_bytes_append [of 4 1 A] le_bytes_append [of 4 2 A] by simp_all
  then show "x64_int5store buf T A = arr_blit buf T (le_bytes 5 A)"
    "x64_int6store buf T A = arr_blit buf T (le_bytes 6 A)"
    by (simp_all only: x64_int5store_def x64_int6store_def one x86_store_bind)
       (simp_all add: le_bytes_ucast)
qed

subsection \<open>The contract of a fixed-width integer codec\<close>

text \<open>
  What the callers of a \<open>store\<close>/\<open>korr\<close> pair of macros rely on, whatever the byte order: the store
  succeeds exactly when its bytes lie in the buffer, changes nothing else, and the read gives the
  low bytes of the stored number back; a read depends only on the bytes it names.
\<close>

locale int_codec =
  fixes width :: nat
    and store :: "bytes \<Rightarrow> nat \<Rightarrow> ulonglong \<Rightarrow> bytes option"
    and korr :: "bytes \<Rightarrow> nat \<Rightarrow> 'v::len word option"
  assumes store_defined: "store buf T A \<noteq> None \<longleftrightarrow> T + width \<le> length buf"
    and store_length: "store buf T A = Some buf' \<Longrightarrow> length buf' = length buf"
    and store_frame: "store buf T A = Some buf' \<Longrightarrow> j + n \<le> T \<or> T + width \<le> j \<Longrightarrow>
      arr_slice buf' j n = arr_slice buf j n"
    and korr_store: "store buf T A = Some buf' \<Longrightarrow> korr buf' T = Some (ucast (take_bit (8 * width) A))"
    and korr_local: "arr_slice buf i width = arr_slice buf' i' width \<Longrightarrow> korr buf i = korr buf' i'"
begin

lemma korr_other_store:
  assumes "store buf T A = Some buf'" "i + width \<le> T \<or> T + width \<le> i"
  shows "korr buf' i = korr buf i"
  using assms store_frame korr_local by blast

text \<open>Two fields at disjoint offsets are both read back, in whatever order they were written.\<close>

lemma two_fields:
  assumes "store buf T A = Some b1" "store b1 U B = Some b2" "T + width \<le> U \<or> U + width \<le> T"
  shows "korr b2 T = Some (ucast (take_bit (8 * width) A)) \<and>
         korr b2 U = Some (ucast (take_bit (8 * width) B))"
proof -
  have "korr b2 T = korr b1 T" using assms(2,3) by (intro korr_other_store) auto
  then show ?thesis using assms korr_store by metis
qed

lemma store_small:
  assumes "store buf T A = Some buf'" "unat A < 2 ^ (8 * width)"
  shows "korr buf' T = Some (ucast A)"
proof -
  have "take_bit (8 * width) A = A"
    using assms(2) less_pow_iff_no_high_bit [of A "8 * width"]
    by (intro word_bit_eqI) (simp add: bit_take_bit_iff, meson not_le)
  then show ?thesis using korr_store [OF assms(1)] by simp
qed

end

text \<open>A pair that is the little-endian codec of its width meets the contract.\<close>

locale le_codec =
  fixes width :: nat
    and store :: "bytes \<Rightarrow> nat \<Rightarrow> ulonglong \<Rightarrow> bytes option"
    and korr :: "bytes \<Rightarrow> nat \<Rightarrow> 'v::len word option"
  assumes store_le: "store buf T A = arr_blit buf T (le_bytes width A)"
    and korr_le: "korr buf i = map_option le_word (arr_slice buf i width)"

sublocale le_codec \<subseteq> int_codec
proof
  fix buf T A buf' j n i i'
  show "store buf T A \<noteq> None \<longleftrightarrow> T + width \<le> length buf"
    by (simp add: store_le arr_blit_def)
  show "length buf' = length buf" if "store buf T A = Some buf'"
    using that by (auto simp: store_le dest: length_arr_blit)
  show "arr_slice buf' j n = arr_slice buf j n"
    if "store buf T A = Some buf'" "j + n \<le> T \<or> T + width \<le> j"
    using that by (auto simp: store_le intro: arr_slice_blit_frame)
  show "korr buf' T = Some (ucast (take_bit (8 * width) A))" if "store buf T A = Some buf'"
    using that arr_slice_blit_same [of buf T "le_bytes width A" buf']
    by (simp add: store_le korr_le le_word_le_bytes)
  show "korr buf i = korr buf' i'" if "arr_slice buf i width = arr_slice buf' i' width"
    using that by (simp add: korr_le)
qed

lemmas le_codec_facts = gen_store_le gen_korr_le w32_store_le x64_store_le x64_korr_le

interpretation gen2: le_codec 2 gen_int2store gen_uint2korr by unfold_locales (simp_all add: le_codec_facts)
interpretation gen3: le_codec 3 gen_int3store gen_uint3korr by unfold_locales (simp_all add: le_codec_facts)
interpretation gen4: le_codec 4 gen_int4store gen_uint4korr by unfold_locales (simp_all add: le_codec_facts)
interpretation gen5: le_codec 5 gen_int5store gen_uint5korr by unfold_locales (simp_all add: le_codec_facts)
interpretation gen6: le_codec 6 gen_int6store gen_uint6korr by unfold_locales (simp_all add: le_codec_facts)
interpretation gen8: le_codec 8 gen_int8store gen_uint8korr by unfold_locales (simp_all add: le_codec_facts)
interpretation x64_2: le_codec 2 x64_int2store x64_uint2korr
  by unfold_locales (simp_all add: le_codec_facts x64_uint2korr_def x86_load_def)
interpretation x64_4: le_codec 4 x64_int4store x64_uint4korr
  by unfold_locales (simp_all add: le_codec_facts x64_uint4korr_def x86_load_def)
interpretation x64_5: le_codec 5 x64_int5store x64_uint5korr by unfold_locales (simp_all add: le_codec_facts)
interpretation x64_6: le_codec 6 x64_int6store x64_uint6korr by unfold_locales (simp_all add: le_codec_facts)
interpretation x64_8: le_codec 8 x64_int8store x64_uint8korr
  by unfold_locales (simp_all add: le_codec_facts x64_uint8korr_def x86_load_def)

subsection \<open>Properties\<close>

text \<open>
  C38. The three headers define the same macros: on every buffer, offset and value the optimised
  x86 forms read the same number and write the same bytes as the portable ones, and are undefined
  for exactly the same offsets.
\<close>

theorem byte_order_equiv:
  "w32_sint2korr buf A = gen_sint2korr buf A \<and> x64_sint2korr buf A = gen_sint2korr buf A
   \<and> w32_sint3korr buf A = gen_sint3korr buf A \<and> x64_sint3korr buf A = gen_sint3korr buf A
   \<and> w32_sint4korr buf A = gen_sint4korr buf A \<and> x64_sint4korr buf A = gen_sint4korr buf A
   \<and> w32_uint2korr buf A = gen_uint2korr buf A \<and> x64_uint2korr buf A = gen_uint2korr buf A
   \<and> w32_uint3korr buf A = gen_uint3korr buf A \<and> x64_uint3korr buf A = gen_uint3korr buf A
   \<and> w32_uint4korr buf A = gen_uint4korr buf A \<and> x64_uint4korr buf A = gen_uint4korr buf A
   \<and> w32_uint5korr buf A = gen_uint5korr buf A \<and> x64_uint5korr buf A = gen_uint5korr buf A
   \<and> w32_uint6korr buf A = gen_uint6korr buf A \<and> x64_uint6korr buf A = gen_uint6korr buf A
   \<and> w32_uint8korr buf A = gen_uint8korr buf A \<and> x64_uint8korr buf A = gen_uint8korr buf A
   \<and> w32_sint8korr buf A = gen_sint8korr buf A \<and> x64_sint8korr buf A = gen_sint8korr buf A
   \<and> w32_int2store buf A v = gen_int2store buf A v \<and> x64_int2store buf A v = gen_int2store buf A v
   \<and> w32_int3store buf A v = gen_int3store buf A v \<and> x64_int3store buf A v = gen_int3store buf A v
   \<and> w32_int4store buf A v = gen_int4store buf A v \<and> x64_int4store buf A v = gen_int4store buf A v
   \<and> w32_int5store buf A v = gen_int5store buf A v \<and> x64_int5store buf A v = gen_int5store buf A v
   \<and> w32_int6store buf A v = gen_int6store buf A v \<and> x64_int6store buf A v = gen_int6store buf A v
   \<and> w32_int8store buf A v = gen_int8store buf A v \<and> x64_int8store buf A v = gen_int8store buf A v"
  by (intro conjI;
      (simp add: le_codec_facts w32_sint2korr_def w32_sint4korr_def w32_uint2korr_def w32_uint4korr_def
        w32_uint8korr_def w32_sint8korr_def x64_sint2korr_def x64_sint4korr_def x64_uint2korr_def
        x64_uint4korr_def x64_uint8korr_def x64_sint8korr_def x86_load_def; fail
      | simp add: w32_sint3korr_def x64_sint3korr_def gen_sint3korr_def w32_uint3korr_def x64_uint3korr_def
        gen_uint3korr_def w32_uint5korr_def gen_uint5korr_def w32_uint6korr_def gen_uint6korr_def))

text \<open>
  The signed three-byte read is the two's complement reading of the number the unsigned one
  gives: bit 23 is the sign and is copied into the top byte.
\<close>

theorem sint3korr_sign_extends:
  "gen_sint3korr buf A = map_option (signed_take_bit 23) (gen_uint3korr buf A)"
  unfolding gen_sint3korr_def gen_korr_le option.map_comp comp_def
  by (rule map_slice_cong) (rule sint3korr_le)

text \<open>
  Two integers stored with the portable macros at disjoint offsets of a buffer are both read
  back, truncated to the width of the macro, whatever the order of the two writes and the rest of
  the buffer; here for the six-byte pair, the widest that does not fill its integer type.
\<close>

theorem int6_fields_roundtrip:
  assumes "gen_int6store buf T A = Some b1" "gen_int6store b1 U B = Some b2" "T + 6 \<le> U \<or> U + 6 \<le> T"
  shows "gen_uint6korr b2 T = Some (take_bit 48 A) \<and> gen_uint6korr b2 U = Some (take_bit 48 B)
    \<and> length b2 = length buf"
  using gen6.two_fields [OF assms] gen6.store_length assms by simp

theorem int6_fields_roundtrip_witness:
  "gen_uint6korr [8, 7, 6, 5, 4, 3, 0xF8, 0xF7, 0xF6, 0xF5, 0xF4, 0xF3] 6 = Some (take_bit 48 0x77F3F4F5F6F7F8)"
proof -
  have 1: "gen_int6store (replicate 12 0) 6 0x77F3F4F5F6F7F8
    = Some [0, 0, 0, 0, 0, 0, 0xF8, 0xF7, 0xF6, 0xF5, 0xF4, 0xF3]"
    by code_simp
  have 2: "gen_int6store [0, 0, 0, 0, 0, 0, 0xF8, 0xF7, 0xF6, 0xF5, 0xF4, 0xF3] 0 0x030405060708
    = Some [8, 7, 6, 5, 4, 3, 0xF8, 0xF7, 0xF6, 0xF5, 0xF4, 0xF3]"
    by code_simp
  show ?thesis using int6_fields_roundtrip [OF 1 2] by simp
qed

end
