(* ===== verification/MyisamPack.thy ===== *)
theory MyisamPack
  imports ByteOrder
begin

text \<open>
  The "high byte first" integer macros of \<open>myisampack.h\<close>, in which MyISAM and Aria store keys and
  file pointers, their optimised forms of \<open>byte_order_generic_x86_64.h\<close> (prefix \<open>x64_\<close>), and the
  macros for floating point numbers, whose argument is the object representation of the number.
  \<open>ulong\<close> is 32 bits wide, as on the 64-bit Windows target of the packaged server.
\<close>


subsection \<open>myisampack.h: integers\<close>

definition mi_sint1korr :: "bytes \<Rightarrow> nat \<Rightarrow> uint8 option" where
  "mi_sint1korr buf A =
     map_option (\<lambda>b. b ! 0)
     (arr_slice buf A 1)"

definition mi_uint1korr :: "bytes \<Rightarrow> nat \<Rightarrow> uint8 option" where
  "mi_uint1korr buf A =
     map_option (\<lambda>b. b ! 0)
     (arr_slice buf A 1)"

definition mi_sint2korr :: "bytes \<Rightarrow> nat \<Rightarrow> uint16 option" where
  "mi_sint2korr buf A =
     map_option (\<lambda>b. ucast (b ! 1) OR push_bit 8 (scast (b ! 0)))
     (arr_slice buf A 2)"

definition mi_sint3korr :: "bytes \<Rightarrow> nat \<Rightarrow> uint32 option" where
  "mi_sint3korr buf A =
     map_option (\<lambda>b. if b ! 0 AND 128 \<noteq> 0
       then push_bit 24 255 OR push_bit 16 (ucast (b ! 0)) OR push_bit 8 (ucast (b ! 1)) OR ucast (b ! 2)
       else push_bit 16 (ucast (b ! 0)) OR push_bit 8 (ucast (b ! 1)) OR ucast (b ! 2))
     (arr_slice buf A 3)"

definition mi_sint4korr :: "bytes \<Rightarrow> nat \<Rightarrow> uint32 option" where
  "mi_sint4korr buf A =
     map_option (\<lambda>b. ucast (b ! 3) OR push_bit 8 (ucast (b ! 2)) OR push_bit 16 (ucast (b ! 1))
       OR push_bit 24 (scast (scast (b ! 0) :: uint16)))
     (arr_slice buf A 4)"

definition mi_uint2korr :: "bytes \<Rightarrow> nat \<Rightarrow> uint16 option" where
  "mi_uint2korr buf A =
     map_option (\<lambda>b. ucast (b ! 1) OR push_bit 8 (ucast (b ! 0)))
     (arr_slice buf A 2)"

definition mi_uint3korr :: "bytes \<Rightarrow> nat \<Rightarrow> uint32 option" where
  "mi_uint3korr buf A =
     map_option (\<lambda>b. ucast (b ! 2) OR push_bit 8 (ucast (b ! 1)) OR push_bit 16 (ucast (b ! 0)))
     (arr_slice buf A 3)"

definition mi_uint4korr :: "bytes \<Rightarrow> nat \<Rightarrow> uint32 option" where
  "mi_uint4korr buf A =
     map_option (\<lambda>b. ucast (b ! 3) OR push_bit 8 (ucast (b ! 2))
       OR push_bit 16 (ucast (b ! 1)) OR push_bit 24 (ucast (b ! 0)))
     (arr_slice buf A 4)"

definition mi_uint5korr :: "bytes \<Rightarrow> nat \<Rightarrow> ulonglong option" where
  "mi_uint5korr buf A =
     map_option (\<lambda>b. ucast (ucast (b ! 4) OR push_bit 8 (ucast (b ! 3))
       OR push_bit 16 (ucast (b ! 2)) OR push_bit 24 (ucast (b ! 1)) :: uint32)
       OR push_bit 32 (ucast (b ! 0)))
     (arr_slice buf A 5)"

definition mi_uint6korr :: "bytes \<Rightarrow> nat \<Rightarrow> ulonglong option" where
  "mi_uint6korr buf A =
     map_option (\<lambda>b. ucast (ucast (b ! 5) OR push_bit 8 (ucast (b ! 4))
       OR push_bit 16 (ucast (b ! 3)) OR push_bit 24 (ucast (b ! 2)) :: uint32)
       OR push_bit 32 (ucast (ucast (b ! 1) OR push_bit 8 (ucast (b ! 0)) :: uint32)))
     (arr_slice buf A 6)"

definition mi_uint7korr :: "bytes \<Rightarrow> nat \<Rightarrow> ulonglong option" where
  "mi_uint7korr buf A =
     map_option (\<lambda>b. ucast (ucast (b ! 6) OR push_bit 8 (ucast (b ! 5))
       OR push_bit 16 (ucast (b ! 4)) OR push_bit 24 (ucast (b ! 3)) :: uint32)
       OR push_bit 32 (ucast (ucast (b ! 2) OR push_bit 8 (ucast (b ! 1))
       OR push_bit 16 (ucast (b ! 0)) :: uint32)))
     (arr_slice buf A 7)"

definition mi_uint8korr :: "bytes \<Rightarrow> nat \<Rightarrow> ulonglong option" where
  "mi_uint8korr buf A =
     map_option (\<lambda>b. ucast (ucast (b ! 7) OR push_bit 8 (ucast (b ! 6))
       OR push_bit 16 (ucast (b ! 5)) OR push_bit 24 (ucast (b ! 4)) :: uint32)
       OR push_bit 32 (ucast (ucast (b ! 3) OR push_bit 8 (ucast (b ! 2))
       OR push_bit 16 (ucast (b ! 1)) OR push_bit 24 (ucast (b ! 0)) :: uint32)))
     (arr_slice buf A 8)"

definition mi_sint8korr :: "bytes \<Rightarrow> nat \<Rightarrow> longlong option" where
  "mi_sint8korr buf A = mi_uint8korr buf A"

definition mi_int1store :: "bytes \<Rightarrow> nat \<Rightarrow> ulonglong \<Rightarrow> bytes option" where
  "mi_int1store buf T A =
     arr_blit buf T [ucast A]"

definition mi_int2store :: "bytes \<Rightarrow> nat \<Rightarrow> ulonglong \<Rightarrow> bytes option" where
  "mi_int2store buf T A =
     (let def_temp = ucast A :: uint in arr_blit buf T [ucast (drop_bit 8 def_temp), ucast def_temp])"

definition mi_int3store :: "bytes \<Rightarrow> nat \<Rightarrow> ulonglong \<Rightarrow> bytes option" where
  "mi_int3store buf T A =
     (let def_temp = ucast A :: ulong in
      arr_blit buf T [ucast (drop_bit 16 def_temp), ucast (drop_bit 8 def_temp), ucast def_temp])"

definition mi_int4store :: "bytes \<Rightarrow> nat \<Rightarrow> ulonglong \<Rightarrow> bytes option" where
  "mi_int4store buf T A =
     (let def_temp = ucast A :: ulong in
      arr_blit buf T [ucast (drop_bit 24 def_temp), ucast (drop_bit 16 def_temp), ucast (drop_bit 8 def_temp), ucast def_temp])"

definition mi_int5store :: "bytes \<Rightarrow> nat \<Rightarrow> ulonglong \<Rightarrow> bytes option" where
  "mi_int5store buf T A =
     (let def_temp = ucast A :: ulong; def_temp2 = ucast (drop_bit 32 A) :: ulong in
      arr_blit buf T [ucast def_temp2,
        ucast (drop_bit 24 def_temp), ucast (drop_bit 16 def_temp), ucast (drop_bit 8 def_temp), ucast def_temp])"

definition mi_int6store :: "bytes \<Rightarrow> nat \<Rightarrow> ulonglong \<Rightarrow> bytes option" where
  "mi_int6store buf T A =
     (let def_temp = ucast A :: ulong; def_temp2 = ucast (drop_bit 32 A) :: ulong in
      arr_blit buf T [ucast (drop_bit 8 def_temp2), ucast def_temp2,
        ucast (drop_bit 24 def_temp), ucast (drop_bit 16 def_temp), ucast (drop_bit 8 def_temp), ucast def_temp])"

definition mi_int7store :: "bytes \<Rightarrow> nat \<Rightarrow> ulonglong \<Rightarrow> bytes option" where
  "mi_int7store buf T A =
     (let def_temp = ucast A :: ulong; def_temp2 = ucast (drop_bit 32 A) :: ulong in
      arr_blit buf T [ucast (drop_bit 16 def_temp2), ucast (drop_bit 8 def_temp2), ucast def_temp2,
        ucast (drop_bit 24 def_temp), ucast (drop_bit 16 def_temp), ucast (drop_bit 8 def_temp), ucast def_temp])"

definition mi_int8store :: "bytes \<Rightarrow> nat \<Rightarrow> ulonglong \<Rightarrow> bytes option" where
  "mi_int8store buf T A =
     (let def_temp3 = ucast A :: ulong; def_temp4 = ucast (drop_bit 32 A) :: ulong
      in Option.bind (mi_int4store buf (T + 0) (ucast def_temp4)) (\<lambda>buf'.
           mi_int4store buf' (T + 4) (ucast def_temp3)))"

subsection \<open>byte\_order\_generic\_x86\_64.h: integers\<close>

text \<open>The \<open>bswapq\<close> instruction reverses the eight bytes of a register.\<close>

definition bswapq :: "ulonglong \<Rightarrow> ulonglong" where
  "bswapq v = le_word (rev (le_bytes 8 v))"

definition x64_mi_uint5korr :: "bytes \<Rightarrow> nat \<Rightarrow> ulonglong option" where
  "x64_mi_uint5korr buf p =
     Option.bind (x86_load 4 buf p) (\<lambda>a :: uint32.
     Option.bind (arr_get buf (p + 4)) (\<lambda>b :: uchar.
       let v = push_bit 24 (ucast a OR push_bit 32 (ucast b)) in Some (bswapq v)))"

definition x64_mi_uint6korr :: "bytes \<Rightarrow> nat \<Rightarrow> ulonglong option" where
  "x64_mi_uint6korr buf p =
     Option.bind (x86_load 4 buf p) (\<lambda>a :: uint32.
     Option.bind (x86_load 2 buf (p + 4)) (\<lambda>b :: uint16.
       let v = push_bit 16 (ucast a OR push_bit 32 (ucast b)) in Some (bswapq v)))"

definition x64_mi_uint7korr :: "bytes \<Rightarrow> nat \<Rightarrow> ulonglong option" where
  "x64_mi_uint7korr buf p =
     Option.bind (x86_load 4 buf p) (\<lambda>a :: uint32.
     Option.bind (x86_load 2 buf (p + 4)) (\<lambda>b :: uint16.
     Option.bind (arr_get buf (p + 6)) (\<lambda>c :: uchar.
       let v = push_bit 8 (ucast a OR push_bit 32 (ucast b) OR push_bit 48 (ucast c)) in Some (bswapq v))))"

definition x64_mi_uint8korr :: "bytes \<Rightarrow> nat \<Rightarrow> ulonglong option" where
  "x64_mi_uint8korr buf p = Option.bind (x86_load 8 buf p) (\<lambda>v. Some (bswapq v))"

subsection \<open>myisampack.h: floating point\<close>

text \<open>
  The three variants: for big-endian machines (prefix \<open>be_\<close>), for machines whose floating point word
  order differs from their byte order (prefix \<open>fwo_\<close>) and for all the others.
\<close>

definition be_mi_float4store :: "bytes \<Rightarrow> nat \<Rightarrow> bytes \<Rightarrow> bytes option" where
  "be_mi_float4store buf T V =
     arr_blit buf T [V ! 0, V ! 1, V ! 2, V ! 3]"

definition be_mi_float4get :: "bytes \<Rightarrow> nat \<Rightarrow> bytes option" where
  "be_mi_float4get buf M = map_option (\<lambda>m. [m ! 0, m ! 1, m ! 2, m ! 3]) (arr_slice buf M 4)"

definition be_mi_float8store :: "bytes \<Rightarrow> nat \<Rightarrow> bytes \<Rightarrow> bytes option" where
  "be_mi_float8store buf T V =
     arr_blit buf T [V ! 0, V ! 1, V ! 2, V ! 3, V ! 4, V ! 5, V ! 6, V ! 7]"

definition be_mi_float8get :: "bytes \<Rightarrow> nat \<Rightarrow> bytes option" where
  "be_mi_float8get buf M = map_option (\<lambda>m. [m ! 0, m ! 1, m ! 2, m ! 3, m ! 4, m ! 5, m ! 6, m ! 7]) (arr_slice buf M 8)"

definition mi_float4store :: "bytes \<Rightarrow> nat \<Rightarrow> bytes \<Rightarrow> bytes option" where
  "mi_float4store buf T V =
     arr_blit buf T [V ! 3, V ! 2, V ! 1, V ! 0]"

definition mi_float4get :: "bytes \<Rightarrow> nat \<Rightarrow> bytes option" where
  "mi_float4get buf M = map_option (\<lambda>m. [m ! 3, m ! 2, m ! 1, m ! 0]) (arr_slice buf M 4)"

definition fwo_mi_float8store :: "bytes \<Rightarrow> nat \<Rightarrow> bytes \<Rightarrow> bytes option" where
  "fwo_mi_float8store buf T V =
     arr_blit buf T [V ! 3, V ! 2, V ! 1, V ! 0, V ! 7, V ! 6, V ! 5, V ! 4]"

definition fwo_mi_float8get :: "bytes \<Rightarrow> nat \<Rightarrow> bytes option" where
  "fwo_mi_float8get buf M = map_option (\<lambda>m. [m ! 3, m ! 2, m ! 1, m ! 0, m ! 7, m ! 6, m ! 5, m ! 4]) (arr_slice buf M 8)"

definition mi_float8store :: "bytes \<Rightarrow> nat \<Rightarrow> bytes \<Rightarrow> bytes option" where
  "mi_float8store buf T V =
     arr_blit buf T [V ! 7, V ! 6, V ! 5, V ! 4, V ! 3, V ! 2, V ! 1, V ! 0]"

definition mi_float8get :: "bytes \<Rightarrow> nat \<Rightarrow> bytes option" where
  "mi_float8get buf M = map_option (\<lambda>m. [m ! 7, m ! 6, m ! 5, m ! 4, m ! 3, m ! 2, m ! 1, m ! 0]) (arr_slice buf M 8)"

subsection \<open>myisampack.h: row counts and sizes\<close>

definition mi_rowstore_big :: "bytes \<Rightarrow> nat \<Rightarrow> ulonglong \<Rightarrow> bytes option" where
  "mi_rowstore_big buf T A = mi_int8store buf T A"

definition mi_rowkorr_big :: "bytes \<Rightarrow> nat \<Rightarrow> ulonglong option" where
  "mi_rowkorr_big buf T = mi_uint8korr buf T"

definition mi_rowstore :: "bytes \<Rightarrow> nat \<Rightarrow> ulonglong \<Rightarrow> bytes option" where
  "mi_rowstore buf T A = Option.bind (mi_int4store buf T 0) (\<lambda>buf'. mi_int4store buf' (T + 4) A)"

definition mi_rowkorr :: "bytes \<Rightarrow> nat \<Rightarrow> uint32 option" where
  "mi_rowkorr buf T = mi_uint4korr buf (T + 4)"

definition mi_sizestore_big :: "bytes \<Rightarrow> nat \<Rightarrow> ulonglong \<Rightarrow> bytes option" where
  "mi_sizestore_big buf T A = mi_int8store buf T A"

definition mi_sizekorr_big :: "bytes \<Rightarrow> nat \<Rightarrow> ulonglong option" where
  "mi_sizekorr_big buf T = mi_uint8korr buf T"

text \<open>\<open>my_off_t\<close> is 64 bits wide even where \<open>off_t\<close> is not; \<open>HA_OFFSET_ERROR\<close> is its all-ones value.\<close>

definition HA_OFFSET_ERROR :: ulonglong where
  "HA_OFFSET_ERROR = NOT 0"

definition mi_sizestore :: "bytes \<Rightarrow> nat \<Rightarrow> ulonglong \<Rightarrow> bytes option" where
  "mi_sizestore buf T A =
     (if A = HA_OFFSET_ERROR then arr_blit buf T (replicate 8 255)
      else Option.bind (mi_int4store buf T 0) (\<lambda>buf'. mi_int4store buf' (T + 4) A))"

definition mi_sizekorr :: "bytes \<Rightarrow> nat \<Rightarrow> uint32 option" where
  "mi_sizekorr buf T = mi_uint4korr buf (T + 4)"

subsection \<open>Big-endian numbers\<close>

definition be_word :: "bytes \<Rightarrow> 'a::len word" where
  "be_word b = le_word (rev b)"

definition be_bytes :: "nat \<Rightarrow> 'a::len word \<Rightarrow> bytes" where
  "be_bytes k a = rev (le_bytes k a)"

lemma bit_be_word [bit_evals]:
  "bit (be_word b :: 'a::len word) n \<longleftrightarrow>
     n < LENGTH('a) \<and> n div 8 < length b \<and> bit (b ! (length b - Suc (n div 8))) (n mod 8)"
  by (auto simp: be_word_def bit_le_word rev_nth)

lemma length_be_bytes [simp]: "length (be_bytes k a) = k"
  by (simp add: be_bytes_def)

lemma be_word_be_bytes: "(be_word (be_bytes k (a :: 'a::len word)) :: 'b::len word) = ucast (take_bit (8 * k) a)"
  by (simp add: be_word_def be_bytes_def le_word_le_bytes)

lemma bit_bswapq [bit_evals]:
  "bit (bswapq v) n \<longleftrightarrow> n < 64 \<and> bit v (8 * (7 - n div 8) + n mod 8)"
proof (cases "n < 64")
  case True
  then have d: "n div 8 < 8" by simp
  then have "rev (le_bytes 8 v) ! (n div 8) = ucast (drop_bit (8 * (7 - n div 8)) v)"
    by (simp add: rev_nth nth_le_bytes)
  with d True show ?thesis
    unfolding bswapq_def bit_le_word by (simp add: bit_ucast_iff bit_drop_bit_eq)
qed (simp add: bswapq_def bit_le_word)

lemma mi_korr_be16:
  "mi_sint2korr buf A = map_option be_word (arr_slice buf A 2)"
  "mi_uint2korr buf A = map_option be_word (arr_slice buf A 2)"
  unfolding mi_sint2korr_def mi_uint2korr_def
  by (rule map_slice_cong, rule word16_eqI, simp add: upt_16 korr_bits bit_be_word bit_signed_iff)+

lemma mi_korr_be32:
  "mi_sint4korr buf A = map_option be_word (arr_slice buf A 4)"
  "mi_uint3korr buf A = map_option be_word (arr_slice buf A 3)"
  "mi_uint4korr buf A = map_option be_word (arr_slice buf A 4)"
  unfolding mi_sint4korr_def mi_uint3korr_def mi_uint4korr_def
  by (rule map_slice_cong, rule word32_eqI, simp add: upt_32 korr_bits bit_be_word bit_signed_iff)+

lemma mi_korr_be64:
  "mi_uint5korr buf A = map_option be_word (arr_slice buf A 5)"
  "mi_uint6korr buf A = map_option be_word (arr_slice buf A 6)"
  "mi_uint7korr buf A = map_option be_word (arr_slice buf A 7)"
  "mi_uint8korr buf A = map_option be_word (arr_slice buf A 8)"
  unfolding mi_uint5korr_def mi_uint6korr_def mi_uint7korr_def mi_uint8korr_def
  by (rule map_slice_cong, rule word64_eqI, simp add: upt_64 korr_bits bit_be_word bit_bswapq)+

lemma x86_load_bind3:
  fixes f :: "'a::len word \<Rightarrow> 'b::len word \<Rightarrow> 'c::len word \<Rightarrow> 'd"
  shows "Option.bind (x86_load j buf A) (\<lambda>a. Option.bind (x86_load k buf (A + j)) (\<lambda>b.
           Option.bind (x86_load l buf (A + j + k)) (\<lambda>c. Some (f a b c))))
    = map_option (\<lambda>bs. f (le_word (take j bs)) (le_word (take k (drop j bs))) (le_word (drop (j + k) bs)))
       (arr_slice buf A (j + k + l))"
proof (cases "A + (j + k + l) \<le> length buf")
  case True
  have d: "drop (A + j) buf = drop j (drop A buf)" "drop (A + j + k) buf = drop (j + k) (drop A buf)"
    by (simp_all add: ac_simps)
  show ?thesis using True unfolding x86_load_def arr_slice_def d by (simp add: drop_take)
next
  case False
  then have "x86_load l buf (A + j + k) = (None :: 'c word option)"
    by (simp add: x86_load_def arr_slice_def)
  with False show ?thesis by (simp add: arr_slice_def Option.bind_eq_None_conv)
qed

lemma x64_mi_korr_be:
  "x64_mi_uint5korr buf A = map_option be_word (arr_slice buf A 5)"
  "x64_mi_uint6korr buf A = map_option be_word (arr_slice buf A 6)"
  "x64_mi_uint8korr buf A = map_option be_word (arr_slice buf A 8)"
proof -
  show "x64_mi_uint5korr buf A = map_option be_word (arr_slice buf A 5)"
    "x64_mi_uint6korr buf A = map_option be_word (arr_slice buf A 6)"
    unfolding x64_mi_uint5korr_def x64_mi_uint6korr_def arr_get_eq_load Let_def x86_load_bind
    by (simp, rule map_slice_cong, rule word64_eqI, simp add: upt_64 korr_bits bit_be_word bit_bswapq)+
  have "bswapq (le_word b) = be_word b" if "length b = 8" for b
    using that le_bytes_le_word [of b, where 'a = 64] by (simp add: bswapq_def be_word_def)
  then show "x64_mi_uint8korr buf A = map_option be_word (arr_slice buf A 8)"
    by (auto simp: x64_mi_uint8korr_def x86_load_def arr_slice_def)
qed

lemma x64_mi_uint7korr_be: "x64_mi_uint7korr buf A = map_option be_word (arr_slice buf A 7)"
proof -
  let ?f = "\<lambda>(a :: uint32) (b :: uint16) (c :: uchar).
      bswapq (push_bit 8 (ucast a OR push_bit 32 (ucast b) OR push_bit 48 (ucast c)))"
  have "x64_mi_uint7korr buf A =
      map_option (\<lambda>bs. ?f (le_word (take 4 bs)) (le_word (take 2 (drop 4 bs))) (le_word (drop 6 bs)))
        (arr_slice buf A 7)"
    using x86_load_bind3 [of 4 buf A 2 1 ?f]
    by (simp add: x64_mi_uint7korr_def arr_get_eq_load add.commute)
  also have "\<dots> = map_option be_word (arr_slice buf A 7)"
    by (rule map_slice_cong, rule word64_eqI, simp add: upt_64 korr_bits bit_be_word bit_bswapq)
  finally show ?thesis .
qed

lemma mi_store_be:
  "mi_int1store buf T A = arr_blit buf T (be_bytes 1 A)"
  "mi_int2store buf T A = arr_blit buf T (be_bytes 2 A)"
  "mi_int3store buf T A = arr_blit buf T (be_bytes 3 A)"
  "mi_int4store buf T A = arr_blit buf T (be_bytes 4 A)"
proof -
  have u: "be_bytes k A = be_bytes k (ucast A :: ulong)" if "8 * k \<le> 32" for k
    using that by (simp add: be_bytes_def le_bytes_ucast)
  show "mi_int1store buf T A = arr_blit buf T (be_bytes 1 A)"
    by (simp add: mi_int1store_def be_bytes_def)
  show "mi_int2store buf T A = arr_blit buf T (be_bytes 2 A)"
    "mi_int3store buf T A = arr_blit buf T (be_bytes 3 A)"
    "mi_int4store buf T A = arr_blit buf T (be_bytes 4 A)"
    by (simp_all add: u mi_int2store_def mi_int3store_def mi_int4store_def Let_def)
       (simp_all add: be_bytes_def le_bytes_map upt_conv_Cons)
qed

lemma be_bytes_append: "be_bytes (k + j) a = be_bytes k (drop_bit (8 * j) a) @ be_bytes j a"
  using le_bytes_append [of j k a] by (simp add: be_bytes_def add.commute)

lemma mi_store_be_split:
  "mi_int5store buf T A = arr_blit buf T (be_bytes 5 A)"
  "mi_int6store buf T A = arr_blit buf T (be_bytes 6 A)"
  "mi_int7store buf T A = arr_blit buf T (be_bytes 7 A)"
  "mi_int8store buf T A = arr_blit buf T (be_bytes 8 A)"
proof -
  have u: "be_bytes k (ucast B :: ulong) = be_bytes k (B :: ulonglong)" if "8 * k \<le> 32" for k B
    using that by (simp add: be_bytes_def le_bytes_ucast)
  have s: "be_bytes (k + 4) A = be_bytes k (ucast (drop_bit 32 A) :: ulong) @ be_bytes 4 (ucast A :: ulong)"
    if "k \<le> 4" for k
    using be_bytes_append [of k 4 A] that by (simp add: u)
  show "mi_int5store buf T A = arr_blit buf T (be_bytes 5 A)"
    "mi_int6store buf T A = arr_blit buf T (be_bytes 6 A)"
    "mi_int7store buf T A = arr_blit buf T (be_bytes 7 A)"
    using s [of 1] s [of 2] s [of 3]
    by (simp_all add: mi_int5store_def mi_int6store_def mi_int7store_def Let_def)
       (simp_all add: be_bytes_def le_bytes_map upt_conv_Cons)
  show "mi_int8store buf T A = arr_blit buf T (be_bytes 8 A)"
    using s [of 4] u [of 4 A] u [of 4 "drop_bit 32 A"]
      arr_blit_append [of buf T "be_bytes 4 (ucast (drop_bit 32 A) :: ulong)" "be_bytes 4 (ucast A :: ulong)"]
    by (simp add: mi_int8store_def Let_def mi_store_be be_bytes_def le_bytes_ucast)
qed

subsection \<open>The codec contract\<close>

locale be_codec =
  fixes width :: nat
    and store :: "bytes \<Rightarrow> nat \<Rightarrow> ulonglong \<Rightarrow> bytes option"
    and korr :: "bytes \<Rightarrow> nat \<Rightarrow> 'v::len word option"
  assumes store_be: "store buf T A = arr_blit buf T (be_bytes width A)"
    and korr_be: "korr buf i = map_option be_word (arr_slice buf i width)"

sublocale be_codec \<subseteq> int_codec
proof
  fix buf T A buf' j n i i'
  show "store buf T A \<noteq> None \<longleftrightarrow> T + width \<le> length buf"
    by (simp add: store_be arr_blit_def)
  show "length buf' = length buf" if "store buf T A = Some buf'"
    using that by (auto simp: store_be dest: length_arr_blit)
  show "arr_slice buf' j n = arr_slice buf j n"
    if "store buf T A = Some buf'" "j + n \<le> T \<or> T + width \<le> j"
    using that by (auto simp: store_be intro: arr_slice_blit_frame)
  show "korr buf' T = Some (ucast (take_bit (8 * width) A))" if "store buf T A = Some buf'"
    using that arr_slice_blit_same [of buf T "be_bytes width A" buf']
    by (simp add: store_be korr_be be_word_be_bytes)
  show "korr buf i = korr buf' i'" if "arr_slice buf i width = arr_slice buf' i' width"
    using that by (simp add: korr_be)
qed

lemmas be_codec_facts = mi_store_be mi_store_be_split mi_korr_be16 mi_korr_be32 mi_korr_be64
  x64_mi_korr_be x64_mi_uint7korr_be

interpretation mi2: be_codec 2 mi_int2store mi_uint2korr by unfold_locales (simp_all add: be_codec_facts)
interpretation mi3: be_codec 3 mi_int3store mi_uint3korr by unfold_locales (simp_all add: be_codec_facts)
interpretation mi4: be_codec 4 mi_int4store mi_uint4korr by unfold_locales (simp_all add: be_codec_facts)
interpretation mi5: be_codec 5 mi_int5store mi_uint5korr by unfold_locales (simp_all add: be_codec_facts)
interpretation mi6: be_codec 6 mi_int6store mi_uint6korr by unfold_locales (simp_all add: be_codec_facts)
interpretation mi7: be_codec 7 mi_int7store mi_uint7korr by unfold_locales (simp_all add: be_codec_facts)
interpretation mi8: be_codec 8 mi_int8store mi_uint8korr by unfold_locales (simp_all add: be_codec_facts)
interpretation x64_mi7: be_codec 7 mi_int7store x64_mi_uint7korr
  by unfold_locales (simp_all add: be_codec_facts)

subsection \<open>The order of stored keys\<close>

text \<open>\<open>memcmp (a, b, n) < 0\<close> on byte strings of the same length.\<close>

fun memcmp_less :: "bytes \<Rightarrow> bytes \<Rightarrow> bool" where
  "memcmp_less (a # as) (b # bs) = (if a = b then memcmp_less as bs else a < b)"
| "memcmp_less _ _ = False"

fun be_val :: "bytes \<Rightarrow> nat" where
  "be_val [] = 0"
| "be_val (b # bs) = unat b * 256 ^ length bs + be_val bs"

lemma be_val_less: "be_val b < 256 ^ length b"
proof (induction b)
  case (Cons x xs)
  have "unat x + 1 \<le> 256" using unsigned_less [of x, where 'a = nat] by simp
  then have "(unat x + 1) * 256 ^ length xs \<le> 256 * 256 ^ length xs" by (rule mult_le_mono1)
  then have "unat x * 256 ^ length xs + 256 ^ length xs \<le> 256 ^ length (x # xs)"
    by (simp only: add_mult_distrib length_Cons power_Suc mult_1)
  then show ?case using Cons by (simp del: power_Suc)
qed simp

lemma memcmp_less_val:
  "length a = length b \<Longrightarrow> memcmp_less a b \<longleftrightarrow> be_val a < be_val b"
proof (induction a b rule: list_induct2)
  case (Cons x xs y ys)
  have step: "unat u * 256 ^ length ys + p < unat v * 256 ^ length ys + q"
    if "u < v" "p < 256 ^ length ys" for u v :: uchar and p q
  proof -
    have "(unat u + 1) * 256 ^ length ys \<le> unat v * 256 ^ length ys"
      using that(1) by (intro mult_le_mono1) (simp add: word_less_nat_alt)
    then show ?thesis using that(2) by simp
  qed
  consider "x = y" | "x < y" | "y < x" by (rule linorder_cases)
  then show ?case
  proof cases
    case 2
    with Cons(1) show ?thesis using step [OF 2, of "be_val xs"] be_val_less [of xs] by auto
  next
    case 3
    with Cons(1) show ?thesis using step [OF 3, of "be_val ys" "be_val xs"] be_val_less [of ys] by (auto simp: not_less less_imp_le)
  qed (use Cons in simp)
qed simp

lemma be_val_snoc: "be_val (xs @ [b]) = be_val xs * 256 + unat b"
  by (induction xs) (simp_all add: algebra_simps)

lemma be_val_be_bytes: "be_val (be_bytes k (a :: 'a::len word)) = unat a mod 256 ^ k"
proof (induction k arbitrary: a)
  case (Suc k)
  have "be_val (be_bytes (Suc k) a) = (unat a div 256) mod 256 ^ k * 256 + unat a mod 256"
    using Suc [of "drop_bit 8 a"]
    by (simp add: be_bytes_def be_val_snoc unsigned_ucast_eq take_bit_eq_mod)
  also have "\<dots> = unat a mod 256 ^ Suc k"
    by (simp add: mod_mult2_eq)
  finally show ?case .
qed (simp add: be_bytes_def)

context be_codec
begin

lemma stored_slice: "store buf T A = Some buf' \<Longrightarrow> arr_slice buf' T width = Some (be_bytes width A)"
  using arr_slice_blit_same [of buf T "be_bytes width A" buf'] by (simp add: store_be)

lemma stored_order:
  assumes "store buf T A = Some p" "store buf' U B = Some q"
    and "arr_slice p T width = Some a" "arr_slice q U width = Some b"
  shows "memcmp_less a b \<longleftrightarrow> unat A mod 256 ^ width < unat B mod 256 ^ width"
proof -
  have "a = be_bytes width A" "b = be_bytes width B"
    using assms stored_slice by simp_all
  then show ?thesis by (simp add: memcmp_less_val be_val_be_bytes)
qed

end

subsection \<open>Properties\<close>

text \<open>
  The optimised readers of \<open>byte_order_generic_x86_64.h\<close>, which load the bytes in the machine's
  own order, shift and swap, give exactly what the portable macros of \<open>myisampack.h\<close> give, on every
  buffer and offset.
\<close>

theorem mi_korr_bswap_equiv:
  "x64_mi_uint5korr buf A = mi_uint5korr buf A \<and> x64_mi_uint6korr buf A = mi_uint6korr buf A \<and>
   x64_mi_uint7korr buf A = mi_uint7korr buf A \<and> x64_mi_uint8korr buf A = mi_uint8korr buf A"
  by (simp add: be_codec_facts)

text \<open>
  Keys stored with the high byte first sort as numbers: comparing the bytes two 64-bit values
  were stored in, as \<open>memcmp\<close> does, is comparing the values.
\<close>

theorem mi_int8store_order:
  assumes "mi_int8store buf T A = Some p" "mi_int8store buf' U B = Some q"
    and "arr_slice p T 8 = Some a" "arr_slice q U 8 = Some b"
  shows "memcmp_less a b \<longleftrightarrow> A < B"
  using mi8.stored_order [OF assms] unsigned_less [of A, where 'a = nat] unsigned_less [of B, where 'a = nat]
  by (simp add: word_less_nat_alt)

theorem mi_int8store_order_witness:
  "memcmp_less [0, 0, 0, 0, 0, 0, 0, 255] [0, 0, 0, 0, 0, 0, 1, 0]"
proof -
  have s: "mi_int8store (replicate 8 7) 0 255 = Some [0, 0, 0, 0, 0, 0, 0, 255]"
    "mi_int8store (replicate 8 9) 0 256 = Some [0, 0, 0, 0, 0, 0, 1, 0]"
    by code_simp+
  have "(255 :: ulonglong) < 256" by simp
  with mi_int8store_order [OF s] show ?thesis by (simp add: arr_slice_def)
qed

text \<open>
  A seven-byte file pointer survives a store and a read, whatever reader of the two headers is
  used, and an integer stored elsewhere in the record does not disturb it.
\<close>

theorem mi_int7_roundtrip:
  assumes "mi_int7store buf T A = Some b1" "mi_int7store b1 U B = Some b2"
    and "T + 7 \<le> U \<or> U + 7 \<le> T" "unat A < 2 ^ 56"
  shows "mi_uint7korr b2 T = Some A \<and> x64_mi_uint7korr b2 T = Some A"
  using mi7.two_fields [OF assms(1-3)] mi7.store_small [OF assms(1)] mi7.korr_store [OF assms(1)]
    x64_mi7.two_fields [OF assms(1-3)] assms(4)
  by (simp only: ucast_id option.inject) simp

theorem mi_int7_roundtrip_witness:
  "x64_mi_uint7korr [1, 2, 3, 4, 5, 6, 7, 0, 0, 0, 0, 0, 0, 9] 0 = Some 0x01020304050607"
proof -
  have s: "mi_int7store (replicate 14 0) 0 0x01020304050607 = Some [1, 2, 3, 4, 5, 6, 7, 0, 0, 0, 0, 0, 0, 0]"
    "mi_int7store [1, 2, 3, 4, 5, 6, 7, 0, 0, 0, 0, 0, 0, 0] 7 9
      = Some [1, 2, 3, 4, 5, 6, 7, 0, 0, 0, 0, 0, 0, 9]"
    by code_simp+
  show ?thesis using mi_int7_roundtrip [OF s] by simp
qed

text \<open>
  The floating point macros are inverse to each other in all three variants: the object
  representation stored is the one read.
\<close>

theorem mi_float_roundtrip:
  "(length V = 4 \<and> mi_float4store buf T V = Some b1 \<longrightarrow> mi_float4get b1 T = Some V) \<and>
   (length V = 4 \<and> be_mi_float4store buf T V = Some b2 \<longrightarrow> be_mi_float4get b2 T = Some V) \<and>
   (length V = 8 \<and> mi_float8store buf T V = Some b3 \<longrightarrow> mi_float8get b3 T = Some V) \<and>
   (length V = 8 \<and> fwo_mi_float8store buf T V = Some b4 \<longrightarrow> fwo_mi_float8get b4 T = Some V) \<and>
   (length V = 8 \<and> be_mi_float8store buf T V = Some b5 \<longrightarrow> be_mi_float8get b5 T = Some V)"
proof -
  have 4: "[V ! 0, V ! 1, V ! 2, V ! 3] = V" if "length V = 4"
    using that by (intro nth_equalityI) (auto simp: less_Suc_eq numeral_eq_Suc)
  have 8: "[V ! 0, V ! 1, V ! 2, V ! 3, V ! 4, V ! 5, V ! 6, V ! 7] = V" if "length V = 8"
    using that by (intro nth_equalityI) (auto simp: less_Suc_eq numeral_eq_Suc)
  note defs = mi_float4store_def mi_float4get_def be_mi_float4store_def be_mi_float4get_def
    mi_float8store_def mi_float8get_def be_mi_float8store_def be_mi_float8get_def
    fwo_mi_float8store_def fwo_mi_float8get_def
  have s: "Suc (Suc (Suc (Suc 0))) = 4" "Suc (Suc (Suc (Suc 4))) = 8" by simp_all
  show ?thesis using 4 8
    by (auto simp: defs s dest!: arr_slice_blit_same)
qed

theorem mi_float_roundtrip_witness:
  "mi_float4get [9, 4, 3, 2, 1] 1 = Some [1, 2, 3, 4]"
proof -
  have "mi_float4store [9, 9, 9, 9, 9] 1 [1, 2, 3, 4] = Some [9, 4, 3, 2, 1]" by code_simp
  then show ?thesis using mi_float_roundtrip [of "[1, 2, 3, 4]" "[9, 9, 9, 9, 9]" 1] by simp
qed

end
