(* ===== verification/BitSetInterface.thy ===== *)
theory BitSetInterface
  imports Prelude
begin

text \<open>
  The contract the server's two bitmap implementations share (\<open>Bitmap\<close> of \<open>sql_bitmap.h\<close> and
  \<open>MY_BITMAP\<close> of \<open>my_bitmap.h\<close>): a set of numbers below a width, with operations that are defined
  below the width and change exactly the bit they name.
\<close>

locale bit_set =
  fixes width :: nat
    and inv :: "'b \<Rightarrow> bool"
    and is_set :: "'b \<Rightarrow> nat \<Rightarrow> bool option"
    and set_bit :: "'b \<Rightarrow> nat \<Rightarrow> 'b option"
    and clear_bit :: "'b \<Rightarrow> nat \<Rightarrow> 'b option"
  assumes is_set_defined: "inv b \<Longrightarrow> n < width \<Longrightarrow> is_set b n \<noteq> None"
    and set_bit_law: "inv b \<Longrightarrow> n < width \<Longrightarrow> \<exists>b'. set_bit b n = Some b' \<and> inv b' \<and>
      (\<forall>m. m < width \<longrightarrow> is_set b' m = (if m = n then Some True else is_set b m))"
    and clear_bit_law: "inv b \<Longrightarrow> n < width \<Longrightarrow> \<exists>b'. clear_bit b n = Some b' \<and> inv b' \<and>
      (\<forall>m. m < width \<longrightarrow> is_set b' m = (if m = n then Some False else is_set b m))"
begin

definition members :: "'b \<Rightarrow> nat set" where
  "members b = {n. n < width \<and> is_set b n = Some True}"

lemma set_bit_members:
  assumes "inv b" "n < width"
  obtains b' where "set_bit b n = Some b'" "inv b'" "members b' = insert n (members b)"
proof -
  from set_bit_law [OF assms] obtain b' where b': "set_bit b n = Some b'" "inv b'"
    and m: "\<And>m. m < width \<Longrightarrow> is_set b' m = (if m = n then Some True else is_set b m)" by blast
  have "members b' = insert n (members b)"
    unfolding members_def using m assms(2) by auto
  with b' that show ?thesis by blast
qed

lemma clear_bit_members:
  assumes "inv b" "n < width"
  obtains b' where "clear_bit b n = Some b'" "inv b'" "members b' = members b - {n}"
proof -
  from clear_bit_law [OF assms] obtain b' where b': "clear_bit b n = Some b'" "inv b'"
    and m: "\<And>m. m < width \<Longrightarrow> is_set b' m = (if m = n then Some False else is_set b m)" by blast
  have "members b' = members b - {n}"
    unfolding members_def using m by (auto split: if_splits)
  with b' that show ?thesis by blast
qed

text \<open>Setting or clearing a list of bits, in whatever order and with repetitions.\<close>

lemma set_bits_members:
  "inv b \<Longrightarrow> set ns \<subseteq> {..<width} \<Longrightarrow>
     \<exists>b'. foldM set_bit ns b = Some b' \<and> inv b' \<and> members b' = members b \<union> set ns"
proof (induction ns arbitrary: b)
  case (Cons n ns)
  from Cons.prems obtain b1 where b1: "set_bit b n = Some b1" "inv b1" "members b1 = insert n (members b)"
    by (elim set_bit_members [of b n]) auto
  with Cons.IH [of b1] Cons.prems show ?case by auto
qed simp

lemma clear_bits_members:
  "inv b \<Longrightarrow> set ns \<subseteq> {..<width} \<Longrightarrow>
     \<exists>b'. foldM clear_bit ns b = Some b' \<and> inv b' \<and> members b' = members b - set ns"
proof (induction ns arbitrary: b)
  case (Cons n ns)
  from Cons.prems obtain b1 where b1: "clear_bit b n = Some b1" "inv b1" "members b1 = members b - {n}"
    by (elim clear_bit_members [of b n]) auto
  with Cons.IH [of b1] Cons.prems show ?case by auto
qed simp

end

end
