(* ===== verification/SqlBitmap.thy ===== *)
theory SqlBitmap
  imports MyBit BitSetInterface
begin

text \<open>
  \<open>sql_bitmap.h\<close>: the iterator over the bits of a \<open>ulonglong\<close> and the class template
  \<open>Bitmap<width>\<close> with which the server represents sets of keys. The template parameter is the
  first argument of each operation; an access outside the array or a shift by 64 or more is
  \<^term>\<open>None\<close>. The default constructor leaves the array uninitialised: a \<open>Bitmap\<close> value with an
  arbitrary array of the right length is its result.
\<close>

subsection \<open>Table\_map\_iterator\<close>

record Table_map_iterator =
  bmp :: ulonglong

definition TMI_BITMAP_END :: nat where
  "TMI_BITMAP_END = 64"

text \<open>\<open>1ULL << n\<close> is defined for shifts below the width.\<close>

definition shl_1ULL :: "nat \<Rightarrow> ulonglong option" where
  "shl_1ULL n = (if n < 64 then Some (push_bit n 1) else None)"

definition next_bit :: "Table_map_iterator \<Rightarrow> (nat \<times> Table_map_iterator) option" where
  "next_bit it =
     (if bmp it = 0 then Some (TMI_BITMAP_END, it)
      else Option.bind (my_find_first_bit (bmp it)) (\<lambda>b.
           Option.bind (shl_1ULL b) (\<lambda>m. Some (b, it\<lparr>bmp := bmp it AND NOT m\<rparr>))))"

subsection \<open>Bitmap: geometry\<close>

record Bitmap =
  buffer :: "ulonglong list"

definition BITS_PER_ELEMENT :: nat where
  "BITS_PER_ELEMENT = 64"

definition ARRAY_ELEMENTS :: "nat \<Rightarrow> nat" where
  "ARRAY_ELEMENTS width = (width + BITS_PER_ELEMENT - 1) div BITS_PER_ELEMENT"

definition ALL_BITS_SET :: ulonglong where
  "ALL_BITS_SET = NOT 0"

definition bit_index :: "nat \<Rightarrow> nat \<Rightarrow> nat" where
  "bit_index width n = (if ARRAY_ELEMENTS width = 1 then 0 else n div BITS_PER_ELEMENT)"

definition bit_mask :: "nat \<Rightarrow> nat \<Rightarrow> ulonglong option" where
  "bit_mask width n =
     (if ARRAY_ELEMENTS width = 1 then shl_1ULL n else shl_1ULL (n mod BITS_PER_ELEMENT))"

definition last_element_mask :: "nat \<Rightarrow> nat \<Rightarrow> ulonglong option" where
  "last_element_mask width n = map_option (\<lambda>m. m - 1) (bit_mask width n)"

subsection \<open>Bitmap: the loops over the array\<close>

text \<open>\<open>for (size_t i= ...; i < k; i++) buffer[i]= v;\<close>\<close>

function fill_loop :: "ulonglong \<Rightarrow> nat \<Rightarrow> nat \<Rightarrow> ulonglong list \<Rightarrow> ulonglong list option" where
  "fill_loop v k i buf =
     (if i < k then Option.bind (arr_set buf i v) (fill_loop v k (Suc i)) else Some buf)"
  by pat_completeness auto
termination by (relation "measure (\<lambda>(v, k, i, buf). k - i)") auto

text \<open>\<open>for (size_t i= ...; i < k; i++) buffer[i]= f (buffer[i], map2.buffer[i]);\<close>\<close>

function upd_loop :: "(ulonglong \<Rightarrow> ulonglong \<Rightarrow> ulonglong) \<Rightarrow> nat \<Rightarrow> ulonglong list \<Rightarrow> nat \<Rightarrow>
    ulonglong list \<Rightarrow> ulonglong list option" where
  "upd_loop f k buf2 i buf =
     (if i < k then
        Option.bind (arr_get buf i) (\<lambda>x.
        Option.bind (arr_get buf2 i) (\<lambda>y.
        Option.bind (arr_set buf i (f x y)) (upd_loop f k buf2 (Suc i))))
      else Some buf)"
  by pat_completeness auto
termination by (relation "measure (\<lambda>(f, k, buf2, i, buf). k - i)") auto

text \<open>\<open>for (size_t i= ...; i < k; i++) if (!p (i, buffer[i])) return false;\<close> and then \<open>return true\<close>.\<close>

function check_loop :: "(nat \<Rightarrow> ulonglong \<Rightarrow> bool option) \<Rightarrow> nat \<Rightarrow> ulonglong list \<Rightarrow> nat \<Rightarrow> bool option" where
  "check_loop p k buf i =
     (if i < k then
        Option.bind (arr_get buf i) (\<lambda>x.
        Option.bind (p i x) (\<lambda>ok. if ok then check_loop p k buf (Suc i) else Some False))
      else Some True)"
  by pat_completeness auto
termination by (relation "measure (\<lambda>(p, k, buf, i). k - i)") auto

declare fill_loop.simps [simp del] upd_loop.simps [simp del] check_loop.simps [simp del]

subsection \<open>Bitmap: operations\<close>

definition set_prefix :: "nat \<Rightarrow> Bitmap \<Rightarrow> nat \<Rightarrow> Bitmap option" where
  "set_prefix width b prefix_size0 =
     (let prefix_size = (if width < prefix_size0 then width else prefix_size0);
          idx = prefix_size div BITS_PER_ELEMENT
      in Option.bind (fill_loop ALL_BITS_SET idx 0 (buffer b)) (\<lambda>buf1.
         Option.bind
           (if prefix_size mod BITS_PER_ELEMENT \<noteq> 0
            then Option.bind (last_element_mask width prefix_size) (\<lambda>m.
                 map_option (\<lambda>buf. (buf, idx + 1)) (arr_set buf1 idx m))
            else Some (buf1, idx)) (\<lambda>(buf2, idx2).
         map_option (\<lambda>buf. b\<lparr>buffer := buf\<rparr>) (fill_loop 0 (ARRAY_ELEMENTS width) idx2 buf2))))"

definition Bitmap_init :: "nat \<Rightarrow> Bitmap \<Rightarrow> nat \<Rightarrow> Bitmap option" where
  "Bitmap_init width b prefix = set_prefix width b prefix"

definition Bitmap_length :: "nat \<Rightarrow> nat" where
  "Bitmap_length width = width"

definition Bitmap_set_bit :: "nat \<Rightarrow> Bitmap \<Rightarrow> nat \<Rightarrow> Bitmap option" where
  "Bitmap_set_bit width b n =
     Option.bind (arr_get (buffer b) (bit_index width n)) (\<lambda>e.
     Option.bind (bit_mask width n) (\<lambda>m.
     map_option (\<lambda>buf. b\<lparr>buffer := buf\<rparr>) (arr_set (buffer b) (bit_index width n) (e OR m))))"

definition clear_bit :: "nat \<Rightarrow> Bitmap \<Rightarrow> nat \<Rightarrow> Bitmap option" where
  "clear_bit width b n =
     Option.bind (arr_get (buffer b) (bit_index width n)) (\<lambda>e.
     Option.bind (bit_mask width n) (\<lambda>m.
     map_option (\<lambda>buf. b\<lparr>buffer := buf\<rparr>) (arr_set (buffer b) (bit_index width n) (e AND NOT m))))"

definition is_set :: "nat \<Rightarrow> Bitmap \<Rightarrow> nat \<Rightarrow> bool option" where
  "is_set width b n =
     Option.bind (arr_get (buffer b) (bit_index width n)) (\<lambda>e.
     Option.bind (bit_mask width n) (\<lambda>m. Some (e AND m \<noteq> 0)))"

definition is_prefix :: "nat \<Rightarrow> Bitmap \<Rightarrow> nat \<Rightarrow> bool option" where
  "is_prefix width b prefix_size =
     (let idx = prefix_size div BITS_PER_ELEMENT
      in Option.bind (check_loop (\<lambda>i x. Some (x = ALL_BITS_SET)) idx (buffer b) 0) (\<lambda>ok1.
         if \<not> ok1 then Some False
         else if prefix_size mod BITS_PER_ELEMENT \<noteq> 0
         then Option.bind (arr_get (buffer b) idx) (\<lambda>e.
              Option.bind (last_element_mask width prefix_size) (\<lambda>m.
              if e \<noteq> m then Some False
              else check_loop (\<lambda>i x. Some (x = 0)) (ARRAY_ELEMENTS width) (buffer b) (idx + 1)))
         else check_loop (\<lambda>i x. Some (x = 0)) (ARRAY_ELEMENTS width) (buffer b) idx))"

text \<open>\<open>memset\<close> over the whole array writes each of its elements.\<close>

definition set_all :: "nat \<Rightarrow> Bitmap \<Rightarrow> Bitmap option" where
  "set_all width b =
     (if width mod BITS_PER_ELEMENT \<noteq> 0 then set_prefix width b width
      else if ARRAY_ELEMENTS width > 1
      then Some (b\<lparr>buffer := replicate (length (buffer b)) ALL_BITS_SET\<rparr>)
      else map_option (\<lambda>buf. b\<lparr>buffer := buf\<rparr>) (arr_set (buffer b) 0 ALL_BITS_SET))"

definition clear_all :: "nat \<Rightarrow> Bitmap \<Rightarrow> Bitmap option" where
  "clear_all width b =
     (if ARRAY_ELEMENTS width > 1 then Some (b\<lparr>buffer := replicate (length (buffer b)) 0\<rparr>)
      else map_option (\<lambda>buf. b\<lparr>buffer := buf\<rparr>) (arr_set (buffer b) 0 0))"

definition intersect :: "nat \<Rightarrow> Bitmap \<Rightarrow> Bitmap \<Rightarrow> Bitmap option" where
  "intersect width b map_2 = map_option (\<lambda>buf. b\<lparr>buffer := buf\<rparr>)
     (upd_loop (\<lambda>x y. x AND y) (ARRAY_ELEMENTS width) (buffer map_2) 0 (buffer b))"

definition intersect_and_pad :: "nat \<Rightarrow> Bitmap \<Rightarrow> ulonglong \<Rightarrow> bool \<Rightarrow> Bitmap option" where
  "intersect_and_pad width b map2buff pad_with_ones =
     Option.bind (arr_get (buffer b) 0) (\<lambda>e.
     Option.bind (arr_set (buffer b) 0 (e AND map2buff)) (\<lambda>buf1.
     Option.bind (fill_loop (if pad_with_ones then ALL_BITS_SET else 0) (ARRAY_ELEMENTS width) 1 buf1) (\<lambda>buf2.
       if ARRAY_ELEMENTS width > 1 \<and> width mod BITS_PER_ELEMENT \<noteq> 0 \<and> pad_with_ones
       then Option.bind (last_element_mask width width) (\<lambda>m.
            map_option (\<lambda>buf. b\<lparr>buffer := buf\<rparr>) (arr_set buf2 (ARRAY_ELEMENTS width - 1) m))
       else Some (b\<lparr>buffer := buf2\<rparr>))))"

definition intersect_ulonglong :: "nat \<Rightarrow> Bitmap \<Rightarrow> ulonglong \<Rightarrow> Bitmap option" where
  "intersect_ulonglong width b map2buff = intersect_and_pad width b map2buff False"

definition intersect_extended :: "nat \<Rightarrow> Bitmap \<Rightarrow> ulonglong \<Rightarrow> Bitmap option" where
  "intersect_extended width b map2buff =
     intersect_and_pad width b map2buff (map2buff AND push_bit 63 1 \<noteq> 0)"

definition subtract :: "nat \<Rightarrow> Bitmap \<Rightarrow> Bitmap \<Rightarrow> Bitmap option" where
  "subtract width b map_2 = map_option (\<lambda>buf. b\<lparr>buffer := buf\<rparr>)
     (upd_loop (\<lambda>x y. x AND NOT y) (ARRAY_ELEMENTS width) (buffer map_2) 0 (buffer b))"

definition merge :: "nat \<Rightarrow> Bitmap \<Rightarrow> Bitmap \<Rightarrow> Bitmap option" where
  "merge width b map_2 = map_option (\<lambda>buf. b\<lparr>buffer := buf\<rparr>)
     (upd_loop (\<lambda>x y. x OR y) (ARRAY_ELEMENTS width) (buffer map_2) 0 (buffer b))"

definition is_clear_all :: "nat \<Rightarrow> Bitmap \<Rightarrow> bool option" where
  "is_clear_all width b = check_loop (\<lambda>i x. Some (x = 0)) (ARRAY_ELEMENTS width) (buffer b) 0"

definition is_subset :: "nat \<Rightarrow> Bitmap \<Rightarrow> Bitmap \<Rightarrow> bool option" where
  "is_subset width b map_2 =
     check_loop (\<lambda>i x. map_option (\<lambda>y. x AND NOT y = 0) (arr_get (buffer map_2) i))
       (ARRAY_ELEMENTS width) (buffer b) 0"

text \<open>The loop returns true at the first common bit and false after the last element.\<close>

definition is_overlapping :: "nat \<Rightarrow> Bitmap \<Rightarrow> Bitmap \<Rightarrow> bool option" where
  "is_overlapping width b map_2 =
     map_option Not (check_loop (\<lambda>i x. map_option (\<lambda>y. x AND y = 0) (arr_get (buffer map_2) i))
       (ARRAY_ELEMENTS width) (buffer b) 0)"

definition Bitmap_eq :: "nat \<Rightarrow> Bitmap \<Rightarrow> Bitmap \<Rightarrow> bool option" where
  "Bitmap_eq width b map_2 =
     (if ARRAY_ELEMENTS width > 1 then Some (buffer b = buffer map_2)
      else Option.bind (arr_get (buffer b) 0) (\<lambda>x.
           Option.bind (arr_get (buffer map_2) 0) (\<lambda>y. Some (x = y))))"

definition Bitmap_neq :: "nat \<Rightarrow> Bitmap \<Rightarrow> Bitmap \<Rightarrow> bool option" where
  "Bitmap_neq width b map_2 = map_option Not (Bitmap_eq width b map_2)"

definition to_ulonglong :: "Bitmap \<Rightarrow> ulonglong option" where
  "to_ulonglong b = arr_get (buffer b) 0"

function bits_set_loop :: "nat \<Rightarrow> ulonglong list \<Rightarrow> nat \<Rightarrow> uint \<Rightarrow> uint option" where
  "bits_set_loop k buf i res =
     (if i < k then Option.bind (arr_get buf i) (\<lambda>x. bits_set_loop k buf (Suc i) (res + my_count_bits x))
      else Some res)"
  by pat_completeness auto
termination by (relation "measure (\<lambda>(k, buf, i, res). k - i)") auto

declare bits_set_loop.simps [simp del]

definition bits_set :: "nat \<Rightarrow> Bitmap \<Rightarrow> uint option" where
  "bits_set width b = bits_set_loop (ARRAY_ELEMENTS width) (buffer b) 0 0"

subsection \<open>Bitmap::Iterator\<close>

record Iterator =
  offset :: nat
  tmi :: Table_map_iterator

definition Iterator_init :: "Bitmap \<Rightarrow> Iterator option" where
  "Iterator_init map_2 = map_option (\<lambda>e. \<lparr>offset = 0, tmi = \<lparr>bmp = e\<rparr>\<rparr>) (arr_get (buffer map_2) 0)"

text \<open>The end marker of the iterator is the width; the \<open>for (;;)\<close> loop advances \<open>offset\<close> towards it.\<close>

function Iterator_next :: "nat \<Rightarrow> Bitmap \<Rightarrow> Iterator \<Rightarrow> (nat \<times> Iterator) option" where
  "Iterator_next width b it =
     Option.bind (next_bit (tmi it)) (\<lambda>(nextbit, tmi').
       if nextbit \<noteq> TMI_BITMAP_END then Some (offset it + nextbit, it\<lparr>tmi := tmi'\<rparr>)
       else if Bitmap_length width \<le> offset it + BITS_PER_ELEMENT then Some (width, it\<lparr>tmi := tmi'\<rparr>)
       else Option.bind (arr_get (buffer b) ((offset it + BITS_PER_ELEMENT) div BITS_PER_ELEMENT)) (\<lambda>e.
            Iterator_next width b
              (it\<lparr>offset := offset it + BITS_PER_ELEMENT, tmi := \<lparr>bmp = e\<rparr>\<rparr>)))"
  by pat_completeness auto
termination
  by (relation "measure (\<lambda>(width, b, it). width - offset it)")
     (auto simp: Bitmap_length_def BITS_PER_ELEMENT_def)

declare Iterator_next.simps [simp del]

text \<open>The numbers a client sees that steps the iterator until the end marker, at most \<open>fuel\<close> times.\<close>

fun Iterator_collect :: "nat \<Rightarrow> nat \<Rightarrow> Bitmap \<Rightarrow> Iterator \<Rightarrow> nat list option" where
  "Iterator_collect 0 width b it = None"
| "Iterator_collect (Suc fuel) width b it =
     Option.bind (Iterator_next width b it) (\<lambda>(n, it').
       if n = width then Some [] else map_option ((#) n) (Iterator_collect fuel width b it'))"

subsection \<open>Bitmap::print\<close>

text \<open>
  The conversion \<open>longlong2str\<close> of \<open>mysys\<close> and the digit table \<open>_dig_vec_upper\<close> are parameters. The
  inner loop shifts by \<open>shift\<close>, which it increases; a shift by 64 or more is undefined. The outer
  loop runs over the elements before the last non-zero one; \<open>longlong2str\<close> writes from the start
  of the buffer.
\<close>

fun print_last :: "ulonglong list \<Rightarrow> nat \<Rightarrow> nat" where
  "print_last buf 0 = 0"
| "print_last buf (Suc n) = (if buf ! Suc n = 0 then print_last buf n else Suc n)"

fun print_digits :: "(nat \<Rightarrow> char) \<Rightarrow> ulonglong \<Rightarrow> nat \<Rightarrow> nat \<Rightarrow> nat \<Rightarrow> string \<Rightarrow> string option" where
  "print_digits dig_vec_upper num shift pos 0 out = Some out"
| "print_digits dig_vec_upper num shift pos (Suc j) out =
     (if shift < 64
      then Option.bind (arr_set out pos (dig_vec_upper (unat (drop_bit shift num AND 15)))) (\<lambda>out'.
           print_digits dig_vec_upper num (shift + 4) (Suc pos) j out')
      else None)"

fun print_elements :: "(nat \<Rightarrow> char) \<Rightarrow> ulonglong list \<Rightarrow> nat \<Rightarrow> string \<Rightarrow> string option" where
  "print_elements dig_vec_upper [] i out = Some out"
| "print_elements dig_vec_upper (e # es) i out =
     Option.bind (print_digits dig_vec_upper e (BITS_PER_ELEMENT - 4) (i * 16) 16 out)
       (print_elements dig_vec_upper es (Suc i))"

definition Bitmap_print ::
    "(nat \<Rightarrow> char) \<Rightarrow> (ulonglong \<Rightarrow> string \<Rightarrow> string) \<Rightarrow> nat \<Rightarrow> Bitmap \<Rightarrow> string \<Rightarrow> string option" where
  "Bitmap_print dig_vec_upper longlong2str width b out =
     (let last = print_last (buffer b) (ARRAY_ELEMENTS width - 1)
      in Option.bind (print_elements dig_vec_upper (take last (buffer b)) 0 out) (\<lambda>out'.
         map_option (\<lambda>e. longlong2str e out') (arr_get (buffer b) last)))"

subsection \<open>The loops in closed form\<close>

lemma fill_loop_closed:
  "k \<le> length buf \<Longrightarrow>
   fill_loop v k i buf = Some (map (\<lambda>j. if i \<le> j \<and> j < k then v else buf ! j) [0..<length buf])"
proof (induction v k i buf rule: fill_loop.induct)
  case (1 v k i buf)
  show ?case
  proof (cases "i < k")
    case True
    then have "fill_loop v k i buf = fill_loop v k (Suc i) (buf[i := v])"
      using 1(2) by (subst fill_loop.simps) simp
    also have "\<dots> = Some (map (\<lambda>j. if Suc i \<le> j \<and> j < k then v else buf[i := v] ! j) [0..<length buf])"
      using 1 True by simp
    also have "\<dots> = Some (map (\<lambda>j. if i \<le> j \<and> j < k then v else buf ! j) [0..<length buf])"
      using True by (auto simp: nth_list_update)
    finally show ?thesis .
  next
    case False
    then have "fill_loop v k i buf = Some buf" by (subst fill_loop.simps) simp
    moreover have "map (\<lambda>j. if i \<le> j \<and> j < k then v else buf ! j) [0..<length buf] = buf"
      using False by (intro nth_equalityI) auto
    ultimately show ?thesis by simp
  qed
qed

lemma upd_loop_closed:
  "k \<le> length buf \<Longrightarrow> k \<le> length buf2 \<Longrightarrow>
   upd_loop f k buf2 i buf =
     Some (map (\<lambda>j. if i \<le> j \<and> j < k then f (buf ! j) (buf2 ! j) else buf ! j) [0..<length buf])"
proof (induction f k buf2 i buf rule: upd_loop.induct)
  case (1 f k buf2 i buf)
  show ?case
  proof (cases "i < k")
    case True
    then have "upd_loop f k buf2 i buf = upd_loop f k buf2 (Suc i) (buf[i := f (buf ! i) (buf2 ! i)])"
      using 1(2,3) by (subst upd_loop.simps) simp
    also have "\<dots> = Some (map (\<lambda>j. if Suc i \<le> j \<and> j < k then f (buf[i := f (buf ! i) (buf2 ! i)] ! j) (buf2 ! j)
        else buf[i := f (buf ! i) (buf2 ! i)] ! j) [0..<length buf])"
      using 1 True by simp
    also have "\<dots> = Some (map (\<lambda>j. if i \<le> j \<and> j < k then f (buf ! j) (buf2 ! j) else buf ! j) [0..<length buf])"
      using True by (auto simp: nth_list_update Suc_le_eq le_less)
    finally show ?thesis .
  next
    case False
    then have "upd_loop f k buf2 i buf = Some buf" by (subst upd_loop.simps) simp
    moreover have "map (\<lambda>j. if i \<le> j \<and> j < k then f (buf ! j) (buf2 ! j) else buf ! j) [0..<length buf] = buf"
      using False by (intro nth_equalityI) auto
    ultimately show ?thesis by simp
  qed
qed

lemma check_loop_closed:
  "k \<le> length buf \<Longrightarrow> (\<And>j. j < k \<Longrightarrow> p j (buf ! j) = Some (q j)) \<Longrightarrow>
   check_loop p k buf i = Some (\<forall>j. i \<le> j \<and> j < k \<longrightarrow> q j)"
proof (induction p k buf i rule: check_loop.induct)
  case (1 p k buf i)
  show ?case
  proof (cases "i < k")
    case True
    then have "check_loop p k buf i = (if q i then check_loop p k buf (Suc i) else Some False)"
      using 1(2,3) by (subst check_loop.simps) simp
    also have "\<dots> = Some (q i \<and> (\<forall>j. Suc i \<le> j \<and> j < k \<longrightarrow> q j))"
      using 1 True by simp
    also have "(q i \<and> (\<forall>j. Suc i \<le> j \<and> j < k \<longrightarrow> q j)) \<longleftrightarrow> (\<forall>j. i \<le> j \<and> j < k \<longrightarrow> q j)"
      using True by (metis Suc_leD Suc_leI le_neq_implies_less le_refl)
    finally show ?thesis .
  qed (subst check_loop.simps, auto)
qed

subsection \<open>Abstraction and invariant\<close>

text \<open>The set a bitmap stands for, and the invariant: the array has its declared length and the bits
  of the last element beyond the width are clear.\<close>

definition bits :: "Bitmap \<Rightarrow> nat set" where
  "bits b = {n. n div 64 < length (buffer b) \<and> bit (buffer b ! (n div 64)) (n mod 64)}"

definition Bitmap_inv :: "nat \<Rightarrow> Bitmap \<Rightarrow> bool" where
  "Bitmap_inv width b \<longleftrightarrow> 0 < width \<and> length (buffer b) = ARRAY_ELEMENTS width \<and> bits b \<subseteq> {..<width}"

named_theorems geom \<open>the geometry of the array\<close>

lemma elements_bounds [geom]: "width \<le> 64 * ARRAY_ELEMENTS width" "64 * ARRAY_ELEMENTS width < width + 64"
  by (auto simp: ARRAY_ELEMENTS_def BITS_PER_ELEMENT_def)

lemma index_in_array [geom]: "n < width \<Longrightarrow> n div 64 < ARRAY_ELEMENTS width"
  using elements_bounds(1) [of width] by auto

lemma elements_pos [geom]: "0 < width \<Longrightarrow> 0 < ARRAY_ELEMENTS width"
  using elements_bounds(1) [of width] by auto

lemma bit_index_eq: "n < width \<Longrightarrow> bit_index width n = n div 64"
  using index_in_array [of n width] by (auto simp: bit_index_def BITS_PER_ELEMENT_def)

lemma bit_mask_eq: "n < width \<Longrightarrow> bit_mask width n = Some (push_bit (n mod 64) 1)"
  using index_in_array [of n width]
  by (auto simp: bit_mask_def BITS_PER_ELEMENT_def shl_1ULL_def)

lemma last_element_mask_eq:
  assumes "n \<le> width" "n mod 64 \<noteq> 0"
  shows "last_element_mask width n = Some (mask (n mod 64))"
proof -
  have "n < 64" if "ARRAY_ELEMENTS width = 1"
    using that elements_bounds(1) [of width] assms by (cases "n = 64") auto
  then show ?thesis
    by (auto simp: last_element_mask_def bit_mask_def BITS_PER_ELEMENT_def shl_1ULL_def mask_eq_decr_exp
        push_bit_eq_mult)
qed

lemma bit_push_mod: "bit (push_bit (n mod 64) (1 :: ulonglong)) k \<longleftrightarrow> k = n mod 64"
  by (auto simp: bit_simps)

lemma mem_bits_iff:
  "length (buffer b) = ARRAY_ELEMENTS width \<Longrightarrow> n < width \<Longrightarrow> n \<in> bits b \<longleftrightarrow> bit (buffer b ! (n div 64)) (n mod 64)"
  by (auto simp: bits_def geom)

lemma split_64: "n div 64 = m div 64 \<and> n mod 64 = m mod 64 \<longleftrightarrow> n = (m :: nat)"
  by (metis div_mult_mod_eq)

lemma bits_update:
  assumes "i < length (buffer b)"
  shows "m \<in> bits (b\<lparr>buffer := (buffer b)[i := v]\<rparr>) \<longleftrightarrow> (if m div 64 = i then bit v (m mod 64) else m \<in> bits b)"
  using assms by (simp add: bits_def nth_list_update)

lemma is_set_bits:
  "Bitmap_inv width b \<Longrightarrow> n < width \<Longrightarrow> is_set width b n = Some (n \<in> bits b)"
proof -
  assume b: "Bitmap_inv width b" "n < width"
  have "x AND push_bit k 1 \<noteq> 0 \<longleftrightarrow> bit x k" for x :: ulonglong and k
    by (metis and_exp_eq_0_iff_not_bit push_bit_of_1)
  with b show ?thesis
    by (simp add: is_set_def bit_index_eq bit_mask_eq Bitmap_inv_def geom mem_bits_iff)
qed

lemma set_bit_bits:
  assumes "Bitmap_inv width b" "n < width"
  obtains b' where "Bitmap_set_bit width b n = Some b'" "Bitmap_inv width b'" "bits b' = insert n (bits b)"
proof -
  let ?b = "b\<lparr>buffer := (buffer b)[n div 64 := buffer b ! (n div 64) OR push_bit (n mod 64) 1]\<rparr>"
  have l: "n div 64 < length (buffer b)" using assms by (simp add: Bitmap_inv_def geom)
  have "Bitmap_set_bit width b n = Some ?b"
    using l assms by (simp add: Bitmap_set_bit_def bit_index_eq bit_mask_eq)
  moreover have "bits ?b = insert n (bits b)"
  proof (rule set_eqI)
    fix m
    show "m \<in> bits ?b \<longleftrightarrow> m \<in> insert n (bits b)"
      unfolding bits_update [OF l] using l split_64 [of m n]
      by (simp only: bit_or_iff bit_push_mod insert_iff bits_def mem_Collect_eq split: if_splits) metis
  qed
  moreover from this have "Bitmap_inv width ?b"
    using assms by (auto simp: Bitmap_inv_def)
  ultimately show ?thesis using that by blast
qed

lemma clear_bit_bits:
  assumes "Bitmap_inv width b" "n < width"
  obtains b' where "clear_bit width b n = Some b'" "Bitmap_inv width b'" "bits b' = bits b - {n}"
proof -
  let ?b = "b\<lparr>buffer := (buffer b)[n div 64 := buffer b ! (n div 64) AND NOT (push_bit (n mod 64) 1)]\<rparr>"
  have l: "n div 64 < length (buffer b)" using assms by (simp add: Bitmap_inv_def geom)
  have "clear_bit width b n = Some ?b"
    using l assms by (simp add: clear_bit_def bit_index_eq bit_mask_eq)
  moreover have "bits ?b = bits b - {n}"
  proof (rule set_eqI)
    fix m :: nat
    have "m mod 64 < 64" by simp
    then show "m \<in> bits ?b \<longleftrightarrow> m \<in> bits b - {n}"
      unfolding bits_update [OF l] using l split_64 [of m n]
      by (simp only: bit_and_iff bit_not_word_iff bit_push_mod Diff_iff singleton_iff bits_def mem_Collect_eq
          split: if_splits) (simp, metis)
  qed
  moreover from this have "Bitmap_inv width ?b"
    using assms by (auto simp: Bitmap_inv_def)
  ultimately show ?thesis using that by blast
qed

lemma inv_length: "Bitmap_inv width b \<Longrightarrow> length (buffer b) = ARRAY_ELEMENTS width"
  by (simp add: Bitmap_inv_def)

lemma bits_index: "n \<in> bits b \<Longrightarrow> n div 64 < length (buffer b)"
  by (simp add: bits_def)

lemma upd_bits:
  assumes "Bitmap_inv width b" "Bitmap_inv width c"
    and f: "\<And>x y k. k < 64 \<Longrightarrow> bit (f x y) k \<longleftrightarrow> g (bit x k) (bit y k)" and "\<not> g False False"
  obtains b' where
    "map_option (\<lambda>buf. b\<lparr>buffer := buf\<rparr>) (upd_loop f (ARRAY_ELEMENTS width) (buffer c) 0 (buffer b)) = Some b'"
    "Bitmap_inv width b'" "bits b' = {n. g (n \<in> bits b) (n \<in> bits c)}"
proof -
  let ?b = "b\<lparr>buffer := map (\<lambda>j. f (buffer b ! j) (buffer c ! j)) [0..<ARRAY_ELEMENTS width]\<rparr>"
  have l: "length (buffer b) = ARRAY_ELEMENTS width" "length (buffer c) = ARRAY_ELEMENTS width"
    using assms(1,2) by (simp_all add: inv_length)
  have "upd_loop f (ARRAY_ELEMENTS width) (buffer c) 0 (buffer b) =
      Some (map (\<lambda>j. f (buffer b ! j) (buffer c ! j)) [0..<ARRAY_ELEMENTS width])"
    using l by (subst upd_loop_closed) auto
  then have 1: "map_option (\<lambda>buf. b\<lparr>buffer := buf\<rparr>)
      (upd_loop f (ARRAY_ELEMENTS width) (buffer c) 0 (buffer b)) = Some ?b" by simp
  have 2: "bits ?b = {n. g (n \<in> bits b) (n \<in> bits c)}"
  proof (rule set_eqI)
    fix n
    show "n \<in> bits ?b \<longleftrightarrow> n \<in> {n. g (n \<in> bits b) (n \<in> bits c)}"
    proof (cases "n div 64 < ARRAY_ELEMENTS width")
      case True
      then show ?thesis using l f [of "n mod 64"] by (simp add: bits_def)
    next
      case False
      then have "n \<notin> bits b" "n \<notin> bits c" "n \<notin> bits ?b"
        using l by (simp_all add: bits_def)
      then show ?thesis using assms(4) by simp
    qed
  qed
  have "n < width" if "g (n \<in> bits b) (n \<in> bits c)" for n
    using that assms(1,2,4) by (cases "n \<in> bits b"; cases "n \<in> bits c") (auto simp: Bitmap_inv_def)
  then have 3: "Bitmap_inv width ?b"
    using 2 assms(1) by (auto simp: Bitmap_inv_def)
  from that [OF 1 3 2] show ?thesis .
qed

lemma intersect_bits:
  assumes "Bitmap_inv width b" "Bitmap_inv width c"
  obtains b' where "intersect width b c = Some b'" "Bitmap_inv width b'" "bits b' = bits b \<inter> bits c"
  by (rule upd_bits [OF assms, of "\<lambda>x y. x AND y" "(\<and>)"])
     (auto simp: intersect_def bit_and_iff that Int_def)

lemma subtract_bits:
  assumes "Bitmap_inv width b" "Bitmap_inv width c"
  obtains b' where "subtract width b c = Some b'" "Bitmap_inv width b'" "bits b' = bits b - bits c"
  by (rule upd_bits [OF assms, of "\<lambda>x y. x AND NOT y" "\<lambda>p q. p \<and> \<not> q"])
     (auto simp: subtract_def bit_and_iff bit_not_word_iff that set_diff_eq)

lemma merge_bits:
  assumes "Bitmap_inv width b" "Bitmap_inv width c"
  obtains b' where "merge width b c = Some b'" "Bitmap_inv width b'" "bits b' = bits b \<union> bits c"
  by (rule upd_bits [OF assms, of "\<lambda>x y. x OR y" "(\<or>)"])
     (auto simp: merge_def bit_or_iff that Un_def)

text \<open>A bitmap is determined by its set.\<close>

lemma buffer_eqI:
  assumes "length (buffer b) = length (buffer c)" "bits b = bits c"
  shows "buffer b = buffer c"
proof (rule nth_equalityI)
  fix i assume i: "i < length (buffer b)"
  show "buffer b ! i = buffer c ! i"
  proof (rule word_bit_eqI)
    fix k assume "k < LENGTH(64)"
    then have d: "(64 * i + k) div 64 = i" "(64 * i + k) mod 64 = k" by simp_all
    have "64 * i + k \<in> bits b \<longleftrightarrow> 64 * i + k \<in> bits c" using assms(2) by simp
    then show "bit (buffer b ! i) k = bit (buffer c ! i) k"
      using i assms(1) unfolding bits_def mem_Collect_eq d by simp
  qed
qed (rule assms(1))

lemma Bitmap_eq_bits:
  assumes "Bitmap_inv width b" "Bitmap_inv width c"
  shows "Bitmap_eq width b c = Some (bits b = bits c)"
proof -
  have l: "length (buffer b) = ARRAY_ELEMENTS width" "length (buffer c) = ARRAY_ELEMENTS width"
    "0 < ARRAY_ELEMENTS width"
    using assms by (auto simp: Bitmap_inv_def geom)
  have eq: "buffer b = buffer c \<longleftrightarrow> bits b = bits c"
    using buffer_eqI [of b c] l by (auto simp: bits_def)
  show ?thesis
  proof (cases "ARRAY_ELEMENTS width > 1")
    case False
    with l have "ARRAY_ELEMENTS width = 1" by linarith
    with l have "buffer b = buffer c \<longleftrightarrow> buffer b ! 0 = buffer c ! 0"
      by (auto simp: list_eq_iff_nth_eq)
    with False l eq show ?thesis by (simp add: Bitmap_eq_def)
  qed (simp add: Bitmap_eq_def eq)
qed

lemma word64_zero_iff: "(x :: ulonglong) = 0 \<longleftrightarrow> (\<forall>k < 64. \<not> bit x k)"
  using word_eq_0_iff_bits [of x] by simp

lemma all_elements_iff:
  "(\<forall>j < K. \<forall>k < 64. P (64 * j + k)) \<longleftrightarrow> (\<forall>n. n div 64 < K \<longrightarrow> P (n :: nat))"
proof
  assume l: "\<forall>j < K. \<forall>k < 64. P (64 * j + k)"
  show "\<forall>n. n div 64 < K \<longrightarrow> P n"
  proof (intro allI impI)
    fix n assume "n div 64 < K"
    with l have "P (64 * (n div 64) + n mod 64)" by (metis mod_less_divisor zero_less_numeral)
    then show "P n" by (simp only: mult_div_mod_eq)
  qed
qed auto

lemma nth_bit_bits:
  "j < length (buffer b) \<Longrightarrow> k < 64 \<Longrightarrow> bit (buffer b ! j) k \<longleftrightarrow> 64 * j + k \<in> bits b"
  by (simp add: bits_def)

lemma is_subset_bits:
  assumes "Bitmap_inv width b" "Bitmap_inv width c"
  shows "is_subset width b c = Some (bits b \<subseteq> bits c)"
proof -
  have l: "length (buffer b) = ARRAY_ELEMENTS width" "length (buffer c) = ARRAY_ELEMENTS width"
    using assms by (auto simp: inv_length)
  have "is_subset width b c = Some (\<forall>j < ARRAY_ELEMENTS width. buffer b ! j AND NOT (buffer c ! j) = 0)"
    unfolding is_subset_def by (subst check_loop_closed) (auto simp: l)
  also have "(\<forall>j < ARRAY_ELEMENTS width. buffer b ! j AND NOT (buffer c ! j) = 0) \<longleftrightarrow>
      (\<forall>j < ARRAY_ELEMENTS width. \<forall>k < 64. 64 * j + k \<in> bits b \<longrightarrow> 64 * j + k \<in> bits c)"
    by (auto simp: word64_zero_iff bit_and_iff bit_not_word_iff nth_bit_bits l)
  also have "\<dots> \<longleftrightarrow> bits b \<subseteq> bits c"
    unfolding all_elements_iff [of _ "\<lambda>n. n \<in> bits b \<longrightarrow> n \<in> bits c"]
    using l bits_index [of _ b] by (simp only:) blast
  finally show ?thesis .
qed

lemma is_overlapping_bits:
  assumes "Bitmap_inv width b" "Bitmap_inv width c"
  shows "is_overlapping width b c = Some (bits b \<inter> bits c \<noteq> {})"
proof -
  have l: "length (buffer b) = ARRAY_ELEMENTS width" "length (buffer c) = ARRAY_ELEMENTS width"
    using assms by (auto simp: inv_length)
  have "is_overlapping width b c = Some (\<not> (\<forall>j < ARRAY_ELEMENTS width. buffer b ! j AND buffer c ! j = 0))"
    unfolding is_overlapping_def by (subst check_loop_closed) (auto simp: l)
  also have "(\<forall>j < ARRAY_ELEMENTS width. buffer b ! j AND buffer c ! j = 0) \<longleftrightarrow>
      (\<forall>j < ARRAY_ELEMENTS width. \<forall>k < 64. \<not> (64 * j + k \<in> bits b \<and> 64 * j + k \<in> bits c))"
    by (auto simp: word64_zero_iff bit_and_iff nth_bit_bits l)
  also have "\<dots> \<longleftrightarrow> bits b \<inter> bits c = {}"
    unfolding all_elements_iff [of _ "\<lambda>n. \<not> (n \<in> bits b \<and> n \<in> bits c)"]
    using l bits_index [of _ b] by (simp only:) blast
  finally show ?thesis by simp
qed

lemma is_clear_all_bits:
  assumes "Bitmap_inv width b"
  shows "is_clear_all width b = Some (bits b = {})"
proof -
  have l: "length (buffer b) = ARRAY_ELEMENTS width" using assms by (auto simp: inv_length)
  have "is_clear_all width b = Some (\<forall>j < ARRAY_ELEMENTS width. buffer b ! j = 0)"
    unfolding is_clear_all_def by (subst check_loop_closed) (auto simp: l)
  also have "(\<forall>j < ARRAY_ELEMENTS width. buffer b ! j = 0) \<longleftrightarrow>
      (\<forall>j < ARRAY_ELEMENTS width. \<forall>k < 64. 64 * j + k \<notin> bits b)"
    by (auto simp: word64_zero_iff nth_bit_bits l)
  also have "\<dots> \<longleftrightarrow> bits b = {}"
    unfolding all_elements_iff [of _ "\<lambda>n. n \<notin> bits b"]
    using l bits_index [of _ b] by (simp only:) blast
  finally show ?thesis .
qed

subsection \<open>Prefixes\<close>

text \<open>Element \<open>j\<close> of the array of the set of all numbers below \<open>p\<close>.\<close>

definition prefix_element :: "nat \<Rightarrow> nat \<Rightarrow> ulonglong" where
  "prefix_element p j = (if j < p div 64 then NOT 0 else if j = p div 64 then mask (p mod 64) else 0)"

lemma bit_prefix_element:
  assumes "k < 64"
  shows "bit (prefix_element p j) k \<longleftrightarrow> 64 * j + k < p"
proof -
  have p: "p = 64 * (p div 64) + p mod 64" by (simp only: mult_div_mod_eq)
  have m: "p mod 64 < 64" by simp
  show ?thesis
  proof (cases j "p div 64" rule: linorder_cases)
    case less
    then have "64 * j + 64 \<le> 64 * (p div 64)" by (metis mult_Suc_right add.commute Suc_leI mult_le_mono2)
    with less assms p show ?thesis by (simp add: prefix_element_def bit_not_word_iff; linarith)
  next
    case equal
    with assms p m show ?thesis by (simp add: prefix_element_def bit_mask_iff; linarith)
  next
    case greater
    then have "64 * (p div 64) + 64 \<le> 64 * j" by (metis mult_Suc_right add.commute Suc_leI mult_le_mono2)
    with greater assms p m show ?thesis by (simp add: prefix_element_def; linarith)
  qed
qed

lemma bits_prefix:
  assumes "length (buffer b) = ARRAY_ELEMENTS width" "p \<le> width"
    and "\<And>j. j < ARRAY_ELEMENTS width \<Longrightarrow> buffer b ! j = prefix_element p j"
  shows "bits b = {..<p}"
proof (rule set_eqI)
  fix n :: nat
  have n: "64 * (n div 64) + n mod 64 = n" by simp
  show "n \<in> bits b \<longleftrightarrow> n \<in> {..<p}"
  proof (cases "n div 64 < ARRAY_ELEMENTS width")
    case True
    then show ?thesis
      using assms bit_prefix_element [of "n mod 64" p "n div 64"] n by (simp add: bits_def)
  next
    case False
    then have "\<not> n < p" using index_in_array [of n width] assms(2) by auto
    with False assms(1) show ?thesis by (simp add: bits_def)
  qed
qed

lemma prefix_elements_unique:
  assumes "Bitmap_inv width b" "p \<le> width"
  shows "(\<forall>j < ARRAY_ELEMENTS width. buffer b ! j = prefix_element p j) \<longleftrightarrow> bits b = {..<p}"
proof
  assume "\<forall>j < ARRAY_ELEMENTS width. buffer b ! j = prefix_element p j"
  with assms show "bits b = {..<p}" by (intro bits_prefix [of b width]) (auto simp: inv_length)
next
  assume b: "bits b = {..<p}"
  let ?c = "\<lparr>buffer = map (prefix_element p) [0..<ARRAY_ELEMENTS width]\<rparr>"
  have "bits ?c = {..<p}" using assms(2) by (intro bits_prefix [of ?c width]) auto
  with b have "buffer b = buffer ?c" using assms(1) by (intro buffer_eqI) (auto simp: inv_length)
  then show "\<forall>j < ARRAY_ELEMENTS width. buffer b ! j = prefix_element p j" by simp
qed

lemma prefix_index:
  assumes "p \<le> width"
  shows "p div 64 \<le> ARRAY_ELEMENTS width" "p mod 64 \<noteq> 0 \<Longrightarrow> p div 64 < ARRAY_ELEMENTS width"
proof -
  have p: "p = 64 * (p div 64) + p mod 64" by (simp only: mult_div_mod_eq)
  show "p div 64 \<le> ARRAY_ELEMENTS width" "p mod 64 \<noteq> 0 \<Longrightarrow> p div 64 < ARRAY_ELEMENTS width"
    using p elements_bounds(1) [of width] assms by linarith+
qed

lemma set_prefix_elements:
  assumes "length (buffer b) = ARRAY_ELEMENTS width"
  shows "set_prefix width b p =
    Some (b\<lparr>buffer := map (prefix_element (min p width)) [0..<ARRAY_ELEMENTS width]\<rparr>)"
proof -
  define q where "q = min p width"
  have q: "(if width < p then width else p) = q" "q \<le> width" by (auto simp: q_def)
  note pi = prefix_index [OF q(2)]
  show ?thesis
  proof (cases "q mod 64 = 0")
    case True
    then show ?thesis unfolding set_prefix_def q Let_def q_def [symmetric]
      using pi assms
      by (simp add: BITS_PER_ELEMENT_def fill_loop_closed prefix_element_def ALL_BITS_SET_def)
  next
    case False
    then show ?thesis unfolding set_prefix_def q Let_def q_def [symmetric]
      using pi assms
      by (auto simp: BITS_PER_ELEMENT_def fill_loop_closed prefix_element_def ALL_BITS_SET_def
          last_element_mask_eq [OF q(2)] nth_list_update)
  qed
qed

lemma set_prefix_bits:
  assumes "length (buffer b) = ARRAY_ELEMENTS width" "0 < width"
  obtains b' where "set_prefix width b p = Some b'" "Bitmap_inv width b'" "bits b' = {..<min p width}"
proof -
  let ?b = "b\<lparr>buffer := map (prefix_element (min p width)) [0..<ARRAY_ELEMENTS width]\<rparr>"
  have "bits ?b = {..<min p width}" by (rule bits_prefix [of ?b width]) auto
  then show ?thesis using that [of ?b] set_prefix_elements [OF assms(1), of p] assms(2)
    by (auto simp: Bitmap_inv_def)
qed

lemma is_prefix_bits:
  assumes "Bitmap_inv width b" "p \<le> width"
  shows "is_prefix width b p = Some (bits b = {..<p})"
proof -
  have l: "length (buffer b) = ARRAY_ELEMENTS width" using assms by (simp add: inv_length)
  note pi = prefix_index [OF assms(2)]
  define d m where "d = p div 64" and "m = (mask (p mod 64) :: ulonglong)"
  have c1: "check_loop (\<lambda>i x. Some (x = ALL_BITS_SET)) d (buffer b) 0
      = Some (\<forall>j < d. buffer b ! j = NOT 0)"
    using pi(1) unfolding d_def [symmetric] by (subst check_loop_closed) (auto simp: l ALL_BITS_SET_def)
  have c2: "check_loop (\<lambda>i x. Some (x = 0)) (ARRAY_ELEMENTS width) (buffer b) i
      = Some (\<forall>j. i \<le> j \<and> j < ARRAY_ELEMENTS width \<longrightarrow> buffer b ! j = 0)" for i
    by (subst check_loop_closed) (auto simp: l)
  have e: "is_prefix width b p = Some (\<forall>j < ARRAY_ELEMENTS width. buffer b ! j = prefix_element p j)"
  proof (cases "p mod 64 = 0")
    case True
    then have "prefix_element p j = (if j < d then NOT 0 else 0)" for j
      by (simp add: prefix_element_def d_def)
    moreover have "(\<forall>j < ARRAY_ELEMENTS width. buffer b ! j = (if j < d then NOT 0 else 0)) \<longleftrightarrow>
        (\<forall>j < d. buffer b ! j = NOT 0) \<and> (\<forall>j. d \<le> j \<and> j < ARRAY_ELEMENTS width \<longrightarrow> buffer b ! j = 0)"
      using all_split_at [OF pi(1)] unfolding d_def [symmetric] by simp
    ultimately show ?thesis unfolding is_prefix_def Let_def BITS_PER_ELEMENT_def d_def [symmetric] c1 c2
      using True by simp
  next
    case False
    then have "prefix_element p j = (if j < d then NOT 0 else if j = d then m else 0)" for j
      by (simp add: prefix_element_def d_def m_def)
    moreover have "(\<forall>j < ARRAY_ELEMENTS width. buffer b ! j = (if j < d then NOT 0 else if j = d then m else 0)) \<longleftrightarrow>
        (\<forall>j < d. buffer b ! j = NOT 0) \<and> buffer b ! d = m \<and>
        (\<forall>j. Suc d \<le> j \<and> j < ARRAY_ELEMENTS width \<longrightarrow> buffer b ! j = 0)"
      using all_split_at [of "Suc d" "ARRAY_ELEMENTS width"] pi(2) [OF False]
      unfolding d_def [symmetric] by (simp add: Suc_le_eq All_less_Suc conj_ac)
    ultimately show ?thesis
      unfolding is_prefix_def Let_def BITS_PER_ELEMENT_def d_def [symmetric] c1 c2
        last_element_mask_eq [OF assms(2) False] m_def [symmetric]
      using False pi(2) [OF False] by (simp add: l d_def [symmetric])
  qed
  with prefix_elements_unique [OF assms] show ?thesis by simp
qed

lemma set_all_bits:
  assumes "length (buffer b) = ARRAY_ELEMENTS width" "0 < width"
  obtains b' where "set_all width b = Some b'" "Bitmap_inv width b'" "bits b' = {..<width}"
proof -
  have "set_all width b = set_prefix width b width"
  proof (cases "width mod 64 = 0")
    case True
    then have d: "width = 64 * (width div 64)" by (metis div_mult_mod_eq add_0_right mult.commute)
    then have e: "ARRAY_ELEMENTS width = width div 64"
      using elements_bounds [of width] by linarith
    have "map (prefix_element width) [0..<ARRAY_ELEMENTS width] = replicate (ARRAY_ELEMENTS width) (NOT 0)"
      by (rule nth_equalityI) (simp_all add: prefix_element_def e)
    moreover have "(buffer b)[0 := v] = replicate (ARRAY_ELEMENTS width) v" if "\<not> 1 < ARRAY_ELEMENTS width" for v
    proof -
      from that assms(2) elements_pos [of width] have "ARRAY_ELEMENTS width = 1" by linarith
      with assms(1) show ?thesis by (cases "buffer b") auto
    qed
    ultimately show ?thesis
      using True assms elements_pos [of width]
      by (simp add: set_all_def set_prefix_elements BITS_PER_ELEMENT_def ALL_BITS_SET_def)
  qed (simp add: set_all_def BITS_PER_ELEMENT_def)
  then show ?thesis using that set_prefix_bits [OF assms, of width] by auto
qed

lemma clear_all_bits:
  assumes "length (buffer b) = ARRAY_ELEMENTS width" "0 < width"
  obtains b' where "clear_all width b = Some b'" "Bitmap_inv width b'" "bits b' = {}"
proof -
  let ?b = "b\<lparr>buffer := replicate (ARRAY_ELEMENTS width) 0\<rparr>"
  have "clear_all width b = Some ?b"
    using assms elements_pos [of width]
    by (cases "ARRAY_ELEMENTS width = 1") (auto simp: clear_all_def length_Suc_conv)
  moreover have "bits ?b = {}" by (auto simp: bits_def)
  ultimately show ?thesis using that [of ?b] assms(2) by (simp add: Bitmap_inv_def)
qed

text \<open>The intersection with a word keeps its bits below 64; the padding adds all bits from 64 on.\<close>

lemma intersect_and_pad_elements:
  assumes "Bitmap_inv width b"
  shows "\<exists>b'. intersect_and_pad width b m pad = Some b' \<and> length (buffer b') = ARRAY_ELEMENTS width \<and>
    (\<forall>j < ARRAY_ELEMENTS width. buffer b' ! j =
       (if j = 0 then buffer b ! 0 AND m else if pad then prefix_element width j else 0))"
proof -
  have l: "length (buffer b) = ARRAY_ELEMENTS width" "0 < ARRAY_ELEMENTS width"
    using assms by (auto simp: Bitmap_inv_def geom)
  note pi = prefix_index [of width width, OF order_refl]
  have last: "ARRAY_ELEMENTS width - 1 = width div 64" if "width mod 64 \<noteq> 0"
    using pi that elements_bounds [of width] by linarith
  have full: "width div 64 = ARRAY_ELEMENTS width" if "width mod 64 = 0"
  proof -
    from that have "width = 64 * (width div 64)" by (metis div_mult_mod_eq add_0_right mult.commute)
    then show ?thesis using elements_bounds [of width] by linarith
  qed
  have pe: "prefix_element width j = (if width mod 64 \<noteq> 0 \<and> j = ARRAY_ELEMENTS width - 1
      then mask (width mod 64) else NOT 0)" if "j < ARRAY_ELEMENTS width" for j
    using that last full by (cases "width mod 64 = 0") (auto simp: prefix_element_def)
  show ?thesis
    using l by (auto simp: intersect_and_pad_def fill_loop_closed BITS_PER_ELEMENT_def ALL_BITS_SET_def
        last_element_mask_eq pe nth_list_update)
qed

lemma intersect_and_pad_bits:
  assumes "Bitmap_inv width b"
  obtains b' where "intersect_and_pad width b m pad = Some b'" "Bitmap_inv width b'"
    "bits b' = (bits b \<inter> {n. n < 64 \<and> bit m n}) \<union> (if pad then {64..<width} else {})"
proof -
  from intersect_and_pad_elements [OF assms] obtain b' where
    b': "intersect_and_pad width b m pad = Some b'" "length (buffer b') = ARRAY_ELEMENTS width"
    and e: "\<And>j. j < ARRAY_ELEMENTS width \<Longrightarrow> buffer b' ! j =
       (if j = 0 then buffer b ! 0 AND m else if pad then prefix_element width j else 0)" by blast
  have l: "length (buffer b) = ARRAY_ELEMENTS width" using assms by (simp add: inv_length)
  have bits: "bits b' = (bits b \<inter> {n. n < 64 \<and> bit m n}) \<union> (if pad then {64..<width} else {})"
  proof (rule set_eqI)
    fix n :: nat
    have n: "64 * (n div 64) + n mod 64 = n" by simp
    consider "n < 64" | "64 \<le> n" "n div 64 < ARRAY_ELEMENTS width" | "64 \<le> n" "\<not> n div 64 < ARRAY_ELEMENTS width"
      by linarith
    then show "n \<in> bits b' \<longleftrightarrow> n \<in> (bits b \<inter> {n. n < 64 \<and> bit m n}) \<union> (if pad then {64..<width} else {})"
    proof cases
      case 1
      then have z: "n div 64 = 0" "n mod 64 = n" by simp_all
      show ?thesis using 1 e [of 0] l b'(2) unfolding bits_def mem_Collect_eq z by (auto simp: bit_and_iff)
    next
      case 2
      then have "n div 64 \<noteq> 0" by simp
      then have "bit (buffer b' ! (n div 64)) (n mod 64) \<longleftrightarrow> pad \<and> n < width"
        using e [OF 2(2)] bit_prefix_element [of "n mod 64" width "n div 64"] n by simp
      then show ?thesis using 2 b'(2) by (simp add: bits_def)
    next
      case 3
      then have "\<not> n < width" using index_in_array [of n width] by blast
      with 3 b'(2) show ?thesis by (simp add: bits_def)
    qed
  qed
  have "bits b' \<subseteq> {..<width}" using assms by (auto simp: bits Bitmap_inv_def split: if_splits)
  with b' bits assms that show ?thesis by (auto simp: Bitmap_inv_def)
qed

subsection \<open>Counting\<close>

lemma bits_decompose:
  "bits b = (\<Union>j < length (buffer b). (\<lambda>k. 64 * j + k) ` {k. bit (buffer b ! j) k})"
proof (intro set_eqI iffI)
  fix n assume "n \<in> bits b"
  then have "n div 64 < length (buffer b)" "bit (buffer b ! (n div 64)) (n mod 64)"
    by (simp_all add: bits_def)
  moreover have "n = 64 * (n div 64) + n mod 64" by simp
  ultimately show "n \<in> (\<Union>j < length (buffer b). (\<lambda>k. 64 * j + k) ` {k. bit (buffer b ! j) k})"
    by blast
next
  fix n assume "n \<in> (\<Union>j < length (buffer b). (\<lambda>k. 64 * j + k) ` {k. bit (buffer b ! j) k})"
  then obtain j k where jk: "j < length (buffer b)" "bit (buffer b ! j) k" "n = 64 * j + k" by blast
  then have "k < 64" using bit_imp_le_length by fastforce
  with jk show "n \<in> bits b" by (simp add: bits_def)
qed

lemma finite_word_bits: "finite {k. bit (x :: ulonglong) k}"
  by (rule finite_subset [of _ "{..<64}"]) (auto dest: bit_imp_le_length)

lemma card_bits: "card (bits b) = (\<Sum>j < length (buffer b). card {k. bit (buffer b ! j) k})"
proof -
  define S where "S j = (\<lambda>k. 64 * j + k) ` {k. bit (buffer b ! j) k}" for j
  have dv: "x div 64 = j" if "x \<in> S j" for x j
  proof -
    from that obtain k where "bit (buffer b ! j) k" "x = 64 * j + k" by (auto simp: S_def)
    moreover from this have "k < 64" using bit_imp_le_length by fastforce
    ultimately show ?thesis by simp
  qed
  have "S i \<inter> S j = {}" if "i \<noteq> j" for i j
    by (rule equals0I) (metis IntD1 IntD2 dv that)
  then have "card (\<Union>j < length (buffer b). S j) = (\<Sum>j < length (buffer b). card (S j))"
    by (intro card_UN_disjoint) (auto simp: finite_word_bits S_def)
  then show ?thesis by (simp add: bits_decompose S_def card_image inj_on_def)
qed

lemma bits_set_loop_sum:
  "k \<le> length buf \<Longrightarrow> i \<le> k \<Longrightarrow>
   bits_set_loop k buf i res = Some (res + (\<Sum>j = i..<k. my_count_bits (buf ! j)))"
proof (induction k buf i res rule: bits_set_loop.induct)
  case (1 k buf i res)
  then show ?case
    by (subst bits_set_loop.simps) (auto simp: sum.atLeast_Suc_lessThan add.assoc)
qed

lemma bits_set_card:
  assumes "Bitmap_inv width b" "width < 2 ^ 32"
  shows "\<exists>r. bits_set width b = Some r \<and> unat r = card (bits b)"
proof -
  have l: "length (buffer b) = ARRAY_ELEMENTS width" using assms by (simp add: inv_length)
  define T where "T k = (\<Sum>j = 0..<k. my_count_bits (buffer b ! j))" for k
  define C where "C k = (\<Sum>j < k. card {i. bit (buffer b ! j) i})" for k
  have "card (bits b) \<le> card {..<width}"
    using assms(1) by (intro card_mono) (auto simp: Bitmap_inv_def)
  then have total: "C (ARRAY_ELEMENTS width) < 2 ^ 32"
    using assms(2) card_bits [of b] l by (simp add: C_def)
  have "k \<le> ARRAY_ELEMENTS width \<Longrightarrow> unat (T k) = C k" for k
  proof (induction k)
    case (Suc k)
    have "C (Suc k) \<le> C (ARRAY_ELEMENTS width)"
      unfolding C_def by (rule sum_mono2) (use Suc.prems in auto)
    then have "C k + card {i. bit (buffer b ! k) i} < 2 ^ 32"
      using total by (simp add: C_def)
    then have "unat (T k + my_count_bits (buffer b ! k)) = C k + card {i. bit (buffer b ! k) i}"
      using Suc by (simp add: unat_word_ariths my_count_bits_card_aux)
    then show ?case by (simp add: T_def C_def)
  qed (simp_all add: T_def C_def)
  then have "unat (T (ARRAY_ELEMENTS width)) = card (bits b)"
    using card_bits [of b] l by (simp add: C_def)
  moreover have "bits_set width b = Some (T (ARRAY_ELEMENTS width))"
    by (simp add: bits_set_def bits_set_loop_sum l T_def)
  ultimately show ?thesis by blast
qed

subsection \<open>The iterator\<close>

definition remaining :: "Bitmap \<Rightarrow> Iterator \<Rightarrow> nat set" where
  "remaining b it = (\<lambda>k. offset it + k) ` {k. bit (bmp (tmi it)) k} \<union> {n \<in> bits b. offset it + 64 \<le> n}"

definition it_inv :: "nat \<Rightarrow> Bitmap \<Rightarrow> Iterator \<Rightarrow> bool" where
  "it_inv width b it \<longleftrightarrow> 64 dvd offset it \<and> offset it < width \<and>
     (\<forall>k. bit (bmp (tmi it)) k \<longrightarrow> offset it + k \<in> bits b)"

lemma remaining_subset: "it_inv width b it \<Longrightarrow> remaining b it \<subseteq> bits b"
  by (auto simp: it_inv_def remaining_def)

lemma next_bit_nonzero:
  assumes "bmp t \<noteq> 0"
  obtains k where "next_bit t = Some (k, t\<lparr>bmp := bmp t AND NOT (push_bit k 1)\<rparr>)" "k < 64" "bit (bmp t) k"
    "\<And>i. i < k \<Longrightarrow> \<not> bit (bmp t) i"
proof -
  from my_find_first_bit_finds [OF assms] obtain k where
    "my_find_first_bit (bmp t) = Some k" "k < 64" "bit (bmp t) k" "\<And>i. i < k \<Longrightarrow> \<not> bit (bmp t) i" by blast
  with assms that show ?thesis by (simp add: next_bit_def shl_1ULL_def)
qed

lemma clear_lowest_bits:
  fixes x :: ulonglong
  shows "{i. bit (x AND NOT (push_bit k 1)) i} = {i. bit x i} - {k}"
proof (rule set_eqI)
  fix i
  have "bit x i \<Longrightarrow> i < 64" using bit_imp_le_length by fastforce
  then show "i \<in> {i. bit (x AND NOT (push_bit k 1)) i} \<longleftrightarrow> i \<in> {i. bit x i} - {k}"
    by (auto simp: bit_and_iff bit_not_word_iff bit_simps)
qed

lemma remaining_step:
  assumes "bit (bmp (tmi it)) k" "\<And>i. i < k \<Longrightarrow> \<not> bit (bmp (tmi it)) i"
    and "it' = it\<lparr>tmi := (tmi it)\<lparr>bmp := bmp (tmi it) AND NOT (push_bit k 1)\<rparr>\<rparr>"
  shows "Min (remaining b it) = offset it + k" "remaining b it' = remaining b it - {offset it + k}"
proof -
  have k: "k < 64" using assms(1) bit_imp_le_length by fastforce
  have m: "offset it + k \<in> remaining b it" using assms(1) by (auto simp: remaining_def)
  have le: "offset it + k \<le> n" if "n \<in> remaining b it" for n
  proof -
    have "k \<le> i" if "bit (bmp (tmi it)) i" for i using that assms(2) not_le by blast
    with that k show ?thesis by (auto simp: remaining_def)
  qed
  have "finite (remaining b it)"
    using finite_word_bits by (auto simp: remaining_def bits_decompose)
  with m le show "Min (remaining b it) = offset it + k" by (intro Min_eqI) auto
  show "remaining b it' = remaining b it - {offset it + k}"
  proof -
    have "{i. bit (bmp (tmi it')) i} = {i. bit (bmp (tmi it)) i} - {k}"
      using clear_lowest_bits [of "bmp (tmi it)" k] by (simp only: assms(3)) simp
    moreover have "offset it' = offset it" by (simp add: assms(3))
    moreover have "(\<lambda>i. offset it + i) ` (A - {k}) = (\<lambda>i. offset it + i) ` A - {offset it + k}" for A by auto
    moreover have "{n \<in> bits b. offset it + 64 \<le> n} - {offset it + k} = {n \<in> bits b. offset it + 64 \<le> n}"
      using k by auto
    ultimately show ?thesis unfolding remaining_def by (simp only: Un_Diff)
  qed
qed

text \<open>An empty element: the remaining set does not change when the iterator moves to the next one.\<close>

lemma remaining_next_element:
  assumes "64 dvd offset it" "bmp (tmi it) = 0" "e = buffer b ! ((offset it + 64) div 64)"
    and "(offset it + 64) div 64 < length (buffer b)"
  shows "remaining b (it\<lparr>offset := offset it + 64, tmi := \<lparr>bmp = e\<rparr>\<rparr>) = remaining b it"
    and "\<And>k. bit e k \<Longrightarrow> offset it + 64 + k \<in> bits b"
proof -
  obtain q where q: "offset it = 64 * q" using assms(1) by blast
  have d: "(64 * q + 64) div 64 = Suc q" by simp
  have e: "e = buffer b ! Suc q" "Suc q < length (buffer b)" using assms(3,4) unfolding q d by simp_all
  have mem: "64 * Suc q + k \<in> bits b \<longleftrightarrow> bit e k" if "k < 64" for k
    using e that by (simp add: nth_bit_bits)
  show m2: "offset it + 64 + k \<in> bits b" if "bit e k" for k
    using that mem [of k] bit_imp_le_length [of e k] by (simp add: q ac_simps)
  have "n \<in> (\<lambda>k. 64 * Suc q + k) ` {k. bit e k} \<or> 64 * Suc q + 64 \<le> n"
    if n: "n \<in> bits b" "64 * Suc q \<le> n" for n
  proof (cases "n < 64 * Suc q + 64")
    case True
    then obtain k where k: "n = 64 * Suc q + k" "k < 64"
      using n(2) by (metis add_less_cancel_left le_Suc_ex)
    with mem [of k] n(1) show ?thesis by auto
  qed simp
  with m2 show "remaining b (it\<lparr>offset := offset it + 64, tmi := \<lparr>bmp = e\<rparr>\<rparr>) = remaining b it"
    using assms(2) by (auto simp: remaining_def q ac_simps)
qed

lemma Iterator_next_spec:
  assumes "Bitmap_inv width b" "it_inv width b it"
  shows "if remaining b it = {} then \<exists>it'. Iterator_next width b it = Some (width, it')
     else \<exists>it'. Iterator_next width b it = Some (Min (remaining b it), it') \<and> it_inv width b it' \<and>
            remaining b it' = remaining b it - {Min (remaining b it)}"
  using assms
proof (induction width b it rule: Iterator_next.induct)
  case (1 width b it)
  show ?case
  proof (cases "bmp (tmi it) = 0")
    case False
    from next_bit_nonzero [OF this] obtain k where
      k: "next_bit (tmi it) = Some (k, (tmi it)\<lparr>bmp := bmp (tmi it) AND NOT (push_bit k 1)\<rparr>)" "k < 64"
      "bit (bmp (tmi it)) k" "\<And>i. i < k \<Longrightarrow> \<not> bit (bmp (tmi it)) i" by blast
    let ?it = "it\<lparr>tmi := (tmi it)\<lparr>bmp := bmp (tmi it) AND NOT (push_bit k 1)\<rparr>\<rparr>"
    note st = remaining_step [OF k(3,4) refl, of b]
    have "Iterator_next width b it = Some (offset it + k, ?it)"
      using k by (subst Iterator_next.simps) (simp add: TMI_BITMAP_END_def)
    moreover have "it_inv width b ?it" using 1(3) by (auto simp: it_inv_def bit_and_iff)
    moreover have "remaining b it \<noteq> {}" using k(3) by (auto simp: remaining_def)
    ultimately show ?thesis using st by simp
  next
    case True
    then have nb: "next_bit (tmi it) = Some (64, tmi it)" by (simp add: next_bit_def TMI_BITMAP_END_def)
    show ?thesis
    proof (cases "width \<le> offset it + 64")
      case True
      have "remaining b it = {}"
        using True 1(2) \<open>bmp (tmi it) = 0\<close> by (auto simp: remaining_def Bitmap_inv_def)
      moreover have "Iterator_next width b it = Some (width, it)"
        using True nb by (subst Iterator_next.simps)
          (simp add: TMI_BITMAP_END_def Bitmap_length_def BITS_PER_ELEMENT_def)
      ultimately show ?thesis by simp
    next
      case False
      let ?e = "buffer b ! ((offset it + 64) div 64)"
      let ?it = "it\<lparr>offset := offset it + 64, tmi := \<lparr>bmp = ?e\<rparr>\<rparr>"
      have l: "(offset it + 64) div 64 < length (buffer b)"
        using False 1(2) index_in_array [of "offset it + 64" width] by (simp add: Bitmap_inv_def)
      have dv: "64 dvd offset it" using 1(3) by (simp add: it_inv_def)
      note ne = remaining_next_element [OF dv True refl l]
      have step: "Iterator_next width b it = Iterator_next width b ?it"
        using False nb l by (subst Iterator_next.simps)
          (simp add: TMI_BITMAP_END_def Bitmap_length_def BITS_PER_ELEMENT_def)
      have "it_inv width b ?it" using False dv ne(2) by (simp add: it_inv_def)
      then show ?thesis
        using 1(1) [OF nb refl, unfolded TMI_BITMAP_END_def Bitmap_length_def BITS_PER_ELEMENT_def, of ?e]
          1(2) False l unfolding step by (simp only: ne(1) arr_get_Some) simp
    qed
  qed
qed

lemma Iterator_collect_spec:
  assumes "Bitmap_inv width b" "it_inv width b it" "card (remaining b it) < fuel"
  shows "Iterator_collect fuel width b it = Some (sorted_list_of_set (remaining b it))"
  using assms
proof (induction fuel arbitrary: it)
  case (Suc fuel)
  note spec = Iterator_next_spec [OF Suc.prems(1,2)]
  have fin: "finite (remaining b it)"
    using finite_word_bits by (auto simp: remaining_def bits_decompose)
  show ?case
  proof (cases "remaining b it = {}")
    case False
    with spec obtain it' where it': "Iterator_next width b it = Some (Min (remaining b it), it')"
      "it_inv width b it'" "remaining b it' = remaining b it - {Min (remaining b it)}" by auto
    have m: "Min (remaining b it) \<in> remaining b it" using fin False by simp
    then have "Min (remaining b it) \<noteq> width"
      using remaining_subset [OF Suc.prems(2)] Suc.prems(1) by (auto simp: Bitmap_inv_def)
    moreover have "card (remaining b it') < fuel"
      using Suc.prems(3) it'(3) card_Diff1_less [OF fin m] by simp
    ultimately show ?thesis
      using Suc.IH [OF Suc.prems(1) it'(2)] it' fin False
      by (simp add: sorted_list_of_set_nonempty)
  qed (use spec in auto)
qed simp

lemma Iterator_init_spec:
  assumes "Bitmap_inv width b"
  obtains it where "Iterator_init b = Some it" "it_inv width b it" "remaining b it = bits b"
proof -
  have l: "0 < length (buffer b)" "0 < width" using assms by (auto simp: Bitmap_inv_def geom)
  let ?it = "\<lparr>offset = 0, tmi = \<lparr>bmp = buffer b ! 0\<rparr>\<rparr>"
  have mem: "bit (buffer b ! 0) k \<Longrightarrow> k \<in> bits b" for k
    using l nth_bit_bits [of 0 b k] bit_imp_le_length [of "buffer b ! 0" k] by simp
  have low: "n \<in> bits b \<Longrightarrow> n < 64 \<Longrightarrow> bit (buffer b ! 0) n" for n
    using l nth_bit_bits [of 0 b n] by simp
  have "n \<in> remaining b ?it \<longleftrightarrow> n \<in> bits b" for n
    using mem [of n] low [of n] by (cases "n < 64") (auto simp: remaining_def)
  then have "remaining b ?it = bits b" by blast
  moreover have "it_inv width b ?it" using mem l by (simp add: it_inv_def)
  ultimately show ?thesis using that [of ?it] l by (simp add: Iterator_init_def)
qed

subsection \<open>The bit set contract\<close>

interpretation bm: bit_set width "Bitmap_inv width" "is_set width" "Bitmap_set_bit width" "clear_bit width"
  for width
proof
  fix b n
  assume a: "Bitmap_inv width b" "n < width"
  then show "is_set width b n \<noteq> None" by (simp add: is_set_bits)
  from set_bit_bits [OF a] obtain b' where "Bitmap_set_bit width b n = Some b'" "Bitmap_inv width b'"
    "bits b' = insert n (bits b)" by blast
  with a show "\<exists>b'. Bitmap_set_bit width b n = Some b' \<and> Bitmap_inv width b' \<and>
      (\<forall>m. m < width \<longrightarrow> is_set width b' m = (if m = n then Some True else is_set width b m))"
    by (auto simp: is_set_bits)
  from clear_bit_bits [OF a] obtain b' where "clear_bit width b n = Some b'" "Bitmap_inv width b'"
    "bits b' = bits b - {n}" by blast
  with a show "\<exists>b'. clear_bit width b n = Some b' \<and> Bitmap_inv width b' \<and>
      (\<forall>m. m < width \<longrightarrow> is_set width b' m = (if m = n then Some False else is_set width b m))"
    by (auto simp: is_set_bits)
qed

lemma bm_members: "Bitmap_inv width b \<Longrightarrow> bm.members width b = bits b"
  using is_set_bits [of width b] by (auto simp: bm.members_def Bitmap_inv_def)

lemma print_digits_undefined:
  "2 \<le> j \<Longrightarrow> print_digits dv num 60 pos j out = None"
proof -
  assume "2 \<le> j"
  then obtain i where "j = Suc (Suc i)" by (metis Suc_le_D numeral_2_eq_2 Suc_le_mono)
  then show ?thesis by (cases "arr_set out pos (dv (unat (drop_bit 60 num AND 15)))") simp_all
qed

lemma print_last_pos:
  "0 < j \<Longrightarrow> j \<le> k \<Longrightarrow> buf ! j \<noteq> 0 \<Longrightarrow> 0 < print_last buf k"
  by (induction k) (auto simp: le_Suc_eq)

subsection \<open>Properties\<close>

text \<open>
  C9. The bitmap operations are the operations of sets: on bitmaps of the same width that satisfy the
  invariant, \<open>merge\<close>, \<open>intersect\<close> and \<open>subtract\<close> are union, intersection and difference and keep
  the invariant, and the tests are inclusion, overlap, equality and emptiness.
\<close>

theorem Bitmap_set_algebra:
  assumes "Bitmap_inv width b" "Bitmap_inv width c"
  shows "(\<exists>r. merge width b c = Some r \<and> Bitmap_inv width r \<and> bits r = bits b \<union> bits c) \<and>
    (\<exists>r. intersect width b c = Some r \<and> Bitmap_inv width r \<and> bits r = bits b \<inter> bits c) \<and>
    (\<exists>r. subtract width b c = Some r \<and> Bitmap_inv width r \<and> bits r = bits b - bits c) \<and>
    is_subset width b c = Some (bits b \<subseteq> bits c) \<and>
    is_overlapping width b c = Some (bits b \<inter> bits c \<noteq> {}) \<and>
    Bitmap_eq width b c = Some (bits b = bits c) \<and>
    Bitmap_neq width b c = Some (bits b \<noteq> bits c) \<and>
    is_clear_all width b = Some (bits b = {})"
proof (intro conjI)
  show "\<exists>r. merge width b c = Some r \<and> Bitmap_inv width r \<and> bits r = bits b \<union> bits c"
    using merge_bits [OF assms] by metis
  show "\<exists>r. intersect width b c = Some r \<and> Bitmap_inv width r \<and> bits r = bits b \<inter> bits c"
    using intersect_bits [OF assms] by metis
  show "\<exists>r. subtract width b c = Some r \<and> Bitmap_inv width r \<and> bits r = bits b - bits c"
    using subtract_bits [OF assms] by metis
qed (simp_all add: Bitmap_neq_def is_subset_bits [OF assms] is_overlapping_bits [OF assms]
       Bitmap_eq_bits [OF assms] is_clear_all_bits [OF assms(1)])

theorem Bitmap_set_algebra_witness:
  "is_subset 70 \<lparr>buffer = [5, 1]\<rparr> \<lparr>buffer = [7, 33]\<rparr> = Some (bits \<lparr>buffer = [5, 1]\<rparr> \<subseteq> bits \<lparr>buffer = [7, 33]\<rparr>)"
proof -
  have inv: "Bitmap_inv 70 \<lparr>buffer = [x, y]\<rparr>" if "drop_bit 6 y = 0" for x y
  proof -
    have "n < 70" if "n \<in> bits \<lparr>buffer = [x, y]\<rparr>" for n
    proof (rule ccontr)
      assume "\<not> n < 70"
      moreover have "n div 64 < 2" using that by (simp add: bits_def)
      moreover have "n = 64 * (n div 64) + n mod 64" by simp
      ultimately have "n div 64 = 1" "6 \<le> n mod 64" by linarith+
      with that have "bit (drop_bit 6 y) (n mod 64 - 6)" by (simp add: bits_def bit_drop_bit_eq)
      with \<open>drop_bit 6 y = 0\<close> show False by simp
    qed
    then show ?thesis by (auto simp: Bitmap_inv_def ARRAY_ELEMENTS_def BITS_PER_ELEMENT_def)
  qed
  have "Bitmap_inv 70 \<lparr>buffer = [5, 1]\<rparr>" "Bitmap_inv 70 \<lparr>buffer = [7, 33]\<rparr>"
    by (rule inv, simp)+
  then show ?thesis using Bitmap_set_algebra by blast
qed

text \<open>
  The initialising operations accept an array with arbitrary contents: \<open>set_prefix\<close> (and with it
  the constructor and \<open>init\<close>) gives the numbers below the prefix, cut off at the width, \<open>set_all\<close> all
  numbers below the width and \<open>clear_all\<close> none, each with the invariant; setting then a list of bits
  adds exactly these.
\<close>

theorem Bitmap_initialise:
  assumes "length (buffer b) = ARRAY_ELEMENTS width" "0 < width" "set ns \<subseteq> {..<width}"
  shows "(\<exists>r. Bitmap_init width b p = Some r \<and> Bitmap_inv width r \<and> bits r = {..<min p width} \<and>
      is_prefix width r (min p width) = Some True) \<and>
    (\<exists>r. set_all width b = Some r \<and> Bitmap_inv width r \<and> bits r = {..<width}) \<and>
    (\<exists>r r'. clear_all width b = Some r \<and> Bitmap_inv width r \<and> bits r = {} \<and>
      foldM (Bitmap_set_bit width) ns r = Some r' \<and> Bitmap_inv width r' \<and> bits r' = set ns)"
proof (intro conjI)
  show "\<exists>r. Bitmap_init width b p = Some r \<and> Bitmap_inv width r \<and> bits r = {..<min p width} \<and>
      is_prefix width r (min p width) = Some True"
    by (rule set_prefix_bits [OF assms(1,2), of p]) (auto simp: Bitmap_init_def is_prefix_bits)
  show "\<exists>r. set_all width b = Some r \<and> Bitmap_inv width r \<and> bits r = {..<width}"
    using set_all_bits [OF assms(1,2)] by metis
  obtain r where r: "clear_all width b = Some r" "Bitmap_inv width r" "bits r = {}"
    using clear_all_bits [OF assms(1,2)] by metis
  with bm.set_bits_members [OF r(2) assms(3)]
  show "\<exists>r r'. clear_all width b = Some r \<and> Bitmap_inv width r \<and> bits r = {} \<and>
      foldM (Bitmap_set_bit width) ns r = Some r' \<and> Bitmap_inv width r' \<and> bits r' = set ns"
    by (auto simp: bm_members)
qed

theorem Bitmap_initialise_witness:
  "\<exists>r. set_all 70 \<lparr>buffer = [12345, 678]\<rparr> = Some r \<and> Bitmap_inv 70 r \<and> bits r = {..<70}"
  using Bitmap_initialise [of "\<lparr>buffer = [12345, 678]\<rparr>" 70 "[3, 65]"]
  by (simp add: ARRAY_ELEMENTS_def BITS_PER_ELEMENT_def)

text \<open>
  Stepping a fresh iterator until its end marker terminates within one step more than the width
  and yields the elements of the bitmap, each once and in increasing order.
\<close>

theorem Iterator_enumerates:
  assumes "Bitmap_inv width b"
  shows "Option.bind (Iterator_init b) (Iterator_collect (Suc width) width b)
    = Some (sorted_list_of_set (bits b))"
proof -
  obtain it where it: "Iterator_init b = Some it" "it_inv width b it" "remaining b it = bits b"
    using Iterator_init_spec [OF assms] by blast
  have "card (bits b) \<le> card {..<width}"
    using assms by (intro card_mono) (auto simp: Bitmap_inv_def)
  then show ?thesis using Iterator_collect_spec [OF assms it(2), of "Suc width"] it by simp
qed

theorem Iterator_enumerates_witness:
  "\<exists>b. Bitmap_init 70 \<lparr>buffer = [0, 0]\<rparr> 67 = Some b \<and>
     Option.bind (Iterator_init b) (Iterator_collect 71 70 b) = Some (sorted_list_of_set {..<67})"
proof -
  obtain b where b: "set_prefix 70 \<lparr>buffer = [0, 0]\<rparr> 67 = Some b" "Bitmap_inv 70 b" "bits b = {..<67}"
    by (rule set_prefix_bits [of "\<lparr>buffer = [0, 0]\<rparr>" 70 67]) (simp_all add: ARRAY_ELEMENTS_def BITS_PER_ELEMENT_def)
  with Iterator_enumerates [OF b(2)] show ?thesis by (simp add: Bitmap_init_def)
qed

text \<open>
  \<open>bits_set\<close> is the number of elements of the set, without wrap-around for every width a \<open>uint\<close>
  can hold.
\<close>

theorem bits_set_counts:
  assumes "Bitmap_inv width b" "width < 2 ^ 32"
  shows "map_option unat (bits_set width b) = Some (card (bits b))"
  using bits_set_card [OF assms] by auto

theorem bits_set_counts_witness:
  "\<exists>b. Bitmap_init 70 \<lparr>buffer = [0, 0]\<rparr> 67 = Some b \<and> map_option unat (bits_set 70 b) = Some 67"
proof -
  obtain b where b: "set_prefix 70 \<lparr>buffer = [0, 0]\<rparr> 67 = Some b" "Bitmap_inv 70 b" "bits b = {..<67}"
    by (rule set_prefix_bits [of "\<lparr>buffer = [0, 0]\<rparr>" 70 67]) (simp_all add: ARRAY_ELEMENTS_def BITS_PER_ELEMENT_def)
  with bits_set_counts [OF b(2)] show ?thesis by (simp add: Bitmap_init_def)
qed

text \<open>
  \<open>print\<close> has no defined result for a bitmap with an element from 64 on: the loop over the digits
  increases the shift count, which starts at 60, so the second digit shifts by the width of the
  operand.
\<close>

theorem Bitmap_print_undefined:
  assumes "Bitmap_inv width b" "n \<in> bits b" "64 \<le> n"
  shows "Bitmap_print dig_vec_upper longlong2str width b out = None"
proof -
  have n: "n div 64 < ARRAY_ELEMENTS width" "0 < n div 64" "buffer b ! (n div 64) \<noteq> 0"
    using assms by (auto simp: bits_def inv_length)
  let ?last = "print_last (buffer b) (ARRAY_ELEMENTS width - 1)"
  have "0 < ?last" using n by (intro print_last_pos [of "n div 64"]) auto
  then obtain e es where "take ?last (buffer b) = e # es"
    using n(1) inv_length [OF assms(1)] by (cases "take ?last (buffer b)") auto
  then show ?thesis
    using print_digits_undefined [of 16]
    by (simp add: Bitmap_print_def Let_def BITS_PER_ELEMENT_def)
qed

theorem Bitmap_print_undefined_witness:
  "\<exists>b. Bitmap_init 70 \<lparr>buffer = [0, 0]\<rparr> 67 = Some b \<and>
     Bitmap_print (\<lambda>_. CHR ''0'') (\<lambda>_ s. s) 70 b (replicate 40 CHR '' '') = None"
proof -
  obtain b where b: "set_prefix 70 \<lparr>buffer = [0, 0]\<rparr> 67 = Some b" "Bitmap_inv 70 b" "bits b = {..<67}"
    by (rule set_prefix_bits [of "\<lparr>buffer = [0, 0]\<rparr>" 70 67]) (simp_all add: ARRAY_ELEMENTS_def BITS_PER_ELEMENT_def)
  with Bitmap_print_undefined [OF b(2), of 66] show ?thesis by (simp add: Bitmap_init_def)
qed

end
