(* ===== verification/MyBitmap.thy ===== *)
theory MyBitmap
  imports ByteOrder BitSetInterface
begin

text \<open>
  \<open>my_bitmap.h\<close>: the bitmaps of the storage engine interface. The inline functions address the words
  of the bitmap byte by byte, so the memory behind \<open>bitmap\<close> is a list of bytes (\<^term>\<open>None\<close>: the null
  pointer); \<open>last_word_ptr\<close> is the byte offset it has in that memory, and the words are little-endian
  as on the x86 targets. The mutex only serves functions that are not in the header. An access
  outside the memory is \<^term>\<open>None\<close>.
\<close>

record MY_BITMAP =
  bitmap :: "bytes option"
  last_word_ptr :: nat
  last_word_mask :: uint32
  n_bits :: uint32

subsection \<open>Sizes\<close>

definition bitmap_buffer_size :: "uint32 \<Rightarrow> uint32" where
  "bitmap_buffer_size bits = ((bits + 31) div 32) * 4"

definition no_bytes_in_map :: "MY_BITMAP \<Rightarrow> uint32" where
  "no_bytes_in_map mp = (n_bits mp + 7) div 8"

definition no_words_in_map :: "MY_BITMAP \<Rightarrow> uint32" where
  "no_words_in_map mp = (n_bits mp + 31) div 32"

definition bytes_word_aligned :: "uint32 \<Rightarrow> uint32" where
  "bytes_word_aligned bytes = 4 * ((bytes + 3) div 4)"

subsection \<open>Operations\<close>

definition my_bitmap_clear :: "MY_BITMAP \<Rightarrow> MY_BITMAP" where
  "my_bitmap_clear mp = mp\<lparr>bitmap := None\<rparr>"

definition bitmap_set_bit :: "MY_BITMAP \<Rightarrow> nat \<Rightarrow> MY_BITMAP option" where
  "bitmap_set_bit mp n =
     Option.bind (bitmap mp) (\<lambda>mem.
     Option.bind (arr_get mem (n div 8)) (\<lambda>b.
     map_option (\<lambda>mem'. mp\<lparr>bitmap := Some mem'\<rparr>) (arr_set mem (n div 8) (b OR push_bit (n mod 8) 1))))"

definition bitmap_flip_bit :: "MY_BITMAP \<Rightarrow> nat \<Rightarrow> MY_BITMAP option" where
  "bitmap_flip_bit mp n =
     Option.bind (bitmap mp) (\<lambda>mem.
     Option.bind (arr_get mem (n div 8)) (\<lambda>b.
     map_option (\<lambda>mem'. mp\<lparr>bitmap := Some mem'\<rparr>) (arr_set mem (n div 8) (b XOR push_bit (n mod 8) 1))))"

definition bitmap_clear_bit :: "MY_BITMAP \<Rightarrow> nat \<Rightarrow> MY_BITMAP option" where
  "bitmap_clear_bit mp n =
     Option.bind (bitmap mp) (\<lambda>mem.
     Option.bind (arr_get mem (n div 8)) (\<lambda>b.
     map_option (\<lambda>mem'. mp\<lparr>bitmap := Some mem'\<rparr>)
       (arr_set mem (n div 8) (b AND NOT (push_bit (n mod 8) 1)))))"

definition bitmap_is_set :: "MY_BITMAP \<Rightarrow> nat \<Rightarrow> bool option" where
  "bitmap_is_set mp n =
     Option.bind (bitmap mp) (\<lambda>mem.
     Option.bind (arr_get mem (n div 8)) (\<lambda>b. Some (b AND push_bit (n mod 8) 1 \<noteq> 0)))"

text \<open>The \<open>memcmp\<close> length \<open>4*(no_words_in_map(map1)-1)\<close> is computed in 32 bits.\<close>

definition bitmap_cmp :: "MY_BITMAP \<Rightarrow> MY_BITMAP \<Rightarrow> bool option" where
  "bitmap_cmp map1 map_2 =
     Option.bind (bitmap map1) (\<lambda>m1. Option.bind (bitmap map_2) (\<lambda>m2.
     let len = unat (4 * (no_words_in_map map1 - 1)) in
     Option.bind (arr_slice m1 0 len) (\<lambda>s1. Option.bind (arr_slice m2 0 len) (\<lambda>s2.
       if s1 \<noteq> s2 then Some False
       else Option.bind (x86_load 4 m1 (last_word_ptr map1)) (\<lambda>w1.
            Option.bind (x86_load 4 m2 (last_word_ptr map_2)) (\<lambda>w2.
              Some (w1 OR last_word_mask map1 = w2 OR last_word_mask map_2)))))))"

definition bitmap_memset :: "uchar \<Rightarrow> MY_BITMAP \<Rightarrow> MY_BITMAP option" where
  "bitmap_memset v mp =
     Option.bind (bitmap mp) (\<lambda>mem.
     map_option (\<lambda>mem'. mp\<lparr>bitmap := Some mem'\<rparr>)
       (arr_blit mem 0 (replicate (unat (4 * no_words_in_map mp)) v)))"

definition bitmap_clear_all :: "MY_BITMAP \<Rightarrow> MY_BITMAP option" where
  "bitmap_clear_all mp = bitmap_memset 0 mp"

definition bitmap_set_all :: "MY_BITMAP \<Rightarrow> MY_BITMAP option" where
  "bitmap_set_all mp = bitmap_memset 0xFF mp"

subsection \<open>Invariant\<close>

text \<open>
  What \<open>my_bitmap_init\<close> and \<open>create_last_word_mask\<close> of \<open>mysys\<close> establish for a bitmap of \<open>n\<close> bits: the
  memory holds \<open>n\<close> bits rounded up to words, \<open>last_word_ptr\<close> addresses the last word and the mask has
  the bits of that word that are beyond \<open>n\<close>.
\<close>

definition words_for :: "nat \<Rightarrow> nat" where
  "words_for n = (n + 31) div 32"

definition MY_BITMAP_inv :: "nat \<Rightarrow> MY_BITMAP \<Rightarrow> bool" where
  "MY_BITMAP_inv n mp \<longleftrightarrow> 0 < n \<and> n + 31 < 2 ^ 32 \<and> n_bits mp = of_nat n \<and>
     (\<exists>mem. bitmap mp = Some mem \<and> length mem = 4 * words_for n) \<and>
     last_word_ptr mp = 4 * (words_for n - 1) \<and>
     (\<forall>k < 32. bit (last_word_mask mp) k \<longleftrightarrow> n \<le> 32 * (words_for n - 1) + k)"

definition elems :: "nat \<Rightarrow> MY_BITMAP \<Rightarrow> nat set" where
  "elems n mp = {i. i < n \<and> bitmap_is_set mp i = Some True}"

lemma words_for_bounds: "0 < n \<Longrightarrow> 0 < words_for n" "n \<le> 32 * words_for n" "0 < n \<Longrightarrow> 32 * (words_for n - 1) < n"
  by (auto simp: words_for_def)

lemma byte_in_map: "i < n \<Longrightarrow> i div 8 < 4 * words_for n"
  using words_for_bounds(2) [of n] by linarith

lemma unat_no_words:
  assumes "MY_BITMAP_inv n mp"
  shows "unat (no_words_in_map mp) = words_for n"
    "unat (4 * no_words_in_map mp) = 4 * words_for n" "unat (4 * (no_words_in_map mp - 1)) = 4 * (words_for n - 1)"
proof -
  have n: "0 < n" "n + 31 < 2 ^ 32" "n_bits mp = of_nat n" using assms by (auto simp: MY_BITMAP_inv_def)
  have "unat (of_nat n + 31 :: uint32) = n + 31"
    using n(2) by (simp add: unat_word_ariths unat_of_nat)
  then show w: "unat (no_words_in_map mp) = words_for n"
    by (simp add: no_words_in_map_def n(3) words_for_def unat_div)
  have b: "4 * words_for n < 2 ^ 32" using n(2) by (simp add: words_for_def)
  then show "unat (4 * no_words_in_map mp) = 4 * words_for n"
    by (simp add: unat_word_ariths w)
  have d: "unat (no_words_in_map mp - 1) = words_for n - 1"
    using w words_for_bounds(1) [OF n(1)] by (simp add: unat_sub word_le_nat_alt)
  have mul: "unat (4 * y) = 4 * unat y" if "4 * unat y < 2 ^ 32" for y :: uint32
    using that by (simp add: unat_word_ariths)
  have "4 * unat (no_words_in_map mp - 1) < 2 ^ 32" using b d by simp
  from mul [OF this] show "unat (4 * (no_words_in_map mp - 1)) = 4 * (words_for n - 1)"
    by (simp only: d)
qed

lemma bitmap_is_set_bit:
  assumes "bitmap mp = Some mem" "i div 8 < length mem"
  shows "bitmap_is_set mp i = Some (bit (mem ! (i div 8)) (i mod 8))"
proof -
  have "x AND push_bit k 1 \<noteq> 0 \<longleftrightarrow> bit x k" for x :: uchar and k
    by (metis and_exp_eq_0_iff_not_bit push_bit_of_1)
  with assms show ?thesis by (simp add: bitmap_is_set_def)
qed

lemma split_8: "n div 8 = m div 8 \<and> n mod 8 = m mod 8 \<longleftrightarrow> n = (m :: nat)"
  by (metis div_mult_mod_eq)

lemma bit_push_mod8: "bit (push_bit (n mod 8) (1 :: uchar)) k \<longleftrightarrow> k = n mod 8"
  by (auto simp: bit_simps)

text \<open>A read-modify-write of one byte changes one bit.\<close>

lemma byte_update:
  assumes "MY_BITMAP_inv n mp" "i < n"
    and g: "\<And>b k. k < 8 \<Longrightarrow> bit (g b) k \<longleftrightarrow> (if k = i mod 8 then v (bit b k) else bit b k)"
  obtains r where
    "Option.bind (bitmap mp) (\<lambda>mem. Option.bind (arr_get mem (i div 8)) (\<lambda>b.
       map_option (\<lambda>mem'. mp\<lparr>bitmap := Some mem'\<rparr>) (arr_set mem (i div 8) (g b)))) = Some r"
    "MY_BITMAP_inv n r"
    "\<And>m. m < n \<Longrightarrow> bitmap_is_set r m = (if m = i then map_option v (bitmap_is_set mp m) else bitmap_is_set mp m)"
proof -
  obtain mem where mem: "bitmap mp = Some mem" "length mem = 4 * words_for n"
    using assms(1) by (auto simp: MY_BITMAP_inv_def)
  have l: "i div 8 < length mem" using byte_in_map [OF assms(2)] mem(2) by simp
  let ?r = "mp\<lparr>bitmap := Some (mem[i div 8 := g (mem ! (i div 8))])\<rparr>"
  have r: "bitmap ?r = Some (mem[i div 8 := g (mem ! (i div 8))])" by simp
  have "bitmap_is_set ?r m = (if m = i then map_option v (bitmap_is_set mp m) else bitmap_is_set mp m)"
    if "m < n" for m
  proof -
    have m: "m div 8 < length mem" using byte_in_map [OF that] mem(2) by simp
    have k: "m mod 8 < 8" by simp
    have e: "bitmap_is_set ?r m = Some (bit (mem[i div 8 := g (mem ! (i div 8))] ! (m div 8)) (m mod 8))"
      "bitmap_is_set mp m = Some (bit (mem ! (m div 8)) (m mod 8))"
      using m by (simp_all add: bitmap_is_set_bit [OF mem(1)] bitmap_is_set_bit [OF r])
    show ?thesis
    proof (cases "m div 8 = i div 8")
      case True
      with split_8 [of m i] have "m = i \<longleftrightarrow> m mod 8 = i mod 8" by simp
      with True m show ?thesis unfolding e using g [OF k, of "mem ! (m div 8)"] by simp
    next
      case False
      then have "m \<noteq> i" by auto
      with False show ?thesis unfolding e by simp
    qed
  qed
  moreover have "MY_BITMAP_inv n ?r" using assms(1) mem by (auto simp: MY_BITMAP_inv_def)
  ultimately show ?thesis using that [of ?r] mem l by simp
qed

lemma set_bit_spec:
  assumes "MY_BITMAP_inv n mp" "i < n"
  obtains r where "bitmap_set_bit mp i = Some r" "MY_BITMAP_inv n r"
    "\<And>m. m < n \<Longrightarrow> bitmap_is_set r m = (if m = i then map_option (\<lambda>_. True) (bitmap_is_set mp m) else bitmap_is_set mp m)"
  by (rule byte_update [OF assms, of "\<lambda>b. b OR push_bit (i mod 8) 1" "\<lambda>_. True"])
     (use that in \<open>auto simp only: bitmap_set_bit_def bit_or_iff bit_push_mod8 split: if_splits\<close>)

lemma clear_bit_spec:
  assumes "MY_BITMAP_inv n mp" "i < n"
  obtains r where "bitmap_clear_bit mp i = Some r" "MY_BITMAP_inv n r"
    "\<And>m. m < n \<Longrightarrow> bitmap_is_set r m = (if m = i then map_option (\<lambda>_. False) (bitmap_is_set mp m) else bitmap_is_set mp m)"
  by (rule byte_update [OF assms, of "\<lambda>b. b AND NOT (push_bit (i mod 8) 1)" "\<lambda>_. False"])
     (use that in \<open>auto simp only: bitmap_clear_bit_def bit_and_iff bit_not_word_iff bit_push_mod8 split: if_splits\<close>, simp)

lemma flip_bit_spec:
  assumes "MY_BITMAP_inv n mp" "i < n"
  obtains r where "bitmap_flip_bit mp i = Some r" "MY_BITMAP_inv n r"
    "\<And>m. m < n \<Longrightarrow> bitmap_is_set r m = (if m = i then map_option Not (bitmap_is_set mp m) else bitmap_is_set mp m)"
  by (rule byte_update [OF assms, of "\<lambda>b. b XOR push_bit (i mod 8) 1" Not])
     (use that in \<open>auto simp only: bitmap_flip_bit_def bit_xor_iff bit_push_mod8 split: if_splits\<close>)

subsection \<open>The bit set contract\<close>

lemma is_set_defined:
  assumes "MY_BITMAP_inv n mp" "i < n"
  shows "bitmap_is_set mp i \<noteq> None"
proof -
  obtain mem where mem: "bitmap mp = Some mem" "length mem = 4 * words_for n"
    using assms(1) by (auto simp: MY_BITMAP_inv_def)
  then show ?thesis using byte_in_map [OF assms(2)] by (simp add: bitmap_is_set_bit [OF mem(1)])
qed

interpretation mb: bit_set n "MY_BITMAP_inv n" bitmap_is_set bitmap_set_bit bitmap_clear_bit for n
proof
  fix b i
  assume a: "MY_BITMAP_inv n b" "i < n"
  then show d: "bitmap_is_set b i \<noteq> None" by (rule is_set_defined)
  show "\<exists>b'. bitmap_set_bit b i = Some b' \<and> MY_BITMAP_inv n b' \<and>
      (\<forall>m. m < n \<longrightarrow> bitmap_is_set b' m = (if m = i then Some True else bitmap_is_set b m))"
    by (rule set_bit_spec [OF a]) (use d in auto)
  show "\<exists>b'. bitmap_clear_bit b i = Some b' \<and> MY_BITMAP_inv n b' \<and>
      (\<forall>m. m < n \<longrightarrow> bitmap_is_set b' m = (if m = i then Some False else bitmap_is_set b m))"
    by (rule clear_bit_spec [OF a]) (use d in auto)
qed

lemma mb_members: "mb.members n mp = elems n mp"
  by (simp add: mb.members_def elems_def)

lemma memset_spec:
  assumes "MY_BITMAP_inv n mp"
  obtains r where "bitmap_memset v mp = Some r" "MY_BITMAP_inv n r"
    "\<And>i. i < n \<Longrightarrow> bitmap_is_set r i = Some (bit v (i mod 8))"
proof -
  obtain mem where mem: "bitmap mp = Some mem" "length mem = 4 * words_for n"
    using assms by (auto simp: MY_BITMAP_inv_def)
  let ?r = "mp\<lparr>bitmap := Some (replicate (4 * words_for n) v)\<rparr>"
  have r: "bitmap ?r = Some (replicate (4 * words_for n) v)" by simp
  have "bitmap_memset v mp = Some ?r"
    by (simp add: bitmap_memset_def mem unat_no_words(2) [OF assms] arr_blit_def)
  moreover have "MY_BITMAP_inv n ?r" using assms by (auto simp: MY_BITMAP_inv_def)
  moreover have "bitmap_is_set ?r i = Some (bit v (i mod 8))" if "i < n" for i
    using byte_in_map [OF that] by (simp add: bitmap_is_set_bit [OF r])
  ultimately show ?thesis using that by blast
qed

subsection \<open>Comparison\<close>

lemma take_eq_iff_bits:
  assumes "k \<le> length xs" "k \<le> length (ys :: bytes)"
  shows "take k xs = take k ys \<longleftrightarrow>
    (\<forall>i < 8 * k. bit (xs ! (i div 8)) (i mod 8) \<longleftrightarrow> bit (ys ! (i div 8)) (i mod 8))"
proof
  assume eq: "take k xs = take k ys"
  show "\<forall>i < 8 * k. bit (xs ! (i div 8)) (i mod 8) \<longleftrightarrow> bit (ys ! (i div 8)) (i mod 8)"
  proof (intro allI impI)
    fix i assume "i < 8 * k"
    then have "i div 8 < k" by auto
    with eq have "xs ! (i div 8) = ys ! (i div 8)" by (metis nth_take)
    then show "bit (xs ! (i div 8)) (i mod 8) \<longleftrightarrow> bit (ys ! (i div 8)) (i mod 8)" by simp
  qed
next
  assume b: "\<forall>i < 8 * k. bit (xs ! (i div 8)) (i mod 8) \<longleftrightarrow> bit (ys ! (i div 8)) (i mod 8)"
  have "xs ! j = ys ! j" if "j < k" for j
  proof (rule word_bit_eqI)
    fix m assume "m < LENGTH(8)"
    then have "8 * j + m < 8 * k" "(8 * j + m) div 8 = j" "(8 * j + m) mod 8 = m" using that by auto
    with b show "bit (xs ! j) m = bit (ys ! j) m" by metis
  qed
  then show "take k xs = take k ys" using assms by (intro nth_equalityI) auto
qed

lemma last_word_bit:
  assumes "length mem = 4 * W" "0 < W"
  shows "\<exists>w :: uint32. x86_load 4 mem (4 * (W - 1)) = Some w \<and>
    (\<forall>k < 32. bit w k \<longleftrightarrow> bit (mem ! ((32 * (W - 1) + k) div 8)) ((32 * (W - 1) + k) mod 8))"
proof -
  obtain V where V: "W = Suc V" using assms(2) by (cases W) auto
  have e: "32 * V + k = k + 8 * (4 * V)" for k by simp
  have d: "(32 * V + k) div 8 = 4 * V + k div 8" "(32 * V + k) mod 8 = k mod 8" for k
    using mod_mult_self2 [of k 8 "4 * V"] unfolding e by simp_all
  have i: "k div 8 < 4" if "k < 32" for k :: nat using that by simp
  show ?thesis using assms(1) i unfolding V diff_Suc_1 d
    by (simp add: x86_load_def arr_slice_def bit_le_word add.commute)
qed

lemma bitmap_cmp_elems:
  assumes "MY_BITMAP_inv n m1" "MY_BITMAP_inv n m2"
  shows "bitmap_cmp m1 m2 = Some (elems n m1 = elems n m2)"
proof -
  obtain x where x: "bitmap m1 = Some x" "length x = 4 * words_for n"
    using assms(1) by (auto simp: MY_BITMAP_inv_def)
  obtain y where y: "bitmap m2 = Some y" "length y = 4 * words_for n"
    using assms(2) by (auto simp: MY_BITMAP_inv_def)
  have n: "0 < n" using assms(1) by (simp add: MY_BITMAP_inv_def)
  define W where "W = words_for n"
  define F where "F = 32 * (W - 1)"
  have W: "0 < W" "n \<le> 32 * W" "F < n" using words_for_bounds [of n] n by (auto simp: W_def F_def)
  define P where "P i \<longleftrightarrow> (bit (x ! (i div 8)) (i mod 8) \<longleftrightarrow> bit (y ! (i div 8)) (i mod 8))" for i
  obtain w1 :: uint32 where w1: "x86_load 4 x (4 * (W - 1)) = Some w1"
    "\<And>k. k < 32 \<Longrightarrow> bit w1 k \<longleftrightarrow> bit (x ! ((F + k) div 8)) ((F + k) mod 8)"
    using last_word_bit [OF x(2)] W(1) unfolding W_def F_def by blast
  obtain w2 :: uint32 where w2: "x86_load 4 y (4 * (W - 1)) = Some w2"
    "\<And>k. k < 32 \<Longrightarrow> bit w2 k \<longleftrightarrow> bit (y ! ((F + k) div 8)) ((F + k) mod 8)"
    using last_word_bit [OF y(2)] W(1) unfolding W_def F_def by blast
  have m: "bit (last_word_mask m1) k \<longleftrightarrow> n \<le> F + k" "bit (last_word_mask m2) k \<longleftrightarrow> n \<le> F + k" if "k < 32" for k
    using that assms by (auto simp: MY_BITMAP_inv_def W_def F_def)
  have "w1 OR last_word_mask m1 = w2 OR last_word_mask m2 \<longleftrightarrow> (\<forall>k < 32. F + k < n \<longrightarrow> P (F + k))"
  proof -
    have "w1 OR last_word_mask m1 = w2 OR last_word_mask m2 \<longleftrightarrow>
        (\<forall>k < 32. bit (w1 OR last_word_mask m1) k \<longleftrightarrow> bit (w2 OR last_word_mask m2) k)"
      by (auto intro: word_bit_eqI)
    then show ?thesis by (simp add: bit_or_iff m w1 w2 P_def) (meson not_le)
  qed
  also have "\<dots> \<longleftrightarrow> (\<forall>i. F \<le> i \<and> i < n \<longrightarrow> P i)"
  proof -
    have "\<exists>k < 32. i = F + k" if "F \<le> i" "i < n" for i
      using that W by (intro exI [of _ "i - F"]) (auto simp: F_def)
    then show ?thesis by (metis le_add1)
  qed
  finally have last: "w1 OR last_word_mask m1 = w2 OR last_word_mask m2 \<longleftrightarrow> (\<forall>i. F \<le> i \<and> i < n \<longrightarrow> P i)" .
  have pre: "take (4 * (W - 1)) x = take (4 * (W - 1)) y \<longleftrightarrow> (\<forall>i < F. P i)"
    using take_eq_iff_bits [of "4 * (W - 1)" x y] x y by (simp add: P_def F_def W_def)
  have "bitmap_cmp m1 m2 = Some (\<forall>i < n. P i)"
  proof -
    have l: "4 * (W - 1) \<le> length x" "4 * (W - 1) \<le> length y" using x y by (auto simp: W_def)
    have p: "last_word_ptr m1 = 4 * (W - 1)" "last_word_ptr m2 = 4 * (W - 1)"
      using assms by (auto simp: MY_BITMAP_inv_def W_def)
    have "bitmap_cmp m1 m2 = Some ((\<forall>i < F. P i) \<and> (\<forall>i. F \<le> i \<and> i < n \<longrightarrow> P i))"
      unfolding bitmap_cmp_def Let_def unat_no_words(3) [OF assms(1)] W_def [symmetric]
      using l by (simp add: x y p w1(1) [simplified] w2(1) [simplified] arr_slice_def pre [simplified] last)
    also have "\<dots> = Some (\<forall>i < n. P i)" using all_split_at [of F n P] W by simp
    finally show ?thesis .
  qed
  also have "(\<forall>i < n. P i) \<longleftrightarrow> elems n m1 = elems n m2"
  proof -
    have "bitmap_is_set m1 i = Some (bit (x ! (i div 8)) (i mod 8))"
      "bitmap_is_set m2 i = Some (bit (y ! (i div 8)) (i mod 8))" if "i < n" for i
      using byte_in_map [OF that] x y by (simp_all add: bitmap_is_set_bit)
    then have "elems n m1 = {i. i < n \<and> bit (x ! (i div 8)) (i mod 8)}"
      "elems n m2 = {i. i < n \<and> bit (y ! (i div 8)) (i mod 8)}" by (auto simp: elems_def)
    then show ?thesis by (auto simp: P_def)
  qed
  finally show ?thesis .
qed

subsection \<open>Properties\<close>

text \<open>
  \<open>bitmap_cmp\<close> compares the sets: it is true exactly when the two bitmaps of \<open>n\<close> bits have the
  same elements, whatever the unused bits of their last words hold.
\<close>

theorem bitmap_cmp_correct:
  assumes "MY_BITMAP_inv n m1" "MY_BITMAP_inv n m2"
  shows "bitmap_cmp m1 m2 = Some (elems n m1 = elems n m2)"
  by (rule bitmap_cmp_elems [OF assms])

theorem bitmap_cmp_correct_witness:
  "\<exists>m1 m2. bitmap m1 \<noteq> bitmap m2 \<and> bitmap_cmp m1 m2 = Some (elems 33 m1 = elems 33 m2)"
proof -
  let ?m = "\<lambda>b. \<lparr>bitmap = Some [1, 0, 0, 0, b, 0, 0, 0], last_word_ptr = 4, last_word_mask = NOT 1, n_bits = 33\<rparr>"
  have "MY_BITMAP_inv 33 (?m b)" for b
    by (auto simp: MY_BITMAP_inv_def words_for_def bit_not_word_iff bit_1_iff)
  then have "bitmap_cmp (?m 1) (?m 3) = Some (elems 33 (?m 1) = elems 33 (?m 3))"
    by (intro bitmap_cmp_correct)
  moreover have "bitmap (?m 1) \<noteq> bitmap (?m 3)" by simp
  ultimately show ?thesis by blast
qed

text \<open>
  The updates of a bitmap of \<open>n\<close> bits change the set as their names say and keep the invariant:
  setting or clearing a list of bits, flipping one, setting or clearing all.
\<close>

theorem bitmap_updates:
  assumes "MY_BITMAP_inv n mp" "set ns \<subseteq> {..<n}" "i < n"
  shows "(\<exists>r. foldM bitmap_set_bit ns mp = Some r \<and> MY_BITMAP_inv n r \<and> elems n r = elems n mp \<union> set ns) \<and>
    (\<exists>r. foldM bitmap_clear_bit ns mp = Some r \<and> MY_BITMAP_inv n r \<and> elems n r = elems n mp - set ns) \<and>
    (\<exists>r. bitmap_flip_bit mp i = Some r \<and> MY_BITMAP_inv n r \<and>
       elems n r = (if i \<in> elems n mp then elems n mp - {i} else insert i (elems n mp))) \<and>
    (\<exists>r. bitmap_set_all mp = Some r \<and> MY_BITMAP_inv n r \<and> elems n r = {..<n}) \<and>
    (\<exists>r. bitmap_clear_all mp = Some r \<and> MY_BITMAP_inv n r \<and> elems n r = {})"
proof (intro conjI)
  show "\<exists>r. foldM bitmap_set_bit ns mp = Some r \<and> MY_BITMAP_inv n r \<and> elems n r = elems n mp \<union> set ns"
    using mb.set_bits_members [OF assms(1,2)] by (simp add: mb_members)
  show "\<exists>r. foldM bitmap_clear_bit ns mp = Some r \<and> MY_BITMAP_inv n r \<and> elems n r = elems n mp - set ns"
    using mb.clear_bits_members [OF assms(1,2)] by (simp add: mb_members)
  show "\<exists>r. bitmap_flip_bit mp i = Some r \<and> MY_BITMAP_inv n r \<and>
       elems n r = (if i \<in> elems n mp then elems n mp - {i} else insert i (elems n mp))"
  proof (rule flip_bit_spec [OF assms(1,3)])
    fix r
    assume r: "bitmap_flip_bit mp i = Some r" "MY_BITMAP_inv n r"
      "\<And>m. m < n \<Longrightarrow> bitmap_is_set r m = (if m = i then map_option Not (bitmap_is_set mp m) else bitmap_is_set mp m)"
    have "elems n r = (if i \<in> elems n mp then elems n mp - {i} else insert i (elems n mp))"
      using r(3) assms(3) is_set_defined [OF assms(1,3)] by (auto simp: elems_def split: if_splits)
    with r show ?thesis by blast
  qed
  show "\<exists>r. bitmap_set_all mp = Some r \<and> MY_BITMAP_inv n r \<and> elems n r = {..<n}"
  proof (rule memset_spec [OF assms(1), of "0xFF"])
    fix r assume r: "bitmap_memset 0xFF mp = Some r" "MY_BITMAP_inv n r"
      "\<And>i. i < n \<Longrightarrow> bitmap_is_set r i = Some (bit (0xFF :: uchar) (i mod 8))"
    have "bit (0xFF :: uchar) (i mod 8)" for i
    proof -
      have "(0xFF :: uchar) = NOT 0" by simp
      then show ?thesis by (simp only: bit_not_word_iff) simp
    qed
    with r show ?thesis by (auto simp: bitmap_set_all_def elems_def)
  qed
  show "\<exists>r. bitmap_clear_all mp = Some r \<and> MY_BITMAP_inv n r \<and> elems n r = {}"
    by (rule memset_spec [OF assms(1), of 0]) (auto simp: bitmap_clear_all_def elems_def)
qed

theorem bitmap_updates_witness:
  "\<exists>r. foldM bitmap_set_bit [32, 3]
     \<lparr>bitmap = Some [1, 0, 0, 0, 0, 0, 0, 0], last_word_ptr = 4, last_word_mask = NOT 1, n_bits = 33\<rparr> = Some r
     \<and> MY_BITMAP_inv 33 r"
proof -
  let ?m = "\<lparr>bitmap = Some [1, 0, 0, 0, 0, 0, 0, 0], last_word_ptr = 4, last_word_mask = NOT 1, n_bits = 33\<rparr>"
  have "MY_BITMAP_inv 33 ?m"
    by (auto simp: MY_BITMAP_inv_def words_for_def bit_not_word_iff bit_1_iff)
  then show ?thesis using bitmap_updates [of 33 ?m "[32, 3]" 5] by auto
qed

end
