(* ===== verification/BaseList.thy ===== *)
theory BaseList
  imports Prelude "HOL-Library.Monad_Syntax" "HOL-Library.Multiset"
begin

text \<open>
  \<open>sql_list.h\<close>: the singly linked \<open>base_list\<close>, its iterator and the sort of its typed wrapper
  \<open>List<T>\<close>. The nodes and the list objects live in an explicit store: a node pointer is a
  number (\<open>NULL\<close> is 0 and \<open>&end_of_list\<close> is 1), a \<open>list_node **\<close> is the \<open>first\<close> field of a list object
  or the \<open>next\<close> field of a node, a \<open>void *\<close> element is a number (0 is the null pointer). An access to
  memory that holds no node or list is \<^term>\<open>None\<close>. The flag \<open>ok\<close> of an operation that allocates says
  whether the memory root has room; \<open>delete\<close> on a node poisons it.
  The fields \<open>next\<close> and \<open>last\<close> are called \<open>nxt\<close> and \<open>last_ptr\<close>.
\<close>

subsection \<open>Store\<close>

type_synonym node_ptr = nat
type_synonym void_ptr = nat
type_synonym list_id = nat

definition NULL :: nat where "NULL = 0"
definition end_of_list :: node_ptr where "end_of_list = 1"

record list_node =
  nxt :: node_ptr
  info :: void_ptr

datatype loc = First list_id | Next node_ptr

record base_list =
  first :: node_ptr
  last_ptr :: loc
  elements :: uint

record heap =
  nodes :: "node_ptr \<Rightarrow> list_node option"
  lists :: "list_id \<Rightarrow> base_list option"
  brk :: node_ptr

text \<open>Reading and writing through a \<open>list_node **\<close>, allocation and deletion.\<close>

fun rd :: "heap \<Rightarrow> loc \<Rightarrow> node_ptr option" where
  "rd h (First l) = map_option first (lists h l)"
| "rd h (Next a) = map_option nxt (nodes h a)"

fun wr :: "heap \<Rightarrow> loc \<Rightarrow> node_ptr \<Rightarrow> heap option" where
  "wr h (First l) p = map_option (\<lambda>b. h\<lparr>lists := (lists h)(l \<mapsto> b\<lparr>first := p\<rparr>)\<rparr>) (lists h l)"
| "wr h (Next a) p = map_option (\<lambda>n. h\<lparr>nodes := (nodes h)(a \<mapsto> n\<lparr>nxt := p\<rparr>)\<rparr>) (nodes h a)"

definition put_list :: "heap \<Rightarrow> list_id \<Rightarrow> base_list \<Rightarrow> heap" where
  "put_list h l b = h\<lparr>lists := (lists h)(l \<mapsto> b)\<rparr>"

definition new_node :: "bool \<Rightarrow> heap \<Rightarrow> void_ptr \<Rightarrow> node_ptr \<Rightarrow> node_ptr \<times> heap" where
  "new_node ok h info_par next_par =
     (if ok then (brk h, h\<lparr>nodes := (nodes h)(brk h \<mapsto> \<lparr>nxt = next_par, info = info_par\<rparr>), brk := Suc (brk h)\<rparr>)
      else (NULL, h))"

definition delete_node :: "heap \<Rightarrow> node_ptr \<Rightarrow> heap" where
  "delete_node h p = h\<lparr>nodes := (nodes h)(p := None)\<rparr>"

subsection \<open>base\_list\<close>

definition base_list_eq :: "base_list \<Rightarrow> base_list \<Rightarrow> bool" where
  "base_list_eq b rhs \<longleftrightarrow> elements b = elements rhs \<and> first b = first rhs \<and> last_ptr b = last_ptr rhs"

text \<open>\<open>operator=\<close>, which the copy constructor calls.\<close>

definition assign :: "heap \<Rightarrow> list_id \<Rightarrow> list_id \<Rightarrow> heap option" where
  "assign h l rhs = do {
     r \<leftarrow> lists h rhs;
     Some (put_list h l \<lparr>first = first r, last_ptr = (if elements r \<noteq> 0 then last_ptr r else First l), elements = elements r\<rparr>)
   }"

definition empty :: "heap \<Rightarrow> list_id \<Rightarrow> heap" where
  "empty h l = put_list h l \<lparr>first = end_of_list, last_ptr = First l, elements = 0\<rparr>"

definition is_empty :: "heap \<Rightarrow> list_id \<Rightarrow> bool option" where
  "is_empty h l = do { b \<leftarrow> lists h l; Some (first b = end_of_list) }"

definition push_back :: "bool \<Rightarrow> heap \<Rightarrow> list_id \<Rightarrow> void_ptr \<Rightarrow> (bool \<times> heap) option" where
  "push_back ok h l info_par = do {
     b \<leftarrow> lists h l;
     let (p, h1) = new_node ok h info_par end_of_list;
     h2 \<leftarrow> wr h1 (last_ptr b) p;
     if p \<noteq> NULL then do {
       b2 \<leftarrow> lists h2 l;
       q \<leftarrow> rd h2 (last_ptr b2);
       Some (False, put_list h2 l (b2\<lparr>last_ptr := Next q, elements := elements b2 + 1\<rparr>))
     } else Some (True, h2)
   }"

definition push_front_impl :: "heap \<Rightarrow> list_id \<Rightarrow> node_ptr \<Rightarrow> (bool \<times> heap) option" where
  "push_front_impl h l node =
     (if node \<noteq> NULL then do {
        b \<leftarrow> lists h l;
        let b1 = (if last_ptr b = First l then b\<lparr>last_ptr := Next node\<rparr> else b);
        Some (False, put_list h l (b1\<lparr>first := node, elements := elements b1 + 1\<rparr>))
      } else Some (True, h))"

definition push_front :: "bool \<Rightarrow> heap \<Rightarrow> list_id \<Rightarrow> void_ptr \<Rightarrow> (bool \<times> heap) option" where
  "push_front ok h l info_par = do {
     b \<leftarrow> lists h l;
     let (p, h1) = new_node ok h info_par (first b);
     push_front_impl h1 l p
   }"

definition remove :: "heap \<Rightarrow> list_id \<Rightarrow> loc \<Rightarrow> heap option" where
  "remove h l prev = do {
     p \<leftarrow> rd h prev;
     n \<leftarrow> nodes h p;
     let node = nxt n;
     b \<leftarrow> lists h l;
     let e = elements b - 1;
     let lst = (if e = 0 then First l else if last_ptr b = Next p then prev else last_ptr b);
     let h1 = put_list h l (b\<lparr>elements := e, last_ptr := lst\<rparr>);
     wr (delete_node h1 p) prev node
   }"

definition append_list :: "heap \<Rightarrow> list_id \<Rightarrow> list_id \<Rightarrow> heap option" where
  "append_list h l list = do {
     e2 \<leftarrow> is_empty h list;
     if \<not> e2 then do {
       e1 \<leftarrow> is_empty h l;
       if e1 then assign h l list
       else do {
         b \<leftarrow> lists h l;
         lb \<leftarrow> lists h list;
         h1 \<leftarrow> wr h (last_ptr b) (first lb);
         b1 \<leftarrow> lists h1 l;
         lb1 \<leftarrow> lists h1 list;
         Some (put_list h1 l (b1\<lparr>last_ptr := last_ptr lb1, elements := elements b1 + elements lb1\<rparr>))
       }
     } else Some h
   }"

definition pop :: "heap \<Rightarrow> list_id \<Rightarrow> (void_ptr \<times> heap) option" where
  "pop h l = do {
     b \<leftarrow> lists h l;
     if first b = end_of_list then Some (NULL, h)
     else do {
       n \<leftarrow> nodes h (first b);
       let e = elements b - 1;
       Some (info n, put_list h l (b\<lparr>first := nxt n, elements := e, last_ptr := (if e = 0 then First l else last_ptr b)\<rparr>))
     }
   }"

text \<open>
  The loop of \<open>disjoin\<close>: the result is the final \<open>prev\<close>, the count, and whether the loop left the
  function with \<open>return\<close>.
\<close>

partial_function (option) disjoin_loop ::
    "heap \<Rightarrow> loc \<Rightarrow> node_ptr \<Rightarrow> node_ptr \<Rightarrow> uint \<Rightarrow> (loc \<times> uint \<times> bool) option" where
  "disjoin_loop h prev node list_first cnt =
     (if node \<noteq> end_of_list \<and> node \<noteq> list_first then
        Option.bind (nodes h node) (\<lambda>n.
          if nxt n = end_of_list then Some (Next node, cnt + 1, True)
          else disjoin_loop h (Next node) (nxt n) list_first (cnt + 1))
      else Some (prev, cnt, False))"

definition disjoin :: "heap \<Rightarrow> list_id \<Rightarrow> list_id \<Rightarrow> heap option" where
  "disjoin h l list = do {
     b \<leftarrow> lists h l;
     lb \<leftarrow> lists h list;
     (prev, cnt, returned) \<leftarrow> disjoin_loop h (First l) (first b) (first lb) 0;
     if returned then Some (put_list h l (b\<lparr>elements := cnt\<rparr>))
     else do {
       h1 \<leftarrow> wr (put_list h l (b\<lparr>elements := cnt\<rparr>)) prev end_of_list;
       b1 \<leftarrow> lists h1 l;
       Some (put_list h1 l (b1\<lparr>last_ptr := prev\<rparr>))
     }
   }"

definition prepend :: "heap \<Rightarrow> list_id \<Rightarrow> list_id \<Rightarrow> heap option" where
  "prepend h l list = do {
     e2 \<leftarrow> is_empty h list;
     if \<not> e2 then do {
       b \<leftarrow> lists h l;
       lb \<leftarrow> lists h list;
       let b1 = (if first b = end_of_list then b\<lparr>last_ptr := last_ptr lb\<rparr> else b);
       h1 \<leftarrow> wr (put_list h l b1) (last_ptr lb) (first b1);
       b2 \<leftarrow> lists h1 l;
       lb2 \<leftarrow> lists h1 list;
       Some (put_list h1 l (b2\<lparr>first := first lb2, elements := elements b2 + elements lb2\<rparr>))
     } else Some h
   }"

definition swap :: "heap \<Rightarrow> list_id \<Rightarrow> list_id \<Rightarrow> heap option" where
  "swap h l rhs = do {
     b \<leftarrow> lists h l;
     r \<leftarrow> lists h rhs;
     let rhs_last = last_ptr r;
     let h1 = put_list h l (b\<lparr>first := first r, elements := elements r,
                last_ptr := (if rhs_last = First rhs then First l else rhs_last)\<rparr>);
     Some (put_list h1 rhs (r\<lparr>first := first b, elements := elements b,
                last_ptr := (if last_ptr b = First l then First rhs else last_ptr b)\<rparr>))
   }"

definition last_node :: "heap \<Rightarrow> list_id \<Rightarrow> node_ptr option" where
  "last_node h l = do { b \<leftarrow> lists h l; rd h (last_ptr b) }"

definition first_node :: "heap \<Rightarrow> list_id \<Rightarrow> node_ptr option" where
  "first_node h l = map_option first (lists h l)"

definition head :: "heap \<Rightarrow> list_id \<Rightarrow> void_ptr option" where
  "head h l = do { b \<leftarrow> lists h l; n \<leftarrow> nodes h (first b); Some (info n) }"

text \<open>A \<open>void **\<close> to the element of a node is the node, or 0.\<close>

definition head_ref :: "heap \<Rightarrow> list_id \<Rightarrow> node_ptr option" where
  "head_ref h l = do { b \<leftarrow> lists h l; Some (if first b \<noteq> end_of_list then first b else NULL) }"

definition last_ref :: "node_ptr" where
  "last_ref = end_of_list"

partial_function (option) find_eq ::
    "(void_ptr \<Rightarrow> void_ptr \<Rightarrow> bool) \<Rightarrow> heap \<Rightarrow> void_ptr \<Rightarrow> node_ptr \<Rightarrow> node_ptr option" where
  "find_eq eq h x node =
     (if node \<noteq> end_of_list
      then Option.bind (nodes h node) (\<lambda>n. if \<not> eq (info n) x then find_eq eq h x (nxt n) else Some node)
      else Some node)"

definition add_unique ::
    "(void_ptr \<Rightarrow> void_ptr \<Rightarrow> bool) \<Rightarrow> bool \<Rightarrow> heap \<Rightarrow> list_id \<Rightarrow> void_ptr \<Rightarrow> (bool \<times> heap) option" where
  "add_unique eq ok h l x = do {
     b \<leftarrow> lists h l;
     node \<leftarrow> find_eq eq h x (first b);
     if node = end_of_list then push_back ok h l x else Some (True, h)
   }"

text \<open>The loop of \<open>elem\<close> runs \<open>n + 1\<close> times unless it reaches the end of the list.\<close>

fun elem_loop :: "heap \<Rightarrow> node_ptr \<Rightarrow> void_ptr \<Rightarrow> nat \<Rightarrow> void_ptr option" where
  "elem_loop h node data 0 = Some data"
| "elem_loop h node data (Suc k) =
     (if node = end_of_list then Some NULL
      else Option.bind (nodes h node) (\<lambda>n. elem_loop h (nxt n) (info n) k))"

definition elem :: "heap \<Rightarrow> list_id \<Rightarrow> nat \<Rightarrow> void_ptr option" where
  "elem h l n = do { b \<leftarrow> lists h l; elem_loop h (first b) NULL (Suc n) }"

partial_function (option) check_list_loop ::
    "heap \<Rightarrow> node_ptr \<Rightarrow> uint \<Rightarrow> (node_ptr \<times> uint) option option" where
  "check_list_loop h node cnt =
     Option.bind (nodes h node) (\<lambda>n.
       if nxt n \<noteq> end_of_list
       then (if info n = NULL then Some None else check_list_loop h (nxt n) (cnt + 1))
       else Some (Some (node, cnt)))"

definition check_list :: "heap \<Rightarrow> list_id \<Rightarrow> bool option" where
  "check_list h l = do {
     b \<leftarrow> lists h l;
     r \<leftarrow> check_list_loop h (first b) 0;
     case r of None \<Rightarrow> Some False
     | Some (node, cnt) \<Rightarrow>
         Some (if last_ptr b \<noteq> Next node then False else if cnt + 1 \<noteq> elements b then False else True)
   }"

definition after :: "bool \<Rightarrow> heap \<Rightarrow> list_id \<Rightarrow> void_ptr \<Rightarrow> node_ptr \<Rightarrow> heap option" where
  "after ok h l info_par node = do {
     n \<leftarrow> nodes h node;
     let (new_ptr, h1) = new_node ok h info_par (nxt n);
     h2 \<leftarrow> wr h1 (Next node) new_ptr;
     b \<leftarrow> lists h2 l;
     let b1 = b\<lparr>elements := elements b + 1\<rparr>;
     Some (put_list h2 l (if last_ptr b1 = Next node then b1\<lparr>last_ptr := Next new_ptr\<rparr> else b1))
   }"

subsection \<open>base\_list\_iterator\<close>

record base_list_iterator =
  it_list :: list_id
  el :: loc
  prev :: "loc option"
  current :: node_ptr

definition it_init :: "list_id \<Rightarrow> base_list_iterator" where
  "it_init l = \<lparr>it_list = l, el = First l, prev = None, current = NULL\<rparr>"

definition it_next :: "heap \<Rightarrow> base_list_iterator \<Rightarrow> (void_ptr \<times> base_list_iterator) option" where
  "it_next h it = do {
     c \<leftarrow> rd h (el it);
     n \<leftarrow> nodes h c;
     Some (info n, it\<lparr>prev := Some (el it), current := c, el := Next c\<rparr>)
   }"

definition peek :: "heap \<Rightarrow> base_list_iterator \<Rightarrow> void_ptr option" where
  "peek h it = do { c \<leftarrow> rd h (el it); n \<leftarrow> nodes h c; Some (info n) }"

definition next_fast :: "heap \<Rightarrow> base_list_iterator \<Rightarrow> (void_ptr \<times> base_list_iterator) option" where
  "next_fast h it = do {
     tmp \<leftarrow> rd h (el it);
     n \<leftarrow> nodes h tmp;
     Some (info n, it\<lparr>el := Next tmp\<rparr>)
   }"

definition rewind :: "base_list_iterator \<Rightarrow> base_list_iterator" where
  "rewind it = it\<lparr>el := First (it_list it)\<rparr>"

definition set_info :: "heap \<Rightarrow> node_ptr \<Rightarrow> void_ptr \<Rightarrow> heap option" where
  "set_info h p v = map_option (\<lambda>n. h\<lparr>nodes := (nodes h)(p \<mapsto> n\<lparr>info := v\<rparr>)\<rparr>) (nodes h p)"

definition it_replace :: "heap \<Rightarrow> base_list_iterator \<Rightarrow> void_ptr \<Rightarrow> (void_ptr \<times> heap) option" where
  "it_replace h it element = do {
     n \<leftarrow> nodes h (current it);
     h1 \<leftarrow> set_info h (current it) element;
     Some (info n, h1)
   }"

definition it_replace_list :: "heap \<Rightarrow> base_list_iterator \<Rightarrow> list_id \<Rightarrow> (void_ptr \<times> heap) option" where
  "it_replace_list h it new_list = do {
     n \<leftarrow> nodes h (current it);
     e \<leftarrow> is_empty h new_list;
     if \<not> e then do {
       nl \<leftarrow> lists h new_list;
       h1 \<leftarrow> wr h (last_ptr nl) (nxt n);
       nl1 \<leftarrow> lists h1 new_list;
       fn \<leftarrow> nodes h1 (first nl1);
       h2 \<leftarrow> set_info h1 (current it) (info fn);
       h3 \<leftarrow> wr h2 (Next (current it)) (nxt fn);
       b \<leftarrow> lists h3 (it_list it);
       let b1 = (if last_ptr b = Next (current it) \<and> elements nl1 > 1 then b\<lparr>last_ptr := last_ptr nl1\<rparr> else b);
       Some (info n, put_list h3 (it_list it) (b1\<lparr>elements := elements b1 + (elements nl1 - 1)\<rparr>))
     } else Some (info n, h)
   }"

definition it_remove :: "heap \<Rightarrow> base_list_iterator \<Rightarrow> (heap \<times> base_list_iterator) option" where
  "it_remove h it = do {
     p \<leftarrow> prev it;
     h1 \<leftarrow> remove h (it_list it) p;
     Some (h1, it\<lparr>el := p, current := NULL\<rparr>)
   }"

definition it_after :: "bool \<Rightarrow> heap \<Rightarrow> base_list_iterator \<Rightarrow> void_ptr \<Rightarrow> (heap \<times> base_list_iterator) option" where
  "it_after ok h it element = do {
     h1 \<leftarrow> after ok h (it_list it) element (current it);
     n \<leftarrow> nodes h1 (current it);
     Some (h1, it\<lparr>current := nxt n, el := Next (nxt n)\<rparr>)
   }"

text \<open>\<open>ref\<close> is the address of the \<open>info\<close> field of the current node: the node stands for it.\<close>

definition it_ref :: "base_list_iterator \<Rightarrow> node_ptr" where
  "it_ref it = current it"

definition it_is_last :: "base_list_iterator \<Rightarrow> bool" where
  "it_is_last it \<longleftrightarrow> el it = Next last_ref"

definition at_end :: "base_list_iterator \<Rightarrow> bool" where
  "at_end it \<longleftrightarrow> current it = end_of_list"

definition sublist_of :: "heap \<Rightarrow> base_list_iterator \<Rightarrow> list_id \<Rightarrow> uint \<Rightarrow> heap option" where
  "sublist_of h it ls elm = do {
     f \<leftarrow> rd h (el it);
     b \<leftarrow> lists h (it_list it);
     Some (put_list h ls \<lparr>first = f, last_ptr = last_ptr b, elements = elm\<rparr>)
   }"

subsection \<open>List: bubble\_sort\<close>

partial_function (option) bubble_inner ::
    "(void_ptr \<Rightarrow> void_ptr \<Rightarrow> int) \<Rightarrow> heap \<Rightarrow> base_list_iterator \<Rightarrow> void_ptr \<Rightarrow> node_ptr \<Rightarrow> node_ptr \<Rightarrow> bool
      \<Rightarrow> (heap \<times> base_list_iterator \<times> node_ptr \<times> bool) option" where
  "bubble_inner sort_func h it item1 ref1 last_r swp =
     Option.bind (it_next h it) (\<lambda>(item2, it1).
       if item2 \<noteq> NULL \<and> it_ref it1 \<noteq> last_r then
         (if sort_func item1 item2 > 0 then
            Option.bind (set_info h ref1 item2) (\<lambda>h1.
            Option.bind (set_info h1 (it_ref it1) item1) (\<lambda>h2.
              bubble_inner sort_func h2 it1 item1 (it_ref it1) last_r True))
          else bubble_inner sort_func h it1 item2 (it_ref it1) last_r swp)
       else Some (h, it1, ref1, swp))"

partial_function (option) bubble_outer ::
    "(void_ptr \<Rightarrow> void_ptr \<Rightarrow> int) \<Rightarrow> heap \<Rightarrow> base_list_iterator \<Rightarrow> node_ptr \<Rightarrow> heap option" where
  "bubble_outer sort_func h it ref1 =
     Option.bind (it_next h it) (\<lambda>(item1, it1).
     Option.bind (bubble_inner sort_func h it1 item1 (it_ref it1) ref1 False) (\<lambda>(h1, it2, ref1', swp).
       if swp then bubble_outer sort_func h1 (rewind it2) ref1' else Some h1))"

definition bubble_sort :: "(void_ptr \<Rightarrow> void_ptr \<Rightarrow> int) \<Rightarrow> heap \<Rightarrow> list_id \<Rightarrow> heap option" where
  "bubble_sort sort_func h l = bubble_outer sort_func h (it_init l) NULL"

subsection \<open>Chains\<close>

text \<open>The nodes \<open>as\<close> are linked from \<open>p\<close> to \<open>q\<close>.\<close>

fun chain :: "(node_ptr \<Rightarrow> list_node option) \<Rightarrow> node_ptr \<Rightarrow> node_ptr list \<Rightarrow> node_ptr \<Rightarrow> bool" where
  "chain N p [] q \<longleftrightarrow> p = q"
| "chain N p (a # as) q \<longleftrightarrow> p = a \<and> (case N a of None \<Rightarrow> False | Some n \<Rightarrow> chain N (nxt n) as q)"

lemma chain_append:
  "chain N p (as @ bs) q \<longleftrightarrow> (\<exists>r. chain N p as r \<and> chain N r bs q)"
  by (induction as arbitrary: p) (auto split: option.splits)

lemma chain_cong:
  "(\<And>a. a \<in> set as \<Longrightarrow> map_option nxt (N a) = map_option nxt (M a)) \<Longrightarrow> chain N p as q \<longleftrightarrow> chain M p as q"
proof (induction as arbitrary: p)
  case (Cons a as)
  then show ?case by (cases "N a"; cases "M a") fastforce+
qed simp

lemma chain_upd_other [simp]: "a \<notin> set as \<Longrightarrow> chain (N(a := v)) p as q \<longleftrightarrow> chain N p as q"
  by (rule chain_cong) auto

lemma chain_frame: "chain N p as q \<Longrightarrow> (\<And>a. a \<in> set as \<Longrightarrow> M a = N a) \<Longrightarrow> chain M p as q"
  by (subst chain_cong [where M = N]) auto

lemma chain_nodes: "chain N p as q \<Longrightarrow> a \<in> set as \<Longrightarrow> \<exists>n. N a = Some n"
  by (induction as arbitrary: p) (auto split: option.splits)

lemma chain_first: "chain N p as q \<Longrightarrow> as \<noteq> [] \<Longrightarrow> p = hd as"
  by (cases as) auto

text \<open>Redirecting the last \<open>next\<close> pointer of a chain.\<close>

lemma chain_relink:
  assumes "chain N p (as @ [a]) q" "N a = Some n" "a \<notin> set as"
  shows "chain (N(a \<mapsto> n\<lparr>nxt := r\<rparr>)) p (as @ [a]) r"
  using assms by (auto simp: chain_append)

subsection \<open>Representation of a list\<close>

definition info_of :: "heap \<Rightarrow> node_ptr \<Rightarrow> void_ptr" where
  "info_of h a = (case nodes h a of None \<Rightarrow> NULL | Some n \<Rightarrow> info n)"

definition contents :: "heap \<Rightarrow> node_ptr list \<Rightarrow> void_ptr list" where
  "contents h as = map (info_of h) as"

definition end_loc :: "list_id \<Rightarrow> node_ptr list \<Rightarrow> loc" where
  "end_loc l as = (if as = [] then First l else Next (List.last as))"

definition heap_ok :: "heap \<Rightarrow> bool" where
  "heap_ok h \<longleftrightarrow> 2 \<le> brk h \<and> nodes h NULL = None \<and> nodes h end_of_list = Some \<lparr>nxt = end_of_list, info = NULL\<rparr> \<and>
     (\<forall>a. brk h \<le> a \<longrightarrow> nodes h a = None)"

definition is_list :: "heap \<Rightarrow> list_id \<Rightarrow> node_ptr list \<Rightarrow> bool" where
  "is_list h l as \<longleftrightarrow> (\<exists>b. lists h l = Some b \<and> chain (nodes h) (first b) as end_of_list \<and>
     last_ptr b = end_loc l as \<and> elements b = of_nat (length as)) \<and> distinct as \<and> end_of_list \<notin> set as"

lemma ptr_consts [simp]: "NULL \<noteq> end_of_list" "end_of_list \<noteq> NULL"
  by (simp_all add: NULL_def end_of_list_def)

lemma heap_ok_fresh:
  assumes "heap_ok h"
  shows "nodes h (brk h) = None" "brk h \<noteq> NULL" "brk h \<noteq> end_of_list"
  using assms by (auto simp: heap_ok_def NULL_def end_of_list_def)

lemma is_list_nodes: "is_list h l as \<Longrightarrow> a \<in> set as \<Longrightarrow> \<exists>n. nodes h a = Some n"
  by (auto simp: is_list_def dest: chain_nodes)

lemma is_list_fresh: "heap_ok h \<Longrightarrow> is_list h l as \<Longrightarrow> brk h \<notin> set as"
  using is_list_nodes heap_ok_fresh by fastforce

lemma is_list_NULL: "heap_ok h \<Longrightarrow> is_list h l as \<Longrightarrow> NULL \<notin> set as"
  using is_list_nodes by (fastforce simp: heap_ok_def)

text \<open>A list is not affected by changes to other lists and to nodes that are not its own.\<close>

lemma is_list_frame:
  assumes "is_list h l as" "lists h' l = lists h l" "\<And>a. a \<in> set as \<Longrightarrow> nodes h' a = nodes h a"
  shows "is_list h' l as" "contents h' as = contents h as"
proof -
  have "chain (nodes h') p as q \<longleftrightarrow> chain (nodes h) p as q" for p q
    using assms(3) by (intro chain_cong) auto
  with assms show "is_list h' l as" by (simp add: is_list_def)
  show "contents h' as = contents h as" using assms(3) by (simp add: contents_def info_of_def)
qed

text \<open>The changes of an operation stay within the list objects \<open>L\<close> and the nodes \<open>A\<close>.\<close>

definition changes_only :: "heap \<Rightarrow> heap \<Rightarrow> list_id set \<Rightarrow> node_ptr set \<Rightarrow> bool" where
  "changes_only h h' L A \<longleftrightarrow> (\<forall>l. l \<notin> L \<longrightarrow> lists h' l = lists h l) \<and> (\<forall>a. a \<notin> A \<longrightarrow> nodes h' a = nodes h a)"

lemma changes_only_list:
  assumes "changes_only h h' L A" "is_list h l as" "l \<notin> L" "set as \<inter> A = {}"
  shows "is_list h' l as \<and> contents h' as = contents h as"
  using is_list_frame [OF assms(2), of h'] assms by (auto simp: changes_only_def)

lemma contents_simps [simp]:
  "contents h [] = []" "contents h (a # as) = info_of h a # contents h as"
  "contents h (as @ bs) = contents h as @ contents h bs" "length (contents h as) = length as"
  by (simp_all add: contents_def)

lemma contents_cong: "(\<And>a. a \<in> set as \<Longrightarrow> info_of h' a = info_of h a) \<Longrightarrow> contents h' as = contents h as"
  by (simp add: contents_def)

lemma info_of_node [simp]: "nodes h a = Some n \<Longrightarrow> info_of h a = info n"
  by (simp add: info_of_def)

lemma is_listE:
  assumes "is_list h l as"
  obtains b where "lists h l = Some b" "chain (nodes h) (first b) as end_of_list" "last_ptr b = end_loc l as"
    "elements b = of_nat (length as)" "distinct as" "end_of_list \<notin> set as"
  using assms by (auto simp: is_list_def)

lemma is_empty_spec: "is_list h l as \<Longrightarrow> is_empty h l = Some (as = [])"
  by (cases as) (auto simp: is_empty_def elim!: is_listE split: option.splits)

lemma push_back_spec:
  assumes "heap_ok h" "is_list h l as"
  obtains h' where "push_back True h l x = Some (False, h')" "heap_ok h'" "is_list h' l (as @ [brk h])"
    "contents h' (as @ [brk h]) = contents h as @ [x]" "changes_only h h' {l} (insert (brk h) (set as))"
proof -
  obtain b where b: "lists h l = Some b" "chain (nodes h) (first b) as end_of_list" "last_ptr b = end_loc l as"
    "elements b = of_nat (length as)" "distinct as" "end_of_list \<notin> set as" using assms(2) by (rule is_listE)
  note f = heap_ok_fresh [OF assms(1)] is_list_fresh [OF assms]
  show ?thesis
  proof (cases as rule: rev_cases)
    case Nil
    let ?h = "\<lparr>nodes = (nodes h)(brk h \<mapsto> \<lparr>nxt = end_of_list, info = x\<rparr>),
      lists = (lists h)(l \<mapsto> b\<lparr>first := brk h, last_ptr := Next (brk h), elements := 1\<rparr>), brk = Suc (brk h)\<rparr>"
    have "push_back True h l x = Some (False, ?h)"
      using b f Nil by (simp add: push_back_def new_node_def put_list_def end_loc_def)
    moreover have "heap_ok ?h" "is_list ?h l (as @ [brk h])" "contents ?h (as @ [brk h]) = contents h as @ [x]"
      "changes_only h ?h {l} (insert (brk h) (set as))"
      using assms(1) f Nil by (auto simp: heap_ok_def is_list_def end_loc_def changes_only_def)
    ultimately show ?thesis using that by blast
  next
    case (snoc bs a)
    then obtain n where n: "nodes h a = Some n" using b(2) by (auto simp: chain_append split: option.splits)
    have na: "a \<noteq> brk h" "a \<notin> set bs" using snoc f b(5) by auto
    let ?h = "\<lparr>nodes = (nodes h)(brk h \<mapsto> \<lparr>nxt = end_of_list, info = x\<rparr>, a \<mapsto> n\<lparr>nxt := brk h\<rparr>),
      lists = (lists h)(l \<mapsto> b\<lparr>last_ptr := Next (brk h), elements := elements b + 1\<rparr>), brk = Suc (brk h)\<rparr>"
    have 1: "push_back True h l x = Some (False, ?h)"
      using b f snoc n na by (simp add: push_back_def new_node_def put_list_def end_loc_def)
    have "chain ((nodes h)(a \<mapsto> n\<lparr>nxt := brk h\<rparr>)) (first b) (bs @ [a]) (brk h)"
      using chain_relink [of "nodes h" "first b" bs a end_of_list n] b(2) snoc n na by simp
    then have "chain (nodes ?h) (first b) ((bs @ [a]) @ [brk h]) end_of_list"
      using f snoc na unfolding chain_append [of _ _ "bs @ [a]"] by (auto simp: fun_upd_twist)
    then have 2: "is_list ?h l (as @ [brk h])"
      using b f snoc by (auto simp: is_list_def end_loc_def)
    have "contents ?h as = contents h as"
      using f snoc n na by (intro contents_cong) (auto simp: info_of_def)
    moreover have "heap_ok ?h" using assms(1) f b(6) snoc na n by (auto simp: heap_ok_def)
    moreover have "changes_only h ?h {l} (insert (brk h) (set as))" using snoc by (auto simp: changes_only_def)
    ultimately show ?thesis using that [OF 1 _ 2] na by simp
  qed
qed

lemma push_front_spec:
  assumes "heap_ok h" "is_list h l as"
  obtains h' where "push_front True h l x = Some (False, h')" "heap_ok h'" "is_list h' l (brk h # as)"
    "contents h' (brk h # as) = x # contents h as" "changes_only h h' {l} {brk h}"
proof -
  obtain b where b: "lists h l = Some b" "chain (nodes h) (first b) as end_of_list" "last_ptr b = end_loc l as"
    "elements b = of_nat (length as)" "distinct as" "end_of_list \<notin> set as" using assms(2) by (rule is_listE)
  note f = heap_ok_fresh [OF assms(1)] is_list_fresh [OF assms]
  let ?h = "\<lparr>nodes = (nodes h)(brk h \<mapsto> \<lparr>nxt = first b, info = x\<rparr>),
      lists = (lists h)(l \<mapsto> \<lparr>first = brk h, last_ptr = end_loc l (brk h # as), elements = elements b + 1\<rparr>),
      brk = Suc (brk h)\<rparr>"
  have "push_front True h l x = Some (False, ?h)"
    using b f by (cases h; cases b) (auto simp: push_front_def push_front_impl_def new_node_def put_list_def end_loc_def)
  moreover have "heap_ok ?h" using assms(1) f by (auto simp: heap_ok_def)
  moreover have "is_list ?h l (brk h # as)" using b f by (auto simp: is_list_def)
  moreover have "contents ?h as = contents h as"
    using f by (intro contents_cong) (auto simp: info_of_def)
  moreover have "changes_only h ?h {l} {brk h}" by (auto simp: changes_only_def)
  ultimately show ?thesis using that by simp
qed

lemma of_nat_eq_0_small: "n < 2 ^ 32 \<Longrightarrow> (of_nat n :: uint) = 0 \<longleftrightarrow> n = 0"
  by (auto simp: word_of_nat_eq_0_iff dvd_eq_mod_eq_0)

lemma pop_spec:
  assumes "heap_ok h" "is_list h l (a # as)" "length as < 2 ^ 32"
  obtains h' where "pop h l = Some (info_of h a, h')" "heap_ok h'" "is_list h' l as"
    "contents h' as = contents h as" "changes_only h h' {l} {}"
proof -
  obtain b where b: "lists h l = Some b" "chain (nodes h) (first b) (a # as) end_of_list"
    "last_ptr b = end_loc l (a # as)" "elements b = of_nat (length (a # as))" "distinct (a # as)"
    "end_of_list \<notin> set (a # as)" using assms(2) by (rule is_listE)
  then obtain n where n: "nodes h a = Some n" "chain (nodes h) (nxt n) as end_of_list" "first b = a"
    by (auto split: option.splits)
  have e: "elements b - 1 = of_nat (length as)" using b(4) by simp
  let ?h = "put_list h l \<lparr>first = nxt n, last_ptr = end_loc l as, elements = of_nat (length as)\<rparr>"
  have "pop h l = Some (info_of h a, ?h)"
    using b n e of_nat_eq_0_small [OF assms(3)] by (cases b) (auto simp: pop_def end_loc_def put_list_def)
  moreover have "heap_ok ?h" using assms(1) by (simp add: heap_ok_def put_list_def)
  moreover have "is_list ?h l as" using b n by (auto simp: is_list_def put_list_def)
  moreover have "contents ?h as = contents h as" by (simp add: contents_def info_of_def put_list_def)
  moreover have "changes_only h ?h {l} {}" by (auto simp: changes_only_def put_list_def)
  ultimately show ?thesis using that by blast
qed

lemma pop_empty: "is_list h l [] \<Longrightarrow> pop h l = Some (NULL, h)"
  by (auto simp: pop_def elim: is_listE)

text \<open>Writing through the end location of a prefix replaces the rest of the chain.\<close>

lemma chain_split_node:
  assumes "chain N p (as @ a # bs) q"
  obtains n where "chain N p as a" "N a = Some n" "chain N (nxt n) bs q"
  using assms by (auto simp: chain_append split: option.splits)

lemma rd_end_loc:
  assumes "is_list h l (as @ bs)"
  shows "rd h (end_loc l as) = Some (if bs = [] then end_of_list else hd bs)"
proof -
  obtain b where b: "lists h l = Some b" "chain (nodes h) (first b) (as @ bs) end_of_list"
    using assms by (rule is_listE)
  then obtain r where r: "chain (nodes h) (first b) as r" "chain (nodes h) r bs end_of_list"
    by (auto simp: chain_append)
  have "r = (if bs = [] then end_of_list else hd bs)" using r(2) by (cases bs) auto
  moreover have "rd h (end_loc l as) = Some r"
    using r(1) b(1) by (cases as rule: rev_cases) (auto simp: end_loc_def chain_append split: option.splits)
  ultimately show ?thesis by simp
qed

lemma wr_end_loc:
  assumes "lists h l = Some b" "chain (nodes h) (first b) as q" "distinct as"
  obtains h' b' where "wr h (end_loc l as) p = Some h'" "lists h' = (lists h)(l \<mapsto> b')"
    "last_ptr b' = last_ptr b" "elements b' = elements b" "brk h' = brk h"
    "chain (nodes h') (first b') as p" "\<And>a. a \<notin> set as \<Longrightarrow> nodes h' a = nodes h a"
    "\<And>a. info_of h' a = info_of h a"
    "\<And>a. nodes h' a = None \<longleftrightarrow> nodes h a = None" "as \<noteq> [] \<Longrightarrow> b' = b"
proof (cases as rule: rev_cases)
  case Nil
  then show ?thesis using assms that [of "h\<lparr>lists := (lists h)(l \<mapsto> b\<lparr>first := p\<rparr>)\<rparr>" "b\<lparr>first := p\<rparr>"]
    by (simp add: end_loc_def info_of_def)
next
  case (snoc cs c)
  have ch: "chain (nodes h) (first b) (cs @ [c]) q" "c \<notin> set cs"
    using assms snoc by auto
  then obtain n where n: "nodes h c = Some n" by (auto simp: chain_append split: option.splits)
  let ?h = "h\<lparr>nodes := (nodes h)(c \<mapsto> n\<lparr>nxt := p\<rparr>)\<rparr>"
  have "chain (nodes ?h) (first b) (cs @ [c]) p" using chain_relink [OF ch(1) n ch(2)] by simp
  moreover have "lists ?h = (lists h)(l \<mapsto> b)" using assms(1) by (simp add: fun_upd_idem)
  moreover have "wr h (end_loc l as) p = Some ?h" using n snoc by (simp add: end_loc_def)
  moreover have "info_of ?h a = info_of h a" for a using n by (simp add: info_of_def)
  ultimately show ?thesis using that [of ?h b] snoc n by simp
qed

lemma end_loc_append: "bs \<noteq> [] \<Longrightarrow> end_loc l (as @ bs) = Next (List.last bs)"
  by (simp add: end_loc_def)

lemma heap_okI:
  assumes "heap_ok h" "brk h' = brk h" "nodes h' end_of_list = nodes h end_of_list"
    "\<And>a. nodes h a = None \<Longrightarrow> nodes h' a = None"
  shows "heap_ok h'"
  using assms by (auto simp: heap_ok_def)

lemma remove_spec:
  assumes "heap_ok h" "is_list h l (as @ a # bs)" "length (as @ bs) < 2 ^ 32"
  obtains h' where "remove h l (end_loc l as) = Some h'" "heap_ok h'" "is_list h' l (as @ bs)"
    "contents h' (as @ bs) = contents h as @ contents h bs" "nodes h' a = None"
    "changes_only h h' {l} (insert a (set as))"
proof -
  obtain b where b: "lists h l = Some b" "chain (nodes h) (first b) (as @ a # bs) end_of_list"
    "last_ptr b = end_loc l (as @ a # bs)" "elements b = of_nat (length (as @ a # bs))" "distinct (as @ a # bs)"
    "end_of_list \<notin> set (as @ a # bs)" using assms(2) by (rule is_listE)
  obtain n where n: "chain (nodes h) (first b) as a" "nodes h a = Some n" "chain (nodes h) (nxt n) bs end_of_list"
    using b(2) by (rule chain_split_node)
  have e: "elements b - 1 = of_nat (length (as @ bs))" using b(4) by simp
  define lst where "lst = (if elements b - 1 = 0 then First l else if last_ptr b = Next a then end_loc l as else last_ptr b)"
  have lst: "lst = end_loc l (as @ bs)"
    using e of_nat_eq_0_small [OF assms(3)] b(3,5) by (auto simp: lst_def end_loc_def)
  define h1 where "h1 = delete_node (put_list h l (b\<lparr>elements := elements b - 1, last_ptr := lst\<rparr>)) a"
  have n1: "nodes h1 = (nodes h)(a := None)" "lists h1 = (lists h)(l \<mapsto> b\<lparr>elements := elements b - 1, last_ptr := lst\<rparr>)"
    "brk h1 = brk h" by (simp_all add: h1_def delete_node_def put_list_def)
  have rem: "remove h l (end_loc l as) = wr h1 (end_loc l as) (nxt n)"
    using rd_end_loc [OF assms(2)] n(2) b(1) by (simp add: remove_def h1_def lst_def)
  obtain h' b' where w: "wr h1 (end_loc l as) (nxt n) = Some h'" "lists h' = (lists h1)(l \<mapsto> b')"
    "last_ptr b' = lst" "elements b' = elements b - 1" "brk h' = brk h"
    "chain (nodes h') (first b') as (nxt n)" "\<And>a. a \<notin> set as \<Longrightarrow> nodes h' a = nodes h1 a"
    "\<And>a. info_of h' a = info_of h1 a" "\<And>a. nodes h' a = None \<longleftrightarrow> nodes h1 a = None"
  proof (rule wr_end_loc [of h1 l "b\<lparr>elements := elements b - 1, last_ptr := lst\<rparr>" as a "nxt n"])
    show "chain (nodes h1) (first (b\<lparr>elements := elements b - 1, last_ptr := lst\<rparr>)) as a"
      using n(1) b(5) by (simp add: n1)
  qed (use b(5) n1 that in auto)
  have na: "a \<notin> set as" "a \<notin> set bs" "set as \<inter> set bs = {}" using b(5) by auto
  have "nodes h' x = nodes h x" if "x \<in> set bs" for x
    using that na w(7) [of x] n1 by (cases "x \<in> set as") auto
  then have "chain (nodes h') (nxt n) bs end_of_list"
    using n(3) chain_frame by blast
  then have l: "is_list h' l (as @ bs)"
    using w b(5,6) e lst by (auto simp: is_list_def chain_append n1)
  have io: "info_of h' x = info_of h x" if "x \<noteq> a" for x
    using w(8) [of x] that n1 by (simp add: info_of_def)
  have "contents h' as = contents h as" by (rule contents_cong) (metis io na(1))
  moreover have "contents h' bs = contents h bs" by (rule contents_cong) (metis io na(2))
  ultimately have c: "contents h' (as @ bs) = contents h as @ contents h bs" by simp
  have 1: "nodes h' a = None" using w(9) [of a] n1 by simp
  have 2: "nodes h' x = nodes h x" if "x \<notin> insert a (set as)" for x using w(7) [of x] that n1 by simp
  have "heap_ok h'"
    by (rule heap_okI [OF assms(1)]) (use w 2 b(6) n1 in auto)
  moreover have "changes_only h h' {l} (insert a (set as))" using 2 w n1 by (auto simp: changes_only_def)
  ultimately show ?thesis using that [of h'] rem w(1) l c 1 by simp
qed

lemma append_spec:
  assumes "heap_ok h" "is_list h l as" "is_list h m bs" "l \<noteq> m" "set as \<inter> set bs = {}" "length bs < 2 ^ 32"
  obtains h' where "append_list h l m = Some h'" "heap_ok h'" "is_list h' l (as @ bs)"
    "contents h' (as @ bs) = contents h as @ contents h bs" "changes_only h h' {l} (set as)"
proof -
  obtain b where b: "lists h l = Some b" "chain (nodes h) (first b) as end_of_list"
    "last_ptr b = end_loc l as" "elements b = of_nat (length as)" "distinct as" "end_of_list \<notin> set as"
    using assms(2) by (rule is_listE)
  obtain c where c: "lists h m = Some c" "chain (nodes h) (first c) bs end_of_list"
    "last_ptr c = end_loc m bs" "elements c = of_nat (length bs)" "distinct bs" "end_of_list \<notin> set bs"
    using assms(3) by (rule is_listE)
  note em = is_empty_spec [OF assms(2)] is_empty_spec [OF assms(3)]
  consider "bs = []" | "bs \<noteq> []" "as = []" | "bs \<noteq> []" "as \<noteq> []" by blast
  then show ?thesis
  proof cases
    case 1
    then show ?thesis using that [of h] assms(1,2) em by (simp add: append_list_def changes_only_def)
  next
    case 2
    let ?h = "put_list h l \<lparr>first = first c, last_ptr = end_loc l bs, elements = of_nat (length bs)\<rparr>"
    have "elements c \<noteq> 0" using of_nat_eq_0_small [OF assms(6)] 2 c(4) by simp
    then have "append_list h l m = Some ?h"
      using 2 em c by (simp add: append_list_def assign_def end_loc_def)
    moreover have "heap_ok ?h" using assms(1) by (simp add: heap_ok_def put_list_def)
    moreover have "is_list ?h l bs" using c by (simp add: is_list_def put_list_def)
    moreover have "contents ?h bs = contents h bs" by (simp add: contents_def info_of_def put_list_def)
    moreover have "changes_only h ?h {l} (set as)" by (simp add: changes_only_def put_list_def)
    ultimately show ?thesis using that [of ?h] 2 by simp
  next
    case 3
    obtain h1 b1 where w: "wr h (end_loc l as) (first c) = Some h1" "lists h1 = (lists h)(l \<mapsto> b1)"
      "elements b1 = elements b" "brk h1 = brk h" "chain (nodes h1) (first b1) as (first c)"
      "\<And>a. a \<notin> set as \<Longrightarrow> nodes h1 a = nodes h a" "\<And>a. info_of h1 a = info_of h a"
      "\<And>a. nodes h1 a = None \<longleftrightarrow> nodes h a = None"
      by (rule wr_end_loc [OF b(1,2,5), of "first c"]) blast
    let ?h = "put_list h1 l (b1\<lparr>last_ptr := last_ptr c, elements := elements b1 + elements c\<rparr>)"
    have "append_list h l m = Some ?h"
      using 3 em b c w(1,2) assms(4) by (simp add: append_list_def)
    moreover have "heap_ok ?h"
      by (rule heap_okI [OF assms(1)]) (use w b(6) in \<open>auto simp: put_list_def\<close>)
    moreover have "chain (nodes h1) (first c) bs end_of_list"
      by (rule chain_frame [OF c(2)]) (use assms(5) w(6) in blast)
    then have "is_list ?h l (as @ bs)"
      using w b c 3 assms(5) by (auto simp: is_list_def put_list_def chain_append end_loc_append end_loc_def)
    moreover have "contents ?h (as @ bs) = contents h as @ contents h bs"
      using w(7) by (simp add: contents_def info_of_def put_list_def)
    moreover have "changes_only h ?h {l} (set as)" using w by (auto simp: changes_only_def put_list_def)
    ultimately show ?thesis using that by blast
  qed
qed

lemma prepend_spec:
  assumes "heap_ok h" "is_list h l as" "is_list h m bs" "l \<noteq> m" "set as \<inter> set bs = {}"
  obtains h' where "prepend h l m = Some h'" "heap_ok h'" "is_list h' l (bs @ as)"
    "contents h' (bs @ as) = contents h bs @ contents h as" "changes_only h h' {l} (set bs)"
proof -
  obtain b where b: "lists h l = Some b" "chain (nodes h) (first b) as end_of_list"
    "last_ptr b = end_loc l as" "elements b = of_nat (length as)" "distinct as" "end_of_list \<notin> set as"
    using assms(2) by (rule is_listE)
  obtain c where c: "lists h m = Some c" "chain (nodes h) (first c) bs end_of_list"
    "last_ptr c = end_loc m bs" "elements c = of_nat (length bs)" "distinct bs" "end_of_list \<notin> set bs"
    using assms(3) by (rule is_listE)
  note em = is_empty_spec [OF assms(3)]
  show ?thesis
  proof (cases "bs = []")
    case True
    then show ?thesis using that [of h] assms(1,2) em by (simp add: prepend_def changes_only_def)
  next
    case False
    have fe: "first b = end_of_list \<longleftrightarrow> as = []" using b(2,6) by (cases as) (auto split: option.splits)
    define b1 where "b1 = (if first b = end_of_list then b\<lparr>last_ptr := last_ptr c\<rparr> else b)"
    define g where "g = put_list h l b1"
    have g: "lists g m = Some c" "chain (nodes g) (first c) bs end_of_list" "nodes g = nodes h" "brk g = brk h"
      using c assms(4) by (simp_all add: g_def put_list_def)
    obtain h1 c1 where w: "wr g (end_loc m bs) (first b) = Some h1" "lists h1 = (lists g)(m \<mapsto> c1)"
      "elements c1 = elements c" "brk h1 = brk g" "chain (nodes h1) (first c1) bs (first b)"
      "\<And>a. a \<notin> set bs \<Longrightarrow> nodes h1 a = nodes g a" "\<And>a. info_of h1 a = info_of g a"
      "\<And>a. nodes h1 a = None \<longleftrightarrow> nodes g a = None" "bs \<noteq> [] \<Longrightarrow> c1 = c"
      by (rule wr_end_loc [OF g(1,2) c(5), of "first b"]) blast
    let ?h = "put_list h1 l (b1\<lparr>first := first c1, elements := elements b1 + elements c1\<rparr>)"
    have fb: "first b1 = first b" "elements b1 = elements b" by (simp_all add: b1_def)
    have "prepend h l m = Some ?h"
      using False em b(1) c(1,3) w(1,2) assms(4) fb
      by (simp add: prepend_def b1_def [symmetric] g_def [symmetric]) (simp add: g_def put_list_def)
    moreover have "heap_ok ?h"
      by (rule heap_okI [OF assms(1)]) (use w g c(6) in \<open>auto simp: put_list_def\<close>)
    moreover have ch: "chain (nodes h1) (first b) as end_of_list"
      by (rule chain_frame [OF b(2)]) (use assms(5) w(6) g(3) in auto)
    have "last_ptr b1 = end_loc l (bs @ as)"
      using b(3) c(3) False fe by (auto simp: b1_def end_loc_def)
    with ch have "is_list ?h l (bs @ as)"
      using w b c assms(5) fb by (auto simp: is_list_def put_list_def chain_append)
    moreover have "contents ?h (bs @ as) = contents h bs @ contents h as"
      using w(7) g by (simp add: contents_def info_of_def put_list_def)
    moreover have "lists h1 x = lists h x" if "x \<noteq> l" for x
      using that w(2,9) False c(1) by (simp add: g_def put_list_def)
    then have "changes_only h ?h {l} (set bs)" using w g by (auto simp: changes_only_def put_list_def)
    ultimately show ?thesis using that by blast
  qed
qed

lemma swap_spec:
  assumes "heap_ok h" "is_list h l as" "is_list h m bs" "l \<noteq> m"
  obtains h' where "swap h l m = Some h'" "heap_ok h'" "is_list h' l bs" "is_list h' m as" "nodes h' = nodes h"
    "changes_only h h' {l, m} {}"
proof -
  obtain b where b: "lists h l = Some b" "chain (nodes h) (first b) as end_of_list"
    "last_ptr b = end_loc l as" "elements b = of_nat (length as)" "distinct as" "end_of_list \<notin> set as"
    using assms(2) by (rule is_listE)
  obtain c where c: "lists h m = Some c" "chain (nodes h) (first c) bs end_of_list"
    "last_ptr c = end_loc m bs" "elements c = of_nat (length bs)" "distinct bs" "end_of_list \<notin> set bs"
    using assms(3) by (rule is_listE)
  let ?h = "put_list (put_list h l \<lparr>first = first c, last_ptr = end_loc l bs, elements = elements c\<rparr>)
      m \<lparr>first = first b, last_ptr = end_loc m as, elements = elements b\<rparr>"
  have "swap h l m = Some ?h"
    using b(1,3) c(1,3) by (cases b; cases c) (simp add: swap_def end_loc_def)
  moreover have "heap_ok ?h" using assms(1) by (simp add: heap_ok_def put_list_def)
  moreover have "is_list ?h l bs" "is_list ?h m as"
    using b c assms(4) by (simp_all add: is_list_def put_list_def)
  moreover have "nodes ?h = nodes h" "changes_only h ?h {l, m} {}"
    by (auto simp: changes_only_def put_list_def)
  ultimately show ?thesis using that by blast
qed

lemma elem_loop_spec:
  "chain (nodes h) p as end_of_list \<Longrightarrow> end_of_list \<notin> set as \<Longrightarrow>
   elem_loop h p d (Suc n) = Some (if n < length as then contents h as ! n else NULL)"
proof (induction as arbitrary: p d n)
  case (Cons a as)
  then obtain k where k: "nodes h a = Some k" "chain (nodes h) (nxt k) as end_of_list" "p = a"
    by (auto split: option.splits)
  show ?case
  proof (cases n)
    case 0
    then show ?thesis using k Cons.prems by auto
  next
    case (Suc m)
    then show ?thesis using k Cons.prems Cons.IH [OF k(2), of "info k" m] by auto
  qed
qed simp

lemma elem_spec:
  "is_list h l as \<Longrightarrow> elem h l n = Some (if n < length as then contents h as ! n else NULL)"
  unfolding elem_def by (erule is_listE) (simp add: elem_loop_spec del: elem_loop.simps)

lemma find_eq_spec:
  "chain (nodes h) p as end_of_list \<Longrightarrow> end_of_list \<notin> set as \<Longrightarrow>
   \<exists>r. find_eq eq h x p = Some r \<and> (r = end_of_list \<longleftrightarrow> (\<forall>v \<in> set (contents h as). \<not> eq v x))"
proof (induction as arbitrary: p)
  case Nil
  then show ?case by (subst find_eq.simps) simp
next
  case (Cons a as)
  then obtain k where k: "nodes h a = Some k" "chain (nodes h) (nxt k) as end_of_list" "p = a"
    by (auto split: option.splits)
  from Cons.IH [OF k(2)] Cons.prems obtain r where
    r: "find_eq eq h x (nxt k) = Some r" "r = end_of_list \<longleftrightarrow> (\<forall>v \<in> set (contents h as). \<not> eq v x)" by auto
  have e: "find_eq eq h x p = (if \<not> eq (info k) x then Some r else Some a)"
    using k r(1) Cons.prems(2) by (subst find_eq.simps) simp
  show ?case using r(2) k Cons.prems(2) unfolding e by auto
qed

lemma add_unique_spec:
  assumes "heap_ok h" "is_list h l as"
  shows "if \<exists>v \<in> set (contents h as). eq v x then add_unique eq ok h l x = Some (True, h)
    else add_unique eq ok h l x = push_back ok h l x"
proof -
  obtain b where b: "lists h l = Some b" "chain (nodes h) (first b) as end_of_list" "end_of_list \<notin> set as"
    using assms(2) by (rule is_listE)
  from find_eq_spec [OF b(2,3), of eq x] show ?thesis using b(1) by (auto simp: add_unique_def)
qed

lemma after_spec:
  assumes "heap_ok h" "is_list h l (as @ a # bs)"
  obtains h' where "after True h l x a = Some h'" "heap_ok h'" "is_list h' l (as @ a # brk h # bs)"
    "contents h' (as @ a # brk h # bs) = contents h (as @ [a]) @ x # contents h bs"
    "nodes h' a = map_option (\<lambda>n. n\<lparr>nxt := brk h\<rparr>) (nodes h a)" "changes_only h h' {l} {a, brk h}"
proof -
  obtain b where b: "lists h l = Some b" "chain (nodes h) (first b) (as @ a # bs) end_of_list"
    "last_ptr b = end_loc l (as @ a # bs)" "elements b = of_nat (length (as @ a # bs))" "distinct (as @ a # bs)"
    "end_of_list \<notin> set (as @ a # bs)" using assms(2) by (rule is_listE)
  obtain n where n: "chain (nodes h) (first b) as a" "nodes h a = Some n" "chain (nodes h) (nxt n) bs end_of_list"
    using b(2) by (rule chain_split_node)
  note f = heap_ok_fresh [OF assms(1)] is_list_fresh [OF assms]
  define N where "N = (nodes h)(brk h \<mapsto> \<lparr>nxt = nxt n, info = x\<rparr>, a \<mapsto> n\<lparr>nxt := brk h\<rparr>)"
  let ?h = "\<lparr>nodes = N, lists = (lists h)(l \<mapsto> b\<lparr>last_ptr := end_loc l (as @ a # brk h # bs), elements := elements b + 1\<rparr>),
      brk = Suc (brk h)\<rparr>"
  have na: "a \<notin> set as" "a \<notin> set bs" "a \<noteq> brk h" "brk h \<notin> set as" "brk h \<notin> set bs" using b(5) f(4) by auto
  have la: "last_ptr b = Next a \<longleftrightarrow> bs = []"
    using b(3) na by (auto simp: end_loc_def)
  have "after True h l x a = Some ?h"
    using n(2) na b(1,3) f la
    by (cases h; cases b) (auto simp: after_def new_node_def put_list_def end_loc_def N_def)
  moreover have "heap_ok ?h" using assms(1) f na n(2) b(6) by (auto simp: heap_ok_def N_def)
  moreover have "is_list ?h l (as @ a # brk h # bs)"
    using n na f b by (auto simp: is_list_def chain_append N_def)
  moreover have "contents ?h as = contents h as" "contents ?h bs = contents h bs"
    by (rule contents_cong, use na in \<open>auto simp: info_of_def N_def\<close>)+
  then have "contents ?h (as @ a # brk h # bs) = contents h (as @ [a]) @ x # contents h bs"
    using na n(2) by (simp add: info_of_def N_def)
  moreover have "changes_only h ?h {l} {a, brk h}" by (auto simp: changes_only_def N_def)
  ultimately show ?thesis using that [of ?h] n(2) by (simp add: N_def)
qed

lemma disjoin_loop_spec:
  "chain (nodes h) p (as @ bs) end_of_list \<Longrightarrow> end_of_list \<notin> set (as @ bs) \<Longrightarrow> distinct (as @ bs) \<Longrightarrow>
   disjoin_loop h pv p (if bs = [] then end_of_list else hd bs) cnt =
     Some (if as = [] then pv else Next (List.last as), cnt + of_nat (length as), as \<noteq> [] \<and> bs = [])"
proof (induction as arbitrary: p pv cnt)
  case Nil
  then show ?case by (cases bs) (auto simp: disjoin_loop.simps)
next
  case (Cons a as)
  then obtain n where n: "nodes h a = Some n" "chain (nodes h) (nxt n) (as @ bs) end_of_list" "p = a"
    by (auto split: option.splits)
  have ne: "a \<noteq> (if bs = [] then end_of_list else hd bs)" using Cons.prems(2,3) by (cases bs) auto
  show ?case
  proof (cases "as @ bs = []")
    case True
    then show ?thesis using n ne Cons.prems(2) by (subst disjoin_loop.simps) auto
  next
    case False
    then have "nxt n \<noteq> end_of_list" using n(2) Cons.prems(2) by (cases "as @ bs") auto
    then have "disjoin_loop h pv p (if bs = [] then end_of_list else hd bs) cnt
        = disjoin_loop h (Next a) (nxt n) (if bs = [] then end_of_list else hd bs) (cnt + 1)"
      using n ne Cons.prems(2) by (subst disjoin_loop.simps) auto
    then show ?thesis using Cons.IH [OF n(2), of "Next a" "cnt + 1"] Cons.prems False by auto
  qed
qed

lemma disjoin_spec:
  assumes "heap_ok h" "is_list h l (as @ bs)" "lists h m = Some mb"
    "first mb = (if bs = [] then end_of_list else hd bs)"
  obtains h' where "disjoin h l m = Some h'" "heap_ok h'" "is_list h' l as" "contents h' as = contents h as"
    "changes_only h h' {l} (set as)"
proof -
  obtain b where b: "lists h l = Some b" "chain (nodes h) (first b) (as @ bs) end_of_list"
    "last_ptr b = end_loc l (as @ bs)" "elements b = of_nat (length (as @ bs))" "distinct (as @ bs)"
    "end_of_list \<notin> set (as @ bs)" using assms(2) by (rule is_listE)
  let ?g = "put_list h l (b\<lparr>elements := of_nat (length as)\<rparr>)"
  have loop: "disjoin_loop h (First l) (first b) (first mb) 0 =
      Some (end_loc l as, of_nat (length as), as \<noteq> [] \<and> bs = [])"
    using disjoin_loop_spec [OF b(2,6,5), of "First l" 0] assms(4) by (simp add: end_loc_def)
  show ?thesis
  proof (cases "as \<noteq> [] \<and> bs = []")
    case True
    then have "disjoin h l m = Some ?g" using b(1) assms(3) loop by (simp add: disjoin_def)
    moreover have "heap_ok ?g" using assms(1) by (simp add: heap_ok_def put_list_def)
    moreover have "is_list ?g l as" using b True by (simp add: is_list_def put_list_def)
    moreover have "contents ?g as = contents h as" by (simp add: contents_def info_of_def put_list_def)
    moreover have "changes_only h ?g {l} (set as)" by (simp add: changes_only_def put_list_def)
    ultimately show ?thesis using that by blast
  next
    case False
    obtain r where r: "chain (nodes h) (first b) as r" using b(2) by (auto simp: chain_append)
    obtain h1 b1 where w: "wr ?g (end_loc l as) end_of_list = Some h1" "lists h1 = (lists ?g)(l \<mapsto> b1)"
      "elements b1 = of_nat (length as)" "brk h1 = brk ?g" "chain (nodes h1) (first b1) as end_of_list"
      "\<And>a. a \<notin> set as \<Longrightarrow> nodes h1 a = nodes ?g a" "\<And>a. info_of h1 a = info_of ?g a"
      "\<And>a. nodes h1 a = None \<longleftrightarrow> nodes ?g a = None"
    proof (rule wr_end_loc [of ?g l "b\<lparr>elements := of_nat (length as)\<rparr>" as r end_of_list])
      show "chain (nodes ?g) (first (b\<lparr>elements := of_nat (length as)\<rparr>)) as r" using r by (simp add: put_list_def)
    qed (use b(5) that in \<open>auto simp: put_list_def\<close>)
    let ?h = "put_list h1 l (b1\<lparr>last_ptr := end_loc l as\<rparr>)"
    have "disjoin h l m = Some ?h" using b(1) assms(3) loop w(1,2) False by (auto simp: disjoin_def)
    moreover have "heap_ok ?h"
      by (rule heap_okI [OF assms(1)]) (use w b(6) in \<open>auto simp: put_list_def\<close>)
    moreover have "is_list ?h l as" using w b(5,6) by (auto simp: is_list_def put_list_def)
    moreover have "contents ?h as = contents h as" using w(7) by (simp add: contents_def info_of_def put_list_def)
    moreover have "changes_only h ?h {l} (set as)" using w by (auto simp: changes_only_def put_list_def)
    ultimately show ?thesis using that by blast
  qed
qed

lemma check_list_loop_spec:
  "chain (nodes h) p (as @ [a]) end_of_list \<Longrightarrow> end_of_list \<notin> set (as @ [a]) \<Longrightarrow> NULL \<notin> set (contents h as) \<Longrightarrow>
   check_list_loop h p cnt = Some (Some (a, cnt + of_nat (length as)))"
proof (induction as arbitrary: p cnt)
  case Nil
  then show ?case by (subst check_list_loop.simps) (auto split: option.splits)
next
  case (Cons c as)
  then obtain n where n: "nodes h c = Some n" "chain (nodes h) (nxt n) (as @ [a]) end_of_list" "p = c"
    by (auto split: option.splits)
  then have "nxt n \<noteq> end_of_list" using Cons.prems(2) by (cases "as @ [a]") auto
  then have "check_list_loop h p cnt = check_list_loop h (nxt n) (cnt + 1)"
    using n Cons.prems(3) by (subst check_list_loop.simps) auto
  then show ?case using Cons.IH [OF n(2), of "cnt + 1"] Cons.prems by (simp add: add.assoc)
qed

lemma check_list_spec:
  assumes "heap_ok h" "is_list h l as" "NULL \<notin> set (contents h as)"
  shows "check_list h l = Some (as \<noteq> [])"
proof -
  obtain b where b: "lists h l = Some b" "chain (nodes h) (first b) as end_of_list" "last_ptr b = end_loc l as"
    "elements b = of_nat (length as)" "end_of_list \<notin> set as" using assms(2) by (rule is_listE)
  show ?thesis
  proof (cases as rule: rev_cases)
    case Nil
    then have "check_list_loop h (first b) 0 = Some (Some (end_of_list, 0))"
      using assms(1) b(2) by (subst check_list_loop.simps) (simp add: heap_ok_def)
    then show ?thesis using b Nil by (simp add: check_list_def end_loc_def)
  next
    case (snoc bs a)
    then show ?thesis using b assms(3) check_list_loop_spec [of h "first b" bs a 0]
      by (simp add: check_list_def end_loc_def)
  qed
qed

subsection \<open>The iterator\<close>

text \<open>The iterator stands after the nodes \<open>as\<close> when its \<open>el\<close> is their end location.\<close>

lemma it_next_spec:
  assumes "is_list h l (as @ a # bs)" "el it = end_loc l as"
  shows "it_next h it = Some (info_of h a, it\<lparr>prev := Some (end_loc l as), current := a, el := end_loc l (as @ [a])\<rparr>)"
  using rd_end_loc [OF assms(1)] is_list_nodes [OF assms(1), of a] assms(2)
  by (auto simp: it_next_def end_loc_def)

lemma it_next_end:
  assumes "heap_ok h" "is_list h l as" "el it = end_loc l as"
  shows "it_next h it = Some (NULL, it\<lparr>prev := Some (end_loc l as), current := end_of_list, el := Next end_of_list\<rparr>)"
  using rd_end_loc [of h l as "[]"] assms by (simp add: it_next_def heap_ok_def)

lemma it_next_at_end:
  assumes "heap_ok h" "el it = Next end_of_list"
  shows "\<exists>it'. it_next h it = Some (NULL, it') \<and> it_list it' = it_list it \<and> current it' = end_of_list \<and>
    el it' = Next end_of_list"
  using assms by (simp add: it_next_def heap_ok_def)

subsection \<open>bubble\_sort\<close>

text \<open>One pass over the values, with the flag that says whether anything was exchanged.\<close>

fun bub :: "('v \<Rightarrow> 'k::linorder) \<Rightarrow> 'v \<Rightarrow> 'v list \<Rightarrow> 'v list \<times> bool" where
  "bub key x [] = ([x], False)"
| "bub key x (y # ys) =
     (if key y < key x then (y # fst (bub key x ys), True)
      else (x # fst (bub key y ys), snd (bub key y ys)))"

lemma length_bub [simp]: "length (fst (bub key x ys)) = Suc (length ys)"
  by (induction ys arbitrary: x) auto

lemma bub_nonempty [simp]: "fst (bub key x ys) \<noteq> []"
  by (metis length_bub length_0_conv nat.distinct(1))

lemma mset_bub: "mset (fst (bub key x ys)) = mset (x # ys)"
  by (induction ys arbitrary: x) auto

lemma bub_stable: "filter (\<lambda>v. k = key v) (fst (bub key x ys)) = filter (\<lambda>v. k = key v) (x # ys)"
proof (induction ys arbitrary: x)
  case (Cons y ys)
  show ?case
  proof (cases "key y < key x")
    case True
    then show ?thesis using Cons [of x] by (cases "k = key x"; cases "k = key y") auto
  next
    case False
    then show ?thesis using Cons [of y] by auto
  qed
qed simp

lemma bub_max: "v \<in> set (x # ys) \<Longrightarrow> key v \<le> key (List.last (fst (bub key x ys)))"
proof (induction ys arbitrary: x v)
  case (Cons y ys)
  show ?case
  proof (cases "key y < key x")
    case True
    then show ?thesis using Cons.prems Cons.IH [of x x] Cons.IH [of v x] by auto
  next
    case False
    then show ?thesis using Cons.prems Cons.IH [of y y] Cons.IH [of v y] by auto
  qed
qed simp

lemma bub_sorted: "\<not> snd (bub key x ys) \<Longrightarrow> fst (bub key x ys) = x # ys \<and> sorted (map key (x # ys))"
proof (induction ys arbitrary: x)
  case (Cons y ys)
  then show ?case using Cons.IH [of y] by (auto simp: not_less split: if_splits intro: order_trans)
qed simp

definition same_shape :: "heap \<Rightarrow> heap \<Rightarrow> bool" where
  "same_shape h h' \<longleftrightarrow> lists h' = lists h \<and> brk h' = brk h \<and> (\<forall>a. map_option nxt (nodes h' a) = map_option nxt (nodes h a))"

lemma same_shape_refl: "same_shape h h" and same_shape_trans: "same_shape h h' \<Longrightarrow> same_shape h' h'' \<Longrightarrow> same_shape h h''"
  by (simp_all add: same_shape_def)

lemma is_list_shape: "same_shape h h' \<Longrightarrow> is_list h l as \<Longrightarrow> is_list h' l as"
  using chain_cong [of as "nodes h'" "nodes h"] by (simp add: is_list_def same_shape_def)

lemma heap_ok_shape:
  assumes "same_shape h h'" "heap_ok h" "nodes h' end_of_list = nodes h end_of_list"
  shows "heap_ok h'"
proof (rule heap_okI [OF assms(2)])
  show "nodes h' a = None" if "nodes h a = None" for a
    using that assms(1) by (metis same_shape_def option.map_disc_iff)
qed (use assms in \<open>auto simp: same_shape_def\<close>)

lemma set_info_spec:
  assumes "nodes h a = Some n"
  obtains h' where "set_info h a v = Some h'" "same_shape h h'" "info_of h' a = v"
    "\<And>c. c \<noteq> a \<Longrightarrow> nodes h' c = nodes h c"
  using assms that [of "h\<lparr>nodes := (nodes h)(a \<mapsto> n\<lparr>info := v\<rparr>)\<rparr>"]
  by (simp add: set_info_def same_shape_def)

lemma info_of_cong: "nodes h' c = nodes h c \<Longrightarrow> info_of h' c = info_of h c"
  by (simp add: info_of_def)

lemma bubble_inner_spec:
  assumes "\<And>a b. sort_func a b > 0 \<longleftrightarrow> key b < key a"
    and "heap_ok h" "is_list h l (pre @ a # mid @ rest)" "el it = end_loc l (pre @ [a])"
    and "NULL \<notin> set (contents h mid)" "last_r \<notin> set mid" "rest \<noteq> [] \<Longrightarrow> last_r = hd rest"
  shows "\<exists>h' it'. bubble_inner sort_func h it (info_of h a) a last_r swp =
      Some (h', it', List.last (a # mid), swp \<or> snd (bub key (info_of h a) (contents h mid))) \<and>
    same_shape h h' \<and> it_list it' = it_list it \<and>
    contents h' (a # mid) = fst (bub key (info_of h a) (contents h mid)) \<and>
    (\<forall>c. c \<notin> set (a # mid) \<longrightarrow> nodes h' c = nodes h c)"
  using assms(2-)
proof (induction mid arbitrary: h it a pre swp)
  case Nil
  show ?case
  proof (cases rest)
    case Nil
    then have "it_next h it = Some (NULL, it\<lparr>prev := Some (end_loc l (pre @ [a])), current := end_of_list, el := Next end_of_list\<rparr>)"
      using it_next_end [of h l "pre @ [a]" it] Nil.prems by simp
    then show ?thesis by (subst bubble_inner.simps) (simp add: same_shape_refl)
  next
    case (Cons c cs)
    then have "it_next h it = Some (info_of h c, it\<lparr>prev := Some (end_loc l (pre @ [a])), current := c, el := end_loc l (pre @ [a, c])\<rparr>)"
      using it_next_spec [of h l "pre @ [a]" c cs it] Nil.prems by simp
    moreover have "last_r = c" using Nil.prems Cons by simp
    ultimately show ?thesis by (subst bubble_inner.simps) (simp add: same_shape_refl it_ref_def)
  qed
next
  case (Cons b mid)
  let ?it = "it\<lparr>prev := Some (end_loc l (pre @ [a])), current := b, el := end_loc l ((pre @ [a]) @ [b])\<rparr>"
  have nx: "it_next h it = Some (info_of h b, ?it)"
    using it_next_spec [of h l "pre @ [a]" b "mid @ rest" it] Cons.prems by simp
  have nb: "info_of h b \<noteq> NULL" "b \<noteq> last_r" using Cons.prems by auto
  have d: "a \<noteq> b" "a \<notin> set mid" "b \<notin> set mid" using Cons.prems(2) by (auto simp: is_list_def)
  show ?case
  proof (cases "key (info_of h b) < key (info_of h a)")
    case True
    obtain na where na: "nodes h a = Some na" using is_list_nodes [OF Cons.prems(2), of a] by auto
    obtain h1 where h1: "set_info h a (info_of h b) = Some h1" "same_shape h h1" "info_of h1 a = info_of h b"
      "\<And>c. c \<noteq> a \<Longrightarrow> nodes h1 c = nodes h c" by (rule set_info_spec [OF na, of "info_of h b"]) (rule that)
    obtain nb1 where nb1: "nodes h1 b = Some nb1" using is_list_nodes [OF Cons.prems(2), of b] h1(4) [of b] d by auto
    obtain h2 where h2: "set_info h1 b (info_of h a) = Some h2" "same_shape h1 h2" "info_of h2 b = info_of h a"
      "\<And>c. c \<noteq> b \<Longrightarrow> nodes h2 c = nodes h1 c" by (rule set_info_spec [OF nb1, of "info_of h a"]) (rule that)
    have sh: "same_shape h h2" using h1(2) h2(2) same_shape_trans by blast
    have other: "nodes h2 c = nodes h c" if "c \<noteq> a" "c \<noteq> b" for c using that h1(4) h2(4) by simp
    have m: "contents h2 mid = contents h mid"
      by (rule contents_cong, rule info_of_cong, rule other) (use d in auto)
    have ne: "end_of_list \<noteq> a" "end_of_list \<noteq> b" using Cons.prems(2) by (auto simp: is_list_def)
    have ok: "heap_ok h2" using heap_ok_shape [OF sh Cons.prems(1)] other ne by simp
    have lst: "is_list h2 l ((pre @ [a]) @ b # mid @ rest)" using is_list_shape [OF sh Cons.prems(2)] by simp
    have step: "bubble_inner sort_func h it (info_of h a) a last_r swp
        = bubble_inner sort_func h2 ?it (info_of h2 b) b last_r True"
      using nx nb assms(1) True h1(1) h2(1,3) by (subst bubble_inner.simps) (simp add: it_ref_def)
    from Cons.IH [OF ok lst, of ?it True] Cons.prems m h2(3) obtain h' it' where
      ih: "bubble_inner sort_func h2 ?it (info_of h2 b) b last_r True = Some (h', it', List.last (b # mid), True)"
      "same_shape h2 h'" "it_list it' = it_list it" "contents h' (b # mid) = fst (bub key (info_of h a) (contents h mid))"
      "\<And>c. c \<notin> set (b # mid) \<Longrightarrow> nodes h' c = nodes h2 c" by auto
    have "info_of h' a = info_of h b"
      using ih(5) [of a] d h2(4) [of a] h1(3) by (simp add: info_of_def)
    then have "contents h' (a # b # mid) = fst (bub key (info_of h a) (contents h (b # mid)))"
      using ih(4) True by simp
    moreover have "nodes h' c = nodes h c" if "c \<notin> set (a # b # mid)" for c
      using that ih(5) [of c] other [of c] by simp
    ultimately show ?thesis
      using ih(1,3) step same_shape_trans [OF sh ih(2)] True by auto
  next
    case False
    have step: "bubble_inner sort_func h it (info_of h a) a last_r swp
        = bubble_inner sort_func h ?it (info_of h b) b last_r swp"
      using nx nb assms(1) False by (subst bubble_inner.simps) (simp add: it_ref_def)
    from Cons.IH [OF Cons.prems(1), of "pre @ [a]" b ?it swp] Cons.prems obtain h' it' where
      ih: "bubble_inner sort_func h ?it (info_of h b) b last_r swp =
        Some (h', it', List.last (b # mid), swp \<or> snd (bub key (info_of h b) (contents h mid)))"
      "same_shape h h'" "it_list it' = it_list it" "contents h' (b # mid) = fst (bub key (info_of h b) (contents h mid))"
      "\<And>c. c \<notin> set (b # mid) \<Longrightarrow> nodes h' c = nodes h c" by auto
    have "info_of h' a = info_of h a" using ih(5) [of a] d by (simp add: info_of_def)
    then have "contents h' (a # b # mid) = fst (bub key (info_of h a) (contents h (b # mid)))"
      using ih(4) False by simp
    then show ?thesis using ih step False by auto
  qed
qed

lemma sorted_snoc_rest:
  assumes "sorted (map key rest)" "\<And>u v. u \<in> set us \<Longrightarrow> v \<in> set rest \<Longrightarrow> key u \<le> key v" "sorted (map key us)"
  shows "sorted (map key (us @ rest))"
  using assms by (auto simp: sorted_append)

lemma bubble_outer_spec:
  assumes "\<And>a b. sort_func a b > 0 \<longleftrightarrow> key b < key a"
    and "heap_ok h" "is_list h l (us @ rest)" "us = [] \<Longrightarrow> rest = []" "el it = First l" "it_list it = l"
    and "NULL \<notin> set (contents h us)" "if rest = [] then rf = NULL else rf = hd rest"
    and "sorted (map key (contents h rest))"
    and "\<And>u v. u \<in> set (contents h us) \<Longrightarrow> v \<in> set (contents h rest) \<Longrightarrow> key u \<le> key v"
  shows "\<exists>h'. bubble_outer sort_func h it rf = Some h' \<and> heap_ok h' \<and> same_shape h h' \<and>
    sorted (map key (contents h' (us @ rest))) \<and>
    mset (contents h' (us @ rest)) = mset (contents h (us @ rest)) \<and>
    (\<forall>k. filter (\<lambda>v. k = key v) (contents h' (us @ rest)) = filter (\<lambda>v. k = key v) (contents h (us @ rest))) \<and>
    (\<forall>c. c \<notin> set (us @ rest) \<longrightarrow> nodes h' c = nodes h c)"
  using assms(2-)
proof (induction "length us" arbitrary: h it us rest rf rule: less_induct)
  case less
  show ?case
  proof (cases us)
    case Nil
    then have e: "rest = []" using less.prems by simp
    obtain it1 where it1: "it_next h it = Some (NULL, it1)" "el it1 = Next end_of_list" "current it1 = end_of_list"
      using it_next_end [of h l "[]" it] less.prems Nil e by (simp add: end_loc_def)
    obtain it2 where it2: "it_next h it1 = Some (NULL, it2)"
      using it_next_at_end [OF less.prems(1) it1(2)] by blast
    have "bubble_inner sort_func h it1 NULL end_of_list rf False = Some (h, it2, end_of_list, False)"
      using it2 by (subst bubble_inner.simps) simp
    then have "bubble_outer sort_func h it rf = Some h"
      using it1 by (subst bubble_outer.simps) (simp add: it_ref_def)
    then show ?thesis using less.prems Nil e by (simp add: same_shape_refl)
  next
    case (Cons a mid)
    let ?it = "it\<lparr>prev := Some (end_loc l []), current := a, el := end_loc l ([] @ [a])\<rparr>"
    define r where "r = bub key (info_of h a) (contents h mid)"
    have nx: "it_next h it = Some (info_of h a, ?it)"
      using it_next_spec [of h l "[]" a "mid @ rest" it] less.prems Cons by (simp add: end_loc_def)
    have d: "distinct (us @ rest)" "end_of_list \<notin> set (us @ rest)" using less.prems(2) by (auto simp: is_list_def)
    have lr: "rf \<notin> set mid"
      using is_list_NULL [OF less.prems(1,2)] less.prems(7) d(1) Cons
      by (cases rest) auto
    from bubble_inner_spec [where sort_func = sort_func and key = key and h = h and l = l and pre = "[]"
        and a = a and mid = mid and rest = rest and it = ?it and last_r = rf and swp = False,
        OF assms(1) less.prems(1)]
    obtain h1 it' where in1: "bubble_inner sort_func h ?it (info_of h a) a rf False = Some (h1, it', List.last us, snd r)"
      "same_shape h h1" "it_list it' = l" "contents h1 us = fst r" "\<And>c. c \<notin> set us \<Longrightarrow> nodes h1 c = nodes h c"
      using less.prems Cons lr by (auto simp: r_def)
    have cr: "contents h1 rest = contents h rest"
      by (rule contents_cong, rule info_of_cong, rule in1(5)) (use d in auto)
    have ok1: "heap_ok h1" using heap_ok_shape [OF in1(2) less.prems(1)] in1(5) [of end_of_list] d by simp
    have ms: "mset (fst r) = mset (contents h us)" using mset_bub [of key] Cons by (simp add: r_def)
    have st: "filter (\<lambda>v. k = key v) (fst r) = filter (\<lambda>v. k = key v) (contents h us)" for k
      using bub_stable [of k key "info_of h a" "contents h mid"] Cons by (simp add: r_def)
    have le: "key u \<le> key v" if "u \<in> set (fst r)" "v \<in> set (contents h rest)" for u v
      using that less.prems(9) ms by (metis set_mset_mset)
    have out: "bubble_outer sort_func h it rf = (if snd r then bubble_outer sort_func h1 (rewind it') (List.last us) else Some h1)"
      using nx in1(1) by (subst bubble_outer.simps) (simp add: it_ref_def)
    show ?thesis
    proof (cases "snd r")
      case False
      then have "fst r = contents h us" "sorted (map key (fst r))"
        using bub_sorted [of key "info_of h a" "contents h mid"] Cons by (auto simp: r_def)
      then have "sorted (map key (contents h1 (us @ rest)))"
        using sorted_snoc_rest [of key "contents h rest" "fst r"] less.prems(8) le in1(4) cr by simp
      moreover have "contents h1 (us @ rest) = contents h (us @ rest)"
        using \<open>fst r = contents h us\<close> in1(4) cr by simp
      ultimately show ?thesis using out False ok1 in1 by simp
    next
      case True
      let ?us = "butlast us" and ?rest = "List.last us # rest"
      have ne: "us \<noteq> []" "mid \<noteq> []" using Cons True by (auto simp: r_def)
      have sp: "?us @ ?rest = us @ rest" using ne by simp
      have c1: "contents h1 ?us = butlast (fst r)" "info_of h1 (List.last us) = List.last (fst r)"
        unfolding in1(4) [symmetric] contents_def using ne by (simp_all add: map_butlast last_map)
      have mx: "key u \<le> key (List.last (fst r))" if "u \<in> set (fst r)" for u
        using that bub_max [of u "info_of h a" "contents h mid" key] ms Cons unfolding r_def by (metis mset_bub set_mset_mset)
      have lst: "is_list h1 l (?us @ ?rest)" using is_list_shape [OF in1(2) less.prems(2)] by (simp only: sp)
      have "\<exists>h'. bubble_outer sort_func h1 (rewind it') (List.last us) = Some h' \<and> heap_ok h' \<and> same_shape h1 h' \<and>
          sorted (map key (contents h' (?us @ ?rest))) \<and>
          mset (contents h' (?us @ ?rest)) = mset (contents h1 (?us @ ?rest)) \<and>
          (\<forall>k. filter (\<lambda>v. k = key v) (contents h' (?us @ ?rest)) = filter (\<lambda>v. k = key v) (contents h1 (?us @ ?rest))) \<and>
          (\<forall>c. c \<notin> set (?us @ ?rest) \<longrightarrow> nodes h' c = nodes h1 c)"
      proof (rule less.hyps [OF _ ok1 lst])
        show "length ?us < length us" using ne by simp
        show "?us = [] \<Longrightarrow> ?rest = []" using Cons ne(2) by (cases mid) auto
        show "el (rewind it') = First l" "it_list (rewind it') = l" using in1(3) by (simp_all add: rewind_def)
        have "set (butlast (fst r)) \<subseteq> set (contents h us)" using ms by (metis in_set_butlastD set_mset_mset subsetI)
        then show "NULL \<notin> set (contents h1 ?us)" using less.prems(6) c1 by auto
        show "sorted (map key (contents h1 ?rest))" using less.prems(8) le cr c1 by (auto simp: r_def)
        show "key u \<le> key v" if "u \<in> set (contents h1 ?us)" "v \<in> set (contents h1 ?rest)" for u v
          using that le mx cr c1 by (auto dest: in_set_butlastD)
      qed simp
      then obtain h' where h': "bubble_outer sort_func h1 (rewind it') (List.last us) = Some h'" "heap_ok h'" "same_shape h1 h'"
          "sorted (map key (contents h' (us @ rest)))"
          "mset (contents h' (us @ rest)) = mset (contents h1 (us @ rest))"
          "\<And>k. filter (\<lambda>v. k = key v) (contents h' (us @ rest)) = filter (\<lambda>v. k = key v) (contents h1 (us @ rest))"
          "\<And>c. c \<notin> set (us @ rest) \<Longrightarrow> nodes h' c = nodes h1 c" unfolding sp by blast
      have e1: "contents h1 (us @ rest) = fst r @ contents h rest" using in1(4) cr by simp
      show ?thesis
        using out True h' same_shape_trans [OF in1(2) h'(3)] in1(5) ms st unfolding e1 by auto
    qed
  qed
qed

lemma bubble_sort_spec:
  assumes "\<And>a b. sort_func a b > 0 \<longleftrightarrow> key b < key a"
    and "heap_ok h" "is_list h l as" "NULL \<notin> set (contents h as)"
  obtains h' where "bubble_sort sort_func h l = Some h'" "heap_ok h'" "is_list h' l as"
    "contents h' as = sort_key key (contents h as)" "changes_only h h' {} (set as)"
proof -
  from bubble_outer_spec [where sort_func = sort_func and key = key and h = h and l = l and us = as and rest = "[]"
      and it = "it_init l" and rf = NULL, OF assms(1,2)] assms(3,4)
  obtain h' where h': "bubble_outer sort_func h (it_init l) NULL = Some h'" "heap_ok h'" "same_shape h h'"
    "sorted (map key (contents h' as))" "mset (contents h' as) = mset (contents h as)"
    "\<And>k. filter (\<lambda>v. k = key v) (contents h' as) = filter (\<lambda>v. k = key v) (contents h as)"
    "\<And>c. c \<notin> set as \<Longrightarrow> nodes h' c = nodes h c"
    by (auto simp: it_init_def)
  have "sort_key key (contents h as) = contents h' as"
    using h' by (intro properties_for_sort_key) auto
  then show ?thesis
    using that [of h'] h' is_list_shape [OF h'(3) assms(3)]
    by (simp add: bubble_sort_def changes_only_def same_shape_def)
qed

subsection \<open>The queue contract\<close>

text \<open>
  What the users of a list as a queue or a stack rely on: pushes at either end and a \<open>pop\<close> at the
  front act on the represented sequence, as long as it has at most \<open>cap\<close> elements.
\<close>

locale deque =
  fixes cap :: nat
    and rep :: "'s \<Rightarrow> 'v list \<Rightarrow> bool"
    and pb :: "'s \<Rightarrow> 'v \<Rightarrow> 's option"
    and pf :: "'s \<Rightarrow> 'v \<Rightarrow> 's option"
    and take_first :: "'s \<Rightarrow> ('v \<times> 's) option"
  assumes pb_law: "rep s xs \<Longrightarrow> length xs < cap \<Longrightarrow> \<exists>s'. pb s x = Some s' \<and> rep s' (xs @ [x])"
    and pf_law: "rep s xs \<Longrightarrow> length xs < cap \<Longrightarrow> \<exists>s'. pf s x = Some s' \<and> rep s' (x # xs)"
    and take_law: "rep s (x # xs) \<Longrightarrow> \<exists>s'. take_first s = Some (x, s') \<and> rep s' xs"
begin

lemma push_back_all:
  "rep s xs \<Longrightarrow> length xs + length ys \<le> cap \<Longrightarrow> \<exists>s'. foldM pb ys s = Some s' \<and> rep s' (xs @ ys)"
proof (induction ys arbitrary: s xs)
  case (Cons y ys)
  from pb_law [OF Cons.prems(1), of y] Cons.prems obtain s1 where "pb s y = Some s1" "rep s1 (xs @ [y])" by auto
  with Cons.IH [of s1 "xs @ [y]"] Cons.prems show ?case by auto
qed simp

lemma push_front_all:
  "rep s xs \<Longrightarrow> length xs + length ys \<le> cap \<Longrightarrow> \<exists>s'. foldM pf ys s = Some s' \<and> rep s' (rev ys @ xs)"
proof (induction ys arbitrary: s xs)
  case (Cons y ys)
  from pf_law [OF Cons.prems(1), of y] Cons.prems obtain s1 where "pf s y = Some s1" "rep s1 (y # xs)" by auto
  with Cons.IH [of s1 "y # xs"] Cons.prems show ?case by auto
qed simp

lemma drain_all: "rep s (xs @ ys) \<Longrightarrow> \<exists>s'. repeatM take_first (length xs) s = Some (xs, s') \<and> rep s' ys"
proof (induction xs arbitrary: s)
  case (Cons x xs)
  from take_law [of s x "xs @ ys"] Cons.prems obtain s1 where "take_first s = Some (x, s1)" "rep s1 (xs @ ys)" by auto
  with Cons.IH [of s1] show ?case by auto
qed simp

lemma fifo:
  assumes "rep s []" "length xs \<le> cap"
  shows "\<exists>s' s''. foldM pb xs s = Some s' \<and> repeatM take_first (length xs) s' = Some (xs, s'') \<and> rep s'' []"
  using push_back_all [OF assms(1), of xs] drain_all [of _ xs "[]"] assms(2) by auto

lemma lifo:
  assumes "rep s []" "length xs \<le> cap"
  shows "\<exists>s' s''. foldM pf xs s = Some s' \<and> repeatM take_first (length xs) s' = Some (rev xs, s'') \<and> rep s'' []"
  using push_front_all [OF assms(1), of xs] drain_all [of _ "rev xs" "[]"] assms(2) by auto

end

definition represents :: "list_id \<Rightarrow> heap \<Rightarrow> void_ptr list \<Rightarrow> bool" where
  "represents l h xs \<longleftrightarrow> heap_ok h \<and> length xs < 2 ^ 32 \<and> (\<exists>as. is_list h l as \<and> contents h as = xs)"

interpretation bl: deque "2 ^ 32 - 1" "represents l" "\<lambda>h x. map_option snd (push_back True h l x)"
    "\<lambda>h x. map_option snd (push_front True h l x)" "\<lambda>h. pop h l" for l
proof
  fix s xs x
  assume r: "represents l s xs" "length xs < 2 ^ 32 - 1"
  then obtain as where as: "heap_ok s" "is_list s l as" "contents s as = xs" by (auto simp: represents_def)
  show "\<exists>s'. map_option snd (push_back True s l x) = Some s' \<and> represents l s' (xs @ [x])"
    by (rule push_back_spec [OF as(1,2), of x]) (use as r in \<open>auto simp: represents_def\<close>)
  show "\<exists>s'. map_option snd (push_front True s l x) = Some s' \<and> represents l s' (x # xs)"
    by (rule push_front_spec [OF as(1,2), of x]) (use as r in \<open>auto simp: represents_def\<close>)
next
  fix s x xs
  assume "represents l s (x # xs)"
  then obtain a as where as: "heap_ok s" "is_list s l (a # as)" "info_of s a = x" "contents s as = xs" "length as < 2 ^ 32"
    by (auto simp: represents_def contents_def)
  show "\<exists>s'. pop s l = Some (x, s') \<and> represents l s' xs"
    by (rule pop_spec [OF as(1,2,5)]) (use as in \<open>auto simp: represents_def\<close>)
qed

lemma empty_represents: "heap_ok h \<Longrightarrow> represents l (empty h l) []"
proof -
  assume "heap_ok h"
  then have "heap_ok (empty h l)" "is_list (empty h l) l []"
    by (simp_all add: empty_def put_list_def heap_ok_def is_list_def end_loc_def)
  then show ?thesis unfolding represents_def by (auto intro!: exI [of _ "[]"])
qed

text \<open>A store with the global \<open>end_of_list\<close> only.\<close>

definition heap0 :: heap where
  "heap0 = \<lparr>nodes = [end_of_list \<mapsto> \<lparr>nxt = end_of_list, info = NULL\<rparr>], lists = (\<lambda>_. None), brk = 2\<rparr>"

lemma heap0_ok: "heap_ok heap0"
  by (auto simp: heap_ok_def heap0_def NULL_def end_of_list_def)

lemma heap0_list:
  assumes "length xs < 2 ^ 32"
  shows "\<exists>h as. heap_ok h \<and> is_list h l as \<and> contents h as = xs"
  using bl.push_back_all [OF empty_represents [OF heap0_ok, of l], of xs] assms
  by (auto simp: represents_def)

subsection \<open>Properties\<close>

text \<open>
  C2. \<open>bubble_sort\<close> terminates and sorts: on a well-formed list without null elements and a comparison
  function that orders by a key, the elements come out in the order of a stable sort by the key, in
  the same nodes, and nothing else in the store changes.
\<close>

theorem bubble_sort_sorts:
  assumes "\<And>a b. sort_func a b > 0 \<longleftrightarrow> key b < key a"
    and "heap_ok h" "is_list h l as" "NULL \<notin> set (contents h as)"
  shows "\<exists>h'. bubble_sort sort_func h l = Some h' \<and> heap_ok h' \<and> is_list h' l as \<and>
    contents h' as = sort_key key (contents h as) \<and> changes_only h h' {} (set as)"
  using bubble_sort_spec [where sort_func = sort_func and key = key, OF assms] by metis

theorem bubble_sort_sorts_witness:
  "\<exists>h as h'. heap_ok h \<and> is_list h 7 as \<and> bubble_sort (\<lambda>a b. int a - int b) h 7 = Some h' \<and>
     contents h as = [3, 5, 4, 1] \<and> contents h' as = [1, 3, 4, 5]"
proof -
  obtain h as where h: "heap_ok h" "is_list h 7 as" "contents h as = [3, 5, 4, 1]"
    using heap0_list [of "[3, 5, 4, 1]" 7] by auto
  have "sort_key (\<lambda>x. x) [3, 5, 4, 1 :: nat] = [1, 3, 4, 5]" by simp
  with bubble_sort_sorts [of "\<lambda>a b. int a - int b" "\<lambda>x. x", OF _ h(1,2)] h show ?thesis
    by (auto simp: NULL_def)
qed

text \<open>
  A list is a queue and a stack: elements pushed at the back are popped in the order they were
  pushed, elements pushed at the front in the opposite order, for fewer than \<open>2 ^ 32\<close> elements (the
  range of the counter that \<open>pop\<close> tests).
\<close>

theorem base_list_fifo_lifo:
  assumes "represents l h []" "length xs < 2 ^ 32"
  shows "(\<exists>h1 h2. foldM (\<lambda>h x. map_option snd (push_back True h l x)) xs h = Some h1 \<and>
      repeatM (\<lambda>h. pop h l) (length xs) h1 = Some (xs, h2) \<and> represents l h2 []) \<and>
    (\<exists>h1 h2. foldM (\<lambda>h x. map_option snd (push_front True h l x)) xs h = Some h1 \<and>
      repeatM (\<lambda>h. pop h l) (length xs) h1 = Some (rev xs, h2) \<and> represents l h2 [])"
  using bl.fifo [OF assms(1), of xs] bl.lifo [OF assms(1), of xs] assms(2) by auto

theorem base_list_fifo_lifo_witness:
  "\<exists>h1 h2. foldM (\<lambda>h x. map_option snd (push_back True h 0 x)) [10, 20, 30] (empty heap0 0) = Some h1 \<and>
     repeatM (\<lambda>h. pop h 0) 3 h1 = Some ([10, 20, 30], h2)"
  using base_list_fifo_lifo [OF empty_represents [OF heap0_ok], of "[10, 20, 30]" 0]
  by (auto simp: numeral_3_eq_3)

text \<open>
  C12. \<open>append\<close> joins two lists that share no node, and \<open>disjoin\<close> with the appended list undoes it: the
  first list has its nodes, elements and count back and the second is a well-formed list throughout.
\<close>

theorem append_disjoin:
  assumes "heap_ok h" "is_list h l as" "is_list h m bs" "l \<noteq> m" "set as \<inter> set bs = {}" "length bs < 2 ^ 32"
  shows "\<exists>h1 h2. append_list h l m = Some h1 \<and> is_list h1 l (as @ bs) \<and> is_list h1 m bs \<and>
      contents h1 (as @ bs) = contents h as @ contents h bs \<and>
      disjoin h1 l m = Some h2 \<and> is_list h2 l as \<and> is_list h2 m bs \<and>
      contents h2 as = contents h as \<and> contents h2 bs = contents h bs"
proof -
  obtain h1 where h1: "append_list h l m = Some h1" "heap_ok h1" "is_list h1 l (as @ bs)"
    "contents h1 (as @ bs) = contents h as @ contents h bs" "changes_only h h1 {l} (set as)"
    using append_spec [OF assms] by blast
  have m1: "is_list h1 m bs \<and> contents h1 bs = contents h bs"
    using changes_only_list [OF h1(5) assms(3)] assms(4,5) by auto
  then obtain mb where mb: "lists h1 m = Some mb" "first mb = (if bs = [] then end_of_list else hd bs)"
    by (cases bs) (auto simp: is_list_def split: option.splits)
  obtain h2 where h2: "disjoin h1 l m = Some h2" "is_list h2 l as" "contents h2 as = contents h1 as"
    "changes_only h1 h2 {l} (set as)"
    using disjoin_spec [OF h1(2,3) mb] by blast
  have m2: "is_list h2 m bs \<and> contents h2 bs = contents h1 bs"
    using changes_only_list [OF h2(4), of m bs] m1 assms(4,5) by auto
  show ?thesis using h1 h2 m1 m2 by (auto simp: contents_def)
qed

theorem append_disjoin_witness:
  "\<exists>h h1 h2 as bs. contents h as = [1, 2] \<and> contents h bs = [3] \<and> append_list h 0 5 = Some h1 \<and>
     contents h1 (as @ bs) = [1, 2, 3] \<and> disjoin h1 0 5 = Some h2 \<and> is_list h2 0 as"
proof -
  let ?n = "\<lambda>p v. \<lparr>nxt = p, info = v\<rparr>"
  let ?h = "\<lparr>nodes = [end_of_list \<mapsto> ?n end_of_list NULL, 2 \<mapsto> ?n 3 1, 3 \<mapsto> ?n end_of_list 2, 4 \<mapsto> ?n end_of_list 3],
    lists = [0 \<mapsto> \<lparr>first = 2, last_ptr = Next 3, elements = 2\<rparr>, 5 \<mapsto> \<lparr>first = 4, last_ptr = Next 4, elements = 1\<rparr>],
    brk = 5\<rparr>"
  have w: "heap_ok ?h" "is_list ?h 0 [2, 3]" "is_list ?h 5 [4]"
    by (auto simp: heap_ok_def is_list_def end_loc_def NULL_def end_of_list_def)
  have c: "contents ?h [2, 3] = [1, 2]" "contents ?h [4] = [3]"
    by (simp_all add: contents_def info_of_def end_of_list_def)
  show ?thesis using append_disjoin [OF w] c by fastforce
qed

text \<open>
  Removing the current element through an iterator takes its node out of the list and leaves the
  iterator where it was, so that the next step yields the element after the removed one; inserting
  after the current element puts the new one behind it and moves the iterator to it.
\<close>

theorem iterator_remove_insert:
  assumes "heap_ok h" "is_list h l (as @ a # bs)" "length (as @ bs) < 2 ^ 32" "it_list it = l" "el it = end_loc l as"
  shows "\<exists>it1. it_next h it = Some (info_of h a, it1) \<and>
    (\<exists>h' it2. it_remove h it1 = Some (h', it2) \<and> is_list h' l (as @ bs) \<and>
       contents h' (as @ bs) = contents h as @ contents h bs \<and> el it2 = end_loc l as \<and>
       map_option fst (it_next h' it2) = Some (if bs = [] then NULL else info_of h (hd bs))) \<and>
    (\<exists>h' it2. it_after True h it1 x = Some (h', it2) \<and> is_list h' l (as @ a # brk h # bs) \<and>
       contents h' (as @ a # brk h # bs) = contents h (as @ [a]) @ x # contents h bs \<and>
       el it2 = end_loc l (as @ [a, brk h]))"
proof -
  let ?it = "it\<lparr>prev := Some (end_loc l as), current := a, el := end_loc l (as @ [a])\<rparr>"
  have nx: "it_next h it = Some (info_of h a, ?it)" by (rule it_next_spec [OF assms(2,5)])
  obtain h' where h': "remove h l (end_loc l as) = Some h'" "heap_ok h'" "is_list h' l (as @ bs)"
    "contents h' (as @ bs) = contents h as @ contents h bs" using remove_spec [OF assms(1-3)] by blast
  let ?it2 = "?it\<lparr>el := end_loc l as, current := NULL\<rparr>"
  have r: "it_remove h ?it = Some (h', ?it2)" using h'(1) assms(4) by (simp add: it_remove_def)
  have nx2: "map_option fst (it_next h' ?it2) = Some (if bs = [] then NULL else info_of h (hd bs))"
  proof (cases bs)
    case Nil
    then show ?thesis using it_next_end [OF h'(2), of l as ?it2] h'(3) by simp
  next
    case (Cons c cs)
    then have "info_of h' c = info_of h c" using h'(4) by (simp add: contents_def)
    with Cons show ?thesis using it_next_spec [of h' l as c cs ?it2] h'(3) by simp
  qed
  obtain g where g: "after True h l x a = Some g" "is_list g l (as @ a # brk h # bs)"
    "contents g (as @ a # brk h # bs) = contents h (as @ [a]) @ x # contents h bs"
    "nodes g a = map_option (\<lambda>n. n\<lparr>nxt := brk h\<rparr>) (nodes h a)" using after_spec [OF assms(1,2)] by metis
  obtain n where "nodes h a = Some n" using is_list_nodes [OF assms(2), of a] by auto
  then have "it_after True h ?it x = Some (g, ?it\<lparr>current := brk h, el := Next (brk h)\<rparr>)"
    using g(1,4) assms(4) by (simp add: it_after_def)
  moreover have "end_loc l (as @ [a, brk h]) = Next (brk h)" by (simp add: end_loc_def)
  ultimately show ?thesis using nx r h' nx2 g by (auto intro!: exI)
qed

theorem iterator_remove_insert_witness:
  "\<exists>h it1 h' it2 as. it_next h (it_init 0) = Some (10, it1) \<and> it_remove h it1 = Some (h', it2) \<and>
     is_list h' 0 as \<and> contents h' as = [20]"
proof -
  obtain h as where h: "heap_ok h" "is_list h 0 as" "contents h as = [10, 20]"
    using heap0_list [of "[10, 20]" 0] by auto
  then obtain a bs where as: "as = a # bs" "info_of h a = 10" "contents h bs = [20]"
    by (cases as) (auto simp: contents_def)
  have "length bs < 2 ^ 32" using arg_cong [OF as(3), of length] by simp
  then show ?thesis
    using iterator_remove_insert [of h 0 "[]" a bs "it_init 0"] h as by (fastforce simp: it_init_def end_loc_def)
qed

text \<open>
  A \<open>push_back\<close> that runs out of memory reports failure but has already overwritten the link at
  the end of the list with a null pointer: the list is no longer terminated by \<open>end_of_list\<close>, and an
  empty list is no longer empty and has no readable head.
\<close>

theorem push_back_out_of_memory:
  assumes "heap_ok h" "is_list h l as"
  shows "\<exists>h'. push_back False h l x = Some (True, h') \<and> rd h' (end_loc l as) = Some NULL \<and>
    (as = [] \<longrightarrow> is_empty h' l = Some False \<and> head h' l = None \<and> pop h' l = None)"
proof -
  obtain b where b: "lists h l = Some b" "chain (nodes h) (first b) as end_of_list" "last_ptr b = end_loc l as" "distinct as"
    using assms(2) by (rule is_listE)
  obtain h' b' where w: "wr h (end_loc l as) NULL = Some h'" "lists h' = (lists h)(l \<mapsto> b')"
    "chain (nodes h') (first b') as NULL" "\<And>a. nodes h' a = None \<longleftrightarrow> nodes h a = None"
    by (rule wr_end_loc [OF b(1,2,4), of NULL]) blast
  have "rd h' (end_loc l as) = Some NULL"
    using w(2,3) by (cases as rule: rev_cases) (auto simp: end_loc_def chain_append split: option.splits)
  moreover have "nodes h' NULL = None" using w(4) assms(1) by (simp add: heap_ok_def)
  ultimately show ?thesis
    using w(1-3) b by (auto simp: push_back_def new_node_def is_empty_def head_def pop_def)
qed

theorem push_back_out_of_memory_witness:
  "\<exists>h'. push_back False (empty heap0 0) 0 42 = Some (True, h') \<and> is_empty h' 0 = Some False \<and> head h' 0 = None"
proof -
  have "heap_ok (empty heap0 0)" "is_list (empty heap0 0) 0 []"
    using heap0_ok by (simp_all add: empty_def put_list_def heap_ok_def is_list_def end_loc_def)
  from push_back_out_of_memory [OF this] show ?thesis by auto
qed

text \<open>
  The debug function \<open>check_list\<close> accepts every well-formed list without null elements except the
  empty one, which it reports as corrupt.
\<close>

theorem check_list_rejects_empty:
  assumes "heap_ok h" "is_list h l as" "NULL \<notin> set (contents h as)"
  shows "check_list h l = Some (as \<noteq> [])"
  by (rule check_list_spec [OF assms])

theorem check_list_rejects_empty_witness: "check_list (empty heap0 0) 0 = Some False"
proof -
  have "heap_ok (empty heap0 0)" "is_list (empty heap0 0) 0 []"
    using heap0_ok by (simp_all add: empty_def put_list_def heap_ok_def is_list_def end_loc_def)
  from check_list_rejects_empty [OF this] show ?thesis by simp
qed

end
