(* ===== verification/IList.thy ===== *)
theory IList
  imports Prelude "HOL-Library.Monad_Syntax"
begin

text \<open>
  The intrusive lists of \<open>sql_list.h\<close>: \<open>SQL_I_List\<close>, which links elements through a \<open>next\<close> field of
  theirs and keeps a reference to the last link, and the doubly linked \<open>ilink\<close> with \<open>base_ilist\<close>,
  whose list object contains the sentinel \<open>last\<close>. Both live in an explicit store; pointers and fields
  are named by values, and an access to memory that holds no object is \<^term>\<open>None\<close>.
\<close>

type_synonym obj = nat

subsection \<open>SQL\_I\_List\<close>

text \<open>A \<open>T **\<close> is the \<open>first\<close> field of a list object or the link field of an element; 0 is \<open>NULL\<close>.\<close>

datatype sloc = SFirst obj | SNext obj

record SQL_I_List =
  s_elements :: uint
  s_first :: obj
  s_next :: sloc

record sheap =
  slinks :: "obj \<Rightarrow> obj option"
  slists :: "obj \<Rightarrow> SQL_I_List option"

fun swr :: "sheap \<Rightarrow> sloc \<Rightarrow> obj \<Rightarrow> sheap option" where
  "swr h (SFirst l) p = map_option (\<lambda>b. h\<lparr>slists := (slists h)(l \<mapsto> b\<lparr>s_first := p\<rparr>)\<rparr>) (slists h l)"
| "swr h (SNext a) p = map_option (\<lambda>_. h\<lparr>slinks := (slinks h)(a \<mapsto> p)\<rparr>) (slinks h a)"

definition sput :: "sheap \<Rightarrow> obj \<Rightarrow> SQL_I_List \<Rightarrow> sheap" where
  "sput h l b = h\<lparr>slists := (slists h)(l \<mapsto> b)\<rparr>"

definition sil_empty :: "sheap \<Rightarrow> obj \<Rightarrow> sheap" where
  "sil_empty h l = sput h l \<lparr>s_elements = 0, s_first = 0, s_next = SFirst l\<rparr>"

text \<open>The copy constructor looks at the count, the assignment operator does not.\<close>

definition sil_copy :: "sheap \<Rightarrow> obj \<Rightarrow> obj \<Rightarrow> sheap option" where
  "sil_copy h l tmp = do {
     t \<leftarrow> slists h tmp;
     Some (sput h l \<lparr>s_elements = s_elements t, s_first = s_first t,
       s_next = (if s_elements t \<noteq> 0 then s_next t else SFirst l)\<rparr>)
   }"

definition sil_assign :: "sheap \<Rightarrow> obj \<Rightarrow> obj \<Rightarrow> sheap option" where
  "sil_assign h l tmp = do {
     t \<leftarrow> slists h tmp;
     Some (sput h l \<lparr>s_elements = s_elements t, s_first = s_first t, s_next = s_next t\<rparr>)
   }"

definition link_in_list :: "sheap \<Rightarrow> obj \<Rightarrow> obj \<Rightarrow> sloc \<Rightarrow> sheap option" where
  "link_in_list h l element next_ptr = do {
     b \<leftarrow> slists h l;
     h1 \<leftarrow> swr (sput h l (b\<lparr>s_elements := s_elements b + 1\<rparr>)) (s_next b) element;
     b1 \<leftarrow> slists h1 l;
     swr (sput h1 l (b1\<lparr>s_next := next_ptr\<rparr>)) next_ptr 0
   }"

definition save_and_clear :: "sheap \<Rightarrow> obj \<Rightarrow> obj \<Rightarrow> sheap option" where
  "save_and_clear h l save = do {
     h1 \<leftarrow> sil_assign h save l;
     Some (sil_empty h1 l)
   }"

definition sil_push_front :: "sheap \<Rightarrow> obj \<Rightarrow> obj \<Rightarrow> sheap option" where
  "sil_push_front h l save = do {
     b \<leftarrow> slists h l;
     s \<leftarrow> slists h save;
     h1 \<leftarrow> swr h (s_next s) (s_first b);
     b1 \<leftarrow> slists h1 l;
     s1 \<leftarrow> slists h1 save;
     Some (sput h1 l (b1\<lparr>s_first := s_first s1, s_elements := s_elements b1 + s_elements s1\<rparr>))
   }"

definition sil_push_back :: "sheap \<Rightarrow> obj \<Rightarrow> obj \<Rightarrow> sheap option" where
  "sil_push_back h l save = do {
     s \<leftarrow> slists h save;
     if s_first s \<noteq> 0 then do {
       b \<leftarrow> slists h l;
       h1 \<leftarrow> swr h (s_next b) (s_first s);
       b1 \<leftarrow> slists h1 l;
       s1 \<leftarrow> slists h1 save;
       Some (sput h1 l (b1\<lparr>s_next := s_next s1, s_elements := s_elements b1 + s_elements s1\<rparr>))
     } else Some h
   }"

subsection \<open>ilink and base\_ilist\<close>

text \<open>
  A pointer to an \<open>ilink\<close> is null, a list element or the sentinel of a list object; an \<open>ilink **\<close> is
  the \<open>first\<close> field of a list object or the \<open>next\<close> field of an \<open>ilink\<close>.
\<close>

datatype iptr = INull | Elem obj | Sentinel obj

datatype iloc = IFirst obj | INext iptr

record ilink =
  il_prev :: "iloc option"
  il_next :: iptr

record iheap =
  ilinks :: "iptr \<Rightarrow> ilink option"
  firsts :: "obj \<Rightarrow> iptr option"

fun ird :: "iheap \<Rightarrow> iloc \<Rightarrow> iptr option" where
  "ird h (IFirst l) = firsts h l"
| "ird h (INext p) = map_option il_next (ilinks h p)"

fun iwr :: "iheap \<Rightarrow> iloc \<Rightarrow> iptr \<Rightarrow> iheap option" where
  "iwr h (IFirst l) p = map_option (\<lambda>_. h\<lparr>firsts := (firsts h)(l \<mapsto> p)\<rparr>) (firsts h l)"
| "iwr h (INext a) p = map_option (\<lambda>n. h\<lparr>ilinks := (ilinks h)(a \<mapsto> n\<lparr>il_next := p\<rparr>)\<rparr>) (ilinks h a)"

definition set_prev :: "iheap \<Rightarrow> iptr \<Rightarrow> iloc option \<Rightarrow> iheap option" where
  "set_prev h a v = map_option (\<lambda>n. h\<lparr>ilinks := (ilinks h)(a \<mapsto> n\<lparr>il_prev := v\<rparr>)\<rparr>) (ilinks h a)"

definition ilink_new :: "iheap \<Rightarrow> obj \<Rightarrow> iheap" where
  "ilink_new h a = h\<lparr>ilinks := (ilinks h)(Elem a \<mapsto> \<lparr>il_prev = None, il_next = INull\<rparr>)\<rparr>"

definition unlink :: "iheap \<Rightarrow> iptr \<Rightarrow> iheap option" where
  "unlink h a = do {
     n \<leftarrow> ilinks h a;
     h1 \<leftarrow> (case il_prev n of None \<Rightarrow> Some h | Some p \<Rightarrow> iwr h p (il_next n));
     n1 \<leftarrow> ilinks h1 a;
     h2 \<leftarrow> (if il_next n1 \<noteq> INull then set_prev h1 (il_next n1) (il_prev n1) else Some h1);
     Some (h2\<lparr>ilinks := (ilinks h2)(a \<mapsto> \<lparr>il_prev = None, il_next = INull\<rparr>)\<rparr>)
   }"

text \<open>\<open>empty\<close> sets the \<open>prev\<close> field of the sentinel and leaves its \<open>next\<close> field, which the constructor
  of \<open>ilink\<close> has set to null.\<close>

definition ilist_new :: "iheap \<Rightarrow> obj \<Rightarrow> iheap" where
  "ilist_new h l = h\<lparr>firsts := (firsts h)(l \<mapsto> Sentinel l),
     ilinks := (ilinks h)(Sentinel l \<mapsto> \<lparr>il_prev = Some (IFirst l), il_next = INull\<rparr>)\<rparr>"

definition il_empty :: "iheap \<Rightarrow> obj \<Rightarrow> iheap option" where
  "il_empty h l = do {
     h1 \<leftarrow> iwr h (IFirst l) (Sentinel l);
     set_prev h1 (Sentinel l) (Some (IFirst l))
   }"

definition il_is_empty :: "iheap \<Rightarrow> obj \<Rightarrow> bool option" where
  "il_is_empty h l = map_option (\<lambda>p. p = Sentinel l) (firsts h l)"

definition il_is_last :: "iheap \<Rightarrow> obj \<Rightarrow> iptr \<Rightarrow> bool option" where
  "il_is_last h l p = map_option (\<lambda>n. il_next n = INull \<or> il_next n = Sentinel l) (ilinks h p)"

definition il_append :: "iheap \<Rightarrow> obj \<Rightarrow> iptr \<Rightarrow> iheap option" where
  "il_append h l a = do {
     f \<leftarrow> firsts h l;
     h1 \<leftarrow> set_prev h f (Some (INext a));
     h2 \<leftarrow> iwr h1 (INext a) f;
     h3 \<leftarrow> set_prev h2 a (Some (IFirst l));
     iwr h3 (IFirst l) a
   }"

definition il_push_back :: "iheap \<Rightarrow> obj \<Rightarrow> iptr \<Rightarrow> iheap option" where
  "il_push_back h l a = do {
     s \<leftarrow> ilinks h (Sentinel l);
     p \<leftarrow> il_prev s;
     h1 \<leftarrow> iwr h p a;
     h2 \<leftarrow> iwr h1 (INext a) (Sentinel l);
     s2 \<leftarrow> ilinks h2 (Sentinel l);
     h3 \<leftarrow> set_prev h2 a (il_prev s2);
     set_prev h3 (Sentinel l) (Some (INext a))
   }"

definition il_get :: "iheap \<Rightarrow> obj \<Rightarrow> (iptr \<times> iheap) option" where
  "il_get h l = do {
     first_link \<leftarrow> firsts h l;
     if first_link = Sentinel l then Some (INull, h)
     else do { h1 \<leftarrow> unlink h first_link; Some (first_link, h1) }
   }"

definition il_head :: "iheap \<Rightarrow> obj \<Rightarrow> iptr option" where
  "il_head h l = map_option (\<lambda>f. if f \<noteq> Sentinel l then f else INull) (firsts h l)"

text \<open>\<open>new_owner->last= last\<close> copies the two fields of the sentinel.\<close>

definition move_elements_to :: "iheap \<Rightarrow> obj \<Rightarrow> obj \<Rightarrow> iheap option" where
  "move_elements_to h l new_owner = do {
     f \<leftarrow> firsts h l;
     h1 \<leftarrow> iwr h (IFirst new_owner) f;
     s \<leftarrow> ilinks h1 (Sentinel l);
     il_empty (h1\<lparr>ilinks := (ilinks h1)(Sentinel new_owner \<mapsto> s)\<rparr>) l
   }"

record base_ilist_iterator =
  ii_list :: obj
  ii_el :: iloc
  ii_current :: iptr

definition ii_init :: "obj \<Rightarrow> base_ilist_iterator" where
  "ii_init l = \<lparr>ii_list = l, ii_el = IFirst l, ii_current = INull\<rparr>"

definition ii_next :: "iheap \<Rightarrow> base_ilist_iterator \<Rightarrow> (iptr \<times> base_ilist_iterator) option" where
  "ii_next h it = do {
     c \<leftarrow> ird h (ii_el it);
     if c = Sentinel (ii_list it) then Some (INull, it\<lparr>ii_current := c\<rparr>)
     else Some (c, it\<lparr>ii_current := c, ii_el := INext c\<rparr>)
   }"

subsection \<open>The doubly linked list: representation\<close>

definition lend :: "iloc \<Rightarrow> obj list \<Rightarrow> iloc" where
  "lend loc as = (if as = [] then loc else INext (Elem (List.last as)))"

text \<open>The elements \<open>as\<close> are linked both ways from the location \<open>loc\<close> with contents \<open>p\<close> up to \<open>q\<close>.\<close>

fun dseg :: "(iptr \<Rightarrow> ilink option) \<Rightarrow> iloc \<Rightarrow> iptr \<Rightarrow> obj list \<Rightarrow> iptr \<Rightarrow> bool" where
  "dseg E loc p [] q \<longleftrightarrow> p = q"
| "dseg E loc p (a # as) q \<longleftrightarrow> p = Elem a \<and>
     (\<exists>n. E p = Some n \<and> il_prev n = Some loc \<and> dseg E (INext p) (il_next n) as q)"

text \<open>The same up to the sentinel of list \<open>l\<close>, whose \<open>prev\<close> field refers to the last link.\<close>

fun dtail :: "(iptr \<Rightarrow> ilink option) \<Rightarrow> iloc \<Rightarrow> iptr \<Rightarrow> obj list \<Rightarrow> obj \<Rightarrow> bool" where
  "dtail E loc p [] l \<longleftrightarrow> p = Sentinel l \<and> (\<exists>n. E p = Some n \<and> il_prev n = Some loc)"
| "dtail E loc p (a # as) l \<longleftrightarrow> p = Elem a \<and>
     (\<exists>n. E p = Some n \<and> il_prev n = Some loc \<and> dtail E (INext p) (il_next n) as l)"

definition is_ilist :: "iheap \<Rightarrow> obj \<Rightarrow> obj list \<Rightarrow> bool" where
  "is_ilist h l as \<longleftrightarrow> distinct as \<and> (\<exists>f. firsts h l = Some f \<and> dtail (ilinks h) (IFirst l) f as l)"

lemma set_prev_Some:
  "ilinks h a = Some n \<Longrightarrow> set_prev h a v = Some (h\<lparr>ilinks := (ilinks h)(a \<mapsto> n\<lparr>il_prev := v\<rparr>)\<rparr>)"
  by (simp add: set_prev_def)

lemma dtail_append:
  "dtail E loc p (as @ bs) l \<longleftrightarrow> (\<exists>q. dseg E loc p as q \<and> dtail E (lend loc as) q bs l)"
  by (induction as arbitrary: loc p) (auto simp: lend_def)

lemma dseg_frame:
  "dseg E loc p as q \<Longrightarrow> (\<And>a. a \<in> set as \<Longrightarrow> E' (Elem a) = E (Elem a)) \<Longrightarrow> dseg E' loc p as q"
  by (induction as arbitrary: loc p) auto

lemma dtail_frame:
  "dtail E loc p as l \<Longrightarrow> (\<And>a. a \<in> set as \<Longrightarrow> E' (Elem a) = E (Elem a)) \<Longrightarrow> E' (Sentinel l) = E (Sentinel l) \<Longrightarrow>
   dtail E' loc p as l"
  by (induction as arbitrary: loc p) auto

lemma dseg_snoc:
  "dseg E loc p (as @ [a]) q \<longleftrightarrow> dseg E loc p as (Elem a) \<and>
     (\<exists>n. E (Elem a) = Some n \<and> il_prev n = Some (lend loc as) \<and> il_next n = q)"
  by (induction as arbitrary: loc p) (auto simp: lend_def)

text \<open>Writing through the last link of a segment changes where it leads.\<close>

lemma iwr_lend:
  assumes "firsts h l = Some f" "dseg (ilinks h) (IFirst l) f as q" "distinct as"
  obtains h' f' where "iwr h (lend (IFirst l) as) r = Some h'" "firsts h' = (firsts h)(l \<mapsto> f')"
    "dseg (ilinks h') (IFirst l) f' as r" "\<And>p. p \<notin> Elem ` set as \<Longrightarrow> ilinks h' p = ilinks h p"
proof (cases as rule: rev_cases)
  case Nil
  then show ?thesis using assms that [of "h\<lparr>firsts := (firsts h)(l \<mapsto> r)\<rparr>" r] by (simp add: lend_def)
next
  case (snoc bs a)
  with assms obtain n where n: "dseg (ilinks h) (IFirst l) f bs (Elem a)" "ilinks h (Elem a) = Some n"
    "il_prev n = Some (lend (IFirst l) bs)" by (auto simp: dseg_snoc)
  let ?h = "h\<lparr>ilinks := (ilinks h)(Elem a \<mapsto> n\<lparr>il_next := r\<rparr>)\<rparr>"
  have "dseg (ilinks ?h) (IFirst l) f bs (Elem a)"
    by (rule dseg_frame [OF n(1)]) (use assms(3) snoc in auto)
  with n snoc have "dseg (ilinks ?h) (IFirst l) f as r" by (simp add: dseg_snoc)
  moreover have "iwr h (lend (IFirst l) as) r = Some ?h" using n(2) snoc by (simp add: lend_def)
  moreover have "firsts ?h = (firsts h)(l \<mapsto> f)" using assms(1) by (simp add: fun_upd_idem)
  ultimately show ?thesis using that [of ?h f] snoc by simp
qed

text \<open>Changing the back link of the first object of a tail moves the tail to another location.\<close>

lemma set_prev_dtail:
  assumes "dtail (ilinks h) loc p bs l" "distinct bs"
  obtains h' where "set_prev h p (Some loc') = Some h'" "firsts h' = firsts h" "dtail (ilinks h') loc' p bs l"
    "\<And>q. q \<noteq> p \<Longrightarrow> ilinks h' q = ilinks h q" "p \<noteq> INull" "p = (if bs = [] then Sentinel l else Elem (hd bs))"
proof -
  obtain n where n: "ilinks h p = Some n" using assms(1) by (cases bs) auto
  let ?h = "h\<lparr>ilinks := (ilinks h)(p \<mapsto> n\<lparr>il_prev := Some loc'\<rparr>)\<rparr>"
  have "dtail (ilinks ?h) loc' p bs l"
  proof (cases bs)
    case (Cons b cs)
    then have t: "dtail (ilinks h) (INext p) (il_next n) cs l" "b \<notin> set cs" "p = Elem b"
      using assms n by auto
    have "dtail (ilinks ?h) (INext p) (il_next n) cs l"
      by (rule dtail_frame [OF t(1)]) (use t in auto)
    with Cons assms(1) n show ?thesis by simp
  qed (use assms n in simp)
  moreover have "p \<noteq> INull \<and> p = (if bs = [] then Sentinel l else Elem (hd bs))" using assms(1) by (cases bs) auto
  moreover have "set_prev h p (Some loc') = Some ?h" by (rule set_prev_Some [OF n])
  ultimately show ?thesis using that [of ?h] by simp
qed

definition il_changes :: "iheap \<Rightarrow> iheap \<Rightarrow> obj \<Rightarrow> obj set \<Rightarrow> bool" where
  "il_changes h h' l A \<longleftrightarrow> (\<forall>m. m \<noteq> l \<longrightarrow> firsts h' m = firsts h m) \<and>
     (\<forall>p. p \<notin> insert (Sentinel l) (Elem ` A) \<longrightarrow> ilinks h' p = ilinks h p)"

lemma il_changes_other:
  assumes "il_changes h h' l A" "is_ilist h m bs" "m \<noteq> l" "A \<inter> set bs = {}"
  shows "is_ilist h' m bs"
proof -
  obtain f where f: "firsts h m = Some f" "dtail (ilinks h) (IFirst m) f bs m" "distinct bs"
    using assms(2) by (auto simp: is_ilist_def)
  have "dtail (ilinks h') (IFirst m) f bs m"
    by (rule dtail_frame [OF f(2)]) (use assms in \<open>auto simp: il_changes_def\<close>)
  with f assms(1,3) show ?thesis by (simp add: is_ilist_def il_changes_def)
qed

lemma unlink_spec:
  assumes "is_ilist h l (as @ a # bs)"
  obtains h' where "unlink h (Elem a) = Some h'" "is_ilist h' l (as @ bs)"
    "ilinks h' (Elem a) = Some \<lparr>il_prev = None, il_next = INull\<rparr>" "il_changes h h' l (set (as @ a # bs))"
proof -
  obtain f where f: "firsts h l = Some f" "dtail (ilinks h) (IFirst l) f (as @ a # bs) l"
    and d: "distinct as" "distinct bs" "a \<notin> set as" "a \<notin> set bs" "set as \<inter> set bs = {}"
    using assms by (auto simp: is_ilist_def)
  then obtain n where n: "dseg (ilinks h) (IFirst l) f as (Elem a)" "ilinks h (Elem a) = Some n"
    "il_prev n = Some (lend (IFirst l) as)" "dtail (ilinks h) (INext (Elem a)) (il_next n) bs l"
    by (auto simp: dtail_append)
  obtain h1 f1 where h1: "iwr h (lend (IFirst l) as) (il_next n) = Some h1" "firsts h1 = (firsts h)(l \<mapsto> f1)"
    "dseg (ilinks h1) (IFirst l) f1 as (il_next n)" "\<And>p. p \<notin> Elem ` set as \<Longrightarrow> ilinks h1 p = ilinks h p"
    by (rule iwr_lend [OF f(1) n(1) d(1), of "il_next n"]) (rule that)
  have t1: "dtail (ilinks h1) (INext (Elem a)) (il_next n) bs l"
    by (rule dtail_frame [OF n(4)]) (use d h1(4) in auto)
  obtain h2 where h2: "set_prev h1 (il_next n) (Some (lend (IFirst l) as)) = Some h2" "firsts h2 = firsts h1"
    "dtail (ilinks h2) (lend (IFirst l) as) (il_next n) bs l" "\<And>q. q \<noteq> il_next n \<Longrightarrow> ilinks h2 q = ilinks h1 q"
    "il_next n \<noteq> INull" "il_next n = (if bs = [] then Sentinel l else Elem (hd bs))"
    by (rule set_prev_dtail [OF t1 d(2), of "lend (IFirst l) as"]) (rule that)
  let ?h = "h2\<lparr>ilinks := (ilinks h2)(Elem a \<mapsto> \<lparr>il_prev = None, il_next = INull\<rparr>)\<rparr>"
  have e: "unlink h (Elem a) = Some ?h"
    using n h1(1) h1(4) [of "Elem a"] h2(1,5) d by (simp add: unlink_def image_iff)
  have "Elem c \<noteq> il_next n" if "c \<in> set as" for c using that d h2(6) by (cases bs) auto
  then have "dseg (ilinks ?h) (IFirst l) f1 as (il_next n)"
    by (intro dseg_frame [OF h1(3)]) (use d h2(4) in auto)
  moreover have "dtail (ilinks ?h) (lend (IFirst l) as) (il_next n) bs l"
    by (rule dtail_frame [OF h2(3)]) (use d in auto)
  ultimately have 1: "is_ilist ?h l (as @ bs)"
    using d h1(2) h2(2) by (auto simp: is_ilist_def dtail_append)
  have "p \<noteq> il_next n" if "p \<notin> insert (Sentinel l) (Elem ` set (as @ a # bs))" for p
    using that h2(6) by (cases bs) auto
  then have "il_changes h ?h l (set (as @ a # bs))"
    using h1(2,4) h2(2,4) by (auto simp: il_changes_def)
  then show ?thesis using that [OF e 1] by simp
qed

lemma il_push_back_spec:
  assumes "is_ilist h l as" "a \<notin> set as" "ilinks h (Elem a) = Some n0"
  obtains h' where "il_push_back h l (Elem a) = Some h'" "is_ilist h' l (as @ [a])" "il_changes h h' l (insert a (set as))"
proof -
  obtain f where f: "firsts h l = Some f" "dtail (ilinks h) (IFirst l) f as l" and d: "distinct as"
    using assms(1) by (auto simp: is_ilist_def)
  have "dtail (ilinks h) (IFirst l) f (as @ []) l" using f(2) by simp
  then obtain s where s: "dseg (ilinks h) (IFirst l) f as (Sentinel l)" "ilinks h (Sentinel l) = Some s"
    "il_prev s = Some (lend (IFirst l) as)" unfolding dtail_append by auto
  obtain h1 f1 where h1: "iwr h (lend (IFirst l) as) (Elem a) = Some h1" "firsts h1 = (firsts h)(l \<mapsto> f1)"
    "dseg (ilinks h1) (IFirst l) f1 as (Elem a)" "\<And>p. p \<notin> Elem ` set as \<Longrightarrow> ilinks h1 p = ilinks h p"
    by (rule iwr_lend [OF f(1) s(1) d, of "Elem a"]) (rule that)
  have n: "ilinks h1 (Elem a) = Some n0" "ilinks h1 (Sentinel l) = Some s" using h1(4) [of "Elem a"] h1(4) [of "Sentinel l"] assms s by auto
  let ?n = "\<lparr>il_prev = Some (lend (IFirst l) as), il_next = Sentinel l\<rparr>"
  let ?h = "h1\<lparr>ilinks := (ilinks h1)(Elem a \<mapsto> ?n, Sentinel l \<mapsto> s\<lparr>il_prev := Some (INext (Elem a))\<rparr>)\<rparr>"
  have e: "il_push_back h l (Elem a) = Some ?h"
    using s h1(1) n by (cases n0) (simp add: il_push_back_def set_prev_def fun_upd_twist)
  have "dseg (ilinks ?h) (IFirst l) f1 as (Elem a)"
    by (rule dseg_frame [OF h1(3)]) (use assms(2) in auto)
  then have 1: "is_ilist ?h l (as @ [a])"
    using d assms(2) h1(2) by (auto simp: is_ilist_def dtail_append)
  have "il_changes h ?h l (insert a (set as))" using h1(2,4) by (auto simp: il_changes_def)
  then show ?thesis using that [OF e 1] by simp
qed

lemma il_append_spec:
  assumes "is_ilist h l as" "a \<notin> set as" "ilinks h (Elem a) = Some n0"
  obtains h' where "il_append h l (Elem a) = Some h'" "is_ilist h' l (a # as)" "il_changes h h' l (insert a (set as))"
proof -
  obtain f where f: "firsts h l = Some f" "dtail (ilinks h) (IFirst l) f as l" and d: "distinct as"
    using assms(1) by (auto simp: is_ilist_def)
  obtain h1 where h1: "set_prev h f (Some (INext (Elem a))) = Some h1" "firsts h1 = firsts h"
    "dtail (ilinks h1) (INext (Elem a)) f as l" "\<And>q. q \<noteq> f \<Longrightarrow> ilinks h1 q = ilinks h q"
    "f \<noteq> INull" "f = (if as = [] then Sentinel l else Elem (hd as))"
    by (rule set_prev_dtail [OF f(2) d, of "INext (Elem a)"]) (rule that)
  have n: "ilinks h1 (Elem a) = Some n0" using h1(4) [of "Elem a"] h1(6) assms(2,3) by (cases as) auto
  let ?h = "\<lparr>ilinks = (ilinks h1)(Elem a \<mapsto> \<lparr>il_prev = Some (IFirst l), il_next = f\<rparr>), firsts = (firsts h)(l \<mapsto> Elem a)\<rparr>"
  have e: "il_append h l (Elem a) = Some ?h"
    using f(1) h1(1,2) n by (cases n0; cases h1) (simp add: il_append_def set_prev_Some)
  have "dtail (ilinks ?h) (INext (Elem a)) f as l"
    by (rule dtail_frame [OF h1(3)]) (use assms(2) in auto)
  then have 1: "is_ilist ?h l (a # as)" using d assms(2) by (simp add: is_ilist_def)
  have "p \<noteq> f" if "p \<notin> insert (Sentinel l) (Elem ` set as)" for p using that h1(6) by (cases as) auto
  then have "il_changes h ?h l (insert a (set as))" using h1(4) by (auto simp: il_changes_def)
  then show ?thesis using that [OF e 1] by simp
qed

lemma il_get_spec:
  assumes "is_ilist h l as"
  shows "case as of [] \<Rightarrow> il_get h l = Some (INull, h)
    | a # bs \<Rightarrow> \<exists>h'. il_get h l = Some (Elem a, h') \<and> is_ilist h' l bs \<and>
        ilinks h' (Elem a) = Some \<lparr>il_prev = None, il_next = INull\<rparr>"
proof (cases as)
  case Nil
  then show ?thesis using assms by (auto simp: il_get_def is_ilist_def)
next
  case (Cons a bs)
  then have f: "firsts h l = Some (Elem a)" using assms by (auto simp: is_ilist_def)
  from unlink_spec [of h l "[]" a bs] assms Cons obtain h' where
    "unlink h (Elem a) = Some h'" "is_ilist h' l bs" "ilinks h' (Elem a) = Some \<lparr>il_prev = None, il_next = INull\<rparr>"
    by auto
  then show ?thesis using f Cons by (simp add: il_get_def)
qed

subsection \<open>SQL\_I\_List: representation\<close>

fun schain :: "(obj \<Rightarrow> obj option) \<Rightarrow> obj \<Rightarrow> obj list \<Rightarrow> obj \<Rightarrow> bool" where
  "schain L p [] q \<longleftrightarrow> p = q"
| "schain L p (a # as) q \<longleftrightarrow> p = a \<and> (case L a of None \<Rightarrow> False | Some r \<Rightarrow> schain L r as q)"

definition send :: "obj \<Rightarrow> obj list \<Rightarrow> sloc" where
  "send l as = (if as = [] then SFirst l else SNext (List.last as))"

definition is_sil :: "sheap \<Rightarrow> obj \<Rightarrow> obj list \<Rightarrow> bool" where
  "is_sil h l as \<longleftrightarrow> distinct as \<and> 0 \<notin> set as \<and> (\<exists>b. slists h l = Some b \<and> schain (slinks h) (s_first b) as 0 \<and>
     s_next b = send l as \<and> s_elements b = of_nat (length as))"

lemma schain_append: "schain L p (as @ bs) q \<longleftrightarrow> (\<exists>r. schain L p as r \<and> schain L r bs q)"
  by (induction as arbitrary: p) (auto split: option.splits)

lemma schain_frame: "schain L p as q \<Longrightarrow> (\<And>a. a \<in> set as \<Longrightarrow> M a = L a) \<Longrightarrow> schain M p as q"
  by (induction as arbitrary: p) (auto split: option.splits)

lemma is_silE:
  assumes "is_sil h l as"
  obtains b where "slists h l = Some b" "schain (slinks h) (s_first b) as 0" "s_next b = send l as"
    "s_elements b = of_nat (length as)" "distinct as" "0 \<notin> set as"
  using assms by (auto simp: is_sil_def)

lemma swr_send:
  assumes "slists h l = Some b" "schain (slinks h) (s_first b) as q" "distinct as"
  obtains h' b' where "swr h (send l as) r = Some h'" "slists h' = (slists h)(l \<mapsto> b')"
    "s_next b' = s_next b" "s_elements b' = s_elements b" "schain (slinks h') (s_first b') as r"
    "\<And>a. a \<notin> set as \<Longrightarrow> slinks h' a = slinks h a" "as \<noteq> [] \<Longrightarrow> b' = b"
    "\<And>a. slinks h a \<noteq> None \<Longrightarrow> slinks h' a \<noteq> None"
proof (cases as rule: rev_cases)
  case Nil
  then show ?thesis using assms that [of "h\<lparr>slists := (slists h)(l \<mapsto> b\<lparr>s_first := r\<rparr>)\<rparr>" "b\<lparr>s_first := r\<rparr>"]
    by (simp add: send_def)
next
  case (snoc cs c)
  then have c: "schain (slinks h) (s_first b) cs c" "slinks h c \<noteq> None" "c \<notin> set cs"
    using assms by (auto simp: schain_append split: option.splits)
  let ?h = "h\<lparr>slinks := (slinks h)(c \<mapsto> r)\<rparr>"
  have "schain (slinks ?h) (s_first b) cs c" by (rule schain_frame [OF c(1)]) (use c in auto)
  then have "schain (slinks ?h) (s_first b) as r" using snoc by (auto simp: schain_append)
  moreover have "swr h (send l as) r = Some ?h" using c(2) snoc by (auto simp: send_def)
  moreover have "slists ?h = (slists h)(l \<mapsto> b)" using assms(1) by (simp add: fun_upd_idem)
  ultimately show ?thesis using that [of ?h b] snoc by simp
qed

lemma link_in_list_spec:
  assumes "is_sil h l as" "e \<notin> set as" "e \<noteq> 0" "slinks h e \<noteq> None"
  obtains h' where "link_in_list h l e (SNext e) = Some h'" "is_sil h' l (as @ [e])"
proof -
  obtain b where b: "slists h l = Some b" "schain (slinks h) (s_first b) as 0" "s_next b = send l as"
    "s_elements b = of_nat (length as)" "distinct as" "0 \<notin> set as" using assms(1) by (rule is_silE)
  let ?g = "sput h l (b\<lparr>s_elements := s_elements b + 1\<rparr>)"
  have g: "slists ?g l = Some (b\<lparr>s_elements := s_elements b + 1\<rparr>)" "slinks ?g = slinks h" by (simp_all add: sput_def)
  obtain h1 b1 where w: "swr ?g (send l as) e = Some h1" "slists h1 = (slists ?g)(l \<mapsto> b1)"
    "s_elements b1 = s_elements b + 1" "schain (slinks h1) (s_first b1) as e"
    "\<And>a. slinks ?g a \<noteq> None \<Longrightarrow> slinks h1 a \<noteq> None"
    by (rule swr_send [OF g(1), of as 0 e]) (use b g that in auto)
  let ?h = "(sput h1 l (b1\<lparr>s_next := SNext e\<rparr>))\<lparr>slinks := (slinks h1)(e \<mapsto> 0)\<rparr>"
  have "slinks h1 e \<noteq> None" using w(5) [of e] assms(4) g by simp
  then have "link_in_list h l e (SNext e) = Some ?h"
    using b(1,3) w(1,2) by (auto simp: link_in_list_def sput_def)
  moreover have "schain (slinks ?h) (s_first b1) as e"
    by (rule schain_frame [OF w(4)]) (use assms(2) in \<open>auto simp: sput_def\<close>)
  then have "is_sil ?h l (as @ [e])"
    using b w(3) assms(2,3) by (auto simp: is_sil_def sput_def schain_append send_def)
  ultimately show ?thesis using that by blast
qed

lemma sil_push_back_spec:
  assumes "is_sil h l as" "is_sil h m bs" "l \<noteq> m" "set as \<inter> set bs = {}"
  obtains h' where "sil_push_back h l m = Some h'" "is_sil h' l (as @ bs)"
proof -
  obtain b where b: "slists h l = Some b" "schain (slinks h) (s_first b) as 0" "s_next b = send l as"
    "s_elements b = of_nat (length as)" "distinct as" "0 \<notin> set as" using assms(1) by (rule is_silE)
  obtain c where c: "slists h m = Some c" "schain (slinks h) (s_first c) bs 0" "s_next c = send m bs"
    "s_elements c = of_nat (length bs)" "distinct bs" "0 \<notin> set bs" using assms(2) by (rule is_silE)
  show ?thesis
  proof (cases "bs = []")
    case True
    then show ?thesis using that [of h] assms(1) c by (simp add: sil_push_back_def)
  next
    case False
    then have "s_first c \<noteq> 0" using c by (cases bs) auto
    obtain h1 b1 where w: "swr h (send l as) (s_first c) = Some h1" "slists h1 = (slists h)(l \<mapsto> b1)"
      "s_elements b1 = s_elements b" "schain (slinks h1) (s_first b1) as (s_first c)"
      "\<And>a. a \<notin> set as \<Longrightarrow> slinks h1 a = slinks h a"
      by (rule swr_send [OF b(1,2,5), of "s_first c"]) (rule that)
    let ?h = "sput h1 l (b1\<lparr>s_next := s_next c, s_elements := s_elements b1 + s_elements c\<rparr>)"
    have "sil_push_back h l m = Some ?h"
      using b c w(1,2) assms(3) \<open>s_first c \<noteq> 0\<close> by (simp add: sil_push_back_def)
    moreover have "schain (slinks h1) (s_first c) bs 0"
      by (rule schain_frame [OF c(2)]) (use assms(4) w(5) in blast)
    then have "is_sil ?h l (as @ bs)"
      using b c w(3,4) False assms(4) by (auto simp: is_sil_def sput_def schain_append send_def)
    ultimately show ?thesis using that by blast
  qed
qed

lemma sil_push_front_links:
  assumes "slists h l = Some b" "is_sil h m bs" "bs \<noteq> []" "l \<noteq> m"
  obtains h' where "sil_push_front h l m = Some h'" "\<And>a. a \<notin> set bs \<Longrightarrow> slinks h' a = slinks h a"
    "schain (slinks h') (hd bs) bs (s_first b)"
    "slists h' l = Some (b\<lparr>s_first := hd bs, s_elements := s_elements b + of_nat (length bs)\<rparr>)"
proof -
  obtain c where c: "slists h m = Some c" "schain (slinks h) (s_first c) bs 0" "s_next c = send m bs"
    "s_elements c = of_nat (length bs)" "distinct bs" "0 \<notin> set bs" using assms(2) by (rule is_silE)
  obtain h1 c1 where w: "swr h (send m bs) (s_first b) = Some h1" "slists h1 = (slists h)(m \<mapsto> c1)"
    "schain (slinks h1) (s_first c1) bs (s_first b)" "\<And>a. a \<notin> set bs \<Longrightarrow> slinks h1 a = slinks h a"
    "bs \<noteq> [] \<Longrightarrow> c1 = c"
    by (rule swr_send [OF c(1,2,5), of "s_first b"]) (rule that)
  have "s_first c = hd bs" using c(2) assms(3) by (cases bs) auto
  then show ?thesis
    using that [of "sput h1 l (b\<lparr>s_first := hd bs, s_elements := s_elements b + of_nat (length bs)\<rparr>)"] w c assms
    by (simp add: sil_push_front_def sput_def)
qed

subsection \<open>Properties\<close>

text \<open>
  Unlinking an element needs only the element: wherever it stands, \<open>unlink\<close> takes it out of its
  list, keeps the order of the others, leaves the element unlinked and does not touch other lists.
\<close>

theorem ilink_unlink_anywhere:
  assumes "is_ilist h l (as @ a # bs)" "is_ilist h m cs" "m \<noteq> l" "set (as @ a # bs) \<inter> set cs = {}"
  shows "\<exists>h'. unlink h (Elem a) = Some h' \<and> is_ilist h' l (as @ bs) \<and> is_ilist h' m cs \<and>
    ilinks h' (Elem a) = Some \<lparr>il_prev = None, il_next = INull\<rparr> \<and> unlink h' (Elem a) = Some h'"
proof -
  obtain h' where h': "unlink h (Elem a) = Some h'" "is_ilist h' l (as @ bs)"
    "ilinks h' (Elem a) = Some \<lparr>il_prev = None, il_next = INull\<rparr>" "il_changes h h' l (set (as @ a # bs))"
    by (rule unlink_spec [OF assms(1)])
  moreover have "unlink h' (Elem a) = Some h'"
    using h'(3) by (cases h') (simp add: unlink_def fun_upd_idem)
  ultimately show ?thesis using il_changes_other [OF h'(4) assms(2-4)] by blast
qed

theorem ilink_unlink_anywhere_witness:
  "\<exists>h h'. is_ilist h 1 [7, 8, 9] \<and> unlink h (Elem 8) = Some h' \<and> is_ilist h' 1 [7, 9]"
proof -
  let ?h = "\<lparr>ilinks = [Elem 7 \<mapsto> \<lparr>il_prev = Some (IFirst 1), il_next = Elem 8\<rparr>,
      Elem 8 \<mapsto> \<lparr>il_prev = Some (INext (Elem 7)), il_next = Elem 9\<rparr>,
      Elem 9 \<mapsto> \<lparr>il_prev = Some (INext (Elem 8)), il_next = Sentinel 1\<rparr>,
      Sentinel 1 \<mapsto> \<lparr>il_prev = Some (INext (Elem 9)), il_next = INull\<rparr>,
      Sentinel 2 \<mapsto> \<lparr>il_prev = Some (IFirst 2), il_next = INull\<rparr>], firsts = [1 \<mapsto> Elem 7, 2 \<mapsto> Sentinel 2]\<rparr>"
  have "is_ilist ?h 1 ([7] @ 8 # [9])" "is_ilist ?h 2 []" by (simp_all add: is_ilist_def)
  from ilink_unlink_anywhere [OF this] this(1) show ?thesis by auto
qed

text \<open>
  A \<open>base_ilist\<close> keeps the order of its operations: \<open>push_back\<close> adds an element behind all others,
  \<open>append\<close> (despite its name) before them, and \<open>get\<close> takes the first one and leaves it unlinked.
\<close>

theorem base_ilist_operations:
  assumes "is_ilist h l as" "a \<notin> set as" "ilinks h (Elem a) = Some n"
  shows "(\<exists>h'. il_push_back h l (Elem a) = Some h' \<and> is_ilist h' l (as @ [a])) \<and>
    (\<exists>h' h''. il_append h l (Elem a) = Some h' \<and> is_ilist h' l (a # as) \<and>
       il_get h' l = Some (Elem a, h'') \<and> is_ilist h'' l as) \<and>
    il_is_empty h l = Some (as = []) \<and> il_head h l = Some (if as = [] then INull else Elem (hd as))"
proof (intro conjI)
  show "\<exists>h'. il_push_back h l (Elem a) = Some h' \<and> is_ilist h' l (as @ [a])"
    by (rule il_push_back_spec [OF assms]) blast
  obtain h' where h': "il_append h l (Elem a) = Some h'" "is_ilist h' l (a # as)"
    by (rule il_append_spec [OF assms])
  from il_get_spec [OF h'(2)] h' show "\<exists>h' h''. il_append h l (Elem a) = Some h' \<and> is_ilist h' l (a # as) \<and>
       il_get h' l = Some (Elem a, h'') \<and> is_ilist h'' l as" by auto
  show "il_is_empty h l = Some (as = [])" "il_head h l = Some (if as = [] then INull else Elem (hd as))"
    using assms(1) by (cases as; auto simp: is_ilist_def il_is_empty_def il_head_def)+
qed

theorem base_ilist_operations_witness:
  "\<exists>h'. il_push_back (ilink_new (ilist_new \<lparr>ilinks = (\<lambda>_. None), firsts = (\<lambda>_. None)\<rparr> 1) 7) 1 (Elem 7) = Some h'
     \<and> is_ilist h' 1 [7]"
proof -
  let ?h = "ilink_new (ilist_new \<lparr>ilinks = (\<lambda>_. None), firsts = (\<lambda>_. None)\<rparr> 1) 7"
  have "is_ilist ?h 1 []" "7 \<notin> set []" "ilinks ?h (Elem 7) = Some \<lparr>il_prev = None, il_next = INull\<rparr>"
    by (simp_all add: is_ilist_def ilink_new_def ilist_new_def)
  from base_ilist_operations [OF this] show ?thesis by auto
qed

text \<open>
  \<open>move_elements_to\<close> does not give the elements to the new owner: the sentinel it copies is not the
  object the last element points to, so the new owner is not a well-formed list of anything, and is
  not even empty when there was nothing to move; the old owner is empty.
\<close>

theorem move_elements_to_broken:
  assumes "is_ilist h l as" "is_ilist h m []" "l \<noteq> m"
  shows "\<exists>h'. move_elements_to h l m = Some h' \<and> is_ilist h' l [] \<and>
    il_is_empty h' m = Some False \<and> (\<forall>bs. \<not> is_ilist h' m bs)"
proof -
  obtain f where f: "firsts h l = Some f" "dtail (ilinks h) (IFirst l) f as l"
    using assms(1) by (auto simp: is_ilist_def)
  obtain s where s: "ilinks h (Sentinel l) = Some s"
    using f(2) dtail_append [of "ilinks h" "IFirst l" f as "[]" l] by auto
  have m: "firsts h m = Some (Sentinel m)" using assms(2) by (auto simp: is_ilist_def)
  let ?h = "\<lparr>ilinks = (ilinks h)(Sentinel m \<mapsto> s, Sentinel l \<mapsto> s\<lparr>il_prev := Some (IFirst l)\<rparr>),
    firsts = (firsts h)(m \<mapsto> f, l \<mapsto> Sentinel l)\<rparr>"
  have e: "move_elements_to h l m = Some ?h"
    using f(1) m s assms(3) by (simp add: move_elements_to_def il_empty_def set_prev_def)
  have f2: "f = Sentinel l \<or> (\<exists>a n. f = Elem a \<and> ilinks h f = Some n \<and> il_prev n = Some (IFirst l))"
    using f(2) by (cases as) auto
  have "\<not> dtail (ilinks ?h) (IFirst m) f bs m" for bs
    using f2 assms(3) by (cases bs) auto
  then have "\<not> is_ilist ?h m bs" for bs using assms(3) by (auto simp: is_ilist_def)
  moreover have "is_ilist ?h l []" by (simp add: is_ilist_def)
  moreover have "il_is_empty ?h m = Some False" using f2 assms(3) by (auto simp: il_is_empty_def)
  ultimately show ?thesis using e by blast
qed

theorem move_elements_to_broken_witness:
  "\<exists>h'. move_elements_to (ilist_new (ilist_new \<lparr>ilinks = (\<lambda>_. None), firsts = (\<lambda>_. None)\<rparr> 1) 2) 1 2 = Some h'
     \<and> il_is_empty h' 2 = Some False"
proof -
  let ?h = "ilist_new (ilist_new \<lparr>ilinks = (\<lambda>_. None), firsts = (\<lambda>_. None)\<rparr> 1) 2"
  have "is_ilist ?h 1 []" "is_ilist ?h 2 []" by (simp_all add: is_ilist_def ilist_new_def)
  from move_elements_to_broken [OF this] show ?thesis by auto
qed

text \<open>
  \<open>SQL_I_List\<close> keeps its elements in the order they are linked, and \<open>push_back\<close> of a saved list
  concatenates; \<open>push_front\<close> of a non-empty saved list puts it in front of a non-empty list.
\<close>

theorem SQL_I_List_concat:
  assumes "is_sil h l as" "is_sil h m bs" "l \<noteq> m" "set as \<inter> set bs = {}" "as \<noteq> []" "bs \<noteq> []"
  shows "(\<exists>h'. sil_push_back h l m = Some h' \<and> is_sil h' l (as @ bs)) \<and>
    (\<exists>h'. sil_push_front h l m = Some h' \<and> is_sil h' l (bs @ as)) \<and>
    (\<forall>e. e \<notin> set as \<longrightarrow> e \<noteq> 0 \<longrightarrow> slinks h e \<noteq> None \<longrightarrow>
       (\<exists>h'. link_in_list h l e (SNext e) = Some h' \<and> is_sil h' l (as @ [e])))"
proof (intro conjI allI impI)
  show "\<exists>h'. sil_push_back h l m = Some h' \<and> is_sil h' l (as @ bs)"
    by (rule sil_push_back_spec [OF assms(1-4)]) blast
  obtain b where b: "slists h l = Some b" "schain (slinks h) (s_first b) as 0" "s_next b = send l as"
    "s_elements b = of_nat (length as)" "distinct as" "0 \<notin> set as" using assms(1) by (rule is_silE)
  have d: "distinct bs" "0 \<notin> set bs" using assms(2) by (auto simp: is_sil_def)
  show "\<exists>h'. sil_push_front h l m = Some h' \<and> is_sil h' l (bs @ as)"
  proof (rule sil_push_front_links [OF b(1) assms(2,6,3)])
    fix h' assume h': "sil_push_front h l m = Some h'" "\<And>a. a \<notin> set bs \<Longrightarrow> slinks h' a = slinks h a"
      "schain (slinks h') (hd bs) bs (s_first b)"
      "slists h' l = Some (b\<lparr>s_first := hd bs, s_elements := s_elements b + of_nat (length bs)\<rparr>)"
    have "schain (slinks h') (s_first b) as 0"
      by (rule schain_frame [OF b(2)]) (use h'(2) assms(4) in blast)
    with h' b d assms show ?thesis by (auto simp: is_sil_def schain_append send_def)
  qed
  show "\<exists>h'. link_in_list h l e (SNext e) = Some h' \<and> is_sil h' l (as @ [e])"
    if "e \<notin> set as" "e \<noteq> 0" "slinks h e \<noteq> None" for e
    by (rule link_in_list_spec [OF assms(1) that]) blast
qed

theorem SQL_I_List_concat_witness:
  "\<exists>h h'. sil_push_front h 1 2 = Some h' \<and> is_sil h' 1 [8, 9, 7]"
proof -
  let ?h = "\<lparr>slinks = [7 \<mapsto> 0, 8 \<mapsto> 9, 9 \<mapsto> 0], slists = [1 \<mapsto> \<lparr>s_elements = 1, s_first = 7, s_next = SNext 7\<rparr>,
    2 \<mapsto> \<lparr>s_elements = 2, s_first = 8, s_next = SNext 9\<rparr>]\<rparr>"
  have "is_sil ?h 1 [7]" "is_sil ?h 2 [8, 9]" by (auto simp: is_sil_def send_def)
  from SQL_I_List_concat [OF this] show ?thesis by auto
qed

text \<open>
  \<open>push_front\<close> onto an empty list leaves the reference to the last link at the list's own \<open>first\<close>
  field, so the next element linked in replaces all that was pushed: the list then holds that
  element only while its count says one more than the number of elements pushed.
\<close>

theorem SQL_I_List_push_front_loses:
  assumes "is_sil h l []" "is_sil h m bs" "bs \<noteq> []" "l \<noteq> m" "e \<notin> set bs" "slinks h e \<noteq> None"
  shows "\<exists>h1 h2 b. sil_push_front h l m = Some h1 \<and> link_in_list h1 l e (SNext e) = Some h2 \<and> slists h2 l = Some b \<and>
    schain (slinks h2) (s_first b) [e] 0 \<and> s_elements b = of_nat (Suc (length bs))"
proof -
  obtain b where b: "slists h l = Some b" "s_first b = 0" "s_next b = SFirst l" "s_elements b = 0"
    using assms(1) by (auto simp: is_sil_def send_def)
  show ?thesis
  proof (rule sil_push_front_links [OF b(1) assms(2-4)])
    fix h1 assume h1: "sil_push_front h l m = Some h1" "\<And>a. a \<notin> set bs \<Longrightarrow> slinks h1 a = slinks h a"
      "slists h1 l = Some (b\<lparr>s_first := hd bs, s_elements := s_elements b + of_nat (length bs)\<rparr>)"
    moreover have "slinks h1 e \<noteq> None" using h1(2) [of e] assms(5,6) by simp
    ultimately show ?thesis using b by (auto simp: link_in_list_def sput_def)
  qed
qed

theorem SQL_I_List_push_front_loses_witness:
  "\<exists>h h1 h2 b. is_sil h 2 [8, 9] \<and> sil_push_front h 1 2 = Some h1 \<and> link_in_list h1 1 7 (SNext 7) = Some h2 \<and>
     slists h2 1 = Some b \<and> schain (slinks h2) (s_first b) [7] 0 \<and> s_elements b = 3"
proof -
  let ?h = "\<lparr>slinks = [7 \<mapsto> 0, 8 \<mapsto> 9, 9 \<mapsto> 0], slists = [1 \<mapsto> \<lparr>s_elements = 0, s_first = 0, s_next = SFirst 1\<rparr>,
    2 \<mapsto> \<lparr>s_elements = 2, s_first = 8, s_next = SNext 9\<rparr>]\<rparr>"
  have w: "is_sil ?h 1 []" "is_sil ?h 2 [8, 9]" by (auto simp: is_sil_def send_def)
  from SQL_I_List_push_front_loses [OF w, of 7] w(2) show ?thesis by auto
qed

end
