(* ===== verification/LifoBuffer.thy ===== *)
theory LifoBuffer
  imports Prelude "HOL-Library.Monad_Syntax"
begin

text \<open>
  \<open>sql_lifo_buffer.h\<close>: the last-in-first-out buffers of the DS-MRR implementation. Both classes work
  on memory the user provides, which is a list of bytes here that several buffers can share; the
  pointers into it are offsets. The pointers \<open>write_ptr1\<close> and \<open>write_ptr2\<close> to the data to be written
  are the data they point to (\<^term>\<open>None\<close>: null pointer). An access outside the memory is \<^term>\<open>None\<close>.
  The code is modelled as built without assertions, where \<open>TRASH_ALLOC\<close> does nothing.
  The field \<open>end\<close> is called \<open>end_ptr\<close>; \<open>pos\<close> is a field of the two derived classes.
\<close>

record Lifo_buffer =
  size1 :: nat
  size2 :: nat
  write_ptr1 :: "bytes option"
  write_ptr2 :: "bytes option"
  read_ptr1 :: nat
  read_ptr2 :: nat
  start :: nat
  end_ptr :: nat
  pos :: nat

datatype enum_direction = BACKWARD | FORWARD

subsection \<open>The base class\<close>

definition setup_writing :: "Lifo_buffer \<Rightarrow> nat \<Rightarrow> nat \<Rightarrow> Lifo_buffer" where
  "setup_writing b len1 len2 = b\<lparr>size1 := len1, size2 := len2\<rparr>"

definition set_buffer_space :: "(Lifo_buffer \<Rightarrow> Lifo_buffer) \<Rightarrow> Lifo_buffer \<Rightarrow> nat \<Rightarrow> nat \<Rightarrow> Lifo_buffer" where
  "set_buffer_space reset b start_arg end_arg = reset (b\<lparr>start := start_arg, end_ptr := end_arg\<rparr>)"

definition can_write :: "(Lifo_buffer \<Rightarrow> nat \<Rightarrow> bool) \<Rightarrow> Lifo_buffer \<Rightarrow> bool" where
  "can_write have_space_for b = have_space_for b (size1 b + size2 b)"

definition lifo_is_empty :: "(Lifo_buffer \<Rightarrow> nat) \<Rightarrow> Lifo_buffer \<Rightarrow> bool" where
  "lifo_is_empty used_size b \<longleftrightarrow> used_size b = 0"

subsection \<open>Forward\_lifo\_buffer\<close>

definition F_type :: enum_direction where "F_type = FORWARD"

definition F_used_size :: "Lifo_buffer \<Rightarrow> nat" where
  "F_used_size b = pos b - start b"

definition F_reset :: "Lifo_buffer \<Rightarrow> Lifo_buffer" where
  "F_reset b = b\<lparr>pos := start b\<rparr>"

definition F_end_of_space :: "Lifo_buffer \<Rightarrow> nat" where
  "F_end_of_space b = pos b"

definition F_have_space_for :: "Lifo_buffer \<Rightarrow> nat \<Rightarrow> bool" where
  "F_have_space_for b bytes \<longleftrightarrow> pos b + bytes < end_ptr b"

definition F_write_bytes :: "bytes \<Rightarrow> Lifo_buffer \<Rightarrow> bytes option \<Rightarrow> nat \<Rightarrow> (bytes \<times> Lifo_buffer) option" where
  "F_write_bytes mem b data n = do {
     d \<leftarrow> data;
     s \<leftarrow> arr_slice d 0 n;
     mem1 \<leftarrow> arr_blit mem (pos b) s;
     Some (mem1, b\<lparr>pos := pos b + n\<rparr>)
   }"

definition F_write :: "bytes \<Rightarrow> Lifo_buffer \<Rightarrow> (bytes \<times> Lifo_buffer) option" where
  "F_write mem b = do {
     (mem1, b1) \<leftarrow> F_write_bytes mem b (write_ptr1 b) (size1 b);
     if size2 b1 \<noteq> 0 then F_write_bytes mem1 b1 (write_ptr2 b1) (size2 b1) else Some (mem1, b1)
   }"

definition F_have_data :: "Lifo_buffer \<Rightarrow> nat \<Rightarrow> nat \<Rightarrow> bool" where
  "F_have_data b position bytes \<longleftrightarrow> int position - int (start b) \<ge> int bytes"

text \<open>The new position is also the pointer to the data.\<close>

definition F_read_bytes :: "nat \<Rightarrow> nat \<Rightarrow> nat \<times> nat" where
  "F_read_bytes position bytes = (position - bytes, position - bytes)"

text \<open>The result of \<open>read\<close>: the end-of-data flag, the position and the two pointers after the call.\<close>

definition F_read_at :: "Lifo_buffer \<Rightarrow> nat \<Rightarrow> nat \<Rightarrow> nat \<Rightarrow> bool \<times> nat \<times> nat \<times> nat" where
  "F_read_at b position ptr1 ptr2 =
     (if \<not> F_have_data b position (size1 b + size2 b) then (True, position, ptr1, ptr2)
      else let (p2, position1) = (if size2 b \<noteq> 0 then F_read_bytes position (size2 b) else (ptr2, position));
               (p1, position2) = F_read_bytes position1 (size1 b)
           in (False, position2, p1, p2))"

definition F_read :: "Lifo_buffer \<Rightarrow> bool \<times> Lifo_buffer" where
  "F_read b = (let (eof, p, r1, r2) = F_read_at b (pos b) (read_ptr1 b) (read_ptr2 b)
               in (eof, b\<lparr>pos := p, read_ptr1 := r1, read_ptr2 := r2\<rparr>))"

definition F_grow :: "Lifo_buffer \<Rightarrow> nat \<Rightarrow> nat \<Rightarrow> Lifo_buffer" where
  "F_grow b unused_start unused_end = b\<lparr>end_ptr := unused_end\<rparr>"

definition F_used_area :: "Lifo_buffer \<Rightarrow> nat" where
  "F_used_area b = start b"

subsection \<open>Backward\_lifo\_buffer\<close>

definition B_type :: enum_direction where "B_type = BACKWARD"

definition B_used_size :: "Lifo_buffer \<Rightarrow> nat" where
  "B_used_size b = end_ptr b - pos b"

definition B_reset :: "Lifo_buffer \<Rightarrow> Lifo_buffer" where
  "B_reset b = b\<lparr>pos := end_ptr b\<rparr>"

definition B_end_of_space :: "Lifo_buffer \<Rightarrow> nat" where
  "B_end_of_space b = end_ptr b"

definition B_have_space_for :: "Lifo_buffer \<Rightarrow> nat \<Rightarrow> bool" where
  "B_have_space_for b bytes \<longleftrightarrow> int (pos b) - int bytes \<ge> int (start b)"

definition B_write_bytes :: "bytes \<Rightarrow> Lifo_buffer \<Rightarrow> bytes option \<Rightarrow> nat \<Rightarrow> (bytes \<times> Lifo_buffer) option" where
  "B_write_bytes mem b data n =
     (if pos b < n then None
      else do {
        d \<leftarrow> data;
        s \<leftarrow> arr_slice d 0 n;
        mem1 \<leftarrow> arr_blit mem (pos b - n) s;
        Some (mem1, b\<lparr>pos := pos b - n\<rparr>)
      })"

definition B_write :: "bytes \<Rightarrow> Lifo_buffer \<Rightarrow> (bytes \<times> Lifo_buffer) option" where
  "B_write mem b = do {
     (mem1, b1) \<leftarrow> (if write_ptr2 b \<noteq> None then B_write_bytes mem b (write_ptr2 b) (size2 b) else Some (mem, b));
     B_write_bytes mem1 b1 (write_ptr1 b1) (size1 b1)
   }"

definition B_have_data :: "Lifo_buffer \<Rightarrow> nat \<Rightarrow> nat \<Rightarrow> bool" where
  "B_have_data b position bytes \<longleftrightarrow> int (end_ptr b) - int position \<ge> int bytes"

definition B_read_bytes :: "nat \<Rightarrow> nat \<Rightarrow> nat \<times> nat" where
  "B_read_bytes position bytes = (position, position + bytes)"

definition B_read_at :: "Lifo_buffer \<Rightarrow> nat \<Rightarrow> nat \<Rightarrow> nat \<Rightarrow> bool \<times> nat \<times> nat \<times> nat" where
  "B_read_at b position ptr1 ptr2 =
     (if \<not> B_have_data b position (size1 b + size2 b) then (True, position, ptr1, ptr2)
      else let (p1, position1) = B_read_bytes position (size1 b);
               (p2, position2) = (if size2 b \<noteq> 0 then B_read_bytes position1 (size2 b) else (ptr2, position1))
           in (False, position2, p1, p2))"

definition B_read :: "Lifo_buffer \<Rightarrow> bool \<times> Lifo_buffer" where
  "B_read b = (let (eof, p, r1, r2) = B_read_at b (pos b) (read_ptr1 b) (read_ptr2 b)
               in (eof, b\<lparr>pos := p, read_ptr1 := r1, read_ptr2 := r2\<rparr>))"

text \<open>The two out-parameters are the first two results.\<close>

definition B_remove_unused_space :: "Lifo_buffer \<Rightarrow> nat \<times> nat \<times> Lifo_buffer" where
  "B_remove_unused_space b = (start b, pos b, b\<lparr>start := pos b\<rparr>)"

definition B_used_area :: "Lifo_buffer \<Rightarrow> nat" where
  "B_used_area b = pos b"

subsection \<open>Sorting and iteration\<close>

text \<open>\<open>my_qsort2\<close> of \<open>mysys\<close> is a parameter: it maps the bytes of an array, the number and the size of
  its elements to the bytes after the call.\<close>

definition lifo_sort :: "(bytes \<Rightarrow> nat \<Rightarrow> nat \<Rightarrow> bytes) \<Rightarrow> (Lifo_buffer \<Rightarrow> nat) \<Rightarrow> (Lifo_buffer \<Rightarrow> nat) \<Rightarrow>
    bytes \<Rightarrow> Lifo_buffer \<Rightarrow> bytes option" where
  "lifo_sort my_qsort2 used_size used_area mem b = (
     let elem_size = size1 b + size2 b; n_elements = used_size b div elem_size in do {
       s \<leftarrow> arr_slice mem (used_area b) (n_elements * elem_size);
       arr_blit mem (used_area b) (my_qsort2 s n_elements elem_size)
     })"

record Lifo_buffer_iterator =
  it_pos :: nat
  it_read_ptr1 :: nat
  it_read_ptr2 :: nat

definition lifo_it_init :: "Lifo_buffer \<Rightarrow> Lifo_buffer_iterator \<Rightarrow> Lifo_buffer_iterator" where
  "lifo_it_init buf it = it\<lparr>it_pos := pos buf\<rparr>"

definition lifo_it_read :: "(Lifo_buffer \<Rightarrow> nat \<Rightarrow> nat \<Rightarrow> nat \<Rightarrow> bool \<times> nat \<times> nat \<times> nat) \<Rightarrow> Lifo_buffer \<Rightarrow>
    Lifo_buffer_iterator \<Rightarrow> bool \<times> Lifo_buffer_iterator" where
  "lifo_it_read read_at buf it =
     (let (eof, p, r1, r2) = read_at buf (it_pos it) (it_read_ptr1 it) (it_read_ptr2 it)
      in (eof, \<lparr>it_pos = p, it_read_ptr1 = r1, it_read_ptr2 = r2\<rparr>))"

subsection \<open>The contract of a LIFO buffer\<close>

text \<open>
  What a user of a buffer relies on, in terms of the items it holds with the one written last first:
  a write that there is room for adds the item, a read takes the item written last and reports the
  end of the data on an empty buffer.
\<close>

locale lifo_store =
  fixes sized :: "'x \<Rightarrow> bool"
    and rep :: "'s \<Rightarrow> 'x list \<Rightarrow> bool"
    and room :: "'s \<Rightarrow> bool"
    and put :: "'s \<Rightarrow> 'x \<Rightarrow> 's option"
    and get :: "'s \<Rightarrow> ('x option \<times> 's) option"
  assumes put_law: "rep s xs \<Longrightarrow> sized x \<Longrightarrow> room s \<Longrightarrow> \<exists>s'. put s x = Some s' \<and> rep s' (x # xs)"
    and get_law: "rep s (x # xs) \<Longrightarrow> \<exists>s'. get s = Some (Some x, s') \<and> rep s' xs"
    and get_empty: "rep s [] \<Longrightarrow> get s = Some (None, s)"
begin

lemma put_all:
  "rep s xs \<Longrightarrow> list_all sized ys \<Longrightarrow> foldM (\<lambda>s x. if room s then put s x else None) ys s = Some s' \<Longrightarrow>
   rep s' (rev ys @ xs)"
proof (induction ys arbitrary: s xs)
  case (Cons y ys)
  from Cons.prems have "room s" by (auto split: if_splits)
  with put_law [OF Cons.prems(1), of y] Cons.prems obtain s1 where s1: "put s y = Some s1" "rep s1 (y # xs)" by auto
  with Cons.IH [OF s1(2)] Cons.prems \<open>room s\<close> show ?case by simp
qed simp

lemma get_all:
  "rep s (ys @ xs) \<Longrightarrow> \<exists>s'. repeatM get (length ys) s = Some (map Some ys, s') \<and> rep s' xs"
proof (induction ys arbitrary: s)
  case (Cons y ys)
  from get_law [of s y "ys @ xs"] Cons.prems obtain s1 where "get s = Some (Some y, s1)" "rep s1 (ys @ xs)" by auto
  with Cons.IH [of s1] show ?case by auto
qed simp

lemma write_read:
  assumes "rep s []" "list_all sized ys" "foldM (\<lambda>s x. if room s then put s x else None) ys s = Some s'"
  shows "\<exists>t. repeatM get (length ys) s' = Some (map Some (rev ys), t) \<and> rep t [] \<and> get t = Some (None, t)"
  using put_all [OF assms] get_all [of s' "rev ys" "[]"] get_empty by fastforce

end

subsection \<open>Items in the buffers\<close>

type_synonym item = "bytes \<times> bytes"

definition enc :: "item \<Rightarrow> bytes" where
  "enc x = fst x @ snd x"

definition item_sized :: "nat \<Rightarrow> nat \<Rightarrow> item \<Rightarrow> bool" where
  "item_sized s1 s2 x \<longleftrightarrow> length (fst x) = s1 \<and> length (snd x) = s2"

definition buf_ok :: "nat \<Rightarrow> nat \<Rightarrow> bytes \<Rightarrow> Lifo_buffer \<Rightarrow> bool" where
  "buf_ok s1 s2 mem b \<longleftrightarrow> size1 b = s1 \<and> size2 b = s2 \<and> 0 < s1 + s2 \<and>
     start b \<le> pos b \<and> pos b \<le> end_ptr b \<and> end_ptr b \<le> length mem"

definition F_rep :: "nat \<Rightarrow> nat \<Rightarrow> bytes \<times> Lifo_buffer \<Rightarrow> item list \<Rightarrow> bool" where
  "F_rep s1 s2 s xs \<longleftrightarrow> (case s of (mem, b) \<Rightarrow> buf_ok s1 s2 mem b \<and> list_all (item_sized s1 s2) xs \<and>
     arr_slice mem (start b) (pos b - start b) = Some (concat (map enc (rev xs))))"

definition B_rep :: "nat \<Rightarrow> nat \<Rightarrow> bytes \<times> Lifo_buffer \<Rightarrow> item list \<Rightarrow> bool" where
  "B_rep s1 s2 s xs \<longleftrightarrow> (case s of (mem, b) \<Rightarrow> buf_ok s1 s2 mem b \<and> list_all (item_sized s1 s2) xs \<and>
     arr_slice mem (pos b) (end_ptr b - pos b) = Some (concat (map enc xs)))"

text \<open>Writing an item sets the two source pointers first, reading one looks at the two result pointers.\<close>

definition F_put :: "bytes \<times> Lifo_buffer \<Rightarrow> item \<Rightarrow> (bytes \<times> Lifo_buffer) option" where
  "F_put s x = F_write (fst s) ((snd s)\<lparr>write_ptr1 := Some (fst x), write_ptr2 := Some (snd x)\<rparr>)"

definition B_put :: "bytes \<times> Lifo_buffer \<Rightarrow> item \<Rightarrow> (bytes \<times> Lifo_buffer) option" where
  "B_put s x = B_write (fst s) ((snd s)\<lparr>write_ptr1 := Some (fst x), write_ptr2 := Some (snd x)\<rparr>)"

definition fetch :: "bytes \<Rightarrow> Lifo_buffer \<Rightarrow> item option" where
  "fetch mem b = do {
     x \<leftarrow> arr_slice mem (read_ptr1 b) (size1 b);
     y \<leftarrow> (if size2 b \<noteq> 0 then arr_slice mem (read_ptr2 b) (size2 b) else Some []);
     Some (x, y)
   }"

definition get_item :: "(Lifo_buffer \<Rightarrow> bool \<times> Lifo_buffer) \<Rightarrow> bytes \<times> Lifo_buffer \<Rightarrow>
    (item option \<times> (bytes \<times> Lifo_buffer)) option" where
  "get_item read s = (let (eof, b') = read (snd s) in
     if eof then Some (None, (fst s, b'))
     else map_option (\<lambda>x. (Some x, (fst s, b'))) (fetch (fst s) b'))"

lemma length_enc: "item_sized s1 s2 x \<Longrightarrow> length (enc x) = s1 + s2"
  by (simp add: enc_def item_sized_def)

lemma F_write_blit:
  assumes "item_sized (size1 b) (size2 b) x" "write_ptr1 b = Some (fst x)" "write_ptr2 b = Some (snd x)"
  shows "F_write mem b = map_option (\<lambda>m. (m, b\<lparr>pos := pos b + length (enc x)\<rparr>)) (arr_blit mem (pos b) (enc x))"
proof (cases "size2 b = 0")
  case True
  with assms have "snd x = []" by (simp add: item_sized_def)
  with True assms show ?thesis
    by (cases "arr_blit mem (pos b) (fst x)") (auto simp: F_write_def F_write_bytes_def item_sized_def enc_def arr_slice_def)
next
  case False
  have "F_write mem b = Option.bind (arr_blit mem (pos b) (fst x)) (\<lambda>m. map_option (\<lambda>m. (m, b\<lparr>pos := pos b + length (enc x)\<rparr>))
      (arr_blit m (pos b + length (fst x)) (snd x)))"
    using False assms
    by (cases "arr_blit mem (pos b) (fst x)")
       (auto simp: F_write_def F_write_bytes_def item_sized_def enc_def arr_slice_def add.assoc map_option_case split: option.splits)
  then show ?thesis
    using arr_blit_append [of mem "pos b" "fst x" "snd x"]
    by (simp add: enc_def bind_map_option)
qed

lemma B_write_blit:
  assumes "item_sized (size1 b) (size2 b) x" "write_ptr1 b = Some (fst x)" "write_ptr2 b = Some (snd x)"
    and "length (enc x) \<le> pos b"
  shows "B_write mem b = map_option (\<lambda>m. (m, b\<lparr>pos := pos b - length (enc x)\<rparr>)) (arr_blit mem (pos b - length (enc x)) (enc x))"
proof -
  let ?T = "pos b - length (enc x)"
  have p: "pos b - length (snd x) = ?T + length (fst x)" "pos b - length (snd x) - length (fst x) = ?T"
    using assms(4) by (auto simp: enc_def)
  have "B_write mem b = Option.bind (arr_blit mem (?T + length (fst x)) (snd x)) (\<lambda>m. map_option (\<lambda>m. (m, b\<lparr>pos := ?T\<rparr>))
      (arr_blit m ?T (fst x)))"
    using assms p
    by (cases "arr_blit mem (?T + length (fst x)) (snd x)")
       (auto simp: B_write_def B_write_bytes_def item_sized_def arr_slice_def map_option_case enc_def split: option.splits)
  then show ?thesis
    using arr_blit_prepend [of mem ?T "fst x" "snd x"] by (simp add: enc_def bind_map_option)
qed

lemma F_put_rep:
  assumes "F_rep s1 s2 (mem, b) xs" "item_sized s1 s2 x" "can_write F_have_space_for b"
  obtains mem' where
    "F_put (mem, b) x = Some (mem', b\<lparr>write_ptr1 := Some (fst x), write_ptr2 := Some (snd x), pos := pos b + (s1 + s2)\<rparr>)"
    "arr_blit mem (pos b) (enc x) = Some mem'"
    "F_rep s1 s2 (mem', b\<lparr>write_ptr1 := Some (fst x), write_ptr2 := Some (snd x), pos := pos b + (s1 + s2)\<rparr>) (x # xs)"
proof -
  have ok: "size1 b = s1" "size2 b = s2" "0 < s1 + s2" "start b \<le> pos b" "end_ptr b \<le> length mem"
    "list_all (item_sized s1 s2) xs" "arr_slice mem (start b) (pos b - start b) = Some (concat (map enc (rev xs)))"
    using assms(1) by (auto simp: F_rep_def buf_ok_def)
  have r: "pos b + (s1 + s2) < end_ptr b" using assms(3) ok by (simp add: can_write_def F_have_space_for_def)
  have l: "length (enc x) = s1 + s2" by (rule length_enc [OF assms(2)])
  obtain mem' where m: "arr_blit mem (pos b) (enc x) = Some mem'"
    using r l ok by (simp add: arr_blit_def)
  let ?b = "b\<lparr>write_ptr1 := Some (fst x), write_ptr2 := Some (snd x)\<rparr>"
  have e: "F_put (mem, b) x = Some (mem', ?b\<lparr>pos := pos b + (s1 + s2)\<rparr>)"
    using F_write_blit [of ?b x mem] assms(2) ok m l by (simp add: F_put_def)
  have "arr_slice mem' (start b) (pos b - start b) = Some (concat (map enc (rev xs)))"
    using arr_slice_blit_frame [OF m, of "start b" "pos b - start b"] ok by simp
  moreover have "arr_slice mem' (start b + (pos b - start b)) (s1 + s2) = Some (enc x)"
    using arr_slice_blit_same [OF m] l ok by simp
  ultimately have "arr_slice mem' (start b) (pos b - start b + (s1 + s2)) = Some (concat (map enc (rev xs)) @ enc x)"
    unfolding arr_slice_split by blast
  moreover have "pos b + (s1 + s2) - start b = pos b - start b + (s1 + s2)" using ok(4) by simp
  ultimately have "arr_slice mem' (start b) (pos b + (s1 + s2) - start b) = Some (concat (map enc (rev (x # xs))))" by simp
  moreover have "start b \<le> pos b + (s1 + s2)" "pos b + (s1 + s2) \<le> end_ptr b" "end_ptr b \<le> length mem'"
    using ok(4,5) r length_arr_blit [OF m] by auto
  ultimately have "F_rep s1 s2 (mem', ?b\<lparr>pos := pos b + (s1 + s2)\<rparr>) (x # xs)"
    using ok(1,2,3,6) assms(2) by (simp add: F_rep_def buf_ok_def del: rev.simps)
  with e m show ?thesis by (intro that)
qed

lemma B_put_rep:
  assumes "B_rep s1 s2 (mem, b) xs" "item_sized s1 s2 x" "can_write B_have_space_for b"
  obtains mem' where
    "B_put (mem, b) x = Some (mem', b\<lparr>write_ptr1 := Some (fst x), write_ptr2 := Some (snd x), pos := pos b - (s1 + s2)\<rparr>)"
    "B_rep s1 s2 (mem', b\<lparr>write_ptr1 := Some (fst x), write_ptr2 := Some (snd x), pos := pos b - (s1 + s2)\<rparr>) (x # xs)"
proof -
  have ok: "size1 b = s1" "size2 b = s2" "0 < s1 + s2" "start b \<le> pos b" "pos b \<le> end_ptr b" "end_ptr b \<le> length mem"
    "list_all (item_sized s1 s2) xs" "arr_slice mem (pos b) (end_ptr b - pos b) = Some (concat (map enc xs))"
    using assms(1) by (auto simp: B_rep_def buf_ok_def)
  have r: "start b + (s1 + s2) \<le> pos b" using assms(3) ok by (simp add: can_write_def B_have_space_for_def)
  have l: "length (enc x) = s1 + s2" by (rule length_enc [OF assms(2)])
  let ?T = "pos b - (s1 + s2)"
  obtain mem' where m: "arr_blit mem ?T (enc x) = Some mem'"
    using r l ok by (simp add: arr_blit_def)
  let ?b = "b\<lparr>write_ptr1 := Some (fst x), write_ptr2 := Some (snd x)\<rparr>"
  have e: "B_put (mem, b) x = Some (mem', ?b\<lparr>pos := ?T\<rparr>)"
    using B_write_blit [of ?b x mem] assms(2) ok m l r by (simp add: B_put_def)
  have "arr_slice mem' (?T + (s1 + s2)) (end_ptr b - pos b) = Some (concat (map enc xs))"
    using arr_slice_blit_frame [OF m, of "pos b" "end_ptr b - pos b"] ok r l by simp
  moreover have "arr_slice mem' ?T (s1 + s2) = Some (enc x)"
    using arr_slice_blit_same [OF m] l by simp
  ultimately have "arr_slice mem' ?T ((s1 + s2) + (end_ptr b - pos b)) = Some (enc x @ concat (map enc xs))"
    unfolding arr_slice_split [of mem' ?T "s1 + s2"] by blast
  moreover have "end_ptr b - ?T = (s1 + s2) + (end_ptr b - pos b)" using ok r by simp
  moreover have "start b \<le> ?T" "?T \<le> end_ptr b" using r ok by auto
  ultimately have "B_rep s1 s2 (mem', ?b\<lparr>pos := ?T\<rparr>) (x # xs)"
    using ok r assms(2) length_arr_blit [OF m] by (simp add: B_rep_def buf_ok_def)
  with e that show ?thesis by simp
qed

lemma F_get_rep:
  assumes "F_rep s1 s2 (mem, b) (x # xs)"
  shows "\<exists>b'. get_item F_read (mem, b) = Some (Some x, (mem, b')) \<and> F_rep s1 s2 (mem, b') xs"
proof -
  have ok: "size1 b = s1" "size2 b = s2" "0 < s1 + s2" "start b \<le> pos b" "pos b \<le> end_ptr b" "end_ptr b \<le> length mem"
    "list_all (item_sized s1 s2) xs" "item_sized s1 s2 x"
    "arr_slice mem (start b) (pos b - start b) = Some (concat (map enc (rev xs)) @ enc x)"
    using assms by (auto simp: F_rep_def buf_ok_def)
  have l: "length (enc x) = s1 + s2" by (rule length_enc [OF ok(8)])
  have "pos b - start b = length (concat (map enc (rev xs))) + (s1 + s2)"
    using length_arr_slice [OF ok(9)] l by simp
  then have d: "pos b - start b = (pos b - start b - (s1 + s2)) + (s1 + s2)" "start b + (s1 + s2) \<le> pos b" using ok by auto
  obtain u v where uv: "concat (map enc (rev xs)) @ enc x = u @ v"
    "arr_slice mem (start b) (pos b - start b - (s1 + s2)) = Some u"
    "arr_slice mem (start b + (pos b - start b - (s1 + s2))) (s1 + s2) = Some v"
    using ok(9) arr_slice_split [of mem "start b" "pos b - start b - (s1 + s2)" "s1 + s2"] d(1) by auto
  have vu: "v = enc x" "u = concat (map enc (rev xs))"
    using uv(1) length_arr_slice [OF uv(3)] l by (auto simp: append_eq_append_conv)
  have p: "start b + (pos b - start b - (s1 + s2)) = pos b - (s1 + s2)"
    "pos b - start b - (s1 + s2) = pos b - (s1 + s2) - start b" using d by simp_all
  have s: "arr_slice mem (pos b - (s1 + s2)) (s1 + s2) = Some (enc x)"
    "arr_slice mem (start b) (pos b - (s1 + s2) - start b) = Some (concat (map enc (rev xs)))"
    using uv(2,3) unfolding vu p by (simp_all only: p [symmetric]) (simp_all add: p(1))
  obtain u v where uv2: "enc x = u @ v" "arr_slice mem (pos b - (s1 + s2)) s1 = Some u"
    "arr_slice mem (pos b - (s1 + s2) + s1) s2 = Some v" using s(1) unfolding arr_slice_split by blast
  have f: "u = fst x" "v = snd x"
    using uv2(1) length_arr_slice [OF uv2(2)] ok(8) by (auto simp: enc_def item_sized_def append_eq_append_conv)
  have q: "pos b - (s1 + s2) + s1 = pos b - s2" "pos b - s2 - s1 = pos b - (s1 + s2)" using d by auto
  define b' where "b' = snd (F_read b)"
  have b': "F_read b = (False, b')" "pos b' = pos b - (s1 + s2)" "read_ptr1 b' = pos b - (s1 + s2)"
    "s2 \<noteq> 0 \<Longrightarrow> read_ptr2 b' = pos b - s2" "size1 b' = s1" "size2 b' = s2" "start b' = start b" "end_ptr b' = end_ptr b"
    using ok d q by (auto simp: b'_def F_read_def F_read_at_def F_have_data_def F_read_bytes_def Let_def)
  have "fetch mem b' = Some x"
    using uv2(2,3) f ok(8) b' q by (cases x) (auto simp: fetch_def item_sized_def)
  moreover have "F_rep s1 s2 (mem, b') xs" using ok s(2) b' d by (auto simp: F_rep_def buf_ok_def)
  ultimately show ?thesis using b'(1) by (simp add: get_item_def)
qed

lemma B_get_rep:
  assumes "B_rep s1 s2 (mem, b) (x # xs)"
  shows "\<exists>b'. get_item B_read (mem, b) = Some (Some x, (mem, b')) \<and> B_rep s1 s2 (mem, b') xs"
proof -
  have ok: "size1 b = s1" "size2 b = s2" "0 < s1 + s2" "start b \<le> pos b" "pos b \<le> end_ptr b" "end_ptr b \<le> length mem"
    "list_all (item_sized s1 s2) xs" "item_sized s1 s2 x"
    "arr_slice mem (pos b) (end_ptr b - pos b) = Some (enc x @ concat (map enc xs))"
    using assms by (auto simp: B_rep_def buf_ok_def)
  have l: "length (enc x) = s1 + s2" by (rule length_enc [OF ok(8)])
  have d: "end_ptr b - pos b = (s1 + s2) + (end_ptr b - (pos b + (s1 + s2)))" "pos b + (s1 + s2) \<le> end_ptr b"
    using length_arr_slice [OF ok(9)] l ok(3,5) by auto
  obtain u v where uv: "enc x @ concat (map enc xs) = u @ v" "arr_slice mem (pos b) (s1 + s2) = Some u"
    "arr_slice mem (pos b + (s1 + s2)) (end_ptr b - (pos b + (s1 + s2))) = Some v"
    using ok(9) arr_slice_split [of mem "pos b" "s1 + s2" "end_ptr b - (pos b + (s1 + s2))"] d(1) by auto
  have w: "u = enc x" "v = concat (map enc xs)"
    using uv(1) length_arr_slice [OF uv(2)] l by (auto simp: append_eq_append_conv)
  have "arr_slice mem (pos b) (s1 + s2) = Some (enc x)" using uv(2) w(1) by simp
  then obtain u' v' where uv2: "enc x = u' @ v'" "arr_slice mem (pos b) s1 = Some u'" "arr_slice mem (pos b + s1) s2 = Some v'"
    unfolding arr_slice_split by blast
  have f: "u' = fst x" "v' = snd x"
    using uv2(1) length_arr_slice [OF uv2(2)] ok(8) by (auto simp: enc_def item_sized_def append_eq_append_conv)
  define b' where "b' = snd (B_read b)"
  have b': "B_read b = (False, b')" "pos b' = pos b + (s1 + s2)" "read_ptr1 b' = pos b"
    "s2 \<noteq> 0 \<Longrightarrow> read_ptr2 b' = pos b + s1" "size1 b' = s1" "size2 b' = s2" "start b' = start b" "end_ptr b' = end_ptr b"
    using ok(1-6) d(2) by (auto simp: b'_def B_read_def B_read_at_def B_have_data_def B_read_bytes_def Let_def)
  have "fetch mem b' = Some x"
    using uv2(2,3) f ok(8) b' by (cases x) (auto simp: fetch_def item_sized_def)
  moreover have "B_rep s1 s2 (mem, b') xs" using ok(1-7) uv(3) w(2) b'(2-) d(2) by (simp add: B_rep_def buf_ok_def)
  ultimately show ?thesis using b'(1) by (simp add: get_item_def)
qed

lemma F_get_end:
  assumes "F_rep s1 s2 (mem, b) []"
  shows "get_item F_read (mem, b) = Some (None, (mem, b))"
proof -
  have "pos b - start b = 0" "0 < size1 b + size2 b" "start b \<le> pos b"
    using assms length_arr_slice [of mem "start b" "pos b - start b" "[]"] by (auto simp: F_rep_def buf_ok_def)
  then have "\<not> F_have_data b (pos b) (size1 b + size2 b)" by (auto simp: F_have_data_def)
  then show ?thesis by (simp add: get_item_def F_read_def F_read_at_def)
qed

lemma B_get_end:
  assumes "B_rep s1 s2 (mem, b) []"
  shows "get_item B_read (mem, b) = Some (None, (mem, b))"
proof -
  have "end_ptr b - pos b = 0" "0 < size1 b + size2 b" "pos b \<le> end_ptr b"
    using assms length_arr_slice [of mem "pos b" "end_ptr b - pos b" "[]"] by (auto simp: B_rep_def buf_ok_def)
  then have "\<not> B_have_data b (pos b) (size1 b + size2 b)" by (auto simp: B_have_data_def)
  then show ?thesis by (simp add: get_item_def B_read_def B_read_at_def)
qed

interpretation fwd: lifo_store "item_sized s1 s2" "F_rep s1 s2" "\<lambda>s. can_write F_have_space_for (snd s)" F_put "get_item F_read"
  for s1 s2
proof
  fix s :: "bytes \<times> Lifo_buffer" and xs x
  assume a: "F_rep s1 s2 s xs" "item_sized s1 s2 x" "can_write F_have_space_for (snd s)"
  obtain mem b where s: "s = (mem, b)" by (cases s)
  show "\<exists>s'. F_put s x = Some s' \<and> F_rep s1 s2 s' (x # xs)"
    unfolding s by (rule F_put_rep [OF a [unfolded s snd_conv]]) blast
next
  show "\<exists>s'. get_item F_read s = Some (Some x, s') \<and> F_rep s1 s2 s' xs" if "F_rep s1 s2 s (x # xs)" for s x xs
    using that F_get_rep [of s1 s2 "fst s" "snd s" x xs] by auto
  show "get_item F_read s = Some (None, s)" if "F_rep s1 s2 s []" for s
    using that F_get_end [of s1 s2 "fst s" "snd s"] by simp
qed

interpretation bwd: lifo_store "item_sized s1 s2" "B_rep s1 s2" "\<lambda>s. can_write B_have_space_for (snd s)" B_put "get_item B_read"
  for s1 s2
proof
  fix s :: "bytes \<times> Lifo_buffer" and xs x
  assume a: "B_rep s1 s2 s xs" "item_sized s1 s2 x" "can_write B_have_space_for (snd s)"
  obtain mem b where s: "s = (mem, b)" by (cases s)
  show "\<exists>s'. B_put s x = Some s' \<and> B_rep s1 s2 s' (x # xs)"
    unfolding s by (rule B_put_rep [OF a [unfolded s snd_conv]]) blast
next
  show "\<exists>s'. get_item B_read s = Some (Some x, s') \<and> B_rep s1 s2 s' xs" if "B_rep s1 s2 s (x # xs)" for s x xs
    using that B_get_rep [of s1 s2 "fst s" "snd s" x xs] by auto
  show "get_item B_read s = Some (None, s)" if "B_rep s1 s2 s []" for s
    using that B_get_end [of s1 s2 "fst s" "snd s"] by simp
qed

subsection \<open>Capacity\<close>

lemma F_put_all:
  assumes "F_rep s1 s2 (mem, b) xs" "list_all (item_sized s1 s2) ys" "pos b + length ys * (s1 + s2) < end_ptr b"
  shows "\<exists>s. foldM (\<lambda>s x. if can_write F_have_space_for (snd s) then F_put s x else None) ys (mem, b) = Some s"
  using assms
proof (induction ys arbitrary: mem b xs)
  case (Cons y ys)
  have z: "size1 b = s1" "size2 b = s2" using Cons.prems(1) by (auto simp: F_rep_def buf_ok_def)
  have c: "can_write F_have_space_for b" using Cons.prems(3) z by (simp add: can_write_def F_have_space_for_def)
  have y: "item_sized s1 s2 y" "list_all (item_sized s1 s2) ys" using Cons.prems(2) by auto
  obtain mem' where m: "F_put (mem, b) y = Some (mem', b\<lparr>write_ptr1 := Some (fst y), write_ptr2 := Some (snd y), pos := pos b + (s1 + s2)\<rparr>)"
    "F_rep s1 s2 (mem', b\<lparr>write_ptr1 := Some (fst y), write_ptr2 := Some (snd y), pos := pos b + (s1 + s2)\<rparr>) (y # xs)"
    by (rule F_put_rep [OF Cons.prems(1) y(1) c]) (rule that)
  show ?case using Cons.IH [OF m(2) y(2)] Cons.prems(3) m(1) c by simp
qed simp

lemma B_put_all:
  assumes "B_rep s1 s2 (mem, b) xs" "list_all (item_sized s1 s2) ys" "start b + length ys * (s1 + s2) \<le> pos b"
  shows "\<exists>s. foldM (\<lambda>s x. if can_write B_have_space_for (snd s) then B_put s x else None) ys (mem, b) = Some s"
  using assms
proof (induction ys arbitrary: mem b xs)
  case (Cons y ys)
  have z: "size1 b = s1" "size2 b = s2" using Cons.prems(1) by (auto simp: B_rep_def buf_ok_def)
  have c: "can_write B_have_space_for b" using Cons.prems(3) z by (simp add: can_write_def B_have_space_for_def)
  have y: "item_sized s1 s2 y" "list_all (item_sized s1 s2) ys" using Cons.prems(2) by auto
  obtain mem' where m: "B_put (mem, b) y = Some (mem', b\<lparr>write_ptr1 := Some (fst y), write_ptr2 := Some (snd y), pos := pos b - (s1 + s2)\<rparr>)"
    "B_rep s1 s2 (mem', b\<lparr>write_ptr1 := Some (fst y), write_ptr2 := Some (snd y), pos := pos b - (s1 + s2)\<rparr>) (y # xs)"
    by (rule B_put_rep [OF Cons.prems(1) y(1) c]) (rule that)
  show ?case using Cons.IH [OF m(2) y(2)] Cons.prems(3) m(1) c by simp
qed simp

lemma F_rep_init:
  "0 < s1 + s2 \<Longrightarrow> st \<le> e \<Longrightarrow> e \<le> length mem \<Longrightarrow>
   F_rep s1 s2 (mem, set_buffer_space F_reset (setup_writing b s1 s2) st e) []"
  by (simp add: F_rep_def buf_ok_def set_buffer_space_def F_reset_def setup_writing_def arr_slice_def)

lemma B_rep_init:
  "0 < s1 + s2 \<Longrightarrow> st \<le> e \<Longrightarrow> e \<le> length mem \<Longrightarrow>
   B_rep s1 s2 (mem, set_buffer_space B_reset (setup_writing b s1 s2) st e) []"
  by (simp add: B_rep_def buf_ok_def set_buffer_space_def B_reset_def setup_writing_def arr_slice_def)

subsection \<open>Two buffers in one memory\<close>

lemma B_rep_frame:
  assumes "B_rep s1 s2 (mem, b) xs" "arr_blit mem p d = Some mem'" "p + length d \<le> pos b"
  shows "B_rep s1 s2 (mem', b) xs"
proof -
  have "arr_slice mem' (pos b) (end_ptr b - pos b) = arr_slice mem (pos b) (end_ptr b - pos b)"
    using assms(3) by (intro arr_slice_blit_frame [OF assms(2)]) simp
  then show ?thesis using assms(1) length_arr_blit [OF assms(2)] by (simp add: B_rep_def buf_ok_def)
qed

lemma B_rep_shrink:
  "B_rep s1 s2 (mem, b) xs \<Longrightarrow> B_rep s1 s2 (mem, b\<lparr>start := pos b\<rparr>) xs"
  by (simp add: B_rep_def buf_ok_def)

lemma F_rep_grow:
  "F_rep s1 s2 (mem, f) ys \<Longrightarrow> end_ptr f \<le> e \<Longrightarrow> e \<le> length mem \<Longrightarrow> F_rep s1 s2 (mem, f\<lparr>end_ptr := e\<rparr>) ys"
  by (simp add: F_rep_def buf_ok_def)

lemma F_write_read:
  assumes "0 < s1 + s2" "e \<le> length mem" "list_all (item_sized s1 s2) ys" "st + length ys * (s1 + s2) < e"
  shows "\<exists>s t. foldM (\<lambda>s x. if can_write F_have_space_for (snd s) then F_put s x else None) ys
              (mem, set_buffer_space F_reset (setup_writing b s1 s2) st e) = Some s \<and>
        repeatM (get_item F_read) (length ys) s = Some (map Some (rev ys), t) \<and>
        get_item F_read t = Some (None, t)"
proof -
  have r: "F_rep s1 s2 (mem, set_buffer_space F_reset (setup_writing b s1 s2) st e) []"
    using assms by (intro F_rep_init) auto
  from F_put_all [OF r assms(3)] assms(4) fwd.write_read [OF r assms(3)] show ?thesis
    by (fastforce simp: set_buffer_space_def F_reset_def setup_writing_def)
qed

lemma B_write_read:
  assumes "0 < s1 + s2" "e \<le> length mem" "list_all (item_sized s1 s2) ys" "st + length ys * (s1 + s2) \<le> e"
  shows "\<exists>s t. foldM (\<lambda>s x. if can_write B_have_space_for (snd s) then B_put s x else None) ys
              (mem, set_buffer_space B_reset (setup_writing b s1 s2) st e) = Some s \<and>
        repeatM (get_item B_read) (length ys) s = Some (map Some (rev ys), t) \<and>
        get_item B_read t = Some (None, t)"
proof -
  have r: "B_rep s1 s2 (mem, set_buffer_space B_reset (setup_writing b s1 s2) st e) []"
    using assms by (intro B_rep_init) auto
  from B_put_all [OF r assms(3)] assms(4) bwd.write_read [OF r assms(3)] show ?thesis
    by (fastforce simp: set_buffer_space_def B_reset_def setup_writing_def)
qed

subsection \<open>Properties\<close>

text \<open>
  C19. The buffers are last-in-first-out and hold what their space allows. After \<open>setup_writing\<close> and
  \<open>set_buffer_space\<close> on bytes \<open>[st, e)\<close> of the memory, items that fit (strictly less than the space for the
  forward buffer, which never fills the last byte; at most the space for the backward one) are all
  accepted by \<open>can_write\<close> and \<open>write\<close>; as many \<open>read\<close> calls then return exactly these items, the last
  one first, and the next \<open>read\<close> reports the end of the data.\<close>

theorem lifo_write_read:
  assumes "0 < s1 + s2" "e \<le> length mem" "list_all (item_sized s1 s2) ys"
  shows "(st + length ys * (s1 + s2) < e \<longrightarrow>
      (\<exists>s t. foldM (\<lambda>s x. if can_write F_have_space_for (snd s) then F_put s x else None) ys
              (mem, set_buffer_space F_reset (setup_writing b s1 s2) st e) = Some s \<and>
        repeatM (get_item F_read) (length ys) s = Some (map Some (rev ys), t) \<and>
        get_item F_read t = Some (None, t))) \<and>
    (st + length ys * (s1 + s2) \<le> e \<longrightarrow>
      (\<exists>s t. foldM (\<lambda>s x. if can_write B_have_space_for (snd s) then B_put s x else None) ys
              (mem, set_buffer_space B_reset (setup_writing b s1 s2) st e) = Some s \<and>
        repeatM (get_item B_read) (length ys) s = Some (map Some (rev ys), t) \<and>
        get_item B_read t = Some (None, t)))"
  using F_write_read [OF assms] B_write_read [OF assms] by blast

definition lifo0 :: Lifo_buffer where
  "lifo0 = \<lparr>size1 = 0, size2 = 0, write_ptr1 = None, write_ptr2 = None, read_ptr1 = 0, read_ptr2 = 0,
     start = 0, end_ptr = 0, pos = 0\<rparr>"

theorem lifo_write_read_witness:
  "\<exists>s t. foldM (\<lambda>s x. if can_write F_have_space_for (snd s) then F_put s x else None) [([1], [2]), ([3], [4])]
           ([0, 0, 0, 0, 0, 0], set_buffer_space F_reset (setup_writing lifo0 1 1) 1 6) = Some s \<and>
     repeatM (get_item F_read) 2 s = Some ([Some ([3], [4]), Some ([1], [2])], t) \<and> get_item F_read t = Some (None, t)"
  using lifo_write_read [of 1 1 6 "[0, 0, 0, 0, 0, 0]" "[([1], [2]), ([3], [4])]" 1 lifo0]
  by (simp add: item_sized_def numeral_2_eq_2)

text \<open>
  Two adjacent buffers share one memory: the forward one ends where the backward one starts.
  Handing the unused space of the backward buffer to the forward one (\<open>remove_unused_space\<close>, \<open>grow\<close>)
  keeps the items of both, the forward buffer now reaches up to the data of the backward one, and a
  write into it that \<open>can_write\<close> allows succeeds and leaves every item of the backward buffer in place.\<close>

theorem lifo_shared_memory:
  assumes "F_rep s1 s2 (mem, f) ys" "B_rep t1 t2 (mem, b) xs" "end_ptr f = start b"
    and "B_remove_unused_space b = (ustart, uend, b1)" "f1 = F_grow f ustart uend"
  shows "F_rep s1 s2 (mem, f1) ys \<and> B_rep t1 t2 (mem, b1) xs \<and> end_ptr f1 = B_used_area b1 \<and>
    (\<forall>x. item_sized s1 s2 x \<and> can_write F_have_space_for f1 \<longrightarrow>
       (\<exists>mem' f2. F_put (mem, f1) x = Some (mem', f2) \<and> F_rep s1 s2 (mem', f2) (x # ys) \<and> B_rep t1 t2 (mem', b1) xs))"
proof -
  have d: "ustart = start b" "uend = pos b" "b1 = b\<lparr>start := pos b\<rparr>" "f1 = f\<lparr>end_ptr := pos b\<rparr>"
    using assms(4,5) by (auto simp: B_remove_unused_space_def F_grow_def)
  have bb: "start b \<le> pos b" "pos b \<le> length mem" using assms(2) by (auto simp: B_rep_def buf_ok_def)
  have f: "F_rep s1 s2 (mem, f1) ys" unfolding d by (rule F_rep_grow [OF assms(1)]) (use assms(3) bb in auto)
  have b: "B_rep t1 t2 (mem, b1) xs" unfolding d by (rule B_rep_shrink [OF assms(2)])
  have "\<exists>mem' f2. F_put (mem, f1) x = Some (mem', f2) \<and> F_rep s1 s2 (mem', f2) (x # ys) \<and> B_rep t1 t2 (mem', b1) xs"
    if x: "item_sized s1 s2 x" "can_write F_have_space_for f1" for x
  proof -
    obtain mem' f2 where m: "F_put (mem, f1) x = Some (mem', f2)" "arr_blit mem (pos f1) (enc x) = Some mem'"
      "F_rep s1 s2 (mem', f2) (x # ys)" by (rule F_put_rep [OF f x]) (rule that)
    have "pos f1 + length (enc x) \<le> pos b1"
      using x(2) length_enc [OF x(1)] f by (auto simp: can_write_def F_have_space_for_def F_rep_def buf_ok_def d)
    from m B_rep_frame [OF b m(2) this] show ?thesis by blast
  qed
  then show ?thesis using f b by (auto simp: d B_used_area_def)
qed

theorem lifo_shared_memory_witness:
  "\<exists>mem' f2. F_put ([0, 0, 0, 0, 7], F_grow (set_buffer_space F_reset (setup_writing lifo0 1 1) 0 2) 2 4) ([8], [9]) = Some (mem', f2) \<and>
     B_rep 1 0 (mem', (set_buffer_space B_reset (setup_writing lifo0 1 0) 2 5)\<lparr>pos := 4, start := 4\<rparr>) [([7], [])]"
proof -
  let ?f = "set_buffer_space F_reset (setup_writing lifo0 1 1) 0 2"
  let ?b = "(set_buffer_space B_reset (setup_writing lifo0 1 0) 2 5)\<lparr>pos := 4\<rparr>"
  have f: "F_rep 1 1 ([0, 0, 0, 0, 7], ?f) []" by (rule F_rep_init) simp_all
  have b: "B_rep 1 0 ([0, 0, 0, 0, 7], ?b) [([7], [])]"
    by (simp add: B_rep_def buf_ok_def set_buffer_space_def setup_writing_def B_reset_def lifo0_def arr_slice_def enc_def item_sized_def)
  have e: "end_ptr ?f = start ?b" "B_remove_unused_space ?b = (2, 4, ?b\<lparr>start := 4\<rparr>)"
    "item_sized 1 1 ([8], [9])" "can_write F_have_space_for (F_grow ?f 2 4)"
    by (simp_all add: set_buffer_space_def setup_writing_def F_reset_def B_reset_def B_remove_unused_space_def
        item_sized_def can_write_def F_have_space_for_def F_grow_def)
  show ?thesis using lifo_shared_memory [OF f b e(1,2) refl] e(3,4) by blast
qed

end
