(* ===== verification/TranxAllocator.thy ===== *)
theory TranxAllocator
  imports Prelude "HOL-Library.Monad_Syntax"
begin

text \<open>
  \<open>semisync_master.h\<close>: the allocator of the nodes in which the semi-synchronous master records its active
  transactions. Blocks of 16 nodes live in an explicit heap at byte addresses (\<^term>\<open>None\<close> as an address
  is the null pointer), so that the comparisons of node addresses are those of the code. \<open>my_malloc\<close>
  is a parameter of each operation that allocates: the block it returns, with arbitrary contents, or
  \<^term>\<open>None\<close>. A function that dereferences a null or freed block has the result \<^term>\<open>None\<close>.
\<close>

subsection \<open>Nodes, blocks and the allocator\<close>

type_synonym addr = nat

record Tranx_node =
  log_name :: string
  log_pos :: ulonglong
  tn_next :: "addr option"
  hash_next :: "addr option"

definition BLOCK_TRANX_NODES :: nat where "BLOCK_TRANX_NODES = 16"

record Block =
  blk_next :: "addr option"
  nodes :: "Tranx_node list"

record Tranx_node_allocator =
  reserved_blocks :: uint32
  first_block :: "addr option"
  last_block :: "addr option"
  current_block :: "addr option"
  last_node_ix :: int
  block_num :: uint32

type_synonym bheap = "addr \<rightharpoonup> Block"

type_synonym tstate = "bheap \<times> Tranx_node_allocator"

text \<open>The layout of the two structures: \<open>FN_REFLEN\<close> (512) bytes, an offset of 8 and two pointers make a
  node, a pointer and 16 nodes make a block.\<close>

definition sizeof_node :: nat where "sizeof_node = 512 + 8 + 8 + 8"

definition sizeof_block :: nat where "sizeof_block = 8 + BLOCK_TRANX_NODES * sizeof_node"

definition node_addr :: "addr \<Rightarrow> nat \<Rightarrow> addr" where
  "node_addr b i = b + 8 + i * sizeof_node"

definition allocator_init :: "uint32 \<Rightarrow> Tranx_node_allocator" where
  "allocator_init reserved_nodes = \<lparr>
     reserved_blocks = reserved_nodes div 16 + (if reserved_nodes mod 16 > 1 then 2 else 1),
     first_block = None, last_block = None, current_block = None, last_node_ix = -1, block_num = 0\<rparr>"

definition set_next :: "bheap \<Rightarrow> addr option \<Rightarrow> addr option \<Rightarrow> bheap option" where
  "set_next h p q = do {
     b \<leftarrow> p;
     k \<leftarrow> h b;
     Some (h(b \<mapsto> k\<lparr>blk_next := q\<rparr>))
   }"

definition get_next :: "bheap \<Rightarrow> addr option \<Rightarrow> addr option option" where
  "get_next h p = do {
     b \<leftarrow> p;
     k \<leftarrow> h b;
     Some (blk_next k)
   }"

definition allocate_block :: "(addr \<times> Block) option \<Rightarrow> tstate \<Rightarrow> (bool \<times> tstate) option" where
  "allocate_block mal st = (case st of (h, a) \<Rightarrow> (case mal of
       None \<Rightarrow> Some (True, (h, a))
     | Some (b, k) \<Rightarrow> do {
         let h1 = h(b \<mapsto> k\<lparr>blk_next := None\<rparr>);
         (h2, a2) \<leftarrow> (if first_block a = None then Some (h1, a\<lparr>first_block := Some b\<rparr>)
                      else map_option (\<lambda>h2. (h2, a)) (set_next h1 (last_block a) (Some b)));
         Some (False, (h2, a2\<lparr>last_block := Some b, current_block := Some b, block_num := block_num a2 + 1\<rparr>))
       }))"

definition clear_node :: "Tranx_node \<Rightarrow> Tranx_node" where
  "clear_node n = n\<lparr>log_name := '''', log_pos := 0, tn_next := None, hash_next := None\<rparr>"

text \<open>The last part of \<open>allocate_node\<close>: the next node of the current block, cleared.\<close>

definition take_node :: "tstate \<Rightarrow> (addr option \<times> tstate) option" where
  "take_node st = (case st of (h, a) \<Rightarrow> do {
     b \<leftarrow> current_block a;
     k \<leftarrow> h b;
     let i = last_node_ix a + 1;
     n \<leftarrow> arr_get (nodes k) (nat i);
     Some (Some (node_addr b (nat i)),
           (h(b \<mapsto> k\<lparr>nodes := (nodes k)[nat i := clear_node n]\<rparr>), a\<lparr>last_node_ix := i\<rparr>))
   })"

definition allocate_node :: "(addr \<times> Block) option \<Rightarrow> tstate \<Rightarrow> (addr option \<times> tstate) option" where
  "allocate_node mal st = (case st of (h, a) \<Rightarrow> do {
     let block = current_block a;
     a1 \<leftarrow> (if last_node_ix a = int BLOCK_TRANX_NODES - 1
            then map_option (\<lambda>p. a\<lparr>current_block := p, last_node_ix := -1\<rparr>) (get_next h (current_block a))
            else Some a);
     (failed, (h2, a2)) \<leftarrow> (if current_block a1 = None then allocate_block mal (h, a1) else Some (False, (h, a1)));
     if failed then
       Some (None, (h2, if block \<noteq> None then a2\<lparr>current_block := block, last_node_ix := int BLOCK_TRANX_NODES - 1\<rparr>
                        else a2\<lparr>current_block := block\<rparr>))
     else take_node (h2, a2)
   })"

text \<open>\<open>my_free\<close> takes the block out of the heap.\<close>

definition free_block :: "addr \<Rightarrow> tstate \<Rightarrow> tstate option" where
  "free_block b st = (case st of (h, a) \<Rightarrow>
     if h b = None then None else Some (h(b := None), a\<lparr>block_num := block_num a - 1\<rparr>))"

partial_function (option) free_blocks_loop :: "addr option \<Rightarrow> tstate \<Rightarrow> (addr option \<times> tstate) option" where
  "free_blocks_loop block st =
     (case block of
        None \<Rightarrow> Some (block, st)
      | Some b \<Rightarrow>
          if block_num (snd st) > reserved_blocks (snd st) then
            Option.bind (get_next (fst st) block) (\<lambda>nxt. Option.bind (free_block b st) (\<lambda>st1. free_blocks_loop nxt st1))
          else Some (block, st))"

definition free_blocks :: "tstate \<Rightarrow> tstate option" where
  "free_blocks st = (case st of (h, a) \<Rightarrow>
     if current_block a = None then Some st
     else do {
       nxt \<leftarrow> get_next h (current_block a);
       if nxt = None then Some st
       else do {
         block \<leftarrow> get_next h nxt;
         (block1, (h1, a1)) \<leftarrow> free_blocks_loop block (h, a);
         h2 \<leftarrow> set_next h1 nxt block1;
         Some (h2, if block1 = None then a1\<lparr>last_block := nxt\<rparr> else a1)
       }
     })"

definition free_all_nodes :: "tstate \<Rightarrow> (int \<times> tstate) option" where
  "free_all_nodes st = (case st of (h, a) \<Rightarrow>
     map_option (Pair 0) (free_blocks (h, a\<lparr>current_block := first_block a, last_node_ix := -1\<rparr>)))"

text \<open>The loop of \<open>free_nodes_before\<close> up to the block found: the block before it and the block.\<close>

partial_function (option) find_block ::
  "bheap \<Rightarrow> addr \<Rightarrow> addr option \<Rightarrow> addr option \<Rightarrow> addr option \<Rightarrow> (addr option \<times> addr) option option" where
  "find_block h node stop prev block =
     (if block = stop then Some None
      else case block of
        None \<Rightarrow> None
      | Some b \<Rightarrow>
          if node_addr b 0 \<le> node \<and> node_addr b BLOCK_TRANX_NODES \<ge> node then Some (Some (prev, b))
          else Option.bind (get_next h block) (\<lambda>nxt. find_block h node stop block nxt))"

definition free_nodes_before :: "addr \<Rightarrow> tstate \<Rightarrow> (int \<times> tstate) option" where
  "free_nodes_before node st = (case st of (h, a) \<Rightarrow> do {
     stop \<leftarrow> get_next h (current_block a);
     found \<leftarrow> find_block h node stop None (first_block a);
     case found of
       None \<Rightarrow> Some (1, st)
     | Some (prev_block, block) \<Rightarrow>
         if first_block a \<noteq> Some block then do {
           h1 \<leftarrow> set_next h (last_block a) (first_block a);
           h2 \<leftarrow> set_next h1 prev_block None;
           map_option (Pair 0) (free_blocks (h2, a\<lparr>first_block := Some block, last_block := prev_block\<rparr>))
         } else Some (0, st)
   })"

text \<open>The destructor.\<close>

partial_function (option) destroy_loop :: "addr option \<Rightarrow> tstate \<Rightarrow> tstate option" where
  "destroy_loop block st =
     (case block of
        None \<Rightarrow> Some st
      | Some b \<Rightarrow> Option.bind (get_next (fst st) block) (\<lambda>nxt. Option.bind (free_block b st) (\<lambda>st1. destroy_loop nxt st1)))"

definition allocator_destroy :: "tstate \<Rightarrow> tstate option" where
  "allocator_destroy st = destroy_loop (first_block (snd st)) st"

subsection \<open>Chains of blocks\<close>

fun bchain :: "bheap \<Rightarrow> addr option \<Rightarrow> addr list \<Rightarrow> addr option \<Rightarrow> bool" where
  "bchain h p [] e \<longleftrightarrow> p = e"
| "bchain h p (b # bs) e \<longleftrightarrow> p = Some b \<and>
     (case h b of None \<Rightarrow> False | Some k \<Rightarrow> length (nodes k) = BLOCK_TRANX_NODES \<and> bchain h (blk_next k) bs e)"

lemma bchain_cong: "(\<And>b. b \<in> set bs \<Longrightarrow> h' b = h b) \<Longrightarrow> bchain h' p bs e = bchain h p bs e"
  by (induction bs arbitrary: p) (auto split: option.splits)

lemma bchain_upd [simp]: "b \<notin> set bs \<Longrightarrow> bchain (h(b := v)) p bs e = bchain h p bs e"
  by (rule bchain_cong) auto

lemma bchain_append: "bchain h p (xs @ ys) e \<longleftrightarrow> (\<exists>m. bchain h p xs m \<and> bchain h m ys e)"
  by (induction xs arbitrary: p) (auto split: option.splits)

lemma bchain_next:
  assumes "bchain h p (b # bs) e"
  obtains k where "p = Some b" "h b = Some k" "length (nodes k) = BLOCK_TRANX_NODES" "bchain h (blk_next k) bs e"
    "get_next h p = Some (blk_next k)"
  using assms by (cases "h b") (auto simp: get_next_def)

lemma bchain_dom: "bchain h p bs e \<Longrightarrow> b \<in> set bs \<Longrightarrow> \<exists>k. h b = Some k \<and> length (nodes k) = BLOCK_TRANX_NODES"
  by (induction bs arbitrary: p) (auto split: option.splits)

lemma bchain_None_head: "bchain h p bs None \<Longrightarrow> p = (case bs of [] \<Rightarrow> None | b # _ \<Rightarrow> Some b)"
  by (cases bs) auto

text \<open>Redirecting the last link of a chain keeps the blocks and the nodes.\<close>

lemma bchain_relink:
  assumes "bchain h p (xs @ [b]) e" "b \<notin> set xs"
  obtains k where "h b = Some k" "set_next h (Some b) q = Some (h(b \<mapsto> k\<lparr>blk_next := q\<rparr>))"
    "bchain (h(b \<mapsto> k\<lparr>blk_next := q\<rparr>)) p (xs @ [b]) q"
proof -
  from assms(1) obtain m k where k: "bchain h p xs m" "m = Some b" "h b = Some k" "length (nodes k) = BLOCK_TRANX_NODES"
    unfolding bchain_append by (auto split: option.splits)
  have "bchain (h(b \<mapsto> k\<lparr>blk_next := q\<rparr>)) p xs (Some b)"
    using k(1,2) assms(2) by simp
  then have "bchain (h(b \<mapsto> k\<lparr>blk_next := q\<rparr>)) p (xs @ [b]) q" using k unfolding bchain_append by auto
  with k show ?thesis by (intro that) (auto simp: set_next_def)
qed

text \<open>The loop of \<open>free_blocks\<close> frees a prefix of the chain.\<close>

lemma free_blocks_loop_spec:
  assumes "bchain h p bs None" "distinct bs"
  shows "\<exists>ds es q. bs = ds @ es \<and>
    free_blocks_loop p (h, a) = Some (q, (h |` (- set ds), a\<lparr>block_num := block_num a - of_nat (length ds)\<rparr>)) \<and>
    bchain (h |` (- set ds)) q es None \<and>
    (es = [] \<or> block_num a - of_nat (length ds) \<le> reserved_blocks a) \<and>
    (ds = [] \<or> reserved_blocks a \<le> block_num a - of_nat (length ds))"
  using assms
proof (induction bs arbitrary: h p a)
  case Nil
  then show ?case by (intro exI [of _ "[]"]) (simp add: free_blocks_loop.simps restrict_map_def)
next
  case (Cons b bs)
  from bchain_next [OF Cons.prems(1)] obtain k where k: "p = Some b" "h b = Some k" "bchain h (blk_next k) bs None"
    "get_next h p = Some (blk_next k)" by metis
  show ?case
  proof (cases "block_num a > reserved_blocks a")
    case False
    then show ?thesis using Cons.prems k
      by (intro exI [of _ "[]"] exI [of _ "b # bs"] exI [of _ p]) (auto simp: free_blocks_loop.simps restrict_map_def)
  next
    case True
    let ?h = "h(b := None)" and ?a = "a\<lparr>block_num := block_num a - 1\<rparr>"
    have c: "bchain ?h (blk_next k) bs None" using k(3) Cons.prems(2) by simp
    have dist: "distinct bs" using Cons.prems(2) by simp
    obtain ds es q where IH: "bs = ds @ es"
      "free_blocks_loop (blk_next k) (?h, ?a) = Some (q, (?h |` (- set ds), ?a\<lparr>block_num := block_num ?a - of_nat (length ds)\<rparr>))"
      "bchain (?h |` (- set ds)) q es None" "es = [] \<or> block_num ?a - of_nat (length ds) \<le> reserved_blocks ?a"
      "ds = [] \<or> reserved_blocks ?a \<le> block_num ?a - of_nat (length ds)"
      using Cons.IH [OF c dist, of ?a] by (elim exE conjE) (rule that)
    have r: "?h |` (- set ds) = h |` (- set (b # ds))" by (auto simp: restrict_map_def fun_eq_iff)
    have w: "block_num ?a - of_nat (length ds) = block_num a - of_nat (length (b # ds))" by simp
    have step: "free_blocks_loop p (h, a) = free_blocks_loop (blk_next k) (?h, ?a)"
      using k True by (subst free_blocks_loop.simps) (simp add: free_block_def)
    have "reserved_blocks a \<le> block_num a - 1"
      using True unat_minus_one [of "block_num a"] by (cases "block_num a = 0") (auto simp: word_le_nat_alt word_less_nat_alt)
    then have "reserved_blocks a \<le> block_num a - of_nat (length (b # ds))"
      unfolding w [symmetric] using IH(5) by (cases "ds = []") auto
    moreover have "free_blocks_loop p (h, a) =
        Some (q, (h |` (- set (b # ds)), a\<lparr>block_num := block_num a - of_nat (length (b # ds))\<rparr>))"
      unfolding step IH(2) r w by simp
    moreover have "bchain (h |` (- set (b # ds))) q es None" using IH(3) unfolding r .
    moreover have "es = [] \<or> block_num a - of_nat (length (b # ds)) \<le> reserved_blocks a" using IH(4) unfolding w by simp
    moreover have "b # bs = (b # ds) @ es" using IH(1) by simp
    ultimately show ?thesis by blast
  qed
qed

subsection \<open>The state of the allocator\<close>

text \<open>
  The link table is the blocks in use before the current one, then the current one and the free
  blocks behind it; \<open>n\<close> nodes of the current block are in use. \<open>used\<close> is the sequence of the nodes in
  use with their contents.
\<close>

definition apart :: "addr set \<Rightarrow> bool" where
  "apart B \<longleftrightarrow> (\<forall>b\<in>B. \<forall>c\<in>B. b \<noteq> c \<longrightarrow> b + sizeof_block \<le> c \<or> c + sizeof_block \<le> b)"

definition block_used :: "bheap \<Rightarrow> addr \<Rightarrow> nat \<Rightarrow> (addr \<times> Tranx_node) list" where
  "block_used h b m = map (\<lambda>i. (node_addr b i, nodes (the (h b)) ! i)) [0..<m]"

definition used :: "bheap \<Rightarrow> addr list \<Rightarrow> addr list \<Rightarrow> nat \<Rightarrow> (addr \<times> Tranx_node) list" where
  "used h pre rest n = concat (map (\<lambda>b. block_used h b BLOCK_TRANX_NODES) pre) @
     (case rest of [] \<Rightarrow> [] | b # _ \<Rightarrow> block_used h b n)"

definition alloc_rep :: "tstate \<Rightarrow> addr list \<Rightarrow> addr list \<Rightarrow> nat \<Rightarrow> bool" where
  "alloc_rep st pre rest n \<longleftrightarrow> (case st of (h, a) \<Rightarrow>
     distinct (pre @ rest) \<and> apart (set (pre @ rest)) \<and> bchain h (first_block a) (pre @ rest) None \<and>
     block_num a = of_nat (length (pre @ rest)) \<and>
     current_block a = (case rest of [] \<Rightarrow> None | b # _ \<Rightarrow> Some b) \<and>
     (if rest = [] then pre = [] \<and> n = 0 else last_block a = Some (last rest)) \<and>
     n \<le> BLOCK_TRANX_NODES \<and> last_node_ix a = int n - 1)"

definition arena_rep :: "tstate \<Rightarrow> (addr \<times> Tranx_node) list \<Rightarrow> bool" where
  "arena_rep st ps \<longleftrightarrow> (\<exists>pre rest n. alloc_rep st pre rest n \<and> ps = used (fst st) pre rest n)"

text \<open>What is assumed of \<open>my_malloc\<close>: a block it returns lies apart from all blocks of the heap.\<close>

definition fresh_block :: "(addr \<times> Block) option \<Rightarrow> tstate \<Rightarrow> bool" where
  "fresh_block mal st \<longleftrightarrow> (case mal of None \<Rightarrow> True | Some (b, k) \<Rightarrow>
     length (nodes k) = BLOCK_TRANX_NODES \<and> b \<notin> dom (fst st) \<and>
     (\<forall>c\<in>dom (fst st). b + sizeof_block \<le> c \<or> c + sizeof_block \<le> b))"

definition cleared_node :: Tranx_node where
  "cleared_node = \<lparr>log_name = '''', log_pos = 0, tn_next = None, hash_next = None\<rparr>"

lemma clear_node_eq [simp]: "clear_node x = cleared_node"
  by (cases x) (simp add: clear_node_def cleared_node_def)

lemma apart_subset: "apart B \<Longrightarrow> A \<subseteq> B \<Longrightarrow> apart A"
  by (auto simp: apart_def)

lemma block_used_cong:
  "map_option nodes (h' b) = map_option nodes (h b) \<Longrightarrow> block_used h' b m = block_used h b m"
  by (cases "h b"; cases "h' b") (auto simp: block_used_def)

lemma used_cong:
  assumes "\<And>b. b \<in> set (pre @ take 1 rest) \<Longrightarrow> map_option nodes (h' b) = map_option nodes (h b)"
    and "take 1 rest' = take 1 rest"
  shows "used h' pre rest' n = used h pre rest n"
proof -
  have "map (\<lambda>b. block_used h' b BLOCK_TRANX_NODES) pre = map (\<lambda>b. block_used h b BLOCK_TRANX_NODES) pre"
    using assms(1) by (auto intro: block_used_cong)
  moreover have "(case rest' of [] \<Rightarrow> [] | b # _ \<Rightarrow> block_used h' b n) = (case rest of [] \<Rightarrow> [] | b # _ \<Rightarrow> block_used h b n)"
    using assms by (cases rest; cases rest') (auto intro: block_used_cong)
  ultimately show ?thesis unfolding used_def by (simp only:)
qed

lemma used_full: "used h pre (b # post) BLOCK_TRANX_NODES = used h (pre @ [b]) (c # post') 0"
  by (simp add: used_def block_used_def)

lemma take_node_spec:
  assumes "alloc_rep (h, a) pre (b # post) n" "n < BLOCK_TRANX_NODES"
  shows "\<exists>h' a'. take_node (h, a) = Some (Some (node_addr b n), (h', a')) \<and> alloc_rep (h', a') pre (b # post) (Suc n) \<and>
    used h' pre (b # post) (Suc n) = used h pre (b # post) n @ [(node_addr b n, cleared_node)] \<and> dom h' = dom h"
proof -
  from assms(1) have r: "distinct (pre @ b # post)" "apart (set (pre @ b # post))" "bchain h (first_block a) (pre @ b # post) None"
    "block_num a = of_nat (length (pre @ b # post))" "current_block a = Some b" "last_block a = Some (last (b # post))"
    "last_node_ix a = int n - 1" by (auto simp: alloc_rep_def)
  from bchain_dom [OF r(3), of b] obtain k where k: "h b = Some k" "length (nodes k) = BLOCK_TRANX_NODES" by auto
  let ?h = "h(b \<mapsto> k\<lparr>nodes := (nodes k)[n := cleared_node]\<rparr>)"
  have t: "take_node (h, a) = Some (Some (node_addr b n), (?h, a\<lparr>last_node_ix := int n\<rparr>))"
    using k r assms(2) by (simp add: take_node_def arr_get_def)
  obtain m where m: "bchain h (first_block a) pre m" "bchain h m (b # post) None" using r(3) unfolding bchain_append by blast
  have "bchain ?h (first_block a) (pre @ b # post) None"
    unfolding bchain_append using m k r(1) by (intro exI [of _ m]) auto
  then have rep: "alloc_rep (?h, a\<lparr>last_node_ix := int n\<rparr>) pre (b # post) (Suc n)"
    using r assms(2) by (simp add: alloc_rep_def)
  have "map (\<lambda>c. block_used ?h c BLOCK_TRANX_NODES) pre = map (\<lambda>c. block_used h c BLOCK_TRANX_NODES) pre"
    using r(1) by (auto intro!: block_used_cong)
  moreover have "block_used ?h b (Suc n) = block_used h b n @ [(node_addr b n, cleared_node)]"
    using k assms(2) by (auto simp: block_used_def)
  ultimately have "used ?h pre (b # post) (Suc n) = used h pre (b # post) n @ [(node_addr b n, cleared_node)]"
    unfolding used_def by (simp only: list.case append_assoc)
  moreover have "dom ?h = dom h" using k by auto
  ultimately show ?thesis using t rep by blast
qed

subsection \<open>Freeing blocks\<close>

text \<open>
  \<open>free_blocks\<close> keeps the nodes in use, the current block and the first free block behind it, and
  stops when no more than the reserved number of blocks are left.
\<close>

lemma free_blocks_spec:
  assumes "alloc_rep (h, a) pre (cur # post) n"
  shows "\<exists>h' a' ds post'. free_blocks (h, a) = Some (h', a') \<and> alloc_rep (h', a') pre (cur # post') n \<and>
    used h' pre (cur # post') n = used h pre (cur # post) n \<and>
    (post = [] \<and> post' = [] \<and> ds = [] \<or> post \<noteq> [] \<and> (\<exists>es. tl post = ds @ es \<and> post' = hd post # es)) \<and>
    (length post' \<le> 1 \<or> block_num a' \<le> reserved_blocks a') \<and> (ds = [] \<or> reserved_blocks a' \<le> block_num a') \<and>
    reserved_blocks a' = reserved_blocks a"
proof (cases post)
  case Nil
  have "get_next h (Some cur) = Some None"
    using assms Nil by (auto simp: alloc_rep_def bchain_append get_next_def split: option.splits)
  then have "free_blocks (h, a) = Some (h, a)" using assms by (simp add: free_blocks_def alloc_rep_def)
  with assms Nil show ?thesis by (intro exI [of _ h] exI [of _ a] exI [of _ "[]"]) simp
next
  case (Cons c cs)
  from assms Cons have r: "distinct (pre @ cur # c # cs)" "apart (set (pre @ cur # c # cs))"
    "bchain h (first_block a) (pre @ cur # c # cs) None"
    "block_num a = of_nat (length (pre @ cur # c # cs))" "current_block a = Some cur" "last_block a = Some (last (c # cs))"
    "last_node_ix a = int n - 1" "n \<le> BLOCK_TRANX_NODES" by (auto simp: alloc_rep_def)
  have "bchain h (first_block a) ((pre @ [cur, c]) @ cs) None" using r(3) by simp
  then obtain m where m: "bchain h (first_block a) (pre @ [cur, c]) m" "bchain h m cs None" unfolding bchain_append by blast
  have nx: "get_next h (Some cur) = Some (Some c)" "get_next h (Some c) = Some m"
    using m(1) unfolding bchain_append by (auto simp: get_next_def split: option.splits)
  obtain ds es q where l: "cs = ds @ es"
    "free_blocks_loop m (h, a) = Some (q, (h |` (- set ds), a\<lparr>block_num := block_num a - of_nat (length ds)\<rparr>))"
    "bchain (h |` (- set ds)) q es None" "es = [] \<or> block_num a - of_nat (length ds) \<le> reserved_blocks a"
    "ds = [] \<or> reserved_blocks a \<le> block_num a - of_nat (length ds)"
    using free_blocks_loop_spec [OF m(2), of a] r(1) by (simp only: distinct_append distinct.simps) blast
  let ?h = "h |` (- set ds)"
  have "bchain ?h (first_block a) ((pre @ [cur]) @ [c]) m"
    using m(1) r(1) l(1) by (subst bchain_cong [of _ _ h]) (auto simp: restrict_map_def)
  then obtain k where k: "?h c = Some k" "set_next ?h (Some c) q = Some (?h(c \<mapsto> k\<lparr>blk_next := q\<rparr>))"
    "bchain (?h(c \<mapsto> k\<lparr>blk_next := q\<rparr>)) (first_block a) ((pre @ [cur]) @ [c]) q"
    by (rule bchain_relink [where q = q]) (use r(1) in auto)
  let ?h2 = "?h(c \<mapsto> k\<lparr>blk_next := q\<rparr>)"
    and ?a2 = "if q = None then a\<lparr>block_num := block_num a - of_nat (length ds), last_block := Some c\<rparr>
               else a\<lparr>block_num := block_num a - of_nat (length ds)\<rparr>"
  have f: "free_blocks (h, a) = Some (?h2, ?a2)"
    using r(5) nx l(2) k(2) by (simp add: free_blocks_def)
  have "bchain ?h2 q es None = bchain ?h q es None" by (rule bchain_upd) (use r(1) l(1) in simp)
  then have "bchain ?h2 (first_block a) (((pre @ [cur]) @ [c]) @ es) None"
    using k(3) l(3) unfolding bchain_append [of _ _ "(pre @ [cur]) @ [c]"] by blast
  moreover have "last_block ?a2 = Some (last (c # es))"
    using r(6) l(1) bchain_None_head [OF l(3)] by (cases es) auto
  moreover have "block_num ?a2 = of_nat (length (pre @ cur # c # es))" using r(4) l(1) by simp
  ultimately have rep: "alloc_rep (?h2, ?a2) pre (cur # c # es) n"
    using r l(1) apart_subset [OF r(2), of "set (pre @ cur # c # es)"] by (auto simp: alloc_rep_def)
  have u: "used ?h2 pre (cur # c # es) n = used h pre (cur # c # cs) n"
    using r(1) l(1) k(1) by (intro used_cong) (auto simp: restrict_map_def)
  show ?thesis using f rep u l(1,4,5) Cons
    by (intro exI [of _ ?h2] exI [of _ ?a2] exI [of _ ds] exI [of _ "c # es"]) auto
qed

subsection \<open>Node addresses\<close>

lemmas layout = sizeof_block_def sizeof_node_def BLOCK_TRANX_NODES_def node_addr_def

definition in_block :: "addr \<Rightarrow> addr \<Rightarrow> bool" where
  "in_block b p \<longleftrightarrow> (\<exists>i<BLOCK_TRANX_NODES. p = node_addr b i)"

lemma in_block_unique: "apart B \<Longrightarrow> b \<in> B \<Longrightarrow> c \<in> B \<Longrightarrow> in_block b p \<Longrightarrow> in_block c p \<Longrightarrow> b = c"
  by (force simp: apart_def in_block_def layout)

text \<open>The test of \<open>free_nodes_before\<close> includes the address one past the last node, which is never a
  node of another block.\<close>

lemma range_test:
  "apart B \<Longrightarrow> b \<in> B \<Longrightarrow> c \<in> B \<Longrightarrow> in_block b p \<Longrightarrow>
   (node_addr c 0 \<le> p \<and> node_addr c BLOCK_TRANX_NODES \<ge> p) \<longleftrightarrow> c = b"
  by (force simp: apart_def in_block_def layout)

lemma block_used_in_block: "(p, x) \<in> set (block_used h b m) \<Longrightarrow> m \<le> BLOCK_TRANX_NODES \<Longrightarrow> in_block b p"
  unfolding block_used_def in_block_def using order_less_le_trans by fastforce

lemma length_block_used [simp]: "length (block_used h b m) = m"
  by (simp add: block_used_def)

lemma block_used_distinct: "distinct (map fst (block_used h b m))"
  by (auto simp: block_used_def layout distinct_map inj_on_def)

lemma blocks_used_in_block:
  "(p, x) \<in> set (concat (map (\<lambda>b. block_used h b BLOCK_TRANX_NODES) bs)) \<Longrightarrow> \<exists>b\<in>set bs. in_block b p"
  using block_used_in_block by fastforce

lemma blocks_used_distinct:
  assumes "apart (set bs)" "distinct bs"
  shows "distinct (map fst (concat (map (\<lambda>b. block_used h b BLOCK_TRANX_NODES) bs)))"
  using assms
proof (induction bs)
  case (Cons b bs)
  have False if "(p, x) \<in> set (block_used h b BLOCK_TRANX_NODES)"
    "(p, y) \<in> set (concat (map (\<lambda>b. block_used h b BLOCK_TRANX_NODES) bs))" for p x y
    using block_used_in_block [OF that(1)] blocks_used_in_block [OF that(2)] in_block_unique [OF Cons.prems(1), of b _ p] Cons.prems(2)
    by auto
  moreover have "distinct (map fst (concat (map (\<lambda>b. block_used h b BLOCK_TRANX_NODES) bs)))"
    using Cons.IH Cons.prems apart_subset [OF Cons.prems(1), of "set bs"] by auto
  ultimately show ?case using block_used_distinct [of h b BLOCK_TRANX_NODES] by fastforce
qed simp

lemma used_distinct:
  assumes "alloc_rep (h, a) pre rest n"
  shows "distinct (map fst (used h pre rest n))"
proof (cases rest)
  case Nil
  then show ?thesis using assms by (auto simp: alloc_rep_def used_def)
next
  case (Cons b post)
  have r: "distinct pre" "b \<notin> set pre" "apart (set (pre @ rest))" "n \<le> BLOCK_TRANX_NODES"
    using assms Cons by (auto simp: alloc_rep_def)
  have False if "(p, x) \<in> set (block_used h b n)"
    "(p, y) \<in> set (concat (map (\<lambda>b. block_used h b BLOCK_TRANX_NODES) pre))" for p x y
    using block_used_in_block [OF that(1) r(4)] blocks_used_in_block [OF that(2)] in_block_unique [OF r(3), of b _ p] r(2) Cons
    by auto
  then show ?thesis
    using blocks_used_distinct [OF apart_subset [OF r(3), of "set pre"] r(1), of h] block_used_distinct [of h b n] Cons
    by (fastforce simp: used_def)
qed

lemma used_block:
  assumes "alloc_rep (h, a) pre rest n" "(p, x) \<in> set (used h pre rest n)"
  obtains A pre' b where "pre = A @ pre'" "b = hd (pre' @ rest)" "in_block b p"
    "(p, x) \<in> set (take BLOCK_TRANX_NODES (used h pre' rest n))" "rest \<noteq> []"
proof -
  obtain c post where rest: "rest = c # post" "n \<le> BLOCK_TRANX_NODES"
    using assms by (cases rest) (auto simp: alloc_rep_def used_def)
  consider b where "b \<in> set pre" "(p, x) \<in> set (block_used h b BLOCK_TRANX_NODES)" | "(p, x) \<in> set (block_used h c n)"
    using assms(2) rest by (auto simp: used_def)
  then show ?thesis
  proof cases
    case 1
    obtain A C where "pre = A @ b # C" using split_list [OF 1(1)] by blast
    then show ?thesis using 1 block_used_in_block [OF 1(2)] rest
      by (intro that [of A "b # C" b]) (auto simp: used_def)
  next
    case 2
    then show ?thesis using rest block_used_in_block [OF 2 rest(2)]
      by (intro that [of pre "[]" c]) (auto simp: used_def)
  qed
qed

lemma find_block_spec:
  assumes "bchain h p (A @ b # C) stop" "stop \<notin> Some ` set (A @ b # C)"
    and "\<And>c. c \<in> set (A @ b # C) \<Longrightarrow> (node_addr c 0 \<le> node \<and> node_addr c BLOCK_TRANX_NODES \<ge> node) \<longleftrightarrow> c = b" "b \<notin> set A"
  shows "find_block h node stop prev p = Some (Some (if A = [] then prev else Some (last A), b))"
  using assms
proof (induction A arbitrary: p prev)
  case Nil
  then show ?case by (subst find_block.simps) auto
next
  case (Cons c A)
  from bchain_next [of h p c "A @ b # C" stop] Cons.prems(1) obtain k where k: "p = Some c" "h c = Some k"
    "bchain h (blk_next k) (A @ b # C) stop" "get_next h p = Some (blk_next k)" by auto
  have t: "\<not> (node_addr c 0 \<le> node \<and> node_addr c BLOCK_TRANX_NODES \<ge> node)" using Cons.prems(3) [of c] Cons.prems(4) by auto
  have "find_block h node stop prev p = find_block h node stop p (blk_next k)"
    using k Cons.prems(2) t by (subst find_block.simps) auto
  moreover have "find_block h node stop p (blk_next k) = Some (Some (if A = [] then p else Some (last A), b))"
    using Cons.prems by (intro Cons.IH [OF k(3)]) auto
  ultimately show ?case using k by simp
qed

subsection \<open>Allocation\<close>

lemma next_block_rep:
  assumes "alloc_rep (h, a) pre (cur # c # post) BLOCK_TRANX_NODES"
  shows "get_next h (current_block a) = Some (Some c)"
    "alloc_rep (h, a\<lparr>current_block := Some c, last_node_ix := -1\<rparr>) (pre @ [cur]) (c # post) 0"
  using assms by (auto simp: alloc_rep_def bchain_append get_next_def split: option.splits)

lemma allocate_block_rep:
  assumes "distinct bs" "apart (set bs)" "bchain h (first_block a) bs None" "block_num a = of_nat (length bs)"
    and "bs \<noteq> [] \<Longrightarrow> last_block a = Some (last bs)" "fresh_block (Some (b, k)) (h, a)" "last_node_ix a = -1"
  obtains h' a' where "allocate_block (Some (b, k)) (h, a) = Some (False, (h', a'))" "alloc_rep (h', a') bs [b] 0"
    "\<And>c. c \<in> set bs \<Longrightarrow> map_option nodes (h' c) = map_option nodes (h c)"
proof -
  have nb: "b \<notin> set bs" "\<And>c. c \<in> set bs \<Longrightarrow> b + sizeof_block \<le> c \<or> c + sizeof_block \<le> b" "length (nodes k) = BLOCK_TRANX_NODES"
    using assms(6) bchain_dom [OF assms(3)] by (fastforce simp: fresh_block_def dom_def)+
  have ap: "apart (set (bs @ [b]))" using assms(2) nb(2) by (auto simp: apart_def)
  show ?thesis
  proof (cases "bs = []")
    case True
    then show ?thesis using assms nb ap
      by (intro that) (auto simp: allocate_block_def alloc_rep_def)
  next
    case False
    then obtain xs c where bs: "bs = xs @ [c]" by (metis rev_exhaust)
    let ?h = "h(b \<mapsto> k\<lparr>blk_next := None\<rparr>)"
    have "bchain ?h (first_block a) (xs @ [c]) None" using assms(3) nb(1) bs by simp
    then obtain kc where kc: "?h c = Some kc" "set_next ?h (Some c) (Some b) = Some (?h(c \<mapsto> kc\<lparr>blk_next := Some b\<rparr>))"
      "bchain (?h(c \<mapsto> kc\<lparr>blk_next := Some b\<rparr>)) (first_block a) (xs @ [c]) (Some b)"
      by (rule bchain_relink [where q = "Some b"]) (use assms(1) bs in auto)
    let ?h2 = "?h(c \<mapsto> kc\<lparr>blk_next := Some b\<rparr>)"
    have cb: "c \<noteq> b" "first_block a \<noteq> None" using nb(1) bs assms(3) by (auto, cases xs, auto)
    have "bchain ?h2 (first_block a) (bs @ [b]) None" unfolding bchain_append using kc(3) cb nb(3) bs by auto
    then have "alloc_rep (?h2, a\<lparr>last_block := Some b, current_block := Some b, block_num := block_num a + 1\<rparr>) bs [b] 0"
      using assms(1,4,7) nb(1) ap by (simp add: alloc_rep_def)
    moreover have "last_block a = Some c" using assms(5) bs by simp
    ultimately show ?thesis using kc(1,2) cb nb(1)
      by (intro that [of ?h2 "a\<lparr>last_block := Some b, current_block := Some b, block_num := block_num a + 1\<rparr>"])
         (auto simp: allocate_block_def)
  qed
qed

definition allocated :: "(addr \<times> Block) option \<Rightarrow> tstate \<Rightarrow> (addr \<times> Tranx_node) list \<Rightarrow> (addr option \<times> tstate) option \<Rightarrow> bool" where
  "allocated mal st ps res \<longleftrightarrow> (\<exists>r st'. res = Some (r, st') \<and> (case r of
      None \<Rightarrow> mal = None \<and> st' = st
    | Some p \<Rightarrow> arena_rep st' (ps @ [(p, cleared_node)])))"

lemma take_node_allocated:
  assumes "alloc_rep (h', a') bs (b # post) m" "m < BLOCK_TRANX_NODES" "used h' bs (b # post) m = ps"
  shows "allocated mal st ps (take_node (h', a'))"
  using take_node_spec [OF assms(1,2)] assms(3) unfolding allocated_def arena_rep_def by fastforce

lemma allocate_node_empty:
  assumes "alloc_rep (h, a) pre [] n" "fresh_block mal (h, a)"
  shows "allocated mal (h, a) (used h pre [] n) (allocate_node mal (h, a))"
proof -
  have e: "pre = []" "n = 0" "current_block a = None" "last_node_ix a = -1" "first_block a = None" "block_num a = 0"
    using assms by (auto simp: alloc_rep_def used_def)
  show ?thesis
  proof (cases mal)
    case None
    have "allocate_node mal (h, a) = Some (None, (h, a))"
      using e None by (cases a) (simp add: allocate_node_def allocate_block_def BLOCK_TRANX_NODES_def)
    then show ?thesis using None by (simp add: allocated_def)
  next
    case (Some bk)
    obtain b k where bk: "mal = Some (b, k)" using Some by (cases bk) simp
    obtain h' a' where al: "allocate_block mal (h, a) = Some (False, (h', a'))" "alloc_rep (h', a') [] [b] 0"
      unfolding bk by (rule allocate_block_rep [of "[]" h a b k]) (use e assms(2) bk in \<open>auto simp: apart_def\<close>)
    have "allocate_node mal (h, a) = take_node (h', a')"
      using e al(1) by (simp add: allocate_node_def BLOCK_TRANX_NODES_def)
    then show ?thesis
      using take_node_allocated [OF al(2)] e by (simp add: used_def block_used_def BLOCK_TRANX_NODES_def)
  qed
qed

lemma allocate_node_grow:
  assumes "alloc_rep (h, a) pre [cur] BLOCK_TRANX_NODES" "fresh_block mal (h, a)"
  shows "allocated mal (h, a) (used h pre [cur] BLOCK_TRANX_NODES) (allocate_node mal (h, a))"
proof -
  have r: "distinct (pre @ [cur])" "apart (set (pre @ [cur]))" "bchain h (first_block a) (pre @ [cur]) None"
    "block_num a = of_nat (length (pre @ [cur]))" "last_block a = Some cur" "current_block a = Some cur"
    "last_node_ix a = int BLOCK_TRANX_NODES - 1"
    using assms(1) by (auto simp: alloc_rep_def)
  have gn: "get_next h (Some cur) = Some None"
    using r(3) by (auto simp: bchain_append get_next_def split: option.splits)
  let ?a = "a\<lparr>current_block := None, last_node_ix := -1\<rparr>"
  show ?thesis
  proof (cases mal)
    case None
    have "allocate_node mal (h, a) = Some (None, (h, a))"
      using gn r None by (cases a) (simp add: allocate_node_def allocate_block_def Let_def)
    then show ?thesis using None by (simp add: allocated_def)
  next
    case (Some bk)
    obtain b k where bk: "mal = Some (b, k)" using Some by (cases bk) simp
    obtain h' a' where al: "allocate_block mal (h, ?a) = Some (False, (h', a'))" "alloc_rep (h', a') (pre @ [cur]) [b] 0"
      "\<And>c. c \<in> set (pre @ [cur]) \<Longrightarrow> map_option nodes (h' c) = map_option nodes (h c)"
      unfolding bk by (rule allocate_block_rep [of "pre @ [cur]" h ?a b k])
        (use r assms(2) bk in \<open>auto simp: fresh_block_def\<close>)
    have "allocate_node mal (h, a) = take_node (h', a')"
      using gn r al(1) by (simp add: allocate_node_def)
    moreover have "used h' (pre @ [cur]) [b] 0 = used h pre [cur] BLOCK_TRANX_NODES"
      using used_full [of h' pre cur "[]" b "[]"] used_cong [of pre "[cur]" h' h "[cur]" BLOCK_TRANX_NODES] al(3) by simp
    ultimately show ?thesis using take_node_allocated [OF al(2)] by (simp add: BLOCK_TRANX_NODES_def)
  qed
qed

lemma allocate_node_spec:
  assumes "arena_rep st ps" "fresh_block mal st"
  shows "allocated mal st ps (allocate_node mal st)"
proof -
  obtain h a where st: "st = (h, a)" by (cases st)
  from assms(1) obtain pre rest n where r: "alloc_rep (h, a) pre rest n" "ps = used h pre rest n"
    by (auto simp: arena_rep_def st)
  have full: "last_node_ix a = int BLOCK_TRANX_NODES - 1 \<longleftrightarrow> n = BLOCK_TRANX_NODES" "n \<le> BLOCK_TRANX_NODES"
    using r(1) by (auto simp: alloc_rep_def)
  consider "rest = []" | cur where "rest = [cur]" "n = BLOCK_TRANX_NODES"
    | cur d post where "rest = cur # d # post" "n = BLOCK_TRANX_NODES" | cur post where "rest = cur # post" "n < BLOCK_TRANX_NODES"
    using full(2) by (metis list.exhaust le_neq_implies_less)
  then show ?thesis
  proof cases
    case 1
    then show ?thesis using allocate_node_empty r assms(2) st by simp
  next
    case 2
    then show ?thesis using allocate_node_grow r assms(2) st by simp
  next
    case 3
    note nb = next_block_rep [OF r(1) [unfolded 3]]
    have "allocate_node mal (h, a) = take_node (h, a\<lparr>current_block := Some d, last_node_ix := -1\<rparr>)"
      using full 3 nb(1) by (simp add: allocate_node_def)
    then show ?thesis using take_node_allocated [OF nb(2)] r(2) 3 st used_full [of h pre cur "d # post" d post]
      by (simp add: BLOCK_TRANX_NODES_def)
  next
    case 4
    have "current_block a = Some cur" using r(1) 4 by (simp add: alloc_rep_def)
    then have "allocate_node mal (h, a) = take_node (h, a)" using full 4 by (simp add: allocate_node_def)
    then show ?thesis using take_node_allocated [of h a pre cur post n] 4 r st by simp
  qed
qed

subsection \<open>Freeing nodes\<close>

lemma rotate_blocks:
  assumes "bchain h p (A @ B) None" "distinct (A @ B)" "A \<noteq> []" "B \<noteq> []"
  obtains h1 h2 where "set_next h (Some (last B)) p = Some h1" "set_next h1 (Some (last A)) None = Some h2"
    "bchain h2 (Some (hd B)) (B @ A) None" "\<And>c. map_option nodes (h2 c) = map_option nodes (h c)"
proof -
  obtain A1 x B1 y where ab: "A = A1 @ [x]" "B = B1 @ [y]" using assms(3,4) by (metis rev_exhaust)
  obtain m where m: "bchain h p A m" "bchain h m B None" using assms(1) unfolding bchain_append by blast
  have hd: "m = Some (hd B)" using bchain_None_head [OF m(2)] assms(4) by (cases B) auto
  obtain k where k: "h y = Some k" "set_next h (Some y) p = Some (h(y \<mapsto> k\<lparr>blk_next := p\<rparr>))"
    "bchain (h(y \<mapsto> k\<lparr>blk_next := p\<rparr>)) m B p"
    unfolding ab(2) by (rule bchain_relink [OF m(2) [unfolded ab(2)], where q = p]) (use assms(2) ab in auto)
  let ?h = "h(y \<mapsto> k\<lparr>blk_next := p\<rparr>)"
  have "bchain ?h p (A1 @ [x]) m" using m(1) assms(2) ab by (subst bchain_upd) auto
  then obtain k2 where k2: "?h x = Some k2" "set_next ?h (Some x) None = Some (?h(x \<mapsto> k2\<lparr>blk_next := None\<rparr>))"
    "bchain (?h(x \<mapsto> k2\<lparr>blk_next := None\<rparr>)) p A None"
    unfolding ab(1) by (rule bchain_relink [where q = None]) (use assms(2) ab in auto)
  let ?h2 = "?h(x \<mapsto> k2\<lparr>blk_next := None\<rparr>)"
  have "bchain ?h2 m B p = bchain ?h m B p" by (rule bchain_upd) (use assms(2) ab in auto)
  then have "bchain ?h2 m (B @ A) None" using k(3) k2(3) unfolding bchain_append by blast
  moreover have "map_option nodes (?h2 c) = map_option nodes (h c)" for c using k(1) k2(1) by (auto split: if_splits)
  ultimately show ?thesis using k(2) k2(2) hd ab by (intro that [of ?h ?h2]) auto
qed

lemma free_nodes_before_rep:
  assumes "alloc_rep (h, a) (A @ pre) (cur # post) n" "in_block (hd (pre @ [cur])) node"
  shows "\<exists>h' a' post'. free_nodes_before node (h, a) = Some (0, (h', a')) \<and> alloc_rep (h', a') pre (cur # post') n \<and>
    used h' pre (cur # post') n = used h pre (cur # post) n"
proof -
  obtain b C where bC: "pre @ [cur] = b # C" by (cases "pre @ [cur]") auto
  from assms(1) have r: "distinct (A @ (b # C) @ post)" "apart (set (A @ (b # C) @ post))"
    "bchain h (first_block a) (A @ (b # C) @ post) None" "block_num a = of_nat (length (A @ (b # C) @ post))"
    "current_block a = Some cur" "last_block a = Some (last (cur # post))" "last_node_ix a = int n - 1" "n \<le> BLOCK_TRANX_NODES"
    unfolding bC [symmetric] by (auto simp: alloc_rep_def)
  have "bchain h (first_block a) ((A @ b # C) @ post) None" using r(3) by simp
  then obtain stop where s: "bchain h (first_block a) (A @ b # C) stop" "bchain h stop post None" unfolding bchain_append by blast
  have "bchain h (first_block a) ((A @ pre) @ [cur]) stop" using s(1) bC by simp
  then have gn: "get_next h (Some cur) = Some stop" unfolding bchain_append by (auto simp: get_next_def split: option.splits)
  have ns: "stop \<notin> Some ` set (A @ b # C)" using bchain_None_head [OF s(2)] r(1) by (cases post) auto
  have "(node_addr c 0 \<le> node \<and> node_addr c BLOCK_TRANX_NODES \<ge> node) \<longleftrightarrow> c = b" if "c \<in> set (A @ b # C)" for c
    using range_test [OF r(2), of b c node] that assms(2) bC by auto
  then have f: "find_block h node stop None (first_block a) = Some (Some (if A = [] then None else Some (last A), b))"
    using r(1) by (intro find_block_spec [OF s(1) ns]) auto
  show ?thesis
  proof (cases "A = []")
    case True
    then have "first_block a = Some b" using r(3) by auto
    then have "free_nodes_before node (h, a) = Some (0, (h, a))" using gn f r(5) True by (simp add: free_nodes_before_def)
    then show ?thesis using assms(1) True by auto
  next
    case False
    have l: "last_block a = Some (last ((b # C) @ post))" using r(6) unfolding bC [symmetric] by (simp add: last_append)
    have nf: "first_block a \<noteq> Some b" using r(1,3) False by (cases A) auto
    obtain h1 h2 where h: "set_next h (last_block a) (first_block a) = Some h1" "set_next h1 (Some (last A)) None = Some h2"
      "bchain h2 (Some b) (((b # C) @ post) @ A) None" "\<And>c. map_option nodes (h2 c) = map_option nodes (h c)"
      using rotate_blocks [OF r(3,1) False, of thesis] unfolding l by simp
    let ?a = "a\<lparr>first_block := Some b, last_block := Some (last A)\<rparr>"
    have e: "free_nodes_before node (h, a) = map_option (Pair 0) (free_blocks (h2, ?a))"
      using gn f r(5) False nf h by (simp add: free_nodes_before_def)
    have rep: "alloc_rep (h2, ?a) pre (cur # post @ A) n"
    proof -
      have "((b # C) @ post) @ A = pre @ cur # post @ A" unfolding bC [symmetric] by simp
      with h(3) have "bchain h2 (Some b) (pre @ cur # post @ A) None" by (simp only:)
      moreover have "distinct (pre @ cur # post @ A)" "apart (set (pre @ cur # post @ A))"
        "block_num a = of_nat (length (pre @ cur # post @ A))"
        using assms(1) apart_subset [of "set ((A @ pre) @ cur # post)" "set (pre @ cur # post @ A)"]
        by (auto simp: alloc_rep_def add_ac)
      ultimately show ?thesis using r(5,7,8) False by (simp add: alloc_rep_def)
    qed
    have u: "used h2 pre (cur # post @ A) n = used h pre (cur # post) n" using h(4) by (intro used_cong) auto
    show ?thesis using free_blocks_spec [OF rep] e u by fastforce
  qed
qed

lemma used_append: "used h (A @ pre) rest n = concat (map (\<lambda>b. block_used h b BLOCK_TRANX_NODES) A) @ used h pre rest n"
  by (simp add: used_def)

lemma free_nodes_before_spec:
  assumes "arena_rep st ps" "(node, x) \<in> set ps"
  shows "\<exists>st' qs rs. free_nodes_before node st = Some (0, st') \<and> ps = qs @ rs \<and> arena_rep st' rs \<and>
    (node, x) \<in> set (take BLOCK_TRANX_NODES rs)"
proof -
  obtain h a where st: "st = (h, a)" by (cases st)
  from assms(1) obtain pre rest n where r: "alloc_rep (h, a) pre rest n" "ps = used h pre rest n"
    by (auto simp: arena_rep_def st)
  obtain A pre' b where A: "pre = A @ pre'" "b = hd (pre' @ rest)" "in_block b node"
    "(node, x) \<in> set (take BLOCK_TRANX_NODES (used h pre' rest n))" "rest \<noteq> []"
    by (rule used_block [OF r(1) assms(2) [unfolded r(2)]]) (rule that)
  obtain cur post where rest: "rest = cur # post" using A(5) by (cases rest) auto
  have b: "in_block (hd (pre' @ [cur])) node" using A(2,3) rest by (cases pre') auto
  obtain h' a' post' where f: "free_nodes_before node (h, a) = Some (0, (h', a'))" "alloc_rep (h', a') pre' (cur # post') n"
    "used h' pre' (cur # post') n = used h pre' (cur # post) n"
    using free_nodes_before_rep [OF r(1) [unfolded A(1) rest] b] by blast
  have "arena_rep (h', a') (used h pre' rest n)" unfolding arena_rep_def using f(2,3) rest by fastforce
  then show ?thesis using f(1) A(1,4) r(2) st used_append by blast
qed

lemma free_all_rep:
  assumes "alloc_rep (h, a) pre rest n"
  shows "\<exists>st' bs d. free_all_nodes (h, a) = Some (0, st') \<and> alloc_rep st' [] bs 0 \<and>
    length bs + d = length (pre @ rest) \<and> reserved_blocks (snd st') = reserved_blocks a \<and>
    (length bs \<le> 2 \<or> block_num (snd st') \<le> reserved_blocks a) \<and> (d = 0 \<or> reserved_blocks a \<le> block_num (snd st'))"
proof -
  let ?a = "a\<lparr>current_block := first_block a, last_node_ix := -1\<rparr>"
  show ?thesis
  proof (cases "pre @ rest")
    case Nil
    then have "free_all_nodes (h, a) = Some (0, (h, ?a))" "alloc_rep (h, ?a) [] [] 0"
      using assms by (auto simp: alloc_rep_def free_all_nodes_def free_blocks_def)
    then show ?thesis using Nil by (intro exI [of _ "(h, ?a)"] exI [of _ "[]"]) auto
  next
    case (Cons b bs)
    have ne: "rest \<noteq> []" using assms Cons by (auto simp: alloc_rep_def)
    have "last rest = last (b # bs)" using ne Cons by (metis last_appendR)
    then have "first_block a = Some b" "last_block a = Some (last (b # bs))"
      using assms ne Cons by (auto simp: alloc_rep_def)
    then have rep: "alloc_rep (h, ?a) [] (b # bs) 0"
      using assms unfolding alloc_rep_def Cons by simp
    obtain h' a' ds post' where f: "free_blocks (h, ?a) = Some (h', a')" "alloc_rep (h', a') [] (b # post') 0"
      "bs = [] \<and> post' = [] \<and> ds = [] \<or> bs \<noteq> [] \<and> (\<exists>es. tl bs = ds @ es \<and> post' = hd bs # es)"
      "length post' \<le> 1 \<or> block_num a' \<le> reserved_blocks a'" "ds = [] \<or> reserved_blocks a' \<le> block_num a'"
      "reserved_blocks a' = reserved_blocks ?a"
      using free_blocks_spec [OF rep] by blast
    have "length (b # post') + length ds = length (pre @ rest)" using f(3) unfolding Cons by (cases bs) auto
    moreover have "free_all_nodes (h, a) = Some (0, (h', a'))" using f(1) by (simp add: free_all_nodes_def)
    ultimately show ?thesis using f(2,4,5,6)
      by (intro exI [of _ "(h', a')"] exI [of _ "b # post'"] exI [of _ "length ds"]) simp
  qed
qed

lemma destroy_loop_spec:
  assumes "bchain h p bs None" "distinct bs"
  shows "destroy_loop p (h, a) = Some (h |` (- set bs), a\<lparr>block_num := block_num a - of_nat (length bs)\<rparr>)"
  using assms
proof (induction bs arbitrary: h p a)
  case Nil
  then show ?case by (subst destroy_loop.simps) (simp add: restrict_map_def)
next
  case (Cons b bs)
  from bchain_next [OF Cons.prems(1)] obtain k where k: "p = Some b" "h b = Some k" "bchain h (blk_next k) bs None"
    "get_next h p = Some (blk_next k)" by metis
  have "destroy_loop p (h, a) = destroy_loop (blk_next k) (h(b := None), a\<lparr>block_num := block_num a - 1\<rparr>)"
    using k by (subst destroy_loop.simps) (simp add: free_block_def)
  also have "\<dots> = Some ((h(b := None)) |` (- set bs), a\<lparr>block_num := block_num a - 1 - of_nat (length bs)\<rparr>)"
    by (subst Cons.IH) (use k(3) Cons.prems(2) in simp_all)
  also have "(h(b := None)) |` (- set bs) = h |` (- set (b # bs))" by (auto simp: restrict_map_def fun_eq_iff)
  finally show ?case by (simp add: algebra_simps)
qed

subsection \<open>The contract of the allocator\<close>

text \<open>
  An allocator of nodes that are released in the order they were taken: the nodes in use form a
  sequence, a new node comes at its end, and releasing what is before a node drops a prefix of it.
\<close>

locale node_arena =
  fixes rep :: "'s \<Rightarrow> ('p \<times> 'v) list \<Rightarrow> bool"
    and ok :: "'m option \<Rightarrow> 's \<Rightarrow> bool"
    and v0 :: 'v
    and width :: nat
    and alloc :: "'m option \<Rightarrow> 's \<Rightarrow> ('p option \<times> 's) option"
    and before :: "'p \<Rightarrow> 's \<Rightarrow> (int \<times> 's) option"
  assumes keys: "rep s ps \<Longrightarrow> distinct (map fst ps)"
    and alloc_law: "rep s ps \<Longrightarrow> ok m s \<Longrightarrow> \<exists>r s'. alloc m s = Some (r, s') \<and>
      (case r of None \<Rightarrow> m = None \<and> s' = s | Some p \<Rightarrow> rep s' (ps @ [(p, v0)]))"
    and before_law: "rep s ps \<Longrightarrow> (p, x) \<in> set ps \<Longrightarrow> \<exists>s' qs rs. before p s = Some (0, s') \<and> ps = qs @ rs \<and> rep s' rs \<and>
      (p, x) \<in> set (take width rs)"
begin

lemma alloc_new:
  assumes "rep s ps" "ok m s"
  shows "\<exists>r s'. alloc m s = Some (r, s') \<and>
    (case r of None \<Rightarrow> m = None \<and> s' = s | Some p \<Rightarrow> p \<notin> fst ` set ps \<and> rep s' (ps @ [(p, v0)]))"
proof -
  obtain r s' where r: "alloc m s = Some (r, s')" "case r of None \<Rightarrow> m = None \<and> s' = s | Some p \<Rightarrow> rep s' (ps @ [(p, v0)])"
    using alloc_law [OF assms] by blast
  show ?thesis
  proof (cases r)
    case (Some p)
    then have "rep s' (ps @ [(p, v0)])" using r(2) by simp
    with keys [OF this] r(1) Some show ?thesis by auto
  qed (use r in auto)
qed

lemma later_kept:
  assumes "rep s (qs @ (p, x) # rs)"
  shows "\<exists>s' us qs'. before p s = Some (0, s') \<and> qs = us @ qs' \<and> length qs' < width \<and> rep s' (qs' @ (p, x) # rs)"
proof -
  obtain s' us vs where b: "before p s = Some (0, s')" "qs @ (p, x) # rs = us @ vs" "rep s' vs" "(p, x) \<in> set (take width vs)"
    using before_law [OF assms, of p x] by auto
  have d: "distinct (qs @ (p, x) # rs)" using keys [OF assms] by (simp only: distinct_map)
  have "(p, x) \<in> set vs" using b(4) by (rule in_set_takeD)
  then have "(p, x) \<notin> set us" using d unfolding b(2) by auto
  then obtain ws where w: "qs = us @ ws" "vs = ws @ (p, x) # rs"
    using b(2) d by (auto simp: append_eq_append_conv2 Cons_eq_append_conv)
  have "length ws < width"
    using b(4) d w by (cases "width \<le> length ws") (auto dest: in_set_takeD)
  then show ?thesis using b w by blast
qed

end

interpretation tna: node_arena arena_rep fresh_block cleared_node BLOCK_TRANX_NODES allocate_node free_nodes_before
proof
  show "distinct (map fst ps)" if "arena_rep s ps" for s ps
    using that used_distinct by (cases s) (auto simp: arena_rep_def)
  show "\<exists>r s'. allocate_node m s = Some (r, s') \<and>
      (case r of None \<Rightarrow> m = None \<and> s' = s | Some p \<Rightarrow> arena_rep s' (ps @ [(p, cleared_node)]))"
    if "arena_rep s ps" "fresh_block m s" for s ps m
    using allocate_node_spec [OF that] by (simp add: allocated_def)
  show "\<exists>s' qs rs. free_nodes_before p s = Some (0, s') \<and> ps = qs @ rs \<and> arena_rep s' rs \<and>
      (p, x) \<in> set (take BLOCK_TRANX_NODES rs)" if "arena_rep s ps" "(p, x) \<in> set ps" for s ps p x
    by (rule free_nodes_before_spec [OF that])
qed

subsection \<open>Reserved blocks\<close>

lemma blocks_spanned: "((n::nat) + 30) div 16 = n div 16 + (if n mod 16 > 1 then 2 else 1)"
proof -
  have "(n + 30) div 16 = n div 16 + 1 + (n mod 16 + 14) div 16" using div_add1_eq [of n 30 16] by simp
  moreover have "(n mod 16 + 14) div 16 = (if n mod 16 > 1 then 1 else 0)"
    using mod_less_divisor [of 16 n] by (simp add: div_nat_eqI)
  ultimately show ?thesis by simp
qed

lemma reserved_init:
  "reserved_blocks (allocator_init m) = (m div 16) + (if m mod 16 \<le> 1 then 1 else 2) \<and>
   (unat m < 2 ^ 32 - 30 \<longrightarrow> unat (reserved_blocks (allocator_init m)) = (unat m + 30) div 16)"
proof -
  have c: "m mod 16 > 1 \<longleftrightarrow> unat m mod 16 > 1"
    by (simp add: word_less_nat_alt unat_mod)
  have u: "unat (m div 16) = unat m div 16" by (simp add: unat_div)
  have b: "unat m div 16 < 2 ^ 28" using unsigned_less [of m, where 'a = nat] by simp
  have "unat (m div 16 + (if m mod 16 > 1 then 2 else 1)) = unat m div 16 + (if unat m mod 16 > 1 then 2 else 1)"
    using u b c by (simp add: unat_word_ariths)
  moreover have "(unat m + 30) div 16 = unat m div 16 + (if unat m mod 16 > 1 then 2 else 1)" by (rule blocks_spanned)
  ultimately show ?thesis by (auto simp: allocator_init_def not_less)
qed

lemma free_all_bounds:
  assumes "alloc_rep (h, a) pre rest n" "length (pre @ rest) < 2 ^ 32"
  shows "\<exists>st' bs. free_all_nodes (h, a) = Some (0, st') \<and> alloc_rep st' [] bs 0 \<and> arena_rep st' [] \<and>
       length bs \<le> max 2 (unat (reserved_blocks a)) \<and> min (length (pre @ rest)) (unat (reserved_blocks a)) \<le> length bs"
proof -
  obtain st' bs d where f: "free_all_nodes (h, a) = Some (0, st')" "alloc_rep st' [] bs 0"
    "length bs + d = length (pre @ rest)"
    "length bs \<le> 2 \<or> block_num (snd st') \<le> reserved_blocks a" "d = 0 \<or> reserved_blocks a \<le> block_num (snd st')"
    using free_all_rep [OF assms(1)] by blast
  have "block_num (snd st') = of_nat (length bs)" using f(2) by (cases st') (simp add: alloc_rep_def)
  moreover have "length bs < 2 ^ 32" using f(3) assms(2) by linarith
  ultimately have "unat (block_num (snd st')) = length bs" by (simp add: unat_of_nat take_bit_nat_eq_self)
  then have "length bs \<le> max 2 (unat (reserved_blocks a))" "min (length (pre @ rest)) (unat (reserved_blocks a)) \<le> length bs"
    using f(3,4,5) by (auto simp: word_le_nat_alt)
  moreover have "arena_rep st' []" unfolding arena_rep_def
    by (intro exI conjI, rule f(2)) (auto simp: used_def block_used_def split: list.splits)
  ultimately show ?thesis using f(1,2) by blast
qed

lemma destroy_all:
  assumes "alloc_rep (h, a) pre rest n"
  shows "allocator_destroy (h, a) = Some (h |` (- set (pre @ rest)), a\<lparr>block_num := 0\<rparr>)"
  using assms destroy_loop_spec [of h "first_block a" "pre @ rest" a]
  by (simp add: alloc_rep_def allocator_destroy_def)

subsection \<open>Properties\<close>

text \<open>
  \<open>allocate_node\<close> returns a cleared node that is not in use and puts it behind all nodes in use,
  whose addresses and contents stay as they are; it fails only when no free node is left and
  \<open>my_malloc\<close> fails, and then leaves the allocator unchanged.\<close>

theorem tranx_allocate_node:
  assumes "arena_rep st ps" "fresh_block mal st"
  shows "\<exists>r st'. allocate_node mal st = Some (r, st') \<and> (case r of
      None \<Rightarrow> mal = None \<and> st' = st
    | Some p \<Rightarrow> p \<notin> fst ` set ps \<and> arena_rep st' (ps @ [(p, cleared_node)]))"
  by (rule tna.alloc_new [OF assms])

definition raw_block :: Block where
  "raw_block = \<lparr>blk_next = Some 3, nodes = replicate 16 cleared_node\<rparr>"

lemma init_rep: "arena_rep (h, allocator_init m) []"
  unfolding arena_rep_def by (intro exI [of _ "[]"] exI [of _ 0]) (simp add: alloc_rep_def allocator_init_def used_def apart_def)

lemma raw_block_fresh: "fresh_block (Some (1000, raw_block)) (Map.empty, a)"
  by (simp add: fresh_block_def raw_block_def BLOCK_TRANX_NODES_def)

theorem tranx_allocate_node_witness:
  "\<exists>r st'. allocate_node (Some (1000, raw_block)) (Map.empty, allocator_init 5) = Some (Some r, st') \<and>
     arena_rep st' [(r, cleared_node)]"
  using tranx_allocate_node [OF init_rep raw_block_fresh, of 5] by (auto split: option.splits)

text \<open>
  C34. \<open>free_nodes_before\<close> with a node in use succeeds and keeps this node and all nodes allocated
  after it, with their contents and order; of the nodes before it at most those of its own block
  stay in use.\<close>

theorem tranx_free_nodes_before:
  assumes "arena_rep st (qs @ (node, x) # rs)"
  shows "\<exists>st' us qs'. free_nodes_before node st = Some (0, st') \<and> qs = us @ qs' \<and> length qs' < BLOCK_TRANX_NODES \<and>
    arena_rep st' (qs' @ (node, x) # rs)"
  by (rule tna.later_kept [OF assms])

lemma one_node_rep: "alloc_rep ([1000 \<mapsto> raw_block\<lparr>blk_next := None\<rparr>], (allocator_init 5)\<lparr>first_block := Some 1000,
    last_block := Some 1000, current_block := Some 1000, last_node_ix := 0, block_num := 1\<rparr>) [] [1000] 1"
  by (simp add: alloc_rep_def allocator_init_def raw_block_def BLOCK_TRANX_NODES_def apart_def)

theorem tranx_free_nodes_before_witness:
  "\<exists>st' qs'. free_nodes_before 1008 ([1000 \<mapsto> raw_block\<lparr>blk_next := None\<rparr>], (allocator_init 5)\<lparr>first_block := Some 1000,
    last_block := Some 1000, current_block := Some 1000, last_node_ix := 0, block_num := 1\<rparr>) = Some (0, st') \<and>
    arena_rep st' (qs' @ [(1008, cleared_node)])"
proof -
  have "arena_rep ([1000 \<mapsto> raw_block\<lparr>blk_next := None\<rparr>], (allocator_init 5)\<lparr>first_block := Some 1000,
      last_block := Some 1000, current_block := Some 1000, last_node_ix := 0, block_num := 1\<rparr>) ([] @ [(1008, cleared_node)])"
    unfolding arena_rep_def
    by (intro exI conjI) (rule one_node_rep, simp add: used_def block_used_def node_addr_def raw_block_def)
  from tranx_free_nodes_before [OF this] show ?thesis by blast
qed

text \<open>
  Starting the allocator with \<open>reserved_nodes\<close> reserves as many blocks as this number of nodes can
  spread over (they may start at the last node of a block). \<open>free_all_nodes\<close> leaves no node in use and
  keeps at most the reserved blocks or two, and at least the reserved ones if there were so many; the
  destructor frees the blocks of the table, each once, and nothing else.\<close>

theorem tranx_reserved_blocks:
  assumes "alloc_rep (h, a) pre rest n" "length (pre @ rest) < 2 ^ 32"
  shows "reserved_blocks (allocator_init m) = (m div 16) + (if m mod 16 \<le> 1 then 1 else 2) \<and>
    (unat m < 2 ^ 32 - 30 \<longrightarrow> unat (reserved_blocks (allocator_init m)) = (unat m + 30) div 16) \<and>
    (\<exists>st' bs. free_all_nodes (h, a) = Some (0, st') \<and> alloc_rep st' [] bs 0 \<and> arena_rep st' [] \<and>
       length bs \<le> max 2 (unat (reserved_blocks a)) \<and>
       min (length (pre @ rest)) (unat (reserved_blocks a)) \<le> length bs) \<and>
    allocator_destroy (h, a) = Some (h |` (- set (pre @ rest)), a\<lparr>block_num := 0\<rparr>)"
  using reserved_init free_all_bounds [OF assms] destroy_all [OF assms(1)] by blast

theorem tranx_reserved_blocks_witness:
  "unat (reserved_blocks (allocator_init 5)) = 2 \<and>
   (\<exists>st' bs. free_all_nodes ([1000 \<mapsto> raw_block\<lparr>blk_next := None\<rparr>], (allocator_init 5)\<lparr>first_block := Some 1000,
      last_block := Some 1000, current_block := Some 1000, last_node_ix := 0, block_num := 1\<rparr>) = Some (0, st') \<and>
      alloc_rep st' [] bs 0 \<and> length bs \<le> 2)"
  using tranx_reserved_blocks [OF one_node_rep, of 5] by (auto simp: allocator_init_def)

end
