(* ===== verification/SqlTypeInt.thy ===== *)
theory SqlTypeInt
  imports Prelude
begin

text \<open>
  \<open>sql_type_int.h\<close>: \<open>Longlong_hybrid\<close>, a 64-bit value with a flag that says whether it is to be read as
  signed or unsigned, and the classes it is built from. The value is a 64-bit word; a signed
  comparison is the one on words read as signed numbers.
\<close>

subsection \<open>The classes\<close>

record Null_flag =
  m_is_null :: bool

record Longlong =
  m_value :: longlong

record Longlong_null = Longlong +
  ln_is_null :: bool

record Longlong_hybrid = Longlong +
  m_unsigned :: bool

record Longlong_hybrid_null = Longlong_hybrid +
  lhn_is_null :: bool

definition mk_Longlong_null :: "longlong \<Rightarrow> bool \<Rightarrow> Longlong_null" where
  "mk_Longlong_null nr is_null = \<lparr>m_value = nr, ln_is_null = is_null\<rparr>"

definition mk_Longlong_hybrid :: "longlong \<Rightarrow> bool \<Rightarrow> Longlong_hybrid" where
  "mk_Longlong_hybrid nr unsigned_flag = \<lparr>m_value = nr, m_unsigned = unsigned_flag\<rparr>"

definition mk_Longlong_hybrid_null :: "Longlong_null \<Rightarrow> bool \<Rightarrow> Longlong_hybrid_null" where
  "mk_Longlong_hybrid_null nr unsigned_flag =
     \<lparr>m_value = m_value nr, m_unsigned = unsigned_flag, lhn_is_null = ln_is_null nr\<rparr>"

definition LONGLONG_MIN :: longlong where "LONGLONG_MIN = 0x8000000000000000"

definition LONGLONG_MAX :: longlong where "LONGLONG_MAX = 0x7FFFFFFFFFFFFFFF"

definition cmp_signed :: "Longlong_hybrid \<Rightarrow> Longlong_hybrid \<Rightarrow> int" where
  "cmp_signed x y = (if m_value x <s m_value y then -1 else if m_value x = m_value y then 0 else 1)"

definition cmp_unsigned :: "Longlong_hybrid \<Rightarrow> Longlong_hybrid \<Rightarrow> int" where
  "cmp_unsigned x y = (if m_value x < m_value y then -1 else if m_value x = m_value y then 0 else 1)"

definition is_unsigned_outside_of_signed_range :: "Longlong_hybrid \<Rightarrow> bool" where
  "is_unsigned_outside_of_signed_range x \<longleftrightarrow> m_unsigned x \<and> m_value x > LONGLONG_MAX"

definition lh_neg :: "Longlong_hybrid \<Rightarrow> bool" where
  "lh_neg x \<longleftrightarrow> m_value x <s 0 \<and> \<not> m_unsigned x"

definition lh_abs :: "Longlong_hybrid \<Rightarrow> ulonglong" where
  "lh_abs x =
     (if m_unsigned x then m_value x
      else if m_value x = LONGLONG_MIN then LONGLONG_MAX + 1
      else if m_value x <s 0 then - m_value x else m_value x)"

definition lh_to_ulonglong :: "Longlong_hybrid \<Rightarrow> ulonglong \<Rightarrow> ulonglong" where
  "lh_to_ulonglong x upper_bound =
     (if lh_neg x then 0 else if m_value x > upper_bound then upper_bound else m_value x)"

definition lh_to_uint :: "Longlong_hybrid \<Rightarrow> uint \<Rightarrow> uint" where
  "lh_to_uint x upper_bound = ucast (lh_to_ulonglong x (ucast upper_bound))"

definition lh_cmp :: "Longlong_hybrid \<Rightarrow> Longlong_hybrid \<Rightarrow> int" where
  "lh_cmp x y =
     (if m_unsigned x = m_unsigned y then (if m_unsigned x then cmp_unsigned x y else cmp_signed x y)
      else if is_unsigned_outside_of_signed_range x then 1
      else if is_unsigned_outside_of_signed_range y then -1
      else cmp_signed x y)"

definition lh_eq :: "Longlong_hybrid \<Rightarrow> Longlong_hybrid \<Rightarrow> bool" where
  "lh_eq x y \<longleftrightarrow> lh_cmp x y = 0"

definition lh_eq_ulonglong :: "Longlong_hybrid \<Rightarrow> ulonglong \<Rightarrow> bool" where
  "lh_eq_ulonglong x nr \<longleftrightarrow> lh_cmp x (mk_Longlong_hybrid nr True) = 0"

definition lh_eq_uint :: "Longlong_hybrid \<Rightarrow> uint \<Rightarrow> bool" where
  "lh_eq_uint x nr \<longleftrightarrow> lh_cmp x (mk_Longlong_hybrid (ucast nr) True) = 0"

definition lh_eq_longlong :: "Longlong_hybrid \<Rightarrow> longlong \<Rightarrow> bool" where
  "lh_eq_longlong x nr \<longleftrightarrow> lh_cmp x (mk_Longlong_hybrid nr False) = 0"

definition lh_eq_int :: "Longlong_hybrid \<Rightarrow> 32 word \<Rightarrow> bool" where
  "lh_eq_int x nr \<longleftrightarrow> lh_cmp x (mk_Longlong_hybrid (scast nr) False) = 0"

subsection \<open>The number a hybrid stands for\<close>

definition lh_val :: "Longlong_hybrid \<Rightarrow> int" where
  "lh_val x = (if m_unsigned x then uint (m_value x) else sint (m_value x))"

lemma mod_wrap_63: "2 ^ 63 \<le> (x :: int) \<Longrightarrow> x < 2 ^ 64 \<Longrightarrow> (x + 2 ^ 63) mod 2 ^ 64 = x - 2 ^ 63"
  using mod_add_self2 [of "x - 2 ^ 63" "2 ^ 64 :: int"] mod_pos_pos_trivial [of "x - 2 ^ 63" "2 ^ 64 :: int"]
  by (simp add: add.commute)

lemma sint_via_uint: "sint (w :: 64 word) = (if uint w < 2 ^ 63 then uint w else uint w - 2 ^ 64)"
proof -
  have b: "0 \<le> uint w" "uint w < 2 ^ 64" using unsigned_less [of w, where 'a = int] by auto
  have "sint w = signed_take_bit 63 (uint w)" by (simp add: sint_uint)
  also have "\<dots> = (uint w + 2 ^ 63) mod 2 ^ 64 - 2 ^ 63" by (simp add: signed_take_bit_eq_take_bit_shift take_bit_eq_mod)
  also have "\<dots> = (if uint w < 2 ^ 63 then uint w else uint w - 2 ^ 64)"
    using b mod_wrap_63 [of "uint w"] mod_pos_pos_trivial [of "uint w + 2 ^ 63" "2 ^ 64"] by simp
  finally show ?thesis .
qed

lemma word64_lt_uint: "(v :: 64 word) < w \<longleftrightarrow> uint v < uint w"
  by (simp add: word_less_def)

lemma word64_eq_uint: "(v :: 64 word) = w \<longleftrightarrow> uint v = uint w"
  by (rule word_uint_eq_iff)

lemma uint64_bounds: "0 \<le> uint (w :: 64 word)" "uint (w :: 64 word) < 2 ^ 64"
  using unsigned_less [of w, where 'a = int] by auto

lemmas lh_defs = lh_val_def word_sless_alt sint_via_uint word64_lt_uint LONGLONG_MAX_def LONGLONG_MIN_def

lemma cmp_signed_val: "cmp_signed x y = (let a = sint (m_value x); b = sint (m_value y) in if a < b then -1 else if a = b then 0 else 1)"
  using signed_word_eqI [of "m_value x" "m_value y"] by (auto simp: cmp_signed_def word_sless_alt Let_def)

lemma cmp_unsigned_val: "cmp_unsigned x y = (let a = uint (m_value x); b = uint (m_value y) in if a < b then -1 else if a = b then 0 else 1)"
  by (simp add: cmp_unsigned_def word64_lt_uint word64_eq_uint [of "m_value x"] Let_def)

lemma outside_val: "is_unsigned_outside_of_signed_range x \<longleftrightarrow> m_unsigned x \<and> 2 ^ 63 \<le> uint (m_value x)"
  by (auto simp: is_unsigned_outside_of_signed_range_def word64_lt_uint LONGLONG_MAX_def)

lemma sint64_lt: "sint (w :: 64 word) < 2 ^ 63"
  using uint64_bounds [of w] by (simp add: sint_via_uint)

lemma lh_cmp_val: "lh_cmp x y = (if lh_val x < lh_val y then -1 else if lh_val x = lh_val y then 0 else 1)"
proof -
  have s: "sint w = uint w" if "\<not> 2 ^ 63 \<le> uint w" for w :: "64 word" using that by (simp add: sint_via_uint)
  consider "m_unsigned x = m_unsigned y" | "m_unsigned x" "\<not> m_unsigned y" | "\<not> m_unsigned x" "m_unsigned y" by blast
  then show ?thesis
  proof cases
    case 1
    then show ?thesis by (simp add: lh_cmp_def lh_val_def cmp_signed_val cmp_unsigned_val Let_def)
  next
    case 2
    then show ?thesis
      using sint64_lt [of "m_value y"] s [of "m_value x"] by (auto simp: lh_cmp_def lh_val_def cmp_signed_val outside_val Let_def)
  next
    case 3
    then show ?thesis
      using sint64_lt [of "m_value x"] s [of "m_value y"] by (auto simp: lh_cmp_def lh_val_def cmp_signed_val outside_val Let_def)
  qed
qed

lemma lh_val_mk: "lh_val (mk_Longlong_hybrid n u) = (if u then uint n else sint n)"
  by (simp add: lh_val_def mk_Longlong_hybrid_def)

lemma uint_ucast_32_64: "uint (ucast (k :: 32 word) :: 64 word) = uint k"
  by (simp add: unsigned_ucast_eq take_bit_int_eq_self_iff) (use unsigned_less [of k, where 'a = int] in simp)

lemma sint_scast_32_64: "sint (scast (k :: 32 word) :: 64 word) = sint k"
proof -
  have "- (2 ^ 31) \<le> sint k" "sint k < 2 ^ 31" using sint_ge [of k] sint_lt [of k] by auto
  then have "signed_take_bit 63 (sint k) = sint k" by (intro signed_take_bit_int_eq_self) auto
  then show ?thesis by (simp add: signed_scast_eq)
qed

lemma lh_neg_val: "lh_neg x \<longleftrightarrow> lh_val x < 0"
  by (auto simp: lh_neg_def lh_val_def word_sless_alt)

lemma lh_abs_val: "uint (lh_abs x) = \<bar>lh_val x\<bar>"
proof -
  let ?v = "m_value x"
  have neg: "uint (- ?v) = - sint ?v" if "sint ?v < 0"
  proof -
    have "uint ?v \<ge> 2 ^ 63" using that uint64_bounds [of ?v] by (auto simp: sint_via_uint split: if_splits)
    then have "uint (- ?v) = 2 ^ 64 - uint ?v" using uint64_bounds [of ?v]
      by (simp add: uint_word_ariths zmod_zminus1_eq_if)
    then show ?thesis using \<open>uint ?v \<ge> 2 ^ 63\<close> by (simp add: sint_via_uint)
  qed
  have pos: "uint ?v = sint ?v" if "\<not> sint ?v < 0"
    using that uint64_bounds [of ?v] by (auto simp: sint_via_uint split: if_splits)
  have m: "LONGLONG_MAX + 1 = LONGLONG_MIN" "- LONGLONG_MIN = LONGLONG_MIN" "sint LONGLONG_MIN < 0"
    by (simp_all add: LONGLONG_MAX_def LONGLONG_MIN_def sint_via_uint)
  have "lh_abs x = (if m_unsigned x then ?v else if sint ?v < 0 then - ?v else ?v)"
    using m by (auto simp: lh_abs_def word_sless_alt)
  then show ?thesis using neg pos uint64_bounds [of ?v] by (simp add: lh_val_def)
qed

lemma lh_to_ulonglong_val: "uint (lh_to_ulonglong x b) = max 0 (min (lh_val x) (uint b))"
proof -
  have "uint (m_value x) = lh_val x" if "\<not> lh_val x < 0"
    using that uint64_bounds [of "m_value x"] by (auto simp: lh_val_def sint_via_uint split: if_splits)
  then show ?thesis using uint64_bounds [of b] by (auto simp: lh_to_ulonglong_def lh_neg_val word64_lt_uint)
qed

subsection \<open>Properties\<close>

text \<open>
  \<open>Longlong_hybrid::cmp\<close> compares the numbers the two values stand for, whatever mixture of signed
  and unsigned they are, and each of the overloaded equality operators is equality of numbers.\<close>

theorem Longlong_hybrid_cmp:
  "lh_cmp x y = sgn (lh_val x - lh_val y) \<and>
   (lh_eq x y \<longleftrightarrow> lh_val x = lh_val y) \<and>
   (lh_eq_ulonglong x n \<longleftrightarrow> lh_val x = uint n) \<and> (lh_eq_uint x k \<longleftrightarrow> lh_val x = uint k) \<and>
   (lh_eq_longlong x n \<longleftrightarrow> lh_val x = sint n) \<and> (lh_eq_int x k \<longleftrightarrow> lh_val x = sint k)"
  by (simp add: lh_cmp_val lh_eq_def lh_eq_ulonglong_def lh_eq_uint_def lh_eq_longlong_def lh_eq_int_def
      lh_val_mk uint_ucast_32_64 sint_scast_32_64 sgn_if)

text \<open>
  The conversions of \<open>Longlong_hybrid\<close> do not wrap: \<open>abs\<close> is the absolute value also of the smallest
  signed number, and \<open>to_ulonglong\<close> and \<open>to_uint\<close> cut the number off at 0 and at the bound.\<close>

theorem Longlong_hybrid_conversions:
  "uint (lh_abs x) = \<bar>lh_val x\<bar> \<and>
   uint (lh_to_ulonglong x b) = max 0 (min (lh_val x) (uint b)) \<and>
   uint (lh_to_uint x c) = max 0 (min (lh_val x) (uint c))"
proof -
  have c: "0 \<le> uint c" "uint c < 2 ^ 32" using unsigned_less [of c, where 'a = int] by auto
  have "uint (lh_to_ulonglong x (ucast c)) = max 0 (min (lh_val x) (uint c))"
    by (simp add: lh_to_ulonglong_val uint_ucast_32_64)
  then have "uint (lh_to_uint x c) = take_bit 32 (max 0 (min (lh_val x) (uint c)))"
    by (simp add: lh_to_uint_def unsigned_ucast_eq)
  also have "\<dots> = max 0 (min (lh_val x) (uint c))" using c by (intro take_bit_int_eq_self) auto
  finally show ?thesis using lh_abs_val lh_to_ulonglong_val by simp
qed

end
