(* ===== verification/SqlLimit.thy ===== *)
theory SqlLimit
  imports Prelude
begin

text \<open>
  \<open>sql_limit.h\<close>: the counters of a \<open>LIMIT ... OFFSET ...\<close> clause. \<open>ha_rows\<close> is a 64-bit unsigned integer and
  \<open>HA_POS_ERROR\<close>, its largest value, stands for no limit.
\<close>

type_synonym ha_rows = "64 word"

definition HA_POS_ERROR :: ha_rows where "HA_POS_ERROR = NOT 0"

record Select_limit_counters =
  select_limit_cnt :: ha_rows
  offset_limit_cnt :: ha_rows

definition slc_init :: Select_limit_counters where
  "slc_init = \<lparr>select_limit_cnt = 0, offset_limit_cnt = 0\<rparr>"

definition slc_copy :: "Select_limit_counters \<Rightarrow> Select_limit_counters" where
  "slc_copy orig = \<lparr>select_limit_cnt = select_limit_cnt orig, offset_limit_cnt = offset_limit_cnt orig\<rparr>"

definition set_limit :: "Select_limit_counters \<Rightarrow> ha_rows \<Rightarrow> ha_rows \<Rightarrow> Select_limit_counters" where
  "set_limit c limit offset = (
     let c1 = c\<lparr>offset_limit_cnt := offset, select_limit_cnt := limit\<rparr> in
     if select_limit_cnt c1 + offset_limit_cnt c1 \<ge> select_limit_cnt c1
     then c1\<lparr>select_limit_cnt := select_limit_cnt c1 + offset_limit_cnt c1\<rparr>
     else c1\<lparr>select_limit_cnt := HA_POS_ERROR\<rparr>)"

definition set_single_row :: "Select_limit_counters \<Rightarrow> Select_limit_counters" where
  "set_single_row c = c\<lparr>offset_limit_cnt := 0, select_limit_cnt := 1\<rparr>"

definition is_unlimited :: "Select_limit_counters \<Rightarrow> bool" where
  "is_unlimited c \<longleftrightarrow> select_limit_cnt c = HA_POS_ERROR"

definition is_unrestricted :: "Select_limit_counters \<Rightarrow> bool" where
  "is_unrestricted c \<longleftrightarrow> select_limit_cnt c = HA_POS_ERROR \<and> offset_limit_cnt c = 0"

definition set_unlimited :: "Select_limit_counters \<Rightarrow> Select_limit_counters" where
  "set_unlimited c = c\<lparr>select_limit_cnt := HA_POS_ERROR, offset_limit_cnt := 0\<rparr>"

definition check_offset :: "Select_limit_counters \<Rightarrow> ha_rows \<Rightarrow> bool" where
  "check_offset c sent \<longleftrightarrow> sent < offset_limit_cnt c"

definition remove_offset :: "Select_limit_counters \<Rightarrow> Select_limit_counters" where
  "remove_offset c = c\<lparr>offset_limit_cnt := 0\<rparr>"

definition get_select_limit :: "Select_limit_counters \<Rightarrow> ha_rows" where
  "get_select_limit c = select_limit_cnt c"

definition get_offset_limit :: "Select_limit_counters \<Rightarrow> ha_rows" where
  "get_offset_limit c = offset_limit_cnt c"

subsection \<open>Wrap-around\<close>

lemma add_no_wrap_iff: "(x :: 64 word) \<le> x + y \<longleftrightarrow> unat x + unat y < 2 ^ 64"
proof -
  have b: "unat x < 2 ^ 64" "unat y < 2 ^ 64"
    using unsigned_less [of x, where 'a = nat] unsigned_less [of y, where 'a = nat] by auto
  have e: "unat (x + y) = (unat x + unat y) mod 2 ^ 64" by (simp add: unat_word_ariths)
  show ?thesis
  proof (cases "unat x + unat y < 2 ^ 64")
    case False
    have "(unat x + unat y) mod 2 ^ 64 = unat x + unat y - 2 ^ 64"
      using False b by (simp add: mod_if)
    then show ?thesis using False b e by (simp add: word_le_nat_alt)
  qed (use e in \<open>simp add: word_le_nat_alt\<close>)
qed

lemma unat_set_limit:
  "unat (select_limit_cnt (set_limit c l f)) = min (unat l + unat f) (2 ^ 64 - 1)" "offset_limit_cnt (set_limit c l f) = f"
proof -
  have "unat (l + f) = unat l + unat f" if "unat l + unat f < 2 ^ 64"
    using that by (simp add: unat_word_ariths)
  moreover have "unat HA_POS_ERROR = 2 ^ 64 - 1" by (simp add: HA_POS_ERROR_def unsigned_minus_1_eq_mask mask_eq_exp_minus_1)
  ultimately show "unat (select_limit_cnt (set_limit c l f)) = min (unat l + unat f) (2 ^ 64 - 1)"
    by (auto simp: set_limit_def add_no_wrap_iff Let_def)
  show "offset_limit_cnt (set_limit c l f) = f" by (simp add: set_limit_def Let_def)
qed

lemma filter_window:
  "map snd (filter (\<lambda>(i, r). a \<le> i \<and> i < b + a) (zip [0..<length xs] xs)) = take b (drop a xs)"
proof (induction xs rule: rev_induct)
  case (snoc x xs)
  have "take b (drop a (xs @ [x])) = take b (drop a xs) @ (if a \<le> length xs \<and> length xs < b + a then [x] else [])"
    by (auto simp: not_le)
  then show ?case using snoc by simp
qed simp

subsection \<open>Properties\<close>

text \<open>
  C39. With the counters of \<open>set_limit\<close> a statement that fetches rows while fewer than
  \<open>get_select_limit()\<close> were fetched, and sends those for which \<open>check_offset\<close> is false, sends exactly the
  rows of \<open>LIMIT l OFFSET f\<close>: the first \<open>l\<close> rows after the first \<open>f\<close>. The sum of the two does not wrap
  around: it is cut off at the value that means no limit, which no table of fewer than \<open>2 ^ 64\<close> rows
  reaches.\<close>

theorem set_limit_selects:
  assumes "length rows < 2 ^ 64"
  shows "map snd (filter (\<lambda>(i, r). \<not> check_offset (set_limit c l f) (of_nat i) \<and> of_nat i < get_select_limit (set_limit c l f))
           (zip [0..<length rows] rows)) = take (unat l) (drop (unat f) rows)"
proof -
  have "(\<not> check_offset (set_limit c l f) (of_nat i) \<and> of_nat i < get_select_limit (set_limit c l f)) \<longleftrightarrow>
      unat f \<le> i \<and> i < unat l + unat f" if "i \<in> set [0..<length rows]" for i
  proof -
    have "unat (of_nat i :: 64 word) = i" using that assms by (simp add: unat_of_nat take_bit_nat_eq_self)
    moreover have "i < 2 ^ 64 - 1" using that assms by simp
    ultimately show ?thesis
      using unat_set_limit [of c l f] by (auto simp: check_offset_def get_select_limit_def word_less_nat_alt)
  qed
  then have "filter (\<lambda>(i, r). \<not> check_offset (set_limit c l f) (of_nat i) \<and> of_nat i < get_select_limit (set_limit c l f))
        (zip [0..<length rows] rows) = filter (\<lambda>(i, r). unat f \<le> i \<and> i < unat l + unat f) (zip [0..<length rows] rows)"
    by (intro filter_cong refl) (use set_zip_leftD in \<open>fastforce simp only: split_def prod.collapse\<close>)
  then show ?thesis by (simp add: filter_window)
qed

theorem set_limit_selects_witness:
  "map snd (filter (\<lambda>(i, r). \<not> check_offset (set_limit slc_init 2 1) (of_nat i) \<and> of_nat i < get_select_limit (set_limit slc_init 2 1))
     (zip [0..<length [10, 11, 12, 13 :: nat]] [10, 11, 12, 13 :: nat])) = [11, 12]"
proof -
  have l: "length [10, 11, 12, 13 :: nat] < 2 ^ 64" by simp
  have r: "take (unat (2 :: ha_rows)) (drop (unat (1 :: ha_rows)) [10, 11, 12, 13 :: nat]) = [11, 12]" by simp
  show ?thesis using set_limit_selects [OF l, of slc_init 2 1] unfolding r .
qed

end
