(* ===== verification/SqlStatistics.thy ===== *)
theory SqlStatistics
  imports ByteOrder Complex_Main "HOL-Library.Monad_Syntax"
begin

text \<open>
  \<open>sql_statistics.h\<close>: the histograms of the engine-independent statistics with their binary search and
  the statistics of a column and of an index. A \<open>double\<close> is a real number here, its conversion to an
  integer cuts off the fraction. A histogram has at most 255 bytes, so that bucket numbers are plain
  numbers; a read outside the array of values is \<^term>\<open>None\<close>.
\<close>

subsection \<open>Enumerations and modes\<close>

datatype Use_stat_tables_mode = NEVER | COMPLEMENTARY | PREFERABLY | COMPLEMENTARY_FOR_QUERIES | PREFERABLY_FOR_QUERIES

datatype Histogram_type = SINGLE_PREC_HB | DOUBLE_PREC_HB

definition COLUMN_STAT_COLUMN_NAME :: nat where "COLUMN_STAT_COLUMN_NAME = 2"
definition COLUMN_STAT_MIN_VALUE :: nat where "COLUMN_STAT_MIN_VALUE = 3"
definition COLUMN_STAT_MAX_VALUE :: nat where "COLUMN_STAT_MAX_VALUE = 4"
definition COLUMN_STAT_HISTOGRAM :: nat where "COLUMN_STAT_HISTOGRAM = 10"

definition check_eits_collection_allowed :: "Use_stat_tables_mode \<Rightarrow> bool" where
  "check_eits_collection_allowed mode \<longleftrightarrow> mode = COMPLEMENTARY \<or> mode = PREFERABLY"

definition check_eits_preferred :: "Use_stat_tables_mode \<Rightarrow> bool" where
  "check_eits_preferred mode \<longleftrightarrow> mode = PREFERABLY \<or> mode = PREFERABLY_FOR_QUERIES"

subsection \<open>Histograms\<close>

record Histogram =
  h_type :: Histogram_type
  h_size :: uint8
  h_values :: "bytes option"

definition prec_factor :: "Histogram \<Rightarrow> nat" where
  "prec_factor h = (case h_type h of SINGLE_PREC_HB \<Rightarrow> 2 ^ 8 - 1 | DOUBLE_PREC_HB \<Rightarrow> 2 ^ 16 - 1)"

definition get_width :: "Histogram \<Rightarrow> nat" where
  "get_width h = (case h_type h of SINGLE_PREC_HB \<Rightarrow> unat (h_size h) | DOUBLE_PREC_HB \<Rightarrow> unat (h_size h) div 2)"

definition get_value :: "Histogram \<Rightarrow> nat \<Rightarrow> uint option" where
  "get_value h i = do {
     vs \<leftarrow> h_values h;
     case h_type h of
       SINGLE_PREC_HB \<Rightarrow> map_option ucast (arr_get vs i)
     | DOUBLE_PREC_HB \<Rightarrow> map_option ucast (gen_uint2korr vs (i * 2))
   }"

text \<open>Integer division of C, which truncates towards zero.\<close>

definition half :: "int \<Rightarrow> int" where
  "half x = (if x \<ge> 0 then x div 2 else - ((- x) div 2))"

partial_function (option) bucket_loop :: "Histogram \<Rightarrow> uint \<Rightarrow> int \<Rightarrow> int \<Rightarrow> int \<Rightarrow> nat \<Rightarrow> nat option" where
  "bucket_loop h val lp rp d i =
     (if d = 0 then Some i
      else Option.bind (get_value h i) (\<lambda>v.
        if val = v then Some i
        else if val < v then
          bucket_loop h val lp (int i) (half (int i - lp)) (nat (lp + half (int i - lp)))
        else Option.bind (get_value h (i + 1)) (\<lambda>w.
          if val > w then
            bucket_loop h val (int i + 1) rp (half (rp - (int i + 1))) (nat (int i + 1 + half (rp - (int i + 1))))
          else Some i)))"

fun first_loop :: "Histogram \<Rightarrow> uint \<Rightarrow> nat \<Rightarrow> nat option" where
  "first_loop h val 0 = Some 0"
| "first_loop h val (Suc i) = Option.bind (get_value h i) (\<lambda>v. if val = v then first_loop h val i else Some (Suc i))"

function last_loop :: "Histogram \<Rightarrow> uint \<Rightarrow> nat \<Rightarrow> nat option" where
  "last_loop h val i =
     (if i + 1 < get_width h
      then Option.bind (get_value h (i + 1)) (\<lambda>v. if val = v then last_loop h val (i + 1) else Some i)
      else Some i)"
  by pat_completeness auto
termination by (relation "measure (\<lambda>(h, val, i). get_width h - i)") auto

declare last_loop.simps [simp del]

definition find_bucket_val :: "Histogram \<Rightarrow> uint \<Rightarrow> bool \<Rightarrow> nat option" where
  "find_bucket_val h val first = do {
     i \<leftarrow> bucket_loop h val 0 (int (get_width h) - 1) (int (get_width h div 2)) (get_width h div 2);
     v \<leftarrow> get_value h i;
     let i1 = (if val > v \<and> int i < (int (get_width h) - 1) mod 2 ^ 32 then i + 1 else i);
     v1 \<leftarrow> get_value h i1;
     if val = v1 then (if first then first_loop h val i1 else last_loop h val i1) else Some i1
   }"

definition dbl_trunc :: "real \<Rightarrow> int" where
  "dbl_trunc x = (if x \<ge> 0 then \<lfloor>x\<rfloor> else \<lceil>x\<rceil>)"

definition find_bucket :: "Histogram \<Rightarrow> real \<Rightarrow> bool \<Rightarrow> nat option" where
  "find_bucket h pos first = find_bucket_val h (word_of_int (dbl_trunc (pos * real (prec_factor h)))) first"

definition h_set_size :: "Histogram \<Rightarrow> ulonglong \<Rightarrow> Histogram" where
  "h_set_size h sz = h\<lparr>h_size := ucast sz\<rparr>"

definition h_set_type :: "Histogram \<Rightarrow> Histogram_type \<Rightarrow> Histogram" where
  "h_set_type h t = h\<lparr>h_type := t\<rparr>"

definition h_set_values :: "Histogram \<Rightarrow> bytes option \<Rightarrow> Histogram" where
  "h_set_values h vals = h\<lparr>h_values := vals\<rparr>"

definition h_is_available :: "Histogram \<Rightarrow> bool" where
  "h_is_available h \<longleftrightarrow> h_size h > 0 \<and> h_values h \<noteq> None"

definition h_set_value :: "Histogram \<Rightarrow> nat \<Rightarrow> real \<Rightarrow> Histogram option" where
  "h_set_value h i val = do {
     vs \<leftarrow> h_values h;
     let x = dbl_trunc (val * real (prec_factor h));
     vs1 \<leftarrow> (case h_type h of
        SINGLE_PREC_HB \<Rightarrow> arr_set vs i (word_of_int x)
      | DOUBLE_PREC_HB \<Rightarrow> gen_int2store vs (i * 2) (word_of_int x));
     Some (h\<lparr>h_values := Some vs1\<rparr>)
   }"

definition h_set_prev_value :: "Histogram \<Rightarrow> nat \<Rightarrow> Histogram option" where
  "h_set_prev_value h i = do {
     vs \<leftarrow> h_values h;
     if i = 0 then None
     else do {
       vs1 \<leftarrow> (case h_type h of
          SINGLE_PREC_HB \<Rightarrow> Option.bind (arr_get vs (i - 1)) (arr_set vs i)
        | DOUBLE_PREC_HB \<Rightarrow> Option.bind (gen_uint2korr vs (i * 2 - 2)) (\<lambda>x. gen_int2store vs (i * 2) (ucast x)));
       Some (h\<lparr>h_values := Some vs1\<rparr>)
     }
   }"

definition range_selectivity :: "Histogram \<Rightarrow> real \<Rightarrow> real \<Rightarrow> real option" where
  "range_selectivity h min_pos max_pos = do {
     let bucket_sel = 1 / (real (get_width h) + 1);
     mn \<leftarrow> find_bucket h min_pos True;
     mx \<leftarrow> find_bucket h max_pos False;
     Some (bucket_sel * of_int ((int mx - int mn + 1) mod 2 ^ 32))
   }"

subsection \<open>Statistics of columns and indexes\<close>

definition Scale_factor_nulls_ratio :: nat where "Scale_factor_nulls_ratio = 100000"
definition Scale_factor_avg_length :: nat where "Scale_factor_avg_length = 100000"
definition Scale_factor_avg_frequency :: nat where "Scale_factor_avg_frequency = 100000"

record Column_statistics =
  column_stat_nulls :: uint32
  nulls_ratio :: uint32
  avg_length :: uint32
  avg_frequency :: uint32
  histogram :: Histogram

definition no_values_provided_bitmap :: uint32 where
  "no_values_provided_bitmap =
     push_bit (COLUMN_STAT_COLUMN_NAME + 1) (push_bit (COLUMN_STAT_HISTOGRAM - COLUMN_STAT_COLUMN_NAME) 1 - 1)"

definition set_all_nulls :: "Column_statistics \<Rightarrow> Column_statistics" where
  "set_all_nulls c = c\<lparr>column_stat_nulls := no_values_provided_bitmap\<rparr>"

definition set_not_null :: "Column_statistics \<Rightarrow> nat \<Rightarrow> Column_statistics" where
  "set_not_null c stat_field_no = c\<lparr>column_stat_nulls := column_stat_nulls c AND NOT (push_bit stat_field_no 1)\<rparr>"

definition stat_is_null :: "Column_statistics \<Rightarrow> nat \<Rightarrow> bool" where
  "stat_is_null c stat_field_no \<longleftrightarrow> column_stat_nulls c AND push_bit stat_field_no 1 \<noteq> 0"

definition get_nulls_ratio :: "Column_statistics \<Rightarrow> real" where
  "get_nulls_ratio c = real (unat (nulls_ratio c)) / real Scale_factor_nulls_ratio"

definition get_avg_length :: "Column_statistics \<Rightarrow> real" where
  "get_avg_length c = real (unat (avg_length c)) / real Scale_factor_avg_length"

definition get_avg_frequency :: "Column_statistics \<Rightarrow> real" where
  "get_avg_frequency c = real (unat (avg_frequency c)) / real Scale_factor_avg_frequency"

definition set_nulls_ratio :: "Column_statistics \<Rightarrow> real \<Rightarrow> Column_statistics" where
  "set_nulls_ratio c val = c\<lparr>nulls_ratio := word_of_int (dbl_trunc (val * real Scale_factor_nulls_ratio))\<rparr>"

definition set_avg_length :: "Column_statistics \<Rightarrow> real \<Rightarrow> Column_statistics" where
  "set_avg_length c val = c\<lparr>avg_length := word_of_int (dbl_trunc (val * real Scale_factor_avg_length))\<rparr>"

definition set_avg_frequency :: "Column_statistics \<Rightarrow> real \<Rightarrow> Column_statistics" where
  "set_avg_frequency c val = c\<lparr>avg_frequency := word_of_int (dbl_trunc (val * real Scale_factor_avg_frequency))\<rparr>"

definition min_max_values_are_provided :: "Column_statistics \<Rightarrow> bool" where
  "min_max_values_are_provided c \<longleftrightarrow> \<not> stat_is_null c COLUMN_STAT_MIN_VALUE \<and> \<not> stat_is_null c COLUMN_STAT_MAX_VALUE"

definition no_stat_values_provided :: "Column_statistics \<Rightarrow> bool" where
  "no_stat_values_provided c \<longleftrightarrow> column_stat_nulls c = no_values_provided_bitmap"

text \<open>The array of an \<open>Index_statistics\<close> is \<^term>\<open>None\<close> before \<open>init_avg_frequency\<close>.\<close>

record Index_statistics =
  is_avg_frequency :: "uint32 list option"

definition init_avg_frequency :: "Index_statistics \<Rightarrow> uint32 list option \<Rightarrow> Index_statistics" where
  "init_avg_frequency x ptr = x\<lparr>is_avg_frequency := ptr\<rparr>"

definition avg_frequency_is_inited :: "Index_statistics \<Rightarrow> bool" where
  "avg_frequency_is_inited x \<longleftrightarrow> is_avg_frequency x \<noteq> None"

definition idx_get_avg_frequency :: "Index_statistics \<Rightarrow> nat \<Rightarrow> real option" where
  "idx_get_avg_frequency x i = do {
     fs \<leftarrow> is_avg_frequency x;
     f \<leftarrow> arr_get fs i;
     Some (real (unat f) / real Scale_factor_avg_frequency)
   }"

definition idx_set_avg_frequency :: "Index_statistics \<Rightarrow> nat \<Rightarrow> real \<Rightarrow> Index_statistics option" where
  "idx_set_avg_frequency x i val = do {
     fs \<leftarrow> is_avg_frequency x;
     fs1 \<leftarrow> arr_set fs i (word_of_int (dbl_trunc (val * real Scale_factor_avg_frequency)));
     Some (x\<lparr>is_avg_frequency := Some fs1\<rparr>)
   }"

subsection \<open>The binary search\<close>

definition hist_ok :: "Histogram \<Rightarrow> bool" where
  "hist_ok h \<longleftrightarrow> (case h_values h of None \<Rightarrow> False | Some vs \<Rightarrow> unat (h_size h) \<le> length vs)"

definition hist_vals :: "Histogram \<Rightarrow> uint list" where
  "hist_vals h = map (\<lambda>i. the (get_value h i)) [0..<get_width h]"

lemma length_hist_vals [simp]: "length (hist_vals h) = get_width h"
  by (simp add: hist_vals_def)

lemma get_width_bound: "get_width h < 256"
  using unsigned_less [of "h_size h", where 'a = nat] by (auto simp: get_width_def split: Histogram_type.splits)

lemma get_value_vals:
  assumes "hist_ok h" "i < get_width h"
  shows "get_value h i = Some (hist_vals h ! i)"
proof -
  obtain vs where vs: "h_values h = Some vs" "unat (h_size h) \<le> length vs" using assms(1) by (auto simp: hist_ok_def split: option.splits)
  have "\<exists>v. get_value h i = Some v"
    using assms(2) vs by (auto simp: get_value_def get_width_def gen_uint2korr_def arr_slice_def split: Histogram_type.splits)
  then show ?thesis using assms(2) by (auto simp: hist_vals_def)
qed

text \<open>The position of a value in a sorted list: the number of smaller elements.\<close>

definition below :: "uint list \<Rightarrow> uint \<Rightarrow> nat" where
  "below vs val = length (takeWhile (\<lambda>v. v < val) vs)"

definition upto_val :: "uint list \<Rightarrow> uint \<Rightarrow> nat" where
  "upto_val vs val = length (takeWhile (\<lambda>v. v \<le> val) vs)"

lemma takeWhile_sorted_nth:
  assumes "sorted vs" "i < length vs" "\<And>x y. x \<le> y \<Longrightarrow> P y \<Longrightarrow> P x"
  shows "P (vs ! i) \<longleftrightarrow> i < length (takeWhile P vs)"
proof
  assume p: "P (vs ! i)"
  show "i < length (takeWhile P vs)"
  proof (rule ccontr)
    assume "\<not> i < length (takeWhile P vs)"
    then have n: "length (takeWhile P vs) \<le> i" "length (takeWhile P vs) < length vs" using assms(2) by auto
    have "vs ! length (takeWhile P vs) \<le> vs ! i" using assms(1,2) n(1) by (simp add: sorted_nth_mono)
    with p assms(3) have "P (vs ! length (takeWhile P vs))" by blast
    with nth_length_takeWhile [OF n(2)] show False by contradiction
  qed
qed (use nth_mem takeWhile_nth set_takeWhileD in metis)

lemma below_iff: "sorted vs \<Longrightarrow> i < length vs \<Longrightarrow> vs ! i < val \<longleftrightarrow> i < below vs val"
  unfolding below_def by (rule takeWhile_sorted_nth) auto

lemma upto_iff: "sorted vs \<Longrightarrow> i < length vs \<Longrightarrow> vs ! i \<le> val \<longleftrightarrow> i < upto_val vs val"
  unfolding upto_val_def by (rule takeWhile_sorted_nth) auto

text \<open>What the loop leaves: the value, or the last smaller one (the search may stop one before the end),
  or the first bucket.\<close>

definition search_end :: "uint list \<Rightarrow> uint \<Rightarrow> nat \<Rightarrow> bool" where
  "search_end vs val i \<longleftrightarrow> i < length vs \<and>
     (vs ! i = val \<or> vs ! i < val \<and> (length vs \<le> i + 2 \<or> val \<le> vs ! (i + 1)) \<or> val < vs ! i \<and> i = 0)"

lemma bucket_loop_spec:
  assumes "hist_ok h" "sorted (hist_vals h)" "0 \<le> lp" "lp \<le> rp" "rp < int (get_width h)"
    and "d = 0 \<and> rp - lp \<le> 1 \<or> 0 < d \<and> lp + d < rp"
    and "lp = 0 \<or> hist_vals h ! nat lp < val" "rp = int (get_width h) - 1 \<or> val < hist_vals h ! nat rp"
  shows "\<exists>i. bucket_loop h val lp rp d (nat (lp + d)) = Some i \<and> search_end (hist_vals h) val i"
  using assms(3-)
proof (induction "nat (rp - lp)" arbitrary: lp rp d rule: less_induct)
  case less
  let ?vs = "hist_vals h"
  show ?case
  proof (cases "d = 0")
    case True
    then have r: "rp = lp \<or> rp = lp + 1" using less.prems by auto
    have l: "nat lp < length ?vs" using less.prems by auto
    have "search_end ?vs val (nat lp)"
    proof (cases "?vs ! nat lp < val")
      case True
      have "length ?vs \<le> nat lp + 2 \<or> val < ?vs ! (nat lp + 1)"
        using r less.prems(1,6) True by (auto simp: nat_add_distrib)
      then show ?thesis using True l by (auto simp: search_end_def)
    next
      case False
      then show ?thesis using less.prems(5) l by (auto simp: search_end_def)
    qed
    then show ?thesis using True by (auto simp: bucket_loop.simps)
  next
    case False
    then have d: "0 < d" "lp + d < rp" using less.prems(4) by auto
    define i where "i = nat (lp + d)"
    have i: "int i = lp + d" "i + 1 < get_width h" using d less.prems by (auto simp: i_def)
    have ni: "nat (lp + d + 1) = Suc i" using i(1) by linarith
    have v: "get_value h i = Some (?vs ! i)" "get_value h (i + 1) = Some (?vs ! (i + 1))"
      using get_value_vals [OF assms(1)] i(2) by auto
    have half2: "half x = x div 2" "half x = 0 \<and> x \<le> 1 \<or> 0 < half x \<and> half x < x" if "0 \<le> x" for x
      using that by (auto simp: half_def)
    consider "val = ?vs ! i" | "val < ?vs ! i" | "?vs ! i < val" "?vs ! (i + 1) < val" | "?vs ! i < val" "val \<le> ?vs ! (i + 1)"
      by fastforce
    then show ?thesis
    proof cases
      case 1
      then show ?thesis using False v i unfolding i_def [symmetric]
        by (subst bucket_loop.simps) (auto simp: search_end_def)
    next
      case 2
      have "\<exists>j. bucket_loop h val lp (int i) (half (int i - lp)) (nat (lp + half (int i - lp))) = Some j \<and> search_end ?vs val j"
        using less.prems i d 2 half2 [of "int i - lp"] by (intro less.hyps) (auto simp: i_def [symmetric])
      then show ?thesis using False v 2 unfolding i_def [symmetric] by (subst bucket_loop.simps) auto
    next
      case 3
      have "\<exists>j. bucket_loop h val (int i + 1) rp (half (rp - (int i + 1))) (nat (int i + 1 + half (rp - (int i + 1)))) = Some j \<and>
          search_end ?vs val j"
        using less.prems i d 3 half2 [of "rp - (int i + 1)"] ni by (intro less.hyps) auto
      then show ?thesis using False v 3 unfolding i_def [symmetric] by (subst bucket_loop.simps) auto
    next
      case 4
      then show ?thesis using False v i unfolding i_def [symmetric]
        by (subst bucket_loop.simps) (auto simp: search_end_def)
    qed
  qed
qed

lemma bucket_loop_start:
  assumes "hist_ok h" "sorted (hist_vals h)" "0 < get_width h" "get_width h = 2 \<Longrightarrow> val \<le> hist_vals h ! 1"
  shows "\<exists>i. bucket_loop h val 0 (int (get_width h) - 1) (int (get_width h div 2)) (get_width h div 2) = Some i \<and>
    search_end (hist_vals h) val i"
proof (cases "get_width h = 2")
  case False
  then show ?thesis using assms bucket_loop_spec [OF assms(1,2), of 0 "int (get_width h) - 1" "int (get_width h div 2)" val]
    by fastforce
next
  case True
  have v: "get_value h 1 = Some (hist_vals h ! 1)" using get_value_vals [OF assms(1), of 1] True by simp
  have "\<exists>i. bucket_loop h val 0 1 0 0 = Some i \<and> search_end (hist_vals h) val i"
    using bucket_loop_spec [OF assms(1,2), of 0 1 0 val] True by simp
  then show ?thesis using assms(4) True v
    by (subst bucket_loop.simps) (auto simp: search_end_def half_def)
qed

lemma first_loop_spec:
  assumes "hist_ok h" "sorted (hist_vals h)"
  shows "i < get_width h \<Longrightarrow> hist_vals h ! i = val \<Longrightarrow> first_loop h val i = Some (below (hist_vals h) val)"
proof (induction i)
  case 0
  then show ?case using below_iff [OF assms(2), of 0 val] by auto
next
  case (Suc i)
  have v: "get_value h i = Some (hist_vals h ! i)" using get_value_vals [OF assms(1)] Suc.prems by simp
  have le: "hist_vals h ! i \<le> val" using sorted_nth_mono [OF assms(2), of i "Suc i"] Suc.prems by auto
  have n: "\<not> Suc i < below (hist_vals h) val" using below_iff [OF assms(2), of "Suc i" val] Suc.prems by auto
  show ?case
  proof (cases "hist_vals h ! i = val")
    case True
    then show ?thesis using Suc v by simp
  next
    case False
    then have "i < below (hist_vals h) val" using below_iff [OF assms(2), of i val] le Suc.prems by auto
    with n have "below (hist_vals h) val = Suc i" by simp
    then show ?thesis using v False by simp
  qed
qed

lemma last_loop_spec:
  assumes "hist_ok h" "sorted (hist_vals h)"
  shows "i < get_width h \<Longrightarrow> hist_vals h ! i = val \<Longrightarrow> last_loop h val i = Some (upto_val (hist_vals h) val - 1)"
proof (induction "get_width h - i" arbitrary: i rule: less_induct)
  case less
  have u: "i < upto_val (hist_vals h) val" using upto_iff [OF assms(2), of i val] less.prems by auto
  show ?case
  proof (cases "i + 1 < get_width h")
    case False
    then have "upto_val (hist_vals h) val = i + 1"
      using u length_takeWhile_le [of "\<lambda>v. v \<le> val" "hist_vals h"] by (simp add: upto_val_def)
    then show ?thesis using False by (simp add: last_loop.simps)
  next
    case True
    have v: "get_value h (i + 1) = Some (hist_vals h ! (i + 1))" using get_value_vals [OF assms(1)] True by simp
    have ge: "val \<le> hist_vals h ! (i + 1)" using sorted_nth_mono [OF assms(2), of i "i + 1"] less.prems True by auto
    show ?thesis
    proof (cases "hist_vals h ! (i + 1) = val")
      case True2: True
      then show ?thesis using less.hyps [of "i + 1"] True v by (subst last_loop.simps) simp
    next
      case False
      then have "\<not> i + 1 < upto_val (hist_vals h) val" using upto_iff [OF assms(2), of "i + 1" val] ge True by auto
      with u have "upto_val (hist_vals h) val = i + 1" by simp
      then show ?thesis using v False True by (subst last_loop.simps) simp
    qed
  qed
qed

lemma search_end_bucket:
  assumes "sorted vs" "search_end vs val i" "i1 = (if vs ! i < val \<and> i < length vs - 1 then i + 1 else i)"
  shows "i1 < length vs" "vs ! i1 \<noteq> val \<Longrightarrow> i1 = min (length vs - 1) (below vs val) \<and> val \<notin> set vs"
proof -
  show l: "i1 < length vs" using assms(2,3) by (auto simp: search_end_def)
  assume ne: "vs ! i1 \<noteq> val"
  have b: "vs ! j < val \<longleftrightarrow> j < below vs val" "vs ! j \<le> val \<longleftrightarrow> j < upto_val vs val" if "j < length vs" for j
    using below_iff [OF assms(1) that] upto_iff [OF assms(1) that] by auto
  have i: "i < length vs" using assms(2) by (simp add: search_end_def)
  have m: "i1 = min (length vs - 1) (below vs val) \<and> (i1 < below vs val \<longleftrightarrow> vs ! i1 < val) \<and> (i1 = below vs val \<or> i1 = length vs - 1)"
    using assms(2,3) ne l i b(1) [OF i] b(1) [OF l]
    by (auto simp: search_end_def min_def split: if_splits)
  have "val \<notin> set vs"
  proof
    assume "val \<in> set vs"
    then obtain j where j: "j < length vs" "vs ! j = val" by (auto simp: in_set_conv_nth)
    have "\<not> j < below vs val" using b(1) [OF j(1)] j(2) by auto
    then have "i1 \<le> j" using m by auto
    then have "vs ! i1 \<le> val" using sorted_nth_mono [OF assms(1)] j by blast
    with ne have "vs ! i1 < val" by simp
    then have "i1 < below vs val" using m by blast
    then have "i1 = length vs - 1" using m by auto
    with \<open>i1 \<le> j\<close> j ne show False by (metis One_nat_def Suc_pred le_antisym less_Suc_eq_le l less_nat_zero_code neq0_conv)
  qed
  with m show "i1 = min (length vs - 1) (below vs val) \<and> val \<notin> set vs" by blast
qed

lemma below_present:
  assumes "sorted vs" "val \<in> set vs"
  shows "below vs val \<le> length vs - 1"
proof -
  obtain j where "j < length vs" "vs ! j = val" using assms(2) by (auto simp: in_set_conv_nth)
  then show ?thesis using below_iff [OF assms(1), of j val] by auto
qed

lemma find_bucket_val_spec:
  assumes "hist_ok h" "sorted (hist_vals h)" "0 < get_width h" "get_width h = 2 \<Longrightarrow> val \<le> hist_vals h ! 1"
  shows "find_bucket_val h val first = Some
    (if val \<in> set (hist_vals h) \<and> \<not> first then upto_val (hist_vals h) val - 1
     else min (get_width h - 1) (below (hist_vals h) val))"
proof -
  let ?vs = "hist_vals h"
  obtain i where i: "bucket_loop h val 0 (int (get_width h) - 1) (int (get_width h div 2)) (get_width h div 2) = Some i"
    "search_end ?vs val i" using bucket_loop_start [OF assms] by blast
  have il: "i < get_width h" using i(2) by (simp add: search_end_def)
  have md: "int i < (int (get_width h) - 1) mod 2 ^ 32 \<longleftrightarrow> i < get_width h - 1"
    using assms(3) get_width_bound [of h] by auto
  define i1 where "i1 = (if ?vs ! i < val \<and> i < get_width h - 1 then i + 1 else i)"
  note e = search_end_bucket [OF assms(2) i(2), of i1]
  have l1: "i1 < get_width h" using e(1) by (simp add: i1_def)
  have g: "get_value h i = Some (?vs ! i)" "get_value h i1 = Some (?vs ! i1)" using get_value_vals [OF assms(1)] il l1 by auto
  have f: "find_bucket_val h val first = (if val = ?vs ! i1 then (if first then first_loop h val i1 else last_loop h val i1) else Some i1)"
    using i(1) g md unfolding find_bucket_val_def i1_def by (simp add: Let_def)
  show ?thesis
  proof (cases "?vs ! i1 = val")
    case True
    then have "val \<in> set ?vs" using l1 nth_mem [of i1 ?vs] by simp
    with True f first_loop_spec [OF assms(1,2) l1 True] last_loop_spec [OF assms(1,2) l1 True] below_present [OF assms(2)]
    show ?thesis by simp
  next
    case False
    then show ?thesis using f e(2) by (simp add: i1_def)
  qed
qed

subsection \<open>Selectivity\<close>

lemma below_mono: "x \<le> y \<Longrightarrow> below vs x \<le> below vs y"
  unfolding below_def by (induction vs) auto

lemma below_le_upto: "x \<le> y \<Longrightarrow> below vs x \<le> upto_val vs y"
  unfolding below_def upto_val_def by (induction vs) auto

lemma below_lt_upto:
  assumes "sorted vs" "x \<le> y" "y \<in> set vs"
  shows "below vs x < upto_val vs y"
proof -
  obtain j where j: "j < length vs" "vs ! j = y" using assms(3) by (auto simp: in_set_conv_nth)
  have "\<not> j < below vs x" "j < upto_val vs y"
    using below_iff [OF assms(1) j(1), of x] upto_iff [OF assms(1) j(1), of y] j(2) assms(2) by auto
  then show ?thesis by simp
qed

lemma upto_val_le: "upto_val vs y \<le> length vs"
  by (simp add: upto_val_def length_takeWhile_le)

lemma buckets_ordered:
  assumes "sorted vs" "x \<le> y" "0 < length vs"
  defines "mn \<equiv> min (length vs - 1) (below vs x)"
    and "mx \<equiv> (if y \<in> set vs then upto_val vs y - 1 else min (length vs - 1) (below vs y))"
  shows "mn \<le> mx" "mx < length vs"
proof -
  show "mn \<le> mx" using below_lt_upto [OF assms(1,2)] below_mono [OF assms(2), of vs] by (auto simp: mn_def mx_def min_def)
  show "mx < length vs"
  proof (cases "y \<in> set vs")
    case True
    show ?thesis unfolding mx_def if_P [OF True] using upto_val_le [of vs y] assms(3) by linarith
  next
    case False
    show ?thesis unfolding mx_def if_not_P [OF False] using assms(3) by linarith
  qed
qed

lemma dbl_trunc_mono: "0 \<le> x \<Longrightarrow> x \<le> y \<Longrightarrow> dbl_trunc x \<le> dbl_trunc y"
  by (auto simp: dbl_trunc_def floor_mono)

lemma pos_word_mono:
  assumes "0 \<le> x" "x \<le> y" "y \<le> 1"
  shows "(word_of_int (dbl_trunc (x * real (prec_factor h))) :: uint) \<le> word_of_int (dbl_trunc (y * real (prec_factor h)))"
proof -
  let ?f = "real (prec_factor h)"
  have f: "0 \<le> ?f" "?f \<le> 65535" by (auto simp: prec_factor_def split: Histogram_type.splits)
  have m: "x * ?f \<le> y * ?f" "0 \<le> x * ?f" "y * ?f \<le> 1 * ?f"
    using assms f(1) mult_right_mono [of x y ?f] mult_right_mono [of y 1 ?f] by auto
  then have d: "dbl_trunc (x * ?f) \<le> dbl_trunc (y * ?f)" "0 \<le> dbl_trunc (x * ?f)" "dbl_trunc (y * ?f) \<le> 65535"
    using dbl_trunc_mono [OF m(2,1)] f(2) by (auto simp: dbl_trunc_def floor_le_iff)
  then show ?thesis by (simp add: word_le_def uint_word_of_int take_bit_int_eq_self)
qed

lemma range_selectivity_val:
  assumes "find_bucket h a True = Some mn" "find_bucket h b False = Some mx" "mn \<le> mx" "mx < get_width h"
  shows "range_selectivity h a b = Some (real (mx - mn + 1) / real (get_width h + 1))"
proof -
  have "(int mx - int mn + 1) mod 2 ^ 32 = int (mx - mn + 1)"
    using assms(3,4) get_width_bound [of h] by (simp add: of_nat_diff)
  then show ?thesis using assms(1,2) by (simp add: range_selectivity_def Let_def field_simps)
qed

subsection \<open>The bitmap of missing statistics\<close>

lemma bit_no_values: "bit no_values_provided_bitmap n \<longleftrightarrow> 3 \<le> n \<and> n \<le> 10"
proof -
  have "no_values_provided_bitmap = push_bit 3 (mask 8)"
    by (simp add: no_values_provided_bitmap_def COLUMN_STAT_COLUMN_NAME_def COLUMN_STAT_HISTOGRAM_def mask_eq_exp_minus_1)
  show ?thesis unfolding \<open>no_values_provided_bitmap = push_bit 3 (mask 8)\<close> by (auto simp: bit_push_bit_iff bit_mask_iff)
qed

lemma stat_is_null_bit: "n < 32 \<Longrightarrow> stat_is_null c n \<longleftrightarrow> bit (column_stat_nulls c) n"
  by (simp add: stat_is_null_def push_bit_of_1 and_exp_eq_0_iff_not_bit)

lemma set_not_null_bit:
  "bit (column_stat_nulls (set_not_null c n)) m \<longleftrightarrow> bit (column_stat_nulls c) m \<and> m \<noteq> n"
  by (cases "m < 32") (auto simp: set_not_null_def bit_simps)

lemma fold_set_not_null_bit:
  "bit (column_stat_nulls (fold (\<lambda>n c. set_not_null c n) ns c)) m \<longleftrightarrow> bit (column_stat_nulls c) m \<and> m \<notin> set ns"
  by (induction ns arbitrary: c) (auto simp: set_not_null_bit)

lemma no_stat_iff:
  "no_stat_values_provided (fold (\<lambda>n c. set_not_null c n) ns (set_all_nulls c)) \<longleftrightarrow> (\<forall>m\<in>{3..10}. m \<notin> set ns)"
proof
  assume "no_stat_values_provided (fold (\<lambda>n c. set_not_null c n) ns (set_all_nulls c))"
  then have "bit (column_stat_nulls (fold (\<lambda>n c. set_not_null c n) ns (set_all_nulls c))) m \<longleftrightarrow> bit no_values_provided_bitmap m" for m
    by (simp add: no_stat_values_provided_def)
  note e = this
  show "\<forall>m\<in>{3..10}. m \<notin> set ns"
  proof
    fix m :: nat
    assume "m \<in> {3..10}"
    then show "m \<notin> set ns" using e [of m] by (simp add: fold_set_not_null_bit set_all_nulls_def bit_no_values)
  qed
next
  assume "\<forall>m\<in>{3..10}. m \<notin> set ns"
  then show "no_stat_values_provided (fold (\<lambda>n c. set_not_null c n) ns (set_all_nulls c))"
    unfolding no_stat_values_provided_def by (intro bit_eqI) (auto simp: fold_set_not_null_bit set_all_nulls_def bit_no_values)
qed

subsection \<open>Properties\<close>

text \<open>
  C35. The binary search of \<open>find_bucket\<close> ends and finds the bucket: on a histogram with non-decreasing
  values it returns, for the first bucket asked for, the number of values below the one searched (at
  most the last index), and for the last bucket asked for the last index that holds the value if
  there is one. With exactly two values the search must not be for more than the second one.\<close>

theorem find_bucket_correct:
  assumes "hist_ok h" "sorted (hist_vals h)" "0 < get_width h" "get_width h = 2 \<longrightarrow> val \<le> hist_vals h ! 1"
  shows "find_bucket_val h val True = Some (min (get_width h - 1) (length (takeWhile (\<lambda>v. v < val) (hist_vals h)))) \<and>
    find_bucket_val h val False = Some (if val \<in> set (hist_vals h) then length (takeWhile (\<lambda>v. v \<le> val) (hist_vals h)) - 1
      else min (get_width h - 1) (length (takeWhile (\<lambda>v. v < val) (hist_vals h))))"
  using find_bucket_val_spec [OF assms(1-3)] assms(4) by (simp add: below_def upto_val_def)

definition hist1 :: Histogram where
  "hist1 = \<lparr>h_type = SINGLE_PREC_HB, h_size = 4, h_values = Some [10, 20, 20, 30]\<rparr>"

lemma hist1_facts: "hist_ok hist1" "hist_vals hist1 = [10, 20, 20, 30]" "get_width hist1 = 4"
  by (simp_all add: hist_ok_def hist1_def get_width_def hist_vals_def upt_conv_Cons get_value_def arr_get_def)

theorem find_bucket_correct_witness:
  "find_bucket_val hist1 20 True = Some 1 \<and> find_bucket_val hist1 20 False = Some 2 \<and> find_bucket_val hist1 25 True = Some 3"
  using find_bucket_correct [of hist1 20] find_bucket_correct [of hist1 25] by (simp add: hist1_facts)

text \<open>
  \<open>range_selectivity\<close> of a range of positions in \<open>[0, 1]\<close> is defined and lies between the share of one
  bucket and that of all buckets but one: the subtraction of the two bucket numbers does not wrap
  around.\<close>

theorem range_selectivity_bounds:
  assumes "hist_ok h" "sorted (hist_vals h)" "0 < get_width h" "get_width h \<noteq> 2" "0 \<le> a" "a \<le> b" "b \<le> 1"
  shows "\<exists>s. range_selectivity h a b = Some s \<and>
    1 / real (get_width h + 1) \<le> s \<and> s \<le> real (get_width h) / real (get_width h + 1)"
proof -
  let ?vs = "hist_vals h"
    and ?x = "word_of_int (dbl_trunc (a * real (prec_factor h))) :: uint"
    and ?y = "word_of_int (dbl_trunc (b * real (prec_factor h))) :: uint"
  note o = buckets_ordered [OF assms(2) pos_word_mono [OF assms(5-7), of h], unfolded length_hist_vals, OF assms(3)]
  have f: "find_bucket h a True = Some (min (get_width h - 1) (below ?vs ?x))"
    "find_bucket h b False = Some (if ?y \<in> set ?vs then upto_val ?vs ?y - 1 else min (get_width h - 1) (below ?vs ?y))"
    using find_bucket_val_spec [OF assms(1-3), of ?x True] find_bucket_val_spec [OF assms(1-3), of ?y False] assms(4)
    by (simp_all add: find_bucket_def)
  obtain mn mx where m: "find_bucket h a True = Some mn" "find_bucket h b False = Some mx" "mn \<le> mx" "mx < get_width h"
    using f o by blast
  show ?thesis using range_selectivity_val [OF m] m(3,4) by (simp add: divide_right_mono)
qed

theorem range_selectivity_bounds_witness:
  "\<exists>s. range_selectivity hist1 0 1 = Some s \<and> 1 / 5 \<le> s \<and> s \<le> 4 / 5"
  using range_selectivity_bounds [of hist1 0 1] by (simp add: hist1_facts)

text \<open>
  With exactly two values the first probe of \<open>find_bucket\<close> is the last value, and a search for
  more than it reads the value behind the end of the histogram.\<close>

theorem find_bucket_reads_past_end:
  assumes "h_type h = SINGLE_PREC_HB" "h_size h = 2" "h_values h = Some [v, w]" "ucast w < val"
  shows "find_bucket_val h val first = None"
proof -
  have "get_value h 1 = Some (ucast w)" "get_value h 2 = None" "get_width h = 2"
    using assms(1-3) by (simp_all add: get_value_def arr_get_def get_width_def)
  then have "bucket_loop h val 0 1 1 1 = None" using assms(4) by (subst bucket_loop.simps) (auto simp: numeral_2_eq_2)
  then show ?thesis using \<open>get_width h = 2\<close> by (simp add: find_bucket_val_def)
qed

theorem find_bucket_reads_past_end_witness:
  "find_bucket_val \<lparr>h_type = SINGLE_PREC_HB, h_size = 2, h_values = Some [5, 9]\<rparr> 200 True = None"
  by (rule find_bucket_reads_past_end [of _ 5 9]) simp_all

text \<open>
  After \<open>set_all_nulls\<close> and any sequence of \<open>set_not_null\<close> calls, exactly the statistics fields from
  the minimal value to the histogram that were not set are null, and \<open>no_stat_values_provided\<close> says
  that none of them was set.\<close>

theorem column_stat_nulls_set:
  assumes "n < 32"
  shows "(stat_is_null (fold (\<lambda>n c. set_not_null c n) ns (set_all_nulls c)) n \<longleftrightarrow>
      n \<notin> set ns \<and> COLUMN_STAT_MIN_VALUE \<le> n \<and> n \<le> COLUMN_STAT_HISTOGRAM) \<and>
    (no_stat_values_provided (fold (\<lambda>n c. set_not_null c n) ns (set_all_nulls c)) \<longleftrightarrow>
      (\<forall>m\<in>{COLUMN_STAT_MIN_VALUE..COLUMN_STAT_HISTOGRAM}. m \<notin> set ns))"
  unfolding stat_is_null_bit [OF assms] no_stat_iff
  by (auto simp: fold_set_not_null_bit set_all_nulls_def bit_no_values COLUMN_STAT_MIN_VALUE_def COLUMN_STAT_HISTOGRAM_def)

theorem column_stat_nulls_set_witness:
  "stat_is_null (fold (\<lambda>n c. set_not_null c n) [3] (set_all_nulls
     \<lparr>column_stat_nulls = 0, nulls_ratio = 0, avg_length = 0, avg_frequency = 0, histogram = hist1\<rparr>)) 4"
  using column_stat_nulls_set [of 4 "[3]" "\<lparr>column_stat_nulls = 0, nulls_ratio = 0, avg_length = 0, avg_frequency = 0, histogram = hist1\<rparr>"]
  by (simp add: COLUMN_STAT_MIN_VALUE_def COLUMN_STAT_HISTOGRAM_def)

end
