(* ===== verification/WindowFunc.thy ===== *)
theory WindowFunc
  imports Prelude Complex_Main "HOL-Library.Signed_Division"
begin

text \<open>
  \<open>item_windowfunc.h\<close>: the window functions whose computation is in the header. Each function is a
  state that \<open>clear\<close> resets at the start of a partition, that \<open>add\<close> feeds the next row and that the
  \<open>val\<close> functions read. A \<open>double\<close> is a real number, counters are 64-bit words. What other files provide
  is a parameter: \<open>test_if_group_changed\<close>, the comparison of a cached item with the current row, and the
  readers of an \<open>Item_cache\<close>. The argument and the \<open>ORDER BY\<close> item of a row are their values,
  \<^term>\<open>None\<close> for \<open>NULL\<close>.
\<close>

subsection \<open>Group\_bound\_tracker\<close>

record 'c Group_bound_tracker =
  group_fields :: "'c list"
  first_check :: bool

definition gbt_init :: "'c Group_bound_tracker \<Rightarrow> 'c Group_bound_tracker" where
  "gbt_init t = t\<lparr>first_check := True\<rparr>"

text \<open>\<open>test_if_group_changed\<close> returns the index of the first item that changed, or -1, and refreshes the
  cached items.\<close>

definition check_if_next_group :: "('c list \<Rightarrow> int \<times> 'c list) \<Rightarrow> 'c Group_bound_tracker \<Rightarrow> bool \<times> 'c Group_bound_tracker" where
  "check_if_next_group test_if_group_changed t =
     (let (r, gs) = test_if_group_changed (group_fields t); t1 = t\<lparr>group_fields := gs\<rparr> in
      if r > -1 \<or> first_check t1 then (True, t1\<lparr>first_check := False\<rparr>) else (False, t1))"

fun compare_fields :: "('c \<Rightarrow> int) \<Rightarrow> 'c list \<Rightarrow> int" where
  "compare_fields cmp_read_only [] = 0"
| "compare_fields cmp_read_only (p # ps) =
     (let res = cmp_read_only p in if res \<noteq> 0 then res else compare_fields cmp_read_only ps)"

definition compare_with_cache :: "('c \<Rightarrow> int) \<Rightarrow> 'c Group_bound_tracker \<Rightarrow> int" where
  "compare_with_cache cmp_read_only t = compare_fields cmp_read_only (group_fields t)"

subsection \<open>ROW\_NUMBER, RANK, DENSE\_RANK\<close>

record Item_sum_row_number =
  rn_count :: longlong

definition rn_clear :: "Item_sum_row_number \<Rightarrow> Item_sum_row_number" where
  "rn_clear s = s\<lparr>rn_count := 0\<rparr>"

definition rn_add :: "Item_sum_row_number \<Rightarrow> bool \<times> Item_sum_row_number" where
  "rn_add s = (False, s\<lparr>rn_count := rn_count s + 1\<rparr>)"

definition rn_val_int :: "Item_sum_row_number \<Rightarrow> longlong" where
  "rn_val_int s = rn_count s"

record Item_sum_rank =
  rk_row_number :: longlong
  rk_cur_rank :: longlong

definition rk_clear :: "Item_sum_rank \<Rightarrow> Item_sum_rank" where
  "rk_clear s = s\<lparr>rk_cur_rank := 1, rk_row_number := 0\<rparr>"

definition rk_val_int :: "Item_sum_rank \<Rightarrow> longlong" where
  "rk_val_int s = rk_cur_rank s"

record Item_sum_dense_rank =
  dense_rank :: longlong
  first_add :: bool

definition dr_clear :: "Item_sum_dense_rank \<Rightarrow> Item_sum_dense_rank" where
  "dr_clear s = s\<lparr>dense_rank := 0, first_add := True\<rparr>"

definition dr_val_int :: "Item_sum_dense_rank \<Rightarrow> longlong" where
  "dr_val_int s = dense_rank s"

subsection \<open>Row counts\<close>

record Row_counts =
  partition_row_count :: ulonglong
  current_row_count :: ulonglong

definition rc_init :: Row_counts where
  "rc_init = \<lparr>partition_row_count = 0, current_row_count = 0\<rparr>"

definition set_partition_row_count :: "ulonglong \<Rightarrow> ('a) Row_counts_scheme \<Rightarrow> 'a Row_counts_scheme" where
  "set_partition_row_count count s = s\<lparr>partition_row_count := count\<rparr>"

definition get_row_count :: "'a Row_counts_scheme \<Rightarrow> longlong" where
  "get_row_count s = partition_row_count s"

definition get_row_number :: "'a Row_counts_scheme \<Rightarrow> ulonglong" where
  "get_row_number s = current_row_count s"

text \<open>The null flag and the value.\<close>

definition calc_val_real :: "'a Row_counts_scheme \<Rightarrow> ulonglong \<Rightarrow> bool \<times> real" where
  "calc_val_real s current =
     (if partition_row_count s = 0 then (True, 0)
      else (False, real (unat current) / real (unat (partition_row_count s))))"

subsection \<open>PERCENT\_RANK, CUME\_DIST, NTILE\<close>

record Item_sum_percent_rank =
  pr_partition :: ulonglong
  pr_cur_rank :: longlong
  pr_row_number :: longlong

definition pr_clear :: "Item_sum_percent_rank \<Rightarrow> Item_sum_percent_rank" where
  "pr_clear s = s\<lparr>pr_cur_rank := 1, pr_row_number := 0\<rparr>"

definition pr_set_partition_row_count :: "ulonglong \<Rightarrow> Item_sum_percent_rank \<Rightarrow> Item_sum_percent_rank" where
  "pr_set_partition_row_count count s = s\<lparr>pr_partition := count\<rparr>"

definition pr_val_real :: "Item_sum_percent_rank \<Rightarrow> bool \<times> real" where
  "pr_val_real s =
     (\<not> pr_partition s > 0,
      if pr_partition s > 1 then real_of_int (sint (pr_cur_rank s - 1)) / real (unat (pr_partition s - 1)) else 0)"

definition cd_val_real :: "Row_counts \<Rightarrow> bool \<times> real" where
  "cd_val_real s = calc_val_real s (current_row_count s)"

definition cd_add :: "Row_counts \<Rightarrow> bool \<times> Row_counts" where
  "cd_add s = (False, s\<lparr>current_row_count := current_row_count s + 1\<rparr>)"

definition cd_clear :: "Row_counts \<Rightarrow> Row_counts" where
  "cd_clear s = s\<lparr>current_row_count := 0, partition_row_count := 0\<rparr>"

datatype wf_error = ER_INVALID_NTILE_ARGUMENT | ER_ARGUMENT_OUT_OF_RANGE | ER_ARGUMENT_NOT_CONSTANT

text \<open>\<open>Item_sum_ntile::val_int\<close>: the result and the null flag, or the error with the result 1 that the
  code then returns. A division by zero is \<^term>\<open>None\<close>.\<close>

definition ntile_val_int :: "Row_counts \<Rightarrow> longlong \<Rightarrow> (wf_error + longlong \<times> bool) option" where
  "ntile_val_int s num_quantiles =
     (if get_row_count s = 0 then Some (Inr (0, True))
      else if num_quantiles \<le>s 0 then Some (Inl ER_INVALID_NTILE_ARGUMENT)
      else let quantile_size = (word_of_int (sint (get_row_count s) sdiv sint num_quantiles) :: ulonglong);
               extra_rows = get_row_count s - quantile_size * num_quantiles
           in if current_row_count s \<le> extra_rows * (quantile_size + 1) then
                (if quantile_size + 1 = 0 then None
                 else Some (Inr ((current_row_count s - 1) div (quantile_size + 1) + 1, False)))
              else if quantile_size = 0 then None
              else Some (Inr ((current_row_count s - 1 - extra_rows) div quantile_size + 1, False)))"

definition ntile_add :: "Row_counts \<Rightarrow> bool \<times> Row_counts" where
  "ntile_add s = (False, s\<lparr>current_row_count := current_row_count s + 1\<rparr>)"

definition ntile_clear :: "Row_counts \<Rightarrow> Row_counts" where
  "ntile_clear s = s\<lparr>current_row_count := 0, partition_row_count := 0\<rparr>"

subsection \<open>PERCENTILE\_DISC\<close>

record 'v Item_sum_percentile_disc = Row_counts +
  pd_value :: "'v option"
  pd_val_calculated :: bool
  pd_first_call :: bool
  pd_prev_value :: real

definition pd_init :: "'v Item_sum_percentile_disc" where
  "pd_init = \<lparr>partition_row_count = 0, current_row_count = 0, pd_value = None, pd_val_calculated = False,
     pd_first_call = True, pd_prev_value = 0\<rparr>"

definition pd_val :: "('v option \<Rightarrow> 'r) \<Rightarrow> 'r \<Rightarrow> 'v Item_sum_percentile_disc \<Rightarrow> real option \<Rightarrow> bool \<times> 'r" where
  "pd_val rd zero s arg = (if get_row_count s = 0 \<or> arg = None then (True, zero) else (False, rd (pd_value s)))"

definition pd_val_real :: "('v option \<Rightarrow> real) \<Rightarrow> 'v Item_sum_percentile_disc \<Rightarrow> real option \<Rightarrow> bool \<times> real" where
  "pd_val_real rd s arg = pd_val rd 0 s arg"

definition pd_val_int :: "('v option \<Rightarrow> longlong) \<Rightarrow> 'v Item_sum_percentile_disc \<Rightarrow> real option \<Rightarrow> bool \<times> longlong" where
  "pd_val_int rd s arg = pd_val rd 0 s arg"

definition pd_val_decimal :: "('v option \<Rightarrow> 'd option) \<Rightarrow> 'v Item_sum_percentile_disc \<Rightarrow> real option \<Rightarrow> bool \<times> 'd option" where
  "pd_val_decimal rd s arg = pd_val rd None s arg"

definition pd_val_str :: "('v option \<Rightarrow> 's option) \<Rightarrow> 'v Item_sum_percentile_disc \<Rightarrow> real option \<Rightarrow> bool \<times> 's option" where
  "pd_val_str rd s arg = pd_val rd None s arg"

definition pd_get_date :: "('v option \<Rightarrow> bool) \<Rightarrow> 'v Item_sum_percentile_disc \<Rightarrow> real option \<Rightarrow> bool \<times> bool" where
  "pd_get_date rd s arg = pd_val rd False s arg"

definition pd_add :: "'v Item_sum_percentile_disc \<Rightarrow> real option \<Rightarrow> 'v option \<Rightarrow> wf_error option \<times> 'v Item_sum_percentile_disc" where
  "pd_add s arg order_item = (case arg of
       None \<Rightarrow> (None, s)
     | Some arg_val \<Rightarrow>
         let s1 = (if pd_first_call s then s\<lparr>pd_prev_value := arg_val\<rparr> else s) in
         if pd_first_call s \<and> (pd_prev_value s1 > 1 \<or> pd_prev_value s1 < 0) then (Some ER_ARGUMENT_OUT_OF_RANGE, s1)
         else
           let s2 = s1\<lparr>pd_first_call := False\<rparr> in
           if pd_prev_value s2 \<noteq> arg_val then (Some ER_ARGUMENT_NOT_CONSTANT, s2)
           else if pd_val_calculated s2 then (None, s2)
           else
             let s3 = s2\<lparr>pd_value := order_item\<rparr> in
             if pd_value s3 = None then (None, s3)
             else
               let s4 = s3\<lparr>current_row_count := current_row_count s3 + 1\<rparr>;
                   v = snd (calc_val_real s4 (current_row_count s4))
               in (None, if v \<ge> pd_prev_value s4 \<and> \<not> pd_val_calculated s4 then s4\<lparr>pd_val_calculated := True\<rparr> else s4))"

definition pd_clear :: "'v Item_sum_percentile_disc \<Rightarrow> 'v Item_sum_percentile_disc" where
  "pd_clear s = s\<lparr>pd_val_calculated := False, pd_first_call := True, pd_value := None,
     partition_row_count := 0, current_row_count := 0\<rparr>"

subsection \<open>PERCENTILE\_CONT\<close>

record 'v Item_sum_percentile_cont = Row_counts +
  pc_floor_value :: "'v option"
  pc_ceil_value :: "'v option"
  pc_first_call :: bool
  pc_prev_value :: real
  pc_ceil_calculated :: bool
  pc_floor_calculated :: bool

definition pc_init :: "'v Item_sum_percentile_cont" where
  "pc_init = \<lparr>partition_row_count = 0, current_row_count = 0, pc_floor_value = None, pc_ceil_value = None,
     pc_first_call = True, pc_prev_value = 0, pc_ceil_calculated = False, pc_floor_calculated = False\<rparr>"

definition pc_position :: "'v Item_sum_percentile_cont \<Rightarrow> real" where
  "pc_position s = 1 + pc_prev_value s * real_of_int (sint (get_row_count s - 1))"

definition pc_val_real :: "('v option \<Rightarrow> real) \<Rightarrow> 'v Item_sum_percentile_cont \<Rightarrow> real option \<Rightarrow> bool \<times> real" where
  "pc_val_real rd s arg =
     (if get_row_count s = 0 \<or> arg = None then (True, 0)
      else let v = pc_position s in
        (False, if \<lceil>v\<rceil> = \<lfloor>v\<rfloor> then rd (pc_floor_value s)
                else (v - of_int \<lfloor>v\<rfloor>) * rd (pc_ceil_value s) + (of_int \<lceil>v\<rceil> - v) * rd (pc_floor_value s)))"

definition pc_add :: "'v Item_sum_percentile_cont \<Rightarrow> real option \<Rightarrow> 'v option \<Rightarrow> wf_error option \<times> 'v Item_sum_percentile_cont" where
  "pc_add s arg order_item = (case arg of
       None \<Rightarrow> (None, s)
     | Some arg_val \<Rightarrow>
         let s1 = (if pc_first_call s then s\<lparr>pc_first_call := False, pc_prev_value := arg_val\<rparr> else s) in
         if pc_first_call s \<and> (pc_prev_value s1 > 1 \<or> pc_prev_value s1 < 0) then (Some ER_ARGUMENT_OUT_OF_RANGE, s1)
         else if pc_prev_value s1 \<noteq> arg_val then (Some ER_ARGUMENT_NOT_CONSTANT, s1)
         else
           let s2 = (if \<not> pc_floor_calculated s1 then s1\<lparr>pc_floor_value := order_item\<rparr> else s1) in
           if \<not> pc_floor_calculated s1 \<and> pc_floor_value s2 = None then (None, s2)
           else
             let s3 = (if pc_floor_calculated s2 \<and> \<not> pc_ceil_calculated s2 then s2\<lparr>pc_ceil_value := order_item\<rparr> else s2) in
             if pc_floor_calculated s2 \<and> \<not> pc_ceil_calculated s2 \<and> pc_ceil_value s3 = None then (None, s3)
             else
               let s4 = s3\<lparr>current_row_count := current_row_count s3 + 1\<rparr>;
                   v = pc_position s4;
                   s5 = (if \<not> pc_floor_calculated s4 \<and> real (unat (get_row_number s4)) = of_int \<lfloor>v\<rfloor>
                         then s4\<lparr>pc_floor_calculated := True\<rparr> else s4);
                   s6 = (if \<not> pc_ceil_calculated s5 \<and> real (unat (get_row_number s5)) = of_int \<lceil>v\<rceil>
                         then s5\<lparr>pc_ceil_calculated := True\<rparr> else s5)
               in (None, s6))"

definition pc_clear :: "'v Item_sum_percentile_cont \<Rightarrow> 'v Item_sum_percentile_cont" where
  "pc_clear s = s\<lparr>pc_first_call := True, pc_floor_value := None, pc_ceil_value := None, pc_floor_calculated := False,
     pc_ceil_calculated := False, partition_row_count := 0, current_row_count := 0\<rparr>"

subsection \<open>Item\_window\_func\<close>

datatype Sumfunctype = COUNT_FUNC | COUNT_DISTINCT_FUNC | SUM_FUNC | SUM_DISTINCT_FUNC | AVG_FUNC | AVG_DISTINCT_FUNC
  | MIN_FUNC | MAX_FUNC | STD_FUNC | VARIANCE_FUNC | SUM_BIT_FUNC | UDF_SUM_FUNC | GROUP_CONCAT_FUNC
  | ROW_NUMBER_FUNC | RANK_FUNC | DENSE_RANK_FUNC | PERCENT_RANK_FUNC | CUME_DIST_FUNC | NTILE_FUNC
  | FIRST_VALUE_FUNC | LAST_VALUE_FUNC | NTH_VALUE_FUNC | LEAD_FUNC | LAG_FUNC
  | PERCENTILE_CONT_FUNC | PERCENTILE_DISC_FUNC | SP_AGGREGATE_FUNC | JSON_ARRAYAGG_FUNC

definition is_frame_prohibited :: "Sumfunctype \<Rightarrow> bool" where
  "is_frame_prohibited f \<longleftrightarrow> f \<in> {ROW_NUMBER_FUNC, RANK_FUNC, DENSE_RANK_FUNC, PERCENT_RANK_FUNC, CUME_DIST_FUNC, NTILE_FUNC,
     PERCENTILE_CONT_FUNC, PERCENTILE_DISC_FUNC}"

definition requires_special_cursors :: "Sumfunctype \<Rightarrow> bool" where
  "requires_special_cursors f \<longleftrightarrow> f \<in> {FIRST_VALUE_FUNC, LAST_VALUE_FUNC, NTH_VALUE_FUNC, LAG_FUNC, LEAD_FUNC}"

definition requires_partition_size :: "Sumfunctype \<Rightarrow> bool" where
  "requires_partition_size f \<longleftrightarrow> f \<in> {PERCENT_RANK_FUNC, CUME_DIST_FUNC, NTILE_FUNC, PERCENTILE_CONT_FUNC, PERCENTILE_DISC_FUNC}"

definition requires_peer_size :: "Sumfunctype \<Rightarrow> bool" where
  "requires_peer_size f \<longleftrightarrow> f = CUME_DIST_FUNC"

definition is_order_list_mandatory :: "Sumfunctype \<Rightarrow> bool" where
  "is_order_list_mandatory f \<longleftrightarrow> f \<in> {RANK_FUNC, DENSE_RANK_FUNC, PERCENT_RANK_FUNC, CUME_DIST_FUNC, LAG_FUNC, LEAD_FUNC,
     PERCENTILE_CONT_FUNC, PERCENTILE_DISC_FUNC}"

definition only_single_element_order_list :: "Sumfunctype \<Rightarrow> bool" where
  "only_single_element_order_list f \<longleftrightarrow> f \<in> {PERCENTILE_CONT_FUNC, PERCENTILE_DISC_FUNC}"

record Item_window_func =
  force_return_blank :: bool
  read_value_from_result_field :: bool
  null_value :: bool

definition iwf_init :: Item_window_func where
  "iwf_init = \<lparr>force_return_blank = True, read_value_from_result_field = False, null_value = False\<rparr>"

definition set_phase_to_initial :: "Item_window_func \<Rightarrow> Item_window_func" where
  "set_phase_to_initial w = w\<lparr>force_return_blank := True, read_value_from_result_field := False\<rparr>"

definition set_phase_to_computation :: "Item_window_func \<Rightarrow> Item_window_func" where
  "set_phase_to_computation w = w\<lparr>force_return_blank := False, read_value_from_result_field := False\<rparr>"

definition set_phase_to_retrieval :: "Item_window_func \<Rightarrow> Item_window_func" where
  "set_phase_to_retrieval w = w\<lparr>force_return_blank := False, read_value_from_result_field := True\<rparr>"

text \<open>What the result field and the window function item answer, the value and the null flag after the
  call, are parameters of the functions below.\<close>

definition iwf_is_null :: "Item_window_func \<Rightarrow> bool \<Rightarrow> bool \<Rightarrow> bool" where
  "iwf_is_null w field_is_null func_is_null =
     (if force_return_blank w then True
      else if read_value_from_result_field w then field_is_null else func_is_null)"

definition iwf_val :: "'r \<Rightarrow> Item_window_func \<Rightarrow> 'r \<times> bool \<Rightarrow> 'r \<times> bool \<Rightarrow> 'r \<times> Item_window_func" where
  "iwf_val zero w field func =
     (if force_return_blank w then (zero, w\<lparr>null_value := True\<rparr>)
      else if read_value_from_result_field w then (fst field, w\<lparr>null_value := snd field\<rparr>)
      else (fst func, w\<lparr>null_value := snd func\<rparr>))"

definition iwf_val_real :: "Item_window_func \<Rightarrow> real \<times> bool \<Rightarrow> real \<times> bool \<Rightarrow> real \<times> Item_window_func" where
  "iwf_val_real w field func = iwf_val 0 w field func"

definition iwf_val_int :: "Item_window_func \<Rightarrow> longlong \<times> bool \<Rightarrow> longlong \<times> bool \<Rightarrow> longlong \<times> Item_window_func" where
  "iwf_val_int w field func = iwf_val 0 w field func"

text \<open>The string, decimal and date readers do not read a field that is null.\<close>

definition iwf_val_ptr :: "'r \<Rightarrow> Item_window_func \<Rightarrow> 'r \<times> bool \<Rightarrow> 'r \<times> bool \<Rightarrow> 'r \<times> Item_window_func" where
  "iwf_val_ptr nothing w field func =
     (if force_return_blank w then (nothing, w\<lparr>null_value := True\<rparr>)
      else if read_value_from_result_field w
      then (if snd field then nothing else fst field, w\<lparr>null_value := snd field\<rparr>)
      else (fst func, w\<lparr>null_value := snd func\<rparr>))"

definition iwf_val_str :: "Item_window_func \<Rightarrow> string option \<times> bool \<Rightarrow> string option \<times> bool \<Rightarrow> string option \<times> Item_window_func" where
  "iwf_val_str w field func = iwf_val_ptr None w field func"

definition iwf_val_decimal :: "Item_window_func \<Rightarrow> 'd option \<times> bool \<Rightarrow> 'd option \<times> bool \<Rightarrow> 'd option \<times> Item_window_func" where
  "iwf_val_decimal w field func = iwf_val_ptr None w field func"

definition iwf_get_date :: "Item_window_func \<Rightarrow> bool \<times> bool \<Rightarrow> bool \<times> bool \<Rightarrow> bool \<times> Item_window_func" where
  "iwf_get_date w field func = iwf_val_ptr True w field func"

subsection \<open>NTILE\<close>

lemma unat_of_nat_small: "m < 2 ^ 64 \<Longrightarrow> unat (of_nat m :: 64 word) = m"
  by (simp add: unat_of_nat take_bit_nat_eq_self)

lemma of_nat_div_small: "a < 2 ^ 64 \<Longrightarrow> b < 2 ^ 64 \<Longrightarrow> (of_nat a :: 64 word) div of_nat b = of_nat (a div b)"
  by (simp add: word_unat_eq_iff unat_div unat_of_nat_small div_le_dividend [THEN le_less_trans])

text \<open>The tiles in plain numbers, and where they start: the first \<open>n mod q\<close> of them have one row more.\<close>

definition tile :: "nat \<Rightarrow> nat \<Rightarrow> nat \<Rightarrow> nat" where
  "tile n q r = (if r \<le> (n mod q) * (n div q + 1) then (r - 1) div (n div q + 1) + 1
                 else (r - 1 - n mod q) div (n div q) + 1)"

definition tile_start :: "nat \<Rightarrow> nat \<Rightarrow> nat \<Rightarrow> nat" where
  "tile_start n q t = (t - 1) * (n div q) + min (t - 1) (n mod q)"

lemma tile_bounds:
  assumes "0 < q" "1 \<le> r" "r \<le> n"
  shows "1 \<le> tile n q r" "tile n q r \<le> q" "tile_start n q (tile n q r) < r" "r \<le> tile_start n q (tile n q r + 1)"
proof -
  define s e where "s = n div q" and "e = n mod q"
  have n: "n = q * s + e" "e < q" using assms(1) by (auto simp: s_def e_def)
  show "1 \<le> tile n q r" by (simp add: tile_def)
  have "tile n q r \<le> q \<and> tile_start n q (tile n q r) < r \<and> r \<le> tile_start n q (tile n q r + 1)"
  proof (cases "r \<le> e * (s + 1)")
    case True
    define k where "k = (r - 1) div (s + 1)"
    have k: "k * (s + 1) \<le> r - 1" "r - 1 < (k + 1) * (s + 1)"
      unfolding k_def using dividend_less_div_times [of "s + 1" "r - 1"] div_times_less_eq_dividend [of "r - 1" "s + 1"]
      by (simp_all add: algebra_simps)
    have "k < e" unfolding k_def using True assms(2) by (intro less_mult_imp_div_less) linarith
    moreover have "tile n q r = k + 1" using True by (simp add: tile_def s_def e_def k_def)
    ultimately show ?thesis using k n assms(2) by (auto simp: tile_start_def s_def [symmetric] e_def [symmetric] algebra_simps)
  next
    case False
    have s0: "0 < s" using False n assms(3) by (cases "s = 0") auto
    define k where "k = (r - 1 - e) div s"
    have k: "k * s \<le> r - 1 - e" "r - 1 - e < (k + 1) * s"
      unfolding k_def using dividend_less_div_times [OF s0, of "r - 1 - e"] div_times_less_eq_dividend [of "r - 1 - e" s]
      by (simp_all add: algebra_simps)
    have le: "e * s + e \<le> r - 1" using False by (simp add: algebra_simps)
    have "e \<le> k" unfolding k_def using le s0 by (simp add: less_eq_div_iff_mult_less_eq)
    moreover have "k < q" unfolding k_def using assms(2,3) n s0 le
      by (intro less_mult_imp_div_less) (auto simp: algebra_simps)
    moreover have "tile n q r = k + 1" using False by (simp add: tile_def s_def e_def k_def)
    ultimately show ?thesis using k le assms(2) by (auto simp: tile_start_def s_def [symmetric] e_def [symmetric] algebra_simps)
  qed
  then show "tile n q r \<le> q" "tile_start n q (tile n q r) < r" "r \<le> tile_start n q (tile n q r + 1)" by auto
qed

lemma tile_start_mono: "t \<le> u \<Longrightarrow> tile_start n q t \<le> tile_start n q u"
  unfolding tile_start_def by (intro add_mono mult_le_mono1) auto

lemma tile_unique:
  assumes "0 < q" "1 \<le> r" "r \<le> n" "1 \<le> t"
  shows "tile n q r = t \<longleftrightarrow> tile_start n q t < r \<and> r \<le> tile_start n q (t + 1)"
proof
  assume a: "tile_start n q t < r \<and> r \<le> tile_start n q (t + 1)"
  note b = tile_bounds [OF assms(1-3)]
  have "\<not> tile n q r < t" using tile_start_mono [of "tile n q r + 1" t n q] a b by auto
  moreover have "\<not> t < tile n q r" using tile_start_mono [of "t + 1" "tile n q r" n q] a b by auto
  ultimately show "tile n q r = t" by simp
qed (use tile_bounds [OF assms(1-3)] in auto)

lemma tile_start_last: "0 < q \<Longrightarrow> t \<le> q \<Longrightarrow> tile_start n q (t + 1) \<le> n"
proof -
  assume a: "0 < q" "t \<le> q"
  have "t * (n div q) \<le> q * (n div q)" using a by (intro mult_le_mono1)
  moreover have "n = q * (n div q) + n mod q" by simp
  ultimately show ?thesis unfolding tile_start_def by (simp, linarith)
qed

lemma ntile_val_tile:
  assumes "0 < n" "n < 2 ^ 63" "0 < q" "q < 2 ^ 63" "1 \<le> r" "r \<le> n"
  shows "ntile_val_int \<lparr>partition_row_count = of_nat n, current_row_count = of_nat r\<rparr> (of_nat q) =
    Some (Inr (of_nat (tile n q r), False))"
proof -
  define s e where "s = n div q" and "e = n mod q"
  have n: "n = s * q + e" "e < q" using assms(3) by (auto simp: s_def e_def)
  have se: "e * (s + 1) \<le> n" using n by (simp add: algebra_simps mult_le_mono1 less_imp_le)
  have sint: "sint (of_nat m :: 64 word) = int m" if "m < 2 ^ 63" for m
    using that by (simp add: sint_uint uint_nat unat_of_nat_small signed_take_bit_int_eq_self)
  have sd: "word_of_int (sint (of_nat n :: 64 word) sdiv sint (of_nat q :: 64 word)) = (of_nat s :: 64 word)"
    using assms(1-4) by (simp add: sint signed_divide_int_def s_def sgn_if) (metis of_int_of_nat_eq zdiv_int)
  have ex: "(of_nat n :: 64 word) - of_nat s * of_nat q = of_nat e" by (simp add: n(1))
  have neg: "\<not> (of_nat q :: 64 word) \<le>s 0" using sint [OF assms(4)] assms(3) by (simp add: word_sle_eq)
  have nz: "(of_nat n :: 64 word) \<noteq> 0" using assms(1,2) unat_of_nat_small [of n] by auto
  have sb: "s < 2 ^ 63" using assms(2) n by (metis div_le_dividend le_less_trans s_def)
  have le: "(of_nat r :: 64 word) \<le> of_nat e * (of_nat s + 1) \<longleftrightarrow> r \<le> e * (s + 1)"
    using unat_of_nat_small [of r] unat_of_nat_small [of "e * (s + 1)"] assms se
    by (simp add: word_le_nat_alt distrib_left add.commute)
  have d1: "((of_nat r :: 64 word) - 1) div (of_nat s + 1) + 1 = of_nat ((r - 1) div (s + 1) + 1)"
    using of_nat_div_small [of "r - 1" "s + 1"] assms sb by (simp add: of_nat_diff add.commute)
  have s1: "(of_nat s :: 64 word) + 1 \<noteq> 0" using unat_of_nat_small [of "s + 1"] sb by (auto simp: add.commute)
  show ?thesis
  proof (cases "r \<le> e * (s + 1)")
    case True
    then show ?thesis using nz neg sd ex le d1 s1
      by (simp add: ntile_val_int_def get_row_count_def Let_def tile_def s_def [symmetric] e_def [symmetric])
  next
    case False
    have s0: "0 < s" using False n assms(6) by (cases "s = 0") auto
    then have "(of_nat s :: 64 word) \<noteq> 0" using unat_of_nat_small [of s] sb by auto
    moreover have "(of_nat r :: 64 word) - 1 - of_nat e = of_nat (r - 1 - e)"
      using False assms(5) by (simp add: of_nat_diff algebra_simps)
    moreover have "(of_nat (r - 1 - e) :: 64 word) div of_nat s = of_nat ((r - 1 - e) div s)"
      using assms sb by (intro of_nat_div_small) auto
    ultimately show ?thesis using False nz neg sd ex le
      by (simp add: ntile_val_int_def get_row_count_def Let_def tile_def s_def [symmetric] e_def [symmetric] add.commute diff_diff_eq)
  qed
qed

subsection \<open>Feeding a partition\<close>

fun pd_add_all :: "'v Item_sum_percentile_disc \<Rightarrow> real \<Rightarrow> 'v list \<Rightarrow> wf_error option \<times> 'v Item_sum_percentile_disc" where
  "pd_add_all s p [] = (None, s)"
| "pd_add_all s p (v # vs) = (case pd_add s (Some p) (Some v) of (None, s1) \<Rightarrow> pd_add_all s1 p vs | (Some e, s1) \<Rightarrow> (Some e, s1))"

lemma pd_add_all_snoc:
  "pd_add_all s p vs = (None, s1) \<Longrightarrow> pd_add_all s p (vs @ [v]) = pd_add s1 (Some p) (Some v)"
  by (induction vs arbitrary: s) (auto split: prod.splits option.splits)

fun pc_add_all :: "'v Item_sum_percentile_cont \<Rightarrow> real \<Rightarrow> 'v list \<Rightarrow> wf_error option \<times> 'v Item_sum_percentile_cont" where
  "pc_add_all s p [] = (None, s)"
| "pc_add_all s p (v # vs) = (case pc_add s (Some p) (Some v) of (None, s1) \<Rightarrow> pc_add_all s1 p vs | (Some e, s1) \<Rightarrow> (Some e, s1))"

lemma pc_add_all_snoc:
  "pc_add_all s p vs = (None, s1) \<Longrightarrow> pc_add_all s p (vs @ [v]) = pc_add s1 (Some p) (Some v)"
  by (induction vs arbitrary: s) (auto split: prod.splits option.splits)

text \<open>The row of \<open>PERCENTILE_DISC(p)\<close>: the first whose share of the rows up to it reaches \<open>p\<close>.\<close>

definition disc_row :: "nat \<Rightarrow> real \<Rightarrow> nat" where
  "disc_row n p = max 1 (nat \<lceil>p * real n\<rceil>)"

lemma disc_row_iff: "0 < n \<Longrightarrow> p \<le> real (Suc j) / real n \<longleftrightarrow> disc_row n p \<le> Suc j"
  by (simp add: disc_row_def pos_le_divide_eq nat_le_iff ceiling_le_iff)

lemma disc_row_bounds: "0 < n \<Longrightarrow> p \<le> 1 \<Longrightarrow> 1 \<le> disc_row n p \<and> disc_row n p \<le> n"
  by (auto simp: disc_row_def nat_le_iff ceiling_le_iff mult_left_le_one_le)

definition disc_state :: "nat \<Rightarrow> real \<Rightarrow> 'v list \<Rightarrow> nat \<Rightarrow> 'v Item_sum_percentile_disc" where
  "disc_state n p vs j = \<lparr>partition_row_count = of_nat n, current_row_count = of_nat (min j (disc_row n p)),
     pd_value = Some (vs ! (min j (disc_row n p) - 1)), pd_val_calculated = (disc_row n p \<le> j),
     pd_first_call = False, pd_prev_value = p\<rparr>"

lemma disc_share:
  assumes "0 < n" "n < 2 ^ 64" "j < n" "partition_row_count s = of_nat n"
  shows "snd (calc_val_real s (of_nat (Suc j))) = real (Suc j) / real n"
proof -
  have "unat (of_nat n :: 64 word) = n" "unat (of_nat (Suc j) :: 64 word) = Suc j"
    using assms by (simp_all only: unat_of_nat_small)
  moreover have "(of_nat n :: 64 word) \<noteq> 0" using calculation(1) assms(1) by auto
  ultimately show ?thesis using assms(4) by (simp add: calc_val_real_def del: of_nat_Suc)
qed

lemma disc_step:
  assumes "0 < n" "n < 2 ^ 64" "0 \<le> p" "p \<le> 1" "0 < j" "j < n"
  shows "pd_add (disc_state n p vs j) (Some p) (Some (vs ! j)) = (None, disc_state n p vs (Suc j))"
proof (cases "disc_row n p \<le> j")
  case True
  then show ?thesis by (simp add: pd_add_def disc_state_def min_def)
next
  case False
  let ?s = "disc_state n p vs j\<lparr>pd_value := Some (vs ! j), current_row_count := of_nat (Suc j)\<rparr>"
  have c: "current_row_count (disc_state n p vs j) + 1 = of_nat (Suc j)" using False by (simp add: disc_state_def min_def)
  have v: "snd (calc_val_real ?s (of_nat (Suc j))) = real (Suc j) / real n"
    by (rule disc_share [OF assms(1,2,6)]) (simp add: disc_state_def)
  have f: "\<not> pd_first_call (disc_state n p vs j)" "pd_prev_value (disc_state n p vs j) = p" "\<not> pd_val_calculated (disc_state n p vs j)"
    using False by (simp_all add: disc_state_def)
  have "pd_add (disc_state n p vs j) (Some p) (Some (vs ! j)) =
      (None, if p \<le> real (Suc j) / real n then ?s\<lparr>pd_val_calculated := True\<rparr> else ?s)"
    using f c v by (simp add: pd_add_def Let_def disc_state_def del: of_nat_Suc)
  then show ?thesis using False disc_row_iff [OF assms(1), of p j] by (auto simp: disc_state_def min_def)
qed

lemma disc_first:
  assumes "0 < n" "n < 2 ^ 64" "0 \<le> p" "p \<le> 1"
  shows "pd_add (set_partition_row_count (of_nat n) (pd_clear s)) (Some p) (Some (vs ! 0)) = (None, disc_state n p vs 1)"
proof -
  let ?s = "set_partition_row_count (of_nat n) (pd_clear s)\<lparr>pd_prev_value := p, pd_first_call := False, pd_value := Some (vs ! 0), current_row_count := 1\<rparr>"
  have v: "snd (calc_val_real ?s 1) = real 1 / real n"
    using disc_share [OF assms(1,2), of 0 ?s] assms(1) by (simp add: set_partition_row_count_def)
  have "pd_add (set_partition_row_count (of_nat n) (pd_clear s)) (Some p) (Some (vs ! 0)) =
      (None, if p \<le> real 1 / real n then ?s\<lparr>pd_val_calculated := True\<rparr> else ?s)"
    using v assms by (simp add: pd_add_def Let_def set_partition_row_count_def pd_clear_def)
  moreover have "disc_row n p \<ge> 1" by (simp add: disc_row_def)
  ultimately show ?thesis using disc_row_iff [OF assms(1), of p 0]
    by (auto simp: disc_state_def min_def set_partition_row_count_def pd_clear_def)
qed

lemma disc_run:
  assumes "0 < n" "n < 2 ^ 64" "0 \<le> p" "p \<le> 1" "length vs = n" "j < n"
  shows "pd_add_all (set_partition_row_count (of_nat n) (pd_clear s)) p (take (Suc j) vs) = (None, disc_state n p vs (Suc j))"
  using assms(6)
proof (induction j)
  case 0
  have "take (Suc 0) vs = [vs ! 0]" using assms(1,5) by (cases vs) auto
  then show ?case using disc_first [OF assms(1-4), of s vs] by simp
next
  case (Suc j)
  have "take (Suc (Suc j)) vs = take (Suc j) vs @ [vs ! Suc j]" using Suc.prems assms(5) by (simp add: take_Suc_conv_app_nth)
  then show ?case using pd_add_all_snoc [OF Suc.IH, of "vs ! Suc j"] Suc.prems disc_step [OF assms(1-4), of "Suc j" vs] by simp
qed

text \<open>The position of \<open>PERCENTILE_CONT(p)\<close> and the rows next to it.\<close>

definition cont_pos :: "nat \<Rightarrow> real \<Rightarrow> real" where
  "cont_pos n p = 1 + p * (real n - 1)"

definition cont_lo :: "nat \<Rightarrow> real \<Rightarrow> nat" where
  "cont_lo n p = nat \<lfloor>cont_pos n p\<rfloor>"

definition cont_hi :: "nat \<Rightarrow> real \<Rightarrow> nat" where
  "cont_hi n p = nat \<lceil>cont_pos n p\<rceil>"

lemma cont_bounds:
  assumes "0 < n" "0 \<le> p" "p \<le> 1"
  shows "1 \<le> cont_pos n p" "cont_pos n p \<le> real n" "1 \<le> cont_lo n p" "cont_hi n p \<le> n" "cont_lo n p \<le> cont_hi n p"
    "cont_hi n p \<le> cont_lo n p + 1"
proof -
  have "p * (real n - 1) \<le> 1 * (real n - 1)" using assms by (intro mult_right_mono) auto
  then show b: "1 \<le> cont_pos n p" "cont_pos n p \<le> real n" using assms by (auto simp: cont_pos_def)
  show "1 \<le> cont_lo n p" using b(1) by (simp add: cont_lo_def le_nat_iff le_floor_iff)
  show "cont_hi n p \<le> n" using b(2) by (simp add: cont_hi_def nat_le_iff ceiling_le_iff)
  show "cont_lo n p \<le> cont_hi n p" unfolding cont_lo_def cont_hi_def by (intro nat_mono) linarith
  have "\<lceil>cont_pos n p\<rceil> \<le> \<lfloor>cont_pos n p\<rfloor> + 1" by linarith
  then show "cont_hi n p \<le> cont_lo n p + 1" using b(1) by (simp add: cont_lo_def cont_hi_def nat_le_iff)
qed

lemma cont_row_eq:
  assumes "0 < n" "0 \<le> p" "p \<le> 1"
  shows "real j = of_int \<lfloor>cont_pos n p\<rfloor> \<longleftrightarrow> j = cont_lo n p" "real j = of_int \<lceil>cont_pos n p\<rceil> \<longleftrightarrow> j = cont_hi n p"
proof -
  have "0 \<le> \<lfloor>cont_pos n p\<rfloor>" "0 \<le> \<lceil>cont_pos n p\<rceil>" using cont_bounds(1) [OF assms] by (auto simp: le_floor_iff le_ceiling_iff)
  then show "real j = of_int \<lfloor>cont_pos n p\<rfloor> \<longleftrightarrow> j = cont_lo n p" "real j = of_int \<lceil>cont_pos n p\<rceil> \<longleftrightarrow> j = cont_hi n p"
    unfolding cont_lo_def cont_hi_def by linarith+
qed

definition cont_state :: "nat \<Rightarrow> real \<Rightarrow> 'v list \<Rightarrow> nat \<Rightarrow> 'v Item_sum_percentile_cont" where
  "cont_state n p vs j = \<lparr>partition_row_count = of_nat n, current_row_count = of_nat j,
     pc_floor_value = Some (vs ! (min j (cont_lo n p) - 1)),
     pc_ceil_value = (if cont_lo n p < j \<and> cont_lo n p < cont_hi n p then Some (vs ! cont_lo n p) else None),
     pc_first_call = False, pc_prev_value = p,
     pc_ceil_calculated = (cont_hi n p \<le> j), pc_floor_calculated = (cont_lo n p \<le> j)\<rparr>"

lemma pc_position_val:
  assumes "0 < n" "n < 2 ^ 63" "partition_row_count s = of_nat n" "pc_prev_value s = p"
  shows "pc_position s = cont_pos n p"
proof -
  have "(of_nat n :: 64 word) - 1 = of_nat (n - 1)" using assms(1) by (simp add: of_nat_diff)
  moreover have "sint (of_nat (n - 1) :: 64 word) = int (n - 1)"
    using assms(2) unat_of_nat_small [of "n - 1"] by (simp add: sint_uint uint_nat signed_take_bit_int_eq_self)
  ultimately show ?thesis using assms by (simp add: pc_position_def get_row_count_def cont_pos_def of_nat_diff)
qed

lemma cont_step:
  assumes "0 < n" "n < 2 ^ 63" "0 \<le> p" "p \<le> 1" "0 < j" "j < n"
  shows "pc_add (cont_state n p vs j) (Some p) (Some (vs ! j)) = (None, cont_state n p vs (Suc j))"
proof -
  have pos: "pc_position s = cont_pos n p" if "partition_row_count s = of_nat n" "pc_prev_value s = p" for s :: "'a Item_sum_percentile_cont"
    by (rule pc_position_val [OF assms(1,2) that])
  have u: "unat (of_nat (Suc j) :: 64 word) = Suc j" using assms by (intro unat_of_nat_small) simp
  note r = cont_row_eq [OF assms(1,3,4), of "Suc j"]
  note b = cont_bounds [OF assms(1,3,4)]
  have c: "(of_nat m :: 64 word) + 1 = of_nat (Suc m)" for m by (simp add: add.commute)
  consider "j < cont_lo n p" | "cont_lo n p \<le> j" "j < cont_hi n p" | "cont_hi n p \<le> j" by linarith
  then show ?thesis
  proof cases
    case 1
    then show ?thesis using b(5) u r
      by (auto simp: pc_add_def cont_state_def Let_def c pos get_row_number_def simp del: of_nat_Suc of_nat_unat)
  next
    case 2
    then have "j = cont_lo n p" "cont_hi n p = Suc j" using b(6) by auto
    then show ?thesis using u r
      by (auto simp: pc_add_def cont_state_def Let_def c pos get_row_number_def simp del: of_nat_Suc of_nat_unat)
  next
    case 3
    then show ?thesis using b(5) u r
      by (auto simp: pc_add_def cont_state_def Let_def c pos get_row_number_def min_def simp del: of_nat_Suc of_nat_unat)
  qed
qed

lemma cont_first:
  assumes "0 < n" "n < 2 ^ 63" "0 \<le> p" "p \<le> 1"
  shows "pc_add (set_partition_row_count (of_nat n) (pc_clear s)) (Some p) (Some (vs ! 0)) = (None, cont_state n p vs 1)"
proof -
  have pos: "pc_position s = cont_pos n p" if "partition_row_count s = of_nat n" "pc_prev_value s = p" for s :: "'a Item_sum_percentile_cont"
    by (rule pc_position_val [OF assms(1,2) that])
  note r = cont_row_eq [OF assms(1,3,4), of 1]
  note b = cont_bounds [OF assms(1,3,4)]
  show ?thesis using b(3,5,6) r assms(3,4)
    by (cases s) (auto simp: pc_add_def cont_state_def set_partition_row_count_def pc_clear_def Let_def pos get_row_number_def min_def)
qed

lemma cont_run:
  assumes "0 < n" "n < 2 ^ 63" "0 \<le> p" "p \<le> 1" "length vs = n" "j < n"
  shows "pc_add_all (set_partition_row_count (of_nat n) (pc_clear s)) p (take (Suc j) vs) = (None, cont_state n p vs (Suc j))"
  using assms(6)
proof (induction j)
  case 0
  have "take (Suc 0) vs = [vs ! 0]" using assms(1,5) by (cases vs) auto
  then show ?case using cont_first [OF assms(1-4), of s vs] by simp
next
  case (Suc j)
  have "take (Suc (Suc j)) vs = take (Suc j) vs @ [vs ! Suc j]" using Suc.prems assms(5) by (simp add: take_Suc_conv_app_nth)
  then show ?case using pc_add_all_snoc [OF Suc.IH, of "vs ! Suc j"] Suc.prems cont_step [OF assms(1-4), of "Suc j" vs] by simp
qed

subsection \<open>Group changes\<close>

text \<open>Checking the rows of a result one after the other; \<open>test\<close> gets the key of the current row.\<close>

fun gbt_run :: "('k \<Rightarrow> 'c list \<Rightarrow> int \<times> 'c list) \<Rightarrow> 'c Group_bound_tracker \<Rightarrow> 'k list \<Rightarrow> bool list" where
  "gbt_run test t [] = []"
| "gbt_run test t (k # ks) = (let (b, t1) = check_if_next_group (test k) t in b # gbt_run test t1 ks)"

fun group_starts :: "'k \<Rightarrow> 'k list \<Rightarrow> bool list" where
  "group_starts prev [] = []"
| "group_starts prev (k # ks) = (k \<noteq> prev) # group_starts k ks"

lemma gbt_run_spec:
  assumes "\<And>k gs. snd (test k gs) = cache k" "\<And>k k'. fst (test k (cache k')) > -1 \<longleftrightarrow> k \<noteq> k'"
  shows "group_fields t = cache k \<Longrightarrow> \<not> first_check t \<Longrightarrow> gbt_run test t ks = group_starts k ks"
proof (induction ks arbitrary: t k)
  case (Cons x ks)
  let ?r = "check_if_next_group (test x) t"
  have "fst ?r \<longleftrightarrow> x \<noteq> k" "group_fields (snd ?r) = cache x" "\<not> first_check (snd ?r)"
    using Cons.prems assms(2) [of x k] assms(1) [of x "cache k"]
    by (auto simp: check_if_next_group_def Let_def split: prod.splits)
  then show ?case using Cons.IH [of "snd ?r" x] by (cases ?r) simp
qed simp

subsection \<open>Properties\<close>

text \<open>
  \<open>NTILE(q)\<close> over a partition of \<open>n\<close> rows numbers \<open>q\<close> consecutive groups of rows whose sizes differ by
  at most one, the larger ones first: row \<open>r\<close> gets tile \<open>t\<close> exactly when it lies behind the start of
  that tile and not behind the start of the next. No division by zero happens, also when there are
  more tiles than rows. An empty partition gives null and a number of tiles that is not positive the
  error.\<close>

theorem ntile_tiles:
  assumes "0 < n" "n < 2 ^ 63" "0 < q" "q < 2 ^ 63"
  shows "(\<forall>t\<in>{1..q}. {r \<in> {1..n}. ntile_val_int \<lparr>partition_row_count = of_nat n, current_row_count = of_nat r\<rparr> (of_nat q)
        = Some (Inr (of_nat t, False))} = {tile_start n q t<..tile_start n q (t + 1)} \<and>
      tile_start n q (t + 1) - tile_start n q t = n div q + (if t \<le> n mod q then 1 else 0)) \<and>
    (\<forall>r\<in>{1..n}. \<exists>t\<in>{1..q}. ntile_val_int \<lparr>partition_row_count = of_nat n, current_row_count = of_nat r\<rparr> (of_nat q)
        = Some (Inr (of_nat t, False))) \<and>
    (\<forall>c k. ntile_val_int \<lparr>partition_row_count = 0, current_row_count = c\<rparr> k = Some (Inr (0, True)) \<and>
       (k \<le>s 0 \<longrightarrow> ntile_val_int \<lparr>partition_row_count = of_nat n, current_row_count = c\<rparr> k = Some (Inl ER_INVALID_NTILE_ARGUMENT)))"
proof (intro conjI ballI allI impI)
  fix t assume t: "t \<in> {1..q}"
  have inj: "(of_nat (tile n q r) :: 64 word) = of_nat t \<longleftrightarrow> tile n q r = t" if "r \<in> {1..n}" for r
  proof -
    have "tile n q r \<le> q" using tile_bounds(2) [OF assms(3), of r n] that by simp
    then have "unat (of_nat (tile n q r) :: 64 word) = tile n q r" "unat (of_nat t :: 64 word) = t"
      using t assms(4) by (simp_all add: unat_of_nat_small)
    then show ?thesis by metis
  qed
  show "{r \<in> {1..n}. ntile_val_int \<lparr>partition_row_count = of_nat n, current_row_count = of_nat r\<rparr> (of_nat q)
        = Some (Inr (of_nat t, False))} = {tile_start n q t<..tile_start n q (t + 1)}"
  proof (rule set_eqI)
    fix r
    show "r \<in> {r \<in> {1..n}. ntile_val_int \<lparr>partition_row_count = of_nat n, current_row_count = of_nat r\<rparr> (of_nat q)
        = Some (Inr (of_nat t, False))} \<longleftrightarrow> r \<in> {tile_start n q t<..tile_start n q (t + 1)}"
    proof (cases "r \<in> {1..n}")
      case True
      then have "1 \<le> r" "r \<le> n" "1 \<le> t" using t by auto
      then show ?thesis using True inj [OF True] ntile_val_tile [OF assms, of r] tile_unique [OF assms(3), of r n t] by simp
    next
      case False
      then show ?thesis using tile_start_last [OF assms(3), of t n] t by auto
    qed
  qed
  show "tile_start n q (t + 1) - tile_start n q t = n div q + (if t \<le> n mod q then 1 else 0)"
    using t by (cases t) (auto simp: tile_start_def)
next
  fix r assume "r \<in> {1..n}"
  then show "\<exists>t\<in>{1..q}. ntile_val_int \<lparr>partition_row_count = of_nat n, current_row_count = of_nat r\<rparr> (of_nat q) = Some (Inr (of_nat t, False))"
    using ntile_val_tile [OF assms, of r] tile_bounds [OF assms(3), of r n] by (intro bexI [of _ "tile n q r"]) auto
next
  fix c k
  show "ntile_val_int \<lparr>partition_row_count = 0, current_row_count = c\<rparr> k = Some (Inr (0, True))"
    by (simp add: ntile_val_int_def get_row_count_def)
  have "(of_nat n :: 64 word) \<noteq> 0" using assms(1,2) unat_of_nat_small [of n] by auto
  then show "ntile_val_int \<lparr>partition_row_count = of_nat n, current_row_count = c\<rparr> k = Some (Inl ER_INVALID_NTILE_ARGUMENT)"
    if "k \<le>s 0" using that by (simp add: ntile_val_int_def get_row_count_def)
qed

theorem ntile_tiles_witness:
  "{r \<in> {1..5}. ntile_val_int \<lparr>partition_row_count = 5, current_row_count = of_nat r\<rparr> 3 = Some (Inr (2, False))} = {2<..4}"
proof -
  have h: "0 < (5 :: nat)" "(5 :: nat) < 2 ^ 63" "0 < (3 :: nat)" "(3 :: nat) < 2 ^ 63" "(2 :: nat) \<in> {1..3}" by simp_all
  have t: "tile_start 5 3 2 = 2" "tile_start 5 3 (2 + 1) = 4" by (simp_all add: tile_start_def)
  have "of_nat 5 = (5 :: ulonglong)" "of_nat 3 = (3 :: ulonglong)" "of_nat 2 = (2 :: ulonglong)" by simp_all
  with conjunct1 [OF bspec [OF conjunct1 [OF ntile_tiles [OF h(1-4)]] h(5)]] show ?thesis unfolding t by (simp only:)
qed

text \<open>
  \<open>PERCENTILE_DISC(p)\<close>, fed the \<open>n\<close> ordered values of a partition after \<open>clear\<close> and
  \<open>set_partition_row_count\<close>, reports no error and holds the first value whose row number divided by \<open>n\<close>
  is at least \<open>p\<close>; a fraction outside \<open>[0, 1]\<close> is the error.\<close>

theorem percentile_disc_row:
  assumes "vs \<noteq> []" "length vs < 2 ^ 64" "0 \<le> p" "p \<le> 1"
  shows "\<exists>s' k. pd_add_all (set_partition_row_count (of_nat (length vs)) (pd_clear s)) p vs = (None, s') \<and>
    1 \<le> k \<and> k \<le> length vs \<and> p \<le> real k / real (length vs) \<and>
    (\<forall>j. 1 \<le> j \<and> j < k \<longrightarrow> real j / real (length vs) < p) \<and>
    pd_val rd zero s' (Some p) = (False, rd (Some (vs ! (k - 1)))) \<and>
    (\<forall>q v. q < 0 \<or> 1 < q \<longrightarrow> fst (pd_add (pd_clear s) (Some q) v) = Some ER_ARGUMENT_OUT_OF_RANGE)"
proof -
  let ?n = "length vs"
  have n: "0 < ?n" using assms(1) by simp
  obtain j where j: "?n = Suc j" using n gr0_implies_Suc by blast
  note k = disc_row_bounds [OF n assms(4)]
  have run: "pd_add_all (set_partition_row_count (of_nat ?n) (pd_clear s)) p vs = (None, disc_state ?n p vs ?n)"
    using disc_run [OF n assms(2,3,4) refl, of j s] j by simp
  have least: "real i / real ?n < p" if "1 \<le> i" "i < disc_row ?n p" for i
    using disc_row_iff [OF n, of p "i - 1"] that by (cases i) auto
  have reach: "p \<le> real (disc_row ?n p) / real ?n"
    using disc_row_iff [OF n, of p "disc_row ?n p - 1"] k by (cases "disc_row ?n p") auto
  have nz: "(of_nat ?n :: 64 word) \<noteq> 0" using unat_of_nat_small [OF assms(2)] n by auto
  have val: "pd_val rd zero (disc_state ?n p vs ?n) (Some p) = (False, rd (Some (vs ! (disc_row ?n p - 1))))"
    using nz k by (simp add: pd_val_def get_row_count_def disc_state_def min.absorb2)
  have err: "fst (pd_add (pd_clear s) (Some q) v) = Some ER_ARGUMENT_OUT_OF_RANGE" if "q < 0 \<or> 1 < q" for q v
    using that by (auto simp: pd_add_def pd_clear_def Let_def)
  show ?thesis using run k reach least val err by blast
qed

theorem percentile_disc_row_witness:
  "\<exists>s'. pd_add_all (set_partition_row_count (of_nat (length [10, 20, 30 :: int])) (pd_clear pd_init)) (1 / 2) [10, 20, 30 :: int] = (None, s') \<and>
     pd_val (\<lambda>x. x) None s' (Some (1 / 2)) = (False, Some 20)"
proof -
  let ?vs = "[10, 20, 30 :: int]"
  have h: "?vs \<noteq> []" "length ?vs < 2 ^ 64" "0 \<le> (1 / 2 :: real)" "(1 / 2 :: real) \<le> 1" by simp_all
  obtain s' k where k: "pd_add_all (set_partition_row_count (of_nat (length ?vs)) (pd_clear pd_init)) (1 / 2) ?vs = (None, s')"
    "1 \<le> k" "k \<le> length ?vs" "1 / 2 \<le> real k / real (length ?vs)"
    "\<forall>j. 1 \<le> j \<and> j < k \<longrightarrow> real j / real (length ?vs) < 1 / 2"
    "pd_val (\<lambda>x. x) None s' (Some (1 / 2)) = (False, Some (?vs ! (k - 1)))"
    using percentile_disc_row [OF h, of pd_init "\<lambda>x. x" None] by blast
  have "k = 2" using k(2-4) k(5) [rule_format, of 2] by (cases "k = 3") auto
  then show ?thesis using k(1,6) by simp
qed

text \<open>
  \<open>PERCENTILE_CONT(p)\<close>, fed the \<open>n\<close> ordered values of a partition, is the linear interpolation at
  position \<open>1 + p (n - 1)\<close> between the values of the rows next to it.\<close>

theorem percentile_cont_interpolates:
  assumes "vs \<noteq> []" "length vs < 2 ^ 63" "0 \<le> p" "p \<le> 1"
  shows "\<exists>s'. pc_add_all (set_partition_row_count (of_nat (length vs)) (pc_clear s)) p vs = (None, s') \<and>
    pc_val_real rd s' (Some p) = (False, let v = 1 + p * (real (length vs) - 1); w = v - of_int \<lfloor>v\<rfloor> in
      (1 - w) * rd (Some (vs ! (nat \<lfloor>v\<rfloor> - 1))) + w * rd (Some (vs ! (nat \<lceil>v\<rceil> - 1))))"
proof -
  let ?n = "length vs"
  let ?s = "cont_state ?n p vs ?n"
  have n: "0 < ?n" using assms(1) by simp
  obtain j where j: "?n = Suc j" using n gr0_implies_Suc by blast
  note b = cont_bounds [OF n assms(3,4)]
  have run: "pc_add_all (set_partition_row_count (of_nat ?n) (pc_clear s)) p vs = (None, ?s)"
    using cont_run [OF n assms(2,3,4) refl, of j s] j by simp
  have pos: "pc_position ?s = cont_pos ?n p" by (rule pc_position_val [OF n assms(2)]) (simp_all add: cont_state_def)
  have nz: "get_row_count ?s \<noteq> 0" using unat_of_nat_small [of ?n] n assms(2) by (auto simp: get_row_count_def cont_state_def)
  have fl: "pc_floor_value ?s = Some (vs ! (cont_lo ?n p - 1))"
    using le_trans [OF b(5,4)] by (simp add: cont_state_def min.absorb2)
  have val: "pc_val_real rd ?s (Some p) = (False, let v = cont_pos ?n p; w = v - of_int \<lfloor>v\<rfloor> in
      (1 - w) * rd (Some (vs ! (cont_lo ?n p - 1))) + w * rd (Some (vs ! (cont_hi ?n p - 1))))"
  proof (cases "\<lceil>cont_pos ?n p\<rceil> = \<lfloor>cont_pos ?n p\<rfloor>")
    case True
    then have "cont_pos ?n p = of_int \<lfloor>cont_pos ?n p\<rfloor>" by linarith
    then show ?thesis using nz pos fl True by (simp add: pc_val_real_def Let_def)
  next
    case False
    then have c: "\<lceil>cont_pos ?n p\<rceil> = \<lfloor>cont_pos ?n p\<rfloor> + 1" by linarith
    have "1 \<le> \<lfloor>cont_pos ?n p\<rfloor>" using b(1) by (simp add: le_floor_iff)
    then have h: "cont_hi ?n p = cont_lo ?n p + 1" using c by (simp add: cont_hi_def cont_lo_def nat_add_distrib)
    then have "pc_ceil_value ?s = Some (vs ! cont_lo ?n p)" using b by (simp add: cont_state_def)
    then show ?thesis using nz pos fl False c h by (simp add: pc_val_real_def Let_def algebra_simps)
  qed
  show ?thesis by (intro exI conjI, rule run) (use val in \<open>simp only: cont_lo_def cont_hi_def cont_pos_def Let_def\<close>)
qed

theorem percentile_cont_interpolates_witness:
  "\<exists>s'. pc_add_all (set_partition_row_count (of_nat (length [10, 20 :: real])) (pc_clear pc_init)) (1 / 2) [10, 20] = (None, s') \<and>
     pc_val_real (\<lambda>x. the x) s' (Some (1 / 2)) = (False, 15)"
proof -
  have f: "\<lfloor>3 / 2 :: real\<rfloor> = 1" "\<lceil>3 / 2 :: real\<rceil> = 2" by linarith+
  show ?thesis using percentile_cont_interpolates [of "[10, 20 :: real]" "1 / 2" pc_init "\<lambda>x. the x"] by (simp add: f Let_def)
qed

text \<open>
  A \<open>Group_bound_tracker\<close> that was initialised reports, for the rows of a sorted result one after
  the other, a new group exactly at the first row and where the key differs from that of the row
  before, if \<open>test_if_group_changed\<close> says whether the key differs from the cached one and caches it.\<close>

theorem group_bounds_tracked:
  assumes "\<And>k gs. snd (test k gs) = cache k" "\<And>k k'. fst (test k (cache k')) > -1 \<longleftrightarrow> k \<noteq> k'"
  shows "gbt_run test (gbt_init t) (k # ks) = True # group_starts k ks"
proof -
  let ?r = "check_if_next_group (test k) (gbt_init t)"
  have "fst ?r" "group_fields (snd ?r) = cache k" "\<not> first_check (snd ?r)"
    using assms(1) [of k "group_fields t"]
    by (auto simp: check_if_next_group_def gbt_init_def Let_def split: prod.splits)
  then show ?thesis using gbt_run_spec [OF assms, of "snd ?r" k ks] by (cases ?r) simp
qed

theorem group_bounds_tracked_witness:
  "gbt_run (\<lambda>k gs. (if gs = [k] then -1 else 0, [k])) (gbt_init \<lparr>group_fields = [], first_check = False\<rparr>) [1, 1, 2 :: nat] = [True, False, True]"
proof -
  have "gbt_run (\<lambda>k gs. (if gs = [k] then -1 else 0, [k])) (gbt_init \<lparr>group_fields = [], first_check = False\<rparr>) [1, 1, 2 :: nat] =
      True # group_starts 1 [1, 2 :: nat]"
    by (rule group_bounds_tracked [where cache = "\<lambda>k. [k]"]) auto
  also have "\<dots> = [True, False, True]" by simp
  finally show ?thesis .
qed

text \<open>
  The phases of a window function item: whatever it did before, in the initial phase it is null
  and reads neither the function nor the field, in the computation phase it passes on the function
  and in the retrieval phase the result field; in each phase \<open>is_null\<close> agrees with the null flag that
  reading the value leaves.\<close>

theorem window_func_phases:
  "iwf_val_int (set_phase_to_initial w) fld fn = (0, (set_phase_to_initial w)\<lparr>null_value := True\<rparr>) \<and>
   fst (iwf_val_int (set_phase_to_computation w) fld fn) = fst fn \<and>
   fst (iwf_val_int (set_phase_to_retrieval w) fld fn) = fst fld \<and>
   fst (iwf_val_str (set_phase_to_retrieval w) sfld sfn) = (if snd sfld then None else fst sfld) \<and>
   (\<forall>ph\<in>{set_phase_to_initial, set_phase_to_computation, set_phase_to_retrieval}.
      iwf_is_null (ph w) (snd fld) (snd fn) = null_value (snd (iwf_val_int (ph w) fld fn)) \<and>
      iwf_is_null (ph w) (snd sfld) (snd sfn) = null_value (snd (iwf_val_str (ph w) sfld sfn)))"
  by (simp add: iwf_val_int_def iwf_val_def iwf_val_str_def iwf_val_ptr_def iwf_is_null_def
      set_phase_to_initial_def set_phase_to_computation_def set_phase_to_retrieval_def)

theorem window_func_phases_witness:
  "fst (iwf_val_int (set_phase_to_retrieval iwf_init) (7, False) (8, False)) = 7"
  using window_func_phases [of iwf_init "(7, False)" "(8, False)" "(None, True)" "(None, True)"] by simp

end
