(* ===== verification/ElementListInterface.thy ===== *)
theory ElementListInterface
  imports Prelude
begin

text \<open>
  The contract of the lists whose elements carry their own links. An element may be linked when it has
  storage and is in no list; it is linked in at the front, and taken out from wherever it stands without
  a search. The lists of \<open>sql_plist.h\<close> and \<open>intrusive_list.h\<close> are interpretations.
\<close>

locale element_list =
  fixes rep :: "'s \<Rightarrow> 'v list \<Rightarrow> bool"
    and linkable :: "'s \<Rightarrow> 'v \<Rightarrow> bool"
    and pf :: "'s \<Rightarrow> 'v \<Rightarrow> 's option"
    and rm :: "'s \<Rightarrow> 'v \<Rightarrow> 's option"
  assumes rep_distinct: "rep s xs \<Longrightarrow> distinct xs"
    and rep_linkable: "rep s xs \<Longrightarrow> x \<in> set xs \<Longrightarrow> linkable s x"
    and pf_law: "rep s xs \<Longrightarrow> linkable s x \<Longrightarrow> x \<notin> set xs \<Longrightarrow>
      \<exists>s'. pf s x = Some s' \<and> rep s' (x # xs) \<and> (\<forall>y. linkable s' y = linkable s y)"
    and rm_law: "rep s (xs @ x # ys) \<Longrightarrow>
      \<exists>s'. rm s x = Some s' \<and> rep s' (xs @ ys) \<and> (\<forall>y. linkable s' y = linkable s y)"
begin

lemma push_all:
  assumes "rep s xs" "distinct (ys @ xs)" "\<forall>y \<in> set ys. linkable s y"
  shows "\<exists>s'. foldM pf ys s = Some s' \<and> rep s' (rev ys @ xs) \<and> (\<forall>y. linkable s' y = linkable s y)"
  using assms
proof (induction ys arbitrary: s xs)
  case (Cons y ys)
  obtain s1 where s1: "pf s y = Some s1" "rep s1 (y # xs)" "\<forall>z. linkable s1 z = linkable s z"
    using pf_law [OF Cons.prems(1), of y] Cons.prems by auto
  then show ?case using Cons.IH [of s1 "y # xs"] Cons.prems by auto
qed simp

lemma rm_member:
  assumes "rep s xs" "x \<in> set xs"
  shows "\<exists>s'. rm s x = Some s' \<and> rep s' (filter (\<lambda>y. y \<noteq> x) xs) \<and> (\<forall>y. linkable s' y = linkable s y)"
proof -
  obtain ys zs where xs: "xs = ys @ x # zs" using split_list [OF assms(2)] by blast
  have "filter (\<lambda>y. y \<noteq> x) ys = ys" "filter (\<lambda>y. y \<noteq> x) zs = zs"
    using rep_distinct [OF assms(1)] xs by (auto simp: filter_id_conv)
  then have "filter (\<lambda>y. y \<noteq> x) xs = ys @ zs" using xs by simp
  then show ?thesis using rm_law [of s ys x zs] assms(1) xs by auto
qed

text \<open>Elements can be taken out in any order.\<close>

lemma remove_all:
  assumes "rep s xs" "distinct ys" "set ys \<subseteq> set xs"
  shows "\<exists>s'. foldM rm ys s = Some s' \<and> rep s' (filter (\<lambda>x. x \<notin> set ys) xs)"
  using assms
proof (induction ys arbitrary: s xs)
  case (Cons y ys)
  obtain s1 where s1: "rm s y = Some s1" "rep s1 (filter (\<lambda>x. x \<noteq> y) xs)"
    using rm_member [OF Cons.prems(1), of y] Cons.prems(3) by auto
  have "distinct ys" "set ys \<subseteq> set (filter (\<lambda>x. x \<noteq> y) xs)" using Cons.prems(2,3) by auto
  moreover have "filter (\<lambda>x. x \<notin> set ys) (filter (\<lambda>x. x \<noteq> y) xs) = filter (\<lambda>x. x \<notin> set (y # ys)) xs"
    by (simp add: conj_commute)
  ultimately show ?case using Cons.IH [OF s1(2)] s1(1) by auto
qed simp

text \<open>Taking an element out and putting it in front moves it to the front.\<close>

lemma move_to_front:
  assumes "rep s xs" "x \<in> set xs"
  shows "\<exists>s1 s2. rm s x = Some s1 \<and> pf s1 x = Some s2 \<and> rep s2 (x # filter (\<lambda>y. y \<noteq> x) xs)"
proof -
  obtain s1 where s1: "rm s x = Some s1" "rep s1 (filter (\<lambda>y. y \<noteq> x) xs)" "\<forall>y. linkable s1 y = linkable s y"
    using rm_member [OF assms] by blast
  then show ?thesis using pf_law [OF s1(2), of x] rep_linkable [OF assms] by auto
qed

end

text \<open>A list that also has a fast insertion at the end.\<close>

locale element_queue = element_list +
  fixes pb :: "'s \<Rightarrow> 'v \<Rightarrow> 's option"
  assumes pb_law: "rep s xs \<Longrightarrow> linkable s x \<Longrightarrow> x \<notin> set xs \<Longrightarrow>
    \<exists>s'. pb s x = Some s' \<and> rep s' (xs @ [x]) \<and> (\<forall>y. linkable s' y = linkable s y)"
begin

lemma enqueue_all:
  assumes "rep s xs" "distinct (xs @ ys)" "\<forall>y \<in> set ys. linkable s y"
  shows "\<exists>s'. foldM pb ys s = Some s' \<and> rep s' (xs @ ys) \<and> (\<forall>y. linkable s' y = linkable s y)"
  using assms
proof (induction ys arbitrary: s xs)
  case (Cons y ys)
  obtain s1 where s1: "pb s y = Some s1" "rep s1 (xs @ [y])" "\<forall>z. linkable s1 z = linkable s z"
    using pb_law [OF Cons.prems(1), of y] Cons.prems by auto
  then show ?case using Cons.IH [of s1 "xs @ [y]"] Cons.prems by auto
qed simp

text \<open>A queue whose elements are cancelled in any order keeps the others in the order of arrival.\<close>

lemma enqueue_cancel:
  assumes "rep s []" "distinct xs" "\<forall>x \<in> set xs. linkable s x" "distinct ys" "set ys \<subseteq> set xs"
  shows "\<exists>s1 s2. foldM pb xs s = Some s1 \<and> foldM rm ys s1 = Some s2 \<and> rep s2 (filter (\<lambda>x. x \<notin> set ys) xs)"
proof -
  obtain s1 where s1: "foldM pb xs s = Some s1" "rep s1 xs"
    using enqueue_all [OF assms(1), of xs] assms(2,3) by auto
  then show ?thesis using remove_all [OF s1(2) assms(4,5)] by auto
qed

end

end
