(* ===== verification/PList.thy ===== *)
theory PList
  imports ElementListInterface "HOL-Library.Monad_Syntax"
begin

text \<open>
  \<open>sql_plist.h\<close>: the intrusive parameterised list. An element has a next pointer and a pointer to the
  slot that points to it, which is the first slot of a list or the next slot of an element. The store
  maps elements and lists to their contents; a null or dangling pointer that is followed gives
  \<^term>\<open>None\<close>. The policy classes for counting and for fast insertion at the end are two flags of a list.
\<close>

subsection \<open>The store\<close>

datatype slot = M_first nat | Next_ptr nat

record pelem =
  pl_next :: "nat option"
  pl_prev :: "slot option"

record I_P_List =
  m_first :: "nat option"
  m_counter :: uint
  m_last :: slot
  counting :: bool
  fast_push_back :: bool

record pheap =
  pelems :: "nat \<rightharpoonup> pelem"
  plists :: "nat \<rightharpoonup> I_P_List"

definition slot_get :: "pheap \<Rightarrow> slot \<Rightarrow> nat option option" where
  "slot_get h s = (case s of M_first l \<Rightarrow> map_option m_first (plists h l) | Next_ptr x \<Rightarrow> map_option pl_next (pelems h x))"

definition slot_set :: "pheap \<Rightarrow> slot \<Rightarrow> nat option \<Rightarrow> pheap option" where
  "slot_set h s v = (case s of
     M_first l \<Rightarrow> map_option (\<lambda>b. h\<lparr>plists := (plists h)(l \<mapsto> b\<lparr>m_first := v\<rparr>)\<rparr>) (plists h l)
   | Next_ptr x \<Rightarrow> map_option (\<lambda>n. h\<lparr>pelems := (pelems h)(x \<mapsto> n\<lparr>pl_next := v\<rparr>)\<rparr>) (pelems h x))"

definition prev_get :: "pheap \<Rightarrow> nat \<Rightarrow> slot option option" where
  "prev_get h x = map_option pl_prev (pelems h x)"

definition prev_set :: "pheap \<Rightarrow> nat \<Rightarrow> slot option \<Rightarrow> pheap option" where
  "prev_set h x v = map_option (\<lambda>n. h\<lparr>pelems := (pelems h)(x \<mapsto> n\<lparr>pl_prev := v\<rparr>)\<rparr>) (pelems h x)"

subsection \<open>The policies\<close>

definition on_list :: "(I_P_List \<Rightarrow> I_P_List) \<Rightarrow> pheap \<Rightarrow> nat \<Rightarrow> pheap option" where
  "on_list f h l = map_option (\<lambda>b. h\<lparr>plists := (plists h)(l \<mapsto> f b)\<rparr>) (plists h l)"

definition C_reset :: "I_P_List \<Rightarrow> I_P_List" where
  "C_reset b = (if counting b then b\<lparr>m_counter := 0\<rparr> else b)"

definition C_inc :: "I_P_List \<Rightarrow> I_P_List" where
  "C_inc b = (if counting b then b\<lparr>m_counter := m_counter b + 1\<rparr> else b)"

definition C_dec :: "I_P_List \<Rightarrow> I_P_List" where
  "C_dec b = (if counting b then b\<lparr>m_counter := m_counter b - 1\<rparr> else b)"

definition C_swap :: "I_P_List \<Rightarrow> I_P_List \<Rightarrow> I_P_List \<times> I_P_List" where
  "C_swap a b = (if counting a then (a\<lparr>m_counter := m_counter b\<rparr>, b\<lparr>m_counter := m_counter a\<rparr>) else (a, b))"

definition I_set_last :: "slot \<Rightarrow> I_P_List \<Rightarrow> I_P_List" where
  "I_set_last s b = (if fast_push_back b then b\<lparr>m_last := s\<rparr> else b)"

definition I_get_last :: "I_P_List \<Rightarrow> slot option" where
  "I_get_last b = (if fast_push_back b then Some (m_last b) else None)"

definition I_swap :: "I_P_List \<Rightarrow> I_P_List \<Rightarrow> I_P_List \<times> I_P_List" where
  "I_swap a b = (if fast_push_back a then (a\<lparr>m_last := m_last b\<rparr>, b\<lparr>m_last := m_last a\<rparr>) else (a, b))"

subsection \<open>The operations\<close>

definition ipl_new :: "bool \<Rightarrow> bool \<Rightarrow> pheap \<Rightarrow> nat \<Rightarrow> pheap" where
  "ipl_new cnt fast h l = h\<lparr>plists := (plists h)(l \<mapsto>
     \<lparr>m_first = None, m_counter = 0, m_last = M_first l, counting = cnt, fast_push_back = fast\<rparr>)\<rparr>"

definition ipl_empty :: "pheap \<Rightarrow> nat \<Rightarrow> pheap option" where
  "ipl_empty h l = on_list (\<lambda>b. I_set_last (M_first l) (C_reset (b\<lparr>m_first := None\<rparr>))) h l"

definition ipl_is_empty :: "pheap \<Rightarrow> nat \<Rightarrow> bool option" where
  "ipl_is_empty h l = map_option (\<lambda>b. m_first b = None) (plists h l)"

definition ipl_push_front :: "pheap \<Rightarrow> nat \<Rightarrow> nat \<Rightarrow> pheap option" where
  "ipl_push_front h l a = do {
     f \<leftarrow> slot_get h (M_first l);
     h1 \<leftarrow> slot_set h (Next_ptr a) f;
     h2 \<leftarrow> (case f of Some x \<Rightarrow> prev_set h1 x (Some (Next_ptr a)) | None \<Rightarrow> on_list (I_set_last (Next_ptr a)) h1 l);
     h3 \<leftarrow> slot_set h2 (M_first l) (Some a);
     h4 \<leftarrow> prev_set h3 a (Some (M_first l));
     on_list C_inc h4 l
   }"

definition ipl_push_back :: "pheap \<Rightarrow> nat \<Rightarrow> nat \<Rightarrow> pheap option" where
  "ipl_push_back h l a = do {
     b \<leftarrow> plists h l;
     last_s \<leftarrow> I_get_last b;
     v \<leftarrow> slot_get h last_s;
     h1 \<leftarrow> slot_set h (Next_ptr a) v;
     h2 \<leftarrow> slot_set h1 last_s (Some a);
     h3 \<leftarrow> prev_set h2 a (Some last_s);
     h4 \<leftarrow> on_list (I_set_last (Next_ptr a)) h3 l;
     on_list C_inc h4 l
   }"

definition ipl_insert_after :: "pheap \<Rightarrow> nat \<Rightarrow> nat option \<Rightarrow> nat \<Rightarrow> pheap option" where
  "ipl_insert_after h l pos a = (case pos of
     None \<Rightarrow> ipl_push_front h l a
   | Some p \<Rightarrow> do {
       v \<leftarrow> slot_get h (Next_ptr p);
       h1 \<leftarrow> slot_set h (Next_ptr a) v;
       h2 \<leftarrow> prev_set h1 a (Some (Next_ptr p));
       h3 \<leftarrow> slot_set h2 (Next_ptr p) (Some a);
       w \<leftarrow> slot_get h3 (Next_ptr a);
       h4 \<leftarrow> (case w of Some old_next \<Rightarrow> prev_set h3 old_next (Some (Next_ptr a))
              | None \<Rightarrow> on_list (I_set_last (Next_ptr a)) h3 l);
       on_list C_inc h4 l
     })"

definition ipl_remove :: "pheap \<Rightarrow> nat \<Rightarrow> nat \<Rightarrow> pheap option" where
  "ipl_remove h l a = do {
     nx \<leftarrow> slot_get h (Next_ptr a);
     p \<leftarrow> prev_get h a;
     h1 \<leftarrow> (case nx of Some x \<Rightarrow> prev_set h x p
            | None \<Rightarrow> (case p of Some s \<Rightarrow> on_list (I_set_last s) h l | None \<Rightarrow> None));
     p1 \<leftarrow> prev_get h1 a;
     s \<leftarrow> p1;
     h2 \<leftarrow> slot_set h1 s nx;
     on_list C_dec h2 l
   }"

definition ipl_front :: "pheap \<Rightarrow> nat \<Rightarrow> nat option option" where
  "ipl_front h l = slot_get h (M_first l)"

definition ipl_pop_front :: "pheap \<Rightarrow> nat \<Rightarrow> (nat option \<times> pheap) option" where
  "ipl_pop_front h l = do {
     result \<leftarrow> ipl_front h l;
     h1 \<leftarrow> (case result of Some x \<Rightarrow> ipl_remove h l x | None \<Rightarrow> Some h);
     Some (result, h1)
   }"

text \<open>The type of the parameter of \<open>swap\<close> has the default insertion policy, so the function exists only for
  lists without fast insertion at the end, where \<open>I::swap\<close> and \<open>I::set_last\<close> do nothing. (The last branch
  calls \<open>I::set_last\<close> of the list itself and not of \<open>rhs\<close>.)\<close>

definition ipl_swap :: "pheap \<Rightarrow> nat \<Rightarrow> nat \<Rightarrow> pheap option" where
  "ipl_swap h l rhs = do {
     b \<leftarrow> plists h l;
     r \<leftarrow> plists h rhs;
     let (b1, r1) = I_swap (b\<lparr>m_first := m_first r\<rparr>) (r\<lparr>m_first := m_first b\<rparr>);
     let h1 = h\<lparr>plists := (plists h)(l \<mapsto> b1, rhs \<mapsto> r1)\<rparr>;
     h2 \<leftarrow> (case m_first b1 of Some x \<Rightarrow> prev_set h1 x (Some (M_first l)) | None \<Rightarrow> on_list (I_set_last (M_first l)) h1 l);
     h3 \<leftarrow> (case m_first r1 of Some x \<Rightarrow> prev_set h2 x (Some (M_first rhs)) | None \<Rightarrow> on_list (I_set_last (M_first rhs)) h2 l);
     b3 \<leftarrow> plists h3 l;
     r3 \<leftarrow> plists h3 rhs;
     let (b4, r4) = C_swap b3 r3;
     Some (h3\<lparr>plists := (plists h3)(l \<mapsto> b4, rhs \<mapsto> r4)\<rparr>)
   }"

record I_P_List_iterator =
  ipl_list :: nat
  ipl_current :: "nat option"

definition ipl_it_init :: "pheap \<Rightarrow> nat \<Rightarrow> I_P_List_iterator option" where
  "ipl_it_init h l = map_option (\<lambda>f. \<lparr>ipl_list = l, ipl_current = f\<rparr>) (slot_get h (M_first l))"

definition ipl_it_post :: "pheap \<Rightarrow> I_P_List_iterator \<Rightarrow> (nat option \<times> I_P_List_iterator) option" where
  "ipl_it_post h it = (case ipl_current it of
     None \<Rightarrow> Some (None, it)
   | Some x \<Rightarrow> map_option (\<lambda>n. (Some x, it\<lparr>ipl_current := n\<rparr>)) (slot_get h (Next_ptr x)))"

definition ipl_it_pre :: "pheap \<Rightarrow> I_P_List_iterator \<Rightarrow> (nat option \<times> I_P_List_iterator) option" where
  "ipl_it_pre h it = (case ipl_current it of
     None \<Rightarrow> None
   | Some x \<Rightarrow> map_option (\<lambda>n. (n, it\<lparr>ipl_current := n\<rparr>)) (slot_get h (Next_ptr x)))"

definition ipl_it_rewind :: "pheap \<Rightarrow> I_P_List_iterator \<Rightarrow> I_P_List_iterator option" where
  "ipl_it_rewind h it = map_option (\<lambda>f. it\<lparr>ipl_current := f\<rparr>) (slot_get h (M_first (ipl_list it)))"

subsection \<open>Reading and writing the store\<close>

lemma slot_get_set: "slot_set h s v = Some h' \<Longrightarrow> slot_get h' t = (if t = s then Some v else slot_get h t)"
  by (auto simp: slot_set_def slot_get_def split: slot.splits)

lemma slot_set_ok: "slot_get h s = Some w \<Longrightarrow> \<exists>h'. slot_set h s v = Some h'"
  by (auto simp: slot_set_def slot_get_def split: slot.splits)

lemma prev_get_slot_set: "slot_set h s v = Some h' \<Longrightarrow> prev_get h' x = prev_get h x"
  by (auto simp: slot_set_def prev_get_def split: slot.splits)

lemma prev_get_set: "prev_set h x v = Some h' \<Longrightarrow> prev_get h' y = (if y = x then Some v else prev_get h y)"
  by (auto simp: prev_set_def prev_get_def)

lemma slot_get_prev_set: "prev_set h x v = Some h' \<Longrightarrow> slot_get h' s = slot_get h s"
  by (auto simp: prev_set_def slot_get_def split: slot.splits)

lemma prev_set_ok: "slot_get h (Next_ptr x) = Some w \<Longrightarrow> \<exists>h'. prev_set h x v = Some h'"
  by (auto simp: prev_set_def slot_get_def)

lemma slot_get_on_list: "on_list f h l = Some h' \<Longrightarrow> (\<And>b. m_first (f b) = m_first b) \<Longrightarrow> slot_get h' s = slot_get h s"
  by (auto simp: on_list_def slot_get_def split: slot.splits)

lemma prev_get_on_list: "on_list f h l = Some h' \<Longrightarrow> prev_get h' x = prev_get h x"
  by (auto simp: on_list_def prev_get_def)

lemma policy_first [simp]:
  "m_first (C_inc b) = m_first b" "m_first (C_dec b) = m_first b" "m_first (I_set_last s b) = m_first b"
  by (simp_all add: C_inc_def C_dec_def I_set_last_def)

lemma policy_fast [simp]:
  "fast_push_back (C_inc b) = fast_push_back b" "fast_push_back (C_dec b) = fast_push_back b"
  "fast_push_back (I_set_last s b) = fast_push_back b"
  by (simp_all add: C_inc_def C_dec_def I_set_last_def)

lemmas store_reads = slot_get_set prev_get_slot_set prev_get_set slot_get_prev_set slot_get_on_list prev_get_on_list

subsection \<open>Well-formed lists\<close>

fun pseg :: "pheap \<Rightarrow> slot \<Rightarrow> nat list \<Rightarrow> bool" where
  "pseg h s [] \<longleftrightarrow> True"
| "pseg h s (x # xs) \<longleftrightarrow> slot_get h s = Some (Some x) \<and> prev_get h x = Some (Some s) \<and> pseg h (Next_ptr x) xs"

fun end_slot :: "slot \<Rightarrow> nat list \<Rightarrow> slot" where
  "end_slot s [] = s"
| "end_slot s (x # xs) = end_slot (Next_ptr x) xs"

definition pchain :: "pheap \<Rightarrow> slot \<Rightarrow> nat list \<Rightarrow> bool" where
  "pchain h s xs \<longleftrightarrow> pseg h s xs \<and> slot_get h (end_slot s xs) = Some None"

definition plist_meta :: "I_P_List \<Rightarrow> slot \<Rightarrow> nat \<Rightarrow> bool" where
  "plist_meta b s n \<longleftrightarrow> (fast_push_back b \<longrightarrow> m_last b = s) \<and> (counting b \<longrightarrow> m_counter b = of_nat n)"

definition is_plist :: "pheap \<Rightarrow> nat \<Rightarrow> nat list \<Rightarrow> bool" where
  "is_plist h l xs \<longleftrightarrow> distinct xs \<and> pchain h (M_first l) xs \<and>
     (\<exists>b. plists h l = Some b \<and> plist_meta b (end_slot (M_first l) xs) (length xs))"

lemma end_slot_append [simp]: "end_slot s (xs @ ys) = end_slot (end_slot s xs) ys"
  by (induction xs arbitrary: s) auto

lemma end_slot_cases: "end_slot s xs = (if xs = [] then s else Next_ptr (last xs))"
  by (induction xs arbitrary: s) auto

lemma pseg_append: "pseg h s (xs @ ys) \<longleftrightarrow> pseg h s xs \<and> pseg h (end_slot s xs) ys"
  by (induction xs arbitrary: s) auto

text \<open>A segment depends on its slots except the last one, and on the back references of its elements.\<close>

lemma pseg_frame:
  assumes "pseg h s xs" "\<And>t. t \<in> set (butlast (s # map Next_ptr xs)) \<Longrightarrow> slot_get h' t = slot_get h t"
    and "\<And>x. x \<in> set xs \<Longrightarrow> prev_get h' x = prev_get h x"
  shows "pseg h' s xs"
  using assms
proof (induction xs arbitrary: s)
  case (Cons x xs)
  have "pseg h' (Next_ptr x) xs" using Cons.prems by (intro Cons.IH) auto
  then show ?case using Cons.prems by auto
qed simp

definition opt_hd :: "'a list \<Rightarrow> 'a option" where
  "opt_hd xs = (case xs of [] \<Rightarrow> None | x # _ \<Rightarrow> Some x)"

lemma opt_hd_simps [simp]: "opt_hd [] = None" "opt_hd (x # xs) = Some x"
  by (simp_all add: opt_hd_def)

lemma pchain_slot: "pchain h s (xs @ ys) \<Longrightarrow> slot_get h (end_slot s xs) = Some (opt_hd ys)"
  by (cases ys) (auto simp: pchain_def pseg_append)

lemma inner_slot:
  assumes "t \<in> set (butlast (M_first l # map Next_ptr xs))" "distinct xs"
  shows "t \<noteq> end_slot (M_first l) xs" "t = M_first l \<or> t \<in> Next_ptr ` set xs"
proof -
  have "end_slot (M_first l) xs = last (M_first l # map Next_ptr xs)" by (simp add: end_slot_cases last_map)
  moreover have "distinct (M_first l # map Next_ptr xs)" using assms(2) by (auto simp: distinct_map inj_on_def)
  ultimately show "t \<noteq> end_slot (M_first l) xs"
    using assms(1) by (metis append_butlast_last_id distinct_append disjoint_iff list.distinct(1) list.set_intros(1))
  show "t = M_first l \<or> t \<in> Next_ptr ` set xs" using in_set_butlastD [OF assms(1)] by auto
qed

lemma later_slot:
  "distinct (xs @ ys) \<Longrightarrow> t \<in> Next_ptr ` set ys \<Longrightarrow> t \<noteq> end_slot (M_first l) xs"
  by (auto simp: end_slot_cases dest: last_in_set split: if_splits)

text \<open>Linking an element in at a slot.\<close>

lemma pchain_insert:
  assumes "pchain h (M_first l) (xs @ ys)" "distinct (xs @ a # ys)"
    and s: "s = end_slot (M_first l) xs"
    and sl: "\<And>t. slot_get h' t = (if t = s then Some (Some a) else if t = Next_ptr a then Some (opt_hd ys) else slot_get h t)"
    and pv: "\<And>x. prev_get h' x = (if x = a then Some (Some s) else if opt_hd ys = Some x then Some (Some (Next_ptr a)) else prev_get h x)"
  shows "pchain h' (M_first l) (xs @ a # ys)"
proof -
  have c: "pseg h (M_first l) xs" "pseg h s ys" "slot_get h (end_slot s ys) = Some None"
    using assms(1) s by (auto simp: pchain_def pseg_append)
  have na: "s \<noteq> Next_ptr a" using assms(2) s by (auto simp: end_slot_cases)
  have 1: "pseg h' (M_first l) xs"
  proof (rule pseg_frame [OF c(1)])
    fix t assume "t \<in> set (butlast (M_first l # map Next_ptr xs))"
    then have "t \<noteq> s" "t \<noteq> Next_ptr a" using inner_slot [of t l xs] assms(2) s by auto
    then show "slot_get h' t = slot_get h t" using sl by simp
  next
    fix x assume "x \<in> set xs"
    then show "prev_get h' x = prev_get h x" using pv assms(2) by (cases ys) auto
  qed
  have 2: "pseg h' (Next_ptr a) ys \<and> slot_get h' (end_slot (Next_ptr a) ys) = Some None"
  proof (cases ys)
    case Nil
    then show ?thesis using sl na by simp
  next
    case (Cons y zs)
    have "pseg h' (Next_ptr y) zs"
    proof (rule pseg_frame [of h])
      show "pseg h (Next_ptr y) zs" using c(2) Cons by simp
      fix t assume "t \<in> set (butlast (Next_ptr y # map Next_ptr zs))"
      from in_set_butlastD [OF this] have t: "t \<in> Next_ptr ` set ys" using Cons by auto
      then have "t \<noteq> s" "t \<noteq> Next_ptr a" using assms(2) by (auto simp: s end_slot_cases dest: last_in_set split: if_splits)
      then show "slot_get h' t = slot_get h t" using sl by simp
    next
      fix x assume "x \<in> set zs"
      then show "prev_get h' x = prev_get h x" using pv assms(2) Cons by auto
    qed
    moreover have "end_slot s ys = end_slot (Next_ptr a) ys" "end_slot s ys = Next_ptr (last ys)" using Cons by (auto simp: end_slot_cases)
    moreover have "Next_ptr (last ys) \<noteq> s" "Next_ptr (last ys) \<noteq> Next_ptr a"
      using assms(2) later_slot [of xs ys "Next_ptr (last ys)" l] last_in_set [of ys] Cons s by auto
    ultimately show ?thesis using c(3) sl pv na Cons assms(2) by auto
  qed
  show ?thesis using 1 2 sl pv na s by (auto simp: pchain_def pseg_append)
qed

lemma pchain_remove:
  assumes "pchain h (M_first l) (xs @ a # ys)" "distinct (xs @ a # ys)"
    and s: "s = end_slot (M_first l) xs"
    and sl: "\<And>t. slot_get h' t = (if t = s then Some (opt_hd ys) else slot_get h t)"
    and pv: "\<And>x. prev_get h' x = (if opt_hd ys = Some x then Some (Some s) else prev_get h x)"
  shows "pchain h' (M_first l) (xs @ ys)"
proof -
  have c: "pseg h (M_first l) xs" "pseg h (Next_ptr a) ys" "slot_get h (end_slot (Next_ptr a) ys) = Some None"
    using assms(1) by (auto simp: pchain_def pseg_append)
  have dl: "distinct (xs @ ys)" using assms(2) by auto
  have 1: "pseg h' (M_first l) xs"
  proof (rule pseg_frame [OF c(1)])
    fix t assume "t \<in> set (butlast (M_first l # map Next_ptr xs))"
    then show "slot_get h' t = slot_get h t" using inner_slot [of t l xs] assms(2) s sl by auto
  next
    fix x assume "x \<in> set xs"
    then show "prev_get h' x = prev_get h x" using pv assms(2) by (cases ys) auto
  qed
  have 2: "pseg h' s ys \<and> slot_get h' (end_slot s ys) = Some None"
  proof (cases ys)
    case (Cons y zs)
    have "pseg h' (Next_ptr y) zs"
    proof (rule pseg_frame [of h])
      show "pseg h (Next_ptr y) zs" using c(2) Cons by simp
      fix t assume "t \<in> set (butlast (Next_ptr y # map Next_ptr zs))"
      from in_set_butlastD [OF this] have "t \<in> Next_ptr ` set ys" using Cons by auto
      then show "slot_get h' t = slot_get h t" using sl later_slot [OF dl] s by simp
    next
      fix x assume "x \<in> set zs"
      then show "prev_get h' x = prev_get h x" using pv assms(2) Cons by auto
    qed
    moreover have "end_slot s ys = end_slot (Next_ptr a) ys" "end_slot s ys \<in> Next_ptr ` set ys" using Cons by (auto simp: end_slot_cases)
    ultimately show ?thesis using c(3) sl pv Cons later_slot [OF dl, of "end_slot s ys" l] s by auto
  qed (use sl in simp)
  show ?thesis using 1 2 s by (auto simp: pchain_def pseg_append)
qed

subsection \<open>The operations on well-formed lists\<close>

text \<open>An element that is in no list has a place in the store and is not among the elements.\<close>

definition outside :: "pheap \<Rightarrow> nat \<Rightarrow> nat list \<Rightarrow> bool" where
  "outside h a xs \<longleftrightarrow> a \<notin> set xs \<and> pelems h a \<noteq> None"

lemma on_list_ok: "plists h l = Some b \<Longrightarrow> on_list f h l = Some (h\<lparr>plists := (plists h)(l \<mapsto> f b)\<rparr>)"
  by (simp add: on_list_def)

lemma prev_set_simp: "pelems h x = Some n \<Longrightarrow> prev_set h x v = Some (h\<lparr>pelems := (pelems h)(x \<mapsto> n\<lparr>pl_prev := v\<rparr>)\<rparr>)"
  by (simp add: prev_set_def)

lemma plists_slot_set:
  assumes "slot_set h s v = Some h'"
  shows "plists h' l = (if s = M_first l then map_option (\<lambda>b. b\<lparr>m_first := v\<rparr>) (plists h l) else plists h l)"
  using assms by (auto simp: slot_set_def split: slot.splits)

lemma plists_prev_set: "prev_set h x v = Some h' \<Longrightarrow> plists h' = plists h"
  by (auto simp: prev_set_def)

lemma plists_on_list: "on_list f h l = Some h' \<Longrightarrow> plists h' m = (if m = l then map_option f (plists h l) else plists h m)"
  by (auto simp: on_list_def)

lemma pelems_on_list: "on_list f h l = Some h' \<Longrightarrow> pelems h' = pelems h"
  by (auto simp: on_list_def)

lemmas meta_reads = plists_slot_set plists_prev_set plists_on_list

lemma head_elem: "pchain h s (x # xs) \<Longrightarrow> \<exists>w. slot_get h (Next_ptr x) = Some w"
  by (cases xs) (auto simp: pchain_def)

lemma outside_slot: "outside h a xs \<Longrightarrow> \<exists>w. slot_get h (Next_ptr a) = Some w"
  by (auto simp: outside_def slot_get_def)

lemma set_last_ok: "plists h l \<noteq> None \<Longrightarrow> \<exists>h'. on_list f h l = Some h'"
  by (auto simp: on_list_def)

text \<open>Another list with no common element is not touched.\<close>

lemma is_plist_frame:
  assumes "is_plist h m zs" "plists h' m = plists h m"
    and "\<And>z. z \<in> set zs \<Longrightarrow> slot_get h' (Next_ptr z) = slot_get h (Next_ptr z) \<and> prev_get h' z = prev_get h z"
  shows "is_plist h' m zs"
proof -
  have m: "slot_get h' (M_first m) = slot_get h (M_first m)" using assms(2) by (simp add: slot_get_def)
  have "pseg h' (M_first m) zs"
  proof (rule pseg_frame [of h])
    show "pseg h (M_first m) zs" using assms(1) by (simp add: is_plist_def pchain_def)
    show "slot_get h' t = slot_get h t" if "t \<in> set (butlast (M_first m # map Next_ptr zs))" for t
      using in_set_butlastD [OF that] assms(3) m by auto
  qed (use assms(3) in auto)
  moreover have "slot_get h' (end_slot (M_first m) zs) = slot_get h (end_slot (M_first m) zs)"
    using assms(3) m by (auto simp: end_slot_cases)
  ultimately show ?thesis using assms(1,2) by (simp add: is_plist_def pchain_def)
qed

text \<open>\<open>push_front\<close>, \<open>push_back\<close> and \<open>insert_after\<close> all link the element in at a slot: what they make of the
  store, and that it is a well-formed list again.\<close>

definition linked_in :: "pheap \<Rightarrow> pheap \<Rightarrow> nat \<Rightarrow> slot \<Rightarrow> nat \<Rightarrow> nat option \<Rightarrow> bool" where
  "linked_in h h' l s a nx \<longleftrightarrow>
     (\<forall>t. slot_get h' t = (if t = s then Some (Some a) else if t = Next_ptr a then Some nx else slot_get h t)) \<and>
     (\<forall>x. prev_get h' x = (if x = a then Some (Some s) else if nx = Some x then Some (Some (Next_ptr a)) else prev_get h x)) \<and>
     (\<exists>b f. plists h l = Some b \<and> plists h' l = Some (C_inc (if nx = None then I_set_last (Next_ptr a) (b\<lparr>m_first := f\<rparr>) else b\<lparr>m_first := f\<rparr>))) \<and>
     (\<forall>m. m \<noteq> l \<longrightarrow> plists h' m = plists h m)"

lemma linked_in_list:
  assumes "is_plist h l (xs @ ys)" "outside h a (xs @ ys)" "linked_in h h' l (end_slot (M_first l) xs) a (opt_hd ys)"
  shows "is_plist h' l (xs @ a # ys)"
proof -
  have d: "distinct (xs @ a # ys)" using assms(1,2) by (auto simp: is_plist_def outside_def)
  have "pchain h' (M_first l) (xs @ a # ys)"
    using assms(1,3) d by (intro pchain_insert [of h l xs ys a "end_slot (M_first l) xs"]) (auto simp: is_plist_def linked_in_def)
  moreover have "\<exists>b. plists h' l = Some b \<and> plist_meta b (end_slot (M_first l) (xs @ a # ys)) (length (xs @ a # ys))"
    using assms(1,3) by (cases ys) (auto simp: is_plist_def linked_in_def plist_meta_def C_inc_def I_set_last_def)
  ultimately show ?thesis using d by (simp add: is_plist_def)
qed

lemma linked_in_other:
  assumes "linked_in h h' l (end_slot (M_first l) xs) a (opt_hd ys)" "is_plist h m zs" "m \<noteq> l" "set zs \<inter> set (xs @ a # ys) = {}"
  shows "is_plist h' m zs"
proof (rule is_plist_frame [OF assms(2)])
  fix z assume z: "z \<in> set zs"
  have "Next_ptr z \<noteq> end_slot (M_first l) xs" using z assms(4) by (auto simp: end_slot_cases dest: last_in_set)
  moreover have "opt_hd ys \<noteq> Some z" using z assms(4) by (cases ys) auto
  ultimately show "slot_get h' (Next_ptr z) = slot_get h (Next_ptr z) \<and> prev_get h' z = prev_get h z"
    using assms(1,4) z by (auto simp: linked_in_def)
qed (use assms(1,3) in \<open>simp add: linked_in_def\<close>)

lemma set_back_ref:
  assumes "pchain h (M_first l) (xs @ ys)" "\<And>x. slot_get h x \<noteq> None \<Longrightarrow> slot_get h1 x \<noteq> None" "plists h1 l \<noteq> None"
  shows "\<exists>h2. (case opt_hd ys of Some x \<Rightarrow> prev_set h1 x v | None \<Rightarrow> on_list f h1 l) = Some h2"
proof (cases ys)
  case Nil
  then show ?thesis using assms(3) by (simp add: set_last_ok)
next
  case (Cons x zs)
  have "slot_get h (Next_ptr x) \<noteq> None" using assms(1) Cons by (cases zs) (auto simp: pchain_def pseg_append)
  then show ?thesis using assms(2) Cons prev_set_ok by fastforce
qed

lemma ipl_push_front_linked:
  assumes "is_plist h l ys" "outside h a ys"
  shows "\<exists>h'. ipl_push_front h l a = Some h' \<and> linked_in h h' l (M_first l) a (opt_hd ys)"
proof -
  obtain b where b: "plists h l = Some b" "pchain h (M_first l) ys" using assms(1) by (auto simp: is_plist_def)
  have f: "slot_get h (M_first l) = Some (opt_hd ys)" using pchain_slot [of h "M_first l" "[]" ys] b(2) by simp
  obtain h1 where h1: "slot_set h (Next_ptr a) (opt_hd ys) = Some h1" using outside_slot [OF assms(2)] slot_set_ok by blast
  have still: "slot_get h x \<noteq> None \<Longrightarrow> slot_get h1 x \<noteq> None" for x using slot_get_set [OF h1] by simp
  have p1: "plists h1 l \<noteq> None" using b(1) h1 by (simp add: meta_reads)
  have b3: "pchain h (M_first l) ([] @ ys)" using b(2) by simp
  obtain h2 where h2: "(case opt_hd ys of Some x \<Rightarrow> prev_set h1 x (Some (Next_ptr a)) | None \<Rightarrow> on_list (I_set_last (Next_ptr a)) h1 l) = Some h2"
    using set_back_ref [OF b3 still p1] by fastforce
  have r2: "slot_get h2 t = slot_get h1 t" for t
    using h2 by (cases ys) (auto simp: slot_get_prev_set slot_get_on_list)
  obtain h3 where h3: "slot_set h2 (M_first l) (Some a) = Some h3"
    using slot_set_ok [of h2 "M_first l"] r2 slot_get_set [OF h1] f by fastforce
  obtain h4 where h4: "prev_set h3 a (Some (M_first l)) = Some h4"
    using prev_set_ok [of h3 a] slot_get_set [OF h3] r2 slot_get_set [OF h1] by fastforce
  have "plists h4 l \<noteq> None" using b(1) h1 h2 h3 h4 by (cases ys) (auto simp: meta_reads)
  then obtain h5 where h5: "on_list C_inc h4 l = Some h5" using set_last_ok by blast
  have op: "ipl_push_front h l a = Some h5" using f h1 h2 h3 h4 h5 by (simp add: ipl_push_front_def)
  have sl: "slot_get h5 t = (if t = M_first l then Some (Some a) else if t = Next_ptr a then Some (opt_hd ys) else slot_get h t)" for t
    using slot_get_on_list [OF h5] slot_get_prev_set [OF h4] slot_get_set [OF h3] r2 slot_get_set [OF h1] by simp
  have pv: "prev_get h5 x = (if x = a then Some (Some (M_first l)) else if opt_hd ys = Some x then Some (Some (Next_ptr a)) else prev_get h x)" for x
    using prev_get_on_list [OF h5] prev_get_set [OF h4] prev_get_slot_set [OF h3] prev_get_slot_set [OF h1] h2
    by (cases ys) (auto simp: prev_get_set prev_get_on_list)
  have pl: "plists h5 l = Some (C_inc (if opt_hd ys = None then I_set_last (Next_ptr a) (b\<lparr>m_first := Some a\<rparr>) else b\<lparr>m_first := Some a\<rparr>))"
    using b(1) h1 h2 h3 h4 h5 by (cases b; cases ys) (auto simp: meta_reads I_set_last_def)
  have ot: "plists h5 m = plists h m" if "m \<noteq> l" for m
    using that h1 h2 h3 h4 h5 by (cases ys) (auto simp: meta_reads)
  show ?thesis using op sl pv pl ot b(1) unfolding linked_in_def by blast
qed

lemma end_slot_get: "is_plist h l (xs @ ys) \<Longrightarrow> slot_get h (end_slot (M_first l) xs) = Some (opt_hd ys)"
  using pchain_slot by (auto simp: is_plist_def)

lemma ipl_push_back_linked:
  assumes "is_plist h l xs" "outside h a xs" "fast_push_back (the (plists h l))"
  shows "\<exists>h'. ipl_push_back h l a = Some h' \<and> linked_in h h' l (end_slot (M_first l) xs) a None"
proof -
  let ?s = "end_slot (M_first l) xs"
  obtain b where b: "plists h l = Some b" "m_last b = ?s" "fast_push_back b"
    using assms(1,3) by (auto simp: is_plist_def plist_meta_def)
  have v: "slot_get h ?s = Some None" using end_slot_get [of h l xs "[]"] assms(1) by simp
  have na: "?s \<noteq> Next_ptr a" using assms(2) by (auto simp: end_slot_cases outside_def)
  obtain h1 where h1: "slot_set h (Next_ptr a) None = Some h1" using outside_slot [OF assms(2)] slot_set_ok by blast
  obtain h2 where h2: "slot_set h1 ?s (Some a) = Some h2"
    using slot_set_ok [of h1 ?s] slot_get_set [OF h1] v by fastforce
  obtain h3 where h3: "prev_set h2 a (Some ?s) = Some h3"
    using prev_set_ok [of h2 a] slot_get_set [OF h2] slot_get_set [OF h1] na by fastforce
  have "plists h3 l \<noteq> None" using b(1) h1 h2 h3 by (auto simp: meta_reads)
  then obtain h4 where h4: "on_list (I_set_last (Next_ptr a)) h3 l = Some h4" using set_last_ok by blast
  then have "plists h4 l \<noteq> None" by (auto simp: on_list_def)
  then obtain h5 where h5: "on_list C_inc h4 l = Some h5" using set_last_ok by blast
  have op: "ipl_push_back h l a = Some h5" using b v h1 h2 h3 h4 h5 by (simp add: ipl_push_back_def I_get_last_def)
  have sl: "slot_get h5 t = (if t = ?s then Some (Some a) else if t = Next_ptr a then Some None else slot_get h t)" for t
    using slot_get_on_list [OF h5] slot_get_on_list [OF h4] slot_get_prev_set [OF h3] slot_get_set [OF h2] slot_get_set [OF h1] by simp
  have pv: "prev_get h5 x = (if x = a then Some (Some ?s) else prev_get h x)" for x
    using prev_get_on_list [OF h5] prev_get_on_list [OF h4] prev_get_set [OF h3] prev_get_slot_set [OF h2] prev_get_slot_set [OF h1] by simp
  have pl: "\<exists>f. plists h5 l = Some (C_inc (I_set_last (Next_ptr a) (b\<lparr>m_first := f\<rparr>)))"
    using b(1) h1 h2 h3 h4 h5 by (auto simp: meta_reads) (metis I_P_List.surjective I_P_List.update_convs(1))
  have ot: "plists h5 m = plists h m" if "m \<noteq> l" for m
    using that h1 h2 h3 h4 h5 by (auto simp: meta_reads end_slot_cases split: if_splits)
  have "linked_in h h5 l ?s a None" unfolding linked_in_def using sl pv pl ot b(1) by simp
  with op show ?thesis by blast
qed

lemma ipl_insert_after_linked:
  assumes "is_plist h l (xs @ [p] @ ys)" "outside h a (xs @ [p] @ ys)"
  shows "\<exists>h'. ipl_insert_after h l (Some p) a = Some h' \<and> linked_in h h' l (Next_ptr p) a (opt_hd ys)"
proof -
  obtain b where b: "plists h l = Some b" "pchain h (M_first l) ((xs @ [p]) @ ys)" using assms(1) by (auto simp: is_plist_def)
  have v: "slot_get h (Next_ptr p) = Some (opt_hd ys)" using end_slot_get [of h l "xs @ [p]" ys] assms(1) by simp
  have na: "p \<noteq> a" "opt_hd ys \<noteq> Some a" using assms(2) by (cases ys; auto simp: outside_def)+
  obtain h1 where h1: "slot_set h (Next_ptr a) (opt_hd ys) = Some h1" using outside_slot [OF assms(2)] slot_set_ok by blast
  obtain h2 where h2: "prev_set h1 a (Some (Next_ptr p)) = Some h2"
    using prev_set_ok [of h1 a] slot_get_set [OF h1] by fastforce
  obtain h3 where h3: "slot_set h2 (Next_ptr p) (Some a) = Some h3"
    using slot_set_ok [of h2 "Next_ptr p"] slot_get_prev_set [OF h2] slot_get_set [OF h1] v by fastforce
  have r3: "slot_get h3 t = (if t = Next_ptr p then Some (Some a) else if t = Next_ptr a then Some (opt_hd ys) else slot_get h t)" for t
    using slot_get_set [OF h3] slot_get_prev_set [OF h2] slot_get_set [OF h1] by simp
  have w: "slot_get h3 (Next_ptr a) = Some (opt_hd ys)" using r3 na by simp
  have still: "slot_get h x \<noteq> None \<Longrightarrow> slot_get h3 x \<noteq> None" for x using r3 by simp
  have p1: "plists h3 l \<noteq> None" using b(1) h1 h2 h3 by (simp add: meta_reads)
  obtain h4 where h4: "(case opt_hd ys of Some x \<Rightarrow> prev_set h3 x (Some (Next_ptr a)) | None \<Rightarrow> on_list (I_set_last (Next_ptr a)) h3 l) = Some h4"
    using set_back_ref [OF b(2) still p1] by fastforce
  have "plists h4 l \<noteq> None" using p1 h4 by (cases ys) (auto simp: meta_reads)
  then obtain h5 where h5: "on_list C_inc h4 l = Some h5" using set_last_ok by blast
  have op: "ipl_insert_after h l (Some p) a = Some h5" using v h1 h2 h3 w h4 h5 by (simp add: ipl_insert_after_def)
  have r4: "slot_get h4 t = slot_get h3 t" for t
    using h4 by (cases ys) (auto simp: slot_get_prev_set slot_get_on_list)
  have sl: "slot_get h5 t = (if t = Next_ptr p then Some (Some a) else if t = Next_ptr a then Some (opt_hd ys) else slot_get h t)" for t
    using slot_get_on_list [OF h5] r4 r3 by simp
  have pv: "prev_get h5 x = (if x = a then Some (Some (Next_ptr p)) else if opt_hd ys = Some x then Some (Some (Next_ptr a)) else prev_get h x)" for x
    using prev_get_on_list [OF h5] prev_get_slot_set [OF h3] prev_get_set [OF h2] prev_get_slot_set [OF h1] h4 na
    by (cases ys) (auto simp: prev_get_set prev_get_on_list)
  have pl: "plists h5 l = Some (C_inc (if opt_hd ys = None then I_set_last (Next_ptr a) (b\<lparr>m_first := m_first b\<rparr>) else b\<lparr>m_first := m_first b\<rparr>))"
    using b(1) h1 h2 h3 h4 h5 by (cases ys) (auto simp: meta_reads)
  have ot: "plists h5 m = plists h m" if "m \<noteq> l" for m
    using that h1 h2 h3 h4 h5 by (cases ys) (auto simp: meta_reads)
  show ?thesis using op sl pv pl ot b(1) unfolding linked_in_def by blast
qed

definition linked_out :: "pheap \<Rightarrow> pheap \<Rightarrow> nat \<Rightarrow> slot \<Rightarrow> nat option \<Rightarrow> bool" where
  "linked_out h h' l s nx \<longleftrightarrow>
     (\<forall>t. slot_get h' t = (if t = s then Some nx else slot_get h t)) \<and>
     (\<forall>x. prev_get h' x = (if nx = Some x then Some (Some s) else prev_get h x)) \<and>
     (\<exists>b f. plists h l = Some b \<and> plists h' l = Some (C_dec (if nx = None then I_set_last s (b\<lparr>m_first := f\<rparr>) else b\<lparr>m_first := f\<rparr>))) \<and>
     (\<forall>m. m \<noteq> l \<longrightarrow> plists h' m = plists h m)"

lemma ipl_remove_linked:
  assumes "is_plist h l (xs @ a # ys)"
  shows "\<exists>h'. ipl_remove h l a = Some h' \<and> linked_out h h' l (end_slot (M_first l) xs) (opt_hd ys)"
proof -
  let ?s = "end_slot (M_first l) xs"
  obtain b where b: "plists h l = Some b" "pchain h (M_first l) ((xs @ [a]) @ ys)" "distinct (xs @ a # ys)"
    using assms by (auto simp: is_plist_def)
  have v: "slot_get h (Next_ptr a) = Some (opt_hd ys)" using end_slot_get [of h l "xs @ [a]" ys] assms by simp
  have p: "prev_get h a = Some (Some ?s)" using b(2) by (auto simp: pchain_def pseg_append)
  have na: "opt_hd ys \<noteq> Some a" using b(3) by (cases ys) auto
  have p1: "plists h l \<noteq> None" using b(1) by simp
  obtain h1 where h1: "(case opt_hd ys of Some x \<Rightarrow> prev_set h x (Some ?s) | None \<Rightarrow> on_list (I_set_last ?s) h l) = Some h1"
    using set_back_ref [OF b(2) _ p1] by fastforce
  have r1: "slot_get h1 t = slot_get h t" for t using h1 by (cases ys) (auto simp: slot_get_prev_set slot_get_on_list)
  have q1: "prev_get h1 x = (if opt_hd ys = Some x then Some (Some ?s) else prev_get h x)" for x
    using h1 by (cases ys) (auto simp: prev_get_set prev_get_on_list)
  obtain h2 where h2: "slot_set h1 ?s (opt_hd ys) = Some h2"
    using slot_set_ok [of h1 ?s] r1 end_slot_get [OF assms] by fastforce
  have "plists h2 l \<noteq> None" using p1 h1 h2 by (cases ys) (auto simp: meta_reads)
  then obtain h3 where h3: "on_list C_dec h2 l = Some h3" using set_last_ok by blast
  have pa: "prev_get h1 a = Some (Some ?s)" using q1 p na by simp
  have op: "ipl_remove h l a = Some h3"
    using v p h1 pa h2 h3 by (cases ys) (simp_all add: ipl_remove_def)
  have sl: "slot_get h3 t = (if t = ?s then Some (opt_hd ys) else slot_get h t)" for t
    using slot_get_on_list [OF h3] slot_get_set [OF h2] r1 by simp
  have pv: "prev_get h3 x = (if opt_hd ys = Some x then Some (Some ?s) else prev_get h x)" for x
    using prev_get_on_list [OF h3] prev_get_slot_set [OF h2] q1 by simp
  have pl: "\<exists>f. plists h3 l = Some (C_dec (if opt_hd ys = None then I_set_last ?s (b\<lparr>m_first := f\<rparr>) else b\<lparr>m_first := f\<rparr>))"
  proof (intro exI)
    show "plists h3 l = Some (C_dec (if opt_hd ys = None then I_set_last ?s (b\<lparr>m_first := (if xs = [] then opt_hd ys else m_first b)\<rparr>)
        else b\<lparr>m_first := (if xs = [] then opt_hd ys else m_first b)\<rparr>))"
      using b(1) h1 h2 h3 by (cases b; cases ys) (auto simp: meta_reads end_slot_cases I_set_last_def)
  qed
  have ot: "plists h3 m = plists h m" if "m \<noteq> l" for m
    using that h1 h2 h3 by (cases ys) (auto simp: meta_reads end_slot_cases split: if_splits)
  have "linked_out h h3 l ?s (opt_hd ys)" unfolding linked_out_def using sl pv pl ot b(1) by simp
  with op show ?thesis by blast
qed

lemma linked_out_list:
  assumes "is_plist h l (xs @ a # ys)" "linked_out h h' l (end_slot (M_first l) xs) (opt_hd ys)"
  shows "is_plist h' l (xs @ ys)"
proof -
  have d: "distinct (xs @ a # ys)" using assms(1) by (auto simp: is_plist_def)
  have "pchain h' (M_first l) (xs @ ys)"
    using assms d by (intro pchain_remove [of h l xs a ys "end_slot (M_first l) xs"]) (auto simp: is_plist_def linked_out_def)
  moreover have "\<exists>b. plists h' l = Some b \<and> plist_meta b (end_slot (M_first l) (xs @ ys)) (length (xs @ ys))"
    using assms by (cases ys) (auto simp: is_plist_def linked_out_def plist_meta_def C_dec_def I_set_last_def)
  ultimately show ?thesis using d by (simp add: is_plist_def)
qed

lemma linked_out_other:
  assumes "linked_out h h' l (end_slot (M_first l) xs) (opt_hd ys)" "is_plist h m zs" "m \<noteq> l" "set zs \<inter> set (xs @ ys) = {}"
  shows "is_plist h' m zs"
proof (rule is_plist_frame [OF assms(2)])
  fix z assume z: "z \<in> set zs"
  have "Next_ptr z \<noteq> end_slot (M_first l) xs" using z assms(4) by (auto simp: end_slot_cases dest: last_in_set)
  moreover have "opt_hd ys \<noteq> Some z" using z assms(4) by (cases ys) auto
  ultimately show "slot_get h' (Next_ptr z) = slot_get h (Next_ptr z) \<and> prev_get h' z = prev_get h z"
    using assms(1) by (auto simp: linked_out_def)
qed (use assms(1,3) in \<open>simp add: linked_out_def\<close>)

lemma ipl_pop_front_spec:
  "is_plist h l [] \<Longrightarrow> ipl_pop_front h l = Some (None, h)"
  "is_plist h l (x # xs) \<Longrightarrow> \<exists>h'. ipl_pop_front h l = Some (Some x, h') \<and> is_plist h' l xs"
proof -
  show "ipl_pop_front h l = Some (None, h)" if "is_plist h l []"
    using end_slot_get [of h l "[]" "[]"] that by (simp add: ipl_pop_front_def ipl_front_def)
  assume a: "is_plist h l (x # xs)"
  obtain h' where h': "ipl_remove h l x = Some h'" "linked_out h h' l (end_slot (M_first l) []) (opt_hd xs)"
    using ipl_remove_linked [of h l "[]" x xs] a by auto
  then have "is_plist h' l xs" using linked_out_list [of h l "[]" x xs h'] a by simp
  then show "\<exists>h'. ipl_pop_front h l = Some (Some x, h') \<and> is_plist h' l xs"
    using end_slot_get [of h l "[]" "x # xs"] a h'(1) by (simp add: ipl_pop_front_def ipl_front_def)
qed

subsection \<open>Iteration\<close>

lemma ipl_iterate:
  assumes "pchain h s xs" "ipl_current it = opt_hd xs"
  shows "repeatM (ipl_it_post h) (length xs) it = Some (map Some xs, it\<lparr>ipl_current := None\<rparr>)"
  using assms
proof (induction xs arbitrary: s it)
  case (Cons x xs)
  have c: "pchain h (Next_ptr x) xs" using Cons.prems(1) by (simp add: pchain_def)
  then have "slot_get h (Next_ptr x) = Some (opt_hd xs)" using pchain_slot [of h "Next_ptr x" "[]" xs] by simp
  then show ?case using Cons.IH [OF c, of "it\<lparr>ipl_current := opt_hd xs\<rparr>"] Cons.prems(2) by (simp add: ipl_it_post_def)
qed (cases it, simp)


lemma ipl_iterate_list:
  assumes "is_plist h l xs"
  shows "\<exists>it. ipl_it_init h l = Some it \<and>
    repeatM (ipl_it_post h) (Suc (length xs)) it = Some (map Some xs @ [None], it\<lparr>ipl_current := None\<rparr>)"
proof -
  have c: "pchain h (M_first l) xs" using assms by (simp add: is_plist_def)
  have f: "slot_get h (M_first l) = Some (opt_hd xs)" using end_slot_get [of h l "[]" xs] assms by simp
  have "repeatM (ipl_it_post h) (length xs + 1) \<lparr>ipl_list = l, ipl_current = opt_hd xs\<rparr> =
      Some (map Some xs @ [None], \<lparr>ipl_list = l, ipl_current = None\<rparr>)"
    unfolding repeatM_add using ipl_iterate [OF c, of "\<lparr>ipl_list = l, ipl_current = opt_hd xs\<rparr>"]
    by (simp add: ipl_it_post_def)
  then show ?thesis using f by (simp add: ipl_it_init_def)
qed

subsection \<open>The list contract\<close>

text \<open>The flag for fast insertion at the end never changes.\<close>

lemma linked_flags:
  "linked_in h h' l s a nx \<Longrightarrow> fast_push_back (the (plists h' l)) = fast_push_back (the (plists h l))"
  "linked_out h h' l s nx \<Longrightarrow> fast_push_back (the (plists h' l)) = fast_push_back (the (plists h l))"
  by (auto simp: linked_in_def linked_out_def split: if_splits)

definition linkable :: "pheap \<Rightarrow> nat \<Rightarrow> bool" where
  "linkable h a \<longleftrightarrow> slot_get h (Next_ptr a) \<noteq> None"

lemma outside_linkable: "outside h a xs \<longleftrightarrow> linkable h a \<and> a \<notin> set xs"
  by (auto simp: outside_def linkable_def slot_get_def)

lemma linked_in_linkable:
  assumes "linked_in h h' l (end_slot (M_first l) xs) a nx" "linkable h a" "is_plist h l (xs @ ys)"
  shows "linkable h' y = linkable h y"
proof -
  have "slot_get h (end_slot (M_first l) xs) \<noteq> None" using end_slot_get [OF assms(3)] by simp
  then show ?thesis using assms(1,2) by (auto simp: linked_in_def linkable_def)
qed

lemma linked_out_linkable:
  assumes "linked_out h h' l (end_slot (M_first l) xs) nx" "is_plist h l (xs @ ys)"
  shows "linkable h' y = linkable h y"
  using assms end_slot_get [OF assms(2)] by (auto simp: linked_out_def linkable_def)

lemma is_plist_linkable: "is_plist h l xs \<Longrightarrow> x \<in> set xs \<Longrightarrow> linkable h x"
proof -
  assume a: "is_plist h l xs" "x \<in> set xs"
  obtain ys zs where "xs = (ys @ [x]) @ zs" using split_list [OF a(2)] by auto
  then show "linkable h x" using end_slot_get [of h l "ys @ [x]" zs] a(1) by (simp add: linkable_def)
qed

definition fast_plist :: "bool \<Rightarrow> nat \<Rightarrow> pheap \<Rightarrow> nat list \<Rightarrow> bool" where
  "fast_plist fast l h xs \<longleftrightarrow> is_plist h l xs \<and> fast_push_back (the (plists h l)) = fast"

lemma fast_plist_push_front:
  assumes "fast_plist fast l s xs" "linkable s x" "x \<notin> set xs"
  shows "\<exists>s'. ipl_push_front s l x = Some s' \<and> fast_plist fast l s' (x # xs) \<and> (\<forall>y. linkable s' y = linkable s y)"
proof -
  have o: "is_plist s l xs" "outside s x xs" using assms by (auto simp: fast_plist_def outside_linkable)
  obtain s' where s': "ipl_push_front s l x = Some s'" "linked_in s s' l (end_slot (M_first l) []) x (opt_hd xs)"
    using ipl_push_front_linked [OF o] by auto
  then show ?thesis
    using linked_in_list [of s l "[]" xs x s'] linked_in_linkable [OF s'(2) assms(2), of xs] linked_flags(1) [OF s'(2)] o assms(1)
    by (auto simp: fast_plist_def)
qed

lemma fast_plist_remove:
  assumes "fast_plist fast l s (xs @ x # ys)"
  shows "\<exists>s'. ipl_remove s l x = Some s' \<and> fast_plist fast l s' (xs @ ys) \<and> (\<forall>y. linkable s' y = linkable s y)"
proof -
  have o: "is_plist s l (xs @ x # ys)" using assms by (simp add: fast_plist_def)
  obtain s' where s': "ipl_remove s l x = Some s'" "linked_out s s' l (end_slot (M_first l) xs) (opt_hd ys)"
    using ipl_remove_linked [OF o] by auto
  then show ?thesis
    using linked_out_list [OF o s'(2)] linked_out_linkable [OF s'(2) o] linked_flags(2) [OF s'(2)] assms
    by (auto simp: fast_plist_def)
qed

interpretation pl: element_list "fast_plist fast l" linkable "\<lambda>h. ipl_push_front h l" "\<lambda>h. ipl_remove h l" for fast l
proof
  show "distinct xs" if "fast_plist fast l s xs" for s xs using that by (simp add: fast_plist_def is_plist_def)
  show "linkable s x" if "fast_plist fast l s xs" "x \<in> set xs" for s xs x
    using that is_plist_linkable by (auto simp: fast_plist_def)
qed (fact fast_plist_push_front fast_plist_remove)+

interpretation plq: element_queue "fast_plist True l" linkable "\<lambda>h. ipl_push_front h l" "\<lambda>h. ipl_remove h l"
  "\<lambda>h. ipl_push_back h l" for l
proof
  fix s xs x
  assume a: "fast_plist True l s xs" "linkable s x" "x \<notin> set xs"
  then have o: "is_plist s l xs" "outside s x xs" "fast_push_back (the (plists s l))" by (auto simp: fast_plist_def outside_linkable)
  obtain s' where s': "ipl_push_back s l x = Some s'" "linked_in s s' l (end_slot (M_first l) xs) x (opt_hd [])"
    using ipl_push_back_linked [OF o] by auto
  then show "\<exists>s'. ipl_push_back s l x = Some s' \<and> fast_plist True l s' (xs @ [x]) \<and> (\<forall>y. linkable s' y = linkable s y)"
    using linked_in_list [of s l xs "[]" x s'] linked_in_linkable [OF s'(2) a(2), of "[]"] linked_flags(1) [OF s'(2)] o
    by (auto simp: fast_plist_def)
qed

subsection \<open>New, emptied and swapped lists\<close>

lemma ipl_new_is_plist: "is_plist (ipl_new cnt fast h l) l []"
  by (simp add: is_plist_def ipl_new_def pchain_def slot_get_def plist_meta_def)

lemma ipl_empty_is_plist:
  assumes "plists h l = Some b"
  shows "\<exists>h'. ipl_empty h l = Some h' \<and> is_plist h' l [] \<and> pelems h' = pelems h"
  using assms
  by (simp add: ipl_empty_def on_list_def is_plist_def pchain_def slot_get_def plist_meta_def C_reset_def I_set_last_def)


lemma pchain_rebase:
  assumes "pchain h (M_first r) ys" "distinct ys" "slot_get h' (M_first l) = Some (opt_hd ys)"
    and sl: "\<And>y. y \<in> set ys \<Longrightarrow> slot_get h' (Next_ptr y) = slot_get h (Next_ptr y)"
    and pv: "\<And>y. y \<in> set ys \<Longrightarrow> prev_get h' y = (if opt_hd ys = Some y then Some (Some (M_first l)) else prev_get h y)"
  shows "pchain h' (M_first l) ys"
proof (cases ys)
  case Nil
  then show ?thesis using assms(3) by (simp add: pchain_def)
next
  case (Cons y zs)
  have c: "pseg h (Next_ptr y) zs" "slot_get h (end_slot (Next_ptr y) zs) = Some None" using assms(1) Cons by (auto simp: pchain_def)
  have "pseg h' (Next_ptr y) zs"
  proof (rule pseg_frame [OF c(1)])
    fix t assume "t \<in> set (butlast (Next_ptr y # map Next_ptr zs))"
    from in_set_butlastD [OF this] show "slot_get h' t = slot_get h t" using sl Cons by auto
  next
    fix x assume "x \<in> set zs"
    then show "prev_get h' x = prev_get h x" using pv assms(2) Cons by auto
  qed
  moreover have "slot_get h' (end_slot (Next_ptr y) zs) = Some None"
    using c(2) sl [of "last ys"] Cons by (auto simp: end_slot_cases split: if_splits)
  ultimately show ?thesis using assms(3) pv [of y] Cons by (simp add: pchain_def)
qed

text \<open>What remains of a back reference update in \<open>swap\<close> when the list has no fast insertion at the end.\<close>

definition rebase :: "nat list \<Rightarrow> nat \<Rightarrow> pheap \<Rightarrow> pheap" where
  "rebase xs l h = (case xs of [] \<Rightarrow> h | x # _ \<Rightarrow> h\<lparr>pelems := (pelems h)(x \<mapsto> (the (pelems h x))\<lparr>pl_prev := Some (M_first l)\<rparr>)\<rparr>)"

lemma rebase_reads:
  "plists (rebase xs l h) = plists h"
  "\<forall>x \<in> set xs. pelems h x \<noteq> None \<Longrightarrow> slot_get (rebase xs l h) s = slot_get h s"
  "prev_get (rebase xs l h) y = (if opt_hd xs = Some y then Some (Some (M_first l)) else prev_get h y)"
  by (auto simp: rebase_def slot_get_def prev_get_def split: list.splits slot.splits)

lemma rebase_step:
  assumes "\<forall>x \<in> set xs. pelems h x \<noteq> None" "plists h k = Some b" "\<not> fast_push_back b"
  shows "(case opt_hd xs of Some x \<Rightarrow> prev_set h x (Some (M_first l)) | None \<Rightarrow> on_list (I_set_last s) h k) = Some (rebase xs l h)"
proof (cases xs)
  case Nil
  have "(plists h)(k \<mapsto> b) = plists h" using assms(2) by (simp add: fun_upd_idem)
  then show ?thesis using Nil assms(2,3) by (simp add: rebase_def on_list_def I_set_last_def)
next
  case (Cons x xs)
  then show ?thesis using assms(1) by (auto simp: rebase_def prev_set_def)
qed

lemma is_plist_elems: "is_plist h l xs \<Longrightarrow> \<forall>x \<in> set xs. pelems h x \<noteq> None"
  using is_plist_linkable by (fastforce simp: linkable_def slot_get_def)

lemma is_plist_first: "is_plist h l xs \<Longrightarrow> \<exists>b. plists h l = Some b \<and> m_first b = opt_hd xs \<and>
    (counting b \<longrightarrow> m_counter b = of_nat (length xs))"
  using end_slot_get [of h l "[]" xs] by (auto simp: is_plist_def plist_meta_def slot_get_def)

lemma ipl_swap_spec:
  assumes "is_plist h l xs" "is_plist h r ys" "l \<noteq> r" "set xs \<inter> set ys = {}"
    and "\<not> fast_push_back (the (plists h l))" "\<not> fast_push_back (the (plists h r))"
    and "counting (the (plists h l)) = counting (the (plists h r))"
  shows "\<exists>h'. ipl_swap h l r = Some h' \<and> is_plist h' l ys \<and> is_plist h' r xs"
proof -
  obtain b where b: "plists h l = Some b" "m_first b = opt_hd xs" "counting b \<Longrightarrow> m_counter b = of_nat (length xs)"
    using is_plist_first [OF assms(1)] by auto
  obtain c where c: "plists h r = Some c" "m_first c = opt_hd ys" "counting c \<Longrightarrow> m_counter c = of_nat (length ys)"
    using is_plist_first [OF assms(2)] by auto
  have fl: "\<not> fast_push_back b" "\<not> fast_push_back c" "counting b = counting c" using assms b(1) c(1) by auto
  define h1 where "h1 = h\<lparr>plists := (plists h)(l \<mapsto> b\<lparr>m_first := opt_hd ys\<rparr>, r \<mapsto> c\<lparr>m_first := opt_hd xs\<rparr>)\<rparr>"
  define h3 where "h3 = rebase xs r (rebase ys l h1)"
  let ?cs = "C_swap (b\<lparr>m_first := opt_hd ys\<rparr>) (c\<lparr>m_first := opt_hd xs\<rparr>)"
  define h4 where "h4 = h3\<lparr>plists := (plists h3)(l \<mapsto> fst ?cs, r \<mapsto> snd ?cs)\<rparr>"
  have e1: "\<forall>x \<in> set ys. pelems h1 x \<noteq> None" "\<forall>x \<in> set xs. pelems h1 x \<noteq> None"
    using is_plist_elems [OF assms(1)] is_plist_elems [OF assms(2)] by (auto simp: h1_def)
  have e2: "\<forall>x \<in> set xs. pelems (rebase ys l h1) x \<noteq> None" using e1 by (auto simp: rebase_def split: list.splits)
  have l1: "plists h1 l = Some (b\<lparr>m_first := opt_hd ys\<rparr>)" "plists h1 r = Some (c\<lparr>m_first := opt_hd xs\<rparr>)"
    using assms(3) by (simp_all add: h1_def)
  have s1: "(case opt_hd ys of Some x \<Rightarrow> prev_set h1 x (Some (M_first l)) | None \<Rightarrow> on_list (I_set_last (M_first l)) h1 l) = Some (rebase ys l h1)"
    by (rule rebase_step [OF e1(1) l1(1)]) (use fl in simp)
  have s2: "(case opt_hd xs of Some x \<Rightarrow> prev_set (rebase ys l h1) x (Some (M_first r)) | None \<Rightarrow> on_list (I_set_last (M_first r)) (rebase ys l h1) l) = Some h3"
    unfolding h3_def by (rule rebase_step [OF e2, of l "b\<lparr>m_first := opt_hd ys\<rparr>"]) (use fl l1 in \<open>simp_all add: rebase_reads\<close>)
  have op: "ipl_swap h l r = Some h4"
  proof -
    have sw: "I_swap (b\<lparr>m_first := m_first c\<rparr>) (c\<lparr>m_first := m_first b\<rparr>) = (b\<lparr>m_first := opt_hd ys\<rparr>, c\<lparr>m_first := opt_hd xs\<rparr>)"
      using b(2) c(2) fl by (simp add: I_swap_def)
    have "ipl_swap h l r = do {
        h2 \<leftarrow> (case opt_hd ys of Some x \<Rightarrow> prev_set h1 x (Some (M_first l)) | None \<Rightarrow> on_list (I_set_last (M_first l)) h1 l);
        h3 \<leftarrow> (case opt_hd xs of Some x \<Rightarrow> prev_set h2 x (Some (M_first r)) | None \<Rightarrow> on_list (I_set_last (M_first r)) h2 l);
        b3 \<leftarrow> plists h3 l; r3 \<leftarrow> plists h3 r;
        Some (h3\<lparr>plists := (plists h3)(l \<mapsto> fst (C_swap b3 r3), r \<mapsto> snd (C_swap b3 r3))\<rparr>)}"
      by (simp add: ipl_swap_def b(1) c(1) sw h1_def [symmetric] split_beta)
    then show ?thesis using l1 by (simp add: s1 s2) (simp add: h3_def h4_def rebase_reads)
  qed
  have sl: "slot_get h4 (Next_ptr x) = slot_get h (Next_ptr x)" for x
  proof -
    have "slot_get h4 (Next_ptr x) = slot_get h3 (Next_ptr x)" by (simp add: h4_def slot_get_def)
    then show ?thesis using e1 e2 by (simp add: h3_def rebase_reads) (simp add: h1_def slot_get_def)
  qed
  have pv: "prev_get h4 x = (if opt_hd xs = Some x then Some (Some (M_first r)) else if opt_hd ys = Some x then Some (Some (M_first l)) else prev_get h x)" for x
  proof -
    have "prev_get h4 x = prev_get h3 x" "prev_get h1 x = prev_get h x" by (simp_all add: h4_def h1_def prev_get_def)
    then show ?thesis by (simp add: h3_def rebase_reads)
  qed
  have m: "plists h4 l = Some (fst ?cs)" "plists h4 r = Some (snd ?cs)" using assms(3) by (simp_all add: h4_def)
  have hd: "opt_hd xs \<noteq> Some y" if "y \<in> set ys" for y using that assms(4) by (cases xs) auto
  have hd': "opt_hd ys \<noteq> Some x" if "x \<in> set xs" for x using that assms(4) by (cases ys) auto
  have d: "distinct xs" "distinct ys" "pchain h (M_first l) xs" "pchain h (M_first r) ys" using assms(1,2) by (auto simp: is_plist_def)
  have "pchain h4 (M_first l) ys"
    by (rule pchain_rebase [OF d(4,2)]) (use m sl pv hd in \<open>auto simp: slot_get_def C_swap_def\<close>)
  moreover have "pchain h4 (M_first r) xs"
    by (rule pchain_rebase [OF d(3,1)]) (use m sl pv hd' in \<open>auto simp: slot_get_def C_swap_def\<close>)
  ultimately have "is_plist h4 l ys" "is_plist h4 r xs"
    using m d fl b(3) c(3) by (auto simp: is_plist_def plist_meta_def C_swap_def)
  with op show ?thesis by blast
qed


subsection \<open>Properties\<close>

text \<open>A store of unlinked elements with two lists.\<close>

definition pheap0 :: "bool \<Rightarrow> bool \<Rightarrow> pheap" where
  "pheap0 cnt fast = ipl_new cnt fast (ipl_new cnt fast
     \<lparr>pelems = (\<lambda>_. Some \<lparr>pl_next = None, pl_prev = None\<rparr>), plists = (\<lambda>_. None)\<rparr> 0) 1"

lemma pheap0_lists: "fast_plist fast 0 (pheap0 cnt fast) []" "fast_plist fast 1 (pheap0 cnt fast) []"
  by (simp_all add: pheap0_def ipl_new_def fast_plist_def is_plist_def pchain_def slot_get_def plist_meta_def)

lemma pheap0_linkable: "linkable (pheap0 cnt fast) a"
  by (simp add: pheap0_def ipl_new_def linkable_def slot_get_def)

text \<open>
  In a well-formed list an unlinked element can be put behind any element (or in front, behind no
  element): \<open>insert_after\<close> gives the list with the element at that place, its count and its reference
  to the last link are right, and \<open>remove\<close>, which is given nothing but the element, takes it out again.
  Neither touches another list with other elements.
\<close>

theorem plist_insert_remove:
  assumes "is_plist h l (xs @ ys)" "outside h a (xs @ ys)"
    and "is_plist h m zs" "m \<noteq> l" "set zs \<inter> set (xs @ a # ys) = {}"
  shows "\<exists>h1 h2. ipl_insert_after h l (if xs = [] then None else Some (last xs)) a = Some h1 \<and>
    is_plist h1 l (xs @ a # ys) \<and> is_plist h1 m zs \<and>
    ipl_remove h1 l a = Some h2 \<and> is_plist h2 l (xs @ ys) \<and> is_plist h2 m zs"
proof -
  obtain h1 where h1: "ipl_insert_after h l (if xs = [] then None else Some (last xs)) a = Some h1"
      "linked_in h h1 l (end_slot (M_first l) xs) a (opt_hd ys)"
  proof (cases xs rule: rev_cases)
    case Nil
    then show ?thesis using that ipl_push_front_linked [of h l ys a] assms(1,2) by (auto simp: ipl_insert_after_def)
  next
    case (snoc ws p)
    then show ?thesis using that ipl_insert_after_linked [of h l ws p ys a] assms(1,2) by auto
  qed
  have l1: "is_plist h1 l (xs @ a # ys)" "is_plist h1 m zs"
    using linked_in_list [OF assms(1,2) h1(2)] linked_in_other [OF h1(2) assms(3-5)] by auto
  obtain h2 where h2: "ipl_remove h1 l a = Some h2" "linked_out h1 h2 l (end_slot (M_first l) xs) (opt_hd ys)"
    using ipl_remove_linked [OF l1(1)] by auto
  have "is_plist h2 l (xs @ ys)" "is_plist h2 m zs"
    using linked_out_list [OF l1(1) h2(2)] linked_out_other [OF h2(2) l1(2) assms(4)] assms(5) by auto
  then show ?thesis using h1(1) l1 h2(1) by blast
qed

theorem plist_insert_remove_witness:
  "\<exists>h h1. foldM (\<lambda>h. ipl_push_back h 0) [5, 7] (pheap0 True True) = Some h \<and>
    ipl_insert_after h 0 (Some 5) 6 = Some h1 \<and> is_plist h1 0 [5, 6, 7] \<and> is_plist h1 1 []"
proof -
  obtain h where h: "foldM (\<lambda>h. ipl_push_back h 0) [5, 7] (pheap0 True True) = Some h" "fast_plist True 0 h [5, 7]"
      "\<forall>y. linkable h y"
    using plq.enqueue_all [OF pheap0_lists(1), of "[5, 7]" True] pheap0_linkable by auto
  have p: "is_plist h 0 ([5] @ [7])" "outside h 6 ([5] @ [7])" using h by (simp_all add: fast_plist_def outside_linkable)
  have "h = the (foldM (\<lambda>h. ipl_push_back h 0) [5, 7] (pheap0 True True))" using h(1) by simp
  then have "plists h 1 = Some \<lparr>m_first = None, m_counter = 0, m_last = M_first 1, counting = True, fast_push_back = True\<rparr>"
    by (simp add: pheap0_def ipl_new_def ipl_push_back_def slot_get_def slot_set_def prev_set_def on_list_def I_get_last_def
        I_set_last_def C_inc_def)
  then have "is_plist h 1 []" by (simp add: is_plist_def pchain_def slot_get_def plist_meta_def)
  from plist_insert_remove [OF p this] show ?thesis using h(1) by auto
qed

text \<open>
  A list with fast insertion at the end is a queue whose elements can be cancelled: after
  \<open>push_back\<close> of distinct unlinked elements and \<open>remove\<close> of some of them in any order, the
  iterator yields the others in the order of arrival and then null for ever, and \<open>pop_front\<close> takes the
  first of them.
\<close>

theorem plist_queue:
  assumes "fast_plist True l h []" "distinct xs" "\<forall>x \<in> set xs. linkable h x" "distinct ys" "set ys \<subseteq> set xs"
    and "filter (\<lambda>x. x \<notin> set ys) xs = z # zs"
  shows "\<exists>h1 h2 it h3. foldM (\<lambda>h. ipl_push_back h l) xs h = Some h1 \<and> foldM (\<lambda>h. ipl_remove h l) ys h1 = Some h2 \<and>
    ipl_it_init h2 l = Some it \<and>
    repeatM (ipl_it_post h2) (Suc (length (z # zs))) it = Some (map Some (z # zs) @ [None], it\<lparr>ipl_current := None\<rparr>) \<and>
    ipl_pop_front h2 l = Some (Some z, h3) \<and> is_plist h3 l zs"
proof -
  obtain h1 h2 where h: "foldM (\<lambda>h. ipl_push_back h l) xs h = Some h1" "foldM (\<lambda>h. ipl_remove h l) ys h1 = Some h2"
      "fast_plist True l h2 (z # zs)"
    using plq.enqueue_cancel [OF assms(1-5)] unfolding assms(6) by blast
  then have p: "is_plist h2 l (z # zs)" by (simp add: fast_plist_def)
  show ?thesis using h(1,2) ipl_iterate_list [OF p] ipl_pop_front_spec(2) [OF p] by blast
qed

theorem plist_queue_witness:
  "\<exists>h1 h2 h3. foldM (\<lambda>h. ipl_push_back h 0) [5, 6, 7, 8] (pheap0 True True) = Some h1 \<and>
    foldM (\<lambda>h. ipl_remove h 0) [8, 6] h1 = Some h2 \<and> ipl_pop_front h2 0 = Some (Some 5, h3) \<and> is_plist h3 0 [7]"
proof -
  have 1: "distinct [5, 6, 7, 8 :: nat]" "\<forall>x \<in> set [5, 6, 7, 8]. linkable (pheap0 True True) x" "distinct [8, 6 :: nat]"
    "set [8, 6] \<subseteq> set [5, 6, 7, 8 :: nat]" using pheap0_linkable by auto
  have 2: "filter (\<lambda>x. x \<notin> set [8, 6]) [5, 6, 7, 8 :: nat] = 5 # [7]" by simp
  show ?thesis using plist_queue [OF pheap0_lists(1) 1 2] by blast
qed

text \<open>
  \<open>swap\<close> exchanges the elements of two lists without fast insertion at the end, and their counts;
  the first elements refer back to their new list.
\<close>

theorem plist_swap:
  assumes "is_plist h l xs" "is_plist h r ys" "l \<noteq> r" "set xs \<inter> set ys = {}"
    and "\<not> fast_push_back (the (plists h l))" "\<not> fast_push_back (the (plists h r))"
    and "counting (the (plists h l)) = counting (the (plists h r))"
  shows "\<exists>h'. ipl_swap h l r = Some h' \<and> is_plist h' l ys \<and> is_plist h' r xs"
  by (rule ipl_swap_spec [OF assms])

theorem plist_swap_witness:
  "\<exists>h h'. foldM (\<lambda>h. ipl_push_front h 0) [7, 5] (pheap0 True False) = Some h \<and>
    ipl_swap h 0 1 = Some h' \<and> is_plist h' 0 [] \<and> is_plist h' 1 [5, 7]"
proof -
  obtain h where h: "foldM (\<lambda>h. ipl_push_front h 0) [7, 5] (pheap0 True False) = Some h" "fast_plist False 0 h [5, 7]"
    using pl.push_all [OF pheap0_lists(1) [of False True], of "[7, 5]"] pheap0_linkable by auto
  have "h = the (foldM (\<lambda>h. ipl_push_front h 0) [7, 5] (pheap0 True False))" using h(1) by simp
  then have m: "plists h 1 = Some \<lparr>m_first = None, m_counter = 0, m_last = M_first 1, counting = True, fast_push_back = False\<rparr>"
      "counting (the (plists h 0))"
    by (simp_all add: pheap0_def ipl_new_def ipl_push_front_def slot_get_def slot_set_def prev_set_def on_list_def I_get_last_def
        I_set_last_def C_inc_def)
  have p: "is_plist h 0 [5, 7]" "is_plist h 1 []" "(0::nat) \<noteq> 1" "set [5, 7] \<inter> set [] = {}" "\<not> fast_push_back (the (plists h 0))"
    "\<not> fast_push_back (the (plists h 1))" "counting (the (plists h 0)) = counting (the (plists h 1))"
    using h(2) m by (auto simp: fast_plist_def is_plist_def pchain_def slot_get_def plist_meta_def)
  show ?thesis using plist_swap [OF p] h(1) by blast
qed

end
