(* ===== verification/LinkRings.thy ===== *)
theory LinkRings
  imports Prelude
begin

text \<open>
  Circular doubly linked chains, over any type of nodes: the links are two partial functions \<open>nx\<close> and
  \<open>pv\<close>, and the header \<open>s\<close> of a ring is the node that closes it. The lists of \<open>intrusive_list.h\<close> are rings
  around their sentinel, the chain of recently used entries of \<open>hash_filo.h\<close> is a ring around the pair of
  its end pointers.
\<close>

definition rlink :: "('n \<Rightarrow> 'n option) \<Rightarrow> ('n \<Rightarrow> 'n option) \<Rightarrow> 'n \<Rightarrow> 'n \<Rightarrow> bool" where
  "rlink nx pv a b \<longleftrightarrow> nx a = Some b \<and> pv b = Some a"

fun rlinked :: "('n \<Rightarrow> 'n option) \<Rightarrow> ('n \<Rightarrow> 'n option) \<Rightarrow> 'n list \<Rightarrow> bool" where
  "rlinked nx pv [] = True"
| "rlinked nx pv [a] = True"
| "rlinked nx pv (a # b # rest) = (rlink nx pv a b \<and> rlinked nx pv (b # rest))"

lemma rlinked_split: "rlinked nx pv (us @ a # vs) \<longleftrightarrow> rlinked nx pv (us @ [a]) \<and> rlinked nx pv (a # vs)"
proof (induction us)
  case (Cons u us)
  then show ?case by (cases us) auto
qed simp

lemma rlinked_frame:
  assumes "rlinked nx pv us" "\<And>a. a \<in> set (butlast us) \<Longrightarrow> nx' a = nx a" "\<And>a. a \<in> set (tl us) \<Longrightarrow> pv' a = pv a"
  shows "rlinked nx' pv' us"
  using assms
proof (induction nx pv us rule: rlinked.induct)
  case (3 nx pv a b rest)
  then show ?case by (auto simp: rlink_def)
qed auto

subsection \<open>Insertion into and removal from a chain\<close>

text \<open>The nodes of the chain are distinct up to its two ends.\<close>

lemma gap_distinct:
  assumes "distinct (butlast (us @ a # b # vs))" "distinct (tl (us @ a # b # vs))"
  shows "a \<notin> set us" "a \<notin> set (butlast (b # vs))" "b \<notin> set (tl (us @ [a]))" "b \<notin> set vs"
proof -
  have "butlast (us @ a # b # vs) = us @ a # butlast (b # vs)" by (simp add: butlast_append)
  then show "a \<notin> set us" "a \<notin> set (butlast (b # vs))" using assms(1) by auto
  show "b \<notin> set (tl (us @ [a]))" "b \<notin> set vs" using assms(2) by (cases us; auto)+
qed

lemma rlinked_sides:
  assumes "rlinked nx pv (us @ [a])" "rlinked nx pv (b # vs)" "v \<notin> set (us @ a # b # vs)"
    and d: "distinct (butlast (us @ a # b # vs))" "distinct (tl (us @ a # b # vs))"
  shows "rlinked (nx(a := x, v := y)) (pv(b := z, v := w)) (us @ [a])" "rlinked (nx(a := x, v := y)) (pv(b := z, v := w)) (b # vs)"
proof -
  note g = gap_distinct [OF d]
  show "rlinked (nx(a := x, v := y)) (pv(b := z, v := w)) (us @ [a])"
  proof (rule rlinked_frame [OF assms(1)])
    fix p assume "p \<in> set (butlast (us @ [a]))"
    then have p: "p \<in> set us" by simp
    have "p \<noteq> v" "p \<noteq> a" using p g(1) assms(3) by auto
    then show "(nx(a := x, v := y)) p = nx p" by simp
  next
    fix p assume p: "p \<in> set (tl (us @ [a]))"
    have "p \<noteq> b" using p g(3) by blast
    moreover have "p \<noteq> v" using p assms(3) by (cases us) auto
    ultimately show "(pv(b := z, v := w)) p = pv p" by simp
  qed
  show "rlinked (nx(a := x, v := y)) (pv(b := z, v := w)) (b # vs)"
  proof (rule rlinked_frame [OF assms(2)])
    fix p assume p: "p \<in> set (butlast (b # vs))"
    have "p \<noteq> a" using p g(2) by blast
    moreover have "p \<noteq> v" using in_set_butlastD [OF p] assms(3) by auto
    ultimately show "(nx(a := x, v := y)) p = nx p" by simp
  next
    fix p assume "p \<in> set (tl (b # vs))"
    then have p: "p \<in> set vs" by simp
    have "p \<noteq> v" "p \<noteq> b" using p g(4) assms(3) by auto
    then show "(pv(b := z, v := w)) p = pv p" by simp
  qed
qed

subsection \<open>Rings\<close>

definition cyc :: "'n \<Rightarrow> 'n list \<Rightarrow> 'n list" where
  "cyc s xs = s # xs @ [s]"

definition is_cyc :: "('n \<Rightarrow> 'n option) \<Rightarrow> ('n \<Rightarrow> 'n option) \<Rightarrow> 'n \<Rightarrow> 'n list \<Rightarrow> bool" where
  "is_cyc nx pv s xs \<longleftrightarrow> distinct (s # xs) \<and> rlinked nx pv (cyc s xs)"

text \<open>The node before a gap and the node after it.\<close>

definition pre :: "'n \<Rightarrow> 'n list \<Rightarrow> 'n" where
  "pre s xs = last (s # xs)"

definition post :: "'n \<Rightarrow> 'n list \<Rightarrow> 'n" where
  "post s ys = hd (ys @ [s])"

lemma pre_post [simp]: "pre s [] = s" "pre s (xs @ [x]) = x" "post s [] = s" "post s (x # xs) = x"
  by (simp_all add: pre_def post_def)

lemma gap_nodes: "pre s xs \<in> set (s # xs)" "post s ys \<in> set (s # ys)"
  by (cases xs rule: rev_cases; simp) (cases ys; simp)

lemma cyc_gap:
  "cyc s (xs @ ys) = butlast (s # xs) @ pre s xs # post s ys # tl (ys @ [s])"
  "cyc s (xs @ v # ys) = butlast (s # xs) @ pre s xs # v # post s ys # tl (ys @ [s])"
proof -
  have a: "butlast (s # xs) @ [pre s xs] = s # xs" unfolding pre_def by (rule append_butlast_last_id) simp
  have b: "post s ys # tl (ys @ [s]) = ys @ [s]" by (simp add: post_def)
  have "cyc s (xs @ ys) = (butlast (s # xs) @ [pre s xs]) @ post s ys # tl (ys @ [s])" unfolding a b by (simp add: cyc_def)
  then show "cyc s (xs @ ys) = butlast (s # xs) @ pre s xs # post s ys # tl (ys @ [s])" by (simp only: append_assoc append.simps)
  have "cyc s (xs @ v # ys) = (butlast (s # xs) @ [pre s xs]) @ v # post s ys # tl (ys @ [s])" unfolding a b by (simp add: cyc_def)
  then show "cyc s (xs @ v # ys) = butlast (s # xs) @ pre s xs # v # post s ys # tl (ys @ [s])"
    by (simp only: append_assoc append.simps)
qed

lemma cyc_distinct:
  assumes "distinct (s # xs)"
  shows "distinct (butlast (cyc s xs))" "distinct (tl (cyc s xs))" "set (cyc s xs) = set (s # xs)"
  using assms by (auto simp: cyc_def butlast_append)

lemma is_cyc_links:
  "is_cyc nx pv s (xs @ ys) \<Longrightarrow> rlink nx pv (pre s xs) (post s ys)"
  "is_cyc nx pv s (xs @ v # ys) \<Longrightarrow> rlink nx pv (pre s xs) v \<and> rlink nx pv v (post s ys)"
proof -
  show "rlink nx pv (pre s xs) (post s ys)" if "is_cyc nx pv s (xs @ ys)"
  proof -
    have "rlinked nx pv (cyc s (xs @ ys))" using that by (simp add: is_cyc_def)
    then show ?thesis unfolding cyc_gap(1) by (subst (asm) rlinked_split) simp
  qed
  assume "is_cyc nx pv s (xs @ v # ys)"
  then have "rlinked nx pv (cyc s (xs @ v # ys))" by (simp add: is_cyc_def)
  then show "rlink nx pv (pre s xs) v \<and> rlink nx pv v (post s ys)"
    unfolding cyc_gap(2) by (subst (asm) rlinked_split) simp
qed

lemma is_cyc_insert:
  assumes "is_cyc nx pv s (xs @ ys)" "v \<notin> set (s # xs @ ys)"
  shows "is_cyc (nx(pre s xs := Some v, v := Some (post s ys))) (pv(post s ys := Some v, v := Some (pre s xs))) s (xs @ v # ys)"
    (is "is_cyc ?nx ?pv s _")
proof -
  let ?us = "butlast (s # xs)" and ?vs = "tl (ys @ [s])" and ?a = "pre s xs" and ?b = "post s ys"
  have d: "distinct (s # xs @ ys)" "rlinked nx pv (?us @ ?a # ?b # ?vs)"
    using assms(1) by (simp_all only: is_cyc_def cyc_gap(1))
  have v: "v \<notin> set (?us @ ?a # ?b # ?vs)"
    using assms(2) cyc_distinct(3) [OF d(1)] unfolding cyc_gap(1) [of s xs ys, symmetric] by simp
  have dd: "distinct (butlast (?us @ ?a # ?b # ?vs))" "distinct (tl (?us @ ?a # ?b # ?vs))"
    using cyc_distinct(1,2) [OF d(1)] unfolding cyc_gap(1) by simp_all
  have l: "rlinked nx pv (?us @ [?a])" "rlinked nx pv (?b # ?vs)"
    using d(2) rlinked_split [of nx pv ?us ?a "?b # ?vs"] by simp_all
  have s: "rlinked ?nx ?pv (?us @ [?a])" "rlinked ?nx ?pv (?b # ?vs)"
    by (rule rlinked_sides [OF l v dd])+
  have "?a \<noteq> v" "?b \<noteq> v" using v by auto
  then have "rlink ?nx ?pv ?a v" "rlink ?nx ?pv v ?b" by (simp_all add: rlink_def)
  then have "rlinked ?nx ?pv (cyc s (xs @ v # ys))"
    unfolding cyc_gap(2) using s rlinked_split [of ?nx ?pv ?us ?a "v # ?b # ?vs"] by simp
  then show ?thesis using d(1) assms(2) by (auto simp: is_cyc_def)
qed

text \<open>The links of the removed node do not matter.\<close>

lemma is_cyc_remove:
  assumes "is_cyc nx pv s (xs @ v # ys)"
  shows "is_cyc (nx(pre s xs := Some (post s ys), v := y)) (pv(post s ys := Some (pre s xs), v := w)) s (xs @ ys)"
    (is "is_cyc ?nx ?pv s _")
proof -
  let ?us = "butlast (s # xs)" and ?vs = "tl (ys @ [s])" and ?a = "pre s xs" and ?b = "post s ys"
  have d: "distinct (s # xs @ v # ys)" "rlinked nx pv (?us @ ?a # v # ?b # ?vs)"
    using assms by (simp_all only: is_cyc_def cyc_gap(2))
  have d': "distinct (s # xs @ ys)" "v \<notin> set (s # xs @ ys)" using d(1) by auto
  have v: "v \<notin> set (?us @ ?a # ?b # ?vs)"
    using d'(2) cyc_distinct(3) [OF d'(1)] unfolding cyc_gap(1) [of s xs ys, symmetric] by simp
  have dd: "distinct (butlast (?us @ ?a # ?b # ?vs))" "distinct (tl (?us @ ?a # ?b # ?vs))"
    using cyc_distinct(1,2) [OF d'(1)] unfolding cyc_gap(1) by simp_all
  have l: "rlinked nx pv (?us @ [?a])" "rlinked nx pv (?b # ?vs)"
    using d(2) rlinked_split [of nx pv ?us ?a "v # ?b # ?vs"] by simp_all
  have s: "rlinked ?nx ?pv (?us @ [?a])" "rlinked ?nx ?pv (?b # ?vs)"
    by (rule rlinked_sides [OF l v dd])+
  have "?a \<noteq> v" "?b \<noteq> v" using v by auto
  then have "rlink ?nx ?pv ?a ?b" by (simp add: rlink_def)
  then have "rlinked ?nx ?pv (cyc s (xs @ ys))"
    unfolding cyc_gap(1) using s rlinked_split [of ?nx ?pv ?us ?a "?b # ?vs"] by simp
  then show ?thesis using d'(1) by (simp add: is_cyc_def)
qed

lemma is_cyc_frame:
  assumes "is_cyc nx pv s xs" "\<And>p. p \<in> set (s # xs) \<Longrightarrow> nx' p = nx p \<and> pv' p = pv p"
  shows "is_cyc nx' pv' s xs"
proof -
  have d: "distinct (s # xs)" "rlinked nx pv (cyc s xs)" using assms(1) by (simp_all add: is_cyc_def)
  have "rlinked nx' pv' (cyc s xs)"
  proof (rule rlinked_frame [OF d(2)])
    show "nx' p = nx p" if "p \<in> set (butlast (cyc s xs))" for p
      using assms(2) in_set_butlastD [OF that] cyc_distinct(3) [OF d(1)] by blast
    show "pv' p = pv p" if "p \<in> set (tl (cyc s xs))" for p
      using assms(2) [of p] that by (simp add: cyc_def)
  qed
  then show ?thesis using d(1) by (simp add: is_cyc_def)
qed

end
