(* ===== verification/IntrusiveList.thy ===== *)
theory IntrusiveList
  imports ElementListInterface LinkRings "HOL-Library.Monad_Syntax"
begin

text \<open>
  \<open>intrusive_list.h\<close>: the circular intrusive list modelled after \<open>std::list\<close>. The links of the list object
  itself are the sentinel node, so that insertion and removal have no case for the ends. A null pointer
  that is followed, and the sentinel used as an element, give \<^term>\<open>None\<close>.
\<close>

subsection \<open>The store\<close>

datatype lnode = Elem nat | Sentinel nat

record il_node =
  ln_next :: "lnode option"
  ln_prev :: "lnode option"

record lheap =
  lnodes :: "lnode \<rightharpoonup> il_node"
  lsize :: "nat \<rightharpoonup> 64 word"

record Iterator_il =
  it_node :: "lnode option"

definition il_get_next :: "lheap \<Rightarrow> lnode option \<Rightarrow> lnode option option" where
  "il_get_next h p = (case p of None \<Rightarrow> None | Some a \<Rightarrow> map_option ln_next (lnodes h a))"

definition il_get_prev :: "lheap \<Rightarrow> lnode option \<Rightarrow> lnode option option" where
  "il_get_prev h p = (case p of None \<Rightarrow> None | Some a \<Rightarrow> map_option ln_prev (lnodes h a))"

definition put_next :: "lheap \<Rightarrow> lnode option \<Rightarrow> lnode option \<Rightarrow> lheap option" where
  "put_next h p v = (case p of None \<Rightarrow> None
     | Some a \<Rightarrow> map_option (\<lambda>n. h\<lparr>lnodes := (lnodes h)(a \<mapsto> n\<lparr>ln_next := v\<rparr>)\<rparr>) (lnodes h a))"

definition put_prev :: "lheap \<Rightarrow> lnode option \<Rightarrow> lnode option \<Rightarrow> lheap option" where
  "put_prev h p v = (case p of None \<Rightarrow> None
     | Some a \<Rightarrow> map_option (\<lambda>n. h\<lparr>lnodes := (lnodes h)(a \<mapsto> n\<lparr>ln_prev := v\<rparr>)\<rparr>) (lnodes h a))"

subsection \<open>Iterators\<close>

definition ili_inc :: "lheap \<Rightarrow> Iterator_il \<Rightarrow> Iterator_il option" where
  "ili_inc h it = map_option (\<lambda>n. it\<lparr>it_node := n\<rparr>) (il_get_next h (it_node it))"

definition ili_post_inc :: "lheap \<Rightarrow> Iterator_il \<Rightarrow> (Iterator_il \<times> Iterator_il) option" where
  "ili_post_inc h it = map_option (\<lambda>it'. (it, it')) (ili_inc h it)"

definition ili_dec :: "lheap \<Rightarrow> Iterator_il \<Rightarrow> Iterator_il option" where
  "ili_dec h it = map_option (\<lambda>n. it\<lparr>it_node := n\<rparr>) (il_get_prev h (it_node it))"

definition ili_post_dec :: "lheap \<Rightarrow> Iterator_il \<Rightarrow> (Iterator_il \<times> Iterator_il) option" where
  "ili_post_dec h it = map_option (\<lambda>it'. (it, it')) (ili_dec h it)"

definition ili_deref :: "Iterator_il \<Rightarrow> nat option" where
  "ili_deref it = (case it_node it of Some (Elem x) \<Rightarrow> Some x | _ \<Rightarrow> None)"

definition ili_eq :: "Iterator_il \<Rightarrow> Iterator_il \<Rightarrow> bool" where
  "ili_eq it rhs \<longleftrightarrow> it_node it = it_node rhs"

definition ili_neq :: "Iterator_il \<Rightarrow> Iterator_il \<Rightarrow> bool" where
  "ili_neq it rhs \<longleftrightarrow> \<not> ili_eq it rhs"

subsection \<open>The operations\<close>

definition ill_new :: "lheap \<Rightarrow> nat \<Rightarrow> lheap" where
  "ill_new h l = h\<lparr>lnodes := (lnodes h)(Sentinel l \<mapsto> \<lparr>ln_next = Some (Sentinel l), ln_prev = Some (Sentinel l)\<rparr>),
     lsize := (lsize h)(l \<mapsto> 0)\<rparr>"

definition ill_begin :: "lheap \<Rightarrow> nat \<Rightarrow> Iterator_il option" where
  "ill_begin h l = map_option (\<lambda>p. \<lparr>it_node = p\<rparr>) (il_get_next h (Some (Sentinel l)))"

definition ill_end :: "nat \<Rightarrow> Iterator_il" where
  "ill_end l = \<lparr>it_node = Some (Sentinel l)\<rparr>"

definition ill_front :: "lheap \<Rightarrow> nat \<Rightarrow> nat option" where
  "ill_front h l = do { it \<leftarrow> ill_begin h l; ili_deref it }"

definition ill_back :: "lheap \<Rightarrow> nat \<Rightarrow> nat option" where
  "ill_back h l = do { it \<leftarrow> ili_dec h (ill_end l); ili_deref it }"

text \<open>A \<open>std::reverse_iterator\<close> refers to the element before its base.\<close>

definition ill_rbegin :: "nat \<Rightarrow> Iterator_il" where
  "ill_rbegin l = ill_end l"

definition ill_rend :: "lheap \<Rightarrow> nat \<Rightarrow> Iterator_il option" where
  "ill_rend h l = ill_begin h l"

definition rev_deref :: "lheap \<Rightarrow> Iterator_il \<Rightarrow> nat option" where
  "rev_deref h base = do { it \<leftarrow> ili_dec h base; ili_deref it }"

definition rev_inc :: "lheap \<Rightarrow> Iterator_il \<Rightarrow> Iterator_il option" where
  "rev_inc h base = ili_dec h base"

definition ill_empty :: "lheap \<Rightarrow> nat \<Rightarrow> bool option" where
  "ill_empty h l = map_option (\<lambda>n. n = 0) (lsize h l)"

definition ill_size :: "lheap \<Rightarrow> nat \<Rightarrow> 64 word option" where
  "ill_size h l = lsize h l"

definition ill_clear :: "lheap \<Rightarrow> nat \<Rightarrow> lheap option" where
  "ill_clear h l = do {
     h1 \<leftarrow> put_next h (Some (Sentinel l)) (Some (Sentinel l));
     h2 \<leftarrow> put_prev h1 (Some (Sentinel l)) (Some (Sentinel l));
     Some (h2\<lparr>lsize := (lsize h2)(l \<mapsto> 0)\<rparr>)
   }"

definition ill_insert :: "lheap \<Rightarrow> nat \<Rightarrow> Iterator_il \<Rightarrow> nat \<Rightarrow> (Iterator_il \<times> lheap) option" where
  "ill_insert h l pos value = do {
     let curr = it_node pos;
     prev \<leftarrow> il_get_prev h (it_node pos);
     h1 \<leftarrow> put_next h prev (Some (Elem value));
     h2 \<leftarrow> put_prev h1 curr (Some (Elem value));
     h3 \<leftarrow> put_prev h2 (Some (Elem value)) prev;
     h4 \<leftarrow> put_next h3 (Some (Elem value)) curr;
     n \<leftarrow> lsize h4 l;
     Some (\<lparr>it_node = Some (Elem value)\<rparr>, h4\<lparr>lsize := (lsize h4)(l \<mapsto> n + 1)\<rparr>)
   }"

definition ill_erase :: "lheap \<Rightarrow> nat \<Rightarrow> Iterator_il \<Rightarrow> (Iterator_il \<times> lheap) option" where
  "ill_erase h l pos = do {
     prev \<leftarrow> il_get_prev h (it_node pos);
     next \<leftarrow> il_get_next h (it_node pos);
     h1 \<leftarrow> put_next h prev next;
     h2 \<leftarrow> put_prev h1 next prev;
     let curr = it_node pos;
     h3 \<leftarrow> put_prev h2 curr None;
     h4 \<leftarrow> put_next h3 curr None;
     n \<leftarrow> lsize h4 l;
     Some (\<lparr>it_node = next\<rparr>, h4\<lparr>lsize := (lsize h4)(l \<mapsto> n - 1)\<rparr>)
   }"

definition ill_push_back :: "lheap \<Rightarrow> nat \<Rightarrow> nat \<Rightarrow> lheap option" where
  "ill_push_back h l value = map_option snd (ill_insert h l (ill_end l) value)"

definition ill_pop_back :: "lheap \<Rightarrow> nat \<Rightarrow> lheap option" where
  "ill_pop_back h l = map_option snd (ill_erase h l (ill_end l))"

definition ill_push_front :: "lheap \<Rightarrow> nat \<Rightarrow> nat \<Rightarrow> lheap option" where
  "ill_push_front h l value = do { b \<leftarrow> ill_begin h l; (_, h1) \<leftarrow> ill_insert h l b value; Some h1 }"

definition ill_pop_front :: "lheap \<Rightarrow> nat \<Rightarrow> lheap option" where
  "ill_pop_front h l = do { b \<leftarrow> ill_begin h l; (_, h1) \<leftarrow> ill_erase h l b; Some h1 }"

definition ill_remove :: "lheap \<Rightarrow> nat \<Rightarrow> nat \<Rightarrow> lheap option" where
  "ill_remove h l value = map_option snd (ill_erase h l \<lparr>it_node = Some (Elem value)\<rparr>)"

subsection \<open>Reading and writing the store\<close>

lemma put_next_reads:
  assumes "put_next h (Some a) v = Some h'"
  shows "il_get_next h' (Some p) = (if p = a then Some v else il_get_next h (Some p))" "il_get_prev h' q = il_get_prev h q"
    "lsize h' = lsize h"
  using assms by (auto simp: put_next_def il_get_next_def il_get_prev_def split: option.splits)

lemma put_prev_reads:
  assumes "put_prev h (Some a) v = Some h'"
  shows "il_get_prev h' (Some p) = (if p = a then Some v else il_get_prev h (Some p))" "il_get_next h' q = il_get_next h q"
    "lsize h' = lsize h"
  using assms by (auto simp: put_prev_def il_get_next_def il_get_prev_def split: option.splits)

lemma put_ok:
  "lnodes h a \<noteq> None \<Longrightarrow> \<exists>h'. put_next h (Some a) v = Some h' \<and> (\<forall>b. lnodes h' b \<noteq> None \<longleftrightarrow> lnodes h b \<noteq> None)"
  "lnodes h a \<noteq> None \<Longrightarrow> \<exists>h'. put_prev h (Some a) v = Some h' \<and> (\<forall>b. lnodes h' b \<noteq> None \<longleftrightarrow> lnodes h b \<noteq> None)"
  by (auto simp: put_next_def put_prev_def)

lemma null_access [simp]: "il_get_prev h None = None" "il_get_next h None = None" "put_next h None v = None"
  by (simp_all add: il_get_prev_def il_get_next_def put_next_def)

subsection \<open>Rings\<close>

definition link :: "lheap \<Rightarrow> lnode \<Rightarrow> lnode \<Rightarrow> bool" where
  "link h a b \<longleftrightarrow> il_get_next h (Some a) = Some (Some b) \<and> il_get_prev h (Some b) = Some (Some a)"

definition il_nx :: "lheap \<Rightarrow> lnode \<Rightarrow> lnode option" where
  "il_nx h a = Option.bind (il_get_next h (Some a)) id"

definition il_pv :: "lheap \<Rightarrow> lnode \<Rightarrow> lnode option" where
  "il_pv h a = Option.bind (il_get_prev h (Some a)) id"

lemma link_rlink: "link h a b \<longleftrightarrow> rlink (il_nx h) (il_pv h) a b"
  by (simp add: link_def rlink_def il_nx_def il_pv_def bind_eq_Some_iff)

definition is_ring :: "lheap \<Rightarrow> nat \<Rightarrow> nat list \<Rightarrow> bool" where
  "is_ring h l xs \<longleftrightarrow> is_cyc (il_nx h) (il_pv h) (Sentinel l) (map Elem xs) \<and> lsize h l = Some (of_nat (length xs))"

abbreviation before :: "nat \<Rightarrow> nat list \<Rightarrow> lnode" where
  "before l xs \<equiv> pre (Sentinel l) (map Elem xs)"

abbreviation after :: "nat \<Rightarrow> nat list \<Rightarrow> lnode" where
  "after l ys \<equiv> post (Sentinel l) (map Elem ys)"

lemma is_ring_distinct: "is_ring h l xs \<Longrightarrow> distinct xs"
  by (simp add: is_ring_def is_cyc_def distinct_map)

text \<open>What insertion of \<open>v\<close> between \<open>a\<close> and \<open>b\<close>, and removal from there, make of the store.\<close>

definition spliced_in :: "lheap \<Rightarrow> lheap \<Rightarrow> nat \<Rightarrow> lnode \<Rightarrow> lnode \<Rightarrow> lnode \<Rightarrow> bool" where
  "spliced_in h h' l a v b \<longleftrightarrow>
     (\<forall>p. il_get_next h' (Some p) = (if p = v then Some (Some b) else if p = a then Some (Some v) else il_get_next h (Some p))) \<and>
     (\<forall>p. il_get_prev h' (Some p) = (if p = v then Some (Some a) else if p = b then Some (Some v) else il_get_prev h (Some p))) \<and>
     (\<exists>n. lsize h l = Some n \<and> lsize h' = (lsize h)(l \<mapsto> n + 1)) \<and>
     (\<forall>p. lnodes h' p \<noteq> None \<longleftrightarrow> lnodes h p \<noteq> None)"

definition spliced_out :: "lheap \<Rightarrow> lheap \<Rightarrow> nat \<Rightarrow> lnode \<Rightarrow> lnode \<Rightarrow> lnode \<Rightarrow> bool" where
  "spliced_out h h' l a v b \<longleftrightarrow>
     (\<forall>p. il_get_next h' (Some p) = (if p = v then Some None else if p = a then Some (Some b) else il_get_next h (Some p))) \<and>
     (\<forall>p. il_get_prev h' (Some p) = (if p = v then Some None else if p = b then Some (Some a) else il_get_prev h (Some p))) \<and>
     (\<exists>n. lsize h l = Some n \<and> lsize h' = (lsize h)(l \<mapsto> n - 1)) \<and>
     (\<forall>p. lnodes h' p \<noteq> None \<longleftrightarrow> lnodes h p \<noteq> None)"

lemma get_nodes: "il_get_next h (Some p) = Some v \<Longrightarrow> lnodes h p \<noteq> None" "il_get_prev h (Some p) = Some v \<Longrightarrow> lnodes h p \<noteq> None"
  by (auto simp: il_get_next_def il_get_prev_def)

lemma ill_insert_spliced:
  assumes "link h a b" "lnodes h (Elem v) \<noteq> None" "lsize h l = Some n"
  shows "\<exists>h'. ill_insert h l \<lparr>it_node = Some b\<rparr> v = Some (\<lparr>it_node = Some (Elem v)\<rparr>, h') \<and> spliced_in h h' l a (Elem v) b"
proof -
  have n: "lnodes h a \<noteq> None" "lnodes h b \<noteq> None" using assms(1) get_nodes by (auto simp: link_def)
  obtain h1 where h1: "put_next h (Some a) (Some (Elem v)) = Some h1" "\<forall>p. lnodes h1 p \<noteq> None \<longleftrightarrow> lnodes h p \<noteq> None"
    using put_ok(1) [OF n(1)] by blast
  obtain h2 where h2: "put_prev h1 (Some b) (Some (Elem v)) = Some h2" "\<forall>p. lnodes h2 p \<noteq> None \<longleftrightarrow> lnodes h1 p \<noteq> None"
    using put_ok(2) [of h1 b] h1 n by blast
  obtain h3 where h3: "put_prev h2 (Some (Elem v)) (Some a) = Some h3" "\<forall>p. lnodes h3 p \<noteq> None \<longleftrightarrow> lnodes h2 p \<noteq> None"
    using put_ok(2) [of h2 "Elem v"] h1 h2 assms(2) by blast
  obtain h4 where h4: "put_next h3 (Some (Elem v)) (Some b) = Some h4" "\<forall>p. lnodes h4 p \<noteq> None \<longleftrightarrow> lnodes h3 p \<noteq> None"
    using put_ok(1) [of h3 "Elem v"] h1 h2 h3 assms(2) by blast
  let ?h = "h4\<lparr>lsize := (lsize h4)(l \<mapsto> n + 1)\<rparr>"
  note reads = put_next_reads [OF h1(1)] put_prev_reads [OF h2(1)] put_prev_reads [OF h3(1)] put_next_reads [OF h4(1)]
  have "ill_insert h l \<lparr>it_node = Some b\<rparr> v = Some (\<lparr>it_node = Some (Elem v)\<rparr>, ?h)"
    using assms(1,3) h1(1) h2(1) h3(1) h4(1) by (simp add: ill_insert_def link_def reads)
  moreover have g: "il_get_next ?h p = il_get_next h4 p" "il_get_prev ?h p = il_get_prev h4 p" for p
    by (simp_all add: il_get_next_def il_get_prev_def split: option.splits)
  have "spliced_in h ?h l a (Elem v) b"
    unfolding spliced_in_def g using h1(2) h2(2) h3(2) h4(2) assms(3) by (simp add: reads)
  ultimately show ?thesis by blast
qed

lemma ill_erase_spliced:
  assumes "link h a v" "link h v b" "lsize h l = Some n"
  shows "\<exists>h'. ill_erase h l \<lparr>it_node = Some v\<rparr> = Some (\<lparr>it_node = Some b\<rparr>, h') \<and> spliced_out h h' l a v b"
proof -
  have n: "lnodes h a \<noteq> None" "lnodes h b \<noteq> None" "lnodes h v \<noteq> None" using assms(1,2) get_nodes by (auto simp: link_def)
  obtain h1 where h1: "put_next h (Some a) (Some b) = Some h1" "\<forall>p. lnodes h1 p \<noteq> None \<longleftrightarrow> lnodes h p \<noteq> None"
    using put_ok(1) [OF n(1)] by blast
  obtain h2 where h2: "put_prev h1 (Some b) (Some a) = Some h2" "\<forall>p. lnodes h2 p \<noteq> None \<longleftrightarrow> lnodes h1 p \<noteq> None"
    using put_ok(2) [of h1 b] h1 n by blast
  obtain h3 where h3: "put_prev h2 (Some v) None = Some h3" "\<forall>p. lnodes h3 p \<noteq> None \<longleftrightarrow> lnodes h2 p \<noteq> None"
    using put_ok(2) [of h2 v] h1 h2 n by blast
  obtain h4 where h4: "put_next h3 (Some v) None = Some h4" "\<forall>p. lnodes h4 p \<noteq> None \<longleftrightarrow> lnodes h3 p \<noteq> None"
    using put_ok(1) [of h3 v] h1 h2 h3 n by blast
  let ?h = "h4\<lparr>lsize := (lsize h4)(l \<mapsto> n - 1)\<rparr>"
  note reads = put_next_reads [OF h1(1)] put_prev_reads [OF h2(1)] put_prev_reads [OF h3(1)] put_next_reads [OF h4(1)]
  have "ill_erase h l \<lparr>it_node = Some v\<rparr> = Some (\<lparr>it_node = Some b\<rparr>, ?h)"
    using assms h1(1) h2(1) h3(1) h4(1) by (simp add: ill_erase_def link_def reads)
  moreover have g: "il_get_next ?h p = il_get_next h4 p" "il_get_prev ?h p = il_get_prev h4 p" for p
    by (simp_all add: il_get_next_def il_get_prev_def split: option.splits)
  have "spliced_out h ?h l a v b"
    unfolding spliced_out_def g using h1(2) h2(2) h3(2) h4(2) assms(3) by (simp add: reads)
  ultimately show ?thesis by blast
qed


lemma spliced_in_maps:
  assumes "spliced_in h h' l a v b"
  shows "il_nx h' = (il_nx h)(a := Some v, v := Some b)" "il_pv h' = (il_pv h)(b := Some v, v := Some a)"
  using assms by (auto simp: spliced_in_def il_nx_def il_pv_def)

lemma spliced_out_maps:
  assumes "spliced_out h h' l a v b"
  shows "il_nx h' = (il_nx h)(a := Some b, v := None)" "il_pv h' = (il_pv h)(b := Some a, v := None)"
  using assms by (auto simp: spliced_out_def il_nx_def il_pv_def)

lemma is_ring_links:
  "is_ring h l (xs @ ys) \<Longrightarrow> link h (before l xs) (after l ys)"
  "is_ring h l (xs @ v # ys) \<Longrightarrow> link h (before l xs) (Elem v) \<and> link h (Elem v) (after l ys)"
  using is_cyc_links [of "il_nx h" "il_pv h" "Sentinel l" "map Elem xs"]
  by (auto simp: is_ring_def link_rlink)

lemma is_ring_insert:
  assumes "is_ring h l (xs @ ys)" "v \<notin> set (xs @ ys)" "spliced_in h h' l (before l xs) (Elem v) (after l ys)"
  shows "is_ring h' l (xs @ v # ys)"
proof -
  have "is_cyc (il_nx h') (il_pv h') (Sentinel l) (map Elem xs @ Elem v # map Elem ys)"
    unfolding spliced_in_maps [OF assms(3)] by (rule is_cyc_insert) (use assms(1,2) in \<open>auto simp: is_ring_def\<close>)
  then show ?thesis using assms(1,3) by (auto simp: is_ring_def spliced_in_def)
qed

lemma is_ring_remove:
  assumes "is_ring h l (xs @ v # ys)" "spliced_out h h' l (before l xs) (Elem v) (after l ys)"
  shows "is_ring h' l (xs @ ys)"
proof -
  have "is_cyc (il_nx h') (il_pv h') (Sentinel l) (map Elem xs @ map Elem ys)"
    unfolding spliced_out_maps [OF assms(2)] by (rule is_cyc_remove) (use assms(1) in \<open>simp add: is_ring_def\<close>)
  then show ?thesis using assms by (auto simp: is_ring_def spliced_out_def)
qed

text \<open>Another list without common elements is not touched.\<close>

lemma other_ring:
  assumes "m \<noteq> l" "set zs \<inter> set (xs @ v # ys) = {}" "p \<in> set (Sentinel m # map Elem zs)"
  shows "p \<noteq> before l xs" "p \<noteq> after l ys" "p \<noteq> Elem v"
  using assms gap_nodes(1) [of "Sentinel l" "map Elem xs"] gap_nodes(2) [of "Sentinel l" "map Elem ys"] by auto

lemma splice_other:
  assumes "is_ring h m zs" "m \<noteq> l" "set zs \<inter> set (xs @ v # ys) = {}"
  shows "spliced_in h h' l (before l xs) (Elem v) (after l ys) \<Longrightarrow> is_ring h' m zs"
    "spliced_out h h' l (before l xs) (Elem v) (after l ys) \<Longrightarrow> is_ring h' m zs"
proof -
  have c: "is_cyc (il_nx h) (il_pv h) (Sentinel m) (map Elem zs)" using assms(1) by (simp add: is_ring_def)
  note o = other_ring [OF assms(2,3)]
  show "is_ring h' m zs" if s: "spliced_in h h' l (before l xs) (Elem v) (after l ys)"
  proof -
    have "is_cyc (il_nx h') (il_pv h') (Sentinel m) (map Elem zs)"
      unfolding spliced_in_maps [OF s] by (rule is_cyc_frame [OF c]) (use o in auto)
    then show ?thesis using s assms(1,2) by (auto simp: is_ring_def spliced_in_def)
  qed
  show "is_ring h' m zs" if s: "spliced_out h h' l (before l xs) (Elem v) (after l ys)"
  proof -
    have "is_cyc (il_nx h') (il_pv h') (Sentinel m) (map Elem zs)"
      unfolding spliced_out_maps [OF s] by (rule is_cyc_frame [OF c]) (use o in auto)
    then show ?thesis using s assms(1,2) by (auto simp: is_ring_def spliced_out_def)
  qed
qed

subsection \<open>The operations on rings\<close>

lemma is_ring_size: "is_ring h l xs \<Longrightarrow> lsize h l = Some (of_nat (length xs))"
  by (simp add: is_ring_def)

lemma is_ring_begin: "is_ring h l xs \<Longrightarrow> ill_begin h l = Some \<lparr>it_node = Some (after l xs)\<rparr>"
  using is_ring_links(1) [of h l "[]" xs] by (simp add: ill_begin_def link_def pre_def)

lemma is_ring_last: "is_ring h l xs \<Longrightarrow> il_get_prev h (Some (Sentinel l)) = Some (Some (before l xs))"
  using is_ring_links(1) [of h l xs "[]"] by (simp add: link_def post_def)

definition il_linkable :: "lheap \<Rightarrow> nat \<Rightarrow> bool" where
  "il_linkable h a \<longleftrightarrow> lnodes h (Elem a) \<noteq> None"

lemma is_ring_linkable: "is_ring h l xs \<Longrightarrow> x \<in> set xs \<Longrightarrow> il_linkable h x"
proof -
  assume a: "is_ring h l xs" "x \<in> set xs"
  obtain ys zs where "xs = ys @ x # zs" using split_list [OF a(2)] by blast
  then have "link h (Elem x) (after l zs)" using is_ring_links(2) [of h l ys x zs] a(1) by simp
  then show "il_linkable h x" using get_nodes(1) by (simp add: il_linkable_def link_def)
qed

lemma insert_ring:
  assumes "is_ring h l (xs @ ys)" "il_linkable h v" "v \<notin> set (xs @ ys)"
  obtains h' where "ill_insert h l \<lparr>it_node = Some (after l ys)\<rparr> v = Some (\<lparr>it_node = Some (Elem v)\<rparr>, h')" "is_ring h' l (xs @ v # ys)"
    "\<forall>y. il_linkable h' y = il_linkable h y" "spliced_in h h' l (before l xs) (Elem v) (after l ys)"
proof -
  have n: "lnodes h (Elem v) \<noteq> None" using assms(2) by (simp add: il_linkable_def)
  obtain h' where h': "ill_insert h l \<lparr>it_node = Some (after l ys)\<rparr> v = Some (\<lparr>it_node = Some (Elem v)\<rparr>, h')"
      "spliced_in h h' l (before l xs) (Elem v) (after l ys)"
    using ill_insert_spliced [OF is_ring_links(1) [OF assms(1)] n is_ring_size [OF assms(1)]] by blast
  have "\<forall>y. il_linkable h' y = il_linkable h y" using h'(2) by (simp add: spliced_in_def il_linkable_def)
  with that [OF h'(1) is_ring_insert [OF assms(1,3) h'(2)]] h'(2) show ?thesis by blast
qed

lemma erase_ring:
  assumes "is_ring h l (xs @ v # ys)"
  obtains h' where "ill_erase h l \<lparr>it_node = Some (Elem v)\<rparr> = Some (\<lparr>it_node = Some (after l ys)\<rparr>, h')" "is_ring h' l (xs @ ys)"
    "\<forall>y. il_linkable h' y = il_linkable h y" "spliced_out h h' l (before l xs) (Elem v) (after l ys)"
proof -
  have k: "link h (before l xs) (Elem v)" "link h (Elem v) (after l ys)" using is_ring_links(2) [OF assms] by auto
  obtain h' where h': "ill_erase h l \<lparr>it_node = Some (Elem v)\<rparr> = Some (\<lparr>it_node = Some (after l ys)\<rparr>, h')"
      "spliced_out h h' l (before l xs) (Elem v) (after l ys)"
    using ill_erase_spliced [OF k is_ring_size [OF assms]] by blast
  have "\<forall>y. il_linkable h' y = il_linkable h y" using h'(2) by (simp add: spliced_out_def il_linkable_def)
  with that [OF h'(1) is_ring_remove [OF assms h'(2)]] h'(2) show ?thesis by blast
qed

interpretation ill: element_queue "\<lambda>h. is_ring h l" il_linkable "\<lambda>h. ill_push_front h l" "\<lambda>h. ill_remove h l" "\<lambda>h. ill_push_back h l" for l
proof
  show "distinct xs" if "is_ring s l xs" for s xs using that by (rule is_ring_distinct)
  show "il_linkable s x" if "is_ring s l xs" "x \<in> set xs" for s xs x using that by (rule is_ring_linkable)
next
  fix s xs x
  assume a: "is_ring s l xs" "il_linkable s x" "x \<notin> set xs"
  show "\<exists>s'. ill_push_front s l x = Some s' \<and> is_ring s' l (x # xs) \<and> (\<forall>y. il_linkable s' y = il_linkable s y)"
    by (rule insert_ring [of s l "[]" xs x]) (use a is_ring_begin [OF a(1)] in \<open>simp_all add: ill_push_front_def\<close>)
  show "\<exists>s'. ill_push_back s l x = Some s' \<and> is_ring s' l (xs @ [x]) \<and> (\<forall>y. il_linkable s' y = il_linkable s y)"
    by (rule insert_ring [of s l xs "[]" x]) (use a in \<open>simp_all add: ill_push_back_def ill_end_def post_def\<close>)
next
  fix s xs x ys
  assume a: "is_ring s l (xs @ x # ys)"
  show "\<exists>s'. ill_remove s l x = Some s' \<and> is_ring s' l (xs @ ys) \<and> (\<forall>y. il_linkable s' y = il_linkable s y)"
    by (rule erase_ring [OF a]) (simp add: ill_remove_def)
qed

lemma ill_pop_front_spec:
  assumes "is_ring h l (x # xs)"
  shows "\<exists>h'. ill_front h l = Some x \<and> ill_pop_front h l = Some h' \<and> is_ring h' l xs"
  by (rule erase_ring [of h l "[]" x xs])
    (use assms is_ring_begin [OF assms] in \<open>simp_all add: ill_pop_front_def ill_front_def ili_deref_def post_def\<close>)

lemma ill_new_ring: "is_ring (ill_new h l) l []"
  by (simp add: is_ring_def ill_new_def is_cyc_def cyc_def rlink_def il_nx_def il_pv_def il_get_next_def il_get_prev_def)

lemma ill_clear_ring: "is_ring h l xs \<Longrightarrow> \<exists>h'. ill_clear h l = Some h' \<and> is_ring h' l []"
proof -
  assume a: "is_ring h l xs"
  have "lnodes h (Sentinel l) \<noteq> None" using get_nodes(2) [OF is_ring_last [OF a]] .
  then show ?thesis
    by (auto simp: ill_clear_def put_next_def put_prev_def is_ring_def is_cyc_def cyc_def rlink_def il_nx_def il_pv_def il_get_next_def il_get_prev_def)
qed

subsection \<open>Iteration\<close>

text \<open>One turn of a loop over the elements, forwards and backwards.\<close>

definition ili_step :: "lheap \<Rightarrow> Iterator_il \<Rightarrow> (nat \<times> Iterator_il) option" where
  "ili_step h it = do { x \<leftarrow> ili_deref it; it' \<leftarrow> ili_inc h it; Some (x, it') }"

definition rev_step :: "lheap \<Rightarrow> Iterator_il \<Rightarrow> (nat \<times> Iterator_il) option" where
  "rev_step h it = do { x \<leftarrow> rev_deref h it; it' \<leftarrow> rev_inc h it; Some (x, it') }"

lemma ili_steps:
  assumes "is_ring h l (xs @ ys)"
  shows "repeatM (ili_step h) (length ys) \<lparr>it_node = Some (after l ys)\<rparr> = Some (ys, ill_end l)"
  using assms
proof (induction ys arbitrary: xs)
  case (Cons y ys)
  have "link h (Elem y) (after l ys)" using is_ring_links(2) [OF Cons.prems] by simp
  moreover have "after l (y # ys) = Elem y" by (simp add: post_def)
  ultimately have "ili_step h \<lparr>it_node = Some (after l (y # ys))\<rparr> = Some (y, \<lparr>it_node = Some (after l ys)\<rparr>)"
    by (simp add: ili_step_def ili_deref_def ili_inc_def link_def)
  then show ?case using Cons.IH [of "xs @ [y]"] Cons.prems by simp
qed (simp add: post_def ill_end_def)

lemma rev_steps:
  assumes "is_ring h l (xs @ ys)"
  shows "repeatM (rev_step h) (length xs) \<lparr>it_node = Some (after l ys)\<rparr> = Some (rev xs, \<lparr>it_node = Some (after l (xs @ ys))\<rparr>)"
  using assms
proof (induction xs arbitrary: ys rule: rev_induct)
  case (snoc x xs)
  have r: "is_ring h l (xs @ x # ys)" using snoc.prems by simp
  have "link h (Elem x) (after l ys)" using is_ring_links(2) [OF r] by simp
  moreover have "after l (x # ys) = Elem x" by (simp add: post_def)
  ultimately have "rev_step h \<lparr>it_node = Some (after l ys)\<rparr> = Some (x, \<lparr>it_node = Some (after l (x # ys))\<rparr>)"
    by (simp add: rev_step_def rev_deref_def rev_inc_def ili_dec_def ili_deref_def link_def)
  then show ?case using snoc.IH [OF r] by simp
qed simp


subsection \<open>Properties\<close>

text \<open>A store of unlinked elements with two empty lists.\<close>

definition lheap0 :: lheap where
  "lheap0 = ill_new (ill_new \<lparr>lnodes = (\<lambda>p. case p of Elem _ \<Rightarrow> Some \<lparr>ln_next = None, ln_prev = None\<rparr> | Sentinel _ \<Rightarrow> None),
     lsize = (\<lambda>_. None)\<rparr> 0) 1"

lemma lheap0_rings: "is_ring lheap0 0 []" "is_ring lheap0 1 []"
  by (simp_all add: lheap0_def is_ring_def ill_new_def is_cyc_def cyc_def rlink_def il_nx_def il_pv_def il_get_next_def il_get_prev_def)

lemma lheap0_linkable: "il_linkable lheap0 x"
  by (simp add: lheap0_def ill_new_def il_linkable_def)

lemma lheap0_list:
  assumes "distinct xs"
  obtains h where "foldM (\<lambda>h. ill_push_back h 0) xs lheap0 = Some h" "is_ring h 0 xs" "\<forall>y. il_linkable h y"
  using ill.enqueue_all [OF lheap0_rings(1), of xs] assms lheap0_linkable by auto

text \<open>
  \<open>insert\<close> puts an unlinked element before the position of the iterator and returns an iterator to it;
  \<open>erase\<close> takes the element of the iterator out, returns an iterator to the next one and leaves the links
  of the element null. The count follows, both directions of the ring stay consistent, and other lists
  with other elements are not touched.
\<close>

theorem intrusive_list_insert_erase:
  assumes "is_ring h l (xs @ ys)" "il_linkable h v" "v \<notin> set (xs @ ys)"
    and "is_ring h m zs" "m \<noteq> l" "set zs \<inter> set (xs @ v # ys) = {}"
  shows "\<exists>h1 h2. ill_insert h l \<lparr>it_node = Some (after l ys)\<rparr> v = Some (\<lparr>it_node = Some (Elem v)\<rparr>, h1) \<and>
    is_ring h1 l (xs @ v # ys) \<and> is_ring h1 m zs \<and>
    ill_erase h1 l \<lparr>it_node = Some (Elem v)\<rparr> = Some (\<lparr>it_node = Some (after l ys)\<rparr>, h2) \<and>
    is_ring h2 l (xs @ ys) \<and> is_ring h2 m zs \<and>
    il_get_next h2 (Some (Elem v)) = Some None \<and> il_get_prev h2 (Some (Elem v)) = Some None"
proof -
  obtain h1 where h1: "ill_insert h l \<lparr>it_node = Some (after l ys)\<rparr> v = Some (\<lparr>it_node = Some (Elem v)\<rparr>, h1)"
      "is_ring h1 l (xs @ v # ys)" "spliced_in h h1 l (before l xs) (Elem v) (after l ys)"
    by (rule insert_ring [OF assms(1-3)])
  have m1: "is_ring h1 m zs" by (rule splice_other(1) [OF assms(4-6) h1(3)])
  obtain h2 where h2: "ill_erase h1 l \<lparr>it_node = Some (Elem v)\<rparr> = Some (\<lparr>it_node = Some (after l ys)\<rparr>, h2)"
      "is_ring h2 l (xs @ ys)" "spliced_out h1 h2 l (before l xs) (Elem v) (after l ys)"
    by (rule erase_ring [OF h1(2)])
  have m2: "is_ring h2 m zs" by (rule splice_other(2) [OF m1 assms(5,6) h2(3)])
  have "il_get_next h2 (Some (Elem v)) = Some None" "il_get_prev h2 (Some (Elem v)) = Some None"
    using h2(3) by (simp_all add: spliced_out_def)
  then show ?thesis using h1(1,2) m1 h2(1,2) m2 by blast
qed

theorem intrusive_list_insert_erase_witness:
  "\<exists>h1. ill_insert lheap0 0 (ill_end 0) 5 = Some (\<lparr>it_node = Some (Elem 5)\<rparr>, h1) \<and> is_ring h1 0 [5] \<and> is_ring h1 1 []"
proof -
  have p: "is_ring lheap0 0 ([] @ [])" "5 \<notin> set ([] @ [] :: nat list)" "(1::nat) \<noteq> 0" "set [] \<inter> set ([] @ 5 # []) = {}"
    using lheap0_rings by simp_all
  from intrusive_list_insert_erase [OF p(1) lheap0_linkable p(2) lheap0_rings(2) p(3,4)]
  show ?thesis by (auto simp: ill_end_def post_def)
qed

text \<open>
  The iterators enumerate the list: from \<open>begin()\<close> as many steps as there are elements yield them in
  order and arrive at \<open>end()\<close>, the reverse iterators yield them in the opposite order and arrive at
  \<open>rend()\<close>; \<open>size\<close> is the number of elements, and \<open>front\<close> and \<open>back\<close> are the first and the last.
\<close>

theorem intrusive_list_iteration:
  assumes "is_ring h l xs" "length xs < 2 ^ 64"
  shows "\<exists>b. ill_begin h l = Some b \<and> repeatM (ili_step h) (length xs) b = Some (xs, ill_end l) \<and>
    repeatM (rev_step h) (length xs) (ill_rbegin l) = Some (rev xs, b) \<and> ill_rend h l = Some b \<and>
    ill_size h l = Some (of_nat (length xs)) \<and> ill_empty h l = Some (xs = []) \<and>
    ill_front h l = (if xs = [] then None else Some (hd xs)) \<and> ill_back h l = (if xs = [] then None else Some (last xs))"
proof -
  let ?b = "\<lparr>it_node = Some (after l xs)\<rparr>"
  have e: "ill_rbegin l = \<lparr>it_node = Some (after l [])\<rparr>" by (simp add: ill_rbegin_def ill_end_def post_def)
  have 1: "repeatM (ili_step h) (length xs) ?b = Some (xs, ill_end l)" using ili_steps [of h l "[]" xs] assms(1) by simp
  have 2: "repeatM (rev_step h) (length xs) (ill_rbegin l) = Some (rev xs, ?b)"
    using rev_steps [of h l xs "[]"] assms(1) unfolding e by simp
  have z: "((of_nat (length xs) :: 64 word) = 0) = (xs = [])"
    using assms(2) by (auto simp: word_of_nat_eq_0_iff dest: dvd_imp_le)
  have 3: "ill_front h l = (if xs = [] then None else Some (hd xs))"
    using is_ring_begin [OF assms(1)] by (cases xs) (simp_all add: ill_front_def ili_deref_def post_def)
  have 4: "ill_back h l = (if xs = [] then None else Some (last xs))"
    using is_ring_last [OF assms(1)]
    by (cases xs rule: rev_cases) (simp_all add: ill_back_def ili_dec_def ili_deref_def ill_end_def pre_def)
  show ?thesis
    using is_ring_begin [OF assms(1)] is_ring_size [OF assms(1)] 1 2 3 4 z
    by (simp add: ill_rend_def ill_size_def ill_empty_def)
qed

theorem intrusive_list_iteration_witness:
  "\<exists>h b. foldM (\<lambda>h. ill_push_back h 0) [5, 6, 7] lheap0 = Some h \<and> ill_begin h 0 = Some b \<and>
    repeatM (ili_step h) 3 b = Some ([5, 6, 7], ill_end 0) \<and> ill_back h 0 = Some 7"
proof -
  have d: "distinct [5, 6, 7 :: nat]" by simp
  obtain h where h: "foldM (\<lambda>h. ill_push_back h 0) [5, 6, 7] lheap0 = Some h" "is_ring h 0 [5, 6, 7]"
    by (rule lheap0_list [OF d])
  have "length [5, 6, 7 :: nat] < 2 ^ 64" by simp
  from intrusive_list_iteration [OF h(2) this] have "\<exists>b. ill_begin h 0 = Some b \<and>
      repeatM (ili_step h) (length [5, 6, 7 :: nat]) b = Some ([5, 6, 7], ill_end 0) \<and> ill_back h 0 = Some 7" by auto
  then show ?thesis using h(1) by (simp add: eval_nat_numeral)
qed

text \<open>
  C40. \<open>pop_back\<close> passes \<open>end()\<close> to \<open>erase\<close> and so takes out the sentinel and not the last element: the count
  goes down, the last element stays linked, now to the first one, and the list object has null links. No
  sequence of elements is represented any more, \<open>begin()\<close> is null, and \<open>front\<close>, \<open>back\<close>, \<open>push_back\<close> and
  \<open>push_front\<close> follow the null link.
\<close>

theorem intrusive_list_pop_back_broken:
  assumes "is_ring h l xs"
  shows "\<exists>h'. ill_pop_back h l = Some h' \<and> ill_size h' l = Some (of_nat (length xs) - 1) \<and>
    (xs \<noteq> [] \<longrightarrow> il_get_next h' (Some (Elem (last xs))) = Some (Some (Elem (hd xs)))) \<and>
    (\<forall>ys. \<not> is_ring h' l ys) \<and> ill_begin h' l = Some \<lparr>it_node = None\<rparr> \<and>
    ill_front h' l = None \<and> ill_back h' l = None \<and> ill_push_back h' l v = None \<and> ill_push_front h' l v = None"
proof -
  have k: "link h (before l xs) (Sentinel l)" "link h (Sentinel l) (after l xs)"
    using is_ring_links(1) [of h l xs "[]"] is_ring_links(1) [of h l "[]" xs] assms by (simp_all add: post_def pre_def)
  obtain h' where h': "ill_erase h l \<lparr>it_node = Some (Sentinel l)\<rparr> = Some (\<lparr>it_node = Some (after l xs)\<rparr>, h')"
      "spliced_out h h' l (before l xs) (Sentinel l) (after l xs)"
    using ill_erase_spliced [OF k is_ring_size [OF assms]] by blast
  have s: "il_get_next h' (Some (Sentinel l)) = Some None" "il_get_prev h' (Some (Sentinel l)) = Some None"
    "lsize h' l = Some (of_nat (length xs) - 1)"
    using h'(2) is_ring_size [OF assms] by (auto simp: spliced_out_def)
  have "il_get_next h' (Some (Elem (last xs))) = Some (Some (Elem (hd xs)))" if "xs \<noteq> []"
  proof -
    have "before l xs = Elem (last xs)" "after l xs = Elem (hd xs)" using that by (simp_all add: pre_def post_def last_map hd_append hd_map)
    then show ?thesis using h'(2) by (simp add: spliced_out_def)
  qed
  moreover have "\<not> is_ring h' l ys" for ys using is_ring_last [of h' l ys] s(2) by auto
  ultimately show ?thesis
    using h'(1) s
    by (simp add: ill_pop_back_def ill_end_def ill_size_def ill_begin_def ill_front_def ill_back_def ili_deref_def ili_dec_def
        ill_push_back_def ill_push_front_def ill_insert_def)
qed

theorem intrusive_list_pop_back_broken_witness:
  "\<exists>h h'. foldM (\<lambda>h. ill_push_back h 0) [5, 6] lheap0 = Some h \<and> ill_pop_back h 0 = Some h' \<and>
    il_get_next h' (Some (Elem 6)) = Some (Some (Elem 5)) \<and> ill_front h' 0 = None"
proof -
  have d: "distinct [5, 6 :: nat]" by simp
  obtain h where h: "foldM (\<lambda>h. ill_push_back h 0) [5, 6] lheap0 = Some h" "is_ring h 0 [5, 6]"
    by (rule lheap0_list [OF d])
  from intrusive_list_pop_back_broken [OF h(2)] show ?thesis using h(1) by auto
qed

end
