(* ===== verification/HashFilo.thy ===== *)
theory HashFilo
  imports LinkRings "HOL-Library.Monad_Syntax"
begin

text \<open>
  \<open>hash_filo.h\<close>: a hash table of bounded size that evicts the entry used longest ago. The entries carry
  the links of a chain in the order of their last use. The functions of \<open>HASH\<close> are declared in \<open>hash.h\<close> and
  their code is not part of the repository: they are the argument \<open>F\<close> of the operations, and what is
  relied on is \<open>hash_laws\<close>. Entries are numbered; freeing one removes it from the store, so that a use
  after that gives \<^term>\<open>None\<close>, as do a null dereference and a mutex that is locked before its
  initialisation or twice.
\<close>

subsection \<open>The state\<close>

record hash_filo_element =
  next_used :: "nat option"
  prev_used :: "nat option"

datatype mutex = Not_initialized | Unlocked | Locked

record 'c HASH_functions =
  my_hash_init :: "uint \<Rightarrow> 'c"
  my_hash_free :: "'c \<Rightarrow> nat list"
  my_hash_search :: "'c \<Rightarrow> string \<Rightarrow> nat option"
  my_hash_insert :: "'c \<Rightarrow> nat \<Rightarrow> 'c option"
  my_hash_delete :: "'c \<Rightarrow> nat \<Rightarrow> 'c"
  records_of :: "'c \<Rightarrow> nat"
  zeroed :: 'c

record 'c hash_filo =
  m_size :: uint
  free_element :: bool
  init_done :: bool
  first_link :: "nat option"
  last_link :: "nat option"
  lock :: mutex
  cache :: 'c
  entries :: "nat \<rightharpoonup> hash_filo_element"

definition hf_get :: "'c hash_filo \<Rightarrow> nat option \<Rightarrow> hash_filo_element option" where
  "hf_get s p = (case p of None \<Rightarrow> None | Some e \<Rightarrow> entries s e)"

definition set_next_used :: "'c hash_filo \<Rightarrow> nat option \<Rightarrow> nat option \<Rightarrow> 'c hash_filo option" where
  "set_next_used s p v = (case p of None \<Rightarrow> None
     | Some e \<Rightarrow> map_option (\<lambda>x. s\<lparr>entries := (entries s)(e \<mapsto> x\<lparr>next_used := v\<rparr>)\<rparr>) (entries s e))"

definition set_prev_used :: "'c hash_filo \<Rightarrow> nat option \<Rightarrow> nat option \<Rightarrow> 'c hash_filo option" where
  "set_prev_used s p v = (case p of None \<Rightarrow> None
     | Some e \<Rightarrow> map_option (\<lambda>x. s\<lparr>entries := (entries s)(e \<mapsto> x\<lparr>prev_used := v\<rparr>)\<rparr>) (entries s e))"

definition free_entry :: "'c hash_filo \<Rightarrow> nat \<Rightarrow> 'c hash_filo" where
  "free_entry s e = (if free_element s then s\<lparr>entries := (entries s)(e := None)\<rparr> else s)"

definition mysql_mutex_lock :: "'c hash_filo \<Rightarrow> 'c hash_filo option" where
  "mysql_mutex_lock s = (if lock s = Unlocked then Some (s\<lparr>lock := Locked\<rparr>) else None)"

definition mysql_mutex_unlock :: "'c hash_filo \<Rightarrow> 'c hash_filo option" where
  "mysql_mutex_unlock s = (if lock s = Locked then Some (s\<lparr>lock := Unlocked\<rparr>) else None)"

subsection \<open>The operations\<close>

definition hash_filo_ctor :: "'c HASH_functions \<Rightarrow> uint \<Rightarrow> bool \<Rightarrow> (nat \<rightharpoonup> hash_filo_element) \<Rightarrow> 'c hash_filo" where
  "hash_filo_ctor F size_arg free_arg es = \<lparr>m_size = size_arg, free_element = free_arg, init_done = False,
     first_link = None, last_link = None, lock = Not_initialized, cache = zeroed F, entries = es\<rparr>"

definition hash_filo_dtor :: "'c HASH_functions \<Rightarrow> ('c \<Rightarrow> bool) \<Rightarrow> 'c hash_filo \<Rightarrow> 'c hash_filo" where
  "hash_filo_dtor F has_buffer s = (if init_done s
     then (if has_buffer (cache s) then foldl free_entry s (my_hash_free F (cache s)) else s)\<lparr>lock := Not_initialized\<rparr>
     else s)"

definition hf_clear :: "'c HASH_functions \<Rightarrow> 'c hash_filo \<Rightarrow> bool \<Rightarrow> 'c hash_filo option" where
  "hf_clear F s locked = do {
     let s1 = (if \<not> init_done s then s\<lparr>init_done := True, lock := Unlocked\<rparr> else s);
     s2 \<leftarrow> (if \<not> locked then mysql_mutex_lock s1 else Some s1);
     let s3 = s2\<lparr>first_link := None, last_link := None\<rparr>;
     let s4 = foldl free_entry s3 (my_hash_free F (cache s3));
     let s5 = s4\<lparr>cache := my_hash_init F (m_size s4)\<rparr>;
     (if \<not> locked then mysql_mutex_unlock s5 else Some s5)
   }"

definition hf_first :: "'c hash_filo \<Rightarrow> nat option" where
  "hf_first s = first_link s"

definition hf_last :: "'c hash_filo \<Rightarrow> nat option" where
  "hf_last s = last_link s"

definition unlink_used :: "'c hash_filo \<Rightarrow> nat \<Rightarrow> 'c hash_filo option" where
  "unlink_used s entry = (if Some entry = last_link s
     then do {
       l \<leftarrow> hf_get s (last_link s);
       let t = s\<lparr>last_link := prev_used l\<rparr>;
       set_next_used t (last_link t) None
     } else do {
       x \<leftarrow> hf_get s (Some entry);
       t \<leftarrow> set_prev_used s (next_used x) (prev_used x);
       y \<leftarrow> hf_get t (Some entry);
       set_next_used t (prev_used y) (next_used y)
     })"

definition hf_search :: "'c HASH_functions \<Rightarrow> 'c hash_filo \<Rightarrow> string \<Rightarrow> (nat option \<times> 'c hash_filo) option" where
  "hf_search F s key = (case my_hash_search F (cache s) key of
     None \<Rightarrow> Some (None, s)
   | Some entry \<Rightarrow>
       if Some entry \<noteq> first_link s then do {
         s1 \<leftarrow> unlink_used s entry;
         s2 \<leftarrow> set_prev_used s1 (Some entry) None;
         s3 \<leftarrow> set_next_used s2 (Some entry) (first_link s2);
         s4 \<leftarrow> set_prev_used s3 (first_link s3) (Some entry);
         Some (Some entry, s4\<lparr>first_link := Some entry\<rparr>)
       } else Some (Some entry, s))"

definition evict_last :: "'c HASH_functions \<Rightarrow> 'c hash_filo \<Rightarrow> 'c hash_filo option" where
  "evict_last F s = do {
     tmp \<leftarrow> last_link s;
     l \<leftarrow> hf_get s (last_link s);
     let t = s\<lparr>last_link := prev_used l\<rparr>;
     u \<leftarrow> (if last_link t \<noteq> None then set_next_used t (last_link t) None else Some (t\<lparr>first_link := None\<rparr>));
     Some (free_entry (u\<lparr>cache := my_hash_delete F (cache u) tmp\<rparr>) tmp)
   }"

definition hf_add :: "'c HASH_functions \<Rightarrow> 'c hash_filo \<Rightarrow> nat \<Rightarrow> (bool \<times> 'c hash_filo) option" where
  "hf_add F s entry = (if m_size s = 0 then Some (True, s) else do {
     s1 \<leftarrow> (if records_of F (cache s) = unat (m_size s) then evict_last F s else Some s);
     case my_hash_insert F (cache s1) entry of
       None \<Rightarrow> Some (True, free_entry s1 entry)
     | Some c \<Rightarrow> do {
         let s2 = s1\<lparr>cache := c\<rparr>;
         s3 \<leftarrow> set_prev_used s2 (Some entry) None;
         s4 \<leftarrow> set_next_used s3 (Some entry) (first_link s3);
         s5 \<leftarrow> (if first_link s4 \<noteq> None then set_prev_used s4 (first_link s4) (Some entry)
                else Some (s4\<lparr>last_link := Some entry\<rparr>));
         Some (False, s5\<lparr>first_link := Some entry\<rparr>)
       }
   })"

definition hf_size :: "'c hash_filo \<Rightarrow> uint" where
  "hf_size s = m_size s"

definition hf_resize :: "'c HASH_functions \<Rightarrow> 'c hash_filo \<Rightarrow> uint \<Rightarrow> 'c hash_filo option" where
  "hf_resize F s new_size = do {
     s1 \<leftarrow> mysql_mutex_lock s;
     s2 \<leftarrow> hf_clear F (s1\<lparr>m_size := new_size\<rparr>) True;
     mysql_mutex_unlock s2
   }"

subsection \<open>What the table promises\<close>

text \<open>The documented behaviour of \<open>HASH\<close>: its records are the inserted and not deleted ones, their number
  is counted, a search returns a record with the key if there is one, and an initialised table is empty.
  An insertion may fail, and then leaves the table as it is.\<close>

definition hash_laws :: "'c HASH_functions \<Rightarrow> (nat \<Rightarrow> string) \<Rightarrow> ('c \<Rightarrow> nat set) \<Rightarrow> bool" where
  "hash_laws F key recs \<longleftrightarrow>
     (\<forall>c. finite (recs c) \<and> records_of F c = card (recs c) \<and> set (my_hash_free F c) = recs c) \<and>
     (\<forall>c k. case my_hash_search F c k of None \<Rightarrow> \<forall>e \<in> recs c. key e \<noteq> k | Some e \<Rightarrow> e \<in> recs c \<and> key e = k) \<and>
     (\<forall>c e c'. e \<notin> recs c \<longrightarrow> my_hash_insert F c e = Some c' \<longrightarrow> recs c' = insert e (recs c)) \<and>
     (\<forall>c e. e \<in> recs c \<longrightarrow> recs (my_hash_delete F c e) = recs c - {e}) \<and>
     (\<forall>n. recs (my_hash_init F n) = {})"

lemma hash_lawsD:
  assumes "hash_laws F key recs"
  shows "records_of F c = card (recs c)" "set (my_hash_free F c) = recs c"
    "my_hash_search F c k = None \<Longrightarrow> e \<in> recs c \<Longrightarrow> key e \<noteq> k"
    "my_hash_search F c k = Some e \<Longrightarrow> e \<in> recs c \<and> key e = k"
    "e \<notin> recs c \<Longrightarrow> my_hash_insert F c e = Some c' \<Longrightarrow> recs c' = insert e (recs c)"
    "e \<in> recs c \<Longrightarrow> recs (my_hash_delete F c e) = recs c - {e}"
    "recs (my_hash_init F n) = {}"
proof -
  have "case my_hash_search F c k of None \<Rightarrow> \<forall>e \<in> recs c. key e \<noteq> k | Some e \<Rightarrow> e \<in> recs c \<and> key e = k"
    using assms by (simp add: hash_laws_def)
  then show "my_hash_search F c k = None \<Longrightarrow> e \<in> recs c \<Longrightarrow> key e \<noteq> k"
    "my_hash_search F c k = Some e \<Longrightarrow> e \<in> recs c \<and> key e = k" by auto
qed (use assms in \<open>auto simp: hash_laws_def\<close>)

subsection \<open>The chain of entries\<close>

text \<open>The two end pointers are the links of the header, for which \<^term>\<open>None\<close> stands.\<close>

definition hf_nx :: "'c hash_filo \<Rightarrow> nat option \<Rightarrow> nat option option" where
  "hf_nx s p = (case p of None \<Rightarrow> Some (first_link s) | Some e \<Rightarrow> map_option next_used (entries s e))"

definition hf_pv :: "'c hash_filo \<Rightarrow> nat option \<Rightarrow> nat option option" where
  "hf_pv s p = (case p of None \<Rightarrow> Some (last_link s) | Some e \<Rightarrow> map_option prev_used (entries s e))"

definition chain_of :: "'c hash_filo \<Rightarrow> nat list \<Rightarrow> bool" where
  "chain_of s xs \<longleftrightarrow> is_cyc (hf_nx s) (hf_pv s) None (map Some xs)"

text \<open>Chain and table hold the same entries, at most \<open>m_size\<close> of them.\<close>

definition filo_inv :: "('c \<Rightarrow> nat set) \<Rightarrow> 'c hash_filo \<Rightarrow> nat list \<Rightarrow> bool" where
  "filo_inv recs s xs \<longleftrightarrow> chain_of s xs \<and> recs (cache s) = set xs \<and> length xs \<le> unat (m_size s)"

lemma set_next_used_maps:
  assumes "set_next_used s (Some a) v = Some s'"
  shows "hf_nx s' = (hf_nx s)(Some a := Some v)" "hf_pv s' = hf_pv s" "first_link s' = first_link s" "last_link s' = last_link s"
    "cache s' = cache s" "m_size s' = m_size s" "free_element s' = free_element s" "dom (entries s') = dom (entries s)"
  using assms by (auto simp: set_next_used_def hf_nx_def hf_pv_def split: option.splits if_splits)

lemma set_prev_used_maps:
  assumes "set_prev_used s (Some a) v = Some s'"
  shows "hf_nx s' = hf_nx s" "hf_pv s' = (hf_pv s)(Some a := Some v)" "first_link s' = first_link s" "last_link s' = last_link s"
    "cache s' = cache s" "m_size s' = m_size s" "free_element s' = free_element s" "dom (entries s') = dom (entries s)"
  using assms by (auto simp: set_prev_used_def hf_nx_def hf_pv_def split: option.splits if_splits)

lemma set_used_ok:
  "a \<in> dom (entries s) \<Longrightarrow> \<exists>s'. set_next_used s (Some a) v = Some s'"
  "a \<in> dom (entries s) \<Longrightarrow> \<exists>s'. set_prev_used s (Some a) v = Some s'"
  by (auto simp: set_next_used_def set_prev_used_def)

lemma end_links [simp]:
  "hf_nx (s\<lparr>first_link := v\<rparr>) = (hf_nx s)(None := Some v)" "hf_pv (s\<lparr>first_link := v\<rparr>) = hf_pv s"
  "hf_nx (s\<lparr>last_link := v\<rparr>) = hf_nx s" "hf_pv (s\<lparr>last_link := v\<rparr>) = (hf_pv s)(None := Some v)"
  "hf_nx (s\<lparr>cache := c\<rparr>) = hf_nx s" "hf_pv (s\<lparr>cache := c\<rparr>) = hf_pv s"
  by (auto simp: hf_nx_def hf_pv_def split: option.splits)


text \<open>The header's neighbour on either side, and those of an entry.\<close>

abbreviation newer :: "nat list \<Rightarrow> nat option" where
  "newer us \<equiv> pre None (map Some us)"

abbreviation older :: "nat list \<Rightarrow> nat option" where
  "older vs \<equiv> post None (map Some vs)"

lemma older_newer [simp]: "older [] = None" "older (x # xs) = Some x" "newer [] = None" "newer (xs @ [x]) = Some x"
  by simp_all

lemma chain_ends:
  assumes "chain_of s xs"
  shows "first_link s = older xs" "last_link s = newer xs" "distinct xs"
proof -
  have c: "is_cyc (hf_nx s) (hf_pv s) None ([] @ map Some xs)" "is_cyc (hf_nx s) (hf_pv s) None (map Some xs @ [])"
    using assms by (simp_all add: chain_of_def)
  show "first_link s = older xs" using is_cyc_links(1) [OF c(1)] by (simp add: rlink_def hf_nx_def)
  show "last_link s = newer xs" using is_cyc_links(1) [OF c(2)] by (simp add: rlink_def hf_pv_def)
  show "distinct xs" using assms by (simp add: chain_of_def is_cyc_def distinct_map)
qed

lemma chain_entry:
  assumes "chain_of s (us @ e # vs)"
  obtains x where "entries s e = Some x" "next_used x = older vs" "prev_used x = newer us"
proof -
  have c: "is_cyc (hf_nx s) (hf_pv s) None (map Some us @ Some e # map Some vs)" using assms by (simp add: chain_of_def)
  have l: "rlink (hf_nx s) (hf_pv s) (newer us) (Some e)" "rlink (hf_nx s) (hf_pv s) (Some e) (older vs)"
    using is_cyc_links(2) [OF c] by simp_all
  then show ?thesis using that by (auto simp: rlink_def hf_nx_def hf_pv_def)
qed

lemma chain_stored: "chain_of s xs \<Longrightarrow> e \<in> set xs \<Longrightarrow> e \<in> dom (entries s)"
  by (metis chain_entry domI split_list)

text \<open>Linking an entry in front of the chain and taking one out of it, in terms of the links.\<close>

lemma chain_front:
  assumes "chain_of s xs" "e \<notin> set xs"
    and "hf_nx s' = (hf_nx s)(None := Some (Some e), Some e := Some (older xs))"
    and "hf_pv s' = (hf_pv s)(older xs := Some (Some e), Some e := Some None)"
  shows "chain_of s' (e # xs)"
  using is_cyc_insert [of "hf_nx s" "hf_pv s" None "[]" "map Some xs" "Some e"] assms by (auto simp: chain_of_def)

lemma chain_unlink:
  assumes "chain_of s (us @ e # vs)"
    and "\<And>p. p \<noteq> Some e \<Longrightarrow> hf_nx s' p = ((hf_nx s)(newer us := Some (older vs))) p"
    and "\<And>p. p \<noteq> Some e \<Longrightarrow> hf_pv s' p = ((hf_pv s)(older vs := Some (newer us))) p"
  shows "chain_of s' (us @ vs)"
proof -
  have "is_cyc (hf_nx s) (hf_pv s) None (map Some us @ Some e # map Some vs)" using assms(1) by (simp add: chain_of_def)
  from is_cyc_remove [OF this, of "hf_nx s' (Some e)" "hf_pv s' (Some e)"]
  have "is_cyc ((hf_nx s)(newer us := Some (older vs), Some e := hf_nx s' (Some e)))
      ((hf_pv s)(older vs := Some (newer us), Some e := hf_pv s' (Some e))) None (map Some us @ map Some vs)" .
  moreover have "hf_nx s' = (hf_nx s)(newer us := Some (older vs), Some e := hf_nx s' (Some e))"
    "hf_pv s' = (hf_pv s)(older vs := Some (newer us), Some e := hf_pv s' (Some e))"
    using assms(2,3) by (auto simp: fun_eq_iff)
  ultimately show ?thesis by (simp add: chain_of_def)
qed

text \<open>The statements of \<open>search\<close> and \<open>add\<close> that put an entry in front of the chain.\<close>

lemma link_first:
  assumes "chain_of s xs" "e \<in> dom (entries s)" "e \<notin> set xs"
  obtains s3 s4 s5 where "set_prev_used s (Some e) None = Some s3" "set_next_used s3 (Some e) (first_link s3) = Some s4"
    "(if first_link s4 \<noteq> None then set_prev_used s4 (first_link s4) (Some e) else Some (s4\<lparr>last_link := Some e\<rparr>)) = Some s5"
    "chain_of (s5\<lparr>first_link := Some e\<rparr>) (e # xs)" "cache s5 = cache s" "m_size s5 = m_size s" "free_element s5 = free_element s"
    "dom (entries s5) = dom (entries s)" "first_link s4 = older xs"
proof -
  obtain s3 where s3: "set_prev_used s (Some e) None = Some s3" using set_used_ok(2) [OF assms(2)] by blast
  note m3 = set_prev_used_maps [OF s3]
  obtain s4 where s4: "set_next_used s3 (Some e) (first_link s3) = Some s4"
    using set_used_ok(1) [of e s3] assms(2) m3(8) by blast
  note m4 = set_next_used_maps [OF s4]
  have f: "first_link s4 = older xs" using m3 m4 chain_ends(1) [OF assms(1)] by simp
  obtain s5 where s5: "(if first_link s4 \<noteq> None then set_prev_used s4 (first_link s4) (Some e) else Some (s4\<lparr>last_link := Some e\<rparr>)) = Some s5"
      "hf_nx s5 = hf_nx s4" "hf_pv s5 = (hf_pv s4)(older xs := Some (Some e))" "cache s5 = cache s4" "m_size s5 = m_size s4"
      "free_element s5 = free_element s4" "dom (entries s5) = dom (entries s4)"
  proof (cases xs)
    case Nil
    then show ?thesis using that [of "s4\<lparr>last_link := Some e\<rparr>"] f by simp
  next
    case (Cons y ys)
    then have "y \<in> dom (entries s4)" using chain_stored [OF assms(1)] m3(8) m4(8) by simp
    then obtain s5 where s5: "set_prev_used s4 (Some y) (Some e) = Some s5" using set_used_ok(2) by blast
    show ?thesis using that [of s5] set_prev_used_maps [OF s5] s5 f Cons by simp
  qed
  have ne: "older xs \<noteq> Some e" using assms(3) by (cases xs) auto
  have "hf_nx (s5\<lparr>first_link := Some e\<rparr>) = (hf_nx s)(None := Some (Some e), Some e := Some (older xs))"
    using s5(2) m3 m4 chain_ends(1) [OF assms(1)] by (auto simp: fun_upd_twist)
  moreover have "hf_pv (s5\<lparr>first_link := Some e\<rparr>) = (hf_pv s)(older xs := Some (Some e), Some e := Some None)"
    using s5(3) m3 m4 ne by (auto simp: fun_upd_twist)
  ultimately have "chain_of (s5\<lparr>first_link := Some e\<rparr>) (e # xs)" by (rule chain_front [OF assms(1,3)])
  then show ?thesis using that [OF s3 s4 s5(1)] s5(4-7) m3 m4 f by simp
qed


text \<open>Taking an entry out that is not the first one: both branches of \<open>search\<close>.\<close>

lemma search_unlink:
  assumes "chain_of s (us @ e # vs)" "us \<noteq> []"
  obtains s1 where "unlink_used s e = Some s1" "chain_of s1 (us @ vs)" "cache s1 = cache s" "m_size s1 = m_size s" "free_element s1 = free_element s"
    "dom (entries s1) = dom (entries s)"
proof -
  obtain ws b where us: "us = ws @ [b]" using assms(2) by (cases us rule: rev_cases) auto
  then have b: "newer us = Some b" by simp
  obtain x where x: "entries s e = Some x" "next_used x = older vs" "prev_used x = Some b"
    using chain_entry [OF assms(1)] b by metis
  have bd: "b \<in> dom (entries s)" using chain_stored [OF assms(1)] us by simp
  have d: "distinct (us @ e # vs)" by (rule chain_ends(3) [OF assms(1)])
  show ?thesis
  proof (cases vs)
    case Nil
    have l: "last_link s = Some e" using chain_ends(2) [OF assms(1)] Nil by simp
    obtain s1 where s1: "set_next_used (s\<lparr>last_link := Some b\<rparr>) (Some b) None = Some s1"
      using set_used_ok(1) [of b "s\<lparr>last_link := Some b\<rparr>"] bd by auto
    note m = set_next_used_maps [OF s1]
    have "chain_of s1 (us @ vs)" by (rule chain_unlink [OF assms(1)]) (simp_all add: m b Nil)
    then show ?thesis using that [of s1] l x s1 m by (simp add: hf_get_def unlink_used_def)
  next
    case (Cons c cs)
    have l: "last_link s \<noteq> Some e"
    proof -
      have "last_link s = newer ((us @ [e]) @ vs)" using chain_ends(2) [OF assms(1)] by simp
      then have "last_link s = Some (last vs)" using Cons by (simp add: pre_def last_map)
      then show ?thesis using d Cons last_in_set [of vs] by auto
    qed
    have "c \<in> dom (entries s)" using chain_stored [OF assms(1)] Cons by simp
    then obtain t where t: "set_prev_used s (Some c) (Some b) = Some t" using set_used_ok(2) by blast
    note mt = set_prev_used_maps [OF t]
    have ec: "c \<noteq> e" "b \<noteq> e" using d Cons us by auto
    obtain y where y: "entries t e = Some y" "prev_used y = Some b" "next_used y = Some c"
      using t x ec Cons by (auto simp: set_prev_used_def)
    obtain s1 where s1: "set_next_used t (Some b) (Some c) = Some s1"
      using set_used_ok(1) [of b t] bd mt(8) by blast
    note m = set_next_used_maps [OF s1]
    have "chain_of s1 (us @ vs)" by (rule chain_unlink [OF assms(1)]) (simp_all add: m mt b Cons)
    then show ?thesis using that [of s1] l x y t s1 m mt Cons by (simp add: hf_get_def unlink_used_def)
  qed
qed

lemma hf_search_found:
  assumes "chain_of s xs" "my_hash_search F (cache s) k = Some e" "e \<in> set xs"
  shows "\<exists>s'. hf_search F s k = Some (Some e, s') \<and> chain_of s' (e # filter (\<lambda>x. x \<noteq> e) xs) \<and> cache s' = cache s \<and>
    m_size s' = m_size s \<and> free_element s' = free_element s \<and> dom (entries s') = dom (entries s)"
proof -
  obtain us vs where xs: "xs = us @ e # vs" using split_list [OF assms(3)] by blast
  have d: "distinct (us @ e # vs)" using chain_ends(3) [OF assms(1)] xs by simp
  have fl: "filter (\<lambda>x. x \<noteq> e) us = us" "filter (\<lambda>x. x \<noteq> e) vs = vs" using d by (auto simp: filter_id_conv)
  then have f: "filter (\<lambda>x. x \<noteq> e) xs = us @ vs" using xs by simp
  show ?thesis
  proof (cases us)
    case Nil
    then have "first_link s = Some e" using chain_ends(1) [OF assms(1)] xs by simp
    then show ?thesis using assms(1,2) f Nil xs by (auto simp: hf_search_def)
  next
    case (Cons u ws)
    have c: "chain_of s (us @ e # vs)" "us \<noteq> []" using assms(1) xs Cons by simp_all
    have nf: "Some e \<noteq> first_link s" using chain_ends(1) [OF c(1)] d Cons by simp
    show ?thesis
    proof (rule search_unlink [OF c])
      fix s1
      assume s1: "unlink_used s e = Some s1" "chain_of s1 (us @ vs)" "cache s1 = cache s" "m_size s1 = m_size s" "free_element s1 = free_element s"
        "dom (entries s1) = dom (entries s)"
      have e: "e \<in> dom (entries s1)" "e \<notin> set (us @ vs)" using chain_stored [OF assms(1,3)] s1(6) d by auto
      show ?thesis
      proof (rule link_first [OF s1(2) e])
        fix s3 s4 s5
        assume h: "set_prev_used s1 (Some e) None = Some s3" "set_next_used s3 (Some e) (first_link s3) = Some s4"
          "(if first_link s4 \<noteq> None then set_prev_used s4 (first_link s4) (Some e) else Some (s4\<lparr>last_link := Some e\<rparr>)) = Some s5"
          "chain_of (s5\<lparr>first_link := Some e\<rparr>) (e # us @ vs)" "cache s5 = cache s1" "m_size s5 = m_size s1"
          "free_element s5 = free_element s1" "dom (entries s5) = dom (entries s1)" "first_link s4 = older (us @ vs)"
        have "set_prev_used s4 (first_link s4) (Some e) = Some s5" using h(3,9) Cons by simp
        then have "hf_search F s k = Some (Some e, s5\<lparr>first_link := Some e\<rparr>)"
          using assms(2) nf s1(1) h(1,2) by (simp add: hf_search_def)
        then show ?thesis using h s1 f by simp
      qed
    qed
  qed
qed


lemma free_entry_fields [simp]:
  "cache (free_entry s e) = cache s" "m_size (free_entry s e) = m_size s" "free_element (free_entry s e) = free_element s"
  "first_link (free_entry s e) = first_link s" "last_link (free_entry s e) = last_link s"
  "entries (free_entry s e) = (if free_element s then (entries s)(e := None) else entries s)"
  by (simp_all add: free_entry_def)

lemma free_entry_maps:
  "p \<noteq> Some e \<Longrightarrow> hf_nx (free_entry s e) p = hf_nx s p" "p \<noteq> Some e \<Longrightarrow> hf_pv (free_entry s e) p = hf_pv s p"
  by (auto simp: free_entry_def hf_nx_def hf_pv_def split: option.splits)

lemma free_entry_chain:
  assumes "chain_of s xs" "e \<notin> set xs"
  shows "chain_of (free_entry s e) xs"
  unfolding chain_of_def
proof (rule is_cyc_frame)
  show "is_cyc (hf_nx s) (hf_pv s) None (map Some xs)" using assms(1) by (simp add: chain_of_def)
  fix p assume "p \<in> set (None # map Some xs)"
  then have "p \<noteq> Some e" using assms(2) by auto
  then show "hf_nx (free_entry s e) p = hf_nx s p \<and> hf_pv (free_entry s e) p = hf_pv s p" by (simp add: free_entry_maps)
qed

lemma evict_last_spec:
  assumes "chain_of s (ys @ [z])"
  shows "\<exists>s'. evict_last F s = Some s' \<and> chain_of s' ys \<and> cache s' = my_hash_delete F (cache s) z \<and> m_size s' = m_size s \<and>
    free_element s' = free_element s \<and> dom (entries s') = dom (entries s) - (if free_element s then {z} else {})"
proof -
  obtain x where x: "entries s z = Some x" "prev_used x = newer ys" using chain_entry [OF assms] by metis
  have l: "last_link s = Some z" using chain_ends(2) [OF assms] by simp
  have d: "z \<notin> set ys" using chain_ends(3) [OF assms] by simp
  let ?t = "s\<lparr>last_link := newer ys\<rparr>"
  obtain u where u: "(if newer ys \<noteq> None then set_next_used ?t (newer ys) None else Some (?t\<lparr>first_link := None\<rparr>)) = Some u"
      "hf_nx u = (hf_nx s)(newer ys := Some None)" "hf_pv u = (hf_pv s)(None := Some (newer ys))" "cache u = cache s" "m_size u = m_size s"
      "free_element u = free_element s" "dom (entries u) = dom (entries s)"
  proof (cases ys rule: rev_cases)
    case Nil
    then show ?thesis using that [of "?t\<lparr>first_link := None\<rparr>"] by simp
  next
    case (snoc ws b)
    have "b \<in> dom (entries ?t)" using chain_stored [OF assms, of b] snoc by simp
    then obtain u where u: "set_next_used ?t (Some b) None = Some u" using set_used_ok(1) by blast
    show ?thesis using that [of u] set_next_used_maps [OF u] u snoc by simp
  qed
  let ?s = "free_entry (u\<lparr>cache := my_hash_delete F (cache u) z\<rparr>) z"
  have "chain_of ?s (ys @ [])"
    by (rule chain_unlink [OF assms]) (simp_all add: free_entry_maps u(2,3))
  moreover have "evict_last F s = Some ?s" using l x u(1) by (auto simp: evict_last_def hf_get_def Let_def split: if_splits)
  moreover have "dom (entries ?s) = dom (entries s) - (if free_element s then {z} else {})" using u(6,7) by auto
  ultimately show ?thesis using u by simp
qed

text \<open>The behaviour of \<open>add\<close> once there is room.\<close>

definition hf_add_room :: "'c HASH_functions \<Rightarrow> 'c hash_filo \<Rightarrow> nat \<Rightarrow> (bool \<times> 'c hash_filo) option" where
  "hf_add_room F s1 entry = (case my_hash_insert F (cache s1) entry of
       None \<Rightarrow> Some (True, free_entry s1 entry)
     | Some c \<Rightarrow> do {
         let s2 = s1\<lparr>cache := c\<rparr>;
         s3 \<leftarrow> set_prev_used s2 (Some entry) None;
         s4 \<leftarrow> set_next_used s3 (Some entry) (first_link s3);
         s5 \<leftarrow> (if first_link s4 \<noteq> None then set_prev_used s4 (first_link s4) (Some entry)
                else Some (s4\<lparr>last_link := Some entry\<rparr>));
         Some (False, s5\<lparr>first_link := Some entry\<rparr>)
       })"

lemma hf_add_split:
  "hf_add F s entry = (if m_size s = 0 then Some (True, s) else
     Option.bind (if records_of F (cache s) = unat (m_size s) then evict_last F s else Some s) (\<lambda>s1. hf_add_room F s1 entry))"
  by (simp add: hf_add_def hf_add_room_def)

lemma hf_add_room_spec:
  assumes "hash_laws F key recs" "chain_of s xs" "recs (cache s) = set xs" "e \<notin> set xs" "e \<in> dom (entries s)"
    "length xs < unat (m_size s)"
  shows "\<exists>failed s'. hf_add_room F s e = Some (failed, s') \<and> filo_inv recs s' (if failed then xs else e # xs) \<and>
    failed = (my_hash_insert F (cache s) e = None) \<and> m_size s' = m_size s \<and> free_element s' = free_element s \<and>
    dom (entries s') = dom (entries s) - (if failed \<and> free_element s then {e} else {})"
proof (cases "my_hash_insert F (cache s) e")
  case None
  then show ?thesis using free_entry_chain [OF assms(2,4)] assms(3,6) by (auto simp: hf_add_room_def filo_inv_def)
next
  case (Some c)
  have r: "recs c = insert e (set xs)" using hash_lawsD(5) [OF assms(1) _ Some] assms(3,4) by simp
  let ?s = "s\<lparr>cache := c\<rparr>"
  have p: "chain_of ?s xs" "e \<in> dom (entries ?s)" using assms(2,5) by (simp_all add: chain_of_def)
  show ?thesis
    by (rule link_first [OF p assms(4)], rule exI [of _ False])
      (use Some r assms(6) in \<open>simp add: hf_add_room_def filo_inv_def\<close>)
qed


text \<open>The chain that \<open>add\<close> leaves: a full one loses its last entry first.\<close>

definition kept :: "uint \<Rightarrow> nat list \<Rightarrow> nat list" where
  "kept n xs = (if length xs = unat n then butlast xs else xs)"

lemma kept_Nil [simp]: "kept n [] = []"
  by (simp add: kept_def)

lemma hf_add_spec:
  assumes "hash_laws F key recs" "filo_inv recs s xs" "e \<notin> set xs" "e \<in> dom (entries s)" "m_size s \<noteq> 0"
  shows "\<exists>failed s'. hf_add F s e = Some (failed, s') \<and>
    filo_inv recs s' (if failed then kept (m_size s) xs else e # kept (m_size s) xs) \<and> (failed \<longrightarrow> (\<exists>c. my_hash_insert F c e = None)) \<and>
    m_size s' = m_size s \<and> free_element s' = free_element s \<and>
    dom (entries s') = dom (entries s) - (if free_element s then (set xs - set (kept (m_size s) xs)) \<union> (if failed then {e} else {}) else {})"
proof -
  have i: "chain_of s xs" "recs (cache s) = set xs" "length xs \<le> unat (m_size s)" using assms(2) by (auto simp: filo_inv_def)
  have rec: "records_of F (cache s) = length xs"
    using hash_lawsD(1) [OF assms(1)] i(2) distinct_card [OF chain_ends(3) [OF i(1)]] by simp
  obtain s1 where s1: "(if records_of F (cache s) = unat (m_size s) then evict_last F s else Some s) = Some s1"
      "chain_of s1 (kept (m_size s) xs)" "recs (cache s1) = set (kept (m_size s) xs)" "m_size s1 = m_size s"
      "free_element s1 = free_element s"
      "dom (entries s1) = dom (entries s) - (if free_element s then set xs - set (kept (m_size s) xs) else {})"
  proof (cases "length xs = unat (m_size s)")
    case False
    then show ?thesis using that [of s] i rec by (simp add: kept_def)
  next
    case True
    then have "xs \<noteq> []" using assms(5) by (auto simp: unat_eq_0)
    then obtain ys z where xs: "xs = ys @ [z]" by (cases xs rule: rev_cases) auto
    have d: "z \<notin> set ys" using chain_ends(3) [OF i(1)] xs by simp
    obtain s' where s': "evict_last F s = Some s'" "chain_of s' ys" "cache s' = my_hash_delete F (cache s) z" "m_size s' = m_size s"
        "free_element s' = free_element s" "dom (entries s') = dom (entries s) - (if free_element s then {z} else {})"
      using evict_last_spec [of s ys z F] i(1) xs by blast
    have "recs (cache s') = set ys" using hash_lawsD(6) [OF assms(1), of z "cache s"] i(2) xs d s'(3) by auto
    moreover have "kept (m_size s) xs = ys" "set xs - set ys = {z}" using True xs d by (auto simp: kept_def)
    ultimately show ?thesis using that [of s'] s' rec True by simp
  qed
  have "length (kept (m_size s) xs) < unat (m_size s1)" using i(3) assms(5) s1(4) by (auto simp: kept_def unat_gt_0 order_le_less)
  moreover have "set (kept (m_size s) xs) \<subseteq> set xs" by (auto simp: kept_def dest: in_set_butlastD)
  moreover from this have "e \<notin> set (kept (m_size s) xs)" "e \<in> dom (entries s1)" using assms(3,4) s1(6) by auto
  ultimately obtain failed s' where s': "hf_add_room F s1 e = Some (failed, s')"
      "filo_inv recs s' (if failed then kept (m_size s) xs else e # kept (m_size s) xs)"
      "m_size s' = m_size s1" "free_element s' = free_element s1" "failed = (my_hash_insert F (cache s1) e = None)"
      "dom (entries s') = dom (entries s1) - (if failed \<and> free_element s1 then {e} else {})"
    using hf_add_room_spec [OF assms(1) s1(2,3), of e] by blast
  have "hf_add F s e = Some (failed, s')" using s1(1) s'(1) assms(5) by (simp add: hf_add_split)
  moreover have "dom (entries s') = dom (entries s) - (if free_element s then (set xs - set (kept (m_size s) xs)) \<union> (if failed then {e} else {}) else {})"
    using s'(6) s1(5,6) by auto
  moreover have "failed \<longrightarrow> (\<exists>c. my_hash_insert F c e = None)" using s'(5) by auto
  ultimately show ?thesis using s' s1 by auto
qed

lemma hf_search_spec:
  assumes "hash_laws F key recs" "filo_inv recs s xs"
  shows "\<exists>r s'. hf_search F s k = Some (r, s') \<and>
    (case r of None \<Rightarrow> s' = s \<and> (\<forall>x \<in> set xs. key x \<noteq> k)
     | Some e \<Rightarrow> e \<in> set xs \<and> key e = k \<and> filo_inv recs s' (e # filter (\<lambda>x. x \<noteq> e) xs) \<and> m_size s' = m_size s \<and>
         free_element s' = free_element s \<and> dom (entries s') = dom (entries s))"
proof (cases "my_hash_search F (cache s) k")
  case None
  then show ?thesis using hash_lawsD(3) [OF assms(1) None] assms(2) by (auto simp: hf_search_def filo_inv_def)
next
  case (Some e)
  have i: "chain_of s xs" "recs (cache s) = set xs" "length xs \<le> unat (m_size s)" using assms(2) by (auto simp: filo_inv_def)
  have e: "e \<in> set xs" "key e = k" using hash_lawsD(4) [OF assms(1) Some] i(2) by auto
  obtain s' where s': "hf_search F s k = Some (Some e, s')" "chain_of s' (e # filter (\<lambda>x. x \<noteq> e) xs)" "cache s' = cache s"
      "m_size s' = m_size s" "free_element s' = free_element s" "dom (entries s') = dom (entries s)"
    using hf_search_found [OF i(1) Some e(1)] by blast
  have "length (filter (\<lambda>x. x \<noteq> e) xs) < length xs" using e(1) by (auto intro: length_filter_less)
  then have "filo_inv recs s' (e # filter (\<lambda>x. x \<noteq> e) xs)" using s' i e(1) by (auto simp: filo_inv_def)
  then show ?thesis using s' e by auto
qed

lemma hf_clear_spec:
  assumes "hash_laws F key recs" "init_done s \<Longrightarrow> lock s = (if locked then Locked else Unlocked)" "\<not> init_done s \<Longrightarrow> \<not> locked"
  shows "\<exists>s'. hf_clear F s locked = Some s' \<and> filo_inv recs s' [] \<and> init_done s' \<and> lock s' = (if locked then Locked else Unlocked) \<and>
    m_size s' = m_size s \<and> dom (entries s') = dom (entries s) - (if free_element s then recs (cache s) else {})"
proof -
  have fold: "foldl free_entry t es = t\<lparr>entries := (if free_element t then (entries t) |` (- set es) else entries t)\<rparr>" for t :: "'a hash_filo" and es
  proof (induction es arbitrary: t)
    case (Cons a es)
    have "(entries t)(a := None) |` (- set es) = entries t |` (- set (a # es))" by (auto simp: restrict_map_def fun_eq_iff)
    then show ?case using Cons by (simp add: free_entry_def)
  qed (simp add: restrict_map_def)
  show ?thesis
    using assms hash_lawsD(2,7) [OF assms(1)]
    by (cases s) (auto simp: hf_clear_def mysql_mutex_lock_def mysql_mutex_unlock_def fold filo_inv_def chain_of_def is_cyc_def cyc_def
        rlink_def hf_nx_def hf_pv_def Let_def dom_def restrict_map_def)
qed


subsection \<open>Sequences of operations\<close>

datatype filo_op = Search string | Add nat

fun filo_step :: "'c HASH_functions \<Rightarrow> 'c hash_filo \<Rightarrow> filo_op \<Rightarrow> 'c hash_filo option" where
  "filo_step F s (Search k) = map_option snd (hf_search F s k)"
| "filo_step F s (Add e) = map_option snd (hf_add F s e)"

fun added :: "filo_op \<Rightarrow> nat list" where
  "added (Search k) = []"
| "added (Add e) = [e]"

text \<open>An entry moves back in the chain by at most one place per operation.\<close>

lemma search_place:
  assumes "distinct (us @ e # vs)" "f \<in> set (us @ e # vs)"
  obtains us' vs' where "f # filter (\<lambda>x. x \<noteq> f) (us @ e # vs) = us' @ e # vs'" "length us' \<le> Suc (length us)"
proof (cases "f = e")
  case True
  then show ?thesis using that [of "[]"] by simp
next
  case False
  then show ?thesis
    using that [of "f # filter (\<lambda>x. x \<noteq> f) us" "filter (\<lambda>x. x \<noteq> f) vs"] length_filter_le [of _ us] by auto
qed

lemma kept_place:
  assumes "Suc (length us) < unat n" "length (us @ e # vs) \<le> unat n"
  obtains vs' where "kept n (us @ e # vs) = us @ e # vs'"
proof (cases "length (us @ e # vs) = unat n")
  case True
  then have "vs \<noteq> []" using assms(1) by auto
  then have "butlast (us @ e # vs) = us @ e # butlast vs" by (simp add: butlast_append)
  then show ?thesis using that True by (simp add: kept_def)
qed (use that in \<open>simp add: kept_def\<close>)

lemma filo_step_place:
  assumes "hash_laws F key recs" "filo_inv recs s (us @ e # vs)" "set (added opn) \<inter> set (us @ e # vs) = {}"
    and "set (added opn) \<subseteq> dom (entries s)" "Suc (length us) < unat (m_size s)"
  shows "\<exists>s1 us1 vs1. filo_step F s opn = Some s1 \<and> filo_inv recs s1 (us1 @ e # vs1) \<and> length us1 \<le> Suc (length us) \<and>
    m_size s1 = m_size s \<and> set (us1 @ e # vs1) \<subseteq> set (us @ e # vs) \<union> set (added opn) \<and>
    dom (entries s) - (set (us @ e # vs) \<union> set (added opn)) \<subseteq> dom (entries s1)"
proof (cases opn)
  case (Search k)
  have d: "distinct (us @ e # vs)" using chain_ends(3) [of s "us @ e # vs"] assms(2) by (simp add: filo_inv_def)
  obtain r s1 where s1: "hf_search F s k = Some (r, s1)" "case r of None \<Rightarrow> s1 = s \<and> (\<forall>x \<in> set (us @ e # vs). key x \<noteq> k)
     | Some f \<Rightarrow> f \<in> set (us @ e # vs) \<and> key f = k \<and> filo_inv recs s1 (f # filter (\<lambda>x. x \<noteq> f) (us @ e # vs)) \<and> m_size s1 = m_size s \<and>
         free_element s1 = free_element s \<and> dom (entries s1) = dom (entries s)"
    using hf_search_spec [OF assms(1,2), of k] by (elim exE conjE) (rule that)
  show ?thesis
  proof (cases r)
    case None
    then have "filo_step F s opn = Some s" using s1 Search by simp
    then have "filo_step F s opn = Some s \<and> filo_inv recs s (us @ e # vs) \<and> length us \<le> Suc (length us) \<and>
        m_size s = m_size s \<and> set (us @ e # vs) \<subseteq> set (us @ e # vs) \<union> set (added opn) \<and>
        dom (entries s) - (set (us @ e # vs) \<union> set (added opn)) \<subseteq> dom (entries s)"
      using assms(2) by auto
    then show ?thesis by blast
  next
    case (Some f)
    then have f: "f \<in> set (us @ e # vs)" "filo_inv recs s1 (f # filter (\<lambda>x. x \<noteq> f) (us @ e # vs))" "m_size s1 = m_size s"
      "dom (entries s1) = dom (entries s)" using s1(2) by auto
    obtain us' vs' where p: "f # filter (\<lambda>x. x \<noteq> f) (us @ e # vs) = us' @ e # vs'" "length us' \<le> Suc (length us)"
      by (rule search_place [OF d f(1)])
    have "set (f # filter (\<lambda>x. x \<noteq> f) (us @ e # vs)) \<subseteq> set (us @ e # vs)" using f(1) by auto
    then have "set (us' @ e # vs') \<subseteq> set (us @ e # vs)" unfolding p(1) .
    moreover have "filo_step F s opn = Some s1" using s1(1) Search by simp
    moreover have "filo_inv recs s1 (us' @ e # vs')" using f(2) unfolding p(1) .
    ultimately show ?thesis using p(2) f(3,4) by blast
  qed
next
  case (Add a)
  have l: "length (us @ e # vs) \<le> unat (m_size s)" using assms(2) by (simp add: filo_inv_def)
  have sz: "m_size s \<noteq> 0" using assms(5) by auto
  obtain ws where k: "kept (m_size s) (us @ e # vs) = us @ e # ws" by (rule kept_place [OF assms(5) l])
  have "set (kept (m_size s) (us @ e # vs)) \<subseteq> set (us @ e # vs)" by (auto simp: kept_def dest: in_set_butlastD)
  then have ks: "set (us @ e # ws) \<subseteq> set (us @ e # vs)" unfolding k .
  have a: "a \<notin> set (us @ e # vs)" "a \<in> dom (entries s)" using assms(3,4) Add by auto
  obtain failed s1 where s1: "hf_add F s a = Some (failed, s1)" "filo_inv recs s1 (if failed then us @ e # ws else a # us @ e # ws)"
      "m_size s1 = m_size s" "free_element s1 = free_element s" "failed \<longrightarrow> (\<exists>c. my_hash_insert F c a = None)"
      "dom (entries s1) = dom (entries s) - (if free_element s then (set (us @ e # vs) - set (us @ e # ws)) \<union> (if failed then {a} else {}) else {})"
    using hf_add_spec [OF assms(1,2) a sz] unfolding k by (elim exE conjE) (rule that)
  define us' where "us' = (if failed then us else a # us)"
  have "filo_inv recs s1 (us' @ e # ws)" using s1(2) by (cases failed) (simp_all add: us'_def)
  moreover have "set (us' @ e # ws) \<subseteq> set (us @ e # vs) \<union> set (added opn)" using ks Add by (auto simp: us'_def)
  moreover have "dom (entries s) - (set (us @ e # vs) \<union> set (added opn)) \<subseteq> dom (entries s1)" unfolding s1(6) using Add by auto
  moreover have "length us' \<le> Suc (length us)" by (simp add: us'_def)
  moreover have "filo_step F s opn = Some s1" using s1(1) Add by simp
  ultimately show ?thesis using s1(3) by blast
qed

lemma filo_run_keeps:
  assumes "hash_laws F key recs" "filo_inv recs s (us @ e # vs)"
    and "distinct (concat (map added ops))" "set (concat (map added ops)) \<inter> set (us @ e # vs) = {}"
    and "set (concat (map added ops)) \<subseteq> dom (entries s)" "length us + length ops < unat (m_size s)"
  shows "\<exists>s' us' vs'. foldM (filo_step F) ops s = Some s' \<and> filo_inv recs s' (us' @ e # vs') \<and>
    length us' \<le> length us + length ops \<and> set (us' @ e # vs') \<subseteq> set (us @ e # vs) \<union> set (concat (map added ops))"
  using assms(2-)
proof (induction ops arbitrary: s us vs)
  case Nil
  then show ?case by auto
next
  case (Cons opn ops)
  have p: "set (added opn) \<inter> set (us @ e # vs) = {}" "set (added opn) \<subseteq> dom (entries s)" "Suc (length us) < unat (m_size s)"
    using Cons.prems by auto
  obtain s1 us1 vs1 where s1: "filo_step F s opn = Some s1" "filo_inv recs s1 (us1 @ e # vs1)" "length us1 \<le> Suc (length us)"
    "m_size s1 = m_size s" "set (us1 @ e # vs1) \<subseteq> set (us @ e # vs) \<union> set (added opn)"
    "dom (entries s) - (set (us @ e # vs) \<union> set (added opn)) \<subseteq> dom (entries s1)"
    using filo_step_place [OF assms(1) Cons.prems(1) p] by (elim exE conjE) (rule that)
  have q: "distinct (concat (map added ops))" using Cons.prems(2) by simp
  have a: "set (concat (map added ops)) \<inter> set (added opn) = {}" "set (concat (map added ops)) \<inter> set (us @ e # vs) = {}"
    "set (concat (map added ops)) \<subseteq> dom (entries s)" using Cons.prems(2-4) by auto
  have r: "set (concat (map added ops)) \<inter> set (us1 @ e # vs1) = {}" "set (concat (map added ops)) \<subseteq> dom (entries s1)"
    using a s1(5,6) by blast+
  have "length us1 + length ops < unat (m_size s1)" using Cons.prems(5) s1(3,4) by simp
  from Cons.IH [OF s1(2) q r this] obtain s' us' vs' where
    f: "foldM (filo_step F) ops s1 = Some s'" "filo_inv recs s' (us' @ e # vs')" "length us' \<le> length us1 + length ops"
      "set (us' @ e # vs') \<subseteq> set (us1 @ e # vs1) \<union> set (concat (map added ops))" by blast
  have "set (us' @ e # vs') \<subseteq> set (us @ e # vs) \<union> set (concat (map added (opn # ops)))"
    using f(4) s1(5) unfolding list.map concat.simps set_append [of "added opn"] by blast
  then show ?case using s1(1,3) f(1-3) by (intro exI [of _ s'] exI [of _ us'] exI [of _ vs']) simp
qed


subsection \<open>Properties\<close>

text \<open>A table that keeps its records in a list, to apply the theorems to.\<close>

definition key0 :: "nat \<Rightarrow> string" where
  "key0 e = replicate e CHR ''k''"

definition table0 :: "nat list HASH_functions" where
  "table0 = \<lparr>my_hash_init = (\<lambda>_. []), my_hash_free = (\<lambda>c. c), my_hash_search = (\<lambda>c k. List.find (\<lambda>e. key0 e = k) c),
     my_hash_insert = (\<lambda>c e. Some (List.insert e c)), my_hash_delete = (\<lambda>c e. removeAll e c),
     records_of = (\<lambda>c. card (set c)), zeroed = []\<rparr>"

lemma table0_laws: "hash_laws table0 key0 set"
  by (auto simp: hash_laws_def table0_def find_None_iff find_Some_iff split: option.splits)

definition filo0 :: "nat list hash_filo" where
  "filo0 = the (hf_clear table0 (hash_filo_ctor table0 2 True (\<lambda>_. Some \<lparr>next_used = None, prev_used = None\<rparr>)) False)"

lemma filo0_inv: "filo_inv set filo0 []" "m_size filo0 = 2" "dom (entries filo0) = UNIV"
proof -
  let ?s = "hash_filo_ctor table0 2 True (\<lambda>_. Some \<lparr>next_used = None, prev_used = None\<rparr>)"
  have c: "m_size ?s = 2" "cache ?s = []" "entries ?s = (\<lambda>_. Some \<lparr>next_used = None, prev_used = None\<rparr>)"
    by (simp_all add: hash_filo_ctor_def table0_def)
  obtain s where s: "hf_clear table0 ?s False = Some s" "filo_inv set s []" "m_size s = m_size ?s"
      "dom (entries s) = dom (entries ?s) - (if free_element ?s then set (cache ?s) else {})"
    using hf_clear_spec [OF table0_laws, of ?s False] by (auto simp: hash_filo_ctor_def)
  then have "filo0 = s" by (simp add: filo0_def)
  then show "filo_inv set filo0 []" "m_size filo0 = 2" "dom (entries filo0) = UNIV" using s(2-4) unfolding c by auto
qed

text \<open>
  C24. \<open>add\<close> on a cache of non-zero size puts a new entry in front of the chain. A full cache first gives up
  the entry used longest ago, whose storage is freed where there is a function for it; the others keep
  their order. If the table cannot take the entry, this is reported and the entry is freed. Chain and
  table hold the same entries afterwards, and never more than the size.
\<close>

theorem hash_filo_add:
  assumes "hash_laws F key recs" "filo_inv recs s xs" "e \<notin> set xs" "e \<in> dom (entries s)" "m_size s \<noteq> 0"
  shows "\<exists>failed s'. hf_add F s e = Some (failed, s') \<and>
    filo_inv recs s' (if failed then kept (m_size s) xs else e # kept (m_size s) xs) \<and> (failed \<longrightarrow> (\<exists>c. my_hash_insert F c e = None)) \<and>
    m_size s' = m_size s \<and> free_element s' = free_element s \<and>
    dom (entries s') = dom (entries s) - (if free_element s then (set xs - set (kept (m_size s) xs)) \<union> (if failed then {e} else {}) else {})"
  by (rule hf_add_spec [OF assms])

theorem hash_filo_add_witness: "\<exists>s'. hf_add table0 filo0 7 = Some (False, s') \<and> filo_inv set s' [7]"
proof -
  have p: "7 \<notin> set []" "7 \<in> dom (entries filo0)" "m_size filo0 \<noteq> 0" using filo0_inv by auto
  obtain failed s' where s': "hf_add table0 filo0 7 = Some (failed, s')"
      "filo_inv set s' (if failed then kept (m_size filo0) [] else 7 # kept (m_size filo0) [])"
      "failed \<longrightarrow> (\<exists>c. my_hash_insert table0 c 7 = None)"
    using hash_filo_add [OF table0_laws filo0_inv(1) p] by (elim exE conjE) (rule that)
  have "\<not> failed" using s'(3) by (simp add: table0_def)
  then show ?thesis using s'(1,2) by simp
qed

text \<open>
  \<open>search\<close> returns an entry with the key if the cache has one and makes it the most recently used one,
  with the others in their order; otherwise it returns null and changes nothing.
\<close>

theorem hash_filo_search:
  assumes "hash_laws F key recs" "filo_inv recs s xs"
  shows "\<exists>r s'. hf_search F s k = Some (r, s') \<and>
    (case r of None \<Rightarrow> s' = s \<and> (\<forall>x \<in> set xs. key x \<noteq> k)
     | Some e \<Rightarrow> e \<in> set xs \<and> key e = k \<and> filo_inv recs s' (e # filter (\<lambda>x. x \<noteq> e) xs) \<and> m_size s' = m_size s \<and>
         free_element s' = free_element s \<and> dom (entries s') = dom (entries s))"
  by (rule hf_search_spec [OF assms])

theorem hash_filo_search_witness: "\<exists>s'. hf_search table0 filo0 ''k'' = Some (None, s')"
  using hash_filo_search [OF table0_laws filo0_inv(1), of "''k''"] by (auto split: option.splits)

lemma hf_search_first:
  assumes "hash_laws F key recs" "filo_inv recs s xs" "hf_search F s k = Some (Some e, s0)"
  shows "key e = k \<and> filo_inv recs s0 (e # filter (\<lambda>x. x \<noteq> e) xs) \<and> m_size s0 = m_size s \<and>
    set (e # filter (\<lambda>x. x \<noteq> e) xs) = set xs \<and> dom (entries s0) = dom (entries s)"
  using hf_search_spec [OF assms(1,2), of k] assms(3) by auto

lemma hf_add_first:
  assumes "hash_laws F key recs" "filo_inv recs s xs" "e \<notin> set xs" "e \<in> dom (entries s)" "hf_add F s e = Some (False, s0)"
  shows "filo_inv recs s0 (e # kept (m_size s) xs) \<and> m_size s0 = m_size s \<and> set (kept (m_size s) xs) \<subseteq> set xs \<and>
    dom (entries s) - set xs \<subseteq> dom (entries s0)"
proof -
  have "m_size s \<noteq> 0" using assms(5) by (auto simp: hf_add_def)
  from hf_add_spec [OF assms(1-4) this] assms(5) show ?thesis by (auto simp: kept_def dest: in_set_butlastD)
qed

lemma hf_search_finds:
  assumes "hash_laws F key recs" "filo_inv recs s xs" "e \<in> set xs" "inj_on key (set xs)"
  shows "\<exists>s'. hf_search F s (key e) = Some (Some e, s')"
proof -
  obtain r s' where r: "hf_search F s (key e) = Some (r, s')" "case r of None \<Rightarrow> s' = s \<and> (\<forall>x \<in> set xs. key x \<noteq> key e)
     | Some f \<Rightarrow> f \<in> set xs \<and> key f = key e \<and> filo_inv recs s' (f # filter (\<lambda>x. x \<noteq> f) xs) \<and> m_size s' = m_size s \<and>
         free_element s' = free_element s \<and> dom (entries s') = dom (entries s)"
    using hf_search_spec [OF assms(1,2), of "key e"] by (elim exE conjE) (rule that)
  have "r = Some e" using r(2) assms(3) inj_onD [OF assms(4)] by (cases r) auto
  with r(1) show ?thesis by blast
qed

text \<open>
  C28. The use of an entry keeps it: an entry that a search has just found, or that was just added, is still in
  the cache, and a search for its key finds it, after any sequence of searches and additions of new entries
  that is shorter than the size of the cache, wherever the entry was in the chain before; every operation of
  the sequence is defined, no freed entry being touched. Keys are taken to be unique.
\<close>

theorem hash_filo_recent_kept:
  assumes "hash_laws F key recs" "filo_inv recs s xs"
    and "hf_search F s k = Some (Some e, s0) \<and> new = [] \<or>
      hf_add F s e = Some (False, s0) \<and> new = [e] \<and> e \<notin> set xs \<and> e \<in> dom (entries s)"
    and "distinct (concat (map added ops))" "set (concat (map added ops)) \<inter> set (new @ xs) = {}"
    and "set (concat (map added ops)) \<subseteq> dom (entries s)" "length ops < unat (m_size s)"
    and "inj_on key (set (new @ xs @ concat (map added ops)))"
  shows "\<exists>s' s2 us vs. foldM (filo_step F) ops s0 = Some s' \<and> filo_inv recs s' (us @ e # vs) \<and> length us \<le> length ops \<and>
    hf_search F s' (key e) = Some (Some e, s2)"
proof -
  let ?as = "set (concat (map added ops))"
  obtain ys where ys: "filo_inv recs s0 ([] @ e # ys)" "m_size s0 = m_size s" "set ([] @ e # ys) \<subseteq> set (new @ xs)"
    "dom (entries s) - set xs \<subseteq> dom (entries s0)"
    using assms(3)
  proof (elim disjE conjE)
    assume a: "hf_search F s k = Some (Some e, s0)" "new = []"
    show ?thesis using that [of "filter (\<lambda>x. x \<noteq> e) xs"] hf_search_first [OF assms(1,2) a(1)] a(2) by auto
  next
    assume a: "hf_add F s e = Some (False, s0)" "new = [e]" "e \<notin> set xs" "e \<in> dom (entries s)"
    show ?thesis using that [of "kept (m_size s) xs"] hf_add_first [OF assms(1,2) a(3,4,1)] a(2) by auto
  qed
  have p: "?as \<inter> set ([] @ e # ys) = {}" "?as \<subseteq> dom (entries s0)" "length ([] :: nat list) + length ops < unat (m_size s0)"
    using assms(5-7) ys(2-4) by (auto simp: disjoint_iff subset_iff)
  obtain s' us vs where r: "foldM (filo_step F) ops s0 = Some s'" "filo_inv recs s' (us @ e # vs)" "length us \<le> length ([] :: nat list) + length ops"
    "set (us @ e # vs) \<subseteq> set ([] @ e # ys) \<union> ?as"
    using filo_run_keeps [OF assms(1) ys(1) assms(4) p] by (elim exE conjE) (rule that)
  have "inj_on key (set (us @ e # vs))"
    by (rule inj_on_subset [OF assms(8)]) (use r(4) ys(3) in \<open>auto simp: subset_iff\<close>)
  with hf_search_finds [OF assms(1) r(2)] obtain s2 where "hf_search F s' (key e) = Some (Some e, s2)" by auto
  with r(1-3) show ?thesis by auto
qed

text \<open>In a full cache of two, the older entry is found; then a third one is added, and the older one is kept.\<close>

lemma filo_add0:
  assumes "filo_inv set s xs" "e \<notin> set xs" "e \<in> dom (entries s)" "m_size s \<noteq> 0"
  shows "\<exists>s'. hf_add table0 s e = Some (False, s') \<and> filo_inv set s' (e # kept (m_size s) xs) \<and> m_size s' = m_size s \<and>
    dom (entries s) - set xs \<subseteq> dom (entries s')"
proof -
  obtain failed s' where s': "hf_add table0 s e = Some (failed, s')" "failed \<longrightarrow> (\<exists>c. my_hash_insert table0 c e = None)"
    using hf_add_spec [OF table0_laws assms] by (elim exE conjE) (rule that)
  then have a: "hf_add table0 s e = Some (False, s')" by (simp add: table0_def)
  then show ?thesis using hf_add_first [OF table0_laws assms(1-3) a] by blast
qed

lemma key0_inj: "inj_on key0 A"
  by (rule inj_onI) (metis key0_def length_replicate)

theorem hash_filo_recent_kept_witness:
  "\<exists>s1 s2 s3 s4 s5. hf_add table0 filo0 7 = Some (False, s1) \<and> hf_add table0 s1 8 = Some (False, s2) \<and>
    hf_search table0 s2 (key0 7) = Some (Some 7, s3) \<and> foldM (filo_step table0) [Add 9] s3 = Some s4 \<and>
    hf_search table0 s4 (key0 7) = Some (Some 7, s5)"
proof -
  have p: "7 \<notin> set []" "7 \<in> dom (entries filo0)" "m_size filo0 \<noteq> 0" using filo0_inv by auto
  obtain s1 where s1: "hf_add table0 filo0 7 = Some (False, s1)" "filo_inv set s1 [7]" "m_size s1 = 2" "dom (entries s1) = UNIV"
    using filo_add0 [OF filo0_inv(1) p] filo0_inv by auto
  have q: "8 \<notin> set [7 :: nat]" "8 \<in> dom (entries s1)" "m_size s1 \<noteq> 0" using s1(3,4) by auto
  obtain s2 where s2: "hf_add table0 s1 8 = Some (False, s2)" "filo_inv set s2 [8, 7]" "m_size s2 = 2"
    "UNIV - {7} \<subseteq> dom (entries s2)"
    using filo_add0 [OF s1(2) q] s1(3,4) by (auto simp: kept_def)
  have n: "9 \<in> dom (entries s2)" using s2(4) by (rule subsetD) simp
  obtain s3 where s3: "hf_search table0 s2 (key0 7) = Some (Some 7, s3)"
    using hf_search_finds [OF table0_laws s2(2) _ key0_inj, of 7] by auto
  have "distinct (concat (map added [Add 9]))" "set (concat (map added [Add 9])) \<inter> set ([] @ [8, 7]) = {}"
    "set (concat (map added [Add 9])) \<subseteq> dom (entries s2)" "length [Add 9] < unat (m_size s2)" using s2(3) n by simp_all
  from hash_filo_recent_kept [OF table0_laws s2(2) disjI1 this key0_inj] s1(1) s2(1) s3 show ?thesis by blast
qed

text \<open>
  \<open>resize\<close> locks the mutex before it calls \<open>clear\<close>, which is where the mutex is initialised: on an object that
  has not been cleared yet it locks an uninitialised mutex. On a cleared cache it leaves an empty one of
  the new size.
\<close>

theorem hash_filo_resize:
  assumes "hash_laws F key recs"
  shows "hf_resize F (hash_filo_ctor F n fr es) m = None \<and>
    (init_done s \<longrightarrow> lock s = Unlocked \<longrightarrow> (\<exists>s'. hf_resize F s m = Some s' \<and> filo_inv recs s' [] \<and> hf_size s' = m \<and> lock s' = Unlocked))"
proof (intro conjI impI)
  show "hf_resize F (hash_filo_ctor F n fr es) m = None" by (simp add: hf_resize_def mysql_mutex_lock_def hash_filo_ctor_def)
  assume a: "init_done s" "lock s = Unlocked"
  let ?s = "s\<lparr>lock := Locked, m_size := m\<rparr>"
  obtain s' where s': "hf_clear F ?s True = Some s'" "filo_inv recs s' []" "lock s' = Locked" "m_size s' = m"
    using hf_clear_spec [OF assms, of ?s True] a(1) by auto
  have "filo_inv recs (s'\<lparr>lock := Unlocked\<rparr>) []"
    using s'(2) by (simp add: filo_inv_def chain_of_def is_cyc_def cyc_def rlink_def hf_nx_def hf_pv_def)
  then show "\<exists>s'. hf_resize F s m = Some s' \<and> filo_inv recs s' [] \<and> hf_size s' = m \<and> lock s' = Unlocked"
    using s' a(2) by (simp add: hf_resize_def mysql_mutex_lock_def mysql_mutex_unlock_def hf_size_def)
qed

end
