(* ===== verification/MemRootArray.thy ===== *)
theory MemRootArray
  imports Prelude "HOL-Library.Monad_Syntax"
begin

text \<open>
  \<open>mem_root_array.h\<close>: a growing array whose storage comes from a memory root. The storage is a list of
  cells, of which one is either a constructed element or not; reading a cell that is not constructed, or
  beyond the storage, constructing over the end of the storage, and a failing assertion of the class give
  \<^term>\<open>None\<close>. \<open>alloc_root\<close> is a
  parameter: for a number of bytes it says whether it returns memory. The number of bytes is computed
  modulo \<open>2 ^ 64\<close>, and the storage has as many whole cells as fit into the bytes asked for. Elements are
  passed by value: a reference into the array itself is not an argument here.
\<close>

subsection \<open>The class\<close>

record 'a Mem_root_array =
  ma_array :: "'a option list"
  ma_size :: "64 word"
  ma_capacity :: "64 word"

definition ma_new :: "'a Mem_root_array" where
  "ma_new = \<lparr>ma_array = [], ma_size = 0, ma_capacity = 0\<rparr>"

text \<open>The element a cell of the storage holds, if any; \<open>at\<close> asserts that the cell is one of the array's elements.\<close>

definition ma_cell :: "'a Mem_root_array \<Rightarrow> 64 word \<Rightarrow> 'a option" where
  "ma_cell m n = (if unat n < length (ma_array m) then ma_array m ! unat n else None)"

definition ma_at :: "'a Mem_root_array \<Rightarrow> 64 word \<Rightarrow> 'a option" where
  "ma_at m n = (if n < ma_size m then ma_cell m n else None)"

definition ma_back :: "'a Mem_root_array \<Rightarrow> 'a option" where
  "ma_back m = ma_at m (ma_size m - 1)"

definition ma_empty :: "'a Mem_root_array \<Rightarrow> bool" where
  "ma_empty m \<longleftrightarrow> ma_size m = 0"

text \<open>Running the destructor of a cell that holds no element is undefined.\<close>

definition destroy :: "'a Mem_root_array \<Rightarrow> 64 word \<Rightarrow> 'a Mem_root_array option" where
  "destroy m n = (case ma_cell m n of None \<Rightarrow> None | Some _ \<Rightarrow> Some (m\<lparr>ma_array := (ma_array m)[unat n := None]\<rparr>))"

definition construct :: "'a Mem_root_array \<Rightarrow> 64 word \<Rightarrow> 'a \<Rightarrow> 'a Mem_root_array option" where
  "construct m n x = (if unat n < length (ma_array m) then Some (m\<lparr>ma_array := (ma_array m)[unat n := Some x]\<rparr>) else None)"

text \<open>The loop \<open>for (ix= pos; ix < m_size; ++ix)\<close> of \<open>chop\<close>.\<close>

fun destroy_from :: "nat \<Rightarrow> nat \<Rightarrow> 'a Mem_root_array \<Rightarrow> 'a Mem_root_array option" where
  "destroy_from ix 0 m = Some m"
| "destroy_from ix (Suc k) m = Option.bind (destroy m (of_nat ix)) (destroy_from (Suc ix) k)"

definition ma_chop :: "bool \<Rightarrow> 'a Mem_root_array \<Rightarrow> 64 word \<Rightarrow> 'a Mem_root_array option" where
  "ma_chop trivial_destructor m pos = (if \<not> pos < ma_size m then None else do {
     m1 \<leftarrow> (if \<not> trivial_destructor then destroy_from (unat pos) (unat (ma_size m) - unat pos) m else Some m);
     Some (m1\<lparr>ma_size := pos\<rparr>)
   })"

definition ma_clear :: "bool \<Rightarrow> 'a Mem_root_array \<Rightarrow> 'a Mem_root_array option" where
  "ma_clear trivial_destructor m = (if \<not> ma_empty m then ma_chop trivial_destructor m 0 else Some m)"

text \<open>The copy loop of \<open>reserve\<close>: elements move from the old cells to the new ones, and the old ones are
  destroyed unless the destructor is trivial.\<close>

fun copy_elems :: "'a option list \<Rightarrow> nat \<Rightarrow> nat \<Rightarrow> 'a option list \<Rightarrow> 'a option list option" where
  "copy_elems old ix 0 new = Some new"
| "copy_elems old ix (Suc k) new =
     (if ix < length old \<and> ix < length new
      then (case old ! ix of None \<Rightarrow> None | Some x \<Rightarrow> copy_elems old (Suc ix) k (new[ix := Some x]))
      else None)"

definition ma_reserve :: "nat \<Rightarrow> (64 word \<Rightarrow> bool) \<Rightarrow> 'a Mem_root_array \<Rightarrow> 64 word \<Rightarrow> (bool \<times> 'a Mem_root_array) option" where
  "ma_reserve elem_size alloc_root m n = (if n \<le> ma_capacity m then Some (False, m)
     else let bytes = n * of_nat elem_size in
       if \<not> alloc_root bytes then Some (True, m)
       else do {
         array \<leftarrow> copy_elems (ma_array m) 0 (unat (ma_size m)) (replicate (unat bytes div elem_size) None);
         Some (False, m\<lparr>ma_array := array, ma_capacity := n\<rparr>)
       })"

definition ma_push_back :: "nat \<Rightarrow> (64 word \<Rightarrow> bool) \<Rightarrow> 'a Mem_root_array \<Rightarrow> 'a \<Rightarrow> (bool \<times> 'a Mem_root_array) option" where
  "ma_push_back elem_size alloc_root m element = do {
     (r1, m1) \<leftarrow> (if ma_capacity m = 0 then ma_reserve elem_size alloc_root m 20 else Some (False, m));
     if r1 then Some (True, m1) else do {
       (r2, m2) \<leftarrow> (if ma_size m1 = ma_capacity m1 then ma_reserve elem_size alloc_root m1 (ma_capacity m1 * 2) else Some (False, m1));
       if r2 then Some (True, m2) else do {
         m3 \<leftarrow> construct m2 (ma_size m2) element;
         Some (False, m3\<lparr>ma_size := ma_size m3 + 1\<rparr>)
       }
     }
   }"

definition ma_pop_back :: "bool \<Rightarrow> 'a Mem_root_array \<Rightarrow> 'a Mem_root_array option" where
  "ma_pop_back trivial_destructor m = (if ma_empty m then None else do {
     m1 \<leftarrow> (if \<not> trivial_destructor then destroy m (ma_size m - 1) else Some m);
     Some (m1\<lparr>ma_size := ma_size m1 - 1\<rparr>)
   })"

text \<open>The two loops of \<open>resize\<close> run while the size differs from the one asked for.\<close>

partial_function (option) push_until :: "nat \<Rightarrow> (64 word \<Rightarrow> bool) \<Rightarrow> 64 word \<Rightarrow> 'a \<Rightarrow> 'a Mem_root_array \<Rightarrow> 'a Mem_root_array option" where
  "push_until elem_size alloc_root n val m = (if n \<noteq> ma_size m
     then Option.bind (ma_push_back elem_size alloc_root m val) (\<lambda>p. push_until elem_size alloc_root n val (snd p))
     else Some m)"

partial_function (option) pop_until :: "64 word \<Rightarrow> 'a Mem_root_array \<Rightarrow> 'a Mem_root_array option" where
  "pop_until n m = (if n \<noteq> ma_size m then Option.bind (ma_pop_back False m) (pop_until n) else Some m)"

definition ma_resize :: "nat \<Rightarrow> (64 word \<Rightarrow> bool) \<Rightarrow> bool \<Rightarrow> 'a Mem_root_array \<Rightarrow> 64 word \<Rightarrow> 'a \<Rightarrow> 'a Mem_root_array option" where
  "ma_resize elem_size alloc_root trivial_destructor m n val =
     (if n = ma_size m then Some m
      else if n > ma_size m then do {
        (oom, m1) \<leftarrow> ma_reserve elem_size alloc_root m n;
        if \<not> oom then push_until elem_size alloc_root n val m1 else Some m1
      } else do {
        m1 \<leftarrow> (if \<not> trivial_destructor then pop_until n m else Some m);
        Some (m1\<lparr>ma_size := n\<rparr>)
      })"


definition ma_new_sized :: "nat \<Rightarrow> (64 word \<Rightarrow> bool) \<Rightarrow> bool \<Rightarrow> 64 word \<Rightarrow> 'a \<Rightarrow> 'a Mem_root_array option" where
  "ma_new_sized elem_size alloc_root trivial_destructor n val = ma_resize elem_size alloc_root trivial_destructor ma_new n val"

definition ma_delete :: "bool \<Rightarrow> 'a Mem_root_array \<Rightarrow> 'a Mem_root_array option" where
  "ma_delete trivial_destructor m = ma_clear trivial_destructor m"

subsection \<open>The represented sequence\<close>

definition ma_rep :: "nat \<Rightarrow> 'a Mem_root_array \<Rightarrow> 'a list \<Rightarrow> bool" where
  "ma_rep elem_size m xs \<longleftrightarrow> 0 < elem_size \<and> unat (ma_size m) = length xs \<and> length xs \<le> unat (ma_capacity m) \<and>
     unat (ma_capacity m) = length (ma_array m) \<and> unat (ma_capacity m) * elem_size < 2 ^ 64 \<and>
     take (length xs) (ma_array m) = map Some xs"

lemma ma_rep_new: "0 < elem_size \<Longrightarrow> ma_rep elem_size ma_new []"
  by (simp add: ma_rep_def ma_new_def)

lemma ma_rep_cell: "ma_rep es m xs \<Longrightarrow> i < length xs \<Longrightarrow> ma_array m ! i = Some (xs ! i)"
  by (metis ma_rep_def nth_map nth_take)

lemma ma_rep_at:
  assumes "ma_rep es m xs" "unat n < length xs"
  shows "ma_at m n = Some (xs ! unat n)"
proof -
  have "unat n < length (ma_array m)" "n < ma_size m" using assms by (simp_all add: ma_rep_def word_less_nat_alt)
  then show ?thesis using ma_rep_cell [OF assms] by (simp add: ma_at_def ma_cell_def)
qed

lemma copy_elems_eq:
  assumes "ix + k \<le> length old" "ix + k \<le> length new" "\<And>j. j < k \<Longrightarrow> old ! (ix + j) \<noteq> None"
  shows "copy_elems old ix k new = Some (take ix new @ take k (drop ix old) @ drop (ix + k) new)"
  using assms
proof (induction k arbitrary: ix new)
  case (Suc k)
  obtain x where x: "old ! ix = Some x" using Suc.prems(3) [of 0] by auto
  have "copy_elems old (Suc ix) k (new[ix := Some x]) =
      Some (take (Suc ix) (new[ix := Some x]) @ take k (drop (Suc ix) old) @ drop (Suc ix + k) (new[ix := Some x]))"
    by (rule Suc.IH) (use Suc.prems Suc.prems(3) [of "Suc _"] in simp_all)
  moreover have "take (Suc ix) (new[ix := Some x]) = take ix new @ [Some x]" using Suc.prems(2) by (simp add: take_Suc_conv_app_nth)
  moreover have "take (Suc k) (drop ix old) = Some x # take k (drop (Suc ix) old)"
    using Suc.prems(1) x by (simp add: Cons_nth_drop_Suc [symmetric])
  ultimately show ?case using Suc.prems x by simp
qed simp

text \<open>\<open>reserve\<close> where the number of bytes does not wrap.\<close>

lemma ma_reserve_spec:
  assumes "ma_rep es m xs" "unat n * es < 2 ^ 64"
  shows "\<exists>oom m'. ma_reserve es alloc m n = Some (oom, m') \<and> ma_rep es m' xs \<and> ma_size m' = ma_size m \<and>
    (oom \<longleftrightarrow> n > ma_capacity m \<and> \<not> alloc (n * of_nat es)) \<and>
    (if oom then m' = m else n \<le> ma_capacity m' \<and> ma_capacity m \<le> ma_capacity m')"
proof (cases "n \<le> ma_capacity m")
  case True
  then show ?thesis using assms(1) by (auto simp: ma_reserve_def)
next
  case False
  have r: "0 < es" "unat (ma_size m) = length xs" "length xs \<le> length (ma_array m)" "take (length xs) (ma_array m) = map Some xs"
    "length xs \<le> unat (ma_capacity m)" using assms(1) by (auto simp: ma_rep_def)
  have l: "length xs \<le> unat n" using r(5) False by (simp add: word_le_nat_alt)
  have u: "unat (n * of_nat es) = unat n * es"
  proof (cases "n = 0")
    case False
    then have "1 \<le> unat n" by (simp add: Suc_le_eq unat_gt_0)
    then have "1 * es \<le> unat n * es" by (rule mult_le_mono1)
    then have "es < 2 ^ 64" using assms(2) by linarith
    then show ?thesis using assms(2) by (simp add: unat_word_ariths unat_of_nat take_bit_nat_eq_self)
  qed simp
  have "copy_elems (ma_array m) 0 (length xs) (replicate (unat n) None) =
      Some (take 0 (replicate (unat n) None) @ take (length xs) (drop 0 (ma_array m)) @ drop (0 + length xs) (replicate (unat n) None))"
    by (rule copy_elems_eq) (use r(3) l ma_rep_cell [OF assms(1)] in simp_all)
  then have c: "copy_elems (ma_array m) 0 (unat (ma_size m)) (replicate (unat (n * of_nat es) div es) None) =
      Some (map Some xs @ replicate (unat n - length xs) None)" using r u by simp
  let ?m = "m\<lparr>ma_array := map Some xs @ replicate (unat n - length xs) None, ma_capacity := n\<rparr>"
  have m: "ma_rep es ?m xs" using r l assms(2) by (simp add: ma_rep_def)
  show ?thesis
  proof (cases "alloc (n * of_nat es)")
    case True
    then have "ma_reserve es alloc m n = Some (False, ?m)" using False c by (simp add: ma_reserve_def Let_def)
    moreover have "n \<le> ma_capacity ?m" "ma_capacity m \<le> ma_capacity ?m" "ma_size ?m = ma_size m" using False by simp_all
    ultimately show ?thesis using m True by (intro exI [of _ False] exI [of _ ?m]) simp
  next
    case a: False
    then have "ma_reserve es alloc m n = Some (True, m)" using False by (simp add: ma_reserve_def Let_def)
    then show ?thesis using a assms(1) False by (intro exI [of _ True] exI [of _ m]) simp
  qed
qed

lemma construct_spec:
  assumes "ma_rep es m xs" "length xs < unat (ma_capacity m)"
  shows "\<exists>m'. construct m (ma_size m) x = Some m' \<and> ma_rep es (m'\<lparr>ma_size := ma_size m' + 1\<rparr>) (xs @ [x]) \<and> ma_size m' = ma_size m \<and>
    ma_capacity m' = ma_capacity m"
proof -
  have r: "unat (ma_size m) = length xs" "length xs < length (ma_array m)" using assms by (auto simp: ma_rep_def)
  have "unat (ma_size m + 1) = length xs + 1"
    using r(1) assms(2) unsigned_less [of "ma_capacity m", where 'a = nat] by (simp add: unat_word_ariths)
  then have "ma_rep es (m\<lparr>ma_array := (ma_array m)[length xs := Some x], ma_size := ma_size m + 1\<rparr>) (xs @ [x])"
    using assms r(2) by (auto simp: ma_rep_def take_Suc_conv_app_nth)
  then show ?thesis using r by (simp add: construct_def)
qed


lemma ma_push_back_room:
  assumes "ma_rep es m xs" "length xs < unat (ma_capacity m)"
  shows "\<exists>m'. ma_push_back es alloc m x = Some (False, m') \<and> ma_rep es m' (xs @ [x]) \<and> ma_capacity m' = ma_capacity m"
proof -
  have n: "ma_capacity m \<noteq> 0" "ma_size m \<noteq> ma_capacity m" using assms by (auto simp: ma_rep_def)
  obtain m3 where m3: "construct m (ma_size m) x = Some m3" "ma_rep es (m3\<lparr>ma_size := ma_size m3 + 1\<rparr>) (xs @ [x])" "ma_capacity m3 = ma_capacity m"
    using construct_spec [OF assms, of x] by blast
  then show ?thesis using n by (simp add: ma_push_back_def)
qed

text \<open>The capacity a full array asks for.\<close>

definition grown_capacity :: "'a Mem_root_array \<Rightarrow> 64 word" where
  "grown_capacity m = (if ma_capacity m = 0 then 20 else ma_capacity m * 2)"

lemma ma_push_back_spec:
  assumes "ma_rep es m xs" "unat (ma_capacity m) * 2 * es < 2 ^ 64" "20 * es < 2 ^ 64"
  shows "\<exists>oom m'. ma_push_back es alloc m x = Some (oom, m') \<and>
    (oom \<longleftrightarrow> length xs = unat (ma_capacity m) \<and> \<not> alloc (grown_capacity m * of_nat es)) \<and>
    (if oom then m' = m else ma_rep es m' (xs @ [x]))"
proof (cases "length xs < unat (ma_capacity m)")
  case True
  show ?thesis using ma_push_back_room [OF assms(1) True, of alloc x] True by fastforce
next
  case False
  then have f: "length xs = unat (ma_capacity m)" "ma_size m = ma_capacity m" using assms(1) by (auto simp: ma_rep_def word_unat_eq_iff)
  define n where grown: "n = grown_capacity m"
  note n_def = grown [unfolded grown_capacity_def]
  have small: "unat (ma_capacity m) * 2 < 2 ^ 64"
  proof -
    have "1 \<le> es" using assms(1) by (simp add: ma_rep_def)
    then have "unat (ma_capacity m) * 2 * 1 \<le> unat (ma_capacity m) * 2 * es" by (rule mult_le_mono2)
    then show ?thesis using assms(2) by linarith
  qed
  then have un: "unat n = (if ma_capacity m = 0 then 20 else unat (ma_capacity m) * 2)" by (simp add: n_def unat_word_ariths)
  then have ns: "unat n * es < 2 ^ 64" using assms(2,3) by simp
  obtain oom m1 where m1: "ma_reserve es alloc m n = Some (oom, m1)" "ma_rep es m1 xs" "ma_size m1 = ma_size m"
      "oom \<longleftrightarrow> n > ma_capacity m \<and> \<not> alloc (n * of_nat es)"
      "if oom then m1 = m else n \<le> ma_capacity m1 \<and> ma_capacity m \<le> ma_capacity m1"
    using ma_reserve_spec [OF assms(1) ns, of alloc] by (elim exE conjE) (rule that)
  have big: "length xs < unat n" using f(1) un by (auto simp: unat_eq_0 unat_gt_0)
  have ne: "ma_size m \<noteq> n" using big f by auto
  have op: "ma_push_back es alloc m x = (if oom then Some (True, m) else ma_push_back es alloc m1 x)"
  proof (cases oom)
    case True
    then show ?thesis using m1(1,5) f(2) by (cases "ma_capacity m = 0") (simp_all add: ma_push_back_def n_def)
  next
    case False
    then have c: "unat n \<le> unat (ma_capacity m1)" using m1(5) by (simp add: word_le_nat_alt)
    have "ma_capacity m1 \<noteq> 0" using c big by auto
    moreover have "ma_size m1 \<noteq> ma_capacity m1" using c big m1(2) by (auto simp: ma_rep_def)
    ultimately show ?thesis using m1(1,3) False f(2)
      by (cases "ma_capacity m = 0") (simp_all add: ma_push_back_def n_def)
  qed
  show ?thesis
  proof (cases oom)
    case True
    then show ?thesis using op f(1) m1(4) by (intro exI [of _ True] exI [of _ m]) (simp add: grown)
  next
    case False
    then have "length xs < unat (ma_capacity m1)" using m1(5) big by (simp add: word_le_nat_alt)
    moreover have alloc: "alloc (grown_capacity m * of_nat es)" using m1(4) False big f(1) by (simp add: grown word_less_nat_alt)
    ultimately obtain m' where "ma_push_back es alloc m1 x = Some (False, m')" "ma_rep es m' (xs @ [x])"
      using ma_push_back_room [OF m1(2), of alloc x] by blast
    then show ?thesis using op False alloc by (intro exI [of _ False] exI [of _ m']) simp
  qed
qed

subsection \<open>Shortening\<close>

lemma destroy_from_spec:
  assumes "\<forall>i < k. ix + i < length (ma_array m) \<and> ma_array m ! (ix + i) \<noteq> None" "length (ma_array m) < 2 ^ 64"
  shows "\<exists>m'. destroy_from ix k m = Some m' \<and> ma_size m' = ma_size m \<and> ma_capacity m' = ma_capacity m \<and>
    length (ma_array m') = length (ma_array m) \<and> take ix (ma_array m') = take ix (ma_array m)"
  using assms
proof (induction k arbitrary: ix m)
  case (Suc k)
  obtain x where x: "ix < length (ma_array m)" "ma_array m ! ix = Some x" using Suc.prems(1) by force
  then have u: "unat (of_nat ix :: 64 word) = ix" using Suc.prems(2) by (simp add: unat_of_nat take_bit_nat_eq_self)
  let ?m = "m\<lparr>ma_array := (ma_array m)[ix := None]\<rparr>"
  have d: "destroy m (of_nat ix) = Some ?m" using x u by (simp add: destroy_def ma_cell_def)
  have "\<forall>i < k. Suc ix + i < length (ma_array ?m) \<and> ma_array ?m ! (Suc ix + i) \<noteq> None"
  proof (intro allI impI)
    fix i assume "i < k"
    then show "Suc ix + i < length (ma_array ?m) \<and> ma_array ?m ! (Suc ix + i) \<noteq> None" using Suc.prems(1) [rule_format, of "Suc i"] by simp
  qed
  from Suc.IH [OF this] Suc.prems(2) obtain m' where m': "destroy_from (Suc ix) k ?m = Some m'" "ma_size m' = ma_size m"
      "ma_capacity m' = ma_capacity m" "length (ma_array m') = length (ma_array m)" "take (Suc ix) (ma_array m') = take (Suc ix) ((ma_array m)[ix := None])"
    by auto
  have "take ix (take (Suc ix) (ma_array m')) = take ix (take (Suc ix) ((ma_array m)[ix := None]))" using m'(5) by simp
  then have "take ix (ma_array m') = take ix (ma_array m)" by (simp add: min_def)
  then show ?case using d m' by simp
qed simp

lemma ma_rep_prefix:
  assumes "ma_rep es m xs" "length (ma_array m') = length (ma_array m)" "ma_capacity m' = ma_capacity m"
    "unat n \<le> length xs" "take (unat n) (ma_array m') = take (unat n) (ma_array m)"
  shows "ma_rep es (m'\<lparr>ma_size := n\<rparr>) (take (unat n) xs)"
proof -
  have "take (unat n) (ma_array m) = take (unat n) (take (length xs) (ma_array m))" using assms(4) by (simp add: min_def)
  also have "\<dots> = take (unat n) (map Some xs)" using assms(1) by (simp add: ma_rep_def)
  finally show ?thesis using assms by (auto simp: ma_rep_def min_def take_map)
qed

lemma ma_chop_spec:
  assumes "ma_rep es m xs" "unat pos < length xs"
  shows "\<exists>m'. ma_chop trivial m pos = Some m' \<and> ma_rep es m' (take (unat pos) xs)"
proof -
  have a: "pos < ma_size m" "unat pos \<le> length xs" using assms by (simp_all add: ma_rep_def word_less_nat_alt)
  show ?thesis
  proof (cases trivial)
    case True
    then show ?thesis using ma_rep_prefix [OF assms(1) refl refl a(2) refl] a(1) by (simp add: ma_chop_def)
  next
    case False
    have r: "unat (ma_size m) = length xs" "length xs \<le> length (ma_array m)" "length (ma_array m) < 2 ^ 64"
      using assms(1) unsigned_less [of "ma_capacity m", where 'a = nat] by (auto simp: ma_rep_def)
    have "\<forall>i < length xs - unat pos. unat pos + i < length (ma_array m) \<and> ma_array m ! (unat pos + i) \<noteq> None"
    proof (intro allI impI)
      fix i assume i: "i < length xs - unat pos"
      then show "unat pos + i < length (ma_array m) \<and> ma_array m ! (unat pos + i) \<noteq> None"
        using r(2) ma_rep_cell [OF assms(1), of "unat pos + i"] by simp
    qed
    from destroy_from_spec [OF this r(3)] obtain m' where m': "destroy_from (unat pos) (length xs - unat pos) m = Some m'"
        "ma_capacity m' = ma_capacity m" "length (ma_array m') = length (ma_array m)" "take (unat pos) (ma_array m') = take (unat pos) (ma_array m)"
      by blast
    from ma_rep_prefix [OF assms(1) m'(3,2) a(2) m'(4)] show ?thesis using m'(1) r(1) False a(1) by (simp add: ma_chop_def)
  qed
qed

lemma ma_pop_back_spec:
  assumes "ma_rep es m (xs @ [x])"
  shows "ma_back m = Some x \<and> (\<exists>m'. ma_pop_back trivial m = Some m' \<and> ma_rep es m' xs)"
proof -
  have r: "unat (ma_size m) = Suc (length xs)" "Suc (length xs) \<le> length (ma_array m)" using assms by (auto simp: ma_rep_def)
  have u: "unat (ma_size m - 1) = length xs" using r(1) by (metis diff_Suc_1 unat_minus_one unat_0 nat.distinct(1))
  have c: "ma_at m (ma_size m - 1) = Some x" using ma_rep_at [OF assms, of "ma_size m - 1"] u by simp
  then have d: "ma_cell m (ma_size m - 1) = Some x" by (simp add: ma_at_def split: if_splits)
  have e: "\<not> ma_empty m" using r(1) by (auto simp: ma_empty_def)
  let ?m = "m\<lparr>ma_array := (ma_array m)[length xs := None]\<rparr>"
  have "ma_rep es (m\<lparr>ma_size := ma_size m - 1\<rparr>) xs" "ma_rep es (?m\<lparr>ma_size := ma_size m - 1\<rparr>) xs"
    using ma_rep_prefix [OF assms refl refl, of "ma_size m - 1"] ma_rep_prefix [OF assms, of ?m "ma_size m - 1"] u by simp_all
  then show ?thesis using c d e u by (cases trivial) (simp_all add: ma_back_def ma_pop_back_def destroy_def)
qed


subsection \<open>Resizing\<close>

lemma push_until_spec:
  assumes "ma_rep es m xs" "length xs + k = unat n" "unat n \<le> unat (ma_capacity m)"
  shows "\<exists>m'. push_until es alloc n val m = Some m' \<and> ma_rep es m' (xs @ replicate k val)"
  using assms
proof (induction k arbitrary: m xs)
  case 0
  then have "ma_size m = n" by (simp add: ma_rep_def word_unat_eq_iff)
  then show ?case using 0 by (simp add: push_until.simps)
next
  case (Suc k)
  have ne: "n \<noteq> ma_size m" using Suc.prems(1,2) by (auto simp: ma_rep_def)
  have "length xs < unat (ma_capacity m)" using Suc.prems(2,3) by simp
  from ma_push_back_room [OF Suc.prems(1) this, of alloc val] obtain m1 where
    m1: "ma_push_back es alloc m val = Some (False, m1)" "ma_rep es m1 (xs @ [val])" "ma_capacity m1 = ma_capacity m" by blast
  have "push_until es alloc n val m = push_until es alloc n val m1" using ne m1(1) by (simp add: push_until.simps [of es alloc n val m])
  then show ?case using Suc.IH [OF m1(2)] Suc.prems(2,3) m1(3) by simp
qed

lemma pop_until_spec:
  assumes "ma_rep es m xs" "unat n \<le> length xs"
  shows "\<exists>m'. pop_until n m = Some m' \<and> ma_rep es m' (take (unat n) xs)"
  using assms
proof (induction xs arbitrary: m rule: rev_induct)
  case Nil
  then have "n = ma_size m" by (simp add: ma_rep_def word_unat_eq_iff)
  then show ?case using Nil by (simp add: pop_until.simps)
next
  case (snoc x xs)
  show ?case
  proof (cases "unat n = length (xs @ [x])")
    case True
    then have "n = ma_size m" using snoc.prems(1) by (simp add: ma_rep_def word_unat_eq_iff)
    then show ?thesis using snoc.prems True by (simp add: pop_until.simps)
  next
    case False
    then have ne: "n \<noteq> ma_size m" using snoc.prems(1) by (auto simp: ma_rep_def)
    obtain m1 where m1: "ma_pop_back False m = Some m1" "ma_rep es m1 xs" using ma_pop_back_spec [OF snoc.prems(1)] by blast
    have "pop_until n m = pop_until n m1" using ne m1(1) by (simp add: pop_until.simps [of n m])
    then show ?thesis using snoc.IH [OF m1(2)] snoc.prems(2) False by simp
  qed
qed

lemma ma_resize_shrink:
  assumes "ma_rep es m xs" "unat n \<le> length xs"
  shows "\<exists>m'. ma_resize es alloc trivial m n val = Some m' \<and> ma_rep es m' (take (unat n) xs)"
proof -
  have s: "unat (ma_size m) = length xs" using assms(1) by (simp add: ma_rep_def)
  show ?thesis
  proof (cases "n = ma_size m")
    case True
    then show ?thesis using assms s by (simp add: ma_resize_def)
  next
    case False
    then have l: "\<not> ma_size m < n" using assms(2) s by (simp add: word_less_nat_alt)
    show ?thesis
    proof (cases trivial)
      case True
      then show ?thesis using False l ma_rep_prefix [OF assms(1) refl refl assms(2) refl] by (simp add: ma_resize_def)
    next
      case nt: False
      obtain m1 where m1: "pop_until n m = Some m1" "ma_rep es m1 (take (unat n) xs)" using pop_until_spec [OF assms] by blast
      then have "ma_size m1 = n" using assms(2) by (simp add: ma_rep_def word_unat_eq_iff min_def)
      then have "m1\<lparr>ma_size := n\<rparr> = m1" by (cases m1) simp
      then show ?thesis using False l nt m1 by (simp add: ma_resize_def)
    qed
  qed
qed

lemma ma_resize_grow:
  assumes "ma_rep es m xs" "length xs < unat n" "unat n * es < 2 ^ 64"
  shows "\<exists>m'. ma_resize es alloc trivial m n val = Some m' \<and>
    (ma_rep es m' (xs @ replicate (unat n - length xs) val) \<or> m' = m \<and> \<not> alloc (n * of_nat es))"
proof -
  have l: "ma_size m < n" "n \<noteq> ma_size m" using assms(1,2) by (auto simp: ma_rep_def word_less_nat_alt)
  obtain oom m1 where m1: "ma_reserve es alloc m n = Some (oom, m1)" "ma_rep es m1 xs" "ma_size m1 = ma_size m"
      "oom \<longleftrightarrow> n > ma_capacity m \<and> \<not> alloc (n * of_nat es)"
      "if oom then m1 = m else n \<le> ma_capacity m1 \<and> ma_capacity m \<le> ma_capacity m1"
    using ma_reserve_spec [OF assms(1,3), of alloc] by (elim exE conjE) (rule that)
  show ?thesis
  proof (cases oom)
    case True
    then show ?thesis using l m1 by (simp add: ma_resize_def)
  next
    case False
    then have "unat n \<le> unat (ma_capacity m1)" using m1(5) by (simp add: word_le_nat_alt)
    then obtain m2 where "push_until es alloc n val m1 = Some m2" "ma_rep es m2 (xs @ replicate (unat n - length xs) val)"
      using push_until_spec [OF m1(2), of "unat n - length xs" n alloc val] assms(2) by auto
    then show ?thesis using l m1(1) False by (simp add: ma_resize_def)
  qed
qed

subsection \<open>Properties\<close>

text \<open>
  C36. The array is a vector: \<open>push_back\<close> appends an element; it reports that there is no memory exactly when the
  storage is full and the memory root refuses the bytes of the doubled capacity (of 20 elements at first), and
  then changes nothing. \<open>at\<close> reads every element, \<open>back\<close> the last one, \<open>pop_back\<close> and \<open>chop\<close> remove elements
  from the end, whether their destructor is run or not, and no cell is read, destroyed or written that is not
  the array's.
\<close>

theorem mem_root_array_vector:
  assumes "ma_rep es m xs" "unat (ma_capacity m) * 2 * es < 2 ^ 64" "20 * es < 2 ^ 64"
  shows "(\<exists>oom m'. ma_push_back es alloc m x = Some (oom, m') \<and>
      (oom \<longleftrightarrow> length xs = unat (ma_capacity m) \<and> \<not> alloc ((if ma_capacity m = 0 then 20 else ma_capacity m * 2) * of_nat es)) \<and>
      (if oom then m' = m else ma_rep es m' (xs @ [x]))) \<and>
    (\<forall>n. unat n < length xs \<longrightarrow> ma_at m n = Some (xs ! unat n)) \<and>
    (xs \<noteq> [] \<longrightarrow> ma_back m = Some (last xs) \<and> (\<exists>m'. ma_pop_back trivial m = Some m' \<and> ma_rep es m' (butlast xs))) \<and>
    (\<forall>pos. unat pos < length xs \<longrightarrow> (\<exists>m'. ma_chop trivial m pos = Some m' \<and> ma_rep es m' (take (unat pos) xs)))"
proof (intro conjI allI impI)
  show "\<exists>oom m'. ma_push_back es alloc m x = Some (oom, m') \<and>
      (oom \<longleftrightarrow> length xs = unat (ma_capacity m) \<and> \<not> alloc ((if ma_capacity m = 0 then 20 else ma_capacity m * 2) * of_nat es)) \<and>
      (if oom then m' = m else ma_rep es m' (xs @ [x]))"
    by (rule ma_push_back_spec [OF assms, unfolded grown_capacity_def])
  show "ma_at m n = Some (xs ! unat n)" if "unat n < length xs" for n by (rule ma_rep_at [OF assms(1) that])
  show "ma_back m = Some (last xs)" if "xs \<noteq> []"
    using ma_pop_back_spec [of es m "butlast xs" "last xs"] assms(1) that by simp
  show "\<exists>m'. ma_pop_back trivial m = Some m' \<and> ma_rep es m' (butlast xs)" if "xs \<noteq> []"
    using ma_pop_back_spec [of es m "butlast xs" "last xs"] assms(1) that by simp
  show "\<exists>m'. ma_chop trivial m pos = Some m' \<and> ma_rep es m' (take (unat pos) xs)" if "unat pos < length xs" for pos
    by (rule ma_chop_spec [OF assms(1) that])
qed

theorem mem_root_array_vector_witness:
  "\<exists>m'. ma_push_back 8 (\<lambda>n. n = 160) ma_new (5::nat) = Some (False, m') \<and> ma_rep 8 m' [5] \<and>
    ma_push_back 8 (\<lambda>n. n < 160) ma_new (5::nat) = Some (True, ma_new)"
proof -
  have p: "ma_rep 8 (ma_new :: nat Mem_root_array) []" "unat (ma_capacity (ma_new :: nat Mem_root_array)) * 2 * 8 < 2 ^ 64" "(20::nat) * 8 < 2 ^ 64"
    using ma_rep_new [of 8] by (simp_all add: ma_new_def)
  have c: "ma_capacity (ma_new :: nat Mem_root_array) = 0" by (simp add: ma_new_def)
  show ?thesis
    using conjunct1 [OF mem_root_array_vector [OF p, of "\<lambda>n. n = 160" 5 True]]
      conjunct1 [OF mem_root_array_vector [OF p, of "\<lambda>n. n < 160" 5 True]] by (auto simp: c)
qed

text \<open>
  \<open>resize\<close> ends: it leaves the first elements, or all elements and as many copies of the value as are
  missing. Where it needs memory and gets none, the array stays as it is, and its caller is not told.
\<close>

theorem mem_root_array_resize:
  assumes "ma_rep es m xs" "unat n * es < 2 ^ 64"
  shows "\<exists>m'. ma_resize es alloc trivial m n val = Some m' \<and>
    (ma_rep es m' (take (unat n) xs @ replicate (unat n - length xs) val) \<or> m' = m \<and> length xs < unat n \<and> \<not> alloc (n * of_nat es))"
proof (cases "unat n \<le> length xs")
  case True
  then show ?thesis using ma_resize_shrink [OF assms(1) True] by auto
next
  case False
  then show ?thesis using ma_resize_grow [OF assms(1) _ assms(2)] by auto
qed

theorem mem_root_array_resize_witness:
  "\<exists>m'. ma_resize 8 (\<lambda>_. True) False ma_new 3 (7::nat) = Some m' \<and> ma_rep 8 m' [7, 7, 7]"
proof -
  have p: "ma_rep 8 (ma_new :: nat Mem_root_array) []" "unat (3 :: 64 word) * 8 < 2 ^ 64" by (simp_all add: ma_rep_new)
  have r: "replicate (unat (3 :: 64 word) - length ([] :: nat list)) 7 = [7, 7, 7 :: nat]" by simp (simp add: numeral_3_eq_3)
  show ?thesis using mem_root_array_resize [OF p, of "\<lambda>_. True" False 7] unfolding r by simp
qed

text \<open>
  The number of bytes that \<open>reserve\<close> asks for is computed without a check: for elements of 8 bytes,
  \<open>reserve(2^61 + 1)\<close> asks for 8 bytes and succeeds, with one cell of storage and a capacity of \<open>2^61 + 1\<close>,
  and the second \<open>push_back\<close> writes behind the storage.
\<close>

theorem mem_root_array_reserve_wraps:
  assumes "alloc 8"
  shows "\<exists>m1 m2. ma_reserve 8 alloc (ma_new :: 'a Mem_root_array) (2 ^ 61 + 1) = Some (False, m1) \<and>
    ma_capacity m1 = 2 ^ 61 + 1 \<and> length (ma_array m1) = 1 \<and>
    ma_push_back 8 alloc m1 x = Some (False, m2) \<and> ma_push_back 8 alloc m2 y = None"
proof -
  let ?m1 = "\<lparr>ma_array = [None], ma_size = 0, ma_capacity = 2 ^ 61 + 1\<rparr> :: 'a Mem_root_array"
  have w: "(18446744073709551624 :: 64 word) = 8" by simp
  have "ma_reserve 8 alloc ma_new (2 ^ 61 + 1) = Some (False, ?m1)"
    using assms by (simp add: ma_reserve_def ma_new_def Let_def w)
  moreover have "ma_push_back 8 alloc ?m1 x = Some (False, ?m1\<lparr>ma_array := [Some x], ma_size := 1\<rparr>)"
    by (simp add: ma_push_back_def construct_def)
  moreover have "ma_push_back 8 alloc (?m1\<lparr>ma_array := [Some x], ma_size := 1\<rparr>) y = None"
    by (simp add: ma_push_back_def construct_def)
  ultimately show ?thesis by fastforce
qed

theorem mem_root_array_reserve_wraps_witness:
  "\<exists>m1 m2. ma_reserve 8 (\<lambda>_. True) ma_new (2 ^ 61 + 1) = Some (False, m1) \<and>
    ma_push_back 8 (\<lambda>_. True) m1 (5::nat) = Some (False, m2) \<and> ma_push_back 8 (\<lambda>_. True) m2 6 = None"
  using mem_root_array_reserve_wraps [of "\<lambda>_. True" 5 6] by blast

end
