(* ===== verification/SqlString.thy ===== *)
theory SqlString
  imports ByteOrder "HOL-Library.Monad_Syntax"
begin

text \<open>
  \<open>sql_string.h\<close>: the byte strings of the server. A string object refers to a buffer that it may own
  (\<open>alloced\<close>), may write to up to a length (\<open>Alloced_length\<close>), or may only read. Buffers are blocks of an
  explicit memory and pointers are a block and an offset, so that writing behind a buffer, using a freed
  one and freeing one twice give \<^term>\<open>None\<close>. \<open>real_alloc\<close> and \<open>realloc_raw\<close> are declared in the header and
  their code is not part of the repository: they are the argument \<open>F\<close>, and what is relied on is
  \<open>realloc_law\<close>. Lengths are the 32-bit numbers of the class, and the sums that the code forms in 32 bits
  wrap around here as well.
\<close>

subsection \<open>Memory\<close>

type_synonym sptr = "(nat \<times> nat) option"

record smem =
  blocks :: "nat \<rightharpoonup> bytes"
  heap_blocks :: "nat set"

definition mem_read :: "smem \<Rightarrow> sptr \<Rightarrow> nat \<Rightarrow> nat \<Rightarrow> bytes option" where
  "mem_read m p i n = (if n = 0 then Some [] else case p of None \<Rightarrow> None
     | Some (b, off) \<Rightarrow> Option.bind (blocks m b) (\<lambda>bs. arr_slice bs (off + i) n))"

definition mem_write :: "smem \<Rightarrow> sptr \<Rightarrow> nat \<Rightarrow> bytes \<Rightarrow> smem option" where
  "mem_write m p i xs = (if xs = [] then Some m else case p of None \<Rightarrow> None
     | Some (b, off) \<Rightarrow> Option.bind (blocks m b) (\<lambda>bs.
         map_option (\<lambda>bs'. m\<lparr>blocks := (blocks m)(b \<mapsto> bs')\<rparr>) (arr_blit bs (off + i) xs)))"

definition my_free :: "smem \<Rightarrow> sptr \<Rightarrow> smem option" where
  "my_free m p = (case p of None \<Rightarrow> Some m
     | Some (b, off) \<Rightarrow> if b \<in> heap_blocks m \<and> off = 0
         then Some (m\<lparr>blocks := (blocks m)(b := None), heap_blocks := heap_blocks m - {b}\<rparr>) else None)"

definition ptr_add :: "sptr \<Rightarrow> nat \<Rightarrow> sptr" where
  "ptr_add p n = map_option (\<lambda>(b, off). (b, off + n)) p"

subsection \<open>\<open>Static_binary_string\<close>\<close>

record Static_binary_string =
  Ptr :: sptr
  str_length :: uint32

definition sbs_set :: "'a Static_binary_string_scheme \<Rightarrow> sptr \<Rightarrow> 64 word \<Rightarrow> 'a Static_binary_string_scheme" where
  "sbs_set s str len = s\<lparr>Ptr := str, str_length := ucast len\<rparr>"


definition sbs_set_length :: "'a Static_binary_string_scheme \<Rightarrow> 64 word \<Rightarrow> 'a Static_binary_string_scheme" where
  "sbs_set_length s len = s\<lparr>str_length := ucast len\<rparr>"

definition sbs_is_empty :: "'a Static_binary_string_scheme \<Rightarrow> bool" where
  "sbs_is_empty s \<longleftrightarrow> str_length s = 0"

definition sbs_at :: "smem \<Rightarrow> 'a Static_binary_string_scheme \<Rightarrow> 64 word \<Rightarrow> uchar option" where
  "sbs_at m s i = map_option hd (mem_read m (Ptr s) (unat i) 1)"

definition sbs_end :: "'a Static_binary_string_scheme \<Rightarrow> sptr" where
  "sbs_end s = ptr_add (Ptr s) (unat (str_length s))"

definition sbs_value :: "smem \<Rightarrow> 'a Static_binary_string_scheme \<Rightarrow> bytes option" where
  "sbs_value m s = mem_read m (Ptr s) 0 (unat (str_length s))"

definition my_isascii :: "uchar \<Rightarrow> bool" where
  "my_isascii c \<longleftrightarrow> c AND NOT 0x7F = 0"

fun has_8bit_loop :: "bytes \<Rightarrow> bool" where
  "has_8bit_loop [] = False"
| "has_8bit_loop (c # cs) = (if \<not> my_isascii c then True else has_8bit_loop cs)"

definition has_8bit_bytes :: "smem \<Rightarrow> 'a Static_binary_string_scheme \<Rightarrow> bool option" where
  "has_8bit_bytes m s = map_option has_8bit_loop (sbs_value m s)"

definition bin_eq :: "smem \<Rightarrow> 'a Static_binary_string_scheme \<Rightarrow> 'b Static_binary_string_scheme \<Rightarrow> bool option" where
  "bin_eq m s other = (if str_length s = str_length other
     then do { x \<leftarrow> sbs_value m s; y \<leftarrow> mem_read m (Ptr other) 0 (unat (str_length s)); Some (x = y) }
     else Some False)"

definition sbs_swap :: "'a Static_binary_string_scheme \<Rightarrow> 'b Static_binary_string_scheme \<Rightarrow>
    'a Static_binary_string_scheme \<times> 'b Static_binary_string_scheme" where
  "sbs_swap s t = (s\<lparr>Ptr := Ptr t, str_length := str_length t\<rparr>, t\<lparr>Ptr := Ptr s, str_length := str_length s\<rparr>)"

definition sbs_chop :: "smem \<Rightarrow> 'a Static_binary_string_scheme \<Rightarrow> (smem \<times> 'a Static_binary_string_scheme) option" where
  "sbs_chop m s = do {
     let s1 = s\<lparr>str_length := str_length s - 1\<rparr>;
     m1 \<leftarrow> mem_write m (Ptr s1) (unat (str_length s1)) [0];
     Some (m1, s1)
   }"

text \<open>The unchecked appends write where the string ends.\<close>

definition q_append_char :: "smem \<Rightarrow> 'a Static_binary_string_scheme \<Rightarrow> uchar \<Rightarrow> (smem \<times> 'a Static_binary_string_scheme) option" where
  "q_append_char m s c = do {
     m1 \<leftarrow> mem_write m (Ptr s) (unat (str_length s)) [c];
     Some (m1, s\<lparr>str_length := str_length s + 1\<rparr>)
   }"

definition store_at :: "(bytes \<Rightarrow> nat \<Rightarrow> ulonglong \<Rightarrow> bytes option) \<Rightarrow> smem \<Rightarrow> sptr \<Rightarrow> nat \<Rightarrow> ulonglong \<Rightarrow> smem option" where
  "store_at st m p i n = (case p of None \<Rightarrow> None
     | Some (b, off) \<Rightarrow> Option.bind (blocks m b) (\<lambda>bs. map_option (\<lambda>bs'. m\<lparr>blocks := (blocks m)(b \<mapsto> bs')\<rparr>) (st bs (off + i) n)))"

definition q_append2b :: "smem \<Rightarrow> 'a Static_binary_string_scheme \<Rightarrow> uint32 \<Rightarrow> (smem \<times> 'a Static_binary_string_scheme) option" where
  "q_append2b m s n = do {
     m1 \<leftarrow> store_at x64_int2store m (Ptr s) (unat (str_length s)) (ucast n);
     Some (m1, s\<lparr>str_length := str_length s + 2\<rparr>)
   }"

definition q_append4b :: "smem \<Rightarrow> 'a Static_binary_string_scheme \<Rightarrow> uint32 \<Rightarrow> (smem \<times> 'a Static_binary_string_scheme) option" where
  "q_append4b m s n = do {
     m1 \<leftarrow> store_at x64_int4store m (Ptr s) (unat (str_length s)) (ucast n);
     Some (m1, s\<lparr>str_length := str_length s + 4\<rparr>)
   }"

definition write_at_position :: "smem \<Rightarrow> 'a Static_binary_string_scheme \<Rightarrow> nat \<Rightarrow> uint32 \<Rightarrow> smem option" where
  "write_at_position m s position value = store_at x64_int4store m (Ptr s) position (ucast value)"

text \<open>\<open>memcpy\<close> of overlapping areas is undefined.\<close>

definition overlap :: "sptr \<Rightarrow> nat \<Rightarrow> sptr \<Rightarrow> nat \<Rightarrow> bool" where
  "overlap p n q k \<longleftrightarrow> (case (p, q) of (Some (b, i), Some (c, j)) \<Rightarrow> b = c \<and> i < j + k \<and> j < i + n | _ \<Rightarrow> False)"

definition q_append :: "smem \<Rightarrow> 'a Static_binary_string_scheme \<Rightarrow> sptr \<Rightarrow> 64 word \<Rightarrow> (smem \<times> 'a Static_binary_string_scheme) option" where
  "q_append m s data data_len = do {
     bs \<leftarrow> mem_read m data 0 (unat data_len);
     (if overlap (sbs_end s) (unat data_len) data (unat data_len) then None else Some ());
     m1 \<leftarrow> mem_write m (Ptr s) (unat (str_length s)) bs;
     Some (m1, s\<lparr>str_length := str_length s + ucast data_len\<rparr>)
   }"

subsection \<open>\<open>Binary_string\<close>\<close>

record Binary_string = Static_binary_string +
  Alloced_length :: uint32
  extra_alloc :: uint32
  alloced :: bool
  thread_specific :: bool

text \<open>The two functions that get memory; the first component of the result reports failure.\<close>

record string_functions =
  real_alloc :: "smem \<Rightarrow> Binary_string \<Rightarrow> 64 word \<Rightarrow> bool \<times> smem \<times> Binary_string"
  realloc_raw :: "smem \<Rightarrow> Binary_string \<Rightarrow> 64 word \<Rightarrow> bool \<times> smem \<times> Binary_string"

definition init_private_data :: "Binary_string \<Rightarrow> Binary_string" where
  "init_private_data s = s\<lparr>Alloced_length := 0, extra_alloc := 0, alloced := False, thread_specific := False\<rparr>"

definition bs_new :: Binary_string where
  "bs_new = \<lparr>Ptr = None, str_length = 0, Alloced_length = 0, extra_alloc = 0, alloced = False, thread_specific = False\<rparr>"

definition bs_new_alloc :: "string_functions \<Rightarrow> smem \<Rightarrow> 64 word \<Rightarrow> smem \<times> Binary_string" where
  "bs_new_alloc F m length_arg = snd (real_alloc F m bs_new length_arg)"

definition bs_new_const :: "sptr \<Rightarrow> 64 word \<Rightarrow> Binary_string" where
  "bs_new_const str len = init_private_data (sbs_set bs_new str len)"

definition bs_new_buffer :: "sptr \<Rightarrow> 64 word \<Rightarrow> Binary_string" where
  "bs_new_buffer str len = (sbs_set bs_new str len)\<lparr>Alloced_length := ucast len, extra_alloc := 0, alloced := False, thread_specific := False\<rparr>"

definition bs_new_copy :: "Binary_string \<Rightarrow> Binary_string" where
  "bs_new_copy str = str\<lparr>Alloced_length := Alloced_length str, extra_alloc := 0, alloced := False, thread_specific := False\<rparr>"

definition bs_free :: "smem \<Rightarrow> Binary_string \<Rightarrow> (smem \<times> Binary_string) option" where
  "bs_free m s = do {
     (m1, s1) \<leftarrow> (if alloced s then map_option (\<lambda>m1. (m1, s\<lparr>alloced := False\<rparr>)) (my_free m (Ptr s)) else Some (m, s));
     Some (m1, sbs_set (s1\<lparr>Alloced_length := 0, extra_alloc := 0\<rparr>) None 0)
   }"

definition bs_delete :: "smem \<Rightarrow> Binary_string \<Rightarrow> smem option" where
  "bs_delete m s = map_option fst (bs_free m s)"

definition set_thread_specific :: "Binary_string \<Rightarrow> Binary_string" where
  "set_thread_specific s = (if \<not> alloced s then s\<lparr>thread_specific := True\<rparr> else s)"

definition mark_as_const :: "Binary_string \<Rightarrow> Binary_string" where
  "mark_as_const s = s\<lparr>Alloced_length := 0\<rparr>"

definition set_extra_allocation :: "Binary_string \<Rightarrow> 64 word \<Rightarrow> Binary_string" where
  "set_extra_allocation s len = s\<lparr>extra_alloc := ucast len\<rparr>"

definition uses_buffer_owned_by :: "Binary_string \<Rightarrow> Binary_string \<Rightarrow> bool" where
  "uses_buffer_owned_by t s \<longleftrightarrow> alloced s \<and> (case (Ptr t, Ptr s) of
     (Some (b, i), Some (c, j)) \<Rightarrow> b = c \<and> j \<le> i \<and> i < j + unat (str_length s) | _ \<Rightarrow> False)"

definition bs_swap :: "Binary_string \<Rightarrow> Binary_string \<Rightarrow> Binary_string \<times> Binary_string" where
  "bs_swap s t = (let (s1, t1) = sbs_swap s t in
     (s1\<lparr>Alloced_length := Alloced_length t, alloced := alloced t\<rparr>, t1\<lparr>Alloced_length := Alloced_length s, alloced := alloced s\<rparr>))"

definition set_alloced :: "smem \<Rightarrow> Binary_string \<Rightarrow> sptr \<Rightarrow> 64 word \<Rightarrow> 64 word \<Rightarrow> (smem \<times> Binary_string) option" where
  "set_alloced m s str length_arg alloced_length_arg = do {
     (m1, s1) \<leftarrow> bs_free m s;
     Some (m1, (sbs_set s1 str length_arg)\<lparr>Alloced_length := ucast alloced_length_arg\<rparr>)
   }"

definition bs_set :: "smem \<Rightarrow> Binary_string \<Rightarrow> sptr \<Rightarrow> 64 word \<Rightarrow> (smem \<times> Binary_string) option" where
  "bs_set m s str arg_length = set_alloced m s str arg_length arg_length"

definition bs_set_const :: "smem \<Rightarrow> Binary_string \<Rightarrow> sptr \<Rightarrow> 64 word \<Rightarrow> (smem \<times> Binary_string) option" where
  "bs_set_const m s str arg_length = do { (m1, s1) \<leftarrow> bs_free m s; Some (m1, sbs_set s1 str arg_length) }"

definition bs_set_sub :: "smem \<Rightarrow> Binary_string \<Rightarrow> Binary_string \<Rightarrow> 64 word \<Rightarrow> 64 word \<Rightarrow> (smem \<times> Binary_string) option" where
  "bs_set_sub m s str offset arg_length = do {
     (m1, s1) \<leftarrow> bs_free m s;
     let s2 = sbs_set s1 (ptr_add (Ptr str) (unat offset)) arg_length;
     Some (m1, if Alloced_length str \<noteq> 0 then s2\<lparr>Alloced_length := ucast (ucast (Alloced_length str) - offset)\<rparr> else s2)
   }"

definition bs_reset :: "smem \<Rightarrow> Binary_string \<Rightarrow> sptr \<Rightarrow> 64 word \<Rightarrow> 64 word \<Rightarrow> (smem \<times> Binary_string) option" where
  "bs_reset m s ptr_arg length_arg alloced_length_arg = do {
     (m1, s1) \<leftarrow> set_alloced m s ptr_arg length_arg alloced_length_arg;
     Some (m1, s1\<lparr>alloced := (ptr_arg \<noteq> None)\<rparr>)
   }"

definition bs_release :: "Binary_string \<Rightarrow> sptr \<times> Binary_string" where
  "bs_release s = (Ptr s, init_private_data (sbs_set s None 0))"

definition set_quick :: "Binary_string \<Rightarrow> sptr \<Rightarrow> 64 word \<Rightarrow> Binary_string" where
  "set_quick s str arg_length = (if \<not> alloced s then (sbs_set s str arg_length)\<lparr>Alloced_length := ucast arg_length\<rparr> else s)"

text \<open>Assignment of another object; assigning an object to itself does nothing.\<close>

definition bs_assign :: "smem \<Rightarrow> Binary_string \<Rightarrow> Binary_string \<Rightarrow> (smem \<times> Binary_string) option" where
  "bs_assign m s t = set_alloced m s (Ptr t) (ucast (str_length t)) (ucast (Alloced_length t))"

definition bs_move :: "smem \<Rightarrow> Binary_string \<Rightarrow> Binary_string \<Rightarrow> (smem \<times> Binary_string \<times> Binary_string) option" where
  "bs_move m s t = do {
     (m1, s1) \<leftarrow> set_alloced m s (Ptr t) (ucast (str_length t)) (ucast (Alloced_length t));
     Some (m1, s1\<lparr>extra_alloc := extra_alloc t, alloced := alloced t, thread_specific := thread_specific t\<rparr>, t\<lparr>alloced := False\<rparr>)
   }"


text \<open>A string with a buffer inside the object.\<close>

definition BinaryStringBuffer :: "sptr \<Rightarrow> 64 word \<Rightarrow> Binary_string" where
  "BinaryStringBuffer buff buff_sz = sbs_set_length (bs_new_buffer buff buff_sz) 0"

subsubsection \<open>Getting memory\<close>

definition bs_alloc :: "string_functions \<Rightarrow> smem \<Rightarrow> Binary_string \<Rightarrow> 64 word \<Rightarrow> bool \<times> smem \<times> Binary_string" where
  "bs_alloc F m s arg_length = (if arg_length < ucast (Alloced_length s) then (False, m, s) else real_alloc F m s arg_length)"

definition bs_realloc :: "string_functions \<Rightarrow> smem \<Rightarrow> Binary_string \<Rightarrow> 64 word \<Rightarrow> (bool \<times> smem \<times> Binary_string) option" where
  "bs_realloc F m s arg_length = (case realloc_raw F m s arg_length of (failed, m1, s1) \<Rightarrow>
     if failed then Some (True, m1, s1)
     else map_option (\<lambda>m2. (False, m2, s1)) (mem_write m1 (Ptr s1) (unat arg_length) [0]))"

definition realloc_with_extra :: "string_functions \<Rightarrow> smem \<Rightarrow> Binary_string \<Rightarrow> 64 word \<Rightarrow> (bool \<times> smem \<times> Binary_string) option" where
  "realloc_with_extra F m s arg_length =
     (let s0 = (if extra_alloc s < 4096 then s\<lparr>extra_alloc := extra_alloc s * 2 + 128\<rparr> else s) in
      case realloc_raw F m s0 (arg_length + ucast (extra_alloc s0)) of (failed, m1, s1) \<Rightarrow>
        if failed then Some (True, m1, s1)
        else map_option (\<lambda>m2. (False, m2, s1)) (mem_write m1 (Ptr s1) (unat arg_length) [0]))"

definition realloc_with_extra_if_needed ::
    "string_functions \<Rightarrow> smem \<Rightarrow> Binary_string \<Rightarrow> 64 word \<Rightarrow> (bool \<times> smem \<times> Binary_string) option" where
  "realloc_with_extra_if_needed F m s arg_length = (if arg_length < ucast (Alloced_length s)
     then map_option (\<lambda>m1. (False, m1, s)) (mem_write m (Ptr s) (unat arg_length) [0])
     else realloc_with_extra F m s arg_length)"

definition bs_reserve :: "string_functions \<Rightarrow> smem \<Rightarrow> Binary_string \<Rightarrow> 64 word \<Rightarrow> (bool \<times> smem \<times> Binary_string) option" where
  "bs_reserve F m s space_needed = bs_realloc F m s (ucast (str_length s) + space_needed)"

subsubsection \<open>Appending\<close>

definition bs_append :: "string_functions \<Rightarrow> smem \<Rightarrow> Binary_string \<Rightarrow> sptr \<Rightarrow> 64 word \<Rightarrow> (bool \<times> smem \<times> Binary_string) option" where
  "bs_append F m s str sz = (if sz = 0 then Some (False, m, s) else do {
     (failed, m1, s1) \<leftarrow> realloc_with_extra_if_needed F m s (ucast (str_length s) + sz);
     if failed then Some (True, m1, s1) else do {
       (m2, s2) \<leftarrow> q_append m1 s1 str sz;
       Some (False, m2, s2)
     }
   })"

definition bs_append_string :: "string_functions \<Rightarrow> smem \<Rightarrow> Binary_string \<Rightarrow> Binary_string \<Rightarrow> (bool \<times> smem \<times> Binary_string) option" where
  "bs_append_string F m s t = bs_append F m s (Ptr t) (ucast (str_length t))"

definition append_char :: "string_functions \<Rightarrow> smem \<Rightarrow> Binary_string \<Rightarrow> uchar \<Rightarrow> (bool \<times> smem \<times> Binary_string) option" where
  "append_char F m s chr = (if str_length s < Alloced_length s
     then do { (m1, s1) \<leftarrow> q_append_char m s chr; Some (False, m1, s1) }
     else do {
       (failed, m1, s1) \<leftarrow> realloc_with_extra F m s (ucast (str_length s + 1));
       if failed then Some (True, m1, s1) else do { (m2, s2) \<leftarrow> q_append_char m1 s1 chr; Some (False, m2, s2) }
     })"

text \<open>The digits come from the table \<open>_dig_vec_lower\<close>, which the header only declares.\<close>

fun append_hex_loop :: "string_functions \<Rightarrow> (uchar \<Rightarrow> uchar) \<Rightarrow> bytes \<Rightarrow> smem \<Rightarrow> Binary_string \<Rightarrow> (bool \<times> smem \<times> Binary_string) option" where
  "append_hex_loop F dig [] m s = Some (False, m, s)"
| "append_hex_loop F dig (c # cs) m s = do {
     (failed, m1, s1) \<leftarrow> append_char F m s (dig (drop_bit 4 c));
     if failed then Some (True, m1, s1) else do {
       (failed2, m2, s2) \<leftarrow> append_char F m1 s1 (dig (c AND 0x0F));
       if failed2 then Some (True, m2, s2) else append_hex_loop F dig cs m2 s2
     }
   }"

definition append_hex :: "string_functions \<Rightarrow> (uchar \<Rightarrow> uchar) \<Rightarrow> smem \<Rightarrow> Binary_string \<Rightarrow> bytes \<Rightarrow> (bool \<times> smem \<times> Binary_string) option" where
  "append_hex F dig m s src = append_hex_loop F dig src m s"

definition append_with_step ::
    "string_functions \<Rightarrow> smem \<Rightarrow> Binary_string \<Rightarrow> sptr \<Rightarrow> uint32 \<Rightarrow> uint32 \<Rightarrow> (bool \<times> smem \<times> Binary_string) option" where
  "append_with_step F m s str arg_length step_alloc = do {
     let new_length = arg_length + str_length s;
     (failed, m1, s1) \<leftarrow> (if new_length > Alloced_length s then bs_realloc F m s (ucast (new_length + step_alloc)) else Some (False, m, s));
     if failed then Some (True, m1, s1) else do {
       (m2, s2) \<leftarrow> q_append m1 s1 str (ucast arg_length);
       Some (False, m2, s2)
     }
   }"

definition prep_append ::
    "string_functions \<Rightarrow> smem \<Rightarrow> Binary_string \<Rightarrow> uint32 \<Rightarrow> uint32 \<Rightarrow> (sptr \<times> smem \<times> Binary_string) option" where
  "prep_append F m s arg_length step_alloc = do {
     let new_length = arg_length + str_length s;
     (failed, m1, s1) \<leftarrow> (if new_length > Alloced_length s then bs_realloc F m s (ucast (new_length + step_alloc)) else Some (False, m, s));
     if failed then Some (None, m1, s1)
     else Some (ptr_add (Ptr s1) (unat (str_length s1)), m1, s1\<lparr>str_length := str_length s1 + arg_length\<rparr>)
   }"

subsubsection \<open>Zero termination\<close>

definition c_ptr :: "string_functions \<Rightarrow> smem \<Rightarrow> Binary_string \<Rightarrow> (sptr \<times> smem \<times> Binary_string) option" where
  "c_ptr F m s = do {
     c \<leftarrow> (if Ptr s = None then Some True else map_option (\<lambda>x. x \<noteq> 0) (sbs_at m s (ucast (str_length s))));
     (m1, s1) \<leftarrow> (if c then map_option snd (bs_realloc F m s (ucast (str_length s))) else Some (m, s));
     Some (Ptr s1, m1, s1)
   }"

definition c_ptr_quick :: "smem \<Rightarrow> Binary_string \<Rightarrow> (sptr \<times> smem \<times> Binary_string) option" where
  "c_ptr_quick m s = do {
     m1 \<leftarrow> (if Ptr s \<noteq> None \<and> str_length s < Alloced_length s then mem_write m (Ptr s) (unat (str_length s)) [0] else Some m);
     Some (Ptr s, m1, s)
   }"

definition c_ptr_safe :: "string_functions \<Rightarrow> smem \<Rightarrow> Binary_string \<Rightarrow> (sptr \<times> smem \<times> Binary_string) option" where
  "c_ptr_safe F m s = do {
     (m1, s1) \<leftarrow> (if Ptr s \<noteq> None \<and> str_length s < Alloced_length s
                  then map_option (\<lambda>m1. (m1, s)) (mem_write m (Ptr s) (unat (str_length s)) [0])
                  else map_option snd (bs_realloc F m s (ucast (str_length s))));
     Some (Ptr s1, m1, s1)
   }"

subsection \<open>The value of a string\<close>

text \<open>The bytes before the length are readable, the bytes before \<open>Alloced_length\<close> may be written, and an
  owned buffer is a block of the heap.\<close>

definition bs_rep :: "smem \<Rightarrow> Binary_string \<Rightarrow> bytes \<Rightarrow> bool" where
  "bs_rep m s xs \<longleftrightarrow> sbs_value m s = Some xs \<and>
     (Alloced_length s \<noteq> 0 \<longrightarrow> (\<exists>b off bs. Ptr s = Some (b, off) \<and> blocks m b = Some bs \<and> off + unat (Alloced_length s) \<le> length bs)) \<and>
     (alloced s \<longrightarrow> (\<exists>b. Ptr s = Some (b, 0) \<and> b \<in> heap_blocks m)) \<and>
     (Alloced_length s \<noteq> 0 \<longrightarrow> str_length s \<le> Alloced_length s)"

definition owned :: "Binary_string \<Rightarrow> nat set" where
  "owned s = (if alloced s then (case Ptr s of None \<Rightarrow> {} | Some (b, _) \<Rightarrow> {b}) else {})"

text \<open>What is relied on of \<open>realloc_raw\<close> for a length not below that of the string: failure changes nothing;
  otherwise the string has its value in a buffer that may be written behind the length asked for, and
  blocks other than its own old and new ones are as before.\<close>

definition buffer_of :: "Binary_string \<Rightarrow> nat set" where
  "buffer_of s = (case Ptr s of None \<Rightarrow> {} | Some (b, _) \<Rightarrow> {b})"

definition realloc_law :: "string_functions \<Rightarrow> bool" where
  "realloc_law F \<longleftrightarrow> (\<forall>m s xs n failed m' s'. bs_rep m s xs \<longrightarrow> length xs \<le> unat n \<longrightarrow> realloc_raw F m s n = (failed, m', s') \<longrightarrow>
     (if failed then m' = m \<and> s' = s
      else bs_rep m' s' xs \<and> unat n < unat (Alloced_length s') \<and>
        (\<forall>b. blocks m b \<noteq> None \<longrightarrow> b \<notin> owned s \<longrightarrow> blocks m' b = blocks m b \<and> (b \<in> heap_blocks m' \<longleftrightarrow> b \<in> heap_blocks m)) \<and>
        (\<forall>b \<in> buffer_of s'. b \<in> buffer_of s \<or> blocks m b = None)))"


subsection \<open>Reading and writing\<close>

lemma mem_read_0 [simp]: "mem_read m p i 0 = Some []"
  by (simp add: mem_read_def)

lemma mem_read_length: "mem_read m p i n = Some xs \<Longrightarrow> length xs = n"
  by (auto simp: mem_read_def arr_slice_def bind_eq_Some_iff split: if_splits option.splits)

lemma bs_rep_length: "bs_rep m s xs \<Longrightarrow> unat (str_length s) = length xs"
  using mem_read_length by (fastforce simp: bs_rep_def sbs_value_def)

lemma mem_read_in_block:
  "blocks m b = Some bs \<Longrightarrow> mem_read m (Some (b, off)) i n = (if n = 0 then Some [] else if off + i + n \<le> length bs then Some (take n (drop (off + i) bs)) else None)"
  by (auto simp: mem_read_def arr_slice_def)

lemma mem_read_iff:
  "blocks m b = Some bs \<Longrightarrow> 0 < n \<Longrightarrow> mem_read m (Some (b, off)) i n = Some xs \<longleftrightarrow> off + i + n \<le> length bs \<and> take n (drop (off + i) bs) = xs"
  by (simp add: mem_read_in_block)

lemma mem_read_block:
  assumes "mem_read m p i n = Some xs" "0 < n"
  obtains b off bs where "p = Some (b, off)" "blocks m b = Some bs"
  using assms by (auto simp: mem_read_def bind_eq_Some_iff split: option.splits)

lemma mem_write_in_block:
  "blocks m b = Some bs \<Longrightarrow> off + i + length ys \<le> length bs \<Longrightarrow> mem_write m (Some (b, off)) i ys =
     Some (m\<lparr>blocks := (blocks m)(b \<mapsto> take (off + i) bs @ ys @ drop (off + i + length ys) bs)\<rparr>)"
  by (auto simp: mem_write_def arr_blit_def fun_upd_idem)

lemma mem_read_other:
  assumes "case p of None \<Rightarrow> True | Some (b, off) \<Rightarrow> blocks m' b = blocks m b"
  shows "mem_read m' p i n = mem_read m p i n"
  using assms by (auto simp: mem_read_def split: option.splits)

text \<open>What the operations on one string leave alone: the blocks other than its buffer, also where it gets a
  new buffer, which is then a new block.\<close>

definition keeps :: "smem \<Rightarrow> smem \<Rightarrow> Binary_string \<Rightarrow> Binary_string \<Rightarrow> bool" where
  "keeps m m' s s' \<longleftrightarrow>
     (\<forall>b. blocks m b \<noteq> None \<longrightarrow> b \<notin> buffer_of s \<longrightarrow> blocks m' b = blocks m b \<and> (b \<in> heap_blocks m' \<longleftrightarrow> b \<in> heap_blocks m)) \<and>
     (\<forall>b \<in> buffer_of s'. b \<in> buffer_of s \<or> blocks m b = None)"

lemma keeps_refl: "Ptr s' = Ptr s \<Longrightarrow> keeps m m s s'"
  by (simp add: keeps_def buffer_of_def)

lemma keeps_trans:
  assumes "keeps m m1 s s1" "keeps m1 m2 s1 s2"
  shows "keeps m m2 s s2"
proof -
  have "b \<in> buffer_of s \<or> blocks m b = None" if "b \<in> buffer_of s2" for b
  proof (cases "b \<in> buffer_of s1")
    case True
    then show ?thesis using assms(1) by (simp add: keeps_def)
  next
    case False
    then have "blocks m1 b = None" using assms(2) that by (auto simp: keeps_def)
    then show ?thesis using assms(1) by (auto simp: keeps_def)
  qed
  moreover have "blocks m2 b = blocks m b \<and> (b \<in> heap_blocks m2 \<longleftrightarrow> b \<in> heap_blocks m)" if "blocks m b \<noteq> None" "b \<notin> buffer_of s" for b
  proof -
    have 1: "blocks m1 b = blocks m b" "b \<in> heap_blocks m1 \<longleftrightarrow> b \<in> heap_blocks m" using assms(1) that by (auto simp: keeps_def)
    have "b \<notin> buffer_of s1" using assms(1) that by (auto simp: keeps_def)
    then show ?thesis using 1 assms(2) that(1) by (auto simp: keeps_def)
  qed
  ultimately show ?thesis by (simp add: keeps_def)
qed


lemma bs_rep_buffer:
  assumes "bs_rep m s xs" "Alloced_length s \<noteq> 0"
  obtains b off bs where "Ptr s = Some (b, off)" "blocks m b = Some bs" "off + unat (Alloced_length s) \<le> length bs"
    "take (length xs) (drop off bs) = xs" "length xs \<le> unat (Alloced_length s)"
proof -
  obtain b off bs where b: "Ptr s = Some (b, off)" "blocks m b = Some bs" "off + unat (Alloced_length s) \<le> length bs"
    using assms by (auto simp: bs_rep_def)
  have l: "unat (str_length s) = length xs" by (rule bs_rep_length [OF assms(1)])
  have le: "length xs \<le> unat (Alloced_length s)" using assms l by (simp add: bs_rep_def word_le_nat_alt)
  have "mem_read m (Some (b, off)) 0 (length xs) = Some xs" using assms(1) b(1) l by (simp add: bs_rep_def sbs_value_def)
  then have "take (length xs) (drop off bs) = xs"
    using mem_read_iff [OF b(2), of "length xs" off 0 xs] by (cases "xs = []") simp_all
  then show ?thesis using that b le by blast
qed

text \<open>Writing behind the value within the buffer, and making what was written part of the value.\<close>

lemma write_behind:
  assumes "bs_rep m s xs" "i + length ys \<le> unat (Alloced_length s)" "length xs \<le> i" "ys \<noteq> []"
  obtains m' where "mem_write m (Ptr s) i ys = Some m'" "bs_rep m' s xs" "mem_read m' (Ptr s) i (length ys) = Some ys" "keeps m m' s s"
    "heap_blocks m' = heap_blocks m" "dom (blocks m') = dom (blocks m)"
proof -
  have "Alloced_length s \<noteq> 0" using assms(2,4) by auto
  then obtain b off bs where b: "Ptr s = Some (b, off)" "blocks m b = Some bs" "off + unat (Alloced_length s) \<le> length bs"
      "take (length xs) (drop off bs) = xs" using bs_rep_buffer [OF assms(1)] by metis
  define bs' where "bs' = take (off + i) bs @ ys @ drop (off + i + length ys) bs"
  define m' where "m' = m\<lparr>blocks := (blocks m)(b \<mapsto> bs')\<rparr>"
  have le: "off + i + length ys \<le> length bs" using assms(2) b(3) by simp
  have w: "mem_write m (Ptr s) i ys = Some m'" unfolding b(1) m'_def bs'_def by (rule mem_write_in_block [OF b(2) le])
  have len: "length bs' = length bs" using le by (simp add: bs'_def)
  have blk: "blocks m' b = Some bs'" by (simp add: m'_def)
  have "take (length xs) (drop off bs') = take (length xs) (drop off bs)"
    using assms(3) le by (auto simp: bs'_def min_def drop_take)
  then have v: "take (length xs) (drop off bs') = xs" using b(4) by simp
  have l: "unat (str_length s) = length xs" by (rule bs_rep_length [OF assms(1)])
  have "sbs_value m' s = Some xs"
    using mem_read_in_block [OF blk, of off 0 "length xs"] v len le assms(3) l b(1) by (auto simp: sbs_value_def)
  then have "bs_rep m' s xs" using assms(1) b len by (auto simp: bs_rep_def m'_def)
  moreover have "mem_read m' (Ptr s) i (length ys) = Some ys"
    using mem_read_in_block [OF blk, of off i "length ys"] le len b(1) by (simp add: bs'_def)
  moreover have "keeps m m' s s" using b(1) by (auto simp: keeps_def m'_def buffer_of_def)
  moreover have "dom (blocks m') = dom (blocks m)" using b(2) by (auto simp: m'_def)
  ultimately show ?thesis using that w by (simp add: m'_def)
qed

lemma mem_read_append:
  assumes "mem_read m p 0 k = Some xs" "mem_read m p k n = Some ys"
  shows "mem_read m p 0 (k + n) = Some (xs @ ys)"
proof (cases "k = 0 \<or> n = 0")
  case True
  then show ?thesis using assms by (elim disjE) simp_all
next
  case False
  then have n: "0 < k" "0 < n" by auto
  obtain b off bs where b: "p = Some (b, off)" "blocks m b = Some bs" by (rule mem_read_block [OF assms(1) n(1)])
  have "take k (drop off bs) = xs" "off + k + n \<le> length bs" "take n (drop (off + k) bs) = ys"
    using assms n mem_read_iff [OF b(2)] unfolding b(1) by simp_all
  then show ?thesis using n mem_read_iff [OF b(2), of "k + n"] unfolding b(1) by (simp add: take_add add.commute add.left_commute)
qed

lemma extend_value:
  assumes "bs_rep m s xs" "mem_read m (Ptr s) (length xs) (length ys) = Some ys" "length xs + length ys \<le> unat (Alloced_length s)"
    and "l' = str_length s + of_nat (length ys)"
  shows "bs_rep m (s\<lparr>str_length := l'\<rparr>) (xs @ ys)"
proof -
  have l: "unat (str_length s) = length xs" by (rule bs_rep_length [OF assms(1)])
  have lt: "length xs + length ys < 2 ^ 32" using assms(3) unsigned_less [of "Alloced_length s", where 'a = nat] by simp
  then have l': "unat l' = length xs + length ys"
    using l by (simp add: assms(4) unat_word_ariths unat_of_nat take_bit_nat_eq_self)
  have "mem_read m (Ptr s) 0 (length xs) = Some xs" using assms(1) l by (simp add: bs_rep_def sbs_value_def)
  then have "sbs_value m (s\<lparr>str_length := l'\<rparr>) = Some (xs @ ys)"
    using mem_read_append [OF _ assms(2)] l' by (simp add: sbs_value_def)
  then show ?thesis using assms(1,3) l' by (auto simp: bs_rep_def word_le_nat_alt)
qed


subsection \<open>Growing and appending\<close>

lemma unat_up: "unat (ucast (x :: 32 word) :: 64 word) = unat x"
  using unsigned_less [of x, where 'a = nat] by (simp add: unsigned_ucast_eq take_bit_nat_eq_self)

lemma ucast_up_down: "ucast (ucast (x :: 32 word) :: 64 word) = x"
  by (rule bit_word_eqI) (simp add: bit_ucast_iff)

lemma realloc_raw_spec:
  assumes "realloc_law F" "bs_rep m s xs" "length xs \<le> unat n"
  obtains failed m' s' where "realloc_raw F m s n = (failed, m', s')" "bs_rep m' s' xs" "keeps m m' s s'"
    "failed \<Longrightarrow> m' = m \<and> s' = s" "\<not> failed \<Longrightarrow> unat n < unat (Alloced_length s')"
proof -
  obtain failed m' s' where r: "realloc_raw F m s n = (failed, m', s')" by (cases "realloc_raw F m s n") auto
  have law: "if failed then m' = m \<and> s' = s
      else bs_rep m' s' xs \<and> unat n < unat (Alloced_length s') \<and>
        (\<forall>b. blocks m b \<noteq> None \<longrightarrow> b \<notin> owned s \<longrightarrow> blocks m' b = blocks m b \<and> (b \<in> heap_blocks m' \<longleftrightarrow> b \<in> heap_blocks m)) \<and>
        (\<forall>b \<in> buffer_of s'. b \<in> buffer_of s \<or> blocks m b = None)"
    using assms(1) unfolding realloc_law_def using assms(2,3) r by blast
  have own: "owned s \<subseteq> buffer_of s" by (auto simp: owned_def buffer_of_def)
  show ?thesis
  proof (cases failed)
    case True
    then show ?thesis using that [OF r] law assms(2) by (simp add: keeps_refl)
  next
    case False
    have "keeps m m' s s'" unfolding keeps_def using law False own by (simp split: if_splits) blast
    then show ?thesis using that [OF r] law False by simp
  qed
qed

lemma realloc_tail:
  assumes "bs_rep m s xs" "length xs \<le> unat n" "unat n < unat (Alloced_length s)"
  obtains m' where "mem_write m (Ptr s) (unat n) [0] = Some m'" "bs_rep m' s xs" "keeps m m' s s" "mem_read m' (Ptr s) (unat n) 1 = Some [0]"
proof (rule write_behind [OF assms(1), of "unat n" "[0]"])
  show "unat n + length [0 :: uchar] \<le> unat (Alloced_length s)" using assms(3) by simp
qed (use assms(2) that in auto)

lemma bs_realloc_spec:
  assumes "realloc_law F" "bs_rep m s xs" "length xs \<le> unat n"
  obtains failed m' s' where "bs_realloc F m s n = Some (failed, m', s')" "bs_rep m' s' xs" "keeps m m' s s'"
    "\<not> failed \<longrightarrow> unat n < unat (Alloced_length s') \<and> mem_read m' (Ptr s') (unat n) 1 = Some [0]"
    "failed \<longrightarrow> m' = m \<and> s' = s" "failed = fst (realloc_raw F m s n)"
proof -
  obtain failed m1 s1 where r: "realloc_raw F m s n = (failed, m1, s1)" "bs_rep m1 s1 xs" "keeps m m1 s s1"
    "failed \<Longrightarrow> m1 = m \<and> s1 = s" "\<not> failed \<Longrightarrow> unat n < unat (Alloced_length s1)"
    using realloc_raw_spec [OF assms] by blast
  show ?thesis
  proof (cases failed)
    case True
    then show ?thesis using that [of True m1 s1] r by (simp add: bs_realloc_def)
  next
    case False
    obtain m2 where m2: "mem_write m1 (Ptr s1) (unat n) [0] = Some m2" "bs_rep m2 s1 xs" "keeps m1 m2 s1 s1" "mem_read m2 (Ptr s1) (unat n) 1 = Some [0]"
      using realloc_tail [OF r(2) assms(3) r(5) [OF False]] by blast
    then show ?thesis using that [of False m2 s1] r False keeps_trans [OF r(3) m2(3)] by (simp add: bs_realloc_def)
  qed
qed

text \<open>
  When an append that needs \<open>len\<close> bytes is refused: there is no room for them and the zero behind, and
  \<open>realloc_raw\<close> fails for the length with the reserve of the string, which doubles, by 128 more, up to 4096.
\<close>

definition next_extra :: "Binary_string \<Rightarrow> Binary_string" where
  "next_extra s = (if extra_alloc s < 4096 then s\<lparr>extra_alloc := extra_alloc s * 2 + 128\<rparr> else s)"


lemma realloc_with_extra_spec:
  assumes "realloc_law F" "bs_rep m s xs" "length xs \<le> unat n" "unat n < 2 ^ 63"
  obtains failed m' s' where "realloc_with_extra F m s n = Some (failed, m', s')" "bs_rep m' s' xs" "keeps m m' s s'"
    "\<not> failed \<Longrightarrow> unat n < unat (Alloced_length s')" "failed \<Longrightarrow> m' = m"
    "failed = fst (realloc_raw F m (next_extra s) (n + ucast (extra_alloc (next_extra s))))"
proof -
  define s0 where s0n: "s0 = next_extra s"
  note s0_def = s0n [unfolded next_extra_def]
  have s0: "bs_rep m s0 xs" "Ptr s0 = Ptr s" using assms(2) by (auto simp: s0_def bs_rep_def sbs_value_def)
  define k where "k = n + ucast (extra_alloc s0)"
  have "unat (extra_alloc s0) < 2 ^ 32" using unsigned_less [of "extra_alloc s0", where 'a = nat] by simp
  then have "unat (ucast (extra_alloc s0) :: 64 word) = unat (extra_alloc s0)" by (simp add: unat_up)
  then have k: "unat n \<le> unat k" using \<open>unat (extra_alloc s0) < 2 ^ 32\<close> assms(4) by (simp add: k_def unat_word_ariths)
  obtain failed m1 s1 where r: "realloc_raw F m s0 k = (failed, m1, s1)" "bs_rep m1 s1 xs" "keeps m m1 s0 s1"
    "failed \<Longrightarrow> m1 = m \<and> s1 = s0" "\<not> failed \<Longrightarrow> unat k < unat (Alloced_length s1)"
    using realloc_raw_spec [OF assms(1) s0(1)] k assms(3) order_trans by metis
  have kp: "keeps m m1 s s1" using keeps_trans [OF keeps_refl [OF s0(2)] r(3)] .
  have e: "realloc_with_extra F m s n = (if failed then Some (True, m1, s1) else map_option (\<lambda>m2. (False, m2, s1)) (mem_write m1 (Ptr s1) (unat n) [0]))"
    using r(1) by (simp add: realloc_with_extra_def s0_def [symmetric] k_def [symmetric] Let_def)
  have fl: "failed = fst (realloc_raw F m (next_extra s) (n + ucast (extra_alloc (next_extra s))))"
    using r(1) by (simp add: k_def s0n)
  show ?thesis
  proof (cases failed)
    case True
    then show ?thesis using that [of True m1 s1] r kp e fl by simp
  next
    case False
    have n: "unat n < unat (Alloced_length s1)" using r(5) [OF False] k by simp
    obtain m2 where m2: "mem_write m1 (Ptr s1) (unat n) [0] = Some m2" "bs_rep m2 s1 xs" "keeps m1 m2 s1 s1"
      using realloc_tail [OF r(2) assms(3) n] by blast
    then show ?thesis using that [of False m2 s1] False n keeps_trans [OF kp m2(3)] e fl by simp
  qed
qed


text \<open>The source of an append: readable bytes outside the buffer of the string.\<close>

definition source :: "smem \<Rightarrow> Binary_string \<Rightarrow> sptr \<Rightarrow> bytes \<Rightarrow> bool" where
  "source m s p ys \<longleftrightarrow> mem_read m p 0 (length ys) = Some ys \<and> (case p of None \<Rightarrow> True | Some (b, _) \<Rightarrow> b \<notin> buffer_of s)"

lemma source_keeps:
  assumes "source m s p ys" "keeps m m' s s'" "ys \<noteq> []"
  shows "source m' s' p ys"
proof -
  have "0 < length ys" "mem_read m p 0 (length ys) = Some ys" using assms(1,3) by (auto simp: source_def)
  then obtain b off bs where b: "p = Some (b, off)" "blocks m b = Some bs" using mem_read_block by metis
  have nb: "b \<notin> buffer_of s" using assms(1) b(1) by (simp add: source_def)
  then have "blocks m' b = blocks m b" "b \<notin> buffer_of s'" using assms(2) b(2) by (auto simp: keeps_def)
  then show ?thesis using assms(1) b(1) mem_read_other [where p = p and m' = m' and m = m] by (simp add: source_def)
qed

lemma q_append_spec:
  assumes "bs_rep m s xs" "source m s p ys" "unat n = length ys" "length xs + length ys \<le> unat (Alloced_length s)" "ys \<noteq> []"
  obtains m' s' where "q_append m s p n = Some (m', s')" "bs_rep m' s' (xs @ ys)" "keeps m m' s s'" "Alloced_length s' = Alloced_length s"
proof -
  have l: "unat (str_length s) = length xs" by (rule bs_rep_length [OF assms(1)])
  obtain m' where m': "mem_write m (Ptr s) (length xs) ys = Some m'" "bs_rep m' s xs" "mem_read m' (Ptr s) (length xs) (length ys) = Some ys" "keeps m m' s s"
    by (rule write_behind [OF assms(1,4) order_refl assms(5)])
  have "\<not> overlap (sbs_end s) (unat n) p (unat n)"
    using assms(2) by (auto simp: overlap_def sbs_end_def ptr_add_def source_def buffer_of_def split: option.splits)
  moreover have "mem_read m p 0 (unat n) = Some ys" using assms(2,3) by (simp add: source_def)
  ultimately have q: "q_append m s p n = Some (m', s\<lparr>str_length := str_length s + ucast n\<rparr>)"
    using m'(1) l by (simp add: q_append_def)
  have "(ucast n :: 32 word) = of_nat (length ys)" unfolding assms(3) [symmetric] by simp
  then have "bs_rep m' (s\<lparr>str_length := str_length s + ucast n\<rparr>) (xs @ ys)"
    using extend_value [OF m'(2,3) assms(4)] by simp
  moreover have "keeps m m' s (s\<lparr>str_length := str_length s + ucast n\<rparr>)" using m'(4) by (simp add: keeps_def buffer_of_def)
  ultimately show ?thesis using that q by simp
qed



lemma q_append_char_spec:
  assumes "bs_rep m s xs" "length xs < unat (Alloced_length s)"
  obtains m' s' where "q_append_char m s c = Some (m', s')" "bs_rep m' s' (xs @ [c])" "keeps m m' s s'"
proof -
  have l: "unat (str_length s) = length xs" by (rule bs_rep_length [OF assms(1)])
  have le: "length xs + length [c] \<le> unat (Alloced_length s)" using assms(2) by simp
  obtain m' where m': "mem_write m (Ptr s) (length xs) [c] = Some m'" "bs_rep m' s xs" "mem_read m' (Ptr s) (length xs) (length [c]) = Some [c]" "keeps m m' s s"
    by (rule write_behind [OF assms(1) le order_refl]) auto
  have "bs_rep m' (s\<lparr>str_length := str_length s + 1\<rparr>) (xs @ [c])" using extend_value [OF m'(2,3) le] by simp
  moreover have "keeps m m' s (s\<lparr>str_length := str_length s + 1\<rparr>)" using m'(4) by (simp add: keeps_def buffer_of_def)
  ultimately show ?thesis using that m'(1) l by (simp add: q_append_char_def)
qed

lemma append_char_spec:
  assumes "realloc_law F" "bs_rep m s xs" "Suc (length xs) < 2 ^ 32"
  obtains failed m' s' where "append_char F m s c = Some (failed, m', s')" "bs_rep m' s' (if failed then xs else xs @ [c])" "keeps m m' s s'"
proof -
  have l: "unat (str_length s) = length xs" by (rule bs_rep_length [OF assms(2)])
  show ?thesis
  proof (cases "str_length s < Alloced_length s")
    case True
    then have "length xs < unat (Alloced_length s)" using l by (simp add: word_less_nat_alt)
    then obtain m' s' where "q_append_char m s c = Some (m', s')" "bs_rep m' s' (xs @ [c])" "keeps m m' s s'"
      by (rule q_append_char_spec [OF assms(2)])
    then show ?thesis using that [of False m' s'] True by (simp add: append_char_def)
  next
    case False
    define k where "k = (ucast (str_length s + 1) :: 64 word)"
    have k: "unat k = Suc (length xs)" using l assms(3) by (simp add: k_def unat_up unat_word_ariths)
    obtain failed m1 s1 where r: "realloc_with_extra F m s k = Some (failed, m1, s1)" "bs_rep m1 s1 xs" "keeps m m1 s s1"
        "\<not> failed \<Longrightarrow> unat k < unat (Alloced_length s1)"
      by (rule realloc_with_extra_spec [OF assms(1,2), of k]) (use k assms(3) in auto)
    show ?thesis
    proof (cases failed)
      case True
      then show ?thesis using that [of True m1 s1] r False by (simp add: append_char_def k_def)
    next
      case f: False
      have "length xs < unat (Alloced_length s1)" using r(4) [OF f] k by simp
      then obtain m2 s2 where q: "q_append_char m1 s1 c = Some (m2, s2)" "bs_rep m2 s2 (xs @ [c])" "keeps m1 m2 s1 s2"
        by (rule q_append_char_spec [OF r(2)])
      then show ?thesis using that [of False m2 s2] r(1) f False keeps_trans [OF r(3) q(3)] by (simp add: append_char_def k_def)
    qed
  qed
qed

definition hex_digits :: "(uchar \<Rightarrow> uchar) \<Rightarrow> bytes \<Rightarrow> bytes" where
  "hex_digits dig cs = concat (map (\<lambda>c. [dig (drop_bit 4 c), dig (c AND 0x0F)]) cs)"

lemma length_hex_digits: "length (hex_digits dig cs) = 2 * length cs"
  by (induction cs) (simp_all add: hex_digits_def)

lemma append_hex_spec:
  assumes "realloc_law F" "bs_rep m s xs" "length xs + 2 * length cs < 2 ^ 32"
  shows "\<exists>failed m' s' ys. append_hex_loop F dig cs m s = Some (failed, m', s') \<and> bs_rep m' s' (xs @ ys) \<and> keeps m m' s s' \<and>
    (if failed then \<exists>zs. hex_digits dig cs = ys @ zs else ys = hex_digits dig cs)"
  using assms(2,3)
proof (induction cs arbitrary: m s xs)
  case Nil
  then show ?case by (intro exI [of _ False] exI [of _ m] exI [of _ s] exI [of _ "[]"]) (simp add: hex_digits_def keeps_refl)
next
  case (Cons c cs)
  let ?a = "dig (drop_bit 4 c)" and ?b = "dig (c AND 0x0F)"
  have h: "hex_digits dig (c # cs) = ?a # ?b # hex_digits dig cs" by (simp add: hex_digits_def)
  have "Suc (length xs) < 2 ^ 32" using Cons.prems(2) by simp
  then obtain f1 m1 s1 where r1: "append_char F m s ?a = Some (f1, m1, s1)" "bs_rep m1 s1 (if f1 then xs else xs @ [?a])" "keeps m m1 s s1"
    by (rule append_char_spec [OF assms(1) Cons.prems(1)])
  show ?case
  proof (cases f1)
    case True
    then show ?thesis using r1 by (intro exI [of _ True] exI [of _ m1] exI [of _ s1] exI [of _ "[]"]) simp
  next
    case F1: False
    then have b1: "bs_rep m1 s1 (xs @ [?a])" using r1(2) by simp
    have "Suc (length (xs @ [?a])) < 2 ^ 32" using Cons.prems(2) by simp
    then obtain f2 m2 s2 where r2: "append_char F m1 s1 ?b = Some (f2, m2, s2)" "bs_rep m2 s2 (if f2 then xs @ [?a] else (xs @ [?a]) @ [?b])" "keeps m1 m2 s1 s2"
      by (rule append_char_spec [OF assms(1) b1])
    note k2 = keeps_trans [OF r1(3) r2(3)]
    show ?thesis
    proof (cases f2)
      case True
      then show ?thesis using r1(1) r2 F1 k2 h
        by (intro exI [of _ True] exI [of _ m2] exI [of _ s2] exI [of _ "[?a]"]) simp
    next
      case F2: False
      then have b2: "bs_rep m2 s2 (xs @ [?a, ?b])" using r2(2) by simp
      obtain f m' s' ys where r: "append_hex_loop F dig cs m2 s2 = Some (f, m', s')" "bs_rep m' s' ((xs @ [?a, ?b]) @ ys)" "keeps m2 m' s2 s'"
          "if f then \<exists>zs. hex_digits dig cs = ys @ zs else ys = hex_digits dig cs"
        using Cons.IH [OF b2] Cons.prems(2) by auto
      have "append_hex_loop F dig (c # cs) m s = Some (f, m', s')" using r1(1) r2(1) r(1) F1 F2 by simp
      moreover have "bs_rep m' s' (xs @ (?a # ?b # ys))" using r(2) by simp
      moreover have "if f then \<exists>zs. hex_digits dig (c # cs) = (?a # ?b # ys) @ zs else ?a # ?b # ys = hex_digits dig (c # cs)"
        using r(4) h by (auto split: if_splits)
      ultimately show ?thesis using keeps_trans [OF k2 r(3)] by blast
    qed
  qed
qed

lemma append_with_step_spec:
  assumes "realloc_law F" "bs_rep m s xs" "source m s p ys" "unat n = length ys" "length xs + length ys + unat step < 2 ^ 32"
  obtains failed m' s' where "append_with_step F m s p n step = Some (failed, m', s')" "bs_rep m' s' (if failed then xs else xs @ ys)" "keeps m m' s s'"
proof -
  have l: "unat (str_length s) = length xs" by (rule bs_rep_length [OF assms(2)])
  define k where "k = n + str_length s"
  have k: "unat k = length xs + length ys" using l assms(4,5) by (simp add: k_def unat_word_ariths)
  have ks: "unat (ucast (k + step) :: 64 word) = length xs + length ys + unat step"
    using k assms(5) by (simp add: unat_up unat_word_ariths)
  obtain failed m1 s1 where r: "(if k > Alloced_length s then bs_realloc F m s (ucast (k + step)) else Some (False, m, s)) = Some (failed, m1, s1)"
      "bs_rep m1 s1 xs" "keeps m m1 s s1" "\<not> failed \<Longrightarrow> length xs + length ys \<le> unat (Alloced_length s1)"
  proof (cases "k > Alloced_length s")
    case True
    have le: "length xs \<le> unat (ucast (k + step) :: 64 word)" using ks by simp
    obtain failed m' s' where h: "bs_realloc F m s (ucast (k + step)) = Some (failed, m', s')" "bs_rep m' s' xs" "keeps m m' s s'"
        "\<not> failed \<longrightarrow> unat (ucast (k + step) :: 64 word) < unat (Alloced_length s') \<and> mem_read m' (Ptr s') (unat (ucast (k + step) :: 64 word)) 1 = Some [0]"
      by (rule bs_realloc_spec [OF assms(1,2) le])
    have "length xs + length ys \<le> unat (Alloced_length s')" if "\<not> failed" using h(4) that ks by linarith
    then show ?thesis using that [of failed m' s'] True h by simp
  next
    case False
    have "length xs + length ys \<le> unat (Alloced_length s)" using False k by (simp add: word_le_nat_alt not_less)
    then show ?thesis using that [of False m s] assms(2) False by (simp add: keeps_refl)
  qed
  have e: "append_with_step F m s p n step = (if failed then Some (True, m1, s1) else
      map_option (\<lambda>(m2, s2). (False, m2, s2)) (q_append m1 s1 p (ucast n)))"
    using r(1) by (simp add: append_with_step_def k_def [symmetric] Let_def) (cases "q_append m1 s1 p (ucast n)"; auto)
  show ?thesis
  proof (cases failed)
    case True
    then show ?thesis using that [of True m1 s1] r e by simp
  next
    case f: False
    have un: "unat (ucast n :: 64 word) = length ys" using assms(4) by (simp add: unat_up)
    show ?thesis
    proof (cases "ys = []")
      case True
      then have "n = 0" using assms(4) by (simp add: unat_eq_0)
      then have "q_append m1 s1 p (ucast n) = Some (m1, s1)"
        by (simp add: q_append_def mem_write_def overlap_def split: option.splits)
      then show ?thesis using that [of False m1 s1] r True f e by simp
    next
      case False
      obtain m2 s2 where q: "q_append m1 s1 p (ucast n) = Some (m2, s2)" "bs_rep m2 s2 (xs @ ys)" "keeps m1 m2 s1 s2"
        using q_append_spec [OF r(2) source_keeps [OF assms(3) r(3) False] un r(4) [OF f] False] by blast
      then show ?thesis using that [of False m2 s2] f e keeps_trans [OF r(3) q(3)] by simp
    qed
  qed
qed


lemma c_ptr_safe_spec:
  assumes "realloc_law F" "bs_rep m s xs"
  shows "\<exists>m' s'. c_ptr_safe F m s = Some (Ptr s', m', s') \<and> bs_rep m' s' xs \<and> keeps m m' s s' \<and>
    (mem_read m' (Ptr s') (length xs) 1 = Some [0] \<or> fst (realloc_raw F m s (ucast (str_length s))) \<and> m' = m \<and> s' = s)"
proof -
  have l: "unat (str_length s) = length xs" by (rule bs_rep_length [OF assms(2)])
  have u: "unat (ucast (str_length s) :: 64 word) = length xs" using l by (simp add: unat_up)
  show ?thesis
  proof (cases "Ptr s \<noteq> None \<and> str_length s < Alloced_length s")
    case True
    then have lt: "unat (ucast (str_length s) :: 64 word) < unat (Alloced_length s)" using u l by (simp add: word_less_nat_alt)
    obtain m' where "mem_write m (Ptr s) (length xs) [0] = Some m'" "bs_rep m' s xs" "keeps m m' s s" "mem_read m' (Ptr s) (length xs) 1 = Some [0]"
      by (rule realloc_tail [OF assms(2) _ lt]) (use u in auto)
    then show ?thesis using True l by (auto simp: c_ptr_safe_def)
  next
    case False
    have le: "length xs \<le> unat (ucast (str_length s) :: 64 word)" using u by simp
    obtain failed m' s' where r: "bs_realloc F m s (ucast (str_length s)) = Some (failed, m', s')" "bs_rep m' s' xs" "keeps m m' s s'"
        "\<not> failed \<longrightarrow> unat (ucast (str_length s) :: 64 word) < unat (Alloced_length s') \<and>
           mem_read m' (Ptr s') (unat (ucast (str_length s) :: 64 word)) 1 = Some [0]"
        "failed \<longrightarrow> m' = m \<and> s' = s" "failed = fst (realloc_raw F m s (ucast (str_length s)))"
      by (rule bs_realloc_spec [OF assms le])
    have "c_ptr_safe F m s = Some (Ptr s', m', s')" using False r(1) by (auto simp: c_ptr_safe_def)
    moreover have "mem_read m' (Ptr s') (length xs) 1 = Some [0] \<or> fst (realloc_raw F m s (ucast (str_length s))) \<and> m' = m \<and> s' = s"
      using r(4-6) unfolding u by (cases failed) simp_all
    ultimately show ?thesis using r(2,3) by blast
  qed
qed

subsection \<open>Ownership\<close>

lemma bs_free_spec:
  assumes "bs_rep m s xs"
  shows "\<exists>m' s'. bs_free m s = Some (m', s') \<and> heap_blocks m' = heap_blocks m - owned s \<and>
    (\<forall>b. b \<notin> owned s \<longrightarrow> blocks m' b = blocks m b) \<and> bs_rep m' s' [] \<and> Ptr s' = None \<and> Alloced_length s' = 0 \<and> \<not> alloced s' \<and>
    thread_specific s' = thread_specific s"
proof (cases "alloced s")
  case True
  then obtain b where b: "Ptr s = Some (b, 0)" "b \<in> heap_blocks m" using assms by (auto simp: bs_rep_def)
  then show ?thesis using True
    by (simp add: bs_free_def my_free_def owned_def sbs_set_def bs_rep_def sbs_value_def)
next
  case False
  then show ?thesis by (simp add: bs_free_def owned_def sbs_set_def bs_rep_def sbs_value_def)
qed

lemma rep_survives:
  assumes "bs_rep m t ys" "buffer_of t \<inter> A = {}" "\<forall>b. b \<notin> A \<longrightarrow> blocks m' b = blocks m b" "heap_blocks m' = heap_blocks m - A"
  shows "bs_rep m' t ys"
proof (cases "Ptr t")
  case None
  then show ?thesis using assms(1) by (simp add: bs_rep_def sbs_value_def mem_read_def split: if_splits)
next
  case (Some p)
  obtain b off where p: "p = (b, off)" by (cases p)
  then have "b \<notin> A" using assms(2) Some by (simp add: buffer_of_def)
  then show ?thesis using assms(1,3,4) Some p by (auto simp: bs_rep_def sbs_value_def mem_read_def)
qed

lemma bs_move_spec:
  assumes "bs_rep m s xs" "bs_rep m t ys" "owned s \<inter> buffer_of t = {}"
  shows "\<exists>m' s' t'. bs_move m s t = Some (m', s', t') \<and> bs_rep m' s' ys \<and> bs_rep m' t' ys \<and> owned s' = owned t \<and> owned t' = {} \<and>
    heap_blocks m' = heap_blocks m - owned s \<and> (\<forall>b. b \<notin> owned s \<longrightarrow> blocks m' b = blocks m b)"
proof -
  obtain m1 s1 where f: "bs_free m s = Some (m1, s1)" "heap_blocks m1 = heap_blocks m - owned s" "\<forall>b. b \<notin> owned s \<longrightarrow> blocks m1 b = blocks m b"
    using bs_free_spec [OF assms(1)] by blast
  have r: "bs_rep m1 t ys" using rep_survives [OF assms(2) _ f(3,2)] assms(3) by blast
  let ?s = "s1\<lparr>Ptr := Ptr t, str_length := str_length t, Alloced_length := Alloced_length t, extra_alloc := extra_alloc t,
      alloced := alloced t, thread_specific := thread_specific t\<rparr>"
  have "bs_move m s t = Some (m1, ?s, t\<lparr>alloced := False\<rparr>)"
    using f(1) by (cases s1) (simp add: bs_move_def set_alloced_def sbs_set_def ucast_up_down)
  moreover have "bs_rep m1 ?s ys" "bs_rep m1 (t\<lparr>alloced := False\<rparr>) ys" using r by (simp_all add: bs_rep_def sbs_value_def)
  moreover have "owned ?s = owned t" "owned (t\<lparr>alloced := False\<rparr>) = {}" by (simp_all add: owned_def)
  ultimately show ?thesis using f(2,3) by blast
qed

lemma delete_spec:
  assumes "bs_rep m s xs"
  obtains m' where "bs_delete m s = Some m'" "heap_blocks m' = heap_blocks m - owned s" "\<forall>b. b \<notin> owned s \<longrightarrow> blocks m' b = blocks m b"
  using bs_free_spec [OF assms] by (auto simp: bs_delete_def)


subsection \<open>Properties\<close>

text \<open>A memory of eight heap blocks to apply the theorems to: growing copies the value to a free block.\<close>

definition grow0 :: "smem \<Rightarrow> Binary_string \<Rightarrow> 64 word \<Rightarrow> bool \<times> smem \<times> Binary_string" where
  "grow0 m s n = (if unat n < unat (Alloced_length s) then (False, m, s)
     else case List.find (\<lambda>b. blocks m b = None) [0, 1, 2, 3, 4, 5, 6, 7] of None \<Rightarrow> (True, m, s)
     | Some b \<Rightarrow> (case sbs_value m s of None \<Rightarrow> (True, m, s)
       | Some xs \<Rightarrow> if unat n + 1 < 2 ^ 32 \<and> length xs \<le> unat n
           then (False, m\<lparr>blocks := (blocks m)(b \<mapsto> xs @ replicate (unat n + 1 - length xs) 0), heap_blocks := insert b (heap_blocks m)\<rparr>,
             s\<lparr>Ptr := Some (b, 0), Alloced_length := of_nat (unat n + 1), alloced := True\<rparr>)
           else (True, m, s)))"

definition strings0 :: string_functions where
  "strings0 = \<lparr>real_alloc = grow0, realloc_raw = grow0\<rparr>"

lemma grow0_law:
  assumes "bs_rep m s xs" "length xs \<le> unat n" "grow0 m s n = (failed, m', s')"
  shows "if failed then m' = m \<and> s' = s
      else bs_rep m' s' xs \<and> unat n < unat (Alloced_length s') \<and>
        (\<forall>b. blocks m b \<noteq> None \<longrightarrow> b \<notin> owned s \<longrightarrow> blocks m' b = blocks m b \<and> (b \<in> heap_blocks m' \<longleftrightarrow> b \<in> heap_blocks m)) \<and>
        (\<forall>b \<in> buffer_of s'. b \<in> buffer_of s \<or> blocks m b = None)"
proof (cases "unat n < unat (Alloced_length s)")
  case True
  then show ?thesis using assms by (auto simp: grow0_def)
next
  case False
  have v: "sbs_value m s = Some xs" using assms(1) by (simp add: bs_rep_def)
  have l: "unat (str_length s) = length xs" by (rule bs_rep_length [OF assms(1)])
  show ?thesis
  proof (cases "List.find (\<lambda>b. blocks m b = None) [0, 1, 2, 3, 4, 5, 6, 7]")
    case None
    then show ?thesis using assms(3) False by (auto simp: grow0_def)
  next
    case (Some b)
    then have b: "blocks m b = None" by (metis (mono_tags, lifting) find_Some_iff)
    show ?thesis
    proof (cases "unat n + 1 < 2 ^ 32")
      case True
      let ?m = "m\<lparr>blocks := (blocks m)(b \<mapsto> xs @ replicate (unat n + 1 - length xs) 0), heap_blocks := insert b (heap_blocks m)\<rparr>"
      let ?s = "s\<lparr>Ptr := Some (b, 0), Alloced_length := of_nat (unat n + 1), alloced := True\<rparr>"
      have g: "failed = False" "m' = ?m" "s' = ?s" using assms(2,3) False Some v True by (auto simp: grow0_def)
      have u: "unat (Alloced_length ?s) = unat n + 1"
      proof -
        have "unat (of_nat (unat n + 1) :: 32 word) = take_bit 32 (unat n + 1)" by (simp only: unat_of_nat) (simp add: take_bit_nat_def)
        also have "\<dots> = unat n + 1" using True by (rule take_bit_nat_eq_self)
        finally show ?thesis by (simp del: of_nat_add of_nat_Suc of_nat_unat)
      qed
      have "mem_read ?m (Some (b, 0)) 0 (length xs) = Some xs"
        using mem_read_iff [of ?m b "xs @ replicate (unat n + 1 - length xs) 0" "length xs" 0 0 xs] by (cases "xs = []") simp_all
      then have "sbs_value ?m ?s = Some xs" using l by (simp add: sbs_value_def)
      moreover have "str_length ?s \<le> Alloced_length ?s" using l assms(2) u by (simp only: word_le_nat_alt) simp
      ultimately have "bs_rep ?m ?s xs" using u assms(2) by (simp only: bs_rep_def) auto
      then show ?thesis unfolding g using u b by (auto simp: buffer_of_def)
    next
      case F: False
      then show ?thesis using assms(3) False Some v by (auto simp: grow0_def)
    qed
  qed
qed

lemma strings0_law: "realloc_law strings0"
  unfolding realloc_law_def strings0_def string_functions.simps using grow0_law by blast

lemma BinaryStringBuffer_rep:
  assumes "blocks m b = Some bs" "off + unat sz \<le> length bs" "unat sz < 2 ^ 32"
  shows "bs_rep m (BinaryStringBuffer (Some (b, off)) sz) []"
proof -
  have "unat (ucast sz :: 32 word) = unat sz" using assms(3) by (simp add: unsigned_ucast_eq take_bit_nat_eq_self)
  then show ?thesis using assms
    by (simp add: bs_rep_def BinaryStringBuffer_def bs_new_buffer_def bs_new_def sbs_set_def sbs_set_length_def sbs_value_def)
qed

text \<open>A constant of five bytes, and the empty string.\<close>

definition smem0 :: smem where
  "smem0 = \<lparr>blocks = [9 \<mapsto> [104, 101, 108, 108, 111]], heap_blocks = {}\<rparr>"

lemma smem0_empty: "bs_rep smem0 bs_new []"
  by (simp add: bs_rep_def bs_new_def sbs_value_def)






text \<open>
  \<open>append_hex\<close> appends two digits for every byte, the high half first. When memory runs out on the way it
  reports this and the value has the digits that were appended before.
\<close>

theorem string_append_hex:
  assumes "realloc_law F" "bs_rep m s xs" "length xs + 2 * length cs < 2 ^ 32"
  shows "\<exists>failed m' s' ys. append_hex F dig m s cs = Some (failed, m', s') \<and> bs_rep m' s' (xs @ ys) \<and>
    (if failed then \<exists>zs. hex_digits dig cs = ys @ zs else ys = hex_digits dig cs)"
  using append_hex_spec [OF assms, of dig] unfolding append_hex_def by blast

theorem string_append_hex_witness:
  "\<exists>failed m' s' ys. append_hex strings0 (\<lambda>d. d + 48) smem0 bs_new [0x12, 0x34] = Some (failed, m', s') \<and> bs_rep m' s' ([] @ ys) \<and>
    (if failed then \<exists>zs. hex_digits (\<lambda>d. d + 48) [0x12, 0x34] = ys @ zs else ys = hex_digits (\<lambda>d. d + 48) [0x12, 0x34])"
proof -
  have p: "length ([] :: bytes) + 2 * length [0x12, 0x34 :: uchar] < 2 ^ 32" by simp
  show ?thesis by (rule string_append_hex [OF strings0_law smem0_empty p])
qed

text \<open>
  \<open>c_ptr_safe\<close> keeps the value and returns a pointer to it with a zero byte behind it, without reading or
  writing outside the buffer; only where the buffer has to grow and there is no memory is the zero missing.
\<close>

theorem string_c_ptr_safe:
  assumes "realloc_law F" "bs_rep m s xs"
  shows "\<exists>m' s'. c_ptr_safe F m s = Some (Ptr s', m', s') \<and> bs_rep m' s' xs \<and>
    (mem_read m' (Ptr s') (length xs) 1 = Some [0] \<or> fst (realloc_raw F m s (ucast (str_length s))) \<and> m' = m \<and> s' = s)"
  using c_ptr_safe_spec [OF assms] by blast

theorem string_c_ptr_safe_witness:
  "\<exists>m' s'. c_ptr_safe strings0 smem0 bs_new = Some (Ptr s', m', s') \<and> bs_rep m' s' []"
  using string_c_ptr_safe [OF strings0_law smem0_empty] by blast

text \<open>
  C37. \<open>move\<close> hands the buffer of the source over: the target has its value and owns what the source owned,
  the former buffer of the target is freed, and the destructors of both objects, in either order, free every
  owned block once and nothing else.
\<close>

theorem string_move_frees_once:
  assumes "bs_rep m s xs" "bs_rep m t ys" "owned s \<inter> buffer_of t = {}"
  shows "\<exists>m' s' t' m1 m2 m3 m4. bs_move m s t = Some (m', s', t') \<and> bs_rep m' s' ys \<and>
    bs_delete m' s' = Some m1 \<and> bs_delete m1 t' = Some m2 \<and> bs_delete m' t' = Some m3 \<and> bs_delete m3 s' = Some m4 \<and>
    heap_blocks m2 = heap_blocks m - owned s - owned t \<and> heap_blocks m4 = heap_blocks m - owned s - owned t \<and>
    (\<forall>b. b \<notin> owned s \<union> owned t \<longrightarrow> blocks m2 b = blocks m b \<and> blocks m4 b = blocks m b)"
proof -
  obtain m' s' t' where v: "bs_move m s t = Some (m', s', t')" "bs_rep m' s' ys" "bs_rep m' t' ys" "owned s' = owned t" "owned t' = {}"
      "heap_blocks m' = heap_blocks m - owned s" "\<forall>b. b \<notin> owned s \<longrightarrow> blocks m' b = blocks m b"
    using bs_move_spec [OF assms] by blast
  obtain m1 where m1: "bs_delete m' s' = Some m1" "heap_blocks m1 = heap_blocks m' - owned s'" "\<forall>b. b \<notin> owned s' \<longrightarrow> blocks m1 b = blocks m' b"
    by (rule delete_spec [OF v(2)])
  obtain m3 where m3: "bs_delete m' t' = Some m3" "heap_blocks m3 = heap_blocks m' - owned t'" "\<forall>b. b \<notin> owned t' \<longrightarrow> blocks m3 b = blocks m' b"
    by (rule delete_spec [OF v(3)])
  have "\<not> alloced t'" using v(3,5) by (auto simp: owned_def bs_rep_def split: if_splits)
  then have m2: "bs_delete m1 t' = Some m1" by (simp add: bs_delete_def bs_free_def)
  have "bs_rep m3 s' ys" using rep_survives [OF v(2), of "owned t'" m3] m3(2,3) v(5) by simp
  then obtain m4 where m4: "bs_delete m3 s' = Some m4" "heap_blocks m4 = heap_blocks m3 - owned s'" "\<forall>b. b \<notin> owned s' \<longrightarrow> blocks m4 b = blocks m3 b"
    by (rule delete_spec)
  have "heap_blocks m1 = heap_blocks m - owned s - owned t" "heap_blocks m4 = heap_blocks m - owned s - owned t"
    using m1(2) m3(2) m4(2) v(4-6) by simp_all
  moreover have "\<forall>b. b \<notin> owned s \<union> owned t \<longrightarrow> blocks m1 b = blocks m b \<and> blocks m4 b = blocks m b"
    using m1(3) m3(3) m4(3) v(4,5,7) by simp
  ultimately show ?thesis using v(1,2) m1(1) m2 m3(1) m4(1) by blast
qed

theorem string_move_frees_once_witness:
  "\<exists>m' s' t'. bs_move smem0 bs_new (bs_new_const (Some (9, 0)) 5) = Some (m', s', t') \<and> bs_rep m' s' [104, 101, 108, 108, 111]"
proof -
  have p: "bs_rep smem0 (bs_new_const (Some (9, 0)) 5) [104, 101, 108, 108, 111]" "owned bs_new \<inter> buffer_of (bs_new_const (Some (9, 0)) 5) = {}"
    by (simp_all add: bs_rep_def bs_new_const_def bs_new_def sbs_set_def init_private_data_def sbs_value_def smem0_def mem_read_def arr_slice_def owned_def)
  show ?thesis using string_move_frees_once [OF smem0_empty p] by blast
qed

text \<open>
  \<open>append_with_step\<close> adds the lengths in 32 bits. Where the sum wraps around to at most \<open>Alloced_length\<close> the
  buffer is not enlarged, and the copy runs over the end of a buffer of less than \<open>2 ^ 32\<close> bytes.
\<close>

theorem string_append_with_step_wraps:
  assumes "bs_rep m s xs" "Ptr s = Some (b, off)" "blocks m b = Some bs" "length bs < 2 ^ 32"
    and "2 ^ 32 \<le> unat n + length xs" "n + str_length s \<le> Alloced_length s"
  shows "append_with_step F m s p n step = None"
proof -
  have l: "unat (str_length s) = length xs" by (rule bs_rep_length [OF assms(1)])
  have "0 < unat n"
  proof (rule ccontr)
    assume "\<not> 0 < unat n"
    then have "2 ^ 32 \<le> unat (str_length s)" using assms(5) l by simp
    then show False using unsigned_less [of "str_length s", where 'a = nat] by simp
  qed
  have "mem_write m (Some (b, off)) (length xs) ys = None" if "length ys = unat n" for ys
    using that assms(3-5) \<open>0 < unat n\<close> by (auto simp: mem_write_def arr_blit_def)
  then have w: "mem_write m (Ptr s) (unat (str_length s)) ys = None" if "length ys = unat n" for ys using that l assms(2) by simp
  have "q_append m s p (ucast n) = None"
  proof (cases "mem_read m p 0 (unat n)")
    case (Some ys)
    then show ?thesis using w [OF mem_read_length [OF Some]] by (simp add: q_append_def unat_up)
  qed (simp add: q_append_def unat_up)
  moreover have "\<not> n + str_length s > Alloced_length s" using assms(6) by (simp only: not_less)
  ultimately show ?thesis by (simp add: append_with_step_def Let_def)
qed

theorem string_append_with_step_wraps_witness:
  "append_with_step strings0 smem0 (bs_new_buffer (Some (9, 0)) 5) (Some (9, 0)) (2 ^ 32 - 1) 0 = None"
proof -
  have p: "bs_rep smem0 (bs_new_buffer (Some (9, 0)) 5) [104, 101, 108, 108, 111]" "Ptr (bs_new_buffer (Some (9, 0)) 5) = Some (9, 0)"
    "blocks smem0 9 = Some [104, 101, 108, 108, 111]" "length [104, 101, 108, 108, 111 :: uchar] < 2 ^ 32"
    "2 ^ 32 \<le> unat (2 ^ 32 - 1 :: 32 word) + length [104, 101, 108, 108, 111 :: uchar]"
    "2 ^ 32 - 1 + str_length (bs_new_buffer (Some (9, 0)) 5) \<le> Alloced_length (bs_new_buffer (Some (9, 0)) 5)"
    by (simp_all add: bs_rep_def bs_new_buffer_def bs_new_def sbs_set_def sbs_value_def smem0_def mem_read_def arr_slice_def)
  show ?thesis by (rule string_append_with_step_wraps [OF p])
qed

end
