(* ===== verification/DateMode.thy ===== *)
theory DateMode
  imports Prelude
begin

text \<open>
  \<open>sql_basic_types.h\<close>: the strictly typed flag words of the temporal conversions. \<open>date_conv_mode_t\<close>
  holds conversion flags, \<open>time_round_mode_t\<close> one of three rounding modes and \<open>date_mode_t\<close> a mixture
  of both. Their enumerations have the type \<open>int\<close> on the packaged target, so a mode is a 32-bit word
  and a conversion to \<open>ulonglong\<close> extends the sign.
\<close>

subsection \<open>The three classes\<close>

datatype date_conv_mode_t = Date_conv_mode (conv_m_mode: "32 word")

datatype time_round_mode_t = Time_round_mode (round_m_mode: "32 word")

datatype date_mode_t = Date_mode (date_m_mode: "32 word")

definition CONV_NONE :: "32 word" where "CONV_NONE = 0"
definition FUZZY_DATES :: "32 word" where "FUZZY_DATES = 1"
definition TIME_ONLY :: "32 word" where "TIME_ONLY = 4"
definition INTERVAL_hhmmssff :: "32 word" where "INTERVAL_hhmmssff = 8"
definition INTERVAL_DAY :: "32 word" where "INTERVAL_DAY = 16"
definition RANGE0_LAST :: "32 word" where "RANGE0_LAST = INTERVAL_DAY"
definition NO_ZERO_IN_DATE :: "32 word" where "NO_ZERO_IN_DATE = push_bit 23 1"
definition NO_ZERO_DATE :: "32 word" where "NO_ZERO_DATE = push_bit 24 1"
definition INVALID_DATES :: "32 word" where "INVALID_DATES = push_bit 25 1"

definition CONV_KNOWN_MODES :: "32 word" where
  "CONV_KNOWN_MODES = FUZZY_DATES OR TIME_ONLY OR INTERVAL_hhmmssff OR INTERVAL_DAY
     OR NO_ZERO_IN_DATE OR NO_ZERO_DATE OR INVALID_DATES"

definition FRAC_NONE :: "32 word" where "FRAC_NONE = 0"
definition FRAC_TRUNCATE :: "32 word" where "FRAC_TRUNCATE = push_bit 1 RANGE0_LAST"
definition FRAC_ROUND :: "32 word" where "FRAC_ROUND = push_bit 2 RANGE0_LAST"

definition ROUND_KNOWN_MODES :: "32 word" where
  "ROUND_KNOWN_MODES = FRAC_TRUNCATE OR FRAC_ROUND"

subsection \<open>Operations of \<open>date_conv_mode_t\<close>\<close>

definition mk_date_conv_mode :: "ulonglong \<Rightarrow> date_conv_mode_t" where
  "mk_date_conv_mode fuzzydate = Date_conv_mode (ucast fuzzydate)"

definition dcm_ulonglong :: "date_conv_mode_t \<Rightarrow> ulonglong" where
  "dcm_ulonglong a = scast (conv_m_mode a)"

definition dcm_bool :: "date_conv_mode_t \<Rightarrow> bool" where
  "dcm_bool a \<longleftrightarrow> conv_m_mode a \<noteq> 0"

definition dcm_not :: "date_conv_mode_t \<Rightarrow> ulonglong" where
  "dcm_not a = scast (NOT (conv_m_mode a))"

definition dcm_and :: "date_conv_mode_t \<Rightarrow> date_conv_mode_t \<Rightarrow> date_conv_mode_t" where
  "dcm_and a other = mk_date_conv_mode (scast (conv_m_mode a AND conv_m_mode other))"

definition dcm_and_ulonglong :: "date_conv_mode_t \<Rightarrow> ulonglong \<Rightarrow> date_conv_mode_t" where
  "dcm_and_ulonglong a other = mk_date_conv_mode (scast (conv_m_mode a) AND other)"

definition dcm_or :: "date_conv_mode_t \<Rightarrow> date_conv_mode_t \<Rightarrow> date_conv_mode_t" where
  "dcm_or a other = mk_date_conv_mode (scast (conv_m_mode a OR conv_m_mode other))"

definition dcm_and_assign :: "date_conv_mode_t \<Rightarrow> date_conv_mode_t \<Rightarrow> date_conv_mode_t" where
  "dcm_and_assign a other = Date_conv_mode (conv_m_mode a AND conv_m_mode other)"

definition dcm_or_assign :: "date_conv_mode_t \<Rightarrow> date_conv_mode_t \<Rightarrow> date_conv_mode_t" where
  "dcm_or_assign a other = Date_conv_mode (conv_m_mode a OR conv_m_mode other)"

subsection \<open>Operations of \<open>time_round_mode_t\<close>\<close>

definition mk_time_round_mode :: "ulonglong \<Rightarrow> time_round_mode_t" where
  "mk_time_round_mode mode = Time_round_mode (ucast mode)"

definition trm_ulonglong :: "time_round_mode_t \<Rightarrow> ulonglong" where
  "trm_ulonglong a = scast (round_m_mode a)"

definition trm_mode :: "time_round_mode_t \<Rightarrow> 32 word" where
  "trm_mode a = round_m_mode a"

definition trm_eq :: "time_round_mode_t \<Rightarrow> time_round_mode_t \<Rightarrow> bool" where
  "trm_eq a other \<longleftrightarrow> round_m_mode a = round_m_mode other"

subsection \<open>Operations of \<open>date_mode_t\<close>\<close>

definition mk_date_mode :: "ulonglong \<Rightarrow> date_mode_t" where
  "mk_date_mode fuzzydate = Date_mode (ucast fuzzydate)"

definition dm_ulonglong :: "date_mode_t \<Rightarrow> ulonglong" where
  "dm_ulonglong a = scast (date_m_mode a)"

definition dm_bool :: "date_mode_t \<Rightarrow> bool" where
  "dm_bool a \<longleftrightarrow> date_m_mode a \<noteq> 0"

definition dm_conv :: "date_mode_t \<Rightarrow> date_conv_mode_t" where
  "dm_conv a = mk_date_conv_mode (scast (date_m_mode a) AND scast CONV_KNOWN_MODES)"

definition dm_round :: "date_mode_t \<Rightarrow> time_round_mode_t" where
  "dm_round a = mk_time_round_mode (scast (date_m_mode a) AND scast ROUND_KNOWN_MODES)"

definition dm_not :: "date_mode_t \<Rightarrow> ulonglong" where
  "dm_not a = scast (NOT (date_m_mode a))"

definition dm_is_zero :: "date_mode_t \<Rightarrow> bool" where
  "dm_is_zero a \<longleftrightarrow> date_m_mode a = 0"

definition dm_and :: "date_mode_t \<Rightarrow> date_mode_t \<Rightarrow> date_mode_t" where
  "dm_and a other = mk_date_mode (scast (date_m_mode a AND date_m_mode other))"

definition dm_and_ulonglong :: "date_mode_t \<Rightarrow> ulonglong \<Rightarrow> date_mode_t" where
  "dm_and_ulonglong a other = mk_date_mode (scast (date_m_mode a) AND other)"

definition dm_or :: "date_mode_t \<Rightarrow> date_mode_t \<Rightarrow> date_mode_t" where
  "dm_or a other = mk_date_mode (scast (date_m_mode a OR date_m_mode other))"

definition dm_and_assign :: "date_mode_t \<Rightarrow> date_mode_t \<Rightarrow> date_mode_t" where
  "dm_and_assign a other = Date_mode (date_m_mode a AND date_m_mode other)"

definition dm_or_assign :: "date_mode_t \<Rightarrow> date_mode_t \<Rightarrow> date_mode_t" where
  "dm_or_assign a other = Date_mode (date_m_mode a OR date_m_mode other)"

definition dm_or_assign_conv :: "date_mode_t \<Rightarrow> date_conv_mode_t \<Rightarrow> date_mode_t" where
  "dm_or_assign_conv a other = Date_mode (ucast (scast (date_m_mode a) OR dcm_ulonglong other))"

subsection \<open>Mixtures of the three types\<close>

definition dm_or_conv :: "date_mode_t \<Rightarrow> date_conv_mode_t \<Rightarrow> date_mode_t" where
  "dm_or_conv a b = mk_date_mode (dm_ulonglong a OR dcm_ulonglong b)"

definition conv_or_round :: "date_conv_mode_t \<Rightarrow> time_round_mode_t \<Rightarrow> date_mode_t" where
  "conv_or_round a b = mk_date_mode (dcm_ulonglong a OR trm_ulonglong b)"

definition conv_or_dm :: "date_conv_mode_t \<Rightarrow> date_mode_t \<Rightarrow> date_mode_t" where
  "conv_or_dm a b = mk_date_mode (dcm_ulonglong a OR dm_ulonglong b)"

definition dm_and_conv :: "date_mode_t \<Rightarrow> date_conv_mode_t \<Rightarrow> date_conv_mode_t" where
  "dm_and_conv a b = mk_date_conv_mode (dm_ulonglong a AND dcm_ulonglong b)"

definition conv_and_dm :: "date_conv_mode_t \<Rightarrow> date_mode_t \<Rightarrow> date_conv_mode_t" where
  "conv_and_dm a b = mk_date_conv_mode (dcm_ulonglong a AND dm_ulonglong b)"

definition sql_mode_and_conv :: "ulonglong \<Rightarrow> date_conv_mode_t \<Rightarrow> date_conv_mode_t" where
  "sql_mode_and_conv a b = mk_date_conv_mode (a AND dcm_ulonglong b)"

definition TIME_CONV_NONE :: date_conv_mode_t where "TIME_CONV_NONE = Date_conv_mode CONV_NONE"
definition TIME_FUZZY_DATES :: date_conv_mode_t where "TIME_FUZZY_DATES = Date_conv_mode FUZZY_DATES"
definition TIME_TIME_ONLY :: date_conv_mode_t where "TIME_TIME_ONLY = Date_conv_mode TIME_ONLY"
definition TIME_INTERVAL_hhmmssff :: date_conv_mode_t where
  "TIME_INTERVAL_hhmmssff = Date_conv_mode INTERVAL_hhmmssff"
definition TIME_INTERVAL_DAY :: date_conv_mode_t where "TIME_INTERVAL_DAY = Date_conv_mode INTERVAL_DAY"
definition TIME_NO_ZERO_IN_DATE :: date_conv_mode_t where
  "TIME_NO_ZERO_IN_DATE = Date_conv_mode NO_ZERO_IN_DATE"
definition TIME_NO_ZERO_DATE :: date_conv_mode_t where "TIME_NO_ZERO_DATE = Date_conv_mode NO_ZERO_DATE"
definition TIME_INVALID_DATES :: date_conv_mode_t where "TIME_INVALID_DATES = Date_conv_mode INVALID_DATES"
definition TIME_NO_ZEROS :: date_conv_mode_t where
  "TIME_NO_ZEROS = Date_conv_mode (NO_ZERO_DATE OR NO_ZERO_IN_DATE)"
definition TIME_MODE_FOR_XXX_TO_DATE :: date_conv_mode_t where
  "TIME_MODE_FOR_XXX_TO_DATE = Date_conv_mode (NO_ZERO_IN_DATE OR NO_ZERO_DATE OR INVALID_DATES)"
definition TIME_FRAC_NONE :: time_round_mode_t where "TIME_FRAC_NONE = Time_round_mode FRAC_NONE"
definition TIME_FRAC_TRUNCATE :: time_round_mode_t where
  "TIME_FRAC_TRUNCATE = Time_round_mode FRAC_TRUNCATE"
definition TIME_FRAC_ROUND :: time_round_mode_t where "TIME_FRAC_ROUND = Time_round_mode FRAC_ROUND"

lemmas mode_consts = CONV_NONE_def FUZZY_DATES_def TIME_ONLY_def INTERVAL_hhmmssff_def INTERVAL_DAY_def
  RANGE0_LAST_def NO_ZERO_IN_DATE_def NO_ZERO_DATE_def INVALID_DATES_def CONV_KNOWN_MODES_def
  FRAC_NONE_def FRAC_TRUNCATE_def FRAC_ROUND_def ROUND_KNOWN_MODES_def

lemmas mode_values = TIME_CONV_NONE_def TIME_FUZZY_DATES_def TIME_TIME_ONLY_def TIME_INTERVAL_hhmmssff_def
  TIME_INTERVAL_DAY_def TIME_NO_ZERO_IN_DATE_def TIME_NO_ZERO_DATE_def TIME_INVALID_DATES_def
  TIME_NO_ZEROS_def TIME_MODE_FOR_XXX_TO_DATE_def TIME_FRAC_NONE_def TIME_FRAC_TRUNCATE_def TIME_FRAC_ROUND_def

text \<open>Every operation is the bitwise one on the 32-bit flag words, whatever width it goes through.\<close>

lemma ucast_scast_64 [simp]: "ucast (scast (x :: 32 word) :: 64 word) = x"
  by (rule word_bit_eqI) (simp add: bit_simps)

lemma ucast_and_64: "ucast ((a :: 64 word) AND b) = (ucast a AND ucast b :: 32 word)"
  by (rule word_bit_eqI) (auto simp: bit_simps)

lemma ucast_or_64: "ucast ((a :: 64 word) OR b) = (ucast a OR ucast b :: 32 word)"
  by (rule word_bit_eqI) (auto simp: bit_simps)

lemmas mode_ops = mk_date_conv_mode_def dcm_ulonglong_def dcm_bool_def dcm_not_def dcm_and_def
  dcm_and_ulonglong_def dcm_or_def dcm_and_assign_def dcm_or_assign_def mk_time_round_mode_def trm_ulonglong_def
  trm_mode_def trm_eq_def mk_date_mode_def dm_ulonglong_def dm_bool_def dm_conv_def dm_round_def dm_not_def
  dm_is_zero_def dm_and_def dm_and_ulonglong_def dm_or_def dm_and_assign_def dm_or_assign_def dm_or_assign_conv_def
  dm_or_conv_def conv_or_round_def conv_or_dm_def dm_and_conv_def conv_and_dm_def sql_mode_and_conv_def
  ucast_and_64 ucast_or_64

lemma CONV_KNOWN_MODES_value: "CONV_KNOWN_MODES = 0x380001D"
  by (simp add: mode_consts)

lemma ROUND_KNOWN_MODES_value: "ROUND_KNOWN_MODES = 0x60"
  by (simp add: mode_consts)

lemma known_modes_disjoint: "CONV_KNOWN_MODES AND ROUND_KNOWN_MODES = 0"
  by (simp add: CONV_KNOWN_MODES_value ROUND_KNOWN_MODES_value)

text \<open>The flags a value of each class can have.\<close>

definition conv_flags :: "date_conv_mode_t \<Rightarrow> bool" where
  "conv_flags c \<longleftrightarrow> conv_m_mode c AND NOT CONV_KNOWN_MODES = 0"

definition round_flags :: "time_round_mode_t \<Rightarrow> bool" where
  "round_flags r \<longleftrightarrow> r \<in> {TIME_FRAC_NONE, TIME_FRAC_TRUNCATE, TIME_FRAC_ROUND}"

lemma mixture_parts_bits:
  fixes a b c r :: "32 word"
  assumes "a AND NOT c = 0" "b AND NOT r = 0" "c AND r = 0"
  shows "(a OR b) AND c = a" "(a OR b) AND r = b"
proof -
  have "bit (a AND NOT c) n = bit 0 n" "bit (b AND NOT r) n = bit 0 n" "bit (c AND r) n = bit 0 n" for n
    using assms by simp_all
  then have *: "n < 32 \<Longrightarrow> (bit a n \<longrightarrow> bit c n) \<and> (bit b n \<longrightarrow> bit r n) \<and> \<not> (bit c n \<and> bit r n)" for n
    by (auto simp: bit_simps)
  show "(a OR b) AND c = a" "(a OR b) AND r = b"
    by (rule word_bit_eqI, use * in \<open>simp add: bit_simps, blast\<close>)+
qed

text \<open>
  \<open>date_conv_mode_t | time_round_mode_t\<close> followed by the two explicit conversions of \<open>date_mode_t\<close>: no
  flag of one kind is lost or taken for a flag of the other kind, also after more conversion flags are
  added with \<open>|\<close> or \<open>|=\<close>.
\<close>
theorem date_mode_roundtrip:
  assumes "conv_flags c" "conv_flags d" "round_flags r"
  shows "dm_conv (conv_or_round c r) = c \<and> dm_round (conv_or_round c r) = r \<and>
         dm_conv (dm_or_conv (conv_or_round c r) d) = dcm_or c d \<and>
         dm_round (dm_or_assign_conv (conv_or_round c r) d) = r"
proof -
  have r: "round_m_mode r AND NOT ROUND_KNOWN_MODES = 0"
    using assms(3) by (auto simp: round_flags_def mode_values ROUND_KNOWN_MODES_value)
      (simp_all add: mode_consts)
  have cd: "(conv_m_mode c OR conv_m_mode d) AND NOT CONV_KNOWN_MODES = 0"
    using assms(1,2) by (simp add: conv_flags_def bit.conj_disj_distrib2)
  note 1 = mixture_parts_bits [OF assms(1) [unfolded conv_flags_def] r known_modes_disjoint]
  note 2 = mixture_parts_bits [OF cd r known_modes_disjoint]
  have "(conv_m_mode c OR round_m_mode r OR conv_m_mode d) AND CONV_KNOWN_MODES = conv_m_mode c OR conv_m_mode d"
       "(conv_m_mode c OR round_m_mode r OR conv_m_mode d) AND ROUND_KNOWN_MODES = round_m_mode r"
    using 2 by (simp_all add: or.assoc or.commute or.left_commute)
  with 1 show ?thesis by (simp add: mode_ops or.assoc)
qed

theorem date_mode_roundtrip_witness:
  "dm_conv (conv_or_round TIME_NO_ZEROS TIME_FRAC_ROUND) = TIME_NO_ZEROS"
  using date_mode_roundtrip [of TIME_NO_ZEROS TIME_TIME_ONLY TIME_FRAC_ROUND]
  by (simp add: conv_flags_def round_flags_def mode_values mode_consts)

end
