(* ===== verification/MyTime.thy ===== *)
theory MyTime
  imports DateMode "HOL-Library.Signed_Division" "HOL-Library.Product_Lexorder"
begin

text \<open>
  \<open>mysql_time.h\<close>, \<open>my_time.h\<close>, the inline functions of \<open>sql_time.h\<close> and the packing macros of
  \<open>compat56.h\<close>: the structure \<open>MYSQL_TIME\<close>, its limits, truncation of fractional seconds and the tests
  on the date and time parts. \<open>long\<close> and \<open>ulong\<close> are 32 bits wide as on the packaged Windows target.
  The table \<open>log_10_int\<close> is defined outside the headers: it is a parameter, of which \<open>log_10_law\<close>
  states what its declaration and name promise.
\<close>

subsection \<open>Signed division\<close>

definition c_sdiv :: "'a::len word \<Rightarrow> 'a word \<Rightarrow> 'a word" where
  "c_sdiv a b = word_of_int (sint a sdiv sint b)"

definition c_smod :: "'a::len word \<Rightarrow> 'a word \<Rightarrow> 'a word" where
  "c_smod a b = word_of_int (sint a smod sint b)"

lemma int_smod_of_nat: "int m smod int n = int (m mod n)"
  by (cases "m = 0") (simp_all add: smod_int_alt_def zmod_int)

lemma int_sdiv_of_nat: "int m sdiv int n = int (m div n)"
  by (cases "m = 0"; cases "n = 0") (simp_all add: signed_divide_int_def zdiv_int)

lemma sint_eq_unat:
  fixes a :: "'a::len word"
  assumes "unat a < 2 ^ (LENGTH('a) - 1)"
  shows "sint a = int (unat a)"
proof -
  have b: "int (unat a) < 2 ^ (LENGTH('a) - 1)"
    using assms by (metis of_nat_less_iff of_nat_numeral of_nat_power)
  have n: "- (2 ^ (LENGTH('a) - 1)) \<le> int (unat a)"
    by (rule order_trans [of _ 0]) simp_all
  have "sint a = signed_take_bit (LENGTH('a) - 1) (int (unat a))"
    by (simp add: sint_uint)
  also have "\<dots> = int (unat a)"
    using n b by (rule signed_take_bit_int_eq_self)
  finally show ?thesis .
qed

lemma unat_of_small:
  assumes "n \<le> unat (a :: 'a::len word)"
  shows "unat (word_of_nat n :: 'a word) = n"
proof -
  have "n < 2 ^ LENGTH('a)"
    using assms unsigned_less [of a, where 'a = nat] by (rule le_less_trans)
  then show ?thesis by (simp add: unat_of_nat)
qed

lemma unat_c_smod:
  fixes a b :: "'a::len word"
  assumes "unat a < 2 ^ (LENGTH('a) - 1)" "unat b < 2 ^ (LENGTH('a) - 1)"
  shows "unat (c_smod a b) = unat a mod unat b"
proof -
  have "sint a smod sint b = int (unat a mod unat b)"
    by (simp only: sint_eq_unat [OF assms(1)] sint_eq_unat [OF assms(2)] int_smod_of_nat)
  then have "c_smod a b = word_of_nat (unat a mod unat b)"
    by (simp add: c_smod_def)
  then show ?thesis
    using unat_of_small [of "unat a mod unat b" a] by simp
qed

lemma unat_c_sdiv:
  fixes a b :: "'a::len word"
  assumes "unat a < 2 ^ (LENGTH('a) - 1)" "unat b < 2 ^ (LENGTH('a) - 1)"
  shows "unat (c_sdiv a b) = unat a div unat b"
proof -
  have "sint a sdiv sint b = int (unat a div unat b)"
    by (simp only: sint_eq_unat [OF assms(1)] sint_eq_unat [OF assms(2)] int_sdiv_of_nat)
  then have "c_sdiv a b = word_of_nat (unat a div unat b)"
    by (simp add: c_sdiv_def)
  then show ?thesis
    using unat_of_small [of "unat a div unat b" a] by simp
qed

subsection \<open>mysql_time.h\<close>

datatype timestamp_type =
    MYSQL_TIMESTAMP_NONE | MYSQL_TIMESTAMP_ERROR | MYSQL_TIMESTAMP_DATE
  | MYSQL_TIMESTAMP_DATETIME | MYSQL_TIMESTAMP_TIME

record MYSQL_TIME =
  year :: uint
  month :: uint
  day :: uint
  hour :: uint
  minute :: uint
  second :: uint
  second_part :: ulong
  neg :: bool
  time_type :: timestamp_type

subsection \<open>my_time.h\<close>

definition TIMESTAMP_MAX_YEAR :: uint where "TIMESTAMP_MAX_YEAR = 2038"
definition YY_PART_YEAR :: uint where "YY_PART_YEAR = 70"
definition TIMESTAMP_MIN_YEAR :: uint where "TIMESTAMP_MIN_YEAR = 1900 + YY_PART_YEAR - 1"
definition TIMESTAMP_MAX_VALUE :: "64 word" where "TIMESTAMP_MAX_VALUE = 0x7FFFFFFF"
definition TIMESTAMP_MIN_VALUE :: "64 word" where "TIMESTAMP_MIN_VALUE = 0"

definition IS_TIME_T_VALID_FOR_TIMESTAMP :: "64 word \<Rightarrow> bool" where
  "IS_TIME_T_VALID_FOR_TIMESTAMP x \<longleftrightarrow> x \<le>s TIMESTAMP_MAX_VALUE \<and> TIMESTAMP_MIN_VALUE \<le>s x"

definition MYSQL_TIME_WARN_TRUNCATED :: "32 word" where "MYSQL_TIME_WARN_TRUNCATED = 1"
definition MYSQL_TIME_WARN_OUT_OF_RANGE :: "32 word" where "MYSQL_TIME_WARN_OUT_OF_RANGE = 2"
definition MYSQL_TIME_WARN_EDOM :: "32 word" where "MYSQL_TIME_WARN_EDOM = 4"
definition MYSQL_TIME_WARN_ZERO_DATE :: "32 word" where "MYSQL_TIME_WARN_ZERO_DATE = 8"
definition MYSQL_TIME_NOTE_TRUNCATED :: "32 word" where "MYSQL_TIME_NOTE_TRUNCATED = 16"

definition MYSQL_TIME_WARN_WARNINGS :: "32 word" where
  "MYSQL_TIME_WARN_WARNINGS = MYSQL_TIME_WARN_TRUNCATED OR MYSQL_TIME_WARN_OUT_OF_RANGE
     OR MYSQL_TIME_WARN_EDOM OR MYSQL_TIME_WARN_ZERO_DATE"

definition MYSQL_TIME_WARN_NOTES :: "32 word" where
  "MYSQL_TIME_WARN_NOTES = MYSQL_TIME_NOTE_TRUNCATED"

definition MYSQL_TIME_WARN_HAVE_WARNINGS :: "32 word \<Rightarrow> bool" where
  "MYSQL_TIME_WARN_HAVE_WARNINGS x \<longleftrightarrow> x AND MYSQL_TIME_WARN_WARNINGS \<noteq> 0"

definition MYSQL_TIME_WARN_HAVE_NOTES :: "32 word \<Rightarrow> bool" where
  "MYSQL_TIME_WARN_HAVE_NOTES x \<longleftrightarrow> x AND MYSQL_TIME_WARN_NOTES \<noteq> 0"

definition SECONDS_IN_24H :: ulonglong where "SECONDS_IN_24H = 86400"
definition TIME_MAX_INTERVAL_HOUR :: uint where "TIME_MAX_INTERVAL_HOUR = 87649415"
definition TIME_MAX_INTERVAL_DAY_CHAR_LENGTH :: uint where "TIME_MAX_INTERVAL_DAY_CHAR_LENGTH = 7"
definition TIME_MAX_HOUR :: uint where "TIME_MAX_HOUR = 838"
definition TIME_MAX_MINUTE :: uint where "TIME_MAX_MINUTE = 59"
definition TIME_MAX_SECOND :: uint where "TIME_MAX_SECOND = 59"
definition TIME_MAX_SECOND_PART :: ulong where "TIME_MAX_SECOND_PART = 999999"
definition TIME_SECOND_PART_DIGITS :: uint where "TIME_SECOND_PART_DIGITS = 6"

definition TIME_MAX_VALUE_SECONDS :: ulonglong where
  "TIME_MAX_VALUE_SECONDS = ucast TIME_MAX_HOUR * 3600 + ucast TIME_MAX_MINUTE * 60 + ucast TIME_MAX_SECOND"

record MYSQL_TIME_STATUS =
  warnings :: "32 word"
  precision :: uint
  nanoseconds :: uint

definition my_time_status_init :: "MYSQL_TIME_STATUS \<Rightarrow> MYSQL_TIME_STATUS" where
  "my_time_status_init status = status\<lparr>warnings := 0, precision := 0, nanoseconds := 0\<rparr>"

definition validate_timestamp_range :: "MYSQL_TIME \<Rightarrow> bool" where
  "validate_timestamp_range t \<longleftrightarrow>
     \<not> ((year t > TIMESTAMP_MAX_YEAR \<or> year t < TIMESTAMP_MIN_YEAR) \<or>
        (year t = TIMESTAMP_MAX_YEAR \<and> (month t > 1 \<or> day t > 19)) \<or>
        (year t = TIMESTAMP_MIN_YEAR \<and> (month t < 12 \<or> day t < 31)))"

definition sec_part_shift :: "(uint \<Rightarrow> ulonglong) \<Rightarrow> longlong \<Rightarrow> uint \<Rightarrow> longlong" where
  "sec_part_shift log_10_int sp digits = c_sdiv sp (log_10_int (TIME_SECOND_PART_DIGITS - digits))"

definition sec_part_unshift :: "(uint \<Rightarrow> ulonglong) \<Rightarrow> longlong \<Rightarrow> uint \<Rightarrow> longlong" where
  "sec_part_unshift log_10_int sp digits = sp * log_10_int (TIME_SECOND_PART_DIGITS - digits)"

definition my_time_fraction_remainder :: "(uint \<Rightarrow> ulonglong) \<Rightarrow> 32 word \<Rightarrow> uint \<Rightarrow> 32 word" where
  "my_time_fraction_remainder log_10_int nr decimals =
     c_smod nr (ucast (log_10_int (TIME_SECOND_PART_DIGITS - decimals)))"

definition my_time_trunc :: "(uint \<Rightarrow> ulonglong) \<Rightarrow> MYSQL_TIME \<Rightarrow> uint \<Rightarrow> MYSQL_TIME" where
  "my_time_trunc log_10_int ltime decimals =
     ltime\<lparr>second_part := second_part ltime - my_time_fraction_remainder log_10_int (second_part ltime) decimals\<rparr>"

record timeval =
  tv_sec :: "32 word"
  tv_usec :: "32 word"

definition my_timeval_trunc :: "(uint \<Rightarrow> ulonglong) \<Rightarrow> timeval \<Rightarrow> uint \<Rightarrow> timeval" where
  "my_timeval_trunc log_10_int tv decimals =
     tv\<lparr>tv_usec := tv_usec tv - my_time_fraction_remainder log_10_int (tv_usec tv) decimals\<rparr>"

datatype interval_type =
    INTERVAL_YEAR | INTERVAL_QUARTER | INTERVAL_MONTH | INTERVAL_WEEK | INTERVAL_DAY_t
  | INTERVAL_HOUR | INTERVAL_MINUTE | INTERVAL_SECOND | INTERVAL_MICROSECOND
  | INTERVAL_YEAR_MONTH | INTERVAL_DAY_HOUR | INTERVAL_DAY_MINUTE
  | INTERVAL_DAY_SECOND | INTERVAL_HOUR_MINUTE | INTERVAL_HOUR_SECOND
  | INTERVAL_MINUTE_SECOND | INTERVAL_DAY_MICROSECOND | INTERVAL_HOUR_MICROSECOND
  | INTERVAL_MINUTE_MICROSECOND | INTERVAL_SECOND_MICROSECOND | INTERVAL_LAST

subsection \<open>compat56.h\<close>

definition MY_PACKED_TIME_GET_INT_PART :: "longlong \<Rightarrow> longlong" where
  "MY_PACKED_TIME_GET_INT_PART x = signed_drop_bit 24 x"

definition MY_PACKED_TIME_GET_FRAC_PART :: "longlong \<Rightarrow> longlong" where
  "MY_PACKED_TIME_GET_FRAC_PART x = c_smod x (push_bit 24 1)"

definition MY_PACKED_TIME_MAKE :: "longlong \<Rightarrow> longlong \<Rightarrow> longlong" where
  "MY_PACKED_TIME_MAKE i f = push_bit 24 i + f"

definition MY_PACKED_TIME_MAKE_INT :: "longlong \<Rightarrow> longlong" where
  "MY_PACKED_TIME_MAKE_INT i = push_bit 24 i"

subsection \<open>sql_time.h\<close>

definition datetime_to_date :: "MYSQL_TIME \<Rightarrow> MYSQL_TIME" where
  "datetime_to_date ltime =
     ltime\<lparr>second_part := 0, hour := 0, minute := 0, second := 0, time_type := MYSQL_TIMESTAMP_DATE\<rparr>"

definition date_to_datetime :: "MYSQL_TIME \<Rightarrow> MYSQL_TIME" where
  "date_to_datetime ltime = ltime\<lparr>time_type := MYSQL_TIMESTAMP_DATETIME\<rparr>"

definition non_zero_hhmmssuu :: "MYSQL_TIME \<Rightarrow> bool" where
  "non_zero_hhmmssuu ltime \<longleftrightarrow>
     hour ltime \<noteq> 0 \<or> minute ltime \<noteq> 0 \<or> second ltime \<noteq> 0 \<or> second_part ltime \<noteq> 0"

definition non_zero_YYMMDD :: "MYSQL_TIME \<Rightarrow> bool" where
  "non_zero_YYMMDD ltime \<longleftrightarrow> year ltime \<noteq> 0 \<or> month ltime \<noteq> 0 \<or> day ltime \<noteq> 0"

definition non_zero_date :: "MYSQL_TIME \<Rightarrow> bool" where
  "non_zero_date ltime \<longleftrightarrow>
     non_zero_YYMMDD ltime \<or> (time_type ltime = MYSQL_TIMESTAMP_DATETIME \<and> non_zero_hhmmssuu ltime)"

definition check_date_flags ::
    "(MYSQL_TIME \<Rightarrow> bool \<Rightarrow> ulonglong \<Rightarrow> bool \<times> 32 word) \<Rightarrow> MYSQL_TIME \<Rightarrow> date_conv_mode_t \<Rightarrow> bool \<times> 32 word" where
  "check_date_flags check_date ltime flags =
     check_date ltime (non_zero_date ltime) (dcm_ulonglong (dcm_and flags TIME_MODE_FOR_XXX_TO_DATE))"

subsection \<open>Truncation of fractional seconds\<close>

definition log_10_law :: "(uint \<Rightarrow> ulonglong) \<Rightarrow> bool" where
  "log_10_law log_10_int \<longleftrightarrow> (\<forall>i < 20. log_10_int i = 10 ^ unat i)"

text \<open>The part of a number of microseconds that \<open>d\<close> decimals of a second hold.\<close>

definition trunc_usec :: "nat \<Rightarrow> nat \<Rightarrow> nat" where
  "trunc_usec d us = us div 10 ^ (6 - d) * 10 ^ (6 - d)"

lemma trunc_usec_le: "trunc_usec d us \<le> us"
  by (simp add: trunc_usec_def)

lemma unat_10_power:
  assumes "k \<le> 6"
  shows "unat (10 ^ k :: 64 word) = 10 ^ k"
proof -
  have "(10 :: nat) ^ k \<le> 10 ^ 6" using assms by (rule power_increasing) simp
  then have "(10 :: nat) ^ k < 2 ^ 64" by simp
  then have "unat (word_of_nat (10 ^ k) :: 64 word) = 10 ^ k"
    unfolding unat_of_nat by simp
  then show ?thesis by simp
qed

lemma log_10_digits:
  assumes "log_10_law L" "decimals \<le> TIME_SECOND_PART_DIGITS"
  shows "unat (L (TIME_SECOND_PART_DIGITS - decimals)) = 10 ^ (6 - unat decimals)" "unat decimals \<le> 6"
proof -
  have d: "unat decimals \<le> 6"
    using assms(2) by (simp add: TIME_SECOND_PART_DIGITS_def word_le_nat_alt)
  then have u: "unat (TIME_SECOND_PART_DIGITS - decimals) = 6 - unat decimals"
    using assms(2) by (simp add: TIME_SECOND_PART_DIGITS_def unat_sub)
  have "TIME_SECOND_PART_DIGITS - decimals < 20"
    unfolding word_less_nat_alt u by simp
  then have "L (TIME_SECOND_PART_DIGITS - decimals) = 10 ^ (6 - unat decimals)"
    using assms(1) u by (simp add: log_10_law_def)
  moreover have "unat (10 ^ (6 - unat decimals) :: 64 word) = 10 ^ (6 - unat decimals)"
    by (rule unat_10_power) simp
  ultimately show "unat (L (TIME_SECOND_PART_DIGITS - decimals)) = 10 ^ (6 - unat decimals)" by simp
  show "unat decimals \<le> 6" by (rule d)
qed

lemma my_time_fraction_remainder_unat:
  assumes "log_10_law L" "decimals \<le> TIME_SECOND_PART_DIGITS" "unat nr < 2 ^ 31"
  shows "unat (my_time_fraction_remainder L nr decimals) = unat nr mod 10 ^ (6 - unat decimals)"
proof -
  have "(10 :: nat) ^ (6 - unat decimals) \<le> 10 ^ 6" by (rule power_increasing) simp_all
  then have l: "(10 :: nat) ^ (6 - unat decimals) < 2 ^ 31" by simp
  let ?p = "L (TIME_SECOND_PART_DIGITS - decimals)"
  have "unat (ucast ?p :: 32 word) = unat ?p"
    using l log_10_digits(1) [OF assms(1,2)] by (intro unat_ucast_small) simp
  then have p: "unat (ucast ?p :: 32 word) = 10 ^ (6 - unat decimals)"
    using log_10_digits(1) [OF assms(1,2)] by simp
  show ?thesis
    unfolding my_time_fraction_remainder_def using assms(3) l p by (subst unat_c_smod) simp_all
qed

lemma unat_minus_remainder:
  assumes "log_10_law L" "decimals \<le> TIME_SECOND_PART_DIGITS" "unat nr < 2 ^ 31"
  shows "unat (nr - my_time_fraction_remainder L nr decimals) = trunc_usec (unat decimals) (unat nr)"
proof -
  note r = my_time_fraction_remainder_unat [OF assms]
  have "my_time_fraction_remainder L nr decimals \<le> nr"
    by (simp add: word_le_nat_alt r)
  then show ?thesis
    by (simp add: unat_sub r trunc_usec_def minus_mod_eq_div_mult)
qed

lemma my_time_trunc_second_part:
  assumes "log_10_law L" "decimals \<le> TIME_SECOND_PART_DIGITS" "second_part t \<le> TIME_MAX_SECOND_PART"
  shows "unat (second_part (my_time_trunc L t decimals)) = trunc_usec (unat decimals) (unat (second_part t))"
proof -
  have "unat (second_part t) < 2 ^ 31"
    using assms(3) by (simp add: word_le_nat_alt TIME_MAX_SECOND_PART_def)
  then show ?thesis
    using unat_minus_remainder [OF assms(1,2)] by (simp add: my_time_trunc_def)
qed

lemma trunc_usec_idem: "e \<le> d \<Longrightarrow> d \<le> 6 \<Longrightarrow> trunc_usec d (trunc_usec e us) = trunc_usec e us"
proof -
  assume "e \<le> d" "d \<le> 6"
  then have p: "(10 :: nat) ^ (6 - e) = 10 ^ (d - e) * 10 ^ (6 - d)"
    by (simp add: power_add [symmetric])
  have "trunc_usec e us = (us div 10 ^ (6 - e) * 10 ^ (d - e)) * 10 ^ (6 - d)"
    unfolding trunc_usec_def by (subst (2) p) (simp add: mult.assoc)
  then obtain q where "trunc_usec e us = q * 10 ^ (6 - d)" by blast
  then show ?thesis by (simp add: trunc_usec_def [of d])
qed

lemma trunc_usec_chain: "e \<le> d \<Longrightarrow> d \<le> 6 \<Longrightarrow> trunc_usec e (trunc_usec d us) = trunc_usec e us"
proof -
  assume "e \<le> d" "d \<le> 6"
  then have p: "(10 :: nat) ^ (6 - e) = 10 ^ (6 - d) * 10 ^ (d - e)"
    by (simp add: power_add [symmetric])
  show ?thesis
    unfolding trunc_usec_def p div_mult2_eq by simp
qed

text \<open>
  Storing the fraction of a second with fewer digits (\<open>sec_part_shift\<close>, then \<open>sec_part_unshift\<close>) is the
  truncation of \<open>my_time_trunc\<close>.
\<close>

lemma sec_part_shift_unshift:
  assumes "log_10_law L" "digits \<le> TIME_SECOND_PART_DIGITS" "unat sp < 10 ^ 6"
  shows "unat (sec_part_unshift L (sec_part_shift L sp digits) digits) = trunc_usec (unat digits) (unat sp)"
proof -
  let ?p = "L (TIME_SECOND_PART_DIGITS - digits)"
  note p = log_10_digits(1) [OF assms(1,2)]
  have "(10 :: nat) ^ (6 - unat digits) \<le> 10 ^ 6" by (rule power_increasing) simp_all
  then have "unat ?p < 2 ^ 63" using p by simp
  then have s: "unat (sec_part_shift L sp digits) = unat sp div unat ?p"
    unfolding sec_part_shift_def using assms(3) by (subst unat_c_sdiv) simp_all
  have "unat sp div unat ?p * unat ?p < 10 ^ 6"
    using assms(3) div_times_less_eq_dividend le_less_trans by blast
  then have "unat (sec_part_shift L sp digits * ?p) = unat sp div unat ?p * unat ?p"
    using s by (simp add: unat_word_ariths)
  then show ?thesis by (simp add: sec_part_unshift_def trunc_usec_def p)
qed

subsection \<open>The range of \<open>TIMESTAMP\<close>\<close>

lemma validate_timestamp_range_days:
  assumes "1 \<le> month t" "month t \<le> 12" "1 \<le> day t" "day t \<le> 31"
  shows "validate_timestamp_range t \<longleftrightarrow>
     (1969, 12, 31) \<le> (unat (year t), unat (month t), unat (day t)) \<and>
     (unat (year t), unat (month t), unat (day t)) \<le> (2038, 1, 19)"
proof -
  have eq: "year t = 2038 \<longleftrightarrow> unat (year t) = 2038" "year t = 1969 \<longleftrightarrow> unat (year t) = 1969"
    by (simp_all add: word_unat_eq_iff)
  show ?thesis
    using assms unfolding validate_timestamp_range_def
    by (simp add: TIMESTAMP_MAX_YEAR_def TIMESTAMP_MIN_YEAR_def YY_PART_YEAR_def word_less_nat_alt word_le_nat_alt eq
        less_eq_prod_def) linarith
qed

subsection \<open>Packed values\<close>

lemma packed_time_parts:
  assumes "unat x < 2 ^ 63"
  shows "MY_PACKED_TIME_MAKE (MY_PACKED_TIME_GET_INT_PART x) (MY_PACKED_TIME_GET_FRAC_PART x) = x"
proof -
  have "unat (MY_PACKED_TIME_GET_FRAC_PART x) = unat x mod 2 ^ 24"
    unfolding MY_PACKED_TIME_GET_FRAC_PART_def using assms by (subst unat_c_smod) simp_all
  then have "MY_PACKED_TIME_GET_FRAC_PART x = take_bit 24 x"
    by (simp add: word_unat_eq_iff unsigned_take_bit_eq take_bit_eq_mod unat_mod)
  moreover have "MY_PACKED_TIME_GET_INT_PART x = drop_bit 24 x"
  proof (rule word_bit_eqI)
    fix n assume "n < LENGTH(64)"
    moreover have "\<not> bit x 63" using assms less_pow_iff_no_high_bit [of x 63] by blast
    ultimately show "bit (MY_PACKED_TIME_GET_INT_PART x) n = bit (drop_bit 24 x) n"
      by (auto simp: MY_PACKED_TIME_GET_INT_PART_def bit_simps)
  qed
  moreover have "push_bit 24 (drop_bit 24 x) + take_bit 24 x = x"
    by (rule bits_ident)
  ultimately show ?thesis by (simp only: MY_PACKED_TIME_MAKE_def)
qed

end
