(* ===== verification/TemporalBase.thy ===== *)
theory TemporalBase
  imports MyTime SqlTypeInt
begin

text \<open>
  The value classes of \<open>sql_type.h\<close> that temporal conversions are made of: \<open>Sec6\<close> and \<open>Sec9\<close> (a number
  with a fraction on its way to a date or time), \<open>Sec6_add\<close> (the sum of two time values), \<open>Temporal\<close> (the
  checked wrapper of \<open>MYSQL_TIME\<close>), \<open>Temporal_hybrid\<close> and \<open>Extract_source\<close>. The conversion routines that are
  only declared in the headers are the fields of the record \<open>time_lib\<close>: a function of a field takes the
  objects the routine reads and returns its result followed by the objects it writes, for the
  thread at hand.
\<close>

subsection \<open>Numbers with a fraction\<close>

record Sec6 =
  m_sec :: ulonglong
  m_usec :: ulong
  m_neg :: bool
  m_truncated :: bool

record Sec9 = Sec6 +
  m_nsec :: ulong

text \<open>\<open>Temporal::Warn\<close>: the status of a conversion with the text of the value that caused warnings.\<close>

record Warn = MYSQL_TIME_STATUS +
  err_buffer :: string

record time_lib =
  log_10_int :: "uint \<Rightarrow> ulonglong"
  set_zero_time :: "MYSQL_TIME \<Rightarrow> timestamp_type \<Rightarrow> MYSQL_TIME"
  check_time_range :: "MYSQL_TIME \<Rightarrow> uint \<Rightarrow> 32 word \<Rightarrow> 32 word \<times> MYSQL_TIME \<times> 32 word"
  number_to_time_only :: "bool \<Rightarrow> ulonglong \<Rightarrow> ulong \<Rightarrow> ulong \<Rightarrow> MYSQL_TIME \<Rightarrow> 32 word \<Rightarrow>
    32 word \<times> MYSQL_TIME \<times> 32 word"
  number_to_datetime_or_date :: "longlong \<Rightarrow> ulong \<Rightarrow> MYSQL_TIME \<Rightarrow> ulonglong \<Rightarrow> 32 word \<Rightarrow>
    longlong \<times> MYSQL_TIME \<times> 32 word"
  str_to_datetime_or_date_or_interval_day :: "bytes \<Rightarrow> MYSQL_TIME \<Rightarrow> ulonglong \<Rightarrow> Warn \<Rightarrow> ulong \<Rightarrow> ulong \<Rightarrow>
    bool \<times> MYSQL_TIME \<times> Warn"
  str_to_datetime_or_date_or_interval_hhmmssff :: "bytes \<Rightarrow> MYSQL_TIME \<Rightarrow> ulonglong \<Rightarrow> Warn \<Rightarrow> ulong \<Rightarrow> ulong \<Rightarrow>
    bool \<times> MYSQL_TIME \<times> Warn"
  str_to_datetime_or_date_or_time :: "bytes \<Rightarrow> MYSQL_TIME \<Rightarrow> ulonglong \<Rightarrow> Warn \<Rightarrow> ulong \<Rightarrow> ulong \<Rightarrow>
    bool \<times> MYSQL_TIME \<times> Warn"
  str_to_datetime_or_date :: "bytes \<Rightarrow> MYSQL_TIME \<Rightarrow> ulonglong \<Rightarrow> Warn \<Rightarrow> bool \<times> MYSQL_TIME \<times> Warn"
  convert_to_mysql_time :: "Sec6 \<Rightarrow> Warn \<Rightarrow> MYSQL_TIME \<Rightarrow> date_mode_t \<Rightarrow> bool \<times> MYSQL_TIME \<times> Warn"
  sec9_round :: "Sec9 \<Rightarrow> uint \<Rightarrow> Sec9"
  add_nanoseconds_with_round :: "MYSQL_TIME \<Rightarrow> 32 word \<Rightarrow> date_conv_mode_t \<Rightarrow> ulong \<Rightarrow> bool \<times> MYSQL_TIME \<times> 32 word"
  set_longlong :: "Longlong_hybrid \<Rightarrow> string"
  calc_time_diff :: "MYSQL_TIME \<Rightarrow> MYSQL_TIME \<Rightarrow> int \<Rightarrow> bool \<times> ulonglong \<times> ulong"
  calc_time_from_sec :: "MYSQL_TIME \<Rightarrow> ulong \<Rightarrow> ulong \<Rightarrow> MYSQL_TIME"
  get_date_from_daynr :: "32 word \<Rightarrow> bool \<times> uint \<times> uint \<times> uint"
  adjust_time_range_with_warn :: "MYSQL_TIME \<Rightarrow> uint \<Rightarrow> bool \<times> MYSQL_TIME"
  pack_time :: "MYSQL_TIME \<Rightarrow> longlong"
  TIME_to_ulonglong :: "MYSQL_TIME \<Rightarrow> ulonglong"
  check_date :: "MYSQL_TIME \<Rightarrow> bool \<Rightarrow> ulonglong \<Rightarrow> bool \<times> 32 word"

definition s6_make_from_int :: "'a Sec6_scheme \<Rightarrow> Longlong_hybrid \<Rightarrow> 'a Sec6_scheme" where
  "s6_make_from_int s nr = s\<lparr>m_neg := lh_neg nr, m_sec := lh_abs nr, m_usec := 0, m_truncated := False\<rparr>"

definition s6_reset :: "'a Sec6_scheme \<Rightarrow> 'a Sec6_scheme" where
  "s6_reset s = s\<lparr>m_sec := 0, m_usec := 0, m_neg := False, m_truncated := False\<rparr>"

definition s6_add_nanoseconds :: "'a Sec6_scheme \<Rightarrow> uint \<Rightarrow> bool \<times> 'a Sec6_scheme" where
  "s6_add_nanoseconds s ns =
     (if ns < 500 then (False, s)
      else let s = s\<lparr>m_usec := m_usec s + (ns + 500) div 1000\<rparr>
           in if m_usec s < 1000000 then (False, s)
              else (True, s\<lparr>m_usec := m_usec s mod 1000000\<rparr>))"

definition mk_Sec6 :: "Longlong_hybrid \<Rightarrow> Sec6" where
  "mk_Sec6 nr = s6_make_from_int \<lparr>m_sec = 0, m_usec = 0, m_neg = False, m_truncated = False\<rparr> nr"

definition mk_Sec6_longlong :: "longlong \<Rightarrow> bool \<Rightarrow> Sec6" where
  "mk_Sec6_longlong nr unsigned_val = mk_Sec6 (mk_Longlong_hybrid nr unsigned_val)"

definition to_interval_hhmmssff_only ::
    "time_lib \<Rightarrow> 'a Sec6_scheme \<Rightarrow> MYSQL_TIME \<Rightarrow> 32 word \<Rightarrow> bool \<times> MYSQL_TIME \<times> 32 word" where
  "to_interval_hhmmssff_only L s to warn =
     (let (rc, to, warn) = number_to_time_only L (m_neg s) (m_sec s) (m_usec s) TIME_MAX_INTERVAL_HOUR to warn
      in (rc \<noteq> 0, to, warn))"

definition to_datetime_or_date ::
    "time_lib \<Rightarrow> 'a Sec6_scheme \<Rightarrow> MYSQL_TIME \<Rightarrow> 32 word \<Rightarrow> date_conv_mode_t \<Rightarrow> bool \<times> MYSQL_TIME \<times> 32 word" where
  "to_datetime_or_date L s to warn flags =
     (if m_neg s then (True, to, MYSQL_TIME_WARN_OUT_OF_RANGE)
      else let (rc, to, warn) = number_to_datetime_or_date L (m_sec s) (m_usec s) to
                 (dcm_ulonglong (dcm_and flags TIME_MODE_FOR_XXX_TO_DATE)) warn
           in (rc = -1, to, warn))"

definition to_datetime_or_to_interval_hhmmssff ::
    "time_lib \<Rightarrow> 'a Sec6_scheme \<Rightarrow> MYSQL_TIME \<Rightarrow> 32 word \<Rightarrow> bool \<times> MYSQL_TIME \<times> 32 word" where
  "to_datetime_or_to_interval_hhmmssff L s to warn =
     (if m_sec s > 999999995959 \<and> m_sec s \<le> 99991231235959 \<and> \<not> m_neg s
      then to_datetime_or_date L s to warn TIME_INVALID_DATES
      else if m_sec s div 10000 > ucast TIME_MAX_INTERVAL_HOUR then (True, to, MYSQL_TIME_WARN_OUT_OF_RANGE)
      else to_interval_hhmmssff_only L s to warn)"

definition to_datetime_or_time ::
    "time_lib \<Rightarrow> 'a Sec6_scheme \<Rightarrow> MYSQL_TIME \<Rightarrow> 32 word \<Rightarrow> date_conv_mode_t \<Rightarrow> bool \<times> MYSQL_TIME \<times> 32 word" where
  "to_datetime_or_time L s to warn mode =
     (if m_sec s > 9999999 \<and> m_sec s \<le> 99991231235959 \<and> \<not> m_neg s
      then let (rc, to, warn) = number_to_datetime_or_date L (m_sec s) (m_usec s) to
                 (dcm_ulonglong (dcm_and mode TIME_MODE_FOR_XXX_TO_DATE)) warn
           in (rc <s 0, to, warn)
      else let (rc, to, warn) = number_to_time_only L (m_neg s) (m_sec s) (m_usec s) TIME_MAX_HOUR to warn
           in (rc \<noteq> 0, to, warn))"

definition sec_to_time :: "time_lib \<Rightarrow> 'a Sec6_scheme \<Rightarrow> MYSQL_TIME \<Rightarrow> uint \<Rightarrow> bool \<times> MYSQL_TIME" where
  "sec_to_time L s ltime dec =
     (let ltime = set_zero_time L ltime MYSQL_TIMESTAMP_TIME;
          ltime = ltime\<lparr>neg := m_neg s\<rparr>
      in if m_sec s > TIME_MAX_VALUE_SECONDS
         then let ltime = ltime\<lparr>hour := TIME_MAX_HOUR + 1\<rparr>;
                  (rc, ltime, unused) = check_time_range L ltime dec 0
              in (True, ltime)
         else (False, ltime\<lparr>hour := ucast (m_sec s div 3600),
                            minute := ucast (m_sec s mod 3600) div 60,
                            second := ucast (m_sec s) mod 60,
                            second_part := m_usec s\<rparr>))"

definition s6_trunc :: "time_lib \<Rightarrow> 'a Sec6_scheme \<Rightarrow> uint \<Rightarrow> 'a Sec6_scheme" where
  "s6_trunc L s dec = s\<lparr>m_usec := m_usec s - my_time_fraction_remainder (log_10_int L) (m_usec s) dec\<rparr>"

definition s9_make_from_int :: "'a Sec9_scheme \<Rightarrow> Longlong_hybrid \<Rightarrow> 'a Sec9_scheme" where
  "s9_make_from_int s nr = (s6_make_from_int s nr)\<lparr>m_nsec := 0\<rparr>"

definition s9_trunc :: "time_lib \<Rightarrow> 'a Sec9_scheme \<Rightarrow> uint \<Rightarrow> 'a Sec9_scheme" where
  "s9_trunc L s dec = s6_trunc L (s\<lparr>m_nsec := 0\<rparr>) dec"

definition s9_round_mode :: "time_lib \<Rightarrow> Sec9 \<Rightarrow> uint \<Rightarrow> time_round_mode_t \<Rightarrow> Sec9" where
  "s9_round_mode L s dec mode =
     (if trm_eq mode TIME_FRAC_TRUNCATE then s9_trunc L s dec else sec9_round L s dec)"

text \<open>The conversion \<open>static_cast<Sec6>\<close> of a \<open>Sec9\<close>.\<close>

definition sec6_of :: "'a Sec6_scheme \<Rightarrow> Sec6" where
  "sec6_of s = \<lparr>m_sec = m_sec s, m_usec = m_usec s, m_neg = m_neg s, m_truncated = m_truncated s\<rparr>"

subsection \<open>Sums of time values\<close>

record Sec6_add =
  sa_sec :: ulonglong
  sa_usec :: ulong
  sa_neg :: bool
  sa_error :: bool

text \<open>
  With an error the other members stay uninitialised in the code and nothing reads them; the model
  gives them zero.
\<close>

definition mk_Sec6_add :: "time_lib \<Rightarrow> MYSQL_TIME \<Rightarrow> MYSQL_TIME \<Rightarrow> int \<Rightarrow> Sec6_add" where
  "mk_Sec6_add L ltime1 ltime2 sign =
     (if time_type ltime2 \<noteq> MYSQL_TIMESTAMP_TIME
      then \<lparr>sa_sec = 0, sa_usec = 0, sa_neg = False, sa_error = True\<rparr>
      else let sign = (if neg ltime1 \<noteq> neg ltime2 then - sign else sign);
               (n, sec, usec) = calc_time_diff L ltime1 ltime2 (- sign)
           in \<lparr>sa_sec = sec, sa_usec = usec,
               sa_neg = (if neg ltime1 \<and> (sec \<noteq> 0 \<or> usec \<noteq> 0) then \<not> n else n),
               sa_error = False\<rparr>)"

definition zero_MYSQL_TIME :: MYSQL_TIME where
  "zero_MYSQL_TIME = \<lparr>year = 0, month = 0, day = 0, hour = 0, minute = 0, second = 0, second_part = 0,
     neg = False, time_type = MYSQL_TIMESTAMP_DATE\<rparr>"

definition to_hh24mmssff :: "time_lib \<Rightarrow> Sec6_add \<Rightarrow> timestamp_type \<Rightarrow> MYSQL_TIME" where
  "to_hh24mmssff L s tstype =
     (let ltime = zero_MYSQL_TIME\<lparr>neg := sa_neg s\<rparr>;
          ltime = calc_time_from_sec L ltime (ucast (sa_sec s mod SECONDS_IN_24H)) (sa_usec s)
      in ltime\<lparr>time_type := tstype\<rparr>)"

definition to_days_abs :: "Sec6_add \<Rightarrow> 32 word" where
  "to_days_abs s = ucast (sa_sec s div SECONDS_IN_24H)"

definition sa_to_time :: "time_lib \<Rightarrow> Sec6_add \<Rightarrow> MYSQL_TIME \<Rightarrow> uint \<Rightarrow> bool \<times> MYSQL_TIME" where
  "sa_to_time L s ltime decimals =
     (if sa_error s then (True, ltime)
      else let ltime = to_hh24mmssff L s MYSQL_TIMESTAMP_TIME;
               ltime = ltime\<lparr>hour := hour ltime + to_days_abs s * 24\<rparr>
           in adjust_time_range_with_warn L ltime decimals)"

definition sa_to_datetime :: "time_lib \<Rightarrow> Sec6_add \<Rightarrow> MYSQL_TIME \<Rightarrow> bool \<times> MYSQL_TIME" where
  "sa_to_datetime L s ltime =
     (if sa_error s \<or> sa_neg s then (True, ltime)
      else let ltime = to_hh24mmssff L s MYSQL_TIMESTAMP_DATETIME;
               (rc, y, m, d) = get_date_from_daynr L (to_days_abs s);
               ltime = ltime\<lparr>year := y, month := m, day := d\<rparr>
           in (rc \<or> day ltime = 0, ltime))"

record Year =
  m_year :: uint
  y_truncated :: bool

definition mk_Year :: Year where
  "mk_Year = \<lparr>m_year = 0, y_truncated = False\<rparr>"

definition to_YYYYMMDD :: "Year \<Rightarrow> uint" where
  "to_YYYYMMDD y = m_year y * 10000"

subsection \<open>\<open>Temporal\<close>\<close>

definition is_valid_temporal :: "MYSQL_TIME \<Rightarrow> bool" where
  "is_valid_temporal t \<longleftrightarrow> time_type t \<noteq> MYSQL_TIMESTAMP_NONE"

definition type_name_by_timestamp_type :: "timestamp_type \<Rightarrow> string" where
  "type_name_by_timestamp_type tt =
     (case tt of MYSQL_TIMESTAMP_DATE \<Rightarrow> ''date'' | MYSQL_TIMESTAMP_TIME \<Rightarrow> ''time'' | _ \<Rightarrow> ''datetime'')"

text \<open>The type name of \<open>Warn::push_conversion_warnings\<close>; the types from \<open>DATE\<close> on are not negative.\<close>

definition conversion_typestr :: "date_mode_t \<Rightarrow> timestamp_type \<Rightarrow> string" where
  "conversion_typestr mode tstype =
     (if tstype \<in> {MYSQL_TIMESTAMP_DATE, MYSQL_TIMESTAMP_DATETIME, MYSQL_TIMESTAMP_TIME}
      then type_name_by_timestamp_type tstype
      else if dcm_bool (dm_and_conv mode (dcm_or TIME_INTERVAL_hhmmssff TIME_INTERVAL_DAY)) then ''interval''
      else if dcm_bool (dm_and_conv mode TIME_TIME_ONLY) then ''time'' else ''datetime'')"

definition make_fuzzy_date :: "time_lib \<Rightarrow> MYSQL_TIME \<Rightarrow> date_conv_mode_t \<Rightarrow> MYSQL_TIME" where
  "make_fuzzy_date L t fuzzydate =
     set_zero_time L t
       (if \<not> dcm_bool (dcm_and fuzzydate TIME_FUZZY_DATES) then MYSQL_TIMESTAMP_NONE
        else if dcm_bool (dcm_and fuzzydate TIME_TIME_ONLY) then MYSQL_TIMESTAMP_TIME
        else MYSQL_TIMESTAMP_DATETIME)"

definition tm_to_packed :: "time_lib \<Rightarrow> MYSQL_TIME \<Rightarrow> longlong" where
  "tm_to_packed L t = pack_time L t"

definition make_from_out_of_range :: "MYSQL_TIME \<Rightarrow> MYSQL_TIME \<times> 32 word" where
  "make_from_out_of_range t = (t\<lparr>time_type := MYSQL_TIMESTAMP_NONE\<rparr>, MYSQL_TIME_WARN_OUT_OF_RANGE)"

definition tm_add_nanoseconds ::
    "time_lib \<Rightarrow> MYSQL_TIME \<Rightarrow> 32 word \<Rightarrow> date_mode_t \<Rightarrow> ulong \<Rightarrow> bool \<times> MYSQL_TIME \<times> 32 word" where
  "tm_add_nanoseconds L t warn mode nsec =
     (let cmode = dm_conv mode
      in if trm_eq (dm_round mode) TIME_FRAC_ROUND then add_nanoseconds_with_round L t warn cmode nsec
         else (False, t, warn))"

definition make_from_sec6 :: "time_lib \<Rightarrow> MYSQL_TIME \<Rightarrow> Warn \<Rightarrow> Sec6 \<Rightarrow> date_mode_t \<Rightarrow> MYSQL_TIME \<times> Warn" where
  "make_from_sec6 L t st nr mode =
     (let (rc, t, st) = convert_to_mysql_time L nr st t mode
      in if rc then (make_fuzzy_date L t (dm_conv mode), st) else (t, st))"

definition make_from_sec9 :: "time_lib \<Rightarrow> MYSQL_TIME \<Rightarrow> Warn \<Rightarrow> Sec9 \<Rightarrow> date_mode_t \<Rightarrow> MYSQL_TIME \<times> Warn" where
  "make_from_sec9 L t st nr mode =
     (let (rc, t, st) = convert_to_mysql_time L (sec6_of nr) st t mode
      in if rc then (make_fuzzy_date L t (dm_conv mode), st)
         else let (rc, t, w) = tm_add_nanoseconds L t (warnings st) mode (m_nsec nr);
                  st = st\<lparr>warnings := w\<rparr>
              in if rc then (make_fuzzy_date L t (dm_conv mode), st) else (t, st))"

definition make_from_longlong_hybrid ::
    "time_lib \<Rightarrow> MYSQL_TIME \<Rightarrow> Warn \<Rightarrow> Longlong_hybrid \<Rightarrow> date_mode_t \<Rightarrow> MYSQL_TIME \<times> Warn" where
  "make_from_longlong_hybrid L t warn nr mode =
     (let (t, warn) = make_from_sec6 L t warn (mk_Sec6 nr) mode
      in if warnings warn \<noteq> 0 then (t, warn\<lparr>err_buffer := set_longlong L nr\<rparr>) else (t, warn))"

definition xxx_flags :: "date_mode_t \<Rightarrow> ulonglong" where
  "xxx_flags mode = dcm_ulonglong (dm_and_conv mode TIME_MODE_FOR_XXX_TO_DATE)"

definition ascii_to_datetime_or_date_or_interval_DDhhmmssff ::
    "time_lib \<Rightarrow> MYSQL_TIME \<Rightarrow> Warn \<Rightarrow> bytes \<Rightarrow> date_mode_t \<Rightarrow> bool \<times> MYSQL_TIME \<times> Warn" where
  "ascii_to_datetime_or_date_or_interval_DDhhmmssff L t st str mode =
     (let cflags = xxx_flags mode
      in if dcm_bool (dm_and_conv mode TIME_INTERVAL_DAY)
         then str_to_datetime_or_date_or_interval_day L str t cflags st TIME_MAX_INTERVAL_HOUR TIME_MAX_INTERVAL_HOUR
         else str_to_datetime_or_date_or_interval_hhmmssff L str t cflags st
                TIME_MAX_INTERVAL_HOUR TIME_MAX_INTERVAL_HOUR)"

definition ascii_to_datetime_or_date_or_time ::
    "time_lib \<Rightarrow> MYSQL_TIME \<Rightarrow> Warn \<Rightarrow> bytes \<Rightarrow> date_mode_t \<Rightarrow> bool \<times> MYSQL_TIME \<times> Warn" where
  "ascii_to_datetime_or_date_or_time L t status str fuzzydate =
     (let cflags = xxx_flags fuzzydate
      in str_to_datetime_or_date_or_time L str t cflags status TIME_MAX_HOUR 0xFFFFFFFF)"

definition ascii_to_datetime_or_date ::
    "time_lib \<Rightarrow> MYSQL_TIME \<Rightarrow> Warn \<Rightarrow> bytes \<Rightarrow> date_mode_t \<Rightarrow> bool \<times> MYSQL_TIME \<times> Warn" where
  "ascii_to_datetime_or_date L t status str fuzzydate =
     str_to_datetime_or_date L str t (xxx_flags fuzzydate) status"

definition ascii_to_temporal ::
    "time_lib \<Rightarrow> MYSQL_TIME \<Rightarrow> Warn \<Rightarrow> bytes \<Rightarrow> date_mode_t \<Rightarrow> bool \<times> MYSQL_TIME \<times> Warn" where
  "ascii_to_temporal L t st str mode =
     (if dcm_bool (dm_and_conv mode (dcm_or TIME_INTERVAL_hhmmssff TIME_INTERVAL_DAY))
      then ascii_to_datetime_or_date_or_interval_DDhhmmssff L t st str mode
      else if dcm_bool (dm_and_conv mode TIME_TIME_ONLY) then ascii_to_datetime_or_date_or_time L t st str mode
      else ascii_to_datetime_or_date L t st str mode)"

definition has_valid_mmssff :: "MYSQL_TIME \<Rightarrow> bool" where
  "has_valid_mmssff t \<longleftrightarrow>
     minute t \<le> TIME_MAX_MINUTE \<and> second t \<le> TIME_MAX_SECOND \<and> second_part t \<le> TIME_MAX_SECOND_PART"

definition has_zero_YYYYMM :: "MYSQL_TIME \<Rightarrow> bool" where
  "has_zero_YYYYMM t \<longleftrightarrow> year t = 0 \<and> month t = 0"

definition has_zero_YYYYMMDD :: "MYSQL_TIME \<Rightarrow> bool" where
  "has_zero_YYYYMMDD t \<longleftrightarrow> year t = 0 \<and> month t = 0 \<and> day t = 0"

definition tm_check_date :: "time_lib \<Rightarrow> MYSQL_TIME \<Rightarrow> date_conv_mode_t \<Rightarrow> bool \<times> 32 word" where
  "tm_check_date L t flags = check_date_flags (check_date L) t flags"

definition time_hhmmssff_set_max :: "MYSQL_TIME \<Rightarrow> uint \<Rightarrow> MYSQL_TIME" where
  "time_hhmmssff_set_max t max_hour =
     t\<lparr>hour := max_hour, minute := TIME_MAX_MINUTE, second := TIME_MAX_SECOND,
       second_part := TIME_MAX_SECOND_PART\<rparr>"

definition add_nanoseconds_ssff :: "MYSQL_TIME \<Rightarrow> uint \<Rightarrow> bool \<times> MYSQL_TIME" where
  "add_nanoseconds_ssff t ns =
     (if ns < 500 then (False, t)
      else let t = t\<lparr>second_part := second_part t + (ns + 500) div 1000\<rparr>
           in if second_part t < 1000000 then (False, t)
              else let t = t\<lparr>second_part := second_part t mod 1000000\<rparr>
                   in if second t < 59 then (False, t\<lparr>second := second t + 1\<rparr>)
                      else (True, t\<lparr>second := 0\<rparr>))"

definition add_nanoseconds_mmssff :: "MYSQL_TIME \<Rightarrow> uint \<Rightarrow> bool \<times> MYSQL_TIME" where
  "add_nanoseconds_mmssff t ns =
     (let (carry, t) = add_nanoseconds_ssff t ns
      in if \<not> carry then (False, t)
         else if minute t < 59 then (False, t\<lparr>minute := minute t + 1\<rparr>)
         else (True, t\<lparr>minute := 0\<rparr>))"

definition fraction_remainder :: "time_lib \<Rightarrow> MYSQL_TIME \<Rightarrow> uint \<Rightarrow> 32 word" where
  "fraction_remainder L t dec = my_time_fraction_remainder (log_10_int L) (second_part t) dec"

subsection \<open>\<open>Temporal_hybrid\<close>\<close>

text \<open>The value \<open>t\<close> a constructor starts from is the content of the uninitialised object.\<close>

definition mk_Temporal_hybrid ::
    "time_lib \<Rightarrow> MYSQL_TIME \<Rightarrow> Warn \<Rightarrow> Longlong_hybrid \<Rightarrow> date_mode_t \<Rightarrow> MYSQL_TIME \<times> Warn" where
  "mk_Temporal_hybrid L t warn nr fuzzydate = make_from_longlong_hybrid L t warn nr fuzzydate"

definition mk_Temporal_hybrid_null ::
    "time_lib \<Rightarrow> MYSQL_TIME \<Rightarrow> Warn \<Rightarrow> Longlong_hybrid_null \<Rightarrow> date_mode_t \<Rightarrow> MYSQL_TIME \<times> Warn" where
  "mk_Temporal_hybrid_null L t warn nr fuzzydate =
     (if lhn_is_null nr then (t\<lparr>time_type := MYSQL_TIMESTAMP_NONE\<rparr>, warn)
      else make_from_longlong_hybrid L t warn (mk_Longlong_hybrid (m_value nr) (m_unsigned nr)) fuzzydate)"

definition th_to_longlong :: "time_lib \<Rightarrow> MYSQL_TIME \<Rightarrow> longlong" where
  "th_to_longlong L t =
     (if \<not> is_valid_temporal t then 0
      else let v = TIME_to_ulonglong L t in if neg t then - v else v)"

subsection \<open>\<open>Extract_source\<close>\<close>

definition time_to_daytime_interval :: "MYSQL_TIME \<Rightarrow> MYSQL_TIME" where
  "time_to_daytime_interval t = t\<lparr>day := hour t div 24, hour := hour t mod 24\<rparr>"

definition is_valid_extract_source_slow :: "MYSQL_TIME \<Rightarrow> bool" where
  "is_valid_extract_source_slow t \<longleftrightarrow>
     is_valid_temporal t \<and> hour t < 24 \<and> (has_zero_YYYYMM t \<or> time_type t \<noteq> MYSQL_TIMESTAMP_TIME)"

definition es_is_valid_value_slow :: "MYSQL_TIME \<Rightarrow> bool" where
  "es_is_valid_value_slow t \<longleftrightarrow> time_type t = MYSQL_TIMESTAMP_NONE \<or> is_valid_extract_source_slow t"

text \<open>The constructor, from the value \<open>Temporal_hybrid\<close> got from its item.\<close>

definition mk_Extract_source :: "MYSQL_TIME \<Rightarrow> MYSQL_TIME" where
  "mk_Extract_source t = (if time_type t = MYSQL_TIMESTAMP_TIME then time_to_daytime_interval t else t)"

definition es_sign :: "MYSQL_TIME \<Rightarrow> 32 word" where
  "es_sign t = (if neg t then -1 else 1)"

definition es_day :: "MYSQL_TIME \<Rightarrow> 32 word" where "es_day t = day t * es_sign t"
definition es_hour :: "MYSQL_TIME \<Rightarrow> 32 word" where "es_hour t = hour t * es_sign t"
definition es_minute :: "MYSQL_TIME \<Rightarrow> 32 word" where "es_minute t = minute t * es_sign t"
definition es_second :: "MYSQL_TIME \<Rightarrow> 32 word" where "es_second t = second t * es_sign t"
definition es_microsecond :: "MYSQL_TIME \<Rightarrow> 32 word" where "es_microsecond t = second_part t * es_sign t"

definition es_year_month :: "MYSQL_TIME \<Rightarrow> uint" where "es_year_month t = year t * 100 + month t"
definition es_quarter :: "MYSQL_TIME \<Rightarrow> uint" where "es_quarter t = (month t + 2) div 3"

definition second_microsecond :: "MYSQL_TIME \<Rightarrow> longlong" where
  "second_microsecond t = scast (es_second t) * 1000000 + scast (es_microsecond t)"

definition day_hour :: "MYSQL_TIME \<Rightarrow> longlong" where
  "day_hour t = scast (es_day t) * 100 + scast (es_hour t)"

definition day_minute :: "MYSQL_TIME \<Rightarrow> longlong" where
  "day_minute t = day_hour t * 100 + scast (es_minute t)"

definition day_second :: "MYSQL_TIME \<Rightarrow> longlong" where
  "day_second t = day_minute t * 100 + scast (es_second t)"

definition day_microsecond :: "MYSQL_TIME \<Rightarrow> longlong" where
  "day_microsecond t = day_second t * 1000000 + scast (es_microsecond t)"

definition hour_minute :: "MYSQL_TIME \<Rightarrow> 32 word" where
  "hour_minute t = es_hour t * 100 + es_minute t"

definition hour_second :: "MYSQL_TIME \<Rightarrow> 32 word" where
  "hour_second t = hour_minute t * 100 + es_second t"

definition hour_microsecond :: "MYSQL_TIME \<Rightarrow> longlong" where
  "hour_microsecond t = scast (hour_second t) * 1000000 + scast (es_microsecond t)"

definition minute_second :: "MYSQL_TIME \<Rightarrow> 32 word" where
  "minute_second t = es_minute t * 100 + es_second t"

definition minute_microsecond :: "MYSQL_TIME \<Rightarrow> longlong" where
  "minute_microsecond t = scast (minute_second t) * 1000000 + scast (es_microsecond t)"

subsection \<open>\<open>Interval_DDhhmmssff\<close>\<close>

definition is_valid_interval_DDhhmmssff_slow :: "MYSQL_TIME \<Rightarrow> bool" where
  "is_valid_interval_DDhhmmssff_slow t \<longleftrightarrow>
     time_type t = MYSQL_TIMESTAMP_TIME \<and> has_zero_YYYYMMDD t \<and> has_valid_mmssff t"

definition id_is_valid_value_slow :: "MYSQL_TIME \<Rightarrow> bool" where
  "id_is_valid_value_slow t \<longleftrightarrow> time_type t = MYSQL_TIMESTAMP_NONE \<or> is_valid_interval_DDhhmmssff_slow t"

definition max_useful_hour :: uint where "max_useful_hour = TIME_MAX_INTERVAL_HOUR"

definition max_int_part_char_length :: uint where
  "max_int_part_char_length = 1 + TIME_MAX_INTERVAL_DAY_CHAR_LENGTH + 1 + 8"

definition max_char_length :: "uint \<Rightarrow> uint" where
  "max_char_length fsp = max_int_part_char_length + (if fsp \<noteq> 0 then 1 else 0) + fsp"

definition is_valid_interval_DDhhmmssff :: "MYSQL_TIME \<Rightarrow> bool" where
  "is_valid_interval_DDhhmmssff t \<longleftrightarrow> time_type t = MYSQL_TIMESTAMP_TIME"

definition id_is_valid_value :: "MYSQL_TIME \<Rightarrow> bool" where
  "id_is_valid_value t \<longleftrightarrow> time_type t = MYSQL_TIMESTAMP_NONE \<or> is_valid_interval_DDhhmmssff t"

subsection \<open>Rounding nanoseconds into microseconds\<close>

lemmas time_limits = TIME_MAX_MINUTE_def TIME_MAX_SECOND_def TIME_MAX_SECOND_PART_def TIME_MAX_HOUR_def
  TIME_MAX_INTERVAL_HOUR_def TIME_MAX_VALUE_SECONDS_def TIME_SECOND_PART_DIGITS_def SECONDS_IN_24H_def

lemma has_valid_mmssff_unat:
  "has_valid_mmssff t \<longleftrightarrow> unat (minute t) < 60 \<and> unat (second t) < 60 \<and> unat (second_part t) < 1000000"
  by (auto simp: has_valid_mmssff_def time_limits word_le_nat_alt)

lemma round_nsec_unat:
  fixes ns :: "32 word"
  assumes "unat ns \<le> 1000000000"
  shows "unat ((ns + 500) div 1000) = (unat ns + 500) div 1000"
  using assms by (simp add: unat_div unat_word_ariths)

lemma add_usec_unat:
  fixes us ns :: "32 word"
  assumes "unat us < 1000000" "unat ns \<le> 1000000000"
  shows "unat (us + (ns + 500) div 1000) = unat us + (unat ns + 500) div 1000"
    and "(unat ns + 500) div 1000 \<le> 1000000"
proof -
  show le: "(unat ns + 500) div 1000 \<le> 1000000" using assms(2) by linarith
  then show "unat (us + (ns + 500) div 1000) = unat us + (unat ns + 500) div 1000"
    using assms by (simp add: unat_word_ariths(1) round_nsec_unat)
qed

lemma round_nsec_small: "ns < 500 \<Longrightarrow> (unat (ns :: 32 word) + 500) div 1000 = 0"
  by (simp add: word_less_nat_alt)

text \<open>The carry of \<open>Sec6::add_nanoseconds\<close>: nothing is lost, and the fraction stays one.\<close>

lemma s6_add_nanoseconds_value:
  assumes "unat (m_usec s) < 1000000" "unat ns \<le> 1000000000" "s6_add_nanoseconds s ns = (c, s')"
  shows "unat (m_usec s') < 1000000 \<and>
    (if c then 1000000 else 0) + unat (m_usec s') = unat (m_usec s) + (unat ns + 500) div 1000 \<and>
    s' = s\<lparr>m_usec := m_usec s'\<rparr>"
proof (cases "ns < 500")
  case True
  then show ?thesis using assms round_nsec_small [of ns] by (simp add: s6_add_nanoseconds_def)
next
  case False
  note u = add_usec_unat [OF assms(1,2)]
  have m: "unat ((m_usec s + (ns + 500) div 1000) mod 1000000) = (unat (m_usec s) + (unat ns + 500) div 1000) mod 1000000"
    by (simp add: unat_mod u(1))
  show ?thesis
  proof (cases "m_usec s + (ns + 500) div 1000 < 1000000")
    case True
    then have "unat (m_usec s) + (unat ns + 500) div 1000 < 1000000"
      using u(1) by (simp add: word_less_nat_alt)
    then show ?thesis using assms(3) False True u(1) by (auto simp: s6_add_nanoseconds_def)
  next
    case ge: False
    then have "1000000 \<le> unat (m_usec s) + (unat ns + 500) div 1000"
      using u(1) by (simp add: word_less_nat_alt)
    then have "(unat (m_usec s) + (unat ns + 500) div 1000) mod 1000000 + 1000000 =
               unat (m_usec s) + (unat ns + 500) div 1000"
      using u(2) assms(1) by (simp add: mod_if)
    then show ?thesis using assms(3) False ge m by (auto simp: s6_add_nanoseconds_def)
  qed
qed

definition ssff_usec :: "MYSQL_TIME \<Rightarrow> nat" where
  "ssff_usec t = unat (second t) * 1000000 + unat (second_part t)"

definition mmssff_usec :: "MYSQL_TIME \<Rightarrow> nat" where
  "mmssff_usec t = unat (minute t) * 60000000 + ssff_usec t"

text \<open>\<open>add_nanoseconds_ssff\<close> adds to the fraction as \<open>Sec6::add_nanoseconds\<close> does and passes its carry on.\<close>

definition usec_part :: "MYSQL_TIME \<Rightarrow> Sec6" where
  "usec_part t = \<lparr>m_sec = 0, m_usec = second_part t, m_neg = False, m_truncated = False\<rparr>"

lemma add_nanoseconds_ssff_eq:
  "add_nanoseconds_ssff t ns =
     (let (c, s) = s6_add_nanoseconds (usec_part t) ns; t = t\<lparr>second_part := m_usec s\<rparr>
      in if \<not> c then (False, t)
         else if second t < 59 then (False, t\<lparr>second := second t + 1\<rparr>) else (True, t\<lparr>second := 0\<rparr>))"
  by (simp add: add_nanoseconds_ssff_def s6_add_nanoseconds_def usec_part_def Let_def)

lemma unat_inc_below_60:
  assumes "x < (59 :: 32 word)"
  shows "unat (x + 1) = unat x + 1" "unat (x + 1) < 60"
  using assms by (simp_all add: word_less_nat_alt unat_word_ariths)

lemma at_59: "\<not> x < (59 :: 32 word) \<Longrightarrow> unat x < 60 \<Longrightarrow> unat x = 59"
  by (simp add: word_less_nat_alt)

lemma add_nanoseconds_ssff_value:
  assumes "has_valid_mmssff t" "unat ns \<le> 1000000000" "add_nanoseconds_ssff t ns = (c, t')"
  shows "unat (second t') < 60 \<and> unat (second_part t') < 1000000 \<and>
    (if c then 60000000 else 0) + ssff_usec t' = ssff_usec t + (unat ns + 500) div 1000 \<and>
    t' = t\<lparr>second := second t', second_part := second_part t'\<rparr>"
proof -
  obtain d s where d: "s6_add_nanoseconds (usec_part t) ns = (d, s)" by fastforce
  have v: "unat (second t) < 60" "unat (second_part t) < 1000000"
    using assms(1) by (simp_all add: has_valid_mmssff_unat)
  have *: "unat (m_usec s) < 1000000"
    "(if d then 1000000 else 0) + unat (m_usec s) = unat (second_part t) + (unat ns + 500) div 1000"
    using s6_add_nanoseconds_value [OF _ assms(2) d] v by (simp_all add: usec_part_def)
  consider "\<not> d" | "d" "second t < 59" | "d" "\<not> second t < 59" by blast
  then show ?thesis
  proof cases
    case 1
    then show ?thesis using assms(3) d * v by (auto simp: add_nanoseconds_ssff_eq ssff_usec_def)
  next
    case 2
    then show ?thesis
      using assms(3) d * v unat_inc_below_60 [of "second t"] by (auto simp: add_nanoseconds_ssff_eq ssff_usec_def)
  next
    case 3
    then show ?thesis
      using assms(3) d * v at_59 [of "second t"] by (auto simp: add_nanoseconds_ssff_eq ssff_usec_def)
  qed
qed

text \<open>
  C21. Rounding nanoseconds into a time value: for any valid minutes, seconds and microseconds and up to
  a second of nanoseconds, \<open>add_nanoseconds_mmssff\<close> adds the rounded number of microseconds with all carries,
  reports the overflow of the hour exactly when one happened, keeps the parts in range and changes
  nothing else.
\<close>
theorem add_nanoseconds_carries:
  assumes "has_valid_mmssff t" "ns \<le> 1000000000" "add_nanoseconds_mmssff t ns = (c, t')"
  shows "has_valid_mmssff t' \<and>
    (if c then 3600000000 else 0) + mmssff_usec t' = mmssff_usec t + (unat ns + 500) div 1000 \<and>
    t' = t\<lparr>minute := minute t', second := second t', second_part := second_part t'\<rparr>"
proof -
  have ns: "unat ns \<le> 1000000000" using assms(2) by (simp add: word_le_nat_alt)
  obtain d u where d: "add_nanoseconds_ssff t ns = (d, u)" by fastforce
  have v: "unat (minute t) < 60" using assms(1) by (simp add: has_valid_mmssff_unat)
  note * = add_nanoseconds_ssff_value [OF assms(1) ns d]
  have u: "minute u = minute t" by (subst conjunct2 [OF conjunct2 [OF conjunct2 [OF *]]]) simp
  have f: "u\<lparr>minute := x\<rparr> = t\<lparr>minute := x, second := second u, second_part := second_part u\<rparr>" for x
    using * by (cases t; cases u) simp
  consider "\<not> d" | "d" "minute t < 59" | "d" "\<not> minute t < 59" by blast
  then show ?thesis
  proof cases
    case 1
    then have "c = False" "t' = u" using assms(3) d by (simp_all add: add_nanoseconds_mmssff_def)
    with 1 * u v show ?thesis
      by (auto simp: has_valid_mmssff_unat mmssff_usec_def)
  next
    case 2
    then have "c = False" "t' = u\<lparr>minute := minute t + 1\<rparr>"
      using assms(3) d u by (simp_all add: add_nanoseconds_mmssff_def)
    with 2 * u v unat_inc_below_60 [of "minute t"] show ?thesis
      by (auto simp: f, auto simp: has_valid_mmssff_unat mmssff_usec_def ssff_usec_def)
  next
    case 3
    then have "c = True" "t' = u\<lparr>minute := 0\<rparr>" "unat (minute t) = 59"
      using assms(3) d u v at_59 [of "minute t"] by (simp_all add: add_nanoseconds_mmssff_def)
    with 3 * u v show ?thesis
      by (auto simp: f, auto simp: has_valid_mmssff_unat mmssff_usec_def ssff_usec_def)
  qed
qed

theorem add_nanoseconds_carries_witness:
  "let t = zero_MYSQL_TIME\<lparr>minute := 59, second := 59, second_part := 999999\<rparr>
   in add_nanoseconds_mmssff t 500 = (True, zero_MYSQL_TIME) \<and>
      3600000000 + mmssff_usec zero_MYSQL_TIME = mmssff_usec t + 1"
proof -
  let ?t = "zero_MYSQL_TIME\<lparr>minute := 59, second := 59, second_part := 999999\<rparr>"
  have e: "add_nanoseconds_mmssff ?t 500 = (True, zero_MYSQL_TIME)"
    by (simp add: add_nanoseconds_mmssff_def add_nanoseconds_ssff_def zero_MYSQL_TIME_def)
  have v: "has_valid_mmssff ?t" by (simp add: has_valid_mmssff_def time_limits)
  show ?thesis
    using add_nanoseconds_carries [OF v _ e] e by simp
qed

subsection \<open>Extraction\<close>

lemma sint_word_of_int:
  assumes "\<bar>k\<bar> < 2 ^ (LENGTH('a) - 1)"
  shows "sint (word_of_int k :: 'a::len word) = k"
proof -
  have "sint (word_of_int k :: 'a word) = signed_take_bit (LENGTH('a) - 1) k"
    by (simp add: signed_of_int)
  also have "\<dots> = k"
    using assms by (intro signed_take_bit_int_eq_self) linarith+
  finally show ?thesis .
qed

definition sg :: "MYSQL_TIME \<Rightarrow> int" where
  "sg t = (if neg t then -1 else 1)"

lemma abs_sg_mult [simp]: "\<bar>sg t * x\<bar> = \<bar>x\<bar>"
  by (simp add: sg_def)

lemma abs_sg_bound:
  assumes "n < 2 ^ k"
  shows "\<bar>sg t * int n\<bar> < 2 ^ k"
proof -
  have "int n < 2 ^ k" using assms by (metis of_nat_less_iff of_nat_numeral of_nat_power)
  then show ?thesis by (simp only: abs_sg_mult abs_of_nat)
qed

lemma signed_part:
  fixes x :: "32 word"
  assumes "unat x < 2 ^ 31"
  shows "sint (x * es_sign t) = sg t * int (unat x)"
    and "(scast (x * es_sign t) :: 64 word) = word_of_int (sg t * int (unat x))"
proof -
  have "x * es_sign t = word_of_int (sg t * int (unat x))"
    by (simp add: es_sign_def sg_def)
  moreover have "\<bar>sg t * int (unat x)\<bar> < 2 ^ (LENGTH(32) - 1)"
    using assms by (intro abs_sg_bound) simp
  ultimately show *: "sint (x * es_sign t) = sg t * int (unat x)"
    by (simp only: sint_word_of_int)
  have "(scast (x * es_sign t) :: 64 word) = word_of_int (sint (x * es_sign t))"
    by simp
  then show "(scast (x * es_sign t) :: 64 word) = word_of_int (sg t * int (unat x))"
    by (simp only: *)
qed

text \<open>The decimal notation of a day to microsecond interval.\<close>

definition dhmsf :: "nat \<Rightarrow> nat \<Rightarrow> nat \<Rightarrow> nat \<Rightarrow> nat \<Rightarrow> nat" where
  "dhmsf d h m s f = (((d * 100 + h) * 100 + m) * 100 + s) * 1000000 + f"

lemma dhmsf_bound:
  assumes "d \<le> 3652058" "h < 24" "m < 60" "s < 60" "f < 1000000"
  shows "dhmsf d h m s f < 9223372036854775808"
proof -
  have "(d * 100 + h) * 100 + m \<le> 36520582359" using assms by simp
  then have "((d * 100 + h) * 100 + m) * 100 + s \<le> 3652058235959" using assms by simp
  then show ?thesis unfolding dhmsf_def using assms(5) by simp
qed

lemma es_parts:
  assumes "has_valid_mmssff t" "unat (hour t) < 2 ^ 31" "unat (day t) < 2 ^ 31"
  shows "(scast (es_day t) :: 64 word) = word_of_int (sg t * int (unat (day t)))"
    "(scast (es_hour t) :: 64 word) = word_of_int (sg t * int (unat (hour t)))"
    "(scast (es_minute t) :: 64 word) = word_of_int (sg t * int (unat (minute t)))"
    "(scast (es_second t) :: 64 word) = word_of_int (sg t * int (unat (second t)))"
    "(scast (es_microsecond t) :: 64 word) = word_of_int (sg t * int (unat (second_part t)))"
    "sint (es_hour t) = sg t * int (unat (hour t))"
    "sint (es_minute t) = sg t * int (unat (minute t))"
    "sint (es_second t) = sg t * int (unat (second t))"
  using assms unfolding es_day_def es_hour_def es_minute_def es_second_def es_microsecond_def has_valid_mmssff_unat
  by (simp_all only: signed_part) (simp_all add: signed_part)

lemma day_microsecond_sint:
  assumes "has_valid_mmssff t" "unat (hour t) < 24" "unat (day t) \<le> 3652058"
  shows "sint (day_microsecond t) =
    sg t * int (dhmsf (unat (day t)) (unat (hour t)) (unat (minute t)) (unat (second t)) (unat (second_part t)))"
proof -
  let ?n = "dhmsf (unat (day t)) (unat (hour t)) (unat (minute t)) (unat (second t)) (unat (second_part t))"
  have v: "unat (minute t) < 60" "unat (second t) < 60" "unat (second_part t) < 1000000"
    using assms(1) by (simp_all add: has_valid_mmssff_unat)
  have h: "unat (hour t) < 2 ^ 31" "unat (day t) < 2 ^ 31" using assms(2,3) by simp_all
  have "day_microsecond t = word_of_int (sg t * int ?n)"
    unfolding day_microsecond_def day_second_def day_minute_def day_hour_def es_parts [OF assms(1) h]
    by (simp only: dhmsf_def of_nat_add of_nat_mult of_nat_numeral of_int_add of_int_mult of_int_numeral
        of_int_of_nat_eq distrib_left mult.assoc [symmetric])
  moreover have "?n < 9223372036854775808"
    using assms(3,2) v by (rule dhmsf_bound)
  then have "\<bar>sg t * int ?n\<bar> < 2 ^ (LENGTH(64) - 1)"
    by (intro abs_sg_bound) simp
  ultimately show ?thesis
    by (simp only: sint_word_of_int)
qed

text \<open>
  \<open>EXTRACT(DAY_MICROSECOND FROM t)\<close> for every valid interval up to \<open>TIME_MAX_INTERVAL_HOUR\<close> hours: full
  days move from the hour to the day, the object is a valid extract source, and the result is the
  signed decimal number \<open>DDDDDDDhhmmssffffff\<close>, computed without overflow of the 32-bit parts and of
  the 64-bit sum.
\<close>
theorem extract_day_microsecond:
  assumes "is_valid_interval_DDhhmmssff_slow t" "hour t \<le> TIME_MAX_INTERVAL_HOUR"
  defines "e \<equiv> mk_Extract_source t"
  shows "is_valid_extract_source_slow e \<and> unat (day e) * 24 + unat (hour e) = unat (hour t) \<and>
    sint (day_microsecond e) =
      sg t * int (dhmsf (unat (hour t) div 24) (unat (hour t) mod 24) (unat (minute t)) (unat (second t))
                        (unat (second_part t)))"
proof -
  have t: "time_type t = MYSQL_TIMESTAMP_TIME" "has_zero_YYYYMMDD t" "has_valid_mmssff t"
    using assms(1) by (simp_all add: is_valid_interval_DDhhmmssff_slow_def)
  have e: "e = t\<lparr>day := hour t div 24, hour := hour t mod 24\<rparr>"
    using t by (simp add: e_def mk_Extract_source_def time_to_daytime_interval_def)
  have u: "unat (day e) = unat (hour t) div 24" "unat (hour e) = unat (hour t) mod 24"
    by (simp_all add: e unat_div unat_mod)
  have d: "unat (day e) \<le> 3652058"
    using assms(2) u(1) by (simp add: word_le_nat_alt time_limits)
  have v: "has_valid_mmssff e" "sg e = sg t" "minute e = minute t" "second e = second t" "second_part e = second_part t"
    using t(3) by (simp_all add: e has_valid_mmssff_def sg_def)
  have "hour e < 24" using u(2) by (simp add: word_less_nat_alt)
  then have "is_valid_extract_source_slow e"
    using t by (simp add: is_valid_extract_source_slow_def is_valid_temporal_def e has_zero_YYYYMM_def
        has_zero_YYYYMMDD_def)
  moreover have "sint (day_microsecond e) =
      sg e * int (dhmsf (unat (day e)) (unat (hour e)) (unat (minute e)) (unat (second e)) (unat (second_part e)))"
    using v(1) u(2) d by (intro day_microsecond_sint) simp_all
  ultimately show ?thesis using u v by simp
qed

theorem extract_day_microsecond_witness:
  "sint (day_microsecond (mk_Extract_source
     (zero_MYSQL_TIME\<lparr>time_type := MYSQL_TIMESTAMP_TIME, neg := True, hour := 49, minute := 2, second_part := 7\<rparr>)))
   = - 2010200000007"
  using extract_day_microsecond [of "zero_MYSQL_TIME\<lparr>time_type := MYSQL_TIMESTAMP_TIME, neg := True, hour := 49,
      minute := 2, second_part := 7\<rparr>"]
  by (simp add: is_valid_interval_DDhhmmssff_slow_def has_valid_mmssff_def has_zero_YYYYMMDD_def time_limits
      zero_MYSQL_TIME_def sg_def dhmsf_def)

subsection \<open>The sum of two time values\<close>

text \<open>
  What the comments of \<open>sql_time.h\<close> and \<open>sql_type.h\<close> say of the two routines \<open>Sec6_add\<close> calls: \<open>calc_time_diff\<close>
  subtracts absolute values for \<open>l_sign = 1\<close> and adds them for \<open>-1\<close> and returns whether the result is
  negative; \<open>calc_time_from_sec\<close> splits the seconds of a day. \<open>U\<close> is the absolute value of a time value in
  microseconds.
\<close>

definition calc_time_diff_law :: "time_lib \<Rightarrow> (MYSQL_TIME \<Rightarrow> nat) \<Rightarrow> bool" where
  "calc_time_diff_law L U \<longleftrightarrow>
     (\<forall>t1 t2 l_sign. time_type t2 = MYSQL_TIMESTAMP_TIME \<and> (l_sign = 1 \<or> l_sign = -1) \<longrightarrow>
        (case calc_time_diff L t1 t2 l_sign of (n, sec, usec) \<Rightarrow>
           unat usec < 1000000 \<and>
           (if n then -1 else 1) * int (unat sec * 1000000 + unat usec) = int (U t1) - l_sign * int (U t2)))"

definition calc_time_from_sec_law :: "time_lib \<Rightarrow> bool" where
  "calc_time_from_sec_law L \<longleftrightarrow>
     (\<forall>t s us. s < 86400 \<longrightarrow>
        calc_time_from_sec L t s us =
          t\<lparr>hour := s div 3600, minute := s mod 3600 div 60, second := s mod 60, second_part := us\<rparr>)"

lemma mk_Sec6_add_value:
  assumes "calc_time_diff_law L U" "time_type t2 = MYSQL_TIMESTAMP_TIME" "sign = 1 \<or> sign = -1"
    "mk_Sec6_add L t1 t2 sign = r"
  shows "\<not> sa_error r \<and> unat (sa_usec r) < 1000000 \<and>
    (if sa_neg r then -1 else 1) * int (unat (sa_sec r) * 1000000 + unat (sa_usec r)) =
      sg t1 * int (U t1) + sign * (sg t2 * int (U t2))"
proof -
  define s where "s = (if neg t1 \<noteq> neg t2 then - sign else sign)"
  obtain n sec usec where c: "calc_time_diff L t1 t2 (- s) = (n, sec, usec)"
    by (cases "calc_time_diff L t1 t2 (- s)") auto
  have "- s = 1 \<or> - s = -1" using assms(3) by (auto simp: s_def)
  with assms(2) have p: "time_type t2 = MYSQL_TIMESTAMP_TIME \<and> (- s = 1 \<or> - s = -1)" by (rule conjI)
  have "case calc_time_diff L t1 t2 (- s) of (n, sec, usec) \<Rightarrow> unat usec < 1000000 \<and>
      (if n then -1 else 1) * int (unat sec * 1000000 + unat usec) = int (U t1) - (- s) * int (U t2)"
    by (rule mp [OF spec [OF spec [OF spec [OF assms(1) [unfolded calc_time_diff_law_def]]]] p])
  then have *: "unat usec < 1000000"
    "(if n then -1 else 1) * int (unat sec * 1000000 + unat usec) = int (U t1) + s * int (U t2)"
    unfolding c by (simp_all only: prod.case minus_mult_left [symmetric] minus_minus diff_minus_eq_add)
  have r: "r = \<lparr>sa_sec = sec, sa_usec = usec,
      sa_neg = (if neg t1 \<and> (sec \<noteq> 0 \<or> usec \<noteq> 0) then \<not> n else n), sa_error = False\<rparr>"
    using assms(2,4) c by (simp add: mk_Sec6_add_def s_def)
  have z: "int (unat sec * 1000000 + unat usec) = 0" if "sec = 0" "usec = 0"
    using that by simp
  have "sg t1 * int (U t1) + sign * (sg t2 * int (U t2)) = sg t1 * (int (U t1) + s * int (U t2))"
    by (simp add: sg_def s_def)
  also have "\<dots> = sg t1 * ((if n then -1 else 1) * int (unat sec * 1000000 + unat usec))"
    by (simp only: *(2))
  also have "\<dots> = (if sa_neg r then -1 else 1) * int (unat sec * 1000000 + unat usec)"
    using z by (auto simp: r sg_def)
  finally show ?thesis using *(1) by (simp add: r)
qed

definition signed_usec :: "MYSQL_TIME \<Rightarrow> int" where
  "signed_usec t = sg t * int (((unat (hour t) * 60 + unat (minute t)) * 60 + unat (second t)) * 1000000
     + unat (second_part t))"

lemma hour_of_days:
  fixes S :: nat
  shows "S mod 86400 div 3600 + S div 86400 * 24 = S div 3600"
    "S mod 86400 mod 3600 div 60 = S mod 3600 div 60" "S mod 86400 mod 60 = S mod 60"
proof -
  have "86400 = 3600 * (24 :: nat)" by simp
  then have "S div 86400 = S div 3600 div 24" "S mod 86400 = 3600 * (S div 3600 mod 24) + S mod 3600"
    by (simp_all only: div_mult2_eq mod_mult2_eq)
  then show "S mod 86400 div 3600 + S div 86400 * 24 = S div 3600" by simp
  show "S mod 86400 mod 3600 div 60 = S mod 3600 div 60" by (simp add: mod_mod_cancel)
  show "S mod 86400 mod 60 = S mod 60" by (simp add: mod_mod_cancel)
qed

lemma hms_of_seconds: "(S div 3600 * 60 + S mod 3600 div 60) * 60 + S mod 60 = (S :: nat)"
proof -
  have "S mod 3600 = 60 * (S div 60 mod 60) + S mod 60"
    using mod_mult2_eq [of S 60 60] by simp
  then have "S mod 3600 div 60 = S div 60 mod 60" by simp
  moreover have "S div 3600 = S div 60 div 60" using div_mult2_eq [of S 60 60] by simp
  ultimately show ?thesis by simp
qed

definition sa_time :: "time_lib \<Rightarrow> Sec6_add \<Rightarrow> MYSQL_TIME" where
  "sa_time L s = (let t = to_hh24mmssff L s MYSQL_TIMESTAMP_TIME in t\<lparr>hour := hour t + to_days_abs s * 24\<rparr>)"

lemma sa_time_value:
  assumes "calc_time_from_sec_law L" "unat (sa_sec s) < 3600 * 2 ^ 32" "unat (sa_usec s) < 1000000"
  shows "time_type (sa_time L s) = MYSQL_TIMESTAMP_TIME \<and> has_zero_YYYYMMDD (sa_time L s) \<and>
    has_valid_mmssff (sa_time L s) \<and>
    signed_usec (sa_time L s) = (if sa_neg s then -1 else 1) * int (unat (sa_sec s) * 1000000 + unat (sa_usec s))"
proof -
  let ?S = "unat (sa_sec s)" and ?d = "ucast (sa_sec s mod SECONDS_IN_24H) :: 32 word"
  have m: "?S mod 86400 < 2 ^ 32" by (rule less_trans [OF mod_less_divisor]) simp_all
  have d: "unat ?d = ?S mod 86400"
    using m by (subst unat_ucast_small) (simp_all add: SECONDS_IN_24H_def unat_mod)
  then have dl: "?d < 86400" by (simp add: word_less_nat_alt)
  have q: "?S div 86400 < 2 ^ 32" using assms(2) by simp
  have days: "unat (to_days_abs s) = ?S div 86400"
    unfolding to_days_abs_def using q
    by (subst unat_ucast_small) (simp_all add: SECONDS_IN_24H_def unat_div)
  have t: "sa_time L s = zero_MYSQL_TIME\<lparr>neg := sa_neg s, hour := ?d div 3600 + to_days_abs s * 24,
      minute := ?d mod 3600 div 60, second := ?d mod 60, second_part := sa_usec s,
      time_type := MYSQL_TIMESTAMP_TIME\<rparr>"
    using assms(1) dl by (simp add: sa_time_def to_hh24mmssff_def calc_time_from_sec_law_def Let_def)
  have h: "unat (hour (sa_time L s)) = ?S div 3600"
  proof -
    have lt: "?S div 3600 < 2 ^ 32" using assms(2) by simp
    have "unat (to_days_abs s * 24) = ?S div 86400 * 24"
      using hour_of_days(1) [of ?S] lt days by (simp add: unat_word_ariths)
    then have "unat (?d div 3600 + to_days_abs s * 24) = (?S mod 86400 div 3600 + ?S div 86400 * 24) mod 2 ^ 32"
      by (simp add: unat_word_ariths unat_div d)
    then show ?thesis using lt by (simp add: t hour_of_days(1))
  qed
  have ms: "unat (minute (sa_time L s)) = ?S mod 3600 div 60" "unat (second (sa_time L s)) = ?S mod 60"
    using hour_of_days(2,3) [of ?S] by (simp_all add: t unat_div unat_mod d)
  have v: "has_valid_mmssff (sa_time L s)"
    using ms assms(3) by (simp add: has_valid_mmssff_unat t)
  have "signed_usec (sa_time L s) = sg (sa_time L s) * int (?S * 1000000 + unat (sa_usec s))"
    unfolding signed_usec_def h ms hms_of_seconds by (simp add: t)
  then show ?thesis
    using v by (simp add: t sg_def has_zero_YYYYMMDD_def zero_MYSQL_TIME_def)
qed

text \<open>
  \<open>ADDTIME\<close> and \<open>SUBTIME\<close>: the value \<open>Sec6_add::to_time\<close> hands over to the range check is a well-formed
  \<open>TIME\<close> whose signed value is the sum (or difference) of the signed arguments, whatever their signs are,
  as long as its hours fit into their 32 bits.
\<close>
theorem sec6_add_to_time_sum:
  assumes "calc_time_diff_law L U" "calc_time_from_sec_law L"
    and "time_type t2 = MYSQL_TIMESTAMP_TIME" "sign = 1 \<or> sign = -1"
    and "\<bar>sg t1 * int (U t1) + sign * (sg t2 * int (U t2))\<bar> < 3600000000 * 2 ^ 32"
  shows "\<exists>u. sa_to_time L (mk_Sec6_add L t1 t2 sign) lt dec = adjust_time_range_with_warn L u dec \<and>
    time_type u = MYSQL_TIMESTAMP_TIME \<and> has_zero_YYYYMMDD u \<and> has_valid_mmssff u \<and>
    signed_usec u = sg t1 * int (U t1) + sign * (sg t2 * int (U t2))"
proof -
  define r where "r = mk_Sec6_add L t1 t2 sign"
  note v = mk_Sec6_add_value [OF assms(1,3,4) r_def [symmetric]]
  define N where "N = unat (sa_sec r) * 1000000 + unat (sa_usec r)"
  have "\<bar>(if sa_neg r then -1 else 1) * int N\<bar> < 3600000000 * 2 ^ 32"
    using v assms(5) unfolding N_def by presburger
  then have "int N < 3600000000 * 2 ^ 32" by (simp split: if_splits)
  then have "unat (sa_sec r) * 1000000 + unat (sa_usec r) < 3600000000 * 2 ^ 32"
    unfolding N_def [symmetric] by simp
  then have "unat (sa_sec r) < 3600 * 2 ^ 32" by simp
  note s = sa_time_value [OF assms(2) this conjunct1 [OF conjunct2 [OF v]]]
  have "sa_to_time L r lt dec = adjust_time_range_with_warn L (sa_time L r) dec"
    using v by (simp add: sa_to_time_def sa_time_def Let_def)
  then show ?thesis using s v unfolding r_def by metis
qed

subsection \<open>A sample library\<close>

text \<open>
  Functions that behave as the laws of this and the following theories say, for the witnesses: they
  convert well-formed numbers and reject all strings.
\<close>

definition usec_abs :: "MYSQL_TIME \<Rightarrow> nat" where
  "usec_abs t = ((unat (hour t) * 60 + unat (minute t)) * 60 + unat (second t)) * 1000000 + unat (second_part t)"

definition time_diff0 :: "MYSQL_TIME \<Rightarrow> MYSQL_TIME \<Rightarrow> int \<Rightarrow> bool \<times> ulonglong \<times> ulong" where
  "time_diff0 t1 t2 l_sign =
     (let k = int (usec_abs t1) - l_sign * int (usec_abs t2)
      in (k < 0, word_of_nat (nat \<bar>k\<bar> div 1000000), word_of_nat (nat \<bar>k\<bar> mod 1000000)))"

definition check_time_range0 :: "MYSQL_TIME \<Rightarrow> uint \<Rightarrow> 32 word \<Rightarrow> 32 word \<times> MYSQL_TIME \<times> 32 word" where
  "check_time_range0 t dec w =
     (if \<not> has_valid_mmssff t then (1, t, w)
      else if hour t \<le> TIME_MAX_HOUR then (0, t, w)
      else (0, time_hhmmssff_set_max t TIME_MAX_HOUR, w OR MYSQL_TIME_WARN_OUT_OF_RANGE))"

definition number_to_time0 :: "bool \<Rightarrow> ulonglong \<Rightarrow> ulong \<Rightarrow> ulong \<Rightarrow> MYSQL_TIME \<Rightarrow> 32 word \<Rightarrow>
    32 word \<times> MYSQL_TIME \<times> 32 word" where
  "number_to_time0 n nr usec max_hour t w =
     (let u = zero_MYSQL_TIME\<lparr>neg := n, hour := ucast (nr div 10000), minute := ucast (nr div 100 mod 100),
                second := ucast (nr mod 100), second_part := usec, time_type := MYSQL_TIMESTAMP_TIME\<rparr>
      in if nr div 10000 > ucast max_hour \<or> \<not> has_valid_mmssff u then (1, t, MYSQL_TIME_WARN_OUT_OF_RANGE) else (0, u, 0))"

definition number_to_datetime0 :: "longlong \<Rightarrow> ulong \<Rightarrow> MYSQL_TIME \<Rightarrow> ulonglong \<Rightarrow> 32 word \<Rightarrow>
    longlong \<times> MYSQL_TIME \<times> 32 word" where
  "number_to_datetime0 nr usec t flags w =
     (let d = nr div 1000000; u = \<lparr>year = ucast (d div 10000), month = ucast (d div 100 mod 100),
                day = ucast (d mod 100), hour = ucast (nr div 10000 mod 100), minute = ucast (nr div 100 mod 100),
                second = ucast (nr mod 100), second_part = usec, neg = False, time_type = MYSQL_TIMESTAMP_DATETIME\<rparr>
      in if has_valid_mmssff u \<and> hour u < 24 \<and> day u < 32 \<and> month u < 13 \<and> year u < 10000
         then (nr, u, 0) else (-1, t, MYSQL_TIME_WARN_OUT_OF_RANGE))"

definition time_lib0 :: time_lib where
  "time_lib0 = \<lparr>
     log_10_int = (\<lambda>i. 10 ^ unat i),
     set_zero_time = (\<lambda>t tt. zero_MYSQL_TIME\<lparr>time_type := tt\<rparr>),
     check_time_range = check_time_range0,
     number_to_time_only = number_to_time0,
     number_to_datetime_or_date = number_to_datetime0,
     str_to_datetime_or_date_or_interval_day = (\<lambda>s t f st m e. (True, t, st\<lparr>warnings := 1\<rparr>)),
     str_to_datetime_or_date_or_interval_hhmmssff = (\<lambda>s t f st m e. (True, t, st\<lparr>warnings := 1\<rparr>)),
     str_to_datetime_or_date_or_time = (\<lambda>s t f st m e. (True, t, st\<lparr>warnings := 1\<rparr>)),
     str_to_datetime_or_date = (\<lambda>s t f st. (True, t, st\<lparr>warnings := 1\<rparr>)),
     convert_to_mysql_time = (\<lambda>s st t m. let (rc, t, w) = number_to_datetime0 (m_sec s) (m_usec s) t 0 0
        in (rc = -1, t, st\<lparr>warnings := w\<rparr>)),
     sec9_round = (\<lambda>s dec. s\<lparr>m_nsec := 0\<rparr>),
     add_nanoseconds_with_round = (\<lambda>t w m n. (False, t, w)),
     set_longlong = (\<lambda>nr. ''''),
     calc_time_diff = time_diff0,
     calc_time_from_sec = (\<lambda>t s us. t\<lparr>hour := s div 3600, minute := s mod 3600 div 60, second := s mod 60,
        second_part := us\<rparr>),
     get_date_from_daynr = (\<lambda>d. (True, 0, 0, 0)),
     adjust_time_range_with_warn = (\<lambda>t dec. let (rc, t, w) = check_time_range0 t dec 0 in (rc \<noteq> 0, t)),
     pack_time = (\<lambda>t. 0),
     TIME_to_ulonglong = (\<lambda>t. ucast (hour t) * 10000 + ucast (minute t) * 100 + ucast (second t)),
     check_date = (\<lambda>t nz f. (False, 0))\<rparr>"

lemma usec_abs_bound: "usec_abs t < 2 ^ 64"
proof -
  note u = unsigned_less [where 'a = nat and 'b = 32, simplified]
  have "(unat (hour t) * 60 + unat (minute t)) * 60 + unat (second t) < 2 ^ 44"
    using u [of "hour t"] u [of "minute t"] u [of "second t"] by simp
  moreover have "unat (second_part t) < 2 ^ 32" using u [of "second_part t"] by simp
  ultimately show ?thesis unfolding usec_abs_def by simp
qed

lemma calc_time_diff_law0: "calc_time_diff_law time_lib0 usec_abs"
  unfolding calc_time_diff_law_def
proof (intro allI impI)
  fix t1 t2 :: MYSQL_TIME and l_sign :: int
  assume "time_type t2 = MYSQL_TIMESTAMP_TIME \<and> (l_sign = 1 \<or> l_sign = -1)"
  then have s: "l_sign = 1 \<or> l_sign = -1" by simp
  define k where "k = int (usec_abs t1) - l_sign * int (usec_abs t2)"
  have "nat \<bar>k\<bar> < 2 ^ 65"
    using s usec_abs_bound [of t1] usec_abs_bound [of t2] by (auto simp: k_def)
  then have q: "nat \<bar>k\<bar> div 1000000 < 2 ^ 64" "nat \<bar>k\<bar> mod 1000000 < 1000000" by simp_all
  have "unat (word_of_nat (nat \<bar>k\<bar> div 1000000) :: 64 word) = nat \<bar>k\<bar> div 1000000"
       "unat (word_of_nat (nat \<bar>k\<bar> mod 1000000) :: 32 word) = nat \<bar>k\<bar> mod 1000000"
    using q by (simp_all add: unat_of_nat)
  then show "case calc_time_diff time_lib0 t1 t2 l_sign of (n, sec, usec) \<Rightarrow> unat usec < 1000000 \<and>
      (if n then -1 else 1) * int (unat sec * 1000000 + unat usec) = int (usec_abs t1) - l_sign * int (usec_abs t2)"
    using q by (simp only: time_lib0_def time_lib.simps time_diff0_def Let_def k_def [symmetric] prod.case
        div_mult_mod_eq) (simp add: k_def)
qed

lemma calc_time_from_sec_law0: "calc_time_from_sec_law time_lib0"
  by (simp add: calc_time_from_sec_law_def time_lib0_def)

lemma log_10_law0: "log_10_law (log_10_int time_lib0)"
  by (simp add: log_10_law_def time_lib0_def)

theorem sec6_add_to_time_sum_witness:
  "\<exists>u. sa_to_time time_lib0 (mk_Sec6_add time_lib0
        (zero_MYSQL_TIME\<lparr>time_type := MYSQL_TIMESTAMP_TIME, hour := 1\<rparr>)
        (zero_MYSQL_TIME\<lparr>time_type := MYSQL_TIMESTAMP_TIME, hour := 3\<rparr>) (-1)) zero_MYSQL_TIME 0 =
      adjust_time_range_with_warn time_lib0 u 0 \<and> signed_usec u = - 7200000000"
  using sec6_add_to_time_sum [OF calc_time_diff_law0 calc_time_from_sec_law0,
      of "zero_MYSQL_TIME\<lparr>time_type := MYSQL_TIMESTAMP_TIME, hour := 3\<rparr>" "-1"
         "zero_MYSQL_TIME\<lparr>time_type := MYSQL_TIMESTAMP_TIME, hour := 1\<rparr>" zero_MYSQL_TIME 0]
  by (simp add: usec_abs_def zero_MYSQL_TIME_def sg_def) blast

end
