(* ===== verification/TemporalClasses.thy ===== *)
theory TemporalClasses
  imports TemporalBase "HOL-Library.Option_ord"
begin

text \<open>
  The checked temporal classes of \<open>sql_type.h\<close>: \<open>Time\<close>, \<open>Temporal_with_date\<close>, \<open>Date\<close>, \<open>Datetime\<close>, \<open>Timestamp\<close>
  and \<open>Timestamp_or_zero_datetime\<close>. An object is the \<open>MYSQL_TIME\<close> (or \<open>timeval\<close>) it derives from; a
  constructor takes the content of the uninitialised object first. Methods and routines that are only
  declared in the headers are the fields of \<open>date_lib\<close>, for the thread at hand.
\<close>

subsection \<open>The routines outside the headers\<close>

record date_lib =
  base :: time_lib
  current_date :: MYSQL_TIME
  calc_time_diff_TIME :: "MYSQL_TIME \<Rightarrow> MYSQL_TIME \<Rightarrow> int \<Rightarrow> date_mode_t \<Rightarrow> bool \<times> MYSQL_TIME"
  str_to_time_cs :: "bytes \<Rightarrow> MYSQL_TIME \<Rightarrow> Warn \<Rightarrow> date_mode_t \<Rightarrow> bool \<times> MYSQL_TIME \<times> Warn"
  str_to_date_cs :: "bytes \<Rightarrow> MYSQL_TIME \<Rightarrow> Warn \<Rightarrow> date_mode_t \<Rightarrow> bool \<times> MYSQL_TIME \<times> Warn"
  time_round_or_set_max :: "MYSQL_TIME \<Rightarrow> uint \<Rightarrow> 32 word \<Rightarrow> MYSQL_TIME \<times> 32 word"
  time_round_or_set_max_nsec :: "MYSQL_TIME \<Rightarrow> uint \<Rightarrow> 32 word \<Rightarrow> ulong \<Rightarrow> MYSQL_TIME \<times> 32 word"
  datetime_round_or_invalidate :: "MYSQL_TIME \<Rightarrow> uint \<Rightarrow> 32 word \<Rightarrow> bool \<times> MYSQL_TIME \<times> 32 word"
  datetime_round_or_invalidate_nsec :: "MYSQL_TIME \<Rightarrow> uint \<Rightarrow> 32 word \<Rightarrow> ulong \<Rightarrow> bool \<times> MYSQL_TIME \<times> 32 word"
  timestamp_round_or_set_max :: "timeval \<Rightarrow> uint \<Rightarrow> 32 word \<Rightarrow> timeval \<times> 32 word"
  check_datetime_range :: "MYSQL_TIME \<Rightarrow> bool"
  calc_daynr :: "uint \<Rightarrow> uint \<Rightarrow> uint \<Rightarrow> 32 word"
  calc_weekday :: "32 word \<Rightarrow> bool \<Rightarrow> 32 word"
  calc_week :: "MYSQL_TIME \<Rightarrow> uint \<Rightarrow> uint \<times> uint"
  TIME_to_ulonglong_part :: "timestamp_type \<Rightarrow> MYSQL_TIME \<Rightarrow> ulonglong"
  default_round_mode :: time_round_mode_t
  make_from_item :: "nat \<Rightarrow> MYSQL_TIME \<Rightarrow> date_mode_t \<Rightarrow> MYSQL_TIME"
  mk_Datetime_TIME :: "MYSQL_TIME \<Rightarrow> 32 word \<Rightarrow> MYSQL_TIME \<Rightarrow> date_conv_mode_t \<Rightarrow> MYSQL_TIME \<times> 32 word"

text \<open>\<open>Temporal::Options\<close> from conversion flags and a rounding mode.\<close>

definition mk_Options :: "date_conv_mode_t \<Rightarrow> time_round_mode_t \<Rightarrow> date_mode_t" where
  "mk_Options flags round_mode = conv_or_round flags round_mode"

subsection \<open>Rounding by mode\<close>

text \<open>
  \<open>round(dec, mode, warn)\<close> has the same body in \<open>Time\<close>, \<open>Datetime\<close> and \<open>Timestamp\<close>: a switch over the
  rounding mode between the truncation and the rounding of the class.
\<close>

definition round_by_mode ::
    "('v \<Rightarrow> uint \<Rightarrow> 'v) \<Rightarrow> ('v \<Rightarrow> uint \<Rightarrow> 32 word \<Rightarrow> 'v \<times> 32 word) \<Rightarrow>
     'v \<Rightarrow> uint \<Rightarrow> time_round_mode_t \<Rightarrow> 32 word \<Rightarrow> 'v \<times> 32 word" where
  "round_by_mode tr rd v dec mode warn =
     (if trm_mode mode = FRAC_NONE then (tr v dec, warn)
      else if trm_mode mode = FRAC_TRUNCATE then (tr v dec, warn)
      else if trm_mode mode = FRAC_ROUND then rd v dec warn
      else (v, warn))"

subsection \<open>\<open>Time\<close>\<close>

datatype datetime_to_time_mode_t =
    DATETIME_TO_TIME_DISALLOW
  | DATETIME_TO_TIME_YYYYMMDD_000000DD_MIX_TO_HOURS
  | DATETIME_TO_TIME_YYYYMMDD_TRUNCATE
  | DATETIME_TO_TIME_YYYYMMDD_00000000_ONLY
  | DATETIME_TO_TIME_MINUS_CURRENT_DATE

record Time_Options =
  o_mode :: date_mode_t
  m_datetime_to_time_mode :: datetime_to_time_mode_t

definition default_datetime_to_time_mode :: datetime_to_time_mode_t where
  "default_datetime_to_time_mode = DATETIME_TO_TIME_YYYYMMDD_000000DD_MIX_TO_HOURS"

definition time_default_flags :: date_conv_mode_t where
  "time_default_flags = dcm_or TIME_TIME_ONLY TIME_INVALID_DATES"

definition time_comparison_flags :: date_conv_mode_t where
  "time_comparison_flags = dcm_or (dcm_or TIME_TIME_ONLY TIME_INVALID_DATES) TIME_FUZZY_DATES"

definition mk_Time_Options :: "date_lib \<Rightarrow> Time_Options" where
  "mk_Time_Options D = \<lparr>o_mode = mk_Options time_default_flags (default_round_mode D),
     m_datetime_to_time_mode = default_datetime_to_time_mode\<rparr>"

definition mk_Time_Options_flags ::
    "date_lib \<Rightarrow> date_conv_mode_t \<Rightarrow> datetime_to_time_mode_t \<Rightarrow> Time_Options" where
  "mk_Time_Options_flags D flags dtmode =
     \<lparr>o_mode = mk_Options flags (default_round_mode D), m_datetime_to_time_mode = dtmode\<rparr>"

definition mk_Options_for_cast :: "date_lib \<Rightarrow> Time_Options" where
  "mk_Options_for_cast D = mk_Time_Options_flags D time_default_flags DATETIME_TO_TIME_YYYYMMDD_TRUNCATE"

definition mk_Options_for_cast_mode :: "date_lib \<Rightarrow> date_mode_t \<Rightarrow> Time_Options" where
  "mk_Options_for_cast_mode D mode =
     mk_Time_Options_flags D (dcm_or time_default_flags (dm_and_conv mode TIME_FUZZY_DATES))
       DATETIME_TO_TIME_YYYYMMDD_TRUNCATE"

definition mk_Time_Options_cmp :: "date_lib \<Rightarrow> datetime_to_time_mode_t \<Rightarrow> Time_Options" where
  "mk_Time_Options_cmp D dtmode = mk_Time_Options_flags D time_comparison_flags dtmode"

definition is_valid_time_slow :: "MYSQL_TIME \<Rightarrow> bool" where
  "is_valid_time_slow t \<longleftrightarrow> time_type t = MYSQL_TIMESTAMP_TIME \<and> has_zero_YYYYMMDD t \<and> has_valid_mmssff t"

definition time_is_valid_value_slow :: "MYSQL_TIME \<Rightarrow> bool" where
  "time_is_valid_value_slow t \<longleftrightarrow> time_type t = MYSQL_TIMESTAMP_NONE \<or> is_valid_time_slow t"

definition hhmmssff_copy :: "MYSQL_TIME \<Rightarrow> MYSQL_TIME \<Rightarrow> MYSQL_TIME" where
  "hhmmssff_copy t from =
     t\<lparr>hour := hour from, minute := minute from, second := second from, second_part := second_part from\<rparr>"

definition datetime_to_time_mix_to_hours ::
    "MYSQL_TIME \<Rightarrow> 32 word \<Rightarrow> uint \<Rightarrow> uint \<Rightarrow> uint \<Rightarrow> MYSQL_TIME \<times> 32 word" where
  "datetime_to_time_mix_to_hours t warn from_year from_month from_day =
     (if from_year \<noteq> 0 \<or> from_month \<noteq> 0 then (t, warn OR MYSQL_TIME_NOTE_TRUNCATED)
      else (t\<lparr>hour := hour t + from_day * 24\<rparr>, warn))"

definition datetime_to_time_minus_current_date :: "date_lib \<Rightarrow> MYSQL_TIME \<Rightarrow> MYSQL_TIME" where
  "datetime_to_time_minus_current_date D t =
     (let (rc, tmp) = calc_time_diff_TIME D t (current_date D) 1 (mk_date_mode 0);
          (rc, u, w) = check_time_range (base D) tmp TIME_SECOND_PART_DIGITS 0
      in u)"

definition valid_datetime_to_valid_time ::
    "date_lib \<Rightarrow> MYSQL_TIME \<Rightarrow> 32 word \<Rightarrow> Time_Options \<Rightarrow> MYSQL_TIME \<times> 32 word" where
  "valid_datetime_to_valid_time D t warn opt =
     (if m_datetime_to_time_mode opt = DATETIME_TO_TIME_MINUS_CURRENT_DATE
      then (datetime_to_time_minus_current_date D t, warn)
      else let (t, warn) = (if m_datetime_to_time_mode opt = DATETIME_TO_TIME_YYYYMMDD_000000DD_MIX_TO_HOURS
                            then datetime_to_time_mix_to_hours t warn (year t) (month t) (day t) else (t, warn))
           in (t\<lparr>year := 0, month := 0, day := 0, time_type := MYSQL_TIMESTAMP_TIME\<rparr>, warn))"

definition valid_MYSQL_TIME_to_valid_value ::
    "date_lib \<Rightarrow> MYSQL_TIME \<Rightarrow> 32 word \<Rightarrow> Time_Options \<Rightarrow> MYSQL_TIME \<times> 32 word" where
  "valid_MYSQL_TIME_to_valid_value D t warn opt =
     (let date_case =
        (if m_datetime_to_time_mode opt = DATETIME_TO_TIME_YYYYMMDD_00000000_ONLY \<and>
            (year t \<noteq> 0 \<or> month t \<noteq> 0 \<or> day t \<noteq> 0)
         then make_from_out_of_range t
         else if m_datetime_to_time_mode opt = DATETIME_TO_TIME_DISALLOW then make_from_out_of_range t
         else valid_datetime_to_valid_time D t warn opt)
      in case time_type t of
           MYSQL_TIMESTAMP_DATE \<Rightarrow> date_case
         | MYSQL_TIMESTAMP_DATETIME \<Rightarrow> date_case
         | MYSQL_TIMESTAMP_NONE \<Rightarrow> (t, warn)
         | MYSQL_TIMESTAMP_ERROR \<Rightarrow> (set_zero_time (base D) t MYSQL_TIMESTAMP_TIME, warn)
         | MYSQL_TIMESTAMP_TIME \<Rightarrow> (t, warn))"

definition xxx_to_time_result_to_valid_value ::
    "date_lib \<Rightarrow> MYSQL_TIME \<Rightarrow> 32 word \<Rightarrow> Time_Options \<Rightarrow> MYSQL_TIME \<times> 32 word" where
  "xxx_to_time_result_to_valid_value D t warn opt = valid_MYSQL_TIME_to_valid_value D t warn opt"

definition adjust_time_range_or_invalidate :: "date_lib \<Rightarrow> MYSQL_TIME \<Rightarrow> 32 word \<Rightarrow> MYSQL_TIME \<times> 32 word" where
  "adjust_time_range_or_invalidate D t warn =
     (let (rc, t, warn) = check_time_range (base D) t TIME_SECOND_PART_DIGITS warn
      in if rc \<noteq> 0 then (t\<lparr>time_type := MYSQL_TIMESTAMP_NONE\<rparr>, warn) else (t, warn))"

definition is_valid_time :: "MYSQL_TIME \<Rightarrow> bool" where
  "is_valid_time t \<longleftrightarrow> time_type t = MYSQL_TIMESTAMP_TIME"

definition mk_Time :: "MYSQL_TIME \<Rightarrow> MYSQL_TIME" where
  "mk_Time t = t\<lparr>time_type := MYSQL_TIMESTAMP_NONE\<rparr>"

definition mk_Time_str ::
    "date_lib \<Rightarrow> MYSQL_TIME \<Rightarrow> Warn \<Rightarrow> bytes \<Rightarrow> Time_Options \<Rightarrow> MYSQL_TIME \<times> Warn" where
  "mk_Time_str D t status str opt =
     (let (rc, t, status) = str_to_time_cs D str t status (o_mode opt)
      in if rc then (t\<lparr>time_type := MYSQL_TIMESTAMP_NONE\<rparr>, status)
         else let (t, w) = xxx_to_time_result_to_valid_value D t (warnings status) opt
              in (t, status\<lparr>warnings := w\<rparr>))"

definition mk_Time_Sec6 ::
    "date_lib \<Rightarrow> MYSQL_TIME \<Rightarrow> 32 word \<Rightarrow> 'a Sec6_scheme \<Rightarrow> Time_Options \<Rightarrow> MYSQL_TIME \<times> 32 word" where
  "mk_Time_Sec6 D t warn nr opt =
     (let (rc, t, warn) = to_datetime_or_time (base D) nr t warn TIME_INVALID_DATES;
          t = (if rc then t\<lparr>time_type := MYSQL_TIMESTAMP_NONE\<rparr> else t)
      in xxx_to_time_result_to_valid_value D t warn opt)"

definition mk_Time_Sec9 ::
    "date_lib \<Rightarrow> MYSQL_TIME \<Rightarrow> 32 word \<Rightarrow> Sec9 \<Rightarrow> Time_Options \<Rightarrow> MYSQL_TIME \<times> 32 word" where
  "mk_Time_Sec9 D t warn nr opt =
     (let (t, warn) = mk_Time_Sec6 D t warn (sec6_of nr) opt
      in if is_valid_time t \<and> trm_eq (dm_round (o_mode opt)) TIME_FRAC_ROUND
         then time_round_or_set_max_nsec D t 6 warn (m_nsec nr) else (t, warn))"

definition mk_Time_longlong ::
    "date_lib \<Rightarrow> MYSQL_TIME \<Rightarrow> 32 word \<Rightarrow> Longlong_hybrid \<Rightarrow> Time_Options \<Rightarrow> MYSQL_TIME \<times> 32 word" where
  "mk_Time_longlong D t warn nr opt = mk_Time_Sec6 D t warn (mk_Sec6 nr) opt"

definition time_trunc :: "date_lib \<Rightarrow> MYSQL_TIME \<Rightarrow> uint \<Rightarrow> MYSQL_TIME" where
  "time_trunc D t dec = (if is_valid_time t then my_time_trunc (log_10_int (base D)) t dec else t)"

definition time_round :: "date_lib \<Rightarrow> MYSQL_TIME \<Rightarrow> uint \<Rightarrow> 32 word \<Rightarrow> MYSQL_TIME \<times> 32 word" where
  "time_round D t dec warn = (if is_valid_time t then time_round_or_set_max D t dec warn else (t, warn))"

definition time_round_mode ::
    "date_lib \<Rightarrow> MYSQL_TIME \<Rightarrow> uint \<Rightarrow> time_round_mode_t \<Rightarrow> 32 word \<Rightarrow> MYSQL_TIME \<times> 32 word" where
  "time_round_mode D = round_by_mode (time_trunc D) (time_round D)"

definition time_round_quiet :: "date_lib \<Rightarrow> MYSQL_TIME \<Rightarrow> uint \<Rightarrow> time_round_mode_t \<Rightarrow> MYSQL_TIME" where
  "time_round_quiet D t dec mode = fst (time_round_mode D t dec mode 0)"

definition mk_Time_str_dec ::
    "date_lib \<Rightarrow> MYSQL_TIME \<Rightarrow> Warn \<Rightarrow> bytes \<Rightarrow> Time_Options \<Rightarrow> uint \<Rightarrow> MYSQL_TIME \<times> Warn" where
  "mk_Time_str_dec D t status str opt dec =
     (let (t, status) = mk_Time_str D t status str opt;
          (t, w) = time_round_mode D t dec (dm_round (o_mode opt)) (warnings status)
      in (t, status\<lparr>warnings := w\<rparr>))"

definition mk_Time_longlong_dec ::
    "date_lib \<Rightarrow> MYSQL_TIME \<Rightarrow> 32 word \<Rightarrow> Longlong_hybrid \<Rightarrow> Time_Options \<Rightarrow> uint \<Rightarrow> MYSQL_TIME \<times> 32 word" where
  "mk_Time_longlong_dec D t warn nr opt dec =
     (let (t, warn) = mk_Time_longlong D t warn nr opt in (time_trunc D t dec, warn))"

definition time_copy_to_mysql_time :: "MYSQL_TIME \<Rightarrow> MYSQL_TIME \<Rightarrow> bool \<times> MYSQL_TIME" where
  "time_copy_to_mysql_time t ltime =
     (if time_type t = MYSQL_TIMESTAMP_NONE then (True, ltime\<lparr>time_type := MYSQL_TIMESTAMP_NONE\<rparr>) else (False, t))"

definition time_to_packed :: "date_lib \<Rightarrow> MYSQL_TIME \<Rightarrow> longlong" where
  "time_to_packed D t = (if is_valid_time t then tm_to_packed (base D) t else 0)"

definition time_cmp :: "date_lib \<Rightarrow> MYSQL_TIME \<Rightarrow> MYSQL_TIME \<Rightarrow> int" where
  "time_cmp D t other =
     (let p0 = time_to_packed D t; p1 = time_to_packed D other
      in if p0 <s p1 then -1 else if p1 <s p0 then 1 else 0)"

text \<open>\<open>hour * 3600L + minute * 60 + second\<close> is an \<open>unsigned long\<close>, converted to \<open>longlong\<close>.\<close>

definition to_seconds_abs :: "MYSQL_TIME \<Rightarrow> longlong" where
  "to_seconds_abs t = ucast (hour t * 3600 + minute t * 60 + second t)"

definition to_seconds :: "MYSQL_TIME \<Rightarrow> longlong" where
  "to_seconds t = (if neg t then - to_seconds_abs t else to_seconds_abs t)"

definition time_to_longlong :: "date_lib \<Rightarrow> MYSQL_TIME \<Rightarrow> longlong" where
  "time_to_longlong D t =
     (if \<not> is_valid_time t then 0
      else let v = TIME_to_ulonglong_part D MYSQL_TIMESTAMP_TIME t in if neg t then - v else v)"

subsection \<open>\<open>Temporal_with_date\<close> and \<open>Date\<close>\<close>

definition twd_daynr :: "date_lib \<Rightarrow> MYSQL_TIME \<Rightarrow> ulong" where
  "twd_daynr D t = calc_daynr D (year t) (month t) (day t)"

definition twd_weekday :: "date_lib \<Rightarrow> MYSQL_TIME \<Rightarrow> bool \<Rightarrow> 32 word" where
  "twd_weekday D t sunday_first_day_of_week = calc_weekday D (twd_daynr D t) sunday_first_day_of_week"

definition twd_dayofyear :: "date_lib \<Rightarrow> MYSQL_TIME \<Rightarrow> ulong" where
  "twd_dayofyear D t = twd_daynr D t - calc_daynr D (year t) 1 1 + 1"

definition twd_quarter :: "MYSQL_TIME \<Rightarrow> uint" where
  "twd_quarter t = (month t + 2) div 3"

definition twd_week :: "date_lib \<Rightarrow> MYSQL_TIME \<Rightarrow> uint \<Rightarrow> uint" where
  "twd_week D t week_behaviour = fst (calc_week D t week_behaviour)"

definition twd_yearweek :: "date_lib \<Rightarrow> MYSQL_TIME \<Rightarrow> uint \<Rightarrow> uint" where
  "twd_yearweek D t week_behaviour = (let (week, y) = calc_week D t week_behaviour in week + y * 100)"

definition mk_Temporal_with_date :: "MYSQL_TIME \<Rightarrow> MYSQL_TIME" where
  "mk_Temporal_with_date t = t\<lparr>time_type := MYSQL_TIMESTAMP_NONE\<rparr>"

text \<open>The value of an item, a number here, is fetched by \<open>make_from_item\<close>.\<close>

definition mk_Temporal_with_date_item :: "date_lib \<Rightarrow> MYSQL_TIME \<Rightarrow> nat \<Rightarrow> date_mode_t \<Rightarrow> MYSQL_TIME" where
  "mk_Temporal_with_date_item D t item fuzzydate = make_from_item D item t fuzzydate"

definition mk_Temporal_with_date_Sec6 ::
    "date_lib \<Rightarrow> MYSQL_TIME \<Rightarrow> 32 word \<Rightarrow> 'a Sec6_scheme \<Rightarrow> date_mode_t \<Rightarrow> MYSQL_TIME \<times> 32 word" where
  "mk_Temporal_with_date_Sec6 D t warn nr flags =
     (let (rc, t, warn) = to_datetime_or_date (base D) nr t warn (dm_conv flags)
      in (if rc then t\<lparr>time_type := MYSQL_TIMESTAMP_NONE\<rparr> else t, warn))"

definition mk_Temporal_with_date_str ::
    "date_lib \<Rightarrow> MYSQL_TIME \<Rightarrow> Warn \<Rightarrow> bytes \<Rightarrow> date_mode_t \<Rightarrow> MYSQL_TIME \<times> Warn" where
  "mk_Temporal_with_date_str D t status str flags =
     (let (rc, t, status) = str_to_date_cs D str t status flags
      in (if rc then t\<lparr>time_type := MYSQL_TIMESTAMP_NONE\<rparr> else t, status))"

definition date_comparison_flags :: date_conv_mode_t where
  "date_comparison_flags = dcm_or TIME_INVALID_DATES TIME_FUZZY_DATES"

definition is_valid_date_slow :: "date_lib \<Rightarrow> MYSQL_TIME \<Rightarrow> bool" where
  "is_valid_date_slow D t \<longleftrightarrow> \<not> check_datetime_range D t"

definition date_is_valid_value_slow :: "date_lib \<Rightarrow> MYSQL_TIME \<Rightarrow> bool" where
  "date_is_valid_value_slow D t \<longleftrightarrow> time_type t = MYSQL_TIMESTAMP_NONE \<or> is_valid_date_slow D t"

text \<open>The constructors of \<open>Date\<close>: from an item, and from another temporal value with a date.\<close>

definition mk_Date_item :: "date_lib \<Rightarrow> MYSQL_TIME \<Rightarrow> nat \<Rightarrow> date_mode_t \<Rightarrow> MYSQL_TIME" where
  "mk_Date_item D t item fuzzydate =
     (let t = mk_Temporal_with_date_item D t item fuzzydate
      in if time_type t = MYSQL_TIMESTAMP_DATETIME then datetime_to_date t else t)"

definition mk_Date :: "MYSQL_TIME \<Rightarrow> MYSQL_TIME" where
  "mk_Date d = datetime_to_date d"

definition is_valid_date :: "MYSQL_TIME \<Rightarrow> bool" where
  "is_valid_date t \<longleftrightarrow> time_type t = MYSQL_TIMESTAMP_DATE"

definition date_to_longlong :: "date_lib \<Rightarrow> MYSQL_TIME \<Rightarrow> longlong" where
  "date_to_longlong D t = (if is_valid_date t then TIME_to_ulonglong_part D MYSQL_TIMESTAMP_DATE t else 0)"

subsection \<open>\<open>Datetime\<close>\<close>

definition is_valid_datetime_slow :: "date_lib \<Rightarrow> MYSQL_TIME \<Rightarrow> bool" where
  "is_valid_datetime_slow D t \<longleftrightarrow> \<not> check_datetime_range D t"

definition datetime_is_valid_value_slow :: "date_lib \<Rightarrow> MYSQL_TIME \<Rightarrow> bool" where
  "datetime_is_valid_value_slow D t \<longleftrightarrow> time_type t = MYSQL_TIMESTAMP_NONE \<or> is_valid_datetime_slow D t"

definition is_valid_datetime :: "MYSQL_TIME \<Rightarrow> bool" where
  "is_valid_datetime t \<longleftrightarrow> time_type t = MYSQL_TIMESTAMP_DATETIME"

definition date_to_datetime_if_needed :: "MYSQL_TIME \<Rightarrow> MYSQL_TIME" where
  "date_to_datetime_if_needed t = (if time_type t = MYSQL_TIMESTAMP_DATE then date_to_datetime t else t)"

definition mk_Datetime_item :: "date_lib \<Rightarrow> MYSQL_TIME \<Rightarrow> nat \<Rightarrow> date_mode_t \<Rightarrow> MYSQL_TIME" where
  "mk_Datetime_item D t item fuzzydate = date_to_datetime_if_needed (mk_Temporal_with_date_item D t item fuzzydate)"

definition mk_Datetime_str ::
    "date_lib \<Rightarrow> MYSQL_TIME \<Rightarrow> Warn \<Rightarrow> bytes \<Rightarrow> date_mode_t \<Rightarrow> MYSQL_TIME \<times> Warn" where
  "mk_Datetime_str D t status str fuzzydate =
     (let (t, status) = mk_Temporal_with_date_str D t status str fuzzydate
      in (date_to_datetime_if_needed t, status))"

definition mk_Datetime_Sec6 ::
    "date_lib \<Rightarrow> MYSQL_TIME \<Rightarrow> 32 word \<Rightarrow> 'a Sec6_scheme \<Rightarrow> date_mode_t \<Rightarrow> MYSQL_TIME \<times> 32 word" where
  "mk_Datetime_Sec6 D t warn nr flags =
     (let (t, warn) = mk_Temporal_with_date_Sec6 D t warn nr flags in (date_to_datetime_if_needed t, warn))"

definition mk_Datetime_Sec9 ::
    "date_lib \<Rightarrow> MYSQL_TIME \<Rightarrow> 32 word \<Rightarrow> Sec9 \<Rightarrow> date_mode_t \<Rightarrow> MYSQL_TIME \<times> 32 word" where
  "mk_Datetime_Sec9 D t warn nr fuzzydate =
     (let (t, warn) = mk_Datetime_Sec6 D t warn (sec6_of nr) fuzzydate
      in if is_valid_datetime t \<and> trm_eq (dm_round fuzzydate) TIME_FRAC_ROUND
         then snd (datetime_round_or_invalidate_nsec D t 6 warn (m_nsec nr)) else (t, warn))"

definition mk_Datetime_longlong ::
    "date_lib \<Rightarrow> MYSQL_TIME \<Rightarrow> 32 word \<Rightarrow> Longlong_hybrid \<Rightarrow> date_mode_t \<Rightarrow> MYSQL_TIME \<times> 32 word" where
  "mk_Datetime_longlong D t warn nr mode = mk_Datetime_Sec6 D t warn (mk_Sec6 nr) mode"

definition datetime_zero :: "date_lib \<Rightarrow> MYSQL_TIME \<Rightarrow> 32 word \<Rightarrow> MYSQL_TIME" where
  "datetime_zero D t warn = fst (mk_Datetime_longlong D t warn (mk_Longlong_hybrid 0 False) (mk_date_mode 0))"

definition datetime_check_date :: "date_lib \<Rightarrow> MYSQL_TIME \<Rightarrow> date_conv_mode_t \<Rightarrow> bool \<times> 32 word" where
  "datetime_check_date D t flags =
     check_date (base D) t (year t \<noteq> 0 \<or> month t \<noteq> 0 \<or> day t \<noteq> 0)
       (dcm_ulonglong (dcm_and flags TIME_MODE_FOR_XXX_TO_DATE))"

definition hhmmssff_is_zero :: "MYSQL_TIME \<Rightarrow> bool" where
  "hhmmssff_is_zero t \<longleftrightarrow> hour t = 0 \<and> minute t = 0 \<and> second t = 0 \<and> second_part t = 0"

definition hhmmss_to_seconds_abs :: "MYSQL_TIME \<Rightarrow> longlong" where
  "hhmmss_to_seconds_abs t = ucast (hour t * 3600 + minute t * 60 + second t)"

definition hhmmss_to_seconds :: "MYSQL_TIME \<Rightarrow> longlong" where
  "hhmmss_to_seconds t = (if neg t then - hhmmss_to_seconds_abs t else hhmmss_to_seconds_abs t)"

definition datetime_to_seconds :: "date_lib \<Rightarrow> MYSQL_TIME \<Rightarrow> longlong" where
  "datetime_to_seconds D t = hhmmss_to_seconds t + ucast (twd_daynr D t) * 24 * 3600"

definition datetime_copy_to_mysql_time :: "MYSQL_TIME \<Rightarrow> MYSQL_TIME \<Rightarrow> timestamp_type \<Rightarrow> bool \<times> MYSQL_TIME" where
  "datetime_copy_to_mysql_time t ltime tt =
     (let (rc, ltime) = time_copy_to_mysql_time t ltime
      in if rc then (True, ltime) else (False, ltime\<lparr>time_type := tt\<rparr>))"

definition datetime_to_longlong :: "date_lib \<Rightarrow> MYSQL_TIME \<Rightarrow> longlong" where
  "datetime_to_longlong D t =
     (if is_valid_datetime t then TIME_to_ulonglong_part D MYSQL_TIMESTAMP_DATETIME t else 0)"

definition datetime_to_packed :: "date_lib \<Rightarrow> MYSQL_TIME \<Rightarrow> longlong" where
  "datetime_to_packed D t = (if is_valid_datetime t then tm_to_packed (base D) t else 0)"

definition datetime_trunc :: "date_lib \<Rightarrow> MYSQL_TIME \<Rightarrow> uint \<Rightarrow> MYSQL_TIME" where
  "datetime_trunc D t dec = (if is_valid_datetime t then my_time_trunc (log_10_int (base D)) t dec else t)"

definition datetime_round :: "date_lib \<Rightarrow> MYSQL_TIME \<Rightarrow> uint \<Rightarrow> 32 word \<Rightarrow> MYSQL_TIME \<times> 32 word" where
  "datetime_round D t dec warn =
     (if is_valid_datetime t then snd (datetime_round_or_invalidate D t dec warn) else (t, warn))"

definition datetime_round_mode ::
    "date_lib \<Rightarrow> MYSQL_TIME \<Rightarrow> uint \<Rightarrow> time_round_mode_t \<Rightarrow> 32 word \<Rightarrow> MYSQL_TIME \<times> 32 word" where
  "datetime_round_mode D = round_by_mode (datetime_trunc D) (datetime_round D)"

definition datetime_round_quiet :: "date_lib \<Rightarrow> MYSQL_TIME \<Rightarrow> uint \<Rightarrow> time_round_mode_t \<Rightarrow> MYSQL_TIME" where
  "datetime_round_quiet D t dec mode = fst (datetime_round_mode D t dec mode 0)"

definition mk_Datetime_str_dec ::
    "date_lib \<Rightarrow> MYSQL_TIME \<Rightarrow> Warn \<Rightarrow> bytes \<Rightarrow> date_mode_t \<Rightarrow> uint \<Rightarrow> MYSQL_TIME \<times> Warn" where
  "mk_Datetime_str_dec D t status str fuzzydate dec =
     (let (t, status) = mk_Datetime_str D t status str fuzzydate;
          (t, w) = datetime_round_mode D t dec (dm_round fuzzydate) (warnings status)
      in (t, status\<lparr>warnings := w\<rparr>))"

definition mk_Datetime_item_dec :: "date_lib \<Rightarrow> MYSQL_TIME \<Rightarrow> nat \<Rightarrow> date_mode_t \<Rightarrow> uint \<Rightarrow> MYSQL_TIME" where
  "mk_Datetime_item_dec D t item fuzzydate dec =
     fst (datetime_round_mode D (mk_Datetime_item D t item fuzzydate) dec (dm_round fuzzydate) 0)"

text \<open>From a \<open>double\<close> or a \<open>my_decimal\<close>, which is a \<open>Sec9\<close> by then, and from a \<open>MYSQL_TIME\<close>, with rounding.\<close>

definition mk_Datetime_Sec9_dec ::
    "date_lib \<Rightarrow> MYSQL_TIME \<Rightarrow> 32 word \<Rightarrow> Sec9 \<Rightarrow> date_mode_t \<Rightarrow> uint \<Rightarrow> MYSQL_TIME \<times> 32 word" where
  "mk_Datetime_Sec9_dec D t warn nr fuzzydate dec =
     (let (t, warn) = mk_Datetime_Sec9 D t warn nr fuzzydate in datetime_round_mode D t dec (dm_round fuzzydate) warn)"

definition mk_Datetime_TIME_dec ::
    "date_lib \<Rightarrow> MYSQL_TIME \<Rightarrow> 32 word \<Rightarrow> MYSQL_TIME \<Rightarrow> date_mode_t \<Rightarrow> uint \<Rightarrow> MYSQL_TIME \<times> 32 word" where
  "mk_Datetime_TIME_dec D t warn from fuzzydate dec =
     (let (t, warn) = mk_Datetime_TIME D t warn from (dcm_and_ulonglong (dm_conv fuzzydate) (dcm_not TIME_TIME_ONLY))
      in datetime_round_mode D t dec (dm_round fuzzydate) warn)"

subsection \<open>\<open>Timestamp\<close>\<close>

definition add_nanoseconds_usec :: "timeval \<Rightarrow> uint \<Rightarrow> bool \<times> timeval" where
  "add_nanoseconds_usec tv ns =
     (if ns < 500 then (False, tv)
      else let tv = tv\<lparr>tv_usec := tv_usec tv + (ns + 500) div 1000\<rparr>
           in if tv_usec tv <s 1000000 then (False, tv)
              else (True, tv\<lparr>tv_usec := c_smod (tv_usec tv) 1000000\<rparr>))"

definition timestamp_cmp :: "timeval \<Rightarrow> timeval \<Rightarrow> int" where
  "timestamp_cmp tv other =
     (if tv_sec tv <s tv_sec other then -1
      else if tv_sec other <s tv_sec tv then 1
      else if tv_usec tv <s tv_usec other then -1
      else if tv_usec other <s tv_usec tv then 1 else 0)"

definition timestamp_fraction_remainder :: "date_lib \<Rightarrow> timeval \<Rightarrow> uint \<Rightarrow> 32 word" where
  "timestamp_fraction_remainder D tv dec = my_time_fraction_remainder (log_10_int (base D)) (tv_usec tv) dec"

definition timestamp_trunc :: "date_lib \<Rightarrow> timeval \<Rightarrow> uint \<Rightarrow> timeval" where
  "timestamp_trunc D tv dec = my_timeval_trunc (log_10_int (base D)) tv dec"

definition timestamp_round :: "date_lib \<Rightarrow> timeval \<Rightarrow> uint \<Rightarrow> 32 word \<Rightarrow> timeval \<times> 32 word" where
  "timestamp_round D tv dec warn = timestamp_round_or_set_max D tv dec warn"

definition timestamp_round_mode ::
    "date_lib \<Rightarrow> timeval \<Rightarrow> uint \<Rightarrow> time_round_mode_t \<Rightarrow> 32 word \<Rightarrow> timeval \<times> 32 word" where
  "timestamp_round_mode D = round_by_mode (timestamp_trunc D) (timestamp_round D)"

definition timestamp_round_quiet :: "date_lib \<Rightarrow> timeval \<Rightarrow> uint \<Rightarrow> time_round_mode_t \<Rightarrow> timeval" where
  "timestamp_round_quiet D t dec mode = fst (timestamp_round_mode D t dec mode 0)"

record Timestamp_or_zero_datetime = timeval +
  m_is_zero_datetime :: bool

definition mk_Timestamp_or_zero_datetime :: Timestamp_or_zero_datetime where
  "mk_Timestamp_or_zero_datetime = \<lparr>tv_sec = 0, tv_usec = 0, m_is_zero_datetime = True\<rparr>"

definition mk_Timestamp_or_zero_datetime_tm :: "timeval \<Rightarrow> bool \<Rightarrow> Timestamp_or_zero_datetime" where
  "mk_Timestamp_or_zero_datetime_tm tm is_zero_datetime =
     \<lparr>tv_sec = tv_sec tm, tv_usec = tv_usec tm, m_is_zero_datetime = is_zero_datetime\<rparr>"

definition timestamp_of :: "Timestamp_or_zero_datetime \<Rightarrow> timeval" where
  "timestamp_of z = \<lparr>tv_sec = tv_sec z, tv_usec = tv_usec z\<rparr>"

definition tz_trunc :: "date_lib \<Rightarrow> Timestamp_or_zero_datetime \<Rightarrow> uint \<Rightarrow> Timestamp_or_zero_datetime" where
  "tz_trunc D z decimals =
     (if \<not> m_is_zero_datetime z
      then mk_Timestamp_or_zero_datetime_tm (timestamp_trunc D (timestamp_of z) decimals) (m_is_zero_datetime z)
      else z)"

definition tz_cmp :: "Timestamp_or_zero_datetime \<Rightarrow> Timestamp_or_zero_datetime \<Rightarrow> int" where
  "tz_cmp z other =
     (if m_is_zero_datetime z then (if m_is_zero_datetime other then 0 else -1)
      else if m_is_zero_datetime other then 1
      else timestamp_cmp (timestamp_of z) (timestamp_of other))"

subsection \<open>Valid values\<close>

text \<open>
  The values the comments above the classes call valid: a \<open>TIME\<close> in the supported range, and a \<open>DATE\<close> or
  \<open>DATETIME\<close> that is normalised as the comment on \<open>MYSQL_TIME\<close> says.
\<close>

definition valid_TIME :: "MYSQL_TIME \<Rightarrow> bool" where
  "valid_TIME t \<longleftrightarrow> is_valid_time_slow t \<and> hour t \<le> TIME_MAX_HOUR"

definition valid_date_part :: "MYSQL_TIME \<Rightarrow> bool" where
  "valid_date_part t \<longleftrightarrow> year t \<le> 9999 \<and> month t \<le> 12 \<and> day t \<le> 31 \<and> hour t \<le> 23 \<and> has_valid_mmssff t \<and> \<not> neg t"

definition valid_DATE :: "MYSQL_TIME \<Rightarrow> bool" where
  "valid_DATE t \<longleftrightarrow> time_type t = MYSQL_TIMESTAMP_DATE \<and> valid_date_part t"

definition valid_DATETIME :: "MYSQL_TIME \<Rightarrow> bool" where
  "valid_DATETIME t \<longleftrightarrow> time_type t = MYSQL_TIMESTAMP_DATETIME \<and> valid_date_part t"

text \<open>The states of an object of \<open>Time\<close>, \<open>Temporal_with_date\<close>, \<open>Date\<close> and \<open>Datetime\<close>.\<close>

definition twd_ok :: "MYSQL_TIME \<Rightarrow> bool" where
  "twd_ok t \<longleftrightarrow> time_type t = MYSQL_TIMESTAMP_NONE \<or> valid_DATE t \<or> valid_DATETIME t"

definition time_ok :: "MYSQL_TIME \<Rightarrow> bool" where
  "time_ok t \<longleftrightarrow> time_type t = MYSQL_TIMESTAMP_NONE \<or> valid_TIME t"

definition date_ok :: "MYSQL_TIME \<Rightarrow> bool" where
  "date_ok t \<longleftrightarrow> time_type t = MYSQL_TIMESTAMP_NONE \<or> valid_DATE t"

definition datetime_ok :: "MYSQL_TIME \<Rightarrow> bool" where
  "datetime_ok t \<longleftrightarrow> time_type t = MYSQL_TIMESTAMP_NONE \<or> valid_DATETIME t"

definition timestamp_ok :: "timeval \<Rightarrow> bool" where
  "timestamp_ok tv \<longleftrightarrow> unat (tv_usec tv) < 1000000"

text \<open>
  What the comments in \<open>sql_type.h\<close> say of the routines: the number and string conversions return valid
  values and never \<open>MYSQL_TIMESTAMP_ERROR\<close>; \<open>calc_time_diff\<close> returns a \<open>TIME\<close> that may be out of range and
  \<open>check_time_range\<close> brings one into the range; the rounding methods leave a valid value, the one of
  \<open>Datetime\<close> possibly the undefined value; \<open>set_zero_time\<close> makes a zero value of the given type;
  \<open>check_datetime_range\<close> tests for a normalised value; and \<open>make_from_item\<close> and the constructor of
  \<open>Datetime\<close> from a \<open>MYSQL_TIME\<close> leave a valid or an undefined value of their class.
\<close>

definition number_laws :: "time_lib \<Rightarrow> bool" where
  "number_laws L \<longleftrightarrow>
     (\<forall>n s us mh t w rc u w'. number_to_time_only L n s us mh t w = (rc, u, w') \<and> rc = 0 \<and> us \<le> TIME_MAX_SECOND_PART
        \<longrightarrow> is_valid_time_slow u \<and> hour u \<le> mh) \<and>
     (\<forall>s us t f w rc u w'. number_to_datetime_or_date L s us t f w = (rc, u, w') \<and> rc \<noteq> -1 \<and> us \<le> TIME_MAX_SECOND_PART
        \<longrightarrow> valid_DATE u \<or> valid_DATETIME u) \<and>
     (\<forall>t tt. set_zero_time L t tt = zero_MYSQL_TIME\<lparr>time_type := tt\<rparr>) \<and>
     (\<forall>t dec w rc u w'. check_time_range L t dec w = (rc, u, w') \<and> is_valid_time_slow t \<longrightarrow> valid_TIME u) \<and>
     log_10_law (log_10_int L)"

definition string_laws :: "date_lib \<Rightarrow> bool" where
  "string_laws D \<longleftrightarrow>
     (\<forall>s t st m u st'. str_to_time_cs D s t st m = (False, u, st') \<longrightarrow> valid_TIME u \<or> valid_DATE u \<or> valid_DATETIME u) \<and>
     (\<forall>s t st m u st'. str_to_date_cs D s t st m = (False, u, st') \<longrightarrow> valid_DATE u \<or> valid_DATETIME u)"

definition method_laws :: "date_lib \<Rightarrow> bool" where
  "method_laws D \<longleftrightarrow>
     (\<forall>t1 t2 s m rc u. calc_time_diff_TIME D t1 t2 s m = (rc, u) \<longrightarrow> is_valid_time_slow u) \<and>
     (\<forall>t dec w. valid_TIME t \<longrightarrow> valid_TIME (fst (time_round_or_set_max D t dec w))) \<and>
     (\<forall>t dec w ns. valid_TIME t \<longrightarrow> valid_TIME (fst (time_round_or_set_max_nsec D t dec w ns))) \<and>
     (\<forall>t dec w. valid_DATETIME t \<longrightarrow> datetime_ok (fst (snd (datetime_round_or_invalidate D t dec w)))) \<and>
     (\<forall>t dec w ns. valid_DATETIME t \<longrightarrow> datetime_ok (fst (snd (datetime_round_or_invalidate_nsec D t dec w ns)))) \<and>
     (\<forall>tv dec w. timestamp_ok tv \<longrightarrow> timestamp_ok (fst (timestamp_round_or_set_max D tv dec w))) \<and>
     (\<forall>t. time_type t \<in> {MYSQL_TIMESTAMP_DATE, MYSQL_TIMESTAMP_DATETIME} \<and> valid_date_part t \<longrightarrow> \<not> check_datetime_range D t) \<and>
     (\<forall>item t m. twd_ok (make_from_item D item t m)) \<and>
     (\<forall>t w from m. datetime_ok (fst (mk_Datetime_TIME D t w from m)))"

definition date_laws :: "date_lib \<Rightarrow> bool" where
  "date_laws D \<longleftrightarrow> number_laws (base D) \<and> string_laws D \<and> method_laws D"

lemma date_lawsD:
  assumes "date_laws D"
  shows "number_to_time_only (base D) n s us mh t w = (0, u, w') \<Longrightarrow> us \<le> TIME_MAX_SECOND_PART \<Longrightarrow>
      is_valid_time_slow u \<and> hour u \<le> mh"
    and "number_to_datetime_or_date (base D) ds us t f w = (rc, u, w') \<Longrightarrow> rc \<noteq> -1 \<Longrightarrow> us \<le> TIME_MAX_SECOND_PART \<Longrightarrow>
      valid_DATE u \<or> valid_DATETIME u"
    and "set_zero_time (base D) t tt = zero_MYSQL_TIME\<lparr>time_type := tt\<rparr>"
    and "check_time_range (base D) t dec w = (rc', u, w') \<Longrightarrow> is_valid_time_slow t \<Longrightarrow> valid_TIME u"
    and "log_10_law (log_10_int (base D))"
    and "str_to_time_cs D str t st m = (False, u, st') \<Longrightarrow> valid_TIME u \<or> valid_DATE u \<or> valid_DATETIME u"
    and "str_to_date_cs D str t st m = (False, u, st') \<Longrightarrow> valid_DATE u \<or> valid_DATETIME u"
    and "calc_time_diff_TIME D t1 t2 sn m = (b, u) \<Longrightarrow> is_valid_time_slow u"
    and "valid_TIME t \<Longrightarrow> valid_TIME (fst (time_round_or_set_max D t dec w))"
    and "valid_TIME t \<Longrightarrow> valid_TIME (fst (time_round_or_set_max_nsec D t dec w ns))"
    and "valid_DATETIME t \<Longrightarrow> datetime_ok (fst (snd (datetime_round_or_invalidate D t dec w)))"
    and "valid_DATETIME t \<Longrightarrow> datetime_ok (fst (snd (datetime_round_or_invalidate_nsec D t dec w ns)))"
    and "timestamp_ok tv \<Longrightarrow> timestamp_ok (fst (timestamp_round_or_set_max D tv dec w))"
    and "time_type t \<in> {MYSQL_TIMESTAMP_DATE, MYSQL_TIMESTAMP_DATETIME} \<Longrightarrow> valid_date_part t \<Longrightarrow> \<not> check_datetime_range D t"
    and "twd_ok (make_from_item D item t dm)"
    and "datetime_ok (fst (mk_Datetime_TIME D t w from cm))"
proof -
  have n: "number_laws (base D)" and s: "string_laws D" and m: "method_laws D"
    using assms by (simp_all add: date_laws_def)
  note n' = n [unfolded number_laws_def] and s' = s [unfolded string_laws_def] and m' = m [unfolded method_laws_def]
  show "number_to_time_only (base D) n s us mh t w = (0, u, w') \<Longrightarrow> us \<le> TIME_MAX_SECOND_PART \<Longrightarrow>
      is_valid_time_slow u \<and> hour u \<le> mh" using conjunct1 [OF n'] by blast
  show "number_to_datetime_or_date (base D) ds us t f w = (rc, u, w') \<Longrightarrow> rc \<noteq> -1 \<Longrightarrow> us \<le> TIME_MAX_SECOND_PART \<Longrightarrow>
      valid_DATE u \<or> valid_DATETIME u" using conjunct1 [OF conjunct2 [OF n']] by blast
  show "set_zero_time (base D) t tt = zero_MYSQL_TIME\<lparr>time_type := tt\<rparr>" using n' by blast
  show "check_time_range (base D) t dec w = (rc', u, w') \<Longrightarrow> is_valid_time_slow t \<Longrightarrow> valid_TIME u" using n' by blast
  show "log_10_law (log_10_int (base D))" using n' by blast
  show "str_to_time_cs D str t st m = (False, u, st') \<Longrightarrow> valid_TIME u \<or> valid_DATE u \<or> valid_DATETIME u" using s' by blast
  show "str_to_date_cs D str t st m = (False, u, st') \<Longrightarrow> valid_DATE u \<or> valid_DATETIME u" using s' by blast
  show "calc_time_diff_TIME D t1 t2 sn m = (b, u) \<Longrightarrow> is_valid_time_slow u"
    using conjunct1 [OF m', rule_format, of t1 t2 sn m b u] by simp
  note r1 = m' [THEN conjunct2] and r2 = m' [THEN conjunct2, THEN conjunct2]
  note r3 = r2 [THEN conjunct2] and r4 = r2 [THEN conjunct2, THEN conjunct2]
  note r5 = r4 [THEN conjunct2] and r6 = r4 [THEN conjunct2, THEN conjunct2]
  show "valid_TIME t \<Longrightarrow> valid_TIME (fst (time_round_or_set_max D t dec w))" by (rule r1 [THEN conjunct1, rule_format])
  show "valid_TIME t \<Longrightarrow> valid_TIME (fst (time_round_or_set_max_nsec D t dec w ns))" by (rule r2 [THEN conjunct1, rule_format])
  show "valid_DATETIME t \<Longrightarrow> datetime_ok (fst (snd (datetime_round_or_invalidate D t dec w)))"
    by (rule r3 [THEN conjunct1, rule_format])
  show "valid_DATETIME t \<Longrightarrow> datetime_ok (fst (snd (datetime_round_or_invalidate_nsec D t dec w ns)))"
    by (rule r4 [THEN conjunct1, rule_format])
  show "timestamp_ok tv \<Longrightarrow> timestamp_ok (fst (timestamp_round_or_set_max D tv dec w))" by (rule r5 [THEN conjunct1, rule_format])
  show "time_type t \<in> {MYSQL_TIMESTAMP_DATE, MYSQL_TIMESTAMP_DATETIME} \<Longrightarrow> valid_date_part t \<Longrightarrow> \<not> check_datetime_range D t"
    using r6 [THEN conjunct1] by blast
  show "twd_ok (make_from_item D item t dm)" "datetime_ok (fst (mk_Datetime_TIME D t w from cm))"
    by (rule r6 [THEN conjunct2, THEN conjunct1, rule_format], rule r6 [THEN conjunct2, THEN conjunct2, rule_format])
qed

subsection \<open>Rounding keeps values valid\<close>

text \<open>
  The contract \<open>round(dec, mode)\<close> needs of a class: its truncation and its rounding keep the class
  invariant for a number of decimals the code allows.
\<close>

locale checked_rounding =
  fixes inv :: "'v \<Rightarrow> bool"
    and tr :: "'v \<Rightarrow> uint \<Rightarrow> 'v"
    and rd :: "'v \<Rightarrow> uint \<Rightarrow> 32 word \<Rightarrow> 'v \<times> 32 word"
  assumes tr_inv: "inv v \<Longrightarrow> dec \<le> TIME_SECOND_PART_DIGITS \<Longrightarrow> inv (tr v dec)"
    and rd_inv: "inv v \<Longrightarrow> dec \<le> TIME_SECOND_PART_DIGITS \<Longrightarrow> inv (fst (rd v dec w))"
begin

lemma mode_inv:
  assumes "inv v" "dec \<le> TIME_SECOND_PART_DIGITS"
  shows "inv (fst (round_by_mode tr rd v dec mode w))"
  using assms by (simp add: round_by_mode_def tr_inv rd_inv)

end

lemma has_valid_mmssff_trunc:
  assumes "log_10_law L" "dec \<le> TIME_SECOND_PART_DIGITS" "has_valid_mmssff t"
  shows "has_valid_mmssff (my_time_trunc L t dec)"
proof -
  have sp: "second_part t \<le> TIME_MAX_SECOND_PART" using assms(3) by (simp add: has_valid_mmssff_def)
  have "unat (second_part (my_time_trunc L t dec)) \<le> unat (second_part t)"
    unfolding my_time_trunc_second_part [OF assms(1,2) sp] by (rule trunc_usec_le)
  then show ?thesis using assms(3) by (simp add: has_valid_mmssff_unat) (simp add: my_time_trunc_def)
qed

lemma my_time_trunc_other:
  "time_type (my_time_trunc L t dec) = time_type t" "hour (my_time_trunc L t dec) = hour t"
  "year (my_time_trunc L t dec) = year t" "month (my_time_trunc L t dec) = month t"
  "day (my_time_trunc L t dec) = day t" "neg (my_time_trunc L t dec) = neg t"
  "minute (my_time_trunc L t dec) = minute t" "second (my_time_trunc L t dec) = second t"
  by (simp_all add: my_time_trunc_def)

lemma time_ok_trunc:
  assumes "date_laws D" "time_ok t" "dec \<le> TIME_SECOND_PART_DIGITS"
  shows "time_ok (time_trunc D t dec)"
  using assms has_valid_mmssff_trunc [OF date_lawsD(5) [OF assms(1)] assms(3), of t]
  by (auto simp: time_ok_def time_trunc_def is_valid_time_def valid_TIME_def is_valid_time_slow_def
      has_zero_YYYYMMDD_def my_time_trunc_other)

lemma time_ok_round:
  assumes "date_laws D" "time_ok t"
  shows "time_ok (fst (time_round D t dec w))"
  using assms date_lawsD(9) [OF assms(1)] by (auto simp: time_ok_def time_round_def is_valid_time_def valid_TIME_def)

lemma datetime_ok_trunc:
  assumes "date_laws D" "datetime_ok t" "dec \<le> TIME_SECOND_PART_DIGITS"
  shows "datetime_ok (datetime_trunc D t dec)"
  using assms has_valid_mmssff_trunc [OF date_lawsD(5) [OF assms(1)] assms(3), of t]
  by (auto simp: datetime_ok_def datetime_trunc_def is_valid_datetime_def valid_DATETIME_def valid_date_part_def
      my_time_trunc_other)

lemma datetime_ok_round:
  assumes "date_laws D" "datetime_ok t"
  shows "datetime_ok (fst (datetime_round D t dec w))"
  using assms date_lawsD(11) [OF assms(1)]
  by (auto simp: datetime_ok_def datetime_round_def is_valid_datetime_def valid_DATETIME_def)

lemma timestamp_trunc_usec:
  assumes "date_laws D" "timestamp_ok tv" "dec \<le> TIME_SECOND_PART_DIGITS"
  shows "unat (tv_usec (timestamp_trunc D tv dec)) = trunc_usec (unat dec) (unat (tv_usec tv))"
proof -
  have "unat (tv_usec tv) < 2 ^ 31" using assms(2) by (simp add: timestamp_ok_def)
  then show ?thesis
    using unat_minus_remainder [OF date_lawsD(5) [OF assms(1)] assms(3)]
    by (simp add: timestamp_trunc_def my_timeval_trunc_def)
qed

lemma timestamp_ok_trunc:
  assumes "date_laws D" "timestamp_ok tv" "dec \<le> TIME_SECOND_PART_DIGITS"
  shows "timestamp_ok (timestamp_trunc D tv dec)"
  using timestamp_trunc_usec [OF assms] trunc_usec_le [of "unat dec" "unat (tv_usec tv)"] assms(2)
  unfolding timestamp_ok_def by linarith

interpretation tmr: checked_rounding "\<lambda>t. date_laws D \<longrightarrow> time_ok t" "time_trunc D" "time_round D" for D
  by unfold_locales (auto intro: time_ok_trunc time_ok_round)

interpretation dtr: checked_rounding "\<lambda>t. date_laws D \<longrightarrow> datetime_ok t" "datetime_trunc D" "datetime_round D" for D
  by unfold_locales (auto intro: datetime_ok_trunc datetime_ok_round)

interpretation tsr: checked_rounding "\<lambda>tv. date_laws D \<longrightarrow> timestamp_ok tv" "timestamp_trunc D" "timestamp_round D" for D
  by unfold_locales (auto intro: timestamp_ok_trunc simp: timestamp_round_def date_lawsD(13))

lemma time_ok_round_mode:
  "date_laws D \<Longrightarrow> time_ok t \<Longrightarrow> dec \<le> TIME_SECOND_PART_DIGITS \<Longrightarrow> time_ok (fst (time_round_mode D t dec mode w))"
  unfolding time_round_mode_def using tmr.mode_inv [of D] by blast

lemma datetime_ok_round_mode:
  "date_laws D \<Longrightarrow> datetime_ok t \<Longrightarrow> dec \<le> TIME_SECOND_PART_DIGITS \<Longrightarrow>
   datetime_ok (fst (datetime_round_mode D t dec mode w))"
  unfolding datetime_round_mode_def using dtr.mode_inv [of D] by blast

subsection \<open>Conversion to \<open>TIME\<close>\<close>

lemma valid_datetime_to_valid_time_ok:
  assumes "date_laws D" "valid_DATE t \<or> valid_DATETIME t"
  shows "valid_TIME (fst (valid_datetime_to_valid_time D t w opt))"
proof (cases "m_datetime_to_time_mode opt = DATETIME_TO_TIME_MINUS_CURRENT_DATE")
  case True
  obtain rc tmp where c: "calc_time_diff_TIME D t (current_date D) 1 (mk_date_mode 0) = (rc, tmp)" by fastforce
  obtain rc' u w' where k: "check_time_range (base D) tmp TIME_SECOND_PART_DIGITS 0 = (rc', u, w')"
    by (cases "check_time_range (base D) tmp TIME_SECOND_PART_DIGITS 0") auto
  show ?thesis
    using True date_lawsD(4) [OF assms(1) k date_lawsD(8) [OF assms(1) c]]
    by (simp add: valid_datetime_to_valid_time_def datetime_to_time_minus_current_date_def c k)
next
  case False
  have p: "valid_date_part t" using assms(2) by (auto simp: valid_DATE_def valid_DATETIME_def)
  then have h: "unat (hour t) \<le> 23" "unat (day t) \<le> 31" "has_valid_mmssff t"
    by (simp_all add: valid_date_part_def word_le_nat_alt)
  have "unat (hour t + day t * 24) = unat (hour t) + unat (day t) * 24"
    using h by (simp add: unat_word_ariths)
  then have "hour t + day t * 24 \<le> TIME_MAX_HOUR" "hour t \<le> TIME_MAX_HOUR"
    using h by (simp_all add: word_le_nat_alt time_limits)
  then show ?thesis
    using False h(3)
    by (simp add: valid_datetime_to_valid_time_def datetime_to_time_mix_to_hours_def valid_TIME_def is_valid_time_slow_def
        has_zero_YYYYMMDD_def has_valid_mmssff_def)
qed

lemma valid_value_ok:
  assumes "date_laws D" "time_ok t \<or> valid_DATE t \<or> valid_DATETIME t \<or> time_type t = MYSQL_TIMESTAMP_ERROR"
  shows "time_ok (fst (valid_MYSQL_TIME_to_valid_value D t w opt))"
proof (cases "time_type t")
  case MYSQL_TIMESTAMP_ERROR
  then show ?thesis
    by (simp add: valid_MYSQL_TIME_to_valid_value_def date_lawsD(3) [OF assms(1)] time_ok_def valid_TIME_def
        is_valid_time_slow_def has_zero_YYYYMMDD_def has_valid_mmssff_def zero_MYSQL_TIME_def)
next
  case MYSQL_TIMESTAMP_DATE
  then have "valid_DATE t \<or> valid_DATETIME t"
    using assms(2) by (auto simp: time_ok_def valid_TIME_def is_valid_time_slow_def valid_DATETIME_def)
  then show ?thesis
    using MYSQL_TIMESTAMP_DATE valid_datetime_to_valid_time_ok [OF assms(1), of t w opt]
    by (simp add: valid_MYSQL_TIME_to_valid_value_def make_from_out_of_range_def time_ok_def)
next
  case MYSQL_TIMESTAMP_DATETIME
  then have "valid_DATE t \<or> valid_DATETIME t"
    using assms(2) by (auto simp: time_ok_def valid_TIME_def is_valid_time_slow_def valid_DATE_def)
  then show ?thesis
    using MYSQL_TIMESTAMP_DATETIME valid_datetime_to_valid_time_ok [OF assms(1), of t w opt]
    by (simp add: valid_MYSQL_TIME_to_valid_value_def make_from_out_of_range_def time_ok_def)
qed (use assms(2) in \<open>auto simp: valid_MYSQL_TIME_to_valid_value_def time_ok_def valid_DATE_def valid_DATETIME_def\<close>)

lemma mk_Time_Sec6_ok:
  assumes "date_laws D" "m_usec nr \<le> TIME_MAX_SECOND_PART"
  shows "time_ok (fst (mk_Time_Sec6 D t w nr opt))"
proof -
  obtain rc u w' where c: "to_datetime_or_time (base D) nr t w TIME_INVALID_DATES = (rc, u, w')"
    by (cases "to_datetime_or_time (base D) nr t w TIME_INVALID_DATES") auto
  have "valid_TIME u \<or> valid_DATE u \<or> valid_DATETIME u" if "\<not> rc"
  proof (cases "m_sec nr > 9999999 \<and> m_sec nr \<le> 99991231235959 \<and> \<not> m_neg nr")
    case True
    then obtain r where r: "number_to_datetime_or_date (base D) (m_sec nr) (m_usec nr) t
          (dcm_ulonglong (dcm_and TIME_INVALID_DATES TIME_MODE_FOR_XXX_TO_DATE)) w = (r, u, w')" "rc = (r <s 0)"
      using c by (auto simp: to_datetime_or_time_def split: prod.splits)
    have "r \<noteq> -1" using r(2) that by (auto simp: word_sless_alt)
    then show ?thesis using date_lawsD(2) [OF assms(1) r(1) _ assms(2)] by blast
  next
    case False
    then obtain r where r: "number_to_time_only (base D) (m_neg nr) (m_sec nr) (m_usec nr) TIME_MAX_HOUR t w
          = (r, u, w')" "rc = (r \<noteq> 0)"
      using c by (auto simp: to_datetime_or_time_def split: prod.splits)
    with that have "r = 0" by simp
    then show ?thesis using date_lawsD(1) [OF assms(1) _ assms(2)] r(1) by (auto simp: valid_TIME_def)
  qed
  then have "time_ok (if rc then u\<lparr>time_type := MYSQL_TIMESTAMP_NONE\<rparr> else u) \<or> valid_DATE (if rc then
      u\<lparr>time_type := MYSQL_TIMESTAMP_NONE\<rparr> else u) \<or> valid_DATETIME (if rc then u\<lparr>time_type := MYSQL_TIMESTAMP_NONE\<rparr> else u)"
    by (auto simp: time_ok_def)
  then show ?thesis
    unfolding mk_Time_Sec6_def c xxx_to_time_result_to_valid_value_def Let_def prod.case
    by (intro valid_value_ok [OF assms(1)]) blast
qed

lemma mk_Time_Sec9_ok:
  assumes "date_laws D" "m_usec nr \<le> TIME_MAX_SECOND_PART"
  shows "time_ok (fst (mk_Time_Sec9 D t w nr opt))"
proof -
  obtain u w' where c: "mk_Time_Sec6 D t w (sec6_of nr) opt = (u, w')" by fastforce
  have "time_ok u" using mk_Time_Sec6_ok [OF assms(1), of "sec6_of nr" t w opt] assms(2) c by (simp add: sec6_of_def)
  then show ?thesis
    using date_lawsD(10) [OF assms(1)] by (auto simp: mk_Time_Sec9_def c time_ok_def is_valid_time_def)
qed

lemma mk_Time_str_ok:
  assumes "date_laws D"
  shows "time_ok (fst (mk_Time_str D t st s opt))"
proof -
  obtain rc u st' where c: "str_to_time_cs D s t st (o_mode opt) = (rc, u, st')"
    by (cases "str_to_time_cs D s t st (o_mode opt)") auto
  show ?thesis
  proof (cases rc)
    case True
    then show ?thesis by (simp add: mk_Time_str_def c time_ok_def)
  next
    case False
    then have "valid_TIME u \<or> valid_DATE u \<or> valid_DATETIME u" using date_lawsD(6) [OF assms] c by simp
    then have "time_ok (fst (valid_MYSQL_TIME_to_valid_value D u (warnings st') opt))"
      by (intro valid_value_ok [OF assms]) (auto simp: time_ok_def)
    then show ?thesis
      using False by (simp add: mk_Time_str_def c xxx_to_time_result_to_valid_value_def case_prod_beta)
  qed
qed

text \<open>
  The class invariant of \<open>Time\<close>: every constructor that converts a string or a number, with any options
  and any rounding mode, and every later truncation or rounding leaves the object undefined or a \<open>TIME\<close>
  value within the supported range, which is what its debug assertions test.
\<close>
theorem time_class_invariant:
  assumes "date_laws D" "m_usec nr \<le> TIME_MAX_SECOND_PART" "dec \<le> TIME_SECOND_PART_DIGITS"
  shows "time_ok (fst (mk_Time_str_dec D t st s opt dec)) \<and>
    time_ok (fst (mk_Time_Sec9 D t w nr opt)) \<and>
    time_ok (fst (mk_Time_longlong_dec D t w n opt dec)) \<and>
    (\<forall>v. time_ok v \<longrightarrow> time_ok (time_trunc D v dec) \<and> time_ok (fst (time_round_mode D v dec mode w)) \<and>
       time_is_valid_value_slow v)"
proof (intro conjI allI impI)
  obtain u st' where c: "mk_Time_str D t st s opt = (u, st')" by fastforce
  have "time_ok u" using mk_Time_str_ok [OF assms(1), of t st s opt] c by simp
  then show "time_ok (fst (mk_Time_str_dec D t st s opt dec))"
    using time_ok_round_mode [OF assms(1) _ assms(3), of u "dm_round (o_mode opt)" "warnings st'"]
    by (simp add: mk_Time_str_dec_def c case_prod_beta)
  show "time_ok (fst (mk_Time_Sec9 D t w nr opt))" by (rule mk_Time_Sec9_ok [OF assms(1,2)])
  have "time_ok (fst (mk_Time_Sec6 D t w (mk_Sec6 n) opt))"
    by (rule mk_Time_Sec6_ok [OF assms(1)]) (simp add: mk_Sec6_def s6_make_from_int_def time_limits)
  then show "time_ok (fst (mk_Time_longlong_dec D t w n opt dec))"
    using time_ok_trunc [OF assms(1) _ assms(3)]
    by (simp add: mk_Time_longlong_dec_def mk_Time_longlong_def case_prod_beta)
qed (use time_ok_trunc [OF assms(1) _ assms(3)] time_ok_round_mode [OF assms(1) _ assms(3)] in
      \<open>auto simp: time_ok_def valid_TIME_def time_is_valid_value_slow_def\<close>)

subsection \<open>Conversion to \<open>DATE\<close> and \<open>DATETIME\<close>\<close>

lemma datetime_ok_of: "twd_ok t \<Longrightarrow> datetime_ok (date_to_datetime_if_needed t)"
  by (auto simp: twd_ok_def datetime_ok_def date_to_datetime_if_needed_def date_to_datetime_def valid_DATE_def
      valid_DATETIME_def valid_date_part_def has_valid_mmssff_def)

lemma valid_DATE_of: "valid_DATE t \<or> valid_DATETIME t \<Longrightarrow> valid_DATE (datetime_to_date t) \<and> hhmmssff_is_zero (datetime_to_date t)"
  by (auto simp: datetime_to_date_def hhmmssff_is_zero_def valid_DATE_def valid_DATETIME_def valid_date_part_def
      has_valid_mmssff_def)

lemma date_ok_of: "twd_ok t \<Longrightarrow> date_ok (if time_type t = MYSQL_TIMESTAMP_DATETIME then datetime_to_date t else t)"
  using valid_DATE_of [of t] by (auto simp: twd_ok_def date_ok_def valid_DATETIME_def)

lemma mk_Temporal_with_date_Sec6_ok:
  fixes nr :: "'a Sec6_scheme" and t :: MYSQL_TIME and w :: "32 word" and flags :: date_mode_t
  assumes "date_laws D" "m_usec nr \<le> TIME_MAX_SECOND_PART"
  defines "u \<equiv> fst (mk_Temporal_with_date_Sec6 D t w nr flags)"
  shows "twd_ok u"
proof -
  obtain rc v w' where c: "to_datetime_or_date (base D) nr t w (dm_conv flags) = (rc, v, w')"
    by (cases "to_datetime_or_date (base D) nr t w (dm_conv flags)") auto
  have "valid_DATE v \<or> valid_DATETIME v" if "\<not> rc"
    using c that date_lawsD(2) [OF assms(1) _ _ assms(2)]
    by (auto simp: to_datetime_or_date_def split: if_splits prod.splits)
  then show ?thesis by (auto simp: u_def mk_Temporal_with_date_Sec6_def c twd_ok_def)
qed

lemma mk_Temporal_with_date_str_ok:
  fixes t :: MYSQL_TIME and st :: Warn and s :: bytes and flags :: date_mode_t
  assumes "date_laws D"
  defines "u \<equiv> fst (mk_Temporal_with_date_str D t st s flags)"
  shows "twd_ok u"
  using date_lawsD(7) [OF assms(1), of s t st flags]
  by (auto simp: u_def mk_Temporal_with_date_str_def twd_ok_def split: prod.splits)

lemma mk_Datetime_Sec6_ok:
  assumes "date_laws D" "m_usec nr \<le> TIME_MAX_SECOND_PART"
  shows "datetime_ok (fst (mk_Datetime_Sec6 D t w nr flags))"
  using datetime_ok_of [OF mk_Temporal_with_date_Sec6_ok [OF assms, of t w flags]]
  by (simp add: mk_Datetime_Sec6_def case_prod_beta)

lemma mk_Datetime_Sec9_ok:
  assumes "date_laws D" "m_usec nr \<le> TIME_MAX_SECOND_PART"
  shows "datetime_ok (fst (mk_Datetime_Sec9 D t w nr flags))"
proof -
  obtain v w' where e: "mk_Datetime_Sec6 D t w (sec6_of nr) flags = (v, w')" by fastforce
  have "datetime_ok v"
    using mk_Datetime_Sec6_ok [OF assms(1), of "sec6_of nr" t w flags] assms(2) e by (simp add: sec6_of_def)
  then show ?thesis
    using date_lawsD(12) [OF assms(1)] by (auto simp: mk_Datetime_Sec9_def e datetime_ok_def is_valid_datetime_def)
qed

lemma mk_Datetime_str_ok:
  assumes "date_laws D"
  shows "datetime_ok (fst (mk_Datetime_str D t st s flags))"
  using datetime_ok_of [OF mk_Temporal_with_date_str_ok [OF assms, of t st s flags]]
  by (auto simp: mk_Datetime_str_def split: prod.splits)

text \<open>
  The objects of the three classes with a date: what the constructors whose code is in the header make, each
  from an object with any content, and what the modifying operations make of an object. Decimals are at most
  6 and a number has at most 999999 microseconds, as its constructors see to. A \<open>Date\<close> is made of another
  object only when that is not undefined, which is asserted.
\<close>

datatype temporal_class = Temporal_with_date_class | Date_class | Datetime_class

inductive temporal_object :: "date_lib \<Rightarrow> temporal_class \<Rightarrow> MYSQL_TIME \<Rightarrow> bool" for D where
  twd_none: "temporal_object D Temporal_with_date_class (mk_Temporal_with_date t)"
| twd_item: "temporal_object D Temporal_with_date_class (mk_Temporal_with_date_item D t item flags)"
| twd_Sec6: "m_usec (nr :: Sec6) \<le> TIME_MAX_SECOND_PART \<Longrightarrow>
    temporal_object D Temporal_with_date_class (fst (mk_Temporal_with_date_Sec6 D t w nr flags))"
| twd_str: "temporal_object D Temporal_with_date_class (fst (mk_Temporal_with_date_str D t st s flags))"
| d_item: "temporal_object D Date_class (mk_Date_item D t item flags)"
| d_copy: "temporal_object D c d \<Longrightarrow> time_type d \<in> {MYSQL_TIMESTAMP_DATE, MYSQL_TIMESTAMP_DATETIME} \<Longrightarrow>
    temporal_object D Date_class (mk_Date d)"
| dt_none: "temporal_object D Datetime_class (mk_Temporal_with_date t)"
| dt_item: "temporal_object D Datetime_class (mk_Datetime_item D t item flags)"
| dt_str: "temporal_object D Datetime_class (fst (mk_Datetime_str D t st s flags))"
| dt_Sec6: "m_usec (nr :: Sec6) \<le> TIME_MAX_SECOND_PART \<Longrightarrow>
    temporal_object D Datetime_class (fst (mk_Datetime_Sec6 D t w nr flags))"
| dt_Sec9: "m_usec nr \<le> TIME_MAX_SECOND_PART \<Longrightarrow> temporal_object D Datetime_class (fst (mk_Datetime_Sec9 D t w nr flags))"
| dt_longlong: "temporal_object D Datetime_class (fst (mk_Datetime_longlong D t w n flags))"
| dt_item_dec: "dec \<le> TIME_SECOND_PART_DIGITS \<Longrightarrow> temporal_object D Datetime_class (mk_Datetime_item_dec D t item flags dec)"
| dt_str_dec: "dec \<le> TIME_SECOND_PART_DIGITS \<Longrightarrow>
    temporal_object D Datetime_class (fst (mk_Datetime_str_dec D t st s flags dec))"
| dt_Sec9_dec: "m_usec nr \<le> TIME_MAX_SECOND_PART \<Longrightarrow> dec \<le> TIME_SECOND_PART_DIGITS \<Longrightarrow>
    temporal_object D Datetime_class (fst (mk_Datetime_Sec9_dec D t w nr flags dec))"
| dt_TIME_dec: "dec \<le> TIME_SECOND_PART_DIGITS \<Longrightarrow>
    temporal_object D Datetime_class (fst (mk_Datetime_TIME_dec D t w from flags dec))"
| dt_trunc: "temporal_object D Datetime_class t \<Longrightarrow> dec \<le> TIME_SECOND_PART_DIGITS \<Longrightarrow>
    temporal_object D Datetime_class (datetime_trunc D t dec)"
| dt_round: "temporal_object D Datetime_class t \<Longrightarrow> temporal_object D Datetime_class (fst (datetime_round D t dec w))"
| dt_round_mode: "temporal_object D Datetime_class t \<Longrightarrow> dec \<le> TIME_SECOND_PART_DIGITS \<Longrightarrow>
    temporal_object D Datetime_class (fst (datetime_round_mode D t dec mode w))"

definition class_ok :: "temporal_class \<Rightarrow> MYSQL_TIME \<Rightarrow> bool" where
  "class_ok c t = (case c of Temporal_with_date_class \<Rightarrow> twd_ok t | Date_class \<Rightarrow> date_ok t | Datetime_class \<Rightarrow> datetime_ok t)"

lemma class_ok_simps [simp]:
  "class_ok Temporal_with_date_class t = twd_ok t" "class_ok Date_class t = date_ok t" "class_ok Datetime_class t = datetime_ok t"
  by (simp_all add: class_ok_def)

lemma class_ok_twd: "class_ok c t \<Longrightarrow> twd_ok t"
  by (cases c) (auto simp: twd_ok_def date_ok_def datetime_ok_def)

lemma none_ok:
  "twd_ok (t\<lparr>time_type := MYSQL_TIMESTAMP_NONE\<rparr>)" "datetime_ok (t\<lparr>time_type := MYSQL_TIMESTAMP_NONE\<rparr>)"
  by (simp_all add: twd_ok_def datetime_ok_def)

lemma temporal_object_ok:
  assumes "date_laws D" "temporal_object D c t"
  shows "class_ok c t"
  using assms(2)
proof induction
  case (d_copy c d)
  then have "valid_DATE d \<or> valid_DATETIME d" using class_ok_twd [of c d] by (auto simp: twd_ok_def)
  then show ?case using valid_DATE_of by (simp add: mk_Date_def date_ok_def)
next
  case (dt_longlong t w n flags)
  then show ?case
    using mk_Datetime_Sec6_ok [OF assms(1), of "mk_Sec6 n" t w flags]
    by (simp add: mk_Datetime_longlong_def mk_Sec6_def s6_make_from_int_def time_limits)
next
  case (dt_str_dec dec t st s flags)
  then show ?case
    using mk_Datetime_str_ok [OF assms(1), of t st s flags] datetime_ok_round_mode [OF assms(1)]
    by (auto simp: mk_Datetime_str_dec_def case_prod_beta)
next
  case (dt_TIME_dec dec t w tm flags)
  then show ?case
    using date_lawsD(16) [OF assms(1)] datetime_ok_round_mode [OF assms(1)]
    by (auto simp: mk_Datetime_TIME_dec_def case_prod_beta)
next
  case (d_item t item flags)
  then show ?case
    using date_ok_of [OF date_lawsD(15) [OF assms(1)], of item t flags] by (simp add: mk_Date_item_def mk_Temporal_with_date_item_def Let_def)
qed (auto simp: mk_Temporal_with_date_def mk_Temporal_with_date_item_def mk_Datetime_item_def mk_Datetime_item_dec_def
       mk_Datetime_Sec9_dec_def none_ok case_prod_beta
     intro!: assms(1) date_lawsD(15) mk_Temporal_with_date_Sec6_ok mk_Temporal_with_date_str_ok mk_Datetime_str_ok
       mk_Datetime_Sec6_ok mk_Datetime_Sec9_ok datetime_ok_of datetime_ok_trunc datetime_ok_round datetime_ok_round_mode)

text \<open>
  C30. The class invariants of \<open>Temporal_with_date\<close>, \<open>Date\<close> and \<open>Datetime\<close>: every object that any sequence of the
  constructors of the header, from items, strings, numbers, other times and other objects, and of truncations
  and roundings makes is undefined, or a normalised \<open>DATETIME\<close> if it is a \<open>Datetime\<close>, a normalised \<open>DATE\<close> if it
  is a \<open>Date\<close>, one of both if it is a \<open>Temporal_with_date\<close>. A \<open>Date\<close> made of an object keeps year, month and
  day and has no time of day; it is undefined only if the item is, and then so is the \<open>Datetime\<close> of the item,
  which otherwise keeps every member.
\<close>
theorem datetime_class_invariant:
  assumes "date_laws D" "temporal_object D c t"
  shows "(case c of Datetime_class \<Rightarrow> time_type t = MYSQL_TIMESTAMP_NONE \<or> valid_DATETIME t
      | Date_class \<Rightarrow> time_type t = MYSQL_TIMESTAMP_NONE \<or> valid_DATE t
      | Temporal_with_date_class \<Rightarrow> time_type t = MYSQL_TIMESTAMP_NONE \<or> valid_DATE t \<or> valid_DATETIME t) \<and>
    (time_type t \<noteq> MYSQL_TIMESTAMP_NONE \<longrightarrow> valid_DATE (mk_Date t) \<and> hhmmssff_is_zero (mk_Date t) \<and>
       year (mk_Date t) = year t \<and> month (mk_Date t) = month t \<and> day (mk_Date t) = day t) \<and>
    (let u = mk_Temporal_with_date_item D v item flags; d = mk_Date_item D v item flags; dt = mk_Datetime_item D v item flags
     in (time_type d = MYSQL_TIMESTAMP_NONE \<longleftrightarrow> time_type u = MYSQL_TIMESTAMP_NONE) \<and>
        (time_type dt = MYSQL_TIMESTAMP_NONE \<longleftrightarrow> time_type u = MYSQL_TIMESTAMP_NONE) \<and>
        year d = year u \<and> month d = month u \<and> day d = day u \<and> (time_type u = MYSQL_TIMESTAMP_DATETIME \<longrightarrow> hhmmssff_is_zero d) \<and>
        dt = u\<lparr>time_type := time_type dt\<rparr>)"
proof (intro conjI)
  have ok: "class_ok c t" by (rule temporal_object_ok [OF assms])
  then show "case c of Datetime_class \<Rightarrow> time_type t = MYSQL_TIMESTAMP_NONE \<or> valid_DATETIME t
      | Date_class \<Rightarrow> time_type t = MYSQL_TIMESTAMP_NONE \<or> valid_DATE t
      | Temporal_with_date_class \<Rightarrow> time_type t = MYSQL_TIMESTAMP_NONE \<or> valid_DATE t \<or> valid_DATETIME t"
    by (cases c) (simp_all add: twd_ok_def date_ok_def datetime_ok_def)
  show "time_type t \<noteq> MYSQL_TIMESTAMP_NONE \<longrightarrow> valid_DATE (mk_Date t) \<and> hhmmssff_is_zero (mk_Date t) \<and>
       year (mk_Date t) = year t \<and> month (mk_Date t) = month t \<and> day (mk_Date t) = day t"
    using class_ok_twd [OF ok] valid_DATE_of [of t] by (auto simp: twd_ok_def mk_Date_def datetime_to_date_def)
next
  have "twd_ok (mk_Temporal_with_date_item D v item flags)"
    by (simp add: mk_Temporal_with_date_item_def date_lawsD(15) [OF assms(1)])
  then show "let u = mk_Temporal_with_date_item D v item flags; d = mk_Date_item D v item flags; dt = mk_Datetime_item D v item flags
     in (time_type d = MYSQL_TIMESTAMP_NONE \<longleftrightarrow> time_type u = MYSQL_TIMESTAMP_NONE) \<and>
        (time_type dt = MYSQL_TIMESTAMP_NONE \<longleftrightarrow> time_type u = MYSQL_TIMESTAMP_NONE) \<and>
        year d = year u \<and> month d = month u \<and> day d = day u \<and> (time_type u = MYSQL_TIMESTAMP_DATETIME \<longrightarrow> hhmmssff_is_zero d) \<and>
        dt = u\<lparr>time_type := time_type dt\<rparr>"
    by (auto simp: Let_def mk_Date_item_def mk_Datetime_item_def date_to_datetime_if_needed_def date_to_datetime_def
        datetime_to_date_def hhmmssff_is_zero_def)
qed

subsection \<open>A sample library\<close>

definition date_lib0 :: date_lib where
  "date_lib0 = \<lparr>
     base = time_lib0,
     current_date = zero_MYSQL_TIME,
     calc_time_diff_TIME = (\<lambda>t1 t2 s m. (False, zero_MYSQL_TIME\<lparr>time_type := MYSQL_TIMESTAMP_TIME\<rparr>)),
     str_to_time_cs = (\<lambda>s t st m. (True, t, st)),
     str_to_date_cs = (\<lambda>s t st m. (True, t, st)),
     time_round_or_set_max = (\<lambda>t dec w. (t, w)),
     time_round_or_set_max_nsec = (\<lambda>t dec w n. (t, w)),
     datetime_round_or_invalidate = (\<lambda>t dec w. (False, t, w)),
     datetime_round_or_invalidate_nsec = (\<lambda>t dec w n. (False, t, w)),
     timestamp_round_or_set_max = (\<lambda>tv dec w. (tv, w)),
     check_datetime_range = (\<lambda>t. \<not> valid_date_part t),
     calc_daynr = (\<lambda>y m d. y * 372 + m * 31 + d),
     calc_weekday = (\<lambda>d s. d mod 7),
     calc_week = (\<lambda>t b. (0, year t)),
     TIME_to_ulonglong_part = (\<lambda>tt t. 0),
     default_round_mode = TIME_FRAC_ROUND,
     make_from_item = (\<lambda>item t m. zero_MYSQL_TIME\<lparr>year := 2020, month := 2, day := 29, hour := 23, time_type := MYSQL_TIMESTAMP_DATETIME\<rparr>),
     mk_Datetime_TIME = (\<lambda>t w from m. (t\<lparr>time_type := MYSQL_TIMESTAMP_NONE\<rparr>, w))\<rparr>"

lemma number_to_time0_valid:
  assumes "number_to_time0 n s us mh t w = (0, u, w')"
  shows "is_valid_time_slow u \<and> hour u \<le> mh"
proof -
  have u: "u = zero_MYSQL_TIME\<lparr>neg := n, hour := ucast (s div 10000), minute := ucast (s div 100 mod 100),
      second := ucast (s mod 100), second_part := us, time_type := MYSQL_TIMESTAMP_TIME\<rparr>"
    and c: "\<not> s div 10000 > ucast mh" "has_valid_mmssff u"
    using assms by (auto simp: number_to_time0_def Let_def split: if_splits)
  have "unat (s div 10000) \<le> unat (ucast mh :: 64 word)"
    using c(1) by (simp add: word_le_nat_alt not_less)
  also have "unat (ucast mh :: 64 word) = unat mh"
    by (rule unat_ucast_small) (rule less_trans [OF unsigned_less [where 'a = nat]], simp)
  finally have le: "unat (s div 10000) \<le> unat mh" .
  then have "unat (s div 10000) < 2 ^ LENGTH(32)"
    using unsigned_less [of mh, where 'a = nat] by simp
  then have "unat (ucast (s div 10000) :: 32 word) = unat (s div 10000)"
    by (rule unat_ucast_small)
  then have "hour u \<le> mh" using le by (simp add: u word_le_nat_alt)
  then show ?thesis using c(2) by (simp add: u is_valid_time_slow_def has_zero_YYYYMMDD_def zero_MYSQL_TIME_def)
qed

lemma number_to_datetime0_valid:
  assumes "number_to_datetime0 s us t f w = (rc, u, w')" "rc \<noteq> -1"
  shows "valid_DATETIME u"
proof -
  have "has_valid_mmssff u \<and> hour u < 24 \<and> day u < 32 \<and> month u < 13 \<and> year u < 10000 \<and> \<not> neg u \<and>
      time_type u = MYSQL_TIMESTAMP_DATETIME"
    using assms by (auto simp: number_to_datetime0_def Let_def split: if_splits)
  then show ?thesis by (simp add: valid_DATETIME_def valid_date_part_def word_le_nat_alt word_less_nat_alt)
qed

lemma number_laws0: "number_laws time_lib0"
  unfolding number_laws_def
proof (intro conjI allI impI)
  show "log_10_law (log_10_int time_lib0)" by (rule log_10_law0)
qed (auto simp: time_lib0_def check_time_range0_def valid_TIME_def is_valid_time_slow_def has_zero_YYYYMMDD_def
      has_valid_mmssff_def time_hhmmssff_set_max_def split: if_splits dest: number_to_time0_valid number_to_datetime0_valid)

lemma date_laws0: "date_laws date_lib0"
proof -
  have "string_laws date_lib0" by (simp add: string_laws_def date_lib0_def)
  moreover have "method_laws date_lib0"
    by (simp add: method_laws_def date_lib0_def is_valid_time_slow_def has_zero_YYYYMMDD_def has_valid_mmssff_def
        zero_MYSQL_TIME_def datetime_ok_def twd_ok_def valid_DATETIME_def valid_date_part_def)
  ultimately show ?thesis using number_laws0 by (simp add: date_laws_def) (simp add: date_lib0_def)
qed

definition sample_Sec9 :: Sec9 where
  "sample_Sec9 = \<lparr>m_sec = 123456, m_usec = 7, m_neg = True, m_truncated = False, m_nsec = 0\<rparr>"

theorem time_class_invariant_witness:
  "time_ok (fst (mk_Time_Sec9 date_lib0 zero_MYSQL_TIME 0 sample_Sec9 (mk_Time_Options date_lib0)))"
  using time_class_invariant [OF date_laws0, of sample_Sec9 0 zero_MYSQL_TIME] by (simp add: sample_Sec9_def time_limits)

text \<open>The leap day of the item, as a \<open>Date\<close> made of a rounded \<open>Datetime\<close>.\<close>

theorem datetime_class_invariant_witness:
  "(let d = mk_Date (fst (datetime_round date_lib0 (mk_Datetime_item date_lib0 zero_MYSQL_TIME 1 (Date_mode 0)) 3 0))
    in valid_DATE d \<and> hhmmssff_is_zero d \<and> year d = 2020 \<and> month d = 2 \<and> day d = 29)"
proof -
  let ?t = "fst (datetime_round date_lib0 (mk_Datetime_item date_lib0 zero_MYSQL_TIME 1 (Date_mode 0)) 3 0)"
  have o: "temporal_object date_lib0 Datetime_class ?t" by (intro temporal_object.intros)
  have "?t = zero_MYSQL_TIME\<lparr>year := 2020, month := 2, day := 29, hour := 23, time_type := MYSQL_TIMESTAMP_DATETIME\<rparr>"
    by (simp add: datetime_round_def mk_Datetime_item_def mk_Temporal_with_date_item_def date_to_datetime_if_needed_def
        is_valid_datetime_def date_lib0_def)
  with datetime_class_invariant [OF date_laws0 o] show ?thesis by (simp add: Let_def)
qed

subsection \<open>Order of timestamps\<close>

text \<open>The zero datetime comes before every timestamp, and timestamps are ordered by seconds and microseconds.\<close>

definition tz_key :: "Timestamp_or_zero_datetime \<Rightarrow> (int \<times> int) option" where
  "tz_key z = (if m_is_zero_datetime z then None else Some (sint (tv_sec z), sint (tv_usec z)))"

lemma tz_cmp_key:
  "tz_cmp z y = (if tz_key z < tz_key y then -1 else if tz_key y < tz_key z then 1 else 0)"
  by (auto simp: tz_cmp_def tz_key_def timestamp_cmp_def timestamp_of_def word_sless_alt less_prod_def
      less_option_def)

lemma trunc_usec_mono: "a \<le> b \<Longrightarrow> trunc_usec d a \<le> trunc_usec d b"
  by (simp add: trunc_usec_def div_le_mono)

lemma tz_trunc_key:
  assumes "date_laws D" "timestamp_ok (timestamp_of z)" "dec \<le> TIME_SECOND_PART_DIGITS" "\<not> m_is_zero_datetime z"
  shows "tz_key (tz_trunc D z dec) = Some (sint (tv_sec z), int (trunc_usec (unat dec) (unat (tv_usec z))))"
    and "tz_key z = Some (sint (tv_sec z), int (unat (tv_usec z)))"
proof -
  have u: "unat (tv_usec z) < 1000000" using assms(2) by (simp add: timestamp_ok_def timestamp_of_def)
  let ?t = "timestamp_trunc D (timestamp_of z) dec"
  have t: "unat (tv_usec ?t) = trunc_usec (unat dec) (unat (tv_usec z))"
    using timestamp_trunc_usec [OF assms(1-3)] by (simp add: timestamp_of_def)
  have "unat (tv_usec ?t) < 2 ^ (LENGTH(32) - 1)"
    unfolding t using trunc_usec_le [of "unat dec" "unat (tv_usec z)"] u by simp
  then have "sint (tv_usec ?t) = int (trunc_usec (unat dec) (unat (tv_usec z)))"
    unfolding t [symmetric] by (rule sint_eq_unat)
  moreover have "tv_sec ?t = tv_sec z"
    by (simp add: timestamp_trunc_def my_timeval_trunc_def timestamp_of_def)
  ultimately show "tz_key (tz_trunc D z dec) = Some (sint (tv_sec z), int (trunc_usec (unat dec) (unat (tv_usec z))))"
    using assms(4) by (simp add: tz_key_def tz_trunc_def mk_Timestamp_or_zero_datetime_tm_def)
  have "sint (tv_usec z) = int (unat (tv_usec z))"
    using u by (intro sint_eq_unat) simp
  then show "tz_key z = Some (sint (tv_sec z), int (unat (tv_usec z)))"
    using assms(4) by (simp add: tz_key_def)
qed

text \<open>
  \<open>Timestamp_or_zero_datetime::cmp\<close> is a total order, the lexicographic one with the zero datetime first:
  it is reflexive, antisymmetric and transitive, and truncating both values to the same number of
  decimals never turns their order around.
\<close>
theorem timestamp_cmp_order:
  assumes "date_laws D" "timestamp_ok (timestamp_of z)" "timestamp_ok (timestamp_of y)" "dec \<le> TIME_SECOND_PART_DIGITS"
  shows "tz_cmp z y = (if tz_key z < tz_key y then -1 else if tz_key y < tz_key z then 1 else 0) \<and>
    tz_cmp z y = - tz_cmp y z \<and>
    (tz_cmp z y \<le> 0 \<and> tz_cmp y x \<le> 0 \<longrightarrow> tz_cmp z x \<le> 0) \<and>
    (tz_cmp z y \<le> 0 \<longrightarrow> tz_cmp (tz_trunc D z dec) (tz_trunc D y dec) \<le> 0)"
proof (intro conjI impI)
  show "tz_cmp z y = (if tz_key z < tz_key y then -1 else if tz_key y < tz_key z then 1 else 0)" by (rule tz_cmp_key)
  show "tz_cmp z y = - tz_cmp y z" by (auto simp: tz_cmp_key)
  have le: "tz_cmp a b \<le> 0 \<longleftrightarrow> tz_key a \<le> tz_key b" for a b by (auto simp: tz_cmp_key not_less)
  show "tz_cmp z x \<le> 0" if "tz_cmp z y \<le> 0 \<and> tz_cmp y x \<le> 0" using that unfolding le by force
  show "tz_cmp (tz_trunc D z dec) (tz_trunc D y dec) \<le> 0" if "tz_cmp z y \<le> 0"
  proof (cases "m_is_zero_datetime z \<or> m_is_zero_datetime y")
    case True
    then show ?thesis
      using that by (auto simp: tz_cmp_def tz_trunc_def mk_Timestamp_or_zero_datetime_tm_def split: if_splits)
  next
    case False
    note kz = tz_trunc_key [OF assms(1,2,4)] and ky = tz_trunc_key [OF assms(1,3,4)]
    have "tz_key z \<le> tz_key y" using that unfolding le .
    then show ?thesis
      unfolding le using False
      by (auto simp: kz ky less_eq_prod_def word_le_nat_alt [symmetric] word_le_def [symmetric] intro!: trunc_usec_mono)
  qed
qed

theorem timestamp_cmp_order_witness:
  "tz_cmp (tz_trunc date_lib0 (mk_Timestamp_or_zero_datetime_tm \<lparr>tv_sec = -1, tv_usec = 999999\<rparr> False) 3)
          (tz_trunc date_lib0 (mk_Timestamp_or_zero_datetime_tm \<lparr>tv_sec = 0, tv_usec = 5\<rparr> False) 3) \<le> 0"
  using timestamp_cmp_order [OF date_laws0, of "mk_Timestamp_or_zero_datetime_tm \<lparr>tv_sec = -1, tv_usec = 999999\<rparr> False"
      "mk_Timestamp_or_zero_datetime_tm \<lparr>tv_sec = 0, tv_usec = 5\<rparr> False" 3]
  by (simp add: timestamp_ok_def timestamp_of_def mk_Timestamp_or_zero_datetime_tm_def tz_key_def less_prod_def
      time_limits)

subsection \<open>Seconds to \<open>TIME\<close> and back\<close>

lemma TIME_MAX_VALUE_SECONDS_value: "TIME_MAX_VALUE_SECONDS = 3020399"
  by (simp add: time_limits)

lemma to_seconds_abs_unat:
  assumes "valid_TIME t"
  shows "unat (to_seconds_abs t) = unat (hour t) * 3600 + unat (minute t) * 60 + unat (second t)"
proof -
  have v: "unat (hour t) \<le> 838" "unat (minute t) < 60" "unat (second t) < 60"
    using assms by (auto simp: valid_TIME_def is_valid_time_slow_def has_valid_mmssff_unat word_le_nat_alt TIME_MAX_HOUR_def)
  have "unat (hour t * 3600 + minute t * 60 + second t :: 32 word) =
        unat (hour t) * 3600 + unat (minute t) * 60 + unat (second t)"
    using v by (simp add: unat_word_ariths)
  moreover have "unat (ucast (hour t * 3600 + minute t * 60 + second t :: 32 word) :: 64 word) =
        unat (hour t * 3600 + minute t * 60 + second t :: 32 word)"
    by (rule unat_ucast_small) (rule less_trans [OF unsigned_less [where 'a = nat]], simp)
  ultimately show ?thesis by (simp only: to_seconds_abs_def)
qed

lemma sint_to_seconds:
  assumes "valid_TIME t"
  shows "sint (to_seconds t) = sg t * int (unat (hour t) * 3600 + unat (minute t) * 60 + unat (second t))"
proof -
  let ?n = "unat (hour t) * 3600 + unat (minute t) * 60 + unat (second t)"
  have v: "unat (hour t) \<le> 838" "unat (minute t) < 60" "unat (second t) < 60"
    using assms by (auto simp: valid_TIME_def is_valid_time_slow_def has_valid_mmssff_unat word_le_nat_alt TIME_MAX_HOUR_def)
  have "to_seconds_abs t = word_of_nat (unat (to_seconds_abs t))" by simp
  then have "to_seconds_abs t = word_of_nat ?n" unfolding to_seconds_abs_unat [OF assms] .
  then have "to_seconds t = word_of_int (sg t * int ?n)"
    by (simp add: to_seconds_def sg_def)
  moreover have "\<bar>sg t * int ?n\<bar> < 2 ^ (LENGTH(64) - 1)"
    using v by (intro abs_sg_bound) simp
  ultimately show ?thesis by (simp only: sint_word_of_int)
qed

text \<open>
  \<open>SEC_TO_TIME\<close>: a number of seconds within the range of \<open>TIME\<close> becomes the time whose \<open>to_seconds\<close> is that
  number with its sign, with the same microseconds; a larger number is reported and replaced by a value
  in the range.
\<close>
theorem sec_to_time_roundtrip:
  assumes "number_laws L" "m_usec s \<le> TIME_MAX_SECOND_PART" "sec_to_time L s lt dec = (rc, t)"
  shows "valid_TIME t \<and> (rc \<longleftrightarrow> m_sec s > TIME_MAX_VALUE_SECONDS) \<and>
    (\<not> rc \<longrightarrow> sint (to_seconds t) = (if m_neg s then -1 else 1) * int (unat (m_sec s)) \<and>
       second_part t = m_usec s \<and> neg t = m_neg s)"
proof -
  have z: "set_zero_time L lt MYSQL_TIMESTAMP_TIME = zero_MYSQL_TIME\<lparr>time_type := MYSQL_TIMESTAMP_TIME\<rparr>"
    using assms(1) by (simp add: number_laws_def)
  let ?z = "zero_MYSQL_TIME\<lparr>time_type := MYSQL_TIMESTAMP_TIME, neg := m_neg s\<rparr>"
  show ?thesis
  proof (cases "m_sec s > TIME_MAX_VALUE_SECONDS")
    case True
    obtain r u w where c: "check_time_range L (?z\<lparr>hour := TIME_MAX_HOUR + 1\<rparr>) dec 0 = (r, u, w)"
      by (cases "check_time_range L (?z\<lparr>hour := TIME_MAX_HOUR + 1\<rparr>) dec 0") auto
    have "is_valid_time_slow (?z\<lparr>hour := TIME_MAX_HOUR + 1\<rparr>)"
      by (simp add: is_valid_time_slow_def has_zero_YYYYMMDD_def has_valid_mmssff_def zero_MYSQL_TIME_def)
    then have "valid_TIME u" using assms(1) c unfolding number_laws_def by blast
    then show ?thesis using True assms(3) c by (simp add: sec_to_time_def z Let_def)
  next
    case False
    let ?S = "unat (m_sec s)"
    have S: "?S \<le> 3020399" using False by (simp add: TIME_MAX_VALUE_SECONDS_value word_le_nat_alt not_less)
    have t: "rc = False" "t = ?z\<lparr>hour := ucast (m_sec s div 3600), minute := ucast (m_sec s mod 3600) div 60,
        second := ucast (m_sec s) mod 60, second_part := m_usec s\<rparr>"
      using False assms(3) by (simp_all add: sec_to_time_def z)
    have "unat (ucast (m_sec s div 3600) :: 32 word) = ?S div 3600"
         "unat (ucast (m_sec s mod 3600) :: 32 word) = ?S mod 3600"
         "unat (ucast (m_sec s) :: 32 word) = ?S"
      using S by (subst unat_ucast_small; simp add: unat_div unat_mod)+
    then have u: "unat (hour t) = ?S div 3600" "unat (minute t) = ?S mod 3600 div 60" "unat (second t) = ?S mod 60"
      by (simp_all add: t unat_div unat_mod)
    have "unat (hour t) \<le> 838" using S u(1) by simp
    moreover have "has_valid_mmssff t"
      using u assms(2) by (simp add: has_valid_mmssff_unat) (simp add: t time_limits word_le_nat_alt)
    ultimately have v: "valid_TIME t"
      by (simp add: valid_TIME_def is_valid_time_slow_def word_le_nat_alt TIME_MAX_HOUR_def)
        (simp add: t has_zero_YYYYMMDD_def zero_MYSQL_TIME_def)
    have "?S div 3600 * 3600 + ?S mod 3600 div 60 * 60 + ?S mod 60 = ?S"
      using hms_of_seconds [of ?S] by simp
    then have "sint (to_seconds t) = sg t * int ?S"
      by (simp only: sint_to_seconds [OF v] u)
    then show ?thesis using v False t(1) by (simp add: sg_def) (simp add: t)
  qed
qed

theorem sec_to_time_roundtrip_witness:
  "sint (to_seconds (snd (sec_to_time time_lib0 sample_Sec9 zero_MYSQL_TIME 6))) = -123456"
  using sec_to_time_roundtrip [OF number_laws0, of sample_Sec9 zero_MYSQL_TIME 6 False
      "snd (sec_to_time time_lib0 sample_Sec9 zero_MYSQL_TIME 6)"]
  by (simp add: sample_Sec9_def TIME_MAX_VALUE_SECONDS_value sec_to_time_def TIME_MAX_SECOND_PART_def)

end
