(* ===== verification/LexStream.thy ===== *)
theory LexStream
  imports Prelude
begin

text \<open>
  \<open>Lex_input_stream\<close> of \<open>sql_lex.h\<close>: the character input of the SQL lexer. The raw query text and the
  pre-processed text without special comments are byte arrays; a \<open>char *\<close> into one of them is the
  offset from its start. An access outside an array, or a pointer moved outside of it, is \<^term>\<open>None\<close>.
  \<open>my_isspace\<close> of the system character set is a parameter.
\<close>

subsection \<open>State\<close>

text \<open>The members no operation of the header reads (line counter, digest, statement modes) are left out.\<close>

datatype enum_comment_state = NO_COMMENT | PRESERVE_COMMENT | DISCARD_COMMENT

record Lex_input_stream =
  m_buf :: bytes
  m_ptr :: nat
  m_tok_start :: nat
  m_tok_end :: nat
  m_end_of_query :: nat
  m_tok_start_prev :: nat
  m_echo :: bool
  m_echo_saved :: bool
  m_cpp_buf :: bytes
  m_cpp_ptr :: nat
  m_cpp_tok_start :: nat
  m_cpp_tok_start_prev :: nat
  m_cpp_tok_end :: nat
  m_body_utf8 :: bytes
  m_body_utf8_ptr :: nat
  lookahead_token :: int
  in_comment :: enum_comment_state
  in_comment_saved :: enum_comment_state

text \<open>\<open>p + n\<close> for a pointer into an array of the given length.\<close>

definition ptr_move :: "nat \<Rightarrow> nat \<Rightarrow> int \<Rightarrow> nat option" where
  "ptr_move len p n = (let q = int p + n in if 0 \<le> q \<and> q \<le> int len then Some (nat q) else None)"

subsection \<open>Operations\<close>

definition set_echo :: "bool \<Rightarrow> Lex_input_stream \<Rightarrow> Lex_input_stream" where
  "set_echo echo s = s\<lparr>m_echo := echo\<rparr>"

definition save_in_comment_state :: "Lex_input_stream \<Rightarrow> Lex_input_stream" where
  "save_in_comment_state s = s\<lparr>m_echo_saved := m_echo s, in_comment_saved := in_comment s\<rparr>"

definition restore_in_comment_state :: "Lex_input_stream \<Rightarrow> Lex_input_stream" where
  "restore_in_comment_state s = s\<lparr>m_echo := m_echo_saved s, in_comment := in_comment_saved s\<rparr>"

text \<open>\<open>if (m_echo) { memcpy(m_cpp_ptr, m_ptr, n); m_cpp_ptr+= n; }\<close>; a negative size is a huge one.\<close>

definition echo_bytes :: "int \<Rightarrow> Lex_input_stream \<Rightarrow> Lex_input_stream option" where
  "echo_bytes n s =
     (if m_echo s
      then if n < 0 then None
           else Option.bind (arr_slice (m_buf s) (m_ptr s) (nat n)) (\<lambda>cs.
                map_option (\<lambda>cpp. s\<lparr>m_cpp_buf := cpp, m_cpp_ptr := m_cpp_ptr s + nat n\<rparr>)
                  (arr_blit (m_cpp_buf s) (m_cpp_ptr s) cs))
      else Some s)"

definition skip_binary :: "int \<Rightarrow> Lex_input_stream \<Rightarrow> Lex_input_stream option" where
  "skip_binary n s =
     Option.bind (echo_bytes n s) (\<lambda>s. map_option (\<lambda>p. s\<lparr>m_ptr := p\<rparr>) (ptr_move (length (m_buf s)) (m_ptr s) n))"

definition yyGet :: "Lex_input_stream \<Rightarrow> (uchar \<times> Lex_input_stream) option" where
  "yyGet s =
     Option.bind (arr_get (m_buf s) (m_ptr s)) (\<lambda>c.
       let s = s\<lparr>m_ptr := m_ptr s + 1\<rparr>
       in if m_echo s
          then map_option (\<lambda>cpp. (c, s\<lparr>m_cpp_buf := cpp, m_cpp_ptr := m_cpp_ptr s + 1\<rparr>))
                 (arr_set (m_cpp_buf s) (m_cpp_ptr s) c)
          else Some (c, s))"

definition yyPeekn :: "int \<Rightarrow> Lex_input_stream \<Rightarrow> uchar option" where
  "yyPeekn n s = Option.bind (ptr_move (length (m_buf s)) (m_ptr s) n) (arr_get (m_buf s))"

definition yyGetLast :: "Lex_input_stream \<Rightarrow> uchar option" where
  "yyGetLast s = yyPeekn (-1) s"

definition yyPeek :: "Lex_input_stream \<Rightarrow> uchar option" where
  "yyPeek s = arr_get (m_buf s) (m_ptr s)"

definition cpp_back :: "Lex_input_stream \<Rightarrow> Lex_input_stream option" where
  "cpp_back s =
     (if m_echo s
      then map_option (\<lambda>q. s\<lparr>m_cpp_ptr := q\<rparr>) (ptr_move (length (m_cpp_buf s)) (m_cpp_ptr s) (-1))
      else Some s)"

definition yyUnget :: "Lex_input_stream \<Rightarrow> Lex_input_stream option" where
  "yyUnget s =
     Option.bind (ptr_move (length (m_buf s)) (m_ptr s) (-1)) (\<lambda>p. cpp_back (s\<lparr>m_ptr := p\<rparr>))"

definition yySkip :: "Lex_input_stream \<Rightarrow> Lex_input_stream option" where
  "yySkip s =
     (if m_echo s
      then Option.bind (arr_get (m_buf s) (m_ptr s)) (\<lambda>c.
           map_option (\<lambda>cpp. s\<lparr>m_cpp_buf := cpp, m_cpp_ptr := m_cpp_ptr s + 1, m_ptr := m_ptr s + 1\<rparr>)
             (arr_set (m_cpp_buf s) (m_cpp_ptr s) c))
      else map_option (\<lambda>p. s\<lparr>m_ptr := p\<rparr>) (ptr_move (length (m_buf s)) (m_ptr s) 1))"

definition yySkipn :: "int \<Rightarrow> Lex_input_stream \<Rightarrow> Lex_input_stream option" where
  "yySkipn n s =
     Option.bind (echo_bytes n s) (\<lambda>s. map_option (\<lambda>p. s\<lparr>m_ptr := p\<rparr>) (ptr_move (length (m_buf s)) (m_ptr s) n))"

definition yyUnput :: "uchar \<Rightarrow> Lex_input_stream \<Rightarrow> (nat \<times> Lex_input_stream) option" where
  "yyUnput ch s =
     Option.bind (ptr_move (length (m_buf s)) (m_ptr s) (-1)) (\<lambda>p.
     Option.bind (arr_set (m_buf s) p ch) (\<lambda>raw.
     map_option (\<lambda>s. (m_ptr s, s)) (cpp_back (s\<lparr>m_ptr := p, m_buf := raw\<rparr>))))"

text \<open>The comparison of \<open>m_ptr + n\<close> with the end of the query, as one of addresses.\<close>

definition eof_n :: "int \<Rightarrow> Lex_input_stream \<Rightarrow> bool" where
  "eof_n n s \<longleftrightarrow> int (m_ptr s) + n \<ge> int (m_end_of_query s)"

definition start_token :: "Lex_input_stream \<Rightarrow> Lex_input_stream" where
  "start_token s =
     (let s = s\<lparr>m_tok_start_prev := m_tok_start s\<rparr>;
          s = s\<lparr>m_tok_start := m_ptr s, m_tok_end := m_ptr s\<rparr>;
          s = s\<lparr>m_cpp_tok_start_prev := m_cpp_tok_start s\<rparr>
      in s\<lparr>m_cpp_tok_start := m_cpp_ptr s, m_cpp_tok_end := m_cpp_ptr s\<rparr>)"

definition restart_token :: "Lex_input_stream \<Rightarrow> Lex_input_stream" where
  "restart_token s = s\<lparr>m_tok_start := m_ptr s, m_cpp_tok_start := m_cpp_ptr s\<rparr>"

definition yyLength :: "Lex_input_stream \<Rightarrow> uint" where
  "yyLength s = word_of_int (int (m_ptr s) - int (m_tok_start s) - 1)"

definition has_lookahead :: "Lex_input_stream \<Rightarrow> bool" where
  "has_lookahead s \<longleftrightarrow> lookahead_token s \<ge> 0"

definition lex_eof :: "Lex_input_stream \<Rightarrow> bool" where
  "lex_eof s \<longleftrightarrow> m_ptr s \<ge> m_end_of_query s"

definition get_tok_start :: "Lex_input_stream \<Rightarrow> nat" where
  "get_tok_start s = (if has_lookahead s then m_tok_start_prev s else m_tok_start s)"

definition set_cpp_tok_start :: "nat \<Rightarrow> Lex_input_stream \<Rightarrow> Lex_input_stream" where
  "set_cpp_tok_start pos s = s\<lparr>m_cpp_tok_start := pos\<rparr>"

definition get_cpp_tok_start :: "Lex_input_stream \<Rightarrow> nat" where
  "get_cpp_tok_start s = (if has_lookahead s then m_cpp_tok_start_prev s else m_cpp_tok_start s)"

text \<open>The loop of the two \<open>rtrim\<close> functions.\<close>

fun rtrim_loop :: "(uchar \<Rightarrow> bool) \<Rightarrow> bytes \<Rightarrow> nat \<Rightarrow> nat option" where
  "rtrim_loop my_isspace cpp 0 = Some 0"
| "rtrim_loop my_isspace cpp (Suc p) =
     Option.bind (arr_get cpp p) (\<lambda>c. if my_isspace c then rtrim_loop my_isspace cpp p else Some (Suc p))"

definition get_cpp_tok_end_rtrim :: "(uchar \<Rightarrow> bool) \<Rightarrow> Lex_input_stream \<Rightarrow> nat option" where
  "get_cpp_tok_end_rtrim my_isspace s = rtrim_loop my_isspace (m_cpp_buf s) (m_cpp_tok_end s)"

definition get_cpp_ptr_rtrim :: "(uchar \<Rightarrow> bool) \<Rightarrow> Lex_input_stream \<Rightarrow> nat option" where
  "get_cpp_ptr_rtrim my_isspace s = rtrim_loop my_isspace (m_cpp_buf s) (m_cpp_ptr s)"

definition get_body_utf8_length :: "Lex_input_stream \<Rightarrow> nat" where
  "get_body_utf8_length s = m_body_utf8_ptr s"

subsection \<open>The protocol of the lexer\<close>

text \<open>
  The comments on \<open>yyUnget\<close> and \<open>yyUnput\<close> require that the echo mode does not change between the call that
  accepted a character and the call that gives it back. The number of characters accepted since the
  last change of the echo mode is the second component of a state of the protocol.
\<close>

inductive lex_step :: "Lex_input_stream \<times> nat \<Rightarrow> Lex_input_stream \<times> nat \<Rightarrow> bool" where
  get: "yyGet s = Some (c, s') \<Longrightarrow> lex_step (s, k) (s', k + 1)"
| skip: "yySkip s = Some s' \<Longrightarrow> lex_step (s, k) (s', k + 1)"
| skipn: "yySkipn (int n) s = Some s' \<Longrightarrow> lex_step (s, k) (s', k + n)"
| unget: "0 < k \<Longrightarrow> yyUnget s = Some s' \<Longrightarrow> lex_step (s, k) (s', k - 1)"
| unput: "0 < k \<Longrightarrow> yyUnput c s = Some (p, s') \<Longrightarrow> lex_step (s, k) (s', k - 1)"
| echo: "lex_step (s, k) (set_echo b s, if b = m_echo s then k else 0)"
| save: "lex_step (s, k) (save_in_comment_state s, k)"
| restore: "lex_step (s, k) (restore_in_comment_state s, if m_echo_saved s = m_echo s then k else 0)"
| start: "lex_step (s, k) (start_token s, k)"
| restart: "lex_step (s, k) (restart_token s, k)"

text \<open>The state \<open>init\<close> leaves: both streams at their start, and room for the whole text in the second.\<close>

definition lex_start :: "Lex_input_stream \<Rightarrow> bool" where
  "lex_start s \<longleftrightarrow> m_ptr s = 0 \<and> m_cpp_ptr s = 0 \<and> length (m_buf s) \<le> length (m_cpp_buf s)"

fun lex_inv :: "Lex_input_stream \<times> nat \<Rightarrow> bool" where
  "lex_inv (s, k) \<longleftrightarrow>
     m_ptr s \<le> length (m_buf s) \<and> k \<le> m_ptr s \<and> (m_echo s \<longrightarrow> k \<le> m_cpp_ptr s) \<and>
     m_cpp_ptr s + (length (m_buf s) - m_ptr s) + (if m_echo s then 0 else k) \<le> length (m_cpp_buf s)"

inductive_cases lex_stepE: "lex_step (s, k) t"

subsection \<open>What the operations do\<close>

lemma ptr_move_Some_iff: "ptr_move len p n = Some q \<longleftrightarrow> int q = int p + n \<and> q \<le> len"
  by (auto simp: ptr_move_def Let_def)

lemma ptr_move_back [simp]: "0 < p \<Longrightarrow> p \<le> len \<Longrightarrow> ptr_move len p (-1) = Some (p - 1)"
  by (simp add: ptr_move_Some_iff)

lemma ptr_move_forward [simp]: "p + n \<le> len \<Longrightarrow> ptr_move len p (int n) = Some (p + n)"
  by (simp add: ptr_move_Some_iff)

lemma ptr_move_1 [simp]: "p < len \<Longrightarrow> ptr_move len p 1 = Some (Suc p)"
  by (simp add: ptr_move_Some_iff)

lemma yyGet_eq:
  "yyGet s = (if m_ptr s < length (m_buf s) \<and> (m_echo s \<longrightarrow> m_cpp_ptr s < length (m_cpp_buf s))
     then let c = m_buf s ! m_ptr s
          in Some (c, if m_echo s then s\<lparr>m_ptr := m_ptr s + 1, m_cpp_buf := (m_cpp_buf s)[m_cpp_ptr s := c],
                                        m_cpp_ptr := m_cpp_ptr s + 1\<rparr>
                      else s\<lparr>m_ptr := m_ptr s + 1\<rparr>)
     else None)"
  by (simp add: yyGet_def arr_get_def arr_set_def Let_def)

lemma yySkip_eq: "yySkip s = map_option snd (yyGet s)"
  by (auto simp: yySkip_def yyGet_eq arr_get_def arr_set_def Let_def ptr_move_def)

lemma echo_bytes_eq:
  "echo_bytes (int n) s = (if m_echo s
     then if m_ptr s + n \<le> length (m_buf s) \<and> m_cpp_ptr s + n \<le> length (m_cpp_buf s)
          then Some (s\<lparr>m_cpp_buf := take (m_cpp_ptr s) (m_cpp_buf s) @ take n (drop (m_ptr s) (m_buf s))
                                    @ drop (m_cpp_ptr s + n) (m_cpp_buf s),
                      m_cpp_ptr := m_cpp_ptr s + n\<rparr>)
          else None
     else Some s)"
  by (cases "m_ptr s + n \<le> length (m_buf s)") (auto simp: echo_bytes_def arr_slice_def arr_blit_def)

lemma yySkipn_eq:
  "yySkipn (int n) s = (if m_ptr s + n \<le> length (m_buf s) \<and> (m_echo s \<longrightarrow> m_cpp_ptr s + n \<le> length (m_cpp_buf s))
     then Some (if m_echo s
       then s\<lparr>m_cpp_buf := take (m_cpp_ptr s) (m_cpp_buf s) @ take n (drop (m_ptr s) (m_buf s))
                           @ drop (m_cpp_ptr s + n) (m_cpp_buf s),
              m_cpp_ptr := m_cpp_ptr s + n, m_ptr := m_ptr s + n\<rparr>
       else s\<lparr>m_ptr := m_ptr s + n\<rparr>)
     else None)"
  by (auto simp: yySkipn_def echo_bytes_eq ptr_move_def Let_def)

lemma cpp_back_eq:
  assumes "m_cpp_ptr s \<le> length (m_cpp_buf s)"
  shows "cpp_back s = (if m_echo s then if 0 < m_cpp_ptr s then Some (s\<lparr>m_cpp_ptr := m_cpp_ptr s - 1\<rparr>) else None
     else Some s)"
  using assms by (auto simp: cpp_back_def ptr_move_def)

lemma yyUnget_eq:
  assumes "lex_inv (s, k)" "0 < k"
  shows "yyUnget s = Some (if m_echo s then s\<lparr>m_ptr := m_ptr s - 1, m_cpp_ptr := m_cpp_ptr s - 1\<rparr>
     else s\<lparr>m_ptr := m_ptr s - 1\<rparr>)"
  using assms by (auto simp: yyUnget_def cpp_back_eq split: if_splits)

lemma yyUnput_eq:
  assumes "lex_inv (s, k)" "0 < k"
  shows "yyUnput c s = Some (m_ptr s - 1,
     if m_echo s then s\<lparr>m_ptr := m_ptr s - 1, m_buf := (m_buf s)[m_ptr s - 1 := c], m_cpp_ptr := m_cpp_ptr s - 1\<rparr>
     else s\<lparr>m_ptr := m_ptr s - 1, m_buf := (m_buf s)[m_ptr s - 1 := c]\<rparr>)"
  using assms by (auto simp: yyUnput_def cpp_back_eq split: if_splits)

lemma lex_inv_step:
  assumes "lex_step (s, k) (s', k')" "lex_inv (s, k)"
  shows "lex_inv (s', k')"
  using assms(1)
proof (cases rule: lex_step.cases)
  case (unget)
  then show ?thesis using assms(2) by (auto simp: yyUnget_eq [OF assms(2)] split: if_splits)
next
  case (unput c p)
  then show ?thesis using assms(2) by (auto simp: yyUnput_eq [OF assms(2)] split: if_splits)
qed (use assms(2) in \<open>auto simp: yySkip_eq yyGet_eq yySkipn_eq set_echo_def restore_in_comment_state_def
       save_in_comment_state_def start_token_def restart_token_def Let_def split: if_splits\<close>)

lemma lex_inv_reachable:
  assumes "lex_step\<^sup>*\<^sup>* (s, k) (s', k')" "lex_inv (s, k)"
  shows "lex_inv (s', k')"
  using assms
proof (induction rule: rtranclp_induct2)
  case refl
  then show ?case .
next
  case (step a b c d)
  then show ?case using lex_inv_step by blast
qed

lemma lex_start_inv: "lex_start s \<Longrightarrow> lex_inv (s, 0)"
  by (simp add: lex_start_def)

text \<open>
  Memory safety of the two-buffer stream: in every state the lexer reaches from the initial one by any
  sequence of operations that follows the protocol, a character can be accepted as long as there is
  one, any run of available characters can be skipped, and every accepted character can be given back;
  none of these operations leaves the raw or the pre-processed buffer.
\<close>
theorem lex_stream_memory_safe:
  assumes "lex_start s0" "lex_step\<^sup>*\<^sup>* (s0, 0) (s, k)"
  shows "(m_ptr s < length (m_buf s) \<longrightarrow> yyGet s \<noteq> None \<and> yySkip s \<noteq> None) \<and>
    (\<forall>n. m_ptr s + n \<le> length (m_buf s) \<longrightarrow> yySkipn (int n) s \<noteq> None \<and> skip_binary (int n) s \<noteq> None) \<and>
    (0 < k \<longrightarrow> yyUnget s \<noteq> None \<and> (\<forall>c. yyUnput c s \<noteq> None))"
proof -
  have i: "lex_inv (s, k)" using lex_inv_reachable [OF assms(2)] lex_start_inv [OF assms(1)] by blast
  have "skip_binary (int n) s = yySkipn (int n) s" for n by (simp add: skip_binary_def yySkipn_def)
  then show ?thesis
    using i by (auto simp: yySkip_eq yyGet_eq yySkipn_eq yyUnget_eq [OF i] yyUnput_eq [OF i] Let_def)
qed

definition sample_stream :: "bytes \<Rightarrow> Lex_input_stream" where
  "sample_stream cs = \<lparr>m_buf = cs, m_ptr = 0, m_tok_start = 0, m_tok_end = 0, m_end_of_query = length cs,
     m_tok_start_prev = 0, m_echo = True, m_echo_saved = False, m_cpp_buf = replicate (length cs) 0, m_cpp_ptr = 0,
     m_cpp_tok_start = 0, m_cpp_tok_start_prev = 0, m_cpp_tok_end = 0, m_body_utf8 = [], m_body_utf8_ptr = 0,
     lookahead_token = -1, in_comment = NO_COMMENT, in_comment_saved = NO_COMMENT\<rparr>"

theorem lex_stream_memory_safe_witness:
  "\<exists>s. lex_step\<^sup>*\<^sup>* (sample_stream [97, 98], 0) (s, 1) \<and> yyUnget s \<noteq> None \<and> yyGet s \<noteq> None"
proof -
  obtain c s where g: "yyGet (sample_stream [97, 98]) = Some (c, s)" "m_ptr s = 1" "m_buf s = [97, 98]"
    by (simp add: yyGet_eq sample_stream_def Let_def)
  then have "lex_step\<^sup>*\<^sup>* (sample_stream [97, 98], 0) (s, 1)"
    using lex_step.get [OF g(1), of 0] by simp
  moreover have "lex_start (sample_stream [97, 98])" by (simp add: lex_start_def sample_stream_def)
  ultimately show ?thesis
    using lex_stream_memory_safe [of "sample_stream [97, 98]" s 1] g(2,3) by auto
qed

subsection \<open>The stream as two texts\<close>

text \<open>What a stream stands for: the accepted text, the text to come, the pre-processed text, the echo mode.\<close>

type_synonym lex_abs = "bytes \<times> bytes \<times> bytes \<times> bool"

definition abs_stream :: "Lex_input_stream \<Rightarrow> lex_abs" where
  "abs_stream s = (take (m_ptr s) (m_buf s), drop (m_ptr s) (m_buf s), take (m_cpp_ptr s) (m_cpp_buf s), m_echo s)"

fun a_skipn :: "nat \<Rightarrow> lex_abs \<Rightarrow> lex_abs option" where
  "a_skipn n (acc, rest, out, e) =
     (if n \<le> length rest then Some (acc @ take n rest, drop n rest, if e then out @ take n rest else out, e)
      else None)"

fun a_get :: "lex_abs \<Rightarrow> (uchar \<times> lex_abs) option" where
  "a_get (acc, c # rest, out, e) = Some (c, acc @ [c], rest, if e then out @ [c] else out, e)"
| "a_get (acc, [], out, e) = None"

fun a_unput :: "uchar \<Rightarrow> lex_abs \<Rightarrow> lex_abs" where
  "a_unput c (acc, rest, out, e) = (butlast acc, c # rest, if e then butlast out else out, e)"

fun a_unget :: "lex_abs \<Rightarrow> lex_abs" where
  "a_unget (acc, rest, out, e) = a_unput (last acc) (acc, rest, out, e)"

lemma take_pred: "0 < n \<Longrightarrow> n \<le> length xs \<Longrightarrow> take (n - 1) xs = butlast (take n xs)"
  by (simp add: butlast_take)

lemma drop_pred: "0 < n \<Longrightarrow> n \<le> length xs \<Longrightarrow> drop (n - 1) xs = last (take n xs) # drop n xs"
  by (cases n) (auto simp: Cons_nth_drop_Suc last_conv_nth take_Suc_conv_app_nth)

lemma take_list_update_Suc: "n < length xs \<Longrightarrow> take (Suc n) (xs[n := c]) = take n xs @ [c]"
  by (simp add: take_Suc_conv_app_nth)

lemma drop_list_update_pred:
  "0 < n \<Longrightarrow> n \<le> length xs \<Longrightarrow> drop (n - Suc 0) (xs[n - Suc 0 := c]) = c # drop n xs"
  by (cases n) (simp_all add: drop_update_swap Cons_nth_drop_Suc [symmetric])

lemma lex_inv_room:
  "lex_inv (s, k) \<Longrightarrow> m_echo s \<Longrightarrow> m_ptr s + n \<le> length (m_buf s) \<Longrightarrow> m_cpp_ptr s + n \<le> length (m_cpp_buf s)"
  by auto

lemma abs_yyGet:
  assumes "lex_inv (s, k)"
  shows "map_option (\<lambda>(c, s'). (c, abs_stream s')) (yyGet s) = a_get (abs_stream s)"
proof (cases "m_ptr s < length (m_buf s)")
  case True
  then have "drop (m_ptr s) (m_buf s) = m_buf s ! m_ptr s # drop (Suc (m_ptr s)) (m_buf s)"
    by (simp add: Cons_nth_drop_Suc)
  moreover have "m_echo s \<Longrightarrow> m_cpp_ptr s < length (m_cpp_buf s)" using lex_inv_room [OF assms, of 1] True by simp
  ultimately show ?thesis using True
    by (simp add: yyGet_eq abs_stream_def Let_def take_list_update_Suc) (simp add: take_Suc_conv_app_nth)
next
  case False
  then show ?thesis by (simp add: yyGet_eq abs_stream_def)
qed

lemma abs_yySkipn:
  assumes "lex_inv (s, k)"
  shows "map_option abs_stream (yySkipn (int n) s) = a_skipn n (abs_stream s)"
proof (cases "m_ptr s + n \<le> length (m_buf s)")
  case True
  have "m_echo s \<Longrightarrow> m_cpp_ptr s + n \<le> length (m_cpp_buf s)" using lex_inv_room [OF assms] True by simp
  then show ?thesis using True
    by (auto simp: yySkipn_eq abs_stream_def take_add add.commute [of n])
next
  case False
  moreover have "\<not> n \<le> length (m_buf s) - m_ptr s" using False assms by auto
  ultimately show ?thesis by (simp add: yySkipn_eq abs_stream_def)
qed

lemma abs_yyUnput:
  assumes "lex_inv (s, k)" "0 < k"
  shows "map_option (\<lambda>(p, s'). (p, abs_stream s')) (yyUnput c s) = Some (m_ptr s - 1, a_unput c (abs_stream s))"
proof -
  have "m_cpp_ptr s \<le> length (m_cpp_buf s)" using assms by simp
  then show ?thesis using assms
    by (auto simp: yyUnput_eq [OF assms] abs_stream_def take_pred [simplified] drop_list_update_pred)
qed

lemma abs_yyUnget:
  assumes "lex_inv (s, k)" "0 < k"
  shows "map_option abs_stream (yyUnget s) = Some (a_unget (abs_stream s))"
proof -
  have "m_cpp_ptr s \<le> length (m_cpp_buf s)" using assms by simp
  then show ?thesis using assms
    by (auto simp: yyUnget_eq [OF assms] abs_stream_def take_pred [simplified] drop_pred [simplified])
qed

text \<open>
  C3. The two buffers and their pointers refine a pair of texts: accepting, skipping, giving back and
  replacing a character act on the accepted text and the text to come as on lists, and in echo mode the
  pre-processed text grows and shrinks by exactly the same characters; the operations fail only where
  the text to come is too short.
\<close>
theorem lex_stream_refines:
  assumes "lex_step\<^sup>*\<^sup>* (s0, 0) (s, k)" "lex_start s0"
  shows "map_option (\<lambda>(c, s'). (c, abs_stream s')) (yyGet s) = a_get (abs_stream s) \<and>
    map_option abs_stream (yySkip s) = a_skipn 1 (abs_stream s) \<and>
    map_option abs_stream (yySkipn (int n) s) = a_skipn n (abs_stream s) \<and>
    (0 < k \<longrightarrow> map_option abs_stream (yyUnget s) = Some (a_unget (abs_stream s)) \<and>
               map_option (\<lambda>(p, s'). abs_stream s') (yyUnput ch s) = Some (a_unput ch (abs_stream s)))"
proof -
  have i: "lex_inv (s, k)" using lex_inv_reachable [OF assms(1)] lex_start_inv [OF assms(2)] by blast
  have "map_option abs_stream (yySkip s) = map_option snd (a_get (abs_stream s))"
    by (simp add: yySkip_eq option.map_comp abs_yyGet [OF i, symmetric] comp_def case_prod_beta)
  moreover have "map_option snd (a_get a) = a_skipn 1 a" for a
    by (cases a rule: a_get.cases) auto
  moreover have "map_option (\<lambda>(p, s'). abs_stream s') (yyUnput ch s) = Some (a_unput ch (abs_stream s))" if "0 < k"
    using arg_cong [OF abs_yyUnput [OF i that, of ch], of "map_option snd"]
    by (simp add: option.map_comp comp_def case_prod_beta)
  ultimately show ?thesis using abs_yyGet [OF i] abs_yySkipn [OF i] abs_yyUnget [OF i] by simp
qed

theorem lex_stream_refines_witness:
  "map_option abs_stream (yySkipn (int 2) (sample_stream [97, 98, 99])) = Some ([97, 98], [99], [97, 98], True)"
proof -
  have "lex_start (sample_stream [97, 98, 99])" by (simp add: lex_start_def sample_stream_def)
  from lex_stream_refines [OF rtranclp.rtrancl_refl this, of 2 0] show ?thesis
    by (simp add: abs_stream_def sample_stream_def)
qed

subsection \<open>The end of the query\<close>

text \<open>The characters accepted by n calls of \<open>yyGet\<close>.\<close>

fun get_many :: "nat \<Rightarrow> Lex_input_stream \<Rightarrow> (bytes \<times> Lex_input_stream) option" where
  "get_many 0 s = Some ([], s)"
| "get_many (Suc n) s =
     Option.bind (yyGet s) (\<lambda>(c, s). map_option (\<lambda>(cs, s). (c # cs, s)) (get_many n s))"

lemma yyGet_Some:
  assumes "lex_inv (s, k)" "m_ptr s < length (m_buf s)"
  obtains s' where "yyGet s = Some (m_buf s ! m_ptr s, s')" "m_ptr s' = m_ptr s + 1" "m_buf s' = m_buf s"
    "m_end_of_query s' = m_end_of_query s"
proof -
  have "m_echo s \<longrightarrow> m_cpp_ptr s < length (m_cpp_buf s)" using lex_inv_room [OF assms(1), of 1] assms(2) by auto
  with assms(2) that show thesis by (simp add: yyGet_eq Let_def split: if_splits)
qed

lemma get_many_Some:
  assumes "lex_inv (s, k)" "m_ptr s + n \<le> length (m_buf s)"
  shows "\<exists>t. get_many n s = Some (take n (drop (m_ptr s) (m_buf s)), t) \<and> m_ptr t = m_ptr s + n \<and>
    m_end_of_query t = m_end_of_query s"
  using assms
proof (induction n arbitrary: s k)
  case (Suc n)
  obtain s' where g: "yyGet s = Some (m_buf s ! m_ptr s, s')" "m_ptr s' = m_ptr s + 1"
    "m_buf s' = m_buf s" "m_end_of_query s' = m_end_of_query s"
    by (rule yyGet_Some [OF Suc.prems(1)]) (use Suc.prems(2) in auto)
  have "lex_inv (s', k + 1)" using lex_inv_step [OF lex_step.get [OF g(1)] Suc.prems(1)] .
  from Suc.IH [OF this] g Suc.prems obtain t where
    "get_many n s' = Some (take n (drop (m_ptr s + 1) (m_buf s)), t)" "m_ptr t = m_ptr s + 1 + n"
    "m_end_of_query t = m_end_of_query s" by auto
  with g Suc.prems show ?case by (simp add: take_Suc_conv_app_nth Cons_nth_drop_Suc [symmetric])
qed simp

text \<open>
  The end of the query is always reached: from every state of the protocol with characters left, the
  call of \<open>yyGet\<close> that accepts the last of them, and no call before it, makes \<open>eof\<close> true, and the calls
  have returned exactly the rest of the query in order.
\<close>
theorem lex_stream_reaches_eof:
  assumes "lex_start s0" "lex_step\<^sup>*\<^sup>* (s0, 0) (s, k)"
    and "m_ptr s \<le> m_end_of_query s" "m_end_of_query s \<le> length (m_buf s)"
  shows "(\<exists>t. get_many (m_end_of_query s - m_ptr s) s
           = Some (take (m_end_of_query s - m_ptr s) (drop (m_ptr s) (m_buf s)), t) \<and> lex_eof t) \<and>
    (\<forall>j t cs. j < m_end_of_query s - m_ptr s \<longrightarrow> get_many j s = Some (cs, t) \<longrightarrow> \<not> lex_eof t)"
proof -
  have i: "lex_inv (s, k)" using lex_inv_reachable [OF assms(2)] lex_start_inv [OF assms(1)] by blast
  have "\<exists>t. get_many (m_end_of_query s - m_ptr s) s
      = Some (take (m_end_of_query s - m_ptr s) (drop (m_ptr s) (m_buf s)), t) \<and> lex_eof t"
    using get_many_Some [OF i, of "m_end_of_query s - m_ptr s"] assms(3,4) by (auto simp: lex_eof_def)
  moreover have "\<not> lex_eof t" if "j < m_end_of_query s - m_ptr s" "get_many j s = Some (cs, t)" for j t cs
    using get_many_Some [OF i, of j] that assms(4) by (auto simp: lex_eof_def)
  ultimately show ?thesis by blast
qed

theorem lex_stream_reaches_eof_witness:
  "\<exists>t. get_many 2 (sample_stream [97, 98]) = Some ([97, 98], t) \<and> lex_eof t"
proof -
  have "lex_start (sample_stream [97, 98])" by (simp add: lex_start_def sample_stream_def)
  from conjunct1 [OF lex_stream_reaches_eof [OF this rtranclp.rtrancl_refl]] show ?thesis
    by (simp add: sample_stream_def numeral_2_eq_2 del: get_many.simps)
qed

subsection \<open>Trailing spaces\<close>

text \<open>
  The token end without trailing spaces: the result is at most the end, only spaces lie behind it, and
  it is at the start of the buffer or behind a character that is no space.
\<close>
lemma rtrim_loop_spec:
  "p \<le> length cpp \<Longrightarrow> \<exists>q. rtrim_loop sp cpp p = Some q \<and> q \<le> p \<and>
     (\<forall>i. q \<le> i \<and> i < p \<longrightarrow> sp (cpp ! i)) \<and> (0 < q \<longrightarrow> \<not> sp (cpp ! (q - 1)))"
proof (induction p)
  case (Suc p)
  then obtain q where q: "rtrim_loop sp cpp p = Some q" "q \<le> p"
    "\<forall>i. q \<le> i \<and> i < p \<longrightarrow> sp (cpp ! i)" "0 < q \<longrightarrow> \<not> sp (cpp ! (q - 1))" by auto
  show ?case
  proof (cases "sp (cpp ! p)")
    case True
    have "\<forall>i. q \<le> i \<and> i < Suc p \<longrightarrow> sp (cpp ! i)" using q(3) True less_Suc_eq by auto
    with True q Suc.prems show ?thesis by (simp add: arr_get_def)
  next
    case False
    with Suc.prems show ?thesis by (auto simp: arr_get_def)
  qed
qed simp

lemma rtrim_loop_takeWhile:
  "p \<le> length cpp \<Longrightarrow> rtrim_loop sp cpp p = Some (length (dropWhile sp (rev (take p cpp))))"
  by (induction p) (auto simp: arr_get_def take_Suc_conv_app_nth)

end
