(* ===== verification/QueryTables.thy ===== *)
theory QueryTables
  imports Prelude "HOL-Library.Monad_Syntax"
begin

text \<open>
  \<open>Query_tables_list\<close> of \<open>sql_lex.h\<close>: the reasons why a statement is unsafe for statement-based
  logging and the kinds of tables it accesses, as flags of two words, the decision whether a mixed
  statement is unsafe, and the global list of the tables of the statement with its own part and the
  part prelocking adds. The table \<open>binlog_unsafe_map\<close> is filled by code outside the headers and is a
  parameter.
\<close>

subsection \<open>The reasons of unsafeness\<close>

datatype enum_binlog_stmt_unsafe =
    BINLOG_STMT_UNSAFE_LIMIT | BINLOG_STMT_UNSAFE_INSERT_DELAYED | BINLOG_STMT_UNSAFE_SYSTEM_TABLE
  | BINLOG_STMT_UNSAFE_AUTOINC_COLUMNS | BINLOG_STMT_UNSAFE_UDF | BINLOG_STMT_UNSAFE_SYSTEM_VARIABLE
  | BINLOG_STMT_UNSAFE_SYSTEM_FUNCTION | BINLOG_STMT_UNSAFE_NONTRANS_AFTER_TRANS
  | BINLOG_STMT_UNSAFE_MULTIPLE_ENGINES_AND_SELF_LOGGING_ENGINE | BINLOG_STMT_UNSAFE_MIXED_STATEMENT
  | BINLOG_STMT_UNSAFE_INSERT_IGNORE_SELECT | BINLOG_STMT_UNSAFE_INSERT_SELECT_UPDATE
  | BINLOG_STMT_UNSAFE_WRITE_AUTOINC_SELECT | BINLOG_STMT_UNSAFE_REPLACE_SELECT
  | BINLOG_STMT_UNSAFE_CREATE_IGNORE_SELECT | BINLOG_STMT_UNSAFE_CREATE_REPLACE_SELECT
  | BINLOG_STMT_UNSAFE_CREATE_SELECT_AUTOINC | BINLOG_STMT_UNSAFE_UPDATE_IGNORE
  | BINLOG_STMT_UNSAFE_INSERT_TWO_KEYS | BINLOG_STMT_UNSAFE_AUTOINC_NOT_FIRST

text \<open>The value of an enumerator: its position.\<close>

fun unsafe_value :: "enum_binlog_stmt_unsafe \<Rightarrow> nat" where
  "unsafe_value BINLOG_STMT_UNSAFE_LIMIT = 0"
| "unsafe_value BINLOG_STMT_UNSAFE_INSERT_DELAYED = 1"
| "unsafe_value BINLOG_STMT_UNSAFE_SYSTEM_TABLE = 2"
| "unsafe_value BINLOG_STMT_UNSAFE_AUTOINC_COLUMNS = 3"
| "unsafe_value BINLOG_STMT_UNSAFE_UDF = 4"
| "unsafe_value BINLOG_STMT_UNSAFE_SYSTEM_VARIABLE = 5"
| "unsafe_value BINLOG_STMT_UNSAFE_SYSTEM_FUNCTION = 6"
| "unsafe_value BINLOG_STMT_UNSAFE_NONTRANS_AFTER_TRANS = 7"
| "unsafe_value BINLOG_STMT_UNSAFE_MULTIPLE_ENGINES_AND_SELF_LOGGING_ENGINE = 8"
| "unsafe_value BINLOG_STMT_UNSAFE_MIXED_STATEMENT = 9"
| "unsafe_value BINLOG_STMT_UNSAFE_INSERT_IGNORE_SELECT = 10"
| "unsafe_value BINLOG_STMT_UNSAFE_INSERT_SELECT_UPDATE = 11"
| "unsafe_value BINLOG_STMT_UNSAFE_WRITE_AUTOINC_SELECT = 12"
| "unsafe_value BINLOG_STMT_UNSAFE_REPLACE_SELECT = 13"
| "unsafe_value BINLOG_STMT_UNSAFE_CREATE_IGNORE_SELECT = 14"
| "unsafe_value BINLOG_STMT_UNSAFE_CREATE_REPLACE_SELECT = 15"
| "unsafe_value BINLOG_STMT_UNSAFE_CREATE_SELECT_AUTOINC = 16"
| "unsafe_value BINLOG_STMT_UNSAFE_UPDATE_IGNORE = 17"
| "unsafe_value BINLOG_STMT_UNSAFE_INSERT_TWO_KEYS = 18"
| "unsafe_value BINLOG_STMT_UNSAFE_AUTOINC_NOT_FIRST = 19"

definition BINLOG_STMT_UNSAFE_COUNT :: nat where
  "BINLOG_STMT_UNSAFE_COUNT = 20"

definition BINLOG_STMT_UNSAFE_ALL_FLAGS :: uint32 where
  "BINLOG_STMT_UNSAFE_ALL_FLAGS = push_bit BINLOG_STMT_UNSAFE_COUNT 1 - 1"

definition BINLOG_STMT_TYPE_ROW_INJECTION :: nat where
  "BINLOG_STMT_TYPE_ROW_INJECTION = 0"

datatype enum_stmt_accessed_table =
    STMT_READS_TRANS_TABLE | STMT_READS_NON_TRANS_TABLE | STMT_READS_TEMP_TRANS_TABLE
  | STMT_READS_TEMP_NON_TRANS_TABLE | STMT_WRITES_TRANS_TABLE | STMT_WRITES_NON_TRANS_TABLE
  | STMT_WRITES_TEMP_TRANS_TABLE | STMT_WRITES_TEMP_NON_TRANS_TABLE

fun access_value :: "enum_stmt_accessed_table \<Rightarrow> nat" where
  "access_value STMT_READS_TRANS_TABLE = 0"
| "access_value STMT_READS_NON_TRANS_TABLE = 1"
| "access_value STMT_READS_TEMP_TRANS_TABLE = 2"
| "access_value STMT_READS_TEMP_NON_TRANS_TABLE = 3"
| "access_value STMT_WRITES_TRANS_TABLE = 4"
| "access_value STMT_WRITES_NON_TRANS_TABLE = 5"
| "access_value STMT_WRITES_TEMP_TRANS_TABLE = 6"
| "access_value STMT_WRITES_TEMP_NON_TRANS_TABLE = 7"

fun stmt_accessed_table_string :: "enum_stmt_accessed_table \<Rightarrow> string" where
  "stmt_accessed_table_string STMT_READS_TRANS_TABLE = ''STMT_READS_TRANS_TABLE''"
| "stmt_accessed_table_string STMT_READS_NON_TRANS_TABLE = ''STMT_READS_NON_TRANS_TABLE''"
| "stmt_accessed_table_string STMT_READS_TEMP_TRANS_TABLE = ''STMT_READS_TEMP_TRANS_TABLE''"
| "stmt_accessed_table_string STMT_READS_TEMP_NON_TRANS_TABLE = ''STMT_READS_TEMP_NON_TRANS_TABLE''"
| "stmt_accessed_table_string STMT_WRITES_TRANS_TABLE = ''STMT_WRITES_TRANS_TABLE''"
| "stmt_accessed_table_string STMT_WRITES_NON_TRANS_TABLE = ''STMT_WRITES_NON_TRANS_TABLE''"
| "stmt_accessed_table_string STMT_WRITES_TEMP_TRANS_TABLE = ''STMT_WRITES_TEMP_TRANS_TABLE''"
| "stmt_accessed_table_string STMT_WRITES_TEMP_NON_TRANS_TABLE = ''STMT_WRITES_TEMP_NON_TRANS_TABLE''"

subsection \<open>State\<close>

text \<open>
  A \<open>TABLE_LIST **\<close> is the member \<open>query_tables\<close> of the list object or the member \<open>next_global\<close> of a
  table; the null table pointer is 0. Of a table only its two global links matter here.
\<close>

type_synonym tref = nat

datatype tslot = QFirst | QNext tref

record TABLE_LIST =
  next_global :: tref
  prev_global :: tslot

record Query_tables_list =
  query_tables :: tref
  query_tables_last :: tslot
  query_tables_own_last :: "tslot option"
  sroutines_list_elements :: uint
  binlog_stmt_flags :: uint32
  stmt_accessed_table_flag :: uint32
  tables :: "tref \<Rightarrow> TABLE_LIST option"

subsection \<open>Operations on the flags\<close>

definition get_stmt_unsafe_flags :: "Query_tables_list \<Rightarrow> uint32" where
  "get_stmt_unsafe_flags q = binlog_stmt_flags q AND BINLOG_STMT_UNSAFE_ALL_FLAGS"

definition is_stmt_unsafe :: "Query_tables_list \<Rightarrow> bool" where
  "is_stmt_unsafe q \<longleftrightarrow> get_stmt_unsafe_flags q \<noteq> 0"

definition is_stmt_unsafe_for :: "enum_binlog_stmt_unsafe \<Rightarrow> Query_tables_list \<Rightarrow> bool" where
  "is_stmt_unsafe_for unsafe q \<longleftrightarrow> binlog_stmt_flags q AND push_bit (unsafe_value unsafe) 1 \<noteq> 0"

definition set_stmt_unsafe :: "enum_binlog_stmt_unsafe \<Rightarrow> Query_tables_list \<Rightarrow> Query_tables_list" where
  "set_stmt_unsafe unsafe_type q =
     q\<lparr>binlog_stmt_flags := binlog_stmt_flags q OR push_bit (unsafe_value unsafe_type) 1\<rparr>"

definition set_stmt_unsafe_flags :: "uint32 \<Rightarrow> Query_tables_list \<Rightarrow> Query_tables_list" where
  "set_stmt_unsafe_flags flags q = q\<lparr>binlog_stmt_flags := binlog_stmt_flags q OR flags\<rparr>"

definition clear_stmt_unsafe :: "Query_tables_list \<Rightarrow> Query_tables_list" where
  "clear_stmt_unsafe q = q\<lparr>binlog_stmt_flags := binlog_stmt_flags q AND NOT BINLOG_STMT_UNSAFE_ALL_FLAGS\<rparr>"

definition is_stmt_row_injection :: "Query_tables_list \<Rightarrow> bool" where
  "is_stmt_row_injection q \<longleftrightarrow>
     binlog_stmt_flags q AND push_bit (BINLOG_STMT_UNSAFE_COUNT + BINLOG_STMT_TYPE_ROW_INJECTION) 1 \<noteq> 0"

definition set_stmt_row_injection :: "Query_tables_list \<Rightarrow> Query_tables_list" where
  "set_stmt_row_injection q =
     q\<lparr>binlog_stmt_flags :=
        binlog_stmt_flags q OR push_bit (BINLOG_STMT_UNSAFE_COUNT + BINLOG_STMT_TYPE_ROW_INJECTION) 1\<rparr>"

definition set_stmt_accessed_table :: "enum_stmt_accessed_table \<Rightarrow> Query_tables_list \<Rightarrow> Query_tables_list" where
  "set_stmt_accessed_table accessed_table q =
     q\<lparr>stmt_accessed_table_flag := stmt_accessed_table_flag q OR push_bit (access_value accessed_table) 1\<rparr>"

definition stmt_accessed_table :: "enum_stmt_accessed_table \<Rightarrow> Query_tables_list \<Rightarrow> bool" where
  "stmt_accessed_table accessed_table q \<longleftrightarrow>
     stmt_accessed_table_flag q AND push_bit (access_value accessed_table) 1 \<noteq> 0"

definition stmt_accessed_trans_temp_table :: "Query_tables_list \<Rightarrow> bool" where
  "stmt_accessed_trans_temp_table q \<longleftrightarrow>
     stmt_accessed_table_flag q AND
       (push_bit (access_value STMT_READS_TEMP_TRANS_TABLE) 1 OR
        push_bit (access_value STMT_WRITES_TEMP_TRANS_TABLE) 1) \<noteq> 0"

definition stmt_writes_to_non_temp_table :: "Query_tables_list \<Rightarrow> bool" where
  "stmt_writes_to_non_temp_table q \<longleftrightarrow>
     stmt_accessed_table_flag q AND
       (push_bit (access_value STMT_WRITES_TRANS_TABLE) 1 OR
        push_bit (access_value STMT_WRITES_NON_TRANS_TABLE) 1) \<noteq> 0"

definition stmt_accessed_non_trans_temp_table :: "Query_tables_list \<Rightarrow> bool" where
  "stmt_accessed_non_trans_temp_table q \<longleftrightarrow>
     stmt_accessed_table_flag q AND
       (push_bit (access_value STMT_READS_TEMP_NON_TRANS_TABLE) 1 OR
        push_bit (access_value STMT_WRITES_TEMP_NON_TRANS_TABLE) 1) \<noteq> 0"

definition stmt_accessed_temp_table :: "Query_tables_list \<Rightarrow> bool" where
  "stmt_accessed_temp_table q \<longleftrightarrow> stmt_accessed_non_trans_temp_table q \<or> stmt_accessed_trans_temp_table q"

definition uses_stored_routines :: "Query_tables_list \<Rightarrow> bool" where
  "uses_stored_routines q \<longleftrightarrow> sroutines_list_elements q \<noteq> 0"

subsection \<open>Mixed statements\<close>

definition BINLOG_DIRECT_ON :: uint where
  "BINLOG_DIRECT_ON = 0xF0"

definition BINLOG_DIRECT_OFF :: uint where
  "BINLOG_DIRECT_OFF = 0xF"

definition TRX_CACHE_EMPTY :: uint where
  "TRX_CACHE_EMPTY = 0x33"

definition TRX_CACHE_NOT_EMPTY :: uint where
  "TRX_CACHE_NOT_EMPTY = 0xCC"

definition IL_LT_REPEATABLE :: uint where
  "IL_LT_REPEATABLE = 0xAA"

definition IL_GTE_REPEATABLE :: uint where
  "IL_GTE_REPEATABLE = 0x55"

text \<open>The transaction isolation levels of \<open>handler.h\<close>, by their positions.\<close>

definition ISO_READ_UNCOMMITTED :: uint where
  "ISO_READ_UNCOMMITTED = 0"

definition ISO_READ_COMMITTED :: uint where
  "ISO_READ_COMMITTED = 1"

definition ISO_REPEATABLE_READ :: uint where
  "ISO_REPEATABLE_READ = 2"

definition ISO_SERIALIZABLE :: uint where
  "ISO_SERIALIZABLE = 3"

text \<open>The index of the map is the whole flag word; the map has 256 entries.\<close>

definition is_mixed_stmt_unsafe ::
  "uint list \<Rightarrow> bool \<Rightarrow> bool \<Rightarrow> bool \<Rightarrow> uint \<Rightarrow> Query_tables_list \<Rightarrow> bool option" where
  "is_mixed_stmt_unsafe binlog_unsafe_map in_multi_stmt_transaction_mode binlog_direct
     trx_cache_is_not_empty tx_isolation q = do {
     unsafe \<leftarrow>
       (if in_multi_stmt_transaction_mode
        then let condition =
                   (if binlog_direct then BINLOG_DIRECT_ON else BINLOG_DIRECT_OFF) AND
                   (if trx_cache_is_not_empty then TRX_CACHE_NOT_EMPTY else TRX_CACHE_EMPTY) AND
                   (if tx_isolation \<ge> ISO_REPEATABLE_READ then IL_GTE_REPEATABLE else IL_LT_REPEATABLE)
             in map_option (\<lambda>m. m AND condition \<noteq> 0)
                  (arr_get binlog_unsafe_map (unat (stmt_accessed_table_flag q)))
        else Some False);
     Some (if stmt_accessed_table STMT_WRITES_NON_TRANS_TABLE q \<and>
              stmt_accessed_table STMT_READS_TRANS_TABLE q \<and> tx_isolation < ISO_REPEATABLE_READ
           then True
           else if stmt_accessed_table STMT_WRITES_TEMP_NON_TRANS_TABLE q \<and>
                   stmt_accessed_table STMT_READS_TRANS_TABLE q \<and> tx_isolation < ISO_REPEATABLE_READ
           then True
           else unsafe)
   }"

subsection \<open>Operations on the list of tables\<close>

fun tslot_get :: "Query_tables_list \<Rightarrow> tslot \<Rightarrow> tref option" where
  "tslot_get q QFirst = Some (query_tables q)"
| "tslot_get q (QNext t) = map_option next_global (tables q t)"

fun tslot_set :: "Query_tables_list \<Rightarrow> tslot \<Rightarrow> tref \<Rightarrow> Query_tables_list option" where
  "tslot_set q QFirst p = Some (q\<lparr>query_tables := p\<rparr>)"
| "tslot_set q (QNext t) p =
     map_option (\<lambda>e. q\<lparr>tables := (tables q)(t \<mapsto> e\<lparr>next_global := p\<rparr>)\<rparr>) (tables q t)"

definition add_to_query_tables :: "tref \<Rightarrow> Query_tables_list \<Rightarrow> Query_tables_list option" where
  "add_to_query_tables table q = do {
     t \<leftarrow> tables q table;
     let q = q\<lparr>tables := (tables q)(table \<mapsto> t\<lparr>prev_global := query_tables_last q\<rparr>)\<rparr>;
     q \<leftarrow> tslot_set q (query_tables_last q) table;
     Some (q\<lparr>query_tables_last := QNext table\<rparr>)
   }"

definition requires_prelocking :: "Query_tables_list \<Rightarrow> bool" where
  "requires_prelocking q \<longleftrightarrow> query_tables_own_last q \<noteq> None"

definition mark_as_requiring_prelocking :: "tslot option \<Rightarrow> Query_tables_list \<Rightarrow> Query_tables_list" where
  "mark_as_requiring_prelocking tables_own_last q = q\<lparr>query_tables_own_last := tables_own_last\<rparr>"

definition first_not_own_table :: "Query_tables_list \<Rightarrow> tref option" where
  "first_not_own_table q = (case query_tables_own_last q of None \<Rightarrow> Some 0 | Some p \<Rightarrow> tslot_get q p)"

definition chop_off_not_own_tables :: "Query_tables_list \<Rightarrow> Query_tables_list option" where
  "chop_off_not_own_tables q =
     (case query_tables_own_last q of
        None \<Rightarrow> Some q
      | Some p \<Rightarrow> do {
          q \<leftarrow> tslot_set q p 0;
          let q = q\<lparr>query_tables_last := p\<rparr>;
          Some (q\<lparr>query_tables_own_last := None\<rparr>)
        })"

text \<open>
  \<open>last_table\<close> computes the object around the link \<open>query_tables_last\<close> points to; there is none around
  the member \<open>query_tables\<close>.
\<close>

definition last_table :: "Query_tables_list \<Rightarrow> tref option" where
  "last_table q =
     (if query_tables q \<noteq> 0
      then case query_tables_last q of QFirst \<Rightarrow> None | QNext t \<Rightarrow> Some t
      else Some 0)"

subsection \<open>Flags as sets\<close>

text \<open>What the two flag words stand for.\<close>

definition unsafe_reasons :: "Query_tables_list \<Rightarrow> enum_binlog_stmt_unsafe set" where
  "unsafe_reasons q = {u. is_stmt_unsafe_for u q}"

definition accesses :: "Query_tables_list \<Rightarrow> enum_stmt_accessed_table set" where
  "accesses q = {a. stmt_accessed_table a q}"

lemma and_flag_iff:
  assumes "n < LENGTH('a)"
  shows "(w :: 'a::len word) AND push_bit n 1 \<noteq> 0 \<longleftrightarrow> bit w n"
proof -
  have "push_bit n (1 :: 'a word) = 2 ^ n" by simp
  then show ?thesis by (metis and_exp_eq_0_iff_not_bit)
qed

lemma bit_flag_iff: "bit (push_bit n 1 :: 'a::len word) m \<longleftrightarrow> m = n \<and> n < LENGTH('a)"
  by (simp only: bit_push_bit_iff bit_1_iff) auto

lemma unsafe_value_less: "unsafe_value u < 20"
  by (cases u) auto

lemma access_value_less: "access_value a < 8"
  by (cases a) auto

lemma unsafe_value_inj: "unsafe_value u = unsafe_value v \<longleftrightarrow> u = v"
  by (cases u; cases v; simp)

lemma access_value_inj: "access_value a = access_value b \<longleftrightarrow> a = b"
  by (cases a; cases b; simp)

lemma unsafe_value_surj:
  assumes "n < 20"
  shows "\<exists>u. unsafe_value u = n"
proof -
  have "map unsafe_value
      [BINLOG_STMT_UNSAFE_LIMIT, BINLOG_STMT_UNSAFE_INSERT_DELAYED,
       BINLOG_STMT_UNSAFE_SYSTEM_TABLE, BINLOG_STMT_UNSAFE_AUTOINC_COLUMNS,
       BINLOG_STMT_UNSAFE_UDF, BINLOG_STMT_UNSAFE_SYSTEM_VARIABLE,
       BINLOG_STMT_UNSAFE_SYSTEM_FUNCTION, BINLOG_STMT_UNSAFE_NONTRANS_AFTER_TRANS,
       BINLOG_STMT_UNSAFE_MULTIPLE_ENGINES_AND_SELF_LOGGING_ENGINE, BINLOG_STMT_UNSAFE_MIXED_STATEMENT,
       BINLOG_STMT_UNSAFE_INSERT_IGNORE_SELECT, BINLOG_STMT_UNSAFE_INSERT_SELECT_UPDATE,
       BINLOG_STMT_UNSAFE_WRITE_AUTOINC_SELECT, BINLOG_STMT_UNSAFE_REPLACE_SELECT,
       BINLOG_STMT_UNSAFE_CREATE_IGNORE_SELECT, BINLOG_STMT_UNSAFE_CREATE_REPLACE_SELECT,
       BINLOG_STMT_UNSAFE_CREATE_SELECT_AUTOINC, BINLOG_STMT_UNSAFE_UPDATE_IGNORE,
       BINLOG_STMT_UNSAFE_INSERT_TWO_KEYS, BINLOG_STMT_UNSAFE_AUTOINC_NOT_FIRST]
      = [0..<20]"
    by (simp add: upt_rec)
  then have "[0..<20] \<in> range (map unsafe_value)" by (metis rangeI)
  then obtain us where "[0..<20] = map unsafe_value us" by blast
  then have "set [0..<20] = unsafe_value ` set us" by (simp only: set_map)
  then show ?thesis using assms by (metis atLeastLessThan_iff imageE set_upt zero_le)
qed

lemma all_flags_mask: "BINLOG_STMT_UNSAFE_ALL_FLAGS = mask 20"
  by (simp add: BINLOG_STMT_UNSAFE_ALL_FLAGS_def BINLOG_STMT_UNSAFE_COUNT_def mask_eq_exp_minus_1)

lemma is_stmt_unsafe_for_iff: "is_stmt_unsafe_for u q \<longleftrightarrow> bit (binlog_stmt_flags q) (unsafe_value u)"
  unfolding is_stmt_unsafe_for_def using unsafe_value_less [of u] by (intro and_flag_iff) simp

lemma row_injection_iff: "is_stmt_row_injection q \<longleftrightarrow> bit (binlog_stmt_flags q) 20"
  unfolding is_stmt_row_injection_def BINLOG_STMT_UNSAFE_COUNT_def BINLOG_STMT_TYPE_ROW_INJECTION_def
  using and_flag_iff [of 20 "binlog_stmt_flags q"] by simp

lemma stmt_accessed_iff: "stmt_accessed_table a q \<longleftrightarrow> bit (stmt_accessed_table_flag q) (access_value a)"
  unfolding stmt_accessed_table_def using access_value_less [of a] by (intro and_flag_iff) simp

lemma bit_get_stmt_unsafe_flags: "bit (get_stmt_unsafe_flags q) n \<longleftrightarrow> n < 20 \<and> bit (binlog_stmt_flags q) n"
  by (auto simp: get_stmt_unsafe_flags_def all_flags_mask bit_and_iff bit_mask_iff)

lemma unsafe_reasons_empty: "get_stmt_unsafe_flags q = 0 \<longleftrightarrow> unsafe_reasons q = {}"
proof -
  have "get_stmt_unsafe_flags q = 0 \<longleftrightarrow> (\<forall>n. \<not> bit (get_stmt_unsafe_flags q) n)"
    by (auto intro: bit_eqI)
  also have "\<dots> \<longleftrightarrow> (\<forall>u. \<not> bit (binlog_stmt_flags q) (unsafe_value u))"
    unfolding bit_get_stmt_unsafe_flags using unsafe_value_surj unsafe_value_less by metis
  finally show ?thesis by (simp add: unsafe_reasons_def is_stmt_unsafe_for_iff)
qed

lemma two_flags_iff:
  assumes "m < LENGTH('a)" "n < LENGTH('a)"
  shows "(w :: 'a::len word) AND (push_bit m 1 OR push_bit n 1) \<noteq> 0 \<longleftrightarrow> bit w m \<or> bit w n"
proof -
  have "w AND (push_bit m 1 OR push_bit n 1) = (w AND push_bit m 1) OR (w AND push_bit n 1)"
    by (simp only: bit.conj_disj_distrib)
  then show ?thesis using and_flag_iff [OF assms(1), of w] and_flag_iff [OF assms(2), of w] by (simp only: or_eq_0_iff) blast
qed

text \<open>
  The two flag words of a statement are a set of reasons of unsafeness, the row-injection mark and a
  set of table accesses: setting a reason or an access adds exactly it, a combination of flags adds
  the reasons of its bits, clearing removes all reasons and keeps the row-injection mark, a statement
  is unsafe when it has a reason, and the three summary predicates ask for their accesses.
\<close>
theorem stmt_flags_are_sets:
  "unsafe_reasons (set_stmt_unsafe u q) = insert u (unsafe_reasons q) \<and>
   unsafe_reasons (set_stmt_unsafe_flags (get_stmt_unsafe_flags p) q) = unsafe_reasons p \<union> unsafe_reasons q \<and>
   unsafe_reasons (clear_stmt_unsafe q) = {} \<and> (is_stmt_unsafe q \<longleftrightarrow> unsafe_reasons q \<noteq> {}) \<and>
   unsafe_reasons (set_stmt_row_injection q) = unsafe_reasons q \<and>
   is_stmt_row_injection (set_stmt_row_injection q) \<and>
   (is_stmt_row_injection (clear_stmt_unsafe q) \<longleftrightarrow> is_stmt_row_injection q) \<and>
   (is_stmt_row_injection (set_stmt_unsafe u q) \<longleftrightarrow> is_stmt_row_injection q) \<and>
   accesses (set_stmt_accessed_table a q) = insert a (accesses q) \<and>
   (stmt_accessed_temp_table q \<longleftrightarrow> accesses q \<inter> {STMT_READS_TEMP_TRANS_TABLE, STMT_WRITES_TEMP_TRANS_TABLE,
      STMT_READS_TEMP_NON_TRANS_TABLE, STMT_WRITES_TEMP_NON_TRANS_TABLE} \<noteq> {}) \<and>
   (stmt_writes_to_non_temp_table q \<longleftrightarrow>
      accesses q \<inter> {STMT_WRITES_TRANS_TABLE, STMT_WRITES_NON_TRANS_TABLE} \<noteq> {})"
proof -
  have ne: "unsafe_value v < 32" "unsafe_value v \<noteq> 20" "bit (mask 20 :: uint32) (unsafe_value v)" for v
    using unsafe_value_less [of v] by (simp_all add: bit_mask_iff)
  note sets = unsafe_reasons_def accesses_def is_stmt_unsafe_for_iff row_injection_iff stmt_accessed_iff
  note ops = set_stmt_unsafe_def set_stmt_unsafe_flags_def clear_stmt_unsafe_def set_stmt_row_injection_def
    set_stmt_accessed_table_def get_stmt_unsafe_flags_def all_flags_mask BINLOG_STMT_UNSAFE_COUNT_def
    BINLOG_STMT_TYPE_ROW_INJECTION_def bit_or_iff bit_and_iff bit_not_iff bit_flag_iff
  have "unsafe_reasons (set_stmt_unsafe u q) = insert u (unsafe_reasons q)"
    by (auto simp: sets ops ne unsafe_value_inj simp del: push_bit_of_1)
  moreover have "unsafe_reasons (set_stmt_unsafe_flags (get_stmt_unsafe_flags p) q) = unsafe_reasons p \<union> unsafe_reasons q"
    by (auto simp: sets ops ne)
  moreover have "unsafe_reasons (clear_stmt_unsafe q) = {}"
    by (auto simp: sets ops ne)
  moreover have "unsafe_reasons (set_stmt_row_injection q) = unsafe_reasons q"
    by (simp add: sets ops ne del: push_bit_of_1)
  moreover have "is_stmt_row_injection (set_stmt_row_injection q)"
    by (simp add: sets ops del: push_bit_of_1)
  moreover have "is_stmt_row_injection (clear_stmt_unsafe q) \<longleftrightarrow> is_stmt_row_injection q"
    by (simp add: sets ops bit_mask_iff)
  moreover have "is_stmt_row_injection (set_stmt_unsafe u q) \<longleftrightarrow> is_stmt_row_injection q"
    using ne(2) [of u] by (auto simp: sets ops simp del: push_bit_of_1)
  moreover have "accesses (set_stmt_accessed_table a q) = insert a (accesses q)"
    using access_value_less [of a] by (auto simp: sets ops access_value_inj simp del: push_bit_of_1)
  moreover have "stmt_accessed_temp_table q \<longleftrightarrow> accesses q \<inter> {STMT_READS_TEMP_TRANS_TABLE, STMT_WRITES_TEMP_TRANS_TABLE,
      STMT_READS_TEMP_NON_TRANS_TABLE, STMT_WRITES_TEMP_NON_TRANS_TABLE} \<noteq> {}"
    by (simp add: sets stmt_accessed_temp_table_def stmt_accessed_trans_temp_table_def
        stmt_accessed_non_trans_temp_table_def two_flags_iff del: push_bit_of_1) blast
  moreover have "stmt_writes_to_non_temp_table q \<longleftrightarrow>
      accesses q \<inter> {STMT_WRITES_TRANS_TABLE, STMT_WRITES_NON_TRANS_TABLE} \<noteq> {}"
    by (simp add: sets stmt_writes_to_non_temp_table_def two_flags_iff del: push_bit_of_1)
  ultimately show ?thesis
    using unsafe_reasons_empty [of q] unfolding is_stmt_unsafe_def by blast
qed

subsection \<open>The decision on mixed statements\<close>

text \<open>The bit of the map a session selects, as the comment on \<open>binlog_unsafe_map\<close> numbers them.\<close>

definition session_bit :: "bool \<Rightarrow> bool \<Rightarrow> uint \<Rightarrow> nat" where
  "session_bit direct not_empty lev =
     (if direct then 4 else 0) + (if not_empty then 2 else 0) + (if lev < ISO_REPEATABLE_READ then 1 else 0)"

lemma condition_bit:
  "(if direct then BINLOG_DIRECT_ON else BINLOG_DIRECT_OFF) AND
   (if not_empty then TRX_CACHE_NOT_EMPTY else TRX_CACHE_EMPTY) AND
   (if lev \<ge> ISO_REPEATABLE_READ then IL_GTE_REPEATABLE else IL_LT_REPEATABLE)
   = push_bit (session_bit direct not_empty lev) 1"
  by (cases direct; cases not_empty; cases "lev < ISO_REPEATABLE_READ")
    (simp_all add: session_bit_def BINLOG_DIRECT_ON_def BINLOG_DIRECT_OFF_def TRX_CACHE_NOT_EMPTY_def
      TRX_CACHE_EMPTY_def IL_GTE_REPEATABLE_def IL_LT_REPEATABLE_def not_less [symmetric])

lemma session_bit_less: "session_bit direct not_empty lev < 32"
  by (simp add: session_bit_def)

text \<open>The accesses of a statement that starts with none: the index of the map is in its range.\<close>

lemma accesses_bits:
  "bit (stmt_accessed_table_flag (fold set_stmt_accessed_table as q)) n \<longleftrightarrow>
     bit (stmt_accessed_table_flag q) n \<or> n \<in> access_value ` set as"
proof (induction as arbitrary: q)
  case (Cons a as)
  have "access_value a < 32" using access_value_less [of a] by simp
  with Cons show ?case by (auto simp: set_stmt_accessed_table_def bit_or_iff bit_flag_iff simp del: push_bit_of_1)
qed simp

lemma accessed_flag_range:
  assumes "stmt_accessed_table_flag q = 0"
  shows "unat (stmt_accessed_table_flag (fold set_stmt_accessed_table as q)) < 256"
proof -
  let ?w = "stmt_accessed_table_flag (fold set_stmt_accessed_table as q)"
  have "?w = take_bit 8 ?w"
    using assms access_value_less by (intro bit_eqI) (auto simp: bit_take_bit_iff accesses_bits)
  then have "unat ?w = take_bit 8 (unat ?w)" by (metis unsigned_take_bit_eq)
  also have "\<dots> < 2 ^ 8" by (rule take_bit_nat_less_exp)
  finally show ?thesis by simp
qed

lemma accesses_fold: "stmt_accessed_table_flag q = 0 \<Longrightarrow> accesses (fold set_stmt_accessed_table as q) = set as"
  by (auto simp: accesses_def stmt_accessed_iff accesses_bits access_value_inj image_iff)

text \<open>
  C23. The decision on a mixed statement never reads outside the map: for a statement that starts without
  accesses and marks those of a list, it is the bit of the map entry of the accesses that the comment
  names for the session (direct logging, state of the transaction cache, isolation level) when the
  session is in a multi-statement transaction, and in any case true when, below repeatable read, a
  transactional table is read and a non-transactional one, temporary or not, is written.
\<close>
theorem mixed_stmt_decision:
  fixes q0 :: Query_tables_list and as :: "enum_stmt_accessed_table list"
  assumes "stmt_accessed_table_flag q0 = 0" "length umap = 256"
  defines "q \<equiv> fold set_stmt_accessed_table as q0"
  shows "is_mixed_stmt_unsafe umap multi direct not_empty lev q = Some
    (multi \<and> bit (umap ! unat (stmt_accessed_table_flag q)) (session_bit direct not_empty lev) \<or>
     lev < ISO_REPEATABLE_READ \<and> STMT_READS_TRANS_TABLE \<in> set as \<and>
       (STMT_WRITES_NON_TRANS_TABLE \<in> set as \<or> STMT_WRITES_TEMP_NON_TRANS_TABLE \<in> set as))"
proof -
  have r: "arr_get umap (unat (stmt_accessed_table_flag q)) = Some (umap ! unat (stmt_accessed_table_flag q))"
    using accessed_flag_range [OF assms(1), of as] assms(2) by (simp add: q_def)
  have a: "stmt_accessed_table a q \<longleftrightarrow> a \<in> set as" for a
    using accesses_fold [OF assms(1), of as] by (auto simp: accesses_def q_def)
  show ?thesis
    using and_flag_iff [of "session_bit direct not_empty lev", where 'a = 32] session_bit_less [of direct not_empty lev]
    by (auto simp: is_mixed_stmt_unsafe_def Let_def r a condition_bit simp del: push_bit_of_1)
qed

theorem mixed_stmt_decision_witness:
  "let umap = (replicate 256 0)[0x21 := 0x02];
       q = \<lparr>query_tables = 0, query_tables_last = QFirst, query_tables_own_last = None, sroutines_list_elements = 0,
            binlog_stmt_flags = 0, stmt_accessed_table_flag = 0, tables = Map.empty\<rparr>
   in is_mixed_stmt_unsafe umap True False False ISO_REPEATABLE_READ
        (fold set_stmt_accessed_table [STMT_READS_TRANS_TABLE, STMT_WRITES_NON_TRANS_TABLE] q) = Some False \<and>
      is_mixed_stmt_unsafe umap False False False ISO_READ_COMMITTED
        (fold set_stmt_accessed_table [STMT_READS_TRANS_TABLE, STMT_WRITES_NON_TRANS_TABLE] q) = Some True"
  unfolding Let_def
  by (subst (1 2) mixed_stmt_decision)
    (simp_all add: ISO_REPEATABLE_READ_def ISO_READ_COMMITTED_def session_bit_def set_stmt_accessed_table_def)

subsection \<open>The list of tables\<close>

text \<open>The links of a list of tables from one slot on, and the slot its end is in.\<close>

fun tchain :: "Query_tables_list \<Rightarrow> tslot \<Rightarrow> tref list \<Rightarrow> bool" where
  "tchain q s [] \<longleftrightarrow> True"
| "tchain q s (t # ts) \<longleftrightarrow> tslot_get q s = Some t \<and> t \<noteq> 0 \<and>
     map_option prev_global (tables q t) = Some s \<and> tchain q (QNext t) ts"

definition tend :: "tslot \<Rightarrow> tref list \<Rightarrow> tslot" where
  "tend s ts = (if ts = [] then s else QNext (last ts))"

definition qt_list :: "Query_tables_list \<Rightarrow> tref list \<Rightarrow> bool" where
  "qt_list q ts \<longleftrightarrow> distinct ts \<and> tchain q QFirst ts \<and> tslot_get q (tend QFirst ts) = Some 0 \<and>
     query_tables_last q = tend QFirst ts"

fun add_tables :: "tref list \<Rightarrow> Query_tables_list \<Rightarrow> Query_tables_list option" where
  "add_tables [] q = Some q"
| "add_tables (t # ts) q = Option.bind (add_to_query_tables t q) (add_tables ts)"

lemma tend_simps [simp]: "tend s [] = s" "tend s (t # ts) = tend (QNext t) ts" "tend s (ts @ [t]) = QNext t"
  by (auto simp: tend_def)

lemma tchain_append: "tchain q s (as @ bs) \<longleftrightarrow> tchain q s as \<and> tchain q (tend s as) bs"
  by (induction as arbitrary: s) auto

lemma tchain_not_null: "tchain q s ts \<Longrightarrow> 0 \<notin> set ts"
  by (induction ts arbitrary: s) auto

lemma tend_in: "tend s ts = s \<or> (\<exists>t \<in> set ts. tend s ts = QNext t)"
  by (auto simp: tend_def)

lemma tslot_get_members [simp]:
  "tslot_get (q\<lparr>query_tables_own_last := x\<rparr>) r = tslot_get q r"
  "tslot_get (q\<lparr>query_tables_last := y\<rparr>) r = tslot_get q r"
  by (cases r; simp)+

lemma tchain_members [simp]:
  "tchain (q\<lparr>query_tables_own_last := x\<rparr>) s ts = tchain q s ts"
  "tchain (q\<lparr>query_tables_last := y\<rparr>) s ts = tchain q s ts"
  by (induction ts arbitrary: s) auto

text \<open>A chain depends on the slots before its end and on the back links of its tables.\<close>

lemma tchain_frame:
  assumes "tchain q s ts" "s \<notin> QNext ` set ts" "distinct ts"
    and "\<And>r. r \<in> insert s (QNext ` set ts) \<Longrightarrow> r \<noteq> tend s ts \<Longrightarrow> tslot_get q' r = tslot_get q r"
    and "\<And>t. t \<in> set ts \<Longrightarrow> map_option prev_global (tables q' t) = map_option prev_global (tables q t)"
  shows "tchain q' s ts"
  using assms
proof (induction ts arbitrary: s)
  case (Cons t ts)
  have ne: "s \<noteq> tend (QNext t) ts" using Cons.prems(2) tend_in [of "QNext t" ts] by auto
  have "tslot_get q' s = Some t" using Cons.prems(1) Cons.prems(4) [of s] ne by simp
  moreover have "tchain q' (QNext t) ts"
    by (rule Cons.IH) (use Cons.prems in auto)
  ultimately show ?case using Cons.prems(1,5) by simp
qed simp

lemma tslot_set_get:
  assumes "tslot_get q s \<noteq> None"
  obtains q' where "tslot_set q s p = Some q'" "tslot_get q' s = Some p"
    "\<forall>r. r \<noteq> s \<longrightarrow> tslot_get q' r = tslot_get q r"
    "\<forall>t. map_option prev_global (tables q' t) = map_option prev_global (tables q t)"
    "\<forall>u. s \<noteq> QNext u \<longrightarrow> tables q' u = tables q u"
    "query_tables_own_last q' = query_tables_own_last q" "query_tables_last q' = query_tables_last q"
proof (cases s)
  case QFirst
  have "tslot_get (q\<lparr>query_tables := p\<rparr>) r = tslot_get q r" if "r \<noteq> QFirst" for r
    using that by (cases r) auto
  with QFirst that [of "q\<lparr>query_tables := p\<rparr>"] show thesis by simp
next
  case (QNext t)
  then obtain e where e: "tables q t = Some e" using assms by auto
  let ?q = "q\<lparr>tables := (tables q)(t \<mapsto> e\<lparr>next_global := p\<rparr>)\<rparr>"
  have "tslot_get ?q r = tslot_get q r" if "r \<noteq> QNext t" for r
    using that by (cases r) auto
  with QNext e that [of ?q] show thesis by simp
qed

lemma add_to_query_tables_spec:
  assumes "qt_list q ts" "t \<noteq> 0" "t \<notin> set ts" "tables q t = Some e" "next_global e = 0"
  obtains q' where "add_to_query_tables t q = Some q'" "qt_list q' (ts @ [t])"
    "query_tables_own_last q' = query_tables_own_last q"
    "\<forall>u. u \<notin> insert t (set ts) \<longrightarrow> tables q' u = tables q u"
proof -
  let ?s = "tend QFirst ts"
  from assms(1) have q: "distinct ts" "tchain q QFirst ts" "tslot_get q ?s = Some 0" "query_tables_last q = ?s"
    by (auto simp: qt_list_def)
  define q1 where "q1 = q\<lparr>tables := (tables q)(t \<mapsto> e\<lparr>prev_global := ?s\<rparr>)\<rparr>"
  have s1: "tslot_get q1 r = tslot_get q r" for r using assms(4) by (cases r) (auto simp: q1_def)
  have ns: "?s \<noteq> QNext t" using tend_in [of QFirst ts] assms(3) by auto
  have "tslot_get q1 ?s \<noteq> None" using q(3) by (simp add: s1)
  then obtain q2 where q2: "tslot_set q1 ?s t = Some q2" "tslot_get q2 ?s = Some t"
    "\<forall>r. r \<noteq> ?s \<longrightarrow> tslot_get q2 r = tslot_get q1 r"
    "\<forall>t. map_option prev_global (tables q2 t) = map_option prev_global (tables q1 t)"
    "\<forall>u. ?s \<noteq> QNext u \<longrightarrow> tables q2 u = tables q1 u"
    "query_tables_own_last q2 = query_tables_own_last q1" "query_tables_last q2 = query_tables_last q1"
    by (rule tslot_set_get [of q1 ?s t])
  let ?q = "q2\<lparr>query_tables_last := QNext t\<rparr>"
  have g: "tslot_get ?q r = tslot_get q2 r" for r by simp
  have "tchain ?q QFirst ts"
  proof (rule tchain_frame [OF q(2)])
    show "tslot_get ?q r = tslot_get q r" if "r \<noteq> ?s" for r using that by (simp add: g q2(3) s1)
    show "map_option prev_global (tables ?q u) = map_option prev_global (tables q u)" if "u \<in> set ts" for u
      using that assms(3) by (auto simp: q2(4) q1_def)
  qed (use q(1) in auto)
  moreover have "map_option prev_global (tables ?q t) = Some ?s" by (simp add: q2(4) q1_def)
  moreover have "tslot_get ?q (QNext t) = Some 0"
    using ns assms(4,5) by (simp add: q2(3) s1 del: tslot_get.simps) simp
  ultimately have "qt_list ?q (ts @ [t])"
    using q(1) assms(2,3) by (simp add: qt_list_def tchain_append g q2(2))
  moreover have "add_to_query_tables t q = Some ?q"
    using q2(1) by (simp add: add_to_query_tables_def assms(4) q(4) q1_def Let_def)
  moreover have "tables ?q u = tables q u" if "u \<notin> insert t (set ts)" for u
    using that q2(5) [THEN spec, of u] tend_in [of QFirst ts] by (auto simp: q1_def)
  ultimately show thesis using that q2(6) by (simp add: q1_def)
qed

lemma add_tables_spec:
  assumes "qt_list q ts" "distinct (ts @ us)"
    and "\<And>u. u \<in> set us \<Longrightarrow> u \<noteq> 0 \<and> map_option next_global (tables q u) = Some 0"
  shows "\<exists>q'. add_tables us q = Some q' \<and> qt_list q' (ts @ us) \<and> query_tables_own_last q' = query_tables_own_last q"
  using assms
proof (induction us arbitrary: q ts)
  case (Cons u us)
  have "u \<noteq> 0 \<and> map_option next_global (tables q u) = Some 0" using Cons.prems(3) [of u] by simp
  then obtain e where e: "tables q u = Some e" "next_global e = 0" "u \<noteq> 0" by auto
  have "u \<notin> set ts" using Cons.prems(2) by simp
  note e = e this
  obtain q1 where q1: "add_to_query_tables u q = Some q1" "qt_list q1 (ts @ [u])"
    "query_tables_own_last q1 = query_tables_own_last q"
    "\<forall>v. v \<notin> insert u (set ts) \<longrightarrow> tables q1 v = tables q v"
    by (rule add_to_query_tables_spec [OF Cons.prems(1) e(3,4,1,2)])
  have "v \<noteq> 0 \<and> map_option next_global (tables q1 v) = Some 0" if "v \<in> set us" for v
  proof -
    have "tables q1 v = tables q v" using that Cons.prems(2) by (intro q1(4) [rule_format]) auto
    then show ?thesis using Cons.prems(3) [of v] that by simp
  qed
  then have "\<exists>q'. add_tables us q1 = Some q' \<and> qt_list q' ((ts @ [u]) @ us) \<and>
      query_tables_own_last q' = query_tables_own_last q1"
    using Cons.prems(2) by (intro Cons.IH [OF q1(2)]) simp_all
  with q1(1,3) show ?case by simp
qed simp

lemma qt_list_first_not_own:
  assumes "qt_list q (ts @ us)"
  shows "tslot_get q (tend QFirst ts) = Some (if us = [] then 0 else hd us)"
  using assms by (cases us) (auto simp: qt_list_def tchain_append)

lemma qt_list_last_table:
  assumes "qt_list q ts"
  shows "last_table q = Some (if ts = [] then 0 else last ts)"
proof (cases ts)
  case Nil
  with assms show ?thesis by (simp add: last_table_def qt_list_def)
next
  case (Cons t us)
  then have "query_tables q = t" "t \<noteq> 0" "query_tables_last q = QNext (last ts)"
    using assms by (auto simp: qt_list_def tend_def)
  with Cons show ?thesis by (simp add: last_table_def)
qed

text \<open>
  C10. Prelocking is undone exactly: when a statement has added its own tables, marks the end of its list
  and has further tables added for its routines, the list holds the own tables followed by the added
  ones in order, the first not-own table and the last table are found, and \<open>chop_off_not_own_tables\<close>
  leaves the list of the own tables, ready for further additions.
\<close>
theorem prelocking_chop_off:
  assumes "qt_list q own" "distinct (own @ extra)"
    and "\<forall>u \<in> set extra. u \<noteq> 0 \<and> map_option next_global (tables q u) = Some 0"
  shows "\<exists>q1 q2. add_tables extra (mark_as_requiring_prelocking (Some (query_tables_last q)) q) = Some q1 \<and>
    qt_list q1 (own @ extra) \<and> requires_prelocking q1 \<and>
    first_not_own_table q1 = Some (if extra = [] then 0 else hd extra) \<and>
    last_table q1 = Some (if own @ extra = [] then 0 else last (own @ extra)) \<and>
    chop_off_not_own_tables q1 = Some q2 \<and> qt_list q2 own \<and> \<not> requires_prelocking q2"
proof -
  let ?s = "tend QFirst own"
  let ?m = "mark_as_requiring_prelocking (Some (query_tables_last q)) q"
  have "qt_list ?m own" using assms(1) by (simp add: qt_list_def mark_as_requiring_prelocking_def)
  from add_tables_spec [OF this assms(2)] assms(3) obtain q1 where q1: "add_tables extra ?m = Some q1"
    "qt_list q1 (own @ extra)" "query_tables_own_last q1 = Some ?s"
    using assms(1) by (auto simp: mark_as_requiring_prelocking_def qt_list_def)
  note first = qt_list_first_not_own [OF q1(2)]
  have "last_table q1 = Some (if own @ extra = [] then 0 else last (own @ extra))"
    by (rule qt_list_last_table [OF q1(2)])
  moreover obtain q2 where q2: "tslot_set q1 ?s 0 = Some q2" "tslot_get q2 ?s = Some 0"
    "\<forall>r. r \<noteq> ?s \<longrightarrow> tslot_get q2 r = tslot_get q1 r"
    "\<forall>t. map_option prev_global (tables q2 t) = map_option prev_global (tables q1 t)"
    using tslot_set_get [of q1 ?s 0] first by (metis option.distinct(1))
  moreover have "qt_list (q2\<lparr>query_tables_last := ?s, query_tables_own_last := None\<rparr>) own" (is "qt_list ?q own")
  proof -
    have g2: "tslot_get ?q r = tslot_get q2 r" for r by simp
    have d: "distinct own" "tchain q1 QFirst own" using q1(2) by (auto simp: qt_list_def tchain_append)
    have "tchain ?q QFirst own"
      by (rule tchain_frame [OF d(2)]) (use d(1) in \<open>auto simp: g2 q2(3,4)\<close>)
    with d(1) show ?thesis by (simp add: qt_list_def g2 q2(2))
  qed
  ultimately show ?thesis
    using q1 first by (auto simp: requires_prelocking_def first_not_own_table_def chop_off_not_own_tables_def Let_def)
qed

theorem prelocking_chop_off_witness:
  "let e = \<lparr>next_global = 0, prev_global = QFirst\<rparr>;
       q = \<lparr>query_tables = 1, query_tables_last = QNext 1, query_tables_own_last = None, sroutines_list_elements = 0,
            binlog_stmt_flags = 0, stmt_accessed_table_flag = 0, tables = [1 \<mapsto> e, 2 \<mapsto> e, 3 \<mapsto> e]\<rparr>
   in \<exists>q1 q2. add_tables [2, 3] (mark_as_requiring_prelocking (Some (QNext 1)) q) = Some q1 \<and>
        first_not_own_table q1 = Some 2 \<and> chop_off_not_own_tables q1 = Some q2 \<and> qt_list q2 [1]"
proof -
  define e where "e = \<lparr>next_global = (0 :: tref), prev_global = QFirst\<rparr>"
  define q where "q = \<lparr>query_tables = 1, query_tables_last = QNext 1, query_tables_own_last = None,
    sroutines_list_elements = 0, binlog_stmt_flags = 0, stmt_accessed_table_flag = 0, tables = [1 \<mapsto> e, 2 \<mapsto> e, 3 \<mapsto> e]\<rparr>"
  have "qt_list q [1]" by (simp add: qt_list_def q_def e_def)
  moreover have "query_tables_last q = QNext 1" by (simp add: q_def)
  ultimately show ?thesis
    using prelocking_chop_off [of q "[1]" "[2, 3]"]
    by (simp add: Let_def q_def [symmetric] e_def [symmetric] del: add_tables.simps) (auto simp: q_def e_def)
qed

end
