(* ===== verification/MdlKey.thy ===== *)
theory MdlKey
  imports Prelude "HOL-Library.Monad_Syntax" "HOL-Library.List_Lexorder" "HOL-Library.Product_Lexorder"
begin

text \<open>
  The keys and requests of the metadata locks of \<open>mdl.h\<close>: a key is a buffer with the namespace, the
  database name and the object name, both closed by a zero byte, and the lengths derived from them.
  \<open>strmake\<close> of the string library and the hash function of the binary character set are parameters;
  \<open>memcmp\<close> is the function of the C standard, of whose result only the sign is defined.
\<close>

subsection \<open>Lock types, durations and namespaces\<close>

text \<open>
  The types of object locks and the values of all types; the types of backup locks are casts of numbers
  to the same enumeration, so a type is kept as its value.
\<close>

datatype enum_mdl_type =
    MDL_INTENTION_EXCLUSIVE | MDL_SHARED | MDL_SHARED_HIGH_PRIO | MDL_SHARED_READ | MDL_SHARED_WRITE
  | MDL_SHARED_UPGRADABLE | MDL_SHARED_READ_ONLY | MDL_SHARED_NO_WRITE | MDL_SHARED_NO_READ_WRITE
  | MDL_EXCLUSIVE | MDL_TYPE_END

type_synonym mdl_type = nat

fun mdl_type_value :: "enum_mdl_type \<Rightarrow> mdl_type" where
  "mdl_type_value MDL_INTENTION_EXCLUSIVE = 0"
| "mdl_type_value MDL_SHARED = 1"
| "mdl_type_value MDL_SHARED_HIGH_PRIO = 2"
| "mdl_type_value MDL_SHARED_READ = 3"
| "mdl_type_value MDL_SHARED_WRITE = 4"
| "mdl_type_value MDL_SHARED_UPGRADABLE = 5"
| "mdl_type_value MDL_SHARED_READ_ONLY = 6"
| "mdl_type_value MDL_SHARED_NO_WRITE = 7"
| "mdl_type_value MDL_SHARED_NO_READ_WRITE = 8"
| "mdl_type_value MDL_EXCLUSIVE = 9"
| "mdl_type_value MDL_TYPE_END = 10"

datatype enum_mdl_duration = MDL_STATEMENT | MDL_TRANSACTION | MDL_EXPLICIT | MDL_DURATION_END

datatype enum_mdl_namespace =
    NS_BACKUP | NS_SCHEMA | NS_TABLE | NS_FUNCTION | NS_PROCEDURE | NS_PACKAGE_BODY | NS_TRIGGER | NS_EVENT
  | NS_USER_LOCK

fun namespace_value :: "enum_mdl_namespace \<Rightarrow> uchar" where
  "namespace_value NS_BACKUP = 0"
| "namespace_value NS_SCHEMA = 1"
| "namespace_value NS_TABLE = 2"
| "namespace_value NS_FUNCTION = 3"
| "namespace_value NS_PROCEDURE = 4"
| "namespace_value NS_PACKAGE_BODY = 5"
| "namespace_value NS_TRIGGER = 6"
| "namespace_value NS_EVENT = 7"
| "namespace_value NS_USER_LOCK = 8"

subsection \<open>Keys\<close>

definition SYSTEM_CHARSET_MBMAXLEN :: nat where
  "SYSTEM_CHARSET_MBMAXLEN = 3"

definition NAME_CHAR_LEN :: nat where
  "NAME_CHAR_LEN = 64"

definition NAME_LEN :: nat where
  "NAME_LEN = NAME_CHAR_LEN * SYSTEM_CHARSET_MBMAXLEN"

definition MAX_MDLKEY_LENGTH :: nat where
  "MAX_MDLKEY_LENGTH = 1 + NAME_LEN + 1 + NAME_LEN + 1"

record MDL_key =
  mk_length :: uint16
  mk_db_name_length :: uint16
  mk_hash_value :: uint32
  mk_ptr :: bytes

definition uninit_key :: "bytes \<Rightarrow> MDL_key" where
  "uninit_key buf = \<lparr>mk_length = 0, mk_db_name_length = 0, mk_hash_value = 0, mk_ptr = buf\<rparr>"

text \<open>
  \<open>strmake\<close> gets the buffer, the offset of the target, the characters of the source before its zero
  byte and the length; it returns the buffer and the offset of the closing zero byte.
\<close>

type_synonym strmake_fun = "bytes \<Rightarrow> nat \<Rightarrow> bytes \<Rightarrow> nat \<Rightarrow> (bytes \<times> nat) option"

definition mdl_key_init ::
  "strmake_fun \<Rightarrow> (bytes \<Rightarrow> uint32) \<Rightarrow> enum_mdl_namespace \<Rightarrow> bytes \<Rightarrow> bytes \<Rightarrow> MDL_key \<Rightarrow> MDL_key option" where
  "mdl_key_init strmake my_hash_sort mdl_namespace_arg db name_arg k = do {
     buf \<leftarrow> arr_set (mk_ptr k) 0 (namespace_value mdl_namespace_arg);
     (buf, e) \<leftarrow> strmake buf 1 db NAME_LEN;
     let db_len = (word_of_int (int e - 0 - 1) :: uint16);
     (buf, e) \<leftarrow> strmake buf (unat db_len + 2) name_arg NAME_LEN;
     let len = (word_of_int (int e - 0 + 1) :: uint16);
     cs \<leftarrow> (if len = 0 then None else arr_slice buf 1 (unat len - 1));
     Some \<lparr>mk_length = len, mk_db_name_length = db_len, mk_hash_value = my_hash_sort cs, mk_ptr = buf\<rparr>
   }"

definition mdl_key_copy :: "MDL_key \<Rightarrow> MDL_key \<Rightarrow> MDL_key option" where
  "mdl_key_copy rhs k = do {
     cs \<leftarrow> arr_slice (mk_ptr rhs) 0 (unat (mk_length rhs));
     buf \<leftarrow> arr_blit (mk_ptr k) 0 cs;
     Some (k\<lparr>mk_ptr := buf, mk_length := mk_length rhs, mk_db_name_length := mk_db_name_length rhs,
             mk_hash_value := mk_hash_value rhs\<rparr>)
   }"

definition mdl_db_name :: "MDL_key \<Rightarrow> nat" where
  "mdl_db_name k = 1"

definition mdl_db_name_length :: "MDL_key \<Rightarrow> uint" where
  "mdl_db_name_length k = ucast (mk_db_name_length k)"

definition mdl_name :: "MDL_key \<Rightarrow> nat" where
  "mdl_name k = unat (mk_db_name_length k) + 2"

definition mdl_name_length :: "MDL_key \<Rightarrow> uint" where
  "mdl_name_length k = ucast (mk_length k) - ucast (mk_db_name_length k) - 3"

definition mdl_length :: "MDL_key \<Rightarrow> uint" where
  "mdl_length k = ucast (mk_length k)"

definition mdl_namespace :: "MDL_key \<Rightarrow> uchar option" where
  "mdl_namespace k = arr_get (mk_ptr k) 0"

fun memcmp :: "bytes \<Rightarrow> bytes \<Rightarrow> int" where
  "memcmp (a # as) (b # bs) = (if a = b then memcmp as bs else if a < b then -1 else 1)"
| "memcmp _ _ = 0"

definition key_memcmp :: "MDL_key \<Rightarrow> MDL_key \<Rightarrow> nat \<Rightarrow> int option" where
  "key_memcmp k rhs n = do {
     as \<leftarrow> arr_slice (mk_ptr k) 0 n;
     bs \<leftarrow> arr_slice (mk_ptr rhs) 0 n;
     Some (memcmp as bs)
   }"

definition mdl_is_equal :: "MDL_key \<Rightarrow> MDL_key \<Rightarrow> bool option" where
  "mdl_is_equal k rhs =
     (if mk_length k = mk_length rhs then map_option (\<lambda>c. c = 0) (key_memcmp k rhs (unat (mk_length k)))
      else Some False)"

definition mdl_cmp :: "MDL_key \<Rightarrow> MDL_key \<Rightarrow> int option" where
  "mdl_cmp k rhs =
     key_memcmp k rhs (unat (if mk_length k < mk_length rhs then mk_length k else mk_length rhs))"

definition mdl_hash_value :: "MDL_key \<Rightarrow> uint32 option" where
  "mdl_hash_value k = map_option (\<lambda>ns. mk_hash_value k + ucast ns) (mdl_namespace k)"

definition mdl_tc_hash_value :: "MDL_key \<Rightarrow> uint32" where
  "mdl_tc_hash_value k = mk_hash_value k"

subsection \<open>Requests, tickets and contexts\<close>

text \<open>A pointer to a request or a ticket is a number, 0 the null pointer.\<close>

record MDL_request =
  rq_type :: mdl_type
  rq_duration :: enum_mdl_duration
  next_in_list :: nat
  prev_in_list :: nat
  rq_ticket :: nat
  rq_key :: MDL_key

definition set_type :: "mdl_type \<Rightarrow> MDL_request \<Rightarrow> MDL_request" where
  "set_type type_arg r = r\<lparr>rq_type := type_arg\<rparr>"

text \<open>The new value of the request and of the one it is moved from.\<close>

definition move_from :: "MDL_request \<Rightarrow> MDL_request \<Rightarrow> (MDL_request \<times> MDL_request) option" where
  "move_from from_rq r = do {
     let r = r\<lparr>rq_type := rq_type from_rq, rq_duration := rq_duration from_rq, rq_ticket := rq_ticket from_rq,
               next_in_list := next_in_list from_rq, prev_in_list := prev_in_list from_rq\<rparr>;
     k \<leftarrow> mdl_key_copy (rq_key from_rq) (rq_key r);
     Some (r\<lparr>rq_key := k\<rparr>, from_rq\<lparr>rq_ticket := 0\<rparr>)
   }"

definition is_write_lock_request :: "MDL_request \<Rightarrow> bool" where
  "is_write_lock_request r \<longleftrightarrow>
     rq_type r \<ge> mdl_type_value MDL_SHARED_WRITE \<and> rq_type r \<noteq> mdl_type_value MDL_SHARED_READ_ONLY"

definition request_assign :: "MDL_request \<Rightarrow> MDL_request" where
  "request_assign r = r\<lparr>rq_ticket := 0\<rparr>"

text \<open>The constructor from a request; what it does not initialise is taken from the memory it is built in.\<close>

definition request_copy :: "MDL_request \<Rightarrow> MDL_request \<Rightarrow> MDL_request option" where
  "request_copy rhs r =
     map_option (\<lambda>k. r\<lparr>rq_type := rq_type rhs, rq_duration := rq_duration rhs, rq_ticket := 0, rq_key := k\<rparr>)
       (mdl_key_copy (rq_key rhs) (rq_key r))"

definition is_upgradable_or_exclusive :: "mdl_type \<Rightarrow> bool" where
  "is_upgradable_or_exclusive m_type \<longleftrightarrow>
     m_type = mdl_type_value MDL_SHARED_UPGRADABLE \<or> m_type = mdl_type_value MDL_SHARED_NO_WRITE \<or>
     m_type = mdl_type_value MDL_SHARED_NO_READ_WRITE \<or> m_type = mdl_type_value MDL_EXCLUSIVE"

text \<open>The ticket lists of a context, by their durations, front first; the context's edge in the wait-for graph.\<close>

record MDL_context =
  m_tickets :: "enum_mdl_duration \<Rightarrow> nat list"
  m_needs_thr_lock_abort :: bool
  m_waiting_for :: nat

definition has_locks :: "MDL_context \<Rightarrow> bool" where
  "has_locks c \<longleftrightarrow>
     \<not> (m_tickets c MDL_STATEMENT = [] \<and> m_tickets c MDL_TRANSACTION = [] \<and> m_tickets c MDL_EXPLICIT = [])"

definition has_transactional_locks :: "MDL_context \<Rightarrow> bool" where
  "has_transactional_locks c \<longleftrightarrow> m_tickets c MDL_TRANSACTION \<noteq> []"

definition ticket_front :: "nat list \<Rightarrow> nat" where
  "ticket_front ts = (case ts of [] \<Rightarrow> 0 | t # _ \<Rightarrow> t)"

definition mdl_savepoint :: "MDL_context \<Rightarrow> nat \<times> nat" where
  "mdl_savepoint c = (ticket_front (m_tickets c MDL_STATEMENT), ticket_front (m_tickets c MDL_TRANSACTION))"

definition set_needs_thr_lock_abort :: "bool \<Rightarrow> MDL_context \<Rightarrow> MDL_context" where
  "set_needs_thr_lock_abort b c = c\<lparr>m_needs_thr_lock_abort := b\<rparr>"

definition will_wait_for :: "nat \<Rightarrow> MDL_context \<Rightarrow> MDL_context" where
  "will_wait_for waiting_for_arg c = c\<lparr>m_waiting_for := waiting_for_arg\<rparr>"

definition done_waiting_for :: "MDL_context \<Rightarrow> MDL_context" where
  "done_waiting_for c = c\<lparr>m_waiting_for := 0\<rparr>"

subsection \<open>The layout of a key\<close>

text \<open>
  The documented behaviour of \<open>strmake\<close>: at most the given number of characters is copied, a zero byte
  closes them, its place is returned, and nothing before the target changes.
\<close>

definition strmake_law :: "strmake_fun \<Rightarrow> bool" where
  "strmake_law f \<longleftrightarrow> (\<forall>buf off s n. off + n + 1 \<le> length buf \<longrightarrow>
     (\<exists>buf'. f buf off s n = Some (buf', off + min (length s) n) \<and> length buf' = length buf \<and>
        take (off + min (length s) n + 1) buf' = take off buf @ take n s @ [0]))"

definition sample_strmake :: strmake_fun where
  "sample_strmake buf off s n =
     map_option (\<lambda>b. (b, off + min (length s) n)) (arr_blit buf off (take n s @ [0]))"

definition key_bytes :: "enum_mdl_namespace \<Rightarrow> bytes \<Rightarrow> bytes \<Rightarrow> bytes" where
  "key_bytes ns db nm = namespace_value ns # db @ [0] @ nm @ [0]"

lemma sample_strmake_law: "strmake_law sample_strmake"
  by (auto simp: strmake_law_def sample_strmake_def arr_blit_def min_def)

lemma strmakeD:
  assumes "strmake_law f" "off + n + 1 \<le> length buf" "min (length s) n = l" "take n s = s'"
  shows "\<exists>buf'. f buf off s n = Some (buf', off + l) \<and> length buf' = length buf \<and>
    take (off + l + 1) buf' = take off buf @ s' @ [0]"
  using assms unfolding strmake_law_def by blast

text \<open>What a key that was set up holds: its bytes, its lengths and the hash of what follows the namespace.\<close>

definition is_key :: "(bytes \<Rightarrow> uint32) \<Rightarrow> MDL_key \<Rightarrow> enum_mdl_namespace \<Rightarrow> bytes \<Rightarrow> bytes \<Rightarrow> bool" where
  "is_key h k ns db nm \<longleftrightarrow> length db \<le> NAME_LEN \<and> length nm \<le> NAME_LEN \<and> length (mk_ptr k) = MAX_MDLKEY_LENGTH \<and>
     unat (mk_length k) = length db + length nm + 3 \<and> unat (mk_db_name_length k) = length db \<and>
     take (length db + length nm + 3) (mk_ptr k) = key_bytes ns db nm \<and>
     mk_hash_value k = h (tl (key_bytes ns db nm))"

lemma name_lens: "NAME_LEN = 192" "MAX_MDLKEY_LENGTH = 387"
  by (simp_all add: NAME_LEN_def NAME_CHAR_LEN_def SYSTEM_CHARSET_MBMAXLEN_def MAX_MDLKEY_LENGTH_def)

lemma unat_small16: "0 \<le> i \<Longrightarrow> i < 65536 \<Longrightarrow> unat (word_of_int i :: uint16) = nat i"
  by (simp add: unat_eq_nat_uint uint_word_of_int)

lemma mdl_key_init_spec:
  assumes "strmake_law f" "length (mk_ptr k) = MAX_MDLKEY_LENGTH"
  shows "\<exists>k'. mdl_key_init f h ns db nm k = Some k' \<and> is_key h k' ns (take NAME_LEN db) (take NAME_LEN nm)"
proof -
  define d where "d = take NAME_LEN db"
  define m where "m = take NAME_LEN nm"
  have ld: "length d \<le> 192" "min (length db) NAME_LEN = length d"
    and lm: "length m \<le> 192" "min (length nm) NAME_LEN = length m"
    by (auto simp: d_def m_def name_lens min_def)
  let ?b0 = "(mk_ptr k)[0 := namespace_value ns]"
  have b0: "length ?b0 = 387" "take 1 ?b0 = [namespace_value ns]"
    using assms(2) by (simp_all add: name_lens take_Suc_conv_app_nth numeral_eq_Suc)
  have "1 + NAME_LEN + 1 \<le> length ?b0" by (simp add: b0(1) name_lens del: length_list_update)
  from strmakeD [OF assms(1) this ld(2) d_def [symmetric]] b0(1)
  obtain b1 where b1: "f ?b0 1 db NAME_LEN = Some (b1, 1 + length d)" "length b1 = 387"
    "take (1 + length d + 1) b1 = take 1 ?b0 @ d @ [0]" by auto
  have "(length d + 2) + NAME_LEN + 1 \<le> length b1" using b1(2) ld(1) by (simp add: name_lens)
  from strmakeD [OF assms(1) this lm(2) m_def [symmetric]] b1(2)
  obtain b2 where b2: "f b1 (length d + 2) nm NAME_LEN = Some (b2, length d + 2 + length m)" "length b2 = 387"
    "take (length d + 2 + length m + 1) b2 = take (length d + 2) b1 @ m @ [0]" by auto
  have n3: "length d + length m + 3 = length d + 2 + length m + 1" "length d + 2 = 1 + length d + 1" by simp_all
  have t: "take (length d + length m + 3) b2 = key_bytes ns d m"
    using b2(3) b0(2) unfolding n3 b1(3) key_bytes_def by simp
  have "take (length d + length m + 2) (drop 1 b2) = drop 1 (take (length d + length m + 2 + 1) b2)" by (rule take_drop)
  then have t1: "take (length d + length m + 2) (drop 1 b2) = tl (key_bytes ns d m)"
    using t by (simp add: drop_Suc numeral_3_eq_3)
  define dl where "dl = (word_of_int (int (1 + length d) - 0 - 1) :: uint16)"
  define L where "L = (word_of_int (int (length d + 2 + length m) - 0 + 1) :: uint16)"
  have u: "unat dl = length d" "unat L = length d + length m + 3"
    unfolding dl_def L_def using ld(1) lm(1) by (subst unat_small16; simp)+
  have L0: "L \<noteq> 0" using u(2) by auto
  have s: "arr_slice b2 1 (unat L - 1) = Some (tl (key_bytes ns d m))"
    using t1 b2(2) ld(1) lm(1) by (simp add: arr_slice_def u)
  have a0: "arr_set (mk_ptr k) 0 (namespace_value ns) = Some ?b0" using assms(2) by (simp add: name_lens)
  have "mdl_key_init f h ns db nm k =
      Some \<lparr>mk_length = L, mk_db_name_length = dl, mk_hash_value = h (tl (key_bytes ns d m)), mk_ptr = b2\<rparr>"
    by (simp only: mdl_key_init_def a0 Option.bind.bind_lunit b1(1) prod.case Let_def dl_def [symmetric] u(1) b2(1)
        L_def [symmetric] L0 if_False s)
  moreover have "is_key h \<lparr>mk_length = L, mk_db_name_length = dl, mk_hash_value = h (tl (key_bytes ns d m)), mk_ptr = b2\<rparr> ns d m"
    unfolding is_key_def using ld(1) lm(1) b2(2) t by (simp add: u name_lens)
  ultimately show ?thesis unfolding d_def m_def by blast
qed

subsection \<open>The order of keys\<close>

definition valid_name :: "bytes \<Rightarrow> bool" where
  "valid_name s \<longleftrightarrow> length s \<le> NAME_LEN \<and> 0 \<notin> set s"

lemma namespace_value_inj: "namespace_value n = namespace_value m \<longleftrightarrow> n = m"
  by (cases n; cases m; simp)

lemma memcmp_name:
  "0 \<notin> set a \<Longrightarrow> 0 \<notin> set b \<Longrightarrow>
   memcmp (a @ 0 # r) (b @ 0 # s) = (if a = b then memcmp r s else if a < b then -1 else 1)"
proof (induction a arbitrary: b)
  case Nil
  then show ?case by (cases b) (auto simp: word_gt_0)
next
  case (Cons x a)
  then show ?case by (cases b) (auto simp: word_gt_0)
qed

lemma memcmp_key_bytes:
  assumes "valid_name db1" "valid_name nm1" "valid_name db2" "valid_name nm2"
  shows "memcmp (key_bytes ns1 db1 nm1) (key_bytes ns2 db2 nm2) =
    (if (ns1, db1, nm1) = (ns2, db2, nm2) then 0
     else if (namespace_value ns1, db1, nm1) < (namespace_value ns2, db2, nm2) then -1 else 1)"
  using assms memcmp_name [of nm1 nm2 "[]" "[]"]
  by (auto simp: valid_name_def key_bytes_def memcmp_name namespace_value_inj)

lemma memcmp_take: "memcmp (take (min (length a) (length b)) a) (take (min (length a) (length b)) b) = memcmp a b"
  by (induction a b rule: memcmp.induct) auto

lemma memcmp_length_eq: "length a = length b \<Longrightarrow> memcmp a b = 0 \<longleftrightarrow> a = b"
  by (induction a b rule: memcmp.induct) auto

lemma is_key_slice:
  assumes "is_key h k ns db nm" "n \<le> unat (mk_length k)"
  shows "arr_slice (mk_ptr k) 0 n = Some (take n (key_bytes ns db nm))"
proof -
  have k: "take (length db + length nm + 3) (mk_ptr k) = key_bytes ns db nm" "n \<le> length db + length nm + 3"
    "length db + length nm + 3 \<le> length (mk_ptr k)"
    using assms by (auto simp: is_key_def name_lens)
  have "take n (take (length db + length nm + 3) (mk_ptr k)) = take n (mk_ptr k)"
    using k(2) by (simp only: take_take min_absorb1)
  then show ?thesis using k by (simp add: arr_slice_def)
qed

lemma is_key_length: "is_key h k ns db nm \<Longrightarrow> unat (mk_length k) = length (key_bytes ns db nm)"
  by (simp add: is_key_def key_bytes_def)

lemma mdl_cmp_is_key:
  assumes "is_key h k ns db nm" "is_key h r ns' db' nm'"
  shows "mdl_cmp k r = Some (memcmp (key_bytes ns db nm) (key_bytes ns' db' nm'))"
proof -
  let ?n = "unat (if mk_length k < mk_length r then mk_length k else mk_length r)"
  have n: "?n = min (length (key_bytes ns db nm)) (length (key_bytes ns' db' nm'))"
    using is_key_length [OF assms(1)] is_key_length [OF assms(2)] by (auto simp: word_less_nat_alt min_def)
  then have "?n \<le> unat (mk_length k)" "?n \<le> unat (mk_length r)"
    using is_key_length [OF assms(1)] is_key_length [OF assms(2)] by simp_all
  then show ?thesis
    using n by (simp only: mdl_cmp_def key_memcmp_def is_key_slice [OF assms(1)] is_key_slice [OF assms(2)]) (simp add: memcmp_take)
qed

lemma mdl_is_equal_is_key:
  assumes "is_key h k ns db nm" "is_key h r ns' db' nm'"
  shows "mdl_is_equal k r = Some (key_bytes ns db nm = key_bytes ns' db' nm')"
proof (cases "mk_length k = mk_length r")
  case True
  then have "length (key_bytes ns db nm) = length (key_bytes ns' db' nm')"
    using is_key_length [OF assms(1)] is_key_length [OF assms(2)] by simp
  moreover have "mdl_cmp k r = key_memcmp k r (unat (mk_length k))" using True by (simp add: mdl_cmp_def)
  ultimately show ?thesis using mdl_cmp_is_key [OF assms] True
    by (simp add: mdl_is_equal_def flip: memcmp_length_eq) (metis option.inject)
next
  case False
  then have "length (key_bytes ns db nm) \<noteq> length (key_bytes ns' db' nm')"
    using is_key_length [OF assms(1)] is_key_length [OF assms(2)] by (metis word_eq_iff_unsigned)
  with False show ?thesis by (auto simp: mdl_is_equal_def)
qed

lemma key_bytes_inj:
  assumes "valid_name db1" "valid_name nm1" "valid_name db2" "valid_name nm2"
  shows "key_bytes ns1 db1 nm1 = key_bytes ns2 db2 nm2 \<longleftrightarrow> (ns1, db1, nm1) = (ns2, db2, nm2)"
  using memcmp_key_bytes [OF assms, of ns1 ns2] memcmp_length_eq [of "key_bytes ns1 db1 nm1" "key_bytes ns2 db2 nm2"]
  by (auto split: if_splits)

text \<open>
  C13. Metadata lock keys identify their objects: for names within the limit and without zero bytes, the
  keys of two objects are equal exactly when namespace, database and name are, equal keys have equal
  hash values, and \<open>cmp\<close>, which compares only the bytes the shorter key has, is the lexicographic order
  of the triples and 0 only on equal keys. Whatever strmake leaves behind the names does not matter.
\<close>
theorem mdl_key_order:
  assumes "strmake_law f" "length (mk_ptr u1) = MAX_MDLKEY_LENGTH" "length (mk_ptr u2) = MAX_MDLKEY_LENGTH"
    and "valid_name db1" "valid_name nm1" "valid_name db2" "valid_name nm2"
  shows "\<exists>k1 k2. mdl_key_init f h ns1 db1 nm1 u1 = Some k1 \<and> mdl_key_init f h ns2 db2 nm2 u2 = Some k2 \<and>
    mdl_is_equal k1 k2 = Some ((ns1, db1, nm1) = (ns2, db2, nm2)) \<and>
    mdl_cmp k1 k2 = Some (if (ns1, db1, nm1) = (ns2, db2, nm2) then 0
      else if (namespace_value ns1, db1, nm1) < (namespace_value ns2, db2, nm2) then -1 else 1) \<and>
    (mdl_is_equal k1 k2 = Some True \<longrightarrow> mdl_hash_value k1 = mdl_hash_value k2)"
proof -
  obtain k1 where k1: "mdl_key_init f h ns1 db1 nm1 u1 = Some k1" "is_key h k1 ns1 db1 nm1"
    using mdl_key_init_spec [OF assms(1,2), of h ns1 db1 nm1] assms(4,5) by (auto simp: valid_name_def)
  obtain k2 where k2: "mdl_key_init f h ns2 db2 nm2 u2 = Some k2" "is_key h k2 ns2 db2 nm2"
    using mdl_key_init_spec [OF assms(1,3), of h ns2 db2 nm2] assms(6,7) by (auto simp: valid_name_def)
  have ns: "mdl_namespace k = Some (namespace_value n)" if "is_key h k n db nm" for k n db nm
    using is_key_slice [OF that, of 1] that
    by (cases "mk_ptr k") (auto simp: is_key_def mdl_namespace_def key_bytes_def arr_slice_def)
  show ?thesis
    using k1 k2 memcmp_key_bytes [OF assms(4-7), of ns1 ns2] key_bytes_inj [OF assms(4-7), of ns1 ns2] ns [OF k1(2)] ns [OF k2(2)]
    by (simp add: mdl_is_equal_is_key [OF k1(2) k2(2)] mdl_cmp_is_key [OF k1(2) k2(2)] mdl_hash_value_def)
      (auto simp: is_key_def)
qed

theorem mdl_key_order_witness:
  "\<exists>k1 k2. mdl_key_init sample_strmake (\<lambda>_. 0) NS_TABLE [100] [97, 98] (uninit_key (replicate 387 7)) = Some k1 \<and>
     mdl_key_init sample_strmake (\<lambda>_. 0) NS_TABLE [100, 97] [98] (uninit_key (replicate 387 9)) = Some k2 \<and>
     mdl_is_equal k1 k2 = Some False \<and> mdl_cmp k1 k2 = Some (-1)"
proof -
  have v: "valid_name [100]" "valid_name [97, 98]" "valid_name [100, 97]" "valid_name [98]"
    by (simp_all add: valid_name_def name_lens)
  show ?thesis
    using mdl_key_order [OF sample_strmake_law _ _ v, of "uninit_key (replicate 387 7)" "uninit_key (replicate 387 9)"
        "\<lambda>_. 0" NS_TABLE NS_TABLE]
    by (auto simp: uninit_key_def name_lens)
qed

subsection \<open>The parts of a key\<close>

text \<open>The characters of a C string in a buffer.\<close>

definition c_string :: "bytes \<Rightarrow> nat \<Rightarrow> bytes" where
  "c_string buf off = takeWhile (\<lambda>c. c \<noteq> 0) (drop off buf)"

lemma c_string_at:
  assumes "take n buf = pre @ s @ 0 # rest" "0 \<notin> set s"
  shows "c_string buf (length pre) = s"
proof -
  have "buf = pre @ s @ 0 # rest @ drop n buf" using assms(1) by (metis append_Cons append_assoc append_take_drop_id)
  then have "drop (length pre) buf = s @ 0 # rest @ drop n buf" by (metis append_eq_conv_conj)
  moreover have "\<forall>c \<in> set s. c \<noteq> 0" using assms(2) by blast
  ultimately show ?thesis by (simp add: c_string_def)
qed

lemma mdl_key_copy_is_key:
  assumes "is_key h k ns db nm" "length (mk_ptr v) = MAX_MDLKEY_LENGTH"
  shows "\<exists>k'. mdl_key_copy k v = Some k' \<and> is_key h k' ns db nm"
proof -
  let ?n = "unat (mk_length k)"
  have n: "?n = length (key_bytes ns db nm)" "?n \<le> 387" "arr_slice (mk_ptr k) 0 ?n = Some (key_bytes ns db nm)"
    using is_key_slice [OF assms(1) order_refl] is_key_length [OF assms(1)] assms(1)
    by (auto simp: is_key_def name_lens)
  then have "mdl_key_copy k v = Some (v\<lparr>mk_ptr := key_bytes ns db nm @ drop ?n (mk_ptr v), mk_length := mk_length k,
      mk_db_name_length := mk_db_name_length k, mk_hash_value := mk_hash_value k\<rparr>)"
    using assms(2) by (simp add: mdl_key_copy_def arr_blit_def name_lens)
  moreover have "length db + length nm + 3 = length (key_bytes ns db nm)" by (simp add: key_bytes_def)
  ultimately show ?thesis
    using assms n(1,2) by (simp add: is_key_def name_lens)
qed

text \<open>
  A key keeps what it was made of: namespace, database and object name can be read back from its buffer
  at the offsets the accessors return, with the lengths they return, each cut to the limit of names, and a
  copy into any other buffer is equal to it, in both directions, and has its hash value.
\<close>
theorem mdl_key_parts:
  assumes "strmake_law f" "length (mk_ptr u) = MAX_MDLKEY_LENGTH" "length (mk_ptr v) = MAX_MDLKEY_LENGTH"
    and "0 \<notin> set db" "0 \<notin> set nm"
  shows "\<exists>k k'. mdl_key_init f h ns db nm u = Some k \<and> mdl_namespace k = Some (namespace_value ns) \<and>
    c_string (mk_ptr k) (mdl_db_name k) = take NAME_LEN db \<and>
    c_string (mk_ptr k) (mdl_name k) = take NAME_LEN nm \<and>
    unat (mdl_db_name_length k) = min (length db) NAME_LEN \<and> unat (mdl_name_length k) = min (length nm) NAME_LEN \<and>
    mdl_key_copy k v = Some k' \<and> mdl_is_equal k' k = Some True \<and> mdl_cmp k k' = Some 0 \<and>
    mdl_hash_value k' = mdl_hash_value k"
proof -
  let ?d = "take NAME_LEN db" and ?m = "take NAME_LEN nm"
  obtain k where k: "mdl_key_init f h ns db nm u = Some k" "is_key h k ns ?d ?m"
    using mdl_key_init_spec [OF assms(1,2)] by blast
  obtain k' where k': "mdl_key_copy k v = Some k'" "is_key h k' ns ?d ?m"
    using mdl_key_copy_is_key [OF k(2) assms(3)] by blast
  have z: "0 \<notin> set ?d" "0 \<notin> set ?m" using assms(4,5) by (meson in_set_takeD)+
  have t: "take (length ?d + length ?m + 3) (mk_ptr k) = [namespace_value ns] @ ?d @ 0 # ?m @ [0]"
    "take (length ?d + length ?m + 3) (mk_ptr k) = (namespace_value ns # ?d @ [0]) @ ?m @ 0 # []"
    using k(2) by (simp_all add: is_key_def key_bytes_def)
  note c = c_string_at [OF t(1) z(1)] c_string_at [OF t(2) z(2)]
  have l: "unat (mk_db_name_length k) = length ?d" "unat (mk_length k) = length ?d + length ?m + 3"
    using k(2) by (auto simp: is_key_def)
  have n: "mdl_namespace r = Some (namespace_value ns)" if "is_key h r ns ?d ?m" for r
    using is_key_slice [OF that, of 1] that
    by (cases "mk_ptr r") (auto simp: is_key_def mdl_namespace_def key_bytes_def arr_slice_def)
  have u: "unat (ucast w :: uint) = unat w" for w :: uint16
    using unsigned_less [of w, where 'a = nat] by (simp add: unsigned_ucast_eq take_bit_nat_eq_self)
  have w: "ucast w = (word_of_nat (unat w) :: uint)" for w :: uint16
    using u [of w] by (simp add: word_eq_iff_unsigned [where 'a = nat] take_bit_nat_eq_self_iff unsigned_of_nat)
  have "(ucast (mk_length k) :: uint) = word_of_nat (length ?d + length ?m + 3)"
    "(ucast (mk_db_name_length k) :: uint) = word_of_nat (length ?d)"
    unfolding w l by simp_all
  then have "mdl_name_length k = word_of_nat (length ?m)" by (simp add: mdl_name_length_def)
  then have "unat (mdl_name_length k) = length ?m" by (simp add: unat_of_nat name_lens)
  moreover have "unat (mdl_db_name_length k) = length ?d" using l(1) by (simp add: mdl_db_name_length_def u)
  moreover have "memcmp (key_bytes ns ?d ?m) (key_bytes ns ?d ?m) = 0" by (simp add: memcmp_length_eq)
  moreover have "mk_hash_value k' = mk_hash_value k" using k(2) k'(2) by (simp add: is_key_def)
  ultimately show ?thesis
    using k(1) k'(1) c n [OF k(2)] n [OF k'(2)] l(1)
    by (simp add: mdl_is_equal_is_key [OF k'(2) k(2)] mdl_cmp_is_key [OF k(2) k'(2)] mdl_hash_value_def
        mdl_db_name_def mdl_name_def min.commute)
qed

theorem mdl_key_parts_witness:
  "\<exists>k k'. mdl_key_init sample_strmake (\<lambda>_. 5) NS_TABLE [100] [97, 98] (uninit_key (replicate 387 7)) = Some k \<and>
     c_string (mk_ptr k) (mdl_name k) = [97, 98] \<and> mdl_key_copy k (uninit_key (replicate 387 1)) = Some k' \<and>
     mdl_is_equal k' k = Some True"
proof -
  have "length (mk_ptr (uninit_key (replicate 387 7))) = MAX_MDLKEY_LENGTH"
    "length (mk_ptr (uninit_key (replicate 387 1))) = MAX_MDLKEY_LENGTH"
    by (simp_all add: uninit_key_def name_lens)
  from mdl_key_parts [OF sample_strmake_law this, of "[100]" "[97, 98]" "\<lambda>_. 5" NS_TABLE] show ?thesis
    by (auto simp: name_lens)
qed

end
