(* ===== verification/OptRange.thy ===== *)
theory OptRange
  imports Prelude "HOL-Library.Monad_Syntax"
begin

text \<open>
  Intervals of the range optimizer, \<open>SEL_ARG\<close> and \<open>QUICK_RANGE\<close> of \<open>opt_range.h\<close>: comparing, cutting and
  merging intervals of one key part, writing the end points of a chain of key parts into a key buffer,
  and the end points handed to the storage engine. The comparison \<open>sel_cmp\<close>, the comparison of a field,
  and the search of the first and last interval of a tree are code outside the headers: parameters.
\<close>

subsection \<open>Flags of end points\<close>

definition NO_MIN_RANGE :: uint where
  "NO_MIN_RANGE = 1"

definition NO_MAX_RANGE :: uint where
  "NO_MAX_RANGE = 2"

definition NEAR_MIN :: uint where
  "NEAR_MIN = 4"

definition NEAR_MAX :: uint where
  "NEAR_MAX = 8"

definition UNIQUE_RANGE :: uint where
  "UNIQUE_RANGE = 16"

definition EQ_RANGE :: uint where
  "EQ_RANGE = 32"

definition NULL_RANGE :: uint where
  "NULL_RANGE = 64"

definition GEOM_FLAG :: uint where
  "GEOM_FLAG = 128"

definition SKIP_RANGE :: uint where
  "SKIP_RANGE = 256"

subsection \<open>Intervals\<close>

datatype sa_type = IMPOSSIBLE | MAYBE | MAYBE_KEY | KEY_RANGE

text \<open>
  One interval. The pointers \<open>min_value\<close> and \<open>max_value\<close> are the bytes they point to; a reference to the
  intervals of the next key part is a number, 0 the null pointer.
\<close>

record SEL_ARG =
  min_flag :: uint8
  max_flag :: uint8
  maybe_flag :: uint8
  sa_part :: uint8
  maybe_null :: uint8
  min_value :: bytes
  max_value :: bytes
  next_key_part :: nat
  sel_type :: sa_type

text \<open>\<open>sel_cmp\<close> for a field: two values and their flags.\<close>

type_synonym sel_cmp_fun = "bytes \<Rightarrow> bytes \<Rightarrow> uint8 \<Rightarrow> uint8 \<Rightarrow> int"

definition has_flag :: "uint8 \<Rightarrow> uint \<Rightarrow> bool" where
  "has_flag fl f \<longleftrightarrow> (ucast fl :: uint) AND f \<noteq> 0"

definition cmp_min_to_min :: "sel_cmp_fun \<Rightarrow> SEL_ARG \<Rightarrow> SEL_ARG \<Rightarrow> int" where
  "cmp_min_to_min sel_cmp a arg = sel_cmp (min_value a) (min_value arg) (min_flag a) (min_flag arg)"

definition cmp_min_to_max :: "sel_cmp_fun \<Rightarrow> SEL_ARG \<Rightarrow> SEL_ARG \<Rightarrow> int" where
  "cmp_min_to_max sel_cmp a arg = sel_cmp (min_value a) (max_value arg) (min_flag a) (max_flag arg)"

definition cmp_max_to_max :: "sel_cmp_fun \<Rightarrow> SEL_ARG \<Rightarrow> SEL_ARG \<Rightarrow> int" where
  "cmp_max_to_max sel_cmp a arg = sel_cmp (max_value a) (max_value arg) (max_flag a) (max_flag arg)"

definition cmp_max_to_min :: "sel_cmp_fun \<Rightarrow> SEL_ARG \<Rightarrow> SEL_ARG \<Rightarrow> int" where
  "cmp_max_to_min sel_cmp a arg = sel_cmp (max_value a) (min_value arg) (max_flag a) (min_flag arg)"

definition sa_is_same :: "sel_cmp_fun \<Rightarrow> SEL_ARG \<Rightarrow> SEL_ARG \<Rightarrow> bool" where
  "sa_is_same sel_cmp a arg =
     (if sel_type a \<noteq> sel_type arg \<or> sa_part a \<noteq> sa_part arg then False
      else if sel_type a \<noteq> KEY_RANGE then True
      else cmp_min_to_min sel_cmp a arg = 0 \<and> cmp_max_to_max sel_cmp a arg = 0)"

text \<open>The loop of \<open>all_same\<close> over the interval lists of two trees, and \<open>all_same\<close> given these lists.\<close>

fun all_same_loop :: "sel_cmp_fun \<Rightarrow> SEL_ARG list \<Rightarrow> SEL_ARG list \<Rightarrow> bool" where
  "all_same_loop sel_cmp (cur # cs) (c # ds) = (if sa_is_same sel_cmp cur c then all_same_loop sel_cmp cs ds else False)"
| "all_same_loop sel_cmp [] [] = True"
| "all_same_loop sel_cmp _ _ = False"

definition all_same :: "sel_cmp_fun \<Rightarrow> bool \<Rightarrow> SEL_ARG \<Rightarrow> SEL_ARG list \<Rightarrow> SEL_ARG \<Rightarrow> SEL_ARG list \<Rightarrow> bool" where
  "all_same sel_cmp same_object a intervals arg arg_intervals =
     (if sel_type a \<noteq> sel_type arg \<or> sa_part a \<noteq> sa_part arg then False
      else if sel_type a \<noteq> KEY_RANGE then True
      else if same_object then True
      else all_same_loop sel_cmp intervals arg_intervals)"

definition merge_flags :: "SEL_ARG \<Rightarrow> SEL_ARG \<Rightarrow> SEL_ARG" where
  "merge_flags arg a = a\<lparr>maybe_flag := maybe_flag a OR maybe_flag arg\<rparr>"

definition maybe_smaller :: "SEL_ARG \<Rightarrow> SEL_ARG" where
  "maybe_smaller a = a\<lparr>maybe_flag := 1\<rparr>"

definition is_null_interval :: "SEL_ARG \<Rightarrow> bool option" where
  "is_null_interval a = (if maybe_null a \<noteq> 0 then map_option (\<lambda>b. b = 1) (arr_get (max_value a) 0) else Some False)"

text \<open>
  The constructor the cloning operations call is defined outside the headers: a parameter, applied to
  part, values, flags and the maybe flag. The allocation is taken to succeed.
\<close>

type_synonym sel_ctor = "uint8 \<Rightarrow> bytes \<Rightarrow> bytes \<Rightarrow> uint8 \<Rightarrow> uint8 \<Rightarrow> uint8 \<Rightarrow> SEL_ARG"

definition clone_and :: "sel_ctor \<Rightarrow> sel_cmp_fun \<Rightarrow> SEL_ARG \<Rightarrow> SEL_ARG \<Rightarrow> SEL_ARG" where
  "clone_and ctor sel_cmp a arg =
     (let (new_min, flag_min) =
            (if cmp_min_to_min sel_cmp a arg \<ge> 0 then (min_value a, min_flag a) else (min_value arg, min_flag arg));
          (new_max, flag_max) =
            (if cmp_max_to_max sel_cmp a arg \<le> 0 then (max_value a, max_flag a) else (max_value arg, max_flag arg))
      in ctor (sa_part a) new_min new_max flag_min flag_max
           (if maybe_flag a \<noteq> 0 \<and> maybe_flag arg \<noteq> 0 then 1 else 0))"

definition clone_first :: "sel_ctor \<Rightarrow> SEL_ARG \<Rightarrow> SEL_ARG \<Rightarrow> SEL_ARG" where
  "clone_first ctor a arg =
     ctor (sa_part a) (min_value a) (min_value arg) (min_flag a)
       (if has_flag (min_flag arg) NEAR_MIN then 0 else ucast NEAR_MAX) (maybe_flag a OR maybe_flag arg)"

definition clone_last :: "sel_ctor \<Rightarrow> SEL_ARG \<Rightarrow> SEL_ARG \<Rightarrow> SEL_ARG" where
  "clone_last ctor a arg =
     ctor (sa_part a) (min_value a) (max_value arg) (min_flag a) (max_flag arg)
       (maybe_flag a OR maybe_flag arg)"

definition full_range_flags :: "uint8 \<Rightarrow> bool" where
  "full_range_flags fl \<longleftrightarrow> ucast fl AND (NO_MAX_RANGE OR NO_MIN_RANGE) = NO_MAX_RANGE OR NO_MIN_RANGE"

text \<open>The return value and the changed interval; on the early return the maybe flag is not merged.\<close>

definition copy_min :: "sel_cmp_fun \<Rightarrow> SEL_ARG \<Rightarrow> SEL_ARG \<Rightarrow> bool \<times> SEL_ARG" where
  "copy_min sel_cmp arg a =
     (if cmp_min_to_min sel_cmp a arg > 0
      then let a = a\<lparr>min_value := min_value arg, min_flag := min_flag arg\<rparr>
           in if full_range_flags (max_flag a) then (True, a)
              else (False, a\<lparr>maybe_flag := maybe_flag a OR maybe_flag arg\<rparr>)
      else (False, a\<lparr>maybe_flag := maybe_flag a OR maybe_flag arg\<rparr>))"

definition copy_max :: "sel_cmp_fun \<Rightarrow> SEL_ARG \<Rightarrow> SEL_ARG \<Rightarrow> bool \<times> SEL_ARG" where
  "copy_max sel_cmp arg a =
     (if cmp_max_to_max sel_cmp a arg \<le> 0
      then let a = a\<lparr>max_value := max_value arg, max_flag := max_flag arg\<rparr>
           in if full_range_flags (max_flag a) then (True, a)
              else (False, a\<lparr>maybe_flag := maybe_flag a OR maybe_flag arg\<rparr>)
      else (False, a\<lparr>maybe_flag := maybe_flag a OR maybe_flag arg\<rparr>))"

definition copy_min_to_min :: "SEL_ARG \<Rightarrow> SEL_ARG \<Rightarrow> SEL_ARG" where
  "copy_min_to_min arg a = a\<lparr>min_value := min_value arg, min_flag := min_flag arg\<rparr>"

definition copy_min_to_max :: "SEL_ARG \<Rightarrow> SEL_ARG \<Rightarrow> SEL_ARG" where
  "copy_min_to_max arg a =
     a\<lparr>max_value := min_value arg, max_flag := (if has_flag (min_flag arg) NEAR_MIN then 0 else ucast NEAR_MAX)\<rparr>"

definition copy_max_to_min :: "SEL_ARG \<Rightarrow> SEL_ARG \<Rightarrow> SEL_ARG" where
  "copy_max_to_min arg a =
     a\<lparr>min_value := max_value arg, min_flag := (if has_flag (max_flag arg) NEAR_MAX then 0 else ucast NEAR_MIN)\<rparr>"

text \<open>\<open>key_cmp\<close> of the field is a parameter.\<close>

definition is_singlepoint :: "(bytes \<Rightarrow> bytes \<Rightarrow> int) \<Rightarrow> SEL_ARG \<Rightarrow> bool option" where
  "is_singlepoint key_cmp a =
     (if min_flag a \<noteq> 0 \<or> max_flag a \<noteq> 0 then Some False
      else if maybe_null a \<noteq> 0
      then do {
        mn \<leftarrow> arr_get (min_value a) 0;
        mx \<leftarrow> arr_get (max_value a) 0;
        if mn \<noteq> mx then Some False
        else if mn \<noteq> 0 then Some True
        else Some (key_cmp (drop 1 (min_value a)) (drop 1 (max_value a)) = 0)
      }
      else Some (key_cmp (min_value a) (max_value a) = 0))"

subsection \<open>Writing key parts\<close>

text \<open>The bytes of one end point as they are written: a null value is its indicator and zeros.\<close>

definition store_value :: "uint8 \<Rightarrow> bytes \<Rightarrow> nat \<Rightarrow> bytes \<Rightarrow> nat \<Rightarrow> bytes option" where
  "store_value mnull v len buf off = do {
     is_null \<leftarrow> (if mnull \<noteq> 0 then map_option (\<lambda>b. b \<noteq> 0) (arr_get v 0) else Some False);
     if is_null then do {
       buf \<leftarrow> arr_set buf off 1;
       if len = 0 then None else arr_blit buf (off + 1) (replicate (len - 1) 0)
     } else do {
       cs \<leftarrow> arr_slice v 0 len;
       arr_blit buf off cs
     }
   }"

text \<open>The number of key parts written, the buffer and the offset of its end.\<close>

definition store_min :: "SEL_ARG \<Rightarrow> nat \<Rightarrow> uint \<Rightarrow> bytes \<Rightarrow> nat \<Rightarrow> (nat \<times> bytes \<times> nat) option" where
  "store_min a len min_key_flag buf off =
     (if has_flag (min_flag a) GEOM_FLAG \<or>
         (\<not> has_flag (min_flag a) NO_MIN_RANGE \<and> min_key_flag AND (NO_MIN_RANGE OR NEAR_MIN) = 0)
      then map_option (\<lambda>buf. (1, buf, off + len)) (store_value (maybe_null a) (min_value a) len buf off)
      else Some (0, buf, off))"

definition store_max :: "SEL_ARG \<Rightarrow> nat \<Rightarrow> uint \<Rightarrow> bytes \<Rightarrow> nat \<Rightarrow> (nat \<times> bytes \<times> nat) option" where
  "store_max a len max_key_flag buf off =
     (if \<not> has_flag (max_flag a) NO_MAX_RANGE \<and> max_key_flag AND (NO_MAX_RANGE OR NEAR_MAX) = 0
      then map_option (\<lambda>buf. (1, buf, off + len)) (store_value (maybe_null a) (max_value a) len buf off)
      else Some (0, buf, off))"

text \<open>
  \<open>store_min_key\<close> and \<open>store_max_key\<close>: the nodes of the trees, \<open>first\<close> and \<open>last\<close>, and the store lengths of
  the key parts are given. The recursion follows the next key part; its depth is bounded by fuel, which
  runs out as \<^term>\<open>None\<close>. The results are the number of parts, the buffer, the offset and the flags.
\<close>

record sel_graph =
  sg_node :: "nat \<Rightarrow> SEL_ARG option"
  sg_first :: "nat \<Rightarrow> nat"
  sg_last :: "nat \<Rightarrow> nat"

definition next_part_follows :: "SEL_ARG \<Rightarrow> SEL_ARG \<Rightarrow> uint \<Rightarrow> bool" where
  "next_part_follows a nx last_part \<longleftrightarrow>
     sel_type nx = KEY_RANGE \<and> ucast (sa_part a) \<noteq> last_part \<and> uint (sa_part nx) = uint (sa_part a) + 1"

fun store_min_key ::
  "nat \<Rightarrow> sel_graph \<Rightarrow> (nat \<Rightarrow> nat) \<Rightarrow> uint \<Rightarrow> nat \<Rightarrow> bytes \<Rightarrow> nat \<Rightarrow> uint \<Rightarrow> (nat \<times> bytes \<times> nat \<times> uint) option" where
  "store_min_key 0 g store_length last_part self buf off flag = None"
| "store_min_key (Suc fuel) g store_length last_part self buf off flag = do {
     a \<leftarrow> sg_node g (sg_first g self);
     (res, buf, off) \<leftarrow> store_min a (store_length (unat (sa_part a))) flag buf off;
     if res = 0 then Some (0, buf, off, flag)
     else do {
       let flag = flag OR ucast (min_flag a);
       if next_key_part a = 0 then Some (res, buf, off, flag)
       else do {
         nx \<leftarrow> sg_node g (next_key_part a);
         if next_part_follows a nx last_part \<and> flag AND (NO_MIN_RANGE OR NEAR_MIN) = 0
         then do {
           (r, buf, off, flag) \<leftarrow> store_min_key fuel g store_length last_part (next_key_part a) buf off flag;
           Some (res + r, buf, off, flag)
         }
         else Some (res, buf, off, flag)
       }
     }
   }"

fun store_max_key ::
  "nat \<Rightarrow> sel_graph \<Rightarrow> (nat \<Rightarrow> nat) \<Rightarrow> uint \<Rightarrow> nat \<Rightarrow> bytes \<Rightarrow> nat \<Rightarrow> uint \<Rightarrow> (nat \<times> bytes \<times> nat \<times> uint) option" where
  "store_max_key 0 g store_length last_part self buf off flag = None"
| "store_max_key (Suc fuel) g store_length last_part self buf off flag = do {
     a \<leftarrow> sg_node g (sg_last g self);
     (res, buf, off) \<leftarrow> store_max a (store_length (unat (sa_part a))) flag buf off;
     if res = 0 then Some (0, buf, off, flag)
     else do {
       let flag = flag OR ucast (max_flag a);
       if next_key_part a = 0 then Some (res, buf, off, flag)
       else do {
         nx \<leftarrow> sg_node g (next_key_part a);
         if next_part_follows a nx last_part \<and> flag AND (NO_MAX_RANGE OR NEAR_MAX) = 0
         then do {
           (r, buf, off, flag) \<leftarrow> store_max_key fuel g store_length last_part (next_key_part a) buf off flag;
           Some (res + r, buf, off, flag)
         }
         else Some (res, buf, off, flag)
       }
     }
   }"

subsection \<open>Quick ranges\<close>

datatype ha_rkey_function =
    HA_READ_KEY_EXACT | HA_READ_KEY_OR_NEXT | HA_READ_KEY_OR_PREV | HA_READ_AFTER_KEY | HA_READ_BEFORE_KEY
  | HA_READ_PREFIX | HA_READ_PREFIX_LAST | HA_READ_PREFIX_LAST_OR_PREV | HA_READ_MBR_CONTAIN | HA_READ_MBR_INTERSECT
  | HA_READ_MBR_WITHIN | HA_READ_MBR_DISJOINT | HA_READ_MBR_EQUAL

text \<open>The keys are kept by the storage that holds them; a key pointer is a number.\<close>

record key_range =
  kr_key :: nat
  kr_length :: uint
  kr_keypart_map :: ulong
  kr_flag :: ha_rkey_function

record QUICK_RANGE =
  qr_min_key :: nat
  qr_max_key :: nat
  min_length :: uint16
  max_length :: uint16
  qr_flag :: uint16
  min_keypart_map :: ulong
  max_keypart_map :: ulong

definition make_min_endpoint :: "QUICK_RANGE \<Rightarrow> key_range" where
  "make_min_endpoint q =
     \<lparr>kr_key = qr_min_key q, kr_length = ucast (min_length q), kr_keypart_map = min_keypart_map q,
      kr_flag = (if (ucast (qr_flag q) :: uint) AND NEAR_MIN \<noteq> 0 then HA_READ_AFTER_KEY
                 else if (ucast (qr_flag q) :: uint) AND EQ_RANGE \<noteq> 0 then HA_READ_KEY_EXACT
                 else HA_READ_KEY_OR_NEXT)\<rparr>"

definition make_max_endpoint :: "QUICK_RANGE \<Rightarrow> key_range" where
  "make_max_endpoint q =
     \<lparr>kr_key = qr_max_key q, kr_length = ucast (max_length q), kr_keypart_map = max_keypart_map q,
      kr_flag = (if (ucast (qr_flag q) :: uint) AND NEAR_MAX \<noteq> 0 then HA_READ_BEFORE_KEY else HA_READ_AFTER_KEY)\<rparr>"

definition limit_endpoint :: "key_range \<Rightarrow> uint \<Rightarrow> ulong \<Rightarrow> key_range" where
  "limit_endpoint kr prefix_length keypart_map =
     kr\<lparr>kr_length := (if kr_length kr < prefix_length then kr_length kr else prefix_length),
        kr_keypart_map := kr_keypart_map kr AND keypart_map\<rparr>"

definition make_min_endpoint_prefix :: "QUICK_RANGE \<Rightarrow> uint \<Rightarrow> ulong \<Rightarrow> key_range" where
  "make_min_endpoint_prefix q prefix_length keypart_map = limit_endpoint (make_min_endpoint q) prefix_length keypart_map"

definition make_max_endpoint_prefix :: "QUICK_RANGE \<Rightarrow> uint \<Rightarrow> ulong \<Rightarrow> key_range" where
  "make_max_endpoint_prefix q prefix_length keypart_map = limit_endpoint (make_max_endpoint q) prefix_length keypart_map"

text \<open>\<open>SEL_ARG::MAX_SEL_ARGS\<close> and the test whether to give up; the state of the session is given.\<close>

definition MAX_SEL_ARGS :: uint where
  "MAX_SEL_ARGS = 16000"

definition statement_should_be_aborted :: "bool \<Rightarrow> bool \<Rightarrow> uint \<Rightarrow> bool" where
  "statement_should_be_aborted is_fatal_error is_error alloced_sel_args \<longleftrightarrow>
     is_fatal_error \<or> is_error \<or> alloced_sel_args > MAX_SEL_ARGS"

subsection \<open>What intervals stand for\<close>

text \<open>
  An end point is a cut of the ordered key values: before all, after all, or at a value, just before it,
  or just behind it.
\<close>

datatype 'k cut = Minus_inf | At 'k int | Plus_inf

instantiation cut :: (linorder) linorder
begin

fun less_eq_cut :: "'a cut \<Rightarrow> 'a cut \<Rightarrow> bool" where
  "less_eq_cut Minus_inf c \<longleftrightarrow> True"
| "less_eq_cut (At k s) Minus_inf \<longleftrightarrow> False"
| "less_eq_cut (At k s) (At l r) \<longleftrightarrow> k < l \<or> k = l \<and> s \<le> r"
| "less_eq_cut (At k s) Plus_inf \<longleftrightarrow> True"
| "less_eq_cut Plus_inf c \<longleftrightarrow> c = Plus_inf"

definition less_cut :: "'a cut \<Rightarrow> 'a cut \<Rightarrow> bool" where
  "less_cut c d \<longleftrightarrow> c \<le> d \<and> \<not> d \<le> c"

instance
proof
  fix x y z :: "'a cut"
  show "x < y \<longleftrightarrow> x \<le> y \<and> \<not> y \<le> x" by (rule less_cut_def)
  show "x \<le> x" by (cases x) auto
  show "x \<le> y \<Longrightarrow> y \<le> z \<Longrightarrow> x \<le> z" by (cases x; cases y; cases z) auto
  show "x \<le> y \<Longrightarrow> y \<le> x \<Longrightarrow> x = y" by (cases x; cases y) auto
  show "x \<le> y \<or> y \<le> x" by (cases x; cases y) auto
qed

end

definition end_cut :: "(bytes \<Rightarrow> 'k) \<Rightarrow> bytes \<Rightarrow> uint8 \<Rightarrow> 'k cut" where
  "end_cut val v fl =
     (if has_flag fl NO_MIN_RANGE then Minus_inf else if has_flag fl NO_MAX_RANGE then Plus_inf
      else At (val v) (if has_flag fl NEAR_MIN then 1 else if has_flag fl NEAR_MAX then -1 else 0))"

abbreviation min_cut :: "(bytes \<Rightarrow> 'k) \<Rightarrow> SEL_ARG \<Rightarrow> 'k cut" where
  "min_cut val a \<equiv> end_cut val (min_value a) (min_flag a)"

abbreviation max_cut :: "(bytes \<Rightarrow> 'k) \<Rightarrow> SEL_ARG \<Rightarrow> 'k cut" where
  "max_cut val a \<equiv> end_cut val (max_value a) (max_flag a)"

definition in_range :: "(bytes \<Rightarrow> 'k::linorder) \<Rightarrow> SEL_ARG \<Rightarrow> 'k \<Rightarrow> bool" where
  "in_range val a x \<longleftrightarrow> min_cut val a \<le> At x 0 \<and> At x 0 \<le> max_cut val a"

text \<open>A left end has no flag of a right end and a right end none of a left end.\<close>

definition left_flags :: "uint8 \<Rightarrow> bool" where
  "left_flags fl \<longleftrightarrow> \<not> has_flag fl NO_MAX_RANGE \<and> \<not> has_flag fl NEAR_MAX"

definition right_flags :: "uint8 \<Rightarrow> bool" where
  "right_flags fl \<longleftrightarrow> \<not> has_flag fl NO_MIN_RANGE \<and> \<not> has_flag fl NEAR_MIN"

definition end_flags :: "uint8 \<Rightarrow> bool" where
  "end_flags fl \<longleftrightarrow> left_flags fl \<or> right_flags fl"

definition range_wf :: "SEL_ARG \<Rightarrow> bool" where
  "range_wf a \<longleftrightarrow> left_flags (min_flag a) \<and> right_flags (max_flag a)"

lemma range_wf_end_flags [intro]: "range_wf a \<Longrightarrow> end_flags (min_flag a)" "range_wf a \<Longrightarrow> end_flags (max_flag a)"
  by (simp_all add: range_wf_def end_flags_def)

lemmas side_flags_defs = left_flags_def right_flags_def

text \<open>
  The laws: \<open>sel_cmp\<close> orders the cuts of end points, where the flags of each are those of a left or of a
  right end, and the constructor stores its arguments.
\<close>

definition sel_cmp_law :: "(bytes \<Rightarrow> 'k::linorder) \<Rightarrow> sel_cmp_fun \<Rightarrow> bool" where
  "sel_cmp_law val f \<longleftrightarrow> (\<forall>a b fa fb. end_flags fa \<longrightarrow> end_flags fb \<longrightarrow>
     (f a b fa fb < 0 \<longleftrightarrow> end_cut val a fa < end_cut val b fb) \<and>
     (f a b fa fb = 0 \<longleftrightarrow> end_cut val a fa = end_cut val b fb))"

definition sel_ctor_law :: "sel_ctor \<Rightarrow> bool" where
  "sel_ctor_law mk \<longleftrightarrow> (\<forall>p mn mx fmin fmax mb.
     (let r = mk p mn mx fmin fmax mb in sa_part r = p \<and> min_value r = mn \<and> max_value r = mx \<and> min_flag r = fmin \<and>
        max_flag r = fmax \<and> maybe_flag r = mb))"

text \<open>Instances: values ordered by their first byte, and a constructor that stores.\<close>

definition sample_sel_cmp :: sel_cmp_fun where
  "sample_sel_cmp a b fa fb =
     (let c = end_cut hd a fa; d = end_cut hd b fb in if c < d then -1 else if c = d then 0 else 1)"

definition sample_ctor :: sel_ctor where
  "sample_ctor p mn mx fmin fmax mb =
     \<lparr>min_flag = fmin, max_flag = fmax, maybe_flag = mb, sa_part = p, maybe_null = 0, min_value = mn,
      max_value = mx, next_key_part = 0, sel_type = KEY_RANGE\<rparr>"

lemma sample_laws: "sel_cmp_law hd sample_sel_cmp" "sel_ctor_law sample_ctor"
  by (auto simp: sel_cmp_law_def sample_sel_cmp_def Let_def sel_ctor_law_def sample_ctor_def)

lemma sel_cmpD:
  assumes "sel_cmp_law val f" "end_flags fa" "end_flags fb"
  shows "f a b fa fb < 0 \<longleftrightarrow> end_cut val a fa < end_cut val b fb"
    "f a b fa fb = 0 \<longleftrightarrow> end_cut val a fa = end_cut val b fb"
    "0 < f a b fa fb \<longleftrightarrow> end_cut val b fb < end_cut val a fa"
    "0 \<le> f a b fa fb \<longleftrightarrow> end_cut val b fb \<le> end_cut val a fa"
    "f a b fa fb \<le> 0 \<longleftrightarrow> end_cut val a fa \<le> end_cut val b fb"
proof -
  have l: "f a b fa fb < 0 \<longleftrightarrow> end_cut val a fa < end_cut val b fb"
    "f a b fa fb = 0 \<longleftrightarrow> end_cut val a fa = end_cut val b fb"
    using assms by (auto simp: sel_cmp_law_def)
  then show "f a b fa fb < 0 \<longleftrightarrow> end_cut val a fa < end_cut val b fb"
    "f a b fa fb = 0 \<longleftrightarrow> end_cut val a fa = end_cut val b fb" by blast+
  show "0 < f a b fa fb \<longleftrightarrow> end_cut val b fb < end_cut val a fa"
    "0 \<le> f a b fa fb \<longleftrightarrow> end_cut val b fb \<le> end_cut val a fa"
    "f a b fa fb \<le> 0 \<longleftrightarrow> end_cut val a fa \<le> end_cut val b fb"
    using l by (metis linorder_less_linear order_less_asym order_less_le not_less)+
qed

lemma sel_ctorD:
  assumes "sel_ctor_law mk"
  shows "sa_part (mk p mn mx fmin fmax mb) = p" "min_value (mk p mn mx fmin fmax mb) = mn"
    "max_value (mk p mn mx fmin fmax mb) = mx" "min_flag (mk p mn mx fmin fmax mb) = fmin"
    "max_flag (mk p mn mx fmin fmax mb) = fmax" "maybe_flag (mk p mn mx fmin fmax mb) = mb"
  using assms by (simp_all add: sel_ctor_law_def Let_def)

lemma flag_consts:
  "\<not> has_flag 0 f" "has_flag (ucast NEAR_MIN) NEAR_MIN" "\<not> has_flag (ucast NEAR_MIN) NO_MIN_RANGE"
  "\<not> has_flag (ucast NEAR_MIN) NO_MAX_RANGE" "\<not> has_flag (ucast NEAR_MIN) NEAR_MAX"
  "has_flag (ucast NEAR_MAX) NEAR_MAX" "\<not> has_flag (ucast NEAR_MAX) NO_MIN_RANGE"
  "\<not> has_flag (ucast NEAR_MAX) NO_MAX_RANGE" "\<not> has_flag (ucast NEAR_MAX) NEAR_MIN"
  by (simp_all add: has_flag_def NEAR_MIN_def NEAR_MAX_def NO_MIN_RANGE_def NO_MAX_RANGE_def)

text \<open>
  Turning an end around: the right end just below a left end, and the left end just above a right end. No
  cut of a value lies between.
\<close>

definition end_below :: "(bytes \<Rightarrow> 'k) \<Rightarrow> SEL_ARG \<Rightarrow> 'k cut" where
  "end_below val b = At (val (min_value b)) (if has_flag (min_flag b) NEAR_MIN then 0 else -1)"

definition end_above :: "(bytes \<Rightarrow> 'k) \<Rightarrow> SEL_ARG \<Rightarrow> 'k cut" where
  "end_above val b = At (val (max_value b)) (if has_flag (max_flag b) NEAR_MAX then 0 else 1)"

lemma end_below_iff:
  assumes "range_wf b" "\<not> has_flag (min_flag b) NO_MIN_RANGE"
  shows "At x 0 \<le> end_below val b \<longleftrightarrow> At x 0 < min_cut val b"
  using assms by (auto simp: end_below_def end_cut_def range_wf_def side_flags_defs less_cut_def)

lemma end_above_iff:
  assumes "range_wf b" "\<not> has_flag (max_flag b) NO_MAX_RANGE"
  shows "end_above val b \<le> At x 0 \<longleftrightarrow> max_cut val b < At x 0"
  using assms by (auto simp: end_above_def end_cut_def range_wf_def side_flags_defs less_cut_def)

subsection \<open>Cutting and merging intervals\<close>

lemma clone_and_cuts:
  assumes "sel_cmp_law val f" "sel_ctor_law mk" "range_wf a" "range_wf b"
  shows "min_cut val (clone_and mk f a b) = max (min_cut val a) (min_cut val b)"
    "max_cut val (clone_and mk f a b) = min (max_cut val a) (max_cut val b)"
proof -
  note c = sel_cmpD [OF assms(1)] range_wf_end_flags [OF assms(3)] range_wf_end_flags [OF assms(4)]
  show "min_cut val (clone_and mk f a b) = max (min_cut val a) (min_cut val b)"
    "max_cut val (clone_and mk f a b) = min (max_cut val a) (max_cut val b)"
    by (auto simp: clone_and_def Let_def cmp_min_to_min_def cmp_max_to_max_def c sel_ctorD [OF assms(2)] max_def min_def)
qed

lemma clone_first_cuts:
  assumes "sel_ctor_law mk"
  shows "min_cut val (clone_first mk a b) = min_cut val a" "max_cut val (clone_first mk a b) = end_below val b"
  by (simp_all add: clone_first_def sel_ctorD [OF assms] end_below_def end_cut_def flag_consts)

lemma copy_max_to_min_cuts:
  "min_cut val (copy_max_to_min b a) = end_above val b" "max_cut val (copy_max_to_min b a) = max_cut val a"
  by (simp_all add: copy_max_to_min_def end_above_def end_cut_def flag_consts)

text \<open>
  \<open>clone_and\<close> is the intersection: the new interval holds exactly the values both intervals hold, its ends
  carry only flags of their own side, it keeps the key part and is a maybe only if both are.
\<close>
theorem clone_and_is_intersection:
  assumes "sel_cmp_law val f" "sel_ctor_law mk" "range_wf a" "range_wf b"
  shows "(in_range val (clone_and mk f a b) x \<longleftrightarrow> in_range val a x \<and> in_range val b x) \<and>
    range_wf (clone_and mk f a b) \<and> sa_part (clone_and mk f a b) = sa_part a \<and>
    (maybe_flag (clone_and mk f a b) \<noteq> 0 \<longleftrightarrow> maybe_flag a \<noteq> 0 \<and> maybe_flag b \<noteq> 0)"
proof -
  have "in_range val (clone_and mk f a b) x \<longleftrightarrow> in_range val a x \<and> in_range val b x"
    by (auto simp: in_range_def clone_and_cuts [OF assms])
  moreover have "range_wf (clone_and mk f a b)"
    using assms(3,4) by (simp add: range_wf_def clone_and_def Let_def sel_ctorD [OF assms(2)])
  ultimately show ?thesis by (simp add: clone_and_def Let_def sel_ctorD [OF assms(2)])
qed

text \<open>An interval of the values from one byte to another, with given flags.\<close>

definition sample_range :: "uchar \<Rightarrow> uchar \<Rightarrow> uint8 \<Rightarrow> uint8 \<Rightarrow> SEL_ARG" where
  "sample_range lo hi fmin fmax = sample_ctor 0 [lo] [hi] fmin fmax 0"

lemma sample_range_wf: "range_wf (sample_range lo hi 0 0)" "range_wf (sample_range lo hi 4 0)"
  by (simp_all add: sample_range_def sample_ctor_def range_wf_def side_flags_defs has_flag_def NO_MIN_RANGE_def
      NO_MAX_RANGE_def NEAR_MIN_def NEAR_MAX_def)

theorem clone_and_is_intersection_witness:
  "in_range hd (clone_and sample_ctor sample_sel_cmp (sample_range 1 5 0 0) (sample_range 3 9 4 0)) (4 :: uchar) \<and>
   \<not> in_range hd (clone_and sample_ctor sample_sel_cmp (sample_range 1 5 0 0) (sample_range 3 9 4 0)) (3 :: uchar)"
proof -
  note t = clone_and_is_intersection [OF sample_laws sample_range_wf(1) sample_range_wf(2)]
  show ?thesis
    by (simp add: conjunct1 [OF t])
      (simp add: in_range_def sample_range_def sample_ctor_def end_cut_def has_flag_def NO_MIN_RANGE_def
        NO_MAX_RANGE_def NEAR_MIN_def NEAR_MAX_def)
qed

lemma cut_partition:
  fixes l :: "'a::linorder"
  assumes "bl \<le> br" "l \<le> br" "bl \<le> r"
  shows "(l \<le> x \<and> x \<le> r \<longleftrightarrow> (l \<le> x \<and> x < bl) \<or> ((l \<le> x \<and> x \<le> r) \<and> bl \<le> x \<and> x \<le> br) \<or> br < x \<and> x \<le> r) \<and>
    \<not> ((l \<le> x \<and> x < bl) \<and> (l \<le> x \<and> x \<le> r) \<and> bl \<le> x \<and> x \<le> br) \<and>
    \<not> (((l \<le> x \<and> x \<le> r) \<and> bl \<le> x \<and> x \<le> br) \<and> br < x \<and> x \<le> r) \<and>
    \<not> ((l \<le> x \<and> x < bl) \<and> br < x \<and> x \<le> r)"
  using assms by (cases "x < bl"; cases "br < x") auto

text \<open>
  C1. Cutting an interval at another one. For a bounded interval b, the three pieces the optimizer makes of an
  interval a hold, among all values, exactly: the part below (\<open>clone_first\<close>) those from the left end of a
  up to and without b, the common part (\<open>clone_and\<close>) those of both, the part above (\<open>copy_max_to_min\<close>) those
  behind b up to the right end of a. Their ends are the ends of a, the later left and the earlier right end of
  the two, and the ends of b turned around, closed where b is open and open where b is closed. When b is
  nonempty and meets a, no value is in two pieces and a is their union.
\<close>
theorem sel_arg_split:
  assumes "sel_cmp_law val f" "sel_ctor_law mk" "range_wf a" "range_wf b"
    and "\<not> has_flag (min_flag b) NO_MIN_RANGE" "\<not> has_flag (max_flag b) NO_MAX_RANGE"
  shows "(in_range val (clone_first mk a b) x \<longleftrightarrow> min_cut val a \<le> At x 0 \<and> At x 0 < min_cut val b) \<and>
    (in_range val (clone_and mk f a b) x \<longleftrightarrow> in_range val a x \<and> in_range val b x) \<and>
    (in_range val (copy_max_to_min b a) x \<longleftrightarrow> max_cut val b < At x 0 \<and> At x 0 \<le> max_cut val a) \<and>
    min_cut val (clone_first mk a b) = min_cut val a \<and> max_cut val (clone_first mk a b) = end_below val b \<and>
    min_cut val (clone_and mk f a b) = max (min_cut val a) (min_cut val b) \<and>
    max_cut val (clone_and mk f a b) = min (max_cut val a) (max_cut val b) \<and>
    min_cut val (copy_max_to_min b a) = end_above val b \<and> max_cut val (copy_max_to_min b a) = max_cut val a \<and>
    range_wf (clone_first mk a b) \<and> range_wf (clone_and mk f a b) \<and> range_wf (copy_max_to_min b a) \<and>
    (min_cut val b \<le> max_cut val b \<and> min_cut val a \<le> max_cut val b \<and> min_cut val b \<le> max_cut val a \<longrightarrow>
       (in_range val a x \<longleftrightarrow> in_range val (clone_first mk a b) x \<or> in_range val (clone_and mk f a b) x \<or>
          in_range val (copy_max_to_min b a) x) \<and>
       \<not> (in_range val (clone_first mk a b) x \<and> in_range val (clone_and mk f a b) x) \<and>
       \<not> (in_range val (clone_and mk f a b) x \<and> in_range val (copy_max_to_min b a) x) \<and>
       \<not> (in_range val (clone_first mk a b) x \<and> in_range val (copy_max_to_min b a) x))"
proof -
  note cuts = clone_first_cuts [OF assms(2), of val a b] clone_and_cuts [OF assms(1-4)] copy_max_to_min_cuts [of val b a]
  have lo: "in_range val (clone_first mk a b) x \<longleftrightarrow> min_cut val a \<le> At x 0 \<and> At x 0 < min_cut val b"
    by (simp add: in_range_def cuts end_below_iff [OF assms(4,5)])
  moreover have mid: "in_range val (clone_and mk f a b) x \<longleftrightarrow> in_range val a x \<and> in_range val b x"
    by (auto simp: in_range_def cuts)
  moreover have hi: "in_range val (copy_max_to_min b a) x \<longleftrightarrow> max_cut val b < At x 0 \<and> At x 0 \<le> max_cut val a"
    by (simp add: in_range_def cuts end_above_iff [OF assms(4,6)])
  moreover have "range_wf (clone_first mk a b)" "range_wf (clone_and mk f a b)" "range_wf (copy_max_to_min b a)"
    using assms(3,4) by (auto simp: range_wf_def side_flags_defs clone_first_def clone_and_def copy_max_to_min_def Let_def
        sel_ctorD [OF assms(2)] flag_consts)
  moreover have "(in_range val a x \<longleftrightarrow> in_range val (clone_first mk a b) x \<or> in_range val (clone_and mk f a b) x \<or>
       in_range val (copy_max_to_min b a) x) \<and>
     \<not> (in_range val (clone_first mk a b) x \<and> in_range val (clone_and mk f a b) x) \<and>
     \<not> (in_range val (clone_and mk f a b) x \<and> in_range val (copy_max_to_min b a) x) \<and>
     \<not> (in_range val (clone_first mk a b) x \<and> in_range val (copy_max_to_min b a) x)"
    if "min_cut val b \<le> max_cut val b" "min_cut val a \<le> max_cut val b" "min_cut val b \<le> max_cut val a"
    using cut_partition [OF that, of "At x 0"] unfolding lo mid hi unfolding in_range_def .
  ultimately show ?thesis unfolding cuts by blast
qed

theorem sel_arg_split_witness:
  "in_range hd (clone_first sample_ctor (sample_range 1 9 0 0) (sample_range 3 5 4 0)) (3 :: uchar) \<and>
   \<not> in_range hd (clone_first sample_ctor (sample_range 1 9 0 0) (sample_range 3 5 4 0)) (0 :: uchar) \<and>
   \<not> in_range hd (copy_max_to_min (sample_range 3 5 4 0) (sample_range 1 9 0 0)) (5 :: uchar) \<and>
   max_cut hd (copy_max_to_min (sample_range 3 5 4 0) (sample_range 1 9 0 0)) = At 9 0"
proof -
  have c: "\<not> has_flag (min_flag (sample_range 3 5 4 0)) NO_MIN_RANGE"
    "\<not> has_flag (max_flag (sample_range 3 5 4 0)) NO_MAX_RANGE"
    "min_cut hd (sample_range 1 9 0 0) = At 1 0" "max_cut hd (sample_range 1 9 0 0) = At 9 0"
    "min_cut hd (sample_range 3 5 4 0) = At 3 1" "max_cut hd (sample_range 3 5 4 0) = At 5 0"
    by (simp_all add: sample_range_def sample_ctor_def end_cut_def has_flag_def NO_MIN_RANGE_def
        NO_MAX_RANGE_def NEAR_MIN_def NEAR_MAX_def)
  note t = sel_arg_split [OF sample_laws sample_range_wf(1) sample_range_wf(2) c(1,2), of 1 9, unfolded c(3-6)]
  have "At (1 :: uchar) 0 \<le> At 3 0 \<and> At (3 :: uchar) 0 < At 3 1" "\<not> (At (1 :: uchar) 0 \<le> At 0 0 \<and> At (0 :: uchar) 0 < At 3 1)"
    "\<not> (At (5 :: uchar) 0 < At 5 0 \<and> At (5 :: uchar) 0 \<le> At 9 0)"
    by (simp_all add: less_cut_def)
  then show ?thesis using t [of 3] t [of 0] t [of 5] by (elim conjE) (intro conjI; (simp only: HOL.simp_thms)?)
qed

text \<open>
  \<open>copy_min\<close> and \<open>copy_max\<close> extend an interval to the hull of two: after both, the left end is the smaller
  left end and the right end the larger right end. Their announced result, that the interval has become
  the full range, is never returned: the test asks the flags of the right end for both infinities.
\<close>
theorem copy_ends_hull:
  assumes "sel_cmp_law val f" "range_wf a" "range_wf b"
  shows "(let (r, a1) = copy_min f b a; (s, a2) = copy_max f b a1 in
     min_cut val a2 = min (min_cut val a) (min_cut val b) \<and> max_cut val a2 = max (max_cut val a) (max_cut val b) \<and>
     range_wf a2 \<and> \<not> r \<and> \<not> s)"
proof -
  have ff: "\<not> full_range_flags fl" if "\<not> has_flag fl NO_MIN_RANGE" for fl
  proof
    assume "full_range_flags fl"
    then have "(ucast fl :: uint) AND 3 = 3" by (simp add: full_range_flags_def NO_MAX_RANGE_def NO_MIN_RANGE_def)
    then have "bit ((ucast fl :: uint) AND 3) 0" by simp
    moreover have "\<not> bit ((ucast fl :: uint) AND 1) 0" using that by (simp add: has_flag_def NO_MIN_RANGE_def)
    ultimately show False by (simp add: bit_and_iff)
  qed
  have c: "f u v (min_flag a) (min_flag b) > 0 \<longleftrightarrow> end_cut val v (min_flag b) < end_cut val u (min_flag a)"
    "f u v (max_flag a) (max_flag b) \<le> 0 \<longleftrightarrow> end_cut val u (max_flag a) \<le> end_cut val v (max_flag b)" for u v
    by (rule sel_cmpD(3,5) [OF assms(1) range_wf_end_flags(1) [OF assms(2)] range_wf_end_flags(1) [OF assms(3)]]
        sel_cmpD(3,5) [OF assms(1) range_wf_end_flags(2) [OF assms(2)] range_wf_end_flags(2) [OF assms(3)]])+
  show ?thesis
    using assms(2,3)
    by (auto simp: copy_min_def copy_max_def Let_def cmp_min_to_min_def cmp_max_to_max_def c ff
        range_wf_def side_flags_defs min_def max_def)
qed

theorem copy_ends_hull_witness:
  "max_cut hd (snd (copy_max sample_sel_cmp (sample_range 3 9 4 0) (snd (copy_min sample_sel_cmp (sample_range 3 9 4 0)
     (sample_range 1 5 0 0))))) = At (9 :: uchar) 0"
proof -
  have "At (5 :: uchar) 0 \<le> At 9 0" by simp
  with copy_ends_hull [OF sample_laws(1) sample_range_wf(1) [of 1 5] sample_range_wf(2) [of 3 9]] show ?thesis
    by (auto simp: sample_range_def sample_ctor_def end_cut_def has_flag_def NO_MIN_RANGE_def NO_MAX_RANGE_def
        NEAR_MIN_def NEAR_MAX_def Let_def case_prod_beta max_def)
qed

subsection \<open>Single points\<close>

text \<open>
  When two stored values of a field are the same key value: with a null indicator in front, both are null,
  or none is and the field compares the rest as equal.
\<close>

definition key_cmp_law :: "(bytes \<Rightarrow> 'k) \<Rightarrow> uint8 \<Rightarrow> (bytes \<Rightarrow> bytes \<Rightarrow> int) \<Rightarrow> bool" where
  "key_cmp_law val mnull key_cmp \<longleftrightarrow> (\<forall>a b. a \<noteq> [] \<longrightarrow> b \<noteq> [] \<longrightarrow> (val a = val b \<longleftrightarrow>
     (if mnull \<noteq> 0 then hd a \<noteq> 0 \<and> hd b \<noteq> 0 \<or> hd a = 0 \<and> hd b = 0 \<and> key_cmp (tl a) (tl b) = 0
      else key_cmp a b = 0)))"

text \<open>
  \<open>is_singlepoint\<close> answers true exactly for the closed intervals of one value, a constant or null, and such
  an interval holds that value only; for null indicators 0 and 1 it never misses one.
\<close>
theorem is_singlepoint_iff:
  assumes "key_cmp_law val (maybe_null a) key_cmp" "min_value a \<noteq> []" "max_value a \<noteq> []"
    and "maybe_null a \<noteq> 0 \<longrightarrow> hd (min_value a) \<in> {0, 1} \<and> hd (max_value a) \<in> {0, 1}"
  shows "is_singlepoint key_cmp a = Some (min_flag a = 0 \<and> max_flag a = 0 \<and> val (min_value a) = val (max_value a)) \<and>
    (is_singlepoint key_cmp a = Some True \<longrightarrow> (\<forall>x. in_range val a x \<longleftrightarrow> x = val (min_value a)))"
proof -
  have v: "val (min_value a) = val (max_value a) \<longleftrightarrow>
     (if maybe_null a \<noteq> 0 then hd (min_value a) \<noteq> 0 \<and> hd (max_value a) \<noteq> 0 \<or>
        hd (min_value a) = 0 \<and> hd (max_value a) = 0 \<and> key_cmp (tl (min_value a)) (tl (max_value a)) = 0
      else key_cmp (min_value a) (max_value a) = 0)"
    using assms(1-3) unfolding key_cmp_law_def by blast
  have g: "arr_get xs 0 = Some (hd xs)" if "xs \<noteq> []" for xs :: bytes using that by (cases xs) auto
  have i: "is_singlepoint key_cmp a = Some (min_flag a = 0 \<and> max_flag a = 0 \<and> val (min_value a) = val (max_value a))"
    using assms(4) v by (auto simp: is_singlepoint_def g [OF assms(2)] g [OF assms(3)] drop_Suc)
  have "in_range val a x \<longleftrightarrow> x = val (min_value a)"
    if "min_flag a = 0" "max_flag a = 0" "val (min_value a) = val (max_value a)" for x
    using that by (auto simp: in_range_def end_cut_def flag_consts)
  with i show ?thesis by simp
qed

theorem is_singlepoint_iff_witness:
  "is_singlepoint (\<lambda>a b. if hd a = hd b then 0 else 1) (sample_range 7 7 0 0) = Some True"
proof -
  have "key_cmp_law hd 0 (\<lambda>a b. if hd a = hd b then 0 else 1)" by (auto simp: key_cmp_law_def)
  with is_singlepoint_iff [of hd "sample_range 7 7 0 0" "\<lambda>a b. if hd a = hd b then 0 else 1"] show ?thesis
    by (simp add: sample_range_def sample_ctor_def)
qed

subsection \<open>Keys of a chain of key parts\<close>

text \<open>
  The bytes of one left end, and the list of the intervals whose left ends make up the key. The list starts at
  the first interval of the tree \<open>self\<close>. An interval belongs to it when its left end is bounded and no left end
  before it is open or unbounded; a geometry always does. The list goes on with the next key part when that is
  a range on the adjacent part, the part is not the last one wanted, and no left end up to here is open or
  unbounded; otherwise it ends. \<open>flag\<close> has the flags before.
\<close>

definition end_image :: "uint8 \<Rightarrow> bytes \<Rightarrow> nat \<Rightarrow> bytes" where
  "end_image mnull v len = (if mnull \<noteq> 0 \<and> hd v \<noteq> 0 then 1 # replicate (len - 1) 0 else take len v)"

definition closed_so_far :: "uint \<Rightarrow> bool" where
  "closed_so_far flag \<longleftrightarrow> flag AND NO_MIN_RANGE = 0 \<and> flag AND NEAR_MIN = 0"

definition left_end_counts :: "uint \<Rightarrow> SEL_ARG \<Rightarrow> bool" where
  "left_end_counts flag a \<longleftrightarrow> has_flag (min_flag a) GEOM_FLAG \<or> \<not> has_flag (min_flag a) NO_MIN_RANGE \<and> closed_so_far flag"

definition next_part_counts :: "sel_graph \<Rightarrow> uint \<Rightarrow> SEL_ARG \<Rightarrow> bool" where
  "next_part_counts g last_part a \<longleftrightarrow> next_key_part a \<noteq> 0 \<and> (case sg_node g (next_key_part a) of None \<Rightarrow> False
     | Some nx \<Rightarrow> sel_type nx = KEY_RANGE \<and> unat (sa_part nx) = unat (sa_part a) + 1) \<and> ucast (sa_part a) \<noteq> last_part"

fun min_chain :: "sel_graph \<Rightarrow> uint \<Rightarrow> nat \<Rightarrow> uint \<Rightarrow> SEL_ARG list \<Rightarrow> bool" where
  "min_chain g last_part self flag [] \<longleftrightarrow>
     (case sg_node g (sg_first g self) of None \<Rightarrow> False | Some a \<Rightarrow> \<not> left_end_counts flag a)"
| "min_chain g last_part self flag (a # as) \<longleftrightarrow> sg_node g (sg_first g self) = Some a \<and> left_end_counts flag a \<and>
     (let flag = flag OR ucast (min_flag a)
      in if next_part_counts g last_part a \<and> closed_so_far flag then min_chain g last_part (next_key_part a) flag as
         else as = [])"

text \<open>There is at most one such list.\<close>

lemma min_chain_unique: "min_chain g lp self flag as \<Longrightarrow> min_chain g lp self flag bs \<Longrightarrow> as = bs"
proof (induction as arbitrary: self flag bs)
  case Nil
  then show ?case by (cases bs) (auto split: option.splits)
next
  case (Cons a as)
  then show ?case by (cases bs) (auto simp: Let_def split: option.splits if_splits)
qed

lemma word_and_or_zero: "(w :: 'a::len word) AND (x OR y) = 0 \<longleftrightarrow> w AND x = 0 \<and> w AND y = 0"
  by (auto simp: bit_eq_iff bit_and_iff bit_or_iff)

lemma closed_so_far_iff: "flag AND (NO_MIN_RANGE OR NEAR_MIN) = 0 \<longleftrightarrow> closed_so_far flag"
  by (simp add: closed_so_far_def word_and_or_zero)

lemma next_part_counts_iff:
  "next_part_counts g lp a \<longleftrightarrow>
     next_key_part a \<noteq> 0 \<and> (\<exists>nx. sg_node g (next_key_part a) = Some nx \<and> next_part_follows a nx lp)"
proof -
  have "unat v = unat w + 1 \<longleftrightarrow> uint v = uint w + 1" for v w :: uint8
    using unsigned_greater_eq [of v, where 'a = int] unsigned_greater_eq [of w, where 'a = int]
    unfolding unat_eq_nat_uint by linarith
  then show ?thesis by (cases "sg_node g (next_key_part a)") (auto simp: next_part_counts_def next_part_follows_def)
qed

text \<open>
  Trees of intervals: the first interval of a tree is on its key part, the next key part is a tree, and the
  values are long enough for the store lengths.
\<close>

definition sel_graph_ok :: "sel_graph \<Rightarrow> (nat \<Rightarrow> nat) \<Rightarrow> bool" where
  "sel_graph_ok g slen \<longleftrightarrow>
     (\<forall>r a. sg_node g r = Some a \<longrightarrow> (\<exists>b. sg_node g (sg_first g r) = Some b \<and> sa_part b = sa_part a)) \<and>
     (\<forall>r a. sg_node g r = Some a \<longrightarrow> 0 < slen (unat (sa_part a)) \<and> slen (unat (sa_part a)) \<le> length (min_value a) \<and>
        (next_key_part a = 0 \<or> sg_node g (next_key_part a) \<noteq> None))"

lemma store_value_image:
  assumes "0 < len" "len \<le> length v" "off + len \<le> length buf"
  shows "store_value mnull v len buf off = arr_blit buf off (end_image mnull v len)"
    "length (end_image mnull v len) = len"
proof -
  have hd: "arr_get v 0 = Some (hd v)" using assms(1,2) by (cases v) auto
  have s: "arr_slice v 0 len = Some (take len v)" using assms(2) by (simp add: arr_slice_def)
  have n: "Option.bind (arr_set buf off 1) (\<lambda>b. arr_blit b (off + 1) (replicate (len - 1) 0))
      = arr_blit buf off (1 # replicate (len - 1) 0)"
    using arr_blit_append [of buf off "[1]" "replicate (len - 1) 0"] by (simp add: arr_set_eq_blit)
  show "store_value mnull v len buf off = arr_blit buf off (end_image mnull v len)"
    using assms(1) n by (auto simp: store_value_def hd s end_image_def)
  show "length (end_image mnull v len) = len" using assms(1,2) by (simp add: end_image_def)
qed

lemma store_min_cases:
  assumes "0 < len" "len \<le> length (min_value a)" "off + len \<le> length buf"
  obtains "\<not> left_end_counts flag a" "store_min a len flag buf off = Some (0, buf, off)"
  | buf' where "left_end_counts flag a" "store_min a len flag buf off = Some (1, buf', off + len)" "length buf' = length buf"
    "take off buf' = take off buf" "drop (off + len) buf' = drop (off + len) buf"
    "arr_slice buf' off len = Some (end_image (maybe_null a) (min_value a) len)"
proof -
  let ?im = "end_image (maybe_null a) (min_value a) len"
  note im = store_value_image [OF assms, of "maybe_null a"]
  define buf' where "buf' = take off buf @ ?im @ drop (off + len) buf"
  have b: "arr_blit buf off ?im = Some buf'" using assms(3) im(2) by (simp add: arr_blit_def buf'_def)
  have "length buf' = length buf" "take off buf' = take off buf" "drop (off + len) buf' = drop (off + len) buf"
    using assms(3) im(2) by (auto simp: buf'_def)
  moreover have "arr_slice buf' off len = Some ?im" using arr_slice_blit_same [OF b] im(2) by simp
  ultimately show thesis
    using that im(1) b by (cases "left_end_counts flag a")
      (auto simp: store_min_def closed_so_far_iff left_end_counts_def)
qed

lemma sum_parts: "p < 256 \<Longrightarrow> sum (f :: nat \<Rightarrow> nat) {p..<256} = f p + sum f {Suc p..<256}"
  by (simp add: sum.atLeast_Suc_lessThan)

lemma arr_slice_take_eq:
  assumes "take (i + n) xs = take (i + n) ys" "length xs = length ys"
  shows "arr_slice xs i n = arr_slice ys i n"
proof -
  have "take n (drop i xs) = drop i (take (i + n) xs)" "take n (drop i ys) = drop i (take (i + n) ys)"
    by (simp_all add: take_drop add.commute)
  with assms show ?thesis by (simp add: arr_slice_def)
qed

text \<open>The bytes of the left ends of a list of intervals, and their flags.\<close>

definition chain_image :: "(nat \<Rightarrow> nat) \<Rightarrow> SEL_ARG list \<Rightarrow> bytes" where
  "chain_image slen as = concat (map (\<lambda>a. end_image (maybe_null a) (min_value a) (slen (unat (sa_part a)))) as)"

definition chain_flags :: "SEL_ARG list \<Rightarrow> uint \<Rightarrow> uint" where
  "chain_flags as flag = fold (\<lambda>a fl. fl OR ucast (min_flag a)) as flag"

lemma chain_simps [simp]:
  "chain_image slen [] = []" "chain_flags [] flag = flag"
  "chain_image slen (a # as) = end_image (maybe_null a) (min_value a) (slen (unat (sa_part a))) @ chain_image slen as"
  "chain_flags (a # as) flag = chain_flags as (flag OR ucast (min_flag a))"
  by (simp_all add: chain_image_def chain_flags_def)

lemma store_min_key_chain:
  assumes "sel_graph_ok g slen" "sg_node g self = Some a0"
    and "off + sum slen {unat (sa_part a0)..<256} \<le> length buf" "256 \<le> fuel + unat (sa_part a0)"
  shows "\<exists>as buf' off'. min_chain g last_part self flag as \<and>
    store_min_key fuel g slen last_part self buf off flag = Some (length as, buf', off', chain_flags as flag) \<and>
    off' = off + sum slen {unat (sa_part a0)..<unat (sa_part a0) + length as} \<and>
    length buf' = length buf \<and> take off buf' = take off buf \<and> drop off' buf' = drop off' buf \<and>
    arr_slice buf' off (off' - off) = Some (chain_image slen as)"
  using assms(2-4)
proof (induction fuel arbitrary: self a0 buf off flag)
  case 0
  have "unat (sa_part a0) < 256" using unsigned_less [of "sa_part a0", where 'a = nat] by simp
  with 0 show ?case by simp
next
  case (Suc fuel)
  let ?p = "unat (sa_part a0)"
  have p: "?p < 256" using unsigned_less [of "sa_part a0", where 'a = nat] by simp
  obtain a where a: "sg_node g (sg_first g self) = Some a" "sa_part a = sa_part a0"
    using assms(1) Suc.prems(1) unfolding sel_graph_ok_def by blast
  have len: "0 < slen ?p" "slen ?p \<le> length (min_value a)" "next_key_part a = 0 \<or> sg_node g (next_key_part a) \<noteq> None"
    using assms(1) a unfolding sel_graph_ok_def by metis+
  have room: "off + slen ?p + sum slen {Suc ?p..<256} \<le> length buf" using Suc.prems(2) sum_parts [OF p, of slen] by simp
  then have "off + slen ?p \<le> length buf" by simp
  from store_min_cases [OF len(1,2) this, of flag] show ?case
  proof cases
    case 1
    from 1(2) have "store_min_key (Suc fuel) g slen last_part self buf off flag = Some (0, buf, off, flag)"
      by (simp add: a)
    then show ?thesis using 1(1)
      by (intro exI [of _ "[]"] exI [of _ buf] exI [of _ off]) (use room in \<open>simp add: arr_slice_def a\<close>)
  next
    case (2 b1)
    let ?fl = "flag OR ucast (min_flag a)"
    let ?im = "end_image (maybe_null a) (min_value a) (slen ?p)"
    let ?o = "off + slen ?p"
    show ?thesis
    proof (cases "next_part_counts g last_part a \<and> closed_so_far ?fl")
      case False
      have "store_min_key (Suc fuel) g slen last_part self buf off flag = Some (1, b1, ?o, ?fl)"
        using False len(3) 2(2) by (auto simp: a Let_def closed_so_far_iff next_part_counts_iff)
      moreover have "arr_slice b1 off (?o - off) = Some (chain_image slen [a])" using 2(6) by (simp add: a(2))
      moreover have "min_chain g last_part self flag [a]" using False 2(1) a(1) by (auto simp: Let_def)
      ultimately show ?thesis using 2(3-5) by (intro exI [of _ "[a]"] exI [of _ b1] exI [of _ ?o]) simp
    next
      case True
      then obtain nx where nx: "next_key_part a \<noteq> 0" "sg_node g (next_key_part a) = Some nx"
        "next_part_follows a nx last_part" "?fl AND (NO_MIN_RANGE OR NEAR_MIN) = 0"
        by (auto simp: closed_so_far_iff next_part_counts_iff)
      have u: "uint (sa_part nx) = uint (sa_part a0) + 1"
        using nx(3) unfolding next_part_follows_def a(2) by blast
      have p': "unat (sa_part nx) = Suc ?p"
        unfolding unat_eq_nat_uint u using unsigned_greater_eq [of "sa_part a0", where 'a = int] by linarith
      have "?o + sum slen {unat (sa_part nx)..<256} \<le> length b1" using room 2(3) by (simp add: p')
      moreover have "256 \<le> fuel + unat (sa_part nx)" using Suc.prems(3) p' by simp
      ultimately obtain as b2 o2 where r:
        "store_min_key fuel g slen last_part (next_key_part a) b1 ?o ?fl = Some (length as, b2, o2, chain_flags as ?fl)"
        "min_chain g last_part (next_key_part a) ?fl as" "o2 = ?o + sum slen {Suc ?p..<Suc ?p + length as}" "length b2 = length b1"
        "take ?o b2 = take ?o b1" "drop o2 b2 = drop o2 b1"
        "arr_slice b2 ?o (o2 - ?o) = Some (chain_image slen as)"
        using Suc.IH [OF nx(2), of ?o b1 ?fl] unfolding p' by blast
      have "store_min_key (Suc fuel) g slen last_part self buf off flag = Some (length (a # as), b2, o2, chain_flags (a # as) flag)"
        using nx 2(2) r(1) by (simp add: a Let_def)
      moreover have "min_chain g last_part self flag (a # as)" using a True 2(1) r(2) by (simp add: Let_def)
      moreover have o: "o2 = off + sum slen {?p..<?p + length (a # as)}"
        using r(3) sum.atLeast_Suc_lessThan [of ?p "?p + length (a # as)" slen] by simp
      moreover have "length b2 = length buf" using r(4) 2(3) by simp
      moreover have "take off b2 = take off buf"
        using r(5) 2(4) by (metis le_add1 min.absorb1 take_take)
      moreover have "drop o2 b2 = drop o2 buf"
        using r(3,6) 2(5) by (metis drop_drop le_add_diff_inverse2 le_add1)
      moreover have "arr_slice b2 off (slen ?p) = Some ?im"
        using arr_slice_take_eq [of off "slen ?p" b2 b1] r(4,5) 2(6) by simp
      then have "arr_slice b2 off (slen ?p + (o2 - ?o)) = Some (?im @ chain_image slen as)"
        using r(7) unfolding arr_slice_split by blast
      then have "arr_slice b2 off (o2 - off) = Some (chain_image slen (a # as))"
        using r(3) by (simp add: a(2))
      ultimately show ?thesis by blast
    qed
  qed
qed

text \<open>
  C32. Writing a left key is safe and ends: when the buffer has room for the store lengths of the key parts from
  the current one on, 256 levels are enough. There is one list of intervals that makes up the key, from the
  first interval of the tree over the next key parts as long as the left ends are bounded and closed, and the
  call writes the left ends of exactly this list, one behind the other, without gaps; it returns their number,
  moves the offset by exactly their store lengths, collects exactly their flags, and leaves the rest of the
  buffer as it was.
\<close>
theorem store_min_key_writes_chain:
  assumes "sel_graph_ok g slen" "sg_node g self = Some a0"
    and "off + sum slen {unat (sa_part a0)..<256} \<le> length buf" "256 \<le> fuel + unat (sa_part a0)"
  shows "\<exists>as buf' off'. min_chain g last_part self flag as \<and> (\<forall>bs. min_chain g last_part self flag bs \<longrightarrow> bs = as) \<and>
    store_min_key fuel g slen last_part self buf off flag = Some (length as, buf', off', chain_flags as flag) \<and>
    off' = off + sum slen {unat (sa_part a0)..<unat (sa_part a0) + length as} \<and>
    length buf' = length buf \<and> take off buf' = take off buf \<and> drop off' buf' = drop off' buf \<and>
    arr_slice buf' off (off' - off) = Some (chain_image slen as)"
  using store_min_key_chain [OF assms, of last_part flag] min_chain_unique [of g last_part self flag] by metis

text \<open>Two key parts, each with one interval.\<close>

definition sample_graph :: sel_graph where
  "sample_graph = \<lparr>sg_node = [1 \<mapsto> sample_ctor 0 [7] [7] 0 0 0\<lparr>next_key_part := 2\<rparr>, 2 \<mapsto> sample_ctor 1 [9] [9] 0 0 0],
     sg_first = id, sg_last = id\<rparr>"

theorem store_min_key_writes_chain_witness:
  "\<exists>buf'. store_min_key 256 sample_graph (\<lambda>_. 1) 99 1 (replicate 256 0) 0 0 = Some (2, buf', 2, 0) \<and>
     arr_slice buf' 0 2 = Some [7, 9] \<and> drop 2 buf' = replicate 254 0"
proof -
  let ?as = "[sample_ctor 0 [7] [7] 0 0 0\<lparr>next_key_part := 2\<rparr>, sample_ctor 1 [9] [9] 0 0 0]"
  have ok: "sel_graph_ok sample_graph (\<lambda>_. 1)"
    by (auto simp: sel_graph_ok_def sample_graph_def sample_ctor_def)
  have n: "sg_node sample_graph 1 = Some (sample_ctor 0 [7] [7] 0 0 0\<lparr>next_key_part := 2\<rparr>)"
    by (simp add: sample_graph_def)
  have c: "min_chain sample_graph 99 1 0 ?as"
    by (simp add: sample_graph_def sample_ctor_def left_end_counts_def next_part_counts_def closed_so_far_def flag_consts
        Let_def)
  obtain as buf' off' where r: "min_chain sample_graph 99 1 0 as"
    "store_min_key 256 sample_graph (\<lambda>_. 1) 99 1 (replicate 256 0) 0 0 = Some (length as, buf', off', chain_flags as 0)"
    "off' = length as" "drop off' buf' = drop off' (replicate 256 0)" "arr_slice buf' 0 off' = Some (chain_image (\<lambda>_. 1) as)"
    using store_min_key_writes_chain [OF ok n, of 0 "replicate 256 0" 256 99 0]
    by (auto simp: sample_ctor_def simp del: store_min_key.simps)
  have "as = ?as" using min_chain_unique [OF r(1) c] .
  with r(2-5) show ?thesis
    by (simp add: end_image_def sample_ctor_def numeral_2_eq_2 del: store_min_key.simps)
qed

end
