(* ===== verification/AutoInc.thy ===== *)
theory AutoInc
  imports Prelude "HOL-Library.Monad_Syntax"
begin

text \<open>
  \<open>Discrete_interval\<close> and \<open>Discrete_intervals_list\<close> of \<open>structs.h\<close>: the intervals of automatically
  generated key values of a statement, their merging, and the list a replica or \<open>SET INSERT_ID\<close> consumes
  them from; and the options of DDL statements, \<open>DDL_options_st\<close>. \<open>append\<close> of the list is code outside
  the headers; lists are described by the nodes they link.
\<close>

subsection \<open>Intervals\<close>

text \<open>A pointer to an interval is a number, 0 the null pointer.\<close>

type_synonym dptr = nat

record Discrete_interval =
  interval_min :: ulonglong
  interval_values :: ulonglong
  interval_max :: ulonglong
  di_next :: dptr

definition ULONGLONG_MAX :: ulonglong where
  "ULONGLONG_MAX = NOT 0"

definition di_replace :: "ulonglong \<Rightarrow> ulonglong \<Rightarrow> ulonglong \<Rightarrow> Discrete_interval \<Rightarrow> Discrete_interval" where
  "di_replace start val incr d =
     d\<lparr>interval_min := start, interval_values := val,
       interval_max := (if val = ULONGLONG_MAX then val else start + val * incr)\<rparr>"

definition di_new :: "ulonglong \<Rightarrow> ulonglong \<Rightarrow> ulonglong \<Rightarrow> Discrete_interval" where
  "di_new start val incr =
     di_replace start val incr \<lparr>interval_min = 0, interval_values = 0, interval_max = 0, di_next = 0\<rparr>"

definition di_default :: Discrete_interval where
  "di_default = di_replace 0 0 0 \<lparr>interval_min = 0, interval_values = 0, interval_max = 0, di_next = 0\<rparr>"

definition di_minimum :: "Discrete_interval \<Rightarrow> ulonglong" where
  "di_minimum d = interval_min d"

definition di_values :: "Discrete_interval \<Rightarrow> ulonglong" where
  "di_values d = interval_values d"

definition di_maximum :: "Discrete_interval \<Rightarrow> ulonglong" where
  "di_maximum d = interval_max d"

text \<open>The result is false when the interval was merged.\<close>

definition merge_if_contiguous ::
  "ulonglong \<Rightarrow> ulonglong \<Rightarrow> ulonglong \<Rightarrow> Discrete_interval \<Rightarrow> bool \<times> Discrete_interval" where
  "merge_if_contiguous start val incr d =
     (if interval_max d = start
      then if val = ULONGLONG_MAX
           then (False, d\<lparr>interval_values := val, interval_max := val\<rparr>)
           else (False, d\<lparr>interval_values := interval_values d + val, interval_max := start + val * incr\<rparr>)
      else (True, d))"

subsection \<open>Lists of intervals\<close>

type_synonym dheap = "dptr \<Rightarrow> Discrete_interval option"

record Discrete_intervals_list =
  dl_head :: dptr
  dl_tail :: dptr
  dl_current :: dptr
  dl_elements :: uint

definition set_members :: "dptr \<Rightarrow> dptr \<Rightarrow> dptr \<Rightarrow> uint \<Rightarrow> Discrete_intervals_list \<Rightarrow> Discrete_intervals_list" where
  "set_members h t c el l = l\<lparr>dl_head := h, dl_tail := t, dl_current := c, dl_elements := el\<rparr>"

text \<open>The constructor leaves \<open>tail\<close> as the memory has it.\<close>

definition dl_new :: "dptr \<Rightarrow> Discrete_intervals_list" where
  "dl_new junk = \<lparr>dl_head = 0, dl_tail = junk, dl_current = 0, dl_elements = 0\<rparr>"

definition empty_no_free :: "Discrete_intervals_list \<Rightarrow> Discrete_intervals_list" where
  "empty_no_free l = set_members 0 0 0 0 l"

text \<open>The loop of \<open>empty\<close>: each step reads the link and frees the node; a cyclic list would not end.\<close>

partial_function (option) dl_free_loop :: "dheap \<Rightarrow> dptr \<Rightarrow> dheap option" where
  "dl_free_loop h i =
     (if i = 0 then Some h else do { d \<leftarrow> h i; dl_free_loop (h(i := None)) (di_next d) })"

definition dl_empty :: "dheap \<Rightarrow> Discrete_intervals_list \<Rightarrow> (dheap \<times> Discrete_intervals_list) option" where
  "dl_empty h l = do { h \<leftarrow> dl_free_loop h (dl_head l); Some (h, empty_no_free l) }"

definition copy_shallow :: "Discrete_intervals_list \<Rightarrow> Discrete_intervals_list \<Rightarrow> Discrete_intervals_list" where
  "copy_shallow dli l =
     l\<lparr>dl_head := dl_head dli, dl_tail := dl_tail dli, dl_current := dl_current dli, dl_elements := dl_elements dli\<rparr>"

text \<open>The new values of the list and of the argument.\<close>

definition dl_swap ::
  "Discrete_intervals_list \<Rightarrow> Discrete_intervals_list \<Rightarrow> Discrete_intervals_list \<times> Discrete_intervals_list" where
  "dl_swap dli l =
     (let h = dl_head dli; t = dl_tail dli; c = dl_current dli; el = dl_elements dli;
          dli = copy_shallow l dli
      in (set_members h t c el l, dli))"

definition dl_get_next :: "dheap \<Rightarrow> Discrete_intervals_list \<Rightarrow> (dptr \<times> Discrete_intervals_list) option" where
  "dl_get_next h l =
     (let tmp = dl_current l
      in if tmp \<noteq> 0 then map_option (\<lambda>d. (tmp, l\<lparr>dl_current := di_next d\<rparr>)) (h tmp) else Some (tmp, l))"

definition dl_minimum :: "dheap \<Rightarrow> Discrete_intervals_list \<Rightarrow> ulonglong option" where
  "dl_minimum h l = (if dl_head l \<noteq> 0 then map_option di_minimum (h (dl_head l)) else Some 0)"

definition dl_maximum :: "dheap \<Rightarrow> Discrete_intervals_list \<Rightarrow> ulonglong option" where
  "dl_maximum h l = (if dl_head l \<noteq> 0 then map_option di_maximum (h (dl_tail l)) else Some 0)"

definition nb_elements :: "Discrete_intervals_list \<Rightarrow> uint" where
  "nb_elements l = dl_elements l"

subsection \<open>DDL options\<close>

type_synonym ddl_options = uint

definition OPT_NONE :: ddl_options where
  "OPT_NONE = 0"

definition OPT_IF_NOT_EXISTS :: ddl_options where
  "OPT_IF_NOT_EXISTS = 2"

definition OPT_LIKE :: ddl_options where
  "OPT_LIKE = 4"

definition OPT_OR_REPLACE :: ddl_options where
  "OPT_OR_REPLACE = 16"

definition OPT_OR_REPLACE_SLAVE_GENERATED :: ddl_options where
  "OPT_OR_REPLACE_SLAVE_GENERATED = 32"

definition OPT_IF_EXISTS :: ddl_options where
  "OPT_IF_EXISTS = 64"

definition create_like_options :: "ddl_options \<Rightarrow> ddl_options" where
  "create_like_options m_options = m_options AND (OPT_IF_NOT_EXISTS OR OPT_OR_REPLACE)"

definition ddl_init :: ddl_options where
  "ddl_init = OPT_NONE"

definition if_not_exists :: "ddl_options \<Rightarrow> bool" where
  "if_not_exists m_options \<longleftrightarrow> m_options AND OPT_IF_NOT_EXISTS \<noteq> 0"

definition or_replace :: "ddl_options \<Rightarrow> bool" where
  "or_replace m_options \<longleftrightarrow> m_options AND OPT_OR_REPLACE \<noteq> 0"

definition or_replace_slave_generated :: "ddl_options \<Rightarrow> bool" where
  "or_replace_slave_generated m_options \<longleftrightarrow> m_options AND OPT_OR_REPLACE_SLAVE_GENERATED \<noteq> 0"

definition ddl_like :: "ddl_options \<Rightarrow> bool" where
  "ddl_like m_options \<longleftrightarrow> m_options AND OPT_LIKE \<noteq> 0"

definition if_exists :: "ddl_options \<Rightarrow> bool" where
  "if_exists m_options \<longleftrightarrow> m_options AND OPT_IF_EXISTS \<noteq> 0"

definition ddl_add :: "ddl_options \<Rightarrow> ddl_options \<Rightarrow> ddl_options" where
  "ddl_add other m_options = m_options OR other"

subsection \<open>Merging\<close>

text \<open>
  The values an interval stands for, with the increment its user maintains, when none of them leaves the
  64-bit range; the excluded bound is then the first value behind them.
\<close>

definition di_points :: "nat \<Rightarrow> Discrete_interval \<Rightarrow> nat list" where
  "di_points incr d = map (\<lambda>k. unat (interval_min d) + k * incr) [0..<unat (interval_values d)]"

definition di_fits :: "nat \<Rightarrow> Discrete_interval \<Rightarrow> bool" where
  "di_fits incr d \<longleftrightarrow> unat (interval_min d) + unat (interval_values d) * incr < 2 ^ 64 \<and>
     unat (interval_max d) = unat (interval_min d) + unat (interval_values d) * incr"

lemma di_new_fits:
  assumes "unat start + unat val * unat incr < 2 ^ 64" "val \<noteq> ULONGLONG_MAX"
  shows "di_fits (unat incr) (di_new start val incr)"
proof -
  have "unat val * unat incr < 2 ^ 64" using assms(1) by linarith
  then have "unat (start + val * incr) = unat start + unat val * unat incr"
    using assms(1) by (simp add: unat_word_ariths)
  then show ?thesis using assms by (simp add: di_fits_def di_new_def di_replace_def)
qed

text \<open>
  Merging is exact: for an interval whose values stay in range, an interval that starts at its excluded bound
  is merged and nothing else is, and the merged interval has the values of both, in order, no value twice
  and none lost, again in range; a refused merge changes nothing.
\<close>
theorem merge_if_contiguous_exact:
  assumes "di_fits (unat incr) d" "unat start + unat val * unat incr < 2 ^ 64" "val \<noteq> ULONGLONG_MAX"
    and "unat (interval_values d) + unat val < 2 ^ 64"
  shows "(let (refused, d') = merge_if_contiguous start val incr d in
     (refused \<longleftrightarrow> start \<noteq> di_maximum d) \<and> (refused \<longrightarrow> d' = d) \<and>
     (\<not> refused \<longrightarrow> di_points (unat incr) d' = di_points (unat incr) d @ di_points (unat incr) (di_new start val incr) \<and>
        di_fits (unat incr) d' \<and> di_next d' = di_next d))"
proof (cases "interval_max d = start")
  case True
  let ?i = "unat incr" and ?n = "unat (interval_values d)" and ?m = "unat val"
  have s: "unat start = unat (interval_min d) + ?n * ?i" using assms(1) True by (simp add: di_fits_def)
  have "?m * ?i < 2 ^ 64" using assms(2) by linarith
  then have e: "unat (start + val * incr) = unat start + ?m * ?i"
    using assms(2) by (simp add: unat_word_ariths)
  have v: "unat (interval_values d + val) = ?n + ?m" using assms(4) by (simp add: unat_word_ariths)
  let ?d = "d\<lparr>interval_values := interval_values d + val, interval_max := start + val * incr\<rparr>"
  have "di_points ?i ?d = di_points ?i d @ di_points ?i (di_new start val incr)"
  proof -
    have "[0..<?n + ?m] = [0..<?n] @ map (\<lambda>k. k + ?n) [0..<?m]"
      by (simp add: upt_add_eq_append [of 0 ?n ?m] map_add_upt add.commute [of ?m ?n])
    moreover have "di_points ?i ?d = map (\<lambda>k. unat (interval_min d) + k * ?i) [0..<?n + ?m]"
      by (simp add: di_points_def v)
    ultimately have "di_points ?i ?d = di_points ?i d @ map (\<lambda>k. unat start + k * ?i) [0..<?m]"
      by (simp add: di_points_def s algebra_simps)
    then show ?thesis by (simp add: di_points_def di_new_def di_replace_def)
  qed
  moreover have "di_fits ?i ?d" using assms(2) e s by (simp add: di_fits_def v add_mult_distrib)
  ultimately show ?thesis using True assms(3) by (simp add: merge_if_contiguous_def di_maximum_def)
next
  case False
  then show ?thesis by (auto simp: merge_if_contiguous_def di_maximum_def)
qed

theorem merge_if_contiguous_exact_witness:
  "di_points 2 (snd (merge_if_contiguous 7 2 2 (di_new 1 3 2))) = [1, 3, 5, 7, 9]"
proof -
  have "di_fits (unat (2 :: ulonglong)) (di_new 1 3 2)" by (rule di_new_fits) (simp_all add: ULONGLONG_MAX_def)
  from merge_if_contiguous_exact [OF this, of 7 2] show ?thesis
    by (simp add: Let_def case_prod_beta di_new_def di_replace_def ULONGLONG_MAX_def merge_if_contiguous_def di_points_def
        upt_rec di_maximum_def)
qed

subsection \<open>Consuming and freeing a list\<close>

text \<open>The nodes linked from a pointer on, ending in the null pointer.\<close>

fun dchain :: "dheap \<Rightarrow> dptr \<Rightarrow> dptr list \<Rightarrow> bool" where
  "dchain h i [] \<longleftrightarrow> i = 0"
| "dchain h i (p # ps) \<longleftrightarrow> i = p \<and> p \<noteq> 0 \<and> (\<exists>d. h p = Some d \<and> dchain h (di_next d) ps)"

definition is_dlist :: "dheap \<Rightarrow> Discrete_intervals_list \<Rightarrow> dptr list \<Rightarrow> bool" where
  "is_dlist h l ps \<longleftrightarrow> distinct ps \<and> dchain h (dl_head l) ps \<and> (ps \<noteq> [] \<longrightarrow> dl_tail l = last ps) \<and>
     unat (dl_elements l) = length ps"

fun get_next_many :: "nat \<Rightarrow> dheap \<Rightarrow> Discrete_intervals_list \<Rightarrow> (dptr list \<times> Discrete_intervals_list) option" where
  "get_next_many 0 h l = Some ([], l)"
| "get_next_many (Suc n) h l = do {
     (p, l) \<leftarrow> dl_get_next h l;
     (ps, l) \<leftarrow> get_next_many n h l;
     Some (p # ps, l)
   }"

lemma dchain_frame: "dchain h i ps \<Longrightarrow> x \<notin> set ps \<Longrightarrow> dchain (h(x := e)) i ps"
  by (induction ps arbitrary: i) auto

lemma dl_free_loop_chain:
  "dchain h i ps \<Longrightarrow> distinct ps \<Longrightarrow> dl_free_loop h i = Some (\<lambda>p. if p \<in> set ps then None else h p)"
proof (induction ps arbitrary: h i)
  case Nil
  then show ?case by (simp add: dl_free_loop.simps)
next
  case (Cons p ps)
  then obtain d where d: "i = p" "p \<noteq> 0" "h p = Some d" "dchain h (di_next d) ps" by auto
  have "dchain (h(p := None)) (di_next d) ps" using d(4) Cons.prems(2) by (simp add: dchain_frame)
  then have "dl_free_loop (h(p := None)) (di_next d) = Some (\<lambda>q. if q \<in> set ps then None else (h(p := None)) q)"
    using Cons.IH Cons.prems(2) by simp
  with d show ?case by (subst dl_free_loop.simps) (auto simp: fun_eq_iff)
qed

text \<open>
  \<open>empty\<close> ends and frees every node of the list once and no other node (a node is freed only while it is
  allocated, a second \<open>delete\<close> would fail), and the list is the empty one.
\<close>
theorem dl_empty_frees_all:
  assumes "is_dlist h l ps"
  shows "\<exists>h'. dl_empty h l = Some (h', empty_no_free l) \<and> (\<forall>p. h' p = (if p \<in> set ps then None else h p)) \<and>
    is_dlist h' (empty_no_free l) []"
  using assms dl_free_loop_chain [of h "dl_head l" ps]
  by (simp add: dl_empty_def is_dlist_def empty_no_free_def set_members_def)

definition sample_heap :: dheap where
  "sample_heap = [1 \<mapsto> (di_new 1 3 1)\<lparr>di_next := 2\<rparr>, 2 \<mapsto> di_new 10 2 1, 3 \<mapsto> di_new 0 0 1]"

definition sample_dlist :: Discrete_intervals_list where
  "sample_dlist = \<lparr>dl_head = 1, dl_tail = 2, dl_current = 1, dl_elements = 2\<rparr>"

lemma sample_is_dlist: "is_dlist sample_heap sample_dlist [1, 2]"
  by (simp add: is_dlist_def sample_heap_def sample_dlist_def di_new_def di_replace_def)

theorem dl_empty_frees_all_witness:
  "\<exists>h' l'. dl_empty sample_heap sample_dlist = Some (h', l') \<and> h' 1 = None \<and> h' 2 = None \<and> h' 3 \<noteq> None"
  using dl_empty_frees_all [OF sample_is_dlist] by (auto simp: sample_heap_def)

lemma get_next_many_chain:
  "dchain h (dl_current l) ps \<Longrightarrow>
   get_next_many (length ps + k) h l = Some (ps @ replicate k 0, l\<lparr>dl_current := 0\<rparr>)"
proof (induction ps arbitrary: l)
  case Nil
  then have "dl_get_next h l = Some (0, l)" "l\<lparr>dl_current := 0\<rparr> = l" by (simp_all add: dl_get_next_def)
  then have "get_next_many k h l = Some (replicate k 0, l)" by (induction k) simp_all
  with \<open>l\<lparr>dl_current := 0\<rparr> = l\<close> show ?case by simp
next
  case (Cons p ps)
  then obtain d where "dl_current l = p" "p \<noteq> 0" "h p = Some d" "dchain h (di_next d) ps" by auto
  with Cons.IH [of "l\<lparr>dl_current := di_next d\<rparr>"] show ?case by (simp add: dl_get_next_def Let_def)
qed

text \<open>
  Consuming a list ends: with the current interval at the head, the calls of \<open>get_next\<close> return the
  intervals of the list in order, each once, and from then on the null pointer; the links, the head, the
  tail and the count stay, so the list can be consumed again after a reset of the current interval, and
  \<open>minimum\<close> and \<open>maximum\<close> are the ends of the first and the last interval.
\<close>
theorem dl_get_next_enumerates:
  assumes "is_dlist h l ps" "dl_current l = dl_head l"
  shows "get_next_many (length ps + k) h l = Some (ps @ replicate k 0, l\<lparr>dl_current := 0\<rparr>) \<and>
    is_dlist h (l\<lparr>dl_current := 0\<rparr>) ps \<and>
    (ps \<noteq> [] \<longrightarrow> dl_minimum h l = map_option di_minimum (h (hd ps)) \<and> dl_maximum h l = map_option di_maximum (h (last ps)))"
proof -
  have "dl_head l = hd ps \<and> hd ps \<noteq> 0" if "ps \<noteq> []" using that assms(1) by (cases ps) (auto simp: is_dlist_def)
  moreover have "is_dlist h (l\<lparr>dl_current := 0\<rparr>) ps" using assms(1) by (simp add: is_dlist_def)
  ultimately show ?thesis
    using get_next_many_chain [of h l ps k] assms by (auto simp: is_dlist_def dl_minimum_def dl_maximum_def)
qed

theorem dl_get_next_enumerates_witness:
  "get_next_many 4 sample_heap sample_dlist = Some ([1, 2, 0, 0], sample_dlist\<lparr>dl_current := 0\<rparr>)"
proof -
  have "dl_current sample_dlist = dl_head sample_dlist" by (simp add: sample_dlist_def)
  from dl_get_next_enumerates [OF sample_is_dlist this, of 2] show ?thesis
    by (simp add: eval_nat_numeral del: get_next_many.simps)
qed

text \<open>
  \<open>swap\<close> exchanges the two lists: each then has the nodes, the current interval and the count of the other.
\<close>
lemma dl_swap_exchanges:
  "dl_swap dli l = (dli, l)"
  by (simp add: dl_swap_def copy_shallow_def set_members_def Let_def)

lemma dl_new_is_empty: "is_dlist h (dl_new junk) [] \<and> dl_minimum h (dl_new junk) = Some 0 \<and> dl_maximum h (dl_new junk) = Some 0"
  by (simp add: is_dlist_def dl_new_def dl_minimum_def dl_maximum_def)

lemma create_like_options_keeps:
  "if_not_exists (create_like_options m) = if_not_exists m" "or_replace (create_like_options m) = or_replace m"
  "\<not> ddl_like (create_like_options m)" "\<not> if_exists (create_like_options m)"
  "\<not> or_replace_slave_generated (create_like_options m)"
  by (simp_all add: create_like_options_def if_not_exists_def or_replace_def ddl_like_def if_exists_def
      or_replace_slave_generated_def OPT_IF_NOT_EXISTS_def OPT_OR_REPLACE_def OPT_LIKE_def OPT_IF_EXISTS_def
      OPT_OR_REPLACE_SLAVE_GENERATED_def and.assoc)

end
