(* ===== verification/SqlError.thy ===== *)
theory SqlError
  imports PList MyTime
begin

text \<open>
  Conditions and diagnostics of \<open>sql_error.h\<close>: SQL states and their classes, condition identities, the
  list of warnings of a connection, and the diagnostics area with its stack of warning lists, which is the
  intrusive list of \<open>sql_plist.h\<close>. What allocates or formats (pushing and appending conditions, clearing a
  warning list, message texts) is code outside the headers and a parameter where it is called.
\<close>

subsection \<open>SQL states\<close>

definition SQLSTATE_LENGTH :: nat where
  "SQLSTATE_LENGTH = 5"

record Sql_state =
  m_sqlstate :: bytes

record Sql_state_errno = Sql_state +
  m_sql_errno :: uint

datatype enum_warning_level = WARN_LEVEL_NOTE | WARN_LEVEL_WARN | WARN_LEVEL_ERROR | WARN_LEVEL_END

record Sql_state_errno_level = Sql_state_errno +
  m_level :: enum_warning_level

text \<open>A user defined condition is identified by a pointer, 0 the null pointer.\<close>

record Sql_condition_identity = Sql_state_errno_level +
  m_user_condition_value :: nat

definition sqlstate_default :: bytes where
  "sqlstate_default = replicate (SQLSTATE_LENGTH + 1) 0"

text \<open>The array after \<open>set_sqlstate\<close>: \<open>memcpy\<close> of five bytes of the source, then the zero byte.\<close>

definition sqlstate_of :: "bytes \<Rightarrow> bytes option" where
  "sqlstate_of sqlstate = map_option (\<lambda>cs. cs @ [0]) (arr_slice sqlstate 0 SQLSTATE_LENGTH)"

definition set_sqlstate :: "bytes \<Rightarrow> 'a Sql_state_scheme \<Rightarrow> 'a Sql_state_scheme option" where
  "set_sqlstate sqlstate s = map_option (\<lambda>b. s\<lparr>m_sqlstate := b\<rparr>) (sqlstate_of sqlstate)"

definition mk_Sql_state :: "bytes \<Rightarrow> Sql_state option" where
  "mk_Sql_state sqlstate = map_option (\<lambda>b. \<lparr>m_sqlstate = b\<rparr>) (sqlstate_of sqlstate)"

definition mk_Sql_state_default :: Sql_state where
  "mk_Sql_state_default = \<lparr>m_sqlstate = sqlstate_default\<rparr>"

definition copy_sqlstate :: "'a Sql_state_scheme \<Rightarrow> 'b Sql_state_scheme \<Rightarrow> 'b Sql_state_scheme" where
  "copy_sqlstate other s = s\<lparr>m_sqlstate := m_sqlstate other\<rparr>"

text \<open>The C string at the start of an array; without a zero byte in it, reading it leaves the array.\<close>

definition state_string :: "bytes \<Rightarrow> bytes option" where
  "state_string b = (if 0 \<in> set b then Some (takeWhile (\<lambda>c. c \<noteq> 0) b) else None)"

definition sqlstate_eq :: "'a Sql_state_scheme \<Rightarrow> 'b Sql_state_scheme \<Rightarrow> bool option" where
  "sqlstate_eq s other = do {
     a \<leftarrow> state_string (m_sqlstate s);
     b \<leftarrow> state_string (m_sqlstate other);
     Some (a = b)
   }"

definition has_sql_state :: "'a Sql_state_scheme \<Rightarrow> bool" where
  "has_sql_state s \<longleftrightarrow> m_sqlstate s ! 0 \<noteq> 0"

text \<open>The characters '0', '1' and '2'; a \<open>char\<close> is signed where it is compared by size.\<close>

definition is_warning :: "'a Sql_state_scheme \<Rightarrow> bool" where
  "is_warning s \<longleftrightarrow> m_sqlstate s ! 0 = 48 \<and> m_sqlstate s ! 1 = 49"

definition is_not_found :: "'a Sql_state_scheme \<Rightarrow> bool" where
  "is_not_found s \<longleftrightarrow> m_sqlstate s ! 0 = 48 \<and> m_sqlstate s ! 1 = 50"

definition is_exception :: "'a Sql_state_scheme \<Rightarrow> bool" where
  "is_exception s \<longleftrightarrow> m_sqlstate s ! 0 \<noteq> 48 \<or> sint (m_sqlstate s ! 1) > 50"

definition is_sqlstate_completion :: "bytes \<Rightarrow> bool" where
  "is_sqlstate_completion s \<longleftrightarrow> s ! 0 = 48 \<and> s ! 1 = 48"

subsection \<open>Condition identities\<close>

definition mk_errno_default :: Sql_state_errno where
  "mk_errno_default = \<lparr>m_sqlstate = sqlstate_default, m_sql_errno = 0\<rparr>"

definition mk_errno :: "uint \<Rightarrow> Sql_state_errno" where
  "mk_errno sql_errno = \<lparr>m_sqlstate = sqlstate_default, m_sql_errno = sql_errno\<rparr>"

definition mk_errno_state :: "uint \<Rightarrow> bytes \<Rightarrow> Sql_state_errno option" where
  "mk_errno_state sql_errno sql_state =
     map_option (\<lambda>b. \<lparr>m_sqlstate = b, m_sql_errno = sql_errno\<rparr>) (sqlstate_of sql_state)"

definition errno_set :: "uint \<Rightarrow> bytes \<Rightarrow> 'a Sql_state_errno_scheme \<Rightarrow> 'a Sql_state_errno_scheme option" where
  "errno_set sql_errno sqlstate s = map_option (\<lambda>b. s\<lparr>m_sql_errno := sql_errno, m_sqlstate := b\<rparr>) (sqlstate_of sqlstate)"

definition errno_clear :: "'a Sql_state_errno_scheme \<Rightarrow> 'a Sql_state_errno_scheme" where
  "errno_clear s = s\<lparr>m_sql_errno := 0\<rparr>"

definition mk_level_default :: Sql_state_errno_level where
  "mk_level_default = \<lparr>m_sqlstate = sqlstate_default, m_sql_errno = 0, m_level = WARN_LEVEL_ERROR\<rparr>"

definition mk_level :: "uint \<Rightarrow> bytes \<Rightarrow> enum_warning_level \<Rightarrow> Sql_state_errno_level option" where
  "mk_level sqlerrno sqlstate level =
     map_option (\<lambda>b. \<lparr>m_sqlstate = b, m_sql_errno = sqlerrno, m_level = level\<rparr>) (sqlstate_of sqlstate)"

definition mk_level_of :: "'a Sql_state_errno_scheme \<Rightarrow> enum_warning_level \<Rightarrow> Sql_state_errno_level" where
  "mk_level_of state_errno level =
     \<lparr>m_sqlstate = m_sqlstate state_errno, m_sql_errno = m_sql_errno state_errno, m_level = level\<rparr>"

definition level_clear :: "'a Sql_state_errno_level_scheme \<Rightarrow> 'a Sql_state_errno_level_scheme" where
  "level_clear s = errno_clear (s\<lparr>m_level := WARN_LEVEL_ERROR\<rparr>)"

definition mk_identity_default :: Sql_condition_identity where
  "mk_identity_default = \<lparr>m_sqlstate = sqlstate_default, m_sql_errno = 0, m_level = WARN_LEVEL_ERROR,
     m_user_condition_value = 0\<rparr>"

definition mk_identity_of :: "'a Sql_state_errno_scheme \<Rightarrow> enum_warning_level \<Rightarrow> nat \<Rightarrow> Sql_condition_identity" where
  "mk_identity_of st level ucid = \<lparr>m_sqlstate = m_sqlstate st, m_sql_errno = m_sql_errno st, m_level = level,
     m_user_condition_value = ucid\<rparr>"

definition mk_identity :: "uint \<Rightarrow> bytes \<Rightarrow> enum_warning_level \<Rightarrow> nat \<Rightarrow> Sql_condition_identity option" where
  "mk_identity sqlerrno sqlstate level ucid =
     map_option (\<lambda>b. \<lparr>m_sqlstate = b, m_sql_errno = sqlerrno, m_level = level, m_user_condition_value = ucid\<rparr>)
       (sqlstate_of sqlstate)"

definition identity_clear :: "'a Sql_condition_identity_scheme \<Rightarrow> 'a Sql_condition_identity_scheme" where
  "identity_clear s = (level_clear s)\<lparr>m_user_condition_value := 0\<rparr>"

text \<open>The items of a condition: the bytes of ten strings; and a condition with its message text.\<close>

record Sql_condition_items =
  m_class_origin :: bytes
  m_subclass_origin :: bytes
  m_constraint_catalog :: bytes
  m_constraint_schema :: bytes
  m_constraint_name :: bytes
  m_catalog_name :: bytes
  m_schema_name :: bytes
  m_table_name :: bytes
  m_column_name :: bytes
  m_cursor_name :: bytes

definition mk_items :: Sql_condition_items where
  "mk_items = \<lparr>m_class_origin = [], m_subclass_origin = [], m_constraint_catalog = [], m_constraint_schema = [],
     m_constraint_name = [], m_catalog_name = [], m_schema_name = [], m_table_name = [], m_column_name = [],
     m_cursor_name = []\<rparr>"

definition items_clear :: "Sql_condition_items \<Rightarrow> Sql_condition_items" where
  "items_clear s = s\<lparr>m_class_origin := [], m_subclass_origin := [], m_constraint_catalog := [], m_constraint_schema := [],
     m_constraint_name := [], m_catalog_name := [], m_schema_name := [], m_table_name := [], m_column_name := [],
     m_cursor_name := []\<rparr>"

record Sql_condition = Sql_condition_identity +
  cond_items :: Sql_condition_items
  m_message_text :: bytes

definition condition_clear :: "Sql_condition \<Rightarrow> Sql_condition" where
  "condition_clear c = (identity_clear c)\<lparr>cond_items := items_clear (cond_items c), m_message_text := []\<rparr>"

definition time_warn_level :: "uint \<Rightarrow> enum_warning_level" where
  "time_warn_level warns = (if MYSQL_TIME_WARN_HAVE_WARNINGS warns then WARN_LEVEL_WARN else WARN_LEVEL_NOTE)"

subsection \<open>Warning lists\<close>

text \<open>
  The conditions of a warning list and those marked for removal are kept as lists of pointers. The count of
  warnings by level is a function of the level.
\<close>

record Warning_info =
  m_warn_list :: "nat list"
  m_warn_count :: "enum_warning_level \<Rightarrow> uint"
  m_current_statement_warn_count :: uint
  m_current_row_for_warning :: ulong
  m_warn_id :: ulonglong
  m_error_condition :: nat
  m_read_only :: bool
  m_marked_sql_conditions :: "nat list"

definition wi_opt_clear :: "(ulonglong \<Rightarrow> Warning_info \<Rightarrow> Warning_info) \<Rightarrow> ulonglong \<Rightarrow> Warning_info \<Rightarrow> Warning_info" where
  "wi_opt_clear clear query_id w = (if query_id \<noteq> m_warn_id w then clear query_id w else w)"

definition wi_reset_for_next_command :: "Warning_info \<Rightarrow> Warning_info" where
  "wi_reset_for_next_command w = w\<lparr>m_current_statement_warn_count := 0\<rparr>"

definition wi_unmark :: "Warning_info \<Rightarrow> Warning_info" where
  "wi_unmark w = w\<lparr>m_marked_sql_conditions := []\<rparr>"

text \<open>The allocation of the list node is taken to succeed.\<close>

definition wi_mark_condition :: "nat \<Rightarrow> Warning_info \<Rightarrow> Warning_info" where
  "wi_mark_condition cond w = w\<lparr>m_marked_sql_conditions := m_marked_sql_conditions w @ [cond]\<rparr>"

definition wi_warn_count :: "Warning_info \<Rightarrow> ulong" where
  "wi_warn_count w = m_warn_count w WARN_LEVEL_NOTE + m_warn_count w WARN_LEVEL_ERROR + m_warn_count w WARN_LEVEL_WARN"

definition wi_error_count :: "Warning_info \<Rightarrow> ulong" where
  "wi_error_count w = m_warn_count w WARN_LEVEL_ERROR"

definition wi_cond_count :: "Warning_info \<Rightarrow> uint" where
  "wi_cond_count w = word_of_nat (length (m_warn_list w))"

definition wi_id :: "Warning_info \<Rightarrow> ulonglong" where
  "wi_id w = m_warn_id w"

definition wi_set_id :: "ulonglong \<Rightarrow> Warning_info \<Rightarrow> Warning_info" where
  "wi_set_id id_arg w = w\<lparr>m_warn_id := id_arg\<rparr>"

definition wi_is_empty :: "Warning_info \<Rightarrow> bool" where
  "wi_is_empty w \<longleftrightarrow> m_warn_list w = []"

definition wi_inc_current_row :: "Warning_info \<Rightarrow> Warning_info" where
  "wi_inc_current_row w = w\<lparr>m_current_row_for_warning := m_current_row_for_warning w + 1\<rparr>"

definition wi_reset_current_row :: "Warning_info \<Rightarrow> Warning_info" where
  "wi_reset_current_row w = w\<lparr>m_current_row_for_warning := 1\<rparr>"

definition wi_current_row :: "Warning_info \<Rightarrow> ulong" where
  "wi_current_row w = m_current_row_for_warning w"

definition wi_statement_warn_count :: "Warning_info \<Rightarrow> ulong" where
  "wi_statement_warn_count w = m_current_statement_warn_count w"

definition wi_set_read_only :: "bool \<Rightarrow> Warning_info \<Rightarrow> Warning_info" where
  "wi_set_read_only read_only_arg w = w\<lparr>m_read_only := read_only_arg\<rparr>"

definition wi_is_read_only :: "Warning_info \<Rightarrow> bool" where
  "wi_is_read_only w = m_read_only w"

definition wi_get_error_condition :: "Warning_info \<Rightarrow> nat" where
  "wi_get_error_condition w = m_error_condition w"

definition wi_set_error_condition :: "nat \<Rightarrow> Warning_info \<Rightarrow> Warning_info" where
  "wi_set_error_condition error_condition w = w\<lparr>m_error_condition := error_condition\<rparr>"

definition wi_clear_error_condition :: "Warning_info \<Rightarrow> Warning_info" where
  "wi_clear_error_condition w = w\<lparr>m_error_condition := 0\<rparr>"

subsection \<open>The diagnostics area\<close>

datatype enum_diagnostics_status = DA_EMPTY | DA_OK | DA_EOF | DA_OK_BULK | DA_ERROR | DA_DISABLED

text \<open>
  The stack \<open>m_wi_stack\<close> is list 0 of a store of intrusive lists whose elements are the addresses of warning
  lists; the warning lists at these addresses are the last member.
\<close>

record Diagnostics_area = Sql_state_errno +
  da_user_condition :: nat
  m_is_sent :: bool
  m_can_overwrite_status :: bool
  m_skip_flush :: bool
  da_message :: bytes
  m_affected_rows :: ulonglong
  m_last_insert_id :: ulonglong
  m_statement_warn_count :: uint
  m_status :: enum_diagnostics_status
  is_bulk_execution :: bool
  m_wi_stack :: pheap
  warning_infos :: "nat \<Rightarrow> Warning_info option"

definition set_overwrite_status :: "bool \<Rightarrow> Diagnostics_area \<Rightarrow> Diagnostics_area" where
  "set_overwrite_status can_overwrite_status d = d\<lparr>m_can_overwrite_status := can_overwrite_status\<rparr>"

definition set_is_sent :: "bool \<Rightarrow> Diagnostics_area \<Rightarrow> Diagnostics_area" where
  "set_is_sent is_sent_arg d = d\<lparr>m_is_sent := is_sent_arg\<rparr>"

definition da_is_set :: "Diagnostics_area \<Rightarrow> bool" where
  "da_is_set d \<longleftrightarrow> m_status d \<noteq> DA_EMPTY"

definition da_is_error :: "Diagnostics_area \<Rightarrow> bool" where
  "da_is_error d \<longleftrightarrow> m_status d = DA_ERROR"

definition da_is_eof :: "Diagnostics_area \<Rightarrow> bool" where
  "da_is_eof d \<longleftrightarrow> m_status d = DA_EOF"

definition da_is_ok :: "Diagnostics_area \<Rightarrow> bool" where
  "da_is_ok d \<longleftrightarrow> m_status d = DA_OK"

definition da_is_disabled :: "Diagnostics_area \<Rightarrow> bool" where
  "da_is_disabled d \<longleftrightarrow> m_status d = DA_DISABLED"

definition set_bulk_execution :: "bool \<Rightarrow> Diagnostics_area \<Rightarrow> Diagnostics_area" where
  "set_bulk_execution bulk d = d\<lparr>is_bulk_execution := bulk\<rparr>"

definition set_skip_flush :: "Diagnostics_area \<Rightarrow> Diagnostics_area" where
  "set_skip_flush d = d\<lparr>m_skip_flush := True\<rparr>"

definition get_error_condition_identity :: "Diagnostics_area \<Rightarrow> Sql_condition_identity" where
  "get_error_condition_identity d = mk_identity_of d WARN_LEVEL_ERROR (da_user_condition d)"

definition increment_warning :: "Diagnostics_area \<Rightarrow> Diagnostics_area" where
  "increment_warning d =
     (if m_status d \<noteq> DA_EMPTY then d\<lparr>m_statement_warn_count := m_statement_warn_count d + 1\<rparr> else d)"

definition push_warning_info :: "nat \<Rightarrow> Diagnostics_area \<Rightarrow> Diagnostics_area option" where
  "push_warning_info wi d = map_option (\<lambda>h. d\<lparr>m_wi_stack := h\<rparr>) (ipl_push_front (m_wi_stack d) 0 wi)"

definition pop_warning_info :: "Diagnostics_area \<Rightarrow> Diagnostics_area option" where
  "pop_warning_info d = do {
     f \<leftarrow> ipl_front (m_wi_stack d) 0;
     wi \<leftarrow> f;
     map_option (\<lambda>h. d\<lparr>m_wi_stack := h\<rparr>) (ipl_remove (m_wi_stack d) 0 wi)
   }"

definition get_warning_info :: "Diagnostics_area \<Rightarrow> nat option" where
  "get_warning_info d = Option.bind (ipl_front (m_wi_stack d) 0) (\<lambda>f. f)"

text \<open>
  \<open>get_warning_info()->m(...)\<close>: the current warning list is looked up in the stack, and the store has the result
  of the changing operation there; a reading operation gives its result.
\<close>

definition on_wi :: "(Warning_info \<Rightarrow> Warning_info) \<Rightarrow> Diagnostics_area \<Rightarrow> Diagnostics_area option" where
  "on_wi f d = do {
     p \<leftarrow> get_warning_info d;
     w \<leftarrow> warning_infos d p;
     Some (d\<lparr>warning_infos := (warning_infos d)(p \<mapsto> f w)\<rparr>)
   }"

definition of_wi :: "(Warning_info \<Rightarrow> 'r) \<Rightarrow> Diagnostics_area \<Rightarrow> 'r option" where
  "of_wi g d = do { p \<leftarrow> get_warning_info d; w \<leftarrow> warning_infos d p; Some (g w) }"

definition set_warning_info_id :: "ulonglong \<Rightarrow> Diagnostics_area \<Rightarrow> Diagnostics_area option" where
  "set_warning_info_id i = on_wi (wi_set_id i)"

definition warning_info_id :: "Diagnostics_area \<Rightarrow> ulonglong option" where
  "warning_info_id = of_wi wi_id"

definition warning_info_changed :: "Warning_info \<Rightarrow> Diagnostics_area \<Rightarrow> bool option" where
  "warning_info_changed wi = of_wi (\<lambda>w. wi_id w \<noteq> wi_id wi)"

definition is_warning_info_empty :: "Diagnostics_area \<Rightarrow> bool option" where
  "is_warning_info_empty = of_wi wi_is_empty"

definition da_statement_warn_count :: "Diagnostics_area \<Rightarrow> ulong option" where
  "da_statement_warn_count = of_wi wi_statement_warn_count"

definition da_reset_for_next_command :: "Diagnostics_area \<Rightarrow> Diagnostics_area option" where
  "da_reset_for_next_command = on_wi wi_reset_for_next_command"

definition clear_warning_info ::
  "(ulonglong \<Rightarrow> Warning_info \<Rightarrow> Warning_info) \<Rightarrow> ulonglong \<Rightarrow> Diagnostics_area \<Rightarrow> Diagnostics_area option" where
  "clear_warning_info clear i = on_wi (clear i)"

definition opt_clear_warning_info ::
  "(ulonglong \<Rightarrow> Warning_info \<Rightarrow> Warning_info) \<Rightarrow> ulonglong \<Rightarrow> Diagnostics_area \<Rightarrow> Diagnostics_area option" where
  "opt_clear_warning_info clear query_id = on_wi (wi_opt_clear clear query_id)"

definition da_current_row :: "Diagnostics_area \<Rightarrow> ulong option" where
  "da_current_row = of_wi wi_current_row"

definition da_inc_current_row :: "Diagnostics_area \<Rightarrow> Diagnostics_area option" where
  "da_inc_current_row = on_wi wi_inc_current_row"

definition da_reset_current_row :: "Diagnostics_area \<Rightarrow> Diagnostics_area option" where
  "da_reset_current_row = on_wi wi_reset_current_row"

definition is_warning_info_read_only :: "Diagnostics_area \<Rightarrow> bool option" where
  "is_warning_info_read_only = of_wi wi_is_read_only"

definition set_warning_info_read_only :: "bool \<Rightarrow> Diagnostics_area \<Rightarrow> Diagnostics_area option" where
  "set_warning_info_read_only read_only_arg = on_wi (wi_set_read_only read_only_arg)"

definition da_error_count :: "Diagnostics_area \<Rightarrow> ulong option" where
  "da_error_count = of_wi wi_error_count"

definition da_warn_count :: "Diagnostics_area \<Rightarrow> ulong option" where
  "da_warn_count = of_wi wi_warn_count"

definition da_cond_count :: "Diagnostics_area \<Rightarrow> uint option" where
  "da_cond_count = of_wi wi_cond_count"

definition da_unmark_sql_conditions :: "Diagnostics_area \<Rightarrow> Diagnostics_area option" where
  "da_unmark_sql_conditions = on_wi wi_unmark"

definition da_error_condition :: "Diagnostics_area \<Rightarrow> nat option" where
  "da_error_condition = of_wi wi_get_error_condition"

text \<open>Pushing a condition made of its parts; the operation of the warning list is a parameter.\<close>

definition da_push_warning ::
  "(Sql_condition_identity \<Rightarrow> bytes \<Rightarrow> Warning_info \<Rightarrow> Warning_info) \<Rightarrow> uint \<Rightarrow> bytes \<Rightarrow> enum_warning_level \<Rightarrow>
   nat \<Rightarrow> bytes \<Rightarrow> Diagnostics_area \<Rightarrow> Diagnostics_area option" where
  "da_push_warning push sql_errno_arg sqlstate level ucid msg d = do {
     tmp \<leftarrow> mk_identity sql_errno_arg sqlstate level ucid;
     on_wi (push tmp msg) d
   }"

definition da_push_warning_plain ::
  "(Sql_condition_identity \<Rightarrow> bytes \<Rightarrow> Warning_info \<Rightarrow> Warning_info) \<Rightarrow> uint \<Rightarrow> bytes \<Rightarrow> enum_warning_level \<Rightarrow>
   bytes \<Rightarrow> Diagnostics_area \<Rightarrow> Diagnostics_area option" where
  "da_push_warning_plain push sqlerrno sqlstate level msg = da_push_warning push sqlerrno sqlstate level 0 msg"

text \<open>The operations of warning lists that are code outside the headers.\<close>

record wi_extern =
  ext_clear :: "ulonglong \<Rightarrow> Warning_info \<Rightarrow> Warning_info"
  ext_push :: "Sql_condition_identity \<Rightarrow> bytes \<Rightarrow> Warning_info \<Rightarrow> Warning_info"
  ext_append :: "Warning_info \<Rightarrow> Warning_info \<Rightarrow> Warning_info"
  ext_mark :: "Warning_info \<Rightarrow> Warning_info"
  ext_remove_marked :: "Warning_info \<Rightarrow> Warning_info"
  ext_reserve :: "uint \<Rightarrow> Warning_info \<Rightarrow> Warning_info"

definition da_reserve_space :: "wi_extern \<Rightarrow> uint \<Rightarrow> Diagnostics_area \<Rightarrow> Diagnostics_area option" where
  "da_reserve_space e count = on_wi (ext_reserve e count)"

definition da_mark_sql_conditions :: "wi_extern \<Rightarrow> Diagnostics_area \<Rightarrow> Diagnostics_area option" where
  "da_mark_sql_conditions e = on_wi (ext_mark e)"

definition da_remove_marked_sql_conditions :: "wi_extern \<Rightarrow> Diagnostics_area \<Rightarrow> Diagnostics_area option" where
  "da_remove_marked_sql_conditions e = on_wi (ext_remove_marked e)"

text \<open>
  Copying between the current list and a given one. To another list is the one operation that changes a list
  that need not be the current one.
\<close>

definition copy_sql_conditions_to_wi :: "wi_extern \<Rightarrow> nat \<Rightarrow> Diagnostics_area \<Rightarrow> Diagnostics_area option" where
  "copy_sql_conditions_to_wi e dst_wi d = do {
     p \<leftarrow> get_warning_info d;
     src \<leftarrow> warning_infos d p;
     dst \<leftarrow> warning_infos d dst_wi;
     Some (d\<lparr>warning_infos := (warning_infos d)(dst_wi \<mapsto> ext_append e dst src)\<rparr>)
   }"

definition copy_sql_conditions_from_wi :: "wi_extern \<Rightarrow> nat \<Rightarrow> Diagnostics_area \<Rightarrow> Diagnostics_area option" where
  "copy_sql_conditions_from_wi e src_wi d = do {
     p \<leftarrow> get_warning_info d;
     dst \<leftarrow> warning_infos d p;
     src \<leftarrow> warning_infos d src_wi;
     Some (d\<lparr>warning_infos := (warning_infos d)(p \<mapsto> ext_append e dst src)\<rparr>)
   }"

subsection \<open>Classes of SQL states\<close>

text \<open>A SQL state is five digits or capital letters, closed by a zero byte.\<close>

definition sqlstate_char :: "uchar \<Rightarrow> bool" where
  "sqlstate_char c \<longleftrightarrow> 48 \<le> c \<and> c \<le> 57 \<or> 65 \<le> c \<and> c \<le> 90"

definition valid_sqlstate :: "bytes \<Rightarrow> bool" where
  "valid_sqlstate b \<longleftrightarrow> length b = SQLSTATE_LENGTH \<and> (\<forall>c \<in> set b. sqlstate_char c)"

lemma sqlstate_char_sint:
  assumes "sqlstate_char c"
  shows "sint c = uint c"
proof -
  have "c \<le> 90" using assms by (auto simp: sqlstate_char_def intro: order_trans)
  then have "uint c < 2 ^ 7" by (simp add: word_le_def)
  moreover have "- (2 ^ 7) \<le> uint c" by (rule order_trans [of _ 0]) simp_all
  ultimately show ?thesis by (simp add: sint_uint signed_take_bit_int_eq_self_iff)
qed

text \<open>
  The four predicates on the class of a SQL state divide the valid states: every valid state set in a
  condition is in exactly one of the classes completion, warning, not found and exception, by its first two
  characters.
\<close>
theorem sqlstate_classes:
  assumes "valid_sqlstate b"
  shows "\<exists>s. mk_Sql_state b = Some s \<and> has_sql_state s \<and> m_sqlstate s = b @ [0] \<and>
    (is_sqlstate_completion (m_sqlstate s) \<longleftrightarrow> take 2 b = [48, 48]) \<and>
    (is_warning s \<longleftrightarrow> take 2 b = [48, 49]) \<and> (is_not_found s \<longleftrightarrow> take 2 b = [48, 50]) \<and>
    (is_exception s \<longleftrightarrow> \<not> (is_sqlstate_completion (m_sqlstate s) \<or> is_warning s \<or> is_not_found s))"
proof -
  obtain c0 c1 rest where b: "b = c0 # c1 # rest" "length rest = 3" "sqlstate_char c0" "sqlstate_char c1"
    using assms by (auto simp: valid_sqlstate_def SQLSTATE_LENGTH_def length_Suc_conv numeral_eq_Suc)
  have "mk_Sql_state b = Some \<lparr>m_sqlstate = b @ [0]\<rparr>"
    using b by (simp add: mk_Sql_state_def sqlstate_of_def arr_slice_def SQLSTATE_LENGTH_def)
  moreover have "c0 \<noteq> 0" using b(3) by (auto simp: sqlstate_char_def)
  moreover have "sint c1 > 50 \<longleftrightarrow> c1 \<notin> {48, 49, 50}"
  proof -
    have "48 \<le> uint c1" using b(4) by (auto simp: sqlstate_char_def word_le_def)
    moreover have "c1 \<notin> {48, 49, 50} \<longleftrightarrow> uint c1 \<notin> {48, 49, 50}" by (simp add: word_uint_eq_iff)
    ultimately show ?thesis using sqlstate_char_sint [OF b(4)] by auto
  qed
  ultimately show ?thesis
    using b(1) by (auto simp: has_sql_state_def is_sqlstate_completion_def is_warning_def is_not_found_def is_exception_def)
qed

theorem sqlstate_classes_witness:
  "\<exists>s. mk_Sql_state [52, 50, 83, 48, 50] = Some s \<and> is_exception s \<and> \<not> is_warning s"
proof -
  have "valid_sqlstate [52, 50, 83, 48, 50]" by (simp add: valid_sqlstate_def SQLSTATE_LENGTH_def sqlstate_char_def)
  from sqlstate_classes [OF this] show ?thesis by auto
qed

text \<open>
  Clearing a condition, which resets number, level and user condition, leaves its SQL state, so that the
  cleared condition still has the class it had.
\<close>
theorem condition_clear_keeps_sqlstate:
  "m_sql_errno (condition_clear c) = 0 \<and> m_level (condition_clear c) = WARN_LEVEL_ERROR \<and>
   m_user_condition_value (condition_clear c) = 0 \<and> m_message_text (condition_clear c) = [] \<and>
   m_sqlstate (condition_clear c) = m_sqlstate c \<and> is_warning (condition_clear c) = is_warning c"
  by (simp add: condition_clear_def identity_clear_def level_clear_def errno_clear_def is_warning_def)

subsection \<open>Stacked warning lists\<close>

definition is_stack :: "Diagnostics_area \<Rightarrow> nat list \<Rightarrow> bool" where
  "is_stack d xs \<longleftrightarrow> fast_plist True 0 (m_wi_stack d) xs \<and> (\<forall>x \<in> set xs. warning_infos d x \<noteq> None)"

lemma get_warning_info_stack: "is_stack d xs \<Longrightarrow> get_warning_info d = opt_hd xs"
  using pchain_slot [of "m_wi_stack d" "M_first 0" "[]" xs]
  by (auto simp: is_stack_def fast_plist_def is_plist_def get_warning_info_def ipl_front_def)

definition set_wi :: "nat \<Rightarrow> Warning_info \<Rightarrow> Diagnostics_area \<Rightarrow> Diagnostics_area" where
  "set_wi p w d = d\<lparr>warning_infos := (warning_infos d)(p \<mapsto> w)\<rparr>"

lemma set_wi_simps:
  "set_wi p v (set_wi p w d) = set_wi p v d" "warning_infos d p = Some w \<Longrightarrow> set_wi p w d = d"
  "warning_infos (set_wi p w d) = (warning_infos d)(p \<mapsto> w)" "m_wi_stack (set_wi p w d) = m_wi_stack d"
  "is_stack d xs \<Longrightarrow> is_stack (set_wi p w d) xs"
  by (cases d; simp add: set_wi_def is_stack_def fun_upd_idem)+

text \<open>
  Calls of the area that work on its warning lists, and their execution: each is the operation of the header.
\<close>

datatype da_call =
    Push_wi nat | Pop_wi | Set_id ulonglong | Reset_for_next | Clear ulonglong | Opt_clear ulonglong | Inc_row
  | Reset_row | Set_read_only bool | Reserve uint | Push_cond uint bytes enum_warning_level nat bytes | Mark | Unmark
  | Remove_marked | Copy_to nat | Copy_from nat

fun da_exec :: "wi_extern \<Rightarrow> da_call \<Rightarrow> Diagnostics_area \<Rightarrow> Diagnostics_area option" where
  "da_exec e (Push_wi wi) = push_warning_info wi"
| "da_exec e Pop_wi = pop_warning_info"
| "da_exec e (Set_id i) = set_warning_info_id i"
| "da_exec e Reset_for_next = da_reset_for_next_command"
| "da_exec e (Clear i) = clear_warning_info (ext_clear e) i"
| "da_exec e (Opt_clear i) = opt_clear_warning_info (ext_clear e) i"
| "da_exec e Inc_row = da_inc_current_row"
| "da_exec e Reset_row = da_reset_current_row"
| "da_exec e (Set_read_only b) = set_warning_info_read_only b"
| "da_exec e (Reserve n) = da_reserve_space e n"
| "da_exec e (Push_cond n st level ucid msg) = da_push_warning (ext_push e) n st level ucid msg"
| "da_exec e Mark = da_mark_sql_conditions e"
| "da_exec e Unmark = da_unmark_sql_conditions"
| "da_exec e Remove_marked = da_remove_marked_sql_conditions e"
| "da_exec e (Copy_to wi) = copy_sql_conditions_to_wi e wi"
| "da_exec e (Copy_from wi) = copy_sql_conditions_from_wi e wi"

text \<open>
  What the calls promise, over a plain list of addresses as the stack. A call that changes the current list,
  \<open>w\<close>, gives its new contents; \<open>m\<close> has the contents of all lists.
\<close>

fun current_effect :: "wi_extern \<Rightarrow> (nat \<Rightarrow> Warning_info option) \<Rightarrow> da_call \<Rightarrow> Warning_info \<Rightarrow> Warning_info" where
  "current_effect e m (Set_id i) w = w\<lparr>m_warn_id := i\<rparr>"
| "current_effect e m Reset_for_next w = w\<lparr>m_current_statement_warn_count := 0\<rparr>"
| "current_effect e m (Clear i) w = ext_clear e i w"
| "current_effect e m (Opt_clear i) w = (if m_warn_id w = i then w else ext_clear e i w)"
| "current_effect e m Inc_row w = w\<lparr>m_current_row_for_warning := m_current_row_for_warning w + 1\<rparr>"
| "current_effect e m Reset_row w = w\<lparr>m_current_row_for_warning := 1\<rparr>"
| "current_effect e m (Set_read_only b) w = w\<lparr>m_read_only := b\<rparr>"
| "current_effect e m (Reserve n) w = ext_reserve e n w"
| "current_effect e m (Push_cond n st level ucid msg) w = ext_push e
     \<lparr>m_sqlstate = take 5 st @ [0], m_sql_errno = n, m_level = level, m_user_condition_value = ucid\<rparr> msg w"
| "current_effect e m Mark w = ext_mark e w"
| "current_effect e m Unmark w = w\<lparr>m_marked_sql_conditions := []\<rparr>"
| "current_effect e m Remove_marked w = ext_remove_marked e w"
| "current_effect e m (Copy_from src) w = ext_append e w (the (m src))"
| "current_effect e m _ w = w"

fun stack_effect ::
  "wi_extern \<Rightarrow> nat list \<Rightarrow> da_call list \<Rightarrow> (nat \<Rightarrow> Warning_info option) \<Rightarrow> nat \<Rightarrow> Warning_info option" where
  "stack_effect e ps [] m = m"
| "stack_effect e ps (Push_wi wi # cs) m = stack_effect e (wi # ps) cs m"
| "stack_effect e ps (Pop_wi # cs) m = stack_effect e (tl ps) cs m"
| "stack_effect e ps (Copy_to dst # cs) m =
     stack_effect e ps cs (m(dst \<mapsto> ext_append e (the (m dst)) (the (m (hd ps)))))"
| "stack_effect e ps (c # cs) m = stack_effect e ps cs (m(hd ps \<mapsto> current_effect e m c (the (m (hd ps)))))"

text \<open>
  Bracketed sequences of calls: every pop is of a list the sequence has pushed, at the end all of these are
  popped, and the other calls are made while one of them is current. \<open>below\<close> is the stack before, \<open>ps\<close> the lists
  pushed so far, \<open>ok\<close> the lists there are. A list is pushed only while it is not on the stack; a SQL state
  has five characters at least.
\<close>

fun bracketed :: "(nat \<Rightarrow> bool) \<Rightarrow> nat list \<Rightarrow> nat list \<Rightarrow> da_call list \<Rightarrow> bool" where
  "bracketed ok below ps [] \<longleftrightarrow> ps = []"
| "bracketed ok below ps (Push_wi wi # cs) \<longleftrightarrow> ok wi \<and> wi \<notin> set (ps @ below) \<and> bracketed ok below (wi # ps) cs"
| "bracketed ok below ps (c # cs) \<longleftrightarrow> ps \<noteq> [] \<and>
     (case c of Copy_to wi \<Rightarrow> ok wi | Copy_from wi \<Rightarrow> ok wi | Push_cond n st level ucid msg \<Rightarrow> 5 \<le> length st | _ \<Rightarrow> True) \<and>
     bracketed ok below (if c = Pop_wi then tl ps else ps) cs"

fun copied_to :: "da_call \<Rightarrow> nat set" where
  "copied_to (Copy_to wi) = {wi}"
| "copied_to _ = {}"

lemma da_push_stack:
  assumes "is_stack d xs" "linkable (m_wi_stack d) wi" "wi \<notin> set xs" "warning_infos d wi \<noteq> None"
  shows "\<exists>h. push_warning_info wi d = Some (d\<lparr>m_wi_stack := h\<rparr>) \<and> is_stack (d\<lparr>m_wi_stack := h\<rparr>) (wi # xs) \<and>
    linkable h = linkable (m_wi_stack d)"
  using fast_plist_push_front [of True 0 "m_wi_stack d" xs wi] assms
  by (auto simp: is_stack_def push_warning_info_def fun_eq_iff)

lemma da_pop_stack:
  assumes "is_stack d (wi # xs)"
  shows "\<exists>h. pop_warning_info d = Some (d\<lparr>m_wi_stack := h\<rparr>) \<and> is_stack (d\<lparr>m_wi_stack := h\<rparr>) xs \<and>
    linkable h = linkable (m_wi_stack d)"
proof -
  have "ipl_front (m_wi_stack d) 0 = Some (Some wi)"
    using get_warning_info_stack [OF assms] by (auto simp: get_warning_info_def bind_eq_Some_conv)
  moreover obtain h where "ipl_remove (m_wi_stack d) 0 wi = Some h" "fast_plist True 0 h xs" "linkable h = linkable (m_wi_stack d)"
    using fast_plist_remove [of True 0 "m_wi_stack d" "[]" wi xs] assms by (auto simp: is_stack_def fun_eq_iff)
  ultimately show ?thesis using assms by (auto simp: is_stack_def pop_warning_info_def)
qed

lemmas da_call_defs = set_warning_info_id_def da_reset_for_next_command_def clear_warning_info_def
  opt_clear_warning_info_def da_inc_current_row_def da_reset_current_row_def set_warning_info_read_only_def
  da_reserve_space_def da_push_warning_def da_mark_sql_conditions_def da_unmark_sql_conditions_def
  da_remove_marked_sql_conditions_def copy_sql_conditions_to_wi_def copy_sql_conditions_from_wi_def wi_set_id_def
  wi_reset_for_next_command_def wi_opt_clear_def wi_inc_current_row_def wi_reset_current_row_def wi_set_read_only_def
  wi_unmark_def mk_identity_def sqlstate_of_def arr_slice_def SQLSTATE_LENGTH_def

lemma on_wi_top:
  assumes "is_stack d (wi # xs)"
  shows "on_wi f d = Some (set_wi wi (f (the (warning_infos d wi))) d)"
  using get_warning_info_stack [OF assms] assms by (auto simp: on_wi_def set_wi_def is_stack_def)

text \<open>One call on the current list, and a copy to another: the list that changes, and its new contents.\<close>

lemma da_exec_current:
  assumes "is_stack d (p # ps)" "bracketed ok below (q # qs) (c # cs)" "\<And>x. ok x \<Longrightarrow> warning_infos d x \<noteq> None"
    and "\<forall>wi. c \<noteq> Push_wi wi" "c \<noteq> Pop_wi" "\<forall>wi. c \<noteq> Copy_to wi"
  shows "da_exec e c d = Some (set_wi p (current_effect e (warning_infos d) c (the (warning_infos d p))) d)"
proof -
  have p: "get_warning_info d = Some p" "warning_infos d p \<noteq> None"
    using get_warning_info_stack [OF assms(1)] assms(1) by (auto simp: is_stack_def)
  show ?thesis using assms(2,4-6) p
    by (cases c) (auto simp: da_call_defs on_wi_top [OF assms(1)] set_wi_def dest!: assms(3))
qed

lemma da_exec_copy_to:
  assumes "is_stack d (p # ps)" "warning_infos d wi \<noteq> None"
  shows "da_exec e (Copy_to wi) d =
    Some (set_wi wi (ext_append e (the (warning_infos d wi)) (the (warning_infos d p))) d)"
  using get_warning_info_stack [OF assms(1)] assms by (auto simp: da_call_defs set_wi_def is_stack_def)

definition ok_wi :: "Diagnostics_area \<Rightarrow> nat \<Rightarrow> bool" where
  "ok_wi d x \<longleftrightarrow> linkable (m_wi_stack d) x \<and> warning_infos d x \<noteq> None"

lemma ok_wi_set_wi: "warning_infos d wi \<noteq> None \<Longrightarrow> ok_wi (set_wi wi w d) = ok_wi d"
  by (auto simp: fun_eq_iff ok_wi_def set_wi_def)

definition rest_same :: "Diagnostics_area \<Rightarrow> Diagnostics_area \<Rightarrow> bool" where
  "rest_same d d' \<longleftrightarrow> d' = d\<lparr>m_wi_stack := m_wi_stack d', warning_infos := warning_infos d'\<rparr>"

lemma rest_same_set_wi [simp]: "rest_same (set_wi wi w d) d' \<longleftrightarrow> rest_same d d'"
  by (simp add: rest_same_def set_wi_def)

lemma rest_same_stack [simp]: "rest_same (d\<lparr>m_wi_stack := h\<rparr>) d' \<longleftrightarrow> rest_same d d'"
  by (simp add: rest_same_def)

lemma da_calls_bracketed:
  assumes "is_stack d (ps @ xs)" "bracketed (ok_wi d) xs ps cs"
  shows "\<exists>d'. foldM (\<lambda>d c. da_exec e c d) cs d = Some d' \<and> is_stack d' xs \<and> rest_same d d' \<and>
    warning_infos d' = stack_effect e ps cs (warning_infos d)"
  using assms
proof (induction cs arbitrary: d ps)
  case Nil
  then show ?case by (simp add: rest_same_def)
next
  case (Cons c cs)
  show ?case
  proof (cases "\<exists>wi. c = Push_wi wi")
    case True
    then obtain wi where c: "c = Push_wi wi" ..
    obtain h where h: "push_warning_info wi d = Some (d\<lparr>m_wi_stack := h\<rparr>)" "is_stack (d\<lparr>m_wi_stack := h\<rparr>) ((wi # ps) @ xs)"
      "linkable h = linkable (m_wi_stack d)"
      using da_push_stack [OF Cons.prems(1), of wi] Cons.prems(2) by (auto simp: c ok_wi_def)
    have "ok_wi (d\<lparr>m_wi_stack := h\<rparr>) = ok_wi d" using h(3) by (simp add: fun_eq_iff ok_wi_def)
    then show ?thesis using Cons.IH [OF h(2)] Cons.prems(2) h(1) by (simp add: c)
  next
    case False
    obtain q qs where ps: "ps = q # qs" using Cons.prems(2) False by (cases ps; cases c) auto
    then have s: "is_stack d (q # qs @ xs)" using Cons.prems(1) by simp
    consider "c = Pop_wi" | wi where "c = Copy_to wi" | "c \<noteq> Pop_wi" "\<forall>wi. c \<noteq> Copy_to wi" by blast
    then show ?thesis
    proof cases
      case 1
      obtain h where h: "pop_warning_info d = Some (d\<lparr>m_wi_stack := h\<rparr>)" "is_stack (d\<lparr>m_wi_stack := h\<rparr>) (qs @ xs)"
        "linkable h = linkable (m_wi_stack d)" using da_pop_stack [OF s] by blast
      have "ok_wi (d\<lparr>m_wi_stack := h\<rparr>) = ok_wi d" using h(3) by (simp add: fun_eq_iff ok_wi_def)
      then show ?thesis using Cons.IH [OF h(2)] Cons.prems(2) h(1) by (simp add: 1 ps)
    next
      case (2 wi)
      have w: "warning_infos d wi \<noteq> None" using Cons.prems(2) by (simp add: 2 ok_wi_def)
      note x = da_exec_copy_to [OF s w, of e]
      show ?thesis
        using Cons.IH [OF set_wi_simps(5) [OF Cons.prems(1)], of wi "ext_append e (the (warning_infos d wi)) (the (warning_infos d q))"]
          Cons.prems(2) w x
        by (simp add: 2 ps ok_wi_set_wi [OF w] set_wi_simps(3) fun_upd_def)
    next
      case 3
      have w: "warning_infos d q \<noteq> None" using s by (simp add: is_stack_def)
      have x: "da_exec e c d = Some (set_wi q (current_effect e (warning_infos d) c (the (warning_infos d q))) d)"
        using da_exec_current [OF s Cons.prems(2) [unfolded ps], of e] False 3 by (auto simp: ok_wi_def)
      have b: "bracketed (ok_wi d) xs ps cs" using Cons.prems(2) False 3 by (cases c) auto
      have "stack_effect e ps (c # cs) m = stack_effect e ps cs (m(hd ps \<mapsto> current_effect e m c (the (m (hd ps)))))" for m
        using False 3 by (cases c) auto
      then show ?thesis
        using Cons.IH [OF set_wi_simps(5) [OF Cons.prems(1)], of q "current_effect e (warning_infos d) c (the (warning_infos d q))"] b x
        by (simp add: ps ok_wi_set_wi [OF w] set_wi_simps(3) fun_upd_def)
    qed
  qed
qed

lemma stack_effect_outside:
  assumes "bracketed ok xs ps cs" "x \<in> set xs" "x \<notin> set ps" "x \<notin> \<Union> (copied_to ` set cs)"
  shows "stack_effect e ps cs m x = m x"
  using assms
proof (induction cs arbitrary: ps m)
  case (Cons c cs)
  have h: "ps \<noteq> [] \<Longrightarrow> hd ps \<noteq> x" "x \<notin> set (tl ps)" using Cons.prems(3) by (cases ps; auto)+
  show ?case
  proof (cases "\<exists>wi. c = Push_wi wi")
    case True
    then obtain wi where c: "c = Push_wi wi" ..
    then have "bracketed ok xs (wi # ps) cs" "x \<notin> set (wi # ps)" using Cons.prems by auto
    then show ?thesis using Cons.IH [of "wi # ps" m] Cons.prems(2,4) by (simp add: c)
  next
    case False
    then have "ps \<noteq> []" "bracketed ok xs (if c = Pop_wi then tl ps else ps) cs" using Cons.prems(1) by (cases c; auto)+
    then show ?thesis using Cons.IH [of "if c = Pop_wi then tl ps else ps"] Cons.prems(2-4) h False
      by (cases c) auto
  qed
qed simp

text \<open>
  C26. The stack of warning lists is a stack, and isolates: for every sequence of calls, nested to any depth, in
  which each pop is of a list pushed in it, all calls succeed; each call takes effect on the list pushed last
  and not yet popped, as the plain stack of addresses says, and a copy to another list on that list alone;
  at the end the stack is as before, with the former list current. Every list that was on the stack before is
  unchanged, unless conditions were copied to it explicitly, and so is everything else in the area, its
  status, message and counts.
\<close>
theorem warning_stack_isolation:
  assumes "is_stack d xs" "bracketed (ok_wi d) xs [] cs"
  shows "\<exists>d'. foldM (\<lambda>d c. da_exec e c d) cs d = Some d' \<and> is_stack d' xs \<and> get_warning_info d' = get_warning_info d \<and>
    warning_infos d' = stack_effect e [] cs (warning_infos d) \<and>
    (\<forall>x \<in> set xs. x \<notin> \<Union> (copied_to ` set cs) \<longrightarrow> warning_infos d' x = warning_infos d x) \<and>
    d' = d\<lparr>m_wi_stack := m_wi_stack d', warning_infos := warning_infos d'\<rparr>"
proof -
  obtain d' where "foldM (\<lambda>d c. da_exec e c d) cs d = Some d'" "is_stack d' xs" "rest_same d d'"
    "warning_infos d' = stack_effect e [] cs (warning_infos d)"
    using da_calls_bracketed [of d "[]" xs cs e] assms by auto
  then show ?thesis
    using stack_effect_outside [OF assms(2)] get_warning_info_stack assms(1) unfolding rest_same_def
    by (intro exI [of _ d']) simp
qed

definition sample_wi :: Warning_info where
  "sample_wi = \<lparr>m_warn_list = [], m_warn_count = (\<lambda>_. 0), m_current_statement_warn_count = 0,
     m_current_row_for_warning = 1, m_warn_id = 0, m_error_condition = 0, m_read_only = False, m_marked_sql_conditions = []\<rparr>"

definition sample_da :: Diagnostics_area where
  "sample_da = \<lparr>m_sqlstate = sqlstate_default, m_sql_errno = 0, da_user_condition = 0, m_is_sent = False,
     m_can_overwrite_status = False, m_skip_flush = False, da_message = [], m_affected_rows = 0, m_last_insert_id = 0,
     m_statement_warn_count = 0, m_status = DA_EMPTY, is_bulk_execution = False, m_wi_stack = pheap0 True True,
     warning_infos = (\<lambda>_. Some sample_wi)\<rparr>"

definition sample_extern :: wi_extern where
  "sample_extern = \<lparr>ext_clear = (\<lambda>i w. w\<lparr>m_warn_list := [], m_warn_id := i\<rparr>),
     ext_push = (\<lambda>c msg w. w\<lparr>m_warn_list := m_warn_list w @ [unat (m_sql_errno c)]\<rparr>),
     ext_append = (\<lambda>dst src. dst\<lparr>m_warn_list := m_warn_list dst @ m_warn_list src\<rparr>), ext_mark = id, ext_remove_marked = id,
     ext_reserve = (\<lambda>_. id)\<rparr>"

theorem warning_stack_isolation_witness:
  "\<exists>d0 d'. push_warning_info 3 sample_da = Some d0 \<and>
     foldM (\<lambda>d c. da_exec sample_extern c d)
       [Push_wi 7, Set_id 5, Push_wi 8, Push_cond 1064 [52, 50, 48, 48, 48] WARN_LEVEL_ERROR 0 [], Copy_to 9, Pop_wi,
        Inc_row, Pop_wi] d0 = Some d' \<and>
     get_warning_info d' = Some 3 \<and> warning_infos d' 3 = Some sample_wi \<and>
     warning_infos d' 7 = Some (sample_wi\<lparr>m_warn_id := 5, m_current_row_for_warning := 2\<rparr>) \<and>
     warning_infos d' 9 = Some (sample_wi\<lparr>m_warn_list := [1064]\<rparr>) \<and> m_status d' = DA_EMPTY"
proof -
  let ?cs = "[Push_wi 7, Set_id 5, Push_wi 8, Push_cond 1064 [52, 50, 48, 48, 48] WARN_LEVEL_ERROR 0 [], Copy_to 9, Pop_wi,
    Inc_row, Pop_wi]"
  have s: "is_stack sample_da []" "\<And>x. linkable (m_wi_stack sample_da) x" "\<And>x. warning_infos sample_da x = Some sample_wi"
    "m_status sample_da = DA_EMPTY"
    using pheap0_lists(1) pheap0_linkable by (simp_all add: is_stack_def sample_da_def)
  obtain h where h: "push_warning_info 3 sample_da = Some (sample_da\<lparr>m_wi_stack := h\<rparr>)"
    "is_stack (sample_da\<lparr>m_wi_stack := h\<rparr>) [3]" "linkable h = linkable (m_wi_stack sample_da)"
    using da_push_stack [OF s(1), of 3] s(2,3) by auto
  let ?d = "sample_da\<lparr>m_wi_stack := h\<rparr>"
  have ok: "ok_wi ?d = (\<lambda>_. True)" using h(3) s(2,3) by (simp add: fun_eq_iff ok_wi_def)
  then have b: "bracketed (ok_wi ?d) [3] [] ?cs" by simp
  have g: "get_warning_info ?d = Some 3" using get_warning_info_stack [OF h(2)] by simp
  obtain d' where d': "foldM (\<lambda>d c. da_exec sample_extern c d) ?cs ?d = Some d'" "get_warning_info d' = Some 3"
    "warning_infos d' = stack_effect sample_extern [] ?cs (warning_infos ?d)"
    "d' = ?d\<lparr>m_wi_stack := m_wi_stack d', warning_infos := warning_infos d'\<rparr>"
    using warning_stack_isolation [OF h(2) b, of sample_extern] unfolding g by blast
  have "m_status d' = DA_EMPTY" using arg_cong [OF d'(4), of m_status] s(4) by simp
  with d'(1,2) h(1) show ?thesis
    by (intro exI [of _ ?d] exI [of _ d']) (simp add: d'(3) s(3) sample_extern_def sample_wi_def del: foldM.simps)
qed

text \<open>
  The optional clearing of a warning list happens once per query: whatever the query does to the list after
  it, as long as its identifier stays, a second call for the same query changes nothing.
\<close>
theorem opt_clear_once:
  assumes "\<And>i w. m_warn_id (clear i w) = i" "m_warn_id (f (wi_opt_clear clear q w)) = m_warn_id (wi_opt_clear clear q w)"
  shows "wi_opt_clear clear q (f (wi_opt_clear clear q w)) = f (wi_opt_clear clear q w)"
  using assms by (simp add: wi_opt_clear_def split: if_splits)

theorem opt_clear_once_witness:
  "wi_opt_clear (\<lambda>i w. sample_wi\<lparr>m_warn_id := i\<rparr>) 5 (wi_inc_current_row
     (wi_opt_clear (\<lambda>i w. sample_wi\<lparr>m_warn_id := i\<rparr>) 5 sample_wi)) =
   wi_inc_current_row (wi_opt_clear (\<lambda>i w. sample_wi\<lparr>m_warn_id := i\<rparr>) 5 sample_wi)"
  by (rule opt_clear_once) (simp_all add: wi_inc_current_row_def)

end
