(* ===== verification/Xid.thy ===== *)
theory Xid
  imports Prelude ByteOrder "HOL-Library.Monad_Syntax"
begin

text \<open>
  The transaction identifiers of \<open>handler.h\<close>: \<open>struct xid_t\<close> with its comparison, the ways to set it, the
  key it is hashed by and the internal identifiers the server packs into it. \<open>long\<close> has 32 bits on the
  target, so the structure is three words of four bytes and the 128 bytes of the data without padding.
  The variable \<open>server_id\<close> is defined in \<open>mysqld.cc\<close> and is an argument of the operation that reads it.
\<close>

section \<open>The structure\<close>

definition XIDDATASIZE :: nat where "XIDDATASIZE = 128"
definition MAXGTRIDSIZE :: nat where "MAXGTRIDSIZE = 64"
definition MAXBQUALSIZE :: nat where "MAXBQUALSIZE = 64"

definition MYSQL_XID_PREFIX :: bytes where
  "MYSQL_XID_PREFIX = [0x4D, 0x79, 0x53, 0x51, 0x4C, 0x58, 0x69, 0x64]"

definition MYSQL_XID_PREFIX_LEN :: nat where "MYSQL_XID_PREFIX_LEN = 8"

text \<open>\<open>sizeof(server_id)\<close> is the size of \<open>ulong\<close>, four on the target; \<open>sizeof(my_xid)\<close> is eight.\<close>

definition MYSQL_XID_OFFSET :: nat where "MYSQL_XID_OFFSET = MYSQL_XID_PREFIX_LEN + 4"
definition MYSQL_XID_GTRID_LEN :: nat where "MYSQL_XID_GTRID_LEN = MYSQL_XID_OFFSET + 8"

type_synonym my_xid = ulonglong

record XID =
  formatID :: ulong
  gtrid_length :: ulong
  bqual_length :: ulong
  xid_data :: bytes

text \<open>The bytes of the structure in memory and the structure some bytes are.\<close>

definition xid_image :: "XID \<Rightarrow> bytes" where
  "xid_image x = le_bytes 4 (formatID x) @ le_bytes 4 (gtrid_length x) @ le_bytes 4 (bqual_length x) @ xid_data x"

definition image_xid :: "bytes \<Rightarrow> XID" where
  "image_xid b =
     \<lparr>formatID = le_word (take 4 b), gtrid_length = le_word (take 4 (drop 4 b)),
      bqual_length = le_word (take 4 (drop 8 b)), xid_data = drop 12 b\<rparr>"

text \<open>
  A \<open>long\<close> used as a number of bytes: a negative one becomes a \<open>size_t\<close> larger than every object. The
  sum of two of them is undefined when it does not fit.
\<close>

definition long_size :: "ulong \<Rightarrow> nat option" where
  "long_size n = (if 0 \<le> sint n then Some (nat (sint n)) else None)"

definition long_sum_size :: "ulong \<Rightarrow> ulong \<Rightarrow> nat option" where
  "long_sum_size g b =
     (let s = sint g + sint b in if 0 \<le> s \<and> s < 2 ^ 31 then Some (nat s) else None)"

section \<open>Operations\<close>

definition xid_is_null :: "XID \<Rightarrow> bool" where
  "xid_is_null x \<longleftrightarrow> formatID x = - 1"

definition xid_null :: "XID \<Rightarrow> XID" where
  "xid_null x = x\<lparr>formatID := - 1\<rparr>"

definition xid_eq_gbd :: "ulong \<Rightarrow> ulong \<Rightarrow> bytes \<Rightarrow> XID \<Rightarrow> bool option" where
  "xid_eq_gbd g b d x =
     (if \<not> xid_is_null x \<and> g = gtrid_length x \<and> b = bqual_length x
      then do {
        n \<leftarrow> long_sum_size g b;
        d1 \<leftarrow> arr_slice d 0 n;
        d2 \<leftarrow> arr_slice (xid_data x) 0 n;
        Some (d1 = d2)
      }
      else Some False)"

text \<open>\<open>x.eq(xid)\<close> with the argument first.\<close>

definition xid_eq :: "XID \<Rightarrow> XID \<Rightarrow> bool option" where
  "xid_eq xid x =
     (if \<not> xid_is_null xid then xid_eq_gbd (gtrid_length xid) (bqual_length xid) (xid_data xid) x
      else Some False)"

text \<open>The lengths are sums of \<open>size_t\<close> and \<open>long\<close> cut down to an \<open>uint\<close>.\<close>

definition xid_key_length :: "XID \<Rightarrow> uint" where
  "xid_key_length x = 4 + 4 + gtrid_length x + bqual_length x"

definition xid_length :: "XID \<Rightarrow> uint" where
  "xid_length x = 4 + xid_key_length x"

text \<open>The bytes a hash table reads from \<open>key\<close>, which points behind \<open>formatID\<close>.\<close>

definition xid_key :: "XID \<Rightarrow> bytes option" where
  "xid_key x = arr_slice (xid_image x) 4 (unat (xid_key_length x))"

definition xid_set_copy :: "XID \<Rightarrow> XID \<Rightarrow> XID option" where
  "xid_set_copy xid x = do {
     src \<leftarrow> arr_slice (xid_image xid) 0 (unat (xid_length xid));
     img \<leftarrow> arr_blit (xid_image x) 0 src;
     Some (image_xid img)
   }"

definition xid_set_parts :: "ulong \<Rightarrow> bytes \<Rightarrow> ulong \<Rightarrow> bytes \<Rightarrow> ulong \<Rightarrow> XID \<Rightarrow> XID option" where
  "xid_set_parts f g gl b bl x = do {
     let x = x\<lparr>formatID := f\<rparr>;
     let x = x\<lparr>gtrid_length := gl\<rparr>;
     n \<leftarrow> long_size gl;
     src \<leftarrow> arr_slice g 0 n;
     d \<leftarrow> arr_blit (xid_data x) 0 src;
     let x = x\<lparr>xid_data := d\<rparr>;
     let x = x\<lparr>bqual_length := bl\<rparr>;
     m \<leftarrow> long_size bl;
     src \<leftarrow> arr_slice b 0 m;
     d \<leftarrow> arr_blit (xid_data x) n src;
     Some (x\<lparr>xid_data := d\<rparr>)
   }"

definition xid_set_gbd :: "ulong \<Rightarrow> ulong \<Rightarrow> bytes \<Rightarrow> XID \<Rightarrow> XID option" where
  "xid_set_gbd g b d x = do {
     let x = x\<lparr>formatID := 1, gtrid_length := g, bqual_length := b\<rparr>;
     n \<leftarrow> long_sum_size g b;
     src \<leftarrow> arr_slice d 0 n;
     d \<leftarrow> arr_blit (xid_data x) 0 src;
     Some (x\<lparr>xid_data := d\<rparr>)
   }"

definition xid_set_my :: "ulong \<Rightarrow> my_xid \<Rightarrow> XID \<Rightarrow> XID option" where
  "xid_set_my server_id xid x = do {
     let x = x\<lparr>formatID := 1\<rparr>;
     x \<leftarrow> xid_set_gbd (of_nat MYSQL_XID_PREFIX_LEN) 0 MYSQL_XID_PREFIX x;
     d \<leftarrow> x86_store 4 (xid_data x) MYSQL_XID_PREFIX_LEN server_id;
     d \<leftarrow> x86_store 8 d MYSQL_XID_OFFSET xid;
     Some (x\<lparr>xid_data := d, gtrid_length := of_nat MYSQL_XID_GTRID_LEN\<rparr>)
   }"

definition quick_get_my_xid :: "XID \<Rightarrow> my_xid option" where
  "quick_get_my_xid x = x86_load 8 (xid_data x) MYSQL_XID_OFFSET"

definition get_my_xid :: "XID \<Rightarrow> my_xid option" where
  "get_my_xid x =
     (if gtrid_length x = of_nat MYSQL_XID_GTRID_LEN \<and> bqual_length x = 0
      then do {
        p \<leftarrow> arr_slice (xid_data x) 0 MYSQL_XID_PREFIX_LEN;
        if p = MYSQL_XID_PREFIX then quick_get_my_xid x else Some 0
      }
      else Some 0)"

section \<open>Valid identifiers\<close>

text \<open>The lengths the X/Open specification allows, in a structure of the declared size.\<close>

definition valid_xid :: "XID \<Rightarrow> bool" where
  "valid_xid x \<longleftrightarrow> length (xid_data x) = XIDDATASIZE \<and> unat (gtrid_length x) \<le> MAXGTRIDSIZE \<and>
     unat (bqual_length x) \<le> MAXBQUALSIZE"

text \<open>The part of the data that belongs to the identifier.\<close>

definition xid_used :: "XID \<Rightarrow> bytes" where
  "xid_used x = take (unat (gtrid_length x) + unat (bqual_length x)) (xid_data x)"

lemmas xid_consts = XIDDATASIZE_def MAXGTRIDSIZE_def MAXBQUALSIZE_def MYSQL_XID_PREFIX_LEN_def
  MYSQL_XID_OFFSET_def MYSQL_XID_GTRID_LEN_def

lemma sint_small:
  assumes "unat (n :: ulong) \<le> 128"
  shows "sint n = int (unat n)"
proof -
  have "uint n = int (unat n)" by simp
  then have "uint n \<le> 128" "0 \<le> uint n" using assms by linarith+
  then have "- (2147483648) \<le> uint n" "uint n < 2147483648" by linarith+
  then have "signed_take_bit 31 (uint n) = uint n" by (simp add: signed_take_bit_int_eq_self)
  then show ?thesis by (simp add: sint_uint)
qed

lemma long_size_small: "unat n \<le> 128 \<Longrightarrow> long_size n = Some (unat n)"
  unfolding long_size_def sint_small by simp

lemma long_sum_size_small:
  assumes "unat g \<le> 64" "unat b \<le> 64"
  shows "long_sum_size g b = Some (unat g + unat b)"
proof -
  have s: "sint g + sint b = int (unat g + unat b)"
    using assms sint_small [of g] sint_small [of b] by linarith
  have "int (unat g + unat b) < 2147483648" using assms by linarith
  then show ?thesis unfolding long_sum_size_def Let_def s nat_int by (simp del: of_nat_add)
qed

lemma unat_key_length:
  assumes "valid_xid x"
  shows "unat (xid_key_length x) = 8 + unat (gtrid_length x) + unat (bqual_length x)"
  using assms by (simp add: valid_xid_def xid_key_length_def xid_consts unat_word_ariths)

lemma unat_xid_length:
  assumes "valid_xid x"
  shows "unat (xid_length x) = 12 + unat (gtrid_length x) + unat (bqual_length x)"
  using assms unat_key_length [OF assms]
  by (simp add: valid_xid_def xid_length_def xid_consts unat_word_ariths)

lemma length_xid_image [simp]: "length (xid_image x) = 12 + length (xid_data x)"
  by (simp add: xid_image_def)

lemma image_xid_image [simp]: "image_xid (xid_image x) = x"
  by (simp add: image_xid_def xid_image_def le_word_le_bytes take_bit_word_eq_self)

text \<open>Two identifiers of one format are the same string of bytes behind \<open>formatID\<close>.\<close>

lemma xid_key_valid:
  assumes "valid_xid x"
  shows "xid_key x = Some (le_bytes 4 (gtrid_length x) @ le_bytes 4 (bqual_length x) @ xid_used x)"
proof -
  have "8 + (unat (gtrid_length x) + unat (bqual_length x)) \<le> 8 + length (xid_data x)"
    using assms by (simp add: valid_xid_def xid_consts)
  then show ?thesis using unat_key_length [OF assms]
    by (simp add: xid_key_def arr_slice_def xid_image_def xid_used_def)
qed

section \<open>Comparison and the hash key\<close>

lemma le_bytes_inj4: "le_bytes 4 (a :: ulong) = le_bytes 4 b \<longleftrightarrow> a = b"
proof
  assume "le_bytes 4 a = le_bytes 4 b"
  then have "(le_word (le_bytes 4 a) :: ulong) = le_word (le_bytes 4 b)" by simp
  then show "a = b" by (simp add: le_word_le_bytes take_bit_word_eq_self)
qed simp

lemma xid_key_eq_iff:
  assumes "valid_xid x" "valid_xid y"
  shows "xid_key x = xid_key y \<longleftrightarrow>
    gtrid_length x = gtrid_length y \<and> bqual_length x = bqual_length y \<and> xid_used x = xid_used y"
  using assms by (simp add: xid_key_valid le_bytes_inj4)

lemma xid_eq_gbd_valid:
  assumes "valid_xid x" "valid_xid y"
  shows "xid_eq_gbd (gtrid_length y) (bqual_length y) (xid_data y) x = Some (\<not> xid_is_null x \<and>
    gtrid_length y = gtrid_length x \<and> bqual_length y = bqual_length x \<and> xid_used y = xid_used x)"
proof -
  have "long_sum_size (gtrid_length y) (bqual_length y) = Some (unat (gtrid_length y) + unat (bqual_length y))"
    using assms by (simp add: valid_xid_def xid_consts long_sum_size_small)
  then show ?thesis using assms
    by (auto simp: xid_eq_gbd_def arr_slice_def valid_xid_def xid_consts xid_used_def)
qed

text \<open>C14. The comparison of two valid transaction identifiers reads nothing outside them and is true exactly
  when neither is the null identifier and their hash keys are the same bytes, so it is an equivalence on the
  identifiers that are not null; the null identifier equals nothing, itself included.\<close>

theorem xid_eq_is_key_equality:
  assumes "valid_xid x" "valid_xid y"
  shows "xid_eq y x = Some (\<not> xid_is_null x \<and> \<not> xid_is_null y \<and> xid_key x = xid_key y)"
  using assms xid_key_eq_iff [OF assms] by (auto simp: xid_eq_def xid_eq_gbd_valid)

definition sample_xid :: "ulong \<Rightarrow> XID" where
  "sample_xid f =
     \<lparr>formatID = f, gtrid_length = 2, bqual_length = 1, xid_data = [7, 8, 9] @ replicate 125 0\<rparr>"

lemma valid_sample_xid [simp]: "valid_xid (sample_xid f)"
  by (simp add: valid_xid_def sample_xid_def xid_consts)

lemma length_sample_xid [simp]: "length (xid_data (sample_xid f)) = XIDDATASIZE"
  by (simp add: sample_xid_def XIDDATASIZE_def)

lemma formatID_sample_xid [simp]: "formatID (sample_xid f) = f"
  by (simp add: sample_xid_def)

lemma xid_eq_is_key_equality_witness:
  "xid_eq (sample_xid 1) (sample_xid 1) = Some True \<and> xid_eq (sample_xid 1) (sample_xid (- 1)) = Some False"
  using xid_eq_is_key_equality [of "sample_xid 1" "sample_xid 1"]
    xid_eq_is_key_equality [of "sample_xid (- 1)" "sample_xid 1"]
  by (simp add: xid_is_null_def)

text \<open>The format is not compared: identifiers of different formats with the same bytes are equal.\<close>

lemma xid_eq_ignores_format: "xid_eq (sample_xid 1) (sample_xid 2) = Some True"
proof -
  have "xid_key (sample_xid 2) = xid_key (sample_xid 1)"
    by (simp add: xid_key_eq_iff) (simp add: sample_xid_def xid_used_def)
  then show ?thesis
    unfolding xid_eq_def by (simp add: xid_eq_gbd_valid xid_key_eq_iff) (simp add: sample_xid_def xid_is_null_def)
qed

section \<open>Setting an identifier\<close>

lemma xid_set_my_eq:
  assumes "length (xid_data x) = XIDDATASIZE"
  shows "xid_set_my server_id n x = Some (x\<lparr>formatID := 1, gtrid_length := 20, bqual_length := 0,
    xid_data := MYSQL_XID_PREFIX @ le_bytes 4 server_id @ le_bytes 8 n @ drop 20 (xid_data x)\<rparr>)"
proof -
  have "long_sum_size 8 0 = Some 8" by (simp add: long_sum_size_small)
  then show ?thesis using assms
    by (simp add: xid_set_my_def xid_set_gbd_def xid_consts MYSQL_XID_PREFIX_def arr_slice_def arr_blit_def
          x86_store_def)
qed

lemma get_my_xid_valid:
  assumes "valid_xid y"
  shows "get_my_xid y = Some (if gtrid_length y = 20 \<and> bqual_length y = 0 \<and> take 8 (xid_data y) = MYSQL_XID_PREFIX
    then le_word (take 8 (drop 12 (xid_data y))) else 0)"
  using assms by (simp add: get_my_xid_def valid_xid_def xid_consts arr_slice_def quick_get_my_xid_def x86_load_def)

lemma valid_xid_set_my:
  assumes "length (xid_data x) = XIDDATASIZE" "xid_set_my server_id n x = Some y"
  shows "valid_xid y" "xid_data y = MYSQL_XID_PREFIX @ le_bytes 4 server_id @ le_bytes 8 n @ drop 20 (xid_data x)"
    "gtrid_length y = 20" "bqual_length y = 0" "formatID y = 1"
proof -
  have "y = x\<lparr>formatID := 1, gtrid_length := 20, bqual_length := 0,
      xid_data := MYSQL_XID_PREFIX @ le_bytes 4 server_id @ le_bytes 8 n @ drop 20 (xid_data x)\<rparr>"
    using assms(2) by (simp add: xid_set_my_eq [OF assms(1)])
  then show "valid_xid y"
    "xid_data y = MYSQL_XID_PREFIX @ le_bytes 4 server_id @ le_bytes 8 n @ drop 20 (xid_data x)"
    "gtrid_length y = 20" "bqual_length y = 0" "formatID y = 1"
    using assms(1) by (simp_all add: valid_xid_def xid_consts MYSQL_XID_PREFIX_def)
qed

lemma get_my_xid_set_my:
  assumes "length (xid_data x) = XIDDATASIZE" "xid_set_my server_id n x = Some y"
  shows "get_my_xid y = Some n"
  using valid_xid_set_my [OF assms]
  by (simp add: get_my_xid_valid MYSQL_XID_PREFIX_def le_word_le_bytes take_bit_word_eq_self)

lemma xid_used_set_my:
  assumes "length (xid_data x) = XIDDATASIZE" "xid_set_my server_id n x = Some y"
  shows "xid_used y = MYSQL_XID_PREFIX @ le_bytes 4 server_id @ le_bytes 8 n"
  using valid_xid_set_my [OF assms] by (simp add: xid_used_def MYSQL_XID_PREFIX_def)

text \<open>The bytes an internal identifier was made from can be read off it.\<close>

lemma xid_used_my_xid:
  assumes y: "valid_xid y" "get_my_xid y = Some n" "n \<noteq> 0"
  shows "gtrid_length y = 20" "bqual_length y = 0"
    "xid_used y = MYSQL_XID_PREFIX @ le_bytes 4 (le_word (take 4 (drop 8 (xid_data y))) :: ulong) @ le_bytes 8 n"
proof -
  have *: "gtrid_length y = 20" "bqual_length y = 0" "take 8 (xid_data y) = MYSQL_XID_PREFIX"
    "n = le_word (take 8 (drop 12 (xid_data y)))"
    using y by (auto simp: get_my_xid_valid split: if_splits)
  have len: "length (xid_data y) = 128" using y(1) by (simp add: valid_xid_def xid_consts)
  then have "le_bytes 4 (le_word (take 4 (drop 8 (xid_data y))) :: ulong) = take 4 (drop 8 (xid_data y))"
    using le_bytes_le_word [of "take 4 (drop 8 (xid_data y))", where 'a = 32] by simp
  moreover have "le_bytes 8 n = take 8 (drop 12 (xid_data y))"
    using le_bytes_le_word [of "take 8 (drop 12 (xid_data y))", where 'a = 64] len *(4) by simp
  moreover have "take 20 (xid_data y) =
      take 8 (xid_data y) @ take 4 (drop 8 (xid_data y)) @ take 8 (drop 12 (xid_data y))"
    using take_add [of 8 12 "xid_data y"] take_add [of 4 8 "drop 8 (xid_data y)"] by simp
  ultimately show "gtrid_length y = 20" "bqual_length y = 0"
    "xid_used y = MYSQL_XID_PREFIX @ le_bytes 4 (le_word (take 4 (drop 8 (xid_data y))) :: ulong) @ le_bytes 8 n"
    using * by (simp_all add: xid_used_def)
qed

lemma get_my_xid_of_key:
  assumes "length (xid_data x) = XIDDATASIZE" "xid_set_my sid n x = Some w" "valid_xid z" "xid_key z = xid_key w"
  shows "get_my_xid z = Some n"
proof -
  note v = valid_xid_set_my [OF assms(1,2)] and u = xid_used_set_my [OF assms(1,2)]
  have k: "gtrid_length z = 20" "bqual_length z = 0"
    "take 20 (xid_data z) = MYSQL_XID_PREFIX @ le_bytes 4 sid @ le_bytes 8 n"
    using assms(4) v u xid_key_eq_iff [OF assms(3) v(1)] by (auto simp: xid_used_def)
  have "take 8 (xid_data z) = take 8 (take 20 (xid_data z))"
    "take 8 (drop 12 (xid_data z)) = drop 12 (take 20 (xid_data z))"
    by (simp_all add: drop_take)
  then have "take 8 (xid_data z) = MYSQL_XID_PREFIX" "take 8 (drop 12 (xid_data z)) = le_bytes 8 n"
    unfolding k(3) by (simp_all add: MYSQL_XID_PREFIX_def)
  then show ?thesis
    using k assms(3) by (simp add: get_my_xid_valid le_word_le_bytes take_bit_word_eq_self)
qed

lemma my_xid_has_key:
  assumes "length (xid_data x) = XIDDATASIZE" "valid_xid z" "get_my_xid z = Some n" "n \<noteq> 0"
  shows "\<exists>sid y. xid_set_my sid n x = Some y \<and> xid_key z = xid_key y"
proof -
  obtain sid where sid: "sid = (le_word (take 4 (drop 8 (xid_data z))) :: ulong)" by blast
  obtain w where w: "xid_set_my sid n x = Some w" using xid_set_my_eq [OF assms(1)] by blast
  have "xid_key z = xid_key w"
    unfolding xid_key_eq_iff [OF assms(2) valid_xid_set_my(1) [OF assms(1) w]]
    using xid_used_my_xid [OF assms(2-4)] xid_used_set_my [OF assms(1) w] valid_xid_set_my [OF assms(1) w] sid
    by simp
  then show ?thesis using w by blast
qed

text \<open>C18. An identifier the server makes from its own number is valid and not null, and the number is read
  back from it, the server's identifier apart; and conversely a valid identifier from which a number other
  than zero is read has the key of one that \<open>set\<close> makes from that number, so that foreign identifiers are told
  apart from internal ones.\<close>

theorem my_xid_roundtrip:
  assumes "length (xid_data x) = XIDDATASIZE" "valid_xid z"
  shows "(\<exists>y. xid_set_my server_id n x = Some y \<and> valid_xid y \<and> \<not> xid_is_null y \<and> get_my_xid y = Some n) \<and>
    (n \<noteq> 0 \<longrightarrow> (get_my_xid z = Some n \<longleftrightarrow> (\<exists>sid y. xid_set_my sid n x = Some y \<and> xid_key z = xid_key y)))"
proof -
  obtain y where y: "xid_set_my server_id n x = Some y" using xid_set_my_eq [OF assms(1)] by blast
  have "valid_xid y" "\<not> xid_is_null y" "get_my_xid y = Some n"
    using valid_xid_set_my [OF assms(1) y] get_my_xid_set_my [OF assms(1) y] by (simp_all add: xid_is_null_def)
  then show ?thesis
    using y my_xid_has_key [OF assms] get_my_xid_of_key [OF assms(1) _ assms(2)] by blast
qed

lemma my_xid_roundtrip_witness:
  "(\<exists>y. xid_set_my 3 77 (sample_xid 0) = Some y \<and> valid_xid y \<and> \<not> xid_is_null y \<and> get_my_xid y = Some 77) \<and>
   get_my_xid (sample_xid 0) \<noteq> Some 77"
proof -
  have "get_my_xid (sample_xid 0) = Some 0"
    by (simp add: get_my_xid_valid) (simp add: sample_xid_def)
  then show ?thesis
    using my_xid_roundtrip [of "sample_xid 0" "sample_xid 0" 3 77] by simp
qed

section \<open>Copying and setting parts\<close>

text \<open>
  \<open>set\<close> from another identifier copies its format, its lengths and the bytes that belong to it, and leaves
  the rest of the data; \<open>set\<close> from the two parts puts one behind the other.
\<close>

lemma xid_set_copy_valid:
  assumes "valid_xid y" "length (xid_data x) = XIDDATASIZE"
  shows "\<exists>z. xid_set_copy y x = Some z \<and> valid_xid z \<and> formatID z = formatID y \<and> xid_key z = xid_key y \<and>
    drop (length (xid_used y)) (xid_data z) = drop (length (xid_used y)) (xid_data x)"
proof -
  obtain k where k: "k = unat (gtrid_length y) + unat (bqual_length y)" "k \<le> 128"
    using assms(1) by (simp add: valid_xid_def xid_consts)
  have len: "length (xid_data y) = 128" "length (xid_data x) = 128" using assms by (simp_all add: valid_xid_def xid_consts)
  obtain z where z: "z = y\<lparr>xid_data := take k (xid_data y) @ drop k (xid_data x)\<rparr>" by blast
  have "take (12 + k) (xid_image y) @ drop (12 + k) (xid_image x) = xid_image z"
    by (simp add: xid_image_def z)
  then have "xid_set_copy y x = Some z"
    using unat_xid_length [OF assms(1)] k len
    by (simp add: xid_set_copy_def arr_slice_def arr_blit_def add.assoc)
  moreover have "valid_xid z" using assms(1) k(2) len by (simp add: z valid_xid_def xid_consts)
  moreover have "xid_used z = xid_used y" "length (xid_used y) = k"
    using k len by (simp_all add: z xid_used_def)
  ultimately show ?thesis using assms(1) k(2) len by (auto simp: xid_key_eq_iff z)
qed

lemma xid_set_parts_valid:
  assumes "length (xid_data x) = XIDDATASIZE" "unat gl \<le> MAXGTRIDSIZE" "unat bl \<le> MAXBQUALSIZE"
    "unat gl \<le> length g" "unat bl \<le> length b"
  shows "\<exists>z. xid_set_parts f g gl b bl x = Some z \<and> valid_xid z \<and> formatID z = f \<and> gtrid_length z = gl \<and>
    bqual_length z = bl \<and> xid_used z = take (unat gl) g @ take (unat bl) b"
proof -
  have "long_size gl = Some (unat gl)" "long_size bl = Some (unat bl)"
    "unat bl \<le> 128 - unat gl" "unat gl \<le> 128"
    using assms by (simp_all add: long_size_small xid_consts)
  then show ?thesis using assms
    by (simp add: xid_set_parts_def Let_def arr_slice_def arr_blit_def valid_xid_def xid_consts xid_used_def)
qed

end
