(* ===== verification/TrxInfo.thy ===== *)
theory TrxInfo
  imports Prelude "HOL-Library.Monad_Syntax"
begin

text \<open>
  The storage engines that take part in a transaction, of \<open>handler.h\<close>: \<open>THD_TRANS\<close> with the flags of a
  statement or transaction and the list of \<open>Ha_trx_info\<close> objects that engines register. The objects live
  in a store, the address zero is the null pointer; a debug assertion is not part of a definition.
\<close>

section \<open>State\<close>

type_synonym hton_ptr = nat
type_synonym trx_ptr = nat

record Ha_trx_info =
  hti_next :: trx_ptr
  hti_ht :: hton_ptr
  hti_flags :: uchar

type_synonym trx_heap = "trx_ptr \<Rightarrow> Ha_trx_info option"

record THD_TRANS =
  no_2pc :: bool
  ha_list :: trx_ptr
  modified_non_trans_table :: bool
  m_unsafe_rollback_flags :: uint

definition TRX_READ_ONLY :: uchar where "TRX_READ_ONLY = 0"
definition TRX_READ_WRITE :: uchar where "TRX_READ_WRITE = 1"

definition CREATED_TEMP_TABLE :: uint where "CREATED_TEMP_TABLE = 2"
definition DROPPED_TEMP_TABLE :: uint where "DROPPED_TEMP_TABLE = 4"
definition DID_WAIT :: uint where "DID_WAIT = 8"
definition DID_DDL :: uint where "DID_DDL = 0x10"

section \<open>\<open>THD_TRANS\<close>\<close>

text \<open>\<open>reset\<close> leaves the list of engines as it is.\<close>

definition thd_trans_reset :: "THD_TRANS \<Rightarrow> THD_TRANS" where
  "thd_trans_reset t = t\<lparr>no_2pc := False, modified_non_trans_table := False, m_unsafe_rollback_flags := 0\<rparr>"

definition thd_trans_is_empty :: "THD_TRANS \<Rightarrow> bool" where
  "thd_trans_is_empty t \<longleftrightarrow> ha_list t = 0"

definition mark_created_temp_table :: "THD_TRANS \<Rightarrow> THD_TRANS" where
  "mark_created_temp_table t = t\<lparr>m_unsafe_rollback_flags := m_unsafe_rollback_flags t OR CREATED_TEMP_TABLE\<rparr>"

definition mark_dropped_temp_table :: "THD_TRANS \<Rightarrow> THD_TRANS" where
  "mark_dropped_temp_table t = t\<lparr>m_unsafe_rollback_flags := m_unsafe_rollback_flags t OR DROPPED_TEMP_TABLE\<rparr>"

definition has_created_dropped_temp_table :: "THD_TRANS \<Rightarrow> bool" where
  "has_created_dropped_temp_table t \<longleftrightarrow>
     m_unsafe_rollback_flags t AND (CREATED_TEMP_TABLE OR DROPPED_TEMP_TABLE) \<noteq> 0"

definition mark_trans_did_wait :: "THD_TRANS \<Rightarrow> THD_TRANS" where
  "mark_trans_did_wait t = t\<lparr>m_unsafe_rollback_flags := m_unsafe_rollback_flags t OR DID_WAIT\<rparr>"

definition trans_did_wait :: "THD_TRANS \<Rightarrow> bool" where
  "trans_did_wait t \<longleftrightarrow> m_unsafe_rollback_flags t AND DID_WAIT \<noteq> 0"

definition mark_trans_did_ddl :: "THD_TRANS \<Rightarrow> THD_TRANS" where
  "mark_trans_did_ddl t = t\<lparr>m_unsafe_rollback_flags := m_unsafe_rollback_flags t OR DID_DDL\<rparr>"

definition trans_did_ddl :: "THD_TRANS \<Rightarrow> bool" where
  "trans_did_ddl t \<longleftrightarrow> m_unsafe_rollback_flags t AND DID_DDL \<noteq> 0"

section \<open>\<open>Ha_trx_info\<close>\<close>

definition hti_cleared :: Ha_trx_info where
  "hti_cleared = \<lparr>hti_next = 0, hti_ht = 0, hti_flags = 0\<rparr>"

definition hti_reset :: "trx_ptr \<Rightarrow> trx_heap \<Rightarrow> trx_heap option" where
  "hti_reset i h = do { _ \<leftarrow> h i; Some (h(i \<mapsto> hti_cleared)) }"

definition hti_register_ha ::
  "trx_ptr \<Rightarrow> hton_ptr \<Rightarrow> trx_heap \<Rightarrow> THD_TRANS \<Rightarrow> (trx_heap \<times> THD_TRANS) option" where
  "hti_register_ha i ht_arg h t = do {
     n \<leftarrow> h i;
     let n = n\<lparr>hti_ht := ht_arg, hti_flags := TRX_READ_ONLY, hti_next := ha_list t\<rparr>;
     Some (h(i \<mapsto> n), t\<lparr>ha_list := i\<rparr>)
   }"

definition hti_set_trx_read_write :: "trx_ptr \<Rightarrow> trx_heap \<Rightarrow> trx_heap option" where
  "hti_set_trx_read_write i h = do { n \<leftarrow> h i; Some (h(i \<mapsto> n\<lparr>hti_flags := hti_flags n OR TRX_READ_WRITE\<rparr>)) }"

definition hti_is_trx_read_write :: "trx_ptr \<Rightarrow> trx_heap \<Rightarrow> bool option" where
  "hti_is_trx_read_write i h = do { n \<leftarrow> h i; Some (hti_flags n AND TRX_READ_WRITE \<noteq> 0) }"

definition hti_is_started :: "trx_ptr \<Rightarrow> trx_heap \<Rightarrow> bool option" where
  "hti_is_started i h = do { n \<leftarrow> h i; Some (hti_ht n \<noteq> 0) }"

text \<open>The object of the transaction and the one of the statement.\<close>

definition hti_coalesce_trx_with :: "trx_ptr \<Rightarrow> trx_ptr \<Rightarrow> trx_heap \<Rightarrow> trx_heap option" where
  "hti_coalesce_trx_with stmt_trx i h = do {
     rw \<leftarrow> hti_is_trx_read_write stmt_trx h;
     if rw then hti_set_trx_read_write i h else Some h
   }"

definition hti_get_next :: "trx_ptr \<Rightarrow> trx_heap \<Rightarrow> trx_ptr option" where
  "hti_get_next i h = map_option hti_next (h i)"

definition hti_get_ht :: "trx_ptr \<Rightarrow> trx_heap \<Rightarrow> hton_ptr option" where
  "hti_get_ht i h = map_option hti_ht (h i)"

text \<open>The loop over the list; it would not end on a cyclic one.\<close>

partial_function (option) trx_read_write_loop :: "trx_heap \<Rightarrow> trx_ptr \<Rightarrow> bool option" where
  "trx_read_write_loop h i =
     (if i = 0 then Some False
      else do {
        rw \<leftarrow> hti_is_trx_read_write i h;
        if rw then Some True else do { n \<leftarrow> hti_get_next i h; trx_read_write_loop h n }
      })"

definition trans_is_trx_read_write :: "trx_heap \<Rightarrow> THD_TRANS \<Rightarrow> bool option" where
  "trans_is_trx_read_write h t = trx_read_write_loop h (ha_list t)"

section \<open>The list of participants\<close>

text \<open>
  The abstract state of a transaction is the list of its engines, latest first, each with the flag that it has
  written; it is represented by a chain of distinct objects.
\<close>

fun hti_chain :: "trx_heap \<Rightarrow> trx_ptr \<Rightarrow> trx_ptr list \<Rightarrow> bool" where
  "hti_chain h i [] \<longleftrightarrow> i = 0"
| "hti_chain h i (p # ps) \<longleftrightarrow> i = p \<and> p \<noteq> 0 \<and> (\<exists>n. h p = Some n \<and> hti_chain h (hti_next n) ps)"

definition trx_list :: "trx_heap \<Rightarrow> THD_TRANS \<Rightarrow> trx_ptr list \<Rightarrow> bool" where
  "trx_list h t ps \<longleftrightarrow> distinct ps \<and> hti_chain h (ha_list t) ps"

definition hti_view :: "trx_heap \<Rightarrow> trx_ptr \<Rightarrow> hton_ptr \<times> bool" where
  "hti_view h p = (hti_ht (the (h p)), hti_flags (the (h p)) AND TRX_READ_WRITE \<noteq> 0)"

definition trx_view :: "trx_heap \<Rightarrow> trx_ptr list \<Rightarrow> (hton_ptr \<times> bool) list" where
  "trx_view h ps = map (hti_view h) ps"

lemma hti_chain_frame: "hti_chain h i ps \<Longrightarrow> x \<notin> set ps \<Longrightarrow> hti_chain (h(x := e)) i ps"
  by (induction ps arbitrary: i) auto

text \<open>Changing an object but not its link keeps every chain.\<close>

lemma hti_chain_same_next:
  "hti_chain h i ps \<Longrightarrow> h x = Some n \<Longrightarrow> hti_next m = hti_next n \<Longrightarrow> hti_chain (h(x \<mapsto> m)) i ps"
  by (induction ps arbitrary: i) auto

lemma hti_chain_in_heap: "hti_chain h i ps \<Longrightarrow> p \<in> set ps \<Longrightarrow> \<exists>n. h p = Some n"
  by (induction ps arbitrary: i) auto

lemma trx_view_frame: "x \<notin> set ps \<Longrightarrow> trx_view (h(x := e)) ps = trx_view h ps"
  by (auto simp: trx_view_def hti_view_def)

lemma trx_view_update:
  assumes "distinct ps" "k < length ps"
  shows "trx_view (h(ps ! k \<mapsto> m)) ps = (trx_view h ps)[k := (hti_ht m, hti_flags m AND TRX_READ_WRITE \<noteq> 0)]"
  using assms by (intro nth_equalityI) (auto simp: trx_view_def hti_view_def nth_list_update nth_eq_iff_index_eq)

lemma trx_read_write_loop_chain:
  "hti_chain h i ps \<Longrightarrow> trx_read_write_loop h i = Some (list_ex snd (trx_view h ps))"
proof (induction ps arbitrary: i)
  case Nil
  then show ?case by (simp add: trx_view_def trx_read_write_loop.simps)
next
  case (Cons p ps)
  then obtain n where n: "i = p" "p \<noteq> 0" "h p = Some n" "hti_chain h (hti_next n) ps" by auto
  show ?case using n Cons.IH [OF n(4)]
    by (subst trx_read_write_loop.simps)
      (simp add: hti_is_trx_read_write_def hti_get_next_def trx_view_def hti_view_def)
qed

lemma read_write_or [simp]: "(f OR TRX_READ_WRITE) AND TRX_READ_WRITE \<noteq> 0"
proof -
  have "bit ((f OR TRX_READ_WRITE) AND TRX_READ_WRITE) 0"
    by (simp add: bit_or_iff bit_and_iff TRX_READ_WRITE_def)
  then show ?thesis by (metis bit_0_eq bot_apply bot_bool_def)
qed

lemma TRX_READ_WRITE_neq_0 [simp]: "TRX_READ_WRITE \<noteq> 0"
  by (simp add: TRX_READ_WRITE_def)

lemma trx_register:
  assumes "trx_list h t ps" "i \<notin> set ps" "i \<noteq> 0" "h i = Some n"
  shows "\<exists>h' t'. hti_register_ha i e h t = Some (h', t') \<and> trx_list h' t' (i # ps) \<and>
    trx_view h' (i # ps) = (e, False) # trx_view h ps \<and> (\<forall>q. q \<noteq> i \<longrightarrow> h' q = h q)"
proof -
  obtain m where m: "m = n\<lparr>hti_ht := e, hti_flags := TRX_READ_ONLY, hti_next := ha_list t\<rparr>" by blast
  have "trx_list (h(i \<mapsto> m)) (t\<lparr>ha_list := i\<rparr>) (i # ps)"
    using assms by (simp add: trx_list_def m hti_chain_frame)
  moreover have "trx_view (h(i \<mapsto> m)) (i # ps) = (e, False) # trx_view h ps"
    using trx_view_frame [OF assms(2)] by (simp add: trx_view_def hti_view_def m TRX_READ_ONLY_def)
  moreover have "hti_register_ha i e h t = Some (h(i \<mapsto> m), t\<lparr>ha_list := i\<rparr>)"
    using assms(4) by (simp add: hti_register_ha_def m)
  ultimately show ?thesis by simp
qed

lemma trx_set_read_write:
  assumes "trx_list h t ps" "k < length ps"
  shows "\<exists>h'. hti_set_trx_read_write (ps ! k) h = Some h' \<and> trx_list h' t ps \<and>
    trx_view h' ps = (trx_view h ps)[k := (fst (trx_view h ps ! k), True)]"
proof -
  obtain n where n: "h (ps ! k) = Some n"
    using assms hti_chain_in_heap [of h "ha_list t" ps "ps ! k"] by (auto simp: trx_list_def)
  obtain m where m: "m = n\<lparr>hti_flags := hti_flags n OR TRX_READ_WRITE\<rparr>" by blast
  have "hti_chain (h(ps ! k \<mapsto> m)) (ha_list t) ps"
    using assms(1) n by (intro hti_chain_same_next [where n = n]) (simp_all add: m trx_list_def)
  moreover have "trx_view (h(ps ! k \<mapsto> m)) ps = (trx_view h ps)[k := (hti_ht m, True)]"
    using assms by (subst trx_view_update) (simp_all add: trx_list_def m)
  moreover have "hti_ht m = fst (trx_view h ps ! k)"
    using assms(2) n by (simp add: m trx_view_def hti_view_def)
  ultimately show ?thesis using assms(1) n by (simp add: hti_set_trx_read_write_def trx_list_def m)
qed

lemma trx_coalesce:
  assumes "trx_list h t ps" "k < length ps" "h s = Some m"
  shows "\<exists>h'. hti_coalesce_trx_with s (ps ! k) h = Some h' \<and> trx_list h' t ps \<and>
    trx_view h' ps = (trx_view h ps)[k := (fst (trx_view h ps ! k), snd (trx_view h ps ! k) \<or> snd (hti_view h s))]"
proof -
  have rw: "hti_is_trx_read_write s h = Some (snd (hti_view h s))"
    using assms(3) by (simp add: hti_is_trx_read_write_def hti_view_def)
  show ?thesis
  proof (cases "snd (hti_view h s)")
    case True
    then show ?thesis using trx_set_read_write [OF assms(1,2)] by (simp add: hti_coalesce_trx_with_def rw)
  next
    case False
    then show ?thesis using assms(1,2) by (simp add: hti_coalesce_trx_with_def rw)
  qed
qed

text \<open>C11. The list of a transaction implements the sequence of its engines with a flag for those that wrote:
  the loop of \<open>is_trx_read_write\<close> ends and says whether one has written; \<open>register_ha\<close> puts a new read-only
  engine in front and changes no other object; \<open>set_trx_read_write\<close> sets the flag of its engine alone, and
  \<open>coalesce_trx_with\<close> sets it when the object of the statement has it.\<close>

theorem trx_participants:
  assumes "trx_list h t ps"
  shows "trans_is_trx_read_write h t = Some (list_ex snd (trx_view h ps)) \<and>
    (\<forall>i e. i \<notin> set ps \<and> i \<noteq> 0 \<and> h i \<noteq> None \<longrightarrow>
       (\<exists>h' t'. hti_register_ha i e h t = Some (h', t') \<and> trx_list h' t' (i # ps) \<and>
          trx_view h' (i # ps) = (e, False) # trx_view h ps \<and> (\<forall>q. q \<noteq> i \<longrightarrow> h' q = h q))) \<and>
    (\<forall>k < length ps.
       (\<exists>h'. hti_set_trx_read_write (ps ! k) h = Some h' \<and> trx_list h' t ps \<and>
          trx_view h' ps = (trx_view h ps)[k := (fst (trx_view h ps ! k), True)])) \<and>
    (\<forall>k < length ps. \<forall>s. h s \<noteq> None \<longrightarrow>
       (\<exists>h'. hti_coalesce_trx_with s (ps ! k) h = Some h' \<and> trx_list h' t ps \<and>
          trx_view h' ps = (trx_view h ps)
            [k := (fst (trx_view h ps ! k), snd (trx_view h ps ! k) \<or> snd (hti_view h s))]))"
proof (intro conjI)
  show "trans_is_trx_read_write h t = Some (list_ex snd (trx_view h ps))"
    using assms by (simp add: trans_is_trx_read_write_def trx_list_def trx_read_write_loop_chain)
qed (use trx_register [OF assms] trx_set_read_write [OF assms] trx_coalesce [OF assms] in blast)+

definition sample_trx_heap :: trx_heap where
  "sample_trx_heap = [1 \<mapsto> \<lparr>hti_next = 2, hti_ht = 50, hti_flags = 0\<rparr>,
     2 \<mapsto> \<lparr>hti_next = 0, hti_ht = 60, hti_flags = 0\<rparr>, 3 \<mapsto> \<lparr>hti_next = 0, hti_ht = 60, hti_flags = 1\<rparr>]"

definition sample_trans :: THD_TRANS where
  "sample_trans = \<lparr>no_2pc = False, ha_list = 1, modified_non_trans_table = False, m_unsafe_rollback_flags = 0\<rparr>"

lemma trx_participants_witness:
  "trans_is_trx_read_write sample_trx_heap sample_trans = Some False \<and>
   (\<exists>h'. hti_coalesce_trx_with 3 2 sample_trx_heap = Some h' \<and> trx_view h' [1, 2] = [(50, False), (60, True)])"
proof -
  have l: "trx_list sample_trx_heap sample_trans [1, 2]"
    by (simp add: trx_list_def sample_trx_heap_def sample_trans_def)
  have v: "trx_view sample_trx_heap [1, 2] = [(50, False), (60, False)]" "snd (hti_view sample_trx_heap 3)"
    "sample_trx_heap 3 \<noteq> None"
    by (simp_all add: trx_view_def hti_view_def sample_trx_heap_def TRX_READ_WRITE_def)
  note P = trx_participants [OF l]
  have "1 < length [1, 2 :: nat]" by simp
  note P [THEN conjunct2, THEN conjunct2, THEN conjunct2, rule_format, OF this v(3)]
  then have "\<exists>h'. hti_coalesce_trx_with 3 2 sample_trx_heap = Some h' \<and> trx_view h' [1, 2] = [(50, False), (60, True)]"
    using v(1,2) by auto
  moreover have "trans_is_trx_read_write sample_trx_heap sample_trans = Some False" using P v(1) by simp
  ultimately show ?thesis by blast
qed

text \<open>The marks of a transaction are independent of each other, and \<open>reset\<close> clears all of them.\<close>

lemma trans_marks:
  "has_created_dropped_temp_table (mark_created_temp_table t)"
  "has_created_dropped_temp_table (mark_dropped_temp_table t)"
  "trans_did_wait (mark_trans_did_wait t)" "trans_did_ddl (mark_trans_did_ddl t)"
  "trans_did_wait (mark_created_temp_table t) = trans_did_wait t"
  "trans_did_wait (mark_dropped_temp_table t) = trans_did_wait t"
  "trans_did_wait (mark_trans_did_ddl t) = trans_did_wait t"
  "trans_did_ddl (mark_created_temp_table t) = trans_did_ddl t"
  "trans_did_ddl (mark_dropped_temp_table t) = trans_did_ddl t"
  "trans_did_ddl (mark_trans_did_wait t) = trans_did_ddl t"
  "has_created_dropped_temp_table (mark_trans_did_wait t) = has_created_dropped_temp_table t"
  "has_created_dropped_temp_table (mark_trans_did_ddl t) = has_created_dropped_temp_table t"
  "\<not> has_created_dropped_temp_table (thd_trans_reset t)" "\<not> trans_did_wait (thd_trans_reset t)"
  "\<not> trans_did_ddl (thd_trans_reset t)"
  by (simp_all add: has_created_dropped_temp_table_def trans_did_wait_def trans_did_ddl_def
        mark_created_temp_table_def mark_dropped_temp_table_def mark_trans_did_wait_def mark_trans_did_ddl_def
        thd_trans_reset_def CREATED_TEMP_TABLE_def DROPPED_TEMP_TABLE_def DID_WAIT_def DID_DDL_def
        word_bw_assocs bit.conj_disj_distrib2 or_eq_0_iff)

end
