(* ===== verification/HandlerCursor.thy ===== *)
theory HandlerCursor
  imports Prelude
begin

text \<open>
  The base class \<open>handler\<close> of the storage engines, of \<open>handler.h\<close>: the public wrappers that open and end
  index and table scans, their counterparts for the preparation of a scan, index-only reading, bulk insertion,
  the row statistics and the members for automatic numbers. The virtual functions of an engine are not in the
  repository; an engine is an argument of the wrappers, a function from the call and the object to the result
  and the changed object. Every virtual call and its result are appended to a list that is part of the state,
  so that what an engine gets to see can be stated. Debug assertions are not part of a definition.
\<close>

section \<open>State\<close>

datatype init_stat = NONE | INDEX | RND

definition MAX_KEY :: uint where "MAX_KEY = 64"
definition HA_EXTRA_KEYREAD :: nat where "HA_EXTRA_KEYREAD = 7"
definition HA_EXTRA_NO_KEYREAD :: nat where "HA_EXTRA_NO_KEYREAD = 8"
definition HA_ERR_WRONG_COMMAND :: int where "HA_ERR_WRONG_COMMAND = 131"
definition EXTRA_RECORDS :: ulonglong where "EXTRA_RECORDS = 10"

text \<open>The virtual functions the wrappers call, with their arguments.\<close>

datatype vcall =
    V_index_init uint bool
  | V_index_end
  | V_rnd_init bool
  | V_rnd_end
  | V_pre_index_init uint bool
  | V_pre_index_end
  | V_pre_rnd_init bool
  | V_pre_rnd_end
  | V_extra nat
  | V_extra_opt nat ulong
  | V_start_bulk_insert ulonglong uint
  | V_end_bulk_insert
  | V_position bytes
  | V_ft_end
  | V_reset_copy_info
  | V_delete_all_rows
  | V_reset_auto_increment ulonglong

record ha_copy_info =
  ci_records :: ulonglong
  ci_touched :: ulonglong
  ci_copied :: ulonglong
  ci_deleted :: ulonglong
  ci_updated :: ulonglong

definition zero_copy_info :: ha_copy_info where
  "zero_copy_info = \<lparr>ci_records = 0, ci_touched = 0, ci_copied = 0, ci_deleted = 0, ci_updated = 0\<rparr>"

text \<open>The state of the batch instrumentation.\<close>

datatype batch_mode_t = PSI_BATCH_MODE_NONE | PSI_BATCH_MODE_STARTING | PSI_BATCH_MODE_STARTED

text \<open>
  The members of the class but for those of multi-range reads; \<open>MAX_KEY + 1\<close> counters follow the last key.
  The last component is no member: it lists the virtual calls.
\<close>

record handler =
  table_share :: nat
  table :: nat
  ht :: nat
  ref_ptr :: nat
  implicit_emptied :: bool
  check_table_binlog_row_based_result :: bool
  errkey :: uint
  key_used_on_scan :: uint
  ref_length :: uint
  pushed_cond :: nat
  tracker :: nat
  auto_inc_intervals_count :: uint
  m_psi :: nat
  m_psi_batch_mode :: batch_mode_t
  m_psi_numrows :: ulonglong
  m_psi_locker :: nat
  row_logging :: bool
  row_logging_init :: bool
  m_lock_type :: int
  cached_table_flags :: ulonglong
  estimation_rows_to_insert :: ulonglong
  stats_records :: ulonglong
  end_range :: nat
  internal_tmp_table :: bool
  mark_trx_read_write_done :: bool
  check_table_binlog_row_based_done :: bool
  in_range_check_pushed_down :: bool
  active_index :: uint
  keyread :: uint
  ft_handler :: nat
  inited :: init_stat
  pre_inited :: init_stat
  next_insert_id :: ulonglong
  insert_id_for_cur_row :: ulonglong
  rows_read :: ulonglong
  rows_tmp_read :: ulonglong
  rows_changed :: ulonglong
  index_rows_read :: "ulonglong list"
  copy_info :: ha_copy_info
  pushed_idx_cond :: nat
  pushed_idx_cond_keyno :: uint
  pushed_rowid_filter :: nat
  rowid_filter_is_active :: bool
  set_top_table_fields :: bool
  top_table :: nat
  top_table_field :: nat
  top_table_fields :: uint
  ha_share :: nat
  m_prev_insert_id :: ulonglong
  v_calls :: "(vcall \<times> int) list"

type_synonym engine = "vcall \<Rightarrow> handler \<Rightarrow> int \<times> handler"

definition virt :: "engine \<Rightarrow> vcall \<Rightarrow> handler \<Rightarrow> int \<times> handler" where
  "virt E c h = (let (r, h) = E c h in (r, h\<lparr>v_calls := v_calls h @ [(c, r)]\<rparr>))"

section \<open>Construction and statistics\<close>

definition reset_statistics :: "handler \<Rightarrow> handler" where
  "reset_statistics h =
     h\<lparr>rows_read := 0, rows_changed := 0, rows_tmp_read := 0,
       index_rows_read := replicate (length (index_rows_read h)) 0, copy_info := zero_copy_info\<rparr>"

text \<open>The constructor; the members it does not mention keep what the memory holds, the array has its size.\<close>

definition F_UNLCK :: int where "F_UNLCK = 3"

definition handler_new :: "nat \<Rightarrow> nat \<Rightarrow> handler \<Rightarrow> handler" where
  "handler_new ht_arg share_arg junk =
     reset_statistics (junk
       \<lparr>table_share := share_arg, table := 0, estimation_rows_to_insert := 0, ht := ht_arg, ref_ptr := 0,
        end_range := 0, implicit_emptied := False, check_table_binlog_row_based_result := False, errkey := - 1,
        key_used_on_scan := MAX_KEY, ref_length := 8, pushed_cond := 0, tracker := 0,
        auto_inc_intervals_count := 0, m_psi := 0, m_psi_batch_mode := PSI_BATCH_MODE_NONE, m_psi_numrows := 0,
        m_psi_locker := 0, row_logging := False, row_logging_init := False, m_lock_type := F_UNLCK,
        mark_trx_read_write_done := False, check_table_binlog_row_based_done := False,
        in_range_check_pushed_down := False, active_index := MAX_KEY, keyread := MAX_KEY, ft_handler := 0,
        inited := NONE, pre_inited := NONE, next_insert_id := 0, insert_id_for_cur_row := 0,
        index_rows_read := replicate (unat MAX_KEY + 1) 0, pushed_idx_cond := 0,
        pushed_idx_cond_keyno := MAX_KEY, pushed_rowid_filter := 0, rowid_filter_is_active := False,
        set_top_table_fields := False, top_table := 0, top_table_field := 0, top_table_fields := 0,
        ha_share := 0, m_prev_insert_id := 0, v_calls := []\<rparr>)"

definition update_rows_read :: "handler \<Rightarrow> handler" where
  "update_rows_read h =
     (if \<not> internal_tmp_table h then h\<lparr>rows_read := rows_read h + 1\<rparr>
      else h\<lparr>rows_tmp_read := rows_tmp_read h + 1\<rparr>)"

definition update_index_statistics :: "handler \<Rightarrow> handler option" where
  "update_index_statistics h =
     Option.bind (arr_get (index_rows_read h) (unat (active_index h))) (\<lambda>n.
     Option.bind (arr_set (index_rows_read h) (unat (active_index h)) (n + 1)) (\<lambda>a.
     Some (update_rows_read (h\<lparr>index_rows_read := a\<rparr>))))"

definition change_table_ptr :: "nat \<Rightarrow> nat \<Rightarrow> handler \<Rightarrow> handler" where
  "change_table_ptr table_arg share h = reset_statistics (h\<lparr>table := table_arg, table_share := share\<rparr>)"

definition ha_reset_copy_info :: "engine \<Rightarrow> handler \<Rightarrow> handler" where
  "ha_reset_copy_info E h = snd (virt E V_reset_copy_info (h\<lparr>copy_info := zero_copy_info\<rparr>))"

section \<open>Scans\<close>

definition ha_index_init :: "engine \<Rightarrow> uint \<Rightarrow> bool \<Rightarrow> handler \<Rightarrow> int \<times> handler" where
  "ha_index_init E idx sorted_arg h =
     (let (result, h) = virt E (V_index_init idx sorted_arg) h
      in if result = 0 then (result, h\<lparr>inited := INDEX, active_index := idx, end_range := 0\<rparr>) else (result, h))"

definition ha_index_end :: "engine \<Rightarrow> handler \<Rightarrow> int \<times> handler" where
  "ha_index_end E h = virt E V_index_end (h\<lparr>inited := NONE, active_index := MAX_KEY, end_range := 0\<rparr>)"

definition ha_rnd_init :: "engine \<Rightarrow> bool \<Rightarrow> handler \<Rightarrow> int \<times> handler" where
  "ha_rnd_init E scan h =
     (let (result, h) = virt E (V_rnd_init scan) h
      in (result, h\<lparr>inited := (if result \<noteq> 0 then NONE else RND), end_range := 0\<rparr>))"

definition ha_rnd_end :: "engine \<Rightarrow> handler \<Rightarrow> int \<times> handler" where
  "ha_rnd_end E h = virt E V_rnd_end (h\<lparr>inited := NONE, end_range := 0\<rparr>)"

definition ha_index_or_rnd_end :: "engine \<Rightarrow> handler \<Rightarrow> int \<times> handler" where
  "ha_index_or_rnd_end E h =
     (if inited h = INDEX then ha_index_end E h else if inited h = RND then ha_rnd_end E h else (0, h))"

definition ha_pre_rnd_init :: "engine \<Rightarrow> bool \<Rightarrow> handler \<Rightarrow> int \<times> handler" where
  "ha_pre_rnd_init E scan h =
     (let (result, h) = virt E (V_pre_rnd_init scan) h
      in (result, h\<lparr>pre_inited := (if result \<noteq> 0 then NONE else RND)\<rparr>))"

definition ha_pre_rnd_end :: "engine \<Rightarrow> handler \<Rightarrow> int \<times> handler" where
  "ha_pre_rnd_end E h = virt E V_pre_rnd_end (h\<lparr>pre_inited := NONE\<rparr>)"

definition ha_pre_index_init :: "engine \<Rightarrow> uint \<Rightarrow> bool \<Rightarrow> handler \<Rightarrow> int \<times> handler" where
  "ha_pre_index_init E idx sorted_arg h =
     (let (result, h) = virt E (V_pre_index_init idx sorted_arg) h
      in if result = 0 then (result, h\<lparr>pre_inited := INDEX\<rparr>) else (result, h))"

definition ha_pre_index_end :: "engine \<Rightarrow> handler \<Rightarrow> int \<times> handler" where
  "ha_pre_index_end E h = virt E V_pre_index_end (h\<lparr>pre_inited := NONE\<rparr>)"

definition ha_pre_index_or_rnd_end :: "engine \<Rightarrow> handler \<Rightarrow> int \<times> handler" where
  "ha_pre_index_or_rnd_end E h =
     (if pre_inited h = INDEX then ha_pre_index_end E h
      else if pre_inited h = RND then ha_pre_rnd_end E h else (0, h))"

definition ha_get_index :: "handler \<Rightarrow> uint" where
  "ha_get_index h = (if inited h = INDEX then active_index h else MAX_KEY)"

text \<open>\<open>ha_rnd_pos\<close> is defined in \<open>handler.cc\<close> and is an argument.\<close>

definition rnd_pos_by_record ::
  "engine \<Rightarrow> (bytes \<Rightarrow> handler \<Rightarrow> int \<times> handler) \<Rightarrow> bytes \<Rightarrow> handler \<Rightarrow> int \<times> handler" where
  "rnd_pos_by_record E ha_rnd_pos record_arg h =
     (let (error, h) = ha_rnd_init E False h
      in if error \<noteq> 0 then (error, h)
         else let (_, h) = virt E (V_position record_arg) h;
                  (error, h) = ha_rnd_pos record_arg h;
                  (_, h) = ha_rnd_end E h
              in (error, h))"

section \<open>Index-only reading and bulk insertion\<close>

definition keyread_enabled :: "handler \<Rightarrow> bool" where
  "keyread_enabled h \<longleftrightarrow> keyread h < MAX_KEY"

definition ha_start_keyread :: "engine \<Rightarrow> uint \<Rightarrow> handler \<Rightarrow> int \<times> handler" where
  "ha_start_keyread E idx h =
     (let (res, h) = (if keyread_enabled h then (0, h) else virt E (V_extra_opt HA_EXTRA_KEYREAD idx) h)
      in (res, h\<lparr>keyread := idx\<rparr>))"

definition ha_end_keyread :: "engine \<Rightarrow> handler \<Rightarrow> int \<times> handler" where
  "ha_end_keyread E h =
     (if \<not> keyread_enabled h then (0, h)
      else virt E (V_extra HA_EXTRA_NO_KEYREAD) (h\<lparr>keyread := MAX_KEY\<rparr>))"

definition ha_start_bulk_insert :: "engine \<Rightarrow> ulonglong \<Rightarrow> uint \<Rightarrow> handler \<Rightarrow> handler" where
  "ha_start_bulk_insert E rows flags h =
     snd (virt E (V_start_bulk_insert rows flags)
       (h\<lparr>estimation_rows_to_insert := rows, copy_info := zero_copy_info\<rparr>))"

definition ha_end_bulk_insert :: "engine \<Rightarrow> handler \<Rightarrow> int \<times> handler" where
  "ha_end_bulk_insert E h = virt E V_end_bulk_insert (h\<lparr>estimation_rows_to_insert := 0\<rparr>)"

definition ha_ft_end :: "engine \<Rightarrow> handler \<Rightarrow> handler" where
  "ha_ft_end E h = (snd (virt E V_ft_end h))\<lparr>ft_handler := 0\<rparr>"

section \<open>Automatic numbers, pushed conditions and other members\<close>

definition set_next_insert_id :: "ulonglong \<Rightarrow> handler \<Rightarrow> handler" where
  "set_next_insert_id i h = h\<lparr>next_insert_id := i\<rparr>"

definition restore_auto_increment_to :: "ulonglong \<Rightarrow> handler \<Rightarrow> handler" where
  "restore_auto_increment_to prev_insert_id h =
     h\<lparr>next_insert_id := (if prev_insert_id > 0 then prev_insert_id else insert_id_for_cur_row h)\<rparr>"

definition store_auto_increment :: "handler \<Rightarrow> handler" where
  "store_auto_increment h = h\<lparr>m_prev_insert_id := next_insert_id h\<rparr>"

definition restore_auto_increment :: "handler \<Rightarrow> handler" where
  "restore_auto_increment h = restore_auto_increment_to (m_prev_insert_id h) h"

definition cancel_pushed_idx_cond :: "handler \<Rightarrow> handler" where
  "cancel_pushed_idx_cond h =
     h\<lparr>pushed_idx_cond := 0, pushed_idx_cond_keyno := MAX_KEY, in_range_check_pushed_down := False\<rparr>"

definition cancel_pushed_rowid_filter :: "handler \<Rightarrow> handler" where
  "cancel_pushed_rowid_filter h = h\<lparr>pushed_rowid_filter := 0, rowid_filter_is_active := False\<rparr>"

definition set_top_table_and_fields :: "nat \<Rightarrow> nat \<Rightarrow> uint \<Rightarrow> handler \<Rightarrow> int \<times> handler" where
  "set_top_table_and_fields t f n h =
     (0, if \<not> set_top_table_fields h
         then h\<lparr>set_top_table_fields := True, top_table := t, top_table_field := f, top_table_fields := n\<rparr>
         else h)"

definition clear_top_table_fields :: "handler \<Rightarrow> handler" where
  "clear_top_table_fields h =
     (if set_top_table_fields h
      then h\<lparr>set_top_table_fields := False, top_table := 0, top_table_field := 0, top_table_fields := 0\<rparr>
      else h)"

definition set_ha_share_ref :: "nat \<Rightarrow> handler \<Rightarrow> bool \<times> handler" where
  "set_ha_share_ref arg_ha_share h =
     (if ha_share h \<noteq> 0 \<or> arg_ha_share = 0 then (True, h) else (False, h\<lparr>ha_share := arg_ha_share\<rparr>))"

definition clear_cached_table_binlog_row_based_flag :: "handler \<Rightarrow> handler" where
  "clear_cached_table_binlog_row_based_flag h = h\<lparr>check_table_binlog_row_based_done := False\<rparr>"

definition estimate_rows_upper_bound :: "handler \<Rightarrow> ulonglong" where
  "estimate_rows_upper_bound h = stats_records h + EXTRA_RECORDS"

text \<open>The default body of \<open>truncate\<close>.\<close>

definition handler_truncate :: "engine \<Rightarrow> handler \<Rightarrow> int \<times> handler" where
  "handler_truncate E h =
     (let (error, h) = virt E V_delete_all_rows h
      in if error \<noteq> 0 then (error, h) else virt E (V_reset_auto_increment 0) h)"

section \<open>Capabilities and errors\<close>

definition HA_NO_TRANSACTIONS :: ulonglong where "HA_NO_TRANSACTIONS = push_bit 0 1"
definition HA_PERSISTENT_TABLE :: ulonglong where "HA_PERSISTENT_TABLE = push_bit 48 1"
definition HA_CLUSTERED_INDEX :: ulong where "HA_CLUSTERED_INDEX = 512"
definition HA_CHECK_DUP_KEY :: uint where "HA_CHECK_DUP_KEY = 1"
definition HA_CHECK_DUP_UNIQUE :: uint where "HA_CHECK_DUP_UNIQUE = 2"
definition HA_CHECK_FK_ERROR :: uint where "HA_CHECK_FK_ERROR = 4"
definition HA_CHECK_ALL :: uint where "HA_CHECK_ALL = NOT 0"
definition HA_ERR_FOUND_DUPP_KEY :: int where "HA_ERR_FOUND_DUPP_KEY = 121"
definition HA_ERR_FOUND_DUPP_UNIQUE :: int where "HA_ERR_FOUND_DUPP_UNIQUE = 141"
definition HA_ERR_NO_REFERENCED_ROW :: int where "HA_ERR_NO_REFERENCED_ROW = 151"
definition HA_ERR_ROW_IS_REFERENCED :: int where "HA_ERR_ROW_IS_REFERENCED = 152"
definition HA_ERR_AUTOINC_ERANGE :: int where "HA_ERR_AUTOINC_ERANGE = 167"

definition has_transactions :: "handler \<Rightarrow> bool" where
  "has_transactions h \<longleftrightarrow> cached_table_flags h AND (HA_NO_TRANSACTIONS OR HA_PERSISTENT_TABLE) = 0"

definition has_transaction_manager :: "handler \<Rightarrow> bool" where
  "has_transaction_manager h \<longleftrightarrow> cached_table_flags h AND HA_NO_TRANSACTIONS = 0"

definition is_fatal_error :: "int \<Rightarrow> uint \<Rightarrow> bool" where
  "is_fatal_error error flags =
     (if error = 0 \<or>
         flags AND HA_CHECK_DUP_KEY \<noteq> 0 \<and>
           (error = HA_ERR_FOUND_DUPP_KEY \<or> error = HA_ERR_FOUND_DUPP_UNIQUE) \<or>
         error = HA_ERR_AUTOINC_ERANGE \<or>
         flags AND HA_CHECK_FK_ERROR \<noteq> 0 \<and>
           (error = HA_ERR_ROW_IS_REFERENCED \<or> error = HA_ERR_NO_REFERENCED_ROW)
      then False else True)"

text \<open>\<open>index_flags\<close> is a pure virtual function of the engine.\<close>

definition is_clustering_key :: "(uint \<Rightarrow> uint \<Rightarrow> bool \<Rightarrow> ulong) \<Rightarrow> uint \<Rightarrow> bool" where
  "is_clustering_key index_flags i \<longleftrightarrow> index_flags i 0 True AND HA_CLUSTERED_INDEX \<noteq> 0"

definition pk_is_clustering_key :: "(uint \<Rightarrow> uint \<Rightarrow> bool \<Rightarrow> ulong) \<Rightarrow> uint \<Rightarrow> bool" where
  "pk_is_clustering_key index_flags i \<longleftrightarrow> i \<noteq> MAX_KEY \<and> is_clustering_key index_flags i"

section \<open>The default engine\<close>

text \<open>
  The bodies the base class gives the virtual functions; \<open>rnd_init\<close> and \<open>position\<close> are pure virtual and are
  taken from an argument.
\<close>

definition base_engine :: "engine \<Rightarrow> engine" where
  "base_engine derived c h =
     (case c of
        V_rnd_init scan \<Rightarrow> derived c h
      | V_position r \<Rightarrow> derived c h
      | V_delete_all_rows \<Rightarrow> (HA_ERR_WRONG_COMMAND, h)
      | _ \<Rightarrow> (0, h))"

section \<open>The protocol of a cursor\<close>

text \<open>
  What an engine may rely on, as an automaton over the calls that concern one cursor. The comment on
  \<open>rnd_init\<close> allows a second call without \<open>rnd_end\<close> when the table is scanned.
\<close>

datatype ccall = C_index_init | C_index_end | C_rnd_init bool | C_rnd_end

fun main_call :: "vcall \<Rightarrow> ccall option" where
  "main_call (V_index_init i b) = Some C_index_init"
| "main_call V_index_end = Some C_index_end"
| "main_call (V_rnd_init scan) = Some (C_rnd_init scan)"
| "main_call V_rnd_end = Some C_rnd_end"
| "main_call c = None"

fun pre_call :: "vcall \<Rightarrow> ccall option" where
  "pre_call (V_pre_index_init i b) = Some C_index_init"
| "pre_call V_pre_index_end = Some C_index_end"
| "pre_call (V_pre_rnd_init scan) = Some (C_rnd_init scan)"
| "pre_call V_pre_rnd_end = Some C_rnd_end"
| "pre_call c = None"

fun cursor_next :: "init_stat \<Rightarrow> ccall \<Rightarrow> int \<Rightarrow> init_stat option" where
  "cursor_next s C_index_init r = (if s = NONE then Some (if r = 0 then INDEX else NONE) else None)"
| "cursor_next s C_index_end r = (if s = INDEX then Some NONE else None)"
| "cursor_next s (C_rnd_init scan) r =
     (if s = NONE \<or> s = RND \<and> scan then Some (if r = 0 then RND else NONE) else None)"
| "cursor_next s C_rnd_end r = (if s = RND then Some NONE else None)"

definition cursor_step :: "(vcall \<Rightarrow> ccall option) \<Rightarrow> init_stat option \<Rightarrow> vcall \<times> int \<Rightarrow> init_stat option" where
  "cursor_step proj s e =
     Option.bind s (\<lambda>s. case proj (fst e) of None \<Rightarrow> Some s | Some c \<Rightarrow> cursor_next s c (snd e))"

definition cursor_run :: "(vcall \<Rightarrow> ccall option) \<Rightarrow> (vcall \<times> int) list \<Rightarrow> init_stat option" where
  "cursor_run proj log = foldl (cursor_step proj) (Some NONE) log"

text \<open>Index-only reading is switched on and off in turn.\<close>

fun keyread_next :: "bool \<Rightarrow> vcall \<Rightarrow> bool option" where
  "keyread_next b (V_extra_opt op arg) = (if op = HA_EXTRA_KEYREAD then (if b then None else Some True) else Some b)"
| "keyread_next b (V_extra op) = (if op = HA_EXTRA_NO_KEYREAD then (if b then Some False else None) else Some b)"
| "keyread_next b c = Some b"

definition keyread_step :: "bool option \<Rightarrow> vcall \<times> int \<Rightarrow> bool option" where
  "keyread_step s e = Option.bind s (\<lambda>b. keyread_next b (fst e))"

definition keyread_run :: "(vcall \<times> int) list \<Rightarrow> bool option" where
  "keyread_run log = foldl keyread_step (Some False) log"

lemma cursor_run_snoc: "cursor_run proj (log @ [e]) = cursor_step proj (cursor_run proj log) e"
  by (simp add: cursor_run_def)

lemma keyread_run_snoc: "keyread_run (log @ [e]) = keyread_step (keyread_run log) e"
  by (simp add: keyread_run_def)

lemmas run_snocs = cursor_run_snoc keyread_run_snoc

section \<open>What an engine leaves alone\<close>

text \<open>
  The members that only the wrappers change. An engine may change the others, \<open>active_index\<close> included, as the
  comment on \<open>get_index\<close> says, as long as it stays a key number or \<open>MAX_KEY\<close>.
\<close>

definition keeps_cursor :: "handler \<Rightarrow> handler \<Rightarrow> bool" where
  "keeps_cursor h h' \<longleftrightarrow> inited h' = inited h \<and> pre_inited h' = pre_inited h \<and> keyread h' = keyread h \<and>
     v_calls h' = v_calls h \<and> length (index_rows_read h') = length (index_rows_read h) \<and>
     (active_index h \<le> MAX_KEY \<longrightarrow> active_index h' \<le> MAX_KEY)"

definition engine_law :: "engine \<Rightarrow> bool" where
  "engine_law E \<longleftrightarrow> (\<forall>c h. keeps_cursor h (snd (E c h)))"

definition rnd_pos_law :: "(bytes \<Rightarrow> handler \<Rightarrow> int \<times> handler) \<Rightarrow> bool" where
  "rnd_pos_law P \<longleftrightarrow> (\<forall>r h. keeps_cursor h (snd (P r h)))"

lemma base_engine_law: "engine_law derived \<Longrightarrow> engine_law (base_engine derived)"
  by (auto simp: engine_law_def base_engine_def keeps_cursor_def split: vcall.splits)

lemma virt_effect:
  assumes "engine_law E" "virt E c h = (r, h')"
  shows "inited h' = inited h" "pre_inited h' = pre_inited h" "keyread h' = keyread h"
    "v_calls h' = v_calls h @ [(c, r)]" "length (index_rows_read h') = length (index_rows_read h)"
    "active_index h \<le> MAX_KEY \<Longrightarrow> active_index h' \<le> MAX_KEY"
proof -
  obtain h1 where h1: "E c h = (r, h1)" "h' = h1\<lparr>v_calls := v_calls h1 @ [(c, r)]\<rparr>"
    using assms(2) by (auto simp: virt_def split: prod.splits)
  have "keeps_cursor h h1" using assms(1) h1(1) by (metis engine_law_def snd_conv)
  then show "inited h' = inited h" "pre_inited h' = pre_inited h" "keyread h' = keyread h"
    "v_calls h' = v_calls h @ [(c, r)]" "length (index_rows_read h') = length (index_rows_read h)"
    "active_index h \<le> MAX_KEY \<Longrightarrow> active_index h' \<le> MAX_KEY"
    by (simp_all add: h1(2) keeps_cursor_def)
qed

section \<open>The contract of a cursor\<close>

text \<open>
  The wrappers come twice, for the scan and for its preparation. Each set of four makes one virtual call and
  moves its own status; the status is the state of the automaton as long as the assertions hold.
\<close>

locale cursor_contract =
  fixes stat :: "handler \<Rightarrow> init_stat"
    and proj :: "vcall \<Rightarrow> ccall option"
    and index_init :: "engine \<Rightarrow> uint \<Rightarrow> bool \<Rightarrow> handler \<Rightarrow> int \<times> handler"
    and index_end :: "engine \<Rightarrow> handler \<Rightarrow> int \<times> handler"
    and rnd_init :: "engine \<Rightarrow> bool \<Rightarrow> handler \<Rightarrow> int \<times> handler"
    and rnd_end :: "engine \<Rightarrow> handler \<Rightarrow> int \<times> handler"
    and either_end :: "engine \<Rightarrow> handler \<Rightarrow> int \<times> handler"
  assumes index_init_law: "engine_law E \<Longrightarrow> index_init E i b h = (r, h') \<Longrightarrow>
      \<exists>c. proj c = Some C_index_init \<and> v_calls h' = v_calls h @ [(c, r)] \<and>
        stat h' = (if r = 0 then INDEX else stat h)"
    and index_end_law: "engine_law E \<Longrightarrow> index_end E h = (r, h') \<Longrightarrow>
      \<exists>c. proj c = Some C_index_end \<and> v_calls h' = v_calls h @ [(c, r)] \<and> stat h' = NONE"
    and rnd_init_law: "engine_law E \<Longrightarrow> rnd_init E scan h = (r, h') \<Longrightarrow>
      \<exists>c. proj c = Some (C_rnd_init scan) \<and> v_calls h' = v_calls h @ [(c, r)] \<and>
        stat h' = (if r = 0 then RND else NONE)"
    and rnd_end_law: "engine_law E \<Longrightarrow> rnd_end E h = (r, h') \<Longrightarrow>
      \<exists>c. proj c = Some C_rnd_end \<and> v_calls h' = v_calls h @ [(c, r)] \<and> stat h' = NONE"
    and either_end_law: "either_end E h =
      (if stat h = INDEX then index_end E h else if stat h = RND then rnd_end E h else (0, h))"
begin

lemma index_init_conforms:
  assumes "engine_law E" "cursor_run proj (v_calls h) = Some (stat h)" "stat h = NONE" "index_init E i b h = (r, h')"
  shows "cursor_run proj (v_calls h') = Some (stat h')"
  using index_init_law [OF assms(1,4)] assms(2,3) by (auto simp: cursor_run_snoc cursor_step_def)

lemma index_end_conforms:
  assumes "engine_law E" "cursor_run proj (v_calls h) = Some (stat h)" "stat h = INDEX" "index_end E h = (r, h')"
  shows "cursor_run proj (v_calls h') = Some (stat h')"
  using index_end_law [OF assms(1,4)] assms(2,3) by (auto simp: cursor_run_snoc cursor_step_def)

lemma rnd_init_conforms:
  assumes "engine_law E" "cursor_run proj (v_calls h) = Some (stat h)" "stat h = NONE \<or> stat h = RND \<and> scan"
    "rnd_init E scan h = (r, h')"
  shows "cursor_run proj (v_calls h') = Some (stat h')"
  using rnd_init_law [OF assms(1,4)] assms(2,3) by (auto simp: cursor_run_snoc cursor_step_def)

lemma rnd_end_conforms:
  assumes "engine_law E" "cursor_run proj (v_calls h) = Some (stat h)" "stat h = RND" "rnd_end E h = (r, h')"
  shows "cursor_run proj (v_calls h') = Some (stat h')"
  using rnd_end_law [OF assms(1,4)] assms(2,3) by (auto simp: cursor_run_snoc cursor_step_def)

lemma either_end_conforms:
  assumes "engine_law E" "cursor_run proj (v_calls h) = Some (stat h)" "either_end E h = (r, h')"
  shows "cursor_run proj (v_calls h') = Some (stat h') \<and> stat h' = NONE"
proof (cases "stat h")
  case NONE
  then show ?thesis using assms by (simp add: either_end_law)
next
  case INDEX
  then have e: "index_end E h = (r, h')" using assms(3) by (simp add: either_end_law)
  show ?thesis using index_end_conforms [OF assms(1,2) INDEX e] index_end_law [OF assms(1) e] by auto
next
  case RND
  then have e: "rnd_end E h = (r, h')" using assms(3) by (simp add: either_end_law)
  show ?thesis using rnd_end_conforms [OF assms(1,2) RND e] rnd_end_law [OF assms(1) e] by auto
qed

end

interpretation main_cursor: cursor_contract inited main_call ha_index_init ha_index_end ha_rnd_init ha_rnd_end
  ha_index_or_rnd_end
proof
  fix E i b h r and h' :: handler
  assume "engine_law E" "ha_index_init E i b h = (r, h')"
  then show "\<exists>c. main_call c = Some C_index_init \<and> v_calls h' = v_calls h @ [(c, r)] \<and>
      inited h' = (if r = 0 then INDEX else inited h)"
    by (intro exI [of _ "V_index_init i b"])
      (auto simp: ha_index_init_def virt_effect split: prod.splits if_splits)
next
  fix E h r and h' :: handler
  assume "engine_law E" "ha_index_end E h = (r, h')"
  then show "\<exists>c. main_call c = Some C_index_end \<and> v_calls h' = v_calls h @ [(c, r)] \<and> inited h' = NONE"
    by (intro exI [of _ V_index_end]) (auto simp: ha_index_end_def virt_effect)
next
  fix E scan h r and h' :: handler
  assume "engine_law E" "ha_rnd_init E scan h = (r, h')"
  then show "\<exists>c. main_call c = Some (C_rnd_init scan) \<and> v_calls h' = v_calls h @ [(c, r)] \<and>
      inited h' = (if r = 0 then RND else NONE)"
    by (intro exI [of _ "V_rnd_init scan"]) (auto simp: ha_rnd_init_def virt_effect split: prod.splits)
next
  fix E h r and h' :: handler
  assume "engine_law E" "ha_rnd_end E h = (r, h')"
  then show "\<exists>c. main_call c = Some C_rnd_end \<and> v_calls h' = v_calls h @ [(c, r)] \<and> inited h' = NONE"
    by (intro exI [of _ V_rnd_end]) (auto simp: ha_rnd_end_def virt_effect)
qed (simp add: ha_index_or_rnd_end_def)

interpretation pre_cursor: cursor_contract pre_inited pre_call ha_pre_index_init ha_pre_index_end ha_pre_rnd_init
  ha_pre_rnd_end ha_pre_index_or_rnd_end
proof
  fix E i b h r and h' :: handler
  assume "engine_law E" "ha_pre_index_init E i b h = (r, h')"
  then show "\<exists>c. pre_call c = Some C_index_init \<and> v_calls h' = v_calls h @ [(c, r)] \<and>
      pre_inited h' = (if r = 0 then INDEX else pre_inited h)"
    by (intro exI [of _ "V_pre_index_init i b"])
      (auto simp: ha_pre_index_init_def virt_effect split: prod.splits if_splits)
next
  fix E h r and h' :: handler
  assume "engine_law E" "ha_pre_index_end E h = (r, h')"
  then show "\<exists>c. pre_call c = Some C_index_end \<and> v_calls h' = v_calls h @ [(c, r)] \<and> pre_inited h' = NONE"
    by (intro exI [of _ V_pre_index_end]) (auto simp: ha_pre_index_end_def virt_effect)
next
  fix E scan h r and h' :: handler
  assume "engine_law E" "ha_pre_rnd_init E scan h = (r, h')"
  then show "\<exists>c. pre_call c = Some (C_rnd_init scan) \<and> v_calls h' = v_calls h @ [(c, r)] \<and>
      pre_inited h' = (if r = 0 then RND else NONE)"
    by (intro exI [of _ "V_pre_rnd_init scan"]) (auto simp: ha_pre_rnd_init_def virt_effect split: prod.splits)
next
  fix E h r and h' :: handler
  assume "engine_law E" "ha_pre_rnd_end E h = (r, h')"
  then show "\<exists>c. pre_call c = Some C_rnd_end \<and> v_calls h' = v_calls h @ [(c, r)] \<and> pre_inited h' = NONE"
    by (intro exI [of _ V_pre_rnd_end]) (auto simp: ha_pre_rnd_end_def virt_effect)
qed (simp add: ha_pre_index_or_rnd_end_def)

section \<open>Use of a handler\<close>

text \<open>The operations a user calls, with the assertions of the code as the conditions of use.\<close>

datatype handler_op =
    Op_index_init uint bool | Op_index_end | Op_rnd_init bool | Op_rnd_end | Op_index_or_rnd_end
  | Op_rnd_pos_by_record bytes
  | Op_pre_index_init uint bool | Op_pre_index_end | Op_pre_rnd_init bool | Op_pre_rnd_end
  | Op_pre_index_or_rnd_end
  | Op_start_keyread uint | Op_end_keyread
  | Op_start_bulk_insert ulonglong uint | Op_end_bulk_insert | Op_ft_end | Op_truncate
  | Op_update_rows_read | Op_update_index_statistics | Op_reset_statistics | Op_reset_copy_info
  | Op_change_table_ptr nat nat
  | Op_set_next_insert_id ulonglong | Op_store_auto_increment | Op_restore_auto_increment
  | Op_cancel_pushed_idx_cond | Op_cancel_pushed_rowid_filter

fun asserted :: "handler_op \<Rightarrow> handler \<Rightarrow> bool" where
  "asserted (Op_index_init i b) h \<longleftrightarrow> inited h = NONE"
| "asserted Op_index_end h \<longleftrightarrow> inited h = INDEX"
| "asserted (Op_rnd_init scan) h \<longleftrightarrow> inited h = NONE \<or> inited h = RND \<and> scan"
| "asserted Op_rnd_end h \<longleftrightarrow> inited h = RND"
| "asserted (Op_rnd_pos_by_record r) h \<longleftrightarrow> inited h = NONE"
| "asserted (Op_pre_index_init i b) h \<longleftrightarrow> pre_inited h = NONE"
| "asserted Op_pre_index_end h \<longleftrightarrow> pre_inited h = INDEX"
| "asserted (Op_pre_rnd_init scan) h \<longleftrightarrow> pre_inited h = NONE \<or> pre_inited h = RND \<and> scan"
| "asserted Op_pre_rnd_end h \<longleftrightarrow> pre_inited h = RND"
| "asserted _ h \<longleftrightarrow> True"

text \<open>
  What the code takes for granted and does not assert: the first argument of a scan on an index, and of an
  index-only read, is the number of a key of the table. \<open>index_rows_read\<close> has no element for another one.
\<close>

fun key_given :: "handler_op \<Rightarrow> bool" where
  "key_given (Op_index_init i b) \<longleftrightarrow> i < MAX_KEY"
| "key_given (Op_start_keyread i) \<longleftrightarrow> i < MAX_KEY"
| "key_given _ \<longleftrightarrow> True"

fun handler_exec ::
  "engine \<Rightarrow> (bytes \<Rightarrow> handler \<Rightarrow> int \<times> handler) \<Rightarrow> handler_op \<Rightarrow> handler \<Rightarrow> (int \<times> handler) option" where
  "handler_exec E P (Op_index_init i b) h = Some (ha_index_init E i b h)"
| "handler_exec E P Op_index_end h = Some (ha_index_end E h)"
| "handler_exec E P (Op_rnd_init scan) h = Some (ha_rnd_init E scan h)"
| "handler_exec E P Op_rnd_end h = Some (ha_rnd_end E h)"
| "handler_exec E P Op_index_or_rnd_end h = Some (ha_index_or_rnd_end E h)"
| "handler_exec E P (Op_rnd_pos_by_record r) h = Some (rnd_pos_by_record E P r h)"
| "handler_exec E P (Op_pre_index_init i b) h = Some (ha_pre_index_init E i b h)"
| "handler_exec E P Op_pre_index_end h = Some (ha_pre_index_end E h)"
| "handler_exec E P (Op_pre_rnd_init scan) h = Some (ha_pre_rnd_init E scan h)"
| "handler_exec E P Op_pre_rnd_end h = Some (ha_pre_rnd_end E h)"
| "handler_exec E P Op_pre_index_or_rnd_end h = Some (ha_pre_index_or_rnd_end E h)"
| "handler_exec E P (Op_start_keyread i) h = Some (ha_start_keyread E i h)"
| "handler_exec E P Op_end_keyread h = Some (ha_end_keyread E h)"
| "handler_exec E P (Op_start_bulk_insert n fl) h = Some (0, ha_start_bulk_insert E n fl h)"
| "handler_exec E P Op_end_bulk_insert h = Some (ha_end_bulk_insert E h)"
| "handler_exec E P Op_ft_end h = Some (0, ha_ft_end E h)"
| "handler_exec E P Op_truncate h = Some (handler_truncate E h)"
| "handler_exec E P Op_update_rows_read h = Some (0, update_rows_read h)"
| "handler_exec E P Op_update_index_statistics h = map_option (Pair 0) (update_index_statistics h)"
| "handler_exec E P Op_reset_statistics h = Some (0, reset_statistics h)"
| "handler_exec E P Op_reset_copy_info h = Some (0, ha_reset_copy_info E h)"
| "handler_exec E P (Op_change_table_ptr t s) h = Some (0, change_table_ptr t s h)"
| "handler_exec E P (Op_set_next_insert_id n) h = Some (0, set_next_insert_id n h)"
| "handler_exec E P Op_store_auto_increment h = Some (0, store_auto_increment h)"
| "handler_exec E P Op_restore_auto_increment h = Some (0, restore_auto_increment h)"
| "handler_exec E P Op_cancel_pushed_idx_cond h = Some (0, cancel_pushed_idx_cond h)"
| "handler_exec E P Op_cancel_pushed_rowid_filter h = Some (0, cancel_pushed_rowid_filter h)"

inductive handler_reach :: "engine \<Rightarrow> (bytes \<Rightarrow> handler \<Rightarrow> int \<times> handler) \<Rightarrow> handler \<Rightarrow> bool" for E P where
  reach_new: "handler_reach E P (handler_new ht_arg share junk)"
| reach_op: "handler_reach E P h \<Longrightarrow> asserted op h \<Longrightarrow> key_given op \<Longrightarrow> handler_exec E P op h = Some (r, h') \<Longrightarrow>
    handler_reach E P h'"

definition handler_inv :: "handler \<Rightarrow> bool" where
  "handler_inv h \<longleftrightarrow> cursor_run main_call (v_calls h) = Some (inited h) \<and>
     cursor_run pre_call (v_calls h) = Some (pre_inited h) \<and> keyread_run (v_calls h) = Some (keyread_enabled h) \<and>
     length (index_rows_read h) = 65 \<and> active_index h \<le> MAX_KEY"

text \<open>A state with the same members and calls, or with calls that no protocol mentions, keeps the invariant.\<close>

definition quiet_call :: "vcall \<Rightarrow> bool" where
  "quiet_call c \<longleftrightarrow> main_call c = None \<and> pre_call c = None \<and> (\<forall>b. keyread_next b c = Some b)"

lemma handler_inv_keeps:
  assumes "handler_inv h" "keeps_cursor h h'"
  shows "handler_inv h'"
  using assms by (simp add: handler_inv_def keeps_cursor_def keyread_enabled_def)

lemma handler_inv_quiet:
  assumes "handler_inv h" "engine_law E" "virt E c h = (r, h')" "quiet_call c"
  shows "handler_inv h'"
  using assms(1,4) virt_effect [OF assms(2,3)]
  by (simp add: handler_inv_def keyread_enabled_def run_snocs cursor_step_def keyread_step_def quiet_call_def)

lemma handler_inv_new: "handler_inv (handler_new ht_arg share junk)"
  by (simp add: handler_inv_def handler_new_def reset_statistics_def cursor_run_def keyread_run_def
        keyread_enabled_def MAX_KEY_def)

text \<open>A call of one cursor leaves the protocol of the other and of index-only reading as it was.\<close>

lemma handler_inv_main:
  assumes "handler_inv h" "v_calls h' = v_calls h @ [(c, r)]" "pre_call c = None" "\<forall>b. keyread_next b c = Some b"
    "pre_inited h' = pre_inited h" "keyread h' = keyread h" "length (index_rows_read h') = length (index_rows_read h)"
    "active_index h' \<le> MAX_KEY" "cursor_run main_call (v_calls h') = Some (inited h')"
  shows "handler_inv h'"
  using assms by (simp add: handler_inv_def keyread_enabled_def run_snocs cursor_step_def keyread_step_def)

lemma handler_inv_pre:
  assumes "handler_inv h" "v_calls h' = v_calls h @ [(c, r)]" "main_call c = None" "\<forall>b. keyread_next b c = Some b"
    "inited h' = inited h" "keyread h' = keyread h" "length (index_rows_read h') = length (index_rows_read h)"
    "active_index h' \<le> MAX_KEY" "cursor_run pre_call (v_calls h') = Some (pre_inited h')"
  shows "handler_inv h'"
  using assms by (simp add: handler_inv_def keyread_enabled_def run_snocs cursor_step_def keyread_step_def)

lemma handler_invD:
  assumes "handler_inv h"
  shows "cursor_run main_call (v_calls h) = Some (inited h)" "cursor_run pre_call (v_calls h) = Some (pre_inited h)"
    "keyread_run (v_calls h) = Some (keyread_enabled h)" "length (index_rows_read h) = 65" "active_index h \<le> MAX_KEY"
  using assms by (simp_all add: handler_inv_def)

lemma inv_ha_index_init:
  assumes "handler_inv h" "engine_law E" "inited h = NONE" "i < MAX_KEY" "ha_index_init E i b h = (r, h')"
  shows "handler_inv h'"
proof (rule handler_inv_main [OF assms(1)])
  show "cursor_run main_call (v_calls h') = Some (inited h')"
    by (rule main_cursor.index_init_conforms [OF assms(2) handler_invD(1) [OF assms(1)] assms(3,5)])
  show "v_calls h' = v_calls h @ [(V_index_init i b, r)]" "pre_inited h' = pre_inited h" "keyread h' = keyread h"
    "length (index_rows_read h') = length (index_rows_read h)" "active_index h' \<le> MAX_KEY"
    using assms handler_invD(5) [OF assms(1)]
    by (auto simp: ha_index_init_def virt_effect split: prod.splits if_splits)
qed simp_all

lemma inv_ha_index_end:
  assumes "handler_inv h" "engine_law E" "inited h = INDEX" "ha_index_end E h = (r, h')"
  shows "handler_inv h'"
proof (rule handler_inv_main [OF assms(1)])
  show "cursor_run main_call (v_calls h') = Some (inited h')"
    by (rule main_cursor.index_end_conforms [OF assms(2) handler_invD(1) [OF assms(1)] assms(3,4)])
  show "v_calls h' = v_calls h @ [(V_index_end, r)]" "pre_inited h' = pre_inited h" "keyread h' = keyread h"
    "length (index_rows_read h') = length (index_rows_read h)" "active_index h' \<le> MAX_KEY"
    using virt_effect [OF assms(2) assms(4) [unfolded ha_index_end_def]] by simp_all
qed simp_all

lemma inv_ha_rnd_init:
  assumes "handler_inv h" "engine_law E" "inited h = NONE \<or> inited h = RND \<and> scan" "ha_rnd_init E scan h = (r, h')"
  shows "handler_inv h'"
proof (rule handler_inv_main [OF assms(1)])
  show "cursor_run main_call (v_calls h') = Some (inited h')"
    by (rule main_cursor.rnd_init_conforms [OF assms(2) handler_invD(1) [OF assms(1)] assms(3,4)])
  show "v_calls h' = v_calls h @ [(V_rnd_init scan, r)]" "pre_inited h' = pre_inited h" "keyread h' = keyread h"
    "length (index_rows_read h') = length (index_rows_read h)" "active_index h' \<le> MAX_KEY"
    using assms handler_invD(5) [OF assms(1)] by (auto simp: ha_rnd_init_def virt_effect split: prod.splits)
qed simp_all

lemma inv_ha_rnd_end:
  assumes "handler_inv h" "engine_law E" "inited h = RND" "ha_rnd_end E h = (r, h')"
  shows "handler_inv h'"
proof (rule handler_inv_main [OF assms(1)])
  show "cursor_run main_call (v_calls h') = Some (inited h')"
    by (rule main_cursor.rnd_end_conforms [OF assms(2) handler_invD(1) [OF assms(1)] assms(3,4)])
  show "v_calls h' = v_calls h @ [(V_rnd_end, r)]" "pre_inited h' = pre_inited h" "keyread h' = keyread h"
    "length (index_rows_read h') = length (index_rows_read h)" "active_index h' \<le> MAX_KEY"
    using virt_effect [OF assms(2) assms(4) [unfolded ha_rnd_end_def]] handler_invD(5) [OF assms(1)] by simp_all
qed simp_all

lemma inv_ha_index_or_rnd_end:
  assumes "handler_inv h" "engine_law E" "ha_index_or_rnd_end E h = (r, h')"
  shows "handler_inv h'" "inited h' = NONE"
proof -
  show "inited h' = NONE"
    using main_cursor.either_end_conforms [OF assms(2) handler_invD(1) [OF assms(1)] assms(3)] by blast
  show "handler_inv h'"
    using assms inv_ha_index_end [OF assms(1,2)] inv_ha_rnd_end [OF assms(1,2)]
    by (cases "inited h") (auto simp: ha_index_or_rnd_end_def)
qed

lemma inv_ha_pre_index_init:
  assumes "handler_inv h" "engine_law E" "pre_inited h = NONE" "ha_pre_index_init E i b h = (r, h')"
  shows "handler_inv h'"
proof (rule handler_inv_pre [OF assms(1)])
  show "cursor_run pre_call (v_calls h') = Some (pre_inited h')"
    by (rule pre_cursor.index_init_conforms [OF assms(2) handler_invD(2) [OF assms(1)] assms(3,4)])
  show "v_calls h' = v_calls h @ [(V_pre_index_init i b, r)]" "inited h' = inited h" "keyread h' = keyread h"
    "length (index_rows_read h') = length (index_rows_read h)" "active_index h' \<le> MAX_KEY"
    using assms handler_invD(5) [OF assms(1)]
    by (auto simp: ha_pre_index_init_def virt_effect split: prod.splits if_splits)
qed simp_all

lemma inv_ha_pre_index_end:
  assumes "handler_inv h" "engine_law E" "pre_inited h = INDEX" "ha_pre_index_end E h = (r, h')"
  shows "handler_inv h'"
proof (rule handler_inv_pre [OF assms(1)])
  show "cursor_run pre_call (v_calls h') = Some (pre_inited h')"
    by (rule pre_cursor.index_end_conforms [OF assms(2) handler_invD(2) [OF assms(1)] assms(3,4)])
  show "v_calls h' = v_calls h @ [(V_pre_index_end, r)]" "inited h' = inited h" "keyread h' = keyread h"
    "length (index_rows_read h') = length (index_rows_read h)" "active_index h' \<le> MAX_KEY"
    using virt_effect [OF assms(2) assms(4) [unfolded ha_pre_index_end_def]] handler_invD(5) [OF assms(1)]
    by simp_all
qed simp_all

lemma inv_ha_pre_rnd_init:
  assumes "handler_inv h" "engine_law E" "pre_inited h = NONE \<or> pre_inited h = RND \<and> scan"
    "ha_pre_rnd_init E scan h = (r, h')"
  shows "handler_inv h'"
proof (rule handler_inv_pre [OF assms(1)])
  show "cursor_run pre_call (v_calls h') = Some (pre_inited h')"
    by (rule pre_cursor.rnd_init_conforms [OF assms(2) handler_invD(2) [OF assms(1)] assms(3,4)])
  show "v_calls h' = v_calls h @ [(V_pre_rnd_init scan, r)]" "inited h' = inited h" "keyread h' = keyread h"
    "length (index_rows_read h') = length (index_rows_read h)" "active_index h' \<le> MAX_KEY"
    using assms handler_invD(5) [OF assms(1)] by (auto simp: ha_pre_rnd_init_def virt_effect split: prod.splits)
qed simp_all

lemma inv_ha_pre_rnd_end:
  assumes "handler_inv h" "engine_law E" "pre_inited h = RND" "ha_pre_rnd_end E h = (r, h')"
  shows "handler_inv h'"
proof (rule handler_inv_pre [OF assms(1)])
  show "cursor_run pre_call (v_calls h') = Some (pre_inited h')"
    by (rule pre_cursor.rnd_end_conforms [OF assms(2) handler_invD(2) [OF assms(1)] assms(3,4)])
  show "v_calls h' = v_calls h @ [(V_pre_rnd_end, r)]" "inited h' = inited h" "keyread h' = keyread h"
    "length (index_rows_read h') = length (index_rows_read h)" "active_index h' \<le> MAX_KEY"
    using virt_effect [OF assms(2) assms(4) [unfolded ha_pre_rnd_end_def]] handler_invD(5) [OF assms(1)] by simp_all
qed simp_all

lemma inv_ha_pre_index_or_rnd_end:
  assumes "handler_inv h" "engine_law E" "ha_pre_index_or_rnd_end E h = (r, h')"
  shows "handler_inv h'" "pre_inited h' = NONE"
proof -
  show "pre_inited h' = NONE"
    using pre_cursor.either_end_conforms [OF assms(2) handler_invD(2) [OF assms(1)] assms(3)] by blast
  show "handler_inv h'"
    using assms inv_ha_pre_index_end [OF assms(1,2)] inv_ha_pre_rnd_end [OF assms(1,2)]
    by (cases "pre_inited h") (auto simp: ha_pre_index_or_rnd_end_def)
qed

lemma inv_rnd_pos_by_record:
  assumes "handler_inv h" "engine_law E" "rnd_pos_law P" "inited h = NONE" "rnd_pos_by_record E P rec h = (r, h')"
  shows "handler_inv h'" "inited h' = NONE"
proof -
  obtain r1 h1 where 1: "ha_rnd_init E False h = (r1, h1)" by fastforce
  have i1: "handler_inv h1" by (rule inv_ha_rnd_init [OF assms(1,2) _ 1]) (simp add: assms(4))
  obtain r2 h2 where 2: "virt E (V_position rec) h1 = (r2, h2)" by fastforce
  obtain r3 h3 where 3: "P rec h2 = (r3, h3)" by fastforce
  obtain r4 h4 where 4: "ha_rnd_end E h3 = (r4, h4)" by fastforce
  have s1: "inited h1 = (if r1 = 0 then RND else NONE)" using main_cursor.rnd_init_law [OF assms(2) 1] by blast
  have i2: "handler_inv h2" by (rule handler_inv_quiet [OF i1 assms(2) 2]) (simp add: quiet_call_def)
  have k3: "keeps_cursor h2 h3" using assms(3) 3 by (metis rnd_pos_law_def snd_conv)
  then have i3: "handler_inv h3" "inited h3 = inited h1"
    using handler_inv_keeps [OF i2] virt_effect(1) [OF assms(2) 2] by (simp_all add: keeps_cursor_def)
  have h': "h' = (if r1 \<noteq> 0 then h1 else h4)"
    using assms(5) 1 2 3 4 by (auto simp: rnd_pos_by_record_def)
  have 5: "handler_inv h4 \<and> inited h4 = NONE" if "r1 = 0"
    using that s1 i3 inv_ha_rnd_end [OF i3(1) assms(2) _ 4] main_cursor.rnd_end_law [OF assms(2) 4] by auto
  show "handler_inv h'" "inited h' = NONE" using h' i1 s1 5 by auto
qed

lemma inv_ha_start_keyread:
  assumes "handler_inv h" "engine_law E" "i < MAX_KEY" "ha_start_keyread E i h = (r, h')"
  shows "handler_inv h'"
proof (cases "keyread_enabled h")
  case True
  then show ?thesis using assms by (auto simp: ha_start_keyread_def handler_inv_def keyread_enabled_def)
next
  case False
  obtain h1 where h1: "virt E (V_extra_opt HA_EXTRA_KEYREAD i) h = (r, h1)" "h' = h1\<lparr>keyread := i\<rparr>"
    using assms(4) False by (auto simp: ha_start_keyread_def split: prod.splits)
  show ?thesis using assms(1,3) False virt_effect [OF assms(2) h1(1)]
    by (simp add: h1(2) handler_inv_def run_snocs cursor_step_def keyread_step_def keyread_enabled_def)
qed

lemma inv_ha_end_keyread:
  assumes "handler_inv h" "engine_law E" "ha_end_keyread E h = (r, h')"
  shows "handler_inv h'" "\<not> keyread_enabled h'"
proof -
  have "handler_inv h' \<and> \<not> keyread_enabled h'"
  proof (cases "keyread_enabled h")
    case False
    then show ?thesis using assms by (auto simp: ha_end_keyread_def)
  next
    case True
    then have v: "virt E (V_extra HA_EXTRA_NO_KEYREAD) (h\<lparr>keyread := MAX_KEY\<rparr>) = (r, h')"
      using assms(3) by (simp add: ha_end_keyread_def)
    show ?thesis using assms(1) True virt_effect [OF assms(2) v]
      by (simp add: handler_inv_def run_snocs cursor_step_def keyread_step_def keyread_enabled_def)
  qed
  then show "handler_inv h'" "\<not> keyread_enabled h'" by auto
qed

lemma handler_inv_local:
  assumes "handler_inv h"
  shows "handler_inv (update_rows_read h)" "handler_inv (reset_statistics h)" "handler_inv (change_table_ptr t s h)"
    "handler_inv (set_next_insert_id n h)" "handler_inv (store_auto_increment h)"
    "handler_inv (restore_auto_increment h)" "handler_inv (cancel_pushed_idx_cond h)"
    "handler_inv (cancel_pushed_rowid_filter h)" "handler_inv (h\<lparr>copy_info := ci\<rparr>)"
    "handler_inv (h\<lparr>estimation_rows_to_insert := n\<rparr>)" "handler_inv (h\<lparr>ft_handler := f\<rparr>)"
    "length a = 65 \<Longrightarrow> handler_inv (h\<lparr>index_rows_read := a\<rparr>)"
  using assms
  by (simp_all add: handler_inv_def keyread_enabled_def update_rows_read_def reset_statistics_def
        change_table_ptr_def set_next_insert_id_def store_auto_increment_def restore_auto_increment_def
        restore_auto_increment_to_def cancel_pushed_idx_cond_def cancel_pushed_rowid_filter_def)

text \<open>The array of counters is one larger than needed, so that counting needs no test.\<close>

lemma update_index_statistics_total:
  assumes "handler_inv h"
  shows "\<exists>h'. update_index_statistics h = Some h' \<and> handler_inv h'"
proof -
  have "unat (active_index h) < length (index_rows_read h)"
    using handler_invD(4,5) [OF assms] by (simp add: MAX_KEY_def word_le_nat_alt)
  then show ?thesis
    using handler_inv_local(1,12) [OF assms] handler_invD(4) [OF assms]
    by (simp add: update_index_statistics_def handler_inv_local(1))
qed

lemma quiet_calls:
  "quiet_call (V_start_bulk_insert n fl)" "quiet_call V_end_bulk_insert" "quiet_call V_ft_end"
  "quiet_call V_reset_copy_info" "quiet_call V_delete_all_rows" "quiet_call (V_reset_auto_increment n)"
  by (simp_all add: quiet_call_def)

lemma handler_inv_virt:
  assumes "handler_inv h" "engine_law E" "quiet_call c"
  shows "handler_inv (snd (virt E c h))"
  using handler_inv_quiet [OF assms(1,2) _ assms(3)] by (metis prod.collapse)

lemma inv_handler_truncate:
  assumes "handler_inv h" "engine_law E"
  shows "handler_inv (snd (handler_truncate E h))"
  using handler_inv_virt [OF assms quiet_calls(5)] handler_inv_virt [OF _ assms(2) quiet_calls(6)]
  by (auto simp: handler_truncate_def split: prod.splits)

lemma handler_exec_inv:
  assumes "handler_inv h" "engine_law E" "rnd_pos_law P" "asserted op h" "key_given op"
  shows "\<exists>r h'. handler_exec E P op h = Some (r, h') \<and> handler_inv h'"
proof (cases op)
  case Op_index_init
  then show ?thesis using assms inv_ha_index_init [OF assms(1,2)] by simp (metis surj_pair)
next
  case Op_index_end
  then show ?thesis using assms inv_ha_index_end [OF assms(1,2)] by simp (metis surj_pair)
next
  case Op_rnd_init
  then show ?thesis using assms inv_ha_rnd_init [OF assms(1,2)] by simp (metis surj_pair)
next
  case Op_rnd_end
  then show ?thesis using assms inv_ha_rnd_end [OF assms(1,2)] by simp (metis surj_pair)
next
  case Op_index_or_rnd_end
  then show ?thesis using inv_ha_index_or_rnd_end(1) [OF assms(1,2)] by simp (metis surj_pair)
next
  case Op_rnd_pos_by_record
  then show ?thesis using assms inv_rnd_pos_by_record(1) [OF assms(1-3)] by simp (metis surj_pair)
next
  case Op_pre_index_init
  then show ?thesis using assms inv_ha_pre_index_init [OF assms(1,2)] by simp (metis surj_pair)
next
  case Op_pre_index_end
  then show ?thesis using assms inv_ha_pre_index_end [OF assms(1,2)] by simp (metis surj_pair)
next
  case Op_pre_rnd_init
  then show ?thesis using assms inv_ha_pre_rnd_init [OF assms(1,2)] by simp (metis surj_pair)
next
  case Op_pre_rnd_end
  then show ?thesis using assms inv_ha_pre_rnd_end [OF assms(1,2)] by simp (metis surj_pair)
next
  case Op_pre_index_or_rnd_end
  then show ?thesis using inv_ha_pre_index_or_rnd_end(1) [OF assms(1,2)] by simp (metis surj_pair)
next
  case Op_start_keyread
  then show ?thesis using assms inv_ha_start_keyread [OF assms(1,2)] by simp (metis surj_pair)
next
  case Op_end_keyread
  then show ?thesis using inv_ha_end_keyread(1) [OF assms(1,2)] by simp (metis surj_pair)
next
  case Op_update_index_statistics
  then show ?thesis using update_index_statistics_total [OF assms(1)] by auto
next
  case Op_truncate
  then show ?thesis using inv_handler_truncate [OF assms(1,2)] by simp (metis surj_pair snd_conv)
next
  case Op_end_bulk_insert
  then show ?thesis using handler_inv_virt [OF handler_inv_local(10) [OF assms(1)] assms(2) quiet_calls(2)]
    by (simp add: ha_end_bulk_insert_def) (metis surj_pair snd_conv)
qed (use handler_inv_local [OF assms(1)] handler_inv_virt [OF _ assms(2)] quiet_calls in
  \<open>simp_all add: ha_start_bulk_insert_def ha_ft_end_def ha_reset_copy_info_def handler_inv_local assms(1)\<close>)

lemma handler_exec_defined:
  assumes "handler_inv h"
  shows "handler_exec E P op h \<noteq> None"
  using update_index_statistics_total [OF assms] by (cases op) auto

lemma handler_reach_inv:
  assumes "handler_reach E P h" "engine_law E" "rnd_pos_law P"
  shows "handler_inv h"
  using assms(1)
proof induction
  case (reach_new share junk)
  then show ?case by (rule handler_inv_new)
next
  case (reach_op h op r h')
  then show ?case using handler_exec_inv [OF reach_op.IH assms(2,3) reach_op.hyps(2,3)] by auto
qed

text \<open>C5. However a handler is used within the assertions of the code and with numbers of keys, the calls its engine sees follow the
  protocols of scans, of their preparation and of index-only reading, and \<open>inited\<close>, \<open>pre_inited\<close> and \<open>keyread\<close>
  are the states of the three protocols; every operation that is asserted there is defined, the counting of
  index reads included.\<close>

theorem handler_follows_protocol:
  assumes "engine_law E" "rnd_pos_law P" "handler_reach E P h"
  shows "cursor_run main_call (v_calls h) = Some (inited h) \<and> cursor_run pre_call (v_calls h) = Some (pre_inited h) \<and>
    keyread_run (v_calls h) = Some (keyread_enabled h) \<and>
    (\<forall>op. asserted op h \<longrightarrow> handler_exec E P op h \<noteq> None)"
  using handler_invD(1-3) [OF handler_reach_inv [OF assms(3,1,2)]]
    handler_exec_defined [OF handler_reach_inv [OF assms(3,1,2)]] by simp

text \<open>C33. From every state a handler can be in, the three closing operations need no assertion and bring it to
  rest: no scan is open, the engine has seen the end of every scan and of index-only reading that it has seen
  the start of, and \<open>get_index\<close> is no index.\<close>

theorem handler_comes_to_rest:
  assumes "engine_law E" "rnd_pos_law P" "handler_reach E P h"
    "ha_index_or_rnd_end E h = (r1, h1)" "ha_pre_index_or_rnd_end E h1 = (r2, h2)" "ha_end_keyread E h2 = (r3, h3)"
  shows "inited h3 = NONE \<and> pre_inited h3 = NONE \<and> ha_get_index h3 = MAX_KEY \<and>
    cursor_run main_call (v_calls h3) = Some NONE \<and> cursor_run pre_call (v_calls h3) = Some NONE \<and>
    keyread_run (v_calls h3) = Some False"
proof -
  note i0 = handler_reach_inv [OF assms(3,1,2)]
  note i1 = inv_ha_index_or_rnd_end [OF i0 assms(1,4)]
  note i2 = inv_ha_pre_index_or_rnd_end [OF i1(1) assms(1,5)]
  note i3 = inv_ha_end_keyread [OF i2(1) assms(1,6)]
  have "inited h2 = inited h1"
    using assms(5) virt_effect(1) [OF assms(1)]
    by (fastforce simp: ha_pre_index_or_rnd_end_def ha_pre_index_end_def ha_pre_rnd_end_def split: if_splits)
  moreover have "inited h3 = inited h2 \<and> pre_inited h3 = pre_inited h2"
    using assms(6) virt_effect(1,2) [OF assms(1)] by (fastforce simp: ha_end_keyread_def split: if_splits)
  ultimately have "inited h3 = NONE" "pre_inited h3 = NONE" using i1(2) i2(2) by simp_all
  then show ?thesis using handler_invD(1-3) [OF i3(1)] i3(2) by (simp add: ha_get_index_def)
qed

text \<open>An engine whose table is always empty: the default bodies, and a table scan that opens.\<close>

definition idle_engine :: engine where
  "idle_engine = base_engine (\<lambda>c h. (0, h))"

definition idle_rnd_pos :: "bytes \<Rightarrow> handler \<Rightarrow> int \<times> handler" where
  "idle_rnd_pos r h = (HA_ERR_WRONG_COMMAND, h)"

lemma idle_laws: "engine_law idle_engine" "rnd_pos_law idle_rnd_pos"
  unfolding idle_engine_def
  by (rule base_engine_law) (simp_all add: engine_law_def rnd_pos_law_def keeps_cursor_def idle_rnd_pos_def)

lemma idle_index_init:
  assumes "inited h = NONE"
  shows "ha_index_init idle_engine 3 True h = (0, h\<lparr>v_calls := v_calls h @ [(V_index_init 3 True, 0)], inited := INDEX,
    active_index := 3, end_range := 0\<rparr>)"
  by (simp add: ha_index_init_def virt_def idle_engine_def base_engine_def)

lemma idle_reach:
  "handler_reach idle_engine idle_rnd_pos (snd (ha_index_init idle_engine 3 True (handler_new 5 1 junk)))"
proof (rule reach_op)
  show "handler_reach idle_engine idle_rnd_pos (handler_new 5 1 junk)" by (rule reach_new)
  show "asserted (Op_index_init 3 True) (handler_new 5 1 junk)"
    by (simp add: handler_new_def reset_statistics_def)
  show "key_given (Op_index_init 3 True)" by (simp add: MAX_KEY_def)
  show "handler_exec idle_engine idle_rnd_pos (Op_index_init 3 True) (handler_new 5 1 junk) =
      Some (fst (ha_index_init idle_engine 3 True (handler_new 5 1 junk)),
            snd (ha_index_init idle_engine 3 True (handler_new 5 1 junk)))"
    by simp
qed

lemma inited_new [simp]: "inited (handler_new t s junk) = NONE"
  by (simp add: handler_new_def reset_statistics_def)

lemma handler_follows_protocol_witness:
  "\<forall>junk. cursor_run main_call (v_calls (snd (ha_index_init idle_engine 3 True (handler_new 5 1 junk)))) = Some INDEX"
  using handler_follows_protocol [OF idle_laws idle_reach] by (simp add: idle_index_init)

lemma handler_comes_to_rest_witness:
  "\<forall>junk. cursor_run main_call (v_calls (snd (ha_end_keyread idle_engine (snd (ha_pre_index_or_rnd_end idle_engine
     (snd (ha_index_or_rnd_end idle_engine
       (snd (ha_index_init idle_engine 3 True (handler_new 5 1 junk)))))))))) = Some NONE"
  using handler_comes_to_rest [OF idle_laws idle_reach prod.collapse [symmetric] prod.collapse [symmetric]
      prod.collapse [symmetric]]
  by blast

section \<open>Facts of single operations\<close>

text \<open>
  The value for the next row is back after a failed insertion, unless none had been generated before: then
  it is the one generated for the failed row.
\<close>

lemma restore_after_store:
  "next_insert_id (restore_auto_increment (set_next_insert_id n (store_auto_increment h))) =
     (if next_insert_id h = 0 then insert_id_for_cur_row h else next_insert_id h)"
  by (simp add: restore_auto_increment_def restore_auto_increment_to_def set_next_insert_id_def
        store_auto_increment_def word_gt_0)

text \<open>An error that is fatal for some flags is fatal without any; with all flags only five errors are not.\<close>

lemma is_fatal_error_cases:
  "is_fatal_error e HA_CHECK_ALL \<longleftrightarrow> e \<notin> {0, 121, 141, 151, 152, 167}"
  "is_fatal_error e 0 \<longleftrightarrow> e \<notin> {0, 167}"
  "is_fatal_error e HA_CHECK_DUP_UNIQUE = is_fatal_error e 0"
  "is_fatal_error e fl \<Longrightarrow> is_fatal_error e 0"
  by (auto simp: is_fatal_error_def HA_CHECK_ALL_def HA_CHECK_DUP_KEY_def HA_CHECK_FK_ERROR_def
        HA_CHECK_DUP_UNIQUE_def HA_ERR_FOUND_DUPP_KEY_def HA_ERR_FOUND_DUPP_UNIQUE_def
        HA_ERR_NO_REFERENCED_ROW_def HA_ERR_ROW_IS_REFERENCED_def HA_ERR_AUTOINC_ERANGE_def)

lemma has_transactions_manager: "has_transactions h \<Longrightarrow> has_transaction_manager h"
  by (simp add: has_transactions_def has_transaction_manager_def bit.conj_disj_distrib or_eq_0_iff)

text \<open>The bound on the number of rows wraps for an unknown number, which it should report as unknown.\<close>

lemma estimate_rows_upper_bound_wraps:
  "stats_records h = NOT 0 \<Longrightarrow> estimate_rows_upper_bound h = 9"
  by (simp add: estimate_rows_upper_bound_def EXTRA_RECORDS_def)

text \<open>A top table is set once until it is cleared.\<close>

lemma set_top_table_once:
  "snd (set_top_table_and_fields t2 f2 n2 (snd (set_top_table_and_fields t f n h))) =
     snd (set_top_table_and_fields t f n h)"
  by (simp add: set_top_table_and_fields_def)

end
