(* ===== verification/CDouble.thy ===== *)
theory CDouble
  imports Complex_Main
begin

text \<open>What the components that compute with \<open>double\<close> share: a \<open>double\<close> is a real number, here is the largest finite one.\<close>

definition DBL_MAX :: real where
  "DBL_MAX = (2 - 1 / 2 ^ 52) * 2 ^ 1023"

lemma DBL_MAX_ge: "2 ^ 1023 \<le> DBL_MAX" "0 < DBL_MAX"
proof -
  have "(1 :: real) \<le> 2 - 1 / 2 ^ 52" by simp
  then have "(1 :: real) * 2 ^ 1023 \<le> (2 - 1 / 2 ^ 52) * 2 ^ 1023" by (intro mult_right_mono) auto
  then show "2 ^ 1023 \<le> DBL_MAX" by (simp add: DBL_MAX_def)
  then show "0 < DBL_MAX" by (rule less_le_trans [rotated]) simp
qed


end
