(* ===== verification/Mbr.thy ===== *)
theory Mbr
  imports Prelude CDouble "HOL-Library.Monad_Syntax"
begin

text \<open>
  Minimum bounding rectangles and the reading of stored points, of \<open>spatial.h\<close>. A \<open>double\<close> is a real number;
  the function that reads eight bytes as a \<open>double\<close> (\<open>float8get\<close> copies memory) is an argument. \<open>within\<close> is
  defined in \<open>spatial.cc\<close> and is an argument of \<open>overlaps\<close>.
\<close>

section \<open>Rectangles\<close>

record st_point_2d =
  pt_x :: real
  pt_y :: real

record MBR =
  xmin :: real
  ymin :: real
  xmax :: real
  ymax :: real

definition mbr_new :: MBR where
  "mbr_new = \<lparr>xmin = DBL_MAX, ymin = DBL_MAX, xmax = - DBL_MAX, ymax = - DBL_MAX\<rparr>"

definition mbr_of_args :: "real \<Rightarrow> real \<Rightarrow> real \<Rightarrow> real \<Rightarrow> MBR" where
  "mbr_of_args xmin_arg ymin_arg xmax_arg ymax_arg =
     \<lparr>xmin = xmin_arg, ymin = ymin_arg, xmax = xmax_arg, ymax = ymax_arg\<rparr>"

definition mbr_of_points :: "st_point_2d \<Rightarrow> st_point_2d \<Rightarrow> MBR" where
  "mbr_of_points mn mx = \<lparr>xmin = pt_x mn, ymin = pt_y mn, xmax = pt_x mx, ymax = pt_y mx\<rparr>"

definition add_xy :: "real \<Rightarrow> real \<Rightarrow> MBR \<Rightarrow> MBR" where
  "add_xy x y m =
     (let m = (if x < xmin m then m\<lparr>xmin := x\<rparr> else m);
          m = (if x > xmax m then m\<lparr>xmax := x\<rparr> else m);
          m = (if y < ymin m then m\<lparr>ymin := y\<rparr> else m);
          m = (if y > ymax m then m\<lparr>ymax := y\<rparr> else m)
      in m)"

definition add_xy_stored :: "(bytes \<Rightarrow> real) \<Rightarrow> bytes \<Rightarrow> nat \<Rightarrow> bytes \<Rightarrow> nat \<Rightarrow> MBR \<Rightarrow> MBR option" where
  "add_xy_stored float8 px i py j m = do {
     x \<leftarrow> map_option float8 (arr_slice px i 8);
     y \<leftarrow> map_option float8 (arr_slice py j 8);
     Some (add_xy x y m)
   }"

definition add_mbr :: "MBR \<Rightarrow> MBR \<Rightarrow> MBR" where
  "add_mbr mbr m =
     (let m = (if xmin mbr < xmin m then m\<lparr>xmin := xmin mbr\<rparr> else m);
          m = (if xmax mbr > xmax m then m\<lparr>xmax := xmax mbr\<rparr> else m);
          m = (if ymin mbr < ymin m then m\<lparr>ymin := ymin mbr\<rparr> else m);
          m = (if ymax mbr > ymax m then m\<lparr>ymax := ymax mbr\<rparr> else m)
      in m)"

definition mbr_of_two :: "MBR \<Rightarrow> MBR \<Rightarrow> MBR" where
  "mbr_of_two mbr1 mbr2 = add_mbr mbr2 (mbr_of_args (xmin mbr1) (ymin mbr1) (xmax mbr1) (ymax mbr1))"

definition mbr_buffer :: "real \<Rightarrow> MBR \<Rightarrow> MBR" where
  "mbr_buffer d m = m\<lparr>xmin := xmin m - d, ymin := ymin m - d, xmax := xmax m + d, ymax := ymax m + d\<rparr>"

text \<open>The first argument of a predicate is the argument of the member function, the second the object.\<close>

definition mbr_equals :: "MBR \<Rightarrow> MBR \<Rightarrow> bool" where
  "mbr_equals mbr m \<longleftrightarrow> xmin mbr = xmin m \<and> ymin mbr = ymin m \<and> xmax mbr = xmax m \<and> ymax mbr = ymax m"

definition mbr_disjoint :: "MBR \<Rightarrow> MBR \<Rightarrow> bool" where
  "mbr_disjoint mbr m \<longleftrightarrow> xmin mbr > xmax m \<or> ymin mbr > ymax m \<or> xmax mbr < xmin m \<or> ymax mbr < ymin m"

definition mbr_intersects :: "MBR \<Rightarrow> MBR \<Rightarrow> bool" where
  "mbr_intersects mbr m \<longleftrightarrow> \<not> mbr_disjoint mbr m"

definition mbr_touches :: "MBR \<Rightarrow> MBR \<Rightarrow> bool" where
  "mbr_touches mbr m \<longleftrightarrow>
     (xmin mbr = xmax m \<or> xmax mbr = xmin m) \<and>
       (ymin mbr \<ge> ymin m \<and> ymin mbr \<le> ymax m \<or> ymax mbr \<ge> ymin m \<and> ymax mbr \<le> ymax m) \<or>
     (ymin mbr = ymax m \<or> ymax mbr = ymin m) \<and>
       (xmin mbr \<ge> xmin m \<and> xmin mbr \<le> xmax m \<or> xmax mbr \<ge> xmin m \<and> xmax mbr \<le> xmax m)"

definition mbr_contains :: "MBR \<Rightarrow> MBR \<Rightarrow> bool" where
  "mbr_contains mbr m \<longleftrightarrow> xmin mbr \<ge> xmin m \<and> ymin mbr \<ge> ymin m \<and> xmax mbr \<le> xmax m \<and> ymax mbr \<le> ymax m"

definition inner_point :: "real \<Rightarrow> real \<Rightarrow> MBR \<Rightarrow> bool" where
  "inner_point x y m \<longleftrightarrow> xmin m < x \<and> xmax m > x \<and> ymin m < y \<and> ymax m > y"

definition mbr_dimension :: "MBR \<Rightarrow> int" where
  "mbr_dimension m =
     (let d = 0 in
      if xmin m > xmax m then -1
      else let d = (if xmin m < xmax m then d + 1 else d)
           in if ymin m > ymax m then -1
              else if ymin m < ymax m then d + 1 else d)"

definition mbr_overlaps :: "(MBR \<Rightarrow> MBR \<Rightarrow> bool) \<Rightarrow> MBR \<Rightarrow> MBR \<Rightarrow> bool" where
  "mbr_overlaps within_fn mbr m =
     (let d = mbr_dimension m
      in if d \<noteq> mbr_dimension mbr \<or> d \<le> 0 \<or> mbr_contains mbr m \<or> within_fn mbr m then False
         else let intersection = mbr_of_args (max (xmin m) (xmin mbr)) (max (ymin m) (ymin mbr))
                    (min (xmax m) (xmax mbr)) (min (ymax m) (ymax mbr))
              in d = mbr_dimension intersection)"

definition mbr_valid :: "MBR \<Rightarrow> bool" where
  "mbr_valid m \<longleftrightarrow> xmin m \<le> xmax m \<and> ymin m \<le> ymax m"

section \<open>Stored geometries\<close>

definition SIZEOF_STORED_DOUBLE :: nat where "SIZEOF_STORED_DOUBLE = 8"
definition POINT_DATA_SIZE :: nat where "POINT_DATA_SIZE = SIZEOF_STORED_DOUBLE * 2"
definition WKB_HEADER_SIZE :: nat where "WKB_HEADER_SIZE = 1 + 4"
definition wkb_point :: int where "wkb_point = 1"
definition wkb_last :: int where "wkb_last = 7"

text \<open>\<open>m_data\<close> and \<open>m_data_end\<close> are positions in the bytes of one value.\<close>

record Geometry =
  g_bytes :: bytes
  m_data :: int
  m_data_end :: int

definition set_data_ptr :: "int \<Rightarrow> uint32 \<Rightarrow> Geometry \<Rightarrow> Geometry" where
  "set_data_ptr d data_len g = g\<lparr>m_data := d, m_data_end := d + uint data_len\<rparr>"

definition shift_wkb_header :: "Geometry \<Rightarrow> Geometry" where
  "shift_wkb_header g = g\<lparr>m_data := m_data g + int WKB_HEADER_SIZE\<rparr>"

definition find_class :: "(int \<Rightarrow> 'c) \<Rightarrow> int \<Rightarrow> 'c option" where
  "find_class ci_collection type_id =
     (if type_id < wkb_point \<or> type_id > wkb_last then None else Some (ci_collection type_id))"

definition no_data :: "int \<Rightarrow> nat \<Rightarrow> Geometry \<Rightarrow> bool" where
  "no_data cur_data data_amount g \<longleftrightarrow> cur_data + int data_amount > m_data_end g"

text \<open>The division is undefined when the sum of the sizes wraps around to zero.\<close>

definition not_enough_points :: "int \<Rightarrow> uint32 \<Rightarrow> uint32 \<Rightarrow> Geometry \<Rightarrow> bool option" where
  "not_enough_points d expected_points extra_point_space g =
     (if m_data_end g < d then Some True
      else let size_of_point = uint (word_of_nat POINT_DATA_SIZE + extra_point_space)
           in if size_of_point = 0 then None
              else Some (uint expected_points > (m_data_end g - d) div size_of_point))"

text \<open>A read of a stored \<open>double\<close>, undefined outside the value.\<close>

definition float8get :: "(bytes \<Rightarrow> real) \<Rightarrow> Geometry \<Rightarrow> int \<Rightarrow> real option" where
  "float8get float8 g p = (if p < 0 then None else map_option float8 (arr_slice (g_bytes g) (nat p) 8))"

text \<open>The return value and the two results, present when it is zero.\<close>

definition gis_point_get_xy :: "(bytes \<Rightarrow> real) \<Rightarrow> Geometry \<Rightarrow> (int \<times> (real \<times> real) option) option" where
  "gis_point_get_xy float8 g =
     (if no_data (m_data g) (SIZEOF_STORED_DOUBLE * 2) g then Some (1, None)
      else do {
        x \<leftarrow> float8get float8 g (m_data g);
        y \<leftarrow> float8get float8 g (m_data g + int SIZEOF_STORED_DOUBLE);
        Some (0, Some (x, y))
      })"

definition gis_point_get_x :: "(bytes \<Rightarrow> real) \<Rightarrow> Geometry \<Rightarrow> (int \<times> real option) option" where
  "gis_point_get_x float8 g =
     (if no_data (m_data g) SIZEOF_STORED_DOUBLE g then Some (1, None)
      else do { x \<leftarrow> float8get float8 g (m_data g); Some (0, Some x) })"

definition gis_point_get_y :: "(bytes \<Rightarrow> real) \<Rightarrow> Geometry \<Rightarrow> (int \<times> real option) option" where
  "gis_point_get_y float8 g =
     (if no_data (m_data g) (SIZEOF_STORED_DOUBLE * 2) g then Some (1, None)
      else do { y \<leftarrow> float8get float8 g (m_data g + int SIZEOF_STORED_DOUBLE); Some (0, Some y) })"

section \<open>Rectangles as sets of points\<close>

definition mbr_points :: "MBR \<Rightarrow> (real \<times> real) set" where
  "mbr_points m = {(x, y). xmin m \<le> x \<and> x \<le> xmax m \<and> ymin m \<le> y \<and> y \<le> ymax m}"

definition mbr_interior :: "MBR \<Rightarrow> (real \<times> real) set" where
  "mbr_interior m = {(x, y). inner_point x y m}"

lemmas mbr_pred_defs = mbr_equals_def mbr_disjoint_def mbr_intersects_def mbr_contains_def inner_point_def

lemma mbr_points_empty_iff: "mbr_points m = {} \<longleftrightarrow> \<not> mbr_valid m"
proof
  show "mbr_points m = {} \<Longrightarrow> \<not> mbr_valid m"
    by (auto simp: mbr_points_def mbr_valid_def set_eq_iff dest: spec [of _ "xmin m"])
qed (auto simp: mbr_points_def mbr_valid_def)

lemma mbr_contains_iff:
  assumes "mbr_valid b"
  shows "mbr_contains b a \<longleftrightarrow> mbr_points b \<subseteq> mbr_points a"
proof
  assume s: "mbr_points b \<subseteq> mbr_points a"
  have "(xmin b, ymin b) \<in> mbr_points b" "(xmax b, ymax b) \<in> mbr_points b"
    using assms by (simp_all add: mbr_points_def mbr_valid_def)
  then have "(xmin b, ymin b) \<in> mbr_points a" "(xmax b, ymax b) \<in> mbr_points a" using s by blast+
  then show "mbr_contains b a" by (simp add: mbr_contains_def mbr_points_def)
qed (auto simp: mbr_contains_def mbr_points_def)

lemma mbr_intersects_iff:
  assumes "mbr_valid a" "mbr_valid b"
  shows "mbr_intersects b a \<longleftrightarrow> mbr_points a \<inter> mbr_points b \<noteq> {}"
proof
  assume "mbr_intersects b a"
  then have "(max (xmin a) (xmin b), max (ymin a) (ymin b)) \<in> mbr_points a \<inter> mbr_points b"
    using assms by (auto simp: mbr_intersects_def mbr_disjoint_def mbr_points_def mbr_valid_def)
  then show "mbr_points a \<inter> mbr_points b \<noteq> {}" by blast
qed (auto simp: mbr_intersects_def mbr_disjoint_def mbr_points_def)

lemma mbr_equals_iff:
  assumes "mbr_valid a" "mbr_valid b"
  shows "mbr_equals b a \<longleftrightarrow> mbr_points b = mbr_points a"
proof -
  have "mbr_equals b a \<longleftrightarrow> mbr_contains b a \<and> mbr_contains a b" by (auto simp: mbr_equals_def mbr_contains_def)
  then show ?thesis using mbr_contains_iff [OF assms(2)] mbr_contains_iff [OF assms(1)] by blast
qed

text \<open>Two rectangles share an inner point when the intersection has an area.\<close>

lemma mbr_interiors_meet:
  "mbr_interior a \<inter> mbr_interior b \<noteq> {} \<longleftrightarrow>
     max (xmin a) (xmin b) < min (xmax a) (xmax b) \<and> max (ymin a) (ymin b) < min (ymax a) (ymax b)"
proof
  assume r: "max (xmin a) (xmin b) < min (xmax a) (xmax b) \<and> max (ymin a) (ymin b) < min (ymax a) (ymax b)"
  obtain x where x: "max (xmin a) (xmin b) < x" "x < min (xmax a) (xmax b)" using r dense by blast
  obtain y where y: "max (ymin a) (ymin b) < y" "y < min (ymax a) (ymax b)" using r dense by blast
  have "(x, y) \<in> mbr_interior a \<inter> mbr_interior b" using x y by (simp add: mbr_interior_def inner_point_def)
  then show "mbr_interior a \<inter> mbr_interior b \<noteq> {}" by blast
qed (auto simp: mbr_interior_def inner_point_def)

text \<open>The predicates of valid rectangles are those of the point sets: \<open>contains\<close> is inclusion, \<open>equals\<close>
  equality, \<open>intersects\<close> a common point and \<open>disjoint\<close> none.\<close>

theorem mbr_predicates_point_sets:
  assumes "mbr_valid a" "mbr_valid b"
  shows "(mbr_contains b a \<longleftrightarrow> mbr_points b \<subseteq> mbr_points a) \<and>
    (mbr_equals b a \<longleftrightarrow> mbr_points b = mbr_points a) \<and>
    (mbr_intersects b a \<longleftrightarrow> mbr_points a \<inter> mbr_points b \<noteq> {}) \<and>
    (mbr_disjoint b a \<longleftrightarrow> mbr_points a \<inter> mbr_points b = {})"
  using assms mbr_contains_iff mbr_equals_iff mbr_intersects_iff by (auto simp: mbr_intersects_def)

section \<open>Growing a rectangle\<close>

lemma add_xy_eq: "add_xy x y m =
    \<lparr>xmin = min x (xmin m), ymin = min y (ymin m), xmax = max x (xmax m), ymax = max y (ymax m)\<rparr>"
  by (cases m) (auto simp: add_xy_def Let_def min_def max_def)

lemma add_mbr_eq: "add_mbr b m =
    \<lparr>xmin = min (xmin b) (xmin m), ymin = min (ymin b) (ymin m), xmax = max (xmax b) (xmax m),
     ymax = max (ymax b) (ymax m)\<rparr>"
  by (cases m) (auto simp: add_mbr_def Let_def min_def max_def)

text \<open>The loop of a caller that starts from the default rectangle and adds points.\<close>

definition mbr_of_point_list :: "(real \<times> real) list \<Rightarrow> MBR" where
  "mbr_of_point_list ps = fold (\<lambda>(x, y). add_xy x y) ps mbr_new"

lemma fold_add_xy:
  "fold (\<lambda>(x, y). add_xy x y) ps m =
     \<lparr>xmin = fold min (map fst ps) (xmin m), ymin = fold min (map snd ps) (ymin m),
      xmax = fold max (map fst ps) (xmax m), ymax = fold max (map snd ps) (ymax m)\<rparr>"
  by (induction ps arbitrary: m) (auto simp: add_xy_eq)

lemma fold_min_le: "fold min xs (a :: real) \<le> b \<longleftrightarrow> a \<le> b \<or> (\<exists>x\<in>set xs. x \<le> b)"
  by (induction xs arbitrary: a) (auto simp: min_le_iff_disj)

lemma le_fold_min: "b \<le> fold min xs (a :: real) \<longleftrightarrow> b \<le> a \<and> (\<forall>x\<in>set xs. b \<le> x)"
  by (induction xs arbitrary: a) auto

lemma le_fold_max: "b \<le> fold max xs (a :: real) \<longleftrightarrow> b \<le> a \<or> (\<exists>x\<in>set xs. b \<le> x)"
  by (induction xs arbitrary: a) (auto simp: le_max_iff_disj)

lemma fold_max_le: "fold max xs (a :: real) \<le> b \<longleftrightarrow> a \<le> b \<and> (\<forall>x\<in>set xs. x \<le> b)"
  by (induction xs arbitrary: a) auto

lemmas fold_bounds = fold_min_le le_fold_min le_fold_max fold_max_le

text \<open>A \<open>double\<close> that is not infinite.\<close>

definition finite_double :: "real \<Rightarrow> bool" where
  "finite_double x \<longleftrightarrow> - DBL_MAX \<le> x \<and> x \<le> DBL_MAX"

lemma mbr_of_point_list_sel:
  "xmin (mbr_of_point_list ps) = fold min (map fst ps) DBL_MAX"
  "ymin (mbr_of_point_list ps) = fold min (map snd ps) DBL_MAX"
  "xmax (mbr_of_point_list ps) = fold max (map fst ps) (- DBL_MAX)"
  "ymax (mbr_of_point_list ps) = fold max (map snd ps) (- DBL_MAX)"
  by (simp_all add: mbr_of_point_list_def fold_add_xy mbr_new_def)

lemma mbr_of_point_list_covers: "set ps \<subseteq> mbr_points (mbr_of_point_list ps)"
  by (force simp: mbr_points_def mbr_of_point_list_sel fold_bounds)

lemma mbr_of_point_list_least:
  assumes "ps \<noteq> []" "\<forall>(x, y)\<in>set ps. finite_double x \<and> finite_double y" "set ps \<subseteq> mbr_points b"
  shows "mbr_contains (mbr_of_point_list ps) b"
proof -
  obtain x0 y0 where "(x0, y0) \<in> set ps" using assms(1) by (cases ps) auto
  then have "- DBL_MAX \<le> x0" "x0 \<le> DBL_MAX" "- DBL_MAX \<le> y0" "y0 \<le> DBL_MAX"
    "xmin b \<le> x0" "x0 \<le> xmax b" "ymin b \<le> y0" "y0 \<le> ymax b"
    using assms(2,3) by (fastforce simp: finite_double_def mbr_points_def)+
  then show ?thesis using assms(3)
    by (fastforce simp: mbr_contains_def mbr_of_point_list_sel fold_bounds mbr_points_def)
qed

lemma fold_min_assoc: "fold min xs (min a b) = min (fold min xs a) (b :: real)"
  by (induction xs arbitrary: a) (simp_all add: min.assoc [symmetric])

lemma fold_max_assoc: "fold max xs (max a b) = max (fold max xs a) (b :: real)"
  by (induction xs arbitrary: a) (simp_all add: max.assoc [symmetric])

lemma fold_min_join:
  "fold min xs (a :: real) \<le> b \<Longrightarrow> fold min ys (fold min xs a) = min (fold min ys b) (fold min xs a)"
  using fold_min_assoc [of ys b "fold min xs a"] by (simp add: min_absorb2)

lemma fold_max_join:
  "b \<le> fold max xs (a :: real) \<Longrightarrow> fold max ys (fold max xs a) = max (fold max ys b) (fold max xs a)"
  using fold_max_assoc [of ys b "fold max xs a"] by (simp add: max_absorb2)

lemma mbr_of_point_list_append:
  "mbr_of_point_list (ps @ qs) = add_mbr (mbr_of_point_list qs) (mbr_of_point_list ps)"
proof -
  have "fold min xs DBL_MAX \<le> DBL_MAX" "- DBL_MAX \<le> fold max xs (- DBL_MAX)" for xs
    by (simp_all add: fold_bounds)
  then show ?thesis
    by (simp add: mbr_of_point_list_def fold_add_xy add_mbr_eq mbr_new_def fold_min_join fold_max_join)
qed

text \<open>C29. Adding points to the default rectangle gives the least rectangle that has all of them, for at least
  one point with finite coordinates; and the rectangle of two collections is the one of the first with the one
  of the second added by \<open>add_mbr\<close>.\<close>

theorem mbr_least_bound:
  assumes "ps \<noteq> []" "\<forall>(x, y)\<in>set ps. finite_double x \<and> finite_double y"
  shows "mbr_valid (mbr_of_point_list ps) \<and> set ps \<subseteq> mbr_points (mbr_of_point_list ps) \<and>
    (\<forall>b. set ps \<subseteq> mbr_points b \<longrightarrow> mbr_points (mbr_of_point_list ps) \<subseteq> mbr_points b) \<and>
    mbr_of_point_list (ps @ qs) = add_mbr (mbr_of_point_list qs) (mbr_of_point_list ps)"
proof -
  have "mbr_points (mbr_of_point_list ps) \<noteq> {}" using mbr_of_point_list_covers [of ps] assms(1) by auto
  then have v: "mbr_valid (mbr_of_point_list ps)" by (simp add: mbr_points_empty_iff)
  then show ?thesis
    using mbr_of_point_list_covers mbr_of_point_list_least [OF assms] mbr_contains_iff [OF v]
      mbr_of_point_list_append by blast
qed

lemma mbr_predicates_point_sets_witness:
  "mbr_intersects (mbr_of_args 1 1 3 3) (mbr_of_args 0 0 2 2) \<and>
   mbr_points (mbr_of_args 0 0 2 2) \<inter> mbr_points (mbr_of_args 1 1 3 3) \<noteq> {}"
  using mbr_predicates_point_sets [of "mbr_of_args 0 0 2 2" "mbr_of_args 1 1 3 3"]
  by (simp add: mbr_valid_def mbr_of_args_def mbr_intersects_def mbr_disjoint_def)

lemma mbr_least_bound_witness:
  "mbr_valid (mbr_of_point_list [(0, 0), (1, -1)]) \<and>
   set [(0, 0), (1, -1)] \<subseteq> mbr_points (mbr_of_point_list [(0, 0), (1, -1)])"
proof -
  have "(1 :: real) \<le> DBL_MAX" using one_le_power [of "2 :: real" 1023] DBL_MAX_ge(1) by linarith
  then show ?thesis
    using mbr_least_bound [of "[(0, 0), (1, -1)]" "[]"] by (simp add: finite_double_def)
qed

section \<open>Touching and overlapping\<close>

lemma mbr_dimension_2: "mbr_dimension m = 2 \<longleftrightarrow> xmin m < xmax m \<and> ymin m < ymax m"
  by (auto simp: mbr_dimension_def Let_def)

lemma mbr_touches_intersects:
  assumes "mbr_valid a" "mbr_valid b" "mbr_touches b a"
  shows "mbr_intersects b a"
  using assms by (auto simp: mbr_touches_def mbr_intersects_def mbr_disjoint_def mbr_valid_def)

lemma mbr_touches_no_area:
  "mbr_touches b a \<Longrightarrow> mbr_interior a \<inter> mbr_interior b = {}"
  by (auto simp: mbr_touches_def mbr_interior_def inner_point_def)

text \<open>Rectangles that meet along an edge or a corner: one of the two ways to ask finds it.\<close>

lemma mbr_edge_touches:
  assumes "mbr_dimension a = 2" "mbr_dimension b = 2" "mbr_intersects b a" "mbr_interior a \<inter> mbr_interior b = {}"
  shows "mbr_touches b a \<or> mbr_touches a b"
proof -
  have a: "xmin a < xmax a" "ymin a < ymax a" and b: "xmin b < xmax b" "ymin b < ymax b"
    using assms(1,2) by (simp_all add: mbr_dimension_2)
  have i: "xmin b \<le> xmax a" "ymin b \<le> ymax a" "xmin a \<le> xmax b" "ymin a \<le> ymax b"
    using assms(3) by (simp_all add: mbr_intersects_def mbr_disjoint_def not_less)
  have "min (xmax a) (xmax b) \<le> max (xmin a) (xmin b) \<or> min (ymax a) (ymax b) \<le> max (ymin a) (ymin b)"
    using assms(4) mbr_interiors_meet [of a b] by (auto simp: not_less)
  then have e: "xmin b = xmax a \<or> xmax b = xmin a \<or> ymin b = ymax a \<or> ymax b = ymin a"
    using a b i by (auto simp: min_def max_def split: if_splits)
  then show ?thesis using a b i by (fastforce simp: mbr_touches_def)
qed

text \<open>Two rectangles with an area have a common point but no common inner point exactly when one of them
  touches the other in the sense of \<open>touches\<close>; the predicate itself is not symmetric, so that its answer
  depends on which rectangle is asked.\<close>

theorem mbr_touches_either_way:
  assumes "mbr_dimension a = 2" "mbr_dimension b = 2"
  shows "(mbr_touches b a \<or> mbr_touches a b \<longleftrightarrow>
      mbr_points a \<inter> mbr_points b \<noteq> {} \<and> mbr_interior a \<inter> mbr_interior b = {}) \<and>
    (\<exists>c d. mbr_dimension c = 2 \<and> mbr_dimension d = 2 \<and> mbr_touches c d \<and> \<not> mbr_touches d c)"
proof -
  have v: "mbr_valid a" "mbr_valid b" using assms by (simp_all add: mbr_dimension_2 mbr_valid_def)
  have "mbr_touches (mbr_of_args 0 0 1 1) (mbr_of_args 1 (-1) 2 2)"
    "\<not> mbr_touches (mbr_of_args 1 (-1) 2 2) (mbr_of_args 0 0 1 1)"
    "mbr_dimension (mbr_of_args 0 0 1 1) = 2" "mbr_dimension (mbr_of_args 1 (-1) 2 2) = 2"
    by (simp_all add: mbr_touches_def mbr_of_args_def mbr_dimension_2)
  moreover have "mbr_intersects b a = mbr_intersects a b" by (auto simp: mbr_intersects_def mbr_disjoint_def)
  ultimately show ?thesis
    using mbr_touches_intersects [OF v] mbr_touches_intersects [OF v(2,1)] mbr_touches_no_area [of b a]
      mbr_touches_no_area [of a b] mbr_edge_touches [OF assms] mbr_intersects_iff [OF v] by blast
qed

lemma mbr_touches_either_way_witness:
  "mbr_interior (mbr_of_args 0 0 1 1) \<inter> mbr_interior (mbr_of_args 1 0 2 1) = {}"
  using mbr_touches_either_way [of "mbr_of_args 0 0 1 1" "mbr_of_args 1 0 2 1"]
  by (simp add: mbr_dimension_2 mbr_of_args_def mbr_touches_def)

text \<open>
  \<open>within\<close> is the converse of \<open>contains\<close>. Then two rectangles with an area overlap when they share an inner
  point and neither lies in the other, and \<open>overlaps\<close> is symmetric in every dimension.
\<close>

definition within_law :: "(MBR \<Rightarrow> MBR \<Rightarrow> bool) \<Rightarrow> bool" where
  "within_law within_fn \<longleftrightarrow> (\<forall>a b. within_fn b a \<longleftrightarrow> mbr_contains a b)"

lemma mbr_overlaps_area:
  assumes "within_law within_fn" "mbr_dimension a = 2" "mbr_dimension b = 2"
  shows "mbr_overlaps within_fn b a \<longleftrightarrow>
    mbr_interior a \<inter> mbr_interior b \<noteq> {} \<and> \<not> mbr_points b \<subseteq> mbr_points a \<and> \<not> mbr_points a \<subseteq> mbr_points b"
proof -
  have v: "mbr_valid a" "mbr_valid b" using assms(2,3) by (simp_all add: mbr_dimension_2 mbr_valid_def)
  obtain i where i: "i = mbr_of_args (max (xmin a) (xmin b)) (max (ymin a) (ymin b))
      (min (xmax a) (xmax b)) (min (ymax a) (ymax b))" by blast
  have "mbr_dimension i = 2 \<longleftrightarrow> mbr_interior a \<inter> mbr_interior b \<noteq> {}"
    unfolding mbr_interiors_meet by (simp add: mbr_dimension_2 i mbr_of_args_def)
  then show ?thesis
    using assms mbr_contains_iff [OF v(2), of a] mbr_contains_iff [OF v(1), of b]
    by (auto simp: mbr_overlaps_def within_law_def Let_def i [symmetric])
qed

lemma mbr_overlaps_sym:
  assumes "within_law within_fn"
  shows "mbr_overlaps within_fn b a = mbr_overlaps within_fn a b"
  using assms by (auto simp: mbr_overlaps_def within_law_def Let_def max.commute min.commute)

text \<open>The counts of points are checked without overflow: enough points means that all of them are there.\<close>

lemma le_div_iff_int:
  fixes n m k :: int
  assumes "0 < k"
  shows "n \<le> m div k \<longleftrightarrow> n * k \<le> m"
proof
  assume "n \<le> m div k"
  then have "n * k \<le> m div k * k" using assms by (simp add: mult_right_mono)
  then show "n * k \<le> m" using div_mult_mod_eq [of m k] pos_mod_sign [OF assms, of m] by linarith
next
  assume "n * k \<le> m"
  then have "n * k div k \<le> m div k" using assms by (rule zdiv_mono1)
  then show "n \<le> m div k" using assms by simp
qed

lemma not_enough_points_iff:
  assumes "uint extra < 2 ^ 32 - 16" "0 \<le> d"
  shows "not_enough_points d n extra g = Some (\<not> d + uint n * (16 + uint extra) \<le> m_data_end g)"
proof -
  have w: "uint (word_of_nat POINT_DATA_SIZE + extra :: uint32) = 16 + uint extra"
    using assms(1) by (simp add: POINT_DATA_SIZE_def SIZEOF_STORED_DOUBLE_def uint_word_ariths)
  have u: "0 \<le> uint extra" "0 \<le> uint n" by simp_all
  have le: "uint n \<le> (m_data_end g - d) div (16 + uint extra) \<longleftrightarrow> uint n * (16 + uint extra) \<le> m_data_end g - d"
    using u(1) by (intro le_div_iff_int) linarith
  show ?thesis
  proof (cases "m_data_end g < d")
    case True
    moreover have "0 \<le> uint n * (16 + uint extra)" using u by simp
    ultimately have "\<not> d + uint n * (16 + uint extra) \<le> m_data_end g" by linarith
    then show ?thesis using True by (simp add: not_enough_points_def)
  next
    case False
    moreover have ne: "16 + uint extra \<noteq> 0" using u(1) by linarith
    ultimately have "not_enough_points d n extra g = Some (uint n > (m_data_end g - d) div (16 + uint extra))"
      unfolding not_enough_points_def w Let_def if_not_P [OF ne] by simp
    moreover have "uint n > (m_data_end g - d) div (16 + uint extra) \<longleftrightarrow> \<not> d + uint n * (16 + uint extra) \<le> m_data_end g"
      using le by linarith
    ultimately show ?thesis by simp
  qed
qed


text \<open>A point is read when the value is long enough, and its two coordinates agree with the separate reads.\<close>

lemma gis_point_reads:
  assumes "m_data g = int p" "m_data_end g = int (length (g_bytes g))"
  shows "gis_point_get_xy float8 g =
      Some (if p + 16 \<le> length (g_bytes g)
            then (0, Some (float8 (take 8 (drop p (g_bytes g))), float8 (take 8 (drop (p + 8) (g_bytes g)))))
            else (1, None))"
    "gis_point_get_xy float8 g = Some (0, Some (x, y)) \<Longrightarrow>
       gis_point_get_x float8 g = Some (0, Some x) \<and> gis_point_get_y float8 g = Some (0, Some y)"
proof -
  have n: "nat (int p + 8) = p + 8" by simp
  show xy: "gis_point_get_xy float8 g =
      Some (if p + 16 \<le> length (g_bytes g)
            then (0, Some (float8 (take 8 (drop p (g_bytes g))), float8 (take 8 (drop (p + 8) (g_bytes g)))))
            else (1, None))"
    using assms by (auto simp: gis_point_get_xy_def no_data_def float8get_def arr_slice_def
        SIZEOF_STORED_DOUBLE_def n)
  show "gis_point_get_x float8 g = Some (0, Some x) \<and> gis_point_get_y float8 g = Some (0, Some y)"
    if "gis_point_get_xy float8 g = Some (0, Some (x, y))"
    using assms that unfolding xy
    by (auto simp: gis_point_get_x_def gis_point_get_y_def no_data_def float8get_def arr_slice_def
        SIZEOF_STORED_DOUBLE_def n split: if_splits)
qed

end
