(* ===== verification/SqlArray.thy ===== *)
theory SqlArray
  imports Prelude
begin

text \<open>
  \<open>Bounds_checked_array\<close> of \<open>sql_array.h\<close>: a pointer into elements owned by someone else, and a length. The
  elements around it are a list, the pointer a position in it or null; an access is undefined outside the list.
  The assertions on the bounds are dropped by release builds and are hypotheses of the lemmas.
\<close>

section \<open>State and operations\<close>

record Bounds_checked_array =
  m_array :: "nat option"
  m_size :: nat

definition bca_default :: Bounds_checked_array where
  "bca_default = \<lparr>m_array = None, m_size = 0\<rparr>"

definition bca_new :: "nat option \<Rightarrow> nat \<Rightarrow> Bounds_checked_array" where
  "bca_new el size_arg = \<lparr>m_array = el, m_size = size_arg\<rparr>"

definition bca_reset :: "Bounds_checked_array \<Rightarrow> Bounds_checked_array" where
  "bca_reset a = a\<lparr>m_array := None, m_size := 0\<rparr>"

definition bca_reset_to :: "nat option \<Rightarrow> nat \<Rightarrow> Bounds_checked_array \<Rightarrow> Bounds_checked_array" where
  "bca_reset_to array_arg size_arg a = a\<lparr>m_array := array_arg, m_size := size_arg\<rparr>"

definition bca_resize :: "nat \<Rightarrow> Bounds_checked_array \<Rightarrow> Bounds_checked_array" where
  "bca_resize new_size a = a\<lparr>m_size := new_size\<rparr>"

definition bca_get :: "'e list \<Rightarrow> nat \<Rightarrow> Bounds_checked_array \<Rightarrow> 'e option" where
  "bca_get els n a = Option.bind (m_array a) (\<lambda>p. arr_get els (p + n))"

definition bca_put :: "'e list \<Rightarrow> nat \<Rightarrow> 'e \<Rightarrow> Bounds_checked_array \<Rightarrow> 'e list option" where
  "bca_put els n v a = Option.bind (m_array a) (\<lambda>p. arr_set els (p + n) v)"

definition bca_size :: "Bounds_checked_array \<Rightarrow> nat" where
  "bca_size a = m_size a"

definition bca_is_null :: "Bounds_checked_array \<Rightarrow> bool" where
  "bca_is_null a \<longleftrightarrow> m_array a = None"

text \<open>The size is a \<open>size_t\<close>; popping from an empty array wraps it around.\<close>

definition bca_pop_front :: "Bounds_checked_array \<Rightarrow> Bounds_checked_array option" where
  "bca_pop_front a =
     Option.bind (m_array a) (\<lambda>p.
       Some (a\<lparr>m_array := Some (p + 1), m_size := (if m_size a = 0 then 2 ^ 64 - 1 else m_size a - 1)\<rparr>))"

definition bca_array :: "Bounds_checked_array \<Rightarrow> nat option" where
  "bca_array a = m_array a"

definition bca_begin :: "Bounds_checked_array \<Rightarrow> nat option" where
  "bca_begin a = bca_array a"

definition bca_end :: "Bounds_checked_array \<Rightarrow> nat option" where
  "bca_end a = map_option (\<lambda>p. p + m_size a) (bca_array a)"

definition bca_eq :: "Bounds_checked_array \<Rightarrow> Bounds_checked_array \<Rightarrow> bool" where
  "bca_eq rhs a \<longleftrightarrow> m_array a = m_array rhs \<and> m_size a = m_size rhs"

definition bca_neq :: "Bounds_checked_array \<Rightarrow> Bounds_checked_array \<Rightarrow> bool" where
  "bca_neq rhs a \<longleftrightarrow> m_array a \<noteq> m_array rhs \<or> m_size a \<noteq> m_size rhs"

section \<open>The elements shown\<close>

text \<open>An array that lies within the elements shows a part of them.\<close>

definition bca_shows :: "'e list \<Rightarrow> Bounds_checked_array \<Rightarrow> 'e list \<Rightarrow> bool" where
  "bca_shows els a xs \<longleftrightarrow> (\<exists>p. m_array a = Some p \<and> arr_slice els p (m_size a) = Some xs)"

lemma bca_showsD:
  assumes "bca_shows els a xs"
  shows "length xs = m_size a" "n < m_size a \<Longrightarrow> bca_get els n a = Some (xs ! n)"
  using assms by (auto simp: bca_shows_def bca_get_def c_simps)

lemma bca_shows_resize:
  assumes "bca_shows els a xs" "n \<le> m_size a"
  shows "bca_shows els (bca_resize n a) (take n xs)"
  using assms by (auto simp: bca_shows_def bca_resize_def c_simps min_absorb1)

lemma bca_shows_pop_front:
  assumes "bca_shows els a (x # xs)"
  shows "\<exists>b. bca_pop_front a = Some b \<and> bca_shows els b xs"
proof -
  obtain p where p: "m_array a = Some p" "p + m_size a \<le> length els" "x # xs = take (m_size a) (drop p els)"
    using assms by (auto simp: bca_shows_def c_simps)
  have "m_size a = Suc (length xs)" using bca_showsD(1) [OF assms] by simp
  moreover have "xs = take (length xs) (drop (Suc p) els)"
    using arg_cong [OF p(3), of tl] calculation by (simp add: tl_take drop_Suc tl_drop)
  ultimately show ?thesis using p by (auto simp: bca_pop_front_def bca_shows_def c_simps)
qed

lemma bca_shows_put:
  assumes "bca_shows els a xs" "n < m_size a"
  shows "\<exists>els'. bca_put els n v a = Some els' \<and> bca_shows els' a (xs[n := v])"
proof -
  obtain p where p: "m_array a = Some p" "p + m_size a \<le> length els" "xs = take (m_size a) (drop p els)"
    using assms by (auto simp: bca_shows_def c_simps)
  have "take (m_size a) (drop p (els[p + n := v])) = xs[n := v]"
    using p(2,3) assms(2) by (intro nth_equalityI) (auto simp: nth_list_update)
  then show ?thesis using p assms(2) by (simp add: bca_put_def bca_shows_def c_simps)
qed

end
