(* ===== verification/FilesortBuffer.thy ===== *)
theory FilesortBuffer
  imports SqlArray "HOL-Library.Monad_Syntax"
begin

text \<open>
  The buffer of \<open>filesort\<close>, of \<open>filesort_utils.h\<close>: one block of memory in which records grow from the left and
  the pointers to them from the right. Addresses are integers, zero is the null pointer; the memory is the map
  from the addresses of the pointers to what they hold. \<open>alloc_sort_buffer\<close> and \<open>sort_buffer\<close> are defined in
  \<open>filesort_utils.cc\<close>; what is relied on of the first is the layout its comment draws.
\<close>

section \<open>State and operations\<close>

type_synonym faddr = int
type_synonym ptr_mem = "faddr \<Rightarrow> faddr option"

record Filesort_buffer =
  m_next_rec_ptr :: faddr
  m_rawmem :: faddr
  m_record_pointers :: faddr
  m_sort_keys :: faddr
  m_num_records :: uint
  m_record_length :: uint
  m_sort_length :: uint
  m_size_in_bytes :: int
  m_idx :: int

definition filesort_buffer_new :: Filesort_buffer where
  "filesort_buffer_new =
     \<lparr>m_next_rec_ptr = 0, m_rawmem = 0, m_record_pointers = 0, m_sort_keys = 0, m_num_records = 0,
      m_record_length = 0, m_sort_length = 0, m_size_in_bytes = 0, m_idx = 0\<rparr>"

definition init_next_record_pointer :: "Filesort_buffer \<Rightarrow> Filesort_buffer" where
  "init_next_record_pointer b = b\<lparr>m_idx := 0, m_next_rec_ptr := m_rawmem b, m_sort_keys := 0\<rparr>"

definition space_used_for_data :: "Filesort_buffer \<Rightarrow> int" where
  "space_used_for_data b = (if m_next_rec_ptr b \<noteq> 0 then (m_next_rec_ptr b - m_rawmem b) mod 2 ^ 64 else 0)"

text \<open>Sizes are \<open>size_t\<close>: the results are taken modulo \<open>2 ^ 64\<close>.\<close>

definition spaceleft :: "Filesort_buffer \<Rightarrow> int" where
  "spaceleft b =
     (let spaceused = (m_next_rec_ptr b - m_rawmem b) + m_idx b * 8
      in (m_size_in_bytes b - spaceused) mod 2 ^ 64)"

definition isfull :: "Filesort_buffer \<Rightarrow> bool" where
  "isfull b =
     (if m_idx b < uint (m_num_records b) then False else spaceleft b < uint (m_record_length b) + 8)"

text \<open>A write of a pointer, undefined unless it lies inside the block.\<close>

definition ptr_write :: "Filesort_buffer \<Rightarrow> faddr \<Rightarrow> faddr \<Rightarrow> ptr_mem \<Rightarrow> ptr_mem option" where
  "ptr_write b a v mem =
     (if m_rawmem b \<le> a \<and> a + 8 \<le> m_rawmem b + m_size_in_bytes b then Some (mem(a \<mapsto> v)) else None)"

definition get_next_record_pointer ::
  "Filesort_buffer \<Rightarrow> ptr_mem \<Rightarrow> (faddr \<times> Filesort_buffer \<times> ptr_mem) option" where
  "get_next_record_pointer b mem = do {
     let retval = m_next_rec_ptr b;
     mem \<leftarrow> ptr_write b (m_record_pointers b + 8 * (- m_idx b)) (m_next_rec_ptr b) mem;
     let b = b\<lparr>m_idx := m_idx b + 1\<rparr>;
     let b = b\<lparr>m_next_rec_ptr := m_next_rec_ptr b + uint (m_record_length b)\<rparr>;
     Some (retval, b, mem)
   }"

definition adjust_next_record_pointer :: "uint \<Rightarrow> Filesort_buffer \<Rightarrow> Filesort_buffer" where
  "adjust_next_record_pointer val b =
     b\<lparr>m_next_rec_ptr := m_next_rec_ptr b - uint (m_record_length b - val)\<rparr>"

definition sort_buffer_size :: "Filesort_buffer \<Rightarrow> int" where
  "sort_buffer_size b = m_size_in_bytes b"

definition is_allocated :: "Filesort_buffer \<Rightarrow> bool" where
  "is_allocated b \<longleftrightarrow> m_rawmem b \<noteq> 0"

definition fb_reset :: "Filesort_buffer \<Rightarrow> Filesort_buffer" where
  "fb_reset b = b\<lparr>m_rawmem := 0\<rparr>"

definition get_sort_keys :: "Filesort_buffer \<Rightarrow> faddr" where
  "get_sort_keys b = (if m_idx b = 0 then 0 else m_record_pointers b + 8 * (1 - m_idx b))"

definition get_sorted_record :: "uint \<Rightarrow> Filesort_buffer \<Rightarrow> ptr_mem \<Rightarrow> faddr option" where
  "get_sorted_record ix b mem = mem (m_sort_keys b + 8 * uint ix)"

text \<open>The whole block as an array of bytes, for the merge buffers.\<close>

definition get_raw_buf :: "Filesort_buffer \<Rightarrow> Bounds_checked_array" where
  "get_raw_buf b = bca_new (if m_rawmem b = 0 then None else Some (nat (m_rawmem b))) (nat (m_size_in_bytes b))"

definition fb_assign :: "Filesort_buffer \<Rightarrow> Filesort_buffer \<Rightarrow> Filesort_buffer" where
  "fb_assign rhs b =
     b\<lparr>m_next_rec_ptr := m_next_rec_ptr rhs, m_rawmem := m_rawmem rhs, m_record_pointers := m_record_pointers rhs,
       m_sort_keys := m_sort_keys rhs, m_num_records := m_num_records rhs, m_record_length := m_record_length rhs,
       m_sort_length := m_sort_length rhs, m_size_in_bytes := m_size_in_bytes rhs, m_idx := m_idx rhs\<rparr>"

definition get_sort_length :: "Filesort_buffer \<Rightarrow> uint" where
  "get_sort_length b = m_sort_length b"

definition set_sort_length :: "uint \<Rightarrow> Filesort_buffer \<Rightarrow> Filesort_buffer" where
  "set_sort_length val b = b\<lparr>m_sort_length := val\<rparr>"

text \<open>The loop of \<open>reverse_record_pointers\<close> from \<open>ix\<close> on.\<close>

partial_function (option) reverse_loop :: "faddr \<Rightarrow> int \<Rightarrow> int \<Rightarrow> ptr_mem \<Rightarrow> ptr_mem option" where
  "reverse_loop keys count ix mem =
     (if ix \<le> count div 2
      then do {
        tmp \<leftarrow> mem (keys + 8 * (count - ix));
        v \<leftarrow> mem (keys + 8 * ix);
        let mem = mem(keys + 8 * (count - ix) \<mapsto> v);
        let mem = mem(keys + 8 * ix \<mapsto> tmp);
        reverse_loop keys count (ix + 1) mem
      }
      else Some mem)"

definition reverse_record_pointers :: "Filesort_buffer \<Rightarrow> ptr_mem \<Rightarrow> ptr_mem option" where
  "reverse_record_pointers b mem =
     (if m_idx b < 2 then Some mem
      else let keys = get_sort_keys b; count = m_idx b - 1 in reverse_loop keys count 0 mem)"

partial_function (option) pointers_loop :: "Filesort_buffer \<Rightarrow> ptr_mem \<Rightarrow> (Filesort_buffer \<times> ptr_mem) option" where
  "pointers_loop b mem =
     (if m_idx b < uint (m_num_records b)
      then do { (_, b, mem) \<leftarrow> get_next_record_pointer b mem; pointers_loop b mem }
      else Some (b, mem))"

definition init_record_pointers :: "Filesort_buffer \<Rightarrow> ptr_mem \<Rightarrow> (Filesort_buffer \<times> ptr_mem) option" where
  "init_record_pointers b mem = do {
     let b = init_next_record_pointer b;
     (b, mem) \<leftarrow> pointers_loop b mem;
     mem \<leftarrow> reverse_record_pointers b mem;
     Some (b, mem)
   }"

section \<open>The array of pointers\<close>

text \<open>The pointers as \<open>get_sort_keys\<close> shows them, from left to right.\<close>

definition key_view :: "ptr_mem \<Rightarrow> faddr \<Rightarrow> nat \<Rightarrow> faddr option list" where
  "key_view mem keys n = map (\<lambda>i. mem (keys + 8 * int i)) [0..<n]"

lemma length_key_view [simp]: "length (key_view mem keys n) = n"
  by (simp add: key_view_def)

lemma nth_key_view [simp]: "i < n \<Longrightarrow> key_view mem keys n ! i = mem (keys + 8 * int i)"
  by (simp add: key_view_def)

lemma key_view_update:
  "i < n \<Longrightarrow> key_view (mem(keys + 8 * int i \<mapsto> v)) keys n = (key_view mem keys n)[i := Some v]"
  by (intro nth_equalityI) (auto simp: nth_list_update)

lemma key_view_other:
  "(\<And>i. i < n \<Longrightarrow> a \<noteq> keys + 8 * int i) \<Longrightarrow> key_view (mem(a \<mapsto> v)) keys n = key_view mem keys n"
  by (rule nth_equalityI) (force simp: fun_upd_def)+

lemma key_view_Cons: "key_view mem keys (Suc n) = mem keys # key_view mem (keys + 8) n"
  by (rule nth_equalityI) (auto simp: nth_Cons algebra_simps split: nat.split)

section \<open>Reversing\<close>

text \<open>One round of the loop swaps a pair and leaves the pairs inside to the rest.\<close>

lemma reverse_loop_effect:
  assumes "\<forall>j\<le>c. mem (keys + 8 * int j) \<noteq> None" "i \<le> c div 2 + 1"
  shows "\<exists>mem'. reverse_loop keys (int c) (int i) mem = Some mem' \<and>
    (\<forall>j\<le>c. mem' (keys + 8 * int j) =
       (if i \<le> j \<and> i + j \<le> c then mem (keys + 8 * int (c - j)) else mem (keys + 8 * int j)))"
  using assms
proof (induction "c div 2 + 1 - i" arbitrary: i mem)
  case 0
  then have "i = c div 2 + 1" by simp
  then show ?case by (auto simp: reverse_loop.simps zdiv_int [symmetric])
next
  case (Suc k)
  then have i: "i \<le> c div 2" by simp
  then have ic: "i \<le> c" "int i \<le> int c div 2" by (simp_all add: zdiv_int [symmetric])
  obtain u v where u: "mem (keys + 8 * int (c - i)) = Some u" and v: "mem (keys + 8 * int i) = Some v"
    using Suc.prems(1) ic by (meson diff_le_self not_None_eq)
  obtain m where m: "m = mem(keys + 8 * int (c - i) \<mapsto> v, keys + 8 * int i \<mapsto> u)" by blast
  have mj: "m (keys + 8 * int j) = (if j = i then Some u else if j = c - i then Some v else mem (keys + 8 * int j))"
    for j by (auto simp: m)
  have "\<forall>j\<le>c. m (keys + 8 * int j) \<noteq> None" using Suc.prems(1) by (simp add: mj)
  moreover have "k = c div 2 + 1 - Suc i" "Suc i \<le> c div 2 + 1" using Suc.hyps(2) i by simp_all
  ultimately obtain mem' where mem': "reverse_loop keys (int c) (int (Suc i)) m = Some mem'"
    "\<forall>j\<le>c. mem' (keys + 8 * int j) =
       (if Suc i \<le> j \<and> Suc i + j \<le> c then m (keys + 8 * int (c - j)) else m (keys + 8 * int j))"
    using Suc.hyps(1) by blast
  have "reverse_loop keys (int c) (int i) mem = Some mem'"
    using mem'(1) ic u v by (subst reverse_loop.simps) (simp add: m of_nat_diff add.commute)
  moreover have "\<forall>j\<le>c. mem' (keys + 8 * int j) =
      (if i \<le> j \<and> i + j \<le> c then mem (keys + 8 * int (c - j)) else mem (keys + 8 * int j))"
  proof (intro allI impI)
    fix j assume j: "j \<le> c"
    show "mem' (keys + 8 * int j) =
        (if i \<le> j \<and> i + j \<le> c then mem (keys + 8 * int (c - j)) else mem (keys + 8 * int j))"
      using mem'(2) j u v ic by (auto simp: mj simp del: of_nat_diff)
  qed
  ultimately show ?case by blast
qed

lemma reverse_record_pointers_view:
  assumes "m_idx b = int n" "None \<notin> set (key_view mem (get_sort_keys b) n)"
  shows "\<exists>mem'. reverse_record_pointers b mem = Some mem' \<and>
    key_view mem' (get_sort_keys b) n = rev (key_view mem (get_sort_keys b) n)"
proof (cases "n < 2")
  case True
  then have "n = 0 \<or> n = 1" by auto
  then show ?thesis using assms(1) by (auto simp: reverse_record_pointers_def key_view_def)
next
  case False
  then obtain c where c: "n = Suc c" by (cases n) auto
  obtain keys where keys: "keys = get_sort_keys b" by blast
  have "\<forall>j\<le>c. mem (keys + 8 * int j) \<noteq> None"
  proof (intro allI impI)
    fix j assume "j \<le> c"
    then have "key_view mem keys n ! j \<in> set (key_view mem keys n)" by (intro nth_mem) (simp add: c)
    then show "mem (keys + 8 * int j) \<noteq> None" using assms(2) \<open>j \<le> c\<close> by (metis keys c nth_key_view less_Suc_eq_le)
  qed
  from reverse_loop_effect [OF this, of 0] obtain mem' where
    mem': "reverse_loop keys (int c) 0 mem = Some mem'"
    "\<forall>j\<le>c. mem' (keys + 8 * int j) = mem (keys + 8 * int (c - j))" by auto
  have "key_view mem' keys n = rev (key_view mem keys n)"
    by (rule nth_equalityI) (simp_all add: mem'(2) c rev_nth)
  then show ?thesis using mem'(1) False assms(1)
    by (simp add: reverse_record_pointers_def Let_def keys c)
qed

section \<open>Filling the buffer\<close>

text \<open>What \<open>alloc_sort_buffer\<close> leaves: whole pointers at the end of a block with room for the records asked for.\<close>

definition fb_layout :: "Filesort_buffer \<Rightarrow> bool" where
  "fb_layout b \<longleftrightarrow> 0 < m_rawmem b \<and> 0 \<le> m_size_in_bytes b \<and> m_size_in_bytes b < 2 ^ 63 \<and>
     m_record_pointers b = m_rawmem b + m_size_in_bytes b - 8 \<and>
     uint (m_num_records b) * (uint (m_record_length b) + 8) \<le> m_size_in_bytes b"

text \<open>The addresses of records of given lengths that follow each other.\<close>

fun rec_starts :: "int \<Rightarrow> int list \<Rightarrow> int list" where
  "rec_starts a [] = []"
| "rec_starts a (l # ls) = a # rec_starts (a + l) ls"

lemma rec_starts_snoc: "rec_starts a (ls @ [l]) = rec_starts a ls @ [a + sum_list ls]"
  by (induction ls arbitrary: a) (simp_all add: add.assoc)

lemma length_rec_starts [simp]: "length (rec_starts a ls) = length ls"
  by (induction ls arbitrary: a) simp_all

lemma rec_starts_replicate: "rec_starts a (replicate n l) = map (\<lambda>i. a + int i * l) [0..<n]"
proof (induction n)
  case (Suc n)
  have "replicate (Suc n) l = replicate n l @ [l]" by (simp add: replicate_append_same)
  then show ?case using Suc by (simp add: rec_starts_snoc sum_list_replicate del: replicate.simps)
qed simp

text \<open>
  The buffer holds records of the lengths \<open>lens\<close>, oldest first: they stand side by side from the left, the
  pointers to them from the right, and the two parts do not meet.
\<close>

definition fb_inv :: "Filesort_buffer \<Rightarrow> ptr_mem \<Rightarrow> int list \<Rightarrow> bool" where
  "fb_inv b mem lens \<longleftrightarrow> m_idx b = int (length lens) \<and> m_next_rec_ptr b = m_rawmem b + sum_list lens \<and>
     (\<forall>l\<in>set lens. 0 \<le> l \<and> l \<le> uint (m_record_length b)) \<and>
     key_view mem (m_record_pointers b + 8 * (1 - m_idx b)) (length lens) =
       rev (map Some (rec_starts (m_rawmem b) lens)) \<and>
     sum_list lens + 8 * m_idx b \<le> m_size_in_bytes b"

lemma fb_inv_init: "fb_layout b \<Longrightarrow> fb_inv (init_next_record_pointer b) mem []"
  by (simp add: fb_inv_def init_next_record_pointer_def fb_layout_def key_view_def)

lemma sum_list_le_mult:
  "\<forall>l\<in>set ls. 0 \<le> l \<and> l \<le> (m :: int) \<Longrightarrow> 0 \<le> sum_list ls \<and> sum_list ls \<le> int (length ls) * m"
  by (induction ls) (auto simp: algebra_simps)

text \<open>A buffer that is not full has room for a record of the full length and the pointer to it.\<close>

lemma not_full_room:
  assumes "fb_layout b" "fb_inv b mem lens" "\<not> isfull b"
  shows "sum_list lens + uint (m_record_length b) + 8 * (m_idx b + 1) \<le> m_size_in_bytes b"
proof -
  obtain r n where r: "r = uint (m_record_length b)" "0 \<le> r" and n: "n = m_idx b" by simp
  have s: "0 \<le> sum_list lens" "sum_list lens \<le> n * r"
    using assms(2) sum_list_le_mult [of lens r] by (auto simp: fb_inv_def r n)
  show ?thesis
  proof (cases "n < uint (m_num_records b)")
    case True
    then have "(n + 1) * (r + 8) \<le> uint (m_num_records b) * (r + 8)" using r(2) by (intro mult_right_mono) auto
    then have "(n + 1) * (r + 8) \<le> m_size_in_bytes b" using assms(1) by (simp add: fb_layout_def r)
    then show ?thesis using s by (simp add: algebra_simps r(1) [symmetric] n [symmetric])
  next
    case False
    have "0 \<le> n" using assms(2) by (simp add: fb_inv_def n)
    then have "0 \<le> m_size_in_bytes b - (sum_list lens + n * 8)" "m_size_in_bytes b - (sum_list lens + n * 8) < 2 ^ 64"
      using assms(1,2) s(1) by (auto simp: fb_inv_def fb_layout_def n)
    then have "spaceleft b = m_size_in_bytes b - (sum_list lens + n * 8)"
      using assms(2) by (simp add: spaceleft_def fb_inv_def n Let_def mod_pos_pos_trivial)
    moreover have "r + 8 \<le> spaceleft b" using assms(3) False by (simp add: isfull_def r n not_less)
    ultimately show ?thesis by (simp add: r(1) [symmetric] n [symmetric])
  qed
qed

lemma append_record:
  assumes "fb_layout b" "fb_inv b mem lens" "\<not> isfull b" "val \<le> m_record_length b"
  shows "\<exists>b' mem'. get_next_record_pointer b mem = Some (m_next_rec_ptr b, b', mem') \<and>
    fb_layout (adjust_next_record_pointer val b') \<and>
    fb_inv (adjust_next_record_pointer val b') mem' (lens @ [uint val]) \<and>
    m_next_rec_ptr b + uint (m_record_length b) \<le> m_record_pointers b - 8 * m_idx b \<and>
    m_rawmem b' = m_rawmem b \<and> m_record_length b' = m_record_length b"
proof -
  obtain r n where r: "r = uint (m_record_length b)" "0 \<le> r" and n: "n = m_idx b" by simp
  note room = not_full_room [OF assms(1-3), folded r(1) n]
  have nn: "n = int (length lens)" and nx: "m_next_rec_ptr b = m_rawmem b + sum_list lens"
    using assms(2) by (simp_all add: fb_inv_def n)
  have s: "0 \<le> sum_list lens" using assms(2) sum_list_le_mult [of lens r] by (auto simp: fb_inv_def r)
  have rp: "m_record_pointers b = m_rawmem b + m_size_in_bytes b - 8" using assms(1) by (simp add: fb_layout_def)
  obtain m where m: "m = mem(m_record_pointers b + 8 * (- n) \<mapsto> m_next_rec_ptr b)" by blast
  obtain b1 where b1: "b1 = b\<lparr>m_idx := n + 1, m_next_rec_ptr := m_next_rec_ptr b + r\<rparr>" by blast
  have get: "get_next_record_pointer b mem = Some (m_next_rec_ptr b, b1, m)"
  proof -
    have "0 \<le> n" using nn by simp
    then have "0 \<le> m_size_in_bytes b - 8 - 8 * n" "- 8 - 8 * n + 8 \<le> (0 :: int)"
      using room s r(2) by (simp_all add: algebra_simps)
    then show ?thesis by (simp add: get_next_record_pointer_def ptr_write_def rp m b1 r(1) n)
  qed
  have val: "uint (m_record_length b - val) = r - uint val" "0 \<le> uint val" "uint val \<le> r"
    using word_le_def [THEN iffD1, OF assms(4)] uint_minus_simple_alt [of val "m_record_length b"] assms(4)
    by (simp_all only: r(1) simp_thms unsigned_greater_eq)
  have kv: "key_view m (m_record_pointers b + 8 * (- n)) (Suc (length lens)) =
      rev (map Some (rec_starts (m_rawmem b) (lens @ [uint val])))"
  proof -
    have e: "m_record_pointers b + 8 * (- n) + 8 = m_record_pointers b + 8 * (1 - n)" by simp
    have "key_view m (m_record_pointers b + 8 * (1 - n)) (length lens) =
        key_view mem (m_record_pointers b + 8 * (1 - n)) (length lens)"
      unfolding m by (rule key_view_other) simp
    also have "\<dots> = rev (map Some (rec_starts (m_rawmem b) lens))"
      using assms(2) unfolding fb_inv_def n by blast
    finally have t: "key_view m (m_record_pointers b + 8 * (1 - n)) (length lens) =
        rev (map Some (rec_starts (m_rawmem b) lens))" .
    have "m (m_record_pointers b + 8 * (- n)) = Some (m_rawmem b + sum_list lens)" by (simp add: m nx)
    then show ?thesis unfolding key_view_Cons e t rec_starts_snoc by simp
  qed
  have "fb_inv (adjust_next_record_pointer val b1) m (lens @ [uint val])"
    using kv assms(2) val room nn by (simp add: fb_inv_def adjust_next_record_pointer_def b1 nx r)
  moreover have "fb_layout (adjust_next_record_pointer val b1)"
    using assms(1) by (simp add: fb_layout_def adjust_next_record_pointer_def b1)
  moreover have "m_next_rec_ptr b + r \<le> m_record_pointers b - 8 * n" using room by (simp add: nx rp)
  ultimately show ?thesis using get by (simp add: b1 r n)
qed

text \<open>The loop of a caller that stores records of given lengths until the buffer is full; it counts them.\<close>

fun fill_records ::
  "Filesort_buffer \<Rightarrow> ptr_mem \<Rightarrow> uint list \<Rightarrow> (Filesort_buffer \<times> ptr_mem \<times> nat) option" where
  "fill_records b mem [] = Some (b, mem, 0)"
| "fill_records b mem (v # vs) =
     (if isfull b then Some (b, mem, 0)
      else do {
        (_, b, mem) \<leftarrow> get_next_record_pointer b mem;
        (b, mem, k) \<leftarrow> fill_records (adjust_next_record_pointer v b) mem vs;
        Some (b, mem, Suc k)
      })"

lemma fill_records_inv:
  assumes "fb_layout b" "fb_inv b mem lens" "\<forall>v\<in>set vs. v \<le> m_record_length b"
  shows "\<exists>b' mem' k. fill_records b mem vs = Some (b', mem', k) \<and> k \<le> length vs \<and> fb_layout b' \<and>
    fb_inv b' mem' (lens @ map uint (take k vs)) \<and> (k < length vs \<longrightarrow> isfull b') \<and> m_rawmem b' = m_rawmem b"
  using assms
proof (induction vs arbitrary: b mem lens)
  case Nil
  then show ?case by simp
next
  case (Cons v vs)
  show ?case
  proof (cases "isfull b")
    case True
    then show ?thesis using Cons.prems by simp
  next
    case False
    obtain b1 m1 where 1: "get_next_record_pointer b mem = Some (m_next_rec_ptr b, b1, m1)"
      "fb_layout (adjust_next_record_pointer v b1)" "fb_inv (adjust_next_record_pointer v b1) m1 (lens @ [uint v])"
      "m_rawmem b1 = m_rawmem b" "m_record_length b1 = m_record_length b"
      using append_record [OF Cons.prems(1,2) False, of v] Cons.prems(3) by auto
    have "\<forall>w\<in>set vs. w \<le> m_record_length (adjust_next_record_pointer v b1)"
      using Cons.prems(3) 1(5) by (simp add: adjust_next_record_pointer_def)
    from Cons.IH [OF 1(2,3) this] obtain b2 m2 k where 2:
      "fill_records (adjust_next_record_pointer v b1) m1 vs = Some (b2, m2, k)" "k \<le> length vs" "fb_layout b2"
      "fb_inv b2 m2 ((lens @ [uint v]) @ map uint (take k vs))" "k < length vs \<longrightarrow> isfull b2"
      "m_rawmem b2 = m_rawmem (adjust_next_record_pointer v b1)" by blast
    have "fill_records b mem (v # vs) = Some (b2, m2, Suc k)" using False 1(1) 2(1) by simp
    moreover have "m_rawmem b2 = m_rawmem b" using 2(6) 1(4) by (simp add: adjust_next_record_pointer_def)
    ultimately show ?thesis using 2 by fastforce
  qed
qed

text \<open>C16. Storing records of any lengths up to the full one, as long as \<open>isfull\<close> denies, always succeeds: the
  records stand side by side from the start of the block, \<open>get_sort_keys\<close> shows a pointer to each of them,
  latest first, no record reaches into the pointers, and at least as many records fit as the buffer was made
  for. Before each of them there is room for a record of the full length below the pointer to it.\<close>

theorem filesort_buffer_fills:
  assumes "fb_layout b" "\<forall>v\<in>set vs. v \<le> m_record_length b"
  shows "\<exists>b' mem' k. fill_records (init_next_record_pointer b) mem vs = Some (b', mem', k) \<and>
    key_view mem' (get_sort_keys b') k = rev (map Some (rec_starts (m_rawmem b) (map uint (take k vs)))) \<and>
    (0 < k \<longrightarrow> m_rawmem b + sum_list (map uint (take k vs)) \<le> get_sort_keys b') \<and>
    k \<le> length vs \<and> (k < length vs \<longrightarrow> isfull b' \<and> unat (m_num_records b') \<le> k) \<and>
    (\<not> isfull b' \<longrightarrow> m_next_rec_ptr b' + uint (m_record_length b') \<le> m_record_pointers b' - 8 * m_idx b')"
proof -
  have "fb_layout (init_next_record_pointer b)" "\<forall>v\<in>set vs. v \<le> m_record_length (init_next_record_pointer b)"
    using assms by (simp_all add: fb_layout_def init_next_record_pointer_def)
  from fill_records_inv [OF this(1) fb_inv_init [OF assms(1), of mem] this(2)] obtain b' mem' k where
    f0: "fill_records (init_next_record_pointer b) mem vs = Some (b', mem', k)" "k \<le> length vs" "fb_layout b'"
      "fb_inv b' mem' (map uint (take k vs))" "k < length vs \<longrightarrow> isfull b'" "m_rawmem b' = m_rawmem (init_next_record_pointer b)"
    by auto
  have "m_rawmem (init_next_record_pointer b) = m_rawmem b" by (simp add: init_next_record_pointer_def)
  note f = f0(1-5) f0(6) [unfolded this]
  have idx: "m_idx b' = int k" using f(2,4) by (simp add: fb_inv_def)
  have view: "key_view mem' (get_sort_keys b') k = rev (map Some (rec_starts (m_rawmem b) (map uint (take k vs))))"
    using f(2,4,6) idx by (cases "k = 0") (simp_all add: fb_inv_def get_sort_keys_def key_view_def)
  have part: "m_rawmem b + sum_list (map uint (take k vs)) \<le> get_sort_keys b'" if "0 < k"
    using that f(3,4,6) idx by (simp add: get_sort_keys_def fb_inv_def fb_layout_def)
  have num: "unat (m_num_records b') \<le> k" if "isfull b'"
  proof -
    have "\<not> m_idx b' < uint (m_num_records b')" using that by (simp add: isfull_def split: if_splits)
    moreover have "uint (m_num_records b') = int (unat (m_num_records b'))" by simp
    ultimately show ?thesis using idx by linarith
  qed
  have room: "m_next_rec_ptr b' + uint (m_record_length b') \<le> m_record_pointers b' - 8 * m_idx b'" if "\<not> isfull b'"
    using append_record [OF f(3,4) that, of 0] by auto
  show ?thesis using f(1,2,5) view part num room by blast
qed

lemma adjust_full: "adjust_next_record_pointer (m_record_length b) b = b"
  by (simp add: adjust_next_record_pointer_def)

lemma not_full_below: "m_idx b < uint (m_num_records b) \<Longrightarrow> \<not> isfull b"
  by (simp add: isfull_def)

lemma pointers_loop_fills:
  assumes "fb_layout b" "fb_inv b mem (replicate i (uint (m_record_length b)))" "i \<le> unat (m_num_records b)"
  shows "\<exists>b' mem'. pointers_loop b mem = Some (b', mem') \<and> m_rawmem b' = m_rawmem b \<and>
    m_record_length b' = m_record_length b \<and>
    fb_inv b' mem' (replicate (unat (m_num_records b)) (uint (m_record_length b)))"
  using assms
proof (induction "unat (m_num_records b) - i" arbitrary: b mem i)
  case 0
  then have i: "i = unat (m_num_records b)" by simp
  have "m_idx b = uint (m_num_records b)" using 0(3) by (simp add: fb_inv_def i)
  then show ?case using 0(3) by (simp add: pointers_loop.simps i)
next
  case (Suc d)
  have idx: "m_idx b = int i" using Suc.prems(2) by (simp add: fb_inv_def)
  have lt: "m_idx b < uint (m_num_records b)"
  proof -
    have "uint (m_num_records b) = int (unat (m_num_records b))" by simp
    then show ?thesis using idx Suc.hyps(2) by linarith
  qed
  obtain b1 m1 where 1: "get_next_record_pointer b mem = Some (m_next_rec_ptr b, b1, m1)"
    "fb_layout (adjust_next_record_pointer (m_record_length b) b1)"
    "fb_inv (adjust_next_record_pointer (m_record_length b) b1) m1
       (replicate i (uint (m_record_length b)) @ [uint (m_record_length b)])"
    "m_rawmem b1 = m_rawmem b" "m_record_length b1 = m_record_length b"
    using append_record [OF Suc.prems(1,2) not_full_below [OF lt], of "m_record_length b"] by auto
  have n1: "m_num_records b1 = m_num_records b"
    using 1(1) by (auto simp: get_next_record_pointer_def Let_def split: Option.bind_splits)
  have a: "adjust_next_record_pointer (m_record_length b) b1 = b1" using adjust_full [of b1] 1(5) by simp
  have "fb_inv b1 m1 (replicate (Suc i) (uint (m_record_length b1)))"
    using 1(3,5) a by (simp add: replicate_append_same)
  moreover have "d = unat (m_num_records b1) - Suc i" "Suc i \<le> unat (m_num_records b1)" "fb_layout b1"
    using Suc.hyps(2) n1 1(2) a by simp_all
  ultimately obtain b2 m2 where "pointers_loop b1 m1 = Some (b2, m2)" "m_rawmem b2 = m_rawmem b1"
    "m_record_length b2 = m_record_length b1"
    "fb_inv b2 m2 (replicate (unat (m_num_records b1)) (uint (m_record_length b1)))"
    using Suc.hyps(1) by blast
  then show ?case using lt 1(1,4,5) n1 by (subst pointers_loop.simps) simp
qed

text \<open>C27. \<open>init_record_pointers\<close> ends, and \<open>get_sort_keys\<close> then shows as many pointers as the buffer was made for,
  to the places for records of full length in the order of the places: the loop writes them from right to left
  and the reversal puts them in order.\<close>

theorem init_record_pointers_in_order:
  assumes "fb_layout b"
  shows "\<exists>b' mem'. init_record_pointers b mem = Some (b', mem') \<and> m_idx b' = uint (m_num_records b) \<and>
    key_view mem' (get_sort_keys b') (unat (m_num_records b)) =
      map (\<lambda>i. Some (m_rawmem b + int i * uint (m_record_length b))) [0..<unat (m_num_records b)]"
proof -
  obtain n l where n: "n = unat (m_num_records b)" and l: "l = uint (m_record_length b)" by blast
  obtain b0 where b0: "b0 = init_next_record_pointer b" by blast
  have e: "m_num_records b0 = m_num_records b" "m_record_length b0 = m_record_length b" "m_rawmem b0 = m_rawmem b"
    by (simp_all add: b0 init_next_record_pointer_def)
  have "fb_layout b0" "fb_inv b0 mem (replicate 0 (uint (m_record_length b0)))"
    using assms fb_inv_init [OF assms] by (simp_all add: b0 fb_layout_def init_next_record_pointer_def)
  from pointers_loop_fills [OF this] obtain b1 m1 where 1: "pointers_loop b0 mem = Some (b1, m1)"
    "m_rawmem b1 = m_rawmem b" "fb_inv b1 m1 (replicate n l)" by (auto simp: e n l)
  have idx: "m_idx b1 = int n" using 1(3) by (simp add: fb_inv_def)
  have v: "key_view m1 (get_sort_keys b1) n = rev (map (\<lambda>i. Some (m_rawmem b + int i * l)) [0..<n])"
    using 1(2,3) idx
    by (cases "n = 0") (simp_all add: fb_inv_def get_sort_keys_def key_view_def rec_starts_replicate o_def)
  then have "None \<notin> set (key_view m1 (get_sort_keys b1) n)" by auto
  from reverse_record_pointers_view [OF idx this] obtain m2 where
    "reverse_record_pointers b1 m1 = Some m2" "key_view m2 (get_sort_keys b1) n = rev (key_view m1 (get_sort_keys b1) n)"
    by blast
  then show ?thesis using 1(1) idx v
    by (simp add: init_record_pointers_def b0 [symmetric] n l)
qed

definition sample_filesort_buffer :: Filesort_buffer where
  "sample_filesort_buffer =
     \<lparr>m_next_rec_ptr = 1000, m_rawmem = 1000, m_record_pointers = 1000 + 56 - 8, m_sort_keys = 0, m_num_records = 3,
      m_record_length = 10, m_sort_length = 4, m_size_in_bytes = 56, m_idx = 0\<rparr>"

lemma fb_layout_sample: "fb_layout sample_filesort_buffer"
  by (simp add: fb_layout_def sample_filesort_buffer_def)

lemma filesort_buffer_fills_witness:
  "\<exists>b' mem' k. fill_records (init_next_record_pointer sample_filesort_buffer) (\<lambda>_. None) [4, 10, 0] = Some (b', mem', k) \<and>
     (k < 3 \<longrightarrow> isfull b' \<and> unat (m_num_records b') \<le> k)"
  using filesort_buffer_fills [OF fb_layout_sample, of "[4, 10, 0]" "\<lambda>_. None"]
  by (force simp: sample_filesort_buffer_def)

lemma init_record_pointers_in_order_witness:
  "\<exists>b' mem'. init_record_pointers sample_filesort_buffer (\<lambda>_. None) = Some (b', mem') \<and>
     key_view mem' (get_sort_keys b') 3 = [Some 1000, Some 1010, Some 1020]"
  using init_record_pointers_in_order [OF fb_layout_sample, of "\<lambda>_. None"]
  by (force simp: sample_filesort_buffer_def upt_rec)

end
