(* ===== verification/SortRecord.thy ===== *)
theory SortRecord
  imports SqlArray ByteOrder "HOL-Library.Monad_Syntax"
begin

text \<open>
  The records of \<open>filesort\<close>, of \<open>sql_sort.h\<close>: the descriptors of merge chunks, the length fields of packed
  sort keys and packed addon fields, and the lengths \<open>Sort_param\<close> computes for a record in any of its formats.
  Numbers in a record are read and written by the macros of \<open>ByteOrder\<close>.
\<close>

section \<open>Merge chunks\<close>

text \<open>Addresses are integers; positions in the file and numbers of rows have 64 bits.\<close>

record Merge_chunk =
  m_current_key :: int
  m_file_position :: ulonglong
  m_buffer_start :: int
  m_buffer_end :: int
  m_rowcount :: ulonglong
  m_mem_count :: ulonglong
  m_max_keys :: ulonglong

definition merge_chunk_new :: Merge_chunk where
  "merge_chunk_new = \<lparr>m_current_key = 0, m_file_position = 0, m_buffer_start = 0, m_buffer_end = 0, m_rowcount = 0,
     m_mem_count = 0, m_max_keys = 0\<rparr>"

definition set_file_position :: "ulonglong \<Rightarrow> Merge_chunk \<Rightarrow> Merge_chunk" where
  "set_file_position val c = c\<lparr>m_file_position := val\<rparr>"

definition advance_file_position :: "ulonglong \<Rightarrow> Merge_chunk \<Rightarrow> Merge_chunk" where
  "advance_file_position val c = c\<lparr>m_file_position := m_file_position c + val\<rparr>"

definition set_buffer :: "int \<Rightarrow> int \<Rightarrow> Merge_chunk \<Rightarrow> Merge_chunk" where
  "set_buffer s e c = c\<lparr>m_buffer_start := s, m_buffer_end := e\<rparr>"

definition set_buffer_start :: "int \<Rightarrow> Merge_chunk \<Rightarrow> Merge_chunk" where
  "set_buffer_start s c = c\<lparr>m_buffer_start := s\<rparr>"

definition set_buffer_end :: "int \<Rightarrow> Merge_chunk \<Rightarrow> Merge_chunk" where
  "set_buffer_end e c = c\<lparr>m_buffer_end := e\<rparr>"

definition init_current_key :: "Merge_chunk \<Rightarrow> Merge_chunk" where
  "init_current_key c = c\<lparr>m_current_key := m_buffer_start c\<rparr>"

definition advance_current_key :: "uint \<Rightarrow> Merge_chunk \<Rightarrow> Merge_chunk" where
  "advance_current_key val c = c\<lparr>m_current_key := m_current_key c + uint val\<rparr>"

definition decrement_rowcount :: "ulonglong \<Rightarrow> Merge_chunk \<Rightarrow> Merge_chunk" where
  "decrement_rowcount val c = c\<lparr>m_rowcount := m_rowcount c - val\<rparr>"

definition set_rowcount :: "ulonglong \<Rightarrow> Merge_chunk \<Rightarrow> Merge_chunk" where
  "set_rowcount val c = c\<lparr>m_rowcount := val\<rparr>"

definition set_mem_count :: "ulonglong \<Rightarrow> Merge_chunk \<Rightarrow> Merge_chunk" where
  "set_mem_count val c = c\<lparr>m_mem_count := val\<rparr>"

definition decrement_mem_count :: "Merge_chunk \<Rightarrow> ulonglong \<times> Merge_chunk" where
  "decrement_mem_count c = (let c = c\<lparr>m_mem_count := m_mem_count c - 1\<rparr> in (m_mem_count c, c))"

definition set_max_keys :: "ulonglong \<Rightarrow> Merge_chunk \<Rightarrow> Merge_chunk" where
  "set_max_keys val c = c\<lparr>m_max_keys := val\<rparr>"

definition buffer_size :: "Merge_chunk \<Rightarrow> int" where
  "buffer_size c = (m_buffer_end c - m_buffer_start c) mod 2 ^ 64"

text \<open>The result and the chunk \<open>mc\<close>; the object itself, \<open>c\<close>, does not change.\<close>

definition merge_freed_buff :: "Merge_chunk \<Rightarrow> Merge_chunk \<Rightarrow> bool \<times> Merge_chunk" where
  "merge_freed_buff mc c =
     (if m_buffer_end mc = m_buffer_start c
      then (True, mc\<lparr>m_buffer_end := m_buffer_end c, m_max_keys := m_max_keys mc + m_max_keys c\<rparr>)
      else if m_buffer_start mc = m_buffer_end c
      then (True, mc\<lparr>m_buffer_start := m_buffer_start c, m_max_keys := m_max_keys mc + m_max_keys c\<rparr>)
      else (False, mc))"

section \<open>Addon fields and sort keys\<close>

definition addon_size_of_length_field :: uint where "addon_size_of_length_field = 2"
definition sortkey_size_of_length_field :: uint where "sortkey_size_of_length_field = 4"

record Addon_fields =
  m_field_descriptors :: Bounds_checked_array
  m_addon_buf :: nat
  m_addon_buf_length :: uint
  af_using_packed_addons :: bool

definition addon_fields_new :: "Bounds_checked_array \<Rightarrow> Addon_fields" where
  "addon_fields_new arr =
     \<lparr>m_field_descriptors = arr, m_addon_buf = 0, m_addon_buf_length = 0, af_using_packed_addons = False\<rparr>"

text \<open>\<open>my_malloc\<close> is an argument, a function from the size to an address or null.\<close>

definition allocate_addon_buf :: "(uint \<Rightarrow> nat) \<Rightarrow> uint \<Rightarrow> Addon_fields \<Rightarrow> nat \<times> Addon_fields" where
  "allocate_addon_buf my_malloc sz a =
     (let a = a\<lparr>m_addon_buf := my_malloc sz\<rparr>;
          a = (if m_addon_buf a \<noteq> 0 then a\<lparr>m_addon_buf_length := sz\<rparr> else a)
      in (m_addon_buf a, a))"

text \<open>The freed address and the object.\<close>

definition free_addon_buff :: "Addon_fields \<Rightarrow> nat \<times> Addon_fields" where
  "free_addon_buff a = (m_addon_buf a, a\<lparr>m_addon_buf := 0, m_addon_buf_length := 0\<rparr>)"

definition set_using_packed_addons :: "bool \<Rightarrow> Addon_fields \<Rightarrow> Addon_fields" where
  "set_using_packed_addons val a = a\<lparr>af_using_packed_addons := val\<rparr>"

definition can_pack_addon_fields :: "uint \<Rightarrow> bool" where
  "can_pack_addon_fields record_length \<longleftrightarrow> record_length \<le> 0xFFFF"

definition read_addon_length :: "bytes \<Rightarrow> nat \<Rightarrow> uint option" where
  "read_addon_length buf p = map_option (\<lambda>n. addon_size_of_length_field + ucast n) (x64_uint2korr buf p)"

definition store_addon_length :: "bytes \<Rightarrow> nat \<Rightarrow> uint \<Rightarrow> bytes option" where
  "store_addon_length buf p sz = x64_int2store buf p (ucast (sz - addon_size_of_length_field))"

record Sort_keys =
  sk_array :: Bounds_checked_array
  sk_using_packed_sortkeys :: bool
  size_of_packable_fields :: uint
  sk_sort_length :: uint

definition sort_keys_new :: "nat option \<Rightarrow> nat \<Rightarrow> Sort_keys" where
  "sort_keys_new arr count =
     \<lparr>sk_array = bca_new arr count, sk_using_packed_sortkeys = False, size_of_packable_fields = 0, sk_sort_length = 0\<rparr>"

definition set_using_packed_sortkeys :: "bool \<Rightarrow> Sort_keys \<Rightarrow> Sort_keys" where
  "set_using_packed_sortkeys val k = k\<lparr>sk_using_packed_sortkeys := val\<rparr>"

definition set_size_of_packable_fields :: "uint \<Rightarrow> Sort_keys \<Rightarrow> Sort_keys" where
  "set_size_of_packable_fields len k = k\<lparr>size_of_packable_fields := len\<rparr>"

definition sk_set_sort_length :: "uint \<Rightarrow> Sort_keys \<Rightarrow> Sort_keys" where
  "sk_set_sort_length len k = k\<lparr>sk_sort_length := len\<rparr>"

definition store_sortkey_length :: "bytes \<Rightarrow> nat \<Rightarrow> uint \<Rightarrow> bytes option" where
  "store_sortkey_length buf p sz = x64_int4store buf p (ucast (sz - sortkey_size_of_length_field))"

definition read_sortkey_length :: "bytes \<Rightarrow> nat \<Rightarrow> uint option" where
  "read_sortkey_length buf p = map_option (\<lambda>n. sortkey_size_of_length_field + n) (x64_uint4korr buf p)"

definition increment_size_of_packable_fields :: "uint \<Rightarrow> Sort_keys \<Rightarrow> Sort_keys" where
  "increment_size_of_packable_fields len k = k\<lparr>size_of_packable_fields := size_of_packable_fields k + len\<rparr>"

definition increment_original_sort_length :: "uint \<Rightarrow> Sort_keys \<Rightarrow> Sort_keys" where
  "increment_original_sort_length len k = k\<lparr>sk_sort_length := sk_sort_length k + len\<rparr>"

section \<open>\<open>Sort_param\<close>\<close>

text \<open>The members that the lengths depend on; a missing object is a null pointer.\<close>

record Sort_param =
  rec_length :: uint
  sp_sort_length :: uint
  ref_length :: uint
  addon_length :: uint
  res_length :: uint
  sp_addon_fields :: "Addon_fields option"
  sp_sort_keys :: "Sort_keys option"
  m_using_packed_addons :: bool
  m_using_packed_sortkeys :: bool
  m_packed_format :: bool

definition sort_param_new :: Sort_param where
  "sort_param_new =
     \<lparr>rec_length = 0, sp_sort_length = 0, ref_length = 0, addon_length = 0, res_length = 0, sp_addon_fields = None,
      sp_sort_keys = None, m_using_packed_addons = False, m_using_packed_sortkeys = False, m_packed_format = False\<rparr>"

definition using_addon_fields :: "Sort_param \<Rightarrow> bool" where
  "using_addon_fields s \<longleftrightarrow> sp_addon_fields s \<noteq> None"

text \<open>
  The cached flags, asserted to be the flags of the objects they were taken from: \<open>None\<close> where the assertion fails.
\<close>

definition using_packed_addons :: "Sort_param \<Rightarrow> bool option" where
  "using_packed_addons s =
     (if m_using_packed_addons s = (\<exists>a. sp_addon_fields s = Some a \<and> af_using_packed_addons a)
      then Some (m_using_packed_addons s) else None)"

definition using_packed_sortkeys :: "Sort_param \<Rightarrow> bool option" where
  "using_packed_sortkeys s =
     (if m_using_packed_sortkeys s = (\<exists>k. sp_sort_keys s = Some k \<and> sk_using_packed_sortkeys k)
      then Some (m_using_packed_sortkeys s) else None)"

definition get_result_length :: "Sort_param \<Rightarrow> bytes \<Rightarrow> nat \<Rightarrow> uint32 option" where
  "get_result_length s buf plen =
     (if \<not> m_using_packed_addons s then Some (res_length s) else read_addon_length buf plen)"

definition get_addon_length :: "Sort_param \<Rightarrow> bytes \<Rightarrow> nat \<Rightarrow> uint32 option" where
  "get_addon_length s buf plen =
     do {
       packed \<leftarrow> using_packed_addons s;
       if packed then read_addon_length buf plen else Some (addon_length s)
     }"

definition sp_get_sort_length :: "Sort_param \<Rightarrow> bytes \<Rightarrow> nat \<Rightarrow> uint32 option" where
  "sp_get_sort_length s buf plen =
     do {
       packed \<leftarrow> using_packed_sortkeys s;
       if packed
       then map_option (\<lambda>n. n + (if using_addon_fields s then 0 else res_length s)) (read_sortkey_length buf plen)
       else Some (sp_sort_length s)
     }"

definition get_record_length :: "Sort_param \<Rightarrow> bytes \<Rightarrow> nat \<Rightarrow> uint option" where
  "get_record_length s buf plen =
     (if m_packed_format s
      then do {
        sort_len \<leftarrow> sp_get_sort_length s buf plen;
        addon_len \<leftarrow> get_addon_length s buf (plen + unat sort_len);
        Some (sort_len + addon_len)
      }
      else Some (rec_length s))"

text \<open>The two results, the length of the record and the length of the result.\<close>

definition get_rec_and_res_len :: "Sort_param \<Rightarrow> bytes \<Rightarrow> nat \<Rightarrow> (uint \<times> uint) option" where
  "get_rec_and_res_len s buf record_start =
     (if m_packed_format s
      then do {
        sort_len \<leftarrow> sp_get_sort_length s buf record_start;
        addon_len \<leftarrow> get_addon_length s buf (record_start + unat sort_len);
        Some (sort_len + addon_len, if using_addon_fields s then addon_len else res_length s)
      }
      else Some (rec_length s, res_length s))"


section \<open>Properties\<close>

lemma store_sortkey_length_read:
  assumes "store_sortkey_length buf p sz = Some buf'"
  shows "read_sortkey_length buf' p = Some sz"
proof -
  have small: "unat (ucast (sz - sortkey_size_of_length_field) :: ulonglong) < 2 ^ (8 * 4)"
    using unsigned_less [of "sz - sortkey_size_of_length_field", where 'a = nat]
    by (simp add: unsigned_ucast_eq take_bit_nat_eq_self)
  have "x64_uint4korr buf' p = Some (ucast (ucast (sz - sortkey_size_of_length_field) :: ulonglong))"
    using x64_4.store_small [OF _ small] assms by (simp add: store_sortkey_length_def)
  moreover have "(ucast (ucast n :: ulonglong) :: uint) = n" for n :: uint
    using unsigned_less [of n, where 'a = nat]
    by (intro unsigned_word_eqI [where 'a = nat]) (simp add: unat_ucast_small)
  ultimately show ?thesis by (simp add: read_sortkey_length_def)
qed

lemma store_addon_length_read:
  assumes "store_addon_length buf p sz = Some buf'" "2 \<le> sz" "sz \<le> 0xFFFF + 2"
  shows "read_addon_length buf' p = Some sz"
proof -
  let ?n = "sz - addon_size_of_length_field"
  have le: "?n \<le> 0xFFFF"
    using assms(2,3) by (simp add: addon_size_of_length_field_def word_le_nat_alt unat_sub) 
  then have lt: "unat ?n < 2 ^ (8 * 2)"
    by (simp add: word_le_nat_alt)
  then have small: "unat (ucast ?n :: ulonglong) < 2 ^ (8 * 2)"
    by (simp add: unsigned_ucast_eq take_bit_nat_eq_self)
  have "x64_uint2korr buf' p = Some (ucast (ucast ?n :: ulonglong))"
    using x64_2.store_small [OF _ small] assms(1) by (simp add: store_addon_length_def)
  moreover have "(ucast (ucast (ucast ?n :: ulonglong) :: uint16) :: uint) = ?n"
    using lt by (intro unsigned_word_eqI [where 'a = nat]) (simp add: unat_ucast_small)
  ultimately show ?thesis by (simp add: read_addon_length_def)
qed

lemma store_addon_length_other:
  assumes "store_addon_length buf q sz = Some buf'" "p + 4 \<le> q"
  shows "read_sortkey_length buf' p = read_sortkey_length buf p"
proof -
  have "arr_slice buf' p 4 = arr_slice buf p 4"
    using x64_2.store_frame assms unfolding store_addon_length_def by blast
  then have "x64_uint4korr buf' p = x64_uint4korr buf p"
    by (rule x64_4.korr_local)
  then show ?thesis by (simp add: read_sortkey_length_def)
qed

lemma packed_addonsD:
  assumes "using_packed_addons s = Some True"
  shows "m_using_packed_addons s" "using_addon_fields s"
  using assms by (auto simp: using_packed_addons_def using_addon_fields_def split: if_splits)

text \<open>
  C22. A record with packed sort keys and packed addon fields is delimited by what was stored in it: after
  \<open>Sort_keys::store_sortkey_length\<close> at its start and \<open>Addon_fields::store_addon_length\<close> behind the key,
  \<open>Sort_param::get_rec_and_res_len\<close> reads the length of the record and the length of its result part back, and
  \<open>get_record_length\<close>, \<open>get_sort_length\<close> and \<open>get_result_length\<close> agree with it, for every key that has room for
  its length field and every addon part of at most 65535 bytes behind its length field.
\<close>

theorem packed_record_lengths:
  assumes "m_packed_format s" "using_packed_sortkeys s = Some True" "using_packed_addons s = Some True"
    and key: "store_sortkey_length buf p key_len = Some b1" "4 \<le> key_len"
    and addon: "store_addon_length b1 (p + unat key_len) addon_len = Some b2" "2 \<le> addon_len" "addon_len \<le> 0xFFFF + 2"
  shows "get_rec_and_res_len s b2 p = Some (key_len + addon_len, addon_len) \<and>
         get_record_length s b2 p = Some (key_len + addon_len) \<and>
         sp_get_sort_length s b2 p = Some key_len \<and>
         get_result_length s b2 (p + unat key_len) = Some addon_len"
proof -
  have "p + 4 \<le> p + unat key_len" using key(2) by (simp add: word_le_nat_alt)
  then have "read_sortkey_length b2 p = Some key_len"
    using store_addon_length_other [OF addon(1)] store_sortkey_length_read [OF key(1)] by simp
  moreover have "read_addon_length b2 (p + unat key_len) = Some addon_len"
    using store_addon_length_read [OF addon] .
  ultimately show ?thesis
    using assms(1-3) packed_addonsD [OF assms(3)]
    by (simp add: get_rec_and_res_len_def get_record_length_def sp_get_sort_length_def get_addon_length_def
        get_result_length_def)
qed

definition packed_param :: Sort_param where
  "packed_param = sort_param_new
     \<lparr>sp_addon_fields := Some (set_using_packed_addons True (addon_fields_new (bca_new (Some 0) 1))),
      sp_sort_keys := Some (set_using_packed_sortkeys True (sort_keys_new (Some 0) 2)),
      m_using_packed_addons := True, m_using_packed_sortkeys := True, m_packed_format := True\<rparr>"

theorem packed_record_lengths_witness:
  "\<exists>b1 b2. store_sortkey_length (replicate 20 0) 3 6 = Some b1 \<and> store_addon_length b1 9 5 = Some b2 \<and>
     get_rec_and_res_len packed_param b2 3 = Some (11, 5)"
proof -
  have s: "m_packed_format packed_param" "using_packed_sortkeys packed_param = Some True"
    "using_packed_addons packed_param = Some True"
    by (simp_all add: packed_param_def using_packed_sortkeys_def using_packed_addons_def set_using_packed_addons_def
        set_using_packed_sortkeys_def)
  have "store_sortkey_length (replicate 20 0) 3 6 \<noteq> None"
    using x64_4.store_defined by (simp add: store_sortkey_length_def)
  then obtain b1 where b1: "store_sortkey_length (replicate 20 0) 3 6 = Some b1" by blast
  have "length b1 = 20"
    using x64_4.store_length b1 by (fastforce simp: store_sortkey_length_def)
  then have "store_addon_length b1 (3 + unat (6 :: uint)) 5 \<noteq> None"
    using x64_2.store_defined by (simp add: store_addon_length_def)
  then obtain b2 where b2: "store_addon_length b1 (3 + unat (6 :: uint)) 5 = Some b2" by blast
  show ?thesis
    using packed_record_lengths [OF s b1 _ b2] b1 b2 by simp
qed

text \<open>
  With packed keys and no addon fields the rowid behind the key belongs to the sort length, and is the result.
\<close>

lemma packed_key_rowid_lengths:
  assumes "m_packed_format s" "using_packed_sortkeys s = Some True" "using_packed_addons s = Some False" "\<not> using_addon_fields s"
    and "store_sortkey_length buf p key_len = Some b1"
  shows "get_rec_and_res_len s b1 p = Some (key_len + res_length s + addon_length s, res_length s)"
  using assms store_sortkey_length_read [OF assms(5)]
  by (simp add: get_rec_and_res_len_def sp_get_sort_length_def get_addon_length_def)

text \<open>In a format that is not packed nothing is read: the lengths are the ones computed for all records.\<close>

lemma fixed_record_lengths:
  assumes "\<not> m_packed_format s"
  shows "get_rec_and_res_len s buf p = Some (rec_length s, res_length s) \<and> get_record_length s buf p = Some (rec_length s)"
  using assms by (simp add: get_rec_and_res_len_def get_record_length_def)

text \<open>The memory area of a chunk.\<close>

definition chunk_area :: "Merge_chunk \<Rightarrow> int set" where
  "chunk_area c = {m_buffer_start c ..< m_buffer_end c}"

text \<open>
  \<open>Merge_chunk::merge_freed_buff\<close> hands the area of a chunk that is no longer in use over to an adjacent
  chunk and to no other: it succeeds exactly when the two areas touch, then the other chunk owns exactly the
  bytes of both, its buffer size is the sum of the two sizes and its key capacity the sum of the two capacities;
  otherwise the other chunk is untouched. Its position in the file, its rows and its current key are kept in
  either case.
\<close>

theorem merge_freed_buff_joins:
  assumes "m_buffer_start c < m_buffer_end c" "m_buffer_start mc < m_buffer_end mc"
    and "m_buffer_end c - m_buffer_start c + (m_buffer_end mc - m_buffer_start mc) < 2 ^ 64"
  shows "\<exists>ok mc'. merge_freed_buff mc c = (ok, mc') \<and>
           (ok \<longleftrightarrow> m_buffer_end mc = m_buffer_start c \<or> m_buffer_start mc = m_buffer_end c) \<and>
           chunk_area mc' = (if ok then chunk_area mc \<union> chunk_area c else chunk_area mc) \<and>
           buffer_size mc' = buffer_size mc + (if ok then buffer_size c else 0) \<and>
           m_max_keys mc' = m_max_keys mc + (if ok then m_max_keys c else 0) \<and>
           m_current_key mc' = m_current_key mc \<and> m_file_position mc' = m_file_position mc \<and>
           m_rowcount mc' = m_rowcount mc \<and> m_mem_count mc' = m_mem_count mc"
  using assms by (auto simp: merge_freed_buff_def chunk_area_def buffer_size_def)

theorem merge_freed_buff_joins_witness:
  "let mc = merge_chunk_new\<lparr>m_buffer_start := 100, m_buffer_end := 140, m_max_keys := 4\<rparr>;
       c = merge_chunk_new\<lparr>m_buffer_start := 140, m_buffer_end := 160, m_max_keys := 2\<rparr>
   in merge_freed_buff mc c = (True, mc\<lparr>m_buffer_end := 160, m_max_keys := 6\<rparr>)"
  using merge_freed_buff_joins
    [of "merge_chunk_new\<lparr>m_buffer_start := 140, m_buffer_end := 160, m_max_keys := 2\<rparr>"
        "merge_chunk_new\<lparr>m_buffer_start := 100, m_buffer_end := 140, m_max_keys := 4\<rparr>"]
  by (simp add: merge_freed_buff_def merge_chunk_new_def)

end
