(* ===== verification/BoundedQueue.thy ===== *)
theory BoundedQueue
  imports Prelude "HOL-Library.Multiset" "HOL-Library.Monad_Syntax"
begin

text \<open>
  The priority queue of fixed size that \<open>ORDER BY ... LIMIT\<close> uses, of \<open>bounded_queue.h\<close>, on the interface of binary
  heaps of \<open>queues.h\<close>. The functions of the heap are only declared there and are a parameter.
\<close>

section \<open>\<open>QUEUE\<close>\<close>

text \<open>
  The elements of a queue are pointers; here they are the numbers of the slots \<open>m_sort_keys[i]\<close>. The comparison
  reads the keys behind them, so it belongs to the functions that get the keys.
\<close>

record QUEUE =
  q_root :: "nat list"
  q_elements :: uint
  q_max_elements :: uint
  q_offset_to_key :: uint
  q_offset_to_queue_pos :: uint
  q_auto_extent :: uint
  q_max_at_top :: int

definition queue_first_element :: "QUEUE \<Rightarrow> uint" where
  "queue_first_element q = 1"

definition queue_last_element :: "QUEUE \<Rightarrow> uint" where
  "queue_last_element q = q_elements q"

definition queue_empty :: "QUEUE \<Rightarrow> bool" where
  "queue_empty q \<longleftrightarrow> q_elements q = 0"

definition queue_element :: "QUEUE \<Rightarrow> nat \<Rightarrow> nat option" where
  "queue_element q i = arr_get (q_root q) i"

definition queue_top :: "QUEUE \<Rightarrow> nat option" where
  "queue_top q = queue_element q 1"

definition queue_end :: "QUEUE \<Rightarrow> nat option" where
  "queue_end q = queue_element q (unat (q_elements q))"

definition queue_set_max_at_top :: "bool \<Rightarrow> QUEUE \<Rightarrow> QUEUE" where
  "queue_set_max_at_top set_arg q = q\<lparr>q_max_at_top := (if set_arg then -1 else 1)\<rparr>"

definition queue_remove_all :: "QUEUE \<Rightarrow> QUEUE" where
  "queue_remove_all q = q\<lparr>q_elements := 0\<rparr>"

definition queue_is_full :: "QUEUE \<Rightarrow> bool" where
  "queue_is_full q \<longleftrightarrow> q_elements q = q_max_elements q"

text \<open>The declared functions; each gets the keys. \<open>init_queue\<close> returns its status and the queue.\<close>

record 'k queue_lib =
  ql_init_queue :: "uint \<Rightarrow> uint \<Rightarrow> bool \<Rightarrow> uint \<Rightarrow> uint \<Rightarrow> int \<times> QUEUE"
  ql_downheap :: "(nat \<Rightarrow> 'k) \<Rightarrow> QUEUE \<Rightarrow> uint \<Rightarrow> nat \<Rightarrow> QUEUE"
  ql_insert :: "(nat \<Rightarrow> 'k) \<Rightarrow> QUEUE \<Rightarrow> nat \<Rightarrow> QUEUE"
  ql_remove :: "(nat \<Rightarrow> 'k) \<Rightarrow> QUEUE \<Rightarrow> uint \<Rightarrow> nat \<times> QUEUE"

definition queue_replace_top :: "'k queue_lib \<Rightarrow> (nat \<Rightarrow> 'k) \<Rightarrow> QUEUE \<Rightarrow> QUEUE option" where
  "queue_replace_top lib keys q = map_option (ql_downheap lib keys q 1) (queue_element q 1)"

definition queue_remove_top :: "'k queue_lib \<Rightarrow> (nat \<Rightarrow> 'k) \<Rightarrow> QUEUE \<Rightarrow> nat \<times> QUEUE" where
  "queue_remove_top lib keys q = ql_remove lib keys q (queue_first_element q)"

section \<open>\<open>Bounded_queue\<close>\<close>

text \<open>
  \<open>m_sort_keys\<close> points to slots with keys; \<open>bq_keys\<close> is what the slots hold. The keymaker gives the key of an
  element.
\<close>

record ('e, 'k) Bounded_queue =
  bq_keys :: "nat \<Rightarrow> 'k"
  m_compare_length :: "64 word"
  m_keymaker :: "'e \<Rightarrow> 'k"
  m_queue :: QUEUE

definition num_elements :: "('e, 'k) Bounded_queue \<Rightarrow> uint" where
  "num_elements b = q_elements (m_queue b)"

definition is_initialized :: "('e, 'k) Bounded_queue \<Rightarrow> bool" where
  "is_initialized b \<longleftrightarrow> q_max_elements (m_queue b) > 0"

text \<open>\<open>ha_rows\<close> has 64 bits; \<open>UINT_MAX\<close> is \<open>2 ^ 32 - 1\<close>. The status is that of \<open>init_queue\<close>, or 1.\<close>

definition bq_init ::
  "'k queue_lib \<Rightarrow> ulonglong \<Rightarrow> bool \<Rightarrow> 64 word \<Rightarrow> ('e \<Rightarrow> 'k) \<Rightarrow> (nat \<Rightarrow> 'k) \<Rightarrow> ('e, 'k) Bounded_queue \<Rightarrow>
   int \<times> ('e, 'k) Bounded_queue" where
  "bq_init lib max_elements max_at_top compare_length keymaker sort_keys b =
     (let b = b\<lparr>bq_keys := sort_keys, m_compare_length := compare_length, m_keymaker := keymaker\<rparr>
      in if max_elements \<ge> 0xFFFFFFFE then (1, b)
         else (let (r, q) = ql_init_queue lib (ucast max_elements + 1) 0 max_at_top 0 0
               in (r, b\<lparr>m_queue := q\<rparr>)))"

text \<open>
  \<open>pop\<close> returns the slot, or \<open>None\<close> for the null pointer.
\<close>

definition bq_pop :: "'k queue_lib \<Rightarrow> ('e, 'k) Bounded_queue \<Rightarrow> nat option \<times> ('e, 'k) Bounded_queue" where
  "bq_pop lib b =
     (let b = (if queue_is_full (m_queue b) then b\<lparr>m_queue := snd (ql_remove lib (bq_keys b) (m_queue b) 0)\<rparr> else b)
      in if q_elements (m_queue b) = 0 then (None, b)
         else (let (x, q) = ql_remove lib (bq_keys b) (m_queue b) 0 in (Some x, b\<lparr>m_queue := q\<rparr>)))"

definition bq_push :: "'k queue_lib \<Rightarrow> 'e \<Rightarrow> ('e, 'k) Bounded_queue \<Rightarrow> ('e, 'k) Bounded_queue option" where
  "bq_push lib element b =
     (if queue_is_full (m_queue b)
      then do {
        pq_top \<leftarrow> queue_top (m_queue b);
        let keys = (bq_keys b)(pq_top := m_keymaker b element);
        q \<leftarrow> queue_replace_top lib keys (m_queue b);
        Some (b\<lparr>bq_keys := keys, m_queue := q\<rparr>)
      }
      else (let slot = unat (q_elements (m_queue b));
                keys = (bq_keys b)(slot := m_keymaker b element)
            in Some (b\<lparr>bq_keys := keys, m_queue := ql_insert lib keys (m_queue b) slot\<rparr>)))"

fun bq_push_all :: "'k queue_lib \<Rightarrow> 'e list \<Rightarrow> ('e, 'k) Bounded_queue \<Rightarrow> ('e, 'k) Bounded_queue option" where
  "bq_push_all lib [] b = Some b"
| "bq_push_all lib (e # es) b = do { b \<leftarrow> bq_push lib e b; bq_push_all lib es b }"

section \<open>What a heap is\<close>

text \<open>The elements stand in \<open>root[1]\<close> to \<open>root[elements]\<close>, each not before its parent at half its index.\<close>

definition queue_elems :: "QUEUE \<Rightarrow> nat list" where
  "queue_elems q = take (unat (q_elements q)) (drop 1 (q_root q))"

definition before :: "QUEUE \<Rightarrow> 'k::linorder \<Rightarrow> 'k \<Rightarrow> bool" where
  "before q a b \<longleftrightarrow> (if q_max_at_top q = -1 then b \<le> a else a \<le> b)"

definition queue_room :: "QUEUE \<Rightarrow> bool" where
  "queue_room q \<longleftrightarrow> length (q_root q) = unat (q_max_elements q) + 1 \<and> q_elements q \<le> q_max_elements q"

definition heap_but :: "nat \<Rightarrow> (nat \<Rightarrow> 'k::linorder) \<Rightarrow> QUEUE \<Rightarrow> bool" where
  "heap_but k keys q \<longleftrightarrow> queue_room q \<and>
     (\<forall>i \<in> {2 .. unat (q_elements q)}. i div 2 \<noteq> k \<longrightarrow>
        before q (keys (q_root q ! (i div 2))) (keys (q_root q ! i)))"

definition is_heap :: "(nat \<Rightarrow> 'k::linorder) \<Rightarrow> QUEUE \<Rightarrow> bool" where
  "is_heap = heap_but 0"

text \<open>The size and the order of a queue are left alone.\<close>

definition same_queue :: "QUEUE \<Rightarrow> QUEUE \<Rightarrow> bool" where
  "same_queue q q' \<longleftrightarrow> q_max_elements q' = q_max_elements q \<and> q_max_at_top q' = q_max_at_top q"

text \<open>
  The documented behaviour of the functions, for which the size of a queue is fixed (\<open>auto_extent\<close> is 0):
  \<open>init_queue\<close> gives an empty queue, \<open>queue_insert\<close> adds an element, \<open>_downheap\<close> of the top restores the order
  when only the top may be wrong.
\<close>

definition queue_lib_ok :: "'k::linorder queue_lib \<Rightarrow> bool" where
  "queue_lib_ok lib \<longleftrightarrow>
     (\<forall>n max_top q. ql_init_queue lib n 0 max_top 0 0 = (0, q) \<longrightarrow>
        queue_room q \<and> q_elements q = 0 \<and> q_max_elements q = n \<and> q_max_at_top q = (if max_top then -1 else 1)) \<and>
     (\<forall>keys q x. is_heap keys q \<longrightarrow> q_elements q < q_max_elements q \<longrightarrow>
        (let q' = ql_insert lib keys q x
         in is_heap keys q' \<and> same_queue q q' \<and> q_elements q' = q_elements q + 1 \<and>
            mset (queue_elems q') = add_mset x (mset (queue_elems q)))) \<and>
     (\<forall>keys q. heap_but 1 keys q \<longrightarrow> 0 < q_elements q \<longrightarrow>
        (let q' = ql_downheap lib keys q 1 (q_root q ! 1)
         in is_heap keys q' \<and> same_queue q q' \<and> q_elements q' = q_elements q \<and>
            mset (queue_elems q') = mset (queue_elems q)))"


section \<open>The smallest elements\<close>

definition smallest :: "nat \<Rightarrow> 'k::linorder multiset \<Rightarrow> 'k multiset \<Rightarrow> bool" where
  "smallest m A M \<longleftrightarrow> size M = m \<and> M \<subseteq># A \<and> (\<forall>x \<in># M. \<forall>y \<in># A - M. x \<le> y)"

lemma smallest_sort:
  assumes "smallest m (mset ks) M"
  shows "M = mset (take m (sort ks))"
proof -
  let ?a = "sorted_list_of_multiset M" and ?b = "sorted_list_of_multiset (mset ks - M)"
  have m: "size M = m" "M \<subseteq># mset ks" "\<And>x y. x \<in># M \<Longrightarrow> y \<in># mset ks - M \<Longrightarrow> x \<le> y"
    using assms by (auto simp: smallest_def)
  have "sort ks = ?a @ ?b"
  proof (rule properties_for_sort)
    show "mset (?a @ ?b) = mset ks" using m(2) by simp
    show "sorted (?a @ ?b)" using m(3) by (auto simp: sorted_append)
  qed
  moreover have "length ?a = m" using m(1) by (metis mset_sorted_list_of_multiset size_mset)
  ultimately show ?thesis by simp
qed

lemma smallest_replace:
  assumes R: "smallest m A R" and t: "t \<in># add_mset k R" "\<forall>x \<in># add_mset k R. x \<le> t"
  shows "smallest m (add_mset k A) (add_mset k R - {#t#})"
proof -
  let ?R = "add_mset k R - {#t#}"
  have r: "size R = m" "R \<subseteq># A" "\<And>x y. x \<in># R \<Longrightarrow> y \<in># A - R \<Longrightarrow> x \<le> y"
    using R by (auto simp: smallest_def)
  have sz: "size ?R = m" using t(1) r(1) by (simp add: size_Diff_singleton)
  have sub: "?R \<subseteq># add_mset k A"
    using r(2) by (meson diff_subset_eq_self mset_subset_eq_add_mset_cancel subset_mset.order_trans)
  have "add_mset t ?R = add_mset k R" using t(1) by simp
  moreover have "add_mset k A = add_mset k R + (A - R)" using r(2) by simp
  ultimately have rest: "add_mset k A - ?R = add_mset t (A - R)"
    by (metis add_diff_cancel_left' union_mset_add_mset_left union_mset_add_mset_right)
  have "x \<le> y" if x: "x \<in># ?R" and y: "y \<in># add_mset t (A - R)" for x y
  proof (cases "y = t")
    case True
    then show ?thesis using t(2) x by (meson in_diffD)
  next
    case False
    then have y': "y \<in># A - R" using y by simp
    show ?thesis
    proof (cases "x \<in># R")
      case True
      then show ?thesis using r(3) y' by blast
    next
      case no: False
      then have xk: "x = k" using in_diffD [OF x] by simp
      then have "t \<noteq> k" using x no by auto
      then have "t \<in># R" using t(1) by simp
      moreover have "x \<le> t" using t(2) xk by simp
      ultimately show ?thesis using r(3) y' by (meson order_trans)
    qed
  qed
  then show ?thesis using sz sub rest by (simp add: smallest_def)
qed

lemma smallest_all:
  assumes "t \<in># A" "\<forall>x \<in># A. x \<le> t" "size A = Suc m"
  shows "smallest m A (A - {#t#})"
proof -
  obtain B where "A = add_mset t B" using assms(1) multi_member_split by metis
  then show ?thesis using assms(2,3) by (simp add: smallest_def)
qed

section \<open>Heaps and keys\<close>

lemma queue_elems_nth:
  assumes "queue_room q" "1 \<le> i" "i \<le> unat (q_elements q)"
  shows "q_root q ! i = queue_elems q ! (i - 1)" "i < length (q_root q)" "q_root q ! i \<in> set (queue_elems q)"
proof -
  have l: "unat (q_elements q) < length (q_root q)"
    using assms(1) by (simp add: queue_room_def word_le_nat_alt)
  then have n: "i - 1 < length (queue_elems q)" using assms(2,3) by (simp add: queue_elems_def)
  show e: "q_root q ! i = queue_elems q ! (i - 1)"
    using assms(2,3) l by (simp add: queue_elems_def)
  show "i < length (q_root q)" using l assms(3) by simp
  show "q_root q ! i \<in> set (queue_elems q)" using n by (simp add: e)
qed

lemma length_queue_elems: "queue_room q \<Longrightarrow> length (queue_elems q) = unat (q_elements q)"
  by (simp add: queue_elems_def queue_room_def word_le_nat_alt)

lemma heap_top:
  assumes "is_heap keys q" "1 \<le> i" "i \<le> unat (q_elements q)"
  shows "before q (keys (q_root q ! 1)) (keys (q_root q ! i))"
  using assms(2,3)
proof (induction i rule: less_induct)
  case (less i)
  show ?case
  proof (cases "i = 1")
    case True
    then show ?thesis by (simp add: before_def)
  next
    case False
    then have "i \<in> {2 .. unat (q_elements q)}" "i div 2 \<noteq> 0" using less.prems by auto
    then have "before q (keys (q_root q ! (i div 2))) (keys (q_root q ! i))"
      using assms(1) by (auto simp: is_heap_def heap_but_def)
    moreover have "before q (keys (q_root q ! 1)) (keys (q_root q ! (i div 2)))"
      using less.prems False by (intro less.IH) auto
    ultimately show ?thesis by (auto simp: before_def split: if_splits)
  qed
qed

lemma heap_top_elem:
  assumes "is_heap keys q" "x \<in> set (queue_elems q)"
  shows "before q (keys (q_root q ! 1)) (keys x)"
proof -
  have r: "queue_room q" using assms(1) by (simp add: is_heap_def heap_but_def)
  obtain i where i: "i < unat (q_elements q)" "x = queue_elems q ! i"
    using assms(2) by (auto simp: in_set_conv_nth length_queue_elems [OF r])
  then have "x = q_root q ! (i + 1)" using queue_elems_nth(1) [OF r, of "i + 1"] by simp
  then show ?thesis using heap_top [OF assms(1), of "i + 1"] i(1) by simp
qed

lemma heap_other_keys:
  assumes "heap_but k keys q" "\<And>i. 1 \<le> i \<Longrightarrow> i \<le> unat (q_elements q) \<Longrightarrow> i \<noteq> k \<Longrightarrow> keys' (q_root q ! i) = keys (q_root q ! i)"
    "k \<le> 1"
  shows "heap_but k keys' q"
  unfolding heap_but_def
proof (intro conjI ballI impI)
  show "queue_room q" using assms(1) by (simp add: heap_but_def)
  fix i assume i: "i \<in> {2 .. unat (q_elements q)}" "i div 2 \<noteq> k"
  then have "keys' (q_root q ! i) = keys (q_root q ! i)" "keys' (q_root q ! (i div 2)) = keys (q_root q ! (i div 2))"
    using assms(3) by (auto intro!: assms(2))
  then show "before q (keys' (q_root q ! (i div 2))) (keys' (q_root q ! i))"
    using assms(1) i by (simp add: heap_but_def)
qed


section \<open>The queue keeps the smallest keys\<close>

definition bq_held :: "('e, 'k) Bounded_queue \<Rightarrow> 'k multiset" where
  "bq_held b = image_mset (bq_keys b) (mset (queue_elems (m_queue b)))"

definition bq_top_key :: "('e, 'k) Bounded_queue \<Rightarrow> 'k" where
  "bq_top_key b = bq_keys b (q_root (m_queue b) ! 1)"

text \<open>After the keys \<open>A\<close> have been pushed into a queue for \<open>n\<close> results, with room for one more.\<close>

definition bq_inv :: "nat \<Rightarrow> 'k::linorder multiset \<Rightarrow> ('e, 'k) Bounded_queue \<Rightarrow> bool" where
  "bq_inv n A b \<longleftrightarrow>
     (let q = m_queue b
      in is_heap (bq_keys b) q \<and> q_max_at_top q = -1 \<and> unat (q_max_elements q) = Suc n \<and>
         unat (q_elements q) = min (size A) (Suc n) \<and>
         mset (queue_elems q) = mset [0 ..< unat (q_elements q)] \<and>
         (if size A \<le> n then bq_held b = A else smallest n A (bq_held b - {#bq_top_key b#})))"

lemma bq_invD:
  assumes "bq_inv n A b"
  shows "is_heap (bq_keys b) (m_queue b)" "q_max_at_top (m_queue b) = -1"
    "unat (q_max_elements (m_queue b)) = Suc n" "unat (q_elements (m_queue b)) = min (size A) (Suc n)"
    "mset (queue_elems (m_queue b)) = mset [0 ..< min (size A) (Suc n)]"
    "size A \<le> n \<Longrightarrow> bq_held b = A" "n < size A \<Longrightarrow> smallest n A (bq_held b - {#bq_top_key b#})"
  using assms unfolding bq_inv_def by (auto simp: Let_def)

lemma bq_top_held:
  assumes "is_heap (bq_keys b) (m_queue b)" "q_max_at_top (m_queue b) = -1" "0 < unat (q_elements (m_queue b))"
  shows "bq_top_key b \<in># bq_held b" "\<forall>x \<in># bq_held b. x \<le> bq_top_key b"
proof -
  have r: "queue_room (m_queue b)" using assms(1) by (simp add: is_heap_def heap_but_def)
  show "bq_top_key b \<in># bq_held b"
    using queue_elems_nth(3) [OF r, of 1] assms(3) by (simp add: bq_top_key_def bq_held_def)
  show "\<forall>x \<in># bq_held b. x \<le> bq_top_key b"
    using heap_top_elem [OF assms(1)] assms(2) by (auto simp: bq_top_key_def bq_held_def before_def)
qed

lemma bq_push_room:
  assumes lib: "queue_lib_ok lib" and b: "bq_inv n A b" and room: "size A \<le> n"
  shows "\<exists>b'. bq_push lib e b = Some b' \<and> bq_inv n (add_mset (m_keymaker b e) A) b' \<and> m_keymaker b' = m_keymaker b"
proof -
  let ?q = "m_queue b" and ?k = "m_keymaker b e"
  note d = bq_invD [OF b]
  let ?s = "unat (q_elements ?q)"
  have s: "?s = size A" using d(4) room by simp
  let ?keys = "(bq_keys b)(?s := ?k)"
  have el: "mset (queue_elems ?q) = mset [0 ..< ?s]" "set (queue_elems ?q) = {0 ..< ?s}"
    using d(5) room s by (simp, metis atLeastLessThan_upt set_mset_mset min.absorb1 le_SucI)
  have r: "queue_room ?q" using d(1) by (simp add: is_heap_def heap_but_def)
  have h: "is_heap ?keys ?q"
    unfolding is_heap_def
  proof (rule heap_other_keys [OF d(1) [unfolded is_heap_def]])
    fix i assume "1 \<le> i" "i \<le> ?s"
    then have "q_root ?q ! i \<noteq> ?s" using queue_elems_nth(3) [OF r] el(2) by fastforce
    then show "?keys (q_root ?q ! i) = bq_keys b (q_root ?q ! i)" by simp
  qed simp
  have lt: "q_elements ?q < q_max_elements ?q" using s d(3) room by (simp add: word_less_nat_alt)
  define q' where "q' = ql_insert lib ?keys ?q ?s"
  have q': "is_heap ?keys q'" "same_queue ?q q'" "q_elements q' = q_elements ?q + 1"
    "mset (queue_elems q') = add_mset ?s (mset (queue_elems ?q))"
    using lib h lt unfolding queue_lib_ok_def q'_def by (auto simp: Let_def)
  let ?b = "b\<lparr>bq_keys := ?keys, m_queue := q'\<rparr>"
  have nf: "\<not> queue_is_full ?q" using lt by (auto simp: queue_is_full_def)
  have step: "bq_push lib e b = Some ?b"
    using nf by (simp add: bq_push_def Let_def q'_def)
  have n': "unat (q_elements q') = Suc ?s"
    using q'(3) lt unsigned_less [of "q_max_elements ?q", where 'a = nat]
    by (simp add: unat_word_ariths word_less_nat_alt)
  have held: "bq_held ?b = add_mset ?k A"
  proof -
    have "image_mset ?keys (mset (queue_elems ?q)) = image_mset (bq_keys b) (mset (queue_elems ?q))"
      using el(2) by (intro image_mset_cong) auto
    then show ?thesis using d(6) [OF room] q'(4) by (simp add: bq_held_def)
  qed
  have top: "smallest n (add_mset ?k A) (bq_held ?b - {#bq_top_key ?b#})" if "n < size (add_mset ?k A)"
  proof -
    have "\<forall>x \<in># bq_held ?b. x \<le> bq_top_key ?b" "bq_top_key ?b \<in># bq_held ?b"
      using bq_top_held [of ?b] q'(1,2) d(2) n' by (simp_all add: same_queue_def)
    then show ?thesis using smallest_all [of "bq_top_key ?b" "add_mset ?k A" n] that room held by simp
  qed
  have "bq_inv n (add_mset ?k A) ?b"
    using q'(1,2,4) n' el(1) d(2,3) s room held top
    by (simp add: bq_inv_def Let_def same_queue_def atLeast0_lessThan_Suc)
  then show ?thesis using step by auto
qed

lemma bq_push_full:
  assumes lib: "queue_lib_ok lib" and b: "bq_inv n A b" and full: "n < size A"
  shows "\<exists>b'. bq_push lib e b = Some b' \<and> bq_inv n (add_mset (m_keymaker b e) A) b' \<and> m_keymaker b' = m_keymaker b"
proof -
  let ?q = "m_queue b" and ?k = "m_keymaker b e"
  note d = bq_invD [OF b]
  have s: "unat (q_elements ?q) = Suc n" using d(4) full by simp
  have f: "queue_is_full ?q" using s d(3) by (simp add: queue_is_full_def word_eq_iff_unsigned [where 'a = nat])
  have r: "queue_room ?q" using d(1) by (simp add: is_heap_def heap_but_def)
  let ?t = "q_root ?q ! 1"
  have t: "queue_element ?q 1 = Some ?t" "?t \<in> set (queue_elems ?q)" "?t = queue_elems ?q ! 0"
    using queue_elems_nth [OF r, of 1] s by (simp_all add: queue_element_def arr_get_def)
  have dist: "distinct (queue_elems ?q)" using d(5) by (metis distinct_upt mset_eq_imp_distinct_iff)
  let ?keys = "(bq_keys b)(?t := ?k)"
  have other: "q_root ?q ! i \<noteq> ?t" if "1 \<le> i" "i \<le> unat (q_elements ?q)" "i \<noteq> 1" for i
    using queue_elems_nth(1) [OF r that(1,2)] t(3) dist that length_queue_elems [OF r]
    by (simp add: nth_eq_iff_index_eq)
  have "heap_but 1 (bq_keys b) ?q"
    using d(1) by (auto simp: is_heap_def heap_but_def)
  then have h: "heap_but 1 ?keys ?q"
  proof (rule heap_other_keys)
    fix i assume "1 \<le> i" "i \<le> unat (q_elements ?q)" "i \<noteq> 1"
    then show "?keys (q_root ?q ! i) = bq_keys b (q_root ?q ! i)" using other by (simp del: One_nat_def)
  qed simp
  define q' where "q' = ql_downheap lib ?keys ?q 1 ?t"
  have pos: "0 < q_elements ?q" using s by (simp add: word_less_nat_alt)
  have q': "is_heap ?keys q'" "same_queue ?q q'" "q_elements q' = q_elements ?q"
    "mset (queue_elems q') = mset (queue_elems ?q)"
    using lib h pos unfolding queue_lib_ok_def q'_def by (auto simp: Let_def)
  let ?b = "b\<lparr>bq_keys := ?keys, m_queue := q'\<rparr>"
  have step: "bq_push lib e b = Some ?b"
    using f t(1) by (simp add: bq_push_def queue_top_def queue_replace_top_def q'_def Let_def)
  have held: "bq_held ?b = add_mset ?k (bq_held b - {#bq_top_key b#})"
  proof -
    obtain M where M: "mset (queue_elems ?q) = add_mset ?t M" using t(2) by (metis multi_member_split set_mset_mset)
    have "count (mset (queue_elems ?q)) ?t = 1" using dist t(2) by (simp add: distinct_count_atmost_1)
    then have "?t \<notin># M" using M by (simp add: not_in_iff)
    then have "image_mset ?keys M = image_mset (bq_keys b) M" by (intro image_mset_cong) auto
    then show ?thesis using M q'(4) by (simp add: bq_held_def bq_top_key_def)
  qed
  have "\<forall>x \<in># bq_held ?b. x \<le> bq_top_key ?b" "bq_top_key ?b \<in># bq_held ?b"
    using bq_top_held [of ?b] q'(1-3) d(2) s by (simp_all add: same_queue_def)
  then have sm: "smallest n (add_mset ?k A) (bq_held ?b - {#bq_top_key ?b#})"
    unfolding held by (intro smallest_replace [OF d(7) [OF full]])
  have "bq_inv n (add_mset ?k A) ?b"
    using q' d(2-5) s full sm by (simp add: bq_inv_def Let_def same_queue_def atLeast0_lessThan_Suc)
  then show ?thesis using step by auto
qed


lemma bq_push_all_inv:
  assumes "queue_lib_ok lib" "bq_inv n A b"
  shows "\<exists>b'. bq_push_all lib es b = Some b' \<and> bq_inv n (A + mset (map (m_keymaker b) es)) b'"
  using assms(2)
proof (induction es arbitrary: A b)
  case (Cons e es)
  obtain b1 where b1: "bq_push lib e b = Some b1" "bq_inv n (add_mset (m_keymaker b e) A) b1"
    "m_keymaker b1 = m_keymaker b"
    using bq_push_room [OF assms(1) Cons.prems] bq_push_full [OF assms(1) Cons.prems] by (meson not_le)
  then show ?case using Cons.IH [OF b1(2)] by simp
qed simp

lemma bq_init_inv:
  assumes "queue_lib_ok lib" "bq_init lib n True len keymaker slots b0 = (0, b)"
  shows "bq_inv (unat n) {#} b \<and> m_keymaker b = keymaker"
proof -
  have n: "n < 0xFFFFFFFE" using assms(2) by (auto simp: bq_init_def Let_def not_le split: if_splits)
  then have nn: "\<not> 0xFFFFFFFE \<le> n" by simp
  then obtain q where q: "ql_init_queue lib (ucast n + 1) 0 True 0 0 = (0, q)"
    "b = b0\<lparr>bq_keys := slots, m_compare_length := len, m_keymaker := keymaker, m_queue := q\<rparr>"
    using assms(2) nn by (auto simp: bq_init_def Let_def split: prod.splits if_splits)
  have l: "queue_room q" "q_elements q = 0" "q_max_elements q = ucast n + 1" "q_max_at_top q = -1"
    using assms(1) q(1) unfolding queue_lib_ok_def by (blast, blast, blast, metis)
  have "unat n < 0xFFFFFFFE" using n by (simp add: word_less_nat_alt)
  then have "unat (ucast n + 1 :: uint) = Suc (unat n)"
    by (simp add: unat_word_ariths unat_ucast_small)
  then show ?thesis
    using l q(2) by (simp add: bq_inv_def is_heap_def heap_but_def bq_held_def queue_elems_def)
qed

text \<open>
  C6. The bounded queue keeps the smallest keys: after \<open>init\<close> for \<open>n\<close> results with the largest key on top, and any
  sequence of pushes, it holds all keys while there are at most \<open>n\<close>, and then always exactly the \<open>n\<close> smallest of
  all keys that were pushed, beside the key on top, the extra element that the next push replaces. It uses the
  first \<open>n + 1\<close> key slots alone, and no push fails. The functions of the heap do what is documented for them.
\<close>

theorem bounded_queue_keeps_smallest:
  assumes lib: "queue_lib_ok lib" and i: "bq_init lib n True len keymaker slots b0 = (0, b)"
  shows "\<exists>b'. bq_push_all lib es b = Some b' \<and>
     (if length es \<le> unat n then bq_held b' = mset (map keymaker es)
      else bq_held b' - {#bq_top_key b'#} = mset (take (unat n) (sort (map keymaker es)))) \<and>
     unat (num_elements b') = min (length es) (unat n + 1) \<and> set (queue_elems (m_queue b')) \<subseteq> {0 .. unat n}"
proof -
  have b: "bq_inv (unat n) {#} b" "m_keymaker b = keymaker" using bq_init_inv [OF lib i] by auto
  obtain b' where b': "bq_push_all lib es b = Some b'" "bq_inv (unat n) (mset (map keymaker es)) b'"
    using bq_push_all_inv [OF lib b(1), of es] b(2) by auto
  note d = bq_invD [OF b'(2)]
  have "set (queue_elems (m_queue b')) = {0 ..< min (length es) (Suc (unat n))}"
    using arg_cong [OF d(5), of set_mset] by simp
  then show ?thesis
    using b'(1) d(4,6) smallest_sort [OF d(7)] by (auto simp: num_elements_def)
qed

text \<open>Sorted lists as heaps.\<close>

definition list_queue :: "(nat \<Rightarrow> 'k::linorder) \<Rightarrow> QUEUE \<Rightarrow> nat list \<Rightarrow> QUEUE" where
  "list_queue keys q xs =
     (let ys = sort_key keys xs; ys = (if q_max_at_top q = -1 then rev ys else ys)
      in q\<lparr>q_root := hd (q_root q) # ys @ drop (length xs) (tl (q_root q)), q_elements := word_of_nat (length xs)\<rparr>)"

definition list_queue_lib :: "'k::linorder queue_lib" where
  "list_queue_lib =
     \<lparr>ql_init_queue = (\<lambda>n _ max_top _ _. (0, \<lparr>q_root = replicate (unat n + 1) 0, q_elements = 0, q_max_elements = n,
        q_offset_to_key = 0, q_offset_to_queue_pos = 0, q_auto_extent = 0, q_max_at_top = (if max_top then -1 else 1)\<rparr>)),
      ql_downheap = (\<lambda>keys q i x. list_queue keys q (queue_elems q)),
      ql_insert = (\<lambda>keys q x. list_queue keys q (x # queue_elems q)),
      ql_remove = (\<lambda>keys q i. (q_root q ! unat i, q))\<rparr>"

lemma list_queue_heap:
  assumes r: "queue_room q" and l: "length xs \<le> unat (q_max_elements q)"
  shows "is_heap keys (list_queue keys q xs)" "same_queue q (list_queue keys q xs)"
    "unat (q_elements (list_queue keys q xs)) = length xs" "mset (queue_elems (list_queue keys q xs)) = mset xs"
proof -
  let ?q = "list_queue keys q xs"
  define ys where "ys = (if q_max_at_top q = -1 then rev (sort_key keys xs) else sort_key keys xs)"
  have ys: "mset ys = mset xs" "length ys = length xs" by (simp_all add: ys_def)
  have root: "q_root ?q = hd (q_root q) # ys @ drop (length xs) (tl (q_root q))"
    by (simp add: list_queue_def Let_def ys_def)
  show e: "unat (q_elements ?q) = length xs"
    using l unsigned_less [of "q_max_elements q", where 'a = nat]
    by (simp add: list_queue_def Let_def unsigned_of_nat take_bit_nat_eq_self)
  show s: "same_queue q ?q" by (simp add: same_queue_def list_queue_def Let_def)
  show "mset (queue_elems ?q) = mset xs" using e ys by (simp add: queue_elems_def root)
  have "queue_room ?q"
    using r l e s ys(2) by (simp add: queue_room_def root same_queue_def word_le_nat_alt)
  moreover have "before ?q (keys (q_root ?q ! (i div 2))) (keys (q_root ?q ! i))"
    if i: "2 \<le> i" "i \<le> length xs" for i
  proof -
    have n: "q_root ?q ! j = ys ! (j - 1)" if "1 \<le> j" "j \<le> length xs" for j
    proof -
      have "j - 1 < length ys" using that ys(2) by simp
      then show ?thesis using that(1) by (simp add: root nth_append)
    qed
    have le: "i div 2 - 1 \<le> i - 1" "i - 1 < length xs" "1 \<le> i div 2" "i div 2 \<le> length xs" using i by auto
    have so: "sorted (map keys (sort_key keys xs))" by simp
    show ?thesis
    proof (cases "q_max_at_top q = -1")
      case True
      then have y: "ys ! j = sort_key keys xs ! (length xs - Suc j)" if "j < length xs" for j
        using that by (simp add: ys_def rev_nth)
      have "keys (sort_key keys xs ! (length xs - i)) \<le> keys (sort_key keys xs ! (length xs - i div 2))"
        using sorted_nth_mono [OF so, of "length xs - i" "length xs - i div 2"] i by simp
      moreover have "Suc (i - 1) = i" "Suc (i div 2 - 1) = i div 2" using i by auto
      ultimately show ?thesis
        using True n [of i] n [of "i div 2"] y [of "i - 1"] y [of "i div 2 - 1"] le i s
        by (simp add: before_def same_queue_def)
    next
      case False
      have "keys (sort_key keys xs ! (i div 2 - 1)) \<le> keys (sort_key keys xs ! (i - 1))"
        using sorted_nth_mono [OF so le(1)] le by simp
      then show ?thesis
        using False n [of i] n [of "i div 2"] le i s by (simp add: before_def same_queue_def ys_def)
    qed
  qed
  ultimately show "is_heap keys ?q" using e by (auto simp: is_heap_def heap_but_def)
qed


lemma list_queue_lib_ok: "queue_lib_ok (list_queue_lib :: 'k::linorder queue_lib)"
proof -
  have room: "queue_room q" if "heap_but k keys q" for k and keys :: "nat \<Rightarrow> 'k" and q
    using that by (simp add: heap_but_def)
  have le: "length (queue_elems q) \<le> unat (q_max_elements q)" if "queue_room q" for q
    using that length_queue_elems [OF that] by (simp add: queue_room_def word_le_nat_alt)
  have "is_heap keys (list_queue keys q (x # queue_elems q)) \<and> same_queue q (list_queue keys q (x # queue_elems q)) \<and>
      q_elements (list_queue keys q (x # queue_elems q)) = q_elements q + 1 \<and>
      mset (queue_elems (list_queue keys q (x # queue_elems q))) = add_mset x (mset (queue_elems q))"
    if "is_heap keys q" "q_elements q < q_max_elements q" for keys :: "nat \<Rightarrow> 'k" and q x
  proof -
    have r: "queue_room q" using that(1) room by (simp add: is_heap_def)
    have l: "length (x # queue_elems q) \<le> unat (q_max_elements q)"
      using that(2) length_queue_elems [OF r] by (simp add: word_less_nat_alt)
    have "q_elements (list_queue keys q (x # queue_elems q)) = q_elements q + 1"
      by (simp add: list_queue_def Let_def length_queue_elems [OF r] add.commute)
    then show ?thesis using list_queue_heap [OF r l, of keys] by simp
  qed
  moreover have "is_heap keys (list_queue keys q (queue_elems q)) \<and> same_queue q (list_queue keys q (queue_elems q)) \<and>
      q_elements (list_queue keys q (queue_elems q)) = q_elements q \<and>
      mset (queue_elems (list_queue keys q (queue_elems q))) = mset (queue_elems q)"
    if "heap_but 1 keys q" for keys :: "nat \<Rightarrow> 'k" and q
  proof -
    have r: "queue_room q" using that room by blast
    have "q_elements (list_queue keys q (queue_elems q)) = q_elements q"
      by (simp add: list_queue_def Let_def length_queue_elems [OF r])
    then show ?thesis using list_queue_heap [OF r le [OF r], of keys] by simp
  qed
  moreover have "queue_room q \<and> q_elements q = 0 \<and> q_max_elements q = n \<and> q_max_at_top q = (if max_top then -1 else 1)"
    if "ql_init_queue (list_queue_lib :: 'k queue_lib) n 0 max_top 0 0 = (0, q)" for n max_top q
    using that by (auto simp: list_queue_lib_def queue_room_def)
  ultimately show ?thesis
    unfolding queue_lib_ok_def Let_def by (auto simp: list_queue_lib_def)
qed

definition empty_bounded_queue :: "(nat, nat) Bounded_queue" where
  "empty_bounded_queue = \<lparr>bq_keys = (\<lambda>_. 0), m_compare_length = 0, m_keymaker = id,
     m_queue = snd (ql_init_queue (list_queue_lib :: nat queue_lib) 0 0 True 0 0)\<rparr>"

theorem bounded_queue_keeps_smallest_witness:
  "\<exists>b b'. bq_init list_queue_lib 2 True 4 id (\<lambda>_. 0) empty_bounded_queue = (0, b) \<and>
     bq_push_all list_queue_lib [5, 3, 9, 1, (7 :: nat)] b = Some b' \<and> bq_held b' - {#bq_top_key b'#} = {#1, 3#}"
proof -
  obtain b where b: "bq_init list_queue_lib 2 True 4 id (\<lambda>_. 0) empty_bounded_queue = (0, b)"
    by (simp add: bq_init_def list_queue_lib_def)
  have few: "\<not> length [5, 3, 9, 1, 7 :: nat] \<le> unat (2 :: ulonglong)" by simp
  have "mset (take (unat (2 :: ulonglong)) (sort (map id [5, 3, 9, 1, 7 :: nat]))) = {#1, 3#}" by simp
  then show ?thesis
    using bounded_queue_keeps_smallest [OF list_queue_lib_ok b, of "[5, 3, 9, 1, 7]"] b few by metis
qed

end
