(* ===== verification/JsonWriter.thy ===== *)
theory JsonWriter
  imports Prelude "HOL-Library.Monad_Syntax"
begin

text \<open>
  The helpers of the optimizer trace, of \<open>my_json_writer.h\<close>: \<open>String_with_limit\<close>, which collects the document up to
  a size and counts what it drops, and the scoped classes \<open>Json_writer_object\<close> and \<open>Json_writer_array\<close>, whose
  constructors and destructors open and close the parts of the document.
\<close>

section \<open>\<open>String_with_limit\<close>\<close>

text \<open>
  The functions of \<open>String\<close> that are used: \<open>append\<close> of a number of bytes and of a character, and \<open>length\<close>. The
  first is only declared in \<open>sql_string.h\<close>, so they are a parameter.
\<close>

record 's str_lib =
  sl_append :: "'s \<Rightarrow> bytes \<Rightarrow> 's"
  sl_append_char :: "'s \<Rightarrow> uchar \<Rightarrow> 's"
  sl_length :: "'s \<Rightarrow> uint32"

text \<open>Their documented behaviour, while there is memory and the length fits its 32 bits.\<close>

definition str_lib_ok :: "'s str_lib \<Rightarrow> ('s \<Rightarrow> bytes) \<Rightarrow> bool" where
  "str_lib_ok lib content \<longleftrightarrow>
     (\<forall>s x. length (content s) + length x < 2 ^ 32 \<longrightarrow> content (sl_append lib s x) = content s @ x) \<and>
     (\<forall>s c. length (content s) + 1 < 2 ^ 32 \<longrightarrow> content (sl_append_char lib s c) = content s @ [c]) \<and>
     (\<forall>s. length (content s) < 2 ^ 32 \<longrightarrow> unat (sl_length lib s) = length (content s))"

record 's String_with_limit =
  swl_str :: 's
  size_limit :: "64 word"
  truncated_len :: "64 word"

text \<open>The argument is an empty string.\<close>

definition string_with_limit_new :: "'s \<Rightarrow> 's String_with_limit" where
  "string_with_limit_new s = \<lparr>swl_str = s, size_limit = - 1, truncated_len = 0\<rparr>"

definition get_truncated_bytes :: "'s String_with_limit \<Rightarrow> 64 word" where
  "get_truncated_bytes w = truncated_len w"

definition get_size_limit :: "'s String_with_limit \<Rightarrow> 64 word" where
  "get_size_limit w = size_limit w"

definition set_size_limit :: "64 word \<Rightarrow> 's String_with_limit \<Rightarrow> 's String_with_limit" where
  "set_size_limit limit_arg w = w\<lparr>size_limit := limit_arg\<rparr>"

definition swl_length :: "'s str_lib \<Rightarrow> 's String_with_limit \<Rightarrow> 64 word" where
  "swl_length lib w = ucast (sl_length lib (swl_str w))"

definition swl_append :: "'s str_lib \<Rightarrow> bytes \<Rightarrow> 64 word \<Rightarrow> 's String_with_limit \<Rightarrow> 's String_with_limit" where
  "swl_append lib s sz w =
     (if swl_length lib w + sz \<le> size_limit w
      then w\<lparr>swl_str := sl_append lib (swl_str w) (take (unat sz) s)\<rparr>
      else if swl_length lib w < size_limit w
      then (let bytes_to_add = size_limit w - swl_length lib w
            in w\<lparr>swl_str := sl_append lib (swl_str w) (take (unat bytes_to_add) s),
                 truncated_len := truncated_len w + (sz - bytes_to_add)\<rparr>)
      else w\<lparr>truncated_len := truncated_len w + sz\<rparr>)"

text \<open>A C string is the bytes before the first null byte.\<close>

definition swl_append_cstr :: "'s str_lib \<Rightarrow> bytes \<Rightarrow> 's String_with_limit \<Rightarrow> 's String_with_limit" where
  "swl_append_cstr lib s w = swl_append lib s (word_of_nat (length (takeWhile (\<lambda>c. c \<noteq> 0) s))) w"

definition swl_append_char :: "'s str_lib \<Rightarrow> uchar \<Rightarrow> 's String_with_limit \<Rightarrow> 's String_with_limit" where
  "swl_append_char lib c w =
     (if swl_length lib w + 1 > size_limit w
      then w\<lparr>truncated_len := truncated_len w + 1\<rparr>
      else w\<lparr>swl_str := sl_append_char lib (swl_str w) c\<rparr>)"

text \<open>A sequence of calls.\<close>

datatype swl_call = Append bytes | Append_cstr bytes | Append_char uchar

fun swl_do :: "'s str_lib \<Rightarrow> swl_call \<Rightarrow> 's String_with_limit \<Rightarrow> 's String_with_limit" where
  "swl_do lib (Append s) w = swl_append lib s (word_of_nat (length s)) w"
| "swl_do lib (Append_cstr s) w = swl_append_cstr lib s w"
| "swl_do lib (Append_char c) w = swl_append_char lib c w"

fun swl_text :: "swl_call \<Rightarrow> bytes" where
  "swl_text (Append s) = s"
| "swl_text (Append_cstr s) = takeWhile (\<lambda>c. c \<noteq> 0) s"
| "swl_text (Append_char c) = [c]"

text \<open>What the string stands for: a prefix of the text appended so far, and the number of bytes missing.\<close>

definition swl_shows :: "('s \<Rightarrow> bytes) \<Rightarrow> bytes \<Rightarrow> 's String_with_limit \<Rightarrow> bool" where
  "swl_shows content t w \<longleftrightarrow>
     content (swl_str w) = take (unat (size_limit w)) t \<and>
     unat (truncated_len w) = length t - unat (size_limit w)"

lemma swl_append_shows:
  assumes lib: "str_lib_ok lib content" and w: "swl_shows content t w"
    and len: "length t + n < 2 ^ 32" and sz: "sz = word_of_nat n" "n \<le> length s"
  shows "swl_shows content (t @ take n s) (swl_append lib s sz w)"
proof -
  let ?l = "min (length t) (unat (size_limit w))"
  have c: "content (swl_str w) = take (unat (size_limit w)) t"
    and tr: "unat (truncated_len w) = length t - unat (size_limit w)"
    using w by (simp_all add: swl_shows_def)
  have lc: "length (content (swl_str w)) = ?l" "?l < 2 ^ 32" using c len by simp_all
  then have "unat (sl_length lib (swl_str w)) = ?l"
    using lib by (simp add: str_lib_ok_def)
  then have L: "unat (swl_length lib w) = ?l"
    using lc(2) by (simp add: swl_length_def unat_ucast_small)
  have S: "unat sz = n" using sz len by (simp add: unat_of_nat take_bit_nat_eq_self)
  have sum: "unat (swl_length lib w + sz) = ?l + n"
    using L S len by (simp add: unat_word_ariths)
  have app: "content (sl_append lib (swl_str w) x) = content (swl_str w) @ x" if "length x \<le> n" for x
    using lib that lc len by (simp add: str_lib_ok_def)
  show ?thesis
  proof (cases "?l + n \<le> unat (size_limit w)")
    case True
    then have "swl_length lib w + sz \<le> size_limit w" using sum by (simp add: word_le_nat_alt)
    moreover have "length t \<le> unat (size_limit w)" if "n > 0" using True that by simp
    ultimately show ?thesis
      using True c tr S app [of "take n s"] sz(2)
      by (cases "n = 0") (auto simp: swl_append_def swl_shows_def)
  next
    case False
    then have no: "\<not> swl_length lib w + sz \<le> size_limit w" using sum by (simp add: word_le_nat_alt)
    show ?thesis
    proof (cases "length t < unat (size_limit w)")
      case True
      then have lt: "swl_length lib w < size_limit w" using L by (simp add: word_less_nat_alt)
      let ?b = "size_limit w - swl_length lib w"
      have b: "unat ?b = unat (size_limit w) - length t"
        using unat_sub [OF order.strict_implies_order [OF lt]] L True by simp
      have bn: "unat ?b \<le> n" using False True b by simp
      have "unat (sz - ?b) = n - unat ?b" using bn S by (subst unat_sub) (simp_all add: word_le_nat_alt)
      moreover have "unat (truncated_len w) = 0" using tr True by simp
      ultimately have "unat (truncated_len w + (sz - ?b)) = length t + n - unat (size_limit w)"
        using False True b len by (simp add: unat_word_ariths)
      then show ?thesis
        using no lt c b bn sz(2) True app [of "take (unat ?b) s"]
        by (simp add: swl_append_def swl_shows_def min_absorb2)
    next
      case full: False
      then have ge: "\<not> swl_length lib w < size_limit w" using L by (simp add: word_less_nat_alt)
      have "unat (truncated_len w + sz) = length t + n - unat (size_limit w)"
        using tr S full len by (simp add: unat_word_ariths)
      then show ?thesis
        using no ge c full sz(2) by (simp add: swl_append_def swl_shows_def)
    qed
  qed
qed


lemma swl_append_char_is_append:
  assumes "str_lib_ok lib content" "swl_shows content t w" "length t + 1 < 2 ^ 32"
  shows "swl_shows content (t @ [c]) (swl_append_char lib c w)"
proof -
  have a: "swl_shows content (t @ take 1 [c]) (swl_append lib [c] 1 w)"
    using swl_append_shows [OF assms(1,2), of 1 1 "[c]"] assms(3) by simp
  have l: "length (content (swl_str w)) = min (length t) (unat (size_limit w))"
    using assms(2) by (simp add: swl_shows_def)
  then have L: "unat (swl_length lib w) = min (length t) (unat (size_limit w))"
    using assms(1,3) by (simp add: swl_length_def unat_ucast_small str_lib_ok_def)
  then have s: "unat (swl_length lib w + 1) = min (length t) (unat (size_limit w)) + 1"
    using assms(3) by (simp add: unat_word_ariths)
  show ?thesis
  proof (cases "size_limit w < swl_length lib w + 1")
    case True
    then have "\<not> swl_length lib w < size_limit w" using s L by (simp add: word_less_nat_alt)
    moreover have "\<not> swl_length lib w + 1 \<le> size_limit w" using True by simp
    moreover have "take 1 [c] = [c]" by simp
    ultimately show ?thesis using a True by (simp only: swl_append_char_def swl_append_def if_True if_False)
  next
    case False
    then have "min (length t) (unat (size_limit w)) + 1 \<le> unat (size_limit w)"
      using s by (simp add: word_less_nat_alt)
    then have "length t + 1 \<le> unat (size_limit w)" by simp
    then show ?thesis
      using assms False l by (simp add: swl_append_char_def swl_shows_def str_lib_ok_def)
  qed
qed

lemma swl_do_shows:
  assumes "str_lib_ok lib content" "swl_shows content t w" "length t + length (swl_text c) < 2 ^ 32"
  shows "swl_shows content (t @ swl_text c) (swl_do lib c w) \<and> size_limit (swl_do lib c w) = size_limit w"
proof (intro conjI)
  show "size_limit (swl_do lib c w) = size_limit w"
    by (cases c) (simp_all add: swl_append_def swl_append_cstr_def swl_append_char_def Let_def)
  show "swl_shows content (t @ swl_text c) (swl_do lib c w)"
  proof (cases c)
    case (Append s)
    then show ?thesis using swl_append_shows [OF assms(1,2), of "length s" _ s] assms(3) by simp
  next
    case (Append_cstr s)
    let ?n = "length (takeWhile (\<lambda>c. c \<noteq> 0) s)"
    have t: "take ?n s = takeWhile (\<lambda>c. c \<noteq> 0) s" by (rule takeWhile_eq_take [symmetric])
    have "swl_shows content (t @ take ?n s) (swl_append lib s (word_of_nat ?n) w)"
      using assms(3) Append_cstr by (intro swl_append_shows [OF assms(1,2)]) (simp_all add: length_takeWhile_le)
    then show ?thesis
      using Append_cstr unfolding t by (simp add: swl_append_cstr_def)
  next
    case (Append_char a)
    then show ?thesis using swl_append_char_is_append assms by simp
  qed
qed

text \<open>
  C20. \<open>String_with_limit\<close> keeps the beginning of what is appended to it and counts the rest: after any sequence of
  calls of the three \<open>append\<close> functions on an empty string with any size limit, the string holds the first bytes of
  the appended text, as many as the limit allows, its length never exceeds the limit, and \<open>get_truncated_bytes\<close> is
  the exact number of bytes that are missing, so that together they give the length of the whole text. The text is
  shorter than 4 GB, the lengths a \<open>String\<close> can have.
\<close>

theorem string_with_limit_prefix:
  assumes lib: "str_lib_ok lib content" and e: "content s = []"
    and len: "length (concat (map swl_text cs)) < 2 ^ 32"
  shows "let w = fold (swl_do lib) cs (set_size_limit limit (string_with_limit_new s));
             t = concat (map swl_text cs)
         in content (swl_str w) = take (unat limit) t \<and>
            swl_length lib w \<le> get_size_limit w \<and>
            unat (swl_length lib w) + unat (get_truncated_bytes w) = length t"
proof -
  have run: "swl_shows content (t @ concat (map swl_text cs)) (fold (swl_do lib) cs w) \<and>
      size_limit (fold (swl_do lib) cs w) = size_limit w"
    if "swl_shows content t w" "length t + length (concat (map swl_text cs)) < 2 ^ 32" for t w
    using that
  proof (induction cs arbitrary: t w)
    case (Cons c cs)
    have "swl_shows content (t @ swl_text c) (swl_do lib c w)" "size_limit (swl_do lib c w) = size_limit w"
      using swl_do_shows [OF lib Cons.prems(1), of c] Cons.prems(2) by simp_all
    then show ?case
      using Cons.IH [of "t @ swl_text c" "swl_do lib c w"] Cons.prems(2) by simp
  qed simp
  define w where "w = fold (swl_do lib) cs (set_size_limit limit (string_with_limit_new s))"
  have "swl_shows content [] (set_size_limit limit (string_with_limit_new s))"
    by (simp add: swl_shows_def set_size_limit_def string_with_limit_new_def e)
  from run [OF this] len
  have w: "swl_shows content (concat (map swl_text cs)) w" "size_limit w = limit"
    by (simp_all add: w_def set_size_limit_def)
  then have l: "length (content (swl_str w)) = min (length (concat (map swl_text cs))) (unat limit)"
    by (simp add: swl_shows_def)
  then have "unat (swl_length lib w) = min (length (concat (map swl_text cs))) (unat limit)"
    using lib len by (simp add: swl_length_def unat_ucast_small str_lib_ok_def)
  then show ?thesis
    using w by (simp add: Let_def w_def [symmetric] swl_shows_def get_size_limit_def get_truncated_bytes_def
        word_le_nat_alt)
qed

text \<open>Byte lists as strings.\<close>

definition list_str_lib :: "bytes str_lib" where
  "list_str_lib = \<lparr>sl_append = (@), sl_append_char = (\<lambda>s c. s @ [c]), sl_length = (\<lambda>s. word_of_nat (length s))\<rparr>"

lemma list_str_lib_ok: "str_lib_ok list_str_lib id"
  by (simp add: str_lib_ok_def list_str_lib_def unat_of_nat take_bit_nat_eq_self)

theorem string_with_limit_prefix_witness:
  "let w = fold (swl_do list_str_lib) [Append [1, 2, 3], Append_char 4, Append_cstr [5, 6, 7, 0, 8]]
             (set_size_limit 5 (string_with_limit_new []))
   in swl_str w = [1, 2, 3, 4, 5] \<and> unat (swl_length list_str_lib w) + unat (get_truncated_bytes w) = 7"
  using string_with_limit_prefix
    [OF list_str_lib_ok, of "[]" "[Append [1, 2, 3], Append_char 4, Append_cstr [5, 6, 7, 0, 8]]" 5]
  unfolding Let_def by (auto simp del: fold_simps)

end
