(* ===== verification/JsonScope.thy ===== *)
theory JsonScope
  imports Prelude "HOL-Library.Monad_Syntax"
begin

text \<open>
  The scoped classes of the optimizer trace, of \<open>my_json_writer.h\<close>: \<open>Json_value_helper\<close>, \<open>Json_writer_object\<close> and
  \<open>Json_writer_array\<close>. Constructors and destructors open and close the parts of the document. The functions of the
  writer itself are only declared in the header, so an operation is modelled by the calls it makes on the writer;
  a call through a null pointer is \<open>None\<close>.
\<close>

section \<open>Calls of the writer\<close>

text \<open>Items, tables and join tabs are addresses, a \<open>double\<close> is its 64 bits.\<close>

datatype json_call =
    Add_member string
  | Start_object
  | End_object
  | Start_array
  | End_array
  | Add_str bytes
  | Add_str_len bytes "64 word"
  | Add_str_item nat
  | Add_ll longlong
  | Add_size longlong
  | Add_double "64 word"
  | Add_bool bool
  | Add_null
  | Add_table_name_tab nat
  | Add_table_name nat

text \<open>A pointer to a writer is null or not.\<close>

definition writer_call :: "bool \<Rightarrow> json_call \<Rightarrow> json_call list option" where
  "writer_call writer c = (if writer then Some [c] else None)"

text \<open>One sequence of calls after the other.\<close>

definition and_then :: "json_call list option \<Rightarrow> json_call list option \<Rightarrow> json_call list option" where
  "and_then x y = do { a \<leftarrow> x; b \<leftarrow> y; Some (a @ b) }"

section \<open>\<open>Json_value_helper\<close>\<close>

record Json_value_helper =
  vh_writer :: bool

record lex_cstring =
  lcs_str :: bytes
  lcs_length :: "64 word"

definition vh_init :: "bool \<Rightarrow> Json_value_helper" where
  "vh_init my_writer = \<lparr>vh_writer = my_writer\<rparr>"

definition vh_add_str :: "bytes \<Rightarrow> Json_value_helper \<Rightarrow> json_call list option" where
  "vh_add_str val h = writer_call (vh_writer h) (Add_str val)"

definition vh_add_str_len :: "bytes \<Rightarrow> 64 word \<Rightarrow> Json_value_helper \<Rightarrow> json_call list option" where
  "vh_add_str_len val len h = writer_call (vh_writer h) (Add_str_len val len)"

text \<open>A \<open>String\<close> is given by its \<open>ptr()\<close> and its \<open>length()\<close>.\<close>

definition vh_add_string :: "bytes \<times> uint32 \<Rightarrow> Json_value_helper \<Rightarrow> json_call list option" where
  "vh_add_string str h = writer_call (vh_writer h) (Add_str_len (fst str) (ucast (snd str)))"

definition vh_add_lex_str :: "lex_cstring \<Rightarrow> Json_value_helper \<Rightarrow> json_call list option" where
  "vh_add_lex_str s h = writer_call (vh_writer h) (Add_str_len (lcs_str s) (lcs_length s))"

definition vh_add_item :: "nat \<Rightarrow> Json_value_helper \<Rightarrow> json_call list option" where
  "vh_add_item item h = writer_call (vh_writer h) (Add_str_item item)"

definition vh_add_ll :: "longlong \<Rightarrow> Json_value_helper \<Rightarrow> json_call list option" where
  "vh_add_ll val h = writer_call (vh_writer h) (Add_ll val)"

definition vh_add_size :: "longlong \<Rightarrow> Json_value_helper \<Rightarrow> json_call list option" where
  "vh_add_size val h = writer_call (vh_writer h) (Add_size val)"

definition vh_add_double :: "64 word \<Rightarrow> Json_value_helper \<Rightarrow> json_call list option" where
  "vh_add_double val h = writer_call (vh_writer h) (Add_double val)"

definition vh_add_bool :: "bool \<Rightarrow> Json_value_helper \<Rightarrow> json_call list option" where
  "vh_add_bool val h = writer_call (vh_writer h) (Add_bool val)"

definition vh_add_null :: "Json_value_helper \<Rightarrow> json_call list option" where
  "vh_add_null h = writer_call (vh_writer h) Add_null"

definition vh_add_table_tab :: "nat \<Rightarrow> Json_value_helper \<Rightarrow> json_call list option" where
  "vh_add_table_tab tab h = writer_call (vh_writer h) (Add_table_name_tab tab)"

definition vh_add_table_name :: "nat \<Rightarrow> Json_value_helper \<Rightarrow> json_call list option" where
  "vh_add_table_name table h = writer_call (vh_writer h) (Add_table_name table)"

section \<open>\<open>Json_writer_struct\<close>\<close>

record Json_writer_struct =
  my_writer :: bool
  jws_context :: Json_value_helper
  closed :: bool

text \<open>The argument is whether \<open>get_current_json\<close> of the trace of the session is not null.\<close>

definition json_writer_struct_new :: "bool \<Rightarrow> Json_writer_struct" where
  "json_writer_struct_new current_json =
     \<lparr>my_writer = current_json, jws_context = vh_init current_json, closed = False\<rparr>"

definition trace_started :: "Json_writer_struct \<Rightarrow> bool" where
  "trace_started j = my_writer j"

section \<open>\<open>Json_writer_object\<close>\<close>

definition jwo_add_member :: "string \<Rightarrow> Json_writer_struct \<Rightarrow> json_call list option" where
  "jwo_add_member name j = writer_call (my_writer j) (Add_member name)"

text \<open>The constructors give the object and their calls.\<close>

definition json_object_new :: "bool \<Rightarrow> Json_writer_struct \<times> json_call list" where
  "json_object_new current_json =
     (let j = json_writer_struct_new current_json in (j, if my_writer j then [Start_object] else []))"

definition json_object_new_named :: "bool \<Rightarrow> string \<Rightarrow> Json_writer_struct \<times> json_call list" where
  "json_object_new_named current_json str =
     (let j = json_writer_struct_new current_json in (j, if my_writer j then [Add_member str, Start_object] else []))"

definition json_object_delete :: "Json_writer_struct \<Rightarrow> Json_writer_struct \<times> json_call list" where
  "json_object_delete j = (j\<lparr>closed := True\<rparr>, if my_writer j \<and> \<not> closed j then [End_object] else [])"

definition jwo_add_bool :: "string \<Rightarrow> bool \<Rightarrow> Json_writer_struct \<Rightarrow> json_call list option" where
  "jwo_add_bool name val j =
     (if my_writer j then and_then (jwo_add_member name j) (vh_add_bool val (jws_context j)) else Some [])"

definition jwo_add_ulonglong :: "string \<Rightarrow> ulonglong \<Rightarrow> Json_writer_struct \<Rightarrow> json_call list option" where
  "jwo_add_ulonglong name val j =
     (if my_writer j then and_then (jwo_add_member name j) (vh_add_ll (ucast val) (jws_context j)) else Some [])"

definition jwo_add_longlong :: "string \<Rightarrow> longlong \<Rightarrow> Json_writer_struct \<Rightarrow> json_call list option" where
  "jwo_add_longlong name val j =
     (if my_writer j then and_then (jwo_add_member name j) (vh_add_ll val (jws_context j)) else Some [])"

definition jwo_add_double :: "string \<Rightarrow> 64 word \<Rightarrow> Json_writer_struct \<Rightarrow> json_call list option" where
  "jwo_add_double name val j =
     (if my_writer j then and_then (jwo_add_member name j) (vh_add_double val (jws_context j)) else Some [])"

definition jwo_add_cstr :: "string \<Rightarrow> bytes \<Rightarrow> Json_writer_struct \<Rightarrow> json_call list option" where
  "jwo_add_cstr name val j =
     (if my_writer j then and_then (jwo_add_member name j) (vh_add_str val (jws_context j)) else Some [])"

text \<open>This one does not test the writer.\<close>

definition jwo_add_bytes :: "string \<Rightarrow> bytes \<Rightarrow> 64 word \<Rightarrow> Json_writer_struct \<Rightarrow> json_call list option" where
  "jwo_add_bytes name val num_bytes j =
     and_then (jwo_add_member name j) (vh_add_str_len val num_bytes (jws_context j))"

definition jwo_add_lex :: "string \<Rightarrow> lex_cstring \<Rightarrow> Json_writer_struct \<Rightarrow> json_call list option" where
  "jwo_add_lex name val j =
     (if my_writer j
      then and_then (jwo_add_member name j) (vh_add_str_len (lcs_str val) (lcs_length val) (jws_context j))
      else Some [])"

definition jwo_add_item :: "string \<Rightarrow> nat \<Rightarrow> Json_writer_struct \<Rightarrow> json_call list option" where
  "jwo_add_item name val j =
     (if my_writer j then and_then (jwo_add_member name j) (vh_add_item val (jws_context j)) else Some [])"

definition jwo_add_null :: "string \<Rightarrow> Json_writer_struct \<Rightarrow> json_call list option" where
  "jwo_add_null name j =
     (if my_writer j then and_then (jwo_add_member name j) (vh_add_null (jws_context j)) else Some [])"

definition jwo_add_table_tab :: "nat \<Rightarrow> Json_writer_struct \<Rightarrow> json_call list option" where
  "jwo_add_table_tab tab j =
     (if my_writer j then and_then (jwo_add_member ''table'' j) (vh_add_table_tab tab (jws_context j)) else Some [])"

definition jwo_add_table_name :: "nat \<Rightarrow> Json_writer_struct \<Rightarrow> json_call list option" where
  "jwo_add_table_name table j =
     (if my_writer j then and_then (jwo_add_member ''table'' j) (vh_add_table_name table (jws_context j)) else Some [])"

text \<open>The bytes of \<open>"fake"\<close>; \<open>INT_MAX\<close> is \<open>2 ^ 31 - 1\<close>.\<close>

definition jwo_add_select_number :: "uint \<Rightarrow> Json_writer_struct \<Rightarrow> json_call list option" where
  "jwo_add_select_number select_number j =
     (if my_writer j
      then and_then (jwo_add_member ''select_id'' j)
        (if select_number \<ge> 2147483647 then vh_add_str [102, 97, 107, 101] (jws_context j)
         else vh_add_ll (ucast select_number) (jws_context j))
      else Some [])"

definition json_object_end :: "Json_writer_struct \<Rightarrow> Json_writer_struct \<times> json_call list" where
  "json_object_end j = (j\<lparr>closed := True\<rparr>, if my_writer j then [End_object] else [])"

section \<open>\<open>Json_writer_array\<close>\<close>

definition json_array_new :: "bool \<Rightarrow> Json_writer_struct \<times> json_call list" where
  "json_array_new current_json =
     (let j = json_writer_struct_new current_json in (j, if my_writer j then [Start_array] else []))"

definition json_array_new_named :: "bool \<Rightarrow> string \<Rightarrow> Json_writer_struct \<times> json_call list" where
  "json_array_new_named current_json str =
     (let j = json_writer_struct_new current_json in (j, if my_writer j then [Add_member str, Start_array] else []))"

definition json_array_delete :: "Json_writer_struct \<Rightarrow> Json_writer_struct \<times> json_call list" where
  "json_array_delete j =
     (if my_writer j \<and> \<not> closed j then (j\<lparr>closed := True\<rparr>, [End_array]) else (j, []))"

definition json_array_end :: "Json_writer_struct \<Rightarrow> Json_writer_struct \<times> json_call list" where
  "json_array_end j = (j\<lparr>closed := True\<rparr>, if my_writer j then [End_array] else [])"

definition jwa_add_bool :: "bool \<Rightarrow> Json_writer_struct \<Rightarrow> json_call list option" where
  "jwa_add_bool val j = (if my_writer j then vh_add_bool val (jws_context j) else Some [])"

definition jwa_add_ulonglong :: "ulonglong \<Rightarrow> Json_writer_struct \<Rightarrow> json_call list option" where
  "jwa_add_ulonglong val j = (if my_writer j then vh_add_ll (ucast val) (jws_context j) else Some [])"

definition jwa_add_longlong :: "longlong \<Rightarrow> Json_writer_struct \<Rightarrow> json_call list option" where
  "jwa_add_longlong val j = (if my_writer j then vh_add_ll val (jws_context j) else Some [])"

definition jwa_add_double :: "64 word \<Rightarrow> Json_writer_struct \<Rightarrow> json_call list option" where
  "jwa_add_double val j = (if my_writer j then vh_add_double val (jws_context j) else Some [])"

definition jwa_add_cstr :: "bytes \<Rightarrow> Json_writer_struct \<Rightarrow> json_call list option" where
  "jwa_add_cstr val j = (if my_writer j then vh_add_str val (jws_context j) else Some [])"

definition jwa_add_bytes :: "bytes \<Rightarrow> 64 word \<Rightarrow> Json_writer_struct \<Rightarrow> json_call list option" where
  "jwa_add_bytes val num_bytes j =
     (if my_writer j then vh_add_str_len val num_bytes (jws_context j) else Some [])"

definition jwa_add_lex :: "lex_cstring \<Rightarrow> Json_writer_struct \<Rightarrow> json_call list option" where
  "jwa_add_lex val j =
     (if my_writer j then vh_add_str_len (lcs_str val) (lcs_length val) (jws_context j) else Some [])"

definition jwa_add_item :: "nat \<Rightarrow> Json_writer_struct \<Rightarrow> json_call list option" where
  "jwa_add_item val j = (if my_writer j then vh_add_item val (jws_context j) else Some [])"

definition jwa_add_null :: "Json_writer_struct \<Rightarrow> json_call list option" where
  "jwa_add_null j = (if my_writer j then vh_add_null (jws_context j) else Some [])"

definition jwa_add_table_tab :: "nat \<Rightarrow> Json_writer_struct \<Rightarrow> json_call list option" where
  "jwa_add_table_tab tab j = (if my_writer j then vh_add_table_tab tab (jws_context j) else Some [])"

definition jwa_add_table_name :: "nat \<Rightarrow> Json_writer_struct \<Rightarrow> json_call list option" where
  "jwa_add_table_name table j = (if my_writer j then vh_add_table_name table (jws_context j) else Some [])"


section \<open>Programs with scopes\<close>

text \<open>
  A use of the classes: an object or an array is declared in a scope, members or elements are added, further scopes
  nested in it; then it is closed by \<open>end()\<close>, or only by its destructor. A nested scope may run while the trace is
  disabled (by \<open>Json_writer_temp_disable\<close>); then its writer is null.
\<close>

datatype json_value =
    V_bool bool
  | V_ulonglong ulonglong
  | V_longlong longlong
  | V_double "64 word"
  | V_cstr bytes
  | V_bytes bytes "64 word"
  | V_lex lex_cstring
  | V_item nat
  | V_null
  | V_table_tab nat
  | V_table nat

fun object_add :: "string \<Rightarrow> json_value \<Rightarrow> Json_writer_struct \<Rightarrow> json_call list option" where
  "object_add name (V_bool v) j = jwo_add_bool name v j"
| "object_add name (V_ulonglong v) j = jwo_add_ulonglong name v j"
| "object_add name (V_longlong v) j = jwo_add_longlong name v j"
| "object_add name (V_double v) j = jwo_add_double name v j"
| "object_add name (V_cstr v) j = jwo_add_cstr name v j"
| "object_add name (V_bytes v n) j = jwo_add_bytes name v n j"
| "object_add name (V_lex v) j = jwo_add_lex name v j"
| "object_add name (V_item v) j = jwo_add_item name v j"
| "object_add name V_null j = jwo_add_null name j"
| "object_add name (V_table_tab v) j = jwo_add_table_tab v j"
| "object_add name (V_table v) j = jwo_add_table_name v j"

fun array_add :: "json_value \<Rightarrow> Json_writer_struct \<Rightarrow> json_call list option" where
  "array_add (V_bool v) j = jwa_add_bool v j"
| "array_add (V_ulonglong v) j = jwa_add_ulonglong v j"
| "array_add (V_longlong v) j = jwa_add_longlong v j"
| "array_add (V_double v) j = jwa_add_double v j"
| "array_add (V_cstr v) j = jwa_add_cstr v j"
| "array_add (V_bytes v n) j = jwa_add_bytes v n j"
| "array_add (V_lex v) j = jwa_add_lex v j"
| "array_add (V_item v) j = jwa_add_item v j"
| "array_add V_null j = jwa_add_null j"
| "array_add (V_table_tab v) j = jwa_add_table_tab v j"
| "array_add (V_table v) j = jwa_add_table_name v j"

datatype json_scope =
    Object_scope "object_stmt list" bool
  | Array_scope "array_stmt list" bool
and object_stmt =
    O_add string json_value
  | O_select uint
  | O_nested string bool json_scope
and array_stmt =
    A_add json_value
  | A_nested bool json_scope

definition object_new :: "bool \<Rightarrow> string option \<Rightarrow> Json_writer_struct \<times> json_call list" where
  "object_new w name = (case name of None \<Rightarrow> json_object_new w | Some n \<Rightarrow> json_object_new_named w n)"

definition array_new :: "bool \<Rightarrow> string option \<Rightarrow> Json_writer_struct \<times> json_call list" where
  "array_new w name = (case name of None \<Rightarrow> json_array_new w | Some n \<Rightarrow> json_array_new_named w n)"

text \<open>The calls of a scope: of the constructor, of its statements, of \<open>end()\<close> and of the destructor.\<close>

definition object_close :: "bool \<Rightarrow> Json_writer_struct \<Rightarrow> json_call list" where
  "object_close explicit j =
     (let (j, c1) = (if explicit then json_object_end j else (j, [])); (j, c2) = json_object_delete j in c1 @ c2)"

definition array_close :: "bool \<Rightarrow> Json_writer_struct \<Rightarrow> json_call list" where
  "array_close explicit j =
     (let (j, c1) = (if explicit then json_array_end j else (j, [])); (j, c2) = json_array_delete j in c1 @ c2)"

fun run_scope :: "bool \<Rightarrow> string option \<Rightarrow> json_scope \<Rightarrow> json_call list option"
  and run_object :: "Json_writer_struct \<Rightarrow> object_stmt list \<Rightarrow> json_call list option"
  and run_array :: "Json_writer_struct \<Rightarrow> array_stmt list \<Rightarrow> json_call list option"
where
  "run_scope w name (Object_scope xs explicit) =
     (let (j, c) = object_new w name
      in and_then (Some c) (and_then (run_object j xs) (Some (object_close explicit j))))"
| "run_scope w name (Array_scope xs explicit) =
     (let (j, c) = array_new w name
      in and_then (Some c) (and_then (run_array j xs) (Some (array_close explicit j))))"
| "run_object j [] = Some []"
| "run_object j (O_add name v # xs) = and_then (object_add name v j) (run_object j xs)"
| "run_object j (O_select n # xs) = and_then (jwo_add_select_number n j) (run_object j xs)"
| "run_object j (O_nested name enabled s # xs) =
     and_then (run_scope (my_writer j \<and> enabled) (Some name) s) (run_object j xs)"
| "run_array j [] = Some []"
| "run_array j (A_add v # xs) = and_then (array_add v j) (run_array j xs)"
| "run_array j (A_nested enabled s # xs) =
     and_then (run_scope (my_writer j \<and> enabled) None s) (run_array j xs)"

text \<open>No object whose writer is null is asked to add a number of bytes.\<close>

fun null_safe :: "bool \<Rightarrow> json_scope \<Rightarrow> bool"
  and null_safe_object :: "bool \<Rightarrow> object_stmt list \<Rightarrow> bool"
  and null_safe_array :: "bool \<Rightarrow> array_stmt list \<Rightarrow> bool"
where
  "null_safe w (Object_scope xs explicit) \<longleftrightarrow> null_safe_object w xs"
| "null_safe w (Array_scope xs explicit) \<longleftrightarrow> null_safe_array w xs"
| "null_safe_object w [] \<longleftrightarrow> True"
| "null_safe_object w (O_add name v # xs) \<longleftrightarrow>
     (w \<or> (case v of V_bytes _ _ \<Rightarrow> False | _ \<Rightarrow> True)) \<and> null_safe_object w xs"
| "null_safe_object w (O_select n # xs) \<longleftrightarrow> null_safe_object w xs"
| "null_safe_object w (O_nested name enabled s # xs) \<longleftrightarrow> null_safe (w \<and> enabled) s \<and> null_safe_object w xs"
| "null_safe_array w [] \<longleftrightarrow> True"
| "null_safe_array w (A_add v # xs) \<longleftrightarrow> null_safe_array w xs"
| "null_safe_array w (A_nested enabled s # xs) \<longleftrightarrow> null_safe (w \<and> enabled) s \<and> null_safe_array w xs"

section \<open>Documents\<close>

text \<open>
  What the writer requires of its calls: a document is one value, an object has members that are a name and a
  value, an array has values. The stack holds what encloses the next call.
\<close>

datatype json_context = In_document | In_object | After_name | In_array

fun take_value :: "json_context list \<Rightarrow> json_context list option" where
  "take_value (In_document # st) = Some st"
| "take_value (After_name # st) = Some (In_object # st)"
| "take_value (In_array # st) = Some (In_array # st)"
| "take_value _ = None"

fun accept_call :: "json_call \<Rightarrow> json_context list \<Rightarrow> json_context list option" where
  "accept_call (Add_member _) st = (case st of In_object # st \<Rightarrow> Some (After_name # st) | _ \<Rightarrow> None)"
| "accept_call Start_object st = map_option (Cons In_object) (take_value st)"
| "accept_call Start_array st = map_option (Cons In_array) (take_value st)"
| "accept_call End_object st = (case st of In_object # st \<Rightarrow> Some st | _ \<Rightarrow> None)"
| "accept_call End_array st = (case st of In_array # st \<Rightarrow> Some st | _ \<Rightarrow> None)"
| "accept_call _ st = take_value st"

fun accept_calls :: "json_call list \<Rightarrow> json_context list \<Rightarrow> json_context list option" where
  "accept_calls [] st = Some st"
| "accept_calls (c # cs) st = do { st \<leftarrow> accept_call c st; accept_calls cs st }"

lemma accept_calls_append: "accept_calls (a @ b) st = do { st \<leftarrow> accept_calls a st; accept_calls b st }"
  by (induction a arbitrary: st) (auto split: bind_splits)

lemma and_then_Some [simp]: "and_then x y = Some c \<longleftrightarrow> (\<exists>a b. x = Some a \<and> y = Some b \<and> c = a @ b)"
  by (auto simp: and_then_def split: bind_splits)

lemma and_then_None [simp]: "and_then x y = None \<longleftrightarrow> x = None \<or> y = None"
  by (auto simp: and_then_def split: bind_splits)

lemmas writer_defs = writer_call_def jwo_add_member_def vh_add_str_def vh_add_str_len_def vh_add_lex_str_def
  vh_add_item_def vh_add_ll_def vh_add_double_def vh_add_bool_def vh_add_null_def vh_add_table_tab_def
  vh_add_table_name_def

lemmas object_add_defs = jwo_add_bool_def jwo_add_ulonglong_def jwo_add_longlong_def jwo_add_double_def
  jwo_add_cstr_def jwo_add_bytes_def jwo_add_lex_def jwo_add_item_def jwo_add_null_def jwo_add_table_tab_def
  jwo_add_table_name_def jwo_add_select_number_def writer_defs

lemmas array_add_defs = jwa_add_bool_def jwa_add_ulonglong_def jwa_add_longlong_def jwa_add_double_def
  jwa_add_cstr_def jwa_add_bytes_def jwa_add_lex_def jwa_add_item_def jwa_add_null_def jwa_add_table_tab_def
  jwa_add_table_name_def writer_defs

lemmas scope_defs = object_new_def array_new_def json_object_new_def json_object_new_named_def json_array_new_def
  json_array_new_named_def json_writer_struct_new_def vh_init_def object_close_def array_close_def
  json_object_end_def json_object_delete_def json_array_end_def json_array_delete_def

text \<open>The state of an open object or array.\<close>

definition open_struct :: "bool \<Rightarrow> Json_writer_struct \<Rightarrow> bool" where
  "open_struct w j \<longleftrightarrow> my_writer j = w \<and> vh_writer (jws_context j) = w \<and> \<not> closed j"

lemma object_add_calls:
  assumes "open_struct w j"
  shows "object_add name v j = None \<longleftrightarrow> \<not> w \<and> (\<exists>b n. v = V_bytes b n)"
    "object_add name v j = Some c \<Longrightarrow> if w then accept_calls c (In_object # st) = Some (In_object # st) else c = []"
    "jwo_add_select_number sel j = Some c \<Longrightarrow>
       if w then accept_calls c (In_object # st) = Some (In_object # st) else c = []"
    "jwo_add_select_number sel j \<noteq> None"
  using assms by (cases v; auto simp: object_add_defs open_struct_def split: if_splits)+

lemma array_add_calls:
  assumes "open_struct w j"
  shows "array_add v j \<noteq> None"
    "array_add v j = Some c \<Longrightarrow> if w then accept_calls c (In_array # st) = Some (In_array # st) else c = []"
  using assms by (cases v; auto simp: array_add_defs open_struct_def split: if_splits)+


text \<open>Where a scope may be opened, and what encloses the calls after it.\<close>

definition scope_place :: "string option \<Rightarrow> json_context list \<Rightarrow> json_context list option" where
  "scope_place name st =
     (case name of None \<Rightarrow> take_value st
      | Some _ \<Rightarrow> (case st of In_object # _ \<Rightarrow> Some st | _ \<Rightarrow> None))"

lemma bind_accept_Nil: "(x \<bind> accept_calls []) = x"
  by (cases x) simp_all

lemma scope_new:
  "object_new w name = (j, c) \<Longrightarrow> open_struct w j"
  "array_new w name = (j, c) \<Longrightarrow> open_struct w j"
  "object_new w name = (j, c) \<Longrightarrow>
     if w then accept_calls c st = map_option (Cons In_object) (scope_place name st) else c = []"
  "array_new w name = (j, c) \<Longrightarrow>
     if w then accept_calls c st = map_option (Cons In_array) (scope_place name st) else c = []"
  by (auto simp: scope_defs open_struct_def scope_place_def bind_accept_Nil
      split: option.splits list.splits json_context.splits)

lemma scope_close:
  assumes "open_struct w j"
  shows "object_close e j = (if w then [End_object] else [])" "array_close e j = (if w then [End_array] else [])"
  using assms by (auto simp: scope_defs open_struct_def)

lemma run_null_safe:
  "(run_scope w name s = None) = (\<not> null_safe w s)"
  "open_struct v j \<Longrightarrow> (run_object j xs = None) = (\<not> null_safe_object v xs)"
  "open_struct v j \<Longrightarrow> (run_array j ys = None) = (\<not> null_safe_array v ys)"
proof (induction w name s and j xs and j ys arbitrary: and v and v rule: run_scope_run_object_run_array.induct)
  case (1 w name xs explicit)
  then show ?case using scope_new(1) [of w name] by (auto split: prod.splits)
next
  case (2 w name xs explicit)
  then show ?case using scope_new(2) [of w name] by (auto split: prod.splits)
next
  case (4 j name v xs)
  then show ?case using object_add_calls(1) [OF 4(2)] by (auto split: json_value.splits)
next
  case (5 j n xs)
  then show ?case using object_add_calls(4) [OF 5(2), of n] by auto
next
  case (6 j name enabled s xs)
  then show ?case by (auto simp: open_struct_def)
next
  case (8 j u xs)
  then show ?case using array_add_calls(1) [OF 8(2), of u] by auto
next
  case (9 j enabled s xs)
  then show ?case by (auto simp: open_struct_def)
qed simp_all


lemma run_accepted:
  "run_scope w name s = Some c \<Longrightarrow> if w then accept_calls c st = scope_place name st else c = []"
  "open_struct v j \<Longrightarrow> run_object j xs = Some c \<Longrightarrow>
     if v then accept_calls c (In_object # st) = Some (In_object # st) else c = []"
  "open_struct v j \<Longrightarrow> run_array j ys = Some c \<Longrightarrow>
     if v then accept_calls c (In_array # st) = Some (In_array # st) else c = []"
proof (induction w name s and j xs and j ys arbitrary: c st and v c st and v c st
    rule: run_scope_run_object_run_array.induct)
  case (1 w name xs explicit)
  obtain j c0 where j: "object_new w name = (j, c0)" by force
  then obtain c1 where c1: "run_object j xs = Some c1" "c = c0 @ c1 @ object_close explicit j"
    using 1(2) by auto
  note o = scope_new(1) [OF j]
  note n = scope_new(3) [OF j, of st] and b = 1(1) [OF j [symmetric] refl o c1(1)]
  show ?case
    using n b c1(2) scope_close(1) [OF o]
    by (cases "scope_place name st") (auto simp: accept_calls_append split: if_splits)
next
  case (2 w name xs explicit)
  obtain j c0 where j: "array_new w name = (j, c0)" by force
  then obtain c1 where c1: "run_array j xs = Some c1" "c = c0 @ c1 @ array_close explicit j"
    using 2(2) by auto
  note o = scope_new(2) [OF j]
  note n = scope_new(4) [OF j, of st] and b = 2(1) [OF j [symmetric] refl o c1(1)]
  show ?case
    using n b c1(2) scope_close(2) [OF o]
    by (cases "scope_place name st") (auto simp: accept_calls_append split: if_splits)
next
  case (4 j name u xs)
  then obtain a b where c: "object_add name u j = Some a" "run_object j xs = Some b" "c = a @ b" by auto
  then show ?case
    using object_add_calls(2) [OF 4(2) c(1), of st] 4(1) [OF 4(2) c(2), of st]
    by (auto simp: accept_calls_append)
next
  case (5 j n xs)
  then obtain a b where c: "jwo_add_select_number n j = Some a" "run_object j xs = Some b" "c = a @ b" by auto
  then show ?case
    using object_add_calls(3) [OF 5(2) c(1), of st] 5(1) [OF 5(2) c(2), of st]
    by (auto simp: accept_calls_append)
next
  case (6 j name enabled s xs)
  then obtain a b where c: "run_scope (my_writer j \<and> enabled) (Some name) s = Some a" "run_object j xs = Some b"
    "c = a @ b" by auto
  then show ?case
    using 6(1) [OF c(1), of "In_object # st"] 6(2) [OF 6(3) c(2), of st] 6(3)
    by (auto simp: accept_calls_append scope_place_def open_struct_def split: if_splits)
next
  case (8 j u xs)
  then obtain a b where c: "array_add u j = Some a" "run_array j xs = Some b" "c = a @ b" by auto
  then show ?case
    using array_add_calls(2) [OF 8(2) c(1), of st] 8(1) [OF 8(2) c(2), of st]
    by (auto simp: accept_calls_append)
next
  case (9 j enabled s xs)
  then obtain a b where c: "run_scope (my_writer j \<and> enabled) None s = Some a" "run_array j xs = Some b" "c = a @ b"
    by auto
  then show ?case
    using 9(1) [OF c(1), of "In_array # st"] 9(2) [OF 9(3) c(2), of st] 9(3)
    by (auto simp: accept_calls_append scope_place_def open_struct_def split: if_splits)
qed simp_all

text \<open>
  C7. Whatever is traced through \<open>Json_writer_object\<close> and \<open>Json_writer_array\<close>, with scopes nested to any depth,
  parts of it with the trace disabled, and every object or array closed by \<open>end()\<close> or only by its destructor, the
  writer is asked for a well-formed document: one value, whose objects hold pairs of a name and a value, whose
  arrays hold values, and whose parts are all closed, each exactly once. With no writer nothing is written. The
  only exception is \<open>Json_writer_object::add\<close> of a number of bytes, which does not test for the writer: the
  program calls a function of a null writer exactly when it uses it in an object without a writer.
\<close>

theorem json_scopes_well_formed:
  "case run_scope w None s of
     None \<Rightarrow> \<not> null_safe w s
   | Some calls \<Rightarrow> null_safe w s \<and> (if w then accept_calls calls [In_document] = Some [] else calls = [])"
  using run_null_safe(1) [of w None s] run_accepted(1) [of w None s _ "[In_document]"]
  by (cases "run_scope w None s") (auto simp: scope_place_def split: if_splits)


text \<open>Both \<open>add\<close> functions hand an unsigned number over as a signed one: from \<open>2 ^ 63\<close> on it is written negative.\<close>

lemma add_ulonglong_signed:
  assumes "open_struct True j"
  shows "\<exists>n. jwo_add_ulonglong name v j = Some [Add_member name, Add_ll n] \<and> jwa_add_ulonglong v j = Some [Add_ll n] \<and>
    sint n = (if uint v < 2 ^ 63 then uint v else uint v - 2 ^ 64)"
proof -
  have "uint v < 2 ^ 64" using uint_bounded [of v] by simp
  then have "uint v div 2 ^ 63 = (if uint v < 2 ^ 63 then 0 else 1)" by auto
  then have "sint v = (if uint v < 2 ^ 63 then uint v else uint v - 2 ^ 64)"
    using sint_uint [of v] by (simp add: signed_take_bit_eq_take_bit_minus take_bit_int_eq_self bit_iff_odd split: if_splits)
  then show ?thesis
    using assms by (simp add: open_struct_def object_add_defs array_add_defs and_then_def)
qed

end
