(* ===== verification/IoCache.thy ===== *)
theory IoCache
  imports Prelude
begin

text \<open>
  The inline functions of \<open>IO_CACHE\<close>, of \<open>my_sys.h\<close>: reading and writing through a buffer in memory. The functions
  that touch the file are only declared and are a parameter.
\<close>

section \<open>Data\<close>

text \<open>The constants of \<open>enum cache_type\<close>.\<close>

datatype cache_type = TYPE_NOT_SET | READ_CACHE | WRITE_CACHE | SEQ_READ_APPEND | READ_FIFO | READ_NET

text \<open>Pointers are byte addresses.\<close>

record IO_CACHE =
  pos_in_file :: ulonglong
  end_of_file :: ulonglong
  read_pos :: nat
  read_end :: nat
  ioc_buffer :: nat
  request_pos :: nat
  write_buffer :: nat
  append_read_pos :: nat
  write_pos :: nat
  write_end :: nat
  ioc_type :: cache_type

text \<open>The cache, the memory, and the file with all that the declared functions know.\<close>

record 'f io =
  io_cache :: IO_CACHE
  io_mem :: "nat \<Rightarrow> uchar"
  io_file :: 'f

definition mem_bytes :: "(nat \<Rightarrow> uchar) \<Rightarrow> nat \<Rightarrow> nat \<Rightarrow> bytes" where
  "mem_bytes m a b = map m [a ..< b]"

definition mem_put :: "(nat \<Rightarrow> uchar) \<Rightarrow> nat \<Rightarrow> bytes \<Rightarrow> nat \<Rightarrow> uchar" where
  "mem_put m a bs = (\<lambda>i. if a \<le> i \<and> i < a + length bs then bs ! (i - a) else m i)"

text \<open>
  The declared functions: \<open>_my_b_read\<close> gives its status and the bytes it puts into the buffer of the caller,
  \<open>_my_b_get\<close> a character or \<open>my_b_EOF\<close>, \<open>_my_b_write\<close> and \<open>my_b_flush_io_cache\<close> their status.
\<close>

record 'f io_lib =
  slow_read :: "'f io \<Rightarrow> nat \<Rightarrow> int \<times> bytes \<times> 'f io"
  slow_get :: "'f io \<Rightarrow> int \<times> 'f io"
  slow_write :: "'f io \<Rightarrow> bytes \<Rightarrow> int \<times> 'f io"
  flush_cache :: "'f io \<Rightarrow> int \<times> 'f io"

section \<open>Operations\<close>

definition my_b_clear :: "IO_CACHE \<Rightarrow> IO_CACHE" where
  "my_b_clear c = c\<lparr>ioc_buffer := 0\<rparr>"

definition my_b_inited :: "IO_CACHE \<Rightarrow> int" where
  "my_b_inited c = (if ioc_buffer c \<noteq> 0 then 1 else 0)"

definition my_b_EOF :: int where
  "my_b_EOF = - (2 ^ 31)"

text \<open>The status, the bytes put into \<open>Buffer\<close>, the new state.\<close>

definition my_b_read :: "'f io_lib \<Rightarrow> nat \<Rightarrow> 'f io \<Rightarrow> int \<times> bytes \<times> 'f io" where
  "my_b_read lib n s =
     (let c = io_cache s
      in if read_pos c + n \<le> read_end c
         then (0, mem_bytes (io_mem s) (read_pos c) (read_pos c + n), s\<lparr>io_cache := c\<lparr>read_pos := read_pos c + n\<rparr>\<rparr>)
         else slow_read lib s n)"

definition my_b_write :: "'f io_lib \<Rightarrow> bytes \<Rightarrow> 'f io \<Rightarrow> int \<times> 'f io" where
  "my_b_write lib bs s =
     (let c = io_cache s
      in if write_pos c + length bs \<le> write_end c
         then (0, s\<lparr>io_mem := mem_put (io_mem s) (write_pos c) bs,
                    io_cache := c\<lparr>write_pos := write_pos c + length bs\<rparr>\<rparr>)
         else slow_write lib s bs)"

definition my_b_get :: "'f io_lib \<Rightarrow> 'f io \<Rightarrow> int \<times> 'f io" where
  "my_b_get lib s =
     (let c = io_cache s
      in if read_pos c \<noteq> read_end c
         then (uint (io_mem s (read_pos c)), s\<lparr>io_cache := c\<lparr>read_pos := read_pos c + 1\<rparr>\<rparr>)
         else slow_get lib s)"

definition my_b_write_byte :: "'f io_lib \<Rightarrow> uchar \<Rightarrow> 'f io \<Rightarrow> bool \<times> 'f io" where
  "my_b_write_byte lib chr s =
     (let (r, s) = (if write_pos (io_cache s) \<ge> write_end (io_cache s) then flush_cache lib s else (0, s))
      in if r \<noteq> 0 then (True, s)
         else (let c = io_cache s
               in (False, s\<lparr>io_mem := (io_mem s)(write_pos c := chr), io_cache := c\<lparr>write_pos := write_pos c + 1\<rparr>\<rparr>)))"

definition my_b_fill :: "'f io_lib \<Rightarrow> 'f io \<Rightarrow> nat \<times> 'f io" where
  "my_b_fill lib s =
     (let s = s\<lparr>io_cache := (io_cache s)\<lparr>read_pos := read_end (io_cache s)\<rparr>\<rparr>;
          (r, _, s) = slow_read lib s 0
      in (if r \<noteq> 0 then 0 else read_end (io_cache s) - read_pos (io_cache s), s))"

text \<open>Differences of pointers are taken modulo \<open>2 ^ 64\<close>.\<close>

definition my_b_tell :: "IO_CACHE \<Rightarrow> ulonglong" where
  "my_b_tell c =
     (if ioc_type c = WRITE_CACHE
      then pos_in_file c + word_of_int (int (write_pos c) - int (request_pos c))
      else pos_in_file c + word_of_int (int (read_pos c) - int (request_pos c)))"

definition my_b_write_tell :: "IO_CACHE \<Rightarrow> ulonglong" where
  "my_b_write_tell c = pos_in_file c + word_of_int (int (write_pos c) - int (write_buffer c))"

definition my_b_get_buffer_start :: "IO_CACHE \<Rightarrow> nat" where
  "my_b_get_buffer_start c = request_pos c"

definition my_b_get_bytes_in_buffer :: "IO_CACHE \<Rightarrow> 64 word" where
  "my_b_get_bytes_in_buffer c = word_of_int (int (read_end c) - int (request_pos c))"

definition my_b_get_pos_in_file :: "IO_CACHE \<Rightarrow> ulonglong" where
  "my_b_get_pos_in_file c = pos_in_file c"

definition my_b_bytes_in_cache :: "IO_CACHE \<Rightarrow> 64 word" where
  "my_b_bytes_in_cache c =
     (if ioc_type c = WRITE_CACHE then word_of_int (int (write_end c) - int (write_pos c))
      else word_of_int (int (read_end c) - int (read_pos c)))"

section \<open>The stream that is read\<close>

text \<open>
  What is still to be read: the rest of the buffer, then what the file has ahead. The documented behaviour of the
  declared functions is that of the stream too: they are called when the buffer does not have enough.
\<close>

definition to_read :: "('f \<Rightarrow> bytes) \<Rightarrow> 'f io \<Rightarrow> bytes" where
  "to_read ahead s =
     mem_bytes (io_mem s) (read_pos (io_cache s)) (read_end (io_cache s)) @ ahead (io_file s)"

definition read_ok :: "'f io \<Rightarrow> bool" where
  "read_ok s \<longleftrightarrow> read_pos (io_cache s) \<le> read_end (io_cache s)"

definition reader_ok :: "'f io_lib \<Rightarrow> ('f \<Rightarrow> bytes) \<Rightarrow> bool" where
  "reader_ok lib ahead \<longleftrightarrow>
     (\<forall>s n r bs s'. read_ok s \<longrightarrow> read_end (io_cache s) < read_pos (io_cache s) + n \<longrightarrow> slow_read lib s n = (r, bs, s') \<longrightarrow>
        read_ok s' \<and>
        (if n \<le> length (to_read ahead s)
         then r = 0 \<and> bs = take n (to_read ahead s) \<and> to_read ahead s' = drop n (to_read ahead s)
         else r \<noteq> 0)) \<and>
     (\<forall>s r s'. read_ok s \<longrightarrow> read_pos (io_cache s) = read_end (io_cache s) \<longrightarrow> slow_get lib s = (r, s') \<longrightarrow>
        read_ok s' \<and>
        (case to_read ahead s of [] \<Rightarrow> r = my_b_EOF \<and> to_read ahead s' = [] | b # bs \<Rightarrow> r = uint b \<and> to_read ahead s' = bs))"

text \<open>A caller that reads blocks and single characters; it stops at an error or at the end.\<close>

datatype read_call = Read nat | Get

fun read_calls :: "'f io_lib \<Rightarrow> read_call list \<Rightarrow> 'f io \<Rightarrow> bytes \<times> bool \<times> 'f io" where
  "read_calls lib [] s = ([], True, s)"
| "read_calls lib (Read n # cs) s =
     (case my_b_read lib n s of (r, bs, s) \<Rightarrow>
        if r \<noteq> 0 then (bs, False, s) else (case read_calls lib cs s of (bs', ok, s) \<Rightarrow> (bs @ bs', ok, s)))"
| "read_calls lib (Get # cs) s =
     (case my_b_get lib s of (r, s) \<Rightarrow>
        if r = my_b_EOF then ([], False, s)
        else (case read_calls lib cs s of (bs', ok, s) \<Rightarrow> (word_of_int r # bs', ok, s)))"

fun read_size :: "read_call \<Rightarrow> nat" where
  "read_size (Read n) = n"
| "read_size Get = 1"

section \<open>The stream that is written\<close>

text \<open>What has been written: what the file has, then the buffer up to the write position.\<close>

definition written :: "('f \<Rightarrow> bytes) \<Rightarrow> 'f io \<Rightarrow> bytes" where
  "written behind s = behind (io_file s) @ mem_bytes (io_mem s) (write_buffer (io_cache s)) (write_pos (io_cache s))"

definition write_ok :: "'f io \<Rightarrow> bool" where
  "write_ok s \<longleftrightarrow> write_buffer (io_cache s) \<le> write_pos (io_cache s) \<and> write_pos (io_cache s) \<le> write_end (io_cache s)"

definition writer_ok :: "'f io_lib \<Rightarrow> ('f \<Rightarrow> bytes) \<Rightarrow> bool" where
  "writer_ok lib behind \<longleftrightarrow>
     (\<forall>s bs s'. write_ok s \<longrightarrow> write_end (io_cache s) < write_pos (io_cache s) + length bs \<longrightarrow>
        slow_write lib s bs = (0, s') \<longrightarrow> write_ok s' \<and> written behind s' = written behind s @ bs) \<and>
     (\<forall>s s'. write_ok s \<longrightarrow> flush_cache lib s = (0, s') \<longrightarrow>
        write_ok s' \<and> write_pos (io_cache s') < write_end (io_cache s') \<and> written behind s' = written behind s)"

datatype write_call = Write bytes | Write_byte uchar

fun write_text :: "write_call \<Rightarrow> bytes" where
  "write_text (Write bs) = bs"
| "write_text (Write_byte b) = [b]"

text \<open>A caller that writes until the first error; whether there was none.\<close>

fun write_calls :: "'f io_lib \<Rightarrow> write_call list \<Rightarrow> 'f io \<Rightarrow> bool \<times> 'f io" where
  "write_calls lib [] s = (True, s)"
| "write_calls lib (Write bs # cs) s =
     (case my_b_write lib bs s of (r, s) \<Rightarrow> if r \<noteq> 0 then (False, s) else write_calls lib cs s)"
| "write_calls lib (Write_byte b # cs) s =
     (case my_b_write_byte lib b s of (err, s) \<Rightarrow> if err then (False, s) else write_calls lib cs s)"


section \<open>Properties\<close>

lemma length_mem_bytes [simp]: "length (mem_bytes m a b) = b - a"
  by (simp add: mem_bytes_def)

lemma mem_bytes_split: "a \<le> b \<Longrightarrow> b \<le> c \<Longrightarrow> mem_bytes m a c = mem_bytes m a b @ mem_bytes m b c"
  using upt_add_eq_append [of a b "c - b"] by (simp add: mem_bytes_def)

lemma mem_bytes_put:
  "a \<le> b \<Longrightarrow> mem_bytes (mem_put m b bs) a (b + length bs) = mem_bytes m a b @ bs"
  by (rule nth_equalityI) (auto simp: mem_bytes_def mem_put_def nth_append add.commute)

lemma my_b_read_stream:
  assumes "reader_ok lib ahead" "read_ok s" "my_b_read lib n s = (r, bs, s')"
  shows "read_ok s' \<and>
    (if n \<le> length (to_read ahead s)
     then r = 0 \<and> bs = take n (to_read ahead s) \<and> to_read ahead s' = drop n (to_read ahead s)
     else r \<noteq> 0)"
proof (cases "read_pos (io_cache s) + n \<le> read_end (io_cache s)")
  case True
  let ?p = "read_pos (io_cache s)" and ?e = "read_end (io_cache s)"
  have "mem_bytes (io_mem s) ?p ?e = mem_bytes (io_mem s) ?p (?p + n) @ mem_bytes (io_mem s) (?p + n) ?e"
    using True by (intro mem_bytes_split) auto
  then show ?thesis
    using True assms(3) by (auto simp: my_b_read_def Let_def read_ok_def to_read_def)
next
  case False
  then have "slow_read lib s n = (r, bs, s')" using assms(3) by (simp add: my_b_read_def Let_def)
  then show ?thesis using assms(1,2) False unfolding reader_ok_def by (meson not_le)
qed

lemma my_b_get_stream:
  assumes "reader_ok lib ahead" "read_ok s" "my_b_get lib s = (r, s')"
  shows "read_ok s' \<and>
    (case to_read ahead s of [] \<Rightarrow> r = my_b_EOF | b # bs \<Rightarrow> r = uint b \<and> to_read ahead s' = bs)"
proof (cases "read_pos (io_cache s) = read_end (io_cache s)")
  case True
  then have "slow_get lib s = (r, s')" using assms(3) by (simp add: my_b_get_def Let_def)
  then have "read_ok s' \<and>
    (case to_read ahead s of [] \<Rightarrow> r = my_b_EOF \<and> to_read ahead s' = [] | b # bs \<Rightarrow> r = uint b \<and> to_read ahead s' = bs)"
    using assms(1,2) True unfolding reader_ok_def by blast
  then show ?thesis by (cases "to_read ahead s") simp_all
next
  case False
  let ?p = "read_pos (io_cache s)" and ?e = "read_end (io_cache s)"
  have "?p < ?e" using False assms(2) by (simp add: read_ok_def)
  then have "mem_bytes (io_mem s) ?p ?e = io_mem s ?p # mem_bytes (io_mem s) (Suc ?p) ?e"
    by (simp add: mem_bytes_def upt_conv_Cons)
  then show ?thesis
    using False assms(2,3) by (auto simp: my_b_get_def Let_def read_ok_def to_read_def)
qed

lemma byte_not_EOF: "uint (b :: uchar) \<noteq> my_b_EOF"
proof -
  have "0 \<le> uint b" "my_b_EOF < 0" by (simp_all add: my_b_EOF_def)
  then show ?thesis by linarith
qed

text \<open>
  C17. Reading through an \<open>IO_CACHE\<close> delivers the stream: any sequence of \<open>my_b_read\<close> and \<open>my_b_get\<close> succeeds
  exactly when the buffer and the file behind it have enough bytes for all of it; then the blocks and characters,
  one after the other, are the next bytes of the stream, none is lost or repeated where the buffer ends, and the
  rest of the stream is what follows.
\<close>

theorem io_cache_reads_stream:
  assumes lib: "reader_ok lib ahead" and s: "read_ok s"
  shows "case read_calls lib cs s of (bs, ok, s') \<Rightarrow>
     (ok \<longleftrightarrow> sum_list (map read_size cs) \<le> length (to_read ahead s)) \<and>
     (ok \<longrightarrow> bs = take (sum_list (map read_size cs)) (to_read ahead s) \<and>
            to_read ahead s' = drop (sum_list (map read_size cs)) (to_read ahead s) \<and> read_ok s')"
  using s
proof (induction cs arbitrary: s)
  case (Cons c cs)
  show ?case
  proof (cases c)
    case (Read n)
    obtain r bs s1 where e: "my_b_read lib n s = (r, bs, s1)" by (metis prod_cases3)
    note one = my_b_read_stream [OF lib Cons.prems e]
    have d: "drop (n + k) t = drop k (drop n t)" for k and t :: bytes by (simp add: add.commute)
    show ?thesis
      using one Cons.IH [of s1] e Read
      by (cases "n \<le> length (to_read ahead s)") (auto simp: take_add d simp del: drop_drop split: prod.splits)
  next
    case Get
    obtain r s1 where e: "my_b_get lib s = (r, s1)" by force
    note one = my_b_get_stream [OF lib Cons.prems e]
    show ?thesis
    proof (cases "to_read ahead s")
      case Nil
      then show ?thesis using one e Get by simp
    next
      case (Cons b bs)
      then show ?thesis
        using one e Get Cons.IH [of s1] byte_not_EOF [of b] by (auto split: prod.splits)
    qed
  qed
qed simp


lemma my_b_write_stream:
  assumes "writer_ok lib behind" "write_ok s" "my_b_write lib bs s = (0, s')"
  shows "write_ok s' \<and> written behind s' = written behind s @ bs"
proof (cases "write_pos (io_cache s) + length bs \<le> write_end (io_cache s)")
  case True
  then show ?thesis
    using assms(2,3) by (auto simp: my_b_write_def Let_def write_ok_def written_def mem_bytes_put)
next
  case False
  then have "slow_write lib s bs = (0, s')" using assms(3) by (simp add: my_b_write_def Let_def)
  then show ?thesis using assms(1,2) False unfolding writer_ok_def by (meson not_le)
qed

lemma my_b_write_byte_stream:
  assumes "writer_ok lib behind" "write_ok s" "my_b_write_byte lib b s = (False, s')"
  shows "write_ok s' \<and> written behind s' = written behind s @ [b]"
proof -
  define t where "t = (if write_pos (io_cache s) \<ge> write_end (io_cache s) then flush_cache lib s else (0, s))"
  obtain r s1 where t': "t = (r, s1)" by force
  have r: "r = 0" using assms(3) t' by (auto simp: my_b_write_byte_def t_def [symmetric] Let_def split: if_splits)
  have s1: "write_ok s1" "write_pos (io_cache s1) < write_end (io_cache s1)" "written behind s1 = written behind s"
  proof -
    have "write_ok s1 \<and> write_pos (io_cache s1) < write_end (io_cache s1) \<and> written behind s1 = written behind s"
    proof (cases "write_pos (io_cache s) \<ge> write_end (io_cache s)")
      case True
      then have "flush_cache lib s = (0, s1)" using t' r by (simp add: t_def)
      then show ?thesis using assms(1,2) unfolding writer_ok_def by blast
    next
      case False
      then show ?thesis using t' assms(2) by (simp add: t_def)
    qed
    then show "write_ok s1" "write_pos (io_cache s1) < write_end (io_cache s1)"
      "written behind s1 = written behind s" by blast+
  qed
  let ?c = "io_cache s1"
  have e: "s' = s1\<lparr>io_mem := (io_mem s1)(write_pos ?c := b), io_cache := ?c\<lparr>write_pos := write_pos ?c + 1\<rparr>\<rparr>"
    using assms(3) t' r by (simp add: my_b_write_byte_def t_def [symmetric] Let_def)
  have put: "(io_mem s1)(write_pos ?c := b) = mem_put (io_mem s1) (write_pos ?c) [b]"
    by (auto simp: mem_put_def)
  show ?thesis
    using s1 mem_bytes_put [of "write_buffer ?c" "write_pos ?c" "io_mem s1" "[b]"]
    by (simp add: e put written_def write_ok_def)
qed

text \<open>
  C25. Writing through an \<open>IO_CACHE\<close> appends: when a sequence of \<open>my_b_write\<close> and \<open>my_b_write_byte\<close> has reported no
  error, the file and the buffer together hold what they held before, followed by all that was written, in order,
  and the write position is still inside the buffer, also when a byte finds the buffer full and it is flushed first.
\<close>

theorem io_cache_writes_stream:
  assumes lib: "writer_ok lib behind" and s: "write_ok s" and run: "write_calls lib cs s = (True, s')"
  shows "written behind s' = written behind s @ concat (map write_text cs) \<and> write_ok s'"
  using s run
proof (induction cs arbitrary: s)
  case (Cons c cs)
  show ?case
  proof (cases c)
    case (Write bs)
    obtain r s1 where e: "my_b_write lib bs s = (r, s1)" by force
    then have r: "r = 0" "write_calls lib cs s1 = (True, s')" using Cons.prems(2) Write by (auto split: if_splits)
    have "write_ok s1 \<and> written behind s1 = written behind s @ bs"
      using my_b_write_stream [OF lib Cons.prems(1)] e r(1) by blast
    then show ?thesis using Cons.IH [of s1] r(2) Write by simp
  next
    case (Write_byte b)
    obtain r s1 where e: "my_b_write_byte lib b s = (r, s1)" by force
    then have r: "\<not> r" "write_calls lib cs s1 = (True, s')" using Cons.prems(2) Write_byte by (auto split: if_splits)
    have "write_ok s1 \<and> written behind s1 = written behind s @ [b]"
      using my_b_write_byte_stream [OF lib Cons.prems(1)] e r(1) by (metis (full_types))
    then show ?thesis using Cons.IH [of s1] r(2) Write_byte by simp
  qed
qed simp

text \<open>A write that fits into the buffer calls nothing and writes only between the write position and the end of the buffer.\<close>

lemma my_b_write_frame:
  assumes "write_pos (io_cache s) + length bs \<le> write_end (io_cache s)" "my_b_write lib bs s = (r, s')"
    and "i < write_pos (io_cache s) \<or> write_end (io_cache s) \<le> i"
  shows "r = 0 \<and> io_mem s' i = io_mem s i \<and> io_file s' = io_file s"
  using assms by (auto simp: my_b_write_def Let_def mem_put_def)

text \<open>Positions move with what is read and written.\<close>

lemma my_b_tell_moves:
  "ioc_type c \<noteq> WRITE_CACHE \<Longrightarrow> my_b_tell (c\<lparr>read_pos := read_pos c + n\<rparr>) = my_b_tell c + word_of_nat n"
  "ioc_type c = WRITE_CACHE \<Longrightarrow> my_b_tell (c\<lparr>write_pos := write_pos c + n\<rparr>) = my_b_tell c + word_of_nat n"
  "my_b_write_tell (c\<lparr>write_pos := write_pos c + n\<rparr>) = my_b_write_tell c + word_of_nat n"
  by (simp_all add: my_b_tell_def my_b_write_tell_def)

text \<open>A file that is the list of its bytes: of those not read yet, or of those written.\<close>

definition list_io_lib :: "bytes io_lib" where
  "list_io_lib =
     \<lparr>slow_read = (\<lambda>s n. let t = to_read id s; s' = s\<lparr>io_cache := (io_cache s)\<lparr>read_pos := read_end (io_cache s)\<rparr>\<rparr>
        in (if n \<le> length t then 0 else 1, take n t, s'\<lparr>io_file := drop n t\<rparr>)),
      slow_get = (\<lambda>s. case io_file s of [] \<Rightarrow> (my_b_EOF, s) | b # bs \<Rightarrow> (uint b, s\<lparr>io_file := bs\<rparr>)),
      slow_write = (\<lambda>s bs. (0, s\<lparr>io_cache := (io_cache s)\<lparr>write_pos := write_buffer (io_cache s)\<rparr>,
        io_file := written id s @ bs\<rparr>)),
      flush_cache = (\<lambda>s. (if write_buffer (io_cache s) < write_end (io_cache s) then 0 else 1,
        s\<lparr>io_cache := (io_cache s)\<lparr>write_pos := write_buffer (io_cache s)\<rparr>, io_file := written id s\<rparr>))\<rparr>"

lemma mem_bytes_empty [simp]: "mem_bytes m a a = []"
  by (simp add: mem_bytes_def)

lemma list_io_reader: "reader_ok list_io_lib id"
  by (auto simp: reader_ok_def list_io_lib_def Let_def read_ok_def to_read_def split: list.splits)

lemma list_io_writer: "writer_ok list_io_lib id"
  by (auto simp: writer_ok_def list_io_lib_def write_ok_def written_def)

definition list_io :: "bytes \<Rightarrow> bytes io" where
  "list_io f =
     \<lparr>io_cache = \<lparr>pos_in_file = 0, end_of_file = 0, read_pos = 10, read_end = 12, ioc_buffer = 10, request_pos = 10,
        write_buffer = 20, append_read_pos = 0, write_pos = 20, write_end = 22, ioc_type = READ_CACHE\<rparr>,
      io_mem = (\<lambda>i. word_of_nat i), io_file = f\<rparr>"

theorem io_cache_reads_stream_witness:
  "\<exists>s'. read_calls list_io_lib [Get, Read 2, Get] (list_io [1, 2, 3]) = ([10, 11, 1, 2], True, s') \<and>
     to_read id s' = [3]"
proof -
  have o: "read_ok (list_io [1, 2, 3])" by (simp add: read_ok_def list_io_def)
  have t: "to_read id (list_io [1, 2, 3]) = [10, 11, 1, 2, 3]"
    by (simp add: to_read_def list_io_def mem_bytes_def upt_rec)
  show ?thesis
    using io_cache_reads_stream [OF list_io_reader o, of "[Get, Read 2, Get]"] unfolding t
    by (auto split: prod.splits)
qed

theorem io_cache_writes_stream_witness:
  "\<exists>s'. write_calls list_io_lib [Write [1], Write_byte 2, Write_byte 3] (list_io []) = (True, s') \<and>
     written id s' = [1, 2, 3]"
proof -
  have o: "write_ok (list_io [])" by (simp add: write_ok_def list_io_def)
  have t: "written id (list_io []) = []" by (simp add: written_def list_io_def)
  obtain ok s' where r: "write_calls list_io_lib [Write [1], Write_byte 2, Write_byte 3] (list_io []) = (ok, s')" by force
  then have ok: "ok"
    by (auto simp: my_b_write_def my_b_write_byte_def list_io_lib_def list_io_def Let_def)
  then show ?thesis
    using io_cache_writes_stream [OF list_io_writer o, of "[Write [1], Write_byte 2, Write_byte 3]" s'] r t by simp
qed

end
