(* ===== verification/LooseScan.thy ===== *)
theory LooseScan
  imports Prelude CDouble "HOL-Library.Monad_Syntax"
begin

text \<open>
  The choice of a LooseScan plan for a semi-join, class \<open>Loose_scan_opt\<close> of \<open>opt_subselect.h\<close>: it collects which
  IN-equalities and key parts an index covers, accepts the index or not, and keeps the cheapest plan it was offered.
  On the platform of the repository a \<open>key_part_map\<close>, an unsigned long, has 32 bits, a \<open>table_map\<close> 64. A shift by
  the width or more is undefined.
\<close>

section \<open>Data\<close>

text \<open>What is used of a \<open>KEYUSE\<close>; \<open>ku_read_order\<close> is the answer of the engine, \<open>index_flags(key, 0, 1) & HA_READ_ORDER\<close>.\<close>

record KEYUSE =
  ku_id :: nat
  ku_used_tables :: ulonglong
  ku_keypart :: uint
  ku_sj_pred_no :: uint
  ku_read_order :: bool

text \<open>What is used of a semi-join nest and of the join.\<close>

record sj_nest =
  sj_in_exprs :: uint
  sj_inner_tables :: ulonglong
  sj_corr_tables :: ulonglong
  sj_depends_on :: ulonglong

record ls_join =
  emb_sjm_nest :: bool
  cur_sj_inner_tables :: ulonglong
  optimizer_switch :: ulonglong
  const_tables :: uint

text \<open>A quick select: its index, whether its type is \<open>QS_TYPE_RANGE\<close>, its cost and its rows.\<close>

record ls_quick =
  quick_index :: uint
  quick_is_range :: bool
  quick_read_time :: real
  quick_records :: ulonglong

text \<open>A table of the join and its statistics for a key: \<open>keyread_time(key, 1, records)\<close> and \<open>rec_per_key\<close>.\<close>

record ls_tab =
  emb_sj_nest :: "sj_nest option"
  tab_quick :: "ls_quick option"
  tab_partial_cols :: "uint \<Rightarrow> bool"
  tab_covering :: "uint \<Rightarrow> bool"
  tab_records :: ulonglong
  tab_keyread_time :: "uint \<Rightarrow> real"
  tab_rec_per_key :: "uint \<Rightarrow> uint \<Rightarrow> ulong"

record Loose_scan_opt =
  try_loosescan :: bool
  bound_sj_equalities :: ulonglong
  handled_sj_equalities :: ulonglong
  loose_scan_keyparts :: ulong
  max_loose_keypart :: uint
  part1_conds_met :: bool
  quick_uses_applicable_index :: uint
  quick_max_loose_keypart :: uint
  best_loose_scan_key :: uint
  best_loose_scan_cost :: real
  best_loose_scan_records :: real
  best_loose_scan_start_key :: "KEYUSE option"
  best_max_loose_keypart :: uint
  best_ref_depend_map :: ulonglong

section \<open>Operations\<close>

definition OPTIMIZER_SWITCH_LOOSE_SCAN :: ulonglong where
  "OPTIMIZER_SWITCH_LOOSE_SCAN = 2 ^ 10"

definition optimizer_flag :: "ls_join \<Rightarrow> ulonglong \<Rightarrow> bool" where
  "optimizer_flag j flag \<longleftrightarrow> optimizer_switch j AND flag \<noteq> 0"

definition ull_shift :: "nat \<Rightarrow> ulonglong option" where
  "ull_shift n = (if n < 64 then Some (push_bit n 1) else None)"

definition key_part_shift :: "nat \<Rightarrow> ulong option" where
  "key_part_shift n = (if n < 32 then Some (push_bit n 1) else None)"

text \<open>\<open>PREV_BITS\<close> of the two types.\<close>

definition PREV_BITS_ull :: "nat \<Rightarrow> ulonglong option" where
  "PREV_BITS_ull n = map_option (\<lambda>b. b - 1) (ull_shift n)"

definition PREV_BITS_key_part :: "nat \<Rightarrow> ulong option" where
  "PREV_BITS_key_part n = map_option (\<lambda>b. b - 1) (key_part_shift n)"

text \<open>The constructor leaves four members as the memory had them, here those of \<open>g\<close>.\<close>

definition loose_scan_new :: "Loose_scan_opt \<Rightarrow> Loose_scan_opt" where
  "loose_scan_new g = g\<lparr>try_loosescan := False, bound_sj_equalities := 0, quick_uses_applicable_index := 0,
     quick_max_loose_keypart := 0, best_loose_scan_key := 0, best_loose_scan_cost := 0, best_loose_scan_records := 0,
     best_loose_scan_start_key := None, best_max_loose_keypart := 0, best_ref_depend_map := 0\<rparr>"

text \<open>\<open>get_bound_sj_equalities\<close> is declared only and a parameter.\<close>

definition ls_candidate :: "ls_join \<Rightarrow> ls_tab \<Rightarrow> ulonglong \<Rightarrow> bool" where
  "ls_candidate join s remaining_tables =
     (case emb_sj_nest s of None \<Rightarrow> False
      | Some n \<Rightarrow> \<not> emb_sjm_nest join \<and> sj_in_exprs n < 64 \<and>
          remaining_tables AND sj_inner_tables n = sj_inner_tables n \<and> cur_sj_inner_tables join = 0 \<and>
          remaining_tables AND sj_corr_tables n = 0 \<and> remaining_tables AND sj_depends_on n \<noteq> 0 \<and>
          optimizer_flag join OPTIMIZER_SWITCH_LOOSE_SCAN)"

definition ls_init ::
  "(sj_nest \<Rightarrow> ulonglong \<Rightarrow> ulonglong) \<Rightarrow> ls_join \<Rightarrow> ls_tab \<Rightarrow> ulonglong \<Rightarrow> Loose_scan_opt \<Rightarrow> Loose_scan_opt" where
  "ls_init get_bound join s remaining_tables l =
     (let l = l\<lparr>best_loose_scan_cost := DBL_MAX\<rparr>
      in if ls_candidate join s remaining_tables
         then l\<lparr>bound_sj_equalities := get_bound (the (emb_sj_nest s)) remaining_tables, try_loosescan := True\<rparr>
         else l)"

definition next_ref_key :: "Loose_scan_opt \<Rightarrow> Loose_scan_opt" where
  "next_ref_key l = l\<lparr>handled_sj_equalities := 0, loose_scan_keyparts := 0, max_loose_keypart := 0,
     part1_conds_met := False\<rparr>"

text \<open>\<open>UINT_MAX\<close> is \<open>-1\<close> as a word.\<close>

definition add_keyuse :: "ulonglong \<Rightarrow> KEYUSE \<Rightarrow> Loose_scan_opt \<Rightarrow> Loose_scan_opt option" where
  "add_keyuse remaining_tables keyuse l =
     (if try_loosescan l \<and> ku_sj_pred_no keyuse \<noteq> - 1 \<and> ku_read_order keyuse
      then if remaining_tables AND ku_used_tables keyuse = 0
           then do {
             b \<leftarrow> ull_shift (unat (ku_sj_pred_no keyuse));
             Some (l\<lparr>bound_sj_equalities := bound_sj_equalities l OR b\<rparr>)
           }
           else do {
             b \<leftarrow> ull_shift (unat (ku_sj_pred_no keyuse));
             k \<leftarrow> key_part_shift (unat (ku_keypart keyuse));
             Some (l\<lparr>handled_sj_equalities := handled_sj_equalities l OR b,
                     loose_scan_keyparts := loose_scan_keyparts l OR k,
                     max_loose_keypart := (if max_loose_keypart l < ku_keypart keyuse then ku_keypart keyuse
                                           else max_loose_keypart l)\<rparr>)
           }
      else Some l)"

definition have_a_case :: "Loose_scan_opt \<Rightarrow> bool" where
  "have_a_case l \<longleftrightarrow> handled_sj_equalities l \<noteq> 0"

text \<open>
  The condition of \<open>check_ref_access_part1\<close>, with the conjuncts in their order: what follows a false one is not
  evaluated. \<open>emb_sj_nest\<close> is dereferenced, \<open>None\<close> when it is null. \<open>found_part\<close> is a \<open>table_map\<close> of 64 bits, to
  which the bit maps of key parts, of 32 bits, are extended.
\<close>

definition ls_accepts :: "ls_tab \<Rightarrow> uint \<Rightarrow> ulonglong \<Rightarrow> Loose_scan_opt \<Rightarrow> bool option" where
  "ls_accepts s key found_part l =
     (if \<not> try_loosescan l then Some False
      else do {
        n \<leftarrow> emb_sj_nest s;
        eqs \<leftarrow> PREV_BITS_ull (unat (sj_in_exprs n));
        if handled_sj_equalities l OR bound_sj_equalities l \<noteq> eqs then Some False
        else do {
          parts \<leftarrow> PREV_BITS_key_part (unat (max_loose_keypart l + 1));
          Some (ucast parts AND (found_part OR ucast (loose_scan_keyparts l)) = (ucast parts :: ulonglong) \<and> \<not> tab_partial_cols s key)
        }
      })"

definition check_ref_access_part1 ::
  "ls_tab \<Rightarrow> uint \<Rightarrow> KEYUSE option \<Rightarrow> ulonglong \<Rightarrow> Loose_scan_opt \<Rightarrow> Loose_scan_opt option" where
  "check_ref_access_part1 s key start_key found_part l =
     do {
       accepted \<leftarrow> ls_accepts s key found_part l;
       Some (if accepted
         then (let l = (case tab_quick s of
                    Some q \<Rightarrow> if quick_index q = key \<and> quick_is_range q
                              then l\<lparr>quick_uses_applicable_index := 1, quick_max_loose_keypart := max_loose_keypart l\<rparr>
                              else l
                  | None \<Rightarrow> l);
                 l = (if found_part AND 1 \<noteq> 0 then l\<lparr>part1_conds_met := True\<rparr> else l)
               in if found_part AND 1 = 0 \<and> tab_covering s key
                  then (let l = l\<lparr>part1_conds_met := True\<rparr>;
                            records = real (unat (tab_records s));
                            read_time = tab_keyread_time s key;
                            rpc = tab_rec_per_key s key (max_loose_keypart l);
                            records = (if rpc \<noteq> 0 then records / real (unat rpc) else records)
                        in if read_time < best_loose_scan_cost l
                           then l\<lparr>best_loose_scan_key := key, best_loose_scan_cost := read_time,
                                  best_loose_scan_records := records, best_max_loose_keypart := max_loose_keypart l,
                                  best_loose_scan_start_key := start_key, best_ref_depend_map := 0\<rparr>
                           else l)
                  else l)
         else l)
     }"

definition check_ref_access_part2 ::
  "uint \<Rightarrow> KEYUSE option \<Rightarrow> real \<Rightarrow> real \<Rightarrow> ulonglong \<Rightarrow> Loose_scan_opt \<Rightarrow> Loose_scan_opt" where
  "check_ref_access_part2 key start_key records read_time ref_depend_map_arg l =
     (if part1_conds_met l \<and> read_time < best_loose_scan_cost l
      then l\<lparr>best_loose_scan_key := key, best_loose_scan_cost := read_time, best_loose_scan_records := records,
             best_max_loose_keypart := max_loose_keypart l, best_loose_scan_start_key := start_key,
             best_ref_depend_map := ref_depend_map_arg\<rparr>
      else l)"

definition check_range_access :: "ls_join \<Rightarrow> uint \<Rightarrow> ls_quick \<Rightarrow> Loose_scan_opt \<Rightarrow> Loose_scan_opt" where
  "check_range_access join idx quick l =
     (if quick_uses_applicable_index l \<noteq> 0 \<and> idx = const_tables join \<and>
         quick_read_time quick < best_loose_scan_cost l
      then l\<lparr>best_loose_scan_key := quick_index quick, best_loose_scan_cost := quick_read_time quick,
             best_loose_scan_records := real (unat (quick_records quick)),
             best_max_loose_keypart := quick_max_loose_keypart l, best_loose_scan_start_key := None,
             best_ref_depend_map := 0\<rparr>
      else l)"

text \<open>\<open>p_filter\<close> is the \<open>range_rowid_filter_info\<close> of the table, an address.\<close>

record POSITION =
  p_table :: nat
  p_read_time :: real
  p_records_read :: real
  p_key :: "KEYUSE option"
  p_cond_selectivity :: real
  p_loosescan_key :: uint
  p_loosescan_parts :: uint
  p_use_join_buffer :: bool
  p_filter :: nat
  p_ref_depend_map :: ulonglong

definition save_to_position :: "nat \<Rightarrow> nat \<Rightarrow> POSITION \<Rightarrow> Loose_scan_opt \<Rightarrow> POSITION" where
  "save_to_position tab filter_info pos l =
     (let pos = pos\<lparr>p_read_time := best_loose_scan_cost l\<rparr>
      in if best_loose_scan_cost l \<noteq> DBL_MAX
         then pos\<lparr>p_records_read := best_loose_scan_records l, p_key := best_loose_scan_start_key l,
                  p_cond_selectivity := 1, p_loosescan_key := best_loose_scan_key l,
                  p_loosescan_parts := best_max_loose_keypart l + 1, p_use_join_buffer := False,
                  p_table := tab, p_filter := filter_info, p_ref_depend_map := best_ref_depend_map l\<rparr>
         else pos)"


section \<open>Which indexes are accepted\<close>

text \<open>The uses of one index, one after the other, as the caller adds them after \<open>next_ref_key\<close>.\<close>

fun add_keyuses :: "ulonglong \<Rightarrow> KEYUSE list \<Rightarrow> Loose_scan_opt \<Rightarrow> Loose_scan_opt option" where
  "add_keyuses rem [] l = Some l"
| "add_keyuses rem (k # ks) l = do { l \<leftarrow> add_keyuse rem k l; add_keyuses rem ks l }"

text \<open>
  A use of an IN-equality through an ordered index; its outer side may be bound by the tables before, or it is left
  to the loose scan.
\<close>

definition in_equality :: "KEYUSE \<Rightarrow> bool" where
  "in_equality k \<longleftrightarrow> ku_sj_pred_no k \<noteq> - 1 \<and> ku_read_order k"

definition left_to_scan :: "ulonglong \<Rightarrow> KEYUSE \<Rightarrow> bool" where
  "left_to_scan rem k \<longleftrightarrow> in_equality k \<and> rem AND ku_used_tables k \<noteq> 0"

definition keyuse_ok :: "uint \<Rightarrow> KEYUSE \<Rightarrow> bool" where
  "keyuse_ok n k \<longleftrightarrow> (in_equality k \<longrightarrow> ku_sj_pred_no k < n \<and> ku_keypart k < 31)"

text \<open>Everything but the accumulated equalities and key parts stays.\<close>

definition same_choice :: "Loose_scan_opt \<Rightarrow> Loose_scan_opt \<Rightarrow> bool" where
  "same_choice l l' \<longleftrightarrow>
     l' = l\<lparr>bound_sj_equalities := bound_sj_equalities l', handled_sj_equalities := handled_sj_equalities l',
       loose_scan_keyparts := loose_scan_keyparts l', max_loose_keypart := max_loose_keypart l'\<rparr>"

lemma same_choice_try: "same_choice l l' \<Longrightarrow> try_loosescan l' = try_loosescan l"
  by (cases l; cases l'; simp add: same_choice_def)

lemma same_choice_trans: "same_choice a b \<Longrightarrow> same_choice b c \<Longrightarrow> same_choice a c"
  by (cases a; cases b; cases c; simp add: same_choice_def)

lemma add_keyuse_adds:
  assumes "keyuse_ok n k" "n \<le> 64" "try_loosescan l"
  shows "\<exists>l'. add_keyuse rem k l = Some l' \<and> same_choice l l' \<and>
    (\<forall>e. bit (bound_sj_equalities l' OR handled_sj_equalities l') e \<longleftrightarrow>
       bit (bound_sj_equalities l OR handled_sj_equalities l) e \<or> in_equality k \<and> e = unat (ku_sj_pred_no k)) \<and>
    (\<forall>i. bit (loose_scan_keyparts l') i \<longleftrightarrow>
       bit (loose_scan_keyparts l) i \<or> left_to_scan rem k \<and> i = unat (ku_keypart k)) \<and>
    unat (max_loose_keypart l') =
      (if left_to_scan rem k then max (unat (max_loose_keypart l)) (unat (ku_keypart k)) else unat (max_loose_keypart l))"
proof (cases "in_equality k")
  case True
  then have lt: "unat (ku_sj_pred_no k) < 64" "unat (ku_keypart k) < 32"
    using assms(1,2) by (auto simp: keyuse_ok_def word_less_nat_alt word_le_nat_alt)
  then show ?thesis
    using True assms(3)
    by (auto simp: add_keyuse_def in_equality_def left_to_scan_def ull_shift_def key_part_shift_def same_choice_def
        bit_or_iff bit_exp_iff word_less_nat_alt max_def)
next
  case False
  then have "add_keyuse rem k l = Some l" by (auto simp: add_keyuse_def in_equality_def)
  then show ?thesis using False by (simp add: same_choice_def left_to_scan_def)
qed


lemma add_keyuses_adds:
  assumes "\<forall>k \<in> set ks. keyuse_ok n k" "n \<le> 64" "try_loosescan l"
  shows "\<exists>l'. add_keyuses rem ks l = Some l' \<and> same_choice l l' \<and>
    (\<forall>e. bit (bound_sj_equalities l' OR handled_sj_equalities l') e \<longleftrightarrow>
       bit (bound_sj_equalities l OR handled_sj_equalities l) e \<or>
       (\<exists>k \<in> set ks. in_equality k \<and> e = unat (ku_sj_pred_no k))) \<and>
    (\<forall>i. bit (loose_scan_keyparts l') i \<longleftrightarrow>
       bit (loose_scan_keyparts l) i \<or> (\<exists>k \<in> set ks. left_to_scan rem k \<and> i = unat (ku_keypart k))) \<and>
    (\<forall>i. i \<le> unat (max_loose_keypart l') \<longleftrightarrow>
       i \<le> unat (max_loose_keypart l) \<or> (\<exists>k \<in> set ks. left_to_scan rem k \<and> i \<le> unat (ku_keypart k)))"
  using assms(1,3)
proof (induction ks arbitrary: l)
  case Nil
  then show ?case by (simp add: same_choice_def)
next
  case (Cons k ks)
  obtain l1 where l1: "add_keyuse rem k l = Some l1" "same_choice l l1"
    "\<forall>e. bit (bound_sj_equalities l1 OR handled_sj_equalities l1) e \<longleftrightarrow>
       bit (bound_sj_equalities l OR handled_sj_equalities l) e \<or> in_equality k \<and> e = unat (ku_sj_pred_no k)"
    "\<forall>i. bit (loose_scan_keyparts l1) i \<longleftrightarrow>
       bit (loose_scan_keyparts l) i \<or> left_to_scan rem k \<and> i = unat (ku_keypart k)"
    "unat (max_loose_keypart l1) =
      (if left_to_scan rem k then max (unat (max_loose_keypart l)) (unat (ku_keypart k)) else unat (max_loose_keypart l))"
    using add_keyuse_adds [OF _ assms(2) Cons.prems(2), of k rem] Cons.prems(1) by auto
  have t1: "try_loosescan l1" using same_choice_try [OF l1(2)] Cons.prems(2) by simp
  obtain l2 where l2: "add_keyuses rem ks l1 = Some l2" "same_choice l1 l2"
    "\<forall>e. bit (bound_sj_equalities l2 OR handled_sj_equalities l2) e \<longleftrightarrow>
       bit (bound_sj_equalities l1 OR handled_sj_equalities l1) e \<or>
       (\<exists>k \<in> set ks. in_equality k \<and> e = unat (ku_sj_pred_no k))"
    "\<forall>i. bit (loose_scan_keyparts l2) i \<longleftrightarrow>
       bit (loose_scan_keyparts l1) i \<or> (\<exists>k \<in> set ks. left_to_scan rem k \<and> i = unat (ku_keypart k))"
    "\<forall>i. i \<le> unat (max_loose_keypart l2) \<longleftrightarrow>
       i \<le> unat (max_loose_keypart l1) \<or> (\<exists>k \<in> set ks. left_to_scan rem k \<and> i \<le> unat (ku_keypart k))"
    using Cons.IH [OF _ t1] Cons.prems(1) by auto
  show ?case
  proof (intro exI conjI)
    show "add_keyuses rem (k # ks) l = Some l2" using l1(1) l2(1) by simp
    show "same_choice l l2" using same_choice_trans [OF l1(2) l2(2)] .
    show "\<forall>e. bit (bound_sj_equalities l2 OR handled_sj_equalities l2) e \<longleftrightarrow>
       bit (bound_sj_equalities l OR handled_sj_equalities l) e \<or>
       (\<exists>k \<in> set (k # ks). in_equality k \<and> e = unat (ku_sj_pred_no k))"
      using l1(3) l2(3) by auto
    show "\<forall>i. bit (loose_scan_keyparts l2) i \<longleftrightarrow>
       bit (loose_scan_keyparts l) i \<or> (\<exists>k \<in> set (k # ks). left_to_scan rem k \<and> i = unat (ku_keypart k))"
      using l1(4) l2(4) by auto
    show "\<forall>i. i \<le> unat (max_loose_keypart l2) \<longleftrightarrow>
       i \<le> unat (max_loose_keypart l) \<or> (\<exists>k \<in> set (k # ks). left_to_scan rem k \<and> i \<le> unat (ku_keypart k))"
      using l1(5) l2(5) by (auto simp: le_max_iff_disj)
  qed
qed


lemma PREV_BITS_ull_mask: "n < 64 \<Longrightarrow> PREV_BITS_ull n = Some (mask n)"
  by (simp add: PREV_BITS_ull_def ull_shift_def mask_eq_exp_minus_1)

lemma PREV_BITS_key_part_mask: "n < 32 \<Longrightarrow> PREV_BITS_key_part n = Some (mask n)"
  by (simp add: PREV_BITS_key_part_def key_part_shift_def mask_eq_exp_minus_1)

lemma eq_mask_iff:
  fixes w :: "'a::len word"
  assumes "n \<le> LENGTH('a)" "\<forall>e. bit w e \<longrightarrow> e < n"
  shows "w = mask n \<longleftrightarrow> (\<forall>e < n. bit w e)"
  using assms by (auto simp: bit_eq_iff bit_mask_iff possible_bit_def)

lemma mask_and_eq_iff:
  fixes w :: "'a::len word"
  assumes "n \<le> LENGTH('a)"
  shows "mask n AND w = mask n \<longleftrightarrow> (\<forall>i < n. bit w i)"
proof -
  have "mask n AND w = mask n \<longleftrightarrow> (\<forall>i < LENGTH('a). i < n \<longrightarrow> bit w i)"
    by (auto simp: bit_eq_iff bit_and_iff bit_mask_iff possible_bit_def)
  then show ?thesis using assms by auto
qed

text \<open>
  C8. An index is accepted for a loose scan exactly when it may be used for one: every IN-equality of the semi-join
  is bound by the tables before or used through the index, every key part up to the last one that is left to the
  scan is restricted by the tables before or belongs to such an equality, at least the first one, and no part of the
  index holds only a prefix of its column. The collecting and testing of the bit maps is defined for up to 63
  equalities and up to 31 key parts.
\<close>

theorem loose_scan_accepts:
  assumes tr: "try_loosescan l0" and nest: "emb_sj_nest s = Some n" "sj_in_exprs n < 64"
    and uses: "\<forall>k \<in> set ks. keyuse_ok (sj_in_exprs n) k"
    and bound: "\<forall>e. bit (bound_sj_equalities l0) e \<longrightarrow> e < unat (sj_in_exprs n)"
  shows "\<exists>l. add_keyuses rem ks (next_ref_key l0) = Some l \<and>
    ls_accepts s key found_part l = Some (
      (\<forall>e < unat (sj_in_exprs n). bit (bound_sj_equalities l0) e \<or>
         (\<exists>k \<in> set ks. in_equality k \<and> unat (ku_sj_pred_no k) = e)) \<and>
      (\<forall>i. i = 0 \<or> (\<exists>k \<in> set ks. left_to_scan rem k \<and> i \<le> unat (ku_keypart k)) \<longrightarrow>
         bit found_part i \<or> (\<exists>k \<in> set ks. left_to_scan rem k \<and> unat (ku_keypart k) = i)) \<and>
      \<not> tab_partial_cols s key)"
proof -
  let ?n = "unat (sj_in_exprs n)" and ?l0 = "next_ref_key l0"
  have n: "?n < 64" "sj_in_exprs n \<le> 64" using nest(2) by (simp_all add: word_less_nat_alt word_le_nat_alt)
  have t0: "try_loosescan ?l0" using tr by (simp add: next_ref_key_def)
  obtain l where l: "add_keyuses rem ks ?l0 = Some l" "same_choice ?l0 l"
    "\<forall>e. bit (bound_sj_equalities l OR handled_sj_equalities l) e \<longleftrightarrow>
       bit (bound_sj_equalities ?l0 OR handled_sj_equalities ?l0) e \<or>
       (\<exists>k \<in> set ks. in_equality k \<and> e = unat (ku_sj_pred_no k))"
    "\<forall>i. bit (loose_scan_keyparts l) i \<longleftrightarrow>
       bit (loose_scan_keyparts ?l0) i \<or> (\<exists>k \<in> set ks. left_to_scan rem k \<and> i = unat (ku_keypart k))"
    "\<forall>i. i \<le> unat (max_loose_keypart l) \<longleftrightarrow>
       i \<le> unat (max_loose_keypart ?l0) \<or> (\<exists>k \<in> set ks. left_to_scan rem k \<and> i \<le> unat (ku_keypart k))"
    using add_keyuses_adds [OF uses n(2) t0, of rem] by auto
  let ?w = "handled_sj_equalities l OR bound_sj_equalities l"
  have w: "bit ?w e \<longleftrightarrow> bit (bound_sj_equalities l0) e \<or> (\<exists>k \<in> set ks. in_equality k \<and> unat (ku_sj_pred_no k) = e)" for e
    using l(3) [rule_format, of e] by (auto simp: next_ref_key_def bit_or_iff)
  have "\<forall>e. bit ?w e \<longrightarrow> e < ?n"
    using w bound uses by (auto simp: keyuse_ok_def word_less_nat_alt)
  then have eqs: "?w = mask ?n \<longleftrightarrow> (\<forall>e < ?n. bit ?w e)" using n(1) by (intro eq_mask_iff) simp_all
  let ?m = "unat (max_loose_keypart l)"
  have m: "i \<le> ?m \<longleftrightarrow> i = 0 \<or> (\<exists>k \<in> set ks. left_to_scan rem k \<and> i \<le> unat (ku_keypart k))" for i
    using l(5) by (simp add: next_ref_key_def)
  have m31: "?m < 31"
  proof (cases "?m = 0")
    case False
    then obtain k where k: "k \<in> set ks" "left_to_scan rem k" "?m \<le> unat (ku_keypart k)" using m [of ?m] by auto
    then have "ku_keypart k < 31" using uses by (auto simp: keyuse_ok_def left_to_scan_def)
    then show ?thesis using k(3) by (simp add: word_less_nat_alt)
  qed simp
  then have m1: "unat (max_loose_keypart l + 1) = ?m + 1" by (simp add: unat_word_ariths)
  then have parts: "PREV_BITS_key_part (unat (max_loose_keypart l + 1)) = Some (mask (?m + 1))"
    using m31 PREV_BITS_key_part_mask [of "?m + 1"] by simp
  let ?f = "found_part OR ucast (loose_scan_keyparts l) :: ulonglong"
  have kp: "bit ?f i \<longleftrightarrow> bit found_part i \<or> (\<exists>k \<in> set ks. left_to_scan rem k \<and> unat (ku_keypart k) = i)" for i
    using l(4) [rule_format, of i] bit_imp_le_length [of "loose_scan_keyparts l" i]
    by (fastforce simp: next_ref_key_def bit_or_iff bit_ucast_iff)
  have uc: "ucast (mask (?m + 1) :: ulong) = (mask (?m + 1) :: ulonglong)"
    using m31 by (intro bit_word_eqI) (auto simp: bit_ucast_iff bit_mask_iff)
  have "mask (?m + 1) AND ?f = mask (?m + 1) \<longleftrightarrow> (\<forall>i < ?m + 1. bit ?f i)"
    using m31 by (intro mask_and_eq_iff) simp
  also have "\<dots> \<longleftrightarrow> (\<forall>i. i \<le> ?m \<longrightarrow> bit ?f i)"
    by (simp add: less_Suc_eq_le)
  finally have ps: "mask (?m + 1) AND ?f = mask (?m + 1) \<longleftrightarrow> (\<forall>i. i \<le> ?m \<longrightarrow> bit ?f i)" .
  have "try_loosescan l" using same_choice_try [OF l(2)] t0 by simp
  then have "ls_accepts s key found_part l =
      Some (?w = mask ?n \<and> mask (?m + 1) AND ?f = mask (?m + 1) \<and> \<not> tab_partial_cols s key)"
    by (simp add: ls_accepts_def nest(1) PREV_BITS_ull_mask [OF n(1)] parts uc [unfolded Suc_eq_plus1 [symmetric]] del: bind_eq_Some_conv)
  then show ?thesis
    using l(1) unfolding eqs ps w kp m by blast
qed


text \<open>
  An instance: two equalities, the first bound, the second on the first part of the key, and the second part bound.
\<close>

definition sample_nest :: sj_nest where
  "sample_nest = \<lparr>sj_in_exprs = 2, sj_inner_tables = 4, sj_corr_tables = 0, sj_depends_on = 1\<rparr>"

definition sample_tab :: ls_tab where
  "sample_tab = \<lparr>emb_sj_nest = Some sample_nest, tab_quick = None, tab_partial_cols = (\<lambda>_. False),
     tab_covering = (\<lambda>_. True), tab_records = 100, tab_keyread_time = (\<lambda>_. 10), tab_rec_per_key = (\<lambda>_ _. 5)\<rparr>"

definition sample_choice :: Loose_scan_opt where
  "sample_choice = \<lparr>try_loosescan = True, bound_sj_equalities = 1, handled_sj_equalities = 0, loose_scan_keyparts = 0,
     max_loose_keypart = 0, part1_conds_met = False, quick_uses_applicable_index = 0, quick_max_loose_keypart = 0,
     best_loose_scan_key = 0, best_loose_scan_cost = DBL_MAX, best_loose_scan_records = 0,
     best_loose_scan_start_key = None, best_max_loose_keypart = 0, best_ref_depend_map = 0\<rparr>"

definition sample_keyuse :: KEYUSE where
  "sample_keyuse = \<lparr>ku_id = 7, ku_used_tables = 1, ku_keypart = 0, ku_sj_pred_no = 1, ku_read_order = True\<rparr>"

theorem loose_scan_accepts_witness:
  "\<exists>l. add_keyuses 5 [sample_keyuse] (next_ref_key sample_choice) = Some l \<and>
     ls_accepts sample_tab 3 2 l = Some True"
proof -
  have p: "try_loosescan sample_choice" "emb_sj_nest sample_tab = Some sample_nest" "sj_in_exprs sample_nest < 64"
    "\<forall>k \<in> set [sample_keyuse]. keyuse_ok (sj_in_exprs sample_nest) k"
    "\<forall>e. bit (bound_sj_equalities sample_choice) e \<longrightarrow> e < unat (sj_in_exprs sample_nest)"
    by (auto simp: sample_choice_def sample_tab_def sample_nest_def sample_keyuse_def keyuse_ok_def bit_1_iff)
  let ?c = "(\<forall>e < unat (sj_in_exprs sample_nest). bit (bound_sj_equalities sample_choice) e \<or>
       (\<exists>k \<in> set [sample_keyuse]. in_equality k \<and> unat (ku_sj_pred_no k) = e)) \<and>
      (\<forall>i. i = 0 \<or> (\<exists>k \<in> set [sample_keyuse]. left_to_scan 5 k \<and> i \<le> unat (ku_keypart k)) \<longrightarrow>
         bit (2 :: ulonglong) i \<or> (\<exists>k \<in> set [sample_keyuse]. left_to_scan 5 k \<and> unat (ku_keypart k) = i)) \<and>
      \<not> tab_partial_cols sample_tab 3"
  have n: "unat (sj_in_exprs sample_nest) = Suc (Suc 0)" by (simp add: sample_nest_def)
  have c: "?c = True"
    unfolding n by (auto simp: sample_choice_def sample_tab_def sample_keyuse_def in_equality_def left_to_scan_def
        bit_1_iff less_Suc_eq)
  show ?thesis
    using loose_scan_accepts [OF p, where rem = 5 and key = 3 and found_part = 2] unfolding c .
qed

section \<open>The cheapest plan\<close>

record ls_plan =
  pl_key :: uint
  pl_cost :: real
  pl_records :: real
  pl_keypart :: uint
  pl_start :: "KEYUSE option"
  pl_depend :: ulonglong

definition ls_best :: "Loose_scan_opt \<Rightarrow> ls_plan" where
  "ls_best l = \<lparr>pl_key = best_loose_scan_key l, pl_cost = best_loose_scan_cost l, pl_records = best_loose_scan_records l,
     pl_keypart = best_max_loose_keypart l, pl_start = best_loose_scan_start_key l, pl_depend = best_ref_depend_map l\<rparr>"

datatype ls_step =
    Next_key
  | Keyuse ulonglong KEYUSE
  | Part1 uint "KEYUSE option" ulonglong
  | Part2 uint "KEYUSE option" real real ulonglong
  | Range uint ls_quick

fun ls_do :: "ls_join \<Rightarrow> ls_tab \<Rightarrow> ls_step \<Rightarrow> Loose_scan_opt \<Rightarrow> Loose_scan_opt option" where
  "ls_do join s Next_key l = Some (next_ref_key l)"
| "ls_do join s (Keyuse rem k) l = add_keyuse rem k l"
| "ls_do join s (Part1 key start found) l = check_ref_access_part1 s key start found l"
| "ls_do join s (Part2 key start records cost dep) l = Some (check_ref_access_part2 key start records cost dep l)"
| "ls_do join s (Range idx q) l = Some (check_range_access join idx q l)"

text \<open>
  The plan a step offers: the scan of a whole covering index that was accepted, the ref access to an index that was
  accepted, or the range access when a range on an accepted index is to be read first in the join.
\<close>

fun ls_offer :: "ls_join \<Rightarrow> ls_tab \<Rightarrow> ls_step \<Rightarrow> Loose_scan_opt \<Rightarrow> ls_plan option" where
  "ls_offer join s (Part1 key start found) l =
     (if ls_accepts s key found l = Some True \<and> found AND 1 = 0 \<and> tab_covering s key
      then Some \<lparr>pl_key = key, pl_cost = tab_keyread_time s key,
             pl_records = (let n = real (unat (tab_records s)); rpc = tab_rec_per_key s key (max_loose_keypart l)
                           in if rpc \<noteq> 0 then n / real (unat rpc) else n),
             pl_keypart = max_loose_keypart l, pl_start = start, pl_depend = 0\<rparr>
      else None)"
| "ls_offer join s (Part2 key start records cost dep) l =
     (if part1_conds_met l
      then Some \<lparr>pl_key = key, pl_cost = cost, pl_records = records, pl_keypart = max_loose_keypart l,
             pl_start = start, pl_depend = dep\<rparr>
      else None)"
| "ls_offer join s (Range idx q) l =
     (if quick_uses_applicable_index l \<noteq> 0 \<and> idx = const_tables join
      then Some \<lparr>pl_key = quick_index q, pl_cost = quick_read_time q, pl_records = real (unat (quick_records q)),
             pl_keypart = quick_max_loose_keypart l, pl_start = None, pl_depend = 0\<rparr>
      else None)"
| "ls_offer join s _ l = None"

text \<open>A run of the optimizer, and the plans it is offered on the way.\<close>

fun ls_run :: "ls_join \<Rightarrow> ls_tab \<Rightarrow> ls_step list \<Rightarrow> Loose_scan_opt \<Rightarrow> (ls_plan list \<times> Loose_scan_opt) option" where
  "ls_run join s [] l = Some ([], l)"
| "ls_run join s (x # xs) l =
     do {
       l' \<leftarrow> ls_do join s x l;
       (ps, l'') \<leftarrow> ls_run join s xs l';
       Some ((case ls_offer join s x l of Some p \<Rightarrow> p # ps | None \<Rightarrow> ps), l'')
     }"

text \<open>The first of the cheapest plans of a list, cheaper than \<open>b\<close>.\<close>

definition cheaper :: "ls_plan \<Rightarrow> ls_plan \<Rightarrow> ls_plan" where
  "cheaper p b = (if pl_cost p < pl_cost b then p else b)"

lemma ls_do_best:
  assumes "ls_do join s x l = Some l'"
  shows "ls_best l' = (case ls_offer join s x l of Some p \<Rightarrow> cheaper p (ls_best l) | None \<Rightarrow> ls_best l)"
proof (cases x)
  case (Keyuse rem k)
  then show ?thesis
    using assms by (auto simp: add_keyuse_def ls_best_def split: if_splits bind_splits)
next
  case (Part1 key start found)
  then show ?thesis
  proof (cases "ls_accepts s key found l")
    case None
    then show ?thesis using assms Part1 by (simp add: check_ref_access_part1_def)
  next
    case acc: (Some b)
    define m where "m = (case tab_quick s of
        Some q \<Rightarrow> if quick_index q = key \<and> quick_is_range q
                  then l\<lparr>quick_uses_applicable_index := 1, quick_max_loose_keypart := max_loose_keypart l\<rparr> else l
      | None \<Rightarrow> l)"
    have m: "ls_best m = ls_best l" "max_loose_keypart m = max_loose_keypart l"
      "best_loose_scan_cost m = best_loose_scan_cost l"
      by (simp_all add: m_def ls_best_def split: option.split)
    show ?thesis
    proof (cases b)
      case True
      show ?thesis
      proof (cases "found AND 1 = 0 \<and> tab_covering s key")
        case True
        then show ?thesis
          using assms Part1 acc \<open>b\<close> m
          by (auto simp: check_ref_access_part1_def m_def [symmetric] Let_def ls_best_def cheaper_def)
      next
        case False
        then show ?thesis
          using assms Part1 acc \<open>b\<close> m
          by (auto simp: check_ref_access_part1_def m_def [symmetric] Let_def ls_best_def)
      qed
    next
      case False
      then show ?thesis using assms Part1 acc by (simp add: check_ref_access_part1_def)
    qed
  qed
qed (use assms in \<open>auto simp: next_ref_key_def check_ref_access_part2_def check_range_access_def ls_best_def cheaper_def\<close>)

lemma ls_run_best:
  "ls_run join s xs l = Some (ps, l') \<Longrightarrow> ls_best l' = fold cheaper ps (ls_best l)"
proof (induction xs arbitrary: l ps)
  case (Cons x xs)
  then obtain l1 qs where l1: "ls_do join s x l = Some l1" "ls_run join s xs l1 = Some (qs, l')"
    "ps = (case ls_offer join s x l of Some p \<Rightarrow> p # qs | None \<Rightarrow> qs)"
    by (auto split: bind_splits)
  show ?case
    using Cons.IH [OF l1(2)] ls_do_best [OF l1(1)] l1(3) by (auto split: option.splits)
qed simp

lemma fold_cheaper:
  "fold cheaper ps b = b \<and> (\<forall>p \<in> set ps. pl_cost b \<le> pl_cost p) \<or>
   (\<exists>i < length ps. fold cheaper ps b = ps ! i \<and> pl_cost (ps ! i) < pl_cost b \<and>
      (\<forall>j < i. pl_cost (ps ! i) < pl_cost (ps ! j)) \<and> (\<forall>p \<in> set ps. pl_cost (ps ! i) \<le> pl_cost p))"
proof (induction ps rule: rev_induct)
  case (snoc p ps)
  let ?r = "fold cheaper ps b"
  have le: "\<forall>q \<in> set ps. pl_cost ?r \<le> pl_cost q" using snoc by auto
  show ?case
  proof (cases "pl_cost p < pl_cost ?r")
    case True
    then have e: "fold cheaper (ps @ [p]) b = p" by (simp add: cheaper_def)
    have lt: "pl_cost p < pl_cost q" if "q \<in> set ps" for q
      using True le that by (meson less_le_trans)
    have "pl_cost p < pl_cost b" using True snoc by auto
    then have "length ps < length (ps @ [p]) \<and> fold cheaper (ps @ [p]) b = (ps @ [p]) ! length ps \<and>
        pl_cost ((ps @ [p]) ! length ps) < pl_cost b \<and>
        (\<forall>j < length ps. pl_cost ((ps @ [p]) ! length ps) < pl_cost ((ps @ [p]) ! j)) \<and>
        (\<forall>q \<in> set (ps @ [p]). pl_cost ((ps @ [p]) ! length ps) \<le> pl_cost q)"
      using e lt by (auto simp: nth_append less_imp_le)
    then show ?thesis by blast
  next
    case False
    then have e: "fold cheaper (ps @ [p]) b = ?r" "pl_cost ?r \<le> pl_cost p" by (auto simp: cheaper_def)
    consider "?r = b" "\<forall>q \<in> set ps. pl_cost b \<le> pl_cost q"
      | i where "i < length ps" "?r = ps ! i" "pl_cost (ps ! i) < pl_cost b"
        "\<forall>j < i. pl_cost (ps ! i) < pl_cost (ps ! j)" "\<forall>q \<in> set ps. pl_cost (ps ! i) \<le> pl_cost q"
      using snoc by blast
    then show ?thesis
    proof cases
      case 1
      then show ?thesis using e by auto
    next
      case 2
      then have "i < length (ps @ [p]) \<and> fold cheaper (ps @ [p]) b = (ps @ [p]) ! i \<and>
          pl_cost ((ps @ [p]) ! i) < pl_cost b \<and> (\<forall>j < i. pl_cost ((ps @ [p]) ! i) < pl_cost ((ps @ [p]) ! j)) \<and>
          (\<forall>q \<in> set (ps @ [p]). pl_cost ((ps @ [p]) ! i) \<le> pl_cost q)"
        using e by (auto simp: nth_append)
      then show ?thesis by blast
    qed
  qed
qed simp

text \<open>
  Whatever sequence of calls follows \<open>init\<close>, \<open>save_to_position\<close> hands over the cheapest plan that was offered on
  the way, the earliest of several of the same cost, with the index, the rows, the first use, the number of key
  parts and the dependencies that belong to it. When nothing was offered below the largest number, the position
  gets that number as its cost and is otherwise untouched.
\<close>

theorem loose_scan_cheapest:
  assumes "ls_run join s xs (ls_init get_bound join s rem (loose_scan_new g)) = Some (ps, l)"
  shows "let pos' = save_to_position tab fi pos l in
     (\<forall>p \<in> set ps. DBL_MAX \<le> pl_cost p) \<and> pos' = pos\<lparr>p_read_time := DBL_MAX\<rparr> \<or>
     (\<exists>i < length ps. (\<forall>p \<in> set ps. pl_cost (ps ! i) \<le> pl_cost p) \<and> (\<forall>j < i. pl_cost (ps ! i) < pl_cost (ps ! j)) \<and>
        pos' = pos\<lparr>p_read_time := pl_cost (ps ! i), p_records_read := pl_records (ps ! i), p_key := pl_start (ps ! i),
          p_cond_selectivity := 1, p_loosescan_key := pl_key (ps ! i), p_loosescan_parts := pl_keypart (ps ! i) + 1,
          p_use_join_buffer := False, p_table := tab, p_filter := fi, p_ref_depend_map := pl_depend (ps ! i)\<rparr>)"
proof -
  let ?b = "ls_best (ls_init get_bound join s rem (loose_scan_new g))"
  have b: "pl_cost ?b = DBL_MAX" by (simp add: ls_best_def ls_init_def Let_def)
  have best: "ls_best l = fold cheaper ps ?b" using ls_run_best [OF assms] .
  have save: "save_to_position tab fi pos l =
      (if pl_cost (ls_best l) \<noteq> DBL_MAX
       then pos\<lparr>p_read_time := pl_cost (ls_best l), p_records_read := pl_records (ls_best l),
          p_key := pl_start (ls_best l), p_cond_selectivity := 1, p_loosescan_key := pl_key (ls_best l),
          p_loosescan_parts := pl_keypart (ls_best l) + 1, p_use_join_buffer := False, p_table := tab,
          p_filter := fi, p_ref_depend_map := pl_depend (ls_best l)\<rparr>
       else pos\<lparr>p_read_time := DBL_MAX\<rparr>)"
    by (simp add: save_to_position_def ls_best_def Let_def)
  consider "ls_best l = ?b" "\<forall>p \<in> set ps. DBL_MAX \<le> pl_cost p"
    | i where "i < length ps" "ls_best l = ps ! i" "pl_cost (ps ! i) < DBL_MAX"
      "\<forall>j < i. pl_cost (ps ! i) < pl_cost (ps ! j)" "\<forall>p \<in> set ps. pl_cost (ps ! i) \<le> pl_cost p"
    using fold_cheaper [of ps ?b] unfolding best b by auto
  then show ?thesis
  proof cases
    case 1
    then show ?thesis by (simp add: Let_def save b)
  next
    case 2
    then show ?thesis unfolding Let_def save by auto
  qed
qed

definition sample_join :: ls_join where
  "sample_join = \<lparr>emb_sjm_nest = False, cur_sj_inner_tables = 0, optimizer_switch = 1024, const_tables = 0\<rparr>"

lemma sample_run:
  "\<exists>l p. ls_run sample_join sample_tab [Next_key, Keyuse 5 sample_keyuse, Part1 3 (Some sample_keyuse) 2]
     (ls_init (\<lambda>_ _. 1) sample_join sample_tab 5 (loose_scan_new sample_choice)) = Some ([p], l) \<and>
     pl_cost p = 10 \<and> pl_key p = 3"
  by (simp add: sample_join_def sample_tab_def sample_nest_def sample_keyuse_def sample_choice_def ls_init_def Let_def
      ls_candidate_def optimizer_flag_def OPTIMIZER_SWITCH_LOOSE_SCAN_def loose_scan_new_def next_ref_key_def
      add_keyuse_def ull_shift_def key_part_shift_def check_ref_access_part1_def ls_accepts_def PREV_BITS_ull_def
      PREV_BITS_key_part_def)

theorem loose_scan_cheapest_witness:
  "\<exists>l p. ls_run sample_join sample_tab [Next_key, Keyuse 5 sample_keyuse, Part1 3 (Some sample_keyuse) 2]
     (ls_init (\<lambda>_ _. 1) sample_join sample_tab 5 (loose_scan_new sample_choice)) = Some ([p], l) \<and>
     p_read_time (save_to_position 1 0 pos l) = 10 \<and> p_loosescan_key (save_to_position 1 0 pos l) = 3"
proof -
  obtain l p where r: "ls_run sample_join sample_tab [Next_key, Keyuse 5 sample_keyuse, Part1 3 (Some sample_keyuse) 2]
     (ls_init (\<lambda>_ _. 1) sample_join sample_tab 5 (loose_scan_new sample_choice)) = Some ([p], l)"
    "pl_cost p = 10" "pl_key p = 3"
    using sample_run by blast
  have "(10 :: real) < 2 ^ 1023" using power_increasing [of 4 1023 "2 :: real"] by simp
  then have "10 < DBL_MAX" using DBL_MAX_ge(1) by linarith
  then show ?thesis
    using loose_scan_cheapest [OF r(1), of 1 0 pos] r by (auto simp: Let_def)
qed

end
