(* ===== verification/Predicant.thy ===== *)
theory Predicant
  imports Prelude "HOL-Library.Monad_Syntax"
begin

text \<open>
  The comparison of one item with a list of values, class \<open>Predicant_to_list_comparator\<close> of \<open>item_cmpfunc.h\<close>: the
  heart of \<open>IN\<close>, simple \<open>CASE\<close> and \<open>DECODE\<close>. Pairs that are compared by the same type handler share one \<open>cmp_item\<close>,
  which caches the value of the predicant.
\<close>

section \<open>Data\<close>

text \<open>
  Type handlers are addresses, 0 is null. The results of comparisons are integers. The class of an item \<open>'i\<close>, of a
  value \<open>'v\<close> and of a \<open>cmp_item\<close> \<open>'c\<close> are parameters, with the virtual functions on them. \<open>null_value\<close> is a field of
  the item, which every evaluation of it sets: \<open>store_value\<close> evaluates the predicant and leaves the field at whether
  its value is null. \<open>cl_null_value\<close> reads it after that: a row is compared with one predicant, whose value does not
  change within the row, so what the first \<open>store_value\<close> of the row left is what all its comparisons read.
\<close>

definition cmp_FALSE :: int where "cmp_FALSE = 0"
definition cmp_TRUE :: int where "cmp_TRUE = 1"
definition UNKNOWN :: int where "UNKNOWN = - 1"

record ('c, 'i, 'v) cmp_lib =
  cl_store_value :: "'c \<Rightarrow> 'i \<Rightarrow> 'c"
  cl_cmp :: "'c \<Rightarrow> 'i \<Rightarrow> int"
  cl_cmp_not_null :: "'c \<Rightarrow> 'v \<Rightarrow> int"
  cl_save_in_value :: "nat \<Rightarrow> 'i \<Rightarrow> 'v"
  cl_is_null :: "'v \<Rightarrow> bool"
  cl_null_value :: "'i \<Rightarrow> bool"
  cl_row_handler :: nat

record 'c Predicant_to_value_comparator =
  m_handler :: nat
  m_cmp_item :: "'c option"
  m_arg_index :: nat
  m_handler_index :: nat

record 'c Predicant_to_list_comparator =
  m_comparators :: "'c Predicant_to_value_comparator list"
  m_comparator_count :: nat
  m_predicant_index :: nat

section \<open>Operations\<close>

text \<open>\<open>alloc_comparators\<close> is only declared: a parameter that gives the array.\<close>

definition predicant_new ::
  "(nat \<Rightarrow> 'c Predicant_to_value_comparator list) \<Rightarrow> nat \<Rightarrow> 'c Predicant_to_list_comparator" where
  "predicant_new alloc_comparators nvalues =
     \<lparr>m_comparators = alloc_comparators nvalues, m_comparator_count = 0, m_predicant_index = 0\<rparr>"

text \<open>\<open>Inr idx\<close> for a handler that was found, \<open>Inl ()\<close> for one that was not.\<close>

definition find_handler ::
  "nat \<Rightarrow> nat \<Rightarrow> 'c Predicant_to_list_comparator \<Rightarrow> unit + nat" where
  "find_handler handler count p =
     (case find (\<lambda>i. m_handler (m_comparators p ! i) = handler) [0 ..< count] of
        Some i \<Rightarrow> Inr i | None \<Rightarrow> Inl ())"

text \<open>\<open>cmp->m_cmp_item->store_value\<close> for the element at an index.\<close>

definition store_in_comparator ::
  "('c, 'i, 'v) cmp_lib \<Rightarrow> nat \<Rightarrow> 'i \<Rightarrow> 'c Predicant_to_list_comparator \<Rightarrow> 'c Predicant_to_list_comparator" where
  "store_in_comparator lib h item p =
     (let c = m_comparators p ! h
      in p\<lparr>m_comparators := (m_comparators p)[h := c\<lparr>m_cmp_item :=
            map_option (\<lambda>x. cl_store_value lib x item) (m_cmp_item c)\<rparr>]\<rparr>)"

text \<open>\<open>None\<close> where an index lies outside its array or \<open>m_cmp_item\<close> is null.\<close>

definition cmp_arg ::
  "('c, 'i, 'v) cmp_lib \<Rightarrow> 'i list \<Rightarrow> nat \<Rightarrow> 'c Predicant_to_list_comparator \<Rightarrow>
   (int \<times> 'c Predicant_to_list_comparator) option" where
  "cmp_arg lib args i p =
     do {
       ci \<leftarrow> arr_get (m_comparators p) i;
       let h = m_handler_index ci;
       cmp \<leftarrow> arr_get (m_comparators p) h;
       _ \<leftarrow> m_cmp_item cmp;
       pred \<leftarrow> arr_get args (m_predicant_index p);
       let p = (if m_handler_index ci = i then store_in_comparator lib h pred p else p);
       if cl_null_value lib pred \<and> m_handler ci \<noteq> cl_row_handler lib then Some (UNKNOWN, p)
       else do {
         arg \<leftarrow> arr_get args (m_arg_index ci);
         in_item \<leftarrow> m_cmp_item (m_comparators p ! h);
         Some (cl_cmp lib in_item arg, p)
       }
     }"

definition cmp_args_nulls_equal ::
  "('c, 'i, 'v) cmp_lib \<Rightarrow> 'i list \<Rightarrow> nat \<Rightarrow> 'c Predicant_to_list_comparator \<Rightarrow>
   (int \<times> 'c Predicant_to_list_comparator) option" where
  "cmp_args_nulls_equal lib args i p =
     do {
       ci \<leftarrow> arr_get (m_comparators p) i;
       let h = m_handler_index ci;
       cmp \<leftarrow> arr_get (m_comparators p) h;
       _ \<leftarrow> m_cmp_item cmp;
       pred \<leftarrow> arr_get args (m_predicant_index p);
       arg \<leftarrow> arr_get args (m_arg_index ci);
       let p = (if m_handler_index ci = i then store_in_comparator lib h pred p else p);
       let val = cl_save_in_value lib (m_handler ci) arg;
       if cl_null_value lib pred \<and> cl_is_null lib val then Some (cmp_FALSE, p)
       else if cl_null_value lib pred \<or> cl_is_null lib val then Some (UNKNOWN, p)
       else do {
         in_item \<leftarrow> m_cmp_item (m_comparators p ! h);
         Some (cl_cmp_not_null lib in_item val, p)
       }
     }"

definition comparator_cleared :: "'c Predicant_to_value_comparator" where
  "comparator_cleared = \<lparr>m_handler = 0, m_cmp_item = None, m_arg_index = 0, m_handler_index = 0\<rparr>"

text \<open>The deleted \<open>cmp_item\<close>, if any, and the element set to zero.\<close>

definition comparator_cleanup ::
  "'c Predicant_to_value_comparator \<Rightarrow> 'c option \<times> 'c Predicant_to_value_comparator" where
  "comparator_cleanup c = (m_cmp_item c, comparator_cleared)"

definition get_comparator_type_handler :: "nat \<Rightarrow> 'c Predicant_to_list_comparator \<Rightarrow> nat option" where
  "get_comparator_type_handler i p = map_option m_handler (arr_get (m_comparators p) i)"

definition get_comparator_arg_index :: "nat \<Rightarrow> 'c Predicant_to_list_comparator \<Rightarrow> nat option" where
  "get_comparator_arg_index i p = map_option m_arg_index (arr_get (m_comparators p) i)"

definition get_comparator_cmp_item :: "nat \<Rightarrow> 'c Predicant_to_list_comparator \<Rightarrow> 'c option option" where
  "get_comparator_cmp_item i p = map_option m_cmp_item (arr_get (m_comparators p) i)"

definition add_predicant :: "nat \<Rightarrow> 'c Predicant_to_list_comparator \<Rightarrow> 'c Predicant_to_list_comparator" where
  "add_predicant predicant_index p = p\<lparr>m_predicant_index := predicant_index\<rparr>"

text \<open>The deleted objects and the comparator.\<close>

definition predicant_cleanup ::
  "'c Predicant_to_list_comparator \<Rightarrow> 'c list \<times> 'c Predicant_to_list_comparator" where
  "predicant_cleanup p =
     (let n = m_comparator_count p; rs = map comparator_cleanup (take n (m_comparators p))
      in (List.map_filter fst rs,
          p\<lparr>m_comparators := map snd rs @ drop n (m_comparators p), m_comparator_count := 0, m_predicant_index := 0\<rparr>))"

text \<open>\<open>alloc_comparators\<close> gives its status and the array.\<close>

definition init_clone ::
  "(nat \<Rightarrow> bool \<times> 'c Predicant_to_value_comparator list) \<Rightarrow> nat \<Rightarrow> 'c Predicant_to_list_comparator \<Rightarrow>
   bool \<times> 'c Predicant_to_list_comparator" where
  "init_clone alloc_comparators nvalues p =
     (let (r, a) = alloc_comparators nvalues
      in (r, p\<lparr>m_comparator_count := 0, m_predicant_index := 0, m_comparators := a\<rparr>))"

text \<open>
  The loop of \<open>cmp\<close> over the indices that are left: the result, \<open>*idx\<close>, \<open>*found_unknown_values\<close> (\<open>None\<close> for a null
  pointer) and the comparator.
\<close>

fun cmp_loop ::
  "('c, 'i, 'v) cmp_lib \<Rightarrow> 'i list \<Rightarrow> nat list \<Rightarrow> nat \<Rightarrow> bool option \<Rightarrow> 'c Predicant_to_list_comparator \<Rightarrow>
   (bool \<times> nat \<times> bool option \<times> 'c Predicant_to_list_comparator) option" where
  "cmp_loop lib args [] idx found p = Some (True, idx, found, p)"
| "cmp_loop lib args (i # is) idx found p =
     do {
       (rc, p) \<leftarrow> cmp_arg lib args i p;
       if rc = cmp_FALSE then Some (False, m_arg_index (m_comparators p ! i), found, p)
       else if rc = UNKNOWN
       then (case found of
               None \<Rightarrow> Some (True, idx, found, p)
             | Some _ \<Rightarrow> cmp_loop lib args is idx (Some True) p)
       else cmp_loop lib args is idx found p
     }"

definition predicant_cmp ::
  "('c, 'i, 'v) cmp_lib \<Rightarrow> 'i list \<Rightarrow> nat \<Rightarrow> bool option \<Rightarrow> 'c Predicant_to_list_comparator \<Rightarrow>
   (bool \<times> nat \<times> bool option \<times> 'c Predicant_to_list_comparator) option" where
  "predicant_cmp lib args idx found p = cmp_loop lib args [0 ..< m_comparator_count p] idx found p"

fun cmp_nulls_loop ::
  "('c, 'i, 'v) cmp_lib \<Rightarrow> 'i list \<Rightarrow> nat list \<Rightarrow> nat \<Rightarrow> 'c Predicant_to_list_comparator \<Rightarrow>
   (bool \<times> nat \<times> 'c Predicant_to_list_comparator) option" where
  "cmp_nulls_loop lib args [] idx p = Some (True, idx, p)"
| "cmp_nulls_loop lib args (i # is) idx p =
     do {
       (rc, p) \<leftarrow> cmp_args_nulls_equal lib args i p;
       if rc = cmp_FALSE then Some (False, m_arg_index (m_comparators p ! i), p)
       else cmp_nulls_loop lib args is idx p
     }"

definition cmp_nulls_equal ::
  "('c, 'i, 'v) cmp_lib \<Rightarrow> 'i list \<Rightarrow> nat \<Rightarrow> 'c Predicant_to_list_comparator \<Rightarrow>
   (bool \<times> nat \<times> 'c Predicant_to_list_comparator) option" where
  "cmp_nulls_equal lib args idx p = cmp_nulls_loop lib args [0 ..< m_comparator_count p] idx p"

section \<open>Well-formed comparators\<close>

text \<open>
  A comparison depends on the handler, on the predicant that was stored last and on the value, and on nothing else.
\<close>

definition cmp_lib_ok ::
  "('c, 'i, 'v) cmp_lib \<Rightarrow> ('c \<Rightarrow> nat) \<Rightarrow> (nat \<Rightarrow> 'i \<Rightarrow> 'i \<Rightarrow> int) \<Rightarrow> (nat \<Rightarrow> 'i \<Rightarrow> 'v \<Rightarrow> int) \<Rightarrow> bool" where
  "cmp_lib_ok lib handler_of eq3 eqv \<longleftrightarrow>
     (\<forall>c i. handler_of (cl_store_value lib c i) = handler_of c) \<and>
     (\<forall>c i v. cl_cmp lib (cl_store_value lib c i) v = eq3 (handler_of c) i v) \<and>
     (\<forall>c i v. cl_cmp_not_null lib (cl_store_value lib c i) v = eqv (handler_of c) i v)"

text \<open>
  What \<open>detect_unique_handlers\<close> and \<open>make_unique_cmp_items\<close> establish: the leftmost pair of a handler has the
  \<open>cmp_item\<close> that all pairs of the handler use.
\<close>

definition predicant_wf :: "('c \<Rightarrow> nat) \<Rightarrow> nat \<Rightarrow> 'c Predicant_to_list_comparator \<Rightarrow> bool" where
  "predicant_wf handler_of nargs p \<longleftrightarrow>
     m_predicant_index p < nargs \<and> m_comparator_count p \<le> length (m_comparators p) \<and>
     (\<forall>i < m_comparator_count p.
        let c = m_comparators p ! i; h = m_handler_index c; l = m_comparators p ! h
        in m_arg_index c < nargs \<and> h \<le> i \<and> m_handler_index l = h \<and> m_handler l = m_handler c \<and>
           (\<exists>x. m_cmp_item l = Some x \<and> handler_of x = m_handler c))"


text \<open>The result of a pair: it does not depend on the caches.\<close>

definition pair_result ::
  "('c, 'i, 'v) cmp_lib \<Rightarrow> (nat \<Rightarrow> 'i \<Rightarrow> 'i \<Rightarrow> int) \<Rightarrow> 'i list \<Rightarrow> 'c Predicant_to_list_comparator \<Rightarrow> nat \<Rightarrow> int" where
  "pair_result lib eq3 args p i =
     (let pred = args ! m_predicant_index p; c = m_comparators p ! i
      in if cl_null_value lib pred \<and> m_handler c \<noteq> cl_row_handler lib then UNKNOWN
         else eq3 (m_handler c) pred (args ! m_arg_index c))"

definition pair_result_nulls ::
  "('c, 'i, 'v) cmp_lib \<Rightarrow> (nat \<Rightarrow> 'i \<Rightarrow> 'v \<Rightarrow> int) \<Rightarrow> 'i list \<Rightarrow> 'c Predicant_to_list_comparator \<Rightarrow> nat \<Rightarrow> int" where
  "pair_result_nulls lib eqv args p i =
     (let pred = args ! m_predicant_index p; c = m_comparators p ! i;
          val = cl_save_in_value lib (m_handler c) (args ! m_arg_index c)
      in if cl_null_value lib pred \<and> cl_is_null lib val then cmp_FALSE
         else if cl_null_value lib pred \<or> cl_is_null lib val then UNKNOWN
         else eqv (m_handler c) pred val)"

text \<open>Everything but the caches stays.\<close>

definition same_layout :: "'c Predicant_to_list_comparator \<Rightarrow> 'c Predicant_to_list_comparator \<Rightarrow> bool" where
  "same_layout p p' \<longleftrightarrow>
     m_predicant_index p' = m_predicant_index p \<and> m_comparator_count p' = m_comparator_count p \<and>
     map (\<lambda>c. (m_handler c, m_arg_index c, m_handler_index c)) (m_comparators p') =
     map (\<lambda>c. (m_handler c, m_arg_index c, m_handler_index c)) (m_comparators p)"

lemma same_layoutD:
  assumes "same_layout p p'"
  shows "m_predicant_index p' = m_predicant_index p" "m_comparator_count p' = m_comparator_count p"
    "length (m_comparators p') = length (m_comparators p)"
    "i < length (m_comparators p) \<Longrightarrow> m_handler (m_comparators p' ! i) = m_handler (m_comparators p ! i)"
    "i < length (m_comparators p) \<Longrightarrow> m_arg_index (m_comparators p' ! i) = m_arg_index (m_comparators p ! i)"
    "i < length (m_comparators p) \<Longrightarrow> m_handler_index (m_comparators p' ! i) = m_handler_index (m_comparators p ! i)"
proof -
  note l = assms [unfolded same_layout_def]
  show "m_predicant_index p' = m_predicant_index p" "m_comparator_count p' = m_comparator_count p" using l by auto
  show len: "length (m_comparators p') = length (m_comparators p)" using l by (auto dest: map_eq_imp_length_eq)
  have "map (\<lambda>c. (m_handler c, m_arg_index c, m_handler_index c)) (m_comparators p') ! i =
      map (\<lambda>c. (m_handler c, m_arg_index c, m_handler_index c)) (m_comparators p) ! i" using l by simp
  then show "i < length (m_comparators p) \<Longrightarrow> m_handler (m_comparators p' ! i) = m_handler (m_comparators p ! i)"
    "i < length (m_comparators p) \<Longrightarrow> m_arg_index (m_comparators p' ! i) = m_arg_index (m_comparators p ! i)"
    "i < length (m_comparators p) \<Longrightarrow> m_handler_index (m_comparators p' ! i) = m_handler_index (m_comparators p ! i)"
    using len by simp_all
qed

lemma same_layout_refl [simp]: "same_layout p p"
  by (simp add: same_layout_def)

lemma same_layout_trans: "same_layout p q \<Longrightarrow> same_layout q r \<Longrightarrow> same_layout p r"
  by (simp add: same_layout_def)

text \<open>The caches of the handlers whose leftmost pair lies before \<open>k\<close> have the predicant of this call.\<close>

definition stored_before ::
  "('c, 'i, 'v) cmp_lib \<Rightarrow> ('c \<Rightarrow> nat) \<Rightarrow> 'i \<Rightarrow> nat \<Rightarrow> 'c Predicant_to_list_comparator \<Rightarrow> bool" where
  "stored_before lib handler_of pred k p \<longleftrightarrow>
     (\<forall>i < m_comparator_count p. m_handler_index (m_comparators p ! i) < k \<longrightarrow>
        (\<exists>c. m_cmp_item (m_comparators p ! m_handler_index (m_comparators p ! i)) = Some (cl_store_value lib c pred) \<and>
             handler_of c = m_handler (m_comparators p ! i)))"

lemma predicant_wfD:
  assumes "predicant_wf handler_of n p" "i < m_comparator_count p"
  shows "m_arg_index (m_comparators p ! i) < n" "m_handler_index (m_comparators p ! i) \<le> i"
    "i < length (m_comparators p)" "m_handler_index (m_comparators p ! i) < length (m_comparators p)"
    "m_handler_index (m_comparators p ! m_handler_index (m_comparators p ! i)) = m_handler_index (m_comparators p ! i)"
    "m_handler (m_comparators p ! m_handler_index (m_comparators p ! i)) = m_handler (m_comparators p ! i)"
    "\<exists>x. m_cmp_item (m_comparators p ! m_handler_index (m_comparators p ! i)) = Some x \<and>
       handler_of x = m_handler (m_comparators p ! i)"
  using assms by (auto simp: predicant_wf_def Let_def)

text \<open>What both comparisons do with the cache at an index, before they look at the values.\<close>

definition cache_at :: "('c, 'i, 'v) cmp_lib \<Rightarrow> nat \<Rightarrow> 'i \<Rightarrow> 'c Predicant_to_list_comparator \<Rightarrow> 'c Predicant_to_list_comparator" where
  "cache_at lib k pred p =
     (if m_handler_index (m_comparators p ! k) = k then store_in_comparator lib k pred p else p)"

lemma cache_at_step:
  assumes lib: "cmp_lib_ok lib handler_of eq3 eqv" and wf: "predicant_wf handler_of n p"
    and st: "stored_before lib handler_of pred k p" and k: "k < m_comparator_count p"
  shows "same_layout p (cache_at lib k pred p)" "predicant_wf handler_of n (cache_at lib k pred p)"
    "stored_before lib handler_of pred (Suc k) (cache_at lib k pred p)"
    "\<exists>c. m_cmp_item (m_comparators (cache_at lib k pred p) ! m_handler_index (m_comparators p ! k)) =
       Some (cl_store_value lib c pred) \<and> handler_of c = m_handler (m_comparators p ! k)"
proof -
  let ?p = "cache_at lib k pred p" and ?cs = "m_comparators p"
  note d = predicant_wfD [OF wf]
  have keep: "handler_of (cl_store_value lib c i) = handler_of c" for c i using lib by (simp add: cmp_lib_ok_def)
  show lay: "same_layout p ?p"
    using d(3) [OF k]
    by (auto simp: cache_at_def store_in_comparator_def same_layout_def Let_def map_update [symmetric]
        intro!: nth_equalityI simp: nth_list_update)
  note sl = same_layoutD [OF lay]
  have at: "m_cmp_item (m_comparators ?p ! j) =
      (if m_handler_index (?cs ! k) = k \<and> j = k then map_option (\<lambda>x. cl_store_value lib x pred) (m_cmp_item (?cs ! k))
       else m_cmp_item (?cs ! j))" if "j < length ?cs" for j
    using that by (auto simp: cache_at_def store_in_comparator_def Let_def nth_list_update)
  have sto: "\<exists>c. m_cmp_item (m_comparators ?p ! m_handler_index (?cs ! i)) = Some (cl_store_value lib c pred) \<and>
       handler_of c = m_handler (?cs ! i)"
    if i: "i < m_comparator_count p" "m_handler_index (?cs ! i) < Suc k" for i
  proof (cases "m_handler_index (?cs ! i) = k")
    case True
    then have "m_handler_index (?cs ! k) = k" "m_handler (?cs ! k) = m_handler (?cs ! i)"
      using d(5,6) [OF i(1)] by simp_all
    then show ?thesis using at [OF d(4) [OF i(1)]] True d(7) [OF i(1)] by auto
  next
    case False
    then have "m_handler_index (?cs ! i) < k" using i(2) by simp
    then show ?thesis using st at [OF d(4) [OF i(1)]] False i(1) by (simp add: stored_before_def)
  qed
  show "stored_before lib handler_of pred (Suc k) ?p"
    unfolding stored_before_def sl(2)
  proof (intro allI impI)
    fix i assume i: "i < m_comparator_count p" "m_handler_index (m_comparators ?p ! i) < Suc k"
    show "\<exists>c. m_cmp_item (m_comparators ?p ! m_handler_index (m_comparators ?p ! i)) = Some (cl_store_value lib c pred) \<and>
       handler_of c = m_handler (m_comparators ?p ! i)"
      using sto [OF i(1)] i(2) sl(4,6) [OF d(3) [OF i(1)]] by simp
  qed
  show "\<exists>c. m_cmp_item (m_comparators ?p ! m_handler_index (?cs ! k)) = Some (cl_store_value lib c pred) \<and>
      handler_of c = m_handler (?cs ! k)"
    using sto [OF k] d(2) [OF k] by simp
  have item: "\<exists>x. m_cmp_item (m_comparators ?p ! m_handler_index (?cs ! i)) = Some x \<and> handler_of x = m_handler (?cs ! i)"
    if "i < m_comparator_count p" for i
    using at [OF d(4) [OF that]] d(5,6,7) [OF that] keep by auto
  show "predicant_wf handler_of n ?p"
    unfolding predicant_wf_def Let_def sl(1-3)
  proof (intro conjI allI impI)
    show "m_predicant_index p < n" "m_comparator_count p \<le> length ?cs" using wf by (simp_all add: predicant_wf_def)
    fix i assume i: "i < m_comparator_count p"
    note e = sl(4-6) [OF d(3) [OF i]] sl(4-6) [OF d(4) [OF i]] d(1,2,5,6) [OF i]
    show "m_arg_index (m_comparators ?p ! i) < n" "m_handler_index (m_comparators ?p ! i) \<le> i"
      "m_handler_index (m_comparators ?p ! m_handler_index (m_comparators ?p ! i)) = m_handler_index (m_comparators ?p ! i)"
      "m_handler (m_comparators ?p ! m_handler_index (m_comparators ?p ! i)) = m_handler (m_comparators ?p ! i)"
      using e by simp_all
    show "\<exists>x. m_cmp_item (m_comparators ?p ! m_handler_index (m_comparators ?p ! i)) = Some x \<and>
        handler_of x = m_handler (m_comparators ?p ! i)"
      using item [OF i] e by simp
  qed
qed


lemma cmp_arg_step:
  assumes lib: "cmp_lib_ok lib handler_of eq3 eqv" and wf: "predicant_wf handler_of (length args) p"
    and st: "stored_before lib handler_of (args ! m_predicant_index p) k p" and k: "k < m_comparator_count p"
  shows "cmp_arg lib args k p =
      Some (pair_result lib eq3 args p k, cache_at lib k (args ! m_predicant_index p) p)"
    "cmp_args_nulls_equal lib args k p =
      Some (pair_result_nulls lib eqv args p k, cache_at lib k (args ! m_predicant_index p) p)"
proof -
  let ?pred = "args ! m_predicant_index p" and ?h = "m_handler_index (m_comparators p ! k)"
  note d = predicant_wfD [OF wf k]
  obtain c where c: "m_cmp_item (m_comparators (cache_at lib k ?pred p) ! ?h) = Some (cl_store_value lib c ?pred)"
    "handler_of c = m_handler (m_comparators p ! k)"
    using cache_at_step(4) [OF lib wf st k] by blast
  obtain x where x: "m_cmp_item (m_comparators p ! ?h) = Some x" using d(7) by blast
  have pi: "m_predicant_index p < length args" using wf by (simp add: predicant_wf_def)
  have cache: "(if ?h = k then store_in_comparator lib ?h ?pred p else p) = cache_at lib k ?pred p"
    by (simp add: cache_at_def)
  have eqs: "cl_cmp lib (cl_store_value lib c ?pred) v = eq3 (m_handler (m_comparators p ! k)) ?pred v"
    "cl_cmp_not_null lib (cl_store_value lib c ?pred) w = eqv (m_handler (m_comparators p ! k)) ?pred w" for v w
    using lib c(2) by (simp_all add: cmp_lib_ok_def)
  show "cmp_arg lib args k p = Some (pair_result lib eq3 args p k, cache_at lib k ?pred p)"
    using d(1,3,4) pi x c(1)
    by (simp add: cmp_arg_def arr_get_def Let_def cache pair_result_def eqs del: bind_eq_Some_conv)
  show "cmp_args_nulls_equal lib args k p = Some (pair_result_nulls lib eqv args p k, cache_at lib k ?pred p)"
    using d(1,3,4) pi x c(1)
    by (simp add: cmp_args_nulls_equal_def arr_get_def Let_def cache pair_result_nulls_def eqs del: bind_eq_Some_conv)
qed

lemma pair_result_layout:
  assumes "same_layout p p'" "i < length (m_comparators p)"
  shows "pair_result lib eq3 args p' i = pair_result lib eq3 args p i"
    "pair_result_nulls lib eqv args p' i = pair_result_nulls lib eqv args p i"
  using same_layoutD [OF assms(1)] assms(2) by (simp_all add: pair_result_def pair_result_nulls_def Let_def)

text \<open>The loops over the results of the pairs, without the caches.\<close>

fun scan_pairs :: "(nat \<Rightarrow> int) \<Rightarrow> (nat \<Rightarrow> nat) \<Rightarrow> nat list \<Rightarrow> nat \<Rightarrow> bool option \<Rightarrow> bool \<times> nat \<times> bool option" where
  "scan_pairs res arg [] idx found = (True, idx, found)"
| "scan_pairs res arg (i # is) idx found =
     (if res i = cmp_FALSE then (False, arg i, found)
      else if res i = UNKNOWN
      then (case found of None \<Rightarrow> (True, idx, None) | Some _ \<Rightarrow> scan_pairs res arg is idx (Some True))
      else scan_pairs res arg is idx found)"

lemma scan_pairs_in:
  "scan_pairs res arg is idx (Some f) =
     (case find (\<lambda>i. res i = cmp_FALSE) is of
        Some i \<Rightarrow> (False, arg i, Some (f \<or> UNKNOWN \<in> res ` set (takeWhile (\<lambda>j. res j \<noteq> cmp_FALSE) is)))
      | None \<Rightarrow> (True, idx, Some (f \<or> UNKNOWN \<in> res ` set is)))"
  by (induction "is" arbitrary: f) (auto simp: cmp_FALSE_def UNKNOWN_def split: option.splits)

lemma scan_pairs_case:
  "scan_pairs res arg is idx None =
     (case find (\<lambda>i. res i = cmp_FALSE \<or> res i = UNKNOWN) is of
        Some i \<Rightarrow> if res i = cmp_FALSE then (False, arg i, None) else (True, idx, None)
      | None \<Rightarrow> (True, idx, None))"
  by (induction "is") (auto split: option.splits)

lemma scan_pairs_nulls:
  "fst (scan_pairs res arg is idx (Some f)) = (case find (\<lambda>i. res i = cmp_FALSE) is of Some i \<Rightarrow> False | None \<Rightarrow> True)"
  "fst (snd (scan_pairs res arg is idx (Some f))) = (case find (\<lambda>i. res i = cmp_FALSE) is of Some i \<Rightarrow> arg i | None \<Rightarrow> idx)"
  by (simp_all add: scan_pairs_in split: option.split)

lemma loop_step:
  assumes lib: "cmp_lib_ok lib handler_of eq3 eqv" and wf: "predicant_wf handler_of (length args) p"
    and "stored_before lib handler_of (args ! m_predicant_index p0) k p"
    and "same_layout p0 p" "k < m_comparator_count p0"
  defines "p1 \<equiv> cache_at lib k (args ! m_predicant_index p0) p"
  shows "cmp_arg lib args k p = Some (pair_result lib eq3 args p0 k, p1)"
    "cmp_args_nulls_equal lib args k p = Some (pair_result_nulls lib eqv args p0 k, p1)"
    "predicant_wf handler_of (length args) p1" "stored_before lib handler_of (args ! m_predicant_index p0) (Suc k) p1"
    "same_layout p0 p1" "m_arg_index (m_comparators p1 ! k) = m_arg_index (m_comparators p0 ! k)"
proof -
  note sl = same_layoutD [OF assms(4)]
  have st: "stored_before lib handler_of (args ! m_predicant_index p) k p" using assms(3) sl(1) by simp
  have k: "k < m_comparator_count p" using assms(5) sl(2) by simp
  have k0: "k < length (m_comparators p0)" using wf k sl(3) by (simp add: predicant_wf_def)
  note c = cache_at_step [OF lib wf st k] and r = pair_result_layout [OF assms(4) k0]
  show "cmp_arg lib args k p = Some (pair_result lib eq3 args p0 k, p1)"
    "cmp_args_nulls_equal lib args k p = Some (pair_result_nulls lib eqv args p0 k, p1)"
    using cmp_arg_step [OF lib wf st k] r sl(1) by (simp_all add: p1_def)
  show "predicant_wf handler_of (length args) p1" "stored_before lib handler_of (args ! m_predicant_index p0) (Suc k) p1"
    using c(2,3) sl(1) by (simp_all add: p1_def)
  show l: "same_layout p0 p1" using same_layout_trans [OF assms(4) c(1)] sl(1) by (simp add: p1_def)
  show "m_arg_index (m_comparators p1 ! k) = m_arg_index (m_comparators p0 ! k)" using same_layoutD(5) [OF l k0] .
qed

lemma cmp_loop_scan:
  assumes lib: "cmp_lib_ok lib handler_of eq3 eqv" and "predicant_wf handler_of (length args) p" "stored_before lib handler_of (args ! m_predicant_index p0) k p"
    and "same_layout p0 p" "k \<le> m_comparator_count p0"
  shows "\<exists>p'. predicant_wf handler_of (length args) p' \<and> same_layout p0 p' \<and>
    cmp_loop lib args [k ..< m_comparator_count p0] idx found p =
    (case scan_pairs (pair_result lib eq3 args p0) (\<lambda>i. m_arg_index (m_comparators p0 ! i))
            [k ..< m_comparator_count p0] idx found of (r, i, f) \<Rightarrow> Some (r, i, f, p'))"
  using assms(2-)
proof (induction "m_comparator_count p0 - k" arbitrary: p k found)
  case (Suc m)
  then have k: "k < m_comparator_count p0" "m = m_comparator_count p0 - Suc k" "Suc k \<le> m_comparator_count p0" by auto
  note s = loop_step [OF lib Suc.prems(1-3) k(1)]
  note IH = Suc.hyps(1) [OF k(2) s(3,4,5) k(3)]
  show ?case
    unfolding upt_conv_Cons [OF k(1)] cmp_loop.simps scan_pairs.simps s(1)
    using IH [of found] IH [of "Some True"] s(3,5,6) by (auto split: option.split)
qed auto

lemma cmp_nulls_loop_scan:
  assumes lib: "cmp_lib_ok lib handler_of eq3 eqv" and "predicant_wf handler_of (length args) p" "stored_before lib handler_of (args ! m_predicant_index p0) k p"
    and "same_layout p0 p" "k \<le> m_comparator_count p0"
  shows "\<exists>p'. predicant_wf handler_of (length args) p' \<and> same_layout p0 p' \<and>
    cmp_nulls_loop lib args [k ..< m_comparator_count p0] idx p =
    (case find (\<lambda>i. pair_result_nulls lib eqv args p0 i = cmp_FALSE) [k ..< m_comparator_count p0] of
       Some i \<Rightarrow> Some (False, m_arg_index (m_comparators p0 ! i), p') | None \<Rightarrow> Some (True, idx, p'))"
  using assms(2-)
proof (induction "m_comparator_count p0 - k" arbitrary: p k)
  case (Suc m)
  then have k: "k < m_comparator_count p0" "m = m_comparator_count p0 - Suc k" "Suc k \<le> m_comparator_count p0" by auto
  note s = loop_step [OF lib Suc.prems(1-3) k(1)]
  note IH = Suc.hyps(1) [OF k(2) s(3,4,5) k(3)]
  show ?case
    unfolding upt_conv_Cons [OF k(1)] cmp_nulls_loop.simps find.simps s(2)
    using IH s(3,5,6) by auto
qed auto


section \<open>\<open>IN\<close>, \<open>CASE\<close> and \<open>DECODE\<close>\<close>

lemma stored_before_0 [simp]: "stored_before lib handler_of pred 0 p"
  by (simp add: stored_before_def)

text \<open>
  C4. \<open>cmp\<close> compares the predicant of the current row with the values in their order, each by its own type handler,
  although pairs of one handler share a cache that the previous rows have left behind. For \<open>IN\<close> (with a pointer for
  unknown results) it finds the first value that is equal to the predicant, and reports an unknown result exactly
  when a pair before it, or any pair when there is none, is uncertain because of a null. For \<open>CASE\<close> (without the
  pointer) it finds the first equal value unless an uncertain pair comes before. The comparator can be used for the
  next row: its layout is the same and well-formed.
\<close>

theorem predicant_compares:
  assumes lib: "cmp_lib_ok lib handler_of eq3 eqv" and wf: "predicant_wf handler_of (length args) p"
  defines "res \<equiv> pair_result lib eq3 args p" and "pairs \<equiv> [0 ..< m_comparator_count p]"
    and "arg \<equiv> \<lambda>i. m_arg_index (m_comparators p ! i)"
  shows "(\<exists>p1. predicant_wf handler_of (length args) p1 \<and> same_layout p p1 \<and>
      predicant_cmp lib args idx (Some f) p =
      (case find (\<lambda>i. res i = cmp_FALSE) pairs of
         Some i \<Rightarrow> Some (False, arg i, Some (f \<or> UNKNOWN \<in> res ` set (takeWhile (\<lambda>j. res j \<noteq> cmp_FALSE) pairs)), p1)
       | None \<Rightarrow> Some (True, idx, Some (f \<or> UNKNOWN \<in> res ` set pairs), p1))) \<and>
    (\<exists>p2. predicant_wf handler_of (length args) p2 \<and> same_layout p p2 \<and>
      predicant_cmp lib args idx None p =
      (case find (\<lambda>i. res i = cmp_FALSE \<or> res i = UNKNOWN) pairs of
         Some i \<Rightarrow> if res i = cmp_FALSE then Some (False, arg i, None, p2) else Some (True, idx, None, p2)
       | None \<Rightarrow> Some (True, idx, None, p2)))"
proof (intro conjI)
  note scan = cmp_loop_scan [OF lib wf stored_before_0 same_layout_refl le0]
  show "\<exists>p1. predicant_wf handler_of (length args) p1 \<and> same_layout p p1 \<and>
      predicant_cmp lib args idx (Some f) p =
      (case find (\<lambda>i. res i = cmp_FALSE) pairs of
         Some i \<Rightarrow> Some (False, arg i, Some (f \<or> UNKNOWN \<in> res ` set (takeWhile (\<lambda>j. res j \<noteq> cmp_FALSE) pairs)), p1)
       | None \<Rightarrow> Some (True, idx, Some (f \<or> UNKNOWN \<in> res ` set pairs), p1))"
    using scan [of idx "Some f"] unfolding predicant_cmp_def scan_pairs_in res_def pairs_def arg_def
    by (auto split: option.splits)
  show "\<exists>p2. predicant_wf handler_of (length args) p2 \<and> same_layout p p2 \<and>
      predicant_cmp lib args idx None p =
      (case find (\<lambda>i. res i = cmp_FALSE \<or> res i = UNKNOWN) pairs of
         Some i \<Rightarrow> if res i = cmp_FALSE then Some (False, arg i, None, p2) else Some (True, idx, None, p2)
       | None \<Rightarrow> Some (True, idx, None, p2))"
    using scan [of idx None] unfolding predicant_cmp_def scan_pairs_case res_def pairs_def arg_def
    by (auto split: option.splits if_splits)
qed

text \<open>\<open>cmp_nulls_equal\<close>, for \<open>DECODE\<close>: the first value that is equal, where two nulls are equal.\<close>

lemma predicant_compares_nulls:
  assumes lib: "cmp_lib_ok lib handler_of eq3 eqv" and wf: "predicant_wf handler_of (length args) p"
  shows "\<exists>p'. predicant_wf handler_of (length args) p' \<and> same_layout p p' \<and>
    cmp_nulls_equal lib args idx p =
    (case find (\<lambda>i. pair_result_nulls lib eqv args p i = cmp_FALSE) [0 ..< m_comparator_count p] of
       Some i \<Rightarrow> Some (False, m_arg_index (m_comparators p ! i), p') | None \<Rightarrow> Some (True, idx, p'))"
  using cmp_nulls_loop_scan [OF lib wf stored_before_0 same_layout_refl le0, of idx] by (simp add: cmp_nulls_equal_def)

text \<open>\<open>find_handler\<close> finds the leftmost of the first elements that has the handler.\<close>

lemma find_handler_leftmost:
  "case find_handler handler count p of
     Inr i \<Rightarrow> i < count \<and> m_handler (m_comparators p ! i) = handler \<and> (\<forall>j < i. m_handler (m_comparators p ! j) \<noteq> handler)
   | Inl _ \<Rightarrow> \<forall>i < count. m_handler (m_comparators p ! i) \<noteq> handler"
  by (auto simp: find_handler_def find_Some_iff find_None_iff split: option.splits)

text \<open>\<open>cleanup\<close> deletes every \<open>cmp_item\<close> once, in the order of the elements, and leaves nothing to compare.\<close>

lemma predicant_cleanup_deletes:
  assumes "predicant_cleanup p = (deleted, p')" "m_comparator_count p \<le> length (m_comparators p)"
  shows "deleted = List.map_filter m_cmp_item (take (m_comparator_count p) (m_comparators p)) \<and>
    predicant_cmp lib args idx found p' = Some (True, idx, found, p') \<and>
    fst (predicant_cleanup p') = []"
proof -
  have "List.map_filter fst (map comparator_cleanup cs) = List.map_filter m_cmp_item cs"
    for cs :: "'a Predicant_to_value_comparator list"
    by (induction cs) (simp_all add: comparator_cleanup_def List.map_filter_def)
  then show ?thesis
    using assms(1) by (auto simp: predicant_cleanup_def predicant_cmp_def Let_def List.map_filter_def)
qed

text \<open>Numbers and nulls, compared exactly by handler 1 and without sign by handler 2.\<close>

definition int_eq3 :: "nat \<Rightarrow> int option \<Rightarrow> int option \<Rightarrow> int" where
  "int_eq3 h a b =
     (case (a, b) of (Some x, Some y) \<Rightarrow> if (if h = 2 then \<bar>x\<bar> = \<bar>y\<bar> else x = y) then cmp_FALSE else cmp_TRUE
      | _ \<Rightarrow> UNKNOWN)"

definition int_cmp_lib :: "(nat \<times> int option, int option, int option) cmp_lib" where
  "int_cmp_lib = \<lparr>cl_store_value = (\<lambda>c i. (fst c, i)), cl_cmp = (\<lambda>c v. int_eq3 (fst c) (snd c) v),
     cl_cmp_not_null = (\<lambda>c v. int_eq3 (fst c) (snd c) v), cl_save_in_value = (\<lambda>_ v. v),
     cl_is_null = (\<lambda>v. v = None), cl_null_value = (\<lambda>v. v = None), cl_row_handler = 9\<rparr>"

definition int_comparator :: "(nat \<times> int option) Predicant_to_list_comparator" where
  "int_comparator = \<lparr>m_comparators =
       [\<lparr>m_handler = 1, m_cmp_item = Some (1, Some 4), m_arg_index = 1, m_handler_index = 0\<rparr>,
        \<lparr>m_handler = 2, m_cmp_item = Some (2, None), m_arg_index = 2, m_handler_index = 1\<rparr>,
        \<lparr>m_handler = 1, m_cmp_item = None, m_arg_index = 3, m_handler_index = 0\<rparr>],
     m_comparator_count = 3, m_predicant_index = 0\<rparr>"

theorem predicant_compares_witness:
  "\<exists>p1. predicant_cmp int_cmp_lib [Some 7, None, Some 3, Some 7] 0 (Some False) int_comparator =
     Some (False, 3, Some True, p1)"
proof -
  have lib: "cmp_lib_ok int_cmp_lib fst int_eq3 int_eq3" by (simp add: cmp_lib_ok_def int_cmp_lib_def)
  have wf: "predicant_wf fst (length [Some 7, None, Some 3, Some (7 :: int)]) int_comparator"
    by (auto simp: predicant_wf_def int_comparator_def Let_def less_Suc_eq numeral_3_eq_3)
  let ?res = "pair_result int_cmp_lib int_eq3 [Some 7, None, Some 3, Some (7 :: int)] int_comparator"
  note defs = int_comparator_def pair_result_def int_cmp_lib_def int_eq3_def cmp_FALSE_def cmp_TRUE_def UNKNOWN_def
  have res: "?res 0 = UNKNOWN" "?res 1 = cmp_TRUE" "?res 2 = cmp_FALSE" by (simp_all add: defs)
  have n: "[0 ..< m_comparator_count int_comparator] = [0, 1, 2]" by (simp add: int_comparator_def upt_rec)
  have f: "find (\<lambda>i. ?res i = cmp_FALSE) [0, 1, 2] = Some 2" "takeWhile (\<lambda>j. ?res j \<noteq> cmp_FALSE) [0, 1, 2] = [0, 1]"
    using res by (simp_all add: cmp_FALSE_def cmp_TRUE_def UNKNOWN_def)
  have a: "m_arg_index (m_comparators int_comparator ! 2) = 3" by (simp add: int_comparator_def)
  show ?thesis
    using predicant_compares [OF lib wf, of 0 False, THEN conjunct1] unfolding n f option.case a by (auto simp: res)
qed

end
