(* ===== verification/SessionClock.thy ===== *)
theory SessionClock
  imports Prelude
begin

text \<open>
  The clock of a session, of \<open>sql_class.h\<close> with the macros of \<open>my_sys.h\<close>: the time a statement starts at, which
  never stands still or goes back, the time set by \<open>SET timestamp\<close> and by replication, and the intervals for slow
  queries. On the platform of the repository \<open>my_time_t\<close> and \<open>ulong\<close> have 32 bits. The readings of the clocks
  (\<open>my_hrtime\<close>, \<open>my_interval_timer\<close>) are arguments.
\<close>

section \<open>Macros\<close>

definition HRTIME_RESOLUTION :: ulonglong where "HRTIME_RESOLUTION = 1000000"
definition SECOND_PART_MAX :: ulong where "SECOND_PART_MAX = 999999"

definition hrtime_to_time :: "ulonglong \<Rightarrow> 64 word" where
  "hrtime_to_time x = x div HRTIME_RESOLUTION"

definition hrtime_to_my_time :: "ulonglong \<Rightarrow> 32 word" where
  "hrtime_to_my_time x = ucast (hrtime_to_time x)"

definition hrtime_sec_part :: "ulonglong \<Rightarrow> ulong" where
  "hrtime_sec_part x = ucast (x mod HRTIME_RESOLUTION)"

text \<open>The argument is a signed number, which is converted to 64 bits.\<close>

definition hrtime_from_time :: "32 word \<Rightarrow> ulonglong" where
  "hrtime_from_time x = scast x * HRTIME_RESOLUTION"

section \<open>The members of \<open>THD\<close>\<close>

datatype secure_timestamp = SECTIME_NO | SECTIME_SUPER | SECTIME_REPL | SECTIME_YES

fun secure_number :: "secure_timestamp \<Rightarrow> nat" where
  "secure_number SECTIME_NO = 0"
| "secure_number SECTIME_SUPER = 1"
| "secure_number SECTIME_REPL = 2"
| "secure_number SECTIME_YES = 3"

record session_clock =
  user_time :: ulonglong
  system_time_start :: ulonglong
  system_time_sec :: "32 word"
  system_time_sec_part :: ulong
  start_time :: "32 word"
  start_time_sec_part :: ulong
  query_start_sec_part_used :: bool
  start_utime :: ulonglong
  utime_after_lock :: ulonglong
  utime_after_query :: ulonglong
  slave_thread :: bool
  server_status :: uint
  long_query_time :: ulonglong

definition query_start :: "session_clock \<Rightarrow> 32 word" where
  "query_start c = start_time c"

definition query_start_sec_part :: "session_clock \<Rightarrow> ulong \<times> session_clock" where
  "query_start_sec_part c = (start_time_sec_part c, c\<lparr>query_start_sec_part_used := True\<rparr>)"

definition set_system_time :: "ulonglong \<Rightarrow> session_clock \<Rightarrow> session_clock" where
  "set_system_time hrtime c =
     (let sec = hrtime_to_my_time hrtime; sec_part = hrtime_sec_part hrtime
      in if sint (system_time_sec c) < sint sec \<or>
            sec = system_time_sec c \<and> sec_part > system_time_sec_part c \<or> hrtime < system_time_start c
         then c\<lparr>system_time_sec := sec, system_time_sec_part := sec_part, system_time_start := hrtime\<rparr>
         else if system_time_sec_part c < SECOND_PART_MAX
         then c\<lparr>system_time_sec_part := system_time_sec_part c + 1\<rparr>
         else c\<lparr>system_time_sec := system_time_sec c + 1, system_time_sec_part := 0\<rparr>)"

definition set_start_time :: "ulonglong \<Rightarrow> session_clock \<Rightarrow> session_clock" where
  "set_start_time hrtime c =
     (if user_time c \<noteq> 0
      then c\<lparr>start_time := hrtime_to_my_time (user_time c), start_time_sec_part := hrtime_sec_part (user_time c)\<rparr>
      else (let c = set_system_time hrtime c
            in c\<lparr>start_time := system_time_sec c, start_time_sec_part := system_time_sec_part c\<rparr>))"

text \<open>\<open>microsecond_interval_timer\<close> is the interval timer, in nanoseconds, divided by 1000.\<close>

definition microsecond_interval_timer :: "ulonglong \<Rightarrow> ulonglong" where
  "microsecond_interval_timer timer = timer div 1000"

definition set_time :: "ulonglong \<Rightarrow> ulonglong \<Rightarrow> session_clock \<Rightarrow> session_clock" where
  "set_time hrtime timer c =
     (let c = set_start_time hrtime c; t = microsecond_interval_timer timer
      in c\<lparr>start_utime := t, utime_after_lock := t\<rparr>)"

definition set_time_user :: "ulonglong \<Rightarrow> ulonglong \<Rightarrow> ulonglong \<Rightarrow> session_clock \<Rightarrow> session_clock" where
  "set_time_user t hrtime timer c = set_time hrtime timer (c\<lparr>user_time := t\<rparr>)"

definition set_time_binlog ::
  "secure_timestamp \<Rightarrow> 32 word \<Rightarrow> ulong \<Rightarrow> ulonglong \<Rightarrow> ulonglong \<Rightarrow> session_clock \<Rightarrow> session_clock" where
  "set_time_binlog opt_secure_timestamp t sec_part hrtime timer c =
     (if secure_number opt_secure_timestamp > secure_number (if slave_thread c then SECTIME_REPL else SECTIME_SUPER)
      then set_time hrtime timer c
      else (let c = (if sec_part \<le> SECOND_PART_MAX
                     then c\<lparr>start_time := t, system_time_sec := t, start_time_sec_part := sec_part,
                            system_time_sec_part := sec_part\<rparr>
                     else if t \<noteq> system_time_sec c
                     then c\<lparr>start_time := t, system_time_sec := t, start_time_sec_part := 0, system_time_sec_part := 0\<rparr>
                     else (let p = system_time_sec_part c + 1
                           in c\<lparr>start_time := t, system_time_sec_part := p, start_time_sec_part := p\<rparr>));
                c = c\<lparr>user_time := hrtime_from_time (start_time c) + ucast (start_time_sec_part c)\<rparr>;
                u = microsecond_interval_timer timer
            in c\<lparr>start_utime := u, utime_after_lock := u\<rparr>))"

definition set_time_after_lock :: "ulonglong \<Rightarrow> session_clock \<Rightarrow> session_clock" where
  "set_time_after_lock timer c = c\<lparr>utime_after_lock := microsecond_interval_timer timer\<rparr>"

definition set_time_for_next_stage :: "ulonglong \<Rightarrow> session_clock \<Rightarrow> session_clock" where
  "set_time_for_next_stage timer c = c\<lparr>utime_after_query := microsecond_interval_timer timer\<rparr>"

definition SERVER_QUERY_WAS_SLOW :: uint where "SERVER_QUERY_WAS_SLOW = 2048"

definition update_server_status :: "ulonglong \<Rightarrow> session_clock \<Rightarrow> session_clock" where
  "update_server_status timer c =
     (let c = set_time_for_next_stage timer c
      in if utime_after_query c \<ge> utime_after_lock c + long_query_time c
         then c\<lparr>server_status := server_status c OR SERVER_QUERY_WAS_SLOW\<rparr> else c)"

section \<open>Time in microseconds\<close>

definition system_usec :: "session_clock \<Rightarrow> int" where
  "system_usec c = sint (system_time_sec c) * 1000000 + uint (system_time_sec_part c)"

definition clock_ok :: "session_clock \<Rightarrow> bool" where
  "clock_ok c \<longleftrightarrow> 0 \<le> sint (system_time_sec c) \<and> system_time_sec_part c \<le> SECOND_PART_MAX"

text \<open>The times \<open>my_time_t\<close> can count: before the year 2038.\<close>

definition MAX_USEC :: int where
  "MAX_USEC = 2 ^ 31 * 1000000"

lemma hrtime_parts:
  assumes "uint h < MAX_USEC"
  shows "sint (hrtime_to_my_time h) = uint h div 1000000" "uint (hrtime_sec_part h) = uint h mod 1000000"
proof -
  have d: "uint (hrtime_to_time h) = uint h div 1000000"
    by (simp add: hrtime_to_time_def HRTIME_RESOLUTION_def uint_div_distrib)
  have lt: "uint h div 1000000 < 2 ^ 31" using assms by (simp add: MAX_USEC_def div_less_iff_less_mult)
  have nn: "0 \<le> uint h div 1000000" by (simp add: pos_imp_zdiv_nonneg_iff)
  have u: "uint (hrtime_to_my_time h) = uint h div 1000000"
    using d lt nn by (simp add: hrtime_to_my_time_def unsigned_ucast_eq take_bit_int_eq_self)
  then show "sint (hrtime_to_my_time h) = uint h div 1000000"
    using lt nn by (simp add: sint_uint signed_take_bit_int_eq_self)
  have "uint (h mod HRTIME_RESOLUTION) = uint h mod 1000000"
    by (simp add: HRTIME_RESOLUTION_def uint_mod_distrib)
  moreover have "uint h mod 1000000 < 2 ^ 32" using pos_mod_bound [of 1000000 "uint h"] by simp
  ultimately show "uint (hrtime_sec_part h) = uint h mod 1000000"
    by (simp add: hrtime_sec_part_def unsigned_ucast_eq take_bit_int_eq_self)
qed

lemma usec_less_iff:
  assumes "0 \<le> (p :: int)" "p < 1000000" "0 \<le> q" "q < 1000000"
  shows "a * 1000000 + p < b * 1000000 + q \<longleftrightarrow> a < b \<or> a = b \<and> p < q"
  using assms by auto

text \<open>One reading of the clock: the later of the reading and the next microsecond, unless the clock was set back.\<close>

lemma set_system_time_step:
  assumes c: "clock_ok c" "system_usec c + 1 < MAX_USEC" and h: "uint h < MAX_USEC"
  shows "clock_ok (set_system_time h c)"
    "system_usec (set_system_time h c) =
       (if h < system_time_start c then uint h else max (uint h) (system_usec c + 1))"
    "system_time_start (set_system_time h c) \<le> max h (system_time_start c)"
proof -
  let ?s = "sint (system_time_sec c)" and ?p = "uint (system_time_sec_part c)"
  let ?hs = "hrtime_to_my_time h" and ?hp = "hrtime_sec_part h"
  note hp = hrtime_parts [OF h]
  have ok: "0 \<le> ?s" "?p \<le> 999999" using c(1) by (simp_all add: clock_ok_def SECOND_PART_MAX_def word_le_def)
  have hu: "sint ?hs * 1000000 + uint ?hp = uint h" using hp by simp
  have hb: "0 \<le> uint ?hp" "uint ?hp < 1000000" "0 \<le> sint ?hs" using hp by (simp_all add: pos_imp_zdiv_nonneg_iff)
  have later: "sint (system_time_sec c) < sint ?hs \<or> ?hs = system_time_sec c \<and> ?hp > system_time_sec_part c \<longleftrightarrow>
      system_usec c < uint h"
  proof -
    have e: "?hs = system_time_sec c \<longleftrightarrow> ?s = sint ?hs" by (metis word_eq_iff_signed)
    show ?thesis
      using usec_less_iff [of ?p "uint ?hp" ?s "sint ?hs"] ok hb unfolding e word_less_def system_usec_def hu [symmetric]
      by simp
  qed
  have "clock_ok (set_system_time h c) \<and>
      system_usec (set_system_time h c) = (if h < system_time_start c then uint h else max (uint h) (system_usec c + 1)) \<and>
      system_time_start (set_system_time h c) \<le> max h (system_time_start c)"
  proof (cases "system_usec c < uint h \<or> h < system_time_start c")
    case True
    then have "set_system_time h c = c\<lparr>system_time_sec := ?hs, system_time_sec_part := ?hp, system_time_start := h\<rparr>"
      using later by (auto simp: set_system_time_def Let_def)
    moreover have "?hp \<le> SECOND_PART_MAX" using hb by (simp add: SECOND_PART_MAX_def word_le_def)
    ultimately show ?thesis
      using True hu hb by (auto simp: system_usec_def clock_ok_def)
  next
    case False
    then have nl: "\<not> (sint (system_time_sec c) < sint ?hs \<or> ?hs = system_time_sec c \<and> ?hp > system_time_sec_part c)"
      "\<not> h < system_time_start c" using later by auto
    show ?thesis
    proof (cases "?p < 999999")
      case True
      then have lt: "system_time_sec_part c < SECOND_PART_MAX" by (simp add: SECOND_PART_MAX_def word_less_def)
      have p1: "uint (system_time_sec_part c + 1) = ?p + 1" using True by (simp add: uint_word_ariths)
      have e: "set_system_time h c = c\<lparr>system_time_sec_part := system_time_sec_part c + 1\<rparr>"
        using nl lt by (auto simp: set_system_time_def Let_def)
      have "system_time_sec_part c + 1 \<le> SECOND_PART_MAX"
        using p1 True by (simp add: SECOND_PART_MAX_def word_le_def)
      then show ?thesis
        using False p1 True ok unfolding e by (auto simp: system_usec_def clock_ok_def)
    next
      case part: False
      then have nlt: "\<not> system_time_sec_part c < SECOND_PART_MAX"
        by (simp add: SECOND_PART_MAX_def word_less_def)
      have p: "?p = 999999" using part ok(2) by simp
      have "(?s + 1) * 1000000 < 2 ^ 31 * 1000000" using c(2) p by (simp add: system_usec_def MAX_USEC_def)
      then have "?s + 1 < 2 ^ 31" by simp
      then have s1: "sint (system_time_sec c + 1) = ?s + 1"
        using ok(1) by (simp add: sint_word_ariths signed_take_bit_int_eq_self)
      have e: "set_system_time h c = c\<lparr>system_time_sec := system_time_sec c + 1, system_time_sec_part := 0\<rparr>"
        using nl nlt by (auto simp: set_system_time_def Let_def)
      show ?thesis
        using False s1 p ok unfolding e by (auto simp: system_usec_def clock_ok_def)
    qed
  qed
  then show "clock_ok (set_system_time h c)"
    "system_usec (set_system_time h c) =
       (if h < system_time_start c then uint h else max (uint h) (system_usec c + 1))"
    "system_time_start (set_system_time h c) \<le> max h (system_time_start c)" by blast+
qed

text \<open>The times of a sequence of statements, from the readings of the clock.\<close>

fun statement_times :: "ulonglong list \<Rightarrow> session_clock \<Rightarrow> int list \<times> session_clock" where
  "statement_times [] c = ([], c)"
| "statement_times (h # hs) c =
     (let c = set_start_time h c; (ts, c') = statement_times hs c
      in ((sint (start_time c) * 1000000 + uint (start_time_sec_part c)) # ts, c'))"

text \<open>The later of the reading and the next microsecond, again and again.\<close>

fun next_usecs :: "ulonglong list \<Rightarrow> int \<Rightarrow> int list" where
  "next_usecs [] u = []"
| "next_usecs (h # hs) u = max (uint h) (u + 1) # next_usecs hs (max (uint h) (u + 1))"

lemma next_usecs_sorted: "sorted_wrt (<) (u # next_usecs hs u) \<and> list_all2 (\<lambda>h t. uint h \<le> t) hs (next_usecs hs u)"
proof (induction hs arbitrary: u)
  case (Cons h hs)
  have "sorted_wrt (<) (max (uint h) (u + 1) # next_usecs hs (max (uint h) (u + 1)))"
    "list_all2 (\<lambda>h t. uint h \<le> t) hs (next_usecs hs (max (uint h) (u + 1)))"
    using Cons.IH by blast+
  moreover have "u < max (uint h) (u + 1)" by simp
  ultimately show ?case by (auto intro: less_trans)
qed simp

text \<open>
  C15. The time at which a statement starts never stands still: while no time has been set by the user and the clock of
  the machine is not set back, the statements of a session get strictly increasing times, whatever the
  resolution of the clock; each is the later of the reading of the clock and the microsecond after the statement
  before, so none lies before its reading, and microseconds are always below a million. The times are those that
  32 bits can count.
\<close>

theorem statement_times_increase:
  assumes "clock_ok c" "user_time c = 0" "sorted (map uint (system_time_start c # hs))"
    and "\<forall>h \<in> set hs. uint h + int (length hs) < MAX_USEC" "system_usec c + int (length hs) < MAX_USEC"
  shows "fst (statement_times hs c) = next_usecs hs (system_usec c) \<and>
     sorted_wrt (<) (system_usec c # fst (statement_times hs c)) \<and>
     list_all2 (\<lambda>h t. uint h \<le> t) hs (fst (statement_times hs c)) \<and> clock_ok (snd (statement_times hs c))"
proof -
  have "fst (statement_times hs c) = next_usecs hs (system_usec c) \<and> clock_ok (snd (statement_times hs c))"
    using assms
  proof (induction hs arbitrary: c)
    case (Cons h hs)
    let ?c = "set_system_time h c" and ?d = "set_start_time h c"
    have h: "uint h < MAX_USEC" "system_usec c + 1 < MAX_USEC" using Cons.prems(4,5) by auto
    have nb: "\<not> h < system_time_start c" using Cons.prems(3) by (simp add: word_less_def)
    note st = set_system_time_step [OF Cons.prems(1) h(2,1)]
    have u: "system_usec ?c = max (uint h) (system_usec c + 1)" using st(2) nb by simp
    have d: "?d = ?c\<lparr>start_time := system_time_sec ?c, start_time_sec_part := system_time_sec_part ?c\<rparr>"
      using Cons.prems(2) by (simp add: set_start_time_def Let_def)
    have ud: "system_usec ?d = system_usec ?c" "clock_ok ?d" "user_time ?d = 0"
      "system_time_start ?d = system_time_start ?c"
      using st(1) Cons.prems(2) unfolding d
      by (auto simp: system_usec_def clock_ok_def set_system_time_def Let_def)
    have "system_time_start ?c \<le> h" using st(3) nb by (simp add: max_def not_less split: if_splits)
    then have "sorted (map uint (system_time_start ?d # hs))"
      using Cons.prems(3) ud(4) by (auto simp: word_le_def)
    moreover have "\<forall>h \<in> set hs. uint h + int (length hs) < MAX_USEC" "system_usec ?d + int (length hs) < MAX_USEC"
      using Cons.prems(4,5) u ud(1) by auto
    ultimately have "fst (statement_times hs ?d) = next_usecs hs (system_usec ?d) \<and> clock_ok (snd (statement_times hs ?d))"
      using Cons.IH [OF ud(2,3)] by blast
    moreover have "sint (start_time ?d) * 1000000 + uint (start_time_sec_part ?d) = system_usec ?c"
      by (simp add: d system_usec_def)
    ultimately show ?case using u ud(1) by (auto simp: Let_def split: prod.splits)
  qed simp
  then show ?thesis using next_usecs_sorted [of "system_usec c" hs] by simp
qed

definition sample_clock :: session_clock where
  "sample_clock = \<lparr>user_time = 0, system_time_start = 5000000, system_time_sec = 5, system_time_sec_part = 999999,
     start_time = 0, start_time_sec_part = 0, query_start_sec_part_used = False, start_utime = 0, utime_after_lock = 0,
     utime_after_query = 0, slave_thread = True, server_status = 0, long_query_time = 0\<rparr>"

theorem statement_times_increase_witness:
  "fst (statement_times [5000000, 5000000, 7000003] sample_clock) = [6000000, 6000001, 7000003]"
  using statement_times_increase [of sample_clock "[5000000, 5000000, 7000003]"]
  by (simp add: sample_clock_def clock_ok_def SECOND_PART_MAX_def MAX_USEC_def system_usec_def)

text \<open>
  A time from the binary log is the time of the statement, and \<open>user_time\<close> hands it to the statements after it.
\<close>

lemma set_time_binlog_kept:
  fixes h h' timer :: ulonglong
  assumes "secure_number opt \<le> secure_number (if slave_thread c then SECTIME_REPL else SECTIME_SUPER)"
    and "0 \<le> sint t" "sec_part \<le> SECOND_PART_MAX" "t \<noteq> 0 \<or> sec_part \<noteq> 0"
  defines "c1 \<equiv> set_time_binlog opt t sec_part h timer c"
  shows "start_time c1 = t \<and> start_time_sec_part c1 = sec_part \<and>
    start_time (set_start_time h' c1) = t \<and> start_time_sec_part (set_start_time h' c1) = sec_part"
proof -
  have c1: "start_time c1 = t" "start_time_sec_part c1 = sec_part"
    "user_time c1 = hrtime_from_time t + ucast sec_part"
    using assms(1,3) by (simp_all add: c1_def set_time_binlog_def Let_def)
  have t: "0 \<le> uint t" "uint t < 2 ^ 31" "sint t = uint t"
    using assms(2) sint_lt [of t] uint_sint [of t] by (simp_all add: take_bit_int_eq_self)
  have p: "0 \<le> uint sec_part" "uint sec_part < 1000000"
    using assms(3) by (simp_all add: SECOND_PART_MAX_def word_le_def)
  have st: "uint (scast t :: ulonglong) = uint t"
    using t by (simp add: scast_eq take_bit_int_eq_self uint_word_of_int unsigned_ucast_eq)
  have sp: "uint (ucast sec_part :: ulonglong) = uint sec_part"
    using p by (simp add: unsigned_ucast_eq take_bit_int_eq_self)
  have u: "uint (user_time c1) = uint t * 1000000 + uint sec_part"
    unfolding c1(3) hrtime_from_time_def HRTIME_RESOLUTION_def
    using t p st sp by (simp add: uint_word_ariths)
  have nz: "user_time c1 \<noteq> 0"
  proof
    assume "user_time c1 = 0"
    then have "uint t * 1000000 + uint sec_part = 0" using u by simp
    then have "uint t = 0" "uint sec_part = 0" using t(1) p(1) by linarith+
    then have "t = 0" "sec_part = 0" by (simp_all add: word_eq_iff_unsigned [where 'a = int])
    then show False using assms(4) by simp
  qed
  have "uint (user_time c1) < MAX_USEC" using u t p by (simp add: MAX_USEC_def)
  note hp = hrtime_parts [OF this]
  have "sint (hrtime_to_my_time (user_time c1)) = sint t" "uint (hrtime_sec_part (user_time c1)) = uint sec_part"
    unfolding hp u using p t(3) by auto
  then have "hrtime_to_my_time (user_time c1) = t" "hrtime_sec_part (user_time c1) = sec_part"
    by (metis word_eq_iff_signed, simp add: word_eq_iff_unsigned [where 'a = int])
  then show ?thesis using c1(1,2) nz by (simp add: set_start_time_def)
qed

text \<open>
  Without microseconds in the log they are counted on, but not carried: the second that has used up all of them
  gets a million and one.
\<close>

lemma set_time_binlog_no_carry:
  assumes "secure_number opt \<le> secure_number (if slave_thread c then SECTIME_REPL else SECTIME_SUPER)"
    and "system_time_sec_part c = SECOND_PART_MAX"
  shows "\<not> clock_ok (set_time_binlog opt (system_time_sec c) (- 1) h timer c)"
proof -
  have "\<not> (- 1 :: ulong) \<le> 999999" by (simp add: word_le_def unsigned_minus_1_eq_mask mask_eq_exp_minus_1)
  then show ?thesis using assms by (simp add: set_time_binlog_def Let_def clock_ok_def SECOND_PART_MAX_def)
qed

end
