(* ===== verification/Spec2Isabelle.thy ===== *)
theory Spec2Isabelle
  imports MyBit Privilege ByteOrder MyisamPack SqlBitmap MyBitmap BaseList IList LifoBuffer TranxAllocator
    SqlTypeInt SqlLimit SqlStatistics WindowFunc PList IntrusiveList HashFilo MemRootArray SqlString
    DateMode MyTime TemporalBase TemporalClasses LexStream QueryTables MdlKey OptRange AutoInc SqlError
    Xid TrxInfo HandlerCursor Mbr SqlArray FilesortBuffer SortRecord BoundedQueue JsonWriter JsonScope IoCache
    CDouble LooseScan Predicant SessionClock
begin

text \<open>
  The repository is a billboard application in Java (\<open>src/Assignment/src\<close>) together with the MariaDB
  10.5.2 server it runs on (\<open>src/mariaDB/mariadb-10.5.2-winx64\<close>). Of the server the repository holds the
  binaries and the C and C++ headers; the code of the program that can be read is in the headers, as
  inline functions, macros and class bodies. This development models the self-contained components of
  \<open>include/mysql/server\<close> and proves what makes them correct.

  \<^bold>\<open>Layout.\<close> \<open>Prelude\<close> has the C integer types as words, byte arrays with checked access, and the generic
  lemmas. \<open>BitSetInterface\<close> has the locale of a set of bits that both bitmap theories implement. Each other
  theory is one component:

  \<^item> \<open>MyBit\<close> (\<open>my_bit.h\<close>): logarithm, population count, rounding to powers of two, bit reversal, first bit.
  \<^item> \<open>Privilege\<close> (\<open>privilege.h\<close>): the privilege bits, the sets of privileges per level and per statement, and
    the packing of database, table, procedure and column privileges into the rows of the grant tables.
  \<^item> \<open>ByteOrder\<close> (\<open>byte_order_generic*.h\<close>) and \<open>MyisamPack\<close> (\<open>myisampack.h\<close>): reading and writing integers of one
    to eight bytes, low and high byte first, in the portable and the x86 forms; locales \<open>int_codec\<close>,
    \<open>le_codec\<close> and \<open>be_codec\<close> give the round trips and the key order once for all widths.
  \<^item> \<open>SqlBitmap\<close> (\<open>sql_bitmap.h\<close>) and \<open>MyBitmap\<close> (\<open>my_bitmap.h\<close>): bitmaps of any width as sets of numbers.
  \<^item> \<open>BaseList\<close> and \<open>IList\<close> (\<open>sql_list.h\<close>): \<open>base_list\<close> with its iterators and \<open>bubble_sort\<close>, the intrusive
    doubly linked \<open>base_ilist\<close>, and \<open>SQL_I_List\<close>, each over an explicit store, so that aliasing of nodes and
    of the reference to the last link is part of the model; locale \<open>deque\<close>.
  \<^item> \<open>PList\<close> (\<open>sql_plist.h\<close>) and \<open>IntrusiveList\<close> (\<open>intrusive_list.h\<close>): lists whose elements carry the links, over
    explicit stores. \<open>ElementListInterface\<close> has the locales \<open>element_list\<close> and \<open>element_queue\<close> that both
    implement.
  \<^item> \<open>HashFilo\<close> (\<open>hash_filo.h\<close>): the cache that evicts what was used longest ago. \<open>LinkRings\<close> has the lemmas on
    circular chains that it shares with \<open>IntrusiveList\<close>.
  \<^item> \<open>MemRootArray\<close> (\<open>mem_root_array.h\<close>): the growing array.
  \<^item> \<open>SqlString\<close> (\<open>sql_string.h\<close>): byte strings that own, borrow or only read a buffer, over a memory of blocks;
    it stores numbers through the macros of \<open>ByteOrder\<close>.
  \<^item> \<open>LifoBuffer\<close> (\<open>sql_lifo_buffer.h\<close>): the two LIFO buffers that share one memory; locale \<open>lifo_store\<close>.
  \<^item> \<open>TranxAllocator\<close> (\<open>semisync_master.h\<close>): the block allocator of transaction nodes, over a heap of blocks at
    byte addresses; locale \<open>node_arena\<close>.
  \<^item> \<open>SqlTypeInt\<close> (\<open>sql_type_int.h\<close>): integers that carry their signedness. \<open>SqlLimit\<close> (\<open>sql_limit.h\<close>): the
    counters of \<open>LIMIT\<close> and \<open>OFFSET\<close>.
  \<^item> \<open>SqlStatistics\<close> (\<open>sql_statistics.h\<close>): histograms with their binary search, selectivity estimates, the null
    bits of column statistics. It reads values through the macros of \<open>ByteOrder\<close>.
  \<^item> \<open>WindowFunc\<close> (\<open>item_windowfunc.h\<close>): \<open>NTILE\<close>, \<open>PERCENTILE_DISC\<close>, \<open>PERCENTILE_CONT\<close>, \<open>CUME_DIST\<close>, the group
    tracker and the phases of a window function item.
  \<^item> \<open>DateMode\<close> (\<open>sql_basic_types.h\<close>) has the three classes of date and rounding modes, \<open>MyTime\<close> (\<open>mysql_time.h\<close>,
    \<open>my_time.h\<close>, \<open>sql_time.h\<close>, \<open>compat56.h\<close>) the structure \<open>MYSQL_TIME\<close> and its inline helpers. On them rest
    \<open>TemporalBase\<close>, seconds with fractions, time intervals, \<open>EXTRACT\<close>, \<open>ADDTIME\<close>, and \<open>TemporalClasses\<close>, the
    value classes \<open>Time\<close>, \<open>Date\<close>, \<open>Datetime\<close>, \<open>Timestamp\<close> and \<open>Timestamp_or_zero_datetime\<close> (\<open>sql_type.h\<close>); locale
    \<open>checked_rounding\<close> gives what rounding by mode keeps, once for all classes. The routines of the time library
    are the records \<open>time_lib\<close> and \<open>date_lib\<close> of parameters.
  \<^item> \<open>LexStream\<close> (\<open>sql_lex.h\<close>): the character stream of the lexer with its raw and its pre-processed buffer; the
    order of calls the comments require is the step relation \<open>lex_step\<close>.
  \<^item> \<open>QueryTables\<close> (\<open>sql_lex.h\<close>): the unsafe flags and table accesses of a statement, the decision on mixed
    statements, and the global list of tables with its own part.
  \<^item> \<open>MdlKey\<close> (\<open>mdl.h\<close>): keys and requests of metadata locks.
  \<^item> \<open>OptRange\<close> (\<open>opt_range.h\<close>): the intervals of the range optimizer, as cuts of the ordered key values, and
    the keys written from them.
  \<^item> \<open>AutoInc\<close> (\<open>structs.h\<close>): the intervals of generated key values, their list, and the DDL options.
  \<^item> \<open>SqlError\<close> (\<open>sql_error.h\<close>): SQL states, conditions, warning lists, and the diagnostics area, whose stack of
    warning lists is a list of \<open>PList\<close> and whose operations on a list, also on one that is not the current one, are
    the calls \<open>da_call\<close>; the functions of \<open>Warning_info\<close> in \<open>sql_error.cc\<close> are the record \<open>wi_extern\<close> of parameters.
  \<^item> \<open>HandlerCursor\<close>, \<open>TrxInfo\<close> and \<open>Xid\<close> (\<open>handler.h\<close>): the wrappers of the base class \<open>handler\<close> around the virtual
    functions of an engine, with the calls an engine sees and the automata they follow, locale
    \<open>cursor_contract\<close>; the engines that take part in a transaction; and transaction identifiers.
  \<^item> \<open>Mbr\<close> (\<open>spatial.h\<close>): bounding rectangles as sets of points, and the reading of stored points.
  \<^item> \<open>SqlArray\<close> (\<open>sql_array.h\<close>), \<open>FilesortBuffer\<close> (\<open>filesort_utils.h\<close>), \<open>SortRecord\<close> (\<open>sql_sort.h\<close>) and
    \<open>BoundedQueue\<close> (\<open>bounded_queue.h\<close>, \<open>queues.h\<close>) are the parts of sorting: arrays with checked access, the
    buffer that records grow into from the left and their pointers from the right, the lengths in packed
    records, and the queue that \<open>ORDER BY ... LIMIT\<close> keeps its rows in.
  \<^item> \<open>JsonWriter\<close> and \<open>JsonScope\<close> (\<open>my_json_writer.h\<close>): the optimizer trace, its string with a limit and the
    classes whose scopes are the parts of the document.
  \<^item> \<open>IoCache\<close> (\<open>my_sys.h\<close>): reading and writing files through a buffer.
  \<^item> \<open>LooseScan\<close> (\<open>opt_subselect.h\<close>): which indexes serve a LooseScan of a semi-join, and the cheapest plan.
    \<open>Predicant\<close> (\<open>item_cmpfunc.h\<close>): the comparison of an item with a list, for \<open>IN\<close>, \<open>CASE\<close> and \<open>DECODE\<close>.
    \<open>SessionClock\<close> (\<open>sql_class.h\<close>): the time of a statement. \<open>CDouble\<close> has the largest \<open>double\<close>.

  \<^bold>\<open>Conventions.\<close> A struct or class is a record, an enumeration a datatype or its constants, an integer a
  word of its width where wrap-around can matter and a natural number where a bound is established
  beforehand. An operation that changes an object returns the changed object. Undefined behaviour
  (an access outside an object, a null dereference, a shift by the width) and a failed allocation that
  the code does not handle are the value \<^term>\<open>None\<close>; errors that the code reports are values. A debug
  assertion that delimits what the operation is defined for (\<open>at\<close>, \<open>chop\<close> and \<open>pop_back\<close> of \<open>MemRootArray\<close>, the
  cached flags of \<open>SortRecord\<close>) is the value \<^term>\<open>None\<close> where it fails; the others are hypotheses where a lemma
  needs them, as \<open>asserted\<close> in \<open>HandlerCursor\<close>, or are proved, as the validity a constructor of \<open>TemporalClasses\<close>
  asserts of its result.
  Functions that the headers only declare (\<open>my_malloc\<close>, \<open>alloc_root\<close>, \<open>realloc_raw\<close>, the functions of \<open>HASH\<close>, \<open>my_qsort2\<close>, \<open>test_if_group_changed\<close>, readers of
  cached items, the functions of \<open>QUEUE\<close>, of \<open>Json_writer\<close> and the slow paths of \<open>IO_CACHE\<close>) are parameters, with
  what is relied on as hypotheses. A \<open>double\<close> is a real number.

  \<^bold>\<open>Loops.\<close> Loops over the bits of a word or the elements of a list are structural recursions. The walks
  over linked blocks, the binary search and the loops of \<open>resize\<close>, whose end depends on the data, are partial functions into
  options; that they return is part of the theorems about them. Fuel is used for the bitmap
  iterator, whose bound, the width plus one, is proved to be enough, and for the descent along key parts in
  \<open>OptRange\<close>, where 256 levels are proved to be enough because the number of the key part, a byte, increases.

  \<^bold>\<open>What is shown.\<close> The containers refine sets, lists, queues and stacks, keep their invariants, and
  touch nothing else in the store; the two forms of each byte order macro agree and are inverse to
  the writers; packing of privileges is a bijection; the allocator never hands out a node in use and
  frees what its specification says; the cache keeps what was searched or added recently;
  the growing array and the strings fail exactly when an allocation does; strings are never written outside their buffer, and a buffer is
  freed once; the numeric components return the mathematical result and do
  not wrap. A \<open>Temporal_with_date\<close>, \<open>Date\<close> or \<open>Datetime\<close> keeps the invariant of its class whichever
  constructors, truncations and roundings with code in the header made it, given what \<open>date_laws\<close> documents of the
  routines they call (the constructors of \<open>Datetime\<close> from a \<open>timeval\<close> and, without decimals, from a \<open>MYSQL_TIME\<close>
  are only declared); the lexer stream refines a pair of texts, stays in its buffers and reaches the end of the query; keys of
  locks identify their objects; an interval is cut into pieces that are known exactly, value by value and end by
  end, and the key written from a chain of key parts is the sequence of their left ends; nested use of the diagnostics
  area, each part between a push and a pop of a list of warnings, leaves the list below alone, unless it is asked to
  copy into it; an engine sees the start and the end of every scan in turn, whatever it answers; identifiers of
  transactions are compared by their hash key, and those of the server are told apart from foreign ones; records
  and pointers of a sort buffer never overlap and packed records are read back; the bounded queue keeps the smallest
  keys; a trace is a well-formed document; a cached file is a stream. Several theorems show where the code does not do what it means to: \<open>push_back\<close> without
  memory, \<open>move_elements_to\<close>, \<open>SQL_I_List::push_front\<close> on an empty list, \<open>Bitmap::print\<close>,
  \<open>pop_back\<close> of the circular list, the full range in \<open>copy_min\<close> and \<open>copy_max\<close>, \<open>reserve\<close> of a huge array, \<open>append_with_step\<close> beyond 4 GB and the search in a histogram of two values.

  \<^bold>\<open>Not modelled.\<close> The Java program is event handlers of a GUI toolkit and SQL statements passed to a
  database driver, whose behaviour is that of the toolkit, the sockets and the server. The large class
  hierarchies (\<open>item.h\<close>, \<open>field.h\<close>, the type handlers of \<open>sql_type.h\<close>, \<open>sql_class.h\<close>, most of \<open>handler.h\<close> and of
  \<open>sql_lex.h\<close>, \<open>log_event.h\<close>) declare functions whose bodies are in source files that the repository does not hold.
\<close>

end
